(* ===== verification/Ufw_Prelude.thy ===== *)
theory Ufw_Prelude
  imports Main "HOL-Library.Word" "HOL-Library.Monad_Syntax"
begin

text \<open>
  Shared vocabulary of the development: the fixed-width integer types of the C code, \<open>size_t\<close>
  arithmetic with its wrap-around, the error numbers, and reads and writes of memory objects.

  A call that has a defined result is \<open>Some\<close>; \<open>None\<close> stands for every way in which a C call has
  none: an access outside of a memory object, a dereferenced NULL pointer, an undefined arithmetic
  operation, or a loop that never stops. Assertions are compiled out, as in the build's default. Theorems
  that a call is \<open>Some\<close> therefore are memory safety and termination statements. The machine modelled is an
  LP64 host with eight-bit bytes; code that depends on the order of octets in memory takes it as a parameter.
\<close>

unbundle bit_operations_syntax

named_theorems size_simps \<open>size_t arithmetic in the absence of wrap-around\<close>
named_theorems mem_simps \<open>evaluation of memory accesses\<close>
named_theorems errno_defs \<open>numeric values of the error numbers\<close>

type_synonym u8 = "8 word"
type_synonym u16 = "16 word"
type_synonym u32 = "32 word"
type_synonym u64 = "64 word"

text \<open>\<open>size_t\<close> values are naturals below \<open>2 ^ 64\<close>; sums and differences wrap.\<close>

definition SIZE_MOD :: nat where
  "SIZE_MOD = 2 ^ 64"

definition SSIZE_MAX :: nat where
  "SSIZE_MAX = 2 ^ 63 - 1"

definition sz_add :: "nat \<Rightarrow> nat \<Rightarrow> nat" where
  "sz_add a b = (a + b) mod SIZE_MOD"

definition sz_sub :: "nat \<Rightarrow> nat \<Rightarrow> nat" where
  "sz_sub a b = (if b \<le> a then a - b else a + SIZE_MOD - b)"

lemma sz_add_id [size_simps]: "a + b < SIZE_MOD \<Longrightarrow> sz_add a b = a + b"
  by (simp add: sz_add_def)

lemma sz_add_Suc: "a < n \<Longrightarrow> n \<le> SSIZE_MAX \<Longrightarrow> sz_add a (Suc 0) = Suc a"
  by (simp add: sz_add_def SSIZE_MAX_def SIZE_MOD_def)

lemma sz_sub_id [size_simps, simp]: "b \<le> a \<Longrightarrow> sz_sub a b = a - b"
  by (simp add: sz_sub_def)

lemma sz_add_less [simp]: "sz_add a b < SIZE_MOD"
  by (simp add: sz_add_def SIZE_MOD_def)

lemma SIZE_MOD_pos [simp]: "0 < SIZE_MOD"
  by (simp add: SIZE_MOD_def)

lemma SSIZE_MAX_less: "n \<le> SSIZE_MAX \<Longrightarrow> n < SIZE_MOD"
  by (simp add: SSIZE_MAX_def SIZE_MOD_def)

lemma sz_add_wraps:
  assumes "a < SIZE_MOD" "b < SIZE_MOD" "SIZE_MOD \<le> a + b"
  shows "sz_add a b < a"
proof -
  have "(a + b) mod SIZE_MOD = a + b - SIZE_MOD"
    using assms by (simp add: mod_if)
  then show ?thesis
    using assms by (simp add: sz_add_def)
qed

text \<open>
  Conversions the code makes between its integer types: \<open>size_t\<close> to \<open>ssize_t\<close>, \<open>ssize_t\<close> to \<open>int\<close>, and
  a positive \<open>ssize_t\<close> count back to \<open>size_t\<close>.
\<close>

definition to_ssize :: "nat \<Rightarrow> int" where
  "to_ssize n = (if n \<le> SSIZE_MAX then int n else int n - int SIZE_MOD)"

definition to_int :: "int \<Rightarrow> int" where
  "to_int x = (x + 2 ^ 31) mod 2 ^ 32 - 2 ^ 31"

lemma to_ssize_id [simp]: "n \<le> SSIZE_MAX \<Longrightarrow> to_ssize n = int n"
  by (simp add: to_ssize_def)

lemma to_int_id [simp]: "- (2 ^ 31) \<le> x \<Longrightarrow> x < 2 ^ 31 \<Longrightarrow> to_int x = x"
  by (simp add: to_int_def)

text \<open>Error numbers with the values of the host's C library; calls return them negated.\<close>

definition EINTR :: int where [errno_defs]: "EINTR = 4"
definition EIO :: int where [errno_defs]: "EIO = 5"
definition EAGAIN :: int where [errno_defs]: "EAGAIN = 11"
definition ENOMEM :: int where [errno_defs]: "ENOMEM = 12"
definition EFAULT :: int where [errno_defs]: "EFAULT = 14"
definition EBUSY :: int where [errno_defs]: "EBUSY = 16"
definition EINVAL :: int where [errno_defs]: "EINVAL = 22"
definition EPIPE :: int where [errno_defs]: "EPIPE = 32"
definition ERANGE :: int where [errno_defs]: "ERANGE = 34"
definition ENODATA :: int where [errno_defs]: "ENODATA = 61"
definition EPROTO :: int where [errno_defs]: "EPROTO = 71"
definition EBADMSG :: int where [errno_defs]: "EBADMSG = 74"
definition EBADFD :: int where [errno_defs]: "EBADFD = 77"
definition EILSEQ :: int where [errno_defs]: "EILSEQ = 84"
definition ENOTSUP :: int where [errno_defs]: "ENOTSUP = 95"

text \<open>
  A memory object is the list of its cells. A read or write of a block is defined when the block
  lies inside of the object.
\<close>

definition mem_read :: "'a list \<Rightarrow> nat \<Rightarrow> nat \<Rightarrow> 'a list option" where
  "mem_read m off n = (if off + n \<le> length m then Some (take n (drop off m)) else None)"

definition mem_write :: "'a list \<Rightarrow> nat \<Rightarrow> 'a list \<Rightarrow> 'a list option" where
  "mem_write m off xs =
     (if off + length xs \<le> length m
      then Some (take off m @ xs @ drop (off + length xs) m) else None)"

lemma mem_read_inside [mem_simps]:
  "off + n \<le> length m \<Longrightarrow> mem_read m off n = Some (take n (drop off m))"
  by (simp add: mem_read_def)

lemma mem_write_inside [mem_simps]:
  "off + length xs \<le> length m \<Longrightarrow>
     mem_write m off xs = Some (take off m @ xs @ drop (off + length xs) m)"
  by (simp add: mem_write_def)

lemma mem_read_one [mem_simps]: "i < length m \<Longrightarrow> mem_read m i (Suc 0) = Some [m ! i]"
  by (simp add: mem_read_def Suc_leI take_Suc hd_drop_conv_nth)

lemma mem_read_Some_iff: "mem_read m off n = Some xs \<longleftrightarrow>
    off + n \<le> length m \<and> xs = take n (drop off m)"
  by (auto simp: mem_read_def)

lemma mem_write_length: "mem_write m off xs = Some m' \<Longrightarrow> length m' = length m"
  by (auto simp: mem_write_def split: if_splits)

lemma mem_read_length: "mem_read m off n = Some xs \<Longrightarrow> length xs = n"
  by (auto simp: mem_read_Some_iff)

lemma mem_read_write:
  assumes "mem_write m off xs = Some m'"
  shows "mem_read m' off (length xs) = Some xs"
  using assms by (auto simp: mem_write_def mem_read_def split: if_splits)

lemma mem_read_write_before:
  assumes "mem_write m off xs = Some m'" and "o2 + n \<le> off"
  shows "mem_read m' o2 n = mem_read m o2 n"
  using assms by (auto simp: mem_write_def mem_read_def min_def drop_take split: if_splits)

lemma mem_read_write_after:
  assumes "mem_write m off xs = Some m'" and "off + length xs \<le> o2"
  shows "mem_read m' o2 n = mem_read m o2 n"
proof -
  from assms(1) have l: "off + length xs \<le> length m"
    and m': "m' = take off m @ xs @ drop (off + length xs) m"
    by (auto simp: mem_write_def split: if_splits)
  have "drop o2 m' = drop o2 m"
    using l assms(2) by (simp add: m')
  then show ?thesis
    using l by (simp add: mem_read_def m')
qed

text \<open>The memory after a block was stored in it.\<close>

definition overwrite :: "'a list \<Rightarrow> nat \<Rightarrow> 'a list \<Rightarrow> 'a list" where
  "overwrite m off xs = take off m @ xs @ drop (off + length xs) m"

lemma mem_write_overwrite:
  "off + length xs \<le> length m \<Longrightarrow> mem_write m off xs = Some (overwrite m off xs)"
  by (simp add: mem_write_def overwrite_def)

lemma overwrite_Nil [simp]: "overwrite m off [] = m"
  by (simp add: overwrite_def)

lemma length_overwrite [simp]: "off + length xs \<le> length m \<Longrightarrow> length (overwrite m off xs) = length m"
  by (simp add: overwrite_def)

lemma overwrite_append:
  "off + length xs + length ys \<le> length m \<Longrightarrow>
     overwrite (overwrite m off xs) (off + length xs) ys = overwrite m off (xs @ ys)"
  by (simp add: overwrite_def ac_simps)

lemma mem_read_overwrite:
  "off + length xs \<le> length m \<Longrightarrow> n \<le> length xs \<Longrightarrow> mem_read (overwrite m off xs) off n = Some (take n xs)"
  by (simp add: mem_read_def overwrite_def)

text \<open>Induction on a pair of measures, the first more important than the second.\<close>

lemma lex_measure_induct [case_names less]:
  fixes f g :: "'a \<Rightarrow> nat"
  assumes "\<And>x. (\<And>y. f y < f x \<or> f y = f x \<and> g y < g x \<Longrightarrow> P y) \<Longrightarrow> P x"
  shows "P a"
proof -
  have "wf (inv_image (less_than <*lex*> less_than) (\<lambda>x. (f x, g x)))"
    by auto
  then show ?thesis
    by (induction a rule: wf_induct_rule) (auto intro: assms)
qed

lemma lex_pair_induct [case_names less]:
  fixes p :: "nat \<times> nat"
  assumes "\<And>a b. (\<And>c d. c < a \<or> c = a \<and> d < b \<Longrightarrow> P (c, d)) \<Longrightarrow> P (a, b)"
  shows "P p"
  by (induction p rule: lex_measure_induct [where f = fst and g = snd]) (metis assms prod.collapse fst_conv snd_conv)

text \<open>Adjacent slices of a list.\<close>

lemma take_drop_append: "take n (drop k xs) @ take m (drop (n + k) xs) = take (n + m) (drop k xs)"
  by (simp add: take_add)

lemma take_slice: "k \<le> n \<Longrightarrow> take (n - k) (drop k xs) = drop k (take n xs)"
  by (simp add: drop_take)

lemma unat_u8_less [simp]: "unat (x :: u8) < 256"
  using unsigned_less [of x] by simp

lemma unat_of_nat_u8: "n < 256 \<Longrightarrow> unat (of_nat n :: u8) = n"
  by (simp add: unat_of_nat)

text \<open>The octet order of the machine the code is compiled for.\<close>

datatype endianness = SYSTEM_ENDIANNESS_BIG | SYSTEM_ENDIANNESS_LITTLE

end
