(* ===== verification/Interfaces.thy ===== *)
theory Interfaces
  imports Ufw_Prelude
begin

text \<open>
  The contracts one component of the library relies on another for, as locales: the operations a
  client calls, what the provider promises of them, and the client facts that follow. Each locale is
  interpreted on the model of the code in the theory of the component that provides it.
\<close>

section \<open>A queue with block writes and block reads\<close>

datatype 'a queue_op = Put "'a list" | Get nat | Compact

text \<open>
  Running a list of operations collects the data the queue accepted (a \<open>put\<close> that returns zero) and
  the data it gave out, in order.
\<close>

fun queue_run ::
    "('s \<Rightarrow> 'a list \<Rightarrow> (int \<times> 's) option) \<Rightarrow> ('s \<Rightarrow> nat \<Rightarrow> (int \<times> 'a list \<times> 's) option)
      \<Rightarrow> ('s \<Rightarrow> (int \<times> 's) option) \<Rightarrow> 's \<Rightarrow> 'a queue_op list \<Rightarrow> ('a list \<times> 'a list \<times> 's) option" where
  "queue_run put get compact s [] = Some ([], [], s)"
| "queue_run put get compact s (Put xs # ops) = do {
     (rc, s') \<leftarrow> put s xs;
     (ins, outs, s'') \<leftarrow> queue_run put get compact s' ops;
     Some ((if rc = 0 then xs else []) @ ins, outs, s'')
   }"
| "queue_run put get compact s (Get n # ops) = do {
     (rc, ys, s') \<leftarrow> get s n;
     (ins, outs, s'') \<leftarrow> queue_run put get compact s' ops;
     Some (ins, ys @ outs, s'')
   }"
| "queue_run put get compact s (Compact # ops) = do {
     (rc, s') \<leftarrow> compact s;
     queue_run put get compact s' ops
   }"

locale block_queue =
  fixes qinv :: "'s \<Rightarrow> bool"
    and pending :: "'s \<Rightarrow> 'a list"
    and put :: "'s \<Rightarrow> 'a list \<Rightarrow> (int \<times> 's) option"
    and get :: "'s \<Rightarrow> nat \<Rightarrow> (int \<times> 'a list \<times> 's) option"
    and compact :: "'s \<Rightarrow> (int \<times> 's) option"
  assumes put_law: "qinv s \<Longrightarrow> length xs < 2 ^ 63 \<Longrightarrow>
      \<exists>rc s'. put s xs = Some (rc, s') \<and> qinv s' \<and>
              pending s' = (if rc = 0 then pending s @ xs else pending s)"
    and get_law: "qinv s \<Longrightarrow>
      \<exists>rc ys s'. get s n = Some (rc, ys, s') \<and> qinv s' \<and> pending s = ys @ pending s'"
    and compact_law: "qinv s \<Longrightarrow>
      \<exists>rc s'. compact s = Some (rc, s') \<and> qinv s' \<and> pending s' = pending s"
begin

lemma queue_run_fifo:
  assumes "qinv s" and "\<forall>xs. Put xs \<in> set ops \<longrightarrow> length xs < 2 ^ 63"
  shows "\<exists>ins outs s'. queue_run put get compact s ops = Some (ins, outs, s') \<and> qinv s' \<and>
           pending s @ ins = outs @ pending s'"
  using assms
proof (induction ops arbitrary: s)
  case Nil
  then show ?case by simp
next
  case (Cons op ops)
  show ?case
  proof (cases op)
    case (Put xs)
    with Cons.prems obtain rc s1 where p: "put s xs = Some (rc, s1)" "qinv s1"
      "pending s1 = (if rc = 0 then pending s @ xs else pending s)"
      using put_law [of s xs] by auto
    from Cons.IH [OF p(2)] Cons.prems(2) obtain ins outs s' where
      "queue_run put get compact s1 ops = Some (ins, outs, s')" "qinv s'"
      "pending s1 @ ins = outs @ pending s'" by auto
    with p Put show ?thesis by (auto split: if_splits)
  next
    case (Get n)
    with Cons.prems obtain rc ys s1 where g: "get s n = Some (rc, ys, s1)" "qinv s1"
      "pending s = ys @ pending s1"
      using get_law [of s n] by auto
    from Cons.IH [OF g(2)] Cons.prems(2) obtain ins outs s' where
      "queue_run put get compact s1 ops = Some (ins, outs, s')" "qinv s'"
      "pending s1 @ ins = outs @ pending s'" by auto
    with g Get show ?thesis by auto
  next
    case Compact
    with Cons.prems obtain rc s1 where c: "compact s = Some (rc, s1)" "qinv s1"
      "pending s1 = pending s"
      using compact_law [of s] by auto
    from Cons.IH [OF c(2)] Cons.prems(2) obtain ins outs s' where
      "queue_run put get compact s1 ops = Some (ins, outs, s')" "qinv s'"
      "pending s1 @ ins = outs @ pending s'" by auto
    with c Compact show ?thesis by auto
  qed
qed

end

section \<open>Checksums that may be computed piecewise\<close>

locale streaming_sum =
  fixes sum :: "'c \<Rightarrow> u8 list \<Rightarrow> 'c"
  assumes sum_Nil: "sum c [] = c"
    and sum_append: "sum c (xs @ ys) = sum (sum c xs) ys"
begin

lemma sum_chunks: "foldl sum c chunks = sum c (concat chunks)"
  by (induction chunks arbitrary: c) (simp_all add: sum_Nil sum_append)

lemma sum_split: "sum (sum c (take n xs)) (drop n xs) = sum c xs"
  by (simp flip: sum_append)

end

section \<open>A bounded queue of elements\<close>

text \<open>
  The queue holds at most \<open>cap\<close> elements. When it is full a new element is refused, or takes the
  place of the oldest one in override mode. Fetching from an empty queue gives zero.
\<close>

definition queue_put :: "nat \<Rightarrow> bool \<Rightarrow> 'a list \<Rightarrow> 'a \<Rightarrow> 'a list" where
  "queue_put cap override q x =
     (if length q < cap then q @ [x] else if override then tl q @ [x] else q)"

definition queue_get :: "'a::zero list \<Rightarrow> 'a \<times> 'a list" where
  "queue_get q = (case q of [] \<Rightarrow> (0, []) | x # q' \<Rightarrow> (x, q'))"

datatype 'a ring_op = R_put 'a | R_get | R_clear | R_override bool

fun ring_spec :: "nat \<Rightarrow> bool \<Rightarrow> 'a::zero list \<Rightarrow> 'a ring_op list \<Rightarrow> 'a list \<times> 'a list" where
  "ring_spec cap override q [] = ([], q)"
| "ring_spec cap override q (R_put x # ops) = ring_spec cap override (queue_put cap override q x) ops"
| "ring_spec cap override q (R_get # ops) =
     (let (x, q') = queue_get q; (xs, q'') = ring_spec cap override q' ops in (x # xs, q''))"
| "ring_spec cap override q (R_clear # ops) = ring_spec cap override [] ops"
| "ring_spec cap override q (R_override b # ops) = ring_spec cap b q ops"

fun ring_run ::
    "('s \<Rightarrow> 'a \<Rightarrow> 's option) \<Rightarrow> ('s \<Rightarrow> ('a \<times> 's) option) \<Rightarrow> ('s \<Rightarrow> 's) \<Rightarrow> ('s \<Rightarrow> bool \<Rightarrow> 's)
      \<Rightarrow> 's \<Rightarrow> 'a ring_op list \<Rightarrow> ('a list \<times> 's) option" where
  "ring_run put get clear ovr s [] = Some ([], s)"
| "ring_run put get clear ovr s (R_put x # ops) =
     do { s' \<leftarrow> put s x; ring_run put get clear ovr s' ops }"
| "ring_run put get clear ovr s (R_get # ops) =
     do { (x, s') \<leftarrow> get s; (xs, s'') \<leftarrow> ring_run put get clear ovr s' ops; Some (x # xs, s'') }"
| "ring_run put get clear ovr s (R_clear # ops) = ring_run put get clear ovr (clear s) ops"
| "ring_run put get clear ovr s (R_override b # ops) = ring_run put get clear ovr (ovr s b) ops"

locale bounded_queue =
  fixes qinv :: "'s \<Rightarrow> bool"
    and contents :: "'s \<Rightarrow> 'a::zero list"
    and capacity :: "'s \<Rightarrow> nat"
    and override :: "'s \<Rightarrow> bool"
    and put :: "'s \<Rightarrow> 'a \<Rightarrow> 's option"
    and get :: "'s \<Rightarrow> ('a \<times> 's) option"
    and clear :: "'s \<Rightarrow> 's"
    and set_override :: "'s \<Rightarrow> bool \<Rightarrow> 's"
  assumes put_law: "qinv s \<Longrightarrow> \<exists>s'. put s x = Some s' \<and> qinv s' \<and>
        contents s' = queue_put (capacity s) (override s) (contents s) x \<and>
        capacity s' = capacity s \<and> override s' = override s"
    and get_law: "qinv s \<Longrightarrow> \<exists>s'. get s = Some (fst (queue_get (contents s)), s') \<and> qinv s' \<and>
        contents s' = snd (queue_get (contents s)) \<and>
        capacity s' = capacity s \<and> override s' = override s"
    and clear_inv: "qinv s \<Longrightarrow> qinv (clear s)"
    and clear_contents: "qinv s \<Longrightarrow> contents (clear s) = []"
    and clear_keeps: "capacity (clear s) = capacity s" "override (clear s) = override s"
    and set_override_inv: "qinv s \<Longrightarrow> qinv (set_override s b)"
    and set_override_contents: "qinv s \<Longrightarrow> contents (set_override s b) = contents s"
    and set_override_sets: "capacity (set_override s b) = capacity s" "override (set_override s b) = b"
begin

lemma ring_run_refines:
  "qinv s \<Longrightarrow>
     \<exists>s'. ring_run put get clear set_override s ops =
            Some (fst (ring_spec (capacity s) (override s) (contents s) ops), s') \<and> qinv s' \<and>
          contents s' = snd (ring_spec (capacity s) (override s) (contents s) ops)"
proof (induction ops arbitrary: s)
  case Nil
  then show ?case by simp
next
  case (Cons op ops)
  show ?case
  proof (cases op)
    case (R_put x)
    with put_law [OF Cons.prems, of x] Cons.IH show ?thesis by fastforce
  next
    case R_get
    from get_law [OF Cons.prems] obtain s1 where g:
      "get s = Some (fst (queue_get (contents s)), s1)" "qinv s1"
      "contents s1 = snd (queue_get (contents s))" "capacity s1 = capacity s" "override s1 = override s"
      by blast
    from Cons.IH [OF g(2)] g R_get show ?thesis
      by (auto simp: split_def Let_def)
  next
    case R_clear
    with Cons.IH [OF clear_inv [OF Cons.prems]] Cons.prems show ?thesis
      by (simp add: clear_contents clear_keeps)
  next
    case (R_override b)
    with Cons.IH [OF set_override_inv [OF Cons.prems]] Cons.prems show ?thesis
      by (simp add: set_override_contents set_override_sets)
  qed
qed

end

section \<open>Data of a fixed number of octets in memory\<close>

text \<open>
  What a reading and a storing function promise, as functions of the whole memory: a datum of \<open>n\<close> octets
  is read by decoding the octets, and stored by replacing them; an access that does not fit is undefined.
\<close>

definition bf_loads :: "(u8 list \<Rightarrow> nat \<Rightarrow> 'v option) \<Rightarrow> nat \<Rightarrow> (u8 list \<Rightarrow> 'v) \<Rightarrow> bool" where
  "bf_loads ref n dec \<longleftrightarrow>
     (\<forall>m ptr. ref m ptr = (if ptr + n \<le> length m then Some (dec (take n (drop ptr m))) else None))"

definition bf_stores :: "(u8 list \<Rightarrow> nat \<Rightarrow> 'v \<Rightarrow> (nat \<times> u8 list) option) \<Rightarrow> nat \<Rightarrow> ('v \<Rightarrow> u8 list) \<Rightarrow> bool" where
  "bf_stores put n enc \<longleftrightarrow>
     (\<forall>m ptr v. put m ptr v = (if ptr + n \<le> length m then Some (ptr + n, overwrite m ptr (enc v)) else None))"

text \<open>Several data, one behind the other: each is stored at the pointer the last call returned.\<close>

fun put_all :: "(u8 list \<Rightarrow> nat \<Rightarrow> 'v \<Rightarrow> (nat \<times> u8 list) option) \<Rightarrow> u8 list \<Rightarrow> nat \<Rightarrow> 'v list \<Rightarrow> (nat \<times> u8 list) option" where
  "put_all put m ptr [] = Some (ptr, m)"
| "put_all put m ptr (v # vs) = do { (ptr', m') \<leftarrow> put m ptr v; put_all put m' ptr' vs }"

fun ref_all :: "(u8 list \<Rightarrow> nat \<Rightarrow> 'v option) \<Rightarrow> nat \<Rightarrow> u8 list \<Rightarrow> nat \<Rightarrow> nat \<Rightarrow> 'v list option" where
  "ref_all ref n m ptr 0 = Some []"
| "ref_all ref n m ptr (Suc k) = do { v \<leftarrow> ref m ptr; vs \<leftarrow> ref_all ref n m (ptr + n) k; Some (v # vs) }"

definition codec_roundtrip ::
    "(u8 list \<Rightarrow> nat \<Rightarrow> 'v option) \<Rightarrow> (u8 list \<Rightarrow> nat \<Rightarrow> 'v \<Rightarrow> (nat \<times> u8 list) option) \<Rightarrow> nat \<Rightarrow> ('v \<Rightarrow> bool) \<Rightarrow> bool" where
  "codec_roundtrip ref put n fits \<longleftrightarrow>
     (\<forall>m ptr vs. (\<forall>v \<in> set vs. fits v) \<and> ptr + n * length vs \<le> length m \<longrightarrow>
        (\<exists>m'. put_all put m ptr vs = Some (ptr + n * length vs, m') \<and>
              ref_all ref n m' ptr (length vs) = Some vs \<and>
              length m' = length m \<and> take ptr m' = take ptr m \<and>
              drop (ptr + n * length vs) m' = drop (ptr + n * length vs) m))"

locale datum_codec =
  fixes ref :: "u8 list \<Rightarrow> nat \<Rightarrow> 'v option"
    and put :: "u8 list \<Rightarrow> nat \<Rightarrow> 'v \<Rightarrow> (nat \<times> u8 list) option"
    and width :: nat
    and decode :: "u8 list \<Rightarrow> 'v"
    and octets :: "'v \<Rightarrow> u8 list"
    and fits :: "'v \<Rightarrow> bool"
  assumes loads: "bf_loads ref width decode"
    and stores: "bf_stores put width octets"
    and length_octets: "length (octets v) = width"
    and decode_octets: "fits v \<Longrightarrow> decode (octets v) = v"
begin

lemma ref_eq: "ref m ptr = (if ptr + width \<le> length m then Some (decode (take width (drop ptr m))) else None)"
  using loads by (simp add: bf_loads_def)

lemma put_eq: "put m ptr v = (if ptr + width \<le> length m then Some (ptr + width, overwrite m ptr (octets v)) else None)"
  using stores by (simp add: bf_stores_def)

lemma put_then_ref:
  assumes "fits v" and "put m ptr v = Some (q, m')"
  shows "ref m' ptr = Some v"
  using assms by (auto simp: ref_eq put_eq overwrite_def length_octets decode_octets split: if_splits)

lemma put_all_eq:
  "ptr + width * length vs \<le> length m \<Longrightarrow>
     put_all put m ptr vs = Some (ptr + width * length vs, overwrite m ptr (concat (map octets vs)))"
proof (induction vs arbitrary: m ptr)
  case (Cons v vs)
  have len: "length (concat (map octets vs)) = width * length vs"
    by (induction vs) (simp_all add: length_octets)
  show ?case
    using Cons.prems Cons.IH [of "ptr + width" "overwrite m ptr (octets v)"]
      overwrite_append [of ptr "octets v" "concat (map octets vs)" m]
    by (simp add: put_eq length_octets len ac_simps)
qed simp

lemma ref_all_eq:
  assumes "\<forall>v \<in> set vs. fits v"
  shows "take (width * length vs) (drop ptr m) = concat (map octets vs) \<Longrightarrow> ptr + width * length vs \<le> length m \<Longrightarrow>
     ref_all ref width m ptr (length vs) = Some vs"
  using assms
proof (induction vs arbitrary: ptr)
  case (Cons v vs)
  have t: "take (width + width * length vs) (drop ptr m) = octets v @ concat (map octets vs)"
    using Cons.prems(1) by simp
  have "take width (take (width + width * length vs) (drop ptr m)) = octets v"
    unfolding t by (simp add: length_octets)
  moreover have "drop width (take (width + width * length vs) (drop ptr m)) = concat (map octets vs)"
    unfolding t by (simp add: length_octets)
  ultimately have "take width (drop ptr m) = octets v"
    and "take (width * length vs) (drop (ptr + width) m) = concat (map octets vs)"
    by (simp_all add: drop_take min_def add.commute split: if_splits)
  with Cons.prems(2,3) Cons.IH [of "ptr + width"] show ?case
    by (simp add: ref_eq decode_octets)
qed simp

lemma roundtrip: "codec_roundtrip ref put width fits"
  unfolding codec_roundtrip_def
proof (intro allI impI, elim conjE)
  fix m :: "u8 list" and ptr and vs :: "'v list"
  assume fit: "\<forall>v \<in> set vs. fits v" and room: "ptr + width * length vs \<le> length m"
  have len: "length (concat (map octets vs)) = width * length vs"
    by (induction vs) (simp_all add: length_octets)
  let ?m = "overwrite m ptr (concat (map octets vs))"
  have "ref_all ref width ?m ptr (length vs) = Some vs"
    using ref_all_eq [OF fit, of ptr ?m] room by (simp add: overwrite_def len)
  with put_all_eq [OF room] room
  show "\<exists>m'. put_all put m ptr vs = Some (ptr + width * length vs, m') \<and>
      ref_all ref width m' ptr (length vs) = Some vs \<and> length m' = length m \<and>
      take ptr m' = take ptr m \<and> drop (ptr + width * length vs) m' = drop (ptr + width * length vs) m"
    by (intro exI [of _ ?m]) (simp add: overwrite_def len)
qed

end

end
