(* ===== verification/Byte_Buffer.thy ===== *)
theory Byte_Buffer
  imports Interfaces
begin

text \<open>
  Byte buffers: \<^verbatim>\<open>src/byte-buffer.c\<close> and \<^verbatim>\<open>include/ufw/byte-buffer.h\<close>. A buffer is a memory object
  with a size, a write mark (\<open>used\<close>) and a read mark (\<open>offset\<close>). \<open>bb_data\<close> is \<open>None\<close> for a NULL
  pointer and otherwise the cells of the memory object the pointer refers to, which may be larger than
  \<open>bb_size\<close> (a buffer may be artificially narrowed). Calls return their C result and the buffer they
  leave behind.

  The lemmas show that every call is defined and keeps the invariant \<open>bb_inv\<close> (up to the two calls
  that may break it, which is stated), and that a buffer is a first-in first-out queue of bytes.
\<close>

section \<open>State\<close>

record ByteBuffer =
  bb_data :: "u8 list option"
  bb_size :: nat
  bb_used :: nat
  bb_offset :: nat

record ByteBufferPos =
  pos_used :: nat
  pos_offset :: nat

section \<open>Operations\<close>

definition byte_buffer_null :: "ByteBuffer \<Rightarrow> ByteBuffer" where
  "byte_buffer_null b = b\<lparr>bb_data := None, bb_size := 0, bb_used := 0, bb_offset := 0\<rparr>"

definition byte_buffer_set ::
    "ByteBuffer \<Rightarrow> u8 list option \<Rightarrow> nat \<Rightarrow> nat \<Rightarrow> nat \<Rightarrow> int \<times> ByteBuffer" where
  "byte_buffer_set b data sz used offset =
     (if data = None \<or> sz = 0 \<or> used > sz \<or> offset > used then (- EINVAL, b)
      else (0, b\<lparr>bb_data := data, bb_size := sz, bb_used := used, bb_offset := offset\<rparr>))"

definition byte_buffer_avail :: "ByteBuffer \<Rightarrow> nat" where
  "byte_buffer_avail b = sz_sub (bb_size b) (bb_used b)"

definition byte_buffer_rest :: "ByteBuffer \<Rightarrow> nat" where
  "byte_buffer_rest b = sz_sub (bb_used b) (bb_offset b)"

definition byte_buffer_use :: "ByteBuffer \<Rightarrow> u8 list option \<Rightarrow> nat \<Rightarrow> int \<times> ByteBuffer" where
  "byte_buffer_use b data sz = byte_buffer_set b data sz sz 0"

definition byte_buffer_space :: "ByteBuffer \<Rightarrow> u8 list option \<Rightarrow> nat \<Rightarrow> int \<times> ByteBuffer" where
  "byte_buffer_space b data sz = byte_buffer_set b data sz 0 0"

text \<open>\<open>byte_buffer_add b src n\<close> copies the first \<open>n\<close> bytes of the memory at \<open>src\<close>.\<close>

definition byte_buffer_add :: "ByteBuffer \<Rightarrow> u8 list \<Rightarrow> nat \<Rightarrow> (int \<times> ByteBuffer) option" where
  "byte_buffer_add b src n =
     (if bb_size b < sz_add (bb_used b) n then Some (- ENOMEM, b)
      else do {
        m \<leftarrow> bb_data b;
        xs \<leftarrow> mem_read src 0 n;
        m' \<leftarrow> mem_write m (bb_used b) xs;
        Some (0, b\<lparr>bb_data := Some m', bb_used := sz_add (bb_used b) n\<rparr>)
      })"

definition byte_buffer_getpos :: "ByteBuffer \<Rightarrow> ByteBufferPos" where
  "byte_buffer_getpos b = \<lparr>pos_used = bb_used b, pos_offset = bb_offset b\<rparr>"

definition byte_buffer_setpos :: "ByteBuffer \<Rightarrow> ByteBufferPos \<Rightarrow> int \<times> ByteBuffer" where
  "byte_buffer_setpos b pos =
     (if pos_offset pos \<ge> bb_size b \<or> pos_used pos > bb_size b then (- EINVAL, b)
      else (0, b\<lparr>bb_offset := pos_offset pos, bb_used := pos_used pos\<rparr>))"

text \<open>A pointer into the buffer is the index of the byte it refers to, \<open>None\<close> is NULL.\<close>

definition byte_buffer_readptr :: "ByteBuffer \<Rightarrow> nat option" where
  "byte_buffer_readptr b = (if bb_offset b \<ge> bb_size b then None else Some (bb_offset b))"

definition byte_buffer_writeptr :: "ByteBuffer \<Rightarrow> nat option" where
  "byte_buffer_writeptr b = (if bb_used b \<ge> bb_size b then None else Some (bb_used b))"

definition byte_buffer_markread :: "ByteBuffer \<Rightarrow> nat \<Rightarrow> int \<times> ByteBuffer" where
  "byte_buffer_markread b n =
     (if n > byte_buffer_rest b then (- ENOMEM, b)
      else (0, b\<lparr>bb_offset := sz_add (bb_offset b) n\<rparr>))"

text \<open>The consuming calls also return the bytes they copy to the caller's memory.\<close>

definition byte_buffer_consume :: "ByteBuffer \<Rightarrow> nat \<Rightarrow> (int \<times> u8 list \<times> ByteBuffer) option" where
  "byte_buffer_consume b n =
     (if n > byte_buffer_rest b then Some (- ENODATA, [], b)
      else do {
        m \<leftarrow> bb_data b;
        xs \<leftarrow> mem_read m (bb_offset b) n;
        Some (0, xs, b\<lparr>bb_offset := sz_add (bb_offset b) n\<rparr>)
      })"

definition byte_buffer_consume_at_most ::
    "ByteBuffer \<Rightarrow> nat \<Rightarrow> (int \<times> u8 list \<times> ByteBuffer) option" where
  "byte_buffer_consume_at_most b sz =
     (let rest = byte_buffer_rest b in
      if rest = 0 then Some (- ENODATA, [], b)
      else (let n = (if sz > rest then rest else sz) in do {
        m \<leftarrow> bb_data b;
        xs \<leftarrow> mem_read m (bb_offset b) n;
        Some (int n, xs, b\<lparr>bb_offset := sz_add (bb_offset b) n\<rparr>)
      }))"

definition byte_buffer_rewind :: "ByteBuffer \<Rightarrow> (int \<times> ByteBuffer) option" where
  "byte_buffer_rewind b =
     (case bb_data b of
        None \<Rightarrow> Some (- EINVAL, b)
      | Some m \<Rightarrow>
          if bb_offset b = 0 then Some (0, b)
          else (let rest = byte_buffer_rest b in do {
            xs \<leftarrow> mem_read m (bb_offset b) rest;
            m' \<leftarrow> mem_write m 0 xs;
            Some (0, b\<lparr>bb_data := Some m', bb_used := rest, bb_offset := 0\<rparr>)
          }))"

definition byte_buffer_clear :: "ByteBuffer \<Rightarrow> ByteBuffer option" where
  "byte_buffer_clear b = do {
     m \<leftarrow> bb_data b;
     m' \<leftarrow> mem_write m 0 (replicate (bb_size b) 0);
     Some (b\<lparr>bb_data := Some m', bb_offset := 0, bb_used := 0\<rparr>)
   }"

definition byte_buffer_reset :: "ByteBuffer \<Rightarrow> ByteBuffer" where
  "byte_buffer_reset b = b\<lparr>bb_offset := 0, bb_used := 0\<rparr>"

definition byte_buffer_repeat :: "ByteBuffer \<Rightarrow> ByteBuffer" where
  "byte_buffer_repeat b = b\<lparr>bb_offset := 0\<rparr>"

definition byte_buffer_fill :: "ByteBuffer \<Rightarrow> u8 \<Rightarrow> ByteBuffer option" where
  "byte_buffer_fill b datum = do {
     m \<leftarrow> bb_data b;
     m' \<leftarrow> mem_write m 0 (replicate (bb_size b) datum);
     Some (b\<lparr>bb_data := Some m', bb_used := bb_size b\<rparr>)
   }"

text \<open>The loop of \<open>byte_buffer_fillx\<close>: \<open>datum += increment\<close> is taken modulo 256.\<close>

fun fillx_from :: "nat \<Rightarrow> u8 \<Rightarrow> u8 \<Rightarrow> u8 list" where
  "fillx_from 0 datum increment = []"
| "fillx_from (Suc n) datum increment = datum # fillx_from n (datum + increment) increment"

definition byte_buffer_fillx :: "ByteBuffer \<Rightarrow> u8 \<Rightarrow> u8 \<Rightarrow> ByteBuffer option" where
  "byte_buffer_fillx b init increment = do {
     m \<leftarrow> bb_data b;
     m' \<leftarrow> mem_write m 0 (fillx_from (bb_size b) init increment);
     Some (b\<lparr>bb_data := Some m', bb_used := bb_size b\<rparr>)
   }"

text \<open>
  \<open>cb g i x\<close> is the callback on index \<open>i\<close> and the byte \<open>x\<close> found there; \<open>g\<close> is the state it keeps.
  It returns its code, the byte it leaves behind and its new state.
\<close>

function fill_cb_loop ::
    "('g \<Rightarrow> nat \<Rightarrow> u8 \<Rightarrow> int \<times> u8 \<times> 'g) \<Rightarrow> nat \<Rightarrow> nat \<Rightarrow> u8 list \<Rightarrow> 'g
       \<Rightarrow> (nat \<times> u8 list \<times> 'g) option" where
  "fill_cb_loop cb sz i m g =
     (if i < sz
      then if i < length m
        then (case cb g i (m ! i) of (rc, x, g') \<Rightarrow>
               if rc < 0 then Some (i, m[i := x], g')
               else fill_cb_loop cb sz (Suc i) (m[i := x]) g')
        else None
      else Some (i, m, g))"
  by pat_completeness auto
termination
  by (relation "measure (\<lambda>(cb, sz, i, m, g). sz - i)") auto

declare fill_cb_loop.simps [simp del]

definition byte_buffer_fill_cb ::
    "ByteBuffer \<Rightarrow> nat \<Rightarrow> ('g \<Rightarrow> nat \<Rightarrow> u8 \<Rightarrow> int \<times> u8 \<times> 'g) \<Rightarrow> 'g \<Rightarrow> (ByteBuffer \<times> 'g) option" where
  "byte_buffer_fill_cb b offset cb g = do {
     (i, m', g') \<leftarrow> fill_cb_loop cb (bb_size b) offset (case bb_data b of None \<Rightarrow> [] | Some m \<Rightarrow> m) g;
     Some (b\<lparr>bb_data := (case bb_data b of None \<Rightarrow> None | Some _ \<Rightarrow> Some m'),
             bb_offset := offset, bb_used := i\<rparr>, g')
   }"

section \<open>Invariant and abstract view\<close>

definition bb_mem :: "ByteBuffer \<Rightarrow> u8 list" where
  "bb_mem b = (case bb_data b of None \<Rightarrow> [] | Some m \<Rightarrow> m)"

text \<open>Marks in order, inside of the memory object; the size leaves room for \<open>ssize_t\<close> results.\<close>

definition bb_inv :: "ByteBuffer \<Rightarrow> bool" where
  "bb_inv b \<longleftrightarrow> bb_offset b \<le> bb_used b \<and> bb_used b \<le> bb_size b \<and> bb_size b \<le> SSIZE_MAX \<and>
     (bb_data b = None \<longrightarrow> bb_size b = 0) \<and> bb_size b \<le> length (bb_mem b)"

text \<open>The bytes written and not yet consumed.\<close>

definition bb_pending :: "ByteBuffer \<Rightarrow> u8 list" where
  "bb_pending b = drop (bb_offset b) (take (bb_used b) (bb_mem b))"

named_theorems bb_defs \<open>state of a byte buffer\<close>
lemmas [bb_defs] = bb_inv_def bb_pending_def bb_mem_def byte_buffer_avail_def byte_buffer_rest_def

lemma bb_mem_Some [simp]: "bb_data b = Some m \<Longrightarrow> bb_mem b = m"
  by (simp add: bb_mem_def)

lemma length_bb_pending: "bb_inv b \<Longrightarrow> length (bb_pending b) = byte_buffer_rest b"
  by (auto simp: bb_inv_def bb_pending_def byte_buffer_rest_def)

lemma bb_inv_marks:
  assumes "bb_inv b"
  shows "byte_buffer_avail b = bb_size b - bb_used b" and "byte_buffer_rest b = bb_used b - bb_offset b"
    and "bb_used b < SIZE_MOD"
  using assms SSIZE_MAX_less [of "bb_size b"]
  by (auto simp: bb_inv_def byte_buffer_avail_def byte_buffer_rest_def)

lemma sz_add_small: "a \<le> SSIZE_MAX \<Longrightarrow> n < 2 ^ 63 \<Longrightarrow> sz_add a n = a + n"
  by (simp add: sz_add_def SIZE_MOD_def SSIZE_MAX_def)

section \<open>Behaviour of the operations\<close>

lemma byte_buffer_add_fits:
  assumes "bb_inv b" and "bb_data b \<noteq> None" and "length xs \<le> byte_buffer_avail b"
  shows "\<exists>b'. byte_buffer_add b xs (length xs) = Some (0, b') \<and> bb_inv b' \<and>
           bb_pending b' = bb_pending b @ xs \<and> bb_used b' = bb_used b + length xs \<and>
           bb_offset b' = bb_offset b \<and> bb_size b' = bb_size b \<and> bb_data b' \<noteq> None \<and>
           length (bb_mem b') = length (bb_mem b)"
proof -
  obtain m where m: "bb_data b = Some m"
    using assms(2) by auto
  have le: "bb_used b + length xs \<le> bb_size b" "bb_size b \<le> length m" "bb_size b \<le> SSIZE_MAX"
    using assms m bb_inv_marks [OF assms(1)] by (auto simp: bb_inv_def)
  then have add: "sz_add (bb_used b) (length xs) = bb_used b + length xs"
    using SSIZE_MAX_less [of "bb_size b"] by (auto intro: sz_add_id)
  show ?thesis
    using le assms(1) by (auto simp: byte_buffer_add_def add m mem_simps bb_defs)
qed

lemma byte_buffer_add_full:
  assumes "bb_inv b" and "n > byte_buffer_avail b" and "n < 2 ^ 63"
  shows "byte_buffer_add b xs n = Some (- ENOMEM, b)"
proof -
  have "bb_used b \<le> SSIZE_MAX" "bb_size b < bb_used b + n"
    using assms(1,2) bb_inv_marks [OF assms(1)] by (auto simp: bb_inv_def)
  then show ?thesis
    using sz_add_small [OF _ assms(3)] by (simp add: byte_buffer_add_def)
qed

lemma byte_buffer_consume_at_most_some:
  assumes "bb_inv b" and "bb_pending b \<noteq> []"
  shows "\<exists>b'. byte_buffer_consume_at_most b n =
             Some (int (min n (length (bb_pending b))), take n (bb_pending b), b') \<and>
           bb_inv b' \<and> bb_pending b' = drop n (bb_pending b) \<and> bb_data b' = bb_data b \<and>
           bb_size b' = bb_size b \<and> bb_used b' = bb_used b \<and>
           bb_offset b' = bb_offset b + min n (length (bb_pending b))"
proof -
  let ?k = "min n (length (bb_pending b))"
  have len: "length (bb_pending b) = bb_used b - bb_offset b"
    using assms(1) by (simp add: length_bb_pending bb_inv_marks)
  have "0 < length (bb_pending b)"
    using assms(2) by simp
  with len have pos: "bb_offset b < bb_used b" by simp
  then obtain m where m: "bb_data b = Some m"
    using assms(1) by (auto simp: bb_inv_def)
  have k: "bb_offset b + ?k \<le> bb_used b" "bb_used b \<le> length m" "bb_used b < SIZE_MOD"
    using assms(1) len pos m bb_inv_marks [OF assms(1)] by (auto simp: bb_inv_def)
  then have add: "sz_add (bb_offset b) ?k = bb_offset b + ?k"
    by (auto intro: sz_add_id)
  have kk: "(if n > byte_buffer_rest b then byte_buffer_rest b else n) = ?k"
    using len bb_inv_marks(2) [OF assms(1)] by auto
  have rd: "mem_read m (bb_offset b) ?k = Some (take n (bb_pending b))"
    using k m len by (auto simp: mem_simps bb_pending_def min_def drop_take)
  have pend: "drop ?k (bb_pending b) = drop n (bb_pending b)"
    by (simp add: min_def)
  have "byte_buffer_rest b \<noteq> 0"
    using pos bb_inv_marks(2) [OF assms(1)] by simp
  then have eq: "byte_buffer_consume_at_most b n =
      Some (int ?k, take n (bb_pending b), b\<lparr>bb_offset := bb_offset b + ?k\<rparr>)"
    unfolding byte_buffer_consume_at_most_def Let_def kk using m rd add by simp
  have "bb_pending (b\<lparr>bb_offset := bb_offset b + ?k\<rparr>) = drop n (bb_pending b)"
    unfolding pend [symmetric] by (simp add: bb_pending_def bb_mem_def add.commute)
  moreover have "bb_inv (b\<lparr>bb_offset := bb_offset b + ?k\<rparr>)"
    using assms(1) k by (simp add: bb_inv_def bb_mem_def)
  ultimately show ?thesis
    using eq by simp
qed

lemma byte_buffer_consume_at_most_empty:
  assumes "bb_inv b" and "bb_pending b = []"
  shows "byte_buffer_consume_at_most b n = Some (- ENODATA, [], b)"
  using assms length_bb_pending [OF assms(1)] by (simp add: byte_buffer_consume_at_most_def)

lemma byte_buffer_consume_ok:
  assumes "bb_inv b" and "n \<le> byte_buffer_rest b" and "bb_data b \<noteq> None"
  shows "\<exists>b'. byte_buffer_consume b n = Some (0, take n (bb_pending b), b') \<and> bb_inv b' \<and>
           bb_pending b' = drop n (bb_pending b)"
proof -
  obtain m where m: "bb_data b = Some m"
    using assms(3) by auto
  have le: "bb_offset b + n \<le> bb_used b" "bb_used b \<le> length m" "bb_used b < SIZE_MOD"
    using assms m bb_inv_marks [OF assms(1)] by (auto simp: bb_inv_def)
  have add: "sz_add (bb_offset b) n = bb_offset b + n"
    using le by (auto intro: sz_add_id)
  have rd: "mem_read m (bb_offset b) n = Some (take n (bb_pending b))"
    using le m by (auto simp: mem_simps bb_pending_def min_def drop_take)
  have "byte_buffer_consume b n =
      Some (0, take n (bb_pending b), b\<lparr>bb_offset := bb_offset b + n\<rparr>)"
    using assms(2) m rd by (simp add: byte_buffer_consume_def add)
  moreover have "bb_inv (b\<lparr>bb_offset := bb_offset b + n\<rparr>)"
    using assms(1) le by (simp add: bb_inv_def bb_mem_def)
  ultimately show ?thesis
    by (simp add: bb_pending_def bb_mem_def add.commute)
qed

lemma byte_buffer_rewind_ok:
  assumes "bb_inv b"
  shows "\<exists>rc b'. byte_buffer_rewind b = Some (rc, b') \<and> bb_inv b' \<and>
           bb_pending b' = bb_pending b \<and> bb_size b' = bb_size b \<and>
           (bb_data b \<noteq> None \<longrightarrow> rc = 0 \<and> bb_data b' \<noteq> None \<and> bb_offset b' = 0 \<and>
              byte_buffer_avail b' = bb_size b - length (bb_pending b))"
proof (cases "bb_data b")
  case None
  then show ?thesis
    using assms by (simp add: byte_buffer_rewind_def)
next
  case (Some m)
  have le: "bb_offset b \<le> bb_used b" "bb_used b \<le> bb_size b" "bb_size b \<le> length m"
    "bb_size b \<le> SSIZE_MAX" and rest: "byte_buffer_rest b = bb_used b - bb_offset b"
    using assms Some bb_inv_marks [OF assms] by (auto simp: bb_inv_def)
  have len: "length (bb_pending b) = bb_used b - bb_offset b"
    using assms by (simp add: length_bb_pending rest)
  show ?thesis
  proof (cases "bb_offset b = 0")
    case True
    then show ?thesis
      using assms Some le len by (simp add: byte_buffer_rewind_def byte_buffer_avail_def)
  next
    case False
    have rd: "mem_read m (bb_offset b) (bb_used b - bb_offset b) = Some (bb_pending b)"
      using le Some by (simp add: mem_simps bb_pending_def drop_take)
    have wr: "mem_write m 0 (bb_pending b) =
        Some (bb_pending b @ drop (bb_used b - bb_offset b) m)"
      using le len by (simp add: mem_write_def)
    let ?b' = "b\<lparr>bb_data := Some (bb_pending b @ drop (bb_used b - bb_offset b) m),
                 bb_used := bb_used b - bb_offset b, bb_offset := 0\<rparr>"
    have "byte_buffer_rewind b = Some (0, ?b')"
      using False Some rd wr by (simp add: byte_buffer_rewind_def rest Let_def)
    moreover have "bb_inv ?b'" and "bb_pending ?b' = bb_pending b"
      using le len by (auto simp: bb_inv_def bb_pending_def)
    ultimately show ?thesis
      using le len by (simp add: byte_buffer_avail_def)
  qed
qed

lemma byte_buffer_markread_ok:
  assumes "bb_inv b" and "n \<le> byte_buffer_rest b"
  shows "byte_buffer_markread b n = (0, b\<lparr>bb_offset := bb_offset b + n\<rparr>)" and
    "bb_inv (b\<lparr>bb_offset := bb_offset b + n\<rparr>)"
proof -
  have le: "bb_offset b + n \<le> bb_used b" "bb_used b < SIZE_MOD"
    using assms bb_inv_marks [OF assms(1)] by (auto simp: bb_inv_def)
  then have "sz_add (bb_offset b) n = bb_offset b + n"
    by (auto intro: sz_add_id)
  then show "byte_buffer_markread b n = (0, b\<lparr>bb_offset := bb_offset b + n\<rparr>)"
    using assms(2) by (simp add: byte_buffer_markread_def)
  show "bb_inv (b\<lparr>bb_offset := bb_offset b + n\<rparr>)"
    using assms(1) le by (simp add: bb_inv_def bb_mem_def)
qed

lemma length_fillx_from [simp]: "length (fillx_from n d i) = n"
  by (induction n arbitrary: d) auto

lemma nth_fillx_from: "k < n \<Longrightarrow> fillx_from n d i ! k = d + of_nat k * i"
proof (induction n arbitrary: d k)
  case 0
  then show ?case by simp
next
  case (Suc n)
  then show ?case
    by (cases k) (simp_all add: algebra_simps)
qed

lemma fill_cb_loop_stops:
  assumes "i \<le> sz" and "sz \<le> length m"
  shows "\<exists>j m' g'. fill_cb_loop cb sz i m g = Some (j, m', g') \<and> i \<le> j \<and> j \<le> sz \<and>
           length m' = length m"
  using assms
proof (induction cb sz i m g rule: fill_cb_loop.induct)
  case (1 cb sz i m g)
  obtain rc x g1 where cb: "cb g i (m ! i) = (rc, x, g1)"
    using prod_cases3 by blast
  show ?case
  proof (cases "i < sz \<and> \<not> rc < 0")
    case True
    then have "i < length m" using "1.prems" by simp
    with True "1.IH" [OF _ _ cb [symmetric] refl] "1.prems"
    obtain j m' g' where "fill_cb_loop cb sz (Suc i) (m[i := x]) g1 = Some (j, m', g')"
      "Suc i \<le> j" "j \<le> sz" "length m' = length m" by auto
    with True cb \<open>i < length m\<close> show ?thesis
      by (subst fill_cb_loop.simps) simp
  next
    case False
    with cb "1.prems" show ?thesis
      by (subst fill_cb_loop.simps) auto
  qed
qed

section \<open>Calls as steps\<close>

datatype bb_call =
    C_null | C_set "u8 list option" nat nat nat | C_use "u8 list option" nat
  | C_space "u8 list option" nat | C_add "u8 list" nat | C_setpos ByteBufferPos | C_markread nat
  | C_consume nat | C_consume_at_most nat | C_rewind | C_clear | C_reset | C_repeat | C_fill u8
  | C_fillx u8 u8 | C_fill_cb nat "nat \<Rightarrow> u8 \<Rightarrow> int \<times> u8"

fun bb_step :: "ByteBuffer \<Rightarrow> bb_call \<Rightarrow> ByteBuffer option" where
  "bb_step b C_null = Some (byte_buffer_null b)"
| "bb_step b (C_set d sz used offset) = Some (snd (byte_buffer_set b d sz used offset))"
| "bb_step b (C_use d sz) = Some (snd (byte_buffer_use b d sz))"
| "bb_step b (C_space d sz) = Some (snd (byte_buffer_space b d sz))"
| "bb_step b (C_add src n) = map_option snd (byte_buffer_add b src n)"
| "bb_step b (C_setpos pos) = Some (snd (byte_buffer_setpos b pos))"
| "bb_step b (C_markread n) = Some (snd (byte_buffer_markread b n))"
| "bb_step b (C_consume n) = map_option (snd \<circ> snd) (byte_buffer_consume b n)"
| "bb_step b (C_consume_at_most n) = map_option (snd \<circ> snd) (byte_buffer_consume_at_most b n)"
| "bb_step b C_rewind = map_option snd (byte_buffer_rewind b)"
| "bb_step b C_clear = byte_buffer_clear b"
| "bb_step b C_reset = Some (byte_buffer_reset b)"
| "bb_step b C_repeat = Some (byte_buffer_repeat b)"
| "bb_step b (C_fill x) = byte_buffer_fill b x"
| "bb_step b (C_fillx x i) = byte_buffer_fillx b x i"
| "bb_step b (C_fill_cb offset cb) =
     map_option fst (byte_buffer_fill_cb b offset (\<lambda>g i x. case cb i x of (rc, y) \<Rightarrow> (rc, y, g)) ())"

text \<open>What the caller owes: memory as large as it says, and marks in order where none are checked.\<close>

fun bb_pre :: "ByteBuffer \<Rightarrow> bb_call \<Rightarrow> bool" where
  "bb_pre b (C_set d sz used offset) = (\<forall>m. d = Some m \<longrightarrow> sz \<le> length m \<and> sz \<le> SSIZE_MAX)"
| "bb_pre b (C_use d sz) = (\<forall>m. d = Some m \<longrightarrow> sz \<le> length m \<and> sz \<le> SSIZE_MAX)"
| "bb_pre b (C_space d sz) = (\<forall>m. d = Some m \<longrightarrow> sz \<le> length m \<and> sz \<le> SSIZE_MAX)"
| "bb_pre b (C_add src n) = (n \<le> length src \<and> n < 2 ^ 63 \<and> (bb_data b = None \<longrightarrow> 0 < n))"
| "bb_pre b (C_setpos pos) = (pos_offset pos \<le> pos_used pos)"
| "bb_pre b (C_consume n) = (bb_data b = None \<longrightarrow> 0 < n)"
| "bb_pre b C_clear = (bb_data b \<noteq> None)"
| "bb_pre b (C_fill x) = (bb_data b \<noteq> None)"
| "bb_pre b (C_fillx x i) = (bb_data b \<noteq> None)"
| "bb_pre b (C_fill_cb offset cb) = (offset \<le> bb_size b)"
| "bb_pre b _ = True"

lemma bb_set_inv:
  assumes "bb_inv b" and "\<forall>m. d = Some m \<longrightarrow> sz \<le> length m \<and> sz \<le> SSIZE_MAX"
  shows "bb_inv (snd (byte_buffer_set b d sz used offset))"
  using assms by (auto simp: byte_buffer_set_def bb_inv_def)

lemma bb_add_inv:
  assumes "bb_inv b" and "n \<le> length src" and "n < 2 ^ 63" and "bb_data b = None \<longrightarrow> 0 < n"
  shows "\<exists>rc b'. byte_buffer_add b src n = Some (rc, b') \<and> bb_inv b'"
proof (cases "n \<le> byte_buffer_avail b")
  case True
  have d: "bb_data b \<noteq> None"
    using assms True by (auto simp: bb_inv_def byte_buffer_avail_def)
  have "byte_buffer_add b src n = byte_buffer_add b (take n src) (length (take n src))"
    using assms(2) by (simp add: byte_buffer_add_def mem_read_def)
  then show ?thesis
    using byte_buffer_add_fits [OF assms(1) d, of "take n src"] True assms(2) by auto
next
  case False
  then show ?thesis
    using byte_buffer_add_full [OF assms(1) _ assms(3)] assms(1) by auto
qed

lemma bb_consume_inv:
  assumes "bb_inv b" and "bb_data b = None \<longrightarrow> 0 < n"
  shows "\<exists>rc xs b'. byte_buffer_consume b n = Some (rc, xs, b') \<and> bb_inv b'"
proof (cases "n \<le> byte_buffer_rest b")
  case True
  have "bb_data b \<noteq> None"
    using assms True bb_inv_marks(2) [OF assms(1)] by (auto simp: bb_inv_def)
  then show ?thesis
    using byte_buffer_consume_ok [OF assms(1) True] by blast
next
  case False
  then show ?thesis
    using assms by (simp add: byte_buffer_consume_def)
qed

lemma bb_consume_at_most_inv:
  assumes "bb_inv b"
  shows "\<exists>rc xs b'. byte_buffer_consume_at_most b n = Some (rc, xs, b') \<and> bb_inv b'"
  using byte_buffer_consume_at_most_some [OF assms] byte_buffer_consume_at_most_empty [OF assms] assms
  by (cases "bb_pending b = []") blast+

lemma bb_fill_inv:
  assumes "bb_inv b" and "bb_data b \<noteq> None"
  shows "\<exists>b'. byte_buffer_clear b = Some b' \<and> bb_inv b'"
    and "\<exists>b'. byte_buffer_fill b x = Some b' \<and> bb_inv b'"
    and "\<exists>b'. byte_buffer_fillx b x i = Some b' \<and> bb_inv b'"
  using assms
  by (auto simp: byte_buffer_clear_def byte_buffer_fill_def byte_buffer_fillx_def mem_write_def
      bb_inv_def)

lemma bb_reset_inv: "bb_inv b \<Longrightarrow> bb_inv (byte_buffer_reset b)" "bb_inv b \<Longrightarrow> bb_inv (byte_buffer_repeat b)"
  by (auto simp: byte_buffer_reset_def byte_buffer_repeat_def bb_inv_def bb_mem_def)

lemma bb_fill_cb_inv:
  assumes "bb_inv b" and "offset \<le> bb_size b"
  shows "\<exists>b' g'. byte_buffer_fill_cb b offset cb g = Some (b', g') \<and> bb_inv b'"
proof -
  have "bb_size b \<le> length (bb_mem b)"
    using assms(1) by (simp add: bb_inv_def)
  from fill_cb_loop_stops [OF assms(2) this, of cb g] obtain j m' g' where
    "fill_cb_loop cb (bb_size b) offset (bb_mem b) g = Some (j, m', g')" "offset \<le> j" "j \<le> bb_size b"
    "length m' = length (bb_mem b)" by blast
  then show ?thesis
    using assms(1)
    by (cases "bb_data b") (auto simp: byte_buffer_fill_cb_def bb_inv_def bb_mem_def)
qed

lemma bb_step_inv: "bb_inv b \<Longrightarrow> bb_pre b c \<Longrightarrow> \<exists>b'. bb_step b c = Some b' \<and> bb_inv b'"
proof (cases c)
  case C_null
  then show ?thesis
    by (simp add: byte_buffer_null_def bb_inv_def bb_mem_def SSIZE_MAX_def)
next
  case (C_markread n)
  assume "bb_inv b"
  with C_markread show ?thesis
    using byte_buffer_markread_ok [of b n]
    by (cases "n \<le> byte_buffer_rest b") (auto simp: byte_buffer_markread_def)
next
  case (C_setpos pos)
  assume "bb_inv b" "bb_pre b c"
  with C_setpos show ?thesis
    by (auto simp: byte_buffer_setpos_def bb_inv_def bb_mem_def)
next
  case C_rewind
  assume "bb_inv b"
  with C_rewind show ?thesis
    using byte_buffer_rewind_ok [of b] by auto
next
  case (C_add src n)
  assume "bb_inv b" "bb_pre b c"
  with C_add show ?thesis
    using bb_add_inv [of b n src] by auto
next
  case (C_consume n)
  assume "bb_inv b" "bb_pre b c"
  with C_consume show ?thesis
    using bb_consume_inv [of b n] by auto
next
  case (C_consume_at_most n)
  assume "bb_inv b"
  with C_consume_at_most show ?thesis
    using bb_consume_at_most_inv [of b n] by auto
next
  case (C_fill_cb offset cb)
  assume "bb_inv b" "bb_pre b c"
  with C_fill_cb show ?thesis
    using bb_fill_cb_inv [of b offset "\<lambda>g i x. case cb i x of (rc, y) \<Rightarrow> (rc, y, g)" "()"] by auto
qed (simp_all add: bb_set_inv byte_buffer_use_def byte_buffer_space_def bb_fill_inv bb_reset_inv)

text \<open>Sequences of calls. The caller owes something in the state that each call meets.\<close>

fun bb_run :: "ByteBuffer \<Rightarrow> bb_call list \<Rightarrow> ByteBuffer option" where
  "bb_run b [] = Some b"
| "bb_run b (c # cs) = Option.bind (bb_step b c) (\<lambda>b. bb_run b cs)"

fun bb_owed :: "ByteBuffer \<Rightarrow> bb_call list \<Rightarrow> bool" where
  "bb_owed b [] = True"
| "bb_owed b (c # cs) = (bb_pre b c \<and> (case bb_step b c of None \<Rightarrow> True | Some b' \<Rightarrow> bb_owed b' cs))"

lemma bb_run_inv: "bb_inv b \<Longrightarrow> bb_owed b cs \<Longrightarrow> \<exists>b'. bb_run b cs = Some b' \<and> bb_inv b'"
proof (induction cs arbitrary: b)
  case (Cons c cs)
  then obtain b1 where "bb_step b c = Some b1" "bb_inv b1"
    using bb_step_inv [of b c] by auto
  with Cons show ?case
    by auto
qed simp

text \<open>What the queries answer in a state that keeps the invariant.\<close>

lemma bb_queries:
  assumes "bb_inv b"
  shows "bb_used b + byte_buffer_avail b = bb_size b" and "byte_buffer_rest b = length (bb_pending b)"
    and "byte_buffer_readptr b = Some i \<Longrightarrow> i < length (bb_mem b)"
    and "byte_buffer_writeptr b = Some i \<Longrightarrow> i + byte_buffer_avail b \<le> length (bb_mem b) \<and> i < length (bb_mem b)"
    and "bb_pre b (C_setpos (byte_buffer_getpos b))"
  using assms bb_inv_marks [OF assms] length_bb_pending [OF assms]
  by (auto simp: byte_buffer_readptr_def byte_buffer_writeptr_def byte_buffer_getpos_def bb_inv_def split: if_splits)

section \<open>Byte buffers are queues\<close>

definition bb_ready :: "ByteBuffer \<Rightarrow> bool" where
  "bb_ready b \<longleftrightarrow> bb_inv b \<and> bb_data b \<noteq> None"

definition bb_put :: "ByteBuffer \<Rightarrow> u8 list \<Rightarrow> (int \<times> ByteBuffer) option" where
  "bb_put b xs = byte_buffer_add b xs (length xs)"

lemma bb_put_cases:
  assumes "bb_ready b" and "length xs < 2 ^ 63"
  shows "\<exists>rc b'. bb_put b xs = Some (rc, b') \<and> bb_ready b' \<and>
           (if length xs \<le> byte_buffer_avail b then rc = 0 \<and> bb_pending b' = bb_pending b @ xs
            else rc = - ENOMEM \<and> b' = b)"
proof (cases "length xs \<le> byte_buffer_avail b")
  case True
  then show ?thesis
    using byte_buffer_add_fits [of b xs] assms(1) by (auto simp: bb_put_def bb_ready_def)
next
  case False
  then show ?thesis
    using byte_buffer_add_full [of b "length xs"] assms by (simp add: bb_put_def bb_ready_def)
qed

interpretation bbq: block_queue bb_ready bb_pending bb_put byte_buffer_consume_at_most byte_buffer_rewind
proof unfold_locales
  fix b :: ByteBuffer and xs :: "u8 list"
  assume "bb_ready b" "length xs < 2 ^ 63"
  from bb_put_cases [OF this] obtain rc b' where "bb_put b xs = Some (rc, b')" "bb_ready b'"
    "if length xs \<le> byte_buffer_avail b then rc = 0 \<and> bb_pending b' = bb_pending b @ xs
     else rc = - ENOMEM \<and> b' = b" by blast
  then show "\<exists>rc b'. bb_put b xs = Some (rc, b') \<and> bb_ready b' \<and>
          bb_pending b' = (if rc = 0 then bb_pending b @ xs else bb_pending b)"
    by (intro exI [of _ rc] exI [of _ b']) (auto simp: errno_defs split: if_splits)
next
  fix b :: ByteBuffer and n :: nat
  assume r: "bb_ready b"
  then show "\<exists>rc ys b'. byte_buffer_consume_at_most b n = Some (rc, ys, b') \<and> bb_ready b' \<and>
               bb_pending b = ys @ bb_pending b'"
    using byte_buffer_consume_at_most_some [of b n] byte_buffer_consume_at_most_empty [of b n]
    by (cases "bb_pending b = []") (auto simp: bb_ready_def)
next
  fix b :: ByteBuffer
  assume "bb_ready b"
  then show "\<exists>rc b'. byte_buffer_rewind b = Some (rc, b') \<and> bb_ready b' \<and> bb_pending b' = bb_pending b"
    using byte_buffer_rewind_ok [of b] by (auto simp: bb_ready_def)
qed

section \<open>Properties\<close>

text \<open>
  C1. A byte buffer is a first-in first-out queue: over any sequence of appends, reads of at most so
  many bytes and compactions, every call is defined, the invariant is kept, and what was pending
  before followed by what was accepted is exactly what was given out followed by what is pending
  after.
\<close>

theorem byte_buffer_fifo:
  assumes "bb_ready b" and "\<forall>xs. Put xs \<in> set ops \<longrightarrow> length xs < 2 ^ 63"
  shows "\<exists>ins outs b'.
           queue_run bb_put byte_buffer_consume_at_most byte_buffer_rewind b ops = Some (ins, outs, b') \<and>
           bb_ready b' \<and> bb_pending b @ ins = outs @ bb_pending b'"
  using assms by (rule bbq.queue_run_fifo)

definition sample_buffer :: ByteBuffer where
  "sample_buffer = \<lparr>bb_data = Some [0, 0, 0], bb_size = 3, bb_used = 0, bb_offset = 0\<rparr>"

lemma sample_buffer_ready: "bb_ready sample_buffer"
  by (simp add: sample_buffer_def bb_ready_def bb_inv_def SSIZE_MAX_def)

theorem byte_buffer_fifo_witness:
  "\<exists>ins outs b'.
     queue_run bb_put byte_buffer_consume_at_most byte_buffer_rewind sample_buffer
       [Put [1, 2], Get 1, Compact, Put [3, 4], Put [5, 6]] = Some (ins, outs, b') \<and>
     bb_ready b' \<and> bb_pending sample_buffer @ ins = outs @ bb_pending b'"
  by (rule byte_buffer_fifo [OF sample_buffer_ready]) auto

text \<open>
  C2. No sequence of calls on a byte buffer leaves its memory object or breaks the order of its marks: when every call
  gets what its caller owes (memory as large as it says, and marks in order where none are checked), every call is
  defined and the invariant holds afterwards. The queries then answer with the room and the number of pending bytes, the
  pointers they give are inside of the memory object, and handing back the position they give
  owes nothing more (it is refused for a full buffer that was read to its end, as shown below).
\<close>

theorem byte_buffer_calls_safe:
  assumes "bb_inv b" and "bb_owed b cs"
  shows "\<exists>b'. bb_run b cs = Some b' \<and> bb_inv b' \<and>
     bb_used b' + byte_buffer_avail b' = bb_size b' \<and> byte_buffer_rest b' = length (bb_pending b') \<and>
     (case byte_buffer_readptr b' of None \<Rightarrow> True | Some i \<Rightarrow> i < length (bb_mem b')) \<and>
     (case byte_buffer_writeptr b' of None \<Rightarrow> True | Some i \<Rightarrow> i < length (bb_mem b') \<and> i + byte_buffer_avail b' \<le> length (bb_mem b')) \<and>
     bb_pre b' (C_setpos (byte_buffer_getpos b'))"
proof -
  obtain b' where b': "bb_run b cs = Some b'" "bb_inv b'"
    using bb_run_inv [OF assms] by blast
  show ?thesis
    using bb_queries [OF b'(2)] b' by (auto split: option.split)
qed

theorem byte_buffer_calls_safe_witness:
  "\<exists>b'. bb_run sample_buffer [C_add [7, 8] 2, C_consume 1, C_rewind, C_add [9, 10] 2, C_markread 3] = Some b' \<and> bb_inv b' \<and>
     bb_used b' + byte_buffer_avail b' = bb_size b' \<and> byte_buffer_rest b' = length (bb_pending b') \<and>
     (case byte_buffer_readptr b' of None \<Rightarrow> True | Some i \<Rightarrow> i < length (bb_mem b')) \<and>
     (case byte_buffer_writeptr b' of None \<Rightarrow> True | Some i \<Rightarrow> i < length (bb_mem b') \<and> i + byte_buffer_avail b' \<le> length (bb_mem b')) \<and>
     bb_pre b' (C_setpos (byte_buffer_getpos b'))"
proof (rule byte_buffer_calls_safe)
  show "bb_inv sample_buffer"
    using sample_buffer_ready by (simp add: bb_ready_def)
  have "bb_data b \<noteq> None \<Longrightarrow> bb_step b c = Some b' \<Longrightarrow> c \<in> {C_add xs n, C_consume n, C_rewind, C_markread n} \<Longrightarrow> bb_data b' \<noteq> None"
    for b b' c xs n
    by (auto simp: byte_buffer_add_def byte_buffer_consume_def byte_buffer_consume_at_most_def byte_buffer_rewind_def
        byte_buffer_markread_def Let_def split: if_splits Option.bind_splits option.splits)
  then show "bb_owed sample_buffer [C_add [7, 8] 2, C_consume 1, C_rewind, C_add [9, 10] 2, C_markread 3]"
    by (auto split: option.split)
qed

text \<open>
  Saving and restoring the marks of a buffer gives the buffer back exactly when its read mark is
  below its size: a buffer that is full and completely read has a position that cannot be restored.
\<close>

theorem byte_buffer_position_roundtrip:
  assumes "bb_inv b"
  shows "byte_buffer_setpos b (byte_buffer_getpos b) =
           (if bb_offset b < bb_size b then (0, b) else (- EINVAL, b))"
  using assms by (auto simp: byte_buffer_setpos_def byte_buffer_getpos_def bb_inv_def)

theorem byte_buffer_position_roundtrip_witness:
  "byte_buffer_setpos (sample_buffer\<lparr>bb_used := 3, bb_offset := 3\<rparr>)
     (byte_buffer_getpos (sample_buffer\<lparr>bb_used := 3, bb_offset := 3\<rparr>)) =
   (- EINVAL, sample_buffer\<lparr>bb_used := 3, bb_offset := 3\<rparr>)"
proof -
  have "bb_inv (sample_buffer\<lparr>bb_used := 3, bb_offset := 3\<rparr>)"
    by (simp add: sample_buffer_def bb_inv_def SSIZE_MAX_def)
  from byte_buffer_position_roundtrip [OF this] show ?thesis
    by (simp add: sample_buffer_def)
qed

end
