(* ===== verification/Crc16.thy ===== *)
theory Crc16
  imports Interfaces
begin

text \<open>
  The CRC-16-ARC checksum of \<^verbatim>\<open>src/crc-16-arc.c\<close>: the table, the octet step and the loops over
  octet buffers and over buffers of 16-bit words, for both octet orders of the machine. The lemmas relate the table
  driven step to the bitwise polynomial division it stands for, show that checksums may be computed
  piecewise, and that every error burst inside of two neighbouring octets changes the checksum.
\<close>

section \<open>The code\<close>

definition crc16_table :: "u16 list" where
  "crc16_table =
     [0x0000, 0xc0c1, 0xc181, 0x0140, 0xc301, 0x03c0, 0x0280, 0xc241,
      0xc601, 0x06c0, 0x0780, 0xc741, 0x0500, 0xc5c1, 0xc481, 0x0440,
      0xcc01, 0x0cc0, 0x0d80, 0xcd41, 0x0f00, 0xcfc1, 0xce81, 0x0e40,
      0x0a00, 0xcac1, 0xcb81, 0x0b40, 0xc901, 0x09c0, 0x0880, 0xc841,
      0xd801, 0x18c0, 0x1980, 0xd941, 0x1b00, 0xdbc1, 0xda81, 0x1a40,
      0x1e00, 0xdec1, 0xdf81, 0x1f40, 0xdd01, 0x1dc0, 0x1c80, 0xdc41,
      0x1400, 0xd4c1, 0xd581, 0x1540, 0xd701, 0x17c0, 0x1680, 0xd641,
      0xd201, 0x12c0, 0x1380, 0xd341, 0x1100, 0xd1c1, 0xd081, 0x1040,
      0xf001, 0x30c0, 0x3180, 0xf141, 0x3300, 0xf3c1, 0xf281, 0x3240,
      0x3600, 0xf6c1, 0xf781, 0x3740, 0xf501, 0x35c0, 0x3480, 0xf441,
      0x3c00, 0xfcc1, 0xfd81, 0x3d40, 0xff01, 0x3fc0, 0x3e80, 0xfe41,
      0xfa01, 0x3ac0, 0x3b80, 0xfb41, 0x3900, 0xf9c1, 0xf881, 0x3840,
      0x2800, 0xe8c1, 0xe981, 0x2940, 0xeb01, 0x2bc0, 0x2a80, 0xea41,
      0xee01, 0x2ec0, 0x2f80, 0xef41, 0x2d00, 0xedc1, 0xec81, 0x2c40,
      0xe401, 0x24c0, 0x2580, 0xe541, 0x2700, 0xe7c1, 0xe681, 0x2640,
      0x2200, 0xe2c1, 0xe381, 0x2340, 0xe101, 0x21c0, 0x2080, 0xe041,
      0xa001, 0x60c0, 0x6180, 0xa141, 0x6300, 0xa3c1, 0xa281, 0x6240,
      0x6600, 0xa6c1, 0xa781, 0x6740, 0xa501, 0x65c0, 0x6480, 0xa441,
      0x6c00, 0xacc1, 0xad81, 0x6d40, 0xaf01, 0x6fc0, 0x6e80, 0xae41,
      0xaa01, 0x6ac0, 0x6b80, 0xab41, 0x6900, 0xa9c1, 0xa881, 0x6840,
      0x7800, 0xb8c1, 0xb981, 0x7940, 0xbb01, 0x7bc0, 0x7a80, 0xba41,
      0xbe01, 0x7ec0, 0x7f80, 0xbf41, 0x7d00, 0xbdc1, 0xbc81, 0x7c40,
      0xb401, 0x74c0, 0x7580, 0xb541, 0x7700, 0xb7c1, 0xb681, 0x7640,
      0x7200, 0xb2c1, 0xb381, 0x7340, 0xb101, 0x71c0, 0x7080, 0xb041,
      0x5000, 0x90c1, 0x9181, 0x5140, 0x9301, 0x53c0, 0x5280, 0x9241,
      0x9601, 0x56c0, 0x5780, 0x9741, 0x5500, 0x95c1, 0x9481, 0x5440,
      0x9c01, 0x5cc0, 0x5d80, 0x9d41, 0x5f00, 0x9fc1, 0x9e81, 0x5e40,
      0x5a00, 0x9ac1, 0x9b81, 0x5b40, 0x9901, 0x59c0, 0x5880, 0x9841,
      0x8801, 0x48c0, 0x4980, 0x8941, 0x4b00, 0x8bc1, 0x8a81, 0x4a40,
      0x4e00, 0x8ec1, 0x8f81, 0x4f40, 0x8d01, 0x4dc0, 0x4c80, 0x8c41,
      0x4400, 0x84c1, 0x8581, 0x4540, 0x8701, 0x47c0, 0x4680, 0x8641,
      0x8201, 0x42c0, 0x4380, 0x8341, 0x4100, 0x81c1, 0x8081, 0x4040]"

definition crc16_octet :: "u16 \<Rightarrow> u8 \<Rightarrow> u16" where
  "crc16_octet crc data =
     drop_bit 8 crc XOR (crc16_table ! unat ((crc XOR (ucast data AND 0xff)) AND 0xff))"

definition CRC16_ARC_INITIAL :: u16 where
  "CRC16_ARC_INITIAL = 0"

text \<open>The pointer \<open>src\<close> is the memory from where it points on; reading past its end is undefined.\<close>

fun ufw_crc16_arc :: "u16 \<Rightarrow> u8 list \<Rightarrow> nat \<Rightarrow> u16 option" where
  "ufw_crc16_arc crc src 0 = Some crc"
| "ufw_crc16_arc crc [] (Suc n) = None"
| "ufw_crc16_arc crc (x # src) (Suc n) = ufw_crc16_arc (crc16_octet crc x) src n"

definition ufw_buffer_crc16_arc :: "u8 list \<Rightarrow> nat \<Rightarrow> u16 option" where
  "ufw_buffer_crc16_arc buffer len = ufw_crc16_arc CRC16_ARC_INITIAL buffer len"

fun ufw_crc16_arc_u16 :: "endianness \<Rightarrow> u16 \<Rightarrow> u16 list \<Rightarrow> nat \<Rightarrow> u16 option" where
  "ufw_crc16_arc_u16 e crc src 0 = Some crc"
| "ufw_crc16_arc_u16 e crc [] (Suc n) = None"
| "ufw_crc16_arc_u16 e crc (w # src) (Suc n) =
     (let crc = (case e of
          SYSTEM_ENDIANNESS_BIG \<Rightarrow>
            crc16_octet (crc16_octet crc (ucast (drop_bit 8 w AND 0xff))) (ucast (w AND 0xff))
        | SYSTEM_ENDIANNESS_LITTLE \<Rightarrow>
            crc16_octet (crc16_octet crc (ucast (w AND 0xff))) (ucast (drop_bit 8 w AND 0xff)))
      in ufw_crc16_arc_u16 e crc src n)"

definition ufw_buffer_crc16_arc_u16 :: "endianness \<Rightarrow> u16 list \<Rightarrow> nat \<Rightarrow> u16 option" where
  "ufw_buffer_crc16_arc_u16 e buffer len = ufw_crc16_arc_u16 e CRC16_ARC_INITIAL buffer len"

section \<open>The bitwise algorithm\<close>

text \<open>One step of the division by the reversed polynomial \<open>0xA001\<close> (\<open>0x8005\<close> bit-reversed).\<close>

definition crc16_bit :: "u16 \<Rightarrow> u16" where
  "crc16_bit c = (if bit c 0 then drop_bit 1 c XOR 0xA001 else drop_bit 1 c)"

definition crc16_octet_ref :: "u16 \<Rightarrow> u8 \<Rightarrow> u16" where
  "crc16_octet_ref crc data = (crc16_bit ^^ 8) (crc XOR ucast data)"

lemma crc16_bit_xor: "crc16_bit (x XOR y) = crc16_bit x XOR crc16_bit y"
  by (auto simp: crc16_bit_def bit_xor_iff drop_bit_xor ac_simps)

lemma crc16_bits_xor: "(crc16_bit ^^ n) (x XOR y) = (crc16_bit ^^ n) x XOR (crc16_bit ^^ n) y"
  by (induction n) (simp_all add: crc16_bit_xor)

lemma funpow_8: "(f ^^ 8) x = f (f (f (f (f (f (f (f x)))))))"
  by (simp add: eval_nat_numeral)


definition crc16_low :: "u16 list" where
  "crc16_low = [0x0000, 0xc0c1, 0xc181, 0x0140, 0xc301, 0x03c0, 0x0280, 0xc241,
     0xc601, 0x06c0, 0x0780, 0xc741, 0x0500, 0xc5c1, 0xc481, 0x0440]"

definition crc16_high :: "u16 list" where
  "crc16_high = [0x0000, 0xcc01, 0xd801, 0x1400, 0xf001, 0x3c00, 0x2800, 0xe401,
     0xa001, 0x6c00, 0x7800, 0xb401, 0x5000, 0x9c01, 0x8801, 0x4400]"

lemma crc16_table_split: "crc16_table = concat (map (\<lambda>h. map (\<lambda>l. h XOR l) crc16_low) crc16_high)"
  by (simp add: crc16_table_def crc16_low_def crc16_high_def)

lemma crc16_low_bits: "crc16_low = map (\<lambda>i. (crc16_bit ^^ 8) (of_nat i)) [0..<16]"
  by (simp add: crc16_low_def crc16_bit_def funpow_8 upt_rec)

lemma crc16_high_bits: "crc16_high = map (\<lambda>i. (crc16_bit ^^ 8) (of_nat (16 * i))) [0..<16]"
  by (simp add: crc16_high_def crc16_bit_def funpow_8 upt_rec)

lemma upt_256: "[0..<256] = concat (map (\<lambda>a. map (\<lambda>b. 16 * a + b) [0..<16]) [0..<16])"
  by code_simp

lemma nibbles_xor:
  assumes "b < 16"
  shows "(of_nat (16 * a + b) :: u16) = of_nat (16 * a) XOR of_nat b"
proof -
  have "push_bit 4 a AND take_bit 4 b = 0"
    by (rule bit_eqI) (auto simp: bit_simps)
  then have "push_bit 4 a + take_bit 4 b = push_bit 4 a XOR take_bit 4 b"
    by (rule disjunctive_add_eq_xor)
  moreover have "take_bit 4 b = b"
    using assms by (simp add: take_bit_eq_mod)
  ultimately have "16 * a + b = 16 * a XOR b"
    by (simp add: push_bit_eq_mult mult.commute)
  then show ?thesis
    by (metis of_nat_xor_eq)
qed

lemma crc16_table_bits: "crc16_table = map (\<lambda>i. (crc16_bit ^^ 8) (of_nat i)) [0..<256]"
proof -
  have "(crc16_bit ^^ 8) (of_nat (16 * a + b)) =
      (crc16_bit ^^ 8) (of_nat (16 * a)) XOR (crc16_bit ^^ 8) (of_nat b)" if "b < 16" for a b
    unfolding nibbles_xor [OF that] by (rule crc16_bits_xor)
  then have rows: "map (\<lambda>b. (crc16_bit ^^ 8) (of_nat (16 * a + b))) [0..<16] =
      map (\<lambda>b. (crc16_bit ^^ 8) (of_nat (16 * a)) XOR (crc16_bit ^^ 8) (of_nat b)) [0..<16]" for a
    by (intro map_cong) auto
  then show ?thesis
    unfolding crc16_table_split crc16_low_bits crc16_high_bits upt_256
    by (simp only: map_concat map_map comp_def rows)
qed

lemma crc16_bits_shift: "(\<forall>k<n. \<not> bit c k) \<Longrightarrow> (crc16_bit ^^ n) c = drop_bit n c"
proof (induction n)
  case 0
  then show ?case by simp
next
  case (Suc n)
  then have "\<not> bit (drop_bit n c) 0"
    by (simp add: bit_drop_bit_eq)
  with Suc show ?case
    by (simp add: crc16_bit_def drop_bit_drop_bit)
qed

lemma crc16_table_nth: "i < 256 \<Longrightarrow> crc16_table ! i = (crc16_bit ^^ 8) (of_nat i)"
  by (simp add: crc16_table_bits del: upt_rec_numeral)

lemma ff_bits: "bit (0xff :: u16) k \<longleftrightarrow> k < 8"
proof -
  have "mask 8 = (0xff :: u16)"
    by (simp add: mask_numeral)
  then show ?thesis
    using bit_mask_iff [where 'a = u16, of 8 k] by auto
qed

text \<open>The table driven step is the bitwise algorithm.\<close>

lemma crc16_octet_bitwise: "crc16_octet crc data = crc16_octet_ref crc data"
proof -
  define x where "x = crc XOR ucast data"
  define m where "m = (0xff :: u16)"
  have m: "bit m k \<longleftrightarrow> k < 8" for k
    unfolding m_def by (rule ff_bits)
  have idx: "(crc XOR (ucast data AND m)) AND m = x AND m"
    by (rule bit_eqI) (auto simp: x_def bit_simps m)
  have small: "unat (x AND m) < 256"
    using word_and_le1 [of x m] by (simp add: word_le_nat_alt m_def)
  have x_split: "x = (x AND NOT m) XOR (x AND m)"
    by (rule bit_eqI) (auto simp: bit_simps)
  have "drop_bit 8 (x AND NOT m) = drop_bit 8 crc"
    by (rule bit_eqI) (auto simp: x_def bit_simps m dest: bit_imp_le_length)
  moreover have "(crc16_bit ^^ 8) (x AND NOT m) = drop_bit 8 (x AND NOT m)"
    by (rule crc16_bits_shift) (simp add: bit_simps m)
  moreover have "(crc16_bit ^^ 8) x = (crc16_bit ^^ 8) (x AND NOT m) XOR (crc16_bit ^^ 8) (x AND m)"
    by (subst x_split) (rule crc16_bits_xor)
  moreover have "crc16_octet crc data = drop_bit 8 crc XOR (crc16_table ! unat (x AND m))"
    unfolding crc16_octet_def idx [unfolded m_def] by (simp add: m_def)
  ultimately show ?thesis
    using small by (simp add: crc16_octet_ref_def crc16_table_nth flip: x_def)
qed

section \<open>Checksums of whole buffers\<close>

definition crc16_sum :: "u16 \<Rightarrow> u8 list \<Rightarrow> u16" where
  "crc16_sum crc xs = foldl crc16_octet crc xs"

interpretation crc16: streaming_sum crc16_sum
  by unfold_locales (simp_all add: crc16_sum_def)

lemma crc16_sum_simps [simp]:
  "crc16_sum crc [] = crc" "crc16_sum crc (x # xs) = crc16_sum (crc16_octet crc x) xs"
  by (simp_all add: crc16_sum_def)

lemma ufw_crc16_arc_eq:
  "ufw_crc16_arc crc src n = (if n \<le> length src then Some (crc16_sum crc (take n src)) else None)"
  by (induction crc src n rule: ufw_crc16_arc.induct) simp_all

text \<open>The octets of a 16-bit word in memory order.\<close>

definition u16_octets :: "endianness \<Rightarrow> u16 \<Rightarrow> u8 list" where
  "u16_octets e w = (case e of
       SYSTEM_ENDIANNESS_BIG \<Rightarrow> [ucast (drop_bit 8 w), ucast w]
     | SYSTEM_ENDIANNESS_LITTLE \<Rightarrow> [ucast w, ucast (drop_bit 8 w)])"

lemma ucast_and_ff: "(ucast (w AND 0xff :: u16) :: u8) = ucast w"
proof -
  have "ucast (w AND m :: u16) = (ucast w :: u8)" if "\<And>k. bit m k \<longleftrightarrow> k < 8" for m
    by (rule bit_word_eqI) (simp add: bit_simps that)
  from this [OF ff_bits] show ?thesis .
qed

lemma crc16_sum_octets:
  "crc16_sum crc (u16_octets e w @ xs) = crc16_sum (case e of
       SYSTEM_ENDIANNESS_BIG \<Rightarrow> crc16_octet (crc16_octet crc (ucast (drop_bit 8 w))) (ucast w)
     | SYSTEM_ENDIANNESS_LITTLE \<Rightarrow> crc16_octet (crc16_octet crc (ucast w)) (ucast (drop_bit 8 w))) xs"
  by (simp add: u16_octets_def split: endianness.split)

lemma ufw_crc16_arc_u16_eq:
  "ufw_crc16_arc_u16 e crc src n =
     (if n \<le> length src then Some (crc16_sum crc (concat (map (u16_octets e) (take n src)))) else None)"
  by (induction e crc src n rule: ufw_crc16_arc_u16.induct)
    (simp_all add: crc16_sum_octets ucast_and_ff Let_def cong: endianness.case_cong)

lemma length_u16_octets [simp]: "length (u16_octets e w) = 2"
  by (simp add: u16_octets_def split: endianness.split)

lemma length_concat_octets: "length (concat (map (u16_octets e) ws)) = 2 * length ws"
  by (induction ws) simp_all

lemma take_concat_octets: "take (2 * n) (concat (map (u16_octets e) ws)) = concat (map (u16_octets e) (take n ws))"
proof (induction n arbitrary: ws)
  case (Suc n)
  then show ?case
    by (cases ws) simp_all
qed simp

section \<open>Error detection\<close>

lemma xor_cancel: "(c XOR x = c XOR y) = (x = (y :: u16))"
proof
  assume "c XOR x = c XOR y"
  then have "c XOR (c XOR x) = c XOR (c XOR y)"
    by (rule arg_cong)
  then show "x = y"
    by (simp flip: xor.assoc)
qed simp

lemma crc16_bit_zero: "crc16_bit z = 0 \<Longrightarrow> z = 0"
proof -
  assume zero: "crc16_bit z = 0"
  have "\<not> bit z 0"
  proof
    assume "bit z 0"
    with zero have "drop_bit 1 z XOR 0xA001 = 0xA001 XOR 0xA001"
      by (simp add: crc16_bit_def)
    then have "drop_bit 1 z = 0xA001"
      by (metis xor.commute xor_cancel)
    then have "bit (drop_bit 1 z) 15"
      by simp
    then show False
      by (auto simp: bit_simps dest: bit_imp_le_length)
  qed
  with zero have z: "drop_bit 1 z = 0" "\<not> bit z 0"
    by (simp_all add: crc16_bit_def)
  have "\<not> bit z k" for k
  proof (cases k)
    case 0
    then show ?thesis using z by simp
  next
    case (Suc j)
    have "bit (drop_bit 1 z) j = bit z (Suc j)"
      by (simp add: bit_drop_bit_eq)
    with z Suc show ?thesis by simp
  qed
  then show "z = 0"
    by (intro bit_eqI) simp
qed

lemma crc16_bit_inj: "inj crc16_bit"
proof (rule injI)
  fix x y
  assume "crc16_bit x = crc16_bit y"
  then have "crc16_bit (x XOR y) = 0"
    by (simp add: crc16_bit_xor)
  then have "x XOR y = x XOR x"
    using crc16_bit_zero by simp
  then show "x = y"
    using xor_cancel by metis
qed

lemma crc16_bits_inj: "inj (crc16_bit ^^ n)"
proof (induction n)
  case 0
  then show ?case by simp
next
  case (Suc n)
  then show ?case
    unfolding funpow.simps by (rule inj_compose [OF crc16_bit_inj])
qed

lemma crc16_sum_inj: "inj (\<lambda>crc. crc16_sum crc xs)"
proof (induction xs)
  case Nil
  then show ?case by (simp add: inj_def)
next
  case (Cons x xs)
  have "inj (\<lambda>crc. crc16_octet crc x)"
  proof (rule injI)
    fix c d
    assume "crc16_octet c x = crc16_octet d x"
    then have "c XOR ucast x = d XOR ucast x"
      using crc16_bits_inj [of 8] by (auto simp: crc16_octet_bitwise crc16_octet_ref_def dest: injD)
    then show "c = d"
      by (metis xor.commute xor_cancel)
  qed
  from inj_compose [OF Cons this] show ?case
    by (simp add: comp_def)
qed

lemma crc16_two_octets:
  "crc16_sum crc [a, b] = (crc16_bit ^^ 16) (crc XOR (ucast a XOR push_bit 8 (ucast b)))"
proof -
  have "(crc16_bit ^^ 8) (push_bit 8 (ucast b)) = drop_bit 8 (push_bit 8 (ucast b :: u16))"
    by (rule crc16_bits_shift) (simp add: bit_simps)
  also have "drop_bit 8 (push_bit 8 (ucast b :: u16)) = ucast b"
    by (rule bit_word_eqI) (auto simp: bit_simps dest: bit_imp_le_length)
  finally have b: "ucast b = (crc16_bit ^^ 8) (push_bit 8 (ucast b :: u16))"
    by simp
  have "crc16_sum crc [a, b] = (crc16_bit ^^ 8) ((crc16_bit ^^ 8) (crc XOR ucast a) XOR ucast b)"
    by (simp add: crc16_octet_bitwise crc16_octet_ref_def)
  also have "\<dots> = (crc16_bit ^^ 8) ((crc16_bit ^^ 8) (crc XOR ucast a XOR push_bit 8 (ucast b)))"
    by (subst b) (simp only: crc16_bits_xor xor.assoc)
  also have "\<dots> = (crc16_bit ^^ (8 + 8)) (crc XOR ucast a XOR push_bit 8 (ucast b))"
    by (simp only: funpow_add comp_apply)
  finally show ?thesis
    by (simp add: xor.assoc)
qed

lemma two_octets_inj:
  assumes "(ucast a XOR push_bit 8 (ucast b) :: u16) = ucast c XOR push_bit 8 (ucast d)"
  shows "(a :: u8) = c \<and> (b :: u8) = d"
proof -
  have low: "bit (ucast (x :: u8) XOR push_bit 8 (ucast (y :: u8)) :: u16) k = bit x k"
    if "k < 8" for x y k
    using that by (simp add: bit_simps)
  have high: "bit (ucast (x :: u8) XOR push_bit 8 (ucast (y :: u8)) :: u16) (k + 8) = bit y k"
    if "k < 8" for x y k
    using that bit_imp_le_length [of x "k + 8"] by (auto simp: bit_simps)
  have "bit a k = bit c k" if "k < 8" for k
    using low [OF that] assms by metis
  moreover have "bit b k = bit d k" if "k < 8" for k
    using high [OF that] assms by metis
  ultimately show ?thesis
    by (auto intro!: bit_word_eqI)
qed

lemma crc16_sum_burst:
  assumes "(a, b) \<noteq> (c, d)"
  shows "crc16_sum crc (xs @ [a, b] @ ys) \<noteq> crc16_sum crc (xs @ [c, d] @ ys)"
proof
  assume "crc16_sum crc (xs @ [a, b] @ ys) = crc16_sum crc (xs @ [c, d] @ ys)"
  then have "crc16_sum (crc16_sum (crc16_sum crc xs) [a, b]) ys =
      crc16_sum (crc16_sum (crc16_sum crc xs) [c, d]) ys"
    by (simp only: crc16.sum_append)
  then have "crc16_sum (crc16_sum crc xs) [a, b] = crc16_sum (crc16_sum crc xs) [c, d]"
    using crc16_sum_inj by (auto dest: injD)
  then have "crc16_sum crc xs XOR (ucast a XOR push_bit 8 (ucast b)) =
      crc16_sum crc xs XOR (ucast c XOR push_bit 8 (ucast d))"
    unfolding crc16_two_octets using crc16_bits_inj by (auto dest: injD)
  then have "(ucast a XOR push_bit 8 (ucast b) :: u16) = ucast c XOR push_bit 8 (ucast d)"
    by (simp only: xor_cancel)
  then show False
    using two_octets_inj assms by blast
qed

lemma crc16_sum_octet:
  assumes "a \<noteq> b"
  shows "crc16_sum crc (xs @ [a] @ ys) \<noteq> crc16_sum crc (xs @ [b] @ ys)"
proof -
  have "surj (\<lambda>crc. crc16_sum crc [0])"
    using crc16_sum_inj by (rule finite_UNIV_inj_surj [OF finite])
  then obtain before where before: "crc = crc16_sum before [0]"
    by (auto simp: surj_def)
  obtain us z where us: "0 # xs = us @ [z]"
    by (metis list.distinct(1) rev_exhaust)
  have "crc16_sum crc (xs @ [u] @ ys) = crc16_sum before (us @ [z, u] @ ys)" for u
  proof -
    have "us @ [z, u] @ ys = [0] @ xs @ [u] @ ys"
      using us by simp
    then show ?thesis
      unfolding before by (simp only: crc16.sum_append)
  qed
  then show ?thesis
    using crc16_sum_burst [of z a z b] assms by simp
qed

lemma ufw_crc16_arc_append:
  "ufw_crc16_arc crc (xs @ ys) (length xs + n) =
     do { c \<leftarrow> ufw_crc16_arc crc xs (length xs); ufw_crc16_arc c ys n }"
  by (simp add: ufw_crc16_arc_eq crc16.sum_append)

section \<open>Properties\<close>

text \<open>C39. The table driven checksum of a buffer is the bitwise CRC-16-ARC (polynomial \<open>0x8005\<close>
  reflected, initial value zero) of its first \<open>len\<close> octets, and reading past the buffer is the only
  way it can go wrong.\<close>

theorem crc16_table_is_bitwise:
  "ufw_buffer_crc16_arc buffer len =
     (if len \<le> length buffer then Some (foldl crc16_octet_ref 0 (take len buffer)) else None)"
proof -
  have "crc16_sum c xs = foldl crc16_octet_ref c xs" for c xs
    by (induction xs arbitrary: c) (simp_all add: crc16_octet_bitwise)
  then show ?thesis
    by (simp add: ufw_buffer_crc16_arc_def ufw_crc16_arc_eq CRC16_ARC_INITIAL_def)
qed

text \<open>The checksum over 16-bit words is the checksum over the octets of those words in the
  order the machine has them in memory, whatever the starting value.\<close>

theorem crc16_u16_is_octets:
  "ufw_crc16_arc_u16 e crc words len = ufw_crc16_arc crc (concat (map (u16_octets e) words)) (2 * len)"
  by (simp add: ufw_crc16_arc_u16_eq ufw_crc16_arc_eq length_concat_octets take_concat_octets)

text \<open>Error detection: changing one octet, or two neighbouring octets in any way (every burst of
  up to nine bits, and every burst of sixteen bits at an octet boundary), always changes the
  checksum, wherever in the buffer it happens and whatever surrounds it.\<close>

theorem crc16_detects_burst:
  assumes "(a, b) \<noteq> (c, d)"
  shows "ufw_buffer_crc16_arc (xs @ [a, b] @ ys) (length xs + 2 + length ys) \<noteq>
         ufw_buffer_crc16_arc (xs @ [c, d] @ ys) (length xs + 2 + length ys)"
  using crc16_sum_burst [OF assms, of CRC16_ARC_INITIAL xs ys]
  by (simp add: ufw_buffer_crc16_arc_def ufw_crc16_arc_eq)

theorem crc16_detects_burst_witness:
  "ufw_buffer_crc16_arc ([1, 2] @ [0x80, 1] @ [3]) (length [1, 2 :: u8] + 2 + length [3 :: u8]) \<noteq>
   ufw_buffer_crc16_arc ([1, 2] @ [0x40, 1] @ [3]) (length [1, 2 :: u8] + 2 + length [3 :: u8])"
  by (rule crc16_detects_burst) simp

end
