(* ===== verification/Ring_Buffer.thy ===== *)
theory Ring_Buffer
  imports Interfaces
begin

text \<open>
  The macro-polymorphic ring buffers of \<^verbatim>\<open>ufw/ring-buffer.h\<close>, their iterators
  (\<^verbatim>\<open>ufw/ring-buffer-iter.h\<close>, \<^verbatim>\<open>src/ring-buffer-iter.c\<close>) and the octet instance of
  \<^verbatim>\<open>src/octet-ring.c\<close>. A ring buffer refines a bounded queue that either refuses new data when it is
  full or drops its oldest element, and iteration in either direction visits the elements of that
  queue in order.
\<close>

section \<open>The code\<close>

record 'a RingBuffer =
  rb_data :: "'a list"
  rb_head :: nat
  rb_tail :: nat
  rb_datasize :: nat
  rb_override_if_full :: bool

definition rb_init :: "'a::zero list \<Rightarrow> nat \<Rightarrow> 'a RingBuffer option" where
  "rb_init buf sz = do {
     m \<leftarrow> mem_write buf 0 (replicate sz 0);
     Some \<lparr>rb_data = m, rb_head = 0, rb_tail = sz, rb_datasize = sz, rb_override_if_full = False\<rparr>
   }"

text \<open>The remainder by a size of zero is undefined.\<close>

definition rb_advance_head :: "'a RingBuffer \<Rightarrow> 'a RingBuffer option" where
  "rb_advance_head c =
     (if rb_datasize c = 0 then None
      else Some (c\<lparr>rb_head := sz_add (rb_head c) 1 mod rb_datasize c\<rparr>))"

definition rb_advance_tail :: "'a RingBuffer \<Rightarrow> 'a RingBuffer option" where
  "rb_advance_tail c =
     (if rb_datasize c = 0 then None
      else (let t = sz_add (rb_tail c) 1 mod rb_datasize c in
            Some (c\<lparr>rb_tail := (if t = rb_head c then rb_datasize c else t)\<rparr>)))"

definition rb_empty :: "'a RingBuffer \<Rightarrow> bool" where
  "rb_empty c \<longleftrightarrow> rb_tail c = rb_datasize c"

definition rb_full :: "'a RingBuffer \<Rightarrow> bool" where
  "rb_full c \<longleftrightarrow> rb_head c = rb_tail c"

definition rb_size :: "'a RingBuffer \<Rightarrow> nat" where
  "rb_size c =
     (if rb_empty c then 0
      else if rb_tail c < rb_head c then sz_sub (rb_head c) (rb_tail c)
      else sz_add (sz_sub (rb_datasize c) (rb_tail c)) (rb_head c))"

definition rb_get :: "'a::zero RingBuffer \<Rightarrow> ('a \<times> 'a RingBuffer) option" where
  "rb_get c =
     (if rb_empty c then Some (0, c)
      else do {
        rc \<leftarrow> mem_read (rb_data c) (rb_tail c) 1;
        c' \<leftarrow> rb_advance_tail c;
        Some (hd rc, c')
      })"

definition rb_put :: "'a RingBuffer \<Rightarrow> 'a \<Rightarrow> 'a RingBuffer option" where
  "rb_put c item =
     (if rb_full c \<and> \<not> rb_override_if_full c then Some c
      else do {
        c1 \<leftarrow> (if rb_full c then rb_advance_tail c else Some c);
        let c2 = (if rb_empty c1 then c1\<lparr>rb_tail := rb_head c1\<rparr> else c1);
        m \<leftarrow> mem_write (rb_data c2) (rb_head c2) [item];
        rb_advance_head (c2\<lparr>rb_data := m\<rparr>)
      })"

definition rb_clear :: "'a RingBuffer \<Rightarrow> 'a RingBuffer" where
  "rb_clear c = c\<lparr>rb_tail := rb_datasize c\<rparr>"

definition rb_set_override_if_full :: "'a RingBuffer \<Rightarrow> bool \<Rightarrow> 'a RingBuffer" where
  "rb_set_override_if_full c state = c\<lparr>rb_override_if_full := state\<rparr>"

subsection \<open>Iterators\<close>

datatype rb_iter_mode = RING_BUFFER_ITER_OLD_TO_NEW | RING_BUFFER_ITER_NEW_TO_OLD

record rb_iter =
  it_steps :: nat
  it_index :: nat
  it_size :: nat
  it_mode :: rb_iter_mode

definition rb_iter_init :: "'a RingBuffer \<Rightarrow> rb_iter_mode \<Rightarrow> rb_iter" where
  "rb_iter_init c mode =
     \<lparr>it_steps = rb_size c,
      it_index = (case mode of
          RING_BUFFER_ITER_OLD_TO_NEW \<Rightarrow> rb_tail c
        | RING_BUFFER_ITER_NEW_TO_OLD \<Rightarrow>
            if rb_head c = 0 then sz_sub (rb_datasize c) 1 else sz_sub (rb_head c) 1),
      it_size = rb_datasize c, it_mode = mode\<rparr>"

definition rb_iter_done :: "rb_iter \<Rightarrow> bool" where
  "rb_iter_done iter \<longleftrightarrow> it_steps iter = 0"

definition rb_iter_advance :: "rb_iter \<Rightarrow> (nat \<times> rb_iter) option" where
  "rb_iter_advance iter = do {
     idx \<leftarrow> (case it_mode iter of
         RING_BUFFER_ITER_OLD_TO_NEW \<Rightarrow>
           if it_size iter = 0 then None else Some (sz_add (it_index iter) 1 mod it_size iter)
       | RING_BUFFER_ITER_NEW_TO_OLD \<Rightarrow>
           Some (if it_index iter = 0 then sz_sub (it_size iter) 1 else sz_sub (it_index iter) 1));
     Some (idx, iter\<lparr>it_index := idx, it_steps := sz_sub (it_steps iter) 1\<rparr>)
   }"

definition rb_inspect :: "'a RingBuffer \<Rightarrow> rb_iter \<Rightarrow> 'a option" where
  "rb_inspect c iter = do { xs \<leftarrow> mem_read (rb_data c) (it_index iter) 1; Some (hd xs) }"

text \<open>The loop every user of an iterator writes: inspect and advance until done.\<close>

function rb_walk :: "'a RingBuffer \<Rightarrow> rb_iter \<Rightarrow> 'a list option" where
  "rb_walk c iter =
     (if rb_iter_done iter then Some []
      else do {
        x \<leftarrow> rb_inspect c iter;
        (idx, iter') \<leftarrow> rb_iter_advance iter;
        xs \<leftarrow> rb_walk c iter';
        Some (x # xs)
      })"
  by auto
termination
  by (relation "measure (\<lambda>(c, iter). it_steps iter)")
    (auto simp: rb_iter_done_def rb_iter_advance_def split: bind_splits)

declare rb_walk.simps [simp del]

section \<open>The octet instance\<close>

type_synonym octet_ring = "u8 RingBuffer"

section \<open>Invariant and contents\<close>

definition rb_inv :: "'a RingBuffer \<Rightarrow> bool" where
  "rb_inv c \<longleftrightarrow> 0 < rb_datasize c \<and> rb_datasize c \<le> SSIZE_MAX \<and>
     length (rb_data c) = rb_datasize c \<and> rb_head c < rb_datasize c \<and> rb_tail c \<le> rb_datasize c"

definition rb_list :: "'a RingBuffer \<Rightarrow> 'a list" where
  "rb_list c = map (\<lambda>i. rb_data c ! ((rb_tail c + i) mod rb_datasize c)) [0..<rb_size c]"

lemma rb_size_eq:
  assumes "rb_inv c"
  shows "rb_size c = (if rb_tail c = rb_datasize c then 0
           else if rb_tail c < rb_head c then rb_head c - rb_tail c
           else rb_datasize c - rb_tail c + rb_head c)"
  using assms by (auto simp: rb_size_def rb_inv_def rb_empty_def SSIZE_MAX_def SIZE_MOD_def sz_add_id)

lemma length_rb_list [simp]: "length (rb_list c) = rb_size c"
  by (simp add: rb_list_def)

lemma rb_size_le: "rb_inv c \<Longrightarrow> rb_size c \<le> rb_datasize c"
  by (auto simp: rb_size_eq) (auto simp: rb_inv_def)

lemma rb_full_iff: "rb_inv c \<Longrightarrow> rb_full c \<longleftrightarrow> rb_size c = rb_datasize c"
  by (auto simp: rb_size_eq rb_full_def) (auto simp: rb_inv_def)

lemma rb_empty_iff: "rb_inv c \<Longrightarrow> rb_empty c \<longleftrightarrow> rb_list c = []"
  by (auto simp: rb_empty_def rb_list_def rb_size_eq) (auto simp: rb_inv_def)

lemma rb_size_zero_iff: "rb_inv c \<Longrightarrow> rb_size c = 0 \<longleftrightarrow> rb_tail c = rb_datasize c"
  by (auto simp: rb_size_eq) (auto simp: rb_inv_def)

lemma ring_succ:
  assumes "i < (n :: nat)" and "n \<le> SSIZE_MAX"
  shows "sz_add i (Suc 0) mod n = (if Suc i = n then 0 else Suc i)"
  using assms by (simp add: sz_add_id SIZE_MOD_def SSIZE_MAX_def)

lemma rb_last_index:
  assumes "rb_inv c" and "rb_tail c \<noteq> rb_datasize c" and "i < rb_datasize c"
  shows "(rb_tail c + i) mod rb_datasize c =
    (if rb_tail c + i < rb_datasize c then rb_tail c + i else rb_tail c + i - rb_datasize c)"
  using assms by (auto simp: rb_inv_def mod_if)

section \<open>Operations refine the queue\<close>

lemma rb_advance_tail_ok:
  assumes "rb_inv c" and "\<not> rb_empty c"
  shows "\<exists>c'. rb_advance_tail c = Some c' \<and> rb_inv c' \<and> rb_list c' = tl (rb_list c) \<and>
           rb_data c' = rb_data c \<and> rb_head c' = rb_head c \<and> rb_datasize c' = rb_datasize c \<and>
           rb_override_if_full c' = rb_override_if_full c"
proof -
  let ?n = "rb_datasize c" and ?t = "rb_tail c"
  have t: "?t < ?n" and n: "0 < ?n" "?n \<le> SSIZE_MAX"
    using assms by (auto simp: rb_inv_def rb_empty_def)
  define t' where "t' = (if Suc ?t = ?n then 0 else Suc ?t)"
  define c' where "c' = c\<lparr>rb_tail := (if t' = rb_head c then ?n else t')\<rparr>"
  have adv: "rb_advance_tail c = Some c'"
    using t n by (simp add: rb_advance_tail_def c'_def t'_def ring_succ Let_def)
  have inv: "rb_inv c'"
    using assms(1) t by (auto simp: rb_inv_def c'_def t'_def)
  have sz: "rb_size c' = rb_size c - 1"
    using assms t unfolding rb_size_eq [OF inv] rb_size_eq [OF assms(1)]
    by (auto simp: c'_def t'_def rb_empty_def rb_inv_def)
  have "rb_list c' = map (\<lambda>i. rb_data c ! ((t' + i) mod ?n)) [0..<rb_size c - 1]"
  proof (cases "t' = rb_head c")
    case True
    then have "rb_size c' = 0"
      using rb_size_zero_iff [OF inv] by (simp add: c'_def)
    then show ?thesis
      using sz by (simp add: rb_list_def)
  next
    case False
    then show ?thesis
      unfolding rb_list_def sz by (simp add: c'_def)
  qed
  also have "\<dots> = map (\<lambda>i. rb_data c ! ((?t + Suc i) mod ?n)) [0..<rb_size c - 1]"
  proof -
    have "t' = Suc ?t mod ?n"
      using t by (auto simp: t'_def)
    then show ?thesis
      by (simp add: mod_simps)
  qed
  also have "\<dots> = tl (rb_list c)"
    by (rule nth_equalityI) (auto simp: rb_list_def nth_tl less_diff_conv)
  finally show ?thesis
    using adv inv by (auto simp: c'_def)
qed

lemma rb_hd: "rb_inv c \<Longrightarrow> \<not> rb_empty c \<Longrightarrow> rb_data c ! rb_tail c = hd (rb_list c)"
  using rb_size_zero_iff [of c]
  by (subst hd_conv_nth) (auto simp: rb_empty_iff, auto simp: rb_list_def rb_empty_def rb_inv_def)

lemma rb_get_ok:
  assumes "rb_inv c"
  shows "\<exists>c'. rb_get c = Some (fst (queue_get (rb_list c)), c') \<and> rb_inv c' \<and>
           rb_list c' = snd (queue_get (rb_list c)) \<and> rb_datasize c' = rb_datasize c \<and>
           rb_override_if_full c' = rb_override_if_full c"
proof (cases "rb_empty c")
  case True
  with assms show ?thesis
    by (simp add: rb_get_def rb_empty_iff queue_get_def)
next
  case False
  then have q: "rb_list c = hd (rb_list c) # tl (rb_list c)"
    using assms by (simp add: rb_empty_iff)
  have "rb_tail c < length (rb_data c)"
    using assms False by (auto simp: rb_inv_def rb_empty_def)
  then have "mem_read (rb_data c) (rb_tail c) 1 = Some [rb_data c ! rb_tail c]"
    by (simp add: mem_read_def take_Suc_conv_app_nth hd_drop_conv_nth Suc_leI take_Suc)
  then show ?thesis
    using rb_advance_tail_ok [OF assms False] False assms q
    by (auto simp: rb_get_def queue_get_def rb_hd split: list.splits)
qed

lemma rb_store_ok:
  assumes "rb_inv c" and "\<not> rb_full c" and "c2 = (if rb_empty c then c\<lparr>rb_tail := rb_head c\<rparr> else c)"
  shows "\<exists>c'. do { m \<leftarrow> mem_write (rb_data c2) (rb_head c2) [x]; rb_advance_head (c2\<lparr>rb_data := m\<rparr>) } = Some c' \<and>
           rb_inv c' \<and> rb_list c' = rb_list c @ [x] \<and> rb_datasize c' = rb_datasize c \<and>
           rb_override_if_full c' = rb_override_if_full c"
proof -
  let ?n = "rb_datasize c" and ?h = "rb_head c" and ?t = "rb_tail c2"
  have i: "?h < ?n" "length (rb_data c) = ?n" "?n \<le> SSIZE_MAX" "0 < ?n" "?t < ?n"
    using assms by (auto simp: rb_inv_def rb_empty_def)
  have c2: "rb_data c2 = rb_data c" "rb_head c2 = ?h" "rb_datasize c2 = ?n"
    using assms(3) by auto
  define h' where "h' = (if Suc ?h = ?n then 0 else Suc ?h)"
  define c' where "c' = c2\<lparr>rb_data := (rb_data c)[?h := x], rb_head := h'\<rparr>"
  have w: "mem_write (rb_data c2) (rb_head c2) [x] = Some ((rb_data c)[?h := x])"
    using i c2 by (simp add: mem_write_def upd_conv_take_nth_drop)
  have run: "do { m \<leftarrow> mem_write (rb_data c2) (rb_head c2) [x]; rb_advance_head (c2\<lparr>rb_data := m\<rparr>) } = Some c'"
    unfolding w using i c2 by (simp add: rb_advance_head_def ring_succ c'_def h'_def)
  have inv: "rb_inv c'"
    using i c2 by (auto simp: rb_inv_def c'_def h'_def)
  have sz: "rb_size c' = Suc (rb_size c)"
    using assms i c2 unfolding rb_size_eq [OF inv] rb_size_eq [OF assms(1)]
    by (auto simp: c'_def h'_def rb_empty_def rb_full_def rb_inv_def)
  have le: "Suc (rb_size c) \<le> ?n"
    using rb_size_le [OF inv] sz c2 by (simp add: c'_def)
  have idx: "(?t + k) mod ?n = (if ?t + k < ?n then ?t + k else ?t + k - ?n)" if "k < ?n" for k
    using that i by (auto simp: mod_if)
  have last: "(?t + rb_size c) mod ?n = ?h"
    using le assms i by (subst idx) (auto simp: rb_size_eq rb_empty_def rb_inv_def split: if_splits)
  have new: "(?t + k) mod ?n \<noteq> ?h" if "k < rb_size c" for k
    using that le last idx [of k] idx [of "rb_size c"] by (auto split: if_splits)
  have tail: "?t = rb_tail c" if "0 < rb_size c"
    using that assms rb_size_zero_iff [OF assms(1)] by (auto simp: rb_empty_def)
  have "rb_list c' = map (\<lambda>i. rb_data c' ! ((?t + i) mod ?n)) [0..<rb_size c] @ [x]"
    unfolding rb_list_def sz using i c2 last by (simp add: c'_def)
  also have "map (\<lambda>i. rb_data c' ! ((?t + i) mod ?n)) [0..<rb_size c] = rb_list c"
  proof (cases "rb_size c = 0")
    case False
    have "rb_data c' ! ((?t + k) mod ?n) = rb_data c ! ((?t + k) mod ?n)" if "k < rb_size c" for k
      using nth_list_update_neq [OF new [OF that, symmetric]] by (simp add: c'_def)
    with False tail show ?thesis
      by (simp add: rb_list_def)
  qed (simp add: rb_list_def)
  finally show ?thesis
    using run inv assms(3) c2 by (auto simp: c'_def)
qed

lemma rb_put_ok:
  assumes "rb_inv c"
  shows "\<exists>c'. rb_put c x = Some c' \<and> rb_inv c' \<and>
           rb_list c' = queue_put (rb_datasize c) (rb_override_if_full c) (rb_list c) x \<and>
           rb_datasize c' = rb_datasize c \<and> rb_override_if_full c' = rb_override_if_full c"
proof (cases "rb_full c")
  case True
  then have sz: "rb_size c = rb_datasize c"
    using assms by (simp add: rb_full_iff)
  then have ne: "\<not> rb_empty c"
    using assms by (auto simp: rb_empty_iff rb_inv_def simp flip: length_0_conv)
  show ?thesis
  proof (cases "rb_override_if_full c")
    case False
    with True assms sz show ?thesis
      by (simp add: rb_put_def queue_put_def)
  next
    case ov: True
    from rb_advance_tail_ok [OF assms ne] obtain c1 where
      c1: "rb_advance_tail c = Some c1" "rb_inv c1" "rb_list c1 = tl (rb_list c)"
        "rb_datasize c1 = rb_datasize c" "rb_override_if_full c1 = rb_override_if_full c" by blast
    have "rb_size c1 < rb_datasize c1"
      using c1(3,4) sz assms by (auto simp: rb_inv_def simp flip: length_rb_list)
    then have "\<not> rb_full c1"
      using c1(2) by (simp add: rb_full_iff)
    from rb_store_ok [OF c1(2) this refl, of x] show ?thesis
      using c1 True ov sz by (auto simp: rb_put_def queue_put_def Let_def)
  qed
next
  case False
  then have "rb_size c < rb_datasize c"
    using assms rb_size_le [OF assms] by (simp add: rb_full_iff)
  then show ?thesis
    using rb_store_ok [OF assms False refl, of x] False by (auto simp: rb_put_def queue_put_def Let_def)
qed

lemma rb_init_ok:
  assumes "length buf = sz" "0 < sz" "sz \<le> SSIZE_MAX"
  shows "\<exists>c. rb_init buf sz = Some c \<and> rb_inv c \<and> rb_list c = [] \<and> rb_datasize c = sz \<and>
           \<not> rb_override_if_full c"
  using assms by (simp add: rb_init_def mem_write_def rb_inv_def rb_list_def rb_size_def rb_empty_def)

lemma rb_clear_ok: "rb_inv c \<Longrightarrow> rb_inv (rb_clear c) \<and> rb_list (rb_clear c) = []"
  by (simp add: rb_clear_def rb_inv_def rb_list_def rb_size_def rb_empty_def)

lemma rb_set_override_ok:
  "rb_inv c \<Longrightarrow> rb_inv (rb_set_override_if_full c s) \<and> rb_list (rb_set_override_if_full c s) = rb_list c"
  by (simp add: rb_set_override_if_full_def rb_inv_def rb_list_def rb_size_def rb_empty_def)

lemma rb_override_same [simp]:
  "rb_datasize (rb_clear c) = rb_datasize c" "rb_override_if_full (rb_clear c) = rb_override_if_full c"
  "rb_datasize (rb_set_override_if_full c s) = rb_datasize c"
  "rb_override_if_full (rb_set_override_if_full c s) = s"
  by (simp_all add: rb_clear_def rb_set_override_if_full_def)

interpretation rbq: bounded_queue rb_inv rb_list rb_datasize rb_override_if_full
  rb_put rb_get rb_clear rb_set_override_if_full
proof unfold_locales
  fix c :: "'a::zero RingBuffer" and x :: 'a
  assume "rb_inv c"
  then show "\<exists>c'. rb_put c x = Some c' \<and> rb_inv c' \<and>
      rb_list c' = queue_put (rb_datasize c) (rb_override_if_full c) (rb_list c) x \<and>
      rb_datasize c' = rb_datasize c \<and> rb_override_if_full c' = rb_override_if_full c"
    by (rule rb_put_ok)
next
  fix c :: "'a::zero RingBuffer"
  assume "rb_inv c"
  then show "\<exists>c'. rb_get c = Some (fst (queue_get (rb_list c)), c') \<and> rb_inv c' \<and>
      rb_list c' = snd (queue_get (rb_list c)) \<and> rb_datasize c' = rb_datasize c \<and>
      rb_override_if_full c' = rb_override_if_full c"
    by (rule rb_get_ok)
qed (simp_all add: rb_clear_ok rb_set_override_ok)

section \<open>Iteration visits the contents\<close>

lemma rb_inspect_ok:
  "it_index iter < length (rb_data c) \<Longrightarrow> rb_inspect c iter = Some (rb_data c ! it_index iter)"
  by (simp add: rb_inspect_def mem_read_one)

lemma rb_last_element:
  assumes "rb_inv c" and "rb_size c \<noteq> 0"
  shows "(rb_tail c + (rb_size c - 1)) mod rb_datasize c =
           (if rb_head c = 0 then rb_datasize c - 1 else rb_head c - 1)"
  using assms by (auto simp: rb_size_eq mod_if rb_inv_def split: if_splits)

lemma rb_walk_old:
  assumes "rb_inv c" and "k + n = rb_size c"
  shows "rb_walk c \<lparr>it_steps = n, it_index = (rb_tail c + k) mod rb_datasize c, it_size = rb_datasize c,
           it_mode = RING_BUFFER_ITER_OLD_TO_NEW\<rparr> = Some (drop k (rb_list c))"
  using assms(2)
proof (induction n arbitrary: k)
  case 0
  then show ?case
    by (subst rb_walk.simps) (simp add: rb_iter_done_def)
next
  case (Suc n)
  let ?i = "(rb_tail c + k) mod rb_datasize c"
  have ds: "0 < rb_datasize c" "rb_datasize c \<le> SSIZE_MAX" "length (rb_data c) = rb_datasize c"
    using assms(1) by (simp_all add: rb_inv_def)
  then have "?i < rb_datasize c"
    by simp
  then have "sz_add ?i (Suc 0) mod rb_datasize c = (rb_tail c + Suc k) mod rb_datasize c"
    using ds(2) by (simp add: sz_add_Suc mod_simps)
  moreover have "drop k (rb_list c) = rb_data c ! ?i # drop (Suc k) (rb_list c)"
    using Suc.prems by (subst Cons_nth_drop_Suc [symmetric]) (simp_all add: rb_list_def)
  ultimately show ?case
    using Suc.IH [of "Suc k"] Suc.prems ds
    by (subst rb_walk.simps)
      (simp add: rb_iter_done_def rb_inspect_ok rb_iter_advance_def)
qed

lemma ring_pred:
  assumes "0 < d" and "0 < b"
  shows "(if b mod d = 0 then d - Suc 0 else b mod d - Suc 0) = (b - Suc 0) mod d"
  using assms by (cases b) (auto simp: mod_Suc)

lemma rb_walk_new:
  assumes "rb_inv c" and "n \<le> rb_size c" and "n \<noteq> 0 \<Longrightarrow> i = (rb_tail c + (n - 1)) mod rb_datasize c"
  shows "rb_walk c \<lparr>it_steps = n, it_index = i, it_size = rb_datasize c,
           it_mode = RING_BUFFER_ITER_NEW_TO_OLD\<rparr> = Some (rev (take n (rb_list c)))"
  using assms(2,3)
proof (induction n arbitrary: i)
  case 0
  then show ?case
    by (subst rb_walk.simps) (simp add: rb_iter_done_def)
next
  case (Suc n)
  have ds: "0 < rb_datasize c" "length (rb_data c) = rb_datasize c"
    using assms(1) by (simp_all add: rb_inv_def)
  have i: "i = (rb_tail c + n) mod rb_datasize c"
    using Suc.prems by simp
  have "take (Suc n) (rb_list c) = take n (rb_list c) @ [rb_data c ! i]"
    using Suc.prems i by (simp add: take_Suc_conv_app_nth rb_list_def)
  moreover define j where "j = (if i = 0 then sz_sub (rb_datasize c) 1 else sz_sub i 1)"
  have "j = (rb_tail c + (n - 1)) mod rb_datasize c" if "n \<noteq> 0"
    using that ds ring_pred [OF ds(1), of "rb_tail c + n"] i by (auto simp: j_def split: if_splits)
  then have "rb_walk c \<lparr>it_steps = n, it_index = j, it_size = rb_datasize c,
           it_mode = RING_BUFFER_ITER_NEW_TO_OLD\<rparr> = Some (rev (take n (rb_list c)))"
    using Suc.IH [of j] Suc.prems by simp
  moreover have "rb_iter_advance \<lparr>it_steps = Suc n, it_index = i, it_size = rb_datasize c,
      it_mode = RING_BUFFER_ITER_NEW_TO_OLD\<rparr> = Some (j, \<lparr>it_steps = n, it_index = j,
      it_size = rb_datasize c, it_mode = RING_BUFFER_ITER_NEW_TO_OLD\<rparr>)"
    by (simp add: rb_iter_advance_def j_def)
  moreover have "i < length (rb_data c)"
    using ds i by simp
  ultimately show ?case
    by (subst rb_walk.simps) (simp add: rb_iter_done_def rb_inspect_ok)
qed

section \<open>Properties\<close>

text \<open>C3. A ring buffer is a bounded queue: whatever is stored, fetched and cleared, and however its
  override mode is switched, every call is defined and answers as the queue of at most \<open>size\<close> elements
  that refuses new elements when it is full, or drops its oldest one for them in override mode.\<close>

theorem ring_buffer_is_bounded_queue:
  assumes "rb_inv c"
  shows "\<exists>c'. ring_run rb_put rb_get rb_clear rb_set_override_if_full c ops =
           Some (fst (ring_spec (rb_datasize c) (rb_override_if_full c) (rb_list c) ops), c') \<and>
           rb_inv c' \<and> rb_list c' = snd (ring_spec (rb_datasize c) (rb_override_if_full c) (rb_list c) ops)"
  using assms by (rule rbq.ring_run_refines)

theorem ring_buffer_is_bounded_queue_witness:
  "\<exists>c c' :: octet_ring. rb_init [9, 9] 2 = Some c \<and>
     ring_run rb_put rb_get rb_clear rb_set_override_if_full c
       [R_put 1, R_put 2, R_put 3, R_override True, R_put 4, R_get, R_get, R_get] = Some ([2, 4, 0], c')"
proof -
  obtain c :: octet_ring where c: "rb_init [9, 9] 2 = Some c" "rb_inv c" "rb_list c = []"
      "rb_datasize c = 2" "\<not> rb_override_if_full c"
    using rb_init_ok [of "[9, 9]" 2] by (auto simp: SSIZE_MAX_def)
  from ring_buffer_is_bounded_queue [OF c(2), of "[R_put 1, R_put 2, R_put 3, R_override True, R_put 4,
      R_get, R_get, R_get]"] c show ?thesis
    by (auto simp: queue_put_def queue_get_def)
qed

text \<open>An iterator visits exactly the elements of the ring buffer, from the oldest to the newest or
  the other way round, and stops after the last one.\<close>

theorem ring_buffer_iterators:
  assumes "rb_inv c"
  shows "rb_walk c (rb_iter_init c mode) =
           Some (case mode of RING_BUFFER_ITER_OLD_TO_NEW \<Rightarrow> rb_list c
                            | RING_BUFFER_ITER_NEW_TO_OLD \<Rightarrow> rev (rb_list c))"
proof (cases mode)
  case RING_BUFFER_ITER_OLD_TO_NEW
  show ?thesis
  proof (cases "rb_tail c = rb_datasize c")
    case True
    then have "rb_size c = 0" "rb_list c = []"
      using assms by (simp_all add: rb_size_zero_iff flip: length_0_conv)
    then show ?thesis
      by (subst rb_walk.simps) (simp add: rb_iter_done_def rb_iter_init_def split: rb_iter_mode.split)
  next
    case False
    then have "rb_tail c mod rb_datasize c = rb_tail c"
      using assms by (simp add: rb_inv_def)
    with RING_BUFFER_ITER_OLD_TO_NEW rb_walk_old [OF assms, of 0 "rb_size c"] show ?thesis
      by (simp add: rb_iter_init_def)
  qed
next
  case RING_BUFFER_ITER_NEW_TO_OLD
  define i where "i = (if rb_head c = 0 then sz_sub (rb_datasize c) 1 else sz_sub (rb_head c) 1)"
  have "i = (rb_tail c + (rb_size c - 1)) mod rb_datasize c" if "rb_size c \<noteq> 0"
    using that rb_last_element [OF assms] assms by (auto simp: i_def rb_inv_def)
  with RING_BUFFER_ITER_NEW_TO_OLD rb_walk_new [OF assms order_refl, of i] show ?thesis
    by (simp add: rb_iter_init_def i_def)
qed

theorem ring_buffer_iterators_witness:
  "\<exists>c c' :: octet_ring. rb_init [9, 9] 2 = Some c \<and>
     ring_run rb_put rb_get rb_clear rb_set_override_if_full c
       [R_put 1, R_put 2, R_override True, R_put 3] = Some ([], c') \<and>
     rb_walk c' (rb_iter_init c' RING_BUFFER_ITER_NEW_TO_OLD) = Some [3, 2]"
proof -
  obtain c :: octet_ring where c: "rb_init [9, 9] 2 = Some c" "rb_inv c" "rb_list c = []"
      "rb_datasize c = 2" "\<not> rb_override_if_full c"
    using rb_init_ok [of "[9, 9]" 2] by (auto simp: SSIZE_MAX_def)
  from rbq.ring_run_refines [OF c(2), of "[R_put 1, R_put 2, R_override True, R_put 3]"] c
  obtain c' where "ring_run rb_put rb_get rb_clear rb_set_override_if_full c
       [R_put 1, R_put 2, R_override True, R_put 3] = Some ([], c')" "rb_inv c'" "rb_list c' = [2, 3]"
    by (auto simp: queue_put_def queue_get_def)
  with c ring_buffer_iterators [of c' RING_BUFFER_ITER_NEW_TO_OLD] show ?thesis
    by auto
qed

end
