(* ===== verification/Endpoint_Core.thy ===== *)
theory Endpoint_Core
  imports Byte_Buffer
begin

text \<open>
  Sources and sinks: \<^verbatim>\<open>ufw/endpoints.h\<close> and \<^verbatim>\<open>src/endpoints/core.c\<close>. A driver is a function on the
  driver's state; it is given the number of octets that are wanted, and answers with a return code,
  the octets it stored at the caller's pointer, and its new state. The code on top of it adapts octet
  drivers to blocks, retries interrupted transfers, and plugs sources into sinks.

  Sources and sinks do not share memory. A buffer that an endpoint exposes (the \<open>getbuffer\<close>
  extension) is part of its driver's state, and the driver does not look at it during a call that
  stores data there.
\<close>

section \<open>Data types\<close>

datatype 's source_fn =
    OctetSource "'s \<Rightarrow> (int \<times> u8 list \<times> 's) option"
  | ChunkSource "'s \<Rightarrow> nat \<Rightarrow> (int \<times> u8 list \<times> 's) option"

datatype 't sink_fn =
    OctetSink "'t \<Rightarrow> u8 \<Rightarrow> (int \<times> 't) option"
  | ChunkSink "'t \<Rightarrow> u8 list \<Rightarrow> (int \<times> 't) option"

text \<open>The data the retry callbacks share is part of the driver's state.\<close>

record 's ep_retry_conf =
  rt_init :: "(u32 \<Rightarrow> 's \<Rightarrow> u32 \<times> 's) option"
  rt_run :: "('s \<Rightarrow> int \<Rightarrow> int \<times> 's) option"
  rt_ctrl :: u32

record 's buffer_ext =
  bx_get :: "'s \<Rightarrow> ByteBuffer"
  bx_put :: "'s \<Rightarrow> u8 list \<Rightarrow> 's"

record 's Source =
  src_fn :: "'s source_fn"
  src_driver :: 's
  src_retry :: "'s ep_retry_conf"
  src_getbuffer :: "'s buffer_ext option"
  src_seek :: "('s \<Rightarrow> nat \<Rightarrow> int \<times> 's) option"

record 't Sink =
  snk_fn :: "'t sink_fn"
  snk_driver :: 't
  snk_retry :: "'t ep_retry_conf"
  snk_getbuffer :: "'t buffer_ext option"
  snk_seek :: "('t \<Rightarrow> nat \<Rightarrow> int \<times> 't) option"

definition EP_RETRY_INIT :: "'s ep_retry_conf" where
  "EP_RETRY_INIT = \<lparr>rt_init = None, rt_run = None, rt_ctrl = 0\<rparr>"

definition CHUNK_SOURCE_INIT :: "('s \<Rightarrow> nat \<Rightarrow> (int \<times> u8 list \<times> 's) option) \<Rightarrow> 's \<Rightarrow> 's Source" where
  "CHUNK_SOURCE_INIT cb driver = \<lparr>src_fn = ChunkSource cb, src_driver = driver,
     src_retry = EP_RETRY_INIT, src_getbuffer = None, src_seek = None\<rparr>"

definition OCTET_SOURCE_INIT :: "('s \<Rightarrow> (int \<times> u8 list \<times> 's) option) \<Rightarrow> 's \<Rightarrow> 's Source" where
  "OCTET_SOURCE_INIT cb driver = \<lparr>src_fn = OctetSource cb, src_driver = driver,
     src_retry = EP_RETRY_INIT, src_getbuffer = None, src_seek = None\<rparr>"

definition CHUNK_SINK_INIT :: "('t \<Rightarrow> u8 list \<Rightarrow> (int \<times> 't) option) \<Rightarrow> 't \<Rightarrow> 't Sink" where
  "CHUNK_SINK_INIT cb driver = \<lparr>snk_fn = ChunkSink cb, snk_driver = driver,
     snk_retry = EP_RETRY_INIT, snk_getbuffer = None, snk_seek = None\<rparr>"

definition OCTET_SINK_INIT :: "('t \<Rightarrow> u8 \<Rightarrow> (int \<times> 't) option) \<Rightarrow> 't \<Rightarrow> 't Sink" where
  "OCTET_SINK_INIT cb driver = \<lparr>snk_fn = OctetSink cb, snk_driver = driver,
     snk_retry = EP_RETRY_INIT, snk_getbuffer = None, snk_seek = None\<rparr>"

text \<open>The initialisers keep what they do not assign: the control mask and the seek function.\<close>

definition octet_source_init ::
    "'s Source \<Rightarrow> ('s \<Rightarrow> (int \<times> u8 list \<times> 's) option) \<Rightarrow> 's \<Rightarrow> 's Source" where
  "octet_source_init inst source driver = inst\<lparr>src_fn := OctetSource source, src_driver := driver,
     src_retry := (src_retry inst)\<lparr>rt_run := None, rt_init := None\<rparr>, src_getbuffer := None\<rparr>"

definition chunk_source_init ::
    "'s Source \<Rightarrow> ('s \<Rightarrow> nat \<Rightarrow> (int \<times> u8 list \<times> 's) option) \<Rightarrow> 's \<Rightarrow> 's Source" where
  "chunk_source_init inst source driver = inst\<lparr>src_fn := ChunkSource source, src_driver := driver,
     src_retry := (src_retry inst)\<lparr>rt_run := None, rt_init := None\<rparr>, src_getbuffer := None\<rparr>"

definition octet_sink_init :: "'t Sink \<Rightarrow> ('t \<Rightarrow> u8 \<Rightarrow> (int \<times> 't) option) \<Rightarrow> 't \<Rightarrow> 't Sink" where
  "octet_sink_init inst sink driver = inst\<lparr>snk_fn := OctetSink sink, snk_driver := driver,
     snk_retry := (snk_retry inst)\<lparr>rt_run := None, rt_init := None\<rparr>, snk_getbuffer := None\<rparr>"

definition chunk_sink_init :: "'t Sink \<Rightarrow> ('t \<Rightarrow> u8 list \<Rightarrow> (int \<times> 't) option) \<Rightarrow> 't \<Rightarrow> 't Sink" where
  "chunk_sink_init inst sink driver = inst\<lparr>snk_fn := ChunkSink sink, snk_driver := driver,
     snk_retry := (snk_retry inst)\<lparr>rt_run := None, rt_init := None\<rparr>, snk_getbuffer := None\<rparr>"

section \<open>Single octets\<close>

text \<open>The result lists the octet the driver stored; storing more than one leaves the object.\<close>

definition source_get_octet :: "'s Source \<Rightarrow> (int \<times> u8 list \<times> 's Source) option" where
  "source_get_octet source = do {
     (rc, xs, s) \<leftarrow> (case src_fn source of
         OctetSource f \<Rightarrow> f (src_driver source)
       | ChunkSource f \<Rightarrow> do { (rc, xs, s) \<leftarrow> f (src_driver source) 1; Some (to_int rc, xs, s) });
     if length xs \<le> 1 then Some (rc, xs, source\<lparr>src_driver := s\<rparr>) else None
   }"

definition sink_put_octet :: "'t Sink \<Rightarrow> u8 \<Rightarrow> (int \<times> 't Sink) option" where
  "sink_put_octet sink data = do {
     (rc, t) \<leftarrow> (case snk_fn sink of
         OctetSink f \<Rightarrow> f (snk_driver sink) data
       | ChunkSink f \<Rightarrow> do { (rc, t) \<leftarrow> f (snk_driver sink) [data]; Some (to_int rc, t) });
     Some (rc, sink\<lparr>snk_driver := t\<rparr>)
   }"

section \<open>Retrying\<close>

definition EP_RETRY_CTRL_OTHER :: nat where "EP_RETRY_CTRL_OTHER = 0"
definition EP_RETRY_CTRL_NOTHING :: nat where "EP_RETRY_CTRL_NOTHING = 1"
definition EP_RETRY_CTRL_EAGAIN :: nat where "EP_RETRY_CTRL_EAGAIN = 2"
definition EP_RETRY_CTRL_EINTR :: nat where "EP_RETRY_CTRL_EINTR = 3"

text \<open>\<open>ep_retry\<close> is called with a run function that is not NULL.\<close>

definition ep_retry :: "u32 \<Rightarrow> ('s \<Rightarrow> int \<Rightarrow> int \<times> 's) \<Rightarrow> 's \<Rightarrow> int \<Rightarrow> int \<times> 's" where
  "ep_retry ctrl run drv rc =
     (if rc = - EAGAIN then
        (if bit ctrl EP_RETRY_CTRL_EAGAIN then run drv rc else (1, drv))
      else if rc = - EINTR then
        (if bit ctrl EP_RETRY_CTRL_EINTR then run drv rc else (1, drv))
      else if rc = 0 then
        (if bit ctrl EP_RETRY_CTRL_NOTHING then run drv rc else (1, drv))
      else if bit ctrl EP_RETRY_CTRL_OTHER then run drv rc
      else (rc, drv))"

text \<open>Running the init function of an endpoint, when it has one.\<close>

definition retry_start :: "'s ep_retry_conf \<Rightarrow> 's \<Rightarrow> 's ep_retry_conf \<times> 's" where
  "retry_start rt s = (case rt_init rt of
      None \<Rightarrow> (rt, s)
    | Some init \<Rightarrow> (let (c, s') = init (rt_ctrl rt) s in (rt\<lparr>rt_ctrl := c\<rparr>, s')))"

section \<open>Reading\<close>

text \<open>The destination is the memory object \<open>buf\<close> from offset \<open>off\<close> on.\<close>

partial_function (option) source_adapt ::
    "('s \<Rightarrow> (int \<times> u8 list \<times> 's) option) \<Rightarrow> 's \<Rightarrow> u8 list \<Rightarrow> nat \<Rightarrow> nat \<Rightarrow> nat
      \<Rightarrow> (int \<times> u8 list \<times> 's) option" where
  "source_adapt f s buf off n rest =
     (if rest = 0 then Some (to_ssize n, buf, s)
      else do {
        (rc, xs, s') \<leftarrow> f s;
        buf' \<leftarrow> mem_write buf (sz_sub (sz_add off n) rest) xs;
        if rc < 0 then Some (if rest = n then rc else to_ssize (sz_sub n rest), buf', s')
        else if rc = 0 then Some (if rest = n then - EAGAIN else to_ssize (sz_sub n rest), buf', s')
        else source_adapt f s' buf' off n (sz_sub rest (nat rc))
      })"

definition source_read :: "'s Source \<Rightarrow> u8 list \<Rightarrow> nat \<Rightarrow> nat \<Rightarrow> (int \<times> u8 list \<times> 's Source) option" where
  "source_read source buf off n = do {
     (rc, buf', s) \<leftarrow> (case src_fn source of
         OctetSource f \<Rightarrow> source_adapt f (src_driver source) buf off n n
       | ChunkSource f \<Rightarrow> do {
           (rc, xs, s) \<leftarrow> f (src_driver source) n;
           buf' \<leftarrow> mem_write buf off xs;
           Some (rc, buf', s)
         });
     Some (rc, buf', source\<lparr>src_driver := s\<rparr>)
   }"

text \<open>The result of the worker is the error code and the number of octets read.\<close>

partial_function (option) read_multi_loop ::
    "'s Source \<Rightarrow> u8 list \<Rightarrow> nat \<Rightarrow> nat \<Rightarrow> nat \<Rightarrow> (int \<times> nat \<times> u8 list \<times> 's Source) option" where
  "read_multi_loop source buf off n rest =
     (if rest = 0 then Some (0, n, buf, source)
      else do {
        let dn = sz_sub n rest;
        (get, buf', src) \<leftarrow> source_read source buf (sz_add off dn) rest;
        if get \<le> 0 then
          (case rt_run (src_retry src) of
             None \<Rightarrow>
               if get = - EINTR \<or> get = - EAGAIN then read_multi_loop src buf' off n rest
               else if get < 0 then Some (to_int get, dn, buf', src)
               else read_multi_loop src buf' off n rest
           | Some run \<Rightarrow>
               let (retried, s) = ep_retry (rt_ctrl (src_retry src)) run (src_driver src) get;
                   src' = src\<lparr>src_driver := s\<rparr> in
               if retried > 0 then read_multi_loop src' buf' off n rest
               else if retried = 0 then Some (- ENODATA, dn, buf', src')
               else Some (to_int retried, dn, buf', src'))
        else read_multi_loop src buf' off n (sz_sub rest (nat get))
      })"

definition source_read_multi ::
    "'s Source \<Rightarrow> u8 list \<Rightarrow> nat \<Rightarrow> nat \<Rightarrow> (int \<times> nat \<times> u8 list \<times> 's Source) option" where
  "source_read_multi source buf off n =
     (if n = 0 \<or> n > SSIZE_MAX then Some (- EINVAL, 0, buf, source)
      else (let (rt, s) = retry_start (src_retry source) (src_driver source) in
            read_multi_loop (source\<lparr>src_retry := rt, src_driver := s\<rparr>) buf off n n))"

definition source_get_chunk ::
    "'s Source \<Rightarrow> u8 list \<Rightarrow> nat \<Rightarrow> nat \<Rightarrow> (int \<times> u8 list \<times> 's Source) option" where
  "source_get_chunk source buf off n = do {
     (err, sz, buf', src) \<leftarrow> source_read_multi source buf off n;
     Some (if err = 0 then to_ssize sz else err, buf', src)
   }"

definition source_get_chunk_atmost ::
    "'s Source \<Rightarrow> u8 list \<Rightarrow> nat \<Rightarrow> nat \<Rightarrow> (int \<times> u8 list \<times> 's Source) option" where
  "source_get_chunk_atmost source buf off n = do {
     (err, sz, buf', src) \<leftarrow> source_read_multi source buf off n;
     Some (if sz = 0 then err else to_ssize sz, buf', src)
   }"

section \<open>Writing\<close>

partial_function (option) sink_adapt ::
    "('t \<Rightarrow> u8 \<Rightarrow> (int \<times> 't) option) \<Rightarrow> 't \<Rightarrow> u8 list \<Rightarrow> nat \<Rightarrow> nat \<Rightarrow> nat \<Rightarrow> (int \<times> 't) option" where
  "sink_adapt f t buf off n rest =
     (if rest = 0 then Some (to_ssize n, t)
      else do {
        x \<leftarrow> mem_read buf (sz_sub (sz_add off n) rest) 1;
        (rc, t') \<leftarrow> f t (hd x);
        if rc < 0 then Some (if rest = n then rc else to_ssize (sz_sub n rest), t')
        else if rc = 0 then Some (if rest = n then - EAGAIN else to_ssize (sz_sub n rest), t')
        else sink_adapt f t' buf off n (sz_sub rest (nat rc))
      })"

definition sink_write :: "'t Sink \<Rightarrow> u8 list \<Rightarrow> nat \<Rightarrow> nat \<Rightarrow> (int \<times> 't Sink) option" where
  "sink_write sink buf off n = do {
     (rc, t) \<leftarrow> (case snk_fn sink of
         OctetSink f \<Rightarrow> sink_adapt f (snk_driver sink) buf off n n
       | ChunkSink f \<Rightarrow> do { xs \<leftarrow> mem_read buf off n; f (snk_driver sink) xs });
     Some (rc, sink\<lparr>snk_driver := t\<rparr>)
   }"

partial_function (option) write_multi_loop ::
    "'t Sink \<Rightarrow> u8 list \<Rightarrow> nat \<Rightarrow> nat \<Rightarrow> nat \<Rightarrow> (int \<times> nat \<times> 't Sink) option" where
  "write_multi_loop sink buf off n rest =
     (if rest = 0 then Some (0, n, sink)
      else do {
        let dn = sz_sub n rest;
        (get, snk) \<leftarrow> sink_write sink buf (sz_add off dn) rest;
        if get \<le> 0 then
          (case rt_run (snk_retry snk) of
             None \<Rightarrow>
               if get = - EINTR \<or> get = - EAGAIN then write_multi_loop snk buf off n rest
               else if get < 0 then Some (to_int get, dn, snk)
               else write_multi_loop snk buf off n rest
           | Some run \<Rightarrow>
               let (retried, t) = ep_retry (rt_ctrl (snk_retry snk)) run (snk_driver snk) get;
                   snk' = snk\<lparr>snk_driver := t\<rparr> in
               if retried > 0 then write_multi_loop snk' buf off n rest
               else if retried = 0 then Some (- ENODATA, dn, snk')
               else Some (to_int retried, dn, snk'))
        else write_multi_loop snk buf off n (sz_sub rest (nat get))
      })"

definition sink_write_multi ::
    "'t Sink \<Rightarrow> u8 list \<Rightarrow> nat \<Rightarrow> nat \<Rightarrow> (int \<times> nat \<times> 't Sink) option" where
  "sink_write_multi sink buf off n =
     (if n = 0 then Some (0, 0, sink)
      else if n > SSIZE_MAX then Some (- EINVAL, 0, sink)
      else (let (rt, t) = retry_start (snk_retry sink) (snk_driver sink) in
            write_multi_loop (sink\<lparr>snk_retry := rt, snk_driver := t\<rparr>) buf off n n))"

definition sink_put_chunk :: "'t Sink \<Rightarrow> u8 list \<Rightarrow> nat \<Rightarrow> nat \<Rightarrow> (int \<times> 't Sink) option" where
  "sink_put_chunk sink buf off n = do {
     (err, sz, snk) \<leftarrow> sink_write_multi sink buf off n;
     Some (if err = 0 then to_ssize sz else err, snk)
   }"

definition sink_put_chunk_atmost :: "'t Sink \<Rightarrow> u8 list \<Rightarrow> nat \<Rightarrow> nat \<Rightarrow> (int \<times> 't Sink) option" where
  "sink_put_chunk_atmost sink buf off n = do {
     (err, sz, snk) \<leftarrow> sink_write_multi sink buf off n;
     Some (if sz = 0 then err else to_ssize sz, snk)
   }"

section \<open>Extensions\<close>

definition source_has_buffer_ext :: "'s Source \<Rightarrow> bool" where
  "source_has_buffer_ext source \<longleftrightarrow> \<not> Option.is_none (src_getbuffer source)"

definition sink_has_buffer_ext :: "'t Sink \<Rightarrow> bool" where
  "sink_has_buffer_ext sink \<longleftrightarrow> \<not> Option.is_none (snk_getbuffer sink)"

definition channel_has_buffer_ext :: "'s Source \<Rightarrow> 't Sink \<Rightarrow> bool" where
  "channel_has_buffer_ext source sink \<longleftrightarrow> source_has_buffer_ext source \<or> sink_has_buffer_ext sink"

definition source_seek :: "'s Source \<Rightarrow> nat \<Rightarrow> int \<times> 's Source" where
  "source_seek source offset = (case src_seek source of
      None \<Rightarrow> (- ENOTSUP, source)
    | Some f \<Rightarrow> (let (rc, s) = f (src_driver source) offset in (rc, source\<lparr>src_driver := s\<rparr>)))"

definition sink_seek :: "'t Sink \<Rightarrow> nat \<Rightarrow> int \<times> 't Sink" where
  "sink_seek sink offset = (case snk_seek sink of
      None \<Rightarrow> (- ENOTSUP, sink)
    | Some f \<Rightarrow> (let (rc, t) = f (snk_driver sink) offset in (rc, sink\<lparr>snk_driver := t\<rparr>)))"

section \<open>Plumbing, octet by octet\<close>

text \<open>A source that answers without storing an octet leaves the variable the sink is given unset.\<close>

definition sts_cbc :: "'s Source \<Rightarrow> 't Sink \<Rightarrow> (int \<times> 's Source \<times> 't Sink) option" where
  "sts_cbc source sink = do {
     (rc, xs, src) \<leftarrow> source_get_octet source;
     if rc < 0 then Some (rc, src, sink)
     else if xs = [] then None
     else do { (rc', snk) \<leftarrow> sink_put_octet sink (hd xs); Some (rc', src, snk) }
   }"

fun sts_n_cbc_loop :: "'s Source \<Rightarrow> 't Sink \<Rightarrow> nat \<Rightarrow> nat \<Rightarrow> (int \<times> 's Source \<times> 't Sink) option" where
  "sts_n_cbc_loop source sink n 0 = Some (to_ssize n, source, sink)"
| "sts_n_cbc_loop source sink n (Suc k) = do {
     (rc, src, snk) \<leftarrow> sts_cbc source sink;
     if rc < 0 then Some (rc, src, snk) else sts_n_cbc_loop src snk n k
   }"

definition sts_n_cbc :: "'s Source \<Rightarrow> 't Sink \<Rightarrow> nat \<Rightarrow> (int \<times> 's Source \<times> 't Sink) option" where
  "sts_n_cbc source sink n = sts_n_cbc_loop source sink n n"

fun sts_atmost_cbc_loop ::
    "'s Source \<Rightarrow> 't Sink \<Rightarrow> nat \<Rightarrow> nat \<Rightarrow> (int \<times> 's Source \<times> 't Sink) option" where
  "sts_atmost_cbc_loop source sink n 0 = Some (to_ssize n, source, sink)"
| "sts_atmost_cbc_loop source sink n (Suc k) = do {
     (rc, src, snk) \<leftarrow> sts_cbc source sink;
     if rc \<le> 0 then Some (if Suc k = n then rc else to_ssize (n - Suc k), src, snk)
     else sts_atmost_cbc_loop src snk n k
   }"

definition sts_atmost_cbc :: "'s Source \<Rightarrow> 't Sink \<Rightarrow> nat \<Rightarrow> (int \<times> 's Source \<times> 't Sink) option" where
  "sts_atmost_cbc source sink n = sts_atmost_cbc_loop source sink n n"

partial_function (option) sts_drain_cbc ::
    "'s Source \<Rightarrow> 't Sink \<Rightarrow> (int \<times> 's Source \<times> 't Sink) option" where
  "sts_drain_cbc source sink = do {
     (rc, src, snk) \<leftarrow> sts_cbc source sink;
     if rc < 0 then Some (rc, src, snk) else sts_drain_cbc src snk
   }"

section \<open>Plumbing through an exposed buffer\<close>

text \<open>Both functions read with the driver itself when it works on chunks.\<close>

definition read_exposed ::
    "'s Source \<Rightarrow> u8 list \<Rightarrow> nat \<Rightarrow> nat \<Rightarrow> (int \<times> u8 list \<times> 's Source) option" where
  "read_exposed source buf off m = (case src_fn source of
      ChunkSource f \<Rightarrow> source_read source buf off m
    | OctetSource f \<Rightarrow> source_get_chunk source buf off m)"

definition sts_atmost_via_sink ::
    "'s Source \<Rightarrow> 't Sink \<Rightarrow> nat \<Rightarrow> (int \<times> 's Source \<times> 't Sink) option" where
  "sts_atmost_via_sink source sink n = (case snk_getbuffer sink of
      None \<Rightarrow> Some (- EPIPE, source, sink)
    | Some bx \<Rightarrow>
        let b = bx_get bx (snk_driver sink); rest = byte_buffer_rest b in
        if rest = 0 then Some (- ENOMEM, source, sink)
        else do {
          let m = (if n = 0 \<or> rest < n then rest else n);
          (rc, mem, src) \<leftarrow> read_exposed source (bb_mem b) (bb_offset b) m;
          Some (rc, src, sink\<lparr>snk_driver := bx_put bx (snk_driver sink) mem\<rparr>)
        })"

definition sts_atmost_via_source ::
    "'s Source \<Rightarrow> 't Sink \<Rightarrow> nat \<Rightarrow> (int \<times> 's Source \<times> 't Sink) option" where
  "sts_atmost_via_source source sink n = (case src_getbuffer source of
      None \<Rightarrow> Some (- EPIPE, source, sink)
    | Some bx \<Rightarrow>
        let b = bx_get bx (src_driver source); rest = byte_buffer_rest b in
        if rest = 0 then Some (- ENODATA, source, sink)
        else do {
          let m = (if n = 0 \<or> rest < n then rest else n);
          (rc, mem, src) \<leftarrow> read_exposed source (bb_mem b) (bb_offset b) m;
          let src' = src\<lparr>src_driver := bx_put bx (src_driver src) mem\<rparr>;
          if rc < 0 then Some (rc, src', sink)
          else do {
            (rc', snk) \<leftarrow> sink_put_chunk sink mem (bb_offset b) (nat rc);
            Some (rc', src', snk)
          }
        })"

definition sts_atmost :: "'s Source \<Rightarrow> 't Sink \<Rightarrow> nat \<Rightarrow> (int \<times> 's Source \<times> 't Sink) option" where
  "sts_atmost source sink n =
     (if source_has_buffer_ext source then sts_atmost_via_source source sink n
      else if sink_has_buffer_ext sink then sts_atmost_via_sink source sink n
      else if n = 0 then sts_cbc source sink else sts_atmost_cbc source sink n)"

definition sts_some :: "'s Source \<Rightarrow> 't Sink \<Rightarrow> (int \<times> 's Source \<times> 't Sink) option" where
  "sts_some source sink = sts_atmost source sink 0"

partial_function (option) sts_n_loop ::
    "bool \<Rightarrow> 's Source \<Rightarrow> 't Sink \<Rightarrow> nat \<Rightarrow> nat \<Rightarrow> (int \<times> 's Source \<times> 't Sink) option" where
  "sts_n_loop shortcut source sink n rest =
     (if rest = 0 then Some (to_ssize n, source, sink)
      else do {
        (rc, src, snk) \<leftarrow> (if shortcut then sts_atmost_via_source source sink rest
                          else sts_atmost source sink rest);
        if rc = - ENOMEM then sts_n_loop (channel_has_buffer_ext src snk) src snk n rest
        else if rc < 0 then Some (rc, src, snk)
        else sts_n_loop shortcut src snk n (sz_sub rest (nat rc))
      })"

definition sts_n :: "'s Source \<Rightarrow> 't Sink \<Rightarrow> nat \<Rightarrow> (int \<times> 's Source \<times> 't Sink) option" where
  "sts_n source sink n = sts_n_loop False source sink n n"

partial_function (option) sts_drain_loop ::
    "bool \<Rightarrow> 's Source \<Rightarrow> 't Sink \<Rightarrow> (int \<times> 's Source \<times> 't Sink) option" where
  "sts_drain_loop shortcut source sink = do {
     (rc, src, snk) \<leftarrow> (if shortcut then sts_atmost_via_source source sink 0
                       else sts_atmost source sink 0);
     if rc = - ENOMEM then sts_drain_loop True src snk
     else if rc < 0 then Some (rc, src, snk)
     else sts_drain_loop shortcut src snk
   }"

definition sts_drain :: "'s Source \<Rightarrow> 't Sink \<Rightarrow> (int \<times> 's Source \<times> 't Sink) option" where
  "sts_drain source sink = sts_drain_loop False source sink"

section \<open>Plumbing through an auxiliary buffer\<close>

definition bb_store :: "ByteBuffer \<Rightarrow> u8 list \<Rightarrow> ByteBuffer" where
  "bb_store b mem = b\<lparr>bb_data := (case bb_data b of None \<Rightarrow> None | Some _ \<Rightarrow> Some mem)\<rparr>"

definition sts_some_aux ::
    "'s Source \<Rightarrow> 't Sink \<Rightarrow> ByteBuffer \<Rightarrow> (int \<times> 's Source \<times> 't Sink \<times> ByteBuffer) option" where
  "sts_some_aux source sink b = do {
     let b1 = byte_buffer_reset b;
     let n = byte_buffer_avail b1;
     (rc, mem, src) \<leftarrow> source_get_chunk_atmost source (bb_mem b1) (bb_offset b1) n;
     let b2 = bb_store b1 mem;
     if rc = 0 then Some (- ENODATA, src, sink, b2)
     else if rc < 0 then Some (rc, src, sink, b2)
     else do {
       (rc', snk) \<leftarrow> sink_put_chunk sink mem (bb_offset b1) (nat rc);
       Some (rc', src, snk, b2)
     }
   }"

text \<open>The copy of the descriptor shares the memory of the buffer it was made from.\<close>

definition sts_atmost_aux ::
    "'s Source \<Rightarrow> 't Sink \<Rightarrow> ByteBuffer \<Rightarrow> nat \<Rightarrow> (int \<times> 's Source \<times> 't Sink \<times> ByteBuffer) option" where
  "sts_atmost_aux source sink b n = do {
     let buffer = (if bb_size b > n then b\<lparr>bb_size := n\<rparr> else b);
     (rc, src, snk, buffer') \<leftarrow> sts_some_aux source sink buffer;
     Some (rc, src, snk, b\<lparr>bb_data := bb_data buffer'\<rparr>)
   }"

partial_function (option) sts_n_aux_loop ::
    "'s Source \<Rightarrow> 't Sink \<Rightarrow> ByteBuffer \<Rightarrow> nat \<Rightarrow> nat
      \<Rightarrow> (int \<times> 's Source \<times> 't Sink \<times> ByteBuffer) option" where
  "sts_n_aux_loop source sink b n rest =
     (if rest = 0 then Some (to_ssize n, source, sink, b)
      else do {
        (rc, src, snk, b') \<leftarrow> sts_atmost_aux source sink (byte_buffer_reset b) rest;
        if rc < 0 then Some (rc, src, snk, b')
        else sts_n_aux_loop src snk b' n (sz_sub rest (nat rc))
      })"

definition sts_n_aux ::
    "'s Source \<Rightarrow> 't Sink \<Rightarrow> ByteBuffer \<Rightarrow> nat \<Rightarrow> (int \<times> 's Source \<times> 't Sink \<times> ByteBuffer) option" where
  "sts_n_aux source sink b n = sts_n_aux_loop source sink b n n"

partial_function (option) sts_drain_aux_loop ::
    "'s Source \<Rightarrow> 't Sink \<Rightarrow> ByteBuffer \<Rightarrow> nat \<Rightarrow> int
      \<Rightarrow> (int \<times> 's Source \<times> 't Sink \<times> ByteBuffer) option" where
  "sts_drain_aux_loop source sink b n acc = do {
     (rc, src, snk, b') \<leftarrow> sts_atmost_aux source sink (byte_buffer_reset b) n;
     if rc < 0 then Some (if rc = - ENODATA then acc else rc, src, snk, b')
     else if acc + rc > int SSIZE_MAX then None
     else sts_drain_aux_loop src snk b' n (acc + rc)
   }"

definition sts_drain_aux ::
    "'s Source \<Rightarrow> 't Sink \<Rightarrow> ByteBuffer \<Rightarrow> (int \<times> 's Source \<times> 't Sink \<times> ByteBuffer) option" where
  "sts_drain_aux source sink b =
     (let b1 = byte_buffer_reset b in sts_drain_aux_loop source sink b1 (bb_size b1) 0)"

section \<open>What drivers promise\<close>

text \<open>
  One transfer of the driver of either kind, as the code on top of it sees it.
\<close>

definition block_read ::
    "'s source_fn \<Rightarrow> 's \<Rightarrow> u8 list \<Rightarrow> nat \<Rightarrow> nat \<Rightarrow> (int \<times> u8 list \<times> 's) option" where
  "block_read fn s buf off n = (case fn of
      OctetSource f \<Rightarrow> source_adapt f s buf off n n
    | ChunkSource f \<Rightarrow> do {
        (rc, xs, s') \<leftarrow> f s n;
        buf' \<leftarrow> mem_write buf off xs;
        Some (rc, buf', s')
      })"

definition block_write :: "'t sink_fn \<Rightarrow> 't \<Rightarrow> u8 list \<Rightarrow> nat \<Rightarrow> nat \<Rightarrow> (int \<times> 't) option" where
  "block_write fn t buf off n = (case fn of
      OctetSink f \<Rightarrow> sink_adapt f t buf off n n
    | ChunkSink f \<Rightarrow> do { xs \<leftarrow> mem_read buf off n; f t xs })"

lemma source_read_block:
  "source_read source buf off n = do {
     (rc, buf', s) \<leftarrow> block_read (src_fn source) (src_driver source) buf off n;
     Some (rc, buf', source\<lparr>src_driver := s\<rparr>)
   }"
  by (simp add: source_read_def block_read_def)

lemma sink_write_block:
  "sink_write sink buf off n = do {
     (rc, t) \<leftarrow> block_write (snk_fn sink) (snk_driver sink) buf off n;
     Some (rc, sink\<lparr>snk_driver := t\<rparr>)
   }"
  by (simp add: sink_write_def block_write_def)

definition octet_read :: "'s source_fn \<Rightarrow> 's \<Rightarrow> (int \<times> u8 list \<times> 's) option" where
  "octet_read fn s = (case fn of OctetSource f \<Rightarrow> f s
     | ChunkSource f \<Rightarrow> do { (rc, xs, s) \<leftarrow> f s 1; Some (to_int rc, xs, s) })"

definition octet_write :: "'t sink_fn \<Rightarrow> 't \<Rightarrow> u8 \<Rightarrow> (int \<times> 't) option" where
  "octet_write fn t x = (case fn of OctetSink f \<Rightarrow> f t x
     | ChunkSink f \<Rightarrow> do { (rc, t) \<leftarrow> f t [x]; Some (to_int rc, t) })"

lemma source_get_octet_read:
  "source_get_octet source = do {
     (rc, xs, s) \<leftarrow> octet_read (src_fn source) (src_driver source);
     if length xs \<le> 1 then Some (rc, xs, source\<lparr>src_driver := s\<rparr>) else None
   }"
  by (simp add: source_get_octet_def octet_read_def)

lemma sink_put_octet_write:
  "sink_put_octet sink x = do {
     (rc, t) \<leftarrow> octet_write (snk_fn sink) (snk_driver sink) x;
     Some (rc, sink\<lparr>snk_driver := t\<rparr>)
   }"
  by (simp add: sink_put_octet_def octet_write_def)

text \<open>
  A source delivers a stream of octets in pieces of any size, and then keeps failing with one final
  error. Before any piece it may fail temporarily, for as long as its patience lasts.
\<close>

locale reader =
  fixes fn :: "'s source_fn"
    and rinv :: "'s \<Rightarrow> bool"
    and stream :: "'s \<Rightarrow> u8 list"
    and final :: "'s \<Rightarrow> int"
    and patience :: "'s \<Rightarrow> nat"
  assumes read_law: "rinv s \<Longrightarrow> 0 < n \<Longrightarrow> n \<le> SSIZE_MAX \<Longrightarrow> off + n \<le> length buf \<Longrightarrow> length buf \<le> SSIZE_MAX \<Longrightarrow>
      \<exists>rc xs s'. block_read fn s buf off n = Some (rc, overwrite buf off xs, s') \<and>
        rinv s' \<and> final s' = final s \<and> length xs \<le> n \<and> stream s = xs @ stream s' \<and>
        (0 < rc \<and> rc = int (length xs) \<or>
         rc \<in> {- EAGAIN, - EINTR} \<and> xs = [] \<and> patience s' < patience s \<or>
         rc = final s \<and> stream s = [])"
    and octet_law: "rinv s \<Longrightarrow>
      \<exists>rc xs s'. octet_read fn s = Some (rc, xs, s') \<and> rinv s' \<and> final s' = final s \<and>
        stream s = xs @ stream s' \<and>
        (rc = 1 \<and> length xs = 1 \<or>
         rc \<in> {- EAGAIN, - EINTR} \<and> xs = [] \<and> patience s' < patience s \<or>
         rc = final s \<and> stream s = [])"
    and final_law: "rinv s \<Longrightarrow> final s < 0 \<and> - (2 ^ 31) \<le> final s \<and> final s \<notin> {- EAGAIN, - EINTR}"

locale writer =
  fixes wfn :: "'t sink_fn"
    and winv :: "'t \<Rightarrow> bool"
    and accepted :: "'t \<Rightarrow> u8 list"
    and fits :: "'t \<Rightarrow> nat \<Rightarrow> bool"
    and wfinal :: "'t \<Rightarrow> int"
    and wpatience :: "'t \<Rightarrow> nat"
  assumes write_law: "winv t \<Longrightarrow> mem_read buf off n = Some xs \<Longrightarrow> xs \<noteq> [] \<Longrightarrow> length buf \<le> SSIZE_MAX \<Longrightarrow>
      \<exists>rc t'. block_write wfn t buf off n = Some (rc, t') \<and> winv t' \<and> wfinal t' = wfinal t \<and>
        (0 < rc \<and> rc \<le> int n \<and> fits t (nat rc) \<and> accepted t' = accepted t @ take (nat rc) xs \<and>
           (\<forall>k. fits t' k = fits t (nat rc + k)) \<or>
         rc \<in> {- EAGAIN, - EINTR} \<and> accepted t' = accepted t \<and> fits t' = fits t \<and>
           wpatience t' < wpatience t \<or>
         rc = wfinal t \<and> \<not> fits t n \<and> accepted t' = accepted t \<and> fits t' = fits t)"
    and put_octet_law: "winv t \<Longrightarrow>
      \<exists>rc t'. octet_write wfn t x = Some (rc, t') \<and> winv t' \<and> wfinal t' = wfinal t \<and>
        (rc = 1 \<and> fits t 1 \<and> accepted t' = accepted t @ [x] \<and> (\<forall>k. fits t' k = fits t (Suc k)) \<or>
         rc \<in> {- EAGAIN, - EINTR} \<and> accepted t' = accepted t \<and> fits t' = fits t \<and>
           wpatience t' < wpatience t \<or>
         rc = wfinal t \<and> \<not> fits t 1 \<and> accepted t' = accepted t \<and> fits t' = fits t)"
    and wfinal_law: "winv t \<Longrightarrow> wfinal t < 0 \<and> - (2 ^ 31) \<le> wfinal t \<and> wfinal t \<notin> {- EAGAIN, - EINTR}"

text \<open>An endpoint without retry callbacks, which is how the initialisers leave it.\<close>

definition plain_retry :: "'s ep_retry_conf \<Rightarrow> bool" where
  "plain_retry rt \<longleftrightarrow> rt_init rt = None \<and> rt_run rt = None"

subsection \<open>Drivers that work on chunks\<close>

locale chunk_reader =
  fixes f :: "'s \<Rightarrow> nat \<Rightarrow> (int \<times> u8 list \<times> 's) option"
    and rinv :: "'s \<Rightarrow> bool" and stream :: "'s \<Rightarrow> u8 list" and final :: "'s \<Rightarrow> int" and patience :: "'s \<Rightarrow> nat"
  assumes chunk_law: "rinv s \<Longrightarrow> 0 < n \<Longrightarrow> n \<le> SSIZE_MAX \<Longrightarrow>
      \<exists>rc xs s'. f s n = Some (rc, xs, s') \<and> rinv s' \<and> final s' = final s \<and> length xs \<le> n \<and>
        stream s = xs @ stream s' \<and>
        (0 < rc \<and> rc = int (length xs) \<or>
         rc \<in> {- EAGAIN, - EINTR} \<and> xs = [] \<and> patience s' < patience s \<or>
         rc = final s \<and> stream s = [])"
    and final_range: "rinv s \<Longrightarrow> final s < 0 \<and> - (2 ^ 31) \<le> final s \<and> final s \<notin> {- EAGAIN, - EINTR}"

sublocale chunk_reader \<subseteq> reader "ChunkSource f" rinv stream final patience
proof unfold_locales
  fix s n and off :: nat and buf :: "u8 list"
  assume "rinv s" "0 < n" "n \<le> SSIZE_MAX" and inside: "off + n \<le> length buf"
  from chunk_law [OF this(1,2,3)] obtain rc xs s' where
    r: "f s n = Some (rc, xs, s')" "rinv s'" "final s' = final s" "length xs \<le> n" "stream s = xs @ stream s'"
      "0 < rc \<and> rc = int (length xs) \<or>
         rc \<in> {- EAGAIN, - EINTR} \<and> xs = [] \<and> patience s' < patience s \<or> rc = final s \<and> stream s = []"
    by blast
  have "block_read (ChunkSource f) s buf off n = Some (rc, overwrite buf off xs, s')"
    using r(1,4) inside by (simp add: block_read_def mem_write_overwrite)
  with r show "\<exists>rc xs s'. block_read (ChunkSource f) s buf off n = Some (rc, overwrite buf off xs, s') \<and>
        rinv s' \<and> final s' = final s \<and> length xs \<le> n \<and> stream s = xs @ stream s' \<and>
        (0 < rc \<and> rc = int (length xs) \<or>
         rc \<in> {- EAGAIN, - EINTR} \<and> xs = [] \<and> patience s' < patience s \<or> rc = final s \<and> stream s = [])"
    by blast
next
  fix s
  assume "rinv s"
  have one: "(0::nat) < 1" "1 \<le> SSIZE_MAX"
    by (simp_all add: SSIZE_MAX_def)
  from chunk_law [OF \<open>rinv s\<close> one] obtain rc xs s' where
    r: "f s 1 = Some (rc, xs, s')" "rinv s'" "final s' = final s" "length xs \<le> 1" "stream s = xs @ stream s'"
      "0 < rc \<and> rc = int (length xs) \<or>
         rc \<in> {- EAGAIN, - EINTR} \<and> xs = [] \<and> patience s' < patience s \<or> rc = final s \<and> stream s = []"
    by blast
  moreover have "rc = 1 \<and> length xs = 1" if "0 < rc \<and> rc = int (length xs)"
    using that r(4) by simp
  ultimately have "rc = 1 \<and> length xs = 1 \<or>
      rc \<in> {- EAGAIN, - EINTR} \<and> xs = [] \<and> patience s' < patience s \<or> rc = final s \<and> stream s = []"
    by blast
  moreover from this have "to_int rc = rc"
    using final_range [OF \<open>rinv s\<close>] by (auto simp: errno_defs)
  ultimately show "\<exists>rc xs s'. octet_read (ChunkSource f) s = Some (rc, xs, s') \<and>
      rinv s' \<and> final s' = final s \<and> stream s = xs @ stream s' \<and>
        (rc = 1 \<and> length xs = 1 \<or>
         rc \<in> {- EAGAIN, - EINTR} \<and> xs = [] \<and> patience s' < patience s \<or> rc = final s \<and> stream s = [])"
    using r(1,2,3,5) unfolding octet_read_def source_fn.case by simp
qed (rule final_range)

locale chunk_writer =
  fixes f :: "'t \<Rightarrow> u8 list \<Rightarrow> (int \<times> 't) option"
    and winv :: "'t \<Rightarrow> bool" and accepted :: "'t \<Rightarrow> u8 list" and fits :: "'t \<Rightarrow> nat \<Rightarrow> bool"
    and wfinal :: "'t \<Rightarrow> int" and wpatience :: "'t \<Rightarrow> nat"
  assumes chunk_law: "winv t \<Longrightarrow> xs \<noteq> [] \<Longrightarrow> length xs \<le> SSIZE_MAX \<Longrightarrow>
      \<exists>rc t'. f t xs = Some (rc, t') \<and> winv t' \<and> wfinal t' = wfinal t \<and>
        (0 < rc \<and> rc \<le> int (length xs) \<and> fits t (nat rc) \<and> accepted t' = accepted t @ take (nat rc) xs \<and>
           (\<forall>k. fits t' k = fits t (nat rc + k)) \<or>
         rc \<in> {- EAGAIN, - EINTR} \<and> accepted t' = accepted t \<and> fits t' = fits t \<and>
           wpatience t' < wpatience t \<or>
         rc = wfinal t \<and> \<not> fits t (length xs) \<and> accepted t' = accepted t \<and> fits t' = fits t)"
    and wfinal_range: "winv t \<Longrightarrow> wfinal t < 0 \<and> - (2 ^ 31) \<le> wfinal t \<and> wfinal t \<notin> {- EAGAIN, - EINTR}"

sublocale chunk_writer \<subseteq> writer "ChunkSink f" winv accepted fits wfinal wpatience
proof unfold_locales
  fix t off n xs and buf :: "u8 list"
  assume "winv t" "mem_read buf off n = Some xs" "xs \<noteq> []" "length buf \<le> SSIZE_MAX"
  moreover from this have "length xs = n" "length xs \<le> SSIZE_MAX"
    by (auto simp: mem_read_Some_iff)
  ultimately show "\<exists>rc t'. block_write (ChunkSink f) t buf off n = Some (rc, t') \<and> winv t' \<and> wfinal t' = wfinal t \<and>
        (0 < rc \<and> rc \<le> int n \<and> fits t (nat rc) \<and> accepted t' = accepted t @ take (nat rc) xs \<and>
           (\<forall>k. fits t' k = fits t (nat rc + k)) \<or>
         rc \<in> {- EAGAIN, - EINTR} \<and> accepted t' = accepted t \<and> fits t' = fits t \<and>
           wpatience t' < wpatience t \<or>
         rc = wfinal t \<and> \<not> fits t n \<and> accepted t' = accepted t \<and> fits t' = fits t)"
    using chunk_law [of t xs] by (simp add: block_write_def)
next
  fix t and x :: u8
  assume "winv t"
  have one: "[x] \<noteq> []" "length [x] \<le> SSIZE_MAX"
    by (simp_all add: SSIZE_MAX_def)
  from chunk_law [OF \<open>winv t\<close> one] obtain rc t' where
    r: "f t [x] = Some (rc, t')" "winv t'" "wfinal t' = wfinal t"
      "0 < rc \<and> rc \<le> int (length [x]) \<and> fits t (nat rc) \<and> accepted t' = accepted t @ take (nat rc) [x] \<and>
           (\<forall>k. fits t' k = fits t (nat rc + k)) \<or>
         rc \<in> {- EAGAIN, - EINTR} \<and> accepted t' = accepted t \<and> fits t' = fits t \<and>
           wpatience t' < wpatience t \<or>
         rc = wfinal t \<and> \<not> fits t (length [x]) \<and> accepted t' = accepted t \<and> fits t' = fits t"
    by blast
  from r(4) have "rc = 1 \<and> fits t 1 \<and> accepted t' = accepted t @ [x] \<and> (\<forall>k. fits t' k = fits t (Suc k)) \<or>
         rc \<in> {- EAGAIN, - EINTR} \<and> accepted t' = accepted t \<and> fits t' = fits t \<and>
           wpatience t' < wpatience t \<or>
         rc = wfinal t \<and> \<not> fits t 1 \<and> accepted t' = accepted t \<and> fits t' = fits t"
  proof (elim disjE)
    assume w: "0 < rc \<and> rc \<le> int (length [x]) \<and> fits t (nat rc) \<and> accepted t' = accepted t @ take (nat rc) [x] \<and>
           (\<forall>k. fits t' k = fits t (nat rc + k))"
    then have "rc = 1"
      by simp
    with w show ?thesis
      by simp
  qed simp_all
  moreover from this have "to_int rc = rc"
    using wfinal_range [OF \<open>winv t\<close>] by (auto simp: errno_defs)
  ultimately show "\<exists>rc t'. octet_write (ChunkSink f) t x = Some (rc, t') \<and> winv t' \<and>
        wfinal t' = wfinal t \<and>
        (rc = 1 \<and> fits t 1 \<and> accepted t' = accepted t @ [x] \<and> (\<forall>k. fits t' k = fits t (Suc k)) \<or>
         rc \<in> {- EAGAIN, - EINTR} \<and> accepted t' = accepted t \<and> fits t' = fits t \<and>
           wpatience t' < wpatience t \<or>
         rc = wfinal t \<and> \<not> fits t 1 \<and> accepted t' = accepted t \<and> fits t' = fits t)"
    using r(1,2,3) unfolding octet_write_def sink_fn.case by simp
qed (rule wfinal_range)

subsection \<open>Drivers that work on octets\<close>

locale octet_reader =
  fixes f :: "'s \<Rightarrow> (int \<times> u8 list \<times> 's) option"
    and rinv :: "'s \<Rightarrow> bool" and stream :: "'s \<Rightarrow> u8 list" and final :: "'s \<Rightarrow> int" and patience :: "'s \<Rightarrow> nat"
  assumes one_law: "rinv s \<Longrightarrow>
      \<exists>rc xs s'. f s = Some (rc, xs, s') \<and> rinv s' \<and> final s' = final s \<and> stream s = xs @ stream s' \<and>
        (rc = 1 \<and> length xs = 1 \<or>
         rc \<in> {- EAGAIN, - EINTR} \<and> xs = [] \<and> patience s' < patience s \<or>
         rc = final s \<and> stream s = [])"
    and final_range: "rinv s \<Longrightarrow> final s < 0 \<and> - (2 ^ 31) \<le> final s \<and> final s \<notin> {- EAGAIN, - EINTR}"
begin

lemma source_adapt_ok:
  assumes "rinv s" "rest \<le> n" "n \<le> SSIZE_MAX" "off + n \<le> length buf" "length buf \<le> SSIZE_MAX"
  shows "\<exists>rc xs s'. source_adapt f s buf off n rest = Some (rc, overwrite buf (off + (n - rest)) xs, s') \<and>
     rinv s' \<and> final s' = final s \<and> length xs \<le> rest \<and> stream s = xs @ stream s' \<and>
     (if 0 < n - rest + length xs \<or> n = 0 then rc = int (n - rest + length xs)
      else rc \<in> {- EAGAIN, - EINTR} \<and> patience s' < patience s \<or> rc = final s \<and> stream s = [])"
  using assms
proof (induction rest arbitrary: s buf)
  case 0
  then show ?case
    by (subst source_adapt.simps) (auto intro!: exI [of _ "[]"])
next
  case (Suc rest)
  have pos: "sz_sub (sz_add off n) (Suc rest) = off + (n - Suc rest)" "sz_sub n (Suc rest) = n - Suc rest"
    using Suc.prems by (simp_all add: sz_add_id SSIZE_MAX_def SIZE_MOD_def)
  obtain rc xs s1 where r: "f s = Some (rc, xs, s1)" "rinv s1" "final s1 = final s" "stream s = xs @ stream s1"
    and cases: "rc = 1 \<and> length xs = 1 \<or>
         rc \<in> {- EAGAIN, - EINTR} \<and> xs = [] \<and> patience s1 < patience s \<or> rc = final s \<and> stream s = []"
    using one_law [OF Suc.prems(1)] by blast
  have wr: "mem_write buf (off + (n - Suc rest)) xs = Some (overwrite buf (off + (n - Suc rest)) xs)"
    using cases r(4) Suc.prems by (intro mem_write_overwrite) auto
  have small: "to_ssize (n - Suc rest) = int (n - Suc rest)"
    using Suc.prems by simp
  from cases consider (one) x where "rc = 1" "xs = [x]" | (stop) "rc < 0" "xs = []"
      "rc \<in> {- EAGAIN, - EINTR} \<and> patience s1 < patience s \<or> rc = final s \<and> stream s = []"
    using final_range [OF Suc.prems(1)] r(4) by (auto simp: length_Suc_conv errno_defs)
  then show ?case
  proof cases
    case one
    let ?buf = "overwrite buf (off + (n - Suc rest)) xs"
    have len: "length ?buf = length buf"
      using one Suc.prems by (subst length_overwrite) auto
    obtain rc' ys s' where ih: "source_adapt f s1 ?buf off n rest = Some (rc', overwrite ?buf (off + (n - rest)) ys, s')"
       "rinv s'" "final s' = final s1" "length ys \<le> rest" "stream s1 = ys @ stream s'"
       "if 0 < n - rest + length ys \<or> n = 0 then rc' = int (n - rest + length ys)
        else rc' \<in> {- EAGAIN, - EINTR} \<and> patience s' < patience s1 \<or> rc' = final s1 \<and> stream s1 = []"
      using Suc.IH [of s1 ?buf] Suc.prems r(2) len by auto
    have o: "off + (n - rest) = off + (n - Suc rest) + length xs" "n - rest = Suc (n - Suc rest)"
      using Suc.prems one by simp_all
    have "overwrite ?buf (off + (n - Suc rest) + length xs) ys = overwrite buf (off + (n - Suc rest)) (xs @ ys)"
      using Suc.prems ih(4) one by (intro overwrite_append) simp
    then have "source_adapt f s buf off n (Suc rest) = Some (rc', overwrite buf (off + (n - Suc rest)) (xs @ ys), s')"
      using ih(1) r(1) wr one pos by (subst source_adapt.simps) (simp add: o)
    then show ?thesis
      using ih(2-6) r(3,4) one o(2) by (intro exI [of _ rc'] exI [of _ "xs @ ys"] exI [of _ s']) simp
  next
    case stop
    then have "source_adapt f s buf off n (Suc rest) =
        Some (if Suc rest = n then rc else int (n - Suc rest), buf, s1)"
      using r(1) wr pos small by (subst source_adapt.simps) simp
    then show ?thesis
      using stop r Suc.prems
      by (intro exI [of _ "if Suc rest = n then rc else int (n - Suc rest)"] exI [of _ "[]"] exI [of _ s1]) auto
  qed
qed

end

sublocale octet_reader \<subseteq> reader "OctetSource f" rinv stream final patience
proof unfold_locales
  fix s n off and buf :: "u8 list"
  assume "rinv s" "0 < n" "n \<le> SSIZE_MAX" "off + n \<le> length buf" "length buf \<le> SSIZE_MAX"
  with source_adapt_ok [of s n n off buf]
  show "\<exists>rc xs s'. block_read (OctetSource f) s buf off n = Some (rc, overwrite buf off xs, s') \<and>
        rinv s' \<and> final s' = final s \<and> length xs \<le> n \<and> stream s = xs @ stream s' \<and>
        (0 < rc \<and> rc = int (length xs) \<or>
         rc \<in> {- EAGAIN, - EINTR} \<and> xs = [] \<and> patience s' < patience s \<or> rc = final s \<and> stream s = [])"
    by (auto simp: block_read_def split: if_splits)
qed (use one_law final_range in \<open>auto simp: octet_read_def\<close>)

locale octet_writer =
  fixes f :: "'t \<Rightarrow> u8 \<Rightarrow> (int \<times> 't) option"
    and winv :: "'t \<Rightarrow> bool" and accepted :: "'t \<Rightarrow> u8 list" and fits :: "'t \<Rightarrow> nat \<Rightarrow> bool"
    and wfinal :: "'t \<Rightarrow> int" and wpatience :: "'t \<Rightarrow> nat"
  assumes one_law: "winv t \<Longrightarrow>
      \<exists>rc t'. f t x = Some (rc, t') \<and> winv t' \<and> wfinal t' = wfinal t \<and>
        (rc = 1 \<and> fits t 1 \<and> accepted t' = accepted t @ [x] \<and> (\<forall>k. fits t' k = fits t (Suc k)) \<or>
         rc \<in> {- EAGAIN, - EINTR} \<and> accepted t' = accepted t \<and> fits t' = fits t \<and>
           wpatience t' < wpatience t \<or>
         rc = wfinal t \<and> \<not> fits t 1 \<and> accepted t' = accepted t \<and> fits t' = fits t)"
    and fits_mono: "winv t \<Longrightarrow> fits t k \<Longrightarrow> j \<le> k \<Longrightarrow> fits t j"
    and wfinal_range: "winv t \<Longrightarrow> wfinal t < 0 \<and> - (2 ^ 31) \<le> wfinal t \<and> wfinal t \<notin> {- EAGAIN, - EINTR}"
begin

lemma sink_adapt_ok:
  assumes "winv t" "rest \<le> n" "n \<le> SSIZE_MAX" "off + n \<le> length buf" "length buf \<le> SSIZE_MAX"
    and "xs = take rest (drop (off + (n - rest)) buf)"
  shows "\<exists>rc k t'. sink_adapt f t buf off n rest = Some (rc, t') \<and> winv t' \<and> wfinal t' = wfinal t \<and>
     k \<le> rest \<and> accepted t' = accepted t @ take k xs \<and> (\<forall>i. fits t' i = fits t (k + i)) \<and>
     (0 < k \<longrightarrow> fits t k) \<and>
     (if 0 < n - rest + k \<or> n = 0 then rc = int (n - rest + k)
      else rc \<in> {- EAGAIN, - EINTR} \<and> wpatience t' < wpatience t \<or> rc = wfinal t \<and> \<not> fits t 1)"
  using assms
proof (induction rest arbitrary: t xs)
  case 0
  then show ?case
    by (subst sink_adapt.simps) (auto intro!: exI [of _ 0])
next
  case (Suc rest)
  let ?o = "off + (n - Suc rest)"
  have pos: "sz_sub (sz_add off n) (Suc rest) = ?o" "sz_sub n (Suc rest) = n - Suc rest"
    using Suc.prems by (simp_all add: sz_add_id SSIZE_MAX_def SIZE_MOD_def)
  define ys where "ys = take rest (drop (off + (n - rest)) buf)"
  have o: "off + (n - rest) = Suc ?o" "n - rest = Suc (n - Suc rest)" and inside: "?o < length buf"
    using Suc.prems by simp_all
  have xs: "xs = buf ! ?o # ys"
    unfolding Suc.prems(6) ys_def o(1) using inside by (simp flip: Cons_nth_drop_Suc)
  have rd: "mem_read buf ?o 1 = Some [buf ! ?o]"
    using mem_read_one [OF inside] by simp
  obtain rc t1 where r: "f t (buf ! ?o) = Some (rc, t1)" "winv t1" "wfinal t1 = wfinal t"
    and cases: "rc = 1 \<and> fits t 1 \<and> accepted t1 = accepted t @ [buf ! ?o] \<and> (\<forall>k. fits t1 k = fits t (Suc k)) \<or>
         rc \<in> {- EAGAIN, - EINTR} \<and> accepted t1 = accepted t \<and> fits t1 = fits t \<and>
           wpatience t1 < wpatience t \<or>
         rc = wfinal t \<and> \<not> fits t 1 \<and> accepted t1 = accepted t \<and> fits t1 = fits t"
    using one_law [OF Suc.prems(1)] by blast
  have small: "to_ssize (n - Suc rest) = int (n - Suc rest)"
    using Suc.prems by simp
  from cases consider (one) "rc = 1" "fits t 1" "accepted t1 = accepted t @ [buf ! ?o]" "\<forall>k. fits t1 k = fits t (Suc k)"
    | (stop) "rc < 0" "accepted t1 = accepted t" "fits t1 = fits t"
      "rc \<in> {- EAGAIN, - EINTR} \<and> wpatience t1 < wpatience t \<or> rc = wfinal t \<and> \<not> fits t 1"
    using wfinal_range [OF Suc.prems(1)] by (auto simp: errno_defs)
  then show ?case
  proof cases
    case one
    obtain rc' k t' where ih: "sink_adapt f t1 buf off n rest = Some (rc', t')" "winv t'" "wfinal t' = wfinal t1"
       "k \<le> rest" "accepted t' = accepted t1 @ take k ys" "\<forall>i. fits t' i = fits t1 (k + i)"
       "0 < k \<longrightarrow> fits t1 k"
       "if 0 < n - rest + k \<or> n = 0 then rc' = int (n - rest + k)
        else rc' \<in> {- EAGAIN, - EINTR} \<and> wpatience t' < wpatience t1 \<or> rc' = wfinal t1 \<and> \<not> fits t1 1"
      using Suc.IH [OF r(2) _ Suc.prems(3,4,5) ys_def] Suc.prems(2) by auto
    have "sink_adapt f t buf off n (Suc rest) = Some (rc', t')"
      using ih(1) r(1) rd one pos by (subst sink_adapt.simps) simp
    then show ?thesis
      using ih(2-8) r(3) one xs o(2)
      by (intro exI [of _ rc'] exI [of _ "Suc k"] exI [of _ t']) (cases k; simp)
  next
    case stop
    then have "sink_adapt f t buf off n (Suc rest) =
        Some (if Suc rest = n then rc else int (n - Suc rest), t1)"
      using r(1) rd pos small by (subst sink_adapt.simps) simp
    then show ?thesis
      using stop r Suc.prems
      by (intro exI [of _ "if Suc rest = n then rc else int (n - Suc rest)"] exI [of _ 0] exI [of _ t1]) auto
  qed
qed

end

sublocale octet_writer \<subseteq> writer "OctetSink f" winv accepted fits wfinal wpatience
proof unfold_locales
  fix t off n xs and buf :: "u8 list"
  assume t: "winv t" "mem_read buf off n = Some xs" "xs \<noteq> []" "length buf \<le> SSIZE_MAX"
  then have n: "off + n \<le> length buf" "xs = take n (drop (off + (n - n)) buf)" "0 < n" "n \<le> SSIZE_MAX"
    by (auto simp: mem_read_Some_iff)
  obtain rc k t' where r: "sink_adapt f t buf off n n = Some (rc, t')" "winv t'" "wfinal t' = wfinal t"
     "k \<le> n" "accepted t' = accepted t @ take k xs" "\<forall>i. fits t' i = fits t (k + i)"
     "0 < k \<longrightarrow> fits t k"
     "if 0 < n - n + k \<or> n = 0 then rc = int (n - n + k)
      else rc \<in> {- EAGAIN, - EINTR} \<and> wpatience t' < wpatience t \<or> rc = wfinal t \<and> \<not> fits t 1"
    using sink_adapt_ok [OF t(1) order_refl n(4,1) t(4) n(2)] by blast
  have "fits t' = fits t" if "k = 0"
    using r(6) that by auto
  moreover have "\<not> fits t n" if "\<not> fits t 1"
    using that fits_mono [OF t(1), of n 1] n(3) by auto
  ultimately show "\<exists>rc t'. block_write (OctetSink f) t buf off n = Some (rc, t') \<and> winv t' \<and> wfinal t' = wfinal t \<and>
        (0 < rc \<and> rc \<le> int n \<and> fits t (nat rc) \<and> accepted t' = accepted t @ take (nat rc) xs \<and>
           (\<forall>k. fits t' k = fits t (nat rc + k)) \<or>
         rc \<in> {- EAGAIN, - EINTR} \<and> accepted t' = accepted t \<and> fits t' = fits t \<and>
           wpatience t' < wpatience t \<or>
         rc = wfinal t \<and> \<not> fits t n \<and> accepted t' = accepted t \<and> fits t' = fits t)"
    using r n(3) by (cases "k = 0") (auto simp: block_write_def)
qed (use one_law wfinal_range in \<open>auto simp: octet_write_def\<close>)

context reader
begin

lemma read_multi_loop_ok:
  assumes "rinv (src_driver source)" "src_fn source = fn" "plain_retry (src_retry source)"
    and "rest \<le> n" "n \<le> SSIZE_MAX" "off + n \<le> length buf" "length buf \<le> SSIZE_MAX"
    and "data = stream (src_driver source)"
  shows "\<exists>s'. read_multi_loop source buf off n rest =
     Some (if rest \<le> length data then 0 else final (src_driver source),
           n - rest + min rest (length data),
           overwrite buf (off + (n - rest)) (take rest data), source\<lparr>src_driver := s'\<rparr>) \<and>
     rinv s' \<and> final s' = final (src_driver source) \<and> stream s' = drop rest data"
  using assms
proof (induction source arbitrary: buf rest data
    rule: lex_measure_induct [where f = "\<lambda>source. length (stream (src_driver source))"
      and g = "\<lambda>source. patience (src_driver source)"])
  case (less source)
  let ?s = "src_driver source" and ?o = "off + (n - rest)"
  show ?case
  proof (cases "rest = 0")
    case True
    with less.prems show ?thesis
      by (subst read_multi_loop.simps) (auto intro: exI [of _ ?s])
  next
    case False
    have pos: "sz_add off (sz_sub n rest) = ?o"
      using less.prems by (simp add: sz_add_id SSIZE_MAX_def SIZE_MOD_def)
    obtain rc xs s1 where
      r: "block_read fn ?s buf ?o rest = Some (rc, overwrite buf ?o xs, s1)"
        "rinv s1" "final s1 = final ?s" "length xs \<le> rest" "stream ?s = xs @ stream s1" and
      cases: "0 < rc \<and> rc = int (length xs) \<or>
         rc \<in> {- EAGAIN, - EINTR} \<and> xs = [] \<and> patience s1 < patience ?s \<or> rc = final ?s \<and> stream ?s = []"
      using read_law [of ?s rest ?o buf] False less.prems by auto
    let ?src = "source\<lparr>src_driver := s1\<rparr>"
    have rd: "source_read source buf ?o rest = Some (rc, overwrite buf ?o xs, ?src)"
      using r(1) less.prems by (simp add: source_read_block)
    have plain: "rt_run (src_retry source) = None"
      using less.prems by (simp add: plain_retry_def)
    consider (data) "0 < rc" "rc = int (length xs)"
      | (again) "rc \<in> {- EAGAIN, - EINTR}" "xs = []" "patience s1 < patience ?s"
      | (final) "rc = final ?s" "stream ?s = []"
      using cases by blast
    then show ?thesis
    proof cases
      case data
      have lt: "length (stream s1) < length (stream ?s)"
        using data r(5) by simp
      have bounds: "rest - length xs \<le> n" "n \<le> SSIZE_MAX" "off + n \<le> length buf" "length buf \<le> SSIZE_MAX"
        using less.prems by simp_all
      have len: "length (overwrite buf ?o xs) = length buf"
        using less.prems r(4) by simp
      obtain s' where s': "read_multi_loop ?src (overwrite buf ?o xs) off n (rest - length xs) =
         Some (if rest - length xs \<le> length (stream s1) then 0 else final s1,
           n - (rest - length xs) + min (rest - length xs) (length (stream s1)),
           overwrite (overwrite buf ?o xs) (off + (n - (rest - length xs))) (take (rest - length xs) (stream s1)),
           source\<lparr>src_driver := s'\<rparr>)"
         "rinv s'" "final s' = final s1" "stream s' = drop (rest - length xs) (stream s1)"
        using less.IH [of ?src "rest - length xs" "overwrite buf ?o xs" "stream s1"]
          lt bounds len r(2) less.prems(2,3) by fastforce
      have o: "off + (n - (rest - length xs)) = ?o + length xs"
        using r(4) less.prems by simp
      have mem: "overwrite (overwrite buf ?o xs) (?o + length xs) (take (rest - length xs) (stream s1)) =
          overwrite buf ?o (xs @ take (rest - length xs) (stream s1))"
        using r(4) less.prems by (intro overwrite_append) simp
      have tk: "xs @ take (rest - length xs) (stream s1) = take rest data"
        using r(4,5) less.prems by simp
      have num: "n - (rest - length xs) + min (rest - length xs) (length (stream s1)) =
          n - rest + min rest (length data)"
        using r(4,5) less.prems by simp
      have enough: "(rest - length xs \<le> length (stream s1)) = (rest \<le> length data)"
        using r(4,5) less.prems by auto
      have "read_multi_loop ?src (overwrite buf ?o xs) off n (rest - length xs) =
         Some (if rest \<le> length data then 0 else final ?s, n - rest + min rest (length data),
           overwrite buf ?o (take rest data), source\<lparr>src_driver := s'\<rparr>)"
        using s'(1) unfolding o mem tk num enough r(3) .
      then have "read_multi_loop source buf off n rest =
         Some (if rest \<le> length data then 0 else final ?s, n - rest + min rest (length data),
           overwrite buf ?o (take rest data), source\<lparr>src_driver := s'\<rparr>)"
        using rd pos data by (subst read_multi_loop.simps) (simp add: False sz_sub_id [OF r(4)])
      moreover have "stream s' = drop rest data"
        using s'(4) r(4,5) less.prems(8) by simp
      ultimately show ?thesis
        using s'(2,3) r(3) by auto
    next
      case again
      then have st: "stream s1 = stream ?s"
        using r(5) by simp
      have "\<exists>s'. read_multi_loop ?src buf off n rest =
         Some (if rest \<le> length data then 0 else final (src_driver ?src), n - rest + min rest (length data),
           overwrite buf ?o (take rest data), ?src\<lparr>src_driver := s'\<rparr>) \<and>
         rinv s' \<and> final s' = final (src_driver ?src) \<and> stream s' = drop rest data"
        by (rule less.IH) (use st again r(2) less.prems in simp_all)
      moreover have "read_multi_loop source buf off n rest = read_multi_loop ?src buf off n rest"
        using again(1,2) rd pos plain
        by (subst read_multi_loop.simps) (auto simp: False errno_defs)
      ultimately show ?thesis
        using r(3) by (simp cong: if_cong)
    next
      case final
      then have "rc < 0" "rc \<noteq> - EINTR" "rc \<noteq> - EAGAIN" "to_int rc = rc"
        using final_law [of ?s] less.prems by auto
      then show ?thesis
        using False rd pos plain final r less.prems
        by (subst read_multi_loop.simps) auto
    qed
  qed
qed

lemma read_multi_ok:
  assumes "rinv (src_driver source)" "src_fn source = fn" "plain_retry (src_retry source)"
    and "0 < n" "off + n \<le> length buf" "length buf \<le> SSIZE_MAX"
    and "data = stream (src_driver source)"
  shows "\<exists>s'. source_read_multi source buf off n =
     Some (if n \<le> length data then 0 else final (src_driver source), min n (length data),
           overwrite buf off (take n data), source\<lparr>src_driver := s'\<rparr>) \<and>
     rinv s' \<and> final s' = final (src_driver source) \<and> stream s' = drop n data"
  using read_multi_loop_ok [of source n n off buf data] assms
  by (simp add: source_read_multi_def retry_start_def plain_retry_def cong: if_cong)

lemma get_chunk_ok:
  assumes "rinv (src_driver source)" "src_fn source = fn" "plain_retry (src_retry source)"
    and "0 < n" "off + n \<le> length buf" "length buf \<le> SSIZE_MAX"
    and "data = stream (src_driver source)"
  shows "\<exists>s'. source_get_chunk source buf off n =
     Some (if n \<le> length data then int n else final (src_driver source),
           overwrite buf off (take n data), source\<lparr>src_driver := s'\<rparr>) \<and>
     rinv s' \<and> final s' = final (src_driver source) \<and> stream s' = drop n data"
  using read_multi_ok [OF assms] final_law [OF assms(1)] assms
  by (auto simp: source_get_chunk_def)

lemma get_chunk_atmost_ok:
  assumes "rinv (src_driver source)" "src_fn source = fn" "plain_retry (src_retry source)"
    and "0 < n" "off + n \<le> length buf" "length buf \<le> SSIZE_MAX"
    and "data = stream (src_driver source)"
  shows "\<exists>s'. source_get_chunk_atmost source buf off n =
     Some (if data = [] then final (src_driver source) else int (min n (length data)),
           overwrite buf off (take n data), source\<lparr>src_driver := s'\<rparr>) \<and>
     rinv s' \<and> final s' = final (src_driver source) \<and> stream s' = drop n data"
  using read_multi_ok [OF assms] assms
  by (auto simp: source_get_chunk_atmost_def)

text \<open>A source that never fails temporarily hands out its stream octet by octet.\<close>

lemma get_octet_some:
  assumes "rinv (src_driver source)" "src_fn source = fn" "\<And>s. patience s = 0"
    and "stream (src_driver source) = x # xs"
  shows "\<exists>s'. source_get_octet source = Some (1, [x], source\<lparr>src_driver := s'\<rparr>) \<and> rinv s' \<and>
     final s' = final (src_driver source) \<and> stream s' = xs"
proof -
  obtain rc ys s' where r: "octet_read fn (src_driver source) = Some (rc, ys, s')" "rinv s'"
     "final s' = final (src_driver source)" "x # xs = ys @ stream s'" "rc = 1" "length ys = 1"
    using octet_law [OF assms(1)] assms(3,4) by auto
  then show ?thesis
    using assms(2) by (auto simp: source_get_octet_read length_Suc_conv)
qed

lemma get_octet_none:
  assumes "rinv (src_driver source)" "src_fn source = fn" "\<And>s. patience s = 0"
    and "stream (src_driver source) = []"
  shows "\<exists>s'. source_get_octet source = Some (final (src_driver source), [], source\<lparr>src_driver := s'\<rparr>) \<and>
     rinv s' \<and> final s' = final (src_driver source) \<and> stream s' = []"
  using octet_law [OF assms(1)] assms(2,3,4) by (auto simp: source_get_octet_read)

end

context writer
begin

lemma write_multi_loop_ok:
  assumes "winv (snk_driver sink)" "snk_fn sink = wfn" "plain_retry (snk_retry sink)"
    and "rest \<le> n" "n \<le> SSIZE_MAX" "off + n \<le> length buf" "length buf \<le> SSIZE_MAX"
  shows "\<exists>err k t'. write_multi_loop sink buf off n rest =
       Some (err, n - rest + k, sink\<lparr>snk_driver := t'\<rparr>) \<and> winv t' \<and>
     wfinal t' = wfinal (snk_driver sink) \<and> k \<le> rest \<and>
     accepted t' = accepted (snk_driver sink) @ take k (drop (off + (n - rest)) buf) \<and>
     (\<forall>j. fits t' j = fits (snk_driver sink) (k + j)) \<and>
     (err = 0 \<and> k = rest \<or>
      err = wfinal (snk_driver sink) \<and> k < rest \<and> \<not> fits (snk_driver sink) rest)"
  using assms
proof (induction "(rest, wpatience (snk_driver sink))" arbitrary: sink rest
    rule: lex_pair_induct)
  case (less rest sink)
  let ?t = "snk_driver sink" and ?o = "off + (n - rest)"
  define xs where "xs = take rest (drop ?o buf)"
  show ?case
  proof (cases "rest = 0")
    case True
    with less.prems show ?thesis
      by (subst write_multi_loop.simps) (auto intro!: exI [of _ ?t])
  next
    case False
    have pos: "sz_add off (sz_sub n rest) = ?o"
      using less.prems by (simp add: sz_add_id SSIZE_MAX_def SIZE_MOD_def)
    have xs: "mem_read buf ?o rest = Some xs" "length xs = rest"
      using less.prems by (simp_all add: mem_read_def xs_def)
    obtain rc t1 where w: "block_write wfn ?t buf ?o rest = Some (rc, t1)" "winv t1" "wfinal t1 = wfinal ?t"
      and cases: "0 < rc \<and> rc \<le> int rest \<and> fits ?t (nat rc) \<and> accepted t1 = accepted ?t @ take (nat rc) xs \<and>
           (\<forall>k. fits t1 k = fits ?t (nat rc + k)) \<or>
         rc \<in> {- EAGAIN, - EINTR} \<and> accepted t1 = accepted ?t \<and> fits t1 = fits ?t \<and>
           wpatience t1 < wpatience ?t \<or>
         rc = wfinal ?t \<and> \<not> fits ?t rest \<and> accepted t1 = accepted ?t \<and> fits t1 = fits ?t"
      using write_law [of ?t buf ?o rest xs] xs False less.prems by auto
    let ?snk = "sink\<lparr>snk_driver := t1\<rparr>"
    have wr: "sink_write sink buf ?o rest = Some (rc, ?snk)"
      using w(1) less.prems by (simp add: sink_write_block)
    have plain: "rt_run (snk_retry sink) = None"
      using less.prems by (simp add: plain_retry_def)
    consider (data) "0 < rc" "rc \<le> int rest" "accepted t1 = accepted ?t @ take (nat rc) xs"
        "\<forall>k. fits t1 k = fits ?t (nat rc + k)"
      | (again) "rc \<in> {- EAGAIN, - EINTR}" "accepted t1 = accepted ?t" "fits t1 = fits ?t"
          "wpatience t1 < wpatience ?t"
      | (final) "rc = wfinal ?t" "\<not> fits ?t rest" "accepted t1 = accepted ?t" "fits t1 = fits ?t"
      using cases by blast
    then show ?thesis
    proof cases
      case data
      define r1 where "r1 = rest - nat rc"
      have r1: "r1 < rest" "r1 \<le> n" "nat rc \<le> rest" "nat rc + r1 = rest"
        using data False less.prems by (auto simp: r1_def)
      have "\<exists>err k t'. write_multi_loop ?snk buf off n r1 =
           Some (err, n - r1 + k, ?snk\<lparr>snk_driver := t'\<rparr>) \<and> winv t' \<and>
         wfinal t' = wfinal (snk_driver ?snk) \<and> k \<le> r1 \<and>
         accepted t' = accepted (snk_driver ?snk) @ take k (drop (off + (n - r1)) buf) \<and>
         (\<forall>j. fits t' j = fits (snk_driver ?snk) (k + j)) \<and>
         (err = 0 \<and> k = r1 \<or>
          err = wfinal (snk_driver ?snk) \<and> k < r1 \<and> \<not> fits (snk_driver ?snk) r1)"
        by (rule less.hyps) (use r1(1,2) w(2) less.prems in simp_all)
      then obtain err k t' where ih: "write_multi_loop ?snk buf off n r1 =
           Some (err, n - r1 + k, sink\<lparr>snk_driver := t'\<rparr>)" "winv t'" "wfinal t' = wfinal t1" "k \<le> r1"
         "accepted t' = accepted t1 @ take k (drop (off + (n - r1)) buf)"
         "\<forall>j. fits t' j = fits t1 (k + j)"
         "err = 0 \<and> k = r1 \<or> err = wfinal t1 \<and> k < r1 \<and> \<not> fits t1 r1"
        by auto
      have o: "off + (n - r1) = ?o + nat rc"
        using r1 less.prems by simp
      have "accepted t' = accepted ?t @ take (nat rc + k) (drop ?o buf)"
        using ih(5) data(3) r1 unfolding o xs_def by (simp add: take_add add.commute [of "nat rc" ?o])
      moreover have "write_multi_loop sink buf off n rest = write_multi_loop ?snk buf off n r1"
        using wr pos data r1 by (subst write_multi_loop.simps) (simp add: False r1_def)
      moreover have "n - r1 + k = n - rest + (nat rc + k)"
        using r1 less.prems by simp
      moreover have "\<forall>j. fits t' j = fits ?t (nat rc + k + j)"
        using ih(6) data(4) by (simp add: add.assoc)
      moreover have "err = 0 \<and> nat rc + k = rest \<or> err = wfinal ?t \<and> nat rc + k < rest \<and> \<not> fits ?t rest"
        using ih(7) data(4) r1 w(3) by auto
      ultimately show ?thesis
        using ih(1,2,3,4) r1 w(3)
        by (intro exI [of _ err] exI [of _ "nat rc + k"] exI [of _ t']) simp
    next
      case again
      have "\<exists>err k t'. write_multi_loop ?snk buf off n rest =
           Some (err, n - rest + k, ?snk\<lparr>snk_driver := t'\<rparr>) \<and> winv t' \<and>
         wfinal t' = wfinal (snk_driver ?snk) \<and> k \<le> rest \<and>
         accepted t' = accepted (snk_driver ?snk) @ take k (drop ?o buf) \<and>
         (\<forall>j. fits t' j = fits (snk_driver ?snk) (k + j)) \<and>
         (err = 0 \<and> k = rest \<or>
          err = wfinal (snk_driver ?snk) \<and> k < rest \<and> \<not> fits (snk_driver ?snk) rest)"
        by (rule less.hyps) (use again w(2) less.prems in simp_all)
      moreover have "write_multi_loop sink buf off n rest = write_multi_loop ?snk buf off n rest"
        using again(1) wr pos plain
        by (subst write_multi_loop.simps) (auto simp: False errno_defs)
      ultimately show ?thesis
        using again(2,3) w(3) by simp
    next
      case final
      then have "rc < 0" "rc \<noteq> - EINTR" "rc \<noteq> - EAGAIN" "to_int rc = rc"
        using wfinal_law [of ?t] less.prems by auto
      then have "write_multi_loop sink buf off n rest = Some (rc, n - rest, ?snk)"
        using wr pos plain less.prems by (subst write_multi_loop.simps) (simp add: False)
      then show ?thesis
        using final w False by (intro exI [of _ rc] exI [of _ 0] exI [of _ t1]) simp
    qed
  qed
qed

lemma put_chunk_ok:
  assumes "winv (snk_driver sink)" "snk_fn sink = wfn" "plain_retry (snk_retry sink)"
    and "off + n \<le> length buf" "length buf \<le> SSIZE_MAX" "xs = take n (drop off buf)"
  shows "\<exists>rc k t'. sink_put_chunk sink buf off n = Some (rc, sink\<lparr>snk_driver := t'\<rparr>) \<and> winv t' \<and>
     wfinal t' = wfinal (snk_driver sink) \<and> k \<le> n \<and>
     accepted t' = accepted (snk_driver sink) @ take k xs \<and>
     (\<forall>j. fits t' j = fits (snk_driver sink) (k + j)) \<and>
     (rc = int n \<and> k = n \<or> rc = wfinal (snk_driver sink) \<and> k < n \<and> \<not> fits (snk_driver sink) n)"
proof (cases "n = 0")
  case True
  with assms show ?thesis
    by (auto simp: sink_put_chunk_def sink_write_multi_def intro!: exI [of _ "snk_driver sink"])
next
  case False
  have "n \<le> SSIZE_MAX"
    using assms by simp
  moreover obtain err k t' where w: "write_multi_loop sink buf off n n =
       Some (err, k, sink\<lparr>snk_driver := t'\<rparr>)" "winv t'" "wfinal t' = wfinal (snk_driver sink)"
    "k \<le> n" "accepted t' = accepted (snk_driver sink) @ take k (drop off buf)"
    "\<forall>j. fits t' j = fits (snk_driver sink) (k + j)"
    "err = 0 \<and> k = n \<or> err = wfinal (snk_driver sink) \<and> k < n \<and> \<not> fits (snk_driver sink) n"
    using write_multi_loop_ok [of sink n n off buf] assms by auto
  moreover have "sink\<lparr>snk_retry := snk_retry sink, snk_driver := snk_driver sink\<rparr> = sink"
    by simp
  ultimately have "sink_put_chunk sink buf off n =
      Some (if err = 0 then to_ssize k else err, sink\<lparr>snk_driver := t'\<rparr>)"
    using assms(3) False
    by (simp add: sink_put_chunk_def sink_write_multi_def retry_start_def plain_retry_def)
  then show ?thesis
    using w \<open>n \<le> SSIZE_MAX\<close> wfinal_law [OF assms(1)] assms(6)
    by (intro exI [of _ "if err = 0 then to_ssize k else err"] exI [of _ k] exI [of _ t']) auto
qed

end

section \<open>Channels\<close>

text \<open>An auxiliary buffer needs memory for at least one octet.\<close>

definition aux_ok :: "ByteBuffer \<Rightarrow> bool" where
  "aux_ok b \<longleftrightarrow> bb_data b \<noteq> None \<and> 0 < bb_size b \<and> bb_size b \<le> length (bb_mem b) \<and>
     length (bb_mem b) \<le> SSIZE_MAX"

lemma aux_ok_reset [simp]: "aux_ok (byte_buffer_reset b) = aux_ok b"
  by (simp add: aux_ok_def byte_buffer_reset_def bb_mem_def)

lemma bb_mem_reset [simp]: "bb_mem (byte_buffer_reset b) = bb_mem b"
  by (simp add: byte_buffer_reset_def bb_mem_def)

lemma bb_reset_fields [simp]:
  "bb_size (byte_buffer_reset b) = bb_size b" "bb_offset (byte_buffer_reset b) = 0"
  "byte_buffer_avail (byte_buffer_reset b) = bb_size b" "bb_data (byte_buffer_reset b) = bb_data b"
  by (simp_all add: byte_buffer_reset_def byte_buffer_avail_def)

locale channel = reader fn rinv stream final patience + writer wfn winv accepted fits wfinal wpatience
  for fn :: "'s source_fn" and rinv stream final patience
  and wfn :: "'t sink_fn" and winv accepted fits wfinal wpatience
begin

text \<open>The two ends of the channel, and what a transfer did to them.\<close>

definition joined :: "'s Source \<Rightarrow> 't Sink \<Rightarrow> bool" where
  "joined source sink \<longleftrightarrow> rinv (src_driver source) \<and> src_fn source = fn \<and> plain_retry (src_retry source) \<and>
     winv (snk_driver sink) \<and> snk_fn sink = wfn \<and> plain_retry (snk_retry sink)"

definition moved :: "'s Source \<Rightarrow> 't Sink \<Rightarrow> nat \<Rightarrow> nat \<Rightarrow> 's Source \<Rightarrow> 't Sink \<Rightarrow> bool" where
  "moved source sink taken put source' sink' \<longleftrightarrow> joined source' sink' \<and>
     stream (src_driver source') = drop taken (stream (src_driver source)) \<and>
     final (src_driver source') = final (src_driver source) \<and>
     accepted (snk_driver sink') = accepted (snk_driver sink) @ take put (stream (src_driver source)) \<and>
     wfinal (snk_driver sink') = wfinal (snk_driver sink) \<and>
     (\<forall>j. fits (snk_driver sink') j = fits (snk_driver sink) (put + j))"

lemma moved_trans:
  assumes "moved source sink k k source1 sink1" "k \<le> length (stream (src_driver source))"
    and "moved source1 sink1 taken put source2 sink2"
  shows "moved source sink (k + taken) (k + put) source2 sink2"
  using assms by (simp add: moved_def take_add add.assoc add.commute [of taken])

lemma atmost_aux_ok:
  assumes "joined source sink" "aux_ok b" "0 < m"
    and "data = stream (src_driver source)" "j = min (min m (bb_size b)) (length data)"
  shows "\<exists>rc src snk b' k. sts_atmost_aux source sink b m = Some (rc, src, snk, b') \<and>
     moved source sink j k src snk \<and> aux_ok b' \<and> bb_size b' = bb_size b \<and>
     (data = [] \<and> rc = final (src_driver source) \<and> k = j \<or> data \<noteq> [] \<and> rc = int j \<and> k = j \<or>
      data \<noteq> [] \<and> rc = wfinal (snk_driver sink) \<and> k < j \<and> \<not> fits (snk_driver sink) j)"
proof -
  define c where "c = min m (bb_size b)"
  define b1 where "b1 = byte_buffer_reset (if bb_size b > m then b\<lparr>bb_size := m\<rparr> else b)"
  have b1: "byte_buffer_avail b1 = c" "bb_mem b1 = bb_mem b" "bb_offset b1 = 0" "bb_data b1 = bb_data b"
    by (auto simp: b1_def c_def bb_mem_def)
  have c: "0 < c" "c \<le> length (bb_mem b)" "length (bb_mem b) \<le> SSIZE_MAX"
    using assms by (auto simp: aux_ok_def c_def)
  have jn: "rinv (src_driver source)" "src_fn source = fn" "plain_retry (src_retry source)"
    "winv (snk_driver sink)" "snk_fn sink = wfn" "plain_retry (snk_retry sink)"
    using assms(1) by (simp_all add: joined_def)
  obtain s' where rd: "source_get_chunk_atmost source (bb_mem b1) 0 c =
      Some (if data = [] then final (src_driver source) else int j, overwrite (bb_mem b1) 0 (take j data),
        source\<lparr>src_driver := s'\<rparr>)"
    "rinv s'" "final s' = final (src_driver source)" "stream s' = drop j data"
    using get_chunk_atmost_ok [OF jn(1,2,3), of c 0 "bb_mem b1" data] c b1 assms(4,5)
    by (auto simp: c_def min_def split: if_splits)
  define mem where "mem = overwrite (bb_mem b1) 0 (take j data)"
  have j: "j \<le> c" "j \<le> length data"
    using assms(5) by (auto simp: c_def)
  have mem: "length mem = length (bb_mem b)" "take j mem = take j data"
    using j c b1 by (simp_all add: mem_def) (simp add: overwrite_def)
  define b2 where "b2 = b\<lparr>bb_data := bb_data (bb_store b1 mem)\<rparr>"
  have b2: "aux_ok b2" "bb_size b2 = bb_size b"
    using assms(2) b1 mem by (auto simp: aux_ok_def b2_def bb_store_def bb_mem_def split: option.splits)
  define buffer where "buffer = (if bb_size b > m then b\<lparr>bb_size := m\<rparr> else b)"
  have read: "source_get_chunk_atmost source (bb_mem (byte_buffer_reset buffer))
      (bb_offset (byte_buffer_reset buffer)) (byte_buffer_avail (byte_buffer_reset buffer)) =
      Some (if data = [] then final (src_driver source) else int j, mem, source\<lparr>src_driver := s'\<rparr>)"
    using rd(1) b1 by (simp add: mem_def b1_def buffer_def)
  have store: "bb_store (byte_buffer_reset buffer) mem = bb_store b1 mem"
    "bb_offset (byte_buffer_reset buffer) = 0"
    by (simp_all add: b1_def buffer_def)
  have atmost: "sts_atmost_aux source sink b m = do {
      (rc, src, snk, buffer') \<leftarrow> sts_some_aux source sink buffer;
      Some (rc, src, snk, b\<lparr>bb_data := bb_data buffer'\<rparr>) }"
    by (simp add: sts_atmost_aux_def buffer_def)
  show ?thesis
  proof (cases "data = []")
    case True
    then have "j = 0"
      using j by simp
    have "sts_atmost_aux source sink b m =
        Some (final (src_driver source), source\<lparr>src_driver := s'\<rparr>, sink, b2)"
      using True final_law [OF jn(1)] unfolding atmost
      by (simp add: sts_some_aux_def Let_def read [simplified] store b2_def)
    moreover have "moved source sink j j (source\<lparr>src_driver := s'\<rparr>) sink"
      using rd jn \<open>j = 0\<close> True assms(4) by (simp add: moved_def joined_def)
    ultimately show ?thesis
      using True b2 by blast
  next
    case False
    have put_pre: "0 + j \<le> length mem" "length mem \<le> SSIZE_MAX" "take j data = take j (drop 0 mem)"
      using mem c j by simp_all
    obtain rc k t' where wr: "sink_put_chunk sink mem 0 j = Some (rc, sink\<lparr>snk_driver := t'\<rparr>)" "winv t'"
      "wfinal t' = wfinal (snk_driver sink)" "k \<le> j"
      "accepted t' = accepted (snk_driver sink) @ take k (take j data)"
      "\<forall>i. fits t' i = fits (snk_driver sink) (k + i)"
      "rc = int j \<and> k = j \<or> rc = wfinal (snk_driver sink) \<and> k < j \<and> \<not> fits (snk_driver sink) j"
      using put_chunk_ok [OF jn(4,5,6) put_pre] by blast
    have "moved source sink j k (source\<lparr>src_driver := s'\<rparr>) (sink\<lparr>snk_driver := t'\<rparr>)"
      using wr rd jn j assms(4) by (simp add: moved_def joined_def min_def)
    moreover have "0 < j"
      using False c assms(3,5) by (auto simp: c_def)
    then have "sts_atmost_aux source sink b m =
        Some (rc, source\<lparr>src_driver := s'\<rparr>, sink\<lparr>snk_driver := t'\<rparr>, b2)"
      using False wr(1) unfolding atmost by (simp add: sts_some_aux_def Let_def read [simplified] store b2_def)
    ultimately show ?thesis
      using False wr(7) b2 by blast
  qed
qed

lemma drain_aux_loop_ok:
  assumes "joined source sink" "aux_ok b" "data = stream (src_driver source)" "acc + int (length data) \<le> int SSIZE_MAX"
  shows "\<exists>rc src snk b' j k. sts_drain_aux_loop source sink b (bb_size b) acc = Some (rc, src, snk, b') \<and>
     moved source sink j k src snk \<and> aux_ok b' \<and> k \<le> j \<and> j \<le> length data \<and>
     (j = length data \<and> k = j \<and>
        rc = (if final (src_driver source) = - ENODATA then acc + int j else final (src_driver source)) \<or>
      k < j \<and> (\<exists>m \<le> length data. \<not> fits (snk_driver sink) m))"
  using assms
proof (induction "length data" arbitrary: source sink b data acc rule: less_induct)
  case less
  let ?b = "byte_buffer_reset b"
  have sz: "0 < bb_size b"
    using less.prems by (simp add: aux_ok_def)
  obtain rc src snk b' j k where step: "sts_atmost_aux source sink ?b (bb_size b) = Some (rc, src, snk, b')"
     "moved source sink j k src snk" "aux_ok b'" "bb_size b' = bb_size b"
     "data = [] \<and> rc = final (src_driver source) \<and> k = j \<or> data \<noteq> [] \<and> rc = int j \<and> k = j \<or>
      data \<noteq> [] \<and> rc = wfinal (snk_driver sink) \<and> k < j \<and> \<not> fits (snk_driver sink) j"
    "j = min (bb_size b) (length data)"
    using atmost_aux_ok [of source sink ?b "bb_size b" data] less.prems sz by auto
  note unf = sts_drain_aux_loop.simps [of source sink b]
  consider (dry) "data = []" "rc = final (src_driver source)" "k = j"
    | (more) "data \<noteq> []" "rc = int j" "k = j"
    | (stuck) "data \<noteq> []" "rc = wfinal (snk_driver sink)" "k < j" "\<not> fits (snk_driver sink) j"
    using step(5) by blast
  then show ?case
  proof cases
    case dry
    have "rc < 0"
      using final_law less.prems(1) dry(2) by (auto simp: joined_def)
    then have "sts_drain_aux_loop source sink b (bb_size b) acc =
        Some (if rc = - ENODATA then acc else rc, src, snk, b')"
      using step(1) by (subst unf) simp
    with step dry show ?thesis
      by (intro exI [of _ "if rc = - ENODATA then acc else rc"] exI [of _ src] exI [of _ snk] exI [of _ b']
          exI [of _ j] exI [of _ k]) simp
  next
    case more
    define rest where "rest = drop j data"
    have j: "0 < j" "j \<le> length data"
      using step(6) sz more(1) by auto
    have nxt: "joined src snk" "rest = stream (src_driver src)"
      "final (src_driver src) = final (src_driver source)"
      "fits (snk_driver snk) i = fits (snk_driver sink) (j + i)" for i
      using step(2) less.prems(3) more(3) by (simp_all add: moved_def rest_def)
    have small: "\<not> acc + rc > int SSIZE_MAX" "acc + rc + int (length rest) \<le> int SSIZE_MAX"
      using less.prems(4) j more(2) by (simp_all add: rest_def)
    have "length rest < length data"
      using j by (simp add: rest_def)
    then obtain rc' src' snk' b'' j' k' where
      ih: "sts_drain_aux_loop src snk b' (bb_size b') (acc + rc) = Some (rc', src', snk', b'')"
        "moved src snk j' k' src' snk'" "aux_ok b''" "k' \<le> j'" "j' \<le> length rest"
        "j' = length rest \<and> k' = j' \<and>
          rc' = (if final (src_driver src) = - ENODATA then acc + rc + int j' else final (src_driver src)) \<or>
         k' < j' \<and> (\<exists>m \<le> length rest. \<not> fits (snk_driver snk) m)"
      using less.hyps [OF _ nxt(1) step(3) nxt(2) small(2)] by blast
    have "sts_drain_aux_loop source sink b (bb_size b) acc = Some (rc', src', snk', b'')"
      using step(1,4) ih(1) more(2) small(1) by (subst unf) simp
    moreover have "moved source sink (j + j') (j + k') src' snk'"
      using moved_trans [OF _ _ ih(2)] step(2) more(3) j(2) less.prems(3) by blast
    moreover have "j + j' \<le> length data"
      using ih(5) j by (simp add: rest_def)
    moreover have "\<exists>m \<le> length data. \<not> fits (snk_driver sink) m" if "\<exists>m \<le> length rest. \<not> fits (snk_driver snk) m"
    proof -
      from that obtain m where "m \<le> length rest" "\<not> fits (snk_driver snk) m" by blast
      then show ?thesis
        using nxt(4) j by (intro exI [of _ "j + m"]) (simp add: rest_def)
    qed
    ultimately show ?thesis
      using ih(3,4,6) nxt(3) more(2) j
      by (intro exI [of _ rc'] exI [of _ src'] exI [of _ snk'] exI [of _ b''] exI [of _ "j + j'"]
          exI [of _ "j + k'"]) (auto simp: rest_def)
  next
    case stuck
    have "rc < 0"
      using wfinal_law less.prems(1) stuck(2) by (auto simp: joined_def)
    then have "sts_drain_aux_loop source sink b (bb_size b) acc =
        Some (if rc = - ENODATA then acc else rc, src, snk, b')"
      using step(1) by (subst unf) simp
    with step stuck show ?thesis
      by (intro exI [of _ "if rc = - ENODATA then acc else rc"] exI [of _ src] exI [of _ snk] exI [of _ b']
          exI [of _ j] exI [of _ k]) auto
  qed
qed

lemma drain_aux_ok:
  assumes "joined source sink" "aux_ok b" "data = stream (src_driver source)"
    and "final (src_driver source) = - ENODATA" "\<And>m. m \<le> length data \<Longrightarrow> fits (snk_driver sink) m" "length data \<le> SSIZE_MAX"
  shows "\<exists>src snk b'. sts_drain_aux source sink b = Some (int (length data), src, snk, b') \<and>
     moved source sink (length data) (length data) src snk"
proof -
  have "aux_ok (byte_buffer_reset b)"
    using assms(2) by simp
  from drain_aux_loop_ok [OF assms(1) this assms(3), of 0] assms(4-6) show ?thesis
    by (auto simp: sts_drain_aux_def)
qed

lemma n_aux_loop_ok:
  assumes "joined source sink" "aux_ok b" "data = stream (src_driver source)" "rest \<le> n" "n \<le> SSIZE_MAX"
  shows "\<exists>rc src snk b' j k. sts_n_aux_loop source sink b n rest = Some (rc, src, snk, b') \<and>
     moved source sink j k src snk \<and> aux_ok b' \<and> k \<le> j \<and> j \<le> min rest (length data) \<and>
     (rc = int n \<and> j = rest \<and> k = rest \<or>
      rc = final (src_driver source) \<and> length data < rest \<and> j = length data \<and> k = j \<or>
      rc = wfinal (snk_driver sink) \<and> k < j \<and> (\<exists>m \<le> min rest (length data). \<not> fits (snk_driver sink) m))"
  using assms
proof (induction rest arbitrary: source sink b data rule: less_induct)
  case (less rest)
  let ?b = "byte_buffer_reset b"
  note unf = sts_n_aux_loop.simps [of source sink b n rest]
  show ?case
  proof (cases "rest = 0")
    case True
    with less.prems show ?thesis
      by (intro exI [of _ "int n"] exI [of _ source] exI [of _ sink] exI [of _ b] exI [of _ 0])
        (subst unf, simp add: moved_def)
  next
    case False
    have sz: "0 < bb_size b"
      using less.prems by (simp add: aux_ok_def)
    obtain rc src snk b' j k where step: "sts_atmost_aux source sink ?b rest = Some (rc, src, snk, b')"
       "moved source sink j k src snk" "aux_ok b'" "bb_size b' = bb_size b"
       "data = [] \<and> rc = final (src_driver source) \<and> k = j \<or> data \<noteq> [] \<and> rc = int j \<and> k = j \<or>
        data \<noteq> [] \<and> rc = wfinal (snk_driver sink) \<and> k < j \<and> \<not> fits (snk_driver sink) j"
      "j = min (min rest (bb_size b)) (length data)"
      using atmost_aux_ok [of source sink ?b rest data] less.prems False by auto
    consider (dry) "data = []" "rc = final (src_driver source)" "k = j"
      | (more) "data \<noteq> []" "rc = int j" "k = j"
      | (stuck) "data \<noteq> []" "rc = wfinal (snk_driver sink)" "k < j" "\<not> fits (snk_driver sink) j"
      using step(5) by blast
    then show ?thesis
    proof cases
      case dry
      have "rc < 0"
        using final_law less.prems(1) dry(2) by (auto simp: joined_def)
      then have "sts_n_aux_loop source sink b n rest = Some (rc, src, snk, b')"
        using step(1) False by (subst unf) simp
      with step dry False show ?thesis
        by (intro exI [of _ rc] exI [of _ src] exI [of _ snk] exI [of _ b'] exI [of _ j] exI [of _ k]) simp
    next
      case more
      define data' where "data' = drop j data"
      have j: "0 < j" "j \<le> length data" "j \<le> rest"
        using step(6) sz more(1) False by auto
      have nxt: "joined src snk" "data' = stream (src_driver src)"
        "final (src_driver src) = final (src_driver source)"
        "wfinal (snk_driver snk) = wfinal (snk_driver sink)"
        "fits (snk_driver snk) i = fits (snk_driver sink) (j + i)" for i
        using step(2) less.prems(3) more(3) by (simp_all add: moved_def data'_def)
      have lt: "rest - j < rest" "rest - j \<le> n"
        using j False less.prems by simp_all
      obtain rc' src' snk' b'' j' k' where
        ih: "sts_n_aux_loop src snk b' n (rest - j) = Some (rc', src', snk', b'')"
          "moved src snk j' k' src' snk'" "aux_ok b''" "k' \<le> j'" "j' \<le> min (rest - j) (length data')"
          "rc' = int n \<and> j' = rest - j \<and> k' = rest - j \<or>
           rc' = final (src_driver src) \<and> length data' < rest - j \<and> j' = length data' \<and> k' = j' \<or>
           rc' = wfinal (snk_driver snk) \<and> k' < j' \<and>
             (\<exists>m \<le> min (rest - j) (length data'). \<not> fits (snk_driver snk) m)"
        using less.IH [OF lt(1) nxt(1) step(3) nxt(2) lt(2) less.prems(5)] by blast
      have "sz_sub rest (nat rc) = rest - j"
        using j more(2) by simp
      then have "sts_n_aux_loop source sink b n rest = Some (rc', src', snk', b'')"
        using step(1) ih(1) more(2) by (subst unf) (simp add: False)
      moreover have "moved source sink (j + j') (j + k') src' snk'"
        using moved_trans [OF _ _ ih(2)] step(2) more(3) j(2) less.prems(3) by blast
      moreover have "\<exists>m \<le> min rest (length data). \<not> fits (snk_driver sink) m"
        if "\<exists>m \<le> min (rest - j) (length data'). \<not> fits (snk_driver snk) m"
      proof -
        from that obtain m where m: "m \<le> min (rest - j) (length data')" "\<not> fits (snk_driver snk) m" by blast
        have "j + m \<le> min rest (length data)"
          using m(1) j by (auto simp: data'_def)
        moreover have "\<not> fits (snk_driver sink) (j + m)"
          using m(2) nxt(5) by simp
        ultimately show ?thesis by blast
      qed
      moreover have len: "length data' = length data - j"
        by (simp add: data'_def)
      moreover have "rc' = int n \<and> j + j' = rest \<and> j + k' = rest \<or>
        rc' = final (src_driver source) \<and> length data < rest \<and> j + j' = length data \<and> j + k' = j + j' \<or>
        rc' = wfinal (snk_driver sink) \<and> j + k' < j + j' \<and>
          (\<exists>m \<le> min (rest - j) (length data'). \<not> fits (snk_driver snk) m)"
        using ih(6)
      proof (elim disjE)
        assume "rc' = int n \<and> j' = rest - j \<and> k' = rest - j"
        then show ?thesis using j by simp
      next
        assume "rc' = final (src_driver src) \<and> length data' < rest - j \<and> j' = length data' \<and> k' = j'"
        then show ?thesis using j nxt(3) len by auto
      next
        assume "rc' = wfinal (snk_driver snk) \<and> k' < j' \<and>
          (\<exists>m \<le> min (rest - j) (length data'). \<not> fits (snk_driver snk) m)"
        then show ?thesis using nxt(4) by simp
      qed
      moreover have "j + j' \<le> min rest (length data)"
        using ih(5) j len by auto
      moreover have "j + k' \<le> j + j'"
        using ih(4) by simp
      ultimately show ?thesis
        using ih(3) by blast
    next
      case stuck
      have "rc < 0"
        using wfinal_law less.prems(1) stuck(2) by (auto simp: joined_def)
      then have "sts_n_aux_loop source sink b n rest = Some (rc, src, snk, b')"
        using step(1) False by (subst unf) simp
      with step stuck show ?thesis
        by (intro exI [of _ rc] exI [of _ src] exI [of _ snk] exI [of _ b'] exI [of _ j] exI [of _ k]) auto
    qed
  qed
qed

subsection \<open>Octet by octet\<close>

lemma cbc_ok:
  assumes "joined source sink" "data = stream (src_driver source)"
  shows "\<exists>rc src snk j k. sts_cbc source sink = Some (rc, src, snk) \<and> moved source sink j k src snk \<and>
     k \<le> j \<and> j \<le> 1 \<and> j \<le> length data \<and> (rc = 1 \<and> k = 1 \<or> rc < 0 \<and> k = 0)"
proof -
  have jn: "rinv (src_driver source)" "src_fn source = fn" "plain_retry (src_retry source)"
    "winv (snk_driver sink)" "snk_fn sink = wfn" "plain_retry (snk_retry sink)"
    using assms(1) by (simp_all add: joined_def)
  obtain rc xs s' where r: "octet_read fn (src_driver source) = Some (rc, xs, s')" "rinv s'"
     "final s' = final (src_driver source)" "data = xs @ stream s'"
     "rc = 1 \<and> length xs = 1 \<or> rc < 0 \<and> xs = []"
  proof -
    obtain rc xs s' where o: "octet_read fn (src_driver source) = Some (rc, xs, s')" "rinv s'"
     "final s' = final (src_driver source)" "stream (src_driver source) = xs @ stream s'"
     "rc = 1 \<and> length xs = 1 \<or>
         rc \<in> {- EAGAIN, - EINTR} \<and> xs = [] \<and> patience s' < patience (src_driver source) \<or>
         rc = final (src_driver source) \<and> stream (src_driver source) = []"
      using octet_law [OF jn(1)] by blast
    then have "rc = 1 \<and> length xs = 1 \<or> rc < 0 \<and> xs = []"
      using final_law [OF jn(1)] by (auto simp: errno_defs)
    with o assms(2) that show thesis
      by blast
  qed
  let ?src = "source\<lparr>src_driver := s'\<rparr>"
  have get: "source_get_octet source = Some (rc, xs, ?src)"
    using r(1,5) jn(2) by (auto simp: source_get_octet_read)
  from r(5) show ?thesis
  proof
    assume stop: "rc < 0 \<and> xs = []"
    then have "sts_cbc source sink = Some (rc, ?src, sink)"
      by (simp add: sts_cbc_def get)
    moreover have "moved source sink 0 0 ?src sink"
      using r jn stop assms(2) by (simp add: moved_def joined_def)
    ultimately show ?thesis
      using stop by blast
  next
    assume one: "rc = 1 \<and> length xs = 1"
    then obtain x where x: "xs = [x]"
      by (auto simp: length_Suc_conv)
    obtain rc' t' where w: "octet_write wfn (snk_driver sink) x = Some (rc', t')" "winv t'"
       "wfinal t' = wfinal (snk_driver sink)"
       "rc' = 1 \<and> fits (snk_driver sink) 1 \<and> accepted t' = accepted (snk_driver sink) @ [x] \<and>
          (\<forall>k. fits t' k = fits (snk_driver sink) (Suc k)) \<or>
        rc' < 0 \<and> accepted t' = accepted (snk_driver sink) \<and> fits t' = fits (snk_driver sink)"
    proof -
      obtain rc' t' where o: "octet_write wfn (snk_driver sink) x = Some (rc', t')" "winv t'"
         "wfinal t' = wfinal (snk_driver sink)"
         "rc' = 1 \<and> fits (snk_driver sink) 1 \<and> accepted t' = accepted (snk_driver sink) @ [x] \<and>
            (\<forall>k. fits t' k = fits (snk_driver sink) (Suc k)) \<or>
          rc' \<in> {- EAGAIN, - EINTR} \<and> accepted t' = accepted (snk_driver sink) \<and>
            fits t' = fits (snk_driver sink) \<and> wpatience t' < wpatience (snk_driver sink) \<or>
          rc' = wfinal (snk_driver sink) \<and> \<not> fits (snk_driver sink) 1 \<and>
            accepted t' = accepted (snk_driver sink) \<and> fits t' = fits (snk_driver sink)"
        using put_octet_law [OF jn(4), of x] by blast
      then have "rc' = 1 \<and> fits (snk_driver sink) 1 \<and> accepted t' = accepted (snk_driver sink) @ [x] \<and>
          (\<forall>k. fits t' k = fits (snk_driver sink) (Suc k)) \<or>
        rc' < 0 \<and> accepted t' = accepted (snk_driver sink) \<and> fits t' = fits (snk_driver sink)"
        using wfinal_law [OF jn(4)] by (auto simp: errno_defs)
      with o(1,2,3) that show thesis
        by blast
    qed
    let ?snk = "sink\<lparr>snk_driver := t'\<rparr>"
    have run: "sts_cbc source sink = Some (rc', ?src, ?snk)"
      using one x w(1) jn(5) by (simp add: sts_cbc_def get sink_put_octet_write)
    have drop: "stream s' = drop 1 data" "take 1 data = [x]"
      using r(4) x by simp_all
    from w(4) show ?thesis
    proof
      assume "rc' = 1 \<and> fits (snk_driver sink) 1 \<and> accepted t' = accepted (snk_driver sink) @ [x] \<and>
          (\<forall>k. fits t' k = fits (snk_driver sink) (Suc k))"
      moreover from this have "moved source sink 1 1 ?src ?snk"
        using r(2,3) w(2,3) jn drop assms(2) by (simp add: moved_def joined_def)
      ultimately show ?thesis
        using run r(4) x
        by (intro exI [of _ rc'] exI [of _ ?src] exI [of _ ?snk] exI [of _ 1]) simp
    next
      assume "rc' < 0 \<and> accepted t' = accepted (snk_driver sink) \<and> fits t' = fits (snk_driver sink)"
      moreover from this have "moved source sink 1 0 ?src ?snk"
        using r(2,3) w(2,3) jn drop assms(2) by (simp add: moved_def joined_def)
      ultimately show ?thesis
        using run r(4) x
        by (intro exI [of _ rc'] exI [of _ ?src] exI [of _ ?snk] exI [of _ 1] exI [of _ 0]) simp
    qed
  qed
qed

lemma n_cbc_loop_ok:
  assumes "joined source sink" "n \<le> SSIZE_MAX" "m \<le> n"
  shows "\<exists>rc src snk j k. sts_n_cbc_loop source sink n m = Some (rc, src, snk) \<and>
     moved source sink j k src snk \<and> k \<le> j \<and> j \<le> Suc k \<and> j \<le> length (stream (src_driver source)) \<and>
     (rc = int n \<and> j = m \<and> k = m \<or> rc < 0 \<and> k < m)"
  using assms
proof (induction m arbitrary: source sink)
  case 0
  then have "moved source sink 0 0 source sink"
    by (simp add: moved_def)
  with 0 show ?case
    by auto
next
  case (Suc m)
  obtain rc src snk j k where s: "sts_cbc source sink = Some (rc, src, snk)" "moved source sink j k src snk"
     "k \<le> j" "j \<le> 1" "j \<le> length (stream (src_driver source))" "rc = 1 \<and> k = 1 \<or> rc < 0 \<and> k = 0"
    using cbc_ok [OF Suc.prems(1) refl] by blast
  from s(6) show ?case
  proof
    assume stop: "rc < 0 \<and> k = 0"
    then have "sts_n_cbc_loop source sink n (Suc m) = Some (rc, src, snk)"
      using s(1) by simp
    then show ?thesis
      using s(2-4,5) stop
      by (intro exI [of _ rc] exI [of _ src] exI [of _ snk] exI [of _ j] exI [of _ k]) simp
  next
    assume one: "rc = 1 \<and> k = 1"
    then have j: "j = 1"
      using s by simp
    have jn: "joined src snk"
      using s(2) by (simp add: moved_def)
    obtain rc' src' snk' j' k' where ih: "sts_n_cbc_loop src snk n m = Some (rc', src', snk')"
       "moved src snk j' k' src' snk'" "k' \<le> j'" "j' \<le> Suc k'" "j' \<le> length (stream (src_driver src))"
       "rc' = int n \<and> j' = m \<and> k' = m \<or> rc' < 0 \<and> k' < m"
      using Suc.IH [OF jn] Suc.prems by auto
    have "sts_n_cbc_loop source sink n (Suc m) = Some (rc', src', snk')"
      using s(1) one ih(1) by simp
    moreover have "moved source sink (1 + j') (1 + k') src' snk'"
      using moved_trans [OF _ _ ih(2), of source sink 1] s j one by auto
    moreover have "1 + j' \<le> length (stream (src_driver source))"
      using s(2,5) ih(5) j by (simp add: moved_def)
    moreover have "rc' = int n \<and> 1 + j' = Suc m \<and> 1 + k' = Suc m \<or> rc' < 0 \<and> 1 + k' < Suc m"
      using ih(6) by auto
    moreover have "1 + k' \<le> 1 + j'" "1 + j' \<le> Suc (1 + k')"
      using ih(3,4) by simp_all
    ultimately show ?thesis
      by blast
  qed
qed

text \<open>A full sink: every octet taken from the source is lost.\<close>

lemma cbc_full:
  assumes "joined source sink" "data = stream (src_driver source)" "\<not> fits (snk_driver sink) 1"
    and "\<And>s. patience s = 0" "\<And>t. wpatience t = 0"
  shows "\<exists>src snk. sts_cbc source sink =
       Some (if data = [] then final (src_driver source) else wfinal (snk_driver sink), src, snk) \<and>
     moved source sink (min 1 (length data)) 0 src snk"
proof -
  have jn: "rinv (src_driver source)" "src_fn source = fn" "winv (snk_driver sink)" "snk_fn sink = wfn"
    using assms(1) by (simp_all add: joined_def)
  obtain rc xs s' where r: "octet_read fn (src_driver source) = Some (rc, xs, s')" "rinv s'"
     "final s' = final (src_driver source)" "data = xs @ stream s'"
     "rc = 1 \<and> length xs = 1 \<or> rc = final (src_driver source) \<and> data = []"
    using octet_law [OF jn(1)] assms(2,4) by auto
  let ?src = "source\<lparr>src_driver := s'\<rparr>"
  have get: "source_get_octet source = Some (rc, xs, ?src)"
    using r(1,4,5) jn(2) by (auto simp: source_get_octet_read)
  show ?thesis
  proof (cases "data = []")
    case True
    then have "rc = final (src_driver source)" "rc < 0"
      using r(4,5) final_law [OF jn(1)] by auto
    then have "sts_cbc source sink = Some (rc, ?src, sink)"
      by (simp add: sts_cbc_def get)
    moreover have "moved source sink 0 0 ?src sink"
      using r assms(1,2) True by (simp add: moved_def joined_def)
    ultimately show ?thesis
      using True \<open>rc = final _\<close> by simp
  next
    case False
    then obtain x where x: "rc = 1" "xs = [x]"
      using r(5) by (auto simp: length_Suc_conv)
    obtain t' where w: "octet_write wfn (snk_driver sink) x = Some (wfinal (snk_driver sink), t')" "winv t'"
       "wfinal t' = wfinal (snk_driver sink)" "accepted t' = accepted (snk_driver sink)"
       "fits t' = fits (snk_driver sink)"
    proof -
      obtain rc' t' where o: "octet_write wfn (snk_driver sink) x = Some (rc', t')" "winv t'"
         "wfinal t' = wfinal (snk_driver sink)"
         "rc' = 1 \<and> fits (snk_driver sink) 1 \<and> accepted t' = accepted (snk_driver sink) @ [x] \<and>
            (\<forall>k. fits t' k = fits (snk_driver sink) (Suc k)) \<or>
          rc' \<in> {- EAGAIN, - EINTR} \<and> accepted t' = accepted (snk_driver sink) \<and>
            fits t' = fits (snk_driver sink) \<and> wpatience t' < wpatience (snk_driver sink) \<or>
          rc' = wfinal (snk_driver sink) \<and> \<not> fits (snk_driver sink) 1 \<and>
            accepted t' = accepted (snk_driver sink) \<and> fits t' = fits (snk_driver sink)"
        using put_octet_law [OF jn(3), of x] by blast
      then show thesis
        using that assms(3,5) by auto
    qed
    have "sts_cbc source sink = Some (wfinal (snk_driver sink), ?src, sink\<lparr>snk_driver := t'\<rparr>)"
      using x w(1) jn(4) by (simp add: sts_cbc_def get sink_put_octet_write)
    moreover have "moved source sink 1 0 ?src (sink\<lparr>snk_driver := t'\<rparr>)"
      using r w x assms(1,2) by (simp add: moved_def joined_def)
    ultimately show ?thesis
      using False r(4) x by (intro exI [of _ ?src] exI [of _ "sink\<lparr>snk_driver := t'\<rparr>"]) (simp add: min_def)
  qed
qed

lemma moved_lost:
  assumes "moved source sink a 0 source1 sink1" "moved source1 sink1 b 0 source2 sink2"
  shows "moved source sink (b + a) 0 source2 sink2"
  using assms by (simp add: moved_def)

text \<open>
  Without an exposed buffer on either side, a transfer of an exact number of octets into a full
  sink is tried again as long as the source has data.
\<close>

lemma n_full_loop:
  assumes "joined source sink" "\<not> fits (snk_driver sink) 1"
    and "\<And>s. patience s = 0" "\<And>t. wpatience t = 0"
    and "wfinal (snk_driver sink) = - ENOMEM" "final (src_driver source) \<noteq> - ENOMEM"
    and "\<not> source_has_buffer_ext source" "\<not> sink_has_buffer_ext sink" "0 < rest"
  shows "\<exists>src snk. sts_n_loop False source sink n rest = Some (final (src_driver source), src, snk) \<and>
     moved source sink (length (stream (src_driver source))) 0 src snk"
  using assms
proof (induction "length (stream (src_driver source))" arbitrary: source sink rule: less_induct)
  case less
  obtain k where k: "rest = Suc k"
    using less.prems(9) by (cases rest) auto
  let ?data = "stream (src_driver source)"
  define rc where "rc = (if ?data = [] then final (src_driver source) else wfinal (snk_driver sink))"
  obtain src snk where c: "sts_cbc source sink = Some (rc, src, snk)"
     "moved source sink (min 1 (length ?data)) 0 src snk"
    using cbc_full [OF less.prems(1) refl less.prems(2,3,4)] unfolding rc_def by blast
  have neg: "rc < 0" "final (src_driver source) < 0"
    using final_law less.prems(1,5) by (auto simp: rc_def joined_def errno_defs)
  have "sts_atmost source sink rest = Some (rc, src, snk)"
    using less.prems(7,8) k c(1) neg by (simp add: sts_atmost_def sts_atmost_cbc_def)
  note step = sts_n_loop.simps [of False source sink n rest] this
  show ?case
  proof (cases "?data = []")
    case True
    then have "sts_n_loop False source sink n rest = Some (final (src_driver source), src, snk)"
      using step neg less.prems(6) k by (simp add: rc_def)
    with c True show ?thesis
      by simp
  next
    case False
    have ext: "\<not> source_has_buffer_ext src" "\<not> sink_has_buffer_ext snk"
      using c(1) less.prems(7,8)
      by (auto simp: sts_cbc_def source_get_octet_def sink_put_octet_def source_has_buffer_ext_def
            sink_has_buffer_ext_def split: bind_splits if_splits)
    have m: "joined src snk" "stream (src_driver src) = drop (min 1 (length ?data)) ?data"
      "final (src_driver src) = final (src_driver source)" "wfinal (snk_driver snk) = wfinal (snk_driver sink)"
      "\<not> fits (snk_driver snk) 1"
      using c(2) less.prems(2) by (simp_all add: moved_def)
    have len: "Suc (length (stream (src_driver src))) = length ?data"
      using m(2) False by (cases ?data) simp_all
    obtain src' snk' where ih: "sts_n_loop False src snk n rest = Some (final (src_driver src), src', snk')"
       "moved src snk (length (stream (src_driver src))) 0 src' snk'"
      using less.hyps [OF _ m(1) m(5) less.prems(3,4) _ _ ext less.prems(9)] m(3,4) less.prems(5,6) len by auto
    have "sts_n_loop False source sink n rest = Some (final (src_driver source), src', snk')"
      using step False ih(1) m(3) less.prems(5) k ext by (simp add: rc_def channel_has_buffer_ext_def)
    moreover have "moved source sink (length ?data) 0 src' snk'"
    proof -
      have "min 1 (length ?data) = 1"
        using False by (cases ?data) simp_all
      then show ?thesis
        using moved_lost [OF c(2) ih(2)] len by simp
    qed
    ultimately show ?thesis
      by blast
  qed
qed

end

text \<open>A channel whose drivers never ask to be called again, and whose sink takes less when it takes more.\<close>

locale steady_channel = channel +
  assumes steady: "patience s = 0" "wpatience t = 0"
    and fits_less: "winv t \<Longrightarrow> fits t k \<Longrightarrow> j \<le> k \<Longrightarrow> fits t j"
begin

lemma put_octet_fits:
  assumes "joined source sink" "fits (snk_driver sink) 1"
  shows "\<exists>snk. sink_put_octet sink x = Some (1, snk) \<and> joined source snk \<and>
     wfinal (snk_driver snk) = wfinal (snk_driver sink) \<and>
     accepted (snk_driver snk) = accepted (snk_driver sink) @ [x] \<and>
     (\<forall>k. fits (snk_driver snk) k = fits (snk_driver sink) (Suc k))"
proof -
  have "winv (snk_driver sink)" "snk_fn sink = wfn"
    using assms(1) by (simp_all add: joined_def)
  then obtain t' where "octet_write wfn (snk_driver sink) x = Some (1, t')" "winv t'"
     "wfinal t' = wfinal (snk_driver sink)" "accepted t' = accepted (snk_driver sink) @ [x]"
     "\<forall>k. fits t' k = fits (snk_driver sink) (Suc k)"
    using put_octet_law [of "snk_driver sink" x] assms(2) steady by auto
  then show ?thesis
    using assms(1) by (simp add: sink_put_octet_write joined_def)
qed

lemma put_chunk_fits:
  assumes "joined source sink" "fits (snk_driver sink) n" "off + n \<le> length buf" "length buf \<le> SSIZE_MAX"
  shows "\<exists>snk. sink_put_chunk sink buf off n = Some (int n, snk) \<and> joined source snk \<and>
     wfinal (snk_driver snk) = wfinal (snk_driver sink) \<and>
     accepted (snk_driver snk) = accepted (snk_driver sink) @ take n (drop off buf) \<and>
     (\<forall>k. fits (snk_driver snk) k = fits (snk_driver sink) (n + k))"
proof -
  have s: "winv (snk_driver sink)" "snk_fn sink = wfn" "plain_retry (snk_retry sink)"
    using assms(1) by (simp_all add: joined_def)
  obtain rc k t' where "sink_put_chunk sink buf off n = Some (rc, sink\<lparr>snk_driver := t'\<rparr>)" "winv t'"
    "wfinal t' = wfinal (snk_driver sink)" "k \<le> n"
    "accepted t' = accepted (snk_driver sink) @ take k (take n (drop off buf))"
    "\<forall>j. fits t' j = fits (snk_driver sink) (k + j)"
    "rc = int n \<and> k = n \<or> rc = wfinal (snk_driver sink) \<and> k < n \<and> \<not> fits (snk_driver sink) n"
    using put_chunk_ok [OF s assms(3,4) refl] by blast
  then show ?thesis
    using assms(1,2) by (auto simp: joined_def)
qed

lemma take_octet_some:
  assumes "joined source sink" "stream (src_driver source) = x # xs"
  shows "\<exists>src. source_get_octet source = Some (1, [x], src) \<and> joined src sink \<and>
     final (src_driver src) = final (src_driver source) \<and> stream (src_driver src) = xs"
proof -
  have s: "rinv (src_driver source)" "src_fn source = fn"
    using assms(1) by (simp_all add: joined_def)
  from get_octet_some [OF s steady(1) assms(2)] show ?thesis
    using assms(1) by (auto simp: joined_def)
qed

lemma take_octet_none:
  assumes "joined source sink" "stream (src_driver source) = []"
  shows "\<exists>src. source_get_octet source = Some (final (src_driver source), [], src) \<and> joined src sink \<and>
     final (src_driver src) = final (src_driver source) \<and> stream (src_driver src) = []"
proof -
  have s: "rinv (src_driver source)" "src_fn source = fn"
    using assms(1) by (simp_all add: joined_def)
  from get_octet_none [OF s steady(1) assms(2)] show ?thesis
    using assms(1) by (auto simp: joined_def)
qed

end

end
