(* ===== verification/Endpoint_Drivers.thy ===== *)
theory Endpoint_Drivers
  imports Endpoint_Core
begin

text \<open>
  The drivers the library ships: byte buffers and lists of them (\<^verbatim>\<open>src/endpoints/buffer.c\<close>), the
  trivial endpoints (\<^verbatim>\<open>src/endpoints/trivial.c\<close>), the instrumentable buffers of the test suite
  (\<^verbatim>\<open>src/endpoints/instrumentable.c\<close>), and the continuable sink with its block allocator
  (\<^verbatim>\<open>src/endpoints/continuable-sink.c\<close>, \<^verbatim>\<open>src/allocator.c\<close>). The interpretations show that the drivers
  keep the contracts of readers and writers, so that the facts about transfers apply to them.
\<close>

section \<open>Byte buffers\<close>

record ByteChunks =
  bc_chunks :: nat
  bc_active :: nat
  bc_chunk :: "ByteBuffer list"

definition read_from_buffer :: "ByteBuffer \<Rightarrow> nat \<Rightarrow> (int \<times> u8 list \<times> ByteBuffer) option" where
  "read_from_buffer b n = byte_buffer_consume_at_most b n"

function read_from_chunks :: "ByteChunks \<Rightarrow> nat \<Rightarrow> (int \<times> u8 list \<times> ByteChunks) option" where
  "read_from_chunks source n =
     (if bc_active source \<ge> bc_chunks source then Some (- ENODATA, [], source)
      else if bc_active source \<ge> length (bc_chunk source) then None
      else do {
        (rc, xs, b) \<leftarrow> byte_buffer_consume_at_most (bc_chunk source ! bc_active source) n;
        let source' = source\<lparr>bc_chunk := (bc_chunk source)[bc_active source := b]\<rparr>;
        if rc = - ENODATA then read_from_chunks (source'\<lparr>bc_active := bc_active source + 1\<rparr>) n
        else Some (rc, xs, source')
      })"
  by auto
termination
  by (relation "measure (\<lambda>(source, n). bc_chunks source - bc_active source)") auto

declare read_from_chunks.simps [simp del]

definition write_to_buffer :: "ByteBuffer \<Rightarrow> u8 list \<Rightarrow> (int \<times> ByteBuffer) option" where
  "write_to_buffer b data = do {
     (rc, b') \<leftarrow> byte_buffer_add b data (length data);
     Some (if rc < 0 then rc else to_ssize (length data), b')
   }"

definition source_from_buffer :: "ByteBuffer Source \<Rightarrow> ByteBuffer \<Rightarrow> ByteBuffer Source" where
  "source_from_buffer inst buffer = chunk_source_init inst read_from_buffer buffer"

definition source_from_chunks :: "ByteChunks Source \<Rightarrow> ByteChunks \<Rightarrow> ByteChunks Source" where
  "source_from_chunks inst chunks = chunk_source_init inst read_from_chunks chunks"

definition sink_to_buffer :: "ByteBuffer Sink \<Rightarrow> ByteBuffer \<Rightarrow> ByteBuffer Sink" where
  "sink_to_buffer inst buffer = chunk_sink_init inst write_to_buffer buffer"

section \<open>Trivial endpoints\<close>

definition run_source_zero :: "unit \<Rightarrow> nat \<Rightarrow> (int \<times> u8 list \<times> unit) option" where
  "run_source_zero driver n = Some (to_ssize n, replicate n 0, driver)"

definition run_sink_null :: "unit \<Rightarrow> u8 list \<Rightarrow> (int \<times> unit) option" where
  "run_sink_null driver data = Some (to_ssize (length data), driver)"

definition run_source_empty :: "unit \<Rightarrow> nat \<Rightarrow> (int \<times> u8 list \<times> unit) option" where
  "run_source_empty driver n = Some (- ENODATA, [], driver)"

definition source_empty :: "unit Source" where
  "source_empty = CHUNK_SOURCE_INIT run_source_empty ()"

definition source_zero :: "unit Source" where
  "source_zero = CHUNK_SOURCE_INIT run_source_zero ()"

definition sink_null :: "unit Sink" where
  "sink_null = CHUNK_SINK_INIT run_sink_null ()"

section \<open>Instrumentable buffers\<close>

record InstrumentableAccessStats =
  ias_bytes :: nat
  ias_accesses :: nat

record InstrumentableError =
  ie_flags :: u64
  ie_number :: int
  ie_at :: nat

record InstrumentableBuffer =
  ib_flags :: u64
  ib_rstat :: InstrumentableAccessStats
  ib_rerror :: InstrumentableError
  ib_wstat :: InstrumentableAccessStats
  ib_werror :: InstrumentableError
  ib_chunksize :: nat
  ib_buffer :: ByteBuffer

definition INSTRUMENTABLE_COMMON_ENABLE_TRACE :: nat where "INSTRUMENTABLE_COMMON_ENABLE_TRACE = 0"
definition INSTRUMENTABLE_UNTIL_FAILURE :: nat where "INSTRUMENTABLE_UNTIL_FAILURE = 0"
definition INSTRUMENTABLE_UNTIL_SUCCESS :: nat where "INSTRUMENTABLE_UNTIL_SUCCESS = 1"

definition instrumentable_reset_error :: "InstrumentableError \<Rightarrow> InstrumentableError" where
  "instrumentable_reset_error e = e\<lparr>ie_at := 0, ie_flags := 0, ie_number := 0\<rparr>"

definition instrumentable_reset_stats :: "InstrumentableAccessStats \<Rightarrow> InstrumentableAccessStats" where
  "instrumentable_reset_stats s = s\<lparr>ias_accesses := 0, ias_bytes := 0\<rparr>"

definition instrumentable_until_error_at :: "InstrumentableError \<Rightarrow> nat \<Rightarrow> int \<Rightarrow> InstrumentableError" where
  "instrumentable_until_error_at e offset n =
     e\<lparr>ie_flags := push_bit INSTRUMENTABLE_UNTIL_FAILURE 1, ie_at := offset, ie_number := n\<rparr>"

definition instrumentable_until_success_at :: "InstrumentableError \<Rightarrow> nat \<Rightarrow> int \<Rightarrow> InstrumentableError" where
  "instrumentable_until_success_at e offset n =
     e\<lparr>ie_flags := push_bit INSTRUMENTABLE_UNTIL_SUCCESS 1, ie_at := offset, ie_number := n\<rparr>"

definition instrumentable_set_trace :: "InstrumentableBuffer \<Rightarrow> bool \<Rightarrow> InstrumentableBuffer" where
  "instrumentable_set_trace b value = b\<lparr>ib_flags :=
     (if value then ib_flags b OR push_bit INSTRUMENTABLE_COMMON_ENABLE_TRACE 1
      else ib_flags b AND NOT (push_bit INSTRUMENTABLE_COMMON_ENABLE_TRACE 1))\<rparr>"

definition instrumentable_chunksize :: "InstrumentableBuffer \<Rightarrow> nat \<Rightarrow> InstrumentableBuffer" where
  "instrumentable_chunksize b n = b\<lparr>ib_chunksize := n\<rparr>"

definition init_ibuf :: "InstrumentableBuffer \<Rightarrow> InstrumentableBuffer" where
  "init_ibuf b = b\<lparr>ib_chunksize := 0, ib_flags := 0,
     ib_rerror := instrumentable_reset_error (ib_rerror b),
     ib_rstat := instrumentable_reset_stats (ib_rstat b),
     ib_werror := instrumentable_reset_error (ib_werror b),
     ib_wstat := instrumentable_reset_stats (ib_wstat b),
     ib_buffer := byte_buffer_reset (ib_buffer b)\<rparr>"

definition until_success :: "InstrumentableError \<Rightarrow> nat \<Rightarrow> bool" where
  "until_success e accesses \<longleftrightarrow> bit (ie_flags e) INSTRUMENTABLE_UNTIL_SUCCESS \<and> accesses \<le> ie_at e"

definition until_failure :: "InstrumentableError \<Rightarrow> nat \<Rightarrow> bool" where
  "until_failure e pos \<longleftrightarrow> bit (ie_flags e) INSTRUMENTABLE_UNTIL_FAILURE \<and> pos \<ge> ie_at e"

text \<open>Tracing prints to the standard output; of the octets it prints only the reads matter here.\<close>

definition run_instrumentable_octet_source ::
    "InstrumentableBuffer \<Rightarrow> (int \<times> u8 list \<times> InstrumentableBuffer) option" where
  "run_instrumentable_octet_source drv = (
     let b = drv\<lparr>ib_rstat := (ib_rstat drv)\<lparr>ias_accesses := sz_add (ias_accesses (ib_rstat drv)) 1\<rparr>\<rparr>;
         err = ib_rerror b; stat = ib_rstat b; bb = ib_buffer b in
     if until_success err (ias_accesses stat) then Some (ie_number err, [], b)
     else if until_failure err (bb_offset bb) then Some (ie_number err, [], b)
     else if bb_offset bb \<ge> bb_used bb then Some (- ENODATA, [], b)
     else do {
       xs \<leftarrow> mem_read (bb_mem bb) (bb_offset bb) 1;
       Some (1, xs, b\<lparr>ib_buffer := bb\<lparr>bb_offset := sz_add (bb_offset bb) 1\<rparr>,
                     ib_rstat := stat\<lparr>ias_bytes := sz_add (ias_bytes stat) 1\<rparr>\<rparr>)
     })"

definition run_instrumentable_octet_sink ::
    "InstrumentableBuffer \<Rightarrow> u8 \<Rightarrow> (int \<times> InstrumentableBuffer) option" where
  "run_instrumentable_octet_sink drv data = (
     let b = drv\<lparr>ib_wstat := (ib_wstat drv)\<lparr>ias_accesses := sz_add (ias_accesses (ib_wstat drv)) 1\<rparr>\<rparr>;
         err = ib_werror b; stat = ib_wstat b; bb = ib_buffer b in
     if until_success err (ias_accesses stat) then Some (ie_number err, b)
     else if until_failure err (bb_used bb) then Some (ie_number err, b)
     else if bb_used bb = bb_size bb then Some (- ENOMEM, b)
     else do {
       m \<leftarrow> mem_write (bb_mem bb) (bb_used bb) [data];
       Some (1, b\<lparr>ib_buffer := (bb_store bb m)\<lparr>bb_used := sz_add (bb_used bb) 1\<rparr>,
                 ib_wstat := stat\<lparr>ias_bytes := sz_add (ias_bytes stat) 1\<rparr>\<rparr>)
     })"

definition run_instrumentable_chunk_source ::
    "InstrumentableBuffer \<Rightarrow> nat \<Rightarrow> (int \<times> u8 list \<times> InstrumentableBuffer) option" where
  "run_instrumentable_chunk_source drv n0 = (
     let b = drv\<lparr>ib_rstat := (ib_rstat drv)\<lparr>ias_accesses := sz_add (ias_accesses (ib_rstat drv)) 1\<rparr>\<rparr>;
         err = ib_rerror b; bb = ib_buffer b;
         n = (if n0 > ib_chunksize b then ib_chunksize b else n0) in
     if until_success err (ias_accesses (ib_rstat b)) then Some (ie_number err, [], b)
     else if until_failure err (bb_used bb) then Some (ie_number err, [], b)
     else do {
       _ \<leftarrow> (if bit (ib_flags b) INSTRUMENTABLE_COMMON_ENABLE_TRACE \<and> n > 0
            then mem_read (bb_mem bb) 0 1 else Some []);
       (rc, xs, bb') \<leftarrow> byte_buffer_consume_at_most bb n;
       Some (rc, xs, b\<lparr>ib_buffer := bb'\<rparr>)
     })"

definition run_instrumentable_chunk_sink ::
    "InstrumentableBuffer \<Rightarrow> u8 list \<Rightarrow> (int \<times> InstrumentableBuffer) option" where
  "run_instrumentable_chunk_sink drv data = (
     let b = drv\<lparr>ib_wstat := (ib_wstat drv)\<lparr>ias_accesses := sz_add (ias_accesses (ib_wstat drv)) 1\<rparr>\<rparr>;
         err = ib_werror b; bb = ib_buffer b;
         n = (if length data > ib_chunksize b then ib_chunksize b else length data) in
     if until_success err (ias_accesses (ib_wstat b)) then Some (ie_number err, b)
     else if until_failure err (bb_used bb) then Some (ie_number err, b)
     else do {
       (rc, bb') \<leftarrow> byte_buffer_add bb data n;
       Some (if rc < 0 then rc else to_ssize n, b\<lparr>ib_buffer := bb'\<rparr>)
     })"

datatype DataKind = DATA_KIND_OCTET | DATA_KIND_CHUNK

definition instrumentable_source ::
    "DataKind \<Rightarrow> InstrumentableBuffer Source \<Rightarrow> InstrumentableBuffer \<Rightarrow> InstrumentableBuffer Source" where
  "instrumentable_source kind inst buffer = (case kind of
      DATA_KIND_OCTET \<Rightarrow> octet_source_init inst run_instrumentable_octet_source (init_ibuf buffer)
    | DATA_KIND_CHUNK \<Rightarrow> chunk_source_init inst run_instrumentable_chunk_source (init_ibuf buffer))"

definition instrumentable_sink ::
    "DataKind \<Rightarrow> InstrumentableBuffer Sink \<Rightarrow> InstrumentableBuffer \<Rightarrow> InstrumentableBuffer Sink" where
  "instrumentable_sink kind inst buffer = (case kind of
      DATA_KIND_OCTET \<Rightarrow> octet_sink_init inst run_instrumentable_octet_sink (init_ibuf buffer)
    | DATA_KIND_CHUNK \<Rightarrow> chunk_sink_init inst run_instrumentable_chunk_sink (init_ibuf buffer))"

section \<open>Block allocators and continuable sinks\<close>

text \<open>
  An allocator hands out a fresh memory object or none. The heap of the C library is the function
  \<open>malloc\<close> on the state of the allocator.
\<close>

datatype 'd alloc_fn =
    GenericAlloc "'d \<Rightarrow> nat \<Rightarrow> int \<times> u8 list option \<times> 'd"
  | SlabAlloc "'d \<Rightarrow> int \<times> u8 list option \<times> 'd"

record 'd BlockAllocator =
  ba_blocksize :: nat
  ba_driver :: 'd
  ba_alloc :: "'d alloc_fn"
  ba_free :: "'d \<Rightarrow> u8 list option \<Rightarrow> 'd"

definition ufw_malloc ::
    "('d \<Rightarrow> nat \<Rightarrow> u8 list option \<times> 'd) \<Rightarrow> 'd \<Rightarrow> nat \<Rightarrow> int \<times> u8 list option \<times> 'd" where
  "ufw_malloc malloc heap n =
     (let (m, heap') = malloc heap n in (if m = None then - ENOMEM else 0, m, heap'))"

definition ufw_mfree :: "('d \<Rightarrow> u8 list option \<Rightarrow> 'd) \<Rightarrow> 'd \<Rightarrow> u8 list option \<Rightarrow> 'd" where
  "ufw_mfree free heap m = free heap m"

definition block_alloc :: "'d BlockAllocator \<Rightarrow> int \<times> u8 list option \<times> 'd BlockAllocator" where
  "block_alloc ba =
     (let (rc, m, d) = (case ba_alloc ba of
          GenericAlloc f \<Rightarrow> f (ba_driver ba) (ba_blocksize ba)
        | SlabAlloc f \<Rightarrow> f (ba_driver ba))
      in (rc, m, ba\<lparr>ba_driver := d\<rparr>))"

definition block_free :: "'d BlockAllocator \<Rightarrow> u8 list option \<Rightarrow> 'd BlockAllocator" where
  "block_free ba m = ba\<lparr>ba_driver := ba_free ba (ba_driver ba) m\<rparr>"

record 'd ContinuableSink =
  cs_alloc :: "'d BlockAllocator option"
  cs_buffer :: ByteBuffer
  cs_fallback :: "ByteBuffer option"
  cs_postalloc :: "(ByteBuffer \<Rightarrow> ByteBuffer) option"
  cs_error_id :: int
  cs_error_datacount :: nat

definition cs_add :: "'d ContinuableSink \<Rightarrow> u8 list \<Rightarrow> nat \<Rightarrow> (int \<times> 'd ContinuableSink) option" where
  "cs_add cs data n =
     (let main = (bb_data (cs_buffer cs) \<noteq> None) in
      case (if main then Some (cs_buffer cs) else cs_fallback cs) of
        None \<Rightarrow> Some (- ENOMEM, cs)
      | Some b \<Rightarrow> do {
          let rest = byte_buffer_rest b;
          let tosave = (if n < rest then n else rest);
          (_, b') \<leftarrow> byte_buffer_add b data tosave;
          Some (if tosave < n then - ENOMEM else 0,
                if main then cs\<lparr>cs_buffer := b'\<rparr> else cs\<lparr>cs_fallback := Some b'\<rparr>)
        })"

text \<open>The first allocation: \<open>Inl\<close> when it failed and the call is over, \<open>Inr\<close> to go on.\<close>

definition cs_allocate ::
    "'d ContinuableSink \<Rightarrow> u8 list \<Rightarrow> nat \<Rightarrow> ('d ContinuableSink + 'd ContinuableSink) option" where
  "cs_allocate cs data n = (case cs_alloc cs of
      None \<Rightarrow> Some (Inr cs)
    | Some ba \<Rightarrow>
        if bb_data (cs_buffer cs) \<noteq> None then Some (Inr cs)
        else (let (rc, m, ba') = block_alloc ba; cs1 = cs\<lparr>cs_alloc := Some ba'\<rparr> in
          if rc < 0 then do {
            (_, cs2) \<leftarrow> cs_add (cs1\<lparr>cs_error_id := EBUSY, cs_error_datacount := n,
                                   cs_buffer := (cs_buffer cs1)\<lparr>bb_data := None\<rparr>\<rparr>) data n;
            Some (Inl cs2)
          } else (let b = (cs_buffer cs1)\<lparr>bb_data := m, bb_size := ba_blocksize ba'\<rparr> in
            Some (Inr (cs1\<lparr>cs_buffer := (case cs_postalloc cs1 of None \<Rightarrow> b | Some f \<Rightarrow> f b)\<rparr>)))))"

definition run_continuable_sink ::
    "'d ContinuableSink \<Rightarrow> u8 list \<Rightarrow> (int \<times> 'd ContinuableSink) option" where
  "run_continuable_sink cs data = (
     let n = length data in
     if cs_error_id cs \<noteq> 0 then do {
       (_, cs1) \<leftarrow> cs_add cs data n;
       Some (to_ssize n, cs1\<lparr>cs_error_datacount := sz_add (cs_error_datacount cs1) n\<rparr>)
     }
     else if Option.is_none (cs_alloc cs) \<and> Option.is_none (cs_fallback cs) then
       Some (to_ssize n, cs\<lparr>cs_error_id := ENOMEM,
                          cs_error_datacount := sz_add (cs_error_datacount cs) n\<rparr>)
     else do {
       r \<leftarrow> cs_allocate cs data n;
       (case r of
          Inl cs1 \<Rightarrow> Some (to_ssize n, cs1)
        | Inr cs1 \<Rightarrow> do {
            let m = (if bb_data (cs_buffer cs1) \<noteq> None then bb_used (cs_buffer cs1)
                     else (case cs_fallback cs1 of Some fb \<Rightarrow> bb_used fb | None \<Rightarrow> 0));
            (rc, cs2) \<leftarrow> cs_add cs1 data n;
            Some (to_ssize n,
                  if rc < 0 then cs2\<lparr>cs_error_id := ENOMEM, cs_error_datacount := sz_add m n\<rparr> else cs2)
          })
     })"

definition continuable_sink_init ::
    "'d ContinuableSink Sink \<Rightarrow> 'd ContinuableSink \<Rightarrow> 'd ContinuableSink Sink" where
  "continuable_sink_init inst driver =
     chunk_sink_init inst run_continuable_sink
       (driver\<lparr>cs_buffer := \<lparr>bb_data = None, bb_size = 0, bb_used = 0, bb_offset = 0\<rparr>,
              cs_error_id := 0, cs_error_datacount := 0\<rparr>)"

section \<open>The buffer drivers keep the contracts\<close>

lemma enodata_final: "- ENODATA < 0 \<and> - (2 ^ 31) \<le> - ENODATA \<and> - ENODATA \<notin> {- EAGAIN, - EINTR}"
  by (simp add: errno_defs)

lemma enomem_final: "- ENOMEM < 0 \<and> - (2 ^ 31) \<le> - ENOMEM \<and> - ENOMEM \<notin> {- EAGAIN, - EINTR}"
  by (simp add: errno_defs)

interpretation bufsrc: chunk_reader read_from_buffer bb_ready bb_pending "\<lambda>_. - ENODATA" "\<lambda>_. 0"
proof unfold_locales
  fix b :: ByteBuffer and n :: nat
  assume b: "bb_ready b" and n: "0 < n" "n \<le> SSIZE_MAX"
  show "\<exists>rc xs b'. read_from_buffer b n = Some (rc, xs, b') \<and> bb_ready b' \<and> - ENODATA = - ENODATA \<and>
      length xs \<le> n \<and> bb_pending b = xs @ bb_pending b' \<and>
      (0 < rc \<and> rc = int (length xs) \<or>
       rc \<in> {- EAGAIN, - EINTR} \<and> xs = [] \<and> (0 :: nat) < 0 \<or> rc = - ENODATA \<and> bb_pending b = [])"
  proof (cases "bb_pending b = []")
    case True
    then show ?thesis
      using b byte_buffer_consume_at_most_empty [of b n] by (auto simp: bb_ready_def read_from_buffer_def)
  next
    case False
    then show ?thesis
      using b n byte_buffer_consume_at_most_some [of b n] by (auto simp: bb_ready_def read_from_buffer_def)
  qed
qed (rule enodata_final)

interpretation bufsnk: chunk_writer write_to_buffer bb_ready bb_pending
  "\<lambda>b k. k \<le> byte_buffer_avail b" "\<lambda>_. - ENOMEM" "\<lambda>_. 0"
proof unfold_locales
  fix b :: ByteBuffer and xs :: "u8 list"
  assume b: "bb_ready b" and xs: "xs \<noteq> []" "length xs \<le> SSIZE_MAX"
  show "\<exists>rc b'. write_to_buffer b xs = Some (rc, b') \<and> bb_ready b' \<and> - ENOMEM = - ENOMEM \<and>
      (0 < rc \<and> rc \<le> int (length xs) \<and> nat rc \<le> byte_buffer_avail b \<and> bb_pending b' = bb_pending b @ take (nat rc) xs \<and>
         (\<forall>k. (k \<le> byte_buffer_avail b') = (nat rc + k \<le> byte_buffer_avail b)) \<or>
       rc \<in> {- EAGAIN, - EINTR} \<and> bb_pending b' = bb_pending b \<and>
         (\<lambda>k. k \<le> byte_buffer_avail b') = (\<lambda>k. k \<le> byte_buffer_avail b) \<and> (0 :: nat) < 0 \<or>
       rc = - ENOMEM \<and> \<not> length xs \<le> byte_buffer_avail b \<and> bb_pending b' = bb_pending b \<and>
         (\<lambda>k. k \<le> byte_buffer_avail b') = (\<lambda>k. k \<le> byte_buffer_avail b))"
  proof (cases "length xs \<le> byte_buffer_avail b")
    case True
    obtain b' where b': "byte_buffer_add b xs (length xs) = Some (0, b')" "bb_inv b'"
       "bb_pending b' = bb_pending b @ xs" "bb_used b' = bb_used b + length xs" "bb_size b' = bb_size b"
       "bb_data b' \<noteq> None"
      using byte_buffer_add_fits [of b xs] b True by (auto simp: bb_ready_def)
    have "byte_buffer_avail b' = byte_buffer_avail b - length xs"
      using b' b bb_inv_marks [of b] bb_inv_marks [of b'] by (simp add: bb_ready_def)
    with b' True xs show ?thesis
      by (auto simp: write_to_buffer_def bb_ready_def)
  next
    case False
    then show ?thesis
      using b xs byte_buffer_add_full [of b "length xs"]
      by (simp add: write_to_buffer_def bb_ready_def errno_defs SSIZE_MAX_def)
  qed
qed (rule enomem_final)

section \<open>Lists of buffers\<close>

definition chunks_inv :: "ByteChunks \<Rightarrow> bool" where
  "chunks_inv c \<longleftrightarrow> bc_chunks c \<le> length (bc_chunk c) \<and> (\<forall>b \<in> set (take (bc_chunks c) (bc_chunk c)). bb_ready b)"

definition chunks_pending :: "ByteChunks \<Rightarrow> u8 list" where
  "chunks_pending c = concat (map bb_pending (drop (bc_active c) (take (bc_chunks c) (bc_chunk c))))"

lemma read_from_chunks_ok:
  assumes "chunks_inv c" "0 < n"
  shows "\<exists>rc xs c'. read_from_chunks c n = Some (rc, xs, c') \<and> chunks_inv c' \<and> length xs \<le> n \<and>
     chunks_pending c = xs @ chunks_pending c' \<and>
     (0 < rc \<and> rc = int (length xs) \<or> rc = - ENODATA \<and> chunks_pending c = [])"
  using assms
proof (induction c n rule: read_from_chunks.induct)
  case (1 c n)
  let ?i = "bc_active c" and ?bs = "take (bc_chunks c) (bc_chunk c)"
  show ?case
  proof (cases "?i < bc_chunks c")
    case False
    then show ?thesis
      using "1.prems" by (subst read_from_chunks.simps) (auto simp: chunks_inv_def chunks_pending_def)
  next
    case True
    let ?b = "bc_chunk c ! ?i"
    have i: "?i < length ?bs" "?bs ! ?i = ?b" "\<not> bc_chunks c \<le> ?i" "\<not> length (bc_chunk c) \<le> ?i"
      using "1.prems" True by (auto simp: chunks_inv_def)
    have b: "bb_ready ?b"
      using "1.prems" i nth_mem [OF i(1)] by (auto simp: chunks_inv_def)
    have split: "chunks_pending c = bb_pending ?b @ concat (map bb_pending (drop (Suc ?i) ?bs))"
      using i Cons_nth_drop_Suc [OF i(1)] by (metis chunks_pending_def list.map(2) concat.simps(2))
    show ?thesis
    proof (cases "bb_pending ?b = []")
      case empty: True
      let ?c = "c\<lparr>bc_active := Suc ?i\<rparr>"
      have rd: "byte_buffer_consume_at_most ?b n = Some (- ENODATA, [], ?b)"
        using byte_buffer_consume_at_most_empty [of ?b n] b empty by (simp add: bb_ready_def)
      have "read_from_chunks c n = read_from_chunks ?c n"
        using rd i by (subst read_from_chunks.simps) simp
      moreover have "chunks_inv ?c" "chunks_pending ?c = chunks_pending c"
        using "1.prems" split empty by (auto simp: chunks_inv_def chunks_pending_def)
      ultimately show ?thesis
        using "1.IH" [of "(- ENODATA, [], ?b)" "- ENODATA" "([], ?b)" "[]" ?b c] i rd "1.prems" by simp
    next
      case False
      obtain b' where b': "byte_buffer_consume_at_most ?b n =
             Some (int (min n (length (bb_pending ?b))), take n (bb_pending ?b), b')"
          "bb_inv b'" "bb_pending b' = drop n (bb_pending ?b)" "bb_data b' = bb_data ?b"
        using byte_buffer_consume_at_most_some [of ?b n] b False by (auto simp: bb_ready_def)
      let ?c = "c\<lparr>bc_chunk := (bc_chunk c)[?i := b']\<rparr>"
      have "int (min n (length (bb_pending ?b))) \<noteq> - ENODATA"
        by (simp add: errno_defs)
      then have "read_from_chunks c n = Some (int (min n (length (bb_pending ?b))), take n (bb_pending ?b), ?c)"
        using b'(1) i by (subst read_from_chunks.simps) simp
      moreover have "chunks_inv ?c"
        using "1.prems" b b'
        by (auto simp: chunks_inv_def bb_ready_def take_update_swap dest!: set_update_subset_insert [THEN subsetD])
      moreover have "chunks_pending ?c = drop n (bb_pending ?b) @ concat (map bb_pending (drop (Suc ?i) ?bs))"
      proof -
        have "drop ?i (?bs[?i := b']) = b' # drop (Suc ?i) ?bs"
          using i(1) by (simp add: drop_update_swap upd_conv_take_nth_drop flip: Cons_nth_drop_Suc)
        then show ?thesis
          using b'(3) by (simp add: chunks_pending_def take_update_swap)
      qed
      ultimately show ?thesis
        using split False "1.prems" by (auto simp: min_def)
    qed
  qed
qed

interpretation chunksrc: chunk_reader read_from_chunks chunks_inv chunks_pending "\<lambda>_. - ENODATA" "\<lambda>_. 0"
proof unfold_locales
  fix c :: ByteChunks and n :: nat
  assume "chunks_inv c" "0 < n"
  from read_from_chunks_ok [OF this]
  show "\<exists>rc xs c'. read_from_chunks c n = Some (rc, xs, c') \<and> chunks_inv c' \<and> - ENODATA = - ENODATA \<and>
      length xs \<le> n \<and> chunks_pending c = xs @ chunks_pending c' \<and>
      (0 < rc \<and> rc = int (length xs) \<or>
       rc \<in> {- EAGAIN, - EINTR} \<and> xs = [] \<and> (0 :: nat) < 0 \<or> rc = - ENODATA \<and> chunks_pending c = [])"
    by blast
qed (rule enodata_final)

interpretation chunks_to_buffer: steady_channel "ChunkSource read_from_chunks" chunks_inv chunks_pending
    "\<lambda>_. - ENODATA" "\<lambda>_. 0" "ChunkSink write_to_buffer" bb_ready bb_pending
    "\<lambda>b k. k \<le> byte_buffer_avail b" "\<lambda>_. - ENOMEM" "\<lambda>_. 0"
  by unfold_locales simp_all

interpretation buffer_to_buffer: steady_channel "ChunkSource read_from_buffer" bb_ready bb_pending
    "\<lambda>_. - ENODATA" "\<lambda>_. 0" "ChunkSink write_to_buffer" bb_ready bb_pending
    "\<lambda>b k. k \<le> byte_buffer_avail b" "\<lambda>_. - ENOMEM" "\<lambda>_. 0"
  by unfold_locales simp_all

section \<open>Instrumentable buffers keep the contracts\<close>

text \<open>An error configuration that injects no error, or a permanent one at an offset.\<close>

definition error_config_ok :: "InstrumentableError \<Rightarrow> bool" where
  "error_config_ok e \<longleftrightarrow> \<not> bit (ie_flags e) INSTRUMENTABLE_UNTIL_SUCCESS \<and>
     (bit (ie_flags e) INSTRUMENTABLE_UNTIL_FAILURE \<longrightarrow>
        ie_number e < 0 \<and> - (2 ^ 31) \<le> ie_number e \<and> ie_number e \<notin> {- EAGAIN, - EINTR})"

definition injected :: "InstrumentableError \<Rightarrow> nat \<Rightarrow> bool" where
  "injected e limit \<longleftrightarrow> bit (ie_flags e) INSTRUMENTABLE_UNTIL_FAILURE \<and> ie_at e \<le> limit"

definition ioct_stream :: "InstrumentableBuffer \<Rightarrow> u8 list" where
  "ioct_stream b = (let bb = ib_buffer b; e = ib_rerror b in
     if bit (ie_flags e) INSTRUMENTABLE_UNTIL_FAILURE then take (ie_at e - bb_offset bb) (bb_pending bb)
     else bb_pending bb)"

definition iread_final :: "InstrumentableBuffer \<Rightarrow> int" where
  "iread_final b = (if injected (ib_rerror b) (bb_used (ib_buffer b)) then ie_number (ib_rerror b) else - ENODATA)"

definition ichk_stream :: "InstrumentableBuffer \<Rightarrow> u8 list" where
  "ichk_stream b = (if injected (ib_rerror b) (bb_used (ib_buffer b)) then [] else bb_pending (ib_buffer b))"

definition iread_inv :: "InstrumentableBuffer \<Rightarrow> bool" where
  "iread_inv b \<longleftrightarrow> bb_ready (ib_buffer b) \<and> bb_mem (ib_buffer b) \<noteq> [] \<and> 0 < ib_chunksize b \<and>
     error_config_ok (ib_rerror b)"

definition iwrite_inv :: "InstrumentableBuffer \<Rightarrow> bool" where
  "iwrite_inv b \<longleftrightarrow> bb_ready (ib_buffer b) \<and> error_config_ok (ib_werror b)"

definition iwrite_fits :: "InstrumentableBuffer \<Rightarrow> nat \<Rightarrow> bool" where
  "iwrite_fits b k \<longleftrightarrow> k \<le> byte_buffer_avail (ib_buffer b) \<and>
     (bit (ie_flags (ib_werror b)) INSTRUMENTABLE_UNTIL_FAILURE \<longrightarrow> k \<le> ie_at (ib_werror b) - bb_used (ib_buffer b))"

definition iwrite_final :: "InstrumentableBuffer \<Rightarrow> int" where
  "iwrite_final b = (if injected (ib_werror b) (bb_size (ib_buffer b)) then ie_number (ib_werror b) else - ENOMEM)"

lemma iread_final_range:
  "iread_inv b \<Longrightarrow> iread_final b < 0 \<and> - (2 ^ 31) \<le> iread_final b \<and> iread_final b \<notin> {- EAGAIN, - EINTR}"
  using enodata_final by (auto simp: iread_inv_def iread_final_def injected_def error_config_ok_def)

lemma iwrite_final_range:
  "iwrite_inv b \<Longrightarrow> iwrite_final b < 0 \<and> - (2 ^ 31) \<le> iwrite_final b \<and> iwrite_final b \<notin> {- EAGAIN, - EINTR}"
  using enomem_final by (auto simp: iwrite_inv_def iwrite_final_def injected_def error_config_ok_def)

lemma bb_pending_step:
  assumes "bb_ready b" "bb_offset b < bb_used b"
  shows "bb_pending b = bb_mem b ! bb_offset b # bb_pending (b\<lparr>bb_offset := Suc (bb_offset b)\<rparr>)"
    and "bb_ready (b\<lparr>bb_offset := Suc (bb_offset b)\<rparr>)" and "bb_offset b < length (bb_mem b)"
    and "sz_add (bb_offset b) (Suc 0) = Suc (bb_offset b)"
proof -
  have b: "bb_used b \<le> length (bb_mem b)" "bb_used b \<le> SSIZE_MAX" "bb_inv b"
    using assms by (auto simp: bb_ready_def bb_inv_def)
  then show off: "bb_offset b < length (bb_mem b)" "sz_add (bb_offset b) (Suc 0) = Suc (bb_offset b)"
    using assms by (auto intro: sz_add_Suc)
  have m: "bb_mem (b\<lparr>bb_offset := Suc (bb_offset b)\<rparr>) = bb_mem b"
    by (simp add: bb_mem_def)
  show "bb_pending b = bb_mem b ! bb_offset b # bb_pending (b\<lparr>bb_offset := Suc (bb_offset b)\<rparr>)"
    unfolding bb_pending_def m using assms(2) b off
    by (subst Cons_nth_drop_Suc [symmetric]) simp_all
  show "bb_ready (b\<lparr>bb_offset := Suc (bb_offset b)\<rparr>)"
    using assms b m by (simp add: bb_ready_def bb_inv_def)
qed

lemma bb_pending_full: "bb_ready b \<Longrightarrow> bb_used b \<le> bb_offset b \<Longrightarrow> bb_pending b = []"
  by (simp add: bb_pending_def)

interpretation ioctsrc: octet_reader run_instrumentable_octet_source iread_inv ioct_stream iread_final "\<lambda>_. 0"
proof unfold_locales
  fix b :: InstrumentableBuffer
  assume inv: "iread_inv b"
  define bb where "bb = ib_buffer b"
  define e where "e = ib_rerror b"
  have bb: "bb_ready bb" and e: "error_config_ok e"
    using inv by (simp_all add: iread_inv_def bb_def e_def)
  define b1 where "b1 = b\<lparr>ib_rstat := (ib_rstat b)\<lparr>ias_accesses := sz_add (ias_accesses (ib_rstat b)) 1\<rparr>\<rparr>"
  have b1: "iread_inv b1" "iread_final b1 = iread_final b" "ioct_stream b1 = ioct_stream b"
    using inv by (simp_all add: b1_def iread_inv_def iread_final_def ioct_stream_def)
  have succ: "\<not> until_success e a" for a
    using e by (simp add: until_success_def error_config_ok_def)
  have le: "bb_offset bb \<le> bb_used bb"
    using bb by (simp add: bb_ready_def bb_inv_def)
  show "\<exists>rc xs s'. run_instrumentable_octet_source b = Some (rc, xs, s') \<and> iread_inv s' \<and>
      iread_final s' = iread_final b \<and> ioct_stream b = xs @ ioct_stream s' \<and>
      (rc = 1 \<and> length xs = 1 \<or> rc \<in> {- EAGAIN, - EINTR} \<and> xs = [] \<and> (0 :: nat) < 0 \<or>
       rc = iread_final b \<and> ioct_stream b = [])"
  proof (cases "until_failure e (bb_offset bb) \<or> bb_used bb \<le> bb_offset bb")
    case True
    have "ioct_stream b = []"
      using True bb by (auto simp: ioct_stream_def Let_def until_failure_def bb_pending_full
          simp flip: bb_def e_def)
    moreover have "run_instrumentable_octet_source b = Some (iread_final b, [], b1)"
      using True succ le
      by (auto simp: run_instrumentable_octet_source_def Let_def iread_final_def injected_def until_failure_def b1_def
          simp flip: bb_def e_def)
    ultimately show ?thesis
      using b1 by simp
  next
    case False
    note st = bb_pending_step [OF bb]
    let ?b2 = "b1\<lparr>ib_buffer := bb\<lparr>bb_offset := Suc (bb_offset bb)\<rparr>,
                  ib_rstat := (ib_rstat b1)\<lparr>ias_bytes := sz_add (ias_bytes (ib_rstat b1)) 1\<rparr>\<rparr>"
    have "run_instrumentable_octet_source b = Some (1, [bb_mem bb ! bb_offset bb], ?b2)"
      using False succ st(3,4)
      by (simp add: run_instrumentable_octet_source_def Let_def b1_def mem_read_one flip: bb_def e_def)
    moreover have "iread_inv ?b2"
      using inv st(2) False by (simp add: iread_inv_def b1_def bb_mem_def flip: bb_def)
    moreover have "iread_final ?b2 = iread_final b"
      by (simp add: iread_final_def b1_def flip: bb_def)
    moreover have "ioct_stream b = [bb_mem bb ! bb_offset bb] @ ioct_stream ?b2"
      using False st(1) by (auto simp: ioct_stream_def Let_def until_failure_def b1_def take_Cons'
          simp flip: bb_def e_def)
    ultimately show ?thesis
      by (intro exI [of _ 1] exI [of _ "[bb_mem bb ! bb_offset bb]"] exI [of _ ?b2]) simp
  qed
qed (rule iread_final_range)

interpretation ichksrc: chunk_reader run_instrumentable_chunk_source iread_inv ichk_stream iread_final "\<lambda>_. 0"
proof unfold_locales
  fix b :: InstrumentableBuffer and n :: nat
  assume inv: "iread_inv b" and n: "0 < n" "n \<le> SSIZE_MAX"
  define bb where "bb = ib_buffer b"
  define e where "e = ib_rerror b"
  define m where "m = (if n > ib_chunksize b then ib_chunksize b else n)"
  have bb: "bb_ready bb" "bb_mem bb \<noteq> []" and e: "error_config_ok e" and m: "0 < m" "m \<le> n"
    using inv n by (auto simp: iread_inv_def bb_def e_def m_def)
  define b1 where "b1 = b\<lparr>ib_rstat := (ib_rstat b)\<lparr>ias_accesses := sz_add (ias_accesses (ib_rstat b)) 1\<rparr>\<rparr>"
  have b1: "iread_inv b1" "iread_final b1 = iread_final b" "ichk_stream b1 = ichk_stream b"
    using inv by (simp_all add: b1_def iread_inv_def iread_final_def ichk_stream_def)
  have succ: "\<not> until_success e a" for a
    using e by (simp add: until_success_def error_config_ok_def)
  have tr: "\<exists>xs. (if bit (ib_flags b) INSTRUMENTABLE_COMMON_ENABLE_TRACE \<and> m > 0
            then mem_read (bb_mem bb) 0 1 else Some []) = Some xs"
    using bb(2) by (auto simp: mem_read_def Suc_le_eq)
  have fail: "until_failure e (bb_used bb) = injected e (bb_used bb)"
    by (simp add: until_failure_def injected_def)
  have run: "run_instrumentable_chunk_source b n =
     (if injected e (bb_used bb) then Some (ie_number e, [], b1)
      else do { (rc, xs, bb') \<leftarrow> byte_buffer_consume_at_most bb m; Some (rc, xs, b1\<lparr>ib_buffer := bb'\<rparr>) })"
    using succ fail tr
    by (auto simp: run_instrumentable_chunk_source_def Let_def b1_def m_def simp flip: bb_def e_def)
  show "\<exists>rc xs s'. run_instrumentable_chunk_source b n = Some (rc, xs, s') \<and> iread_inv s' \<and>
      iread_final s' = iread_final b \<and> length xs \<le> n \<and> ichk_stream b = xs @ ichk_stream s' \<and>
      (0 < rc \<and> rc = int (length xs) \<or> rc \<in> {- EAGAIN, - EINTR} \<and> xs = [] \<and> (0 :: nat) < 0 \<or>
       rc = iread_final b \<and> ichk_stream b = [])"
  proof (cases "injected e (bb_used bb)")
    case True
    then show ?thesis
      using run b1 by (simp add: iread_final_def ichk_stream_def flip: bb_def e_def)
  next
    case ok: False
    show ?thesis
    proof (cases "bb_pending bb = []")
      case True
      then have "run_instrumentable_chunk_source b n = Some (- ENODATA, [], b1)"
        using ok run bb byte_buffer_consume_at_most_empty [of bb m]
        by (simp add: bb_ready_def b1_def bb_def)
      then show ?thesis
        using b1 ok True by (simp add: iread_final_def ichk_stream_def flip: bb_def e_def)
    next
      case False
      obtain bb' where c: "byte_buffer_consume_at_most bb m =
          Some (int (min m (length (bb_pending bb))), take m (bb_pending bb), bb')" "bb_inv bb'"
         "bb_pending bb' = drop m (bb_pending bb)" "bb_data bb' = bb_data bb" "bb_used bb' = bb_used bb"
        using byte_buffer_consume_at_most_some [of bb m] bb False by (auto simp: bb_ready_def)
      let ?b2 = "b1\<lparr>ib_buffer := bb'\<rparr>"
      have "run_instrumentable_chunk_source b n =
          Some (int (min m (length (bb_pending bb))), take m (bb_pending bb), ?b2)"
        using run ok c(1) by simp
      moreover have "iread_inv ?b2" "iread_final ?b2 = iread_final b" "ichk_stream ?b2 = drop m (bb_pending bb)"
        "ichk_stream b = bb_pending bb"
        using inv c ok bb by (simp_all add: iread_inv_def iread_final_def ichk_stream_def b1_def bb_ready_def
            bb_mem_def flip: bb_def e_def)
      ultimately show ?thesis
        using m False by (auto simp: min_def)
    qed
  qed
qed (rule iread_final_range)

interpretation ioctsnk: octet_writer run_instrumentable_octet_sink iwrite_inv "\<lambda>b. bb_pending (ib_buffer b)"
  iwrite_fits iwrite_final "\<lambda>_. 0"
proof unfold_locales
  fix b :: InstrumentableBuffer and x :: u8
  assume inv: "iwrite_inv b"
  define bb where "bb = ib_buffer b"
  define e where "e = ib_werror b"
  have bb: "bb_ready bb" and e: "error_config_ok e"
    using inv by (simp_all add: iwrite_inv_def bb_def e_def)
  define b1 where "b1 = b\<lparr>ib_wstat := (ib_wstat b)\<lparr>ias_accesses := sz_add (ias_accesses (ib_wstat b)) 1\<rparr>\<rparr>"
  have b1: "iwrite_inv b1" "iwrite_final b1 = iwrite_final b" "iwrite_fits b1 = iwrite_fits b" "ib_buffer b1 = bb"
    using inv by (simp_all add: b1_def iwrite_inv_def iwrite_final_def iwrite_fits_def [abs_def] bb_def)
  have succ: "\<not> until_success e a" for a
    using e by (simp add: until_success_def error_config_ok_def)
  have sz: "bb_used bb \<le> bb_size bb" "byte_buffer_avail bb = bb_size bb - bb_used bb"
    using bb bb_inv_marks [of bb] by (auto simp: bb_ready_def bb_inv_def)
  show "\<exists>rc s'. run_instrumentable_octet_sink b x = Some (rc, s') \<and> iwrite_inv s' \<and>
      iwrite_final s' = iwrite_final b \<and>
      (rc = 1 \<and> iwrite_fits b 1 \<and> bb_pending (ib_buffer s') = bb_pending (ib_buffer b) @ [x] \<and>
         (\<forall>k. iwrite_fits s' k = iwrite_fits b (Suc k)) \<or>
       rc \<in> {- EAGAIN, - EINTR} \<and> bb_pending (ib_buffer s') = bb_pending (ib_buffer b) \<and>
         iwrite_fits s' = iwrite_fits b \<and> (0 :: nat) < 0 \<or>
       rc = iwrite_final b \<and> \<not> iwrite_fits b 1 \<and> bb_pending (ib_buffer s') = bb_pending (ib_buffer b) \<and>
         iwrite_fits s' = iwrite_fits b)"
  proof (cases "until_failure e (bb_used bb) \<or> bb_used bb = bb_size bb")
    case True
    have "\<not> iwrite_fits b 1"
      using True sz by (auto simp: iwrite_fits_def until_failure_def simp flip: bb_def e_def)
    moreover have "run_instrumentable_octet_sink b x = Some (iwrite_final b, b1)"
      using True succ sz
      by (auto simp: run_instrumentable_octet_sink_def Let_def iwrite_final_def injected_def until_failure_def b1_def
          simp flip: bb_def e_def)
    ultimately show ?thesis
      using b1 by (simp add: bb_def)
  next
    case False
    then have room: "length [x] \<le> byte_buffer_avail bb" "bb_used bb < bb_size bb"
      using sz by auto
    obtain bb' where add: "byte_buffer_add bb [x] (length [x]) = Some (0, bb')" "bb_inv bb'"
       "bb_pending bb' = bb_pending bb @ [x]" "bb_used bb' = bb_used bb + length [x]"
       "bb_size bb' = bb_size bb" "bb_data bb' \<noteq> None"
      using byte_buffer_add_fits [of bb "[x]"] bb room by (auto simp: bb_ready_def)
    obtain m where m: "bb_data bb = Some m"
      using bb by (auto simp: bb_ready_def)
    have "bb_used bb < length m" "sz_add (bb_used bb) (Suc 0) = Suc (bb_used bb)"
      using bb m room(2) sz_add_Suc [of "bb_used bb" "bb_size bb"] by (auto simp: bb_ready_def bb_inv_def)
    then have "\<exists>m'. mem_write m (bb_used bb) [x] = Some m' \<and>
        bb' = bb\<lparr>bb_data := Some m', bb_used := Suc (bb_used bb)\<rparr>"
      using add(1) m room(2) by (auto simp: byte_buffer_add_def mem_read_def split: if_splits bind_splits)
    then obtain m' where m': "mem_write m (bb_used bb) [x] = Some m'"
        "bb' = bb\<lparr>bb_data := Some m', bb_used := Suc (bb_used bb)\<rparr>" by blast
    let ?b2 = "b1\<lparr>ib_buffer := bb',
                  ib_wstat := (ib_wstat b1)\<lparr>ias_bytes := sz_add (ias_bytes (ib_wstat b1)) 1\<rparr>\<rparr>"
    have "run_instrumentable_octet_sink b x = Some (1, ?b2)"
      using False succ m m' \<open>sz_add (bb_used bb) (Suc 0) = _\<close>
      by (simp add: run_instrumentable_octet_sink_def Let_def b1_def bb_store_def flip: bb_def e_def)
    moreover have "iwrite_inv ?b2"
      using inv add by (simp add: iwrite_inv_def b1_def bb_ready_def)
    moreover have "iwrite_final ?b2 = iwrite_final b"
      using add by (simp add: iwrite_final_def b1_def flip: bb_def)
    moreover have "iwrite_fits b 1"
      using False room by (auto simp: iwrite_fits_def until_failure_def simp flip: bb_def e_def)
    moreover have below: "bit (ie_flags e) INSTRUMENTABLE_UNTIL_FAILURE \<longrightarrow> bb_used bb < ie_at e"
      using False by (auto simp: until_failure_def)
    then have "iwrite_fits ?b2 k = iwrite_fits b (Suc k)" for k
      using add bb bb_inv_marks [of bb'] sz room(2) below
      by (auto simp: iwrite_fits_def b1_def simp flip: bb_def e_def)
    ultimately show ?thesis
      using add(3) by (intro exI [of _ 1] exI [of _ ?b2]) (simp flip: bb_def)
  qed
next
  fix b :: InstrumentableBuffer and k j :: nat
  assume "iwrite_fits b k" "j \<le> k"
  then show "iwrite_fits b j"
    by (auto simp: iwrite_fits_def)
qed (rule iwrite_final_range)

section \<open>Properties\<close>

lemma plain_init [simp]:
  "plain_retry (src_retry (source_from_chunks si c))" "plain_retry (src_retry (source_from_buffer bi b))"
  "plain_retry (snk_retry (sink_to_buffer ti b))"
  "src_driver (source_from_chunks si c) = c" "src_driver (source_from_buffer bi b) = b"
  "snk_driver (sink_to_buffer ti b) = b"
  "src_fn (source_from_chunks si c) = ChunkSource read_from_chunks"
  "src_fn (source_from_buffer bi b) = ChunkSource read_from_buffer"
  "snk_fn (sink_to_buffer ti b) = ChunkSink write_to_buffer"
  "\<not> source_has_buffer_ext (source_from_chunks si c)" "\<not> sink_has_buffer_ext (sink_to_buffer ti b)"
  by (simp_all add: plain_retry_def source_from_chunks_def source_from_buffer_def sink_to_buffer_def
      chunk_source_init_def chunk_sink_init_def source_has_buffer_ext_def sink_has_buffer_ext_def)

text \<open>C22. Reading an exact number of octets from a list of buffers gives the concatenation of what the
  buffers hold, across their boundaries and past empty ones: either all \<open>n\<close> octets, or everything there
  was and the error -ENODATA. The octets land at the destination and nothing else of it changes.\<close>

theorem chunk_list_get_chunk:
  assumes "chunks_inv c" and "0 < n" and "off + n \<le> length buf" and "length buf \<le> SSIZE_MAX"
  shows "\<exists>src. source_get_chunk (source_from_chunks si c) buf off n =
           Some (if n \<le> length (chunks_pending c) then int n else - ENODATA,
                 overwrite buf off (take n (chunks_pending c)), src) \<and>
         chunks_inv (src_driver src) \<and> chunks_pending (src_driver src) = drop n (chunks_pending c)"
  using chunksrc.get_chunk_ok [of "source_from_chunks si c" n off buf "chunks_pending c"] assms
  by auto

definition sample_chunks :: ByteChunks where
  "sample_chunks = \<lparr>bc_chunks = 3, bc_active = 0, bc_chunk =
     [\<lparr>bb_data = Some [1, 2], bb_size = 2, bb_used = 2, bb_offset = 0\<rparr>,
      \<lparr>bb_data = Some [9], bb_size = 1, bb_used = 0, bb_offset = 0\<rparr>,
      \<lparr>bb_data = Some [3, 4, 5], bb_size = 3, bb_used = 3, bb_offset = 1\<rparr>]\<rparr>"

lemma sample_chunks_ok: "chunks_inv sample_chunks" "chunks_pending sample_chunks = [1, 2, 4, 5]"
  by (simp_all add: sample_chunks_def chunks_inv_def chunks_pending_def bb_ready_def bb_inv_def bb_pending_def
      SSIZE_MAX_def)

definition idle_source :: "'s \<Rightarrow> 's Source" where
  "idle_source s = CHUNK_SOURCE_INIT (\<lambda>s n. Some (- ENODATA, [], s)) s"

definition idle_sink :: "'t \<Rightarrow> 't Sink" where
  "idle_sink t = CHUNK_SINK_INIT (\<lambda>t xs. Some (- ENOMEM, t)) t"

theorem chunk_list_get_chunk_witness:
  "\<exists>src. source_get_chunk (source_from_chunks (idle_source sample_chunks) sample_chunks) [0, 0, 0, 0] 1 3 =
     Some (3, [0, 1, 2, 4], src) \<and> chunks_inv (src_driver src) \<and> chunks_pending (src_driver src) = [5]"
  using chunk_list_get_chunk [OF sample_chunks_ok(1), of 3 1 "[0, 0, 0, 0]" "idle_source sample_chunks"]
  by (simp add: sample_chunks_ok SSIZE_MAX_def overwrite_def)

text \<open>C21. Draining a list of buffers into a buffer through an auxiliary buffer of any size moves every
  octet, in order, when the sink has room for all of them, and returns their number.\<close>

theorem drain_chunks_to_buffer:
  assumes "chunks_inv c" and "bb_ready b" and "aux_ok aux"
    and "length (chunks_pending c) \<le> byte_buffer_avail b"
  shows "\<exists>src snk aux'. sts_drain_aux (source_from_chunks si c) (sink_to_buffer ti b) aux =
           Some (int (length (chunks_pending c)), src, snk, aux') \<and>
         chunks_pending (src_driver src) = [] \<and> bb_ready (snk_driver snk) \<and>
         bb_pending (snk_driver snk) = bb_pending b @ chunks_pending c"
proof -
  have joined: "chunks_to_buffer.joined (source_from_chunks si c) (sink_to_buffer ti b)"
    using assms by (simp add: chunks_to_buffer.joined_def)
  have "length (chunks_pending c) \<le> SSIZE_MAX"
    using assms(2,4) by (auto simp: bb_ready_def bb_inv_def byte_buffer_avail_def)
  from chunks_to_buffer.drain_aux_ok [OF joined assms(3), of "chunks_pending c"] this assms(4)
  show ?thesis
    by (fastforce simp: chunks_to_buffer.moved_def chunks_to_buffer.joined_def)
qed

theorem drain_chunks_to_buffer_witness:
  "\<exists>src snk aux'. sts_drain_aux (source_from_chunks (idle_source sample_chunks) sample_chunks)
       (sink_to_buffer (idle_sink sample_buffer) (sample_buffer\<lparr>bb_data := Some [0, 0, 0, 0], bb_size := 4\<rparr>))
       sample_buffer = Some (4, src, snk, aux') \<and>
     chunks_pending (src_driver src) = [] \<and> bb_ready (snk_driver snk) \<and>
     bb_pending (snk_driver snk) = [1, 2, 4, 5]"
  using drain_chunks_to_buffer [OF sample_chunks_ok(1), of
      "sample_buffer\<lparr>bb_data := Some [0, 0, 0, 0], bb_size := 4\<rparr>" sample_buffer
      "idle_source sample_chunks" "idle_sink sample_buffer"]
  by (simp add: sample_chunks_ok sample_buffer_def aux_ok_def bb_ready_def bb_inv_def bb_pending_def
      byte_buffer_avail_def SSIZE_MAX_def)

text \<open>A transfer of exactly \<open>n\<close> octets through an auxiliary buffer says what happened: it returns \<open>n\<close>
  and has moved the next \<open>n\<close> octets, or -ENODATA and has moved all there were, or -ENOMEM because at some
  point the sink had no room, and then what reached the sink is a prefix of what left the source.\<close>

theorem transfer_n_chunks_to_buffer:
  assumes "chunks_inv c" and "bb_ready b" and "aux_ok aux" and "n \<le> SSIZE_MAX"
    and "data = chunks_pending c"
  shows "\<exists>rc src snk aux' j k. sts_n_aux (source_from_chunks si c) (sink_to_buffer ti b) aux n =
           Some (rc, src, snk, aux') \<and>
         chunks_pending (src_driver src) = drop j data \<and>
         bb_pending (snk_driver snk) = bb_pending b @ take k data \<and> k \<le> j \<and> j \<le> min n (length data) \<and>
         (rc = int n \<and> j = n \<and> k = n \<or>
          rc = - ENODATA \<and> length data < n \<and> j = length data \<and> k = j \<or>
          rc = - ENOMEM \<and> k < j \<and> byte_buffer_avail b < min n (length data))"
proof -
  have "chunks_to_buffer.joined (source_from_chunks si c) (sink_to_buffer ti b)"
    using assms by (simp add: chunks_to_buffer.joined_def)
  from chunks_to_buffer.n_aux_loop_ok [OF this assms(3), of data n n] assms(4,5)
  have "\<exists>rc src snk b' j k. sts_n_aux (source_from_chunks si c) (sink_to_buffer ti b) aux n =
        Some (rc, src, snk, b') \<and>
      chunks_to_buffer.moved (source_from_chunks si c) (sink_to_buffer ti b) j k src snk \<and> aux_ok b' \<and>
      k \<le> j \<and> j \<le> min n (length data) \<and>
      (rc = int n \<and> j = n \<and> k = n \<or> rc = - ENODATA \<and> length data < n \<and> j = length data \<and> k = j \<or>
       rc = - ENOMEM \<and> k < j \<and> (\<exists>m \<le> min n (length data). \<not> m \<le> byte_buffer_avail b))"
    by (simp add: sts_n_aux_def)
  then obtain rc src snk b' j k where r: "sts_n_aux (source_from_chunks si c) (sink_to_buffer ti b) aux n =
        Some (rc, src, snk, b')"
    "chunks_to_buffer.moved (source_from_chunks si c) (sink_to_buffer ti b) j k src snk" "k \<le> j"
    "j \<le> min n (length data)"
    "rc = int n \<and> j = n \<and> k = n \<or> rc = - ENODATA \<and> length data < n \<and> j = length data \<and> k = j \<or>
     rc = - ENOMEM \<and> k < j \<and> (\<exists>m \<le> min n (length data). \<not> m \<le> byte_buffer_avail b)"
    by blast
  have "byte_buffer_avail b < min n (length data)" if "\<exists>m \<le> min n (length data). \<not> m \<le> byte_buffer_avail b"
    using that by (meson leD leI order.trans)
  with r assms(5) show ?thesis
    by (intro exI [of _ rc] exI [of _ src] exI [of _ snk] exI [of _ b'] exI [of _ j] exI [of _ k])
      (auto simp: chunks_to_buffer.moved_def)
qed

theorem transfer_n_chunks_to_buffer_witness:
  "\<exists>rc src snk aux' j k. sts_n_aux (source_from_chunks (idle_source sample_chunks) sample_chunks)
       (sink_to_buffer (idle_sink sample_buffer) sample_buffer) sample_buffer 3 = Some (rc, src, snk, aux') \<and>
     bb_pending (snk_driver snk) = take k [1, 2, 4, 5] \<and> k \<le> j \<and> (rc = 3 \<and> k = 3 \<or> rc < 0)"
proof -
  have a: "aux_ok sample_buffer" "bb_pending sample_buffer = []"
    by (simp_all add: sample_buffer_def aux_ok_def bb_pending_def SSIZE_MAX_def)
  have "(3 :: nat) \<le> SSIZE_MAX"
    by (simp add: SSIZE_MAX_def)
  from transfer_n_chunks_to_buffer [OF sample_chunks_ok(1) sample_buffer_ready a(1) this refl,
      of "idle_source sample_chunks" "idle_sink sample_buffer"]
  show ?thesis
    unfolding sample_chunks_ok(2) a(2) by (elim ex_forward) (auto simp: errno_defs)
qed

text \<open>Without a buffer extension on either side, an exact transfer into a full buffer does not stop:
  it takes every octet the source has, drops them all, and reports -ENODATA.\<close>

theorem transfer_n_to_full_buffer_loses_data:
  assumes "chunks_inv c" and "bb_ready b" and "byte_buffer_avail b = 0" and "0 < n"
  shows "\<exists>src snk. sts_n (source_from_chunks si c) (sink_to_buffer ti b) n = Some (- ENODATA, src, snk) \<and>
           chunks_pending (src_driver src) = [] \<and> bb_pending (snk_driver snk) = bb_pending b"
proof -
  have "chunks_to_buffer.joined (source_from_chunks si c) (sink_to_buffer ti b)"
    using assms by (simp add: chunks_to_buffer.joined_def)
  moreover have "- ENODATA \<noteq> - ENOMEM"
    by (simp add: errno_defs)
  ultimately have "\<exists>src snk. sts_n_loop False (source_from_chunks si c) (sink_to_buffer ti b) n n =
        Some (- ENODATA, src, snk) \<and>
      chunks_to_buffer.moved (source_from_chunks si c) (sink_to_buffer ti b) (length (chunks_pending c)) 0 src snk"
    using chunks_to_buffer.n_full_loop [of "source_from_chunks si c" "sink_to_buffer ti b" n n] assms(3,4)
    by simp
  then show ?thesis
    by (auto simp: chunks_to_buffer.moved_def sts_n_def)
qed

theorem transfer_n_to_full_buffer_loses_data_witness:
  "\<exists>src snk. sts_n (source_from_chunks (idle_source sample_chunks) sample_chunks)
       (sink_to_buffer (idle_sink sample_buffer) (sample_buffer\<lparr>bb_used := 3\<rparr>)) 2 = Some (- ENODATA, src, snk) \<and>
     chunks_pending (src_driver src) = [] \<and> bb_pending (snk_driver snk) = [0, 0, 0]"
  using transfer_n_to_full_buffer_loses_data [OF sample_chunks_ok(1), of "sample_buffer\<lparr>bb_used := 3\<rparr>" 2
      "idle_source sample_chunks" "idle_sink sample_buffer"]
  by (simp add: sample_buffer_def bb_ready_def bb_inv_def bb_pending_def byte_buffer_avail_def SSIZE_MAX_def)

text \<open>An error injected at an offset: the octet source delivers the octets before that offset and then
  fails; the chunk source on the same buffer delivers nothing when the fill mark is beyond the offset.\<close>

theorem injected_error_octet_vs_chunk:
  assumes "iread_inv b" and "injected (ib_rerror b) (bb_used (ib_buffer b))" and "0 < n"
    and "n \<le> length buf" and "length buf \<le> SSIZE_MAX"
    and "ie_at (ib_rerror b) - bb_offset (ib_buffer b) < n"
  shows "(\<exists>src. source_get_chunk (OCTET_SOURCE_INIT run_instrumentable_octet_source b) buf 0 n =
            Some (ie_number (ib_rerror b),
              overwrite buf 0 (take (ie_at (ib_rerror b) - bb_offset (ib_buffer b)) (bb_pending (ib_buffer b))),
              src)) \<and>
         (\<exists>src. source_get_chunk (CHUNK_SOURCE_INIT run_instrumentable_chunk_source b) buf 0 n =
            Some (ie_number (ib_rerror b), buf, src))"
proof -
  define data where "data = take (ie_at (ib_rerror b) - bb_offset (ib_buffer b)) (bb_pending (ib_buffer b))"
  let ?o = "OCTET_SOURCE_INIT run_instrumentable_octet_source b"
  let ?c = "CHUNK_SOURCE_INIT run_instrumentable_chunk_source b"
  have init: "plain_retry (src_retry ?o)" "src_fn ?o = OctetSource run_instrumentable_octet_source" "src_driver ?o = b"
    "plain_retry (src_retry ?c)" "src_fn ?c = ChunkSource run_instrumentable_chunk_source" "src_driver ?c = b"
    by (simp_all add: plain_retry_def EP_RETRY_INIT_def OCTET_SOURCE_INIT_def CHUNK_SOURCE_INIT_def)
  have st: "ioct_stream b = data" "ichk_stream b = []" "iread_final b = ie_number (ib_rerror b)"
    using assms(2) by (simp_all add: ioct_stream_def ichk_stream_def iread_final_def injected_def Let_def data_def)
  have "length data < n"
    using assms(6) by (simp add: data_def)
  then have "\<exists>src. source_get_chunk ?o buf 0 n = Some (ie_number (ib_rerror b), overwrite buf 0 data, src)"
    using ioctsrc.get_chunk_ok [of ?o n 0 buf data] assms(1,3-5) init st by auto
  moreover have "\<exists>src. source_get_chunk ?c buf 0 n = Some (ie_number (ib_rerror b), buf, src)"
    using ichksrc.get_chunk_ok [of ?c n 0 buf "[]"] assms(1,3-5) init st by auto
  ultimately show ?thesis
    by (simp add: data_def)
qed

definition sample_ibuf :: InstrumentableBuffer where
  "sample_ibuf = \<lparr>ib_flags = 0, ib_rstat = \<lparr>ias_bytes = 0, ias_accesses = 0\<rparr>,
     ib_rerror = \<lparr>ie_flags = 1, ie_number = -5, ie_at = 2\<rparr>,
     ib_wstat = \<lparr>ias_bytes = 0, ias_accesses = 0\<rparr>, ib_werror = \<lparr>ie_flags = 0, ie_number = 0, ie_at = 0\<rparr>,
     ib_chunksize = 8, ib_buffer = sample_buffer\<lparr>bb_data := Some [7, 8, 9], bb_used := 3\<rparr>\<rparr>"

theorem injected_error_octet_vs_chunk_witness:
  "(\<exists>src. source_get_chunk (OCTET_SOURCE_INIT run_instrumentable_octet_source sample_ibuf) [0, 0, 0] 0 3 =
      Some (-5, [7, 8, 0], src)) \<and>
   (\<exists>src. source_get_chunk (CHUNK_SOURCE_INIT run_instrumentable_chunk_source sample_ibuf) [0, 0, 0] 0 3 =
      Some (-5, [0, 0, 0], src))"
proof -
  have inv: "iread_inv sample_ibuf"
    by (simp add: iread_inv_def sample_ibuf_def sample_buffer_def bb_ready_def bb_inv_def error_config_ok_def
        INSTRUMENTABLE_UNTIL_SUCCESS_def errno_defs SSIZE_MAX_def)
  have inj: "injected (ib_rerror sample_ibuf) (bb_used (ib_buffer sample_ibuf))"
    by (simp add: injected_def sample_ibuf_def sample_buffer_def INSTRUMENTABLE_UNTIL_FAILURE_def)
  show ?thesis
    using injected_error_octet_vs_chunk [OF inv inj, of 3 "[0, 0, 0]"]
    by (simp add: sample_ibuf_def sample_buffer_def SSIZE_MAX_def bb_pending_def overwrite_def)
qed

text \<open>A continuable sink stores nothing in a buffer whose two marks coincide, which is how it sets up
  the buffer it allocates and how an empty fallback buffer looks: the data is dropped, the overflow
  error is noted, and the caller is told that everything was written.\<close>

theorem continuable_sink_drops_data:
  assumes "cs_error_id cs = 0" and "bb_data (cs_buffer cs) = Some m" and "length m = bb_size (cs_buffer cs)"
    and "bb_inv (cs_buffer cs)" and "bb_offset (cs_buffer cs) = bb_used (cs_buffer cs)"
    and "data \<noteq> []" and "length data \<le> SSIZE_MAX" and "\<not> Option.is_none (cs_fallback cs)"
  shows "\<exists>cs'. run_continuable_sink cs data = Some (int (length data), cs') \<and>
           cs_buffer cs' = cs_buffer cs \<and> cs_error_id cs' = ENOMEM"
proof -
  have rest: "byte_buffer_rest (cs_buffer cs) = 0"
    using assms(4,5) bb_inv_marks [of "cs_buffer cs"] by simp
  have u: "bb_used (cs_buffer cs) \<le> bb_size (cs_buffer cs)" "sz_add (bb_used (cs_buffer cs)) 0 = bb_used (cs_buffer cs)"
    using assms(4) by (auto simp: bb_inv_def sz_add_def SSIZE_MAX_def SIZE_MOD_def)
  have "byte_buffer_add (cs_buffer cs) data 0 = Some (0, cs_buffer cs)"
    using u assms(2,3) by (simp add: byte_buffer_add_def mem_read_def mem_write_def)
  then have add: "cs_add cs data (length data) = Some (- ENOMEM, cs)"
    using assms(2,6) rest by (simp add: cs_add_def Let_def)
  have "cs_allocate cs data (length data) = Some (Inr cs)"
    using assms(2) by (simp add: cs_allocate_def split: option.split)
  with add show ?thesis
    using assms by (simp add: run_continuable_sink_def Let_def errno_defs)
qed

theorem continuable_sink_drops_data_witness:
  "\<exists>cs'. run_continuable_sink \<lparr>cs_alloc = None :: unit BlockAllocator option, cs_buffer = sample_buffer,
       cs_fallback = Some sample_buffer, cs_postalloc = None, cs_error_id = 0, cs_error_datacount = 0\<rparr> [1, 2] =
     Some (2, cs') \<and> cs_buffer cs' = sample_buffer \<and> cs_error_id cs' = ENOMEM"
  using continuable_sink_drops_data [of "\<lparr>cs_alloc = None :: unit BlockAllocator option, cs_buffer = sample_buffer,
       cs_fallback = Some sample_buffer, cs_postalloc = None, cs_error_id = 0, cs_error_datacount = 0\<rparr>"
      "[0, 0, 0]" "[1, 2]"]
  by (simp add: sample_buffer_def bb_inv_def SSIZE_MAX_def)

end
