(* ===== verification/Posix_Endpoints.thy ===== *)
theory Posix_Endpoints
  imports Endpoint_Drivers
begin

text \<open>
  Endpoints on file descriptors: \<^verbatim>\<open>src/endpoints/posix.c\<close>. The system calls \<open>read\<close> and \<open>write\<close> are parameters: functions on
  the state of the open file, which answer with the return value, what they stored or how the file is afterwards,
  and \<open>errno\<close>. What POSIX promises of them is stated as the two predicates \<open>documented_read\<close> and \<open>documented_write\<close>;
  under these the drivers keep the contracts of readers and writers of \<^verbatim>\<open>Endpoint_Core\<close>, so that every fact about
  transfers applies. A source and a sink refer to different open files.
\<close>

section \<open>The drivers\<close>

type_synonym 'w read_call = "int \<Rightarrow> nat \<Rightarrow> 'w \<Rightarrow> int \<times> u8 list \<times> int \<times> 'w"
type_synonym 'w write_call = "int \<Rightarrow> u8 list \<Rightarrow> 'w \<Rightarrow> int \<times> int \<times> 'w"

record 'w filedesc =
  fd_number :: int
  fd_file :: 'w

definition run_read :: "'w read_call \<Rightarrow> 'w filedesc \<Rightarrow> nat \<Rightarrow> (int \<times> u8 list \<times> 'w filedesc) option" where
  "run_read read driver n =
     (let (r, data, errno, file) = read (fd_number driver) n (fd_file driver);
          rc = to_int r
      in Some (if rc = 0 then - ENODATA else if rc < 0 then - errno else rc, data, driver\<lparr>fd_file := file\<rparr>))"

definition source_from_filedesc :: "'w read_call \<Rightarrow> 'w filedesc Source \<Rightarrow> 'w filedesc \<Rightarrow> 'w filedesc Source" where
  "source_from_filedesc read inst fd = chunk_source_init inst (run_read read) fd"

definition run_write :: "'w write_call \<Rightarrow> 'w filedesc \<Rightarrow> u8 list \<Rightarrow> (int \<times> 'w filedesc) option" where
  "run_write write driver data =
     (let (r, errno, file) = write (fd_number driver) data (fd_file driver);
          rc = to_int r
      in Some (if rc < 0 then - errno else rc, driver\<lparr>fd_file := file\<rparr>))"

definition sink_to_filedesc :: "'w write_call \<Rightarrow> 'w filedesc Sink \<Rightarrow> 'w filedesc \<Rightarrow> 'w filedesc Sink" where
  "sink_to_filedesc write inst fd = chunk_sink_init inst (run_write write) fd"

section \<open>What the system calls promise\<close>

text \<open>A call of \<open>read\<close> delivers the next octets of the file, at least one and at most as many as were asked for; it is
  interrupted or would block, finitely often; or the octets are at their end, where it answers with zero, or fails in
  the same way every time. Besides, no call moves more octets than an \<open>int\<close> holds: POSIX does not promise this, Linux
  does, and without it the drivers do not work (\<open>count_truncated\<close>).\<close>

definition documented_read ::
    "'w read_call \<Rightarrow> int \<Rightarrow> ('w \<Rightarrow> bool) \<Rightarrow> ('w \<Rightarrow> u8 list) \<Rightarrow> ('w \<Rightarrow> int option) \<Rightarrow> ('w \<Rightarrow> nat) \<Rightarrow> bool" where
  "documented_read read fd open pending failure delays \<longleftrightarrow>
     (\<forall>w n. open w \<and> 0 < n \<and> n \<le> SSIZE_MAX \<longrightarrow>
        (\<exists>r data errno w'. read fd n w = (r, data, errno, w') \<and> open w' \<and> failure w' = failure w \<and>
           length data \<le> n \<and> pending w = data @ pending w' \<and>
           (0 < r \<and> r = int (length data) \<and> r < 2 ^ 31 \<or>
            r = - 1 \<and> errno \<in> {EAGAIN, EINTR} \<and> data = [] \<and> delays w' < delays w \<or>
            pending w = [] \<and> (r = 0 \<and> failure w = None \<or> r = - 1 \<and> failure w = Some errno)))) \<and>
     (\<forall>w errno. open w \<and> failure w = Some errno \<longrightarrow> 0 < errno \<and> errno < 2 ^ 31 \<and> errno \<notin> {EAGAIN, EINTR})"

text \<open>A call of \<open>write\<close> appends the first of the octets it is given; it is interrupted or would block, finitely often; or
  it fails for want of space.\<close>

definition documented_write ::
    "'w write_call \<Rightarrow> int \<Rightarrow> ('w \<Rightarrow> bool) \<Rightarrow> ('w \<Rightarrow> u8 list) \<Rightarrow> ('w \<Rightarrow> nat \<Rightarrow> bool) \<Rightarrow> ('w \<Rightarrow> int) \<Rightarrow> ('w \<Rightarrow> nat) \<Rightarrow> bool" where
  "documented_write write fd open written space failure delays \<longleftrightarrow>
     (\<forall>w data. open w \<and> data \<noteq> [] \<and> length data \<le> SSIZE_MAX \<longrightarrow>
        (\<exists>r errno w'. write fd data w = (r, errno, w') \<and> open w' \<and> failure w' = failure w \<and>
           (0 < r \<and> r \<le> int (length data) \<and> r < 2 ^ 31 \<and> space w (nat r) \<and> written w' = written w @ take (nat r) data \<and>
              (\<forall>k. space w' k = space w (nat r + k)) \<or>
            r = - 1 \<and> errno \<in> {EAGAIN, EINTR} \<and> written w' = written w \<and> space w' = space w \<and> delays w' < delays w \<or>
            r = - 1 \<and> errno = failure w \<and> \<not> space w (length data) \<and> written w' = written w \<and> space w' = space w))) \<and>
     (\<forall>w. open w \<longrightarrow> 0 < failure w \<and> failure w < 2 ^ 31 \<and> failure w \<notin> {EAGAIN, EINTR})"

section \<open>The drivers keep the contracts\<close>

definition fd_reads :: "int \<Rightarrow> ('w \<Rightarrow> bool) \<Rightarrow> 'w filedesc \<Rightarrow> bool" where
  "fd_reads fd open d \<longleftrightarrow> fd_number d = fd \<and> open (fd_file d)"

definition read_final :: "('w \<Rightarrow> int option) \<Rightarrow> 'w filedesc \<Rightarrow> int" where
  "read_final failure d = (case failure (fd_file d) of None \<Rightarrow> - ENODATA | Some errno \<Rightarrow> - errno)"

lemma run_read_contract:
  assumes "documented_read read fd open pending failure delays"
  shows "chunk_reader (run_read read) (fd_reads fd open) (\<lambda>d. pending (fd_file d)) (read_final failure) (\<lambda>d. delays (fd_file d))"
proof (unfold_locales, goal_cases)
  case (1 d n)
  then have "open (fd_file d)" and fd: "fd_number d = fd"
    by (simp_all add: fd_reads_def)
  with assms 1(2,3) obtain r data errno w' where
    r: "read fd n (fd_file d) = (r, data, errno, w')" "open w'" "failure w' = failure (fd_file d)" "length data \<le> n"
       "pending (fd_file d) = data @ pending w'" and
    cs: "0 < r \<and> r = int (length data) \<and> r < 2 ^ 31 \<or>
         r = - 1 \<and> errno \<in> {EAGAIN, EINTR} \<and> data = [] \<and> delays w' < delays (fd_file d) \<or>
         pending (fd_file d) = [] \<and> (r = 0 \<and> failure (fd_file d) = None \<or> r = - 1 \<and> failure (fd_file d) = Some errno)"
    unfolding documented_read_def by blast
  from cs have "to_int r = r"
    by auto
  with r(1) fd have run: "run_read read d n =
      Some (if r = 0 then - ENODATA else if r < 0 then - errno else r, data, d\<lparr>fd_file := w'\<rparr>)"
    by (simp add: run_read_def)
  show ?case
    by (rule exI, rule exI, rule exI, intro conjI, rule run)
      (use r cs fd in \<open>auto simp: fd_reads_def read_final_def\<close>)
next
  case (2 d)
  with assms have "0 < errno \<and> errno \<le> 2 ^ 31 \<and> errno \<notin> {EAGAIN, EINTR}" if "failure (fd_file d) = Some errno" for errno
    using that unfolding documented_read_def fd_reads_def by (meson less_imp_le)
  then show ?case
    by (auto simp: read_final_def errno_defs split: option.split)
qed

lemma run_write_contract:
  assumes "documented_write write fd open written space failure delays"
  shows "chunk_writer (run_write write) (fd_reads fd open) (\<lambda>d. written (fd_file d)) (\<lambda>d. space (fd_file d))
     (\<lambda>d. - failure (fd_file d)) (\<lambda>d. delays (fd_file d))"
proof (unfold_locales, goal_cases)
  case (1 d data)
  then have "open (fd_file d)" and fd: "fd_number d = fd"
    by (simp_all add: fd_reads_def)
  with assms 1(2,3) obtain r errno w' where
    r: "write fd data (fd_file d) = (r, errno, w')" "open w'" "failure w' = failure (fd_file d)" and
    cs: "0 < r \<and> r \<le> int (length data) \<and> r < 2 ^ 31 \<and> space (fd_file d) (nat r) \<and>
           written w' = written (fd_file d) @ take (nat r) data \<and> (\<forall>k. space w' k = space (fd_file d) (nat r + k)) \<or>
         r = - 1 \<and> errno \<in> {EAGAIN, EINTR} \<and> written w' = written (fd_file d) \<and> space w' = space (fd_file d) \<and>
           delays w' < delays (fd_file d) \<or>
         r = - 1 \<and> errno = failure (fd_file d) \<and> \<not> space (fd_file d) (length data) \<and> written w' = written (fd_file d) \<and>
           space w' = space (fd_file d)"
    unfolding documented_write_def by blast
  from cs have "to_int r = r"
    by auto
  with r(1) fd have run: "run_write write d data = Some (if r < 0 then - errno else r, d\<lparr>fd_file := w'\<rparr>)"
    by (simp add: run_write_def)
  have inv: "fd_reads fd open (d\<lparr>fd_file := w'\<rparr>)" "- failure (fd_file (d\<lparr>fd_file := w'\<rparr>)) = - failure (fd_file d)"
    using r(2,3) fd by (simp_all add: fd_reads_def)
  define rc where "rc = (if r < 0 then - errno else r)"
  from cs have "0 < rc \<and> rc \<le> int (length data) \<and> space (fd_file d) (nat rc) \<and>
           written w' = written (fd_file d) @ take (nat rc) data \<and> (\<forall>k. space w' k = space (fd_file d) (nat rc + k)) \<or>
         rc \<in> {- EAGAIN, - EINTR} \<and> written w' = written (fd_file d) \<and> space w' = space (fd_file d) \<and>
           delays w' < delays (fd_file d) \<or>
         rc = - failure (fd_file d) \<and> \<not> space (fd_file d) (length data) \<and>
           written w' = written (fd_file d) \<and> space w' = space (fd_file d)"
    unfolding rc_def by (elim disjE) simp_all
  with run inv show ?case
    unfolding rc_def [symmetric] by (intro exI [of _ rc] exI [of _ "d\<lparr>fd_file := w'\<rparr>"] conjI) simp_all
next
  case (2 d)
  with assms show ?case
    by (fastforce simp: documented_write_def fd_reads_def errno_defs)
qed

context chunk_reader
begin

lemma is_reader: "reader (ChunkSource f) rinv stream final patience"
  by unfold_locales

end

context chunk_writer
begin

lemma is_writer: "writer (ChunkSink f) winv accepted fits wfinal wpatience"
  by unfold_locales

end

lemma filedesc_channel:
  assumes "documented_read read fd open pending failure delays" and "documented_write write fd' open' written space wfailure wdelays"
  shows "channel (ChunkSource (run_read read)) (fd_reads fd open) (\<lambda>d. pending (fd_file d)) (read_final failure) (\<lambda>d. delays (fd_file d))
     (ChunkSink (run_write write)) (fd_reads fd' open') (\<lambda>d. written (fd_file d)) (\<lambda>d. space (fd_file d))
     (\<lambda>d. - wfailure (fd_file d)) (\<lambda>d. wdelays (fd_file d))"
  by (rule channel.intro [OF chunk_reader.is_reader [OF run_read_contract [OF assms(1)]]
        chunk_writer.is_writer [OF run_write_contract [OF assms(2)]]])

text \<open>The return value goes through an \<open>int\<close>: a call that reads \<open>2 ^ 32\<close> octets is taken for the end of the file, and one
  that writes as many for one that wrote nothing.\<close>

lemma count_truncated:
  assumes "read (fd_number d) n (fd_file d) = (2 ^ 32, data, errno, w')" and "write (fd_number d) data (fd_file d) = (2 ^ 32, errno, w')"
  shows "run_read read d n = Some (- ENODATA, data, d\<lparr>fd_file := w'\<rparr>) \<and> run_write write d data = Some (0, d\<lparr>fd_file := w'\<rparr>)"
  using assms by (simp add: run_read_def run_write_def to_int_def)

section \<open>Properties\<close>

text \<open>Files that deliver and take at most two octets a call, after a number of interruptions.\<close>

definition short_read :: "(u8 list \<times> nat) read_call" where
  "short_read fd n w = (case w of (xs, Suc k) \<Rightarrow> (- 1, [], EINTR, (xs, k))
     | (xs, 0) \<Rightarrow> (int (length (take (min n 2) xs)), take (min n 2) xs, 0, (drop (min n 2) xs, 0)))"

definition short_write :: "(u8 list \<times> nat) write_call" where
  "short_write fd data w = (case w of (xs, Suc k) \<Rightarrow> (- 1, EAGAIN, (xs, k))
     | (xs, 0) \<Rightarrow> (int (length (take 2 data)), 0, (xs @ take 2 data, 0)))"

lemma short_read_documented: "documented_read short_read fd (\<lambda>_. True) fst (\<lambda>_. None) snd"
  by (auto simp: documented_read_def short_read_def split: nat.split)

lemma short_write_documented: "documented_write short_write fd (\<lambda>_. True) fst (\<lambda>_ _. True) (\<lambda>_. EIO) snd"
  by (auto simp: documented_write_def short_write_def errno_defs min_def split: nat.split)

lemma fresh_filedesc:
  "src_fn (source_from_filedesc read si d) = ChunkSource (run_read read)" "src_driver (source_from_filedesc read si d) = d"
  "plain_retry (src_retry (source_from_filedesc read si d))"
  "snk_fn (sink_to_filedesc write ti d') = ChunkSink (run_write write)" "snk_driver (sink_to_filedesc write ti d') = d'"
  "plain_retry (snk_retry (sink_to_filedesc write ti d'))"
  by (simp_all add: source_from_filedesc_def sink_to_filedesc_def chunk_source_init_def chunk_sink_init_def plain_retry_def)

text \<open>Reading exactly \<open>n\<close> octets from a file descriptor delivers the next \<open>n\<close> octets of the file whatever the sizes of the
  pieces in which \<open>read\<close> answers, or what is left of them and the reason.\<close>

lemma filedesc_get_chunk:
  assumes "documented_read read (fd_number d) open pending failure delays" and "open (fd_file d)"
    and "0 < n" and "off + n \<le> length buf" and "length buf \<le> SSIZE_MAX" and "data = pending (fd_file d)"
  shows "\<exists>d'. source_get_chunk (source_from_filedesc read si d) buf off n =
     Some (if n \<le> length data then int n else read_final failure d, overwrite buf off (take n data),
           (source_from_filedesc read si d)\<lparr>src_driver := d'\<rparr>) \<and> pending (fd_file d') = drop n data"
proof -
  have inv: "fd_reads (fd_number d) open (src_driver (source_from_filedesc read si d))"
    using assms(2) by (simp add: fresh_filedesc fd_reads_def)
  have data: "data = pending (fd_file (src_driver (source_from_filedesc read si d)))"
    using assms(6) by (simp add: fresh_filedesc)
  note rd = chunk_reader.is_reader [OF run_read_contract [OF assms(1)]]
  show ?thesis
    using reader.get_chunk_ok [OF rd inv fresh_filedesc(1,3) assms(3,4,5) data] by (auto simp: fresh_filedesc)
qed

text \<open>C23. Copying from one file descriptor to another. When \<open>read\<close> and \<open>write\<close> do what POSIX promises, and besides move
  fewer than \<open>2 ^ 31\<close> octets in a call, as Linux does and as the driver relies on, the calls may move any number of octets
  at a time and be interrupted or refused any finite number of times. When the source descriptor fails in no other way,
  at most \<open>SSIZE_MAX\<close> octets are left of it, and the sink descriptor has room for them, draining the former into the
  latter through an auxiliary buffer of any size ends, returns the number of octets that were left of the first file,
  leaves nothing of it to be read, and has appended exactly these octets, in order, to the second file.\<close>

theorem filedesc_copy:
  assumes "documented_read read (fd_number d) open pending failure delays"
    and "documented_write write (fd_number d') open' written space wfailure wdelays"
    and "open (fd_file d)" and "failure (fd_file d) = None" and "open' (fd_file d')" and "aux_ok aux"
    and "data = pending (fd_file d)" and "\<And>k. k \<le> length data \<Longrightarrow> space (fd_file d') k" and "length data \<le> SSIZE_MAX"
  shows "\<exists>src snk aux'. sts_drain_aux (source_from_filedesc read si d) (sink_to_filedesc write ti d') aux =
           Some (int (length data), src, snk, aux') \<and>
         pending (fd_file (src_driver src)) = [] \<and> written (fd_file (snk_driver snk)) = written (fd_file d') @ data"
proof -
  note ch = filedesc_channel [OF assms(1,2)]
  have joined: "channel.joined (ChunkSource (run_read read)) (fd_reads (fd_number d) open) (ChunkSink (run_write write))
      (fd_reads (fd_number d') open') (source_from_filedesc read si d) (sink_to_filedesc write ti d')"
    using assms(3,5) by (simp add: channel.joined_def [OF ch] fresh_filedesc fd_reads_def)
  have "data = pending (fd_file (src_driver (source_from_filedesc read si d)))"
      "read_final failure (src_driver (source_from_filedesc read si d)) = - ENODATA"
    using assms(4,7) by (simp_all add: fresh_filedesc read_final_def)
  from channel.drain_aux_ok [OF ch joined assms(6) this] assms(8,9) obtain src snk aux' where
    r: "sts_drain_aux (source_from_filedesc read si d) (sink_to_filedesc write ti d') aux = Some (int (length data), src, snk, aux')"
      "channel.moved (ChunkSource (run_read read)) (fd_reads (fd_number d) open) (\<lambda>d. pending (fd_file d)) (read_final failure)
         (ChunkSink (run_write write)) (fd_reads (fd_number d') open') (\<lambda>d. written (fd_file d)) (\<lambda>d. space (fd_file d))
         (\<lambda>d. - wfailure (fd_file d)) (source_from_filedesc read si d) (sink_to_filedesc write ti d') (length data) (length data) src snk"
    by (auto simp: fresh_filedesc)
  from r(2) show ?thesis
    using r(1) assms(7) by (auto simp: channel.moved_def [OF ch] fresh_filedesc)
qed

lemma filedesc_copy_witness:
  "\<exists>src snk aux'. sts_drain_aux
       (source_from_filedesc short_read (idle_source \<lparr>fd_number = 3, fd_file = ([1, 2, 3, 4, 5], 2)\<rparr>) \<lparr>fd_number = 3, fd_file = ([1, 2, 3, 4, 5], 2)\<rparr>)
       (sink_to_filedesc short_write (idle_sink \<lparr>fd_number = 4, fd_file = ([9], 1)\<rparr>) \<lparr>fd_number = 4, fd_file = ([9], 1)\<rparr>) sample_buffer =
     Some (5, src, snk, aux') \<and> fst (fd_file (src_driver src)) = [] \<and> fst (fd_file (snk_driver snk)) = [9, 1, 2, 3, 4, 5]"
  using filedesc_copy [OF short_read_documented short_write_documented, where d = "\<lparr>fd_number = 3, fd_file = ([1, 2, 3, 4, 5], 2)\<rparr>"
      and d' = "\<lparr>fd_number = 4, fd_file = ([9], 1)\<rparr>" and aux = sample_buffer]
  by (simp add: sample_buffer_def aux_ok_def SSIZE_MAX_def)

end
