(* ===== verification/Zephyr_Endpoints.thy ===== *)
theory Zephyr_Endpoints
  imports Posix_Endpoints
begin

text \<open>
  The endpoints for the Zephyr kernel: \<^verbatim>\<open>src/z/endpoint-uart-fifo.c\<close>, \<^verbatim>\<open>src/z/endpoint-uart-poll.c\<close> and
  \<^verbatim>\<open>src/z/slab-allocator.c\<close>. The calls of the kernel are parameters, functions on the state \<open>'w\<close> of the devices, pipes
  and slabs they reach; \<open>config_pipes\<close> chooses between the two interfaces of pipes the code is written for. What the
  kernel documents of a call is a hypothesis of the lemmas, which show that the endpoints keep the contracts of
  \<^verbatim>\<open>Endpoint_Core\<close> and which octets the receive callback moves or loses.
\<close>

definition ETIMEDOUT :: int where [errno_defs]: "ETIMEDOUT = 110"

section \<open>UART with receive FIFO\<close>

text \<open>The calls that put octets into a pipe answer with a code that the callback does not look at.\<close>

record 'w fifo_calls =
  irq_update :: "'w \<Rightarrow> int \<times> 'w"
  irq_rx_ready :: "'w \<Rightarrow> int \<times> 'w"
  fifo_read :: "'w \<Rightarrow> nat \<Rightarrow> int \<times> u8 list \<times> 'w"
  pipe_put :: "'w \<Rightarrow> u8 list \<Rightarrow> nat \<Rightarrow> int \<times> 'w"
  pipe_write :: "'w \<Rightarrow> u8 list \<Rightarrow> int \<times> 'w"

partial_function (option) ufwz_uart_fifo_source_cb :: "bool \<Rightarrow> 'w fifo_calls \<Rightarrow> 'w \<Rightarrow> 'w option" where
  "ufwz_uart_fifo_source_cb config_pipes k w =
     (let (up, w) = irq_update k w in
      if up = 0 then Some w
      else let (ready, w) = irq_rx_ready k w in
        if ready = 0 then Some w
        else let (rc, buf, w) = fifo_read k w 16 in
          if rc \<le> 0 then ufwz_uart_fifo_source_cb config_pipes k w
          else ufwz_uart_fifo_source_cb config_pipes k
            (if config_pipes then snd (pipe_put k w (take (nat rc) buf) (nat rc)) else snd (pipe_write k w (take (nat rc) buf))))"

text \<open>\<open>k_pipe_get\<close> answers with a code, the octets and their number, \<open>k_pipe_read\<close> with a code or the number.\<close>

definition ufwz_uart_fifo_source ::
    "bool \<Rightarrow> ('w \<Rightarrow> nat \<Rightarrow> int \<times> u8 list \<times> nat \<times> 'w) \<Rightarrow> ('w \<Rightarrow> nat \<Rightarrow> int \<times> u8 list \<times> 'w) \<Rightarrow> 'w \<Rightarrow> nat \<Rightarrow> (int \<times> u8 list \<times> 'w) option" where
  "ufwz_uart_fifo_source config_pipes k_pipe_get k_pipe_read w n =
     (let (rc, buffer, done', w) = (if config_pipes then k_pipe_get w n else (let (rc, buffer, w) = k_pipe_read w n in (rc, buffer, 0, w)))
      in Some (if rc = - EAGAIN then - ETIMEDOUT
               else if rc < 0 then rc
               else if config_pipes then to_int (to_ssize done') else rc, buffer, w))"

definition ufwz_uart_fifo_source_init :: "('w \<Rightarrow> int \<times> 'w) \<Rightarrow> ('w \<Rightarrow> 'w) \<Rightarrow> 'w \<Rightarrow> int \<times> 'w" where
  "ufwz_uart_fifo_source_init callback_user_data_set irq_rx_enable w =
     (let (rc, w) = callback_user_data_set w in
      if rc < 0 then (0, w) else (rc, irq_rx_enable w))"

text \<open>A callback that could not be installed is reported as success.\<close>

lemma fifo_init_hides_error:
  "callback_user_data_set w = (rc, w') \<Longrightarrow> rc < 0 \<Longrightarrow> ufwz_uart_fifo_source_init callback_user_data_set irq_rx_enable w = (0, w')"
  by (simp add: ufwz_uart_fifo_source_init_def)

section \<open>Polled UART\<close>

definition ufwz_uart_octet_sink :: "('w \<Rightarrow> u8 \<Rightarrow> 'w) \<Rightarrow> 'w \<Rightarrow> u8 \<Rightarrow> (int \<times> 'w) option" where
  "ufwz_uart_octet_sink uart_poll_out w value' = Some (1, uart_poll_out w value')"

text \<open>Neither the code nor the number of octets of the pipe is looked at.\<close>

definition ufwz_uart_octet_source ::
    "bool \<Rightarrow> ('w \<Rightarrow> nat \<Rightarrow> int \<times> u8 list \<times> nat \<times> 'w) \<Rightarrow> ('w \<Rightarrow> nat \<Rightarrow> int \<times> u8 list \<times> 'w) \<Rightarrow> 'w \<Rightarrow> (int \<times> u8 list \<times> 'w) option" where
  "ufwz_uart_octet_source config_pipes k_pipe_get k_pipe_read w =
     (if config_pipes then (let (_, value', _, w) = k_pipe_get w 1 in Some (1, value', w))
      else (let (_, value', w) = k_pipe_read w 1 in Some (1, value', w)))"

record 'w poll_calls =
  poll_in :: "'w \<Rightarrow> int \<times> u8 list \<times> 'w"
  poll_put :: "'w \<Rightarrow> u8 \<Rightarrow> 'w"
  msleep :: "'w \<Rightarrow> int \<Rightarrow> 'w"
  yield' :: "'w \<Rightarrow> 'w"
  sem_take :: "'w \<Rightarrow> 'w"

partial_function (option) poll_drain :: "'w poll_calls \<Rightarrow> u8 \<Rightarrow> 'w \<Rightarrow> 'w option" where
  "poll_drain k value' w =
     (let (rc, xs, w) = poll_in k w;
          value' = (case xs of [] \<Rightarrow> value' | x # _ \<Rightarrow> x) in
      if rc = 0 then poll_drain k value' (poll_put k w value') else Some w)"

text \<open>One round of the thread, which never ends, and its beginning.\<close>

definition poll_round :: "'w poll_calls \<Rightarrow> int \<Rightarrow> 'w \<Rightarrow> 'w option" where
  "poll_round k yieldtime w = do {
     w \<leftarrow> poll_drain k 0 w;
     Some (if yieldtime > 0 then msleep k w yieldtime else yield' k w)
   }"

fun ufwz_uart_poll_thread_cb :: "'w poll_calls \<Rightarrow> int \<Rightarrow> nat \<Rightarrow> 'w \<Rightarrow> 'w option" where
  "ufwz_uart_poll_thread_cb k yieldtime 0 w = Some w"
| "ufwz_uart_poll_thread_cb k yieldtime (Suc rounds) w =
     do { w \<leftarrow> poll_round k yieldtime w; ufwz_uart_poll_thread_cb k yieldtime rounds w }"

definition poll_thread_start :: "'w poll_calls \<Rightarrow> bool \<Rightarrow> 'w \<Rightarrow> 'w" where
  "poll_thread_start k has_sem w = (if has_sem then sem_take k w else w)"

section \<open>Slabs\<close>

definition ufwz_slab_alloc :: "('w \<Rightarrow> int \<times> u8 list option \<times> 'w) \<Rightarrow> 'w \<Rightarrow> int \<times> u8 list option \<times> 'w" where
  "ufwz_slab_alloc k_mem_slab_alloc driver = k_mem_slab_alloc driver"

definition ufwz_slab_free :: "('w \<Rightarrow> u8 list option \<Rightarrow> 'w) \<Rightarrow> 'w \<Rightarrow> u8 list option \<Rightarrow> 'w" where
  "ufwz_slab_free k_mem_slab_free driver memory = k_mem_slab_free driver memory"

section \<open>What the callback moves\<close>

text \<open>The device has received some octets; reading takes the first of them. A pipe takes all of what it is given when it has
  the room, and otherwise, because the callback does not wait, nothing with the older interface and what fits with the
  newer one.\<close>

definition documented_fifo ::
    "'w fifo_calls \<Rightarrow> ('w \<Rightarrow> u8 list) \<Rightarrow> ('w \<Rightarrow> u8 list) \<Rightarrow> nat \<Rightarrow> bool" where
  "documented_fifo k rx pipe size' \<longleftrightarrow>
     (\<forall>w. \<exists>up w'. irq_update k w = (up, w') \<and> up \<noteq> 0 \<and> rx w' = rx w \<and> pipe w' = pipe w) \<and>
     (\<forall>w. \<exists>r w'. irq_rx_ready k w = (r, w') \<and> (r = 0 \<longleftrightarrow> rx w = []) \<and> rx w' = rx w \<and> pipe w' = pipe w) \<and>
     (\<forall>w n. \<exists>w'. fifo_read k w n = (int (min n (length (rx w))), take n (rx w), w') \<and> rx w' = drop n (rx w) \<and> pipe w' = pipe w) \<and>
     (\<forall>w xs. \<exists>rc w'. pipe_put k w xs (length xs) = (rc, w') \<and> rx w' = rx w \<and>
        pipe w' = (if length (pipe w) + length xs \<le> size' then pipe w @ xs else pipe w)) \<and>
     (\<forall>w xs. \<exists>rc w'. pipe_write k w xs = (rc, w') \<and> rx w' = rx w \<and> pipe w' = take (max size' (length (pipe w))) (pipe w @ xs))"

lemma fifo_callback_step:
  assumes "documented_fifo k rx pipe size'"
  shows "rx w = [] \<Longrightarrow> \<exists>w'. ufwz_uart_fifo_source_cb config_pipes k w = Some w' \<and> rx w' = [] \<and> pipe w' = pipe w"
    and "rx w \<noteq> [] \<Longrightarrow> \<exists>w'. ufwz_uart_fifo_source_cb config_pipes k w = ufwz_uart_fifo_source_cb config_pipes k w' \<and> rx w' = drop 16 (rx w) \<and>
       pipe w' = (if config_pipes
          then (if length (pipe w) + length (take 16 (rx w)) \<le> size' then pipe w @ take 16 (rx w) else pipe w)
          else take (max size' (length (pipe w))) (pipe w @ take 16 (rx w)))"
proof -
  obtain up w1 where up: "irq_update k w = (up, w1)" "up \<noteq> 0" "rx w1 = rx w" "pipe w1 = pipe w"
    using assms unfolding documented_fifo_def by blast
  obtain r w2 where ready: "irq_rx_ready k w1 = (r, w2)" "r = 0 \<longleftrightarrow> rx w1 = []" "rx w2 = rx w1" "pipe w2 = pipe w1"
    using assms unfolding documented_fifo_def by blast
  note unf = ufwz_uart_fifo_source_cb.simps [of config_pipes k w]
  show "rx w = [] \<Longrightarrow> \<exists>w'. ufwz_uart_fifo_source_cb config_pipes k w = Some w' \<and> rx w' = [] \<and> pipe w' = pipe w"
    using up ready by (subst unf) simp
  assume "rx w \<noteq> []"
  obtain w3 where rd: "fifo_read k w2 16 = (int (min 16 (length (rx w2))), take 16 (rx w2), w3)" "rx w3 = drop 16 (rx w2)" "pipe w3 = pipe w2"
    using assms unfolding documented_fifo_def by blast
  let ?xs = "take 16 (rx w)"
  obtain rc w4 where put: "pipe_put k w3 ?xs (length ?xs) = (rc, w4)" "rx w4 = rx w3"
    "pipe w4 = (if length (pipe w3) + length ?xs \<le> size' then pipe w3 @ ?xs else pipe w3)"
    using assms unfolding documented_fifo_def by blast
  obtain rc' w5 where wr: "pipe_write k w3 ?xs = (rc', w5)" "rx w5 = rx w3" "pipe w5 = take (max size' (length (pipe w3))) (pipe w3 @ ?xs)"
    using assms unfolding documented_fifo_def by blast
  have len: "nat (int (min 16 (length (rx w)))) = length ?xs" "take (length ?xs) ?xs = ?xs" "\<not> int (min 16 (length (rx w))) \<le> 0"
    using \<open>rx w \<noteq> []\<close> by (simp_all add: min_def)
  have nz: "(min (length (rx w)) 16 = 0) = False"
    using \<open>rx w \<noteq> []\<close> by simp
  have "ufwz_uart_fifo_source_cb config_pipes k w = ufwz_uart_fifo_source_cb config_pipes k (if config_pipes then w4 else w5)"
    using up ready(1,2) rd(1) len put(1) wr(1) \<open>rx w \<noteq> []\<close> ready(3) by (subst unf) (simp add: Let_def nz)
  then show "\<exists>w'. ufwz_uart_fifo_source_cb config_pipes k w = ufwz_uart_fifo_source_cb config_pipes k w' \<and> rx w' = drop 16 (rx w) \<and>
       pipe w' = (if config_pipes
          then (if length (pipe w) + length (take 16 (rx w)) \<le> size' then pipe w @ take 16 (rx w) else pipe w)
          else take (max size' (length (pipe w))) (pipe w @ take 16 (rx w)))"
    using put(2,3) wr(2,3) rd(2,3) ready(3,4) up(3,4) by (intro exI [of _ "if config_pipes then w4 else w5"]) simp
qed

text \<open>With room in the pipe the callback ends, has emptied the device and moved every octet in order.\<close>

lemma fifo_callback_moves:
  assumes "documented_fifo k rx pipe size'" and "length (pipe w) + length (rx w) \<le> size'"
  shows "\<exists>w'. ufwz_uart_fifo_source_cb config_pipes k w = Some w' \<and> rx w' = [] \<and> pipe w' = pipe w @ rx w"
  using assms(2)
proof (induction "length (rx w)" arbitrary: w rule: less_induct)
  case less
  show ?case
  proof (cases "rx w = []")
    case True
    then show ?thesis
      using fifo_callback_step(1) [OF assms(1)] by simp
  next
    case False
    have fit: "length (pipe w) + length (take 16 (rx w)) \<le> size'"
      using less.prems by (simp add: min_def)
    then have all: "take (max size' (length (pipe w))) (pipe w @ take 16 (rx w)) = pipe w @ take 16 (rx w)"
      by (intro take_all) simp
    with False obtain w1 where w1: "ufwz_uart_fifo_source_cb config_pipes k w = ufwz_uart_fifo_source_cb config_pipes k w1"
      "rx w1 = drop 16 (rx w)" "pipe w1 = pipe w @ take 16 (rx w)"
      using fifo_callback_step(2) [OF assms(1) False, of config_pipes] by (auto simp only: fit all if_True if_cancel)
    moreover have "length (rx w1) < length (rx w)"
      using False w1(2) by simp
    ultimately show ?thesis
      using less.hyps [of w1] less.prems by simp
  qed
qed

text \<open>Octets that the pipe has no room for are lost without a report.\<close>

lemma fifo_callback_loses:
  assumes "documented_fifo k rx pipe size'" and "length (pipe w) = size'"
  shows "\<exists>w'. ufwz_uart_fifo_source_cb config_pipes k w = Some w' \<and> rx w' = [] \<and> pipe w' = pipe w"
  using assms(2)
proof (induction "length (rx w)" arbitrary: w rule: less_induct)
  case less
  show ?case
  proof (cases "rx w = []")
    case True
    then show ?thesis
      using fifo_callback_step(1) [OF assms(1)] by simp
  next
    case False
    then obtain w1 where w1: "ufwz_uart_fifo_source_cb config_pipes k w = ufwz_uart_fifo_source_cb config_pipes k w1"
      "rx w1 = drop 16 (rx w)" "pipe w1 = pipe w"
      using fifo_callback_step(2) [OF assms(1) False, of config_pipes] less.prems
      by (cases config_pipes) (auto simp: min_def max_def split: if_splits)
    moreover have "length (rx w1) < length (rx w)"
      using False w1(2) by simp
    ultimately show ?thesis
      using less.hyps [of w1] less.prems by simp
  qed
qed

section \<open>The endpoints keep the contracts\<close>

text \<open>A pipe hands out its first octets, at least one, or answers that the time is over; nobody writes to it meanwhile.\<close>

definition documented_pipe ::
    "('w \<Rightarrow> nat \<Rightarrow> int \<times> u8 list \<times> nat \<times> 'w) \<Rightarrow> ('w \<Rightarrow> nat \<Rightarrow> int \<times> u8 list \<times> 'w) \<Rightarrow> ('w \<Rightarrow> u8 list) \<Rightarrow> bool" where
  "documented_pipe k_pipe_get k_pipe_read content \<longleftrightarrow> (\<forall>w n. 0 < n \<and> n \<le> SSIZE_MAX \<longrightarrow>
     (if content w = []
      then (\<exists>w'. k_pipe_get w n = (- EAGAIN, [], 0, w') \<and> content w' = []) \<and> (\<exists>w'. k_pipe_read w n = (- EAGAIN, [], w') \<and> content w' = [])
      else (\<exists>k w'. 0 < k \<and> k \<le> n \<and> k \<le> length (content w) \<and> k < 2 ^ 31 \<and> k_pipe_get w n = (0, take k (content w), k, w') \<and>
              content w' = drop k (content w)) \<and>
           (\<exists>k w'. 0 < k \<and> k \<le> n \<and> k \<le> length (content w) \<and> k < 2 ^ 31 \<and> k_pipe_read w n = (int k, take k (content w), w') \<and>
              content w' = drop k (content w))))"

lemma uart_fifo_contract:
  assumes "documented_pipe k_pipe_get k_pipe_read content"
  shows "chunk_reader (ufwz_uart_fifo_source config_pipes k_pipe_get k_pipe_read) (\<lambda>_. True) content (\<lambda>_. - ETIMEDOUT) (\<lambda>_. 0)"
proof (unfold_locales, goal_cases)
  case (1 w n)
  show ?case
  proof (cases "content w = []")
    case True
    with assms 1(2,3) obtain w' w'' where "k_pipe_get w n = (- EAGAIN, [], 0, w')" "content w' = []"
      "k_pipe_read w n = (- EAGAIN, [], w'')" "content w'' = []"
      unfolding documented_pipe_def by (metis (full_types))
    with True show ?thesis
      by (simp add: ufwz_uart_fifo_source_def)
  next
    case False
    with assms 1(2,3) obtain k w' k' w'' where
      "0 < k" "k \<le> n" "k \<le> length (content w)" "k < 2 ^ 31" "k_pipe_get w n = (0, take k (content w), k, w')" "content w' = drop k (content w)"
      "0 < k'" "k' \<le> n" "k' \<le> length (content w)" "k' < 2 ^ 31" "k_pipe_read w n = (int k', take k' (content w), w'')" "content w'' = drop k' (content w)"
      unfolding documented_pipe_def by (metis (full_types))
    then show ?thesis
      by (cases config_pipes) (simp_all add: ufwz_uart_fifo_source_def to_ssize_def SSIZE_MAX_def EAGAIN_def)
  qed
next
  case (2 w)
  then show ?case
    by (simp add: errno_defs)
qed

lemma uart_poll_sink_contract:
  assumes "\<And>w x. sent (uart_poll_out w x) = sent w @ [x]"
  shows "octet_writer (ufwz_uart_octet_sink uart_poll_out) (\<lambda>_. True) sent (\<lambda>_ _. True) (\<lambda>_. - EIO) (\<lambda>_. 0)"
  using assms by unfold_locales (simp_all add: ufwz_uart_octet_sink_def errno_defs)

text \<open>So a fixed number of octets is read from the UART as from any source: all of them, or those that came before the time
  was over, and \<open>-ETIMEDOUT\<close>.\<close>

lemma uart_fifo_get_chunk:
  assumes "documented_pipe k_pipe_get k_pipe_read content" and "src_fn source = ChunkSource (ufwz_uart_fifo_source config_pipes k_pipe_get k_pipe_read)"
    and "plain_retry (src_retry source)" and "0 < n" and "off + n \<le> length buf" and "length buf \<le> SSIZE_MAX"
    and "data = content (src_driver source)"
  shows "\<exists>w'. source_get_chunk source buf off n =
     Some (if n \<le> length data then int n else - ETIMEDOUT, overwrite buf off (take n data), source\<lparr>src_driver := w'\<rparr>) \<and>
     content w' = drop n data"
proof -
  have "reader (ChunkSource (ufwz_uart_fifo_source config_pipes k_pipe_get k_pipe_read)) (\<lambda>_. True) content (\<lambda>_. - ETIMEDOUT) (\<lambda>_. 0)"
    by (rule chunk_reader.is_reader [OF uart_fifo_contract [OF assms(1)]])
  from reader.get_chunk_ok [OF this TrueI assms(2-7)] show ?thesis
    by blast
qed

end
