(* ===== verification/Varint.thy ===== *)
theory Varint
  imports Endpoint_Drivers
begin

text \<open>
  Variable length integers: \<^verbatim>\<open>src/variable-length-integer.c\<close>. Seven bits per octet, the least
  significant first, with the top bit set on every octet but the last. Signed values are their two's
  complement bit patterns; \<open>sint\<close> reads them. The lemmas relate the loops over memory to the sequence
  of octets a number stands for.
\<close>

type_synonym s32 = "32 word"
type_synonym s64 = "64 word"

lemma drop_bit_7_less:
  fixes n :: u64
  assumes "drop_bit 7 n \<noteq> 0"
  shows "unat (drop_bit 7 n) < unat n"
proof -
  have "unat (drop_bit 7 n) = drop_bit 7 (unat n)"
    by (rule unat_drop_bit_eq)
  also have "\<dots> = unat n div 128"
    by (simp add: drop_bit_eq_div)
  finally have eq: "unat (drop_bit 7 n) = unat n div 128" .
  have "unat (drop_bit 7 n) \<noteq> 0"
    using assms by (simp only: unsigned_eq_0_iff not_False_eq_True)
  then show ?thesis
    unfolding eq by (intro div_less_dividend) (cases "unat n"; simp)+
qed

section \<open>The code\<close>

definition VARINT_CONTINUATION_MASK :: u8 where "VARINT_CONTINUATION_MASK = 0x80"
definition VARINT_DATA_MASK :: u8 where "VARINT_DATA_MASK = 0x7f"
definition VARINT_DATA_BITS :: nat where "VARINT_DATA_BITS = 7"
definition VARINT_32BIT_MAX_OCTETS :: nat where "VARINT_32BIT_MAX_OCTETS = 5"
definition VARINT_64BIT_MAX_OCTETS :: nat where "VARINT_64BIT_MAX_OCTETS = 10"

lemmas varint_consts = VARINT_CONTINUATION_MASK_def VARINT_DATA_MASK_def VARINT_DATA_BITS_def
  VARINT_32BIT_MAX_OCTETS_def VARINT_64BIT_MAX_OCTETS_def

definition varint_done :: "u8 \<Rightarrow> bool" where
  "varint_done octet \<longleftrightarrow> octet AND VARINT_CONTINUATION_MASK = 0"

text \<open>The loop writes at position \<open>pos\<close>; the result is the count, the memory, and the new fill mark.\<close>

function varint_encode_loop :: "u64 \<Rightarrow> u8 list \<Rightarrow> nat \<Rightarrow> nat \<Rightarrow> (int \<times> u8 list \<times> nat) option" where
  "varint_encode_loop n m pos i = do {
     m1 \<leftarrow> mem_write m pos [ucast (n AND ucast VARINT_DATA_MASK)];
     let n' = drop_bit VARINT_DATA_BITS n;
     if n' = 0 then Some (int i, m1, pos + 1)
     else do {
       x \<leftarrow> mem_read m1 pos 1;
       m2 \<leftarrow> mem_write m1 pos [hd x OR VARINT_CONTINUATION_MASK];
       varint_encode_loop n' m2 (pos + 1) (i + 1)
     }
   }"
  by auto
termination
proof (relation "measure (\<lambda>(n, m, pos, i). unat n)")
  fix n n' :: u64
  assume "n' = drop_bit VARINT_DATA_BITS n" "n' \<noteq> 0"
  then have "unat n' < unat n"
    using drop_bit_7_less [of n] by (simp add: VARINT_DATA_BITS_def)
  then show "((n', m2, pos + 1, i + 1), n, m, pos, i) \<in> measure (\<lambda>(n, m, pos, i). unat n)"
    for m2 m :: "u8 list" and pos i :: nat
    by simp
qed simp

declare varint_encode_loop.simps [simp del]

definition varint_encode :: "u64 \<Rightarrow> ByteBuffer \<Rightarrow> (int \<times> ByteBuffer) option" where
  "varint_encode n b = do {
     m \<leftarrow> bb_data b;
     (rc, m', used) \<leftarrow> varint_encode_loop n m (bb_offset b) 1;
     Some (rc, b\<lparr>bb_data := Some m', bb_used := used\<rparr>)
   }"

text \<open>\<open>left\<close> counts the octets that may still be read; \<open>i\<close> is the loop variable of the code.\<close>

fun varint_decode_loop :: "ByteBuffer \<Rightarrow> nat \<Rightarrow> nat \<Rightarrow> u64 \<Rightarrow> (int \<times> u64 \<times> ByteBuffer) option" where
  "varint_decode_loop b i 0 n = Some (- EILSEQ, n, b)"
| "varint_decode_loop b i (Suc left) n = do {
     m \<leftarrow> bb_data b;
     datum \<leftarrow> mem_read m (bb_offset b + i) 1;
     let n' = n OR push_bit (i * VARINT_DATA_BITS) (ucast (hd datum AND VARINT_DATA_MASK));
     if varint_done (hd datum) then
       Some (int (i + 1), n', b\<lparr>bb_offset := sz_add (bb_offset b) (i + 1)\<rparr>)
     else varint_decode_loop b (i + 1) left n'
   }"

definition varint_decode :: "ByteBuffer \<Rightarrow> nat \<Rightarrow> (int \<times> u64 \<times> ByteBuffer) option" where
  "varint_decode b maxoctets = varint_decode_loop b 0 maxoctets 0"

text \<open>
  When the source fails, the code still mixes the octet variable, which nothing set, into the result before
  it returns the error. Every caller drops the result then; the model leaves it as it was.
\<close>

fun varint_from_source_loop :: "'s Source \<Rightarrow> nat \<Rightarrow> nat \<Rightarrow> u64 \<Rightarrow> (int \<times> u64 \<times> 's Source) option" where
  "varint_from_source_loop source i 0 n = Some (- EILSEQ, n, source)"
| "varint_from_source_loop source i (Suc left) n = do {
     (rc, data, src) \<leftarrow> source_get_octet source;
     if rc < 0 then Some (rc, n, src)
     else if data = [] then None
     else do {
       let n' = n OR push_bit (i * VARINT_DATA_BITS) (ucast (hd data AND VARINT_DATA_MASK));
       if varint_done (hd data) then Some (int (i + 1), n', src)
       else varint_from_source_loop src (i + 1) left n'
     }
   }"

definition varint_from_source :: "'s Source \<Rightarrow> nat \<Rightarrow> (int \<times> u64 \<times> 's Source) option" where
  "varint_from_source source maxoctets = varint_from_source_loop source 0 maxoctets 0"

definition varint_decode_u32 :: "ByteBuffer \<Rightarrow> (int \<times> u32 \<times> ByteBuffer) option" where
  "varint_decode_u32 b = do {
     (rc, u, b') \<leftarrow> varint_decode b VARINT_32BIT_MAX_OCTETS;
     Some (rc, ucast u, b')
   }"

definition varint_decode_s32 :: "ByteBuffer \<Rightarrow> (int \<times> s32 \<times> ByteBuffer) option" where
  "varint_decode_s32 b = do {
     (rc, u, b') \<leftarrow> varint_decode b VARINT_32BIT_MAX_OCTETS;
     Some (rc, ucast u, b')
   }"

definition varint_decode_u64 :: "ByteBuffer \<Rightarrow> (int \<times> u64 \<times> ByteBuffer) option" where
  "varint_decode_u64 b = varint_decode b VARINT_64BIT_MAX_OCTETS"

definition varint_decode_s64 :: "ByteBuffer \<Rightarrow> (int \<times> s64 \<times> ByteBuffer) option" where
  "varint_decode_s64 b = varint_decode b VARINT_64BIT_MAX_OCTETS"

definition varint_encode_u32 :: "ByteBuffer \<Rightarrow> u32 \<Rightarrow> (int \<times> ByteBuffer) option" where
  "varint_encode_u32 b n =
     (if byte_buffer_avail b < VARINT_32BIT_MAX_OCTETS then Some (- EINVAL, b)
      else varint_encode (ucast n) b)"

definition varint_encode_s32 :: "ByteBuffer \<Rightarrow> s32 \<Rightarrow> (int \<times> ByteBuffer) option" where
  "varint_encode_s32 b n =
     (if byte_buffer_avail b < VARINT_32BIT_MAX_OCTETS then Some (- EINVAL, b)
      else varint_encode (scast n AND ucast (- 1 :: u32)) b)"

definition varint_encode_u64 :: "ByteBuffer \<Rightarrow> u64 \<Rightarrow> (int \<times> ByteBuffer) option" where
  "varint_encode_u64 b n =
     (if byte_buffer_avail b < VARINT_64BIT_MAX_OCTETS then Some (- EINVAL, b)
      else varint_encode n b)"

definition varint_encode_s64 :: "ByteBuffer \<Rightarrow> s64 \<Rightarrow> (int \<times> ByteBuffer) option" where
  "varint_encode_s64 b n =
     (if byte_buffer_avail b < VARINT_64BIT_MAX_OCTETS then Some (- EINVAL, b)
      else varint_encode n b)"

text \<open>The value is stored only when the call did not fail; the old value is an argument.\<close>

definition varint_u32_from_source :: "'s Source \<Rightarrow> u32 \<Rightarrow> (int \<times> u32 \<times> 's Source) option" where
  "varint_u32_from_source source n0 = do {
     (rc, u, src) \<leftarrow> varint_from_source source VARINT_32BIT_MAX_OCTETS;
     Some (rc, if rc \<ge> 0 then ucast u else n0, src)
   }"

definition varint_s32_from_source :: "'s Source \<Rightarrow> s32 \<Rightarrow> (int \<times> s32 \<times> 's Source) option" where
  "varint_s32_from_source source n0 = do {
     (rc, u, src) \<leftarrow> varint_from_source source VARINT_32BIT_MAX_OCTETS;
     Some (rc, if rc \<ge> 0 then ucast u else n0, src)
   }"

definition varint_u64_from_source :: "'s Source \<Rightarrow> u64 \<Rightarrow> (int \<times> u64 \<times> 's Source) option" where
  "varint_u64_from_source source n0 = do {
     (rc, u, src) \<leftarrow> varint_from_source source VARINT_64BIT_MAX_OCTETS;
     Some (rc, if rc \<ge> 0 then u else n0, src)
   }"

definition varint_s64_from_source :: "'s Source \<Rightarrow> s64 \<Rightarrow> (int \<times> s64 \<times> 's Source) option" where
  "varint_s64_from_source source n0 = do {
     (rc, u, src) \<leftarrow> varint_from_source source VARINT_64BIT_MAX_OCTETS;
     Some (rc, if rc \<ge> 0 then u else n0, src)
   }"

text \<open>The local array, of which only the octets that were written are read.\<close>

definition varint_scratch :: "nat \<Rightarrow> ByteBuffer" where
  "varint_scratch n = snd (byte_buffer_space
     \<lparr>bb_data = None, bb_size = 0, bb_used = 0, bb_offset = 0\<rparr> (Some (replicate n 0)) n)"

definition varint_send :: "'t Sink \<Rightarrow> (int \<times> ByteBuffer) option \<Rightarrow> (int \<times> 't Sink) option" where
  "varint_send sink encoded = do {
     (_, buf) \<leftarrow> encoded;
     (rc, snk) \<leftarrow> sink_put_chunk sink (bb_mem buf) 0 (bb_used buf);
     Some (to_int rc, snk)
   }"

definition varint_u32_to_sink :: "'t Sink \<Rightarrow> u32 \<Rightarrow> (int \<times> 't Sink) option" where
  "varint_u32_to_sink sink n = varint_send sink (varint_encode_u32 (varint_scratch VARINT_32BIT_MAX_OCTETS) n)"

definition varint_s32_to_sink :: "'t Sink \<Rightarrow> s32 \<Rightarrow> (int \<times> 't Sink) option" where
  "varint_s32_to_sink sink n = varint_send sink (varint_encode_s32 (varint_scratch VARINT_32BIT_MAX_OCTETS) n)"

definition varint_u64_to_sink :: "'t Sink \<Rightarrow> u64 \<Rightarrow> (int \<times> 't Sink) option" where
  "varint_u64_to_sink sink n = varint_send sink (varint_encode_u64 (varint_scratch VARINT_64BIT_MAX_OCTETS) n)"

definition varint_s64_to_sink :: "'t Sink \<Rightarrow> s64 \<Rightarrow> (int \<times> 't Sink) option" where
  "varint_s64_to_sink sink n = varint_send sink (varint_encode_s64 (varint_scratch VARINT_64BIT_MAX_OCTETS) n)"

function varint_length_loop :: "u64 \<Rightarrow> nat \<Rightarrow> nat" where
  "varint_length_loop n octets =
     (let n' = drop_bit VARINT_DATA_BITS n in if n' = 0 then octets else varint_length_loop n' (octets + 1))"
  by auto
termination
proof (relation "measure (\<lambda>(n, octets). unat n)")
  fix n n' :: u64 and octets :: nat
  assume "n' = drop_bit VARINT_DATA_BITS n" "n' \<noteq> 0"
  then have "unat n' < unat n"
    using drop_bit_7_less [of n] by (simp add: VARINT_DATA_BITS_def)
  then show "((n', octets + 1), n, octets) \<in> measure (\<lambda>(n, octets). unat n)"
    by simp
qed simp

declare varint_length_loop.simps [simp del]

definition varint_u64_length :: "u64 \<Rightarrow> nat" where
  "varint_u64_length n = varint_length_loop n 1"

definition varint_s64_length :: "s64 \<Rightarrow> nat" where
  "varint_s64_length n = varint_u64_length n"

definition varint_u32_length :: "u32 \<Rightarrow> nat" where
  "varint_u32_length n = varint_u64_length (ucast n)"

definition varint_s32_length :: "s32 \<Rightarrow> nat" where
  "varint_s32_length n = varint_u64_length (ucast n)"

section \<open>The octets of a number\<close>

function varint_octets :: "u64 \<Rightarrow> u8 list" where
  "varint_octets n =
     (if drop_bit 7 n = 0 then [ucast (take_bit 7 n)]
      else (ucast (take_bit 7 n) OR 0x80) # varint_octets (drop_bit 7 n))"
  by auto
termination
proof (relation "measure unat")
  fix n :: u64
  assume "drop_bit 7 n \<noteq> 0"
  then have "unat (drop_bit 7 n) < unat n"
    by (rule drop_bit_7_less)
  then show "(drop_bit 7 n, n) \<in> measure unat"
    by simp
qed simp

declare varint_octets.simps [simp del]

lemma bit_0x7f: "bit (0x7f :: u8) k \<longleftrightarrow> k < 7"
proof -
  have "mask 7 = (0x7f :: u8)"
    by (simp add: mask_numeral)
  then show ?thesis
    using bit_mask_iff [where 'a = u8, of 7 k] by auto
qed

lemma bit_0x80: "bit (0x80 :: u8) k \<longleftrightarrow> k = 7"
proof -
  have "push_bit 7 1 = (0x80 :: u8)"
    by (simp add: push_bit_eq_mult)
  then show ?thesis
    using bit_push_bit_iff [of 7 "1 :: u8" k] by (auto simp: bit_1_iff)
qed

lemma low_bits: "n AND 0x7f = take_bit 7 n" for n :: u64
  by (simp add: take_bit_eq_mask mask_numeral)

lemma varint_done_iff: "varint_done x \<longleftrightarrow> \<not> bit x 7"
proof -
  define m where "m = (0x80 :: u8)"
  have m: "bit m k \<longleftrightarrow> k = 7" for k
    unfolding m_def by (rule bit_0x80)
  have "x AND m = 0 \<longleftrightarrow> \<not> bit x 7"
  proof
    assume "x AND m = 0"
    then have "\<not> bit (x AND m) 7"
      by simp
    then show "\<not> bit x 7"
      by (simp add: bit_simps m)
  next
    assume "\<not> bit x 7"
    then show "x AND m = 0"
      by (intro bit_word_eqI) (auto simp: bit_simps m)
  qed
  then show ?thesis
    by (simp add: varint_done_def varint_consts m_def)
qed

lemma octet_facts:
  "\<not> bit (ucast (take_bit 7 n) :: u8) 7"
  "bit (ucast (take_bit 7 n) OR 0x80 :: u8) 7"
  "(ucast ((ucast (take_bit 7 n) :: u8) AND 0x7f) :: u64) = take_bit 7 n"
  "(ucast ((ucast (take_bit 7 n) OR 0x80 :: u8) AND 0x7f) :: u64) = take_bit 7 n" for n :: u64
proof -
  define m h where "m = (0x7f :: u8)" and "h = (0x80 :: u8)"
  have b: "bit m k \<longleftrightarrow> k < 7" "bit h k \<longleftrightarrow> k = 7" for k
    unfolding m_def h_def by (rule bit_0x7f bit_0x80)+
  show "\<not> bit (ucast (take_bit 7 n) :: u8) 7" "bit (ucast (take_bit 7 n) OR 0x80 :: u8) 7"
    by (simp_all add: bit_simps bit_0x80)
  have "(ucast ((ucast (take_bit 7 n) :: u8) AND m) :: u64) = take_bit 7 n"
    "(ucast ((ucast (take_bit 7 n) OR h) AND m) :: u64) = take_bit 7 n"
    by (rule bit_word_eqI; auto simp: bit_simps b)+
  then show "(ucast ((ucast (take_bit 7 n) :: u8) AND 0x7f) :: u64) = take_bit 7 n"
    "(ucast ((ucast (take_bit 7 n) OR 0x80 :: u8) AND 0x7f) :: u64) = take_bit 7 n"
    by (simp_all only: m_def h_def)
qed

lemma length_varint_octets_pos: "0 < length (varint_octets n)"
  by (subst varint_octets.simps) simp

lemma length_varint_octets: "drop_bit (7 * Suc k) n = 0 \<Longrightarrow> length (varint_octets n) \<le> Suc k"
proof (induction k arbitrary: n)
  case 0
  then show ?case
    by (subst varint_octets.simps) simp
next
  case (Suc k)
  have "drop_bit (7 * Suc k) (drop_bit 7 n) = 0"
    using Suc.prems by (simp add: drop_bit_drop_bit)
  then show ?case
    using Suc.IH [of "drop_bit 7 n"] by (subst varint_octets.simps) simp
qed

lemma length_varint_octets_64: "length (varint_octets n) \<le> 10"
proof -
  have "drop_bit (7 * Suc 9) n = 0"
    by (rule bit_word_eqI) (simp add: bit_simps)
  then show ?thesis
    using length_varint_octets [of 9 n] by simp
qed

lemma length_varint_octets_32: "length (varint_octets (ucast (n :: u32))) \<le> 5"
proof -
  have "drop_bit (7 * Suc 4) (ucast n :: u64) = 0"
    by (rule bit_word_eqI) (auto simp: bit_simps dest: bit_imp_le_length)
  then show ?thesis
    using length_varint_octets [of 4 "ucast n"] by simp
qed

section \<open>Encoding\<close>

lemma varint_encode_loop_ok:
  assumes "pos + length (varint_octets n) \<le> length m"
  shows "varint_encode_loop n m pos i = Some (int (i + length (varint_octets n) - 1),
           overwrite m pos (varint_octets n), pos + length (varint_octets n))"
  using assms
proof (induction n arbitrary: m pos i rule: varint_octets.induct)
  case (1 n)
  have inside: "pos < length m"
    using "1.prems" length_varint_octets_pos [of n] by linarith
  let ?x = "ucast (take_bit 7 n) :: u8"
  have w: "mem_write m' pos [x] = Some (overwrite m' pos [x])" if "length m' = length m" for x and m' :: "u8 list"
    using that inside by (intro mem_write_overwrite) simp
  have len: "length (overwrite m pos [x]) = length m" for x
    using inside by (intro length_overwrite) simp
  have rd: "mem_read (overwrite m pos [x]) pos 1 = Some [x]" for x
    using inside by (simp add: mem_read_overwrite)
  have ow: "overwrite (overwrite m pos [x]) pos [y] = overwrite m pos [y]" for x y
    using inside by (simp add: overwrite_def)
  show ?case
  proof (cases "drop_bit 7 n = 0")
    case True
    then have "varint_octets n = [?x]"
      by (subst varint_octets.simps) simp
    then show ?thesis
      using True w by (subst varint_encode_loop.simps) (simp add: varint_consts low_bits)
  next
    case False
    then have oct: "varint_octets n = (?x OR 0x80) # varint_octets (drop_bit 7 n)"
      by (subst varint_octets.simps) simp
    let ?m = "overwrite m pos [?x OR 0x80]"
    have step: "varint_encode_loop n m pos i = varint_encode_loop (drop_bit 7 n) ?m (pos + 1) (i + 1)"
      using False w [OF refl] w [OF len] rd ow
      by (subst varint_encode_loop.simps) (simp add: varint_consts low_bits)
    have "varint_encode_loop (drop_bit 7 n) ?m (pos + 1) (i + 1) =
        Some (int (i + 1 + length (varint_octets (drop_bit 7 n)) - 1),
          overwrite ?m (pos + 1) (varint_octets (drop_bit 7 n)),
          pos + 1 + length (varint_octets (drop_bit 7 n)))"
      using "1.IH" [OF False, of "pos + 1" ?m "i + 1"] "1.prems" oct len by simp
    moreover have "overwrite ?m (pos + length [?x OR 0x80]) (varint_octets (drop_bit 7 n)) =
        overwrite m pos ([?x OR 0x80] @ varint_octets (drop_bit 7 n))"
      using "1.prems" oct by (intro overwrite_append) simp
    ultimately show ?thesis
      unfolding step oct by simp
  qed
qed

text \<open>Encoding writes the octets at the read mark and ends the buffer behind them.\<close>

lemma varint_encode_ok:
  assumes "bb_data b = Some m" and "bb_offset b + length (varint_octets n) \<le> length m"
  shows "varint_encode n b = Some (int (length (varint_octets n)),
           b\<lparr>bb_data := Some (overwrite m (bb_offset b) (varint_octets n)),
             bb_used := bb_offset b + length (varint_octets n)\<rparr>)"
  using varint_encode_loop_ok [OF assms(2), of 1] assms(1) by (simp add: varint_encode_def)

lemma varint_length_loop_ok: "varint_length_loop n k = k + length (varint_octets n) - 1"
proof (induction n arbitrary: k rule: varint_octets.induct)
  case (1 n)
  show ?case
  proof (cases "drop_bit 7 n = 0")
    case True
    then show ?thesis
      by (subst varint_length_loop.simps, subst varint_octets.simps) (simp add: varint_consts)
  next
    case False
    then have "varint_length_loop n k = varint_length_loop (drop_bit 7 n) (k + 1)"
      by (subst varint_length_loop.simps) (simp add: varint_consts)
    then show ?thesis
      using 1 [OF False, of "k + 1"] False by (subst varint_octets.simps) simp
  qed
qed

lemma varint_u64_length_octets: "varint_u64_length n = length (varint_octets n)"
  by (simp add: varint_u64_length_def varint_length_loop_ok)

section \<open>Decoding\<close>

text \<open>Reading the octets of the number that is left, on top of the bits already there.\<close>

lemma acc_step:
  fixes N :: u64
  shows "take_bit (i * 7) N OR push_bit (i * 7) (take_bit 7 (drop_bit (i * 7) N)) = take_bit (Suc i * 7) N"
proof (rule bit_word_eqI)
  fix k
  assume "k < LENGTH(64)"
  then show "bit (take_bit (i * 7) N OR push_bit (i * 7) (take_bit 7 (drop_bit (i * 7) N))) k =
      bit (take_bit (Suc i * 7) N) k"
    by (cases "k < i * 7") (auto simp: bit_simps)
qed

lemma varint_decode_loop_ok:
  fixes N :: u64
  assumes "bb_data b = Some m" and "bb_offset b + i + length (varint_octets (drop_bit (i * 7) N)) \<le> length m"
    and "take (length (varint_octets (drop_bit (i * 7) N))) (drop (bb_offset b + i) m) = varint_octets (drop_bit (i * 7) N)"
    and "length (varint_octets (drop_bit (i * 7) N)) \<le> left"
  shows "varint_decode_loop b i left (take_bit (i * 7) N) =
           Some (int (i + length (varint_octets (drop_bit (i * 7) N))), N,
             b\<lparr>bb_offset := sz_add (bb_offset b) (i + length (varint_octets (drop_bit (i * 7) N)))\<rparr>)"
  using assms(2-4)
proof (induction left arbitrary: i)
  case 0
  then show ?case
    using length_varint_octets_pos [of "drop_bit (i * 7) N"] by simp
next
  case (Suc left)
  let ?n = "drop_bit (i * 7) N"
  let ?x = "ucast (take_bit 7 ?n) :: u8"
  have nxt: "drop_bit 7 ?n = drop_bit (Suc i * 7) N"
    by (simp add: drop_bit_drop_bit add.commute)
  have inside: "bb_offset b + i < length m"
    using Suc.prems(1) length_varint_octets_pos [of ?n] by linarith
  have rd: "mem_read m (bb_offset b + i) 1 = Some [m ! (bb_offset b + i)]"
    using mem_read_one [OF inside] by simp
  have split: "drop (bb_offset b + i) m = m ! (bb_offset b + i) # drop (bb_offset b + Suc i) m"
    using inside by (simp flip: Cons_nth_drop_Suc)
  show ?case
  proof (cases "drop_bit 7 ?n = 0")
    case True
    then have oct: "varint_octets ?n = [?x]"
      by (subst varint_octets.simps) simp
    then have x: "m ! (bb_offset b + i) = ?x"
      using Suc.prems(2) split by simp
    have "take_bit (Suc i * 7) N = N"
      using True unfolding nxt by (metis add_0 bits_ident mult_zero_right push_bit_of_0 add.commute)
    then show ?thesis
      using x oct rd assms(1) octet_facts(1,3) [of ?n] acc_step [of i N]
      by (simp add: varint_done_iff varint_consts)
  next
    case False
    then have oct: "varint_octets ?n = (?x OR 0x80) # varint_octets (drop_bit (Suc i * 7) N)"
      unfolding nxt [symmetric] by (subst varint_octets.simps) simp
    have x: "m ! (bb_offset b + i) = ?x OR 0x80"
      and tl: "take (length (varint_octets (drop_bit (Suc i * 7) N))) (drop (bb_offset b + Suc i) m) =
        varint_octets (drop_bit (Suc i * 7) N)"
      using Suc.prems(2) unfolding split oct by simp_all
    have "varint_decode_loop b i (Suc left) (take_bit (i * 7) N) =
        varint_decode_loop b (Suc i) left (take_bit (Suc i * 7) N)"
      using x rd assms(1) octet_facts(2,4) [of ?n] acc_step [of i N]
      by (simp add: varint_done_iff varint_consts)
    then show ?thesis
      using Suc.IH [of "Suc i"] Suc.prems(1,3) tl oct by simp
  qed
qed

lemma varint_decode_ok:
  assumes "bb_data b = Some m" and "drop (bb_offset b) m = varint_octets n @ rest"
    and "length (varint_octets n) \<le> maxoctets"
  shows "varint_decode b maxoctets = Some (int (length (varint_octets n)), n,
           b\<lparr>bb_offset := sz_add (bb_offset b) (length (varint_octets n))\<rparr>)"
proof -
  have "length m - bb_offset b = length (varint_octets n) + length rest"
    using assms(2) by (metis length_drop length_append)
  then have "bb_offset b + length (varint_octets n) \<le> length m"
    using length_varint_octets_pos [of n] by linarith
  then show ?thesis
    using varint_decode_loop_ok [of b m 0 n maxoctets] assms by (simp add: varint_decode_def)
qed

lemma varint_decode_loop_unterminated:
  assumes "bb_data b = Some m" and "bb_offset b + i + left \<le> length m"
    and "\<And>k. k < left \<Longrightarrow> bit (m ! (bb_offset b + i + k)) 7"
  shows "\<exists>n'. varint_decode_loop b i left n = Some (- EILSEQ, n', b)"
  using assms(2,3)
proof (induction left arbitrary: i n)
  case 0
  then show ?case by simp
next
  case (Suc left)
  have inside: "bb_offset b + i < length m"
    using Suc.prems(1) by simp
  have "mem_read m (bb_offset b + i) 1 = Some [m ! (bb_offset b + i)]"
    using mem_read_one [OF inside] by simp
  moreover have "bit (m ! (bb_offset b + i)) 7"
    using Suc.prems(2) [of 0] by simp
  moreover have "bit (m ! (bb_offset b + (i + 1) + k)) 7" if "k < left" for k
    using Suc.prems(2) [of "Suc k"] that by simp
  ultimately show ?case
    using Suc.IH [of "i + 1"] Suc.prems(1) assms(1) by (simp add: varint_done_iff)
qed

section \<open>Endpoints\<close>

context reader
begin

lemma varint_from_source_loop_ok:
  fixes N :: u64
  assumes "rinv (src_driver source)" "src_fn source = fn" "\<And>s. patience s = 0"
    and "stream (src_driver source) = varint_octets (drop_bit (i * 7) N) @ rest"
    and "length (varint_octets (drop_bit (i * 7) N)) \<le> left"
  shows "\<exists>s'. varint_from_source_loop source i left (take_bit (i * 7) N) =
           Some (int (i + length (varint_octets (drop_bit (i * 7) N))), N, source\<lparr>src_driver := s'\<rparr>) \<and>
         rinv s' \<and> stream s' = rest"
  using assms(1,2,4,5)
proof (induction left arbitrary: i source)
  case 0
  then show ?case
    using length_varint_octets_pos [of "drop_bit (i * 7) N"] by simp
next
  case (Suc left)
  let ?n = "drop_bit (i * 7) N"
  let ?x = "ucast (take_bit 7 ?n) :: u8"
  have nxt: "drop_bit 7 ?n = drop_bit (Suc i * 7) N"
    by (simp add: drop_bit_drop_bit add.commute)
  show ?case
  proof (cases "drop_bit 7 ?n = 0")
    case True
    then have oct: "varint_octets ?n = [?x]"
      by (subst varint_octets.simps) simp
    obtain s' where g: "source_get_octet source = Some (1, [?x], source\<lparr>src_driver := s'\<rparr>)" "rinv s'" "stream s' = rest"
      using get_octet_some [OF Suc.prems(1,2) assms(3), of ?x rest] Suc.prems(3) oct by auto
    have "take_bit (Suc i * 7) N = N"
      using True unfolding nxt by (metis add_0 bits_ident mult_zero_right push_bit_of_0 add.commute)
    then show ?thesis
      using g oct octet_facts(1,3) [of ?n] acc_step [of i N]
      by (intro exI [of _ s']) (simp add: varint_done_iff varint_consts)
  next
    case False
    then have oct: "varint_octets ?n = (?x OR 0x80) # varint_octets (drop_bit (Suc i * 7) N)"
      unfolding nxt [symmetric] by (subst varint_octets.simps) simp
    obtain s' where g: "source_get_octet source = Some (1, [?x OR 0x80], source\<lparr>src_driver := s'\<rparr>)" "rinv s'"
       "stream s' = varint_octets (drop_bit (Suc i * 7) N) @ rest"
      using get_octet_some [OF Suc.prems(1,2) assms(3), of "?x OR 0x80"] Suc.prems(3) oct by auto
    have step: "varint_from_source_loop source i (Suc left) (take_bit (i * 7) N) =
        varint_from_source_loop (source\<lparr>src_driver := s'\<rparr>) (Suc i) left (take_bit (Suc i * 7) N)"
      using g(1) octet_facts(2,4) [of ?n] acc_step [of i N] by (simp add: varint_done_iff varint_consts)
    show ?thesis
      unfolding step using Suc.IH [of "source\<lparr>src_driver := s'\<rparr>" "Suc i"] g(2,3) Suc.prems(2,4) oct by simp
  qed
qed

lemma varint_from_source_ok:
  assumes "rinv (src_driver source)" "src_fn source = fn" "\<And>s. patience s = 0"
    and "stream (src_driver source) = varint_octets n @ rest" "length (varint_octets n) \<le> maxoctets"
  shows "\<exists>s'. varint_from_source source maxoctets =
           Some (int (length (varint_octets n)), n, source\<lparr>src_driver := s'\<rparr>) \<and> rinv s' \<and> stream s' = rest"
  using varint_from_source_loop_ok [of source 0 n rest maxoctets] assms by (simp add: varint_from_source_def)

end

context writer
begin

lemma varint_send_ok:
  assumes "winv (snk_driver sink)" "snk_fn sink = wfn" "plain_retry (snk_retry sink)"
    and "length (varint_octets n) \<le> k" "k \<le> 10" "fits (snk_driver sink) (length (varint_octets n))"
  shows "\<exists>t'. varint_send sink (varint_encode n (varint_scratch k)) =
           Some (int (length (varint_octets n)), sink\<lparr>snk_driver := t'\<rparr>) \<and> winv t' \<and>
         accepted t' = accepted (snk_driver sink) @ varint_octets n \<and>
         (\<forall>i. fits t' i = fits (snk_driver sink) (length (varint_octets n) + i))"
proof -
  let ?l = "length (varint_octets n)"
  have k: "0 < k"
    using assms(4) length_varint_octets_pos [of n] by linarith
  have scratch: "varint_scratch k = \<lparr>bb_data = Some (replicate k 0), bb_size = k, bb_used = 0, bb_offset = 0\<rparr>"
    using k by (simp add: varint_scratch_def byte_buffer_space_def byte_buffer_set_def)
  let ?m = "overwrite (replicate k 0) 0 (varint_octets n)"
  have enc: "varint_encode n (varint_scratch k) =
      Some (int ?l, varint_scratch k\<lparr>bb_data := Some ?m, bb_used := ?l\<rparr>)"
    using varint_encode_ok [of "varint_scratch k" "replicate k 0" n] assms(4) scratch by simp
  have m: "0 + ?l \<le> length ?m" "length ?m \<le> SSIZE_MAX" "varint_octets n = take ?l (drop 0 ?m)"
    using assms(4,5) by (simp_all add: SSIZE_MAX_def) (simp add: overwrite_def)
  obtain rc j t' where w: "sink_put_chunk sink ?m 0 ?l = Some (rc, sink\<lparr>snk_driver := t'\<rparr>)" "winv t'"
     "accepted t' = accepted (snk_driver sink) @ take j (varint_octets n)"
     "\<forall>i. fits t' i = fits (snk_driver sink) (j + i)"
     "rc = int ?l \<and> j = ?l \<or> rc = wfinal (snk_driver sink) \<and> j < ?l \<and> \<not> fits (snk_driver sink) ?l"
    using put_chunk_ok [OF assms(1,2,3) m] by blast
  then have "rc = int ?l" "j = ?l"
    using assms(6) by auto
  with w enc assms(4,5) show ?thesis
    by (intro exI [of _ t']) (simp add: varint_send_def scratch)
qed

end

section \<open>Properties\<close>

lemma full_mask_and: "x AND ucast (- 1 :: u32) = ucast (ucast x :: u32)" for x :: u64
proof -
  define m where "m = (- 1 :: u32)"
  have "bit m k \<longleftrightarrow> k < 32" for k
    unfolding m_def by (auto dest: bit_imp_le_length)
  then have "x AND ucast m = ucast (ucast x :: u32)"
    by (intro bit_word_eqI) (auto simp: bit_simps)
  then show ?thesis
    by (simp only: m_def)
qed

lemma varint_s32_low: "scast (n :: s32) AND ucast (- 1 :: u32) = (ucast n :: u64)"
proof -
  have "ucast (scast n :: u64) = (n :: u32)"
    by (rule bit_word_eqI) (auto simp: bit_simps)
  then show ?thesis
    unfolding full_mask_and by simp
qed

lemma ucast_down_up_u32: "ucast (ucast (n :: u32) :: u64) = n"
  by (rule bit_word_eqI) (auto simp: bit_simps)

lemma varint_buffer_roundtrip:
  assumes "bb_ready b" and "k \<le> byte_buffer_avail b" and "length (varint_octets n) \<le> k"
  shows "\<exists>b1 b2. varint_encode n b = Some (int (length (varint_octets n)), b1) \<and> bb_ready b1 \<and>
           bb_pending b1 = varint_octets n \<and>
           varint_decode b1 k = Some (int (length (varint_octets n)), n, b2) \<and> bb_ready b2 \<and> bb_pending b2 = []"
proof -
  let ?v = "varint_octets n"
  obtain m where m: "bb_data b = Some m"
    using assms(1) by (auto simp: bb_ready_def)
  have bb: "bb_offset b \<le> bb_used b" "bb_used b \<le> bb_size b" "bb_size b \<le> length m" "bb_size b \<le> SSIZE_MAX"
    "k \<le> bb_size b - bb_used b"
    using assms(1,2) m bb_inv_marks [of b] by (auto simp: bb_ready_def bb_inv_def)
  then have fit: "bb_offset b + length ?v \<le> bb_size b"
    using assms(3) by linarith
  let ?m = "overwrite m (bb_offset b) ?v"
  let ?b1 = "b\<lparr>bb_data := Some ?m, bb_used := bb_offset b + length ?v\<rparr>"
  have len: "length ?m = length m"
    using fit bb by (intro length_overwrite) simp
  have at: "drop (bb_offset b) ?m = ?v @ drop (bb_offset b + length ?v) m"
    using fit bb by (simp add: overwrite_def)
  have enc: "varint_encode n b = Some (int (length ?v), ?b1)"
    using varint_encode_ok [OF m] fit bb by simp
  have add: "sz_add (bb_offset b) (length ?v) = bb_offset b + length ?v"
    using fit bb SSIZE_MAX_less by (intro sz_add_id) (meson le_trans)
  have dec: "varint_decode ?b1 k = Some (int (length ?v), n, ?b1\<lparr>bb_offset := bb_offset b + length ?v\<rparr>)"
    using varint_decode_ok [of ?b1 ?m n _ k] at assms(3) add by simp
  have "bb_pending ?b1 = ?v"
    using at by (simp add: bb_pending_def drop_take)
  moreover have "bb_ready ?b1" "bb_ready (?b1\<lparr>bb_offset := bb_offset b + length ?v\<rparr>)"
    "bb_pending (?b1\<lparr>bb_offset := bb_offset b + length ?v\<rparr>) = []"
    using fit bb len m by (auto simp: bb_ready_def bb_inv_def bb_pending_def bb_mem_def)
  ultimately show ?thesis
    using enc dec by blast
qed

text \<open>C5. Every number survives encoding into a byte buffer and decoding from it: unsigned and signed, at
  32 and at 64 bits. Both calls agree on the number of octets, and nothing is left over.\<close>

theorem varint_roundtrip:
  assumes "bb_ready b" and "VARINT_64BIT_MAX_OCTETS \<le> byte_buffer_avail b"
  shows "(\<exists>rc b1 b2. varint_encode_u64 b n = Some (rc, b1) \<and> varint_decode_u64 b1 = Some (rc, n, b2) \<and>
            bb_pending b2 = []) \<and>
         (\<exists>rc b1 b2. varint_encode_s64 b si = Some (rc, b1) \<and> varint_decode_s64 b1 = Some (rc, si, b2) \<and>
            bb_pending b2 = []) \<and>
         (\<exists>rc b1 b2. varint_encode_u32 b k = Some (rc, b1) \<and> varint_decode_u32 b1 = Some (rc, k, b2) \<and>
            bb_pending b2 = []) \<and>
         (\<exists>rc b1 b2. varint_encode_s32 b i = Some (rc, b1) \<and> varint_decode_s32 b1 = Some (rc, i, b2) \<and>
            bb_pending b2 = [])"
proof -
  have room: "10 \<le> byte_buffer_avail b" "5 \<le> byte_buffer_avail b"
    using assms(2) by (simp_all add: varint_consts)
  note r64 = varint_buffer_roundtrip [OF assms(1) room(1) length_varint_octets_64]
  note r32 = varint_buffer_roundtrip [OF assms(1) room(2) length_varint_octets_32]
  show ?thesis
    using r64 [of n] r64 [of si] r32 [of k] r32 [of i] room
    by (auto simp: varint_encode_u64_def varint_decode_u64_def varint_encode_s64_def varint_decode_s64_def
        varint_encode_u32_def varint_decode_u32_def varint_encode_s32_def varint_decode_s32_def
        varint_consts varint_s32_low ucast_down_up_u32 simp del: ucast_id)
qed

theorem varint_roundtrip_witness:
  "\<exists>rc b1 b2. varint_encode_s32 (sample_buffer\<lparr>bb_data := Some (replicate 12 0), bb_size := 12\<rparr>) (- 1) =
       Some (rc, b1) \<and> varint_decode_s32 b1 = Some (rc, - 1, b2) \<and> bb_pending b2 = []"
  using varint_roundtrip [of "sample_buffer\<lparr>bb_data := Some (replicate 12 0), bb_size := 12\<rparr>" 0 0 0 "- 1"]
  by (simp add: sample_buffer_def bb_ready_def bb_inv_def byte_buffer_avail_def SSIZE_MAX_def varint_consts)

text \<open>Sending several numbers to a sink, and receiving that many from a source.\<close>

fun varint_send_all :: "'t Sink \<Rightarrow> u64 list \<Rightarrow> (bool \<times> 't Sink) option" where
  "varint_send_all sink [] = Some (True, sink)"
| "varint_send_all sink (n # ns) = do {
     (rc, snk) \<leftarrow> varint_u64_to_sink sink n;
     if rc < 0 then Some (False, snk) else varint_send_all snk ns
   }"

fun varint_receive_all :: "'s Source \<Rightarrow> nat \<Rightarrow> (u64 list \<times> 's Source) option" where
  "varint_receive_all source 0 = Some ([], source)"
| "varint_receive_all source (Suc k) = do {
     (rc, n, src) \<leftarrow> varint_u64_from_source source 0;
     if rc < 0 then Some ([], src)
     else do { (ns, src') \<leftarrow> varint_receive_all src k; Some (n # ns, src') }
   }"

lemma varint_send_all_ok:
  assumes "bb_ready (snk_driver sink)" "snk_fn sink = ChunkSink write_to_buffer" "plain_retry (snk_retry sink)"
    and "length (concat (map varint_octets ns)) \<le> byte_buffer_avail (snk_driver sink)"
  shows "\<exists>snk. varint_send_all sink ns = Some (True, snk) \<and> bb_ready (snk_driver snk) \<and>
           bb_pending (snk_driver snk) = bb_pending (snk_driver sink) @ concat (map varint_octets ns)"
  using assms
proof (induction ns arbitrary: sink)
  case Nil
  then show ?case by simp
next
  case (Cons n ns)
  let ?v = "varint_octets n"
  have fit: "length ?v \<le> byte_buffer_avail (snk_driver sink)"
    using Cons.prems(4) by simp
  have m: "0 + length ?v \<le> length (overwrite (replicate 10 0) 0 ?v)"
    using length_varint_octets_64 [of n] by simp
  obtain t' where t: "varint_send sink (varint_encode n (varint_scratch 10)) =
        Some (int (length ?v), sink\<lparr>snk_driver := t'\<rparr>)" "bb_ready t'"
      "bb_pending t' = bb_pending (snk_driver sink) @ ?v"
      "\<forall>i. (i \<le> byte_buffer_avail t') = (length ?v + i \<le> byte_buffer_avail (snk_driver sink))"
    using bufsnk.varint_send_ok [OF Cons.prems(1,2,3) length_varint_octets_64 _ fit] by auto
  have avail: "byte_buffer_avail (varint_scratch 10) = 10"
    by (simp add: varint_scratch_def byte_buffer_space_def byte_buffer_set_def byte_buffer_avail_def)
  have room: "length (concat (map varint_octets ns)) \<le> byte_buffer_avail t'"
    using t(4) Cons.prems(4) by simp
  show ?case
    using t room Cons.IH [of "sink\<lparr>snk_driver := t'\<rparr>"] Cons.prems(2,3) avail
    by (simp add: varint_u64_to_sink_def varint_encode_u64_def varint_consts)
qed

lemma varint_receive_all_ok:
  assumes "bb_ready (src_driver source)" "src_fn source = ChunkSource read_from_buffer"
    and "bb_pending (src_driver source) = concat (map varint_octets ns) @ rest"
  shows "\<exists>src. varint_receive_all source (length ns) = Some (ns, src) \<and> bb_pending (src_driver src) = rest"
  using assms
proof (induction ns arbitrary: source)
  case Nil
  then show ?case by simp
next
  case (Cons n ns)
  have st: "bb_pending (src_driver source) = varint_octets n @ (concat (map varint_octets ns) @ rest)"
    using Cons.prems(3) by simp
  obtain s' where r: "varint_from_source source 10 =
       Some (int (length (varint_octets n)), n, source\<lparr>src_driver := s'\<rparr>)" "bb_ready s'"
       "bb_pending s' = concat (map varint_octets ns) @ rest"
    using bufsrc.varint_from_source_ok [OF Cons.prems(1,2) refl st length_varint_octets_64] by blast
  show ?case
    using r Cons.IH [of "source\<lparr>src_driver := s'\<rparr>"] Cons.prems(2)
    by (simp add: varint_u64_from_source_def varint_consts) (metis (no_types, lifting) bind.bind_lunit case_prod_conv)
qed

text \<open>Numbers sent one after the other to a buffer's sink are received one by one, in order, from a
  source on that buffer: the encoding needs no separators.\<close>

theorem varint_stream_roundtrip:
  assumes "bb_ready b" and "bb_pending b = []"
    and "length (concat (map varint_octets ns)) \<le> byte_buffer_avail b"
  shows "\<exists>snk src. varint_send_all (sink_to_buffer ti b) ns = Some (True, snk) \<and>
           varint_receive_all (source_from_buffer si (snk_driver snk)) (length ns) = Some (ns, src) \<and>
           bb_pending (src_driver src) = []"
proof -
  obtain snk where s: "varint_send_all (sink_to_buffer ti b) ns = Some (True, snk)" "bb_ready (snk_driver snk)"
     "bb_pending (snk_driver snk) = concat (map varint_octets ns) @ []"
    using varint_send_all_ok [of "sink_to_buffer ti b" ns] assms by auto
  then show ?thesis
    using varint_receive_all_ok [of "source_from_buffer si (snk_driver snk)" ns "[]"] by auto
qed

theorem varint_stream_roundtrip_witness:
  "\<exists>snk src. varint_send_all (sink_to_buffer (idle_sink sample_buffer) sample_buffer) [5, 127] = Some (True, snk) \<and>
     varint_receive_all (source_from_buffer (idle_source sample_buffer) (snk_driver snk)) 2 = Some ([5, 127], src) \<and>
     bb_pending (src_driver src) = []"
proof -
  have "varint_octets 5 = [5]" "varint_octets 127 = [127]"
    by (subst varint_octets.simps, simp)+
  then have l: "length (concat (map varint_octets [5, 127])) \<le> byte_buffer_avail sample_buffer"
    by (simp add: sample_buffer_def byte_buffer_avail_def)
  have "bb_pending sample_buffer = []"
    by (simp add: sample_buffer_def bb_pending_def)
  from varint_stream_roundtrip [OF sample_buffer_ready this l, of "idle_sink sample_buffer" "idle_source sample_buffer"]
  show ?thesis by (simp add: numeral_2_eq_2)
qed

text \<open>The length function is the number of octets the encoder writes, and it is minimal: a number
  takes at most \<open>k\<close> octets exactly when it is below \<open>128 ^ k\<close>. No 64-bit number takes more than ten, no
  32-bit number more than five, which is what the encoders reserve.\<close>

theorem varint_length_minimal:
  "(varint_u64_length n \<le> Suc k) = (unat n < 128 ^ Suc k) \<and> varint_u64_length n = length (varint_octets n) \<and>
   varint_u64_length n \<le> VARINT_64BIT_MAX_OCTETS \<and> varint_u32_length i \<le> VARINT_32BIT_MAX_OCTETS"
proof -
  have "(length (varint_octets n) \<le> Suc k) = (unat n < 128 ^ Suc k)"
  proof (induction n arbitrary: k rule: varint_octets.induct)
    case (1 n)
    have div: "unat (drop_bit 7 n) = unat n div 128"
      using unat_drop_bit_eq [of 7 n] by (simp add: drop_bit_eq_div)
    have zero: "drop_bit 7 n = 0 \<longleftrightarrow> unat n < 128"
    proof -
      have "drop_bit 7 n = 0 \<longleftrightarrow> unat (drop_bit 7 n) = 0"
        by (simp only: unsigned_eq_0_iff)
      then show ?thesis
        unfolding div by (simp add: div_eq_0_iff)
    qed
    show ?case
    proof (cases "drop_bit 7 n = 0")
      case True
      have "(128 :: nat) \<le> 128 ^ Suc k"
        by simp
      with True zero have "unat n < 128 ^ Suc k"
        by linarith
      then show ?thesis
        using True by (subst varint_octets.simps) simp
    next
      case False
      then have big: "128 \<le> unat n"
        using zero by simp
      have len: "length (varint_octets n) = Suc (length (varint_octets (drop_bit 7 n)))"
        using False by (subst varint_octets.simps) simp
      show ?thesis
      proof (cases k)
        case 0
        then show ?thesis
          using len big length_varint_octets_pos [of "drop_bit 7 n"] by simp
      next
        case (Suc j)
        have "(unat n div 128 < 128 ^ Suc j) = (unat n < 128 ^ Suc j * 128)"
          by (rule div_less_iff_less_mult) simp
        then show ?thesis
          using len 1 [OF False, of j] Suc unfolding div by (simp add: mult.commute)
      qed
    qed
  qed
  then show ?thesis
    using length_varint_octets_64 [of n] length_varint_octets_32 [of i]
    by (simp add: varint_u64_length_octets varint_u32_length_def varint_consts)
qed

text \<open>Input without an end: when every octet the decoder may look at has the continuation bit, it
  answers -EILSEQ and leaves the read mark alone.\<close>

theorem varint_decode_unterminated:
  assumes "bb_data b = Some m" and "bb_offset b + VARINT_64BIT_MAX_OCTETS \<le> length m"
    and "\<And>k. k < VARINT_64BIT_MAX_OCTETS \<Longrightarrow> bit (m ! (bb_offset b + k)) 7"
  shows "\<exists>n. varint_decode_u64 b = Some (- EILSEQ, n, b)"
  using varint_decode_loop_unterminated [of b m 0 VARINT_64BIT_MAX_OCTETS 0] assms
  by (simp add: varint_decode_u64_def varint_decode_def)

theorem varint_decode_unterminated_witness:
  "\<exists>n. varint_decode_u64 (sample_buffer\<lparr>bb_data := Some (replicate 12 0xff), bb_size := 12, bb_used := 12\<rparr>) =
     Some (- EILSEQ, n, sample_buffer\<lparr>bb_data := Some (replicate 12 0xff), bb_size := 12, bb_used := 12\<rparr>)"
proof -
  have "bit (0xff :: u8) 7"
    by simp
  then have "bit (replicate 12 0xff ! (0 + k) :: u8) 7" if "k < 10" for k
    using that by (simp only: nth_replicate add_0)
  then show ?thesis
    using varint_decode_unterminated [of
        "sample_buffer\<lparr>bb_data := Some (replicate 12 0xff), bb_size := 12, bb_used := 12\<rparr>" "replicate 12 0xff"]
    by (simp add: sample_buffer_def varint_consts)
qed

text \<open>Decoding looks at the memory from the read mark on and ignores how much of it was filled: the
  result does not depend on the fill mark, so an empty buffer yields whatever its memory held before.\<close>

theorem varint_decode_ignores_fill_mark:
  "varint_decode_u64 (b\<lparr>bb_used := j\<rparr>) =
     do { (rc, n, b') \<leftarrow> varint_decode_u64 b; Some (rc, n, b'\<lparr>bb_used := j\<rparr>) }"
proof -
  have "varint_decode_loop (b\<lparr>bb_used := j\<rparr>) i left n =
     do { (rc, n, b') \<leftarrow> varint_decode_loop b i left n; Some (rc, n, b'\<lparr>bb_used := j\<rparr>) }" for i left n
    by (induction b i left n rule: varint_decode_loop.induct) (auto simp: Let_def split: bind_splits)
  then show ?thesis
    by (simp add: varint_decode_u64_def varint_decode_def)
qed

end
