(* ===== verification/Slip.thy ===== *)
theory Slip
  imports Endpoint_Drivers
begin

text \<open>
  SLIP framing (RFC 1055): \<^verbatim>\<open>src/rfc1055.c\<close>. Encoding a source into a sink, and the decoder's state
  machine, which finds frames in an octet stream and recovers at the end of a broken one.
\<close>

section \<open>The code\<close>

definition RAW_EOF :: u8 where "RAW_EOF = 0xc0"
definition RAW_ESC :: u8 where "RAW_ESC = 0xdb"
definition ESC_EOF :: u8 where "ESC_EOF = 0xdc"
definition ESC_ESC :: u8 where "ESC_ESC = 0xdd"

lemmas slip_consts = RAW_EOF_def RAW_ESC_def ESC_EOF_def ESC_ESC_def

datatype rfc1055_state = RFC1055_SEARCH_FOR_START | RFC1055_SEARCH_FOR_END | RFC1055_NORMAL

record RFC1055Context =
  rfc_state :: rfc1055_state
  rfc_flags :: u32

definition RFC1055_WITH_SOF :: nat where "RFC1055_WITH_SOF = 0"

definition RFC1055_WORST_CASE :: "nat \<Rightarrow> bool \<Rightarrow> nat" where
  "RFC1055_WORST_CASE n with_sof = n * 2 + (if with_sof then 2 else 1)"

definition rfc1055_context_init :: "u32 \<Rightarrow> RFC1055Context" where
  "rfc1055_context_init flags = \<lparr>rfc_state =
     (if bit flags RFC1055_WITH_SOF then RFC1055_SEARCH_FOR_START else RFC1055_NORMAL), rfc_flags = flags\<rparr>"

definition rfc1055_open :: "RFC1055Context \<Rightarrow> 't Sink \<Rightarrow> (int \<times> 't Sink) option" where
  "rfc1055_open ctx sink =
     (if bit (rfc_flags ctx) RFC1055_WITH_SOF then do {
        (rc, snk) \<leftarrow> sink_put_octet sink RAW_EOF;
        Some (if rc < 0 then rc else 0, snk)
      } else Some (0, sink))"

definition rfc1055_close :: "'t Sink \<Rightarrow> (int \<times> 't Sink) option" where
  "rfc1055_close sink = do {
     (rc, snk) \<leftarrow> sink_put_octet sink RAW_EOF;
     Some (if rc < 0 then rc else 0, snk)
   }"

definition esc_esc :: "u8 list" where "esc_esc = [RAW_ESC, ESC_ESC]"
definition esc_eof :: "u8 list" where "esc_eof = [RAW_ESC, ESC_EOF]"

definition rfc1055_encode_octet :: "'t Sink \<Rightarrow> u8 \<Rightarrow> (int \<times> 't Sink) option" where
  "rfc1055_encode_octet sink data =
     (if data = RAW_ESC then do { (rc, snk) \<leftarrow> sink_put_chunk sink esc_esc 0 2; Some (to_int rc, snk) }
      else if data = RAW_EOF then do { (rc, snk) \<leftarrow> sink_put_chunk sink esc_eof 0 2; Some (to_int rc, snk) }
      else sink_put_octet sink data)"

text \<open>An octet the source did not store has no defined value.\<close>

definition rfc1055_decode_octet :: "'s Source \<Rightarrow> (int \<times> u8 \<times> 's Source) option" where
  "rfc1055_decode_octet source = do {
     (rc, xs, src) \<leftarrow> source_get_octet source;
     if rc < 0 then Some (rc, 0, src)
     else if xs = [] then None
     else if hd xs = RAW_ESC then do {
       (rc, ys, src) \<leftarrow> source_get_octet src;
       if rc < 0 then Some (rc, 0, src)
       else if ys = [] then None
       else if hd ys = ESC_EOF then Some (2, RAW_EOF, src)
       else if hd ys = ESC_ESC then Some (2, RAW_ESC, src)
       else Some (- EILSEQ, hd ys, src)
     }
     else if hd xs = RAW_EOF then Some (0, 0, src)
     else Some (1, hd xs, src)
   }"

partial_function (option) rfc1055_encode_loop ::
    "'s Source \<Rightarrow> 't Sink \<Rightarrow> (int \<times> 's Source \<times> 't Sink) option" where
  "rfc1055_encode_loop source sink = do {
     (get, data, src) \<leftarrow> source_get_octet source;
     if get = - ENODATA \<or> get = 0 then do {
       (rc, snk) \<leftarrow> rfc1055_close sink;
       Some (rc, src, snk)
     }
     else if get < 0 then Some (get, src, sink)
     else if data = [] then None
     else do {
       (rc, snk) \<leftarrow> rfc1055_encode_octet sink (hd data);
       if rc < 0 then Some (rc, src, snk) else rfc1055_encode_loop src snk
     }
   }"

definition rfc1055_encode ::
    "RFC1055Context \<Rightarrow> 's Source \<Rightarrow> 't Sink \<Rightarrow> (int \<times> 's Source \<times> 't Sink) option" where
  "rfc1055_encode ctx source sink = do {
     (rc, snk) \<leftarrow> rfc1055_open ctx sink;
     if rc < 0 then Some (rc, source, snk) else rfc1055_encode_loop source snk
   }"

definition transition :: "'s Source \<Rightarrow> (int \<times> 's Source) option" where
  "transition source = do {
     (rc, xs, src) \<leftarrow> source_get_octet source;
     if rc < 0 then Some (rc, src)
     else if xs = [] then None
     else Some (if hd xs = RAW_EOF then 1 else 0, src)
   }"

partial_function (option) rfc1055_decode ::
    "RFC1055Context \<Rightarrow> 's Source \<Rightarrow> 't Sink \<Rightarrow> (int \<times> RFC1055Context \<times> 's Source \<times> 't Sink) option" where
  "rfc1055_decode ctx source sink = (case rfc_state ctx of
      RFC1055_SEARCH_FOR_START \<Rightarrow> do {
        (rc, src) \<leftarrow> transition source;
        if rc < 0 then Some (rc, ctx, src, sink)
        else if rc = 1 then rfc1055_decode (ctx\<lparr>rfc_state := RFC1055_NORMAL\<rparr>) src sink
        else Some (- EILSEQ, ctx\<lparr>rfc_state := RFC1055_SEARCH_FOR_END\<rparr>, src, sink)
      }
    | RFC1055_SEARCH_FOR_END \<Rightarrow> do {
        (rc, src) \<leftarrow> transition source;
        if rc < 0 then Some (rc, ctx, src, sink)
        else if rc = 1 then
          rfc1055_decode (ctx\<lparr>rfc_state := (if bit (rfc_flags ctx) RFC1055_WITH_SOF
                                          then RFC1055_SEARCH_FOR_START else RFC1055_NORMAL)\<rparr>) src sink
        else rfc1055_decode ctx src sink
      }
    | RFC1055_NORMAL \<Rightarrow> do {
        (rc, data, src) \<leftarrow> rfc1055_decode_octet source;
        if rc = - EILSEQ then
          Some (rc, ctx\<lparr>rfc_state :=
              (if data = RAW_EOF then
                 (if bit (rfc_flags ctx) RFC1055_WITH_SOF then RFC1055_SEARCH_FOR_START else RFC1055_NORMAL)
               else RFC1055_SEARCH_FOR_END)\<rparr>, src, sink)
        else if rc < 0 then Some (rc, ctx, src, sink)
        else if rc = 0 then
          Some (1, if bit (rfc_flags ctx) RFC1055_WITH_SOF then ctx\<lparr>rfc_state := RFC1055_SEARCH_FOR_START\<rparr> else ctx,
                src, sink)
        else do {
          (rc', snk) \<leftarrow> sink_put_octet sink data;
          if rc' < 0 then Some (rc', ctx, src, snk) else rfc1055_decode ctx src snk
        }
      })"

section \<open>Frames\<close>

definition slip_octet :: "u8 \<Rightarrow> u8 list" where
  "slip_octet x = (if x = RAW_ESC then [RAW_ESC, ESC_ESC] else if x = RAW_EOF then [RAW_ESC, ESC_EOF] else [x])"

definition slip_payload :: "u8 list \<Rightarrow> u8 list" where
  "slip_payload data = concat (map slip_octet data)"

definition slip_frame :: "u32 \<Rightarrow> u8 list \<Rightarrow> u8 list" where
  "slip_frame flags data =
     (if bit flags RFC1055_WITH_SOF then [RAW_EOF] else []) @ slip_payload data @ [RAW_EOF]"

lemma slip_payload_simps [simp]:
  "slip_payload [] = []" "slip_payload (x # xs) = slip_octet x @ slip_payload xs"
  by (simp_all add: slip_payload_def)

lemma eof_not_in_payload: "RAW_EOF \<notin> set (slip_payload data)"
  by (induction data) (auto simp: slip_octet_def slip_consts)

lemma length_slip_frame:
  "length (slip_frame flags data) \<le> RFC1055_WORST_CASE (length data) (bit flags RFC1055_WITH_SOF)"
proof -
  have "length (slip_payload data) \<le> length data * 2"
    by (induction data) (auto simp: slip_octet_def)
  then show ?thesis
    by (simp add: slip_frame_def RFC1055_WORST_CASE_def)
qed

lemma bit_flags_state:
  "rfc_state (rfc1055_context_init flags) =
     (if bit flags RFC1055_WITH_SOF then RFC1055_SEARCH_FOR_START else RFC1055_NORMAL)"
  "rfc_flags (rfc1055_context_init flags) = flags"
  by (simp_all add: rfc1055_context_init_def)

section \<open>Encoding and decoding over any steady channel\<close>

context steady_channel
begin

lemma encode_octet_ok:
  assumes "joined source sink" "fits (snk_driver sink) (length (slip_octet x))"
  shows "\<exists>rc snk. rfc1055_encode_octet sink x = Some (rc, snk) \<and> 0 < rc \<and> joined source snk \<and>
     accepted (snk_driver snk) = accepted (snk_driver sink) @ slip_octet x \<and>
     (\<forall>k. fits (snk_driver snk) k = fits (snk_driver sink) (length (slip_octet x) + k))"
proof (cases "x = RAW_ESC \<or> x = RAW_EOF")
  case True
  define buf where "buf = slip_octet x"
  have buf: "0 + 2 \<le> length buf" "length buf \<le> SSIZE_MAX" "length buf = 2" "slip_octet x = buf"
    using True by (auto simp: buf_def slip_octet_def SSIZE_MAX_def)
  have run: "rfc1055_encode_octet sink x = do { (rc, snk) \<leftarrow> sink_put_chunk sink buf 0 2; Some (to_int rc, snk) }"
    using True by (auto simp: rfc1055_encode_octet_def buf_def slip_octet_def esc_esc_def esc_eof_def slip_consts)
  have "fits (snk_driver sink) 2"
    using assms(2) buf by simp
  from put_chunk_fits [OF assms(1) this buf(1,2)] buf run show ?thesis
    by auto
next
  case False
  then have "slip_octet x = [x]" "rfc1055_encode_octet sink x = sink_put_octet sink x"
    by (simp_all add: slip_octet_def rfc1055_encode_octet_def)
  with put_octet_fits [OF assms(1), of x] assms(2) show ?thesis
    by auto
qed

lemma encode_loop_ok:
  assumes "joined source sink" "stream (src_driver source) = data" "final (src_driver source) = - ENODATA"
    and "fits (snk_driver sink) (length (slip_payload data) + 1)"
  shows "\<exists>src snk. rfc1055_encode_loop source sink = Some (0, src, snk) \<and> joined src snk \<and>
     stream (src_driver src) = [] \<and>
     accepted (snk_driver snk) = accepted (snk_driver sink) @ slip_payload data @ [RAW_EOF]"
  using assms
proof (induction data arbitrary: source sink)
  case Nil
  obtain src where g: "source_get_octet source = Some (- ENODATA, [], src)" "joined src sink" "stream (src_driver src) = []"
    using take_octet_none [OF Nil.prems(1,2)] Nil.prems(3) by auto
  have "fits (snk_driver sink) 1"
    using Nil.prems(4) by simp
  from put_octet_fits [OF g(2) this, of RAW_EOF] g Nil.prems show ?case
    by (subst rfc1055_encode_loop.simps) (auto simp: rfc1055_close_def)
next
  case (Cons x data)
  have inv: "winv (snk_driver sink)"
    using Cons.prems(1) by (simp add: joined_def)
  obtain src where g: "source_get_octet source = Some (1, [x], src)" "joined src sink"
     "final (src_driver src) = - ENODATA" "stream (src_driver src) = data"
    using take_octet_some [OF Cons.prems(1,2)] Cons.prems(3) by auto
  have "fits (snk_driver sink) (length (slip_octet x))"
    using fits_less [OF inv Cons.prems(4)] by simp
  from encode_octet_ok [OF g(2) this] obtain rc snk where
    e: "rfc1055_encode_octet sink x = Some (rc, snk)" "0 < rc" "joined src snk"
      "accepted (snk_driver snk) = accepted (snk_driver sink) @ slip_octet x"
      "\<forall>k. fits (snk_driver snk) k = fits (snk_driver sink) (length (slip_octet x) + k)" by blast
  have "fits (snk_driver snk) (length (slip_payload data) + 1)"
    using e(5) Cons.prems(4) by (simp add: add.assoc)
  from Cons.IH [OF e(3) g(4,3) this] e g show ?case
    by (subst rfc1055_encode_loop.simps) (auto simp: errno_defs)
qed

lemma rfc1055_encode_ok:
  assumes "joined source sink" "stream (src_driver source) = data" "final (src_driver source) = - ENODATA"
    and "fits (snk_driver sink) (length (slip_frame (rfc_flags ctx) data))"
  shows "\<exists>src snk. rfc1055_encode ctx source sink = Some (0, src, snk) \<and> joined src snk \<and>
     stream (src_driver src) = [] \<and>
     accepted (snk_driver snk) = accepted (snk_driver sink) @ slip_frame (rfc_flags ctx) data"
proof (cases "bit (rfc_flags ctx) RFC1055_WITH_SOF")
  case True
  have inv: "winv (snk_driver sink)"
    using assms(1) by (simp add: joined_def)
  have "fits (snk_driver sink) 1"
    using fits_less [OF inv assms(4)] by (simp add: slip_frame_def)
  from put_octet_fits [OF assms(1) this, of RAW_EOF] obtain snk where
    p: "sink_put_octet sink RAW_EOF = Some (1, snk)" "joined source snk"
      "accepted (snk_driver snk) = accepted (snk_driver sink) @ [RAW_EOF]"
      "\<forall>k. fits (snk_driver snk) k = fits (snk_driver sink) (Suc k)" by blast
  have "fits (snk_driver snk) (length (slip_payload data) + 1)"
    using p(4) assms(4) True by (simp add: slip_frame_def)
  from encode_loop_ok [OF p(2) assms(2,3) this] p True show ?thesis
    by (auto simp: rfc1055_encode_def rfc1055_open_def slip_frame_def)
next
  case False
  with encode_loop_ok [OF assms(1,2,3)] assms(4) show ?thesis
    by (simp add: rfc1055_encode_def rfc1055_open_def slip_frame_def)
qed

lemma decode_octet_ok:
  assumes "joined source sink" "stream (src_driver source) = slip_octet x @ rest"
  shows "\<exists>rc src. rfc1055_decode_octet source = Some (rc, x, src) \<and> 0 < rc \<and> joined src sink \<and>
     stream (src_driver src) = rest"
proof (cases "x = RAW_ESC \<or> x = RAW_EOF")
  case True
  define y where "y = (if x = RAW_ESC then ESC_ESC else ESC_EOF)"
  have st: "stream (src_driver source) = RAW_ESC # (y # rest)"
    using assms(2) True by (auto simp: slip_octet_def y_def)
  obtain src where g: "source_get_octet source = Some (1, [RAW_ESC], src)" "joined src sink"
     "stream (src_driver src) = y # rest"
    using take_octet_some [OF assms(1) st] by blast
  obtain src' where g': "source_get_octet src = Some (1, [y], src')" "joined src' sink" "stream (src_driver src') = rest"
    using take_octet_some [OF g(2,3)] by blast
  have "rfc1055_decode_octet source = Some (2, x, src')"
    using g(1) g'(1) True by (auto simp: rfc1055_decode_octet_def y_def slip_consts)
  with g' show ?thesis by auto
next
  case False
  then have st: "stream (src_driver source) = x # rest"
    using assms(2) by (simp add: slip_octet_def)
  from take_octet_some [OF assms(1) st] False show ?thesis
    by (auto simp: rfc1055_decode_octet_def)
qed

lemma decode_end:
  assumes "joined source sink" "stream (src_driver source) = RAW_EOF # rest"
  shows "\<exists>src. rfc1055_decode_octet source = Some (0, 0, src) \<and> joined src sink \<and> stream (src_driver src) = rest"
  using take_octet_some [OF assms] by (auto simp: rfc1055_decode_octet_def slip_consts)

lemma decode_payload_ok:
  assumes "joined source sink" "stream (src_driver source) = slip_payload data @ RAW_EOF # rest"
    and "fits (snk_driver sink) (length data)" "rfc_state ctx = RFC1055_NORMAL"
  shows "\<exists>ctx' src snk. rfc1055_decode ctx source sink = Some (1, ctx', src, snk) \<and> joined src snk \<and>
     rfc_flags ctx' = rfc_flags ctx \<and> rfc_state ctx' = rfc_state (rfc1055_context_init (rfc_flags ctx)) \<and>
     stream (src_driver src) = rest \<and>
     accepted (snk_driver snk) = accepted (snk_driver sink) @ data \<and>
     (\<forall>k. fits (snk_driver snk) k = fits (snk_driver sink) (length data + k))"
  using assms(1-3)
proof (induction data arbitrary: source sink)
  case Nil
  from decode_end [of source sink rest] Nil obtain src where
    "rfc1055_decode_octet source = Some (0, 0, src)" "joined src sink" "stream (src_driver src) = rest"
    by auto
  then show ?case
    using assms(4) by (subst rfc1055_decode.simps) (auto simp: bit_flags_state errno_defs)
next
  case (Cons x data)
  have inv: "winv (snk_driver sink)"
    using Cons.prems(1) by (simp add: joined_def)
  obtain rc src where g: "rfc1055_decode_octet source = Some (rc, x, src)" "0 < rc" "joined src sink"
     "stream (src_driver src) = slip_payload data @ RAW_EOF # rest"
    using decode_octet_ok [of source sink x "slip_payload data @ RAW_EOF # rest"] Cons.prems by auto
  have "fits (snk_driver sink) 1"
    using fits_less [OF inv Cons.prems(3)] by simp
  from put_octet_fits [OF g(3) this, of x] obtain snk where
    p: "sink_put_octet sink x = Some (1, snk)" "joined src snk"
      "accepted (snk_driver snk) = accepted (snk_driver sink) @ [x]"
      "\<forall>k. fits (snk_driver snk) k = fits (snk_driver sink) (Suc k)" by blast
  have "fits (snk_driver snk) (length data)"
    using p(4) Cons.prems(3) by simp
  from Cons.IH [OF p(2) g(4) this] g p assms(4) show ?case
    by (subst rfc1055_decode.simps) (auto simp: errno_defs)
qed

lemma transition_ok:
  assumes "joined source sink" "stream (src_driver source) = x # rest"
  shows "\<exists>src. transition source = Some (if x = RAW_EOF then 1 else 0, src) \<and> joined src sink \<and>
     stream (src_driver src) = rest"
  using take_octet_some [OF assms] by (auto simp: transition_def)

lemma decode_frame_ok:
  assumes "joined source sink" "stream (src_driver source) = slip_frame (rfc_flags ctx) data @ rest"
    and "fits (snk_driver sink) (length data)"
    and "rfc_state ctx = rfc_state (rfc1055_context_init (rfc_flags ctx))"
  shows "\<exists>ctx' src snk. rfc1055_decode ctx source sink = Some (1, ctx', src, snk) \<and> joined src snk \<and>
     rfc_flags ctx' = rfc_flags ctx \<and> rfc_state ctx' = rfc_state ctx \<and>
     stream (src_driver src) = rest \<and>
     accepted (snk_driver snk) = accepted (snk_driver sink) @ data \<and>
     (\<forall>k. fits (snk_driver snk) k = fits (snk_driver sink) (length data + k))"
proof (cases "bit (rfc_flags ctx) RFC1055_WITH_SOF")
  case True
  let ?ctx = "ctx\<lparr>rfc_state := RFC1055_NORMAL\<rparr>"
  have st: "stream (src_driver source) = RAW_EOF # (slip_payload data @ RAW_EOF # rest)"
    using assms(2) True by (simp add: slip_frame_def)
  obtain src where t: "transition source = Some (1, src)" "joined src sink"
     "stream (src_driver src) = slip_payload data @ RAW_EOF # rest"
    using transition_ok [OF assms(1) st] by auto
  have "rfc1055_decode ctx source sink = rfc1055_decode ?ctx src sink"
    using t(1) assms(4) True by (subst rfc1055_decode.simps) (simp add: bit_flags_state)
  with decode_payload_ok [OF t(2,3) assms(3), of ?ctx] assms(4) show ?thesis
    by simp
next
  case False
  with decode_payload_ok [OF assms(1) _ assms(3), of rest ctx] assms(2,4) show ?thesis
    by (simp add: slip_frame_def bit_flags_state)
qed

text \<open>Looking for the end of a broken frame.\<close>

lemma decode_resync:
  assumes "joined source sink" "stream (src_driver source) = junk @ RAW_EOF # rest" "RAW_EOF \<notin> set junk"
    and "rfc_state ctx = RFC1055_SEARCH_FOR_END"
  shows "\<exists>src. rfc1055_decode ctx source sink =
       rfc1055_decode (ctx\<lparr>rfc_state := rfc_state (rfc1055_context_init (rfc_flags ctx))\<rparr>) src sink \<and>
     joined src sink \<and> stream (src_driver src) = rest"
  using assms(1-3)
proof (induction junk arbitrary: source)
  case Nil
  from transition_ok [OF Nil.prems(1)] Nil.prems(2) obtain src where
    t: "transition source = Some (1, src)" "joined src sink" "stream (src_driver src) = rest" by force
  then show ?case
    using assms(4) by (intro exI [of _ src]) (subst rfc1055_decode.simps, simp add: bit_flags_state)
next
  case (Cons x junk)
  from transition_ok [OF Cons.prems(1)] Cons.prems(2,3) obtain src where
    t: "transition source = Some (0, src)" "joined src sink" "stream (src_driver src) = junk @ RAW_EOF # rest"
    by force
  have "rfc1055_decode ctx source sink = rfc1055_decode ctx src sink"
    using t(1) assms(4) by (subst rfc1055_decode.simps) simp
  with Cons.IH [OF t(2,3)] Cons.prems(3) show ?case
    by simp
qed

text \<open>An escape octet that is followed by an octet it cannot escape.\<close>

lemma decode_broken:
  assumes "joined source sink" "stream (src_driver source) = slip_payload data @ RAW_ESC # y # rest"
    and "y \<notin> {ESC_EOF, ESC_ESC}" "fits (snk_driver sink) (length data)" "rfc_state ctx = RFC1055_NORMAL"
  shows "\<exists>src snk. rfc1055_decode ctx source sink =
       Some (- EILSEQ, ctx\<lparr>rfc_state := (if y = RAW_EOF then rfc_state (rfc1055_context_init (rfc_flags ctx))
                                        else RFC1055_SEARCH_FOR_END)\<rparr>, src, snk) \<and>
     joined src snk \<and> stream (src_driver src) = rest \<and>
     accepted (snk_driver snk) = accepted (snk_driver sink) @ data \<and>
     (\<forall>k. fits (snk_driver snk) k = fits (snk_driver sink) (length data + k))"
  using assms(1,2,4)
proof (induction data arbitrary: source sink)
  case Nil
  have st: "stream (src_driver source) = RAW_ESC # (y # rest)"
    using Nil.prems(2) by simp
  obtain src where g: "source_get_octet source = Some (1, [RAW_ESC], src)" "joined src sink"
     "stream (src_driver src) = y # rest"
    using take_octet_some [OF Nil.prems(1) st] by blast
  obtain src' where g': "source_get_octet src = Some (1, [y], src')" "joined src' sink" "stream (src_driver src') = rest"
    using take_octet_some [OF g(2,3)] by blast
  have "rfc1055_decode_octet source = Some (- EILSEQ, y, src')"
    using g(1) g'(1) assms(3) by (simp add: rfc1055_decode_octet_def)
  then show ?case
    using g' assms(5) by (intro exI [of _ src'] exI [of _ sink], subst rfc1055_decode.simps)
      (simp add: bit_flags_state)
next
  case (Cons x data)
  have inv: "winv (snk_driver sink)"
    using Cons.prems(1) by (simp add: joined_def)
  obtain rc src where g: "rfc1055_decode_octet source = Some (rc, x, src)" "0 < rc" "joined src sink"
     "stream (src_driver src) = slip_payload data @ RAW_ESC # y # rest"
    using decode_octet_ok [of source sink x "slip_payload data @ RAW_ESC # y # rest"] Cons.prems by auto
  have "fits (snk_driver sink) 1"
    using fits_less [OF inv Cons.prems(3)] by simp
  from put_octet_fits [OF g(3) this, of x] obtain snk where
    p: "sink_put_octet sink x = Some (1, snk)" "joined src snk"
      "accepted (snk_driver snk) = accepted (snk_driver sink) @ [x]"
      "\<forall>k. fits (snk_driver snk) k = fits (snk_driver sink) (Suc k)" by blast
  have "fits (snk_driver snk) (length data)"
    using p(4) Cons.prems(3) by simp
  from Cons.IH [OF p(2) g(4) this] obtain src' snk' where ih:
    "rfc1055_decode ctx src snk =
       Some (- EILSEQ, ctx\<lparr>rfc_state := (if y = RAW_EOF then rfc_state (rfc1055_context_init (rfc_flags ctx))
                                        else RFC1055_SEARCH_FOR_END)\<rparr>, src', snk')"
    "joined src' snk'" "stream (src_driver src') = rest"
    "accepted (snk_driver snk') = accepted (snk_driver snk) @ data"
    "\<forall>k. fits (snk_driver snk') k = fits (snk_driver snk) (length data + k)" by blast
  have "rfc1055_decode ctx source sink = rfc1055_decode ctx src snk"
    using g p assms(5) by (subst rfc1055_decode.simps) (auto simp: errno_defs)
  with ih p show ?case
    by (intro exI [of _ src'] exI [of _ snk']) simp
qed

end

section \<open>Properties\<close>

lemma joined_buffers:
  "buffer_to_buffer.joined (source_from_buffer si bs) (sink_to_buffer ti bt) = (bb_ready bs \<and> bb_ready bt)"
  by (simp add: buffer_to_buffer.joined_def)

lemma joined_pair:
  "buffer_to_buffer.joined src snk \<longleftrightarrow> bb_ready (src_driver src) \<and> src_fn src = ChunkSource read_from_buffer \<and>
     plain_retry (src_retry src) \<and> bb_ready (snk_driver snk) \<and> snk_fn snk = ChunkSink write_to_buffer \<and>
     plain_retry (snk_retry snk)"
  by (simp add: buffer_to_buffer.joined_def)

text \<open>C4. Any payload, framed into a buffer with room for the announced worst case, comes out of the
  decoder unchanged: encoding returns success and uses the source up, decoding returns one frame, reads
  exactly the frame, and is ready for the next one. Both framings, with and without a start octet.\<close>

theorem slip_roundtrip:
  assumes "bb_ready bs" and "bb_ready bt" and "bb_ready bd" and "bb_pending bt = []"
    and "RFC1055_WORST_CASE (length (bb_pending bs)) (bit flags RFC1055_WITH_SOF) \<le> byte_buffer_avail bt"
    and "length (bb_pending bs) \<le> byte_buffer_avail bd"
  shows "\<exists>src snk. rfc1055_encode (rfc1055_context_init flags) (source_from_buffer si bs) (sink_to_buffer ti bt) =
           Some (0, src, snk) \<and> bb_pending (src_driver src) = [] \<and>
         (\<exists>src' snk'. rfc1055_decode (rfc1055_context_init flags) (source_from_buffer si (snk_driver snk))
             (sink_to_buffer ti bd) = Some (1, rfc1055_context_init flags, src', snk') \<and>
           bb_pending (src_driver src') = [] \<and> bb_pending (snk_driver snk') = bb_pending bd @ bb_pending bs)"
proof -
  let ?ctx = "rfc1055_context_init flags"
  have j: "buffer_to_buffer.joined (source_from_buffer si bs) (sink_to_buffer ti bt)"
    using assms by (simp add: joined_buffers)
  have room: "length (slip_frame flags (bb_pending bs)) \<le> byte_buffer_avail bt"
    using length_slip_frame assms(5) le_trans by blast
  obtain src snk where e: "rfc1055_encode ?ctx (source_from_buffer si bs) (sink_to_buffer ti bt) = Some (0, src, snk)"
     "buffer_to_buffer.joined src snk" "bb_pending (src_driver src) = []"
     "bb_pending (snk_driver snk) = slip_frame flags (bb_pending bs)"
    using buffer_to_buffer.rfc1055_encode_ok [OF j, of "bb_pending bs" ?ctx] room assms(4)
    by (auto simp: bit_flags_state)
  have j2: "buffer_to_buffer.joined (source_from_buffer si (snk_driver snk)) (sink_to_buffer ti bd)"
    using e(2) assms(3) by (simp add: joined_buffers joined_pair)
  obtain ctx' src' snk' where d: "rfc1055_decode ?ctx (source_from_buffer si (snk_driver snk)) (sink_to_buffer ti bd) =
       Some (1, ctx', src', snk')" "rfc_flags ctx' = flags" "rfc_state ctx' = rfc_state ?ctx"
     "bb_pending (src_driver src') = []" "bb_pending (snk_driver snk') = bb_pending bd @ bb_pending bs"
    using buffer_to_buffer.decode_frame_ok [OF j2, of ?ctx "bb_pending bs" "[]"] e(4) assms(6)
    by (auto simp: bit_flags_state)
  have "ctx' = ?ctx"
    using d(2,3) by (intro RFC1055Context.equality) (simp_all add: bit_flags_state)
  with e(1,3) d(1,4,5) show ?thesis
    by (intro exI [of _ src] exI [of _ snk]) auto
qed

theorem slip_roundtrip_witness:
  "\<exists>src snk. rfc1055_encode (rfc1055_context_init 1)
       (source_from_buffer (idle_source sample_buffer) (sample_buffer\<lparr>bb_data := Some [0xc0, 0xdb, 7], bb_used := 3\<rparr>))
       (sink_to_buffer (idle_sink sample_buffer) (sample_buffer\<lparr>bb_data := Some (replicate 9 0), bb_size := 9\<rparr>)) =
     Some (0, src, snk) \<and>
     (\<exists>src' snk'. rfc1055_decode (rfc1055_context_init 1)
         (source_from_buffer (idle_source sample_buffer) (snk_driver snk))
         (sink_to_buffer (idle_sink sample_buffer) sample_buffer) = Some (1, rfc1055_context_init 1, src', snk') \<and>
       bb_pending (snk_driver snk') = [0xc0, 0xdb, 7])"
proof -
  let ?bs = "sample_buffer\<lparr>bb_data := Some [0xc0, 0xdb, 7], bb_used := 3\<rparr>"
  let ?bt = "sample_buffer\<lparr>bb_data := Some (replicate 9 0), bb_size := 9\<rparr>"
  have b: "bb_ready ?bs" "bb_ready ?bt" "bb_pending ?bt = []" "bb_pending ?bs = [0xc0, 0xdb, 7]"
      "byte_buffer_avail ?bt = 9" "byte_buffer_avail sample_buffer = 3" "bb_pending sample_buffer = []"
    by (simp_all add: sample_buffer_def bb_ready_def bb_inv_def bb_pending_def byte_buffer_avail_def SSIZE_MAX_def)
  show ?thesis
    using slip_roundtrip [OF b(1,2) sample_buffer_ready b(3), of 1 "idle_source sample_buffer" "idle_sink sample_buffer"]
      b(4-7) by (auto simp: RFC1055_WORST_CASE_def RFC1055_WITH_SOF_def)
qed

text \<open>Decoding frame after frame from the same source.\<close>

fun rfc1055_decode_frames ::
    "nat \<Rightarrow> RFC1055Context \<Rightarrow> 's Source \<Rightarrow> 't Sink \<Rightarrow> (int list \<times> RFC1055Context \<times> 's Source \<times> 't Sink) option" where
  "rfc1055_decode_frames 0 ctx source sink = Some ([], ctx, source, sink)"
| "rfc1055_decode_frames (Suc k) ctx source sink = do {
     (rc, ctx', src, snk) \<leftarrow> rfc1055_decode ctx source sink;
     (rcs, r) \<leftarrow> rfc1055_decode_frames k ctx' src snk;
     Some (rc # rcs, r)
   }"

lemma decode_frames_ok:
  assumes "buffer_to_buffer.joined source sink"
    and "bb_pending (src_driver source) = concat (map (slip_frame (rfc_flags ctx)) msgs) @ rest"
    and "length (concat msgs) \<le> byte_buffer_avail (snk_driver sink)"
    and "rfc_state ctx = rfc_state (rfc1055_context_init (rfc_flags ctx))"
  shows "\<exists>ctx' src snk. rfc1055_decode_frames (length msgs) ctx source sink =
           Some (replicate (length msgs) 1, ctx', src, snk) \<and>
         bb_pending (src_driver src) = rest \<and>
         bb_pending (snk_driver snk) = bb_pending (snk_driver sink) @ concat msgs"
  using assms
proof (induction msgs arbitrary: ctx source sink)
  case Nil
  then show ?case by simp
next
  case (Cons msg msgs)
  have st: "bb_pending (src_driver source) =
      slip_frame (rfc_flags ctx) msg @ (concat (map (slip_frame (rfc_flags ctx)) msgs) @ rest)"
    using Cons.prems(2) by simp
  have fit: "length msg \<le> byte_buffer_avail (snk_driver sink)"
    using Cons.prems(3) by simp
  obtain ctx1 src snk where d: "rfc1055_decode ctx source sink = Some (1, ctx1, src, snk)"
     "buffer_to_buffer.joined src snk" "rfc_flags ctx1 = rfc_flags ctx" "rfc_state ctx1 = rfc_state ctx"
     "bb_pending (src_driver src) = concat (map (slip_frame (rfc_flags ctx)) msgs) @ rest"
     "bb_pending (snk_driver snk) = bb_pending (snk_driver sink) @ msg"
     "\<forall>k. (k \<le> byte_buffer_avail (snk_driver snk)) = (length msg + k \<le> byte_buffer_avail (snk_driver sink))"
    using buffer_to_buffer.decode_frame_ok [OF Cons.prems(1) st fit Cons.prems(4)] by blast
  have "length (concat msgs) \<le> byte_buffer_avail (snk_driver snk)"
    using d(7) Cons.prems(3) by simp
  from Cons.IH [OF d(2) _ this, of ctx1] d Cons.prems(4) show ?case
    by auto
qed

text \<open>A stream of frames is taken apart frame by frame: as many calls as there are frames, each
  returning one, in order, up to exactly the end of the last.\<close>

theorem slip_frames_in_order:
  assumes "bb_ready bs" and "bb_ready bt"
    and "bb_pending bs = concat (map (slip_frame flags) msgs) @ rest"
    and "length (concat msgs) \<le> byte_buffer_avail bt"
  shows "\<exists>ctx' src snk. rfc1055_decode_frames (length msgs) (rfc1055_context_init flags)
             (source_from_buffer si bs) (sink_to_buffer ti bt) = Some (replicate (length msgs) 1, ctx', src, snk) \<and>
           bb_pending (src_driver src) = rest \<and> bb_pending (snk_driver snk) = bb_pending bt @ concat msgs"
  using decode_frames_ok [of "source_from_buffer si bs" "sink_to_buffer ti bt" "rfc1055_context_init flags" msgs rest]
    assms by (simp add: joined_buffers bit_flags_state)

theorem slip_frames_in_order_witness:
  "\<exists>ctx' src snk. rfc1055_decode_frames 2 (rfc1055_context_init 0)
       (source_from_buffer (idle_source sample_buffer)
          (sample_buffer\<lparr>bb_data := Some [1, 0xc0, 2, 0xc0, 9], bb_size := 5, bb_used := 5\<rparr>))
       (sink_to_buffer (idle_sink sample_buffer) sample_buffer) = Some ([1, 1], ctx', src, snk) \<and>
     bb_pending (src_driver src) = [9] \<and> bb_pending (snk_driver snk) = [1, 2]"
proof -
  let ?bs = "sample_buffer\<lparr>bb_data := Some [1, 0xc0, 2, 0xc0, 9], bb_size := 5, bb_used := 5\<rparr>"
  have b: "bb_ready ?bs" "bb_pending ?bs = concat (map (slip_frame 0) [[1], [2]]) @ [9]"
    "bb_pending sample_buffer = []" "byte_buffer_avail sample_buffer = 3"
    by (simp_all add: sample_buffer_def bb_ready_def bb_inv_def bb_pending_def byte_buffer_avail_def SSIZE_MAX_def
        slip_frame_def slip_octet_def slip_consts)
  show ?thesis
    using slip_frames_in_order [OF b(1) sample_buffer_ready b(2), of "idle_source sample_buffer" "idle_sink sample_buffer"]
      b(3,4) by (simp add: numeral_2_eq_2)
qed

text \<open>C31. Recovery: a frame with an illegal escape sequence is reported once, with -EILSEQ; the next call
  skips what is left of it, whatever that is, and delivers the frame that follows.\<close>

theorem slip_recovers:
  assumes "bb_ready bs" and "bb_ready bt"
    and "bb_pending bs = (if bit flags RFC1055_WITH_SOF then [RAW_EOF] else []) @
           slip_payload a @ [RAW_ESC, y] @ junk @ [RAW_EOF] @ slip_frame flags msg @ rest"
    and "y \<notin> {ESC_EOF, ESC_ESC, RAW_EOF}" and "RAW_EOF \<notin> set junk"
    and "length a + length msg \<le> byte_buffer_avail bt"
  shows "\<exists>ctx' src snk. rfc1055_decode_frames 2 (rfc1055_context_init flags)
             (source_from_buffer si bs) (sink_to_buffer ti bt) = Some ([- EILSEQ, 1], ctx', src, snk) \<and>
           bb_pending (src_driver src) = rest \<and> bb_pending (snk_driver snk) = bb_pending bt @ a @ msg"
proof -
  let ?ctx = "rfc1055_context_init flags"
  let ?snk = "sink_to_buffer ti bt"
  define more where "more = junk @ RAW_EOF # slip_frame flags msg @ rest"
  have j: "buffer_to_buffer.joined (source_from_buffer si bs) ?snk"
    using assms by (simp add: joined_buffers)
  obtain src0 where s0: "rfc1055_decode ?ctx (source_from_buffer si bs) ?snk =
        rfc1055_decode (?ctx\<lparr>rfc_state := RFC1055_NORMAL\<rparr>) src0 ?snk"
     "buffer_to_buffer.joined src0 ?snk" "bb_pending (src_driver src0) = slip_payload a @ RAW_ESC # y # more"
  proof (cases "bit flags RFC1055_WITH_SOF")
    case True
    have st: "bb_pending (src_driver (source_from_buffer si bs)) = RAW_EOF # (slip_payload a @ RAW_ESC # y # more)"
      using assms(3) True by (simp add: more_def)
    obtain src0 where "transition (source_from_buffer si bs) = Some (1, src0)" "buffer_to_buffer.joined src0 ?snk"
       "bb_pending (src_driver src0) = slip_payload a @ RAW_ESC # y # more"
      using buffer_to_buffer.transition_ok [OF j st] by auto
    moreover from this have "rfc1055_decode ?ctx (source_from_buffer si bs) ?snk =
        rfc1055_decode (?ctx\<lparr>rfc_state := RFC1055_NORMAL\<rparr>) src0 ?snk"
      using True by (subst rfc1055_decode.simps) (simp add: bit_flags_state)
    ultimately show thesis
      using that by blast
  next
    case False
    then have "?ctx\<lparr>rfc_state := RFC1055_NORMAL\<rparr> = ?ctx"
      by (simp add: rfc1055_context_init_def)
    with False j assms(3) that [of "source_from_buffer si bs"] show thesis
      by (simp add: more_def)
  qed
  have bad: "y \<notin> {ESC_EOF, ESC_ESC}" "y \<noteq> RAW_EOF" and fit: "length a \<le> byte_buffer_avail (snk_driver ?snk)"
    using assms(4,6) by auto
  define ctx1 where "ctx1 = ?ctx\<lparr>rfc_state := RFC1055_SEARCH_FOR_END\<rparr>"
  obtain src1 snk1 where s1: "rfc1055_decode ?ctx (source_from_buffer si bs) ?snk = Some (- EILSEQ, ctx1, src1, snk1)"
     "buffer_to_buffer.joined src1 snk1" "bb_pending (src_driver src1) = more"
     "bb_pending (snk_driver snk1) = bb_pending bt @ a"
     "\<forall>k. (k \<le> byte_buffer_avail (snk_driver snk1)) = (length a + k \<le> byte_buffer_avail bt)"
    using buffer_to_buffer.decode_broken [OF s0(2,3) bad(1) fit, of "?ctx\<lparr>rfc_state := RFC1055_NORMAL\<rparr>"] bad(2) s0(1)
    by (auto simp: ctx1_def)
  have st1: "bb_pending (src_driver src1) = junk @ RAW_EOF # (slip_frame flags msg @ rest)"
    using s1(3) by (simp add: more_def)
  have "rfc_state ctx1 = RFC1055_SEARCH_FOR_END" "rfc_flags ctx1 = flags"
    by (simp_all add: ctx1_def bit_flags_state)
  from buffer_to_buffer.decode_resync [OF s1(2) st1 assms(5) this(1)] this(2) obtain src2 where
    s2: "rfc1055_decode ctx1 src1 snk1 = rfc1055_decode (ctx1\<lparr>rfc_state := rfc_state ?ctx\<rparr>) src2 snk1"
     "buffer_to_buffer.joined src2 snk1" "bb_pending (src_driver src2) = slip_frame flags msg @ rest"
    by auto
  have fit1: "length msg \<le> byte_buffer_avail (snk_driver snk1)"
    using s1(5) assms(6) by simp
  let ?ctx2 = "ctx1\<lparr>rfc_state := rfc_state ?ctx\<rparr>"
  have c2: "rfc_flags ?ctx2 = flags" "rfc_state ?ctx2 = rfc_state (rfc1055_context_init (rfc_flags ?ctx2))"
    by (simp_all add: ctx1_def bit_flags_state)
  obtain ctx' src' snk' where "rfc1055_decode ctx1 src1 snk1 = Some (1, ctx', src', snk')"
     "bb_pending (src_driver src') = rest" "bb_pending (snk_driver snk') = bb_pending (snk_driver snk1) @ msg"
    using buffer_to_buffer.decode_frame_ok [OF s2(2) _ fit1 c2(2), of rest] s2(1,3) c2(1) by auto
  with s1(1,4) show ?thesis
    by (simp add: numeral_2_eq_2)
qed

theorem slip_recovers_witness:
  "\<exists>ctx' src snk. rfc1055_decode_frames 2 (rfc1055_context_init 0)
       (source_from_buffer (idle_source sample_buffer)
          (sample_buffer\<lparr>bb_data := Some [1, 0xdb, 5, 6, 0xc0, 2, 0xc0, 9], bb_size := 8, bb_used := 8\<rparr>))
       (sink_to_buffer (idle_sink sample_buffer) sample_buffer) = Some ([- EILSEQ, 1], ctx', src, snk) \<and>
     bb_pending (src_driver src) = [9] \<and> bb_pending (snk_driver snk) = [1, 2]"
proof -
  let ?bs = "sample_buffer\<lparr>bb_data := Some [1, 0xdb, 5, 6, 0xc0, 2, 0xc0, 9], bb_size := 8, bb_used := 8\<rparr>"
  have b: "bb_ready ?bs" "bb_pending ?bs = (if bit (0 :: u32) RFC1055_WITH_SOF then [RAW_EOF] else []) @
      slip_payload [1] @ [RAW_ESC, 5] @ [6] @ [RAW_EOF] @ slip_frame 0 [2] @ [9]"
    "bb_pending sample_buffer = []" "byte_buffer_avail sample_buffer = 3"
    by (simp_all add: sample_buffer_def bb_ready_def bb_inv_def bb_pending_def byte_buffer_avail_def SSIZE_MAX_def
        slip_frame_def slip_octet_def slip_consts)
  show ?thesis
    using slip_recovers [OF b(1) sample_buffer_ready b(2), of "idle_source sample_buffer" "idle_sink sample_buffer"]
      b(3,4) by (simp add: slip_consts)
qed

end
