(* ===== verification/Text_Formats.thy ===== *)
theory Text_Formats
  imports Ufw_Prelude
begin

text \<open>
  The conversions of \<^verbatim>\<open>printf\<close> that the library uses: unsigned and signed decimal numbers, hexadecimal numbers padded
  with zeros, and the exponential notation of floating point values. The lemmas show how wide a padded number is and
  that the number can be read back.
\<close>

section \<open>Numbers as digits\<close>

definition digit_names :: string where "digit_names = ''0123456789abcdef''"

definition digit_value :: "char \<Rightarrow> nat" where
  "digit_value c = length (takeWhile (\<lambda>x. x \<noteq> c) digit_names)"

function digits :: "nat \<Rightarrow> nat \<Rightarrow> nat list" where
  "digits b n = (if b < 2 \<or> n < b then [n] else digits b (n div b) @ [n mod b])"
  by auto
termination
  by (relation "measure snd") (auto intro: div_less_dividend)

declare digits.simps [simp del]

definition number_text :: "nat \<Rightarrow> nat \<Rightarrow> string" where
  "number_text b n = map (\<lambda>d. digit_names ! d) (digits b n)"

definition zero_padded :: "nat \<Rightarrow> string \<Rightarrow> string" where
  "zero_padded w s = replicate (w - length s) (CHR ''0'') @ s"

definition number_read :: "nat \<Rightarrow> string \<Rightarrow> nat" where
  "number_read b s = foldl (\<lambda>n c. n * b + digit_value c) 0 s"

text \<open>The conversions \<open>%u\<close>, \<open>%d\<close> and \<open>%0wx\<close>.\<close>

definition fmt_u :: "nat \<Rightarrow> string" where
  "fmt_u n = number_text 10 n"

definition fmt_d :: "int \<Rightarrow> string" where
  "fmt_d i = (if i < 0 then CHR ''-'' # number_text 10 (nat (- i)) else number_text 10 (nat i))"

definition fmt_x :: "nat \<Rightarrow> nat \<Rightarrow> string" where
  "fmt_x w n = zero_padded w (number_text 16 n)"

section \<open>Reading numbers back\<close>

lemma digit_value_name: "d < 16 \<Longrightarrow> digit_value (digit_names ! d) = d"
proof -
  have "\<forall>d \<in> set [0..<16]. digit_value (digit_names ! d) = d"
    by code_simp
  then show "d < 16 \<Longrightarrow> digit_value (digit_names ! d) = d"
    by auto
qed

lemma digits_small: "2 \<le> b \<Longrightarrow> d \<in> set (digits b n) \<Longrightarrow> d < b"
  by (induction b n rule: digits.induct) (subst (asm) digits.simps, auto split: if_splits)

lemma foldl_digits: "2 \<le> b \<Longrightarrow> foldl (\<lambda>n d. n * b + d) 0 (digits b n) = n"
  by (induction b n rule: digits.induct) (subst digits.simps, auto)

lemma number_read_padding: "number_read b (replicate k (CHR ''0'') @ s) = number_read b s"
proof -
  have "digit_value (CHR ''0'') = 0"
    by code_simp
  then have "foldl (\<lambda>n c. n * b + digit_value c) 0 (replicate k (CHR ''0'')) = 0"
    by (induction k) simp_all
  then show ?thesis
    by (simp add: number_read_def)
qed

lemma number_read_text:
  assumes "2 \<le> b" "b \<le> 16"
  shows "number_read b (number_text b n) = n"
proof -
  have "foldl (\<lambda>n d. n * b + digit_value (digit_names ! d)) 0 (digits b n) = foldl (\<lambda>n d. n * b + d) 0 (digits b n)"
    using digits_small [OF assms(1)] assms(2) by (intro foldl_cong refl) (metis digit_value_name order.strict_trans2)
  then show ?thesis
    using foldl_digits [OF assms(1)] by (simp add: number_read_def number_text_def foldl_map)
qed

lemma number_read_padded: "2 \<le> b \<Longrightarrow> b \<le> 16 \<Longrightarrow> number_read b (zero_padded w (number_text b n)) = n"
  by (simp add: zero_padded_def number_read_padding number_read_text)

lemma length_digits: "2 \<le> b \<Longrightarrow> 0 < w \<Longrightarrow> n < b ^ w \<Longrightarrow> length (digits b n) \<le> w"
proof (induction b n arbitrary: w rule: digits.induct)
  case (1 b n)
  show ?case
  proof (cases "n < b")
    case True
    with 1 show ?thesis
      by (simp add: digits.simps)
  next
    case False
    then have "2 \<le> w"
      using 1 by (cases "w = 1") auto
    then have "n < b ^ (w - 1) * b"
      using 1(4) power_minus_mult [of w b] \<open>2 \<le> w\<close> by simp
    then have "n div b < b ^ (w - 1)" "0 < w - 1"
      using \<open>2 \<le> w\<close> by (simp_all add: less_mult_imp_div_less)
    with 1 False have "length (digits b (n div b)) \<le> w - 1"
      by auto
    with False 1(2) \<open>2 \<le> w\<close> show ?thesis
      by (subst digits.simps) simp
  qed
qed

lemma length_padded: "2 \<le> b \<Longrightarrow> 0 < w \<Longrightarrow> n < b ^ w \<Longrightarrow> length (zero_padded w (number_text b n)) = w"
  using length_digits [of b w n] by (simp add: zero_padded_def number_text_def)

section \<open>Floating point numbers\<close>

text \<open>
  The conversion \<open>%e\<close> with its six digits behind the point, rounded to nearest, ties to even. A number is
  \<open>num / den\<close>; its decimal exponent is read off the number of digits of a quotient.
\<close>

definition decimal_exponent :: "nat \<Rightarrow> nat \<Rightarrow> int" where
  "decimal_exponent num den =
     (if den \<le> num then int (length (digits 10 (num div den))) - 1 else - int (length (digits 10 ((den - 1) div num))))"

definition rounded_quotient :: "nat \<Rightarrow> nat \<Rightarrow> nat" where
  "rounded_quotient a b =
     (let q = a div b; r = a mod b in if 2 * r > b \<or> 2 * r = b \<and> odd q then q + 1 else q)"

definition exponent_text :: "int \<Rightarrow> string" where
  "exponent_text x = CHR ''e'' # (if x < 0 then CHR ''-'' else CHR ''+'') # zero_padded 2 (number_text 10 (nat \<bar>x\<bar>))"

definition mantissa_text :: "nat \<Rightarrow> string" where
  "mantissa_text q = (let s = zero_padded 7 (number_text 10 q) in take 1 s @ CHR ''.'' # drop 1 s)"

definition fmt_e_magnitude :: "nat \<Rightarrow> nat \<Rightarrow> string" where
  "fmt_e_magnitude num den =
     (if num = 0 then mantissa_text 0 @ exponent_text 0
      else let x = decimal_exponent num den;
               q = (if 0 \<le> x then rounded_quotient (num * 10 ^ 6) (den * 10 ^ nat x)
                    else rounded_quotient (num * 10 ^ (6 + nat (- x))) den)
           in if q = 10 ^ 7 then mantissa_text (10 ^ 6) @ exponent_text (x + 1)
              else mantissa_text q @ exponent_text x)"

text \<open>Numbers of \<open>f\<close> fraction bits in an IEEE 754 pattern; \<open>exps\<close> is the number of exponent bits.\<close>

definition fmt_e :: "nat \<Rightarrow> nat \<Rightarrow> nat \<Rightarrow> string" where
  "fmt_e f exps pattern =
     (let sign = (if odd (pattern div 2 ^ (f + exps)) then [CHR ''-''] else []);
          fraction = pattern mod 2 ^ f; ex = pattern div 2 ^ f mod 2 ^ exps; bias = 2 ^ (exps - 1) - 1
      in if ex = 2 ^ exps - 1 then sign @ (if fraction = 0 then ''inf'' else ''nan'')
         else let m = (if ex = 0 then fraction else fraction + 2 ^ f); k = int (max ex 1) - int bias - int f
              in sign @ fmt_e_magnitude (m * 2 ^ nat k) (2 ^ nat (- k)))"

section \<open>Printing functions\<close>

text \<open>A printing function that appends the text it is given to what its driver shows.\<close>

locale printer =
  fixes print :: "'s \<Rightarrow> string \<Rightarrow> 's" and shown :: "'s \<Rightarrow> string"
  assumes appends: "shown (print s t) = shown s @ t"
begin

lemma shown_calls: "shown (foldl print s ts) = shown s @ concat ts"
  by (induction ts arbitrary: s) (simp_all add: appends)

end

end
