(* ===== verification/Slip_Filter.thy ===== *)
theory Slip_Filter
  imports Posix_Endpoints Slip Text_Formats
begin

text \<open>
  The example program \<^verbatim>\<open>examples/ex-rfc1055-parse-frame.c\<close>, a filter that decodes one SLIP frame from its standard
  input to its standard output. It puts the decoder of \<^verbatim>\<open>Slip\<close> on top of the file descriptors of
  \<^verbatim>\<open>Posix_Endpoints\<close>. What \<open>getopt\<close> and \<open>getenv\<close> answer are parameters, as are \<open>read\<close>, \<open>write\<close> and \<open>strerror\<close>;
  \<open>si\<close> and \<open>ti\<close> are what the memory of the source and the sink holds before they are initialised.
\<close>

section \<open>The program\<close>

text \<open>\<open>getopt\<close> answers with the option or a question mark. The result is the failure of the program, or whether the start
  octet is used.\<close>

fun filter_options :: "string \<Rightarrow> bool \<Rightarrow> string + bool" where
  "filter_options [] usesof = Inr usesof"
| "filter_options (opt # opts) usesof =
     (if opt = CHR ''s'' then filter_options opts True else Inl (''Unknown option: '' @ [opt, CHR 0x0A]))"

definition EXIT_SUCCESS :: int where "EXIT_SUCCESS = 0"
definition EXIT_FAILURE :: int where "EXIT_FAILURE = 1"

text \<open>The loop ends with a frame or at the end of the input; a program that never gets there has no result.\<close>

partial_function (option) filter_loop ::
    "(int \<Rightarrow> string) \<Rightarrow> RFC1055Context \<Rightarrow> 's Source \<Rightarrow> 't Sink \<Rightarrow> string \<Rightarrow> (int \<times> string \<times> 's Source \<times> 't Sink) option" where
  "filter_loop strerror ctx source sink err = do {
     (rc, ctx, source, sink) \<leftarrow> rfc1055_decode ctx source sink;
     if rc > 0 then Some (EXIT_SUCCESS, err, source, sink)
     else if rc < 0 then
       let err = err @ ''# errno: '' @ fmt_d (- rc) @ '' ('' @ strerror (- rc) @ '')'' @ [CHR 0x0A] in
       if rc = - ENODATA then Some (EXIT_FAILURE, err, source, sink) else filter_loop strerror ctx source sink err
     else filter_loop strerror ctx source sink err
   }"

definition filter_main ::
    "string \<Rightarrow> string option \<Rightarrow> (int \<Rightarrow> string) \<Rightarrow> 'w read_call \<Rightarrow> 'v write_call \<Rightarrow> 'w filedesc Source \<Rightarrow> 'v filedesc Sink \<Rightarrow>
       'w filedesc \<Rightarrow> 'v filedesc \<Rightarrow> string + (int \<times> string \<times> 'w filedesc Source \<times> 'v filedesc Sink) option" where
  "filter_main opts envsof strerror read write si ti fd_stdin fd_stdout = (case filter_options opts False of
       Inl s \<Rightarrow> Inl s
     | Inr usesof \<Rightarrow>
         let usesof = (if envsof = Some ''1'' then True else usesof);
             ctx = rfc1055_context_init (if usesof then push_bit RFC1055_WITH_SOF 1 else 0);
             source = source_from_filedesc read si fd_stdin;
             sink = sink_to_filedesc write ti fd_stdout
         in Inr (filter_loop strerror ctx source sink []))"

section \<open>Decoding a frame\<close>

definition frame_flags :: "bool \<Rightarrow> u32" where
  "frame_flags with_sof = (if with_sof then push_bit RFC1055_WITH_SOF 1 else 0)"

lemma filter_options_s: "set opts \<subseteq> {CHR ''s''} \<Longrightarrow> filter_options opts b = Inr (b \<or> opts \<noteq> [])"
  by (induction opts arbitrary: b) auto

lemma unknown_option:
  assumes "o' \<noteq> CHR ''s''" "set opts \<subseteq> {CHR ''s''}"
  shows "filter_main (opts @ o' # rest) env strerror read write si ti d d' = Inl (''Unknown option: '' @ [o', CHR 0x0A])"
proof -
  have "filter_options (opts @ o' # rest) b = Inl (''Unknown option: '' @ [o', CHR 0x0A])" for b
    using assms by (induction opts arbitrary: b) auto
  then show ?thesis
    by (simp add: filter_main_def)
qed

lemma filedesc_steady:
  assumes "documented_read read fd open pending failure (\<lambda>_. 0)" and "documented_write write fd' open' written space wfailure (\<lambda>_. 0)"
    and "\<And>w k j. open' w \<Longrightarrow> space w k \<Longrightarrow> j \<le> k \<Longrightarrow> space w j"
  shows "steady_channel (ChunkSource (run_read read)) (fd_reads fd open) (\<lambda>d. pending (fd_file d)) (read_final failure) (\<lambda>d. 0)
     (ChunkSink (run_write write)) (fd_reads fd' open') (\<lambda>d. written (fd_file d)) (\<lambda>d. space (fd_file d))
     (\<lambda>d. - wfailure (fd_file d)) (\<lambda>d. 0)"
proof (rule steady_channel.intro)
  show "channel (ChunkSource (run_read read)) (fd_reads fd open) (\<lambda>d. pending (fd_file d)) (read_final failure) (\<lambda>d. 0)
     (ChunkSink (run_write write)) (fd_reads fd' open') (\<lambda>d. written (fd_file d)) (\<lambda>d. space (fd_file d))
     (\<lambda>d. - wfailure (fd_file d)) (\<lambda>d. 0)"
    using filedesc_channel [OF assms(1,2)] by simp
  show "steady_channel_axioms (\<lambda>d. 0) (fd_reads fd' open') (\<lambda>d. space (fd_file d)) (\<lambda>d. 0)"
    using assms(3) by unfold_locales (auto simp: fd_reads_def)
qed

text \<open>C24. The filter on a frame, when no call of \<open>read\<close> and \<open>write\<close> is interrupted or would block. With the start octet
  chosen by an option or by the environment, standard input that begins with a frame in this framing, and standard
  output with room for the payload, the program ends with success, has written exactly the payload, has read exactly the
  frame, and has printed no error. (After an interruption the filter goes on, but an octet may be lost, as below.)\<close>

theorem slip_filter_decodes:
  assumes "documented_read read (fd_number d) open pending failure (\<lambda>_. 0)"
    and "documented_write write (fd_number d') open' written space wfailure (\<lambda>_. 0)"
    and "\<And>w k j. open' w \<Longrightarrow> space w k \<Longrightarrow> j \<le> k \<Longrightarrow> space w j"
    and "open (fd_file d)" and "open' (fd_file d')" and "set opts \<subseteq> {CHR ''s''}"
    and "pending (fd_file d) = slip_frame (frame_flags (opts \<noteq> [] \<or> env = Some ''1'')) payload @ rest"
    and "space (fd_file d') (length payload)"
  shows "\<exists>src snk. filter_main opts env strerror read write si ti d d' = Inr (Some (EXIT_SUCCESS, [], src, snk)) \<and>
     pending (fd_file (src_driver src)) = rest \<and> written (fd_file (snk_driver snk)) = written (fd_file d') @ payload"
proof -
  let ?ctx = "rfc1055_context_init (frame_flags (opts \<noteq> [] \<or> env = Some ''1''))"
  let ?src = "source_from_filedesc read si d" and ?snk = "sink_to_filedesc write ti d'"
  have steady: "steady_channel (ChunkSource (run_read read)) (fd_reads (fd_number d) open) (\<lambda>d. pending (fd_file d)) (read_final failure) (\<lambda>d. 0)
     (ChunkSink (run_write write)) (fd_reads (fd_number d') open') (\<lambda>d. written (fd_file d)) (\<lambda>d. space (fd_file d))
     (\<lambda>d. - wfailure (fd_file d)) (\<lambda>d. 0)"
    by (rule filedesc_steady [OF assms(1,2)]) (rule assms(3))
  note ch = steady_channel.axioms(1) [OF steady]
  have joined: "channel.joined (ChunkSource (run_read read)) (fd_reads (fd_number d) open) (ChunkSink (run_write write))
      (fd_reads (fd_number d') open') ?src ?snk"
    using assms(4,5) by (simp add: channel.joined_def [OF ch] fresh_filedesc fd_reads_def)
  have stream: "pending (fd_file (src_driver ?src)) = slip_frame (rfc_flags ?ctx) payload @ rest"
    using assms(7) by (simp add: fresh_filedesc bit_flags_state)
  have room: "space (fd_file (snk_driver ?snk)) (length payload)"
    using assms(8) by (simp add: fresh_filedesc)
  obtain ctx' src snk where d: "rfc1055_decode ?ctx ?src ?snk = Some (1, ctx', src, snk)" "pending (fd_file (src_driver src)) = rest"
    "written (fd_file (snk_driver snk)) = written (fd_file (snk_driver ?snk)) @ payload"
    using steady_channel.decode_frame_ok [OF steady joined stream room] by (auto simp: bit_flags_state)
  have "filter_main opts env strerror read write si ti d d' = Inr (filter_loop strerror ?ctx ?src ?snk [])"
    using filter_options_s [OF assms(6)] by (simp add: filter_main_def frame_flags_def Let_def)
  also have "\<dots> = Inr (Some (EXIT_SUCCESS, [], src, snk))"
    by (subst filter_loop.simps, unfold d(1)) simp
  finally show ?thesis
    using d(2,3) by (simp add: fresh_filedesc)
qed

text \<open>Files that deliver and take one octet a call.\<close>

definition octet_read' :: "u8 list read_call" where
  "octet_read' fd n w = (int (length (take 1 w)), take 1 w, 0, drop 1 w)"

definition octet_write' :: "u8 list write_call" where
  "octet_write' fd data w = (int (length (take 1 data)), 0, w @ take 1 data)"

lemma octet_calls_documented:
  "documented_read octet_read' fd (\<lambda>_. True) (\<lambda>w. w) (\<lambda>_. None) (\<lambda>_. 0)"
  "documented_write octet_write' fd (\<lambda>_. True) (\<lambda>w. w) (\<lambda>_ _. True) (\<lambda>_. EIO) (\<lambda>_. 0)"
proof -
  have "min (length data) (Suc 0) = Suc 0" if "data \<noteq> []" for data :: "u8 list"
    using that by (cases data) auto
  then show "documented_read octet_read' fd (\<lambda>_. True) (\<lambda>w. w) (\<lambda>_. None) (\<lambda>_. 0)"
    "documented_write octet_write' fd (\<lambda>_. True) (\<lambda>w. w) (\<lambda>_ _. True) (\<lambda>_. EIO) (\<lambda>_. 0)"
    by (auto simp: documented_read_def octet_read'_def documented_write_def octet_write'_def errno_defs Suc_le_eq)
qed

theorem slip_filter_decodes_witness:
  "\<exists>src snk. filter_main ''s'' None (\<lambda>_. []) octet_read' octet_write' (idle_source \<lparr>fd_number = 0, fd_file = []\<rparr>)
       (idle_sink \<lparr>fd_number = 1, fd_file = []\<rparr>)
       \<lparr>fd_number = 0, fd_file = [0xC0, 1, 0xDB, 0xDC, 2, 0xC0, 9]\<rparr> \<lparr>fd_number = 1, fd_file = []\<rparr> = Inr (Some (EXIT_SUCCESS, [], src, snk)) \<and>
     fd_file (src_driver src) = [9] \<and> fd_file (snk_driver snk) = [1, 0xC0, 2]"
proof -
  have frame: "slip_frame (frame_flags True) [1, 0xC0, 2] = [0xC0, 1, 0xDB, 0xDC, 2, 0xC0]"
    by (simp add: slip_frame_def frame_flags_def RFC1055_WITH_SOF_def slip_octet_def slip_consts)
  show ?thesis
    using slip_filter_decodes [OF octet_calls_documented, where opts = "''s''" and env = None and payload = "[1, 0xC0, 2]" and rest = "[9]"
        and d = "\<lparr>fd_number = 0, fd_file = [0xC0, 1, 0xDB, 0xDC, 2, 0xC0, 9]\<rparr>" and d' = "\<lparr>fd_number = 1, fd_file = []\<rparr>"]
    by (simp add: frame)
qed

text \<open>A file on which a call of \<open>read\<close> is interrupted where the list has no octet. When this is between the two octets of
  an escape sequence, the decoder has forgotten the first one when the filter calls it again: of the payload \<open>[1, 0xC0]\<close>
  it makes \<open>[1, 0xDC]\<close>, and the program ends with success.\<close>

fun bumpy_read :: "u8 option list read_call" where
  "bumpy_read fd n [] = (0, [], 0, [])"
| "bumpy_read fd n (None # w) = (-1, [], EINTR, w)"
| "bumpy_read fd n (Some x # w) = (1, [x], 0, w)"

definition bumpy_source :: "u8 option list \<Rightarrow> u8 option list filedesc Source" where
  "bumpy_source w = source_from_filedesc bumpy_read (idle_source \<lparr>fd_number = 0, fd_file = []\<rparr>) \<lparr>fd_number = 0, fd_file = w\<rparr>"

definition collecting_sink :: "u8 list \<Rightarrow> u8 list filedesc Sink" where
  "collecting_sink w = sink_to_filedesc octet_write' (idle_sink \<lparr>fd_number = 1, fd_file = []\<rparr>) \<lparr>fd_number = 1, fd_file = w\<rparr>"

lemma bumpy_octet:
  "source_get_octet (bumpy_source (Some x # w)) = Some (1, [x], bumpy_source w)"
  "source_get_octet (bumpy_source (None # w)) = Some (- EINTR, [], bumpy_source w)"
  "sink_put_octet (collecting_sink w') x = Some (1, collecting_sink (w' @ [x]))"
  by (simp_all add: source_get_octet_def sink_put_octet_def bumpy_source_def collecting_sink_def source_from_filedesc_def
      sink_to_filedesc_def chunk_source_init_def chunk_sink_init_def run_read_def run_write_def octet_write'_def errno_defs)

lemma interruption_loses_escape:
  "\<exists>err. filter_main [] None strerror bumpy_read octet_write' (idle_source \<lparr>fd_number = 0, fd_file = []\<rparr>)
       (idle_sink \<lparr>fd_number = 1, fd_file = []\<rparr>)
       \<lparr>fd_number = 0, fd_file = [Some 1, Some 0xDB, None, Some 0xDC, Some 0xC0]\<rparr> \<lparr>fd_number = 1, fd_file = []\<rparr> =
     Inr (Some (EXIT_SUCCESS, err, bumpy_source [], collecting_sink [1, 0xDC]))"
proof -
  let ?ctx = "rfc1055_context_init 0"
  have plain: "rfc_state ?ctx = RFC1055_NORMAL" "\<not> bit (rfc_flags ?ctx) RFC1055_WITH_SOF"
    by (simp_all add: rfc1055_context_init_def)
  note steps = rfc1055_decode_octet_def bumpy_octet slip_consts errno_defs plain
  have one: "rfc1055_decode ?ctx (bumpy_source [Some 1, Some 0xDB, None, Some 0xDC, Some 0xC0]) (collecting_sink []) =
      Some (- EINTR, ?ctx, bumpy_source [Some 0xDC, Some 0xC0], collecting_sink [1])"
    by (subst rfc1055_decode.simps, simp add: steps, subst rfc1055_decode.simps, simp add: steps)
  have two: "rfc1055_decode ?ctx (bumpy_source [Some 0xDC, Some 0xC0]) (collecting_sink [1]) =
      Some (1, ?ctx, bumpy_source [], collecting_sink [1, 0xDC])"
    by (subst rfc1055_decode.simps, simp add: steps, subst rfc1055_decode.simps, simp add: steps)
  have "filter_loop strerror ?ctx (bumpy_source [Some 1, Some 0xDB, None, Some 0xDC, Some 0xC0]) (collecting_sink []) [] =
      filter_loop strerror ?ctx (bumpy_source [Some 0xDC, Some 0xC0]) (collecting_sink [1])
        (''# errno: '' @ fmt_d EINTR @ '' ('' @ strerror EINTR @ '')'' @ [CHR 0x0A])"
    by (subst filter_loop.simps, unfold one) (simp add: errno_defs)
  moreover have "filter_loop strerror ?ctx (bumpy_source [Some 0xDC, Some 0xC0]) (collecting_sink [1]) err =
      Some (EXIT_SUCCESS, err, bumpy_source [], collecting_sink [1, 0xDC])" for err
    by (subst filter_loop.simps, unfold two) simp
  ultimately show ?thesis
    unfolding filter_main_def bumpy_source_def collecting_sink_def by simp
qed

end
