(* ===== verification/Bit_Macros.thy ===== *)
theory Bit_Macros
  imports Ufw_Prelude
begin

text \<open>
  The macros of \<open>include/ufw/bit-operations.h\<close>. \<open>unsigned int\<close> has 32 bits, \<open>unsigned long\<close> and
  \<open>unsigned long long\<close> have 64. The macros that modify their first argument give its new value here. C leaves a
  shift by the width of its operand or more undefined; the lemmas say which arguments keep clear of that.
\<close>

unbundle bit_operations_syntax

section \<open>Words of unsigned int\<close>

definition BIT :: "nat \<Rightarrow> u32" where
  "BIT n = push_bit n 1"

definition BIT_ONES :: "nat \<Rightarrow> nat \<Rightarrow> u32" where
  "BIT_ONES n o' = push_bit o' (drop_bit (32 - n) (NOT 0))"

definition BIT_GET :: "u32 \<Rightarrow> nat \<Rightarrow> nat \<Rightarrow> u32" where
  "BIT_GET container n o' = drop_bit o' (container AND BIT_ONES n o')"

definition BIT_MASK :: "nat \<Rightarrow> u32" where
  "BIT_MASK n = BIT (n mod 32)"

definition BIT_WORD :: "nat \<Rightarrow> nat" where
  "BIT_WORD n = n div 64"

section \<open>Words of unsigned long and unsigned long long\<close>

definition BITL :: "nat \<Rightarrow> u64" where
  "BITL n = push_bit n 1"

definition BITL_ONES :: "nat \<Rightarrow> nat \<Rightarrow> u64" where
  "BITL_ONES n o' = push_bit o' (drop_bit (64 - n) (NOT 0))"

definition BITL_GET :: "u64 \<Rightarrow> nat \<Rightarrow> nat \<Rightarrow> u64" where
  "BITL_GET container n o' = drop_bit o' (container AND BITL_ONES n o')"

definition BITL_MASK :: "nat \<Rightarrow> u64" where
  "BITL_MASK n = BITL (n mod 64)"

definition BITL_WORD :: "nat \<Rightarrow> nat" where
  "BITL_WORD n = n div 64"

definition BITLL :: "nat \<Rightarrow> u64" where
  "BITLL n = push_bit n 1"

definition BITLL_ONES :: "nat \<Rightarrow> nat \<Rightarrow> u64" where
  "BITLL_ONES n o' = push_bit o' (drop_bit (64 - n) (NOT 0))"

definition BITLL_GET :: "u64 \<Rightarrow> nat \<Rightarrow> nat \<Rightarrow> u64" where
  "BITLL_GET container n o' = drop_bit o' (container AND BITLL_ONES n o')"

definition BITLL_MASK :: "nat \<Rightarrow> u64" where
  "BITLL_MASK n = BITLL (n mod 64)"

definition BITLL_WORD :: "nat \<Rightarrow> nat" where
  "BITLL_WORD n = n div 64"

section \<open>Tests and changes\<close>

definition BIT_ISSET :: "'a::len word \<Rightarrow> 'a word \<Rightarrow> bool" where
  "BIT_ISSET container mask' \<longleftrightarrow> container AND mask' = mask'"

definition BIT_ISSET_ANY :: "'a::len word \<Rightarrow> 'a word \<Rightarrow> bool" where
  "BIT_ISSET_ANY container mask' \<longleftrightarrow> container AND mask' \<noteq> 0"

definition BIT_SET :: "'a::len word \<Rightarrow> 'a word \<Rightarrow> 'a word" where
  "BIT_SET container mask' = container OR mask'"

definition BIT_SETo :: "'a::len word \<Rightarrow> 'a word \<Rightarrow> nat \<Rightarrow> 'a word" where
  "BIT_SETo container mask' offset = container OR push_bit offset mask'"

definition BIT_CLEAR :: "'a::len word \<Rightarrow> 'a word \<Rightarrow> 'a word" where
  "BIT_CLEAR container mask' = container AND NOT mask'"

definition BIT_TOGGLE :: "'a::len word \<Rightarrow> 'a word \<Rightarrow> 'a word" where
  "BIT_TOGGLE container mask' = container XOR mask'"

section \<open>What they do, bit by bit\<close>

lemma bit_ONES:
  "n \<le> 32 \<Longrightarrow> bit (BIT_ONES n k) j \<longleftrightarrow> j < 32 \<and> k \<le> j \<and> j < k + n"
  "n \<le> 64 \<Longrightarrow> bit (BITL_ONES n k) j \<longleftrightarrow> j < 64 \<and> k \<le> j \<and> j < k + n"
  "n \<le> 64 \<Longrightarrow> bit (BITLL_ONES n k) j \<longleftrightarrow> j < 64 \<and> k \<le> j \<and> j < k + n"
  by (auto simp: BIT_ONES_def BITL_ONES_def BITLL_ONES_def bit_push_bit_iff bit_drop_bit_eq bit_not_iff bit_mask_iff)

text \<open>A field is cut out of a word and moved to the bottom.\<close>

lemma bit_GET:
  "k + n \<le> 32 \<Longrightarrow> bit (BIT_GET c n k) j \<longleftrightarrow> j < n \<and> bit c (k + j)"
  "k + n \<le> 64 \<Longrightarrow> bit (BITL_GET d n k) j \<longleftrightarrow> j < n \<and> bit d (k + j)"
  "k + n \<le> 64 \<Longrightarrow> bit (BITLL_GET d n k) j \<longleftrightarrow> j < n \<and> bit d (k + j)"
  by (auto simp: BIT_GET_def BITL_GET_def BITLL_GET_def bit_drop_bit_eq bit_and_iff bit_ONES)

lemma bit_changes:
  "bit (BIT_SET c b) j \<longleftrightarrow> bit c j \<or> bit b j"
  "bit (BIT_TOGGLE c b) j \<longleftrightarrow> bit c j \<noteq> bit b j"
  "j < LENGTH('a) \<Longrightarrow> bit (BIT_CLEAR c b) j \<longleftrightarrow> bit c j \<and> \<not> bit b j"
  "j < LENGTH('a) \<Longrightarrow> bit (BIT_SETo c b k) j \<longleftrightarrow> bit c j \<or> k \<le> j \<and> bit b (j - k)" for c b :: "'a::len word"
  by (auto simp: BIT_SET_def BIT_TOGGLE_def BIT_CLEAR_def BIT_SETo_def bit_or_iff bit_xor_iff bit_and_iff bit_not_iff bit_push_bit_iff)

lemma BIT_ISSET_iff: "BIT_ISSET c b \<longleftrightarrow> (\<forall>j. bit b j \<longrightarrow> bit c j)" for c b :: "'a::len word"
proof
  assume "BIT_ISSET c b"
  then have "c AND b = b"
    by (simp add: BIT_ISSET_def)
  then show "\<forall>j. bit b j \<longrightarrow> bit c j"
    by (metis bit_and_iff)
next
  assume "\<forall>j. bit b j \<longrightarrow> bit c j"
  then show "BIT_ISSET c b"
    unfolding BIT_ISSET_def by (intro bit_word_eqI) (auto simp: bit_and_iff)
qed

lemma bit_BIT: "bit (BIT k) j \<longleftrightarrow> j = k \<and> k < 32"
  unfolding BIT_def by (subst bit_push_bit_iff) (auto simp: bit_1_iff possible_bit_word)

lemma BIT_ISSET_BIT: "k < 32 \<Longrightarrow> BIT_ISSET c (BIT k) \<longleftrightarrow> bit c k"
  by (auto simp: BIT_ISSET_iff bit_BIT)

lemma BIT_ISSET_ANY_iff: "BIT_ISSET_ANY c b \<longleftrightarrow> (\<exists>j. bit b j \<and> bit c j)" for c b :: "'a::len word"
proof -
  have "c AND b = 0 \<longleftrightarrow> (\<forall>j. \<not> (bit b j \<and> bit c j))"
    by (auto simp: bit_eq_iff bit_and_iff dest: bit_imp_le_length)
  then show ?thesis
    by (simp add: BIT_ISSET_ANY_def)
qed

text \<open>The bits just set are set, the bits just cleared are not, and toggling twice changes nothing.\<close>

lemma changes_tested:
  "BIT_ISSET (BIT_SET c b) b" "\<not> BIT_ISSET_ANY (BIT_CLEAR c b) b" "BIT_TOGGLE (BIT_TOGGLE c b) b = c" for c b :: "'a::len word"
  by (auto simp: BIT_ISSET_iff BIT_ISSET_ANY_iff bit_changes BIT_CLEAR_def BIT_TOGGLE_def bit_and_iff bit_not_iff xor.assoc)

section \<open>Bits of blocks of words\<close>

lemma BITL_inj: "m < 64 \<Longrightarrow> n < 64 \<Longrightarrow> BITL m = BITL n \<longleftrightarrow> m = n"
proof
  assume mn: "m < 64" "n < 64" and "BITL m = BITL n"
  then have "bit (BITL m) m = bit (BITL n) m"
    by simp
  with mn show "m = n"
    by (simp add: BITL_def bit_push_bit_iff bit_1_iff bit_exp_iff)
qed simp

text \<open>
  A word index and a mask are to name one bit of a block of words. Those for \<open>unsigned long\<close> do. Those for
  \<open>unsigned int\<close> do not: the index counts words of 64 bits and the mask is for words of 32.
\<close>

lemma bit_block_indices:
  "BITL_WORD m = BITL_WORD n \<and> BITL_MASK m = BITL_MASK n \<longleftrightarrow> m = n"
  "BITLL_WORD m = BITLL_WORD n \<and> BITLL_MASK m = BITLL_MASK n \<longleftrightarrow> m = n"
  "BIT_WORD 40 = BIT_WORD 8 \<and> BIT_MASK 40 = BIT_MASK 8"
proof -
  have "m div 64 = n div 64 \<and> m mod 64 = n mod 64 \<longleftrightarrow> m = n"
    by (metis div_mult_mod_eq)
  then show "BITL_WORD m = BITL_WORD n \<and> BITL_MASK m = BITL_MASK n \<longleftrightarrow> m = n"
    by (simp add: BITL_WORD_def BITL_MASK_def BITL_inj)
  then show "BITLL_WORD m = BITLL_WORD n \<and> BITLL_MASK m = BITLL_MASK n \<longleftrightarrow> m = n"
    by (simp add: BITL_WORD_def BITL_MASK_def BITLL_WORD_def BITLL_MASK_def BITL_def BITLL_def)
qed (simp add: BIT_WORD_def BIT_MASK_def)

end
