(* ===== verification/Binary_Format.thy ===== *)
theory Binary_Format
  imports Interfaces Bit_Macros
begin

text \<open>
  Typed access to raw memory (include/ufw/binary-format.h): swapping octets, reading and storing unsigned,
  signed and floating point data of two to eight octets in native, big and little octet order, and the
  range tests. Every function is translated for both kinds of machine; the first argument \<open>e\<close> says which
  of the two conditional branches is compiled. Memory objects are octet lists and a pointer into one is
  an offset. Storing returns the offset past the datum and the memory. Signed data are words read as two's
  complement, floating point data are their bit patterns.

  The lemmas show what every function does to the octets of memory, that the order the name promises is
  independent of the machine, and that what was stored is read back; each pair of functions is an
  interpretation of the locale \<open>datum_codec\<close>.
\<close>

section \<open>Object representation\<close>

definition le_octets :: "nat \<Rightarrow> 'a::len word \<Rightarrow> u8 list" where
  "le_octets n w = map (\<lambda>i. ucast (drop_bit (8 * i) w)) [0..<n]"

primrec le_value :: "u8 list \<Rightarrow> 'a::len word" where
  "le_value [] = 0"
| "le_value (x # xs) = ucast x OR push_bit 8 (le_value xs)"

definition be_octets :: "nat \<Rightarrow> 'a::len word \<Rightarrow> u8 list" where
  "be_octets n w = rev (le_octets n w)"

definition be_value :: "u8 list \<Rightarrow> 'a::len word" where
  "be_value xs = le_value (rev xs)"

text \<open>The octets of \<open>n\<close>-octet data in the machine's own order, and the octets of a whole integer object.\<close>

definition host_octets :: "endianness \<Rightarrow> nat \<Rightarrow> 'a::len word \<Rightarrow> u8 list" where
  "host_octets e = (case e of SYSTEM_ENDIANNESS_BIG \<Rightarrow> be_octets | SYSTEM_ENDIANNESS_LITTLE \<Rightarrow> le_octets)"

definition host_value :: "endianness \<Rightarrow> u8 list \<Rightarrow> 'a::len word" where
  "host_value e = (case e of SYSTEM_ENDIANNESS_BIG \<Rightarrow> be_value | SYSTEM_ENDIANNESS_LITTLE \<Rightarrow> le_value)"

definition obj_octets :: "endianness \<Rightarrow> 'a::len word \<Rightarrow> u8 list" where
  "obj_octets e w = host_octets e (LENGTH('a) div 8) w"


section \<open>Swapping octets\<close>

definition bf_swap16 :: "u16 \<Rightarrow> u16" where
  "bf_swap16 value =
     drop_bit 8 (value AND 0xff00)
     OR push_bit 8 (value AND 0x00ff)"

definition bf_swap24 :: "u32 \<Rightarrow> u32" where
  "bf_swap24 value =
     drop_bit 16 (value AND 0xff0000)
     OR (value AND 0x00ff00)
     OR push_bit 16 (value AND 0x0000ff)"

definition bf_swap32 :: "u32 \<Rightarrow> u32" where
  "bf_swap32 value =
     drop_bit 24 (value AND 0xff000000)
     OR drop_bit 8 (value AND 0x00ff0000)
     OR push_bit 8 (value AND 0x0000ff00)
     OR push_bit 24 (value AND 0x000000ff)"

definition bf_swap40 :: "u64 \<Rightarrow> u64" where
  "bf_swap40 value =
     drop_bit 32 (value AND 0xff00000000)
     OR drop_bit 16 (value AND 0x00ff000000)
     OR (value AND 0x0000ff0000)
     OR push_bit 16 (value AND 0x000000ff00)
     OR push_bit 32 (value AND 0x00000000ff)"

definition bf_swap48 :: "u64 \<Rightarrow> u64" where
  "bf_swap48 value =
     drop_bit 40 (value AND 0xff0000000000)
     OR drop_bit 24 (value AND 0x00ff00000000)
     OR drop_bit 8 (value AND 0x0000ff000000)
     OR push_bit 8 (value AND 0x000000ff0000)
     OR push_bit 24 (value AND 0x00000000ff00)
     OR push_bit 40 (value AND 0x0000000000ff)"

definition bf_swap56 :: "u64 \<Rightarrow> u64" where
  "bf_swap56 value =
     drop_bit 48 (value AND 0xff000000000000)
     OR drop_bit 32 (value AND 0x00ff0000000000)
     OR drop_bit 16 (value AND 0x0000ff00000000)
     OR (value AND 0x000000ff000000)
     OR push_bit 16 (value AND 0x00000000ff0000)
     OR push_bit 32 (value AND 0x0000000000ff00)
     OR push_bit 48 (value AND 0x000000000000ff)"

definition bf_swap64 :: "u64 \<Rightarrow> u64" where
  "bf_swap64 value =
     drop_bit 56 (value AND 0xff00000000000000)
     OR drop_bit 40 (value AND 0x00ff000000000000)
     OR drop_bit 24 (value AND 0x0000ff0000000000)
     OR drop_bit 8 (value AND 0x000000ff00000000)
     OR push_bit 8 (value AND 0x00000000ff000000)
     OR push_bit 24 (value AND 0x0000000000ff0000)
     OR push_bit 40 (value AND 0x000000000000ff00)
     OR push_bit 56 (value AND 0x00000000000000ff)"

section \<open>Reading data\<close>

definition bf_ref_u16n :: "endianness \<Rightarrow> u8 list \<Rightarrow> nat \<Rightarrow> u16 option" where
  "bf_ref_u16n e m ptr = do {
     src \<leftarrow> mem_read m ptr 2;
     dst \<leftarrow> mem_write (obj_octets e (0 :: u16)) 0 src;
     Some (host_value e dst)
   }"

definition bf_ref_u24n :: "endianness \<Rightarrow> u8 list \<Rightarrow> nat \<Rightarrow> u32 option" where
  "bf_ref_u24n e m ptr = do {
     src \<leftarrow> mem_read m ptr 3;
     dst \<leftarrow> mem_write (obj_octets e (0 :: u32)) (case e of SYSTEM_ENDIANNESS_BIG \<Rightarrow> 1 | SYSTEM_ENDIANNESS_LITTLE \<Rightarrow> 0) src;
     Some (host_value e dst)
   }"

definition bf_ref_u32n :: "endianness \<Rightarrow> u8 list \<Rightarrow> nat \<Rightarrow> u32 option" where
  "bf_ref_u32n e m ptr = do {
     src \<leftarrow> mem_read m ptr 4;
     dst \<leftarrow> mem_write (obj_octets e (0 :: u32)) 0 src;
     Some (host_value e dst)
   }"

definition bf_ref_u40n :: "endianness \<Rightarrow> u8 list \<Rightarrow> nat \<Rightarrow> u64 option" where
  "bf_ref_u40n e m ptr = do {
     src \<leftarrow> mem_read m ptr 5;
     dst \<leftarrow> mem_write (obj_octets e (0 :: u64)) (case e of SYSTEM_ENDIANNESS_BIG \<Rightarrow> 3 | SYSTEM_ENDIANNESS_LITTLE \<Rightarrow> 0) src;
     Some (host_value e dst)
   }"

definition bf_ref_u48n :: "endianness \<Rightarrow> u8 list \<Rightarrow> nat \<Rightarrow> u64 option" where
  "bf_ref_u48n e m ptr = do {
     src \<leftarrow> mem_read m ptr 6;
     dst \<leftarrow> mem_write (obj_octets e (0 :: u64)) (case e of SYSTEM_ENDIANNESS_BIG \<Rightarrow> 2 | SYSTEM_ENDIANNESS_LITTLE \<Rightarrow> 0) src;
     Some (host_value e dst)
   }"

definition bf_ref_u56n :: "endianness \<Rightarrow> u8 list \<Rightarrow> nat \<Rightarrow> u64 option" where
  "bf_ref_u56n e m ptr = do {
     src \<leftarrow> mem_read m ptr 7;
     dst \<leftarrow> mem_write (obj_octets e (0 :: u64)) (case e of SYSTEM_ENDIANNESS_BIG \<Rightarrow> 1 | SYSTEM_ENDIANNESS_LITTLE \<Rightarrow> 0) src;
     Some (host_value e dst)
   }"

definition bf_ref_u64n :: "endianness \<Rightarrow> u8 list \<Rightarrow> nat \<Rightarrow> u64 option" where
  "bf_ref_u64n e m ptr = do {
     src \<leftarrow> mem_read m ptr 8;
     dst \<leftarrow> mem_write (obj_octets e (0 :: u64)) 0 src;
     Some (host_value e dst)
   }"

definition bf_ref_u16b :: "endianness \<Rightarrow> u8 list \<Rightarrow> nat \<Rightarrow> u16 option" where
  "bf_ref_u16b e m ptr = (case e of
       SYSTEM_ENDIANNESS_BIG \<Rightarrow> bf_ref_u16n e m ptr
     | SYSTEM_ENDIANNESS_LITTLE \<Rightarrow> map_option bf_swap16 (bf_ref_u16n e m ptr))"

definition bf_ref_u24b :: "endianness \<Rightarrow> u8 list \<Rightarrow> nat \<Rightarrow> u32 option" where
  "bf_ref_u24b e m ptr = (case e of
       SYSTEM_ENDIANNESS_BIG \<Rightarrow> bf_ref_u24n e m ptr
     | SYSTEM_ENDIANNESS_LITTLE \<Rightarrow> map_option bf_swap24 (bf_ref_u24n e m ptr))"

definition bf_ref_u32b :: "endianness \<Rightarrow> u8 list \<Rightarrow> nat \<Rightarrow> u32 option" where
  "bf_ref_u32b e m ptr = (case e of
       SYSTEM_ENDIANNESS_BIG \<Rightarrow> bf_ref_u32n e m ptr
     | SYSTEM_ENDIANNESS_LITTLE \<Rightarrow> map_option bf_swap32 (bf_ref_u32n e m ptr))"

definition bf_ref_u40b :: "endianness \<Rightarrow> u8 list \<Rightarrow> nat \<Rightarrow> u64 option" where
  "bf_ref_u40b e m ptr = (case e of
       SYSTEM_ENDIANNESS_BIG \<Rightarrow> bf_ref_u40n e m ptr
     | SYSTEM_ENDIANNESS_LITTLE \<Rightarrow> map_option bf_swap40 (bf_ref_u40n e m ptr))"

definition bf_ref_u48b :: "endianness \<Rightarrow> u8 list \<Rightarrow> nat \<Rightarrow> u64 option" where
  "bf_ref_u48b e m ptr = (case e of
       SYSTEM_ENDIANNESS_BIG \<Rightarrow> bf_ref_u48n e m ptr
     | SYSTEM_ENDIANNESS_LITTLE \<Rightarrow> map_option bf_swap48 (bf_ref_u48n e m ptr))"

definition bf_ref_u56b :: "endianness \<Rightarrow> u8 list \<Rightarrow> nat \<Rightarrow> u64 option" where
  "bf_ref_u56b e m ptr = (case e of
       SYSTEM_ENDIANNESS_BIG \<Rightarrow> bf_ref_u56n e m ptr
     | SYSTEM_ENDIANNESS_LITTLE \<Rightarrow> map_option bf_swap56 (bf_ref_u56n e m ptr))"

definition bf_ref_u64b :: "endianness \<Rightarrow> u8 list \<Rightarrow> nat \<Rightarrow> u64 option" where
  "bf_ref_u64b e m ptr = (case e of
       SYSTEM_ENDIANNESS_BIG \<Rightarrow> bf_ref_u64n e m ptr
     | SYSTEM_ENDIANNESS_LITTLE \<Rightarrow> map_option bf_swap64 (bf_ref_u64n e m ptr))"

definition bf_ref_u16l :: "endianness \<Rightarrow> u8 list \<Rightarrow> nat \<Rightarrow> u16 option" where
  "bf_ref_u16l e m ptr = (case e of
       SYSTEM_ENDIANNESS_BIG \<Rightarrow> map_option bf_swap16 (bf_ref_u16n e m ptr)
     | SYSTEM_ENDIANNESS_LITTLE \<Rightarrow> bf_ref_u16n e m ptr)"

definition bf_ref_u24l :: "endianness \<Rightarrow> u8 list \<Rightarrow> nat \<Rightarrow> u32 option" where
  "bf_ref_u24l e m ptr = (case e of
       SYSTEM_ENDIANNESS_BIG \<Rightarrow> map_option bf_swap24 (bf_ref_u24n e m ptr)
     | SYSTEM_ENDIANNESS_LITTLE \<Rightarrow> bf_ref_u24n e m ptr)"

definition bf_ref_u32l :: "endianness \<Rightarrow> u8 list \<Rightarrow> nat \<Rightarrow> u32 option" where
  "bf_ref_u32l e m ptr = (case e of
       SYSTEM_ENDIANNESS_BIG \<Rightarrow> map_option bf_swap32 (bf_ref_u32n e m ptr)
     | SYSTEM_ENDIANNESS_LITTLE \<Rightarrow> bf_ref_u32n e m ptr)"

definition bf_ref_u40l :: "endianness \<Rightarrow> u8 list \<Rightarrow> nat \<Rightarrow> u64 option" where
  "bf_ref_u40l e m ptr = (case e of
       SYSTEM_ENDIANNESS_BIG \<Rightarrow> map_option bf_swap40 (bf_ref_u40n e m ptr)
     | SYSTEM_ENDIANNESS_LITTLE \<Rightarrow> bf_ref_u40n e m ptr)"

definition bf_ref_u48l :: "endianness \<Rightarrow> u8 list \<Rightarrow> nat \<Rightarrow> u64 option" where
  "bf_ref_u48l e m ptr = (case e of
       SYSTEM_ENDIANNESS_BIG \<Rightarrow> map_option bf_swap48 (bf_ref_u48n e m ptr)
     | SYSTEM_ENDIANNESS_LITTLE \<Rightarrow> bf_ref_u48n e m ptr)"

definition bf_ref_u56l :: "endianness \<Rightarrow> u8 list \<Rightarrow> nat \<Rightarrow> u64 option" where
  "bf_ref_u56l e m ptr = (case e of
       SYSTEM_ENDIANNESS_BIG \<Rightarrow> map_option bf_swap56 (bf_ref_u56n e m ptr)
     | SYSTEM_ENDIANNESS_LITTLE \<Rightarrow> bf_ref_u56n e m ptr)"

definition bf_ref_u64l :: "endianness \<Rightarrow> u8 list \<Rightarrow> nat \<Rightarrow> u64 option" where
  "bf_ref_u64l e m ptr = (case e of
       SYSTEM_ENDIANNESS_BIG \<Rightarrow> map_option bf_swap64 (bf_ref_u64n e m ptr)
     | SYSTEM_ENDIANNESS_LITTLE \<Rightarrow> bf_ref_u64n e m ptr)"

definition bf_ref_s16n :: "endianness \<Rightarrow> u8 list \<Rightarrow> nat \<Rightarrow> u16 option" where
  "bf_ref_s16n e m ptr = bf_ref_u16n e m ptr"

definition bf_ref_s24n :: "endianness \<Rightarrow> u8 list \<Rightarrow> nat \<Rightarrow> u32 option" where
  "bf_ref_s24n e m ptr = do {
     data \<leftarrow> bf_ref_u24n e m ptr;
     Some (if BIT_ISSET (ucast data) (BITL 23) then ucast (ucast data OR BITL_ONES 8 24) else data)
   }"

definition bf_ref_s32n :: "endianness \<Rightarrow> u8 list \<Rightarrow> nat \<Rightarrow> u32 option" where
  "bf_ref_s32n e m ptr = bf_ref_u32n e m ptr"

definition bf_ref_s40n :: "endianness \<Rightarrow> u8 list \<Rightarrow> nat \<Rightarrow> u64 option" where
  "bf_ref_s40n e m ptr = do {
     data \<leftarrow> bf_ref_u40n e m ptr;
     Some (if BIT_ISSET (ucast data) (BITL 39) then ucast (ucast data OR BITL_ONES 24 40) else data)
   }"

definition bf_ref_s48n :: "endianness \<Rightarrow> u8 list \<Rightarrow> nat \<Rightarrow> u64 option" where
  "bf_ref_s48n e m ptr = do {
     data \<leftarrow> bf_ref_u48n e m ptr;
     Some (if BIT_ISSET (ucast data) (BITL 47) then ucast (ucast data OR BITL_ONES 16 48) else data)
   }"

definition bf_ref_s56n :: "endianness \<Rightarrow> u8 list \<Rightarrow> nat \<Rightarrow> u64 option" where
  "bf_ref_s56n e m ptr = do {
     data \<leftarrow> bf_ref_u56n e m ptr;
     Some (if BIT_ISSET (ucast data) (BITL 55) then ucast (ucast data OR BITL_ONES 8 56) else data)
   }"

definition bf_ref_s64n :: "endianness \<Rightarrow> u8 list \<Rightarrow> nat \<Rightarrow> u64 option" where
  "bf_ref_s64n e m ptr = bf_ref_u64n e m ptr"

definition bf_ref_s16b :: "endianness \<Rightarrow> u8 list \<Rightarrow> nat \<Rightarrow> u16 option" where
  "bf_ref_s16b e m ptr = bf_ref_u16b e m ptr"

definition bf_ref_s24b :: "endianness \<Rightarrow> u8 list \<Rightarrow> nat \<Rightarrow> u32 option" where
  "bf_ref_s24b e m ptr = do {
     data \<leftarrow> bf_ref_u24b e m ptr;
     Some (if BIT_ISSET (ucast data) (BITL 23) then ucast (ucast data OR BITL_ONES 8 24) else data)
   }"

definition bf_ref_s32b :: "endianness \<Rightarrow> u8 list \<Rightarrow> nat \<Rightarrow> u32 option" where
  "bf_ref_s32b e m ptr = bf_ref_u32b e m ptr"

definition bf_ref_s40b :: "endianness \<Rightarrow> u8 list \<Rightarrow> nat \<Rightarrow> u64 option" where
  "bf_ref_s40b e m ptr = do {
     data \<leftarrow> bf_ref_u40b e m ptr;
     Some (if BIT_ISSET (ucast data) (BITL 39) then ucast (ucast data OR BITL_ONES 24 40) else data)
   }"

definition bf_ref_s48b :: "endianness \<Rightarrow> u8 list \<Rightarrow> nat \<Rightarrow> u64 option" where
  "bf_ref_s48b e m ptr = do {
     data \<leftarrow> bf_ref_u48b e m ptr;
     Some (if BIT_ISSET (ucast data) (BITL 47) then ucast (ucast data OR BITL_ONES 16 48) else data)
   }"

definition bf_ref_s56b :: "endianness \<Rightarrow> u8 list \<Rightarrow> nat \<Rightarrow> u64 option" where
  "bf_ref_s56b e m ptr = do {
     data \<leftarrow> bf_ref_u56b e m ptr;
     Some (if BIT_ISSET (ucast data) (BITL 55) then ucast (ucast data OR BITL_ONES 8 56) else data)
   }"

definition bf_ref_s64b :: "endianness \<Rightarrow> u8 list \<Rightarrow> nat \<Rightarrow> u64 option" where
  "bf_ref_s64b e m ptr = bf_ref_u64b e m ptr"

definition bf_ref_s16l :: "endianness \<Rightarrow> u8 list \<Rightarrow> nat \<Rightarrow> u16 option" where
  "bf_ref_s16l e m ptr = bf_ref_u16l e m ptr"

definition bf_ref_s24l :: "endianness \<Rightarrow> u8 list \<Rightarrow> nat \<Rightarrow> u32 option" where
  "bf_ref_s24l e m ptr = do {
     data \<leftarrow> bf_ref_u24l e m ptr;
     Some (if BIT_ISSET (ucast data) (BITL 23) then ucast (ucast data OR BITL_ONES 8 24) else data)
   }"

definition bf_ref_s32l :: "endianness \<Rightarrow> u8 list \<Rightarrow> nat \<Rightarrow> u32 option" where
  "bf_ref_s32l e m ptr = bf_ref_u32l e m ptr"

definition bf_ref_s40l :: "endianness \<Rightarrow> u8 list \<Rightarrow> nat \<Rightarrow> u64 option" where
  "bf_ref_s40l e m ptr = do {
     data \<leftarrow> bf_ref_u40l e m ptr;
     Some (if BIT_ISSET (ucast data) (BITL 39) then ucast (ucast data OR BITL_ONES 24 40) else data)
   }"

definition bf_ref_s48l :: "endianness \<Rightarrow> u8 list \<Rightarrow> nat \<Rightarrow> u64 option" where
  "bf_ref_s48l e m ptr = do {
     data \<leftarrow> bf_ref_u48l e m ptr;
     Some (if BIT_ISSET (ucast data) (BITL 47) then ucast (ucast data OR BITL_ONES 16 48) else data)
   }"

definition bf_ref_s56l :: "endianness \<Rightarrow> u8 list \<Rightarrow> nat \<Rightarrow> u64 option" where
  "bf_ref_s56l e m ptr = do {
     data \<leftarrow> bf_ref_u56l e m ptr;
     Some (if BIT_ISSET (ucast data) (BITL 55) then ucast (ucast data OR BITL_ONES 8 56) else data)
   }"

definition bf_ref_s64l :: "endianness \<Rightarrow> u8 list \<Rightarrow> nat \<Rightarrow> u64 option" where
  "bf_ref_s64l e m ptr = bf_ref_u64l e m ptr"

definition bf_ref_f32n :: "endianness \<Rightarrow> u8 list \<Rightarrow> nat \<Rightarrow> u32 option" where
  "bf_ref_f32n e m ptr = bf_ref_u32n e m ptr"

definition bf_ref_f64n :: "endianness \<Rightarrow> u8 list \<Rightarrow> nat \<Rightarrow> u64 option" where
  "bf_ref_f64n e m ptr = bf_ref_u64n e m ptr"

definition bf_ref_f32b :: "endianness \<Rightarrow> u8 list \<Rightarrow> nat \<Rightarrow> u32 option" where
  "bf_ref_f32b e m ptr = bf_ref_u32b e m ptr"

definition bf_ref_f64b :: "endianness \<Rightarrow> u8 list \<Rightarrow> nat \<Rightarrow> u64 option" where
  "bf_ref_f64b e m ptr = bf_ref_u64b e m ptr"

definition bf_ref_f32l :: "endianness \<Rightarrow> u8 list \<Rightarrow> nat \<Rightarrow> u32 option" where
  "bf_ref_f32l e m ptr = bf_ref_u32l e m ptr"

definition bf_ref_f64l :: "endianness \<Rightarrow> u8 list \<Rightarrow> nat \<Rightarrow> u64 option" where
  "bf_ref_f64l e m ptr = bf_ref_u64l e m ptr"

section \<open>Storing data\<close>

definition bf_set_u16n :: "endianness \<Rightarrow> u8 list \<Rightarrow> nat \<Rightarrow> u16 \<Rightarrow> (nat \<times> u8 list) option" where
  "bf_set_u16n e m ptr value = do {
     src \<leftarrow> mem_read (obj_octets e value) 0 2;
     dst \<leftarrow> mem_write m ptr src;
     Some (ptr + 2, dst)
   }"

definition bf_set_u24n :: "endianness \<Rightarrow> u8 list \<Rightarrow> nat \<Rightarrow> u32 \<Rightarrow> (nat \<times> u8 list) option" where
  "bf_set_u24n e m ptr value = do {
     src \<leftarrow> mem_read (obj_octets e value) (case e of SYSTEM_ENDIANNESS_BIG \<Rightarrow> 1 | SYSTEM_ENDIANNESS_LITTLE \<Rightarrow> 0) 3;
     dst \<leftarrow> mem_write m ptr src;
     Some (ptr + 3, dst)
   }"

definition bf_set_u32n :: "endianness \<Rightarrow> u8 list \<Rightarrow> nat \<Rightarrow> u32 \<Rightarrow> (nat \<times> u8 list) option" where
  "bf_set_u32n e m ptr value = do {
     src \<leftarrow> mem_read (obj_octets e value) 0 4;
     dst \<leftarrow> mem_write m ptr src;
     Some (ptr + 4, dst)
   }"

definition bf_set_u40n :: "endianness \<Rightarrow> u8 list \<Rightarrow> nat \<Rightarrow> u64 \<Rightarrow> (nat \<times> u8 list) option" where
  "bf_set_u40n e m ptr value = do {
     src \<leftarrow> mem_read (obj_octets e value) (case e of SYSTEM_ENDIANNESS_BIG \<Rightarrow> 3 | SYSTEM_ENDIANNESS_LITTLE \<Rightarrow> 0) 5;
     dst \<leftarrow> mem_write m ptr src;
     Some (ptr + 5, dst)
   }"

definition bf_set_u48n :: "endianness \<Rightarrow> u8 list \<Rightarrow> nat \<Rightarrow> u64 \<Rightarrow> (nat \<times> u8 list) option" where
  "bf_set_u48n e m ptr value = do {
     src \<leftarrow> mem_read (obj_octets e value) (case e of SYSTEM_ENDIANNESS_BIG \<Rightarrow> 2 | SYSTEM_ENDIANNESS_LITTLE \<Rightarrow> 0) 6;
     dst \<leftarrow> mem_write m ptr src;
     Some (ptr + 6, dst)
   }"

definition bf_set_u56n :: "endianness \<Rightarrow> u8 list \<Rightarrow> nat \<Rightarrow> u64 \<Rightarrow> (nat \<times> u8 list) option" where
  "bf_set_u56n e m ptr value = do {
     src \<leftarrow> mem_read (obj_octets e value) (case e of SYSTEM_ENDIANNESS_BIG \<Rightarrow> 1 | SYSTEM_ENDIANNESS_LITTLE \<Rightarrow> 0) 7;
     dst \<leftarrow> mem_write m ptr src;
     Some (ptr + 7, dst)
   }"

definition bf_set_u64n :: "endianness \<Rightarrow> u8 list \<Rightarrow> nat \<Rightarrow> u64 \<Rightarrow> (nat \<times> u8 list) option" where
  "bf_set_u64n e m ptr value = do {
     src \<leftarrow> mem_read (obj_octets e value) 0 8;
     dst \<leftarrow> mem_write m ptr src;
     Some (ptr + 8, dst)
   }"

definition bf_set_u16b :: "endianness \<Rightarrow> u8 list \<Rightarrow> nat \<Rightarrow> u16 \<Rightarrow> (nat \<times> u8 list) option" where
  "bf_set_u16b e m ptr value = (case e of
       SYSTEM_ENDIANNESS_BIG \<Rightarrow> bf_set_u16n e m ptr value
     | SYSTEM_ENDIANNESS_LITTLE \<Rightarrow> bf_set_u16n e m ptr (bf_swap16 value))"

definition bf_set_u24b :: "endianness \<Rightarrow> u8 list \<Rightarrow> nat \<Rightarrow> u32 \<Rightarrow> (nat \<times> u8 list) option" where
  "bf_set_u24b e m ptr value = (case e of
       SYSTEM_ENDIANNESS_BIG \<Rightarrow> bf_set_u24n e m ptr value
     | SYSTEM_ENDIANNESS_LITTLE \<Rightarrow> bf_set_u24n e m ptr (bf_swap24 value))"

definition bf_set_u32b :: "endianness \<Rightarrow> u8 list \<Rightarrow> nat \<Rightarrow> u32 \<Rightarrow> (nat \<times> u8 list) option" where
  "bf_set_u32b e m ptr value = (case e of
       SYSTEM_ENDIANNESS_BIG \<Rightarrow> bf_set_u32n e m ptr value
     | SYSTEM_ENDIANNESS_LITTLE \<Rightarrow> bf_set_u32n e m ptr (bf_swap32 value))"

definition bf_set_u40b :: "endianness \<Rightarrow> u8 list \<Rightarrow> nat \<Rightarrow> u64 \<Rightarrow> (nat \<times> u8 list) option" where
  "bf_set_u40b e m ptr value = (case e of
       SYSTEM_ENDIANNESS_BIG \<Rightarrow> bf_set_u40n e m ptr value
     | SYSTEM_ENDIANNESS_LITTLE \<Rightarrow> bf_set_u40n e m ptr (bf_swap40 value))"

definition bf_set_u48b :: "endianness \<Rightarrow> u8 list \<Rightarrow> nat \<Rightarrow> u64 \<Rightarrow> (nat \<times> u8 list) option" where
  "bf_set_u48b e m ptr value = (case e of
       SYSTEM_ENDIANNESS_BIG \<Rightarrow> bf_set_u48n e m ptr value
     | SYSTEM_ENDIANNESS_LITTLE \<Rightarrow> bf_set_u48n e m ptr (bf_swap48 value))"

definition bf_set_u56b :: "endianness \<Rightarrow> u8 list \<Rightarrow> nat \<Rightarrow> u64 \<Rightarrow> (nat \<times> u8 list) option" where
  "bf_set_u56b e m ptr value = (case e of
       SYSTEM_ENDIANNESS_BIG \<Rightarrow> bf_set_u56n e m ptr value
     | SYSTEM_ENDIANNESS_LITTLE \<Rightarrow> bf_set_u56n e m ptr (bf_swap56 value))"

definition bf_set_u64b :: "endianness \<Rightarrow> u8 list \<Rightarrow> nat \<Rightarrow> u64 \<Rightarrow> (nat \<times> u8 list) option" where
  "bf_set_u64b e m ptr value = (case e of
       SYSTEM_ENDIANNESS_BIG \<Rightarrow> bf_set_u64n e m ptr value
     | SYSTEM_ENDIANNESS_LITTLE \<Rightarrow> bf_set_u64n e m ptr (bf_swap64 value))"

definition bf_set_u16l :: "endianness \<Rightarrow> u8 list \<Rightarrow> nat \<Rightarrow> u16 \<Rightarrow> (nat \<times> u8 list) option" where
  "bf_set_u16l e m ptr value = (case e of
       SYSTEM_ENDIANNESS_BIG \<Rightarrow> bf_set_u16n e m ptr (bf_swap16 value)
     | SYSTEM_ENDIANNESS_LITTLE \<Rightarrow> bf_set_u16n e m ptr value)"

definition bf_set_u24l :: "endianness \<Rightarrow> u8 list \<Rightarrow> nat \<Rightarrow> u32 \<Rightarrow> (nat \<times> u8 list) option" where
  "bf_set_u24l e m ptr value = (case e of
       SYSTEM_ENDIANNESS_BIG \<Rightarrow> bf_set_u24n e m ptr (bf_swap24 value)
     | SYSTEM_ENDIANNESS_LITTLE \<Rightarrow> bf_set_u24n e m ptr value)"

definition bf_set_u32l :: "endianness \<Rightarrow> u8 list \<Rightarrow> nat \<Rightarrow> u32 \<Rightarrow> (nat \<times> u8 list) option" where
  "bf_set_u32l e m ptr value = (case e of
       SYSTEM_ENDIANNESS_BIG \<Rightarrow> bf_set_u32n e m ptr (bf_swap32 value)
     | SYSTEM_ENDIANNESS_LITTLE \<Rightarrow> bf_set_u32n e m ptr value)"

definition bf_set_u40l :: "endianness \<Rightarrow> u8 list \<Rightarrow> nat \<Rightarrow> u64 \<Rightarrow> (nat \<times> u8 list) option" where
  "bf_set_u40l e m ptr value = (case e of
       SYSTEM_ENDIANNESS_BIG \<Rightarrow> bf_set_u40n e m ptr (bf_swap40 value)
     | SYSTEM_ENDIANNESS_LITTLE \<Rightarrow> bf_set_u40n e m ptr value)"

definition bf_set_u48l :: "endianness \<Rightarrow> u8 list \<Rightarrow> nat \<Rightarrow> u64 \<Rightarrow> (nat \<times> u8 list) option" where
  "bf_set_u48l e m ptr value = (case e of
       SYSTEM_ENDIANNESS_BIG \<Rightarrow> bf_set_u48n e m ptr (bf_swap48 value)
     | SYSTEM_ENDIANNESS_LITTLE \<Rightarrow> bf_set_u48n e m ptr value)"

definition bf_set_u56l :: "endianness \<Rightarrow> u8 list \<Rightarrow> nat \<Rightarrow> u64 \<Rightarrow> (nat \<times> u8 list) option" where
  "bf_set_u56l e m ptr value = (case e of
       SYSTEM_ENDIANNESS_BIG \<Rightarrow> bf_set_u56n e m ptr (bf_swap56 value)
     | SYSTEM_ENDIANNESS_LITTLE \<Rightarrow> bf_set_u56n e m ptr value)"

definition bf_set_u64l :: "endianness \<Rightarrow> u8 list \<Rightarrow> nat \<Rightarrow> u64 \<Rightarrow> (nat \<times> u8 list) option" where
  "bf_set_u64l e m ptr value = (case e of
       SYSTEM_ENDIANNESS_BIG \<Rightarrow> bf_set_u64n e m ptr (bf_swap64 value)
     | SYSTEM_ENDIANNESS_LITTLE \<Rightarrow> bf_set_u64n e m ptr value)"

definition bf_set_s16n :: "endianness \<Rightarrow> u8 list \<Rightarrow> nat \<Rightarrow> u16 \<Rightarrow> (nat \<times> u8 list) option" where
  "bf_set_s16n e m ptr value = bf_set_u16n e m ptr value"

definition bf_set_s24n :: "endianness \<Rightarrow> u8 list \<Rightarrow> nat \<Rightarrow> u32 \<Rightarrow> (nat \<times> u8 list) option" where
  "bf_set_s24n e m ptr value = bf_set_u24n e m ptr value"

definition bf_set_s32n :: "endianness \<Rightarrow> u8 list \<Rightarrow> nat \<Rightarrow> u32 \<Rightarrow> (nat \<times> u8 list) option" where
  "bf_set_s32n e m ptr value = bf_set_u32n e m ptr value"

definition bf_set_s40n :: "endianness \<Rightarrow> u8 list \<Rightarrow> nat \<Rightarrow> u64 \<Rightarrow> (nat \<times> u8 list) option" where
  "bf_set_s40n e m ptr value = bf_set_u40n e m ptr value"

definition bf_set_s48n :: "endianness \<Rightarrow> u8 list \<Rightarrow> nat \<Rightarrow> u64 \<Rightarrow> (nat \<times> u8 list) option" where
  "bf_set_s48n e m ptr value = bf_set_u48n e m ptr value"

definition bf_set_s56n :: "endianness \<Rightarrow> u8 list \<Rightarrow> nat \<Rightarrow> u64 \<Rightarrow> (nat \<times> u8 list) option" where
  "bf_set_s56n e m ptr value = bf_set_u56n e m ptr value"

definition bf_set_s64n :: "endianness \<Rightarrow> u8 list \<Rightarrow> nat \<Rightarrow> u64 \<Rightarrow> (nat \<times> u8 list) option" where
  "bf_set_s64n e m ptr value = bf_set_u64n e m ptr value"

definition bf_set_s16b :: "endianness \<Rightarrow> u8 list \<Rightarrow> nat \<Rightarrow> u16 \<Rightarrow> (nat \<times> u8 list) option" where
  "bf_set_s16b e m ptr value = bf_set_u16b e m ptr value"

definition bf_set_s24b :: "endianness \<Rightarrow> u8 list \<Rightarrow> nat \<Rightarrow> u32 \<Rightarrow> (nat \<times> u8 list) option" where
  "bf_set_s24b e m ptr value = bf_set_u24b e m ptr value"

definition bf_set_s32b :: "endianness \<Rightarrow> u8 list \<Rightarrow> nat \<Rightarrow> u32 \<Rightarrow> (nat \<times> u8 list) option" where
  "bf_set_s32b e m ptr value = bf_set_u32b e m ptr value"

definition bf_set_s40b :: "endianness \<Rightarrow> u8 list \<Rightarrow> nat \<Rightarrow> u64 \<Rightarrow> (nat \<times> u8 list) option" where
  "bf_set_s40b e m ptr value = bf_set_u40b e m ptr value"

definition bf_set_s48b :: "endianness \<Rightarrow> u8 list \<Rightarrow> nat \<Rightarrow> u64 \<Rightarrow> (nat \<times> u8 list) option" where
  "bf_set_s48b e m ptr value = bf_set_u48b e m ptr value"

definition bf_set_s56b :: "endianness \<Rightarrow> u8 list \<Rightarrow> nat \<Rightarrow> u64 \<Rightarrow> (nat \<times> u8 list) option" where
  "bf_set_s56b e m ptr value = bf_set_u56b e m ptr value"

definition bf_set_s64b :: "endianness \<Rightarrow> u8 list \<Rightarrow> nat \<Rightarrow> u64 \<Rightarrow> (nat \<times> u8 list) option" where
  "bf_set_s64b e m ptr value = bf_set_u64b e m ptr value"

definition bf_set_s16l :: "endianness \<Rightarrow> u8 list \<Rightarrow> nat \<Rightarrow> u16 \<Rightarrow> (nat \<times> u8 list) option" where
  "bf_set_s16l e m ptr value = bf_set_u16l e m ptr value"

definition bf_set_s24l :: "endianness \<Rightarrow> u8 list \<Rightarrow> nat \<Rightarrow> u32 \<Rightarrow> (nat \<times> u8 list) option" where
  "bf_set_s24l e m ptr value = bf_set_u24l e m ptr value"

definition bf_set_s32l :: "endianness \<Rightarrow> u8 list \<Rightarrow> nat \<Rightarrow> u32 \<Rightarrow> (nat \<times> u8 list) option" where
  "bf_set_s32l e m ptr value = bf_set_u32l e m ptr value"

definition bf_set_s40l :: "endianness \<Rightarrow> u8 list \<Rightarrow> nat \<Rightarrow> u64 \<Rightarrow> (nat \<times> u8 list) option" where
  "bf_set_s40l e m ptr value = bf_set_u40l e m ptr value"

definition bf_set_s48l :: "endianness \<Rightarrow> u8 list \<Rightarrow> nat \<Rightarrow> u64 \<Rightarrow> (nat \<times> u8 list) option" where
  "bf_set_s48l e m ptr value = bf_set_u48l e m ptr value"

definition bf_set_s56l :: "endianness \<Rightarrow> u8 list \<Rightarrow> nat \<Rightarrow> u64 \<Rightarrow> (nat \<times> u8 list) option" where
  "bf_set_s56l e m ptr value = bf_set_u56l e m ptr value"

definition bf_set_s64l :: "endianness \<Rightarrow> u8 list \<Rightarrow> nat \<Rightarrow> u64 \<Rightarrow> (nat \<times> u8 list) option" where
  "bf_set_s64l e m ptr value = bf_set_u64l e m ptr value"

definition bf_set_f32n :: "endianness \<Rightarrow> u8 list \<Rightarrow> nat \<Rightarrow> u32 \<Rightarrow> (nat \<times> u8 list) option" where
  "bf_set_f32n e m ptr value = bf_set_u32n e m ptr value"

definition bf_set_f64n :: "endianness \<Rightarrow> u8 list \<Rightarrow> nat \<Rightarrow> u64 \<Rightarrow> (nat \<times> u8 list) option" where
  "bf_set_f64n e m ptr value = bf_set_u64n e m ptr value"

definition bf_set_f32b :: "endianness \<Rightarrow> u8 list \<Rightarrow> nat \<Rightarrow> u32 \<Rightarrow> (nat \<times> u8 list) option" where
  "bf_set_f32b e m ptr value = bf_set_u32b e m ptr value"

definition bf_set_f64b :: "endianness \<Rightarrow> u8 list \<Rightarrow> nat \<Rightarrow> u64 \<Rightarrow> (nat \<times> u8 list) option" where
  "bf_set_f64b e m ptr value = bf_set_u64b e m ptr value"

definition bf_set_f32l :: "endianness \<Rightarrow> u8 list \<Rightarrow> nat \<Rightarrow> u32 \<Rightarrow> (nat \<times> u8 list) option" where
  "bf_set_f32l e m ptr value = bf_set_u32l e m ptr value"

definition bf_set_f64l :: "endianness \<Rightarrow> u8 list \<Rightarrow> nat \<Rightarrow> u64 \<Rightarrow> (nat \<times> u8 list) option" where
  "bf_set_f64l e m ptr value = bf_set_u64l e m ptr value"

section \<open>Range tests\<close>

definition bf_inrange_u24 :: "u32 \<Rightarrow> bool" where
  "bf_inrange_u24 value \<longleftrightarrow> value < push_bit 24 1"

definition bf_inrange_s24 :: "u32 \<Rightarrow> bool" where
  "bf_inrange_s24 value \<longleftrightarrow>
     (let a = push_bit 23 1 :: u32 in sint (- 1 * a) \<le> sint value \<and> sint value < sint a)"

definition bf_inrange_u40 :: "u64 \<Rightarrow> bool" where
  "bf_inrange_u40 value \<longleftrightarrow> value < push_bit 40 1"

definition bf_inrange_s40 :: "u64 \<Rightarrow> bool" where
  "bf_inrange_s40 value \<longleftrightarrow>
     (let a = push_bit 39 1 :: u64 in sint (- 1 * a) \<le> sint value \<and> sint value < sint a)"

definition bf_inrange_u48 :: "u64 \<Rightarrow> bool" where
  "bf_inrange_u48 value \<longleftrightarrow> value < push_bit 48 1"

definition bf_inrange_s48 :: "u64 \<Rightarrow> bool" where
  "bf_inrange_s48 value \<longleftrightarrow>
     (let a = push_bit 47 1 :: u64 in sint (- 1 * a) \<le> sint value \<and> sint value < sint a)"

definition bf_inrange_u56 :: "u64 \<Rightarrow> bool" where
  "bf_inrange_u56 value \<longleftrightarrow> value < push_bit 56 1"

definition bf_inrange_s56 :: "u64 \<Rightarrow> bool" where
  "bf_inrange_s56 value \<longleftrightarrow>
     (let a = push_bit 55 1 :: u64 in sint (- 1 * a) \<le> sint value \<and> sint value < sint a)"
section \<open>Octets and values\<close>

lemma length_octets [simp]: "length (le_octets n w) = n" "length (be_octets n w) = n"
  "length (host_octets e n w) = n"
  by (simp_all add: le_octets_def be_octets_def host_octets_def split: endianness.split)

lemma nth_le_octets: "i < n \<Longrightarrow> le_octets n w ! i = ucast (drop_bit (8 * i) w)"
  by (simp add: le_octets_def)

lemma bit_le_value:
  "bit (le_value xs :: 'a::len word) k \<longleftrightarrow> k < LENGTH('a) \<and> k div 8 < length xs \<and> bit (xs ! (k div 8)) (k mod 8)"
proof (induction xs arbitrary: k)
  case Nil
  then show ?case by simp
next
  case (Cons x xs)
  show ?case
  proof (cases "k < 8")
    case True
    then show ?thesis
      by (auto simp: bit_or_iff bit_push_bit_iff bit_ucast_iff)
  next
    case False
    then have "k div 8 = Suc ((k - 8) div 8)" "k mod 8 = (k - 8) mod 8"
      by (simp_all add: le_div_geq le_mod_geq)
    moreover have "\<not> bit x k"
      using False bit_imp_le_length [of x k] by auto
    ultimately show ?thesis
      using False Cons.IH [of "k - 8"] by (auto simp: bit_or_iff bit_push_bit_iff bit_ucast_iff)
  qed
qed

lemma le_value_octets: "le_value (le_octets n w) = (take_bit (8 * n) w :: 'a::len word)"
proof (rule bit_word_eqI)
  fix k
  assume k: "k < LENGTH('a)"
  have "8 * (k div 8) + k mod 8 = k"
    by simp
  then show "bit (le_value (le_octets n w) :: 'a word) k \<longleftrightarrow> bit (take_bit (8 * n) w :: 'a word) k"
    using k by (auto simp: bit_le_value nth_le_octets bit_ucast_iff bit_drop_bit_eq bit_take_bit_iff
        less_mult_imp_div_less div_less_iff_less_mult mult.commute)
qed

lemma le_octets_value:
  assumes "8 * length xs \<le> LENGTH('a)"
  shows "le_octets (length xs) (le_value xs :: 'a::len word) = xs"
proof (rule nth_equalityI)
  fix i
  assume "i < length (le_octets (length xs) (le_value xs :: 'a word))"
  then have i: "i < length xs"
    by simp
  show "le_octets (length xs) (le_value xs :: 'a word) ! i = xs ! i"
  proof (rule bit_word_eqI)
    fix k
    assume k: "k < LENGTH(8)"
    then have "(8 * i + k) div 8 = i" "(8 * i + k) mod 8 = k" "8 * i + k < LENGTH('a)"
      using i assms by auto
    then show "bit (le_octets (length xs) (le_value xs :: 'a word) ! i) k \<longleftrightarrow> bit (xs ! i) k"
      using i k by (simp add: nth_le_octets bit_ucast_iff bit_drop_bit_eq bit_le_value)
  qed
qed simp

lemma be_value_octets: "be_value (be_octets n w) = (take_bit (8 * n) w :: 'a::len word)"
  by (simp add: be_value_def be_octets_def le_value_octets)

lemma host_value_octets: "host_value e (host_octets e n w) = (take_bit (8 * n) w :: 'a::len word)"
  by (simp add: host_value_def host_octets_def le_value_octets be_value_octets split: endianness.split)

lemma le_value_zeros: "le_value (xs @ replicate k 0) = le_value xs"
  by (rule bit_word_eqI) (auto simp: bit_le_value nth_append)

lemma le_octets_zero: "le_octets n (0 :: 'a::len word) = replicate n 0"
  by (simp add: le_octets_def map_replicate_const)

lemma obj_octets_zero: "obj_octets e (0 :: 'a::len word) = replicate (LENGTH('a) div 8) 0"
  by (simp add: obj_octets_def host_octets_def be_octets_def le_octets_zero split: endianness.split)

lemma take_le_octets: "k \<le> n \<Longrightarrow> take k (le_octets n w) = le_octets k w"
  by (simp add: le_octets_def take_map)

lemma drop_be_octets: "k \<le> n \<Longrightarrow> drop k (be_octets n w) = be_octets (n - k) w"
  by (simp add: be_octets_def drop_rev take_le_octets)

text \<open>
  A datum read into the low part of an integer object, and one stored from it: the offset into the object
  depends on the machine, what comes out of it does not.
\<close>

definition low_part :: "endianness \<Rightarrow> nat \<Rightarrow> nat" where
  "low_part e pad = (case e of SYSTEM_ENDIANNESS_BIG \<Rightarrow> pad | SYSTEM_ENDIANNESS_LITTLE \<Rightarrow> 0)"

lemma low_part_0: "low_part e 0 = 0"
  by (simp add: low_part_def split: endianness.split)

lemma load_low_part:
  assumes "LENGTH('a) = 8 * (n + pad)" and "length s = n"
  shows "(do { dst \<leftarrow> mem_write (obj_octets e (0 :: 'a::len word)) (low_part e pad) s; Some (host_value e dst :: 'a word) })
     = Some (host_value e s)"
proof (cases e)
  case SYSTEM_ENDIANNESS_BIG
  have "rev s @ replicate pad 0 = rev (replicate pad 0 @ s)"
    by simp
  then have "be_value (replicate pad 0 @ s) = (be_value s :: 'a word)"
    by (simp only: be_value_def flip: le_value_zeros [of "rev s" pad])
  with SYSTEM_ENDIANNESS_BIG assms show ?thesis
    by (simp add: low_part_def host_value_def obj_octets_zero mem_write_def)
next
  case SYSTEM_ENDIANNESS_LITTLE
  with assms show ?thesis
    by (simp add: low_part_def host_value_def obj_octets_zero mem_write_def le_value_zeros)
qed

lemma store_low_part:
  assumes "LENGTH('a) = 8 * (n + pad)"
  shows "mem_read (obj_octets e (w :: 'a::len word)) (low_part e pad) n = Some (host_octets e n w)"
  using assms
  by (auto simp: low_part_def host_octets_def obj_octets_def mem_read_def take_le_octets drop_be_octets
      split: endianness.split)

lemma bf_loads_low_part:
  assumes "LENGTH('a) = 8 * (n + pad)"
  shows "bf_loads (\<lambda>m ptr. do { src \<leftarrow> mem_read m ptr n;
      dst \<leftarrow> mem_write (obj_octets e (0 :: 'a::len word)) (low_part e pad) src;
      Some (host_value e dst :: 'a word) }) n (host_value e)"
  unfolding bf_loads_def
proof (intro allI)
  fix m :: "u8 list" and ptr
  show "(do { src \<leftarrow> mem_read m ptr n;
      dst \<leftarrow> mem_write (obj_octets e (0 :: 'a::len word)) (low_part e pad) src;
      Some (host_value e dst :: 'a word) }) =
     (if ptr + n \<le> length m then Some (host_value e (take n (drop ptr m))) else None)"
    using load_low_part [OF assms, of "take n (drop ptr m)" e] by (simp add: mem_read_def)
qed

lemma bf_stores_low_part:
  assumes "LENGTH('a) = 8 * (n + pad)"
  shows "bf_stores (\<lambda>m ptr (value :: 'a::len word). do { src \<leftarrow> mem_read (obj_octets e value) (low_part e pad) n;
      dst \<leftarrow> mem_write m ptr src; Some (ptr + n, dst) }) n (host_octets e n)"
  by (simp add: bf_stores_def store_low_part [OF assms] mem_write_def overwrite_def)

text \<open>Swapping after a load, and before a store, reverses the octets.\<close>

definition reverses :: "nat \<Rightarrow> ('a::len word \<Rightarrow> 'a word) \<Rightarrow> bool" where
  "reverses n swap \<longleftrightarrow> (\<forall>w. swap w = le_value (be_octets n w))"

lemma reverses_octets:
  fixes swap :: "'a::len word \<Rightarrow> 'a word"
  assumes "reverses n swap" and "8 * n \<le> LENGTH('a)"
  shows "le_octets n (swap w) = be_octets n w"
  using assms(1) le_octets_value [of "be_octets n w", where 'a = 'a] assms(2) by (simp add: reverses_def)

lemma reverses_value:
  fixes swap :: "'a::len word \<Rightarrow> 'a word"
  assumes "reverses n swap" and "8 * n \<le> LENGTH('a)" and "length xs = n"
  shows "swap (le_value xs) = be_value xs"
  using assms(1) le_octets_value [of xs, where 'a = 'a] assms(2,3)
  by (simp add: reverses_def be_octets_def be_value_def)

text \<open>One octet of the masked sums that the swapping functions are.\<close>

lemma masked_up:
  fixes w :: "'a::len word"
  shows "push_bit d (w AND push_bit a (mask 8)) = push_bit (d + a) (ucast (ucast (drop_bit a w) :: u8))"
  by (rule bit_word_eqI) (auto simp: bit_simps)

lemma masked_down:
  fixes w :: "'a::len word"
  shows "b + d = a \<Longrightarrow> a + 8 \<le> LENGTH('a) \<Longrightarrow>
     drop_bit d (w AND push_bit a (mask 8)) = push_bit b (ucast (ucast (drop_bit a w) :: u8))"
  by (rule bit_word_eqI) (auto simp: bit_simps)

lemma masks_16:
  "(0x00ff :: u16) = push_bit 0 (mask 8)"
  "(0xff00 :: u16) = push_bit 8 (mask 8)"
  by (simp_all add: mask_eq_exp_minus_1 push_bit_eq_mult)

lemma swap16_reverses: "reverses 2 bf_swap16"
  unfolding reverses_def
proof
  fix w :: u16
  have u: "[0..<2] = [0, 1]"
    by (simp add: upt_rec)
  have "bf_swap16 w =
      push_bit 0 (ucast (ucast (drop_bit 8 w) :: u8) :: u16)
      OR push_bit 8 (ucast (ucast (drop_bit 0 w) :: u8) :: u16)"
    unfolding bf_swap16_def masks_16
    using masked_down [of 0 8 8 w]
      masked_up [of 8 w 0]
    by simp
  then show "bf_swap16 w = le_value (be_octets 2 w)"
    by (simp add: be_octets_def le_octets_def u push_bit_or)
qed

lemma masks_24:
  "(0x0000ff :: u32) = push_bit 0 (mask 8)"
  "(0x00ff00 :: u32) = push_bit 8 (mask 8)"
  "(0xff0000 :: u32) = push_bit 16 (mask 8)"
  by (simp_all add: mask_eq_exp_minus_1 push_bit_eq_mult)

lemma swap24_reverses: "reverses 3 bf_swap24"
  unfolding reverses_def
proof
  fix w :: u32
  have u: "[0..<3] = [0, 1, 2]"
    by (simp add: upt_rec)
  have "bf_swap24 w =
      push_bit 0 (ucast (ucast (drop_bit 16 w) :: u8) :: u32)
      OR push_bit 8 (ucast (ucast (drop_bit 8 w) :: u8) :: u32)
      OR push_bit 16 (ucast (ucast (drop_bit 0 w) :: u8) :: u32)"
    unfolding bf_swap24_def masks_24
    using masked_down [of 0 16 16 w]
      masked_up [of 0 w 8]
      masked_up [of 16 w 0]
    by simp
  then show "bf_swap24 w = le_value (be_octets 3 w)"
    by (simp add: be_octets_def le_octets_def u push_bit_or)
qed

lemma masks_32:
  "(0x000000ff :: u32) = push_bit 0 (mask 8)"
  "(0x0000ff00 :: u32) = push_bit 8 (mask 8)"
  "(0x00ff0000 :: u32) = push_bit 16 (mask 8)"
  "(0xff000000 :: u32) = push_bit 24 (mask 8)"
  by (simp_all add: mask_eq_exp_minus_1 push_bit_eq_mult)

lemma swap32_reverses: "reverses 4 bf_swap32"
  unfolding reverses_def
proof
  fix w :: u32
  have u: "[0..<4] = [0, 1, 2, 3]"
    by (simp add: upt_rec)
  have "bf_swap32 w =
      push_bit 0 (ucast (ucast (drop_bit 24 w) :: u8) :: u32)
      OR push_bit 8 (ucast (ucast (drop_bit 16 w) :: u8) :: u32)
      OR push_bit 16 (ucast (ucast (drop_bit 8 w) :: u8) :: u32)
      OR push_bit 24 (ucast (ucast (drop_bit 0 w) :: u8) :: u32)"
    unfolding bf_swap32_def masks_32
    using masked_down [of 0 24 24 w]
      masked_down [of 8 8 16 w]
      masked_up [of 8 w 8]
      masked_up [of 24 w 0]
    by simp
  then show "bf_swap32 w = le_value (be_octets 4 w)"
    by (simp add: be_octets_def le_octets_def u push_bit_or)
qed

lemma masks_40:
  "(0x00000000ff :: u64) = push_bit 0 (mask 8)"
  "(0x000000ff00 :: u64) = push_bit 8 (mask 8)"
  "(0x0000ff0000 :: u64) = push_bit 16 (mask 8)"
  "(0x00ff000000 :: u64) = push_bit 24 (mask 8)"
  "(0xff00000000 :: u64) = push_bit 32 (mask 8)"
  by (simp_all add: mask_eq_exp_minus_1 push_bit_eq_mult)

lemma swap40_reverses: "reverses 5 bf_swap40"
  unfolding reverses_def
proof
  fix w :: u64
  have u: "[0..<5] = [0, 1, 2, 3, 4]"
    by (simp add: upt_rec)
  have "bf_swap40 w =
      push_bit 0 (ucast (ucast (drop_bit 32 w) :: u8) :: u64)
      OR push_bit 8 (ucast (ucast (drop_bit 24 w) :: u8) :: u64)
      OR push_bit 16 (ucast (ucast (drop_bit 16 w) :: u8) :: u64)
      OR push_bit 24 (ucast (ucast (drop_bit 8 w) :: u8) :: u64)
      OR push_bit 32 (ucast (ucast (drop_bit 0 w) :: u8) :: u64)"
    unfolding bf_swap40_def masks_40
    using masked_down [of 0 32 32 w]
      masked_down [of 8 16 24 w]
      masked_up [of 0 w 16]
      masked_up [of 16 w 8]
      masked_up [of 32 w 0]
    by simp
  then show "bf_swap40 w = le_value (be_octets 5 w)"
    by (simp add: be_octets_def le_octets_def u push_bit_or)
qed

lemma masks_48:
  "(0x0000000000ff :: u64) = push_bit 0 (mask 8)"
  "(0x00000000ff00 :: u64) = push_bit 8 (mask 8)"
  "(0x000000ff0000 :: u64) = push_bit 16 (mask 8)"
  "(0x0000ff000000 :: u64) = push_bit 24 (mask 8)"
  "(0x00ff00000000 :: u64) = push_bit 32 (mask 8)"
  "(0xff0000000000 :: u64) = push_bit 40 (mask 8)"
  by (simp_all add: mask_eq_exp_minus_1 push_bit_eq_mult)

lemma swap48_reverses: "reverses 6 bf_swap48"
  unfolding reverses_def
proof
  fix w :: u64
  have u: "[0..<6] = [0, 1, 2, 3, 4, 5]"
    by (simp add: upt_rec)
  have "bf_swap48 w =
      push_bit 0 (ucast (ucast (drop_bit 40 w) :: u8) :: u64)
      OR push_bit 8 (ucast (ucast (drop_bit 32 w) :: u8) :: u64)
      OR push_bit 16 (ucast (ucast (drop_bit 24 w) :: u8) :: u64)
      OR push_bit 24 (ucast (ucast (drop_bit 16 w) :: u8) :: u64)
      OR push_bit 32 (ucast (ucast (drop_bit 8 w) :: u8) :: u64)
      OR push_bit 40 (ucast (ucast (drop_bit 0 w) :: u8) :: u64)"
    unfolding bf_swap48_def masks_48
    using masked_down [of 0 40 40 w]
      masked_down [of 8 24 32 w]
      masked_down [of 16 8 24 w]
      masked_up [of 8 w 16]
      masked_up [of 24 w 8]
      masked_up [of 40 w 0]
    by simp
  then show "bf_swap48 w = le_value (be_octets 6 w)"
    by (simp add: be_octets_def le_octets_def u push_bit_or)
qed

lemma masks_56:
  "(0x000000000000ff :: u64) = push_bit 0 (mask 8)"
  "(0x0000000000ff00 :: u64) = push_bit 8 (mask 8)"
  "(0x00000000ff0000 :: u64) = push_bit 16 (mask 8)"
  "(0x000000ff000000 :: u64) = push_bit 24 (mask 8)"
  "(0x0000ff00000000 :: u64) = push_bit 32 (mask 8)"
  "(0x00ff0000000000 :: u64) = push_bit 40 (mask 8)"
  "(0xff000000000000 :: u64) = push_bit 48 (mask 8)"
  by (simp_all add: mask_eq_exp_minus_1 push_bit_eq_mult)

lemma swap56_reverses: "reverses 7 bf_swap56"
  unfolding reverses_def
proof
  fix w :: u64
  have u: "[0..<7] = [0, 1, 2, 3, 4, 5, 6]"
    by (simp add: upt_rec)
  have "bf_swap56 w =
      push_bit 0 (ucast (ucast (drop_bit 48 w) :: u8) :: u64)
      OR push_bit 8 (ucast (ucast (drop_bit 40 w) :: u8) :: u64)
      OR push_bit 16 (ucast (ucast (drop_bit 32 w) :: u8) :: u64)
      OR push_bit 24 (ucast (ucast (drop_bit 24 w) :: u8) :: u64)
      OR push_bit 32 (ucast (ucast (drop_bit 16 w) :: u8) :: u64)
      OR push_bit 40 (ucast (ucast (drop_bit 8 w) :: u8) :: u64)
      OR push_bit 48 (ucast (ucast (drop_bit 0 w) :: u8) :: u64)"
    unfolding bf_swap56_def masks_56
    using masked_down [of 0 48 48 w]
      masked_down [of 8 32 40 w]
      masked_down [of 16 16 32 w]
      masked_up [of 0 w 24]
      masked_up [of 16 w 16]
      masked_up [of 32 w 8]
      masked_up [of 48 w 0]
    by simp
  then show "bf_swap56 w = le_value (be_octets 7 w)"
    by (simp add: be_octets_def le_octets_def u push_bit_or)
qed

lemma masks_64:
  "(0x00000000000000ff :: u64) = push_bit 0 (mask 8)"
  "(0x000000000000ff00 :: u64) = push_bit 8 (mask 8)"
  "(0x0000000000ff0000 :: u64) = push_bit 16 (mask 8)"
  "(0x00000000ff000000 :: u64) = push_bit 24 (mask 8)"
  "(0x000000ff00000000 :: u64) = push_bit 32 (mask 8)"
  "(0x0000ff0000000000 :: u64) = push_bit 40 (mask 8)"
  "(0x00ff000000000000 :: u64) = push_bit 48 (mask 8)"
  "(0xff00000000000000 :: u64) = push_bit 56 (mask 8)"
  by (simp_all add: mask_eq_exp_minus_1 push_bit_eq_mult)

lemma swap64_reverses: "reverses 8 bf_swap64"
  unfolding reverses_def
proof
  fix w :: u64
  have u: "[0..<8] = [0, 1, 2, 3, 4, 5, 6, 7]"
    by (simp add: upt_rec)
  have "bf_swap64 w =
      push_bit 0 (ucast (ucast (drop_bit 56 w) :: u8) :: u64)
      OR push_bit 8 (ucast (ucast (drop_bit 48 w) :: u8) :: u64)
      OR push_bit 16 (ucast (ucast (drop_bit 40 w) :: u8) :: u64)
      OR push_bit 24 (ucast (ucast (drop_bit 32 w) :: u8) :: u64)
      OR push_bit 32 (ucast (ucast (drop_bit 24 w) :: u8) :: u64)
      OR push_bit 40 (ucast (ucast (drop_bit 16 w) :: u8) :: u64)
      OR push_bit 48 (ucast (ucast (drop_bit 8 w) :: u8) :: u64)
      OR push_bit 56 (ucast (ucast (drop_bit 0 w) :: u8) :: u64)"
    unfolding bf_swap64_def masks_64
    using masked_down [of 0 56 56 w]
      masked_down [of 8 40 48 w]
      masked_down [of 16 24 40 w]
      masked_down [of 24 8 32 w]
      masked_up [of 8 w 24]
      masked_up [of 24 w 16]
      masked_up [of 40 w 8]
      masked_up [of 56 w 0]
    by simp
  then show "bf_swap64 w = le_value (be_octets 8 w)"
    by (simp add: be_octets_def le_octets_def u push_bit_or)
qed
text \<open>Sign extension of a datum narrower than its integer type.\<close>

lemmas bit_BITL_ONES = bit_ONES(2)

lemma BIT_ISSET_bit: "k < 64 \<Longrightarrow> BIT_ISSET w (BITL k) \<longleftrightarrow> bit w k"
proof
  assume "BIT_ISSET w (BITL k)" and "k < 64"
  then have "bit (w AND push_bit k 1) k \<longleftrightarrow> bit (push_bit k 1 :: u64) k"
    by (simp add: BIT_ISSET_def BITL_def)
  with \<open>k < 64\<close> show "bit w k"
    by (simp add: bit_and_iff bit_exp_iff)
next
  assume "bit w k"
  then show "BIT_ISSET w (BITL k)"
    unfolding BIT_ISSET_def BITL_def by (intro bit_word_eqI) (auto simp: bit_and_iff bit_exp_iff)
qed

lemma sign_extension:
  fixes u :: "'a::len word"
  assumes "take_bit k u = u" and "n + k = LENGTH('a)" and "LENGTH('a) \<le> 64" and "0 < k" and "0 < n"
  shows "(if BIT_ISSET (ucast u) (BITL (k - 1)) then ucast (ucast u OR BITL_ONES n k) else u) = signed_take_bit (k - 1) u"
proof -
  have high: "bit u j \<Longrightarrow> j < k" for j
    using assms(1) by (metis bit_take_bit_iff)
  have set: "BIT_ISSET (ucast u :: u64) (BITL (k - 1)) \<longleftrightarrow> bit u (k - 1)"
    using assms(2-5) by (subst BIT_ISSET_bit) (auto simp: bit_ucast_iff)
  show ?thesis
    unfolding set
  proof (rule bit_word_eqI)
    fix j
    assume j: "j < LENGTH('a)"
    consider "j < k - 1" | "j = k - 1" | "k \<le> j"
      by linarith
    then show "bit (if bit u (k - 1) then ucast (ucast u OR BITL_ONES n k) else u) j \<longleftrightarrow> bit (signed_take_bit (k - 1) u) j"
      using j assms(2-5) high [of j]
      by cases (auto simp: bit_signed_take_bit_iff bit_or_iff bit_ucast_iff bit_BITL_ONES)
  qed
qed

lemma take_bit_value:
  "length xs = n \<Longrightarrow> take_bit (8 * n) (le_value xs :: 'a::len word) = le_value xs"
  by (rule bit_word_eqI) (auto simp: bit_take_bit_iff bit_le_value less_mult_imp_div_less div_less_iff_less_mult mult.commute)

lemma take_bit_be_value:
  "length xs = n \<Longrightarrow> take_bit (8 * n) (be_value xs :: 'a::len word) = be_value xs"
  by (simp add: be_value_def take_bit_value)

lemma take_bit_host_value:
  "length xs = n \<Longrightarrow> take_bit (8 * n) (host_value e xs :: 'a::len word) = host_value e xs"
  by (simp add: host_value_def take_bit_value take_bit_be_value split: endianness.split)

lemma signed_octets:
  "k + 1 = 8 * n \<Longrightarrow> signed_take_bit k (take_bit (8 * n) w) = (signed_take_bit k w :: 'a::len word)"
  by (rule bit_word_eqI) (auto simp: bit_signed_take_bit_iff bit_take_bit_iff min_def)

text \<open>The functions of the two fixed orders, from the ones of the machine's own order.\<close>

lemma bf_loads_order:
  fixes swap :: "'a::len word \<Rightarrow> 'a word"
  assumes "reverses n swap" and "8 * n \<le> LENGTH('a)" and "\<And>e. bf_loads (ref e) n (host_value e)"
  shows "bf_loads (\<lambda>m ptr. case e of SYSTEM_ENDIANNESS_BIG \<Rightarrow> ref e m ptr
            | SYSTEM_ENDIANNESS_LITTLE \<Rightarrow> map_option swap (ref e m ptr)) n be_value"
    and "bf_loads (\<lambda>m ptr. case e of SYSTEM_ENDIANNESS_BIG \<Rightarrow> map_option swap (ref e m ptr)
            | SYSTEM_ENDIANNESS_LITTLE \<Rightarrow> ref e m ptr) n le_value"
proof -
  have swap: "swap (le_value xs) = be_value xs" "swap (be_value xs) = le_value xs" if "length xs = n" for xs
    using reverses_value [OF assms(1,2), of xs] reverses_value [OF assms(1,2), of "rev xs"] that
    by (simp_all add: be_value_def)
  note ref = assms(3) [unfolded bf_loads_def, rule_format]
  show "bf_loads (\<lambda>m ptr. case e of SYSTEM_ENDIANNESS_BIG \<Rightarrow> ref e m ptr
            | SYSTEM_ENDIANNESS_LITTLE \<Rightarrow> map_option swap (ref e m ptr)) n be_value"
    unfolding bf_loads_def by (cases e) (simp_all add: ref host_value_def swap)
  show "bf_loads (\<lambda>m ptr. case e of SYSTEM_ENDIANNESS_BIG \<Rightarrow> map_option swap (ref e m ptr)
            | SYSTEM_ENDIANNESS_LITTLE \<Rightarrow> ref e m ptr) n le_value"
    unfolding bf_loads_def by (cases e) (simp_all add: ref host_value_def swap)
qed

lemma bf_stores_order:
  fixes swap :: "'a::len word \<Rightarrow> 'a word"
  assumes "reverses n swap" and "8 * n \<le> LENGTH('a)" and "\<And>e. bf_stores (put e) n (host_octets e n)"
  shows "bf_stores (\<lambda>m ptr v. case e of SYSTEM_ENDIANNESS_BIG \<Rightarrow> put e m ptr v
            | SYSTEM_ENDIANNESS_LITTLE \<Rightarrow> put e m ptr (swap v)) n (be_octets n)"
    and "bf_stores (\<lambda>m ptr v. case e of SYSTEM_ENDIANNESS_BIG \<Rightarrow> put e m ptr (swap v)
            | SYSTEM_ENDIANNESS_LITTLE \<Rightarrow> put e m ptr v) n (le_octets n)"
proof -
  have swap: "le_octets n (swap v) = be_octets n v" "be_octets n (swap v) = le_octets n v" for v
    using reverses_octets [OF assms(1,2), of v] by (simp_all add: be_octets_def)
  note put = assms(3) [unfolded bf_stores_def, rule_format]
  show "bf_stores (\<lambda>m ptr v. case e of SYSTEM_ENDIANNESS_BIG \<Rightarrow> put e m ptr v
            | SYSTEM_ENDIANNESS_LITTLE \<Rightarrow> put e m ptr (swap v)) n (be_octets n)"
    unfolding bf_stores_def by (cases e) (simp_all add: put host_octets_def swap)
  show "bf_stores (\<lambda>m ptr v. case e of SYSTEM_ENDIANNESS_BIG \<Rightarrow> put e m ptr (swap v)
            | SYSTEM_ENDIANNESS_LITTLE \<Rightarrow> put e m ptr v) n (le_octets n)"
    unfolding bf_stores_def by (cases e) (simp_all add: put host_octets_def swap)
qed

lemma bf_loads_signed:
  fixes dec :: "u8 list \<Rightarrow> 'a::len word"
  assumes "bf_loads ref n dec" and "\<And>xs. length xs = n \<Longrightarrow> take_bit (8 * n) (dec xs) = dec xs"
    and "k + 8 * n = LENGTH('a)" and "LENGTH('a) \<le> 64" and "0 < n" and "0 < k" and "b = 8 * n" and "c = b - 1"
  shows "bf_loads (\<lambda>m ptr. do { data \<leftarrow> ref m ptr;
      Some (if BIT_ISSET (ucast data) (BITL c) then ucast (ucast data OR BITL_ONES k b) else data) })
     n (\<lambda>xs. signed_take_bit c (dec xs))"
  using assms sign_extension [where 'a = 'a, of b _ k] by (simp add: bf_loads_def)

lemma bf_u16n_memory:
  "bf_loads (bf_ref_u16n e) 2 (host_value e)"
  "bf_stores (bf_set_u16n e) 2 (host_octets e 2)"
  using bf_loads_low_part [where 'a = 16, of 2 0 e] bf_stores_low_part [where 'a = 16, of 2 0 e]
  by (simp_all add: bf_ref_u16n_def [abs_def] bf_set_u16n_def [abs_def] low_part_0)

lemma bf_u16b_memory:
  "bf_loads (bf_ref_u16b e) 2 be_value"
  "bf_stores (bf_set_u16b e) 2 (be_octets 2)"
  using bf_loads_order(1) [OF swap16_reverses _ bf_u16n_memory(1), of e] bf_stores_order(1) [OF swap16_reverses _ bf_u16n_memory(2), of e]
  by (simp_all add: bf_ref_u16b_def [abs_def] bf_set_u16b_def [abs_def])

lemma bf_u16l_memory:
  "bf_loads (bf_ref_u16l e) 2 le_value"
  "bf_stores (bf_set_u16l e) 2 (le_octets 2)"
  using bf_loads_order(2) [OF swap16_reverses _ bf_u16n_memory(1), of e] bf_stores_order(2) [OF swap16_reverses _ bf_u16n_memory(2), of e]
  by (simp_all add: bf_ref_u16l_def [abs_def] bf_set_u16l_def [abs_def])

lemma bf_u24n_memory:
  "bf_loads (bf_ref_u24n e) 3 (host_value e)"
  "bf_stores (bf_set_u24n e) 3 (host_octets e 3)"
  using bf_loads_low_part [where 'a = 32, of 3 1 e] bf_stores_low_part [where 'a = 32, of 3 1 e]
  by (simp_all add: bf_ref_u24n_def [abs_def] bf_set_u24n_def [abs_def] low_part_def cong: endianness.case_cong)

lemma bf_u24b_memory:
  "bf_loads (bf_ref_u24b e) 3 be_value"
  "bf_stores (bf_set_u24b e) 3 (be_octets 3)"
  using bf_loads_order(1) [OF swap24_reverses _ bf_u24n_memory(1), of e] bf_stores_order(1) [OF swap24_reverses _ bf_u24n_memory(2), of e]
  by (simp_all add: bf_ref_u24b_def [abs_def] bf_set_u24b_def [abs_def])

lemma bf_u24l_memory:
  "bf_loads (bf_ref_u24l e) 3 le_value"
  "bf_stores (bf_set_u24l e) 3 (le_octets 3)"
  using bf_loads_order(2) [OF swap24_reverses _ bf_u24n_memory(1), of e] bf_stores_order(2) [OF swap24_reverses _ bf_u24n_memory(2), of e]
  by (simp_all add: bf_ref_u24l_def [abs_def] bf_set_u24l_def [abs_def])

lemma bf_u32n_memory:
  "bf_loads (bf_ref_u32n e) 4 (host_value e)"
  "bf_stores (bf_set_u32n e) 4 (host_octets e 4)"
  using bf_loads_low_part [where 'a = 32, of 4 0 e] bf_stores_low_part [where 'a = 32, of 4 0 e]
  by (simp_all add: bf_ref_u32n_def [abs_def] bf_set_u32n_def [abs_def] low_part_0)

lemma bf_u32b_memory:
  "bf_loads (bf_ref_u32b e) 4 be_value"
  "bf_stores (bf_set_u32b e) 4 (be_octets 4)"
  using bf_loads_order(1) [OF swap32_reverses _ bf_u32n_memory(1), of e] bf_stores_order(1) [OF swap32_reverses _ bf_u32n_memory(2), of e]
  by (simp_all add: bf_ref_u32b_def [abs_def] bf_set_u32b_def [abs_def])

lemma bf_u32l_memory:
  "bf_loads (bf_ref_u32l e) 4 le_value"
  "bf_stores (bf_set_u32l e) 4 (le_octets 4)"
  using bf_loads_order(2) [OF swap32_reverses _ bf_u32n_memory(1), of e] bf_stores_order(2) [OF swap32_reverses _ bf_u32n_memory(2), of e]
  by (simp_all add: bf_ref_u32l_def [abs_def] bf_set_u32l_def [abs_def])

lemma bf_u40n_memory:
  "bf_loads (bf_ref_u40n e) 5 (host_value e)"
  "bf_stores (bf_set_u40n e) 5 (host_octets e 5)"
  using bf_loads_low_part [where 'a = 64, of 5 3 e] bf_stores_low_part [where 'a = 64, of 5 3 e]
  by (simp_all add: bf_ref_u40n_def [abs_def] bf_set_u40n_def [abs_def] low_part_def cong: endianness.case_cong)

lemma bf_u40b_memory:
  "bf_loads (bf_ref_u40b e) 5 be_value"
  "bf_stores (bf_set_u40b e) 5 (be_octets 5)"
  using bf_loads_order(1) [OF swap40_reverses _ bf_u40n_memory(1), of e] bf_stores_order(1) [OF swap40_reverses _ bf_u40n_memory(2), of e]
  by (simp_all add: bf_ref_u40b_def [abs_def] bf_set_u40b_def [abs_def])

lemma bf_u40l_memory:
  "bf_loads (bf_ref_u40l e) 5 le_value"
  "bf_stores (bf_set_u40l e) 5 (le_octets 5)"
  using bf_loads_order(2) [OF swap40_reverses _ bf_u40n_memory(1), of e] bf_stores_order(2) [OF swap40_reverses _ bf_u40n_memory(2), of e]
  by (simp_all add: bf_ref_u40l_def [abs_def] bf_set_u40l_def [abs_def])

lemma bf_u48n_memory:
  "bf_loads (bf_ref_u48n e) 6 (host_value e)"
  "bf_stores (bf_set_u48n e) 6 (host_octets e 6)"
  using bf_loads_low_part [where 'a = 64, of 6 2 e] bf_stores_low_part [where 'a = 64, of 6 2 e]
  by (simp_all add: bf_ref_u48n_def [abs_def] bf_set_u48n_def [abs_def] low_part_def cong: endianness.case_cong)

lemma bf_u48b_memory:
  "bf_loads (bf_ref_u48b e) 6 be_value"
  "bf_stores (bf_set_u48b e) 6 (be_octets 6)"
  using bf_loads_order(1) [OF swap48_reverses _ bf_u48n_memory(1), of e] bf_stores_order(1) [OF swap48_reverses _ bf_u48n_memory(2), of e]
  by (simp_all add: bf_ref_u48b_def [abs_def] bf_set_u48b_def [abs_def])

lemma bf_u48l_memory:
  "bf_loads (bf_ref_u48l e) 6 le_value"
  "bf_stores (bf_set_u48l e) 6 (le_octets 6)"
  using bf_loads_order(2) [OF swap48_reverses _ bf_u48n_memory(1), of e] bf_stores_order(2) [OF swap48_reverses _ bf_u48n_memory(2), of e]
  by (simp_all add: bf_ref_u48l_def [abs_def] bf_set_u48l_def [abs_def])

lemma bf_u56n_memory:
  "bf_loads (bf_ref_u56n e) 7 (host_value e)"
  "bf_stores (bf_set_u56n e) 7 (host_octets e 7)"
  using bf_loads_low_part [where 'a = 64, of 7 1 e] bf_stores_low_part [where 'a = 64, of 7 1 e]
  by (simp_all add: bf_ref_u56n_def [abs_def] bf_set_u56n_def [abs_def] low_part_def cong: endianness.case_cong)

lemma bf_u56b_memory:
  "bf_loads (bf_ref_u56b e) 7 be_value"
  "bf_stores (bf_set_u56b e) 7 (be_octets 7)"
  using bf_loads_order(1) [OF swap56_reverses _ bf_u56n_memory(1), of e] bf_stores_order(1) [OF swap56_reverses _ bf_u56n_memory(2), of e]
  by (simp_all add: bf_ref_u56b_def [abs_def] bf_set_u56b_def [abs_def])

lemma bf_u56l_memory:
  "bf_loads (bf_ref_u56l e) 7 le_value"
  "bf_stores (bf_set_u56l e) 7 (le_octets 7)"
  using bf_loads_order(2) [OF swap56_reverses _ bf_u56n_memory(1), of e] bf_stores_order(2) [OF swap56_reverses _ bf_u56n_memory(2), of e]
  by (simp_all add: bf_ref_u56l_def [abs_def] bf_set_u56l_def [abs_def])

lemma bf_u64n_memory:
  "bf_loads (bf_ref_u64n e) 8 (host_value e)"
  "bf_stores (bf_set_u64n e) 8 (host_octets e 8)"
  using bf_loads_low_part [where 'a = 64, of 8 0 e] bf_stores_low_part [where 'a = 64, of 8 0 e]
  by (simp_all add: bf_ref_u64n_def [abs_def] bf_set_u64n_def [abs_def] low_part_0)

lemma bf_u64b_memory:
  "bf_loads (bf_ref_u64b e) 8 be_value"
  "bf_stores (bf_set_u64b e) 8 (be_octets 8)"
  using bf_loads_order(1) [OF swap64_reverses _ bf_u64n_memory(1), of e] bf_stores_order(1) [OF swap64_reverses _ bf_u64n_memory(2), of e]
  by (simp_all add: bf_ref_u64b_def [abs_def] bf_set_u64b_def [abs_def])

lemma bf_u64l_memory:
  "bf_loads (bf_ref_u64l e) 8 le_value"
  "bf_stores (bf_set_u64l e) 8 (le_octets 8)"
  using bf_loads_order(2) [OF swap64_reverses _ bf_u64n_memory(1), of e] bf_stores_order(2) [OF swap64_reverses _ bf_u64n_memory(2), of e]
  by (simp_all add: bf_ref_u64l_def [abs_def] bf_set_u64l_def [abs_def])

lemma bf_s16n_memory:
  "bf_loads (bf_ref_s16n e) 2 (host_value e)"
  "bf_stores (bf_set_s16n e) 2 (host_octets e 2)"
  using bf_u16n_memory [of e]
  by (simp_all add: bf_ref_s16n_def [abs_def] bf_set_s16n_def [abs_def])

lemma bf_s24n_loads: "bf_loads (bf_ref_s24n e) 3 (\<lambda>xs. signed_take_bit 23 ((host_value e) xs))"
  unfolding bf_ref_s24n_def [abs_def]
  by (rule bf_loads_signed [OF bf_u24n_memory(1) take_bit_host_value]) simp_all

lemmas bf_s24n_memory = bf_s24n_loads bf_u24n_memory(2) [folded bf_set_s24n_def [abs_def]]

lemma bf_s32n_memory:
  "bf_loads (bf_ref_s32n e) 4 (host_value e)"
  "bf_stores (bf_set_s32n e) 4 (host_octets e 4)"
  using bf_u32n_memory [of e]
  by (simp_all add: bf_ref_s32n_def [abs_def] bf_set_s32n_def [abs_def])

lemma bf_s40n_loads: "bf_loads (bf_ref_s40n e) 5 (\<lambda>xs. signed_take_bit 39 ((host_value e) xs))"
  unfolding bf_ref_s40n_def [abs_def]
  by (rule bf_loads_signed [OF bf_u40n_memory(1) take_bit_host_value]) simp_all

lemmas bf_s40n_memory = bf_s40n_loads bf_u40n_memory(2) [folded bf_set_s40n_def [abs_def]]

lemma bf_s48n_loads: "bf_loads (bf_ref_s48n e) 6 (\<lambda>xs. signed_take_bit 47 ((host_value e) xs))"
  unfolding bf_ref_s48n_def [abs_def]
  by (rule bf_loads_signed [OF bf_u48n_memory(1) take_bit_host_value]) simp_all

lemmas bf_s48n_memory = bf_s48n_loads bf_u48n_memory(2) [folded bf_set_s48n_def [abs_def]]

lemma bf_s56n_loads: "bf_loads (bf_ref_s56n e) 7 (\<lambda>xs. signed_take_bit 55 ((host_value e) xs))"
  unfolding bf_ref_s56n_def [abs_def]
  by (rule bf_loads_signed [OF bf_u56n_memory(1) take_bit_host_value]) simp_all

lemmas bf_s56n_memory = bf_s56n_loads bf_u56n_memory(2) [folded bf_set_s56n_def [abs_def]]

lemma bf_s64n_memory:
  "bf_loads (bf_ref_s64n e) 8 (host_value e)"
  "bf_stores (bf_set_s64n e) 8 (host_octets e 8)"
  using bf_u64n_memory [of e]
  by (simp_all add: bf_ref_s64n_def [abs_def] bf_set_s64n_def [abs_def])

lemma bf_f32n_memory:
  "bf_loads (bf_ref_f32n e) 4 (host_value e)"
  "bf_stores (bf_set_f32n e) 4 (host_octets e 4)"
  using bf_u32n_memory [of e]
  by (simp_all add: bf_ref_f32n_def [abs_def] bf_set_f32n_def [abs_def])

lemma bf_f64n_memory:
  "bf_loads (bf_ref_f64n e) 8 (host_value e)"
  "bf_stores (bf_set_f64n e) 8 (host_octets e 8)"
  using bf_u64n_memory [of e]
  by (simp_all add: bf_ref_f64n_def [abs_def] bf_set_f64n_def [abs_def])

lemma bf_s16b_memory:
  "bf_loads (bf_ref_s16b e) 2 be_value"
  "bf_stores (bf_set_s16b e) 2 (be_octets 2)"
  using bf_u16b_memory [of e]
  by (simp_all add: bf_ref_s16b_def [abs_def] bf_set_s16b_def [abs_def])

lemma bf_s24b_loads: "bf_loads (bf_ref_s24b e) 3 (\<lambda>xs. signed_take_bit 23 (be_value xs))"
  unfolding bf_ref_s24b_def [abs_def]
  by (rule bf_loads_signed [OF bf_u24b_memory(1) take_bit_be_value]) simp_all

lemmas bf_s24b_memory = bf_s24b_loads bf_u24b_memory(2) [folded bf_set_s24b_def [abs_def]]

lemma bf_s32b_memory:
  "bf_loads (bf_ref_s32b e) 4 be_value"
  "bf_stores (bf_set_s32b e) 4 (be_octets 4)"
  using bf_u32b_memory [of e]
  by (simp_all add: bf_ref_s32b_def [abs_def] bf_set_s32b_def [abs_def])

lemma bf_s40b_loads: "bf_loads (bf_ref_s40b e) 5 (\<lambda>xs. signed_take_bit 39 (be_value xs))"
  unfolding bf_ref_s40b_def [abs_def]
  by (rule bf_loads_signed [OF bf_u40b_memory(1) take_bit_be_value]) simp_all

lemmas bf_s40b_memory = bf_s40b_loads bf_u40b_memory(2) [folded bf_set_s40b_def [abs_def]]

lemma bf_s48b_loads: "bf_loads (bf_ref_s48b e) 6 (\<lambda>xs. signed_take_bit 47 (be_value xs))"
  unfolding bf_ref_s48b_def [abs_def]
  by (rule bf_loads_signed [OF bf_u48b_memory(1) take_bit_be_value]) simp_all

lemmas bf_s48b_memory = bf_s48b_loads bf_u48b_memory(2) [folded bf_set_s48b_def [abs_def]]

lemma bf_s56b_loads: "bf_loads (bf_ref_s56b e) 7 (\<lambda>xs. signed_take_bit 55 (be_value xs))"
  unfolding bf_ref_s56b_def [abs_def]
  by (rule bf_loads_signed [OF bf_u56b_memory(1) take_bit_be_value]) simp_all

lemmas bf_s56b_memory = bf_s56b_loads bf_u56b_memory(2) [folded bf_set_s56b_def [abs_def]]

lemma bf_s64b_memory:
  "bf_loads (bf_ref_s64b e) 8 be_value"
  "bf_stores (bf_set_s64b e) 8 (be_octets 8)"
  using bf_u64b_memory [of e]
  by (simp_all add: bf_ref_s64b_def [abs_def] bf_set_s64b_def [abs_def])

lemma bf_f32b_memory:
  "bf_loads (bf_ref_f32b e) 4 be_value"
  "bf_stores (bf_set_f32b e) 4 (be_octets 4)"
  using bf_u32b_memory [of e]
  by (simp_all add: bf_ref_f32b_def [abs_def] bf_set_f32b_def [abs_def])

lemma bf_f64b_memory:
  "bf_loads (bf_ref_f64b e) 8 be_value"
  "bf_stores (bf_set_f64b e) 8 (be_octets 8)"
  using bf_u64b_memory [of e]
  by (simp_all add: bf_ref_f64b_def [abs_def] bf_set_f64b_def [abs_def])

lemma bf_s16l_memory:
  "bf_loads (bf_ref_s16l e) 2 le_value"
  "bf_stores (bf_set_s16l e) 2 (le_octets 2)"
  using bf_u16l_memory [of e]
  by (simp_all add: bf_ref_s16l_def [abs_def] bf_set_s16l_def [abs_def])

lemma bf_s24l_loads: "bf_loads (bf_ref_s24l e) 3 (\<lambda>xs. signed_take_bit 23 (le_value xs))"
  unfolding bf_ref_s24l_def [abs_def]
  by (rule bf_loads_signed [OF bf_u24l_memory(1) take_bit_value]) simp_all

lemmas bf_s24l_memory = bf_s24l_loads bf_u24l_memory(2) [folded bf_set_s24l_def [abs_def]]

lemma bf_s32l_memory:
  "bf_loads (bf_ref_s32l e) 4 le_value"
  "bf_stores (bf_set_s32l e) 4 (le_octets 4)"
  using bf_u32l_memory [of e]
  by (simp_all add: bf_ref_s32l_def [abs_def] bf_set_s32l_def [abs_def])

lemma bf_s40l_loads: "bf_loads (bf_ref_s40l e) 5 (\<lambda>xs. signed_take_bit 39 (le_value xs))"
  unfolding bf_ref_s40l_def [abs_def]
  by (rule bf_loads_signed [OF bf_u40l_memory(1) take_bit_value]) simp_all

lemmas bf_s40l_memory = bf_s40l_loads bf_u40l_memory(2) [folded bf_set_s40l_def [abs_def]]

lemma bf_s48l_loads: "bf_loads (bf_ref_s48l e) 6 (\<lambda>xs. signed_take_bit 47 (le_value xs))"
  unfolding bf_ref_s48l_def [abs_def]
  by (rule bf_loads_signed [OF bf_u48l_memory(1) take_bit_value]) simp_all

lemmas bf_s48l_memory = bf_s48l_loads bf_u48l_memory(2) [folded bf_set_s48l_def [abs_def]]

lemma bf_s56l_loads: "bf_loads (bf_ref_s56l e) 7 (\<lambda>xs. signed_take_bit 55 (le_value xs))"
  unfolding bf_ref_s56l_def [abs_def]
  by (rule bf_loads_signed [OF bf_u56l_memory(1) take_bit_value]) simp_all

lemmas bf_s56l_memory = bf_s56l_loads bf_u56l_memory(2) [folded bf_set_s56l_def [abs_def]]

lemma bf_s64l_memory:
  "bf_loads (bf_ref_s64l e) 8 le_value"
  "bf_stores (bf_set_s64l e) 8 (le_octets 8)"
  using bf_u64l_memory [of e]
  by (simp_all add: bf_ref_s64l_def [abs_def] bf_set_s64l_def [abs_def])

lemma bf_f32l_memory:
  "bf_loads (bf_ref_f32l e) 4 le_value"
  "bf_stores (bf_set_f32l e) 4 (le_octets 4)"
  using bf_u32l_memory [of e]
  by (simp_all add: bf_ref_f32l_def [abs_def] bf_set_f32l_def [abs_def])

lemma bf_f64l_memory:
  "bf_loads (bf_ref_f64l e) 8 le_value"
  "bf_stores (bf_set_f64l e) 8 (le_octets 8)"
  using bf_u64l_memory [of e]
  by (simp_all add: bf_ref_f64l_def [abs_def] bf_set_f64l_def [abs_def])
section \<open>Range tests\<close>

lemma in_range_take_bit:
  fixes v :: "'a::len word"
  assumes "k < LENGTH('a)"
  shows "v < push_bit k 1 \<longleftrightarrow> take_bit k v = v" and "unat (push_bit k 1 :: 'a word) = 2 ^ k"
proof -
  show len: "unat (push_bit k 1 :: 'a word) = 2 ^ k"
    using assms by (simp add: unsigned_push_bit_eq take_bit_nat_eq_self push_bit_eq_mult [of k "1 :: nat"] del: push_bit_of_1)
  have "take_bit k v = v \<longleftrightarrow> take_bit k (unat v) = unat v"
    by (metis unsigned_take_bit_eq unsigned_word_eqI)
  then show "v < push_bit k 1 \<longleftrightarrow> take_bit k v = v"
    by (simp only: word_less_nat_alt len take_bit_nat_eq_self_iff)
qed
lemma sint_power:
  assumes "Suc k < LENGTH('a)"
  shows "sint (push_bit k 1 :: 'a::len word) = 2 ^ k" and "sint (- 1 * (push_bit k 1 :: 'a word)) = - (2 ^ k)"
proof -
  have z: "- (2 ^ (LENGTH('a) - 1)) \<le> (2 :: int) ^ k"
    by (rule order_trans [of _ 0]) simp_all
  have n: "- (2 ^ k) < (2 :: int) ^ (LENGTH('a) - 1)"
    by (rule less_trans [of _ 0]) simp_all
  have k: "(2::int) ^ k < 2 ^ (LENGTH('a) - 1)"
    using assms by (intro power_strict_increasing) auto
  have "push_bit k 1 = (word_of_int (2 ^ k) :: 'a word)" and m: "- 1 * push_bit k 1 = (word_of_int (- (2 ^ k)) :: 'a word)"
    by (simp_all add: push_bit_eq_mult)
  then show "sint (push_bit k 1 :: 'a::len word) = 2 ^ k" 
    using k z by (simp only: sint_sbintrunc' signed_take_bit_int_eq_self_iff)
  show "sint (- 1 * (push_bit k 1 :: 'a word)) = - (2 ^ k)"
    using k n unfolding m by (simp only: sint_sbintrunc' signed_take_bit_int_eq_self_iff neg_le_iff_le less_imp_le)
qed

lemma in_range_signed:
  fixes v :: "'a::len word"
  assumes "Suc k < LENGTH('a)"
  shows "(sint (- 1 * (push_bit k 1 :: 'a word)) \<le> sint v \<and> sint v < sint (push_bit k 1 :: 'a word)) \<longleftrightarrow>
           signed_take_bit k v = v"
proof -
  have bits: "bit (sint v) j \<longleftrightarrow> bit v (min j (LENGTH('a) - 1))" for j
    by (auto simp: bit_sint_iff min_def not_le dest: bit_imp_le_length)
  have "signed_take_bit k (sint v) = sint v \<longleftrightarrow> signed_take_bit k v = v"
  proof
    assume self: "signed_take_bit k (sint v) = sint v"
    show "signed_take_bit k v = v"
    proof (rule bit_word_eqI)
      fix j
      assume j: "j < LENGTH('a)"
      have "bit (signed_take_bit k (sint v)) j \<longleftrightarrow> bit (sint v) j"
        by (simp only: self)
      with j assms show "bit (signed_take_bit k v) j \<longleftrightarrow> bit v j"
        by (auto simp: bit_signed_take_bit_iff bits min_def)
    qed
  next
    assume self: "signed_take_bit k v = v"
    show "signed_take_bit k (sint v) = sint v"
    proof (rule bit_eqI)
      fix j
      have "bit (signed_take_bit k v) i \<longleftrightarrow> bit v i" for i
        by (simp only: self)
      from this [of "min j (LENGTH('a) - 1)"] assms show "bit (signed_take_bit k (sint v)) j \<longleftrightarrow> bit (sint v) j"
        by (auto simp: bit_signed_take_bit_iff bits min_def split: if_splits)
    qed
  qed
  then show ?thesis
    by (simp only: sint_power [OF assms] signed_take_bit_int_eq_self_iff)
qed

lemma fits_24:
  "bf_inrange_u24 v \<longleftrightarrow> take_bit 24 v = v"
  "bf_inrange_s24 v \<longleftrightarrow> signed_take_bit 23 v = v"
  unfolding bf_inrange_u24_def bf_inrange_s24_def Let_def
  by (rule in_range_take_bit(1), simp, rule in_range_signed, simp)

lemma fits_40:
  "bf_inrange_u40 v \<longleftrightarrow> take_bit 40 v = v"
  "bf_inrange_s40 v \<longleftrightarrow> signed_take_bit 39 v = v"
  unfolding bf_inrange_u40_def bf_inrange_s40_def Let_def
  by (rule in_range_take_bit(1), simp, rule in_range_signed, simp)

lemma fits_48:
  "bf_inrange_u48 v \<longleftrightarrow> take_bit 48 v = v"
  "bf_inrange_s48 v \<longleftrightarrow> signed_take_bit 47 v = v"
  unfolding bf_inrange_u48_def bf_inrange_s48_def Let_def
  by (rule in_range_take_bit(1), simp, rule in_range_signed, simp)

lemma fits_56:
  "bf_inrange_u56 v \<longleftrightarrow> take_bit 56 v = v"
  "bf_inrange_s56 v \<longleftrightarrow> signed_take_bit 55 v = v"
  unfolding bf_inrange_u56_def bf_inrange_s56_def Let_def
  by (rule in_range_take_bit(1), simp, rule in_range_signed, simp)

section \<open>Every pair of functions is a codec\<close>

interpretation u16n: datum_codec "bf_ref_u16n e" "bf_set_u16n e" 2 "(host_value e)" "(host_octets e 2)" "(\<lambda>_. True)" for e
  by unfold_locales (rule bf_u16n_memory, rule bf_u16n_memory, simp, simp add: host_value_octets take_bit_word_eq_self)

interpretation s16n: datum_codec "bf_ref_s16n e" "bf_set_s16n e" 2 "(host_value e)" "(host_octets e 2)" "(\<lambda>_. True)" for e
  by unfold_locales (rule bf_s16n_memory, rule bf_s16n_memory, simp, simp add: host_value_octets take_bit_word_eq_self)

interpretation u24n: datum_codec "bf_ref_u24n e" "bf_set_u24n e" 3 "(host_value e)" "(host_octets e 3)" "bf_inrange_u24" for e
  by unfold_locales (rule bf_u24n_memory, rule bf_u24n_memory, simp, simp add: host_value_octets fits_24)

interpretation s24n: datum_codec "bf_ref_s24n e" "bf_set_s24n e" 3 "\<lambda>xs. signed_take_bit 23 ((host_value e) xs)" "(host_octets e 3)" "bf_inrange_s24" for e
  by unfold_locales (rule bf_s24n_memory, rule bf_s24n_memory, simp, simp add: host_value_octets fits_24 signed_octets [of _ 3, simplified])

interpretation u32n: datum_codec "bf_ref_u32n e" "bf_set_u32n e" 4 "(host_value e)" "(host_octets e 4)" "(\<lambda>_. True)" for e
  by unfold_locales (rule bf_u32n_memory, rule bf_u32n_memory, simp, simp add: host_value_octets take_bit_word_eq_self)

interpretation s32n: datum_codec "bf_ref_s32n e" "bf_set_s32n e" 4 "(host_value e)" "(host_octets e 4)" "(\<lambda>_. True)" for e
  by unfold_locales (rule bf_s32n_memory, rule bf_s32n_memory, simp, simp add: host_value_octets take_bit_word_eq_self)

interpretation f32n: datum_codec "bf_ref_f32n e" "bf_set_f32n e" 4 "(host_value e)" "(host_octets e 4)" "(\<lambda>_. True)" for e
  by unfold_locales (rule bf_f32n_memory, rule bf_f32n_memory, simp, simp add: host_value_octets take_bit_word_eq_self)

interpretation u40n: datum_codec "bf_ref_u40n e" "bf_set_u40n e" 5 "(host_value e)" "(host_octets e 5)" "bf_inrange_u40" for e
  by unfold_locales (rule bf_u40n_memory, rule bf_u40n_memory, simp, simp add: host_value_octets fits_40)

interpretation s40n: datum_codec "bf_ref_s40n e" "bf_set_s40n e" 5 "\<lambda>xs. signed_take_bit 39 ((host_value e) xs)" "(host_octets e 5)" "bf_inrange_s40" for e
  by unfold_locales (rule bf_s40n_memory, rule bf_s40n_memory, simp, simp add: host_value_octets fits_40 signed_octets [of _ 5, simplified])

interpretation u48n: datum_codec "bf_ref_u48n e" "bf_set_u48n e" 6 "(host_value e)" "(host_octets e 6)" "bf_inrange_u48" for e
  by unfold_locales (rule bf_u48n_memory, rule bf_u48n_memory, simp, simp add: host_value_octets fits_48)

interpretation s48n: datum_codec "bf_ref_s48n e" "bf_set_s48n e" 6 "\<lambda>xs. signed_take_bit 47 ((host_value e) xs)" "(host_octets e 6)" "bf_inrange_s48" for e
  by unfold_locales (rule bf_s48n_memory, rule bf_s48n_memory, simp, simp add: host_value_octets fits_48 signed_octets [of _ 6, simplified])

interpretation u56n: datum_codec "bf_ref_u56n e" "bf_set_u56n e" 7 "(host_value e)" "(host_octets e 7)" "bf_inrange_u56" for e
  by unfold_locales (rule bf_u56n_memory, rule bf_u56n_memory, simp, simp add: host_value_octets fits_56)

interpretation s56n: datum_codec "bf_ref_s56n e" "bf_set_s56n e" 7 "\<lambda>xs. signed_take_bit 55 ((host_value e) xs)" "(host_octets e 7)" "bf_inrange_s56" for e
  by unfold_locales (rule bf_s56n_memory, rule bf_s56n_memory, simp, simp add: host_value_octets fits_56 signed_octets [of _ 7, simplified])

interpretation u64n: datum_codec "bf_ref_u64n e" "bf_set_u64n e" 8 "(host_value e)" "(host_octets e 8)" "(\<lambda>_. True)" for e
  by unfold_locales (rule bf_u64n_memory, rule bf_u64n_memory, simp, simp add: host_value_octets take_bit_word_eq_self)

interpretation s64n: datum_codec "bf_ref_s64n e" "bf_set_s64n e" 8 "(host_value e)" "(host_octets e 8)" "(\<lambda>_. True)" for e
  by unfold_locales (rule bf_s64n_memory, rule bf_s64n_memory, simp, simp add: host_value_octets take_bit_word_eq_self)

interpretation f64n: datum_codec "bf_ref_f64n e" "bf_set_f64n e" 8 "(host_value e)" "(host_octets e 8)" "(\<lambda>_. True)" for e
  by unfold_locales (rule bf_f64n_memory, rule bf_f64n_memory, simp, simp add: host_value_octets take_bit_word_eq_self)

interpretation u16b: datum_codec "bf_ref_u16b e" "bf_set_u16b e" 2 "be_value" "(be_octets 2)" "(\<lambda>_. True)" for e
  by unfold_locales (rule bf_u16b_memory, rule bf_u16b_memory, simp, simp add: be_value_octets take_bit_word_eq_self)

interpretation s16b: datum_codec "bf_ref_s16b e" "bf_set_s16b e" 2 "be_value" "(be_octets 2)" "(\<lambda>_. True)" for e
  by unfold_locales (rule bf_s16b_memory, rule bf_s16b_memory, simp, simp add: be_value_octets take_bit_word_eq_self)

interpretation u24b: datum_codec "bf_ref_u24b e" "bf_set_u24b e" 3 "be_value" "(be_octets 3)" "bf_inrange_u24" for e
  by unfold_locales (rule bf_u24b_memory, rule bf_u24b_memory, simp, simp add: be_value_octets fits_24)

interpretation s24b: datum_codec "bf_ref_s24b e" "bf_set_s24b e" 3 "\<lambda>xs. signed_take_bit 23 (be_value xs)" "(be_octets 3)" "bf_inrange_s24" for e
  by unfold_locales (rule bf_s24b_memory, rule bf_s24b_memory, simp, simp add: be_value_octets fits_24 signed_octets [of _ 3, simplified])

interpretation u32b: datum_codec "bf_ref_u32b e" "bf_set_u32b e" 4 "be_value" "(be_octets 4)" "(\<lambda>_. True)" for e
  by unfold_locales (rule bf_u32b_memory, rule bf_u32b_memory, simp, simp add: be_value_octets take_bit_word_eq_self)

interpretation s32b: datum_codec "bf_ref_s32b e" "bf_set_s32b e" 4 "be_value" "(be_octets 4)" "(\<lambda>_. True)" for e
  by unfold_locales (rule bf_s32b_memory, rule bf_s32b_memory, simp, simp add: be_value_octets take_bit_word_eq_self)

interpretation f32b: datum_codec "bf_ref_f32b e" "bf_set_f32b e" 4 "be_value" "(be_octets 4)" "(\<lambda>_. True)" for e
  by unfold_locales (rule bf_f32b_memory, rule bf_f32b_memory, simp, simp add: be_value_octets take_bit_word_eq_self)

interpretation u40b: datum_codec "bf_ref_u40b e" "bf_set_u40b e" 5 "be_value" "(be_octets 5)" "bf_inrange_u40" for e
  by unfold_locales (rule bf_u40b_memory, rule bf_u40b_memory, simp, simp add: be_value_octets fits_40)

interpretation s40b: datum_codec "bf_ref_s40b e" "bf_set_s40b e" 5 "\<lambda>xs. signed_take_bit 39 (be_value xs)" "(be_octets 5)" "bf_inrange_s40" for e
  by unfold_locales (rule bf_s40b_memory, rule bf_s40b_memory, simp, simp add: be_value_octets fits_40 signed_octets [of _ 5, simplified])

interpretation u48b: datum_codec "bf_ref_u48b e" "bf_set_u48b e" 6 "be_value" "(be_octets 6)" "bf_inrange_u48" for e
  by unfold_locales (rule bf_u48b_memory, rule bf_u48b_memory, simp, simp add: be_value_octets fits_48)

interpretation s48b: datum_codec "bf_ref_s48b e" "bf_set_s48b e" 6 "\<lambda>xs. signed_take_bit 47 (be_value xs)" "(be_octets 6)" "bf_inrange_s48" for e
  by unfold_locales (rule bf_s48b_memory, rule bf_s48b_memory, simp, simp add: be_value_octets fits_48 signed_octets [of _ 6, simplified])

interpretation u56b: datum_codec "bf_ref_u56b e" "bf_set_u56b e" 7 "be_value" "(be_octets 7)" "bf_inrange_u56" for e
  by unfold_locales (rule bf_u56b_memory, rule bf_u56b_memory, simp, simp add: be_value_octets fits_56)

interpretation s56b: datum_codec "bf_ref_s56b e" "bf_set_s56b e" 7 "\<lambda>xs. signed_take_bit 55 (be_value xs)" "(be_octets 7)" "bf_inrange_s56" for e
  by unfold_locales (rule bf_s56b_memory, rule bf_s56b_memory, simp, simp add: be_value_octets fits_56 signed_octets [of _ 7, simplified])

interpretation u64b: datum_codec "bf_ref_u64b e" "bf_set_u64b e" 8 "be_value" "(be_octets 8)" "(\<lambda>_. True)" for e
  by unfold_locales (rule bf_u64b_memory, rule bf_u64b_memory, simp, simp add: be_value_octets take_bit_word_eq_self)

interpretation s64b: datum_codec "bf_ref_s64b e" "bf_set_s64b e" 8 "be_value" "(be_octets 8)" "(\<lambda>_. True)" for e
  by unfold_locales (rule bf_s64b_memory, rule bf_s64b_memory, simp, simp add: be_value_octets take_bit_word_eq_self)

interpretation f64b: datum_codec "bf_ref_f64b e" "bf_set_f64b e" 8 "be_value" "(be_octets 8)" "(\<lambda>_. True)" for e
  by unfold_locales (rule bf_f64b_memory, rule bf_f64b_memory, simp, simp add: be_value_octets take_bit_word_eq_self)

interpretation u16l: datum_codec "bf_ref_u16l e" "bf_set_u16l e" 2 "le_value" "(le_octets 2)" "(\<lambda>_. True)" for e
  by unfold_locales (rule bf_u16l_memory, rule bf_u16l_memory, simp, simp add: le_value_octets take_bit_word_eq_self)

interpretation s16l: datum_codec "bf_ref_s16l e" "bf_set_s16l e" 2 "le_value" "(le_octets 2)" "(\<lambda>_. True)" for e
  by unfold_locales (rule bf_s16l_memory, rule bf_s16l_memory, simp, simp add: le_value_octets take_bit_word_eq_self)

interpretation u24l: datum_codec "bf_ref_u24l e" "bf_set_u24l e" 3 "le_value" "(le_octets 3)" "bf_inrange_u24" for e
  by unfold_locales (rule bf_u24l_memory, rule bf_u24l_memory, simp, simp add: le_value_octets fits_24)

interpretation s24l: datum_codec "bf_ref_s24l e" "bf_set_s24l e" 3 "\<lambda>xs. signed_take_bit 23 (le_value xs)" "(le_octets 3)" "bf_inrange_s24" for e
  by unfold_locales (rule bf_s24l_memory, rule bf_s24l_memory, simp, simp add: le_value_octets fits_24 signed_octets [of _ 3, simplified])

interpretation u32l: datum_codec "bf_ref_u32l e" "bf_set_u32l e" 4 "le_value" "(le_octets 4)" "(\<lambda>_. True)" for e
  by unfold_locales (rule bf_u32l_memory, rule bf_u32l_memory, simp, simp add: le_value_octets take_bit_word_eq_self)

interpretation s32l: datum_codec "bf_ref_s32l e" "bf_set_s32l e" 4 "le_value" "(le_octets 4)" "(\<lambda>_. True)" for e
  by unfold_locales (rule bf_s32l_memory, rule bf_s32l_memory, simp, simp add: le_value_octets take_bit_word_eq_self)

interpretation f32l: datum_codec "bf_ref_f32l e" "bf_set_f32l e" 4 "le_value" "(le_octets 4)" "(\<lambda>_. True)" for e
  by unfold_locales (rule bf_f32l_memory, rule bf_f32l_memory, simp, simp add: le_value_octets take_bit_word_eq_self)

interpretation u40l: datum_codec "bf_ref_u40l e" "bf_set_u40l e" 5 "le_value" "(le_octets 5)" "bf_inrange_u40" for e
  by unfold_locales (rule bf_u40l_memory, rule bf_u40l_memory, simp, simp add: le_value_octets fits_40)

interpretation s40l: datum_codec "bf_ref_s40l e" "bf_set_s40l e" 5 "\<lambda>xs. signed_take_bit 39 (le_value xs)" "(le_octets 5)" "bf_inrange_s40" for e
  by unfold_locales (rule bf_s40l_memory, rule bf_s40l_memory, simp, simp add: le_value_octets fits_40 signed_octets [of _ 5, simplified])

interpretation u48l: datum_codec "bf_ref_u48l e" "bf_set_u48l e" 6 "le_value" "(le_octets 6)" "bf_inrange_u48" for e
  by unfold_locales (rule bf_u48l_memory, rule bf_u48l_memory, simp, simp add: le_value_octets fits_48)

interpretation s48l: datum_codec "bf_ref_s48l e" "bf_set_s48l e" 6 "\<lambda>xs. signed_take_bit 47 (le_value xs)" "(le_octets 6)" "bf_inrange_s48" for e
  by unfold_locales (rule bf_s48l_memory, rule bf_s48l_memory, simp, simp add: le_value_octets fits_48 signed_octets [of _ 6, simplified])

interpretation u56l: datum_codec "bf_ref_u56l e" "bf_set_u56l e" 7 "le_value" "(le_octets 7)" "bf_inrange_u56" for e
  by unfold_locales (rule bf_u56l_memory, rule bf_u56l_memory, simp, simp add: le_value_octets fits_56)

interpretation s56l: datum_codec "bf_ref_s56l e" "bf_set_s56l e" 7 "\<lambda>xs. signed_take_bit 55 (le_value xs)" "(le_octets 7)" "bf_inrange_s56" for e
  by unfold_locales (rule bf_s56l_memory, rule bf_s56l_memory, simp, simp add: le_value_octets fits_56 signed_octets [of _ 7, simplified])

interpretation u64l: datum_codec "bf_ref_u64l e" "bf_set_u64l e" 8 "le_value" "(le_octets 8)" "(\<lambda>_. True)" for e
  by unfold_locales (rule bf_u64l_memory, rule bf_u64l_memory, simp, simp add: le_value_octets take_bit_word_eq_self)

interpretation s64l: datum_codec "bf_ref_s64l e" "bf_set_s64l e" 8 "le_value" "(le_octets 8)" "(\<lambda>_. True)" for e
  by unfold_locales (rule bf_s64l_memory, rule bf_s64l_memory, simp, simp add: le_value_octets take_bit_word_eq_self)

interpretation f64l: datum_codec "bf_ref_f64l e" "bf_set_f64l e" 8 "le_value" "(le_octets 8)" "(\<lambda>_. True)" for e
  by unfold_locales (rule bf_f64l_memory, rule bf_f64l_memory, simp, simp add: le_value_octets take_bit_word_eq_self)

section \<open>Properties\<close>

text \<open>C25. What is stored is read back, for every one of the forty-eight pairs of functions and on both kinds of
  machine: any number of data stored one behind the other, each at the pointer the last call returned, are
  all read back, and no octet outside of their range changes. The values are all of the type for the full
  widths, and the ones the range tests admit for 24, 40, 48 and 56 bits.\<close>

theorem bf_roundtrip:
  "codec_roundtrip (bf_ref_u16n e) (bf_set_u16n e) 2 (\<lambda>_. True) \<and>
   codec_roundtrip (bf_ref_s16n e) (bf_set_s16n e) 2 (\<lambda>_. True) \<and>
   codec_roundtrip (bf_ref_u24n e) (bf_set_u24n e) 3 bf_inrange_u24 \<and>
   codec_roundtrip (bf_ref_s24n e) (bf_set_s24n e) 3 bf_inrange_s24 \<and>
   codec_roundtrip (bf_ref_u32n e) (bf_set_u32n e) 4 (\<lambda>_. True) \<and>
   codec_roundtrip (bf_ref_s32n e) (bf_set_s32n e) 4 (\<lambda>_. True) \<and>
   codec_roundtrip (bf_ref_f32n e) (bf_set_f32n e) 4 (\<lambda>_. True) \<and>
   codec_roundtrip (bf_ref_u40n e) (bf_set_u40n e) 5 bf_inrange_u40 \<and>
   codec_roundtrip (bf_ref_s40n e) (bf_set_s40n e) 5 bf_inrange_s40 \<and>
   codec_roundtrip (bf_ref_u48n e) (bf_set_u48n e) 6 bf_inrange_u48 \<and>
   codec_roundtrip (bf_ref_s48n e) (bf_set_s48n e) 6 bf_inrange_s48 \<and>
   codec_roundtrip (bf_ref_u56n e) (bf_set_u56n e) 7 bf_inrange_u56 \<and>
   codec_roundtrip (bf_ref_s56n e) (bf_set_s56n e) 7 bf_inrange_s56 \<and>
   codec_roundtrip (bf_ref_u64n e) (bf_set_u64n e) 8 (\<lambda>_. True) \<and>
   codec_roundtrip (bf_ref_s64n e) (bf_set_s64n e) 8 (\<lambda>_. True) \<and>
   codec_roundtrip (bf_ref_f64n e) (bf_set_f64n e) 8 (\<lambda>_. True) \<and>
   codec_roundtrip (bf_ref_u16b e) (bf_set_u16b e) 2 (\<lambda>_. True) \<and>
   codec_roundtrip (bf_ref_s16b e) (bf_set_s16b e) 2 (\<lambda>_. True) \<and>
   codec_roundtrip (bf_ref_u24b e) (bf_set_u24b e) 3 bf_inrange_u24 \<and>
   codec_roundtrip (bf_ref_s24b e) (bf_set_s24b e) 3 bf_inrange_s24 \<and>
   codec_roundtrip (bf_ref_u32b e) (bf_set_u32b e) 4 (\<lambda>_. True) \<and>
   codec_roundtrip (bf_ref_s32b e) (bf_set_s32b e) 4 (\<lambda>_. True) \<and>
   codec_roundtrip (bf_ref_f32b e) (bf_set_f32b e) 4 (\<lambda>_. True) \<and>
   codec_roundtrip (bf_ref_u40b e) (bf_set_u40b e) 5 bf_inrange_u40 \<and>
   codec_roundtrip (bf_ref_s40b e) (bf_set_s40b e) 5 bf_inrange_s40 \<and>
   codec_roundtrip (bf_ref_u48b e) (bf_set_u48b e) 6 bf_inrange_u48 \<and>
   codec_roundtrip (bf_ref_s48b e) (bf_set_s48b e) 6 bf_inrange_s48 \<and>
   codec_roundtrip (bf_ref_u56b e) (bf_set_u56b e) 7 bf_inrange_u56 \<and>
   codec_roundtrip (bf_ref_s56b e) (bf_set_s56b e) 7 bf_inrange_s56 \<and>
   codec_roundtrip (bf_ref_u64b e) (bf_set_u64b e) 8 (\<lambda>_. True) \<and>
   codec_roundtrip (bf_ref_s64b e) (bf_set_s64b e) 8 (\<lambda>_. True) \<and>
   codec_roundtrip (bf_ref_f64b e) (bf_set_f64b e) 8 (\<lambda>_. True) \<and>
   codec_roundtrip (bf_ref_u16l e) (bf_set_u16l e) 2 (\<lambda>_. True) \<and>
   codec_roundtrip (bf_ref_s16l e) (bf_set_s16l e) 2 (\<lambda>_. True) \<and>
   codec_roundtrip (bf_ref_u24l e) (bf_set_u24l e) 3 bf_inrange_u24 \<and>
   codec_roundtrip (bf_ref_s24l e) (bf_set_s24l e) 3 bf_inrange_s24 \<and>
   codec_roundtrip (bf_ref_u32l e) (bf_set_u32l e) 4 (\<lambda>_. True) \<and>
   codec_roundtrip (bf_ref_s32l e) (bf_set_s32l e) 4 (\<lambda>_. True) \<and>
   codec_roundtrip (bf_ref_f32l e) (bf_set_f32l e) 4 (\<lambda>_. True) \<and>
   codec_roundtrip (bf_ref_u40l e) (bf_set_u40l e) 5 bf_inrange_u40 \<and>
   codec_roundtrip (bf_ref_s40l e) (bf_set_s40l e) 5 bf_inrange_s40 \<and>
   codec_roundtrip (bf_ref_u48l e) (bf_set_u48l e) 6 bf_inrange_u48 \<and>
   codec_roundtrip (bf_ref_s48l e) (bf_set_s48l e) 6 bf_inrange_s48 \<and>
   codec_roundtrip (bf_ref_u56l e) (bf_set_u56l e) 7 bf_inrange_u56 \<and>
   codec_roundtrip (bf_ref_s56l e) (bf_set_s56l e) 7 bf_inrange_s56 \<and>
   codec_roundtrip (bf_ref_u64l e) (bf_set_u64l e) 8 (\<lambda>_. True) \<and>
   codec_roundtrip (bf_ref_s64l e) (bf_set_s64l e) 8 (\<lambda>_. True) \<and>
   codec_roundtrip (bf_ref_f64l e) (bf_set_f64l e) 8 (\<lambda>_. True)"
  by (intro conjI u16n.roundtrip s16n.roundtrip u24n.roundtrip s24n.roundtrip u32n.roundtrip s32n.roundtrip f32n.roundtrip u40n.roundtrip s40n.roundtrip u48n.roundtrip s48n.roundtrip u56n.roundtrip s56n.roundtrip u64n.roundtrip s64n.roundtrip f64n.roundtrip u16b.roundtrip s16b.roundtrip u24b.roundtrip s24b.roundtrip u32b.roundtrip s32b.roundtrip f32b.roundtrip u40b.roundtrip s40b.roundtrip u48b.roundtrip s48b.roundtrip u56b.roundtrip s56b.roundtrip u64b.roundtrip s64b.roundtrip f64b.roundtrip u16l.roundtrip s16l.roundtrip u24l.roundtrip s24l.roundtrip u32l.roundtrip s32l.roundtrip f32l.roundtrip u40l.roundtrip s40l.roundtrip u48l.roundtrip s48l.roundtrip u56l.roundtrip s56l.roundtrip u64l.roundtrip s64l.roundtrip f64l.roundtrip)

text \<open>The order of the octets in memory is the one the name promises and, for the big and little endian
  functions, does not depend on the machine; reading interprets the octets in the same order; accesses that
  do not fit into the memory object are the undefined ones.\<close>

theorem bf_octet_order:
  "bf_loads (bf_ref_u16n e) 2 (host_value e) \<and>
   bf_stores (bf_set_u16n e) 2 (host_octets e 2) \<and>
   bf_loads (bf_ref_u24n e) 3 (host_value e) \<and>
   bf_stores (bf_set_u24n e) 3 (host_octets e 3) \<and>
   bf_loads (bf_ref_u32n e) 4 (host_value e) \<and>
   bf_stores (bf_set_u32n e) 4 (host_octets e 4) \<and>
   bf_loads (bf_ref_u40n e) 5 (host_value e) \<and>
   bf_stores (bf_set_u40n e) 5 (host_octets e 5) \<and>
   bf_loads (bf_ref_u48n e) 6 (host_value e) \<and>
   bf_stores (bf_set_u48n e) 6 (host_octets e 6) \<and>
   bf_loads (bf_ref_u56n e) 7 (host_value e) \<and>
   bf_stores (bf_set_u56n e) 7 (host_octets e 7) \<and>
   bf_loads (bf_ref_u64n e) 8 (host_value e) \<and>
   bf_stores (bf_set_u64n e) 8 (host_octets e 8) \<and>
   bf_loads (bf_ref_u16b e) 2 be_value \<and>
   bf_stores (bf_set_u16b e) 2 (be_octets 2) \<and>
   bf_loads (bf_ref_u24b e) 3 be_value \<and>
   bf_stores (bf_set_u24b e) 3 (be_octets 3) \<and>
   bf_loads (bf_ref_u32b e) 4 be_value \<and>
   bf_stores (bf_set_u32b e) 4 (be_octets 4) \<and>
   bf_loads (bf_ref_u40b e) 5 be_value \<and>
   bf_stores (bf_set_u40b e) 5 (be_octets 5) \<and>
   bf_loads (bf_ref_u48b e) 6 be_value \<and>
   bf_stores (bf_set_u48b e) 6 (be_octets 6) \<and>
   bf_loads (bf_ref_u56b e) 7 be_value \<and>
   bf_stores (bf_set_u56b e) 7 (be_octets 7) \<and>
   bf_loads (bf_ref_u64b e) 8 be_value \<and>
   bf_stores (bf_set_u64b e) 8 (be_octets 8) \<and>
   bf_loads (bf_ref_u16l e) 2 le_value \<and>
   bf_stores (bf_set_u16l e) 2 (le_octets 2) \<and>
   bf_loads (bf_ref_u24l e) 3 le_value \<and>
   bf_stores (bf_set_u24l e) 3 (le_octets 3) \<and>
   bf_loads (bf_ref_u32l e) 4 le_value \<and>
   bf_stores (bf_set_u32l e) 4 (le_octets 4) \<and>
   bf_loads (bf_ref_u40l e) 5 le_value \<and>
   bf_stores (bf_set_u40l e) 5 (le_octets 5) \<and>
   bf_loads (bf_ref_u48l e) 6 le_value \<and>
   bf_stores (bf_set_u48l e) 6 (le_octets 6) \<and>
   bf_loads (bf_ref_u56l e) 7 le_value \<and>
   bf_stores (bf_set_u56l e) 7 (le_octets 7) \<and>
   bf_loads (bf_ref_u64l e) 8 le_value \<and>
   bf_stores (bf_set_u64l e) 8 (le_octets 8)"
  by (intro conjI bf_u16n_memory(1) bf_u16n_memory(2) bf_u24n_memory(1) bf_u24n_memory(2) bf_u32n_memory(1) bf_u32n_memory(2) bf_u40n_memory(1) bf_u40n_memory(2) bf_u48n_memory(1) bf_u48n_memory(2) bf_u56n_memory(1) bf_u56n_memory(2) bf_u64n_memory(1) bf_u64n_memory(2) bf_u16b_memory(1) bf_u16b_memory(2) bf_u24b_memory(1) bf_u24b_memory(2) bf_u32b_memory(1) bf_u32b_memory(2) bf_u40b_memory(1) bf_u40b_memory(2) bf_u48b_memory(1) bf_u48b_memory(2) bf_u56b_memory(1) bf_u56b_memory(2) bf_u64b_memory(1) bf_u64b_memory(2) bf_u16l_memory(1) bf_u16l_memory(2) bf_u24l_memory(1) bf_u24l_memory(2) bf_u32l_memory(1) bf_u32l_memory(2) bf_u40l_memory(1) bf_u40l_memory(2) bf_u48l_memory(1) bf_u48l_memory(2) bf_u56l_memory(1) bf_u56l_memory(2) bf_u64l_memory(1) bf_u64l_memory(2))

text \<open>The range tests are exact, and what the functions for 24, 40, 48 and 56 bits read always passes
  them: signed data are extended to the width of their type.\<close>

lemma in_range_24:
  "bf_inrange_u24 u \<longleftrightarrow> unat u < 2 ^ 24"
  "bf_inrange_s24 s \<longleftrightarrow> - (2 ^ 23) \<le> sint s \<and> sint s < 2 ^ 23"
  unfolding bf_inrange_u24_def bf_inrange_s24_def Let_def
  using sint_power [of 23, where 'a = 32] in_range_take_bit(2) [of 24, where 'a = 32]
  by (simp_all only: word_less_nat_alt) simp_all

lemma read_in_range_24n:
  "pred_option bf_inrange_u24 (bf_ref_u24n e m ptr)"
  "pred_option bf_inrange_s24 (bf_ref_s24n e m ptr)"
  by (simp_all add: u24n.ref_eq s24n.ref_eq fits_24 take_bit_host_value [of _ 3, simplified])

lemma read_in_range_24b:
  "pred_option bf_inrange_u24 (bf_ref_u24b e m ptr)"
  "pred_option bf_inrange_s24 (bf_ref_s24b e m ptr)"
  by (simp_all add: u24b.ref_eq s24b.ref_eq fits_24 take_bit_be_value [of _ 3, simplified])

lemma read_in_range_24l:
  "pred_option bf_inrange_u24 (bf_ref_u24l e m ptr)"
  "pred_option bf_inrange_s24 (bf_ref_s24l e m ptr)"
  by (simp_all add: u24l.ref_eq s24l.ref_eq fits_24 take_bit_value [of _ 3, simplified])

lemma in_range_40:
  "bf_inrange_u40 u \<longleftrightarrow> unat u < 2 ^ 40"
  "bf_inrange_s40 s \<longleftrightarrow> - (2 ^ 39) \<le> sint s \<and> sint s < 2 ^ 39"
  unfolding bf_inrange_u40_def bf_inrange_s40_def Let_def
  using sint_power [of 39, where 'a = 64] in_range_take_bit(2) [of 40, where 'a = 64]
  by (simp_all only: word_less_nat_alt) simp_all

lemma read_in_range_40n:
  "pred_option bf_inrange_u40 (bf_ref_u40n e m ptr)"
  "pred_option bf_inrange_s40 (bf_ref_s40n e m ptr)"
  by (simp_all add: u40n.ref_eq s40n.ref_eq fits_40 take_bit_host_value [of _ 5, simplified])

lemma read_in_range_40b:
  "pred_option bf_inrange_u40 (bf_ref_u40b e m ptr)"
  "pred_option bf_inrange_s40 (bf_ref_s40b e m ptr)"
  by (simp_all add: u40b.ref_eq s40b.ref_eq fits_40 take_bit_be_value [of _ 5, simplified])

lemma read_in_range_40l:
  "pred_option bf_inrange_u40 (bf_ref_u40l e m ptr)"
  "pred_option bf_inrange_s40 (bf_ref_s40l e m ptr)"
  by (simp_all add: u40l.ref_eq s40l.ref_eq fits_40 take_bit_value [of _ 5, simplified])

lemma in_range_48:
  "bf_inrange_u48 u \<longleftrightarrow> unat u < 2 ^ 48"
  "bf_inrange_s48 s \<longleftrightarrow> - (2 ^ 47) \<le> sint s \<and> sint s < 2 ^ 47"
  unfolding bf_inrange_u48_def bf_inrange_s48_def Let_def
  using sint_power [of 47, where 'a = 64] in_range_take_bit(2) [of 48, where 'a = 64]
  by (simp_all only: word_less_nat_alt) simp_all

lemma read_in_range_48n:
  "pred_option bf_inrange_u48 (bf_ref_u48n e m ptr)"
  "pred_option bf_inrange_s48 (bf_ref_s48n e m ptr)"
  by (simp_all add: u48n.ref_eq s48n.ref_eq fits_48 take_bit_host_value [of _ 6, simplified])

lemma read_in_range_48b:
  "pred_option bf_inrange_u48 (bf_ref_u48b e m ptr)"
  "pred_option bf_inrange_s48 (bf_ref_s48b e m ptr)"
  by (simp_all add: u48b.ref_eq s48b.ref_eq fits_48 take_bit_be_value [of _ 6, simplified])

lemma read_in_range_48l:
  "pred_option bf_inrange_u48 (bf_ref_u48l e m ptr)"
  "pred_option bf_inrange_s48 (bf_ref_s48l e m ptr)"
  by (simp_all add: u48l.ref_eq s48l.ref_eq fits_48 take_bit_value [of _ 6, simplified])

lemma in_range_56:
  "bf_inrange_u56 u \<longleftrightarrow> unat u < 2 ^ 56"
  "bf_inrange_s56 s \<longleftrightarrow> - (2 ^ 55) \<le> sint s \<and> sint s < 2 ^ 55"
  unfolding bf_inrange_u56_def bf_inrange_s56_def Let_def
  using sint_power [of 55, where 'a = 64] in_range_take_bit(2) [of 56, where 'a = 64]
  by (simp_all only: word_less_nat_alt) simp_all

lemma read_in_range_56n:
  "pred_option bf_inrange_u56 (bf_ref_u56n e m ptr)"
  "pred_option bf_inrange_s56 (bf_ref_s56n e m ptr)"
  by (simp_all add: u56n.ref_eq s56n.ref_eq fits_56 take_bit_host_value [of _ 7, simplified])

lemma read_in_range_56b:
  "pred_option bf_inrange_u56 (bf_ref_u56b e m ptr)"
  "pred_option bf_inrange_s56 (bf_ref_s56b e m ptr)"
  by (simp_all add: u56b.ref_eq s56b.ref_eq fits_56 take_bit_be_value [of _ 7, simplified])

lemma read_in_range_56l:
  "pred_option bf_inrange_u56 (bf_ref_u56l e m ptr)"
  "pred_option bf_inrange_s56 (bf_ref_s56l e m ptr)"
  by (simp_all add: u56l.ref_eq s56l.ref_eq fits_56 take_bit_value [of _ 7, simplified])

theorem bf_range_tests:
  "(bf_inrange_u24 u24 \<longleftrightarrow> unat u24 < 2 ^ 24) \<and>
   (bf_inrange_s24 s24 \<longleftrightarrow> - (2 ^ 23) \<le> sint s24 \<and> sint s24 < 2 ^ 23) \<and>
   pred_option bf_inrange_u24 (bf_ref_u24n e m ptr) \<and>
   pred_option bf_inrange_s24 (bf_ref_s24n e m ptr) \<and>
   pred_option bf_inrange_u24 (bf_ref_u24b e m ptr) \<and>
   pred_option bf_inrange_s24 (bf_ref_s24b e m ptr) \<and>
   pred_option bf_inrange_u24 (bf_ref_u24l e m ptr) \<and>
   pred_option bf_inrange_s24 (bf_ref_s24l e m ptr) \<and>
   (bf_inrange_u40 u40 \<longleftrightarrow> unat u40 < 2 ^ 40) \<and>
   (bf_inrange_s40 s40 \<longleftrightarrow> - (2 ^ 39) \<le> sint s40 \<and> sint s40 < 2 ^ 39) \<and>
   pred_option bf_inrange_u40 (bf_ref_u40n e m ptr) \<and>
   pred_option bf_inrange_s40 (bf_ref_s40n e m ptr) \<and>
   pred_option bf_inrange_u40 (bf_ref_u40b e m ptr) \<and>
   pred_option bf_inrange_s40 (bf_ref_s40b e m ptr) \<and>
   pred_option bf_inrange_u40 (bf_ref_u40l e m ptr) \<and>
   pred_option bf_inrange_s40 (bf_ref_s40l e m ptr) \<and>
   (bf_inrange_u48 u48 \<longleftrightarrow> unat u48 < 2 ^ 48) \<and>
   (bf_inrange_s48 s48 \<longleftrightarrow> - (2 ^ 47) \<le> sint s48 \<and> sint s48 < 2 ^ 47) \<and>
   pred_option bf_inrange_u48 (bf_ref_u48n e m ptr) \<and>
   pred_option bf_inrange_s48 (bf_ref_s48n e m ptr) \<and>
   pred_option bf_inrange_u48 (bf_ref_u48b e m ptr) \<and>
   pred_option bf_inrange_s48 (bf_ref_s48b e m ptr) \<and>
   pred_option bf_inrange_u48 (bf_ref_u48l e m ptr) \<and>
   pred_option bf_inrange_s48 (bf_ref_s48l e m ptr) \<and>
   (bf_inrange_u56 u56 \<longleftrightarrow> unat u56 < 2 ^ 56) \<and>
   (bf_inrange_s56 s56 \<longleftrightarrow> - (2 ^ 55) \<le> sint s56 \<and> sint s56 < 2 ^ 55) \<and>
   pred_option bf_inrange_u56 (bf_ref_u56n e m ptr) \<and>
   pred_option bf_inrange_s56 (bf_ref_s56n e m ptr) \<and>
   pred_option bf_inrange_u56 (bf_ref_u56b e m ptr) \<and>
   pred_option bf_inrange_s56 (bf_ref_s56b e m ptr) \<and>
   pred_option bf_inrange_u56 (bf_ref_u56l e m ptr) \<and>
   pred_option bf_inrange_s56 (bf_ref_s56l e m ptr)"
  by (intro conjI in_range_24 in_range_40 in_range_48 in_range_56
      read_in_range_24n read_in_range_24b read_in_range_24l read_in_range_40n read_in_range_40b read_in_range_40l read_in_range_48n read_in_range_48b read_in_range_48l read_in_range_56n read_in_range_56b read_in_range_56l)

lemma reverses_twice:
  assumes "reverses n swap" and "8 * n \<le> LENGTH('a)"
  shows "swap (swap w) = (take_bit (8 * n) w :: 'a::len word)"
  using assms reverses_octets [OF assms, of w] by (simp add: reverses_def be_octets_def le_value_octets)

text \<open>Swapping reverses the octets of the datum and drops what is above them; doing it twice restores it.\<close>

theorem bf_swap_reverses:
  "le_octets 2 (bf_swap16 w16) = rev (le_octets 2 w16) \<and>
   bf_swap16 (bf_swap16 w16) = w16 \<and>
   le_octets 3 (bf_swap24 w24) = rev (le_octets 3 w24) \<and>
   bf_swap24 (bf_swap24 w24) = take_bit 24 w24 \<and>
   le_octets 4 (bf_swap32 w32) = rev (le_octets 4 w32) \<and>
   bf_swap32 (bf_swap32 w32) = w32 \<and>
   le_octets 5 (bf_swap40 w40) = rev (le_octets 5 w40) \<and>
   bf_swap40 (bf_swap40 w40) = take_bit 40 w40 \<and>
   le_octets 6 (bf_swap48 w48) = rev (le_octets 6 w48) \<and>
   bf_swap48 (bf_swap48 w48) = take_bit 48 w48 \<and>
   le_octets 7 (bf_swap56 w56) = rev (le_octets 7 w56) \<and>
   bf_swap56 (bf_swap56 w56) = take_bit 56 w56 \<and>
   le_octets 8 (bf_swap64 w64) = rev (le_octets 8 w64) \<and>
   bf_swap64 (bf_swap64 w64) = w64"
  using reverses_octets [OF swap16_reverses, of w16]
    reverses_octets [OF swap24_reverses, of w24]
    reverses_octets [OF swap32_reverses, of w32]
    reverses_octets [OF swap40_reverses, of w40]
    reverses_octets [OF swap48_reverses, of w48]
    reverses_octets [OF swap56_reverses, of w56]
    reverses_octets [OF swap64_reverses, of w64]
    reverses_twice [OF swap16_reverses, of w16]
    reverses_twice [OF swap24_reverses, of w24]
    reverses_twice [OF swap32_reverses, of w32]
    reverses_twice [OF swap40_reverses, of w40]
    reverses_twice [OF swap48_reverses, of w48]
    reverses_twice [OF swap56_reverses, of w56]
    reverses_twice [OF swap64_reverses, of w64]
  by (simp_all add: be_octets_def take_bit_word_eq_self)

end
