(* ===== verification/Length_Prefix.thy ===== *)
theory Length_Prefix
  imports Varint Binary_Format
begin

text \<open>
  Length prefix framing: \<^verbatim>\<open>src/length-prefix.c\<close> and \<^verbatim>\<open>include/ufw/length-prefix.h\<close>. A frame is the number
  of octets of its payload, as a variable length integer or as an unsigned integer of one, two or four
  octets, and the payload. \<open>e\<close> is the octet order of the machine. A pointer argument is a memory object and
  an offset into it; NULL is the object \<open>[]\<close>, which allows no access.

  The lemmas give the octets of the prefix, show that frames are received as they were sent, one by one, and
  what happens to payloads that are too long for the prefix or for the receiver.
\<close>

section \<open>State\<close>

datatype LengthPrefixKind =
    LENP_VARIABLE | LENP_OCTET | LENP_LE_16BIT | LENP_LE_32BIT | LENP_BE_16BIT | LENP_BE_32BIT

record LengthPrefixBuffer =
  lpb_mem :: "u8 list"
  lpb_prefix :: ByteBuffer
  lpb_payload :: ByteBuffer

record LengthPrefixChunks =
  lpc_mem :: "u8 list"
  lpc_prefix :: ByteBuffer
  lpc_payload :: ByteChunks

text \<open>The table of parsers and generators. The constructors are the members of the union.\<close>

datatype flenp_cb =
    Cb_null
  | Cb_u8 "u8 list \<Rightarrow> nat \<Rightarrow> u8 option" "u8 list \<Rightarrow> nat \<Rightarrow> u8 \<Rightarrow> (nat \<times> u8 list) option"
  | Cb_u16 "u8 list \<Rightarrow> nat \<Rightarrow> u16 option" "u8 list \<Rightarrow> nat \<Rightarrow> u16 \<Rightarrow> (nat \<times> u8 list) option"
  | Cb_u32 "u8 list \<Rightarrow> nat \<Rightarrow> u32 option" "u8 list \<Rightarrow> nat \<Rightarrow> u32 \<Rightarrow> (nat \<times> u8 list) option"

record flenp_serdes =
  fs_size :: nat
  fs_cb :: flenp_cb
  fs_maximum :: nat

definition ref_u8 :: "u8 list \<Rightarrow> nat \<Rightarrow> u8 option" where
  "ref_u8 m buf = do { xs \<leftarrow> mem_read m buf 1; Some (hd xs) }"

definition set_u8 :: "u8 list \<Rightarrow> nat \<Rightarrow> u8 \<Rightarrow> (nat \<times> u8 list) option" where
  "set_u8 m buf value = do { m' \<leftarrow> mem_write m buf [value]; Some (buf + 1, m') }"

fun kind :: "endianness \<Rightarrow> LengthPrefixKind \<Rightarrow> flenp_serdes" where
  "kind e LENP_VARIABLE = \<lparr>fs_size = 0, fs_cb = Cb_null, fs_maximum = 0\<rparr>"
| "kind e LENP_OCTET = \<lparr>fs_size = 1, fs_cb = Cb_u8 ref_u8 set_u8, fs_maximum = 255\<rparr>"
| "kind e LENP_LE_16BIT = \<lparr>fs_size = 2, fs_cb = Cb_u16 (bf_ref_u16l e) (bf_set_u16l e), fs_maximum = 65535\<rparr>"
| "kind e LENP_LE_32BIT = \<lparr>fs_size = 4, fs_cb = Cb_u32 (bf_ref_u32l e) (bf_set_u32l e), fs_maximum = 4294967295\<rparr>"
| "kind e LENP_BE_16BIT = \<lparr>fs_size = 2, fs_cb = Cb_u16 (bf_ref_u16b e) (bf_set_u16b e), fs_maximum = 65535\<rparr>"
| "kind e LENP_BE_32BIT = \<lparr>fs_size = 4, fs_cb = Cb_u32 (bf_ref_u32b e) (bf_set_u32b e), fs_maximum = 4294967295\<rparr>"

section \<open>Encoding\<close>

text \<open>
  The memory \<open>mem\<close> for the prefix is what the buffer \<open>b\<close> points to afterwards; the call returns both. A
  number is narrowed to the type of the generator's argument.
\<close>

definition encode_prefix ::
    "endianness \<Rightarrow> LengthPrefixKind \<Rightarrow> ByteBuffer \<Rightarrow> u8 list \<Rightarrow> nat \<Rightarrow> (int \<times> ByteBuffer \<times> u8 list) option" where
  "encode_prefix e k b mem n =
     (if n > SSIZE_MAX then Some (- EINVAL, b, mem)
      else if k \<noteq> LENP_VARIABLE \<and> n > fs_maximum (kind e k) then Some (- EINVAL, b, mem)
      else do {
        let (_, b) = (if k = LENP_VARIABLE then byte_buffer_space b (Some mem) VARINT_64BIT_MAX_OCTETS
                      else byte_buffer_use b (Some mem) (fs_size (kind e k)));
        (mem', b) \<leftarrow>
          (if fs_size (kind e k) = 1 then (case fs_cb (kind e k) of
              Cb_u8 _ generate \<Rightarrow> do { (_, mem') \<leftarrow> generate mem 0 (of_nat n); Some (mem', b\<lparr>bb_data := Some mem'\<rparr>) }
            | _ \<Rightarrow> None)
           else if fs_size (kind e k) = 2 then (case fs_cb (kind e k) of
              Cb_u16 _ generate \<Rightarrow> do { (_, mem') \<leftarrow> generate mem 0 (of_nat n); Some (mem', b\<lparr>bb_data := Some mem'\<rparr>) }
            | _ \<Rightarrow> None)
           else if fs_size (kind e k) = 4 then (case fs_cb (kind e k) of
              Cb_u32 _ generate \<Rightarrow> do { (_, mem') \<leftarrow> generate mem 0 (of_nat n); Some (mem', b\<lparr>bb_data := Some mem'\<rparr>) }
            | _ \<Rightarrow> None)
           else do { (_, b) \<leftarrow> varint_encode_u64 b (of_nat n); mem' \<leftarrow> bb_data b; Some (mem', b) });
        Some (0, b, mem')
      })"

definition flenp_memory_encode ::
    "endianness \<Rightarrow> LengthPrefixKind \<Rightarrow> LengthPrefixBuffer \<Rightarrow> u8 list option \<Rightarrow> nat
       \<Rightarrow> (int \<times> LengthPrefixBuffer) option" where
  "flenp_memory_encode e k lpb buf n = do {
     (rc, prefix, mem) \<leftarrow> encode_prefix e k (lpb_prefix lpb) (lpb_mem lpb) n;
     let lpb = lpb\<lparr>lpb_prefix := prefix, lpb_mem := mem\<rparr>;
     if rc < 0 then Some (rc, lpb)
     else do {
       let (rc, payload) = byte_buffer_use (lpb_payload lpb) buf n;
       Some (rc, lpb\<lparr>lpb_payload := payload\<rparr>)
     }
   }"

text \<open>The pointer \<open>b->data + b->offset\<close>.\<close>

definition read_mark :: "ByteBuffer \<Rightarrow> u8 list option" where
  "read_mark b = map_option (drop (bb_offset b)) (bb_data b)"

definition flenp_buffer_encode ::
    "endianness \<Rightarrow> LengthPrefixKind \<Rightarrow> LengthPrefixBuffer \<Rightarrow> ByteBuffer \<Rightarrow> (int \<times> LengthPrefixBuffer) option" where
  "flenp_buffer_encode e k lpb b = flenp_memory_encode e k lpb (read_mark b) (byte_buffer_rest b)"

definition flenp_buffer_encode_n ::
    "endianness \<Rightarrow> LengthPrefixKind \<Rightarrow> LengthPrefixBuffer \<Rightarrow> ByteBuffer \<Rightarrow> nat
       \<Rightarrow> (int \<times> LengthPrefixBuffer \<times> ByteBuffer) option" where
  "flenp_buffer_encode_n e k lpb b n =
     (let rest = byte_buffer_rest b in
      if n > rest then Some (- EINVAL, lpb, b)
      else do {
        (rc, lpb) \<leftarrow> flenp_memory_encode e k lpb (read_mark b) n;
        Some (rc, lpb, b\<lparr>bb_offset := sz_add (bb_offset b) rest\<rparr>)
      })"

text \<open>The sum of the data in the active chunks; \<open>None\<close> when there are fewer chunks than their number says.\<close>

definition chunks_size :: "ByteChunks \<Rightarrow> nat option" where
  "chunks_size c =
     (if bc_chunks c \<le> bc_active c then Some 0
      else if length (bc_chunk c) < bc_chunks c then None
      else Some (fold (\<lambda>i sz. sz_add sz (byte_buffer_rest (bc_chunk c ! i))) [bc_active c ..< bc_chunks c] 0))"

definition flenp_chunks_use ::
    "endianness \<Rightarrow> LengthPrefixKind \<Rightarrow> LengthPrefixChunks \<Rightarrow> (int \<times> LengthPrefixChunks) option" where
  "flenp_chunks_use e k lpc = do {
     sz \<leftarrow> chunks_size (lpc_payload lpc);
     (rc, prefix, mem) \<leftarrow> encode_prefix e k (lpc_prefix lpc) (lpc_mem lpc) sz;
     Some (if rc < 0 then rc else 0, lpc\<lparr>lpc_prefix := prefix, lpc_mem := mem\<rparr>)
   }"

section \<open>Sending\<close>

text \<open>The local variable for the prefix, of which only what \<open>encode_prefix\<close> writes is read.\<close>

definition local_lpb :: LengthPrefixBuffer where
  "local_lpb = (let null = \<lparr>bb_data = None, bb_size = 0, bb_used = 0, bb_offset = 0\<rparr> in
     \<lparr>lpb_mem = replicate VARINT_64BIT_MAX_OCTETS 0, lpb_prefix = null, lpb_payload = null\<rparr>)"

definition flenp_memory_to_sink ::
    "endianness \<Rightarrow> LengthPrefixKind \<Rightarrow> 't Sink \<Rightarrow> u8 list \<Rightarrow> nat \<Rightarrow> nat \<Rightarrow> (int \<times> 't Sink) option" where
  "flenp_memory_to_sink e k sink buf off n = do {
     (rc, prefix, mem) \<leftarrow> encode_prefix e k (lpb_prefix local_lpb) (lpb_mem local_lpb) n;
     if rc < 0 then Some (rc, sink)
     else do {
       let numlen = bb_used prefix;
       if n > SSIZE_MAX - numlen then Some (- EINVAL, sink)
       else do {
         (rcsink, sink) \<leftarrow> sink_put_chunk sink mem 0 numlen;
         if to_int rcsink < 0 then Some (to_int rcsink, sink)
         else do {
           (rcsink, sink) \<leftarrow> sink_put_chunk sink buf off n;
           if rcsink < 0 then Some (rcsink, sink)
           else if rcsink = 0 then Some (0, sink)
           else Some (to_ssize (sz_add numlen n), sink)
         }
       }
     }
   }"

definition flenp_buffer_to_sink ::
    "endianness \<Rightarrow> LengthPrefixKind \<Rightarrow> 't Sink \<Rightarrow> ByteBuffer \<Rightarrow> (int \<times> 't Sink) option" where
  "flenp_buffer_to_sink e k sink b =
     flenp_memory_to_sink e k sink (bb_mem b) (bb_offset b) (byte_buffer_avail b)"

definition flenp_buffer_to_sink_n ::
    "endianness \<Rightarrow> LengthPrefixKind \<Rightarrow> 't Sink \<Rightarrow> ByteBuffer \<Rightarrow> nat \<Rightarrow> (int \<times> 't Sink \<times> ByteBuffer) option" where
  "flenp_buffer_to_sink_n e k sink b n =
     (let rest = byte_buffer_avail b in
      if n > rest then Some (- EINVAL, sink, b)
      else do {
        (rc, sink) \<leftarrow> flenp_memory_to_sink e k sink (bb_mem b) (bb_offset b) rest;
        Some (to_int rc, sink, b\<lparr>bb_offset := sz_add (bb_offset b) rest\<rparr>)
      })"

fun send_chunks :: "'t Sink \<Rightarrow> ByteBuffer list \<Rightarrow> int \<Rightarrow> (int \<times> 't Sink) option" where
  "send_chunks sink [] res = Some (res, sink)"
| "send_chunks sink (b # bs) res = do {
     (rcsink, sink) \<leftarrow> sink_put_chunk sink (bb_mem b) (bb_offset b) (byte_buffer_rest b);
     if rcsink < 0 then Some (rcsink, sink)
     else if rcsink = 0 then Some (0, sink)
     else send_chunks sink bs res
   }"

definition flenp_chunks_to_sink ::
    "endianness \<Rightarrow> LengthPrefixKind \<Rightarrow> 't Sink \<Rightarrow> ByteChunks \<Rightarrow> (int \<times> 't Sink) option" where
  "flenp_chunks_to_sink e k sink oc = do {
     sz \<leftarrow> chunks_size oc;
     (rc, prefix, mem) \<leftarrow> encode_prefix e k (lpb_prefix local_lpb) (lpb_mem local_lpb) sz;
     if rc < 0 then Some (rc, sink)
     else do {
       let numlen = bb_used prefix;
       if sz > SSIZE_MAX - numlen then Some (- EINVAL, sink)
       else do {
         (rcsink, sink) \<leftarrow> sink_put_chunk sink mem 0 numlen;
         if to_int rcsink < 0 then Some (to_int rcsink, sink)
         else send_chunks sink (drop (bc_active oc) (take (bc_chunks oc) (bc_chunk oc))) (to_ssize (sz_add numlen sz))
       }
     }
   }"

section \<open>Receiving\<close>

text \<open>The length is stored through a pointer on success; \<open>len\<close> is its old value.\<close>

definition decode_prefix ::
    "endianness \<Rightarrow> LengthPrefixKind \<Rightarrow> 's Source \<Rightarrow> u64 \<Rightarrow> (int \<times> u64 \<times> 's Source) option" where
  "decode_prefix e k source len =
     (if k = LENP_VARIABLE then varint_u64_from_source source len
      else do {
        (rcsrc, buf, source) \<leftarrow> source_get_chunk source (replicate 4 0) 0 (fs_size (kind e k));
        if rcsrc < 0 then Some (rcsrc, len, source)
        else if fs_size (kind e k) = 1 then
          (case fs_cb (kind e k) of Cb_u8 parse _ \<Rightarrow> do { v \<leftarrow> parse buf 0; Some (0, ucast v, source) } | _ \<Rightarrow> None)
        else if fs_size (kind e k) = 2 then
          (case fs_cb (kind e k) of Cb_u16 parse _ \<Rightarrow> do { v \<leftarrow> parse buf 0; Some (0, ucast v, source) } | _ \<Rightarrow> None)
        else if fs_size (kind e k) = 4 then
          (case fs_cb (kind e k) of Cb_u32 parse _ \<Rightarrow> do { v \<leftarrow> parse buf 0; Some (0, ucast v, source) } | _ \<Rightarrow> None)
        else Some (- EINVAL, len, source)
      })"

definition flenp_memory_from_source ::
    "endianness \<Rightarrow> LengthPrefixKind \<Rightarrow> 's Source \<Rightarrow> u8 list \<Rightarrow> nat \<Rightarrow> nat \<Rightarrow> (int \<times> u8 list \<times> 's Source) option" where
  "flenp_memory_from_source e k source mem off sz = do {
     (rc, len, source) \<leftarrow> decode_prefix e k source 0;
     if rc < 0 then Some (rc, mem, source)
     else if unat len > sz then Some (- ENOMEM, mem, source)
     else source_get_chunk source mem off (unat len)
   }"

definition flenp_buffer_from_source ::
    "endianness \<Rightarrow> LengthPrefixKind \<Rightarrow> 's Source \<Rightarrow> ByteBuffer \<Rightarrow> (int \<times> ByteBuffer \<times> 's Source) option" where
  "flenp_buffer_from_source e k source b = do {
     (rc, m, source) \<leftarrow> flenp_memory_from_source e k source (bb_mem b) (bb_offset b) (byte_buffer_avail b);
     let b = (case bb_data b of None \<Rightarrow> b | Some _ \<Rightarrow> b\<lparr>bb_data := Some m\<rparr>);
     Some (rc, if rc \<ge> 0 then b\<lparr>bb_offset := sz_add (bb_offset b) (nat rc)\<rparr> else b, source)
   }"

definition flenp_decode_source_to_sink ::
    "endianness \<Rightarrow> LengthPrefixKind \<Rightarrow> 's Source \<Rightarrow> 't Sink \<Rightarrow> (int \<times> 's Source \<times> 't Sink) option" where
  "flenp_decode_source_to_sink e k source sink = do {
     (rc, len, source) \<leftarrow> decode_prefix e k source 0;
     if rc < 0 then Some (rc, source, sink)
     else sts_n source sink (unat len)
   }"

section \<open>The calls of the variable length format\<close>

definition lenp_memory_encode where "lenp_memory_encode e lpb buf n = flenp_memory_encode e LENP_VARIABLE lpb buf n"
definition lenp_buffer_encode where "lenp_buffer_encode e lpb bb = flenp_buffer_encode e LENP_VARIABLE lpb bb"
definition lenp_buffer_encode_n where "lenp_buffer_encode_n e lpb bb n = flenp_buffer_encode_n e LENP_VARIABLE lpb bb n"
definition lenp_chunks_use where "lenp_chunks_use e lpc = flenp_chunks_use e LENP_VARIABLE lpc"
definition lenp_memory_to_sink where
  "lenp_memory_to_sink e sink buf off n = flenp_memory_to_sink e LENP_VARIABLE sink buf off n"
definition lenp_buffer_to_sink where "lenp_buffer_to_sink e sink bb = flenp_buffer_to_sink e LENP_VARIABLE sink bb"
definition lenp_buffer_to_sink_n where
  "lenp_buffer_to_sink_n e sink bb n = flenp_buffer_to_sink_n e LENP_VARIABLE sink bb n"
definition lenp_chunks_to_sink where "lenp_chunks_to_sink e sink bc = flenp_chunks_to_sink e LENP_VARIABLE sink bc"
definition lenp_memory_from_source where
  "lenp_memory_from_source e source mem off n = flenp_memory_from_source e LENP_VARIABLE source mem off n"
definition lenp_buffer_from_source where
  "lenp_buffer_from_source e source bb = flenp_buffer_from_source e LENP_VARIABLE source bb"
definition lenp_decode_source_to_sink where
  "lenp_decode_source_to_sink e source sink = flenp_decode_source_to_sink e LENP_VARIABLE source sink"

section \<open>The octets of a frame\<close>

definition prefix_octets :: "LengthPrefixKind \<Rightarrow> nat \<Rightarrow> u8 list" where
  "prefix_octets k n = (case k of
       LENP_VARIABLE \<Rightarrow> varint_octets (of_nat n)
     | LENP_OCTET \<Rightarrow> [of_nat n]
     | LENP_LE_16BIT \<Rightarrow> le_octets 2 (of_nat n :: u16)
     | LENP_LE_32BIT \<Rightarrow> le_octets 4 (of_nat n :: u32)
     | LENP_BE_16BIT \<Rightarrow> be_octets 2 (of_nat n :: u16)
     | LENP_BE_32BIT \<Rightarrow> be_octets 4 (of_nat n :: u32))"

definition prefix_maximum :: "LengthPrefixKind \<Rightarrow> nat" where
  "prefix_maximum k = (case k of
       LENP_VARIABLE \<Rightarrow> SSIZE_MAX | LENP_OCTET \<Rightarrow> 255
     | LENP_LE_16BIT \<Rightarrow> 65535 | LENP_BE_16BIT \<Rightarrow> 65535
     | LENP_LE_32BIT \<Rightarrow> 4294967295 | LENP_BE_32BIT \<Rightarrow> 4294967295)"

definition lenp_frame :: "LengthPrefixKind \<Rightarrow> u8 list \<Rightarrow> u8 list" where
  "lenp_frame k xs = prefix_octets k (length xs) @ xs"

lemma length_prefix_octets_le: "length (prefix_octets k n) \<le> 10"
  using length_varint_octets_64 [of "of_nat n"] by (simp add: prefix_octets_def split: LengthPrefixKind.split)


lemma local_lpb_length: "length (lpb_mem local_lpb) = VARINT_64BIT_MAX_OCTETS" "VARINT_64BIT_MAX_OCTETS = 10"
  by (simp_all add: local_lpb_def varint_consts Let_def)

lemma prefix_maximum_le: "prefix_maximum k \<le> SSIZE_MAX"
  by (simp add: prefix_maximum_def SSIZE_MAX_def split: LengthPrefixKind.split)

lemma prefix_octets_pos: "0 < length (prefix_octets k n)"
  using length_varint_octets_pos [of "of_nat n"] by (cases k) (simp_all add: prefix_octets_def del: length_greater_0_conv)

lemma encode_prefix_ok:
  assumes "n \<le> prefix_maximum k" and "length mem = VARINT_64BIT_MAX_OCTETS"
  shows "\<exists>b' mem'. encode_prefix e k b mem n = Some (0, b', mem') \<and> bb_data b' = Some mem' \<and>
     bb_offset b' = 0 \<and> bb_used b' = length (prefix_octets k n) \<and> length mem' = length mem \<and>
     take (length (prefix_octets k n)) mem' = prefix_octets k n"
proof -
  have n: "n \<le> SSIZE_MAX" "k \<noteq> LENP_VARIABLE \<Longrightarrow> n \<le> fs_maximum (kind e k)"
    using assms(1) prefix_maximum_le [of k] by (cases k; simp add: prefix_maximum_def)+
  show ?thesis
  proof (cases "k = LENP_VARIABLE")
    case True
    let ?b = "b\<lparr>bb_data := Some mem, bb_size := 10, bb_used := 0, bb_offset := 0\<rparr>"
    have "varint_encode_u64 ?b (of_nat n) = Some (int (length (varint_octets (of_nat n))),
         ?b\<lparr>bb_data := Some (overwrite mem 0 (varint_octets (of_nat n))),
            bb_used := length (varint_octets (of_nat n))\<rparr>)"
      using varint_encode_ok [of ?b mem "of_nat n"] length_varint_octets_64 [of "of_nat n"] assms(2)
      by (simp add: varint_encode_u64_def byte_buffer_avail_def varint_consts)
    with True n(1) assms(2) length_varint_octets_64 [of "of_nat n"] show ?thesis
      by (simp add: encode_prefix_def byte_buffer_space_def byte_buffer_set_def prefix_octets_def varint_consts)
        (simp add: overwrite_def)
  next
    case False
    with n assms(2) show ?thesis
      by (cases k) (simp_all add: encode_prefix_def byte_buffer_use_def byte_buffer_set_def prefix_octets_def
          varint_consts set_u8_def mem_write_overwrite u16l.put_eq u16b.put_eq u32l.put_eq u32b.put_eq
          overwrite_def Suc_le_eq)
  qed
qed

lemma encode_prefix_refuses:
  "prefix_maximum k < n \<Longrightarrow> encode_prefix e k b mem n = Some (- EINVAL, b, mem)"
  by (cases k) (auto simp: encode_prefix_def prefix_maximum_def)

lemma narrow_unat:
  "n < 2 ^ LENGTH('a) \<Longrightarrow> unat (of_nat n :: 'a::len word) = n"
  by (simp add: unat_of_nat take_bit_nat_eq_self)

lemma narrow_number:
  "n < 2 ^ LENGTH('a) \<Longrightarrow> ucast (of_nat n :: 'a::len word) = (of_nat n :: u64)"
  by (metis narrow_unat of_nat_unat)

context reader
begin

lemma decode_prefix_ok:
  assumes "rinv (src_driver source)" "src_fn source = fn" "plain_retry (src_retry source)" "\<And>s. patience s = 0"
    and "stream (src_driver source) = prefix_octets k n @ rest" "n \<le> prefix_maximum k"
  shows "\<exists>rc s'. decode_prefix e k source len = Some (rc, of_nat n, source\<lparr>src_driver := s'\<rparr>) \<and> 0 \<le> rc \<and>
     rinv s' \<and> stream s' = rest"
proof (cases "k = LENP_VARIABLE")
  case True
  have "stream (src_driver source) = varint_octets (of_nat n) @ rest"
    using assms(5) True by (simp add: prefix_octets_def)
  from varint_from_source_ok [OF assms(1,2,4) this, of VARINT_64BIT_MAX_OCTETS] obtain s' where
    "varint_from_source source VARINT_64BIT_MAX_OCTETS =
       Some (int (length (varint_octets (of_nat n))), of_nat n, source\<lparr>src_driver := s'\<rparr>)" "rinv s'" "stream s' = rest"
    using length_varint_octets_64 [of "of_nat n"] by (auto simp: varint_consts)
  with True show ?thesis
    by (intro exI [of _ "int (length (varint_octets (of_nat n)))"] exI [of _ s'])
      (simp add: decode_prefix_def varint_u64_from_source_def)
next
  case False
  let ?sz = "fs_size (kind e k)" and ?p = "prefix_octets k n"
  have sz: "length ?p = ?sz" "0 < ?sz" "?sz \<le> 4"
    using False by (cases k; simp add: prefix_octets_def)+
  obtain s' where g: "source_get_chunk source (replicate 4 0) 0 ?sz =
      Some (int ?sz, overwrite (replicate 4 0) 0 ?p, source\<lparr>src_driver := s'\<rparr>)" "rinv s'" "stream s' = rest"
    using get_chunk_ok [OF assms(1-3) sz(2), of 0 "replicate 4 0"] sz assms(5) by (auto simp: SSIZE_MAX_def)
  have "prefix_maximum k \<le> fs_maximum (kind e k)"
    using False by (cases k) (simp_all add: prefix_maximum_def)
  with assms(6) False g show ?thesis
    by (intro exI [of _ 0] exI [of _ s'], cases k) (simp_all add: decode_prefix_def prefix_octets_def prefix_maximum_def ref_u8_def mem_read_def
        u16l.ref_eq u16b.ref_eq u32l.ref_eq u32b.ref_eq overwrite_def le_value_octets be_value_octets
        narrow_number take_bit_word_eq_self)
qed

end

context steady_channel
begin

lemma send_frame_ok:
  assumes "joined source sink" "fits (snk_driver sink) (length (lenp_frame k xs))"
    and "length xs \<le> prefix_maximum k" "length xs + 10 \<le> SSIZE_MAX"
    and "xs = take n (drop off buf)" "off + n \<le> length buf" "length buf \<le> SSIZE_MAX"
  shows "\<exists>snk. flenp_memory_to_sink e k sink buf off n =
           Some (if n = 0 then 0 else int (length (lenp_frame k xs)), snk) \<and> joined source snk \<and>
     accepted (snk_driver snk) = accepted (snk_driver sink) @ lenp_frame k xs \<and>
     (\<forall>j. fits (snk_driver snk) j = fits (snk_driver sink) (length (lenp_frame k xs) + j))"
proof -
  have n: "length xs = n"
    using assms(5,6) by simp
  let ?p = "prefix_octets k n" and ?l = "length (prefix_octets k n)"
  have sizes: "?l \<le> 10" "length (lenp_frame k xs) = ?l + n" "lenp_frame k xs = ?p @ xs"
    using length_prefix_octets_le n by (simp_all add: lenp_frame_def)
  obtain b mem where enc: "encode_prefix e k (lpb_prefix local_lpb) (lpb_mem local_lpb) n = Some (0, b, mem)"
     "bb_used b = ?l" "length mem = 10" "take ?l mem = ?p"
    using encode_prefix_ok [of n k "lpb_mem local_lpb" e "lpb_prefix local_lpb"] assms(3) n local_lpb_length
    by auto
  have winv: "winv (snk_driver sink)"
    using assms(1) by (simp add: joined_def)
  have room: "fits (snk_driver sink) ?l"
    using fits_less [OF winv assms(2)] sizes by simp
  obtain snk1 where p1: "sink_put_chunk sink mem 0 ?l = Some (int ?l, snk1)" "joined source snk1"
     "accepted (snk_driver snk1) = accepted (snk_driver sink) @ ?p"
     "\<forall>j. fits (snk_driver snk1) j = fits (snk_driver sink) (?l + j)"
    using put_chunk_fits [OF assms(1) room, of 0 mem] enc sizes by (auto simp: SSIZE_MAX_def)
  have room1: "fits (snk_driver snk1) n"
    using p1(4) assms(2) sizes by simp
  obtain snk2 where p2: "sink_put_chunk snk1 buf off n = Some (int n, snk2)" "joined source snk2"
     "accepted (snk_driver snk2) = accepted (snk_driver snk1) @ xs"
     "\<forall>j. fits (snk_driver snk2) j = fits (snk_driver snk1) (n + j)"
    using put_chunk_fits [OF p1(2) room1 assms(6,7)] assms(5) by auto
  have "sz_add ?l n = ?l + n" "\<not> SSIZE_MAX - ?l < n"
    using assms(4) sizes n by (simp_all add: sz_add_def SSIZE_MAX_def SIZE_MOD_def)
  with enc p1 p2 assms(4) sizes n show ?thesis
    by (intro exI [of _ snk2]) (simp add: flenp_memory_to_sink_def Let_def add.assoc)
qed

lemma receive_frame_ok:
  assumes "joined source sink" "stream (src_driver source) = lenp_frame k xs @ rest"
    and "xs \<noteq> []" "length xs \<le> prefix_maximum k" "off + sz \<le> length mem" "length mem \<le> SSIZE_MAX"
  shows "\<exists>src. flenp_memory_from_source e k source mem off sz =
       (if length xs \<le> sz then Some (int (length xs), overwrite mem off xs, src) else Some (- ENOMEM, mem, src)) \<and>
     joined src sink \<and> stream (src_driver src) = (if length xs \<le> sz then rest else xs @ rest)"
proof -
  have j: "rinv (src_driver source)" "src_fn source = fn" "plain_retry (src_retry source)"
    using assms(1) by (simp_all add: joined_def)
  have str: "stream (src_driver source) = prefix_octets k (length xs) @ (xs @ rest)"
    using assms(2) by (simp add: lenp_frame_def)
  obtain rc s' where d: "decode_prefix e k source 0 = Some (rc, of_nat (length xs), source\<lparr>src_driver := s'\<rparr>)"
     "0 \<le> rc" "rinv s'" "stream s' = xs @ rest"
    using decode_prefix_ok [OF j steady(1) str assms(4)] by blast
  have len: "unat (of_nat (length xs) :: u64) = length xs"
    using assms(4) prefix_maximum_le [of k] by (intro narrow_unat) (simp add: SSIZE_MAX_def)
  let ?src = "source\<lparr>src_driver := s'\<rparr>"
  have j': "rinv (src_driver ?src)" "src_fn ?src = fn" "plain_retry (src_retry ?src)"
    using j d by simp_all
  show ?thesis
  proof (cases "length xs \<le> sz")
    case True
    have "off + length xs \<le> length mem" "0 < length xs"
      using True assms(3,5) by auto
    from get_chunk_ok [OF j' this(2,1) assms(6) refl] d True len obtain s'' where
      "source_get_chunk ?src mem off (length xs) = Some (int (length xs), overwrite mem off xs, ?src\<lparr>src_driver := s''\<rparr>)"
      "rinv s''" "stream s'' = rest"
      by auto
    with True d len assms(1) show ?thesis
      by (intro exI [of _ "?src\<lparr>src_driver := s''\<rparr>"]) (simp add: flenp_memory_from_source_def joined_def)
  next
    case False
    with d len assms(1) show ?thesis
      by (intro exI [of _ ?src]) (simp add: flenp_memory_from_source_def joined_def)
  qed
qed

end

section \<open>Sequences of frames\<close>

fun lenp_send_all :: "endianness \<Rightarrow> LengthPrefixKind \<Rightarrow> 't Sink \<Rightarrow> u8 list list \<Rightarrow> (int list \<times> 't Sink) option" where
  "lenp_send_all e k sink [] = Some ([], sink)"
| "lenp_send_all e k sink (xs # ms) = do {
     (rc, sink) \<leftarrow> flenp_memory_to_sink e k sink xs 0 (length xs);
     (rcs, sink) \<leftarrow> lenp_send_all e k sink ms;
     Some (rc # rcs, sink)
   }"

fun lenp_receive_all ::
    "endianness \<Rightarrow> LengthPrefixKind \<Rightarrow> 's Source \<Rightarrow> u8 list \<Rightarrow> nat \<Rightarrow> ((int \<times> u8 list) list \<times> 's Source) option" where
  "lenp_receive_all e k source mem 0 = Some ([], source)"
| "lenp_receive_all e k source mem (Suc n) = do {
     (rc, m, source) \<leftarrow> flenp_memory_from_source e k source mem 0 (length mem);
     (rs, source) \<leftarrow> lenp_receive_all e k source mem n;
     Some ((rc, take (nat rc) m) # rs, source)
   }"

definition payload_ok :: "LengthPrefixKind \<Rightarrow> nat \<Rightarrow> u8 list \<Rightarrow> bool" where
  "payload_ok k sz xs \<longleftrightarrow> xs \<noteq> [] \<and> length xs \<le> prefix_maximum k \<and> length xs \<le> sz \<and> length xs + 10 \<le> SSIZE_MAX"

context steady_channel
begin

lemma send_all_ok:
  "joined source sink \<Longrightarrow> list_all (payload_ok k sz) ms \<Longrightarrow>
     fits (snk_driver sink) (length (concat (map (lenp_frame k) ms))) \<Longrightarrow>
     \<exists>snk. lenp_send_all e k sink ms = Some (map (\<lambda>xs. int (length (lenp_frame k xs))) ms, snk) \<and> joined source snk \<and>
       accepted (snk_driver snk) = accepted (snk_driver sink) @ concat (map (lenp_frame k) ms)"
proof (induction ms arbitrary: sink)
  case (Cons xs ms)
  have "winv (snk_driver sink)"
    using Cons.prems(1) by (simp add: joined_def)
  from fits_less [OF this Cons.prems(3)] have f: "fits (snk_driver sink) (length (lenp_frame k xs))"
    by simp
  have xs: "length xs \<le> prefix_maximum k" "length xs + 10 \<le> SSIZE_MAX" "length xs \<noteq> 0"
    using Cons.prems(2) by (simp_all add: payload_ok_def)
  obtain snk where s: "flenp_memory_to_sink e k sink xs 0 (length xs) = Some (int (length (lenp_frame k xs)), snk)"
     "joined source snk" "accepted (snk_driver snk) = accepted (snk_driver sink) @ lenp_frame k xs"
     "\<forall>j. fits (snk_driver snk) j = fits (snk_driver sink) (length (lenp_frame k xs) + j)"
    using send_frame_ok [OF Cons.prems(1) f xs(1,2), of "length xs" 0 xs e] xs by auto
  have "fits (snk_driver snk) (length (concat (map (lenp_frame k) ms)))"
    using s(4) Cons.prems(3) by simp
  from Cons.IH [OF s(2) _ this] Cons.prems(2) s(1,3) show ?case
    by auto
qed simp

lemma receive_all_ok:
  "joined source sink \<Longrightarrow> list_all (payload_ok k (length mem)) ms \<Longrightarrow> length mem \<le> SSIZE_MAX \<Longrightarrow>
     stream (src_driver source) = concat (map (lenp_frame k) ms) @ rest \<Longrightarrow>
     \<exists>src. lenp_receive_all e k source mem (length ms) = Some (map (\<lambda>xs. (int (length xs), xs)) ms, src) \<and>
       joined src sink \<and> stream (src_driver src) = rest"
proof (induction ms arbitrary: source)
  case (Cons xs ms)
  have xs: "xs \<noteq> []" "length xs \<le> prefix_maximum k" "length xs \<le> length mem"
    using Cons.prems(2) by (simp_all add: payload_ok_def)
  have str: "stream (src_driver source) = lenp_frame k xs @ (concat (map (lenp_frame k) ms) @ rest)"
    using Cons.prems(4) by simp
  obtain src where r: "flenp_memory_from_source e k source mem 0 (length mem) = Some (int (length xs), overwrite mem 0 xs, src)"
     "joined src sink" "stream (src_driver src) = concat (map (lenp_frame k) ms) @ rest"
    using receive_frame_ok [OF Cons.prems(1) str xs(1,2) _ Cons.prems(3), of 0 "length mem" e] xs(3) by auto
  have "take (length xs) (overwrite mem 0 xs) = xs"
    by (simp add: overwrite_def)
  with Cons.IH [OF r(2) _ Cons.prems(3) r(3)] Cons.prems(2) r(1) show ?case
    by auto
qed simp

end

section \<open>Lists of chunks\<close>

lemma bb_rest_pending: "bb_ready b \<Longrightarrow> byte_buffer_rest b = length (bb_pending b)"
  by (simp add: bb_ready_def length_bb_pending)

lemma chunks_size_ok:
  assumes "chunks_inv c" and "length (chunks_pending c) < SIZE_MOD"
  shows "chunks_size c = Some (length (chunks_pending c))"
proof -
  have idx: "map ((!) xs) [k ..< n] = drop k (take n xs)" if "n \<le> length xs" for k n and xs :: "ByteBuffer list"
    by (rule nth_equalityI) (use that in simp_all)
  have sum: "(\<forall>b \<in> set bs. bb_ready b) \<Longrightarrow> acc + length (concat (map bb_pending bs)) < SIZE_MOD \<Longrightarrow>
      fold (\<lambda>b n. sz_add n (byte_buffer_rest b)) bs acc = acc + length (concat (map bb_pending bs))" for bs acc
    by (induction bs arbitrary: acc) (simp_all add: bb_rest_pending sz_add_id)
  have n: "bc_chunks c \<le> length (bc_chunk c)"
    using assms(1) by (simp add: chunks_inv_def)
  let ?bs = "drop (bc_active c) (take (bc_chunks c) (bc_chunk c))"
  have "fold (\<lambda>i n. sz_add n (byte_buffer_rest (bc_chunk c ! i))) [bc_active c ..< bc_chunks c] 0 =
      fold (\<lambda>b n. sz_add n (byte_buffer_rest b)) ?bs 0"
    by (simp flip: idx [OF n] add: fold_map comp_def)
  then show ?thesis
    using assms sum [of ?bs 0] by (auto simp: chunks_size_def chunks_inv_def chunks_pending_def dest: in_set_dropD)
qed

context steady_channel
begin

lemma send_chunks_ok:
  "joined source sink \<Longrightarrow> list_all (\<lambda>b. bb_ready b \<and> length (bb_mem b) \<le> SSIZE_MAX) bs \<Longrightarrow>
     fits (snk_driver sink) (length (concat (map bb_pending bs))) \<Longrightarrow>
     \<exists>snk. send_chunks sink bs res =
         Some (if list_all (\<lambda>b. bb_pending b \<noteq> []) bs then res else 0, snk) \<and> joined source snk \<and>
       accepted (snk_driver snk) = accepted (snk_driver sink) @
         concat (map bb_pending (takeWhile (\<lambda>b. bb_pending b \<noteq> []) bs))"
proof (induction bs arbitrary: sink)
  case (Cons b bs)
  have b: "bb_inv b" "length (bb_mem b) \<le> SSIZE_MAX" "byte_buffer_rest b = length (bb_pending b)"
    using Cons.prems(2) bb_rest_pending [of b] by (simp_all add: bb_ready_def)
  have inside: "bb_offset b + length (bb_pending b) \<le> length (bb_mem b)"
    and slice: "take (length (bb_pending b)) (drop (bb_offset b) (bb_mem b)) = bb_pending b"
    using b(1) by (auto simp: bb_inv_def bb_pending_def take_slice)
  have winv: "winv (snk_driver sink)"
    using Cons.prems(1) by (simp add: joined_def)
  from fits_less [OF winv Cons.prems(3)] have f: "fits (snk_driver sink) (length (bb_pending b))"
    by simp
  obtain snk where s: "sink_put_chunk sink (bb_mem b) (bb_offset b) (length (bb_pending b)) =
       Some (int (length (bb_pending b)), snk)" "joined source snk"
     "accepted (snk_driver snk) = accepted (snk_driver sink) @ bb_pending b"
     "\<forall>k. fits (snk_driver snk) k = fits (snk_driver sink) (length (bb_pending b) + k)"
    using put_chunk_fits [OF Cons.prems(1) f inside b(2)] slice by auto
  show ?case
  proof (cases "bb_pending b = []")
    case True
    with s b show ?thesis
      by simp
  next
    case False
    have "fits (snk_driver snk) (length (concat (map bb_pending bs)))"
      using s(4) Cons.prems(3) by simp
    from Cons.IH [OF s(2) _ this] Cons.prems(2) s(1,3) b(3) False show ?thesis
      by auto
  qed
qed simp

lemma send_prefix_ok:
  assumes "joined source sink" "fits (snk_driver sink) (length (prefix_octets k n))" "n \<le> prefix_maximum k"
  shows "\<exists>b mem snk. encode_prefix e k (lpb_prefix local_lpb) (lpb_mem local_lpb) n = Some (0, b, mem) \<and>
     bb_used b = length (prefix_octets k n) \<and>
     sink_put_chunk sink mem 0 (length (prefix_octets k n)) = Some (int (length (prefix_octets k n)), snk) \<and>
     joined source snk \<and> accepted (snk_driver snk) = accepted (snk_driver sink) @ prefix_octets k n \<and>
     (\<forall>j. fits (snk_driver snk) j = fits (snk_driver sink) (length (prefix_octets k n) + j))"
proof -
  let ?p = "prefix_octets k n"
  obtain b mem where enc: "encode_prefix e k (lpb_prefix local_lpb) (lpb_mem local_lpb) n = Some (0, b, mem)"
     "bb_used b = length ?p" "length mem = 10" "take (length ?p) mem = ?p"
    using encode_prefix_ok [of n k "lpb_mem local_lpb" e "lpb_prefix local_lpb"] assms(3) local_lpb_length
    by auto
  have "0 + length ?p \<le> length mem" "length mem \<le> SSIZE_MAX"
    using enc(3) length_prefix_octets_le [of k n] by (simp_all add: SSIZE_MAX_def)
  from put_chunk_fits [OF assms(1,2) this] enc show ?thesis
    by auto
qed

end

section \<open>Properties\<close>

lemma joined_buffer_ends:
  "bb_ready bs \<Longrightarrow> bb_ready bt \<Longrightarrow> buffer_to_buffer.joined (source_from_buffer si bs) (sink_to_buffer ti bt)"
  by (simp add: buffer_to_buffer.joined_def)

text \<open>C6. Frames in order: messages that are not empty, that the prefix can count and that the receiver has room for, sent
  into a buffer one after the other, are received one by one, whole and
  in order, and every call returns the size of its frame or payload. It holds for every kind of prefix, and
  the sender and the receiver may be machines of different octet orders.\<close>

theorem lenp_frames_in_order:
  assumes "bb_ready bt" and "bb_pending bt = []" and "list_all (payload_ok k (length mem)) ms"
    and "length mem \<le> SSIZE_MAX" and "length (concat (map (lenp_frame k) ms)) \<le> byte_buffer_avail bt"
  shows "\<exists>snk src. lenp_send_all sender k (sink_to_buffer ti bt) ms =
             Some (map (\<lambda>xs. int (length (lenp_frame k xs))) ms, snk) \<and>
           lenp_receive_all receiver k (source_from_buffer si (snk_driver snk)) mem (length ms) =
             Some (map (\<lambda>xs. (int (length xs), xs)) ms, src) \<and>
           bb_pending (src_driver src) = []"
proof -
  have j: "buffer_to_buffer.joined (source_from_buffer si bt) (sink_to_buffer ti bt)"
    by (rule joined_buffer_ends [OF assms(1,1)])
  obtain snk where s: "lenp_send_all sender k (sink_to_buffer ti bt) ms =
       Some (map (\<lambda>xs. int (length (lenp_frame k xs))) ms, snk)"
     "buffer_to_buffer.joined (source_from_buffer si bt) snk"
     "bb_pending (snk_driver snk) = concat (map (lenp_frame k) ms)"
    using buffer_to_buffer.send_all_ok [OF j assms(3), of sender] assms(2,5) by auto
  have j2: "buffer_to_buffer.joined (source_from_buffer si (snk_driver snk)) (sink_to_buffer ti bt)"
    using s(2) assms(1) by (simp add: buffer_to_buffer.joined_def)
  obtain src where "lenp_receive_all receiver k (source_from_buffer si (snk_driver snk)) mem (length ms) =
       Some (map (\<lambda>xs. (int (length xs), xs)) ms, src)" "bb_pending (src_driver src) = []"
    using buffer_to_buffer.receive_all_ok [OF j2 assms(3,4), of "[]" receiver] s(3) by auto
  with s(1) show ?thesis
    by blast
qed

theorem lenp_frames_in_order_witness:
  "let bt = \<lparr>bb_data = Some (replicate 12 0), bb_size = 12, bb_used = 0, bb_offset = 0\<rparr> in
   \<exists>snk src. lenp_send_all SYSTEM_ENDIANNESS_BIG LENP_LE_16BIT (sink_to_buffer (idle_sink bt) bt) [[1, 2], [3]] =
       Some ([4, 3], snk) \<and>
     lenp_receive_all SYSTEM_ENDIANNESS_LITTLE LENP_LE_16BIT
       (source_from_buffer (idle_source bt) (snk_driver snk)) [0, 0] 2 = Some ([(2, [1, 2]), (1, [3])], src) \<and>
     bb_pending (src_driver src) = []"
proof -
  let ?bt = "\<lparr>bb_data = Some (replicate 12 0), bb_size = 12, bb_used = 0, bb_offset = 0\<rparr> :: ByteBuffer"
  have b: "bb_ready ?bt" "bb_pending ?bt = []" "byte_buffer_avail ?bt = 12"
    by (simp_all add: bb_ready_def bb_inv_def bb_pending_def byte_buffer_avail_def SSIZE_MAX_def)
  have m: "list_all (payload_ok LENP_LE_16BIT (length [0 :: u8, 0])) [[1, 2], [3]]"
    by (simp add: payload_ok_def prefix_maximum_def SSIZE_MAX_def)
  have l: "length (lenp_frame LENP_LE_16BIT xs) = 2 + length xs" for xs
    by (simp add: lenp_frame_def prefix_octets_def)
  have r: "length [0 :: u8, 0] \<le> SSIZE_MAX"
    "length (concat (map (lenp_frame LENP_LE_16BIT) [[1, 2], [3]])) \<le> byte_buffer_avail ?bt"
    by (simp_all add: SSIZE_MAX_def b l)
  show ?thesis
    using lenp_frames_in_order [OF b(1,2) m r, of SYSTEM_ENDIANNESS_BIG "idle_sink ?bt" SYSTEM_ENDIANNESS_LITTLE "idle_source ?bt"]
    by (simp add: l Let_def numeral_2_eq_2 del: lenp_send_all.simps lenp_receive_all.simps)
qed

text \<open>A payload longer than the prefix can say is refused: nothing is sent, and an encoder for a separate
  prefix leaves its buffers as they were.\<close>

theorem lenp_refuses_oversize:
  assumes "prefix_maximum k < n"
  shows "flenp_memory_to_sink e k sink buf off n = Some (- EINVAL, sink) \<and>
         flenp_memory_encode e k lpb mem n = Some (- EINVAL, lpb)"
  using encode_prefix_refuses [OF assms] by (simp add: flenp_memory_to_sink_def flenp_memory_encode_def errno_defs)

theorem lenp_refuses_oversize_witness:
  "flenp_memory_to_sink SYSTEM_ENDIANNESS_BIG LENP_OCTET (sink_to_buffer (idle_sink sample_buffer) sample_buffer) (replicate 256 7) 0 256 =
     Some (- EINVAL, sink_to_buffer (idle_sink sample_buffer) sample_buffer)"
  using lenp_refuses_oversize [of LENP_OCTET 256 SYSTEM_ENDIANNESS_BIG "sink_to_buffer (idle_sink sample_buffer) sample_buffer" "replicate 256 7" 0
      local_lpb None]
  by (simp add: prefix_maximum_def)

text \<open>A payload longer than the receiver's memory gives -ENOMEM and leaves the memory alone; the prefix is
  gone and the payload is still in the source, where the next call takes its first octets for a prefix.\<close>

theorem lenp_small_receiver:
  assumes "bb_ready bs" and "bb_pending bs = lenp_frame k xs @ rest" and "length xs \<le> prefix_maximum k"
    and "sz < length xs" and "off + sz \<le> length mem" and "length mem \<le> SSIZE_MAX"
  shows "\<exists>src. flenp_memory_from_source e k (source_from_buffer si bs) mem off sz = Some (- ENOMEM, mem, src) \<and>
           bb_pending (src_driver src) = xs @ rest"
proof -
  have j: "buffer_to_buffer.joined (source_from_buffer si bs) (sink_to_buffer ti bs)" for ti
    by (rule joined_buffer_ends [OF assms(1,1)])
  have str: "bb_pending (src_driver (source_from_buffer si bs)) = lenp_frame k xs @ rest"
    using assms(2) by simp
  have "xs \<noteq> []"
    using assms(4) by auto
  from buffer_to_buffer.receive_frame_ok [OF j str this assms(3,5,6), of e] assms(4) show ?thesis
    by auto
qed


theorem lenp_small_receiver_witness:
  "let bs = \<lparr>bb_data = Some [2, 7, 8, 9], bb_size = 4, bb_used = 4, bb_offset = 0\<rparr> in
   \<exists>src. flenp_memory_from_source SYSTEM_ENDIANNESS_BIG LENP_OCTET (source_from_buffer (idle_source bs) bs) [0] 0 1 = Some (- ENOMEM, [0], src) \<and>
     bb_pending (src_driver src) = [7, 8, 9]"
proof -
  let ?bs = "\<lparr>bb_data = Some [2, 7, 8, 9], bb_size = 4, bb_used = 4, bb_offset = 0\<rparr> :: ByteBuffer"
  have b: "bb_ready ?bs" "bb_pending ?bs = lenp_frame LENP_OCTET [7, 8] @ [9]"
    by (simp_all add: bb_ready_def bb_inv_def bb_pending_def SSIZE_MAX_def lenp_frame_def prefix_octets_def)
  show ?thesis
    using lenp_small_receiver [OF b, of 1 0 "[0]" SYSTEM_ENDIANNESS_BIG "idle_source ?bs"]
    by (simp add: prefix_maximum_def SSIZE_MAX_def)
qed

context steady_channel
begin

lemma chunks_frame_ok:
  assumes "joined source sink" and "chunks_inv c" and "list_all (\<lambda>b. length (bb_mem b) \<le> SSIZE_MAX) (bc_chunk c)"
    and "length (chunks_pending c) \<le> prefix_maximum k" and "length (chunks_pending c) + 10 \<le> SSIZE_MAX"
    and "fits (snk_driver sink) (length (lenp_frame k (chunks_pending c)))"
    and "bs = drop (bc_active c) (take (bc_chunks c) (bc_chunk c))"
  shows "\<exists>snk. flenp_chunks_to_sink e k sink c =
         Some (if list_all (\<lambda>b. bb_pending b \<noteq> []) bs then int (length (lenp_frame k (chunks_pending c))) else 0, snk) \<and>
       joined source snk \<and> accepted (snk_driver snk) = accepted (snk_driver sink) @
         prefix_octets k (length (chunks_pending c)) @ concat (map bb_pending (takeWhile (\<lambda>b. bb_pending b \<noteq> []) bs))"
proof -
  let ?n = "length (chunks_pending c)"
  let ?p = "prefix_octets k ?n"
  have pending: "chunks_pending c = concat (map bb_pending bs)"
    by (simp add: chunks_pending_def assms(7))
  have len: "length (lenp_frame k (chunks_pending c)) = length ?p + ?n" "length ?p \<le> 10"
    using length_prefix_octets_le by (simp_all add: lenp_frame_def)
  have sz: "chunks_size c = Some ?n"
    using assms(2,5) by (intro chunks_size_ok) (simp_all add: SSIZE_MAX_def SIZE_MOD_def)
  have winv: "winv (snk_driver sink)"
    using assms(1) by (simp add: joined_def)
  have room: "fits (snk_driver sink) (length ?p)"
    using fits_less [OF winv assms(6)] len by simp
  obtain b mem snk1 where p: "encode_prefix e k (lpb_prefix local_lpb) (lpb_mem local_lpb) ?n = Some (0, b, mem)"
     "bb_used b = length ?p" "sink_put_chunk sink mem 0 (length ?p) = Some (int (length ?p), snk1)" "joined source snk1"
     "accepted (snk_driver snk1) = accepted (snk_driver sink) @ ?p"
     "\<forall>j. fits (snk_driver snk1) j = fits (snk_driver sink) (length ?p + j)"
    using send_prefix_ok [OF assms(1) room assms(4), of e] by auto
  have ready: "list_all (\<lambda>b. bb_ready b \<and> length (bb_mem b) \<le> SSIZE_MAX) bs"
    using assms(2,3) by (auto simp: chunks_inv_def list_all_iff assms(7) dest: in_set_dropD in_set_takeD)
  have room1: "fits (snk_driver snk1) (length (concat (map bb_pending bs)))"
    using p(6) assms(6) len by (simp flip: pending)
  obtain snk where s: "send_chunks snk1 bs (to_ssize (sz_add (length ?p) ?n)) =
       Some (if list_all (\<lambda>b. bb_pending b \<noteq> []) bs then to_ssize (sz_add (length ?p) ?n) else 0, snk)" "joined source snk"
     "accepted (snk_driver snk) = accepted (snk_driver sink) @ ?p @ concat (map bb_pending (takeWhile (\<lambda>b. bb_pending b \<noteq> []) bs))"
    using send_chunks_ok [OF p(4) ready room1, of "to_ssize (sz_add (length ?p) ?n)"] p(5) by auto
  have "sz_add (length ?p) ?n = length ?p + ?n" "\<not> SSIZE_MAX - length ?p < ?n"
    using assms(5) len by (simp_all add: sz_add_def SSIZE_MAX_def SIZE_MOD_def)
  with sz p s len assms(5,7) show ?thesis
    by (intro exI [of _ snk]) (simp add: flenp_chunks_to_sink_def Let_def)
qed

end

text \<open>A list of buffers is sent as one frame: the prefix says how much data all of them hold, and the
  payload is their contents in order. But sending stops at the first buffer without data, and reports zero:
  then the frame is incomplete, and the receiver takes the octets of the next one for its payload.\<close>

theorem lenp_chunks_one_frame:
  assumes "chunks_inv c" and "list_all (\<lambda>b. length (bb_mem b) \<le> SSIZE_MAX) (bc_chunk c)" and "bb_ready bt"
    and "length (chunks_pending c) \<le> prefix_maximum k" and "length (chunks_pending c) + 10 \<le> SSIZE_MAX"
    and "length (lenp_frame k (chunks_pending c)) \<le> byte_buffer_avail bt"
  shows "let bs = drop (bc_active c) (take (bc_chunks c) (bc_chunk c)); n = length (chunks_pending c) in
     \<exists>snk. flenp_chunks_to_sink e k (sink_to_buffer ti bt) c =
         Some (if list_all (\<lambda>b. bb_pending b \<noteq> []) bs then int (length (lenp_frame k (chunks_pending c))) else 0, snk) \<and>
       bb_pending (snk_driver snk) = bb_pending bt @ prefix_octets k n @
         concat (map bb_pending (takeWhile (\<lambda>b. bb_pending b \<noteq> []) bs))"
proof -
  have j: "buffer_to_buffer.joined (source_from_buffer (idle_source bt) bt) (sink_to_buffer ti bt)"
    by (rule joined_buffer_ends [OF assms(3,3)])
  have room: "length (lenp_frame k (chunks_pending c)) \<le> byte_buffer_avail (snk_driver (sink_to_buffer ti bt))"
    using assms(6) by simp
  show ?thesis
    using buffer_to_buffer.chunks_frame_ok [OF j assms(1,2,4,5) room refl, of e] by auto
qed

theorem lenp_chunks_one_frame_witness:
  "let bt = \<lparr>bb_data = Some (replicate 8 0), bb_size = 8, bb_used = 0, bb_offset = 0\<rparr> in
   \<exists>snk. flenp_chunks_to_sink SYSTEM_ENDIANNESS_BIG LENP_OCTET (sink_to_buffer (idle_sink bt) bt) sample_chunks = Some (0, snk) \<and>
     bb_pending (snk_driver snk) = [4, 1, 2]"
proof -
  let ?bt = "\<lparr>bb_data = Some (replicate 8 0), bb_size = 8, bb_used = 0, bb_offset = 0\<rparr> :: ByteBuffer"
  have b: "bb_ready ?bt" "bb_pending ?bt = []" "byte_buffer_avail ?bt = 8"
    by (simp_all add: bb_ready_def bb_inv_def bb_pending_def byte_buffer_avail_def SSIZE_MAX_def)
  have c: "list_all (\<lambda>b. length (bb_mem b) \<le> SSIZE_MAX) (bc_chunk sample_chunks)"
    by (simp add: sample_chunks_def SSIZE_MAX_def)
  show ?thesis
    using lenp_chunks_one_frame [OF sample_chunks_ok(1) c b(1), of LENP_OCTET SYSTEM_ENDIANNESS_BIG "idle_sink ?bt"]
    by (simp add: sample_chunks_ok b prefix_maximum_def SSIZE_MAX_def lenp_frame_def prefix_octets_def)
      (simp add: sample_chunks_def bb_pending_def)
qed

text \<open>
  What the calls on whole buffers do: sending looks at the free space of the buffer where it means its data,
  and receiving moves the read mark where it means the write mark.
\<close>

lemma flenp_full_buffer_sends_nothing:
  assumes "bb_used b = bb_size b"
  shows "flenp_buffer_to_sink e k sink b = flenp_memory_to_sink e k sink (bb_mem b) (bb_offset b) 0"
  using assms by (simp add: flenp_buffer_to_sink_def byte_buffer_avail_def)

lemma flenp_received_buffer_is_inconsistent:
  assumes "flenp_buffer_from_source e k source b = Some (rc, b', src)" and "0 < rc"
    and "bb_offset b = bb_used b" and "bb_offset b + nat rc < SIZE_MOD"
  shows "bb_used b' < bb_offset b' \<and> \<not> bb_inv b'"
  using assms by (auto simp: flenp_buffer_from_source_def bb_inv_def sz_add_id Let_def split: bind_splits option.splits)

end
