(* ===== verification/Persistent_Storage.thy ===== *)
theory Persistent_Storage
  imports Binary_Format
begin

text \<open>
  Persistent storage: \<^verbatim>\<open>src/persistent-storage.c\<close> and \<^verbatim>\<open>include/ufw/persistent-storage.h\<close>. An instance is a
  checksum and, behind it, a data portion on some medium that is reached through two callbacks. The medium
  is a state \<open>m\<close> the callbacks transform: reading gives the number of octets the callback reports, the
  octets it put at the destination, and the medium; writing the number it reports and the medium. \<open>e\<close> is
  the octet order of the machine, which is the order of the checksum on the medium.

  The lemmas show what successful calls do to the medium, whatever medium it is, also one that fails now and
  then: after a store that reports success the data is there and the checksum matches it, validation
  compares exactly these two, and neither depends on the auxiliary buffer.
\<close>

section \<open>State\<close>

datatype PersistentChecksumType = PERSISTENT_CHECKSUM_16BIT | PERSISTENT_CHECKSUM_32BIT

text \<open>The members of the two unions. Using another member than the one stored is undefined.\<close>

datatype PersistentChecksum = Sum16 u16 | Sum32 u32

datatype PersistentProcess = C16 "u8 list \<Rightarrow> u16 \<Rightarrow> u16" | C32 "u8 list \<Rightarrow> u32 \<Rightarrow> u32"

datatype PersistentAccess =
    PERSISTENT_ACCESS_SUCCESS | PERSISTENT_ACCESS_INVALID_DATA | PERSISTENT_ACCESS_IO_ERROR
  | PERSISTENT_ACCESS_ADDRESS_OUT_OF_RANGE

type_synonym 'm PersistentBlockRead = "'m \<Rightarrow> nat \<Rightarrow> nat \<Rightarrow> nat \<times> u8 list \<times> 'm"
type_synonym 'm PersistentBlockWrite = "'m \<Rightarrow> nat \<Rightarrow> u8 list \<Rightarrow> nat \<times> 'm"

record 'm PersistentStorage =
  data_address :: nat
  data_size :: nat
  checksum_address :: nat
  checksum_width :: nat
  checksum_type :: PersistentChecksumType
  checksum_initial :: PersistentChecksum
  checksum_process :: PersistentProcess
  buffer_data :: "u8 list option"
  buffer_size :: nat
  block_read :: "'m PersistentBlockRead"
  block_write :: "'m PersistentBlockWrite"

text \<open>Addresses are 32-bit numbers.\<close>

definition pa_add :: "nat \<Rightarrow> nat \<Rightarrow> nat" where
  "pa_add a b = (a + b) mod 2 ^ 32"

section \<open>Configuration\<close>

definition checksum_size :: "'m PersistentStorage \<Rightarrow> nat" where
  "checksum_size store = (case checksum_type store of PERSISTENT_CHECKSUM_16BIT \<Rightarrow> 2 | PERSISTENT_CHECKSUM_32BIT \<Rightarrow> 4)"

definition set_data_address :: "'m PersistentStorage \<Rightarrow> 'm PersistentStorage" where
  "set_data_address store = store\<lparr>data_address := pa_add (checksum_address store) (checksum_width store)\<rparr>"

fun trivialsum :: "u8 list \<Rightarrow> u16 \<Rightarrow> u16" where
  "trivialsum [] init = init"
| "trivialsum (x # data) init = trivialsum data ((init + ucast x) AND 0xffff)"

definition persistent_sum16 :: "'m PersistentStorage \<Rightarrow> (u8 list \<Rightarrow> u16 \<Rightarrow> u16) \<Rightarrow> u16 \<Rightarrow> 'm PersistentStorage" where
  "persistent_sum16 store f init =
     (let store = store\<lparr>checksum_initial := Sum16 init, checksum_type := PERSISTENT_CHECKSUM_16BIT\<rparr>;
          store = store\<lparr>checksum_width := checksum_size store, checksum_process := C16 f\<rparr>
      in set_data_address store)"

definition persistent_sum32 :: "'m PersistentStorage \<Rightarrow> (u8 list \<Rightarrow> u32 \<Rightarrow> u32) \<Rightarrow> u32 \<Rightarrow> 'm PersistentStorage" where
  "persistent_sum32 store f init =
     (let store = store\<lparr>checksum_initial := Sum32 init, checksum_type := PERSISTENT_CHECKSUM_32BIT\<rparr>;
          store = store\<lparr>checksum_width := checksum_size store, checksum_process := C32 f\<rparr>
      in set_data_address store)"

definition persistent_init ::
    "'m PersistentStorage \<Rightarrow> nat \<Rightarrow> 'm PersistentBlockRead \<Rightarrow> 'm PersistentBlockWrite \<Rightarrow> 'm PersistentStorage" where
  "persistent_init store sz rd wr =
     (let store = set_data_address (persistent_sum16 (store\<lparr>checksum_address := 0\<rparr>) trivialsum 0)
      in store\<lparr>data_size := sz, block_read := rd, block_write := wr, buffer_size := 1, buffer_data := None\<rparr>)"

definition persistent_place :: "'m PersistentStorage \<Rightarrow> nat \<Rightarrow> 'm PersistentStorage" where
  "persistent_place store address = set_data_address (store\<lparr>checksum_address := address\<rparr>)"

definition persistent_buffer :: "'m PersistentStorage \<Rightarrow> u8 list option \<Rightarrow> nat \<Rightarrow> 'm PersistentStorage" where
  "persistent_buffer store buffer n = store\<lparr>buffer_data := buffer, buffer_size := n\<rparr>"

section \<open>Checksums\<close>

definition process_block :: "'m PersistentStorage \<Rightarrow> u8 list \<Rightarrow> PersistentChecksum \<Rightarrow> PersistentChecksum option" where
  "process_block store block value =
     (case checksum_type store of
        PERSISTENT_CHECKSUM_16BIT \<Rightarrow>
          (case (checksum_process store, value) of (C16 f, Sum16 v) \<Rightarrow> Some (Sum16 (f block v)) | _ \<Rightarrow> None)
      | PERSISTENT_CHECKSUM_32BIT \<Rightarrow>
          (case (checksum_process store, value) of (C32 f, Sum32 v) \<Rightarrow> Some (Sum32 (f block v)) | _ \<Rightarrow> None))"

definition persistent_checksum :: "'m PersistentStorage \<Rightarrow> u8 list \<Rightarrow> PersistentChecksum option" where
  "persistent_checksum store src = do {
     block \<leftarrow> mem_read src 0 (data_size store);
     process_block store block (checksum_initial store)
   }"

text \<open>The auxiliary buffer, or the local variable of one octet.\<close>

definition work_memory :: "'m PersistentStorage \<Rightarrow> u8 list" where
  "work_memory store = (case buffer_data store of Some data \<Rightarrow> data | None \<Rightarrow> [0])"

definition work_size :: "'m PersistentStorage \<Rightarrow> nat" where
  "work_size store = (case buffer_data store of Some _ \<Rightarrow> buffer_size store | None \<Rightarrow> 1)"

definition keep_work :: "'m PersistentStorage \<Rightarrow> u8 list \<Rightarrow> 'm PersistentStorage" where
  "keep_work store data = (case buffer_data store of Some _ \<Rightarrow> store\<lparr>buffer_data := Some data\<rparr> | None \<Rightarrow> store)"

partial_function (option) calculate_loop ::
    "'m PersistentStorage \<Rightarrow> nat \<Rightarrow> 'm \<Rightarrow> u8 list \<Rightarrow> nat \<Rightarrow> nat \<Rightarrow> PersistentChecksum
       \<Rightarrow> (PersistentAccess \<times> PersistentChecksum \<times> u8 list \<times> 'm) option" where
  "calculate_loop store bsize m data address rest value =
     (if rest = 0 then Some (PERSISTENT_ACCESS_SUCCESS, value, data, m)
      else do {
        let toget = (if rest > bsize then bsize else rest);
        (n, xs, m) \<leftarrow> Some (block_read store m address toget);
        data \<leftarrow> mem_write data 0 xs;
        if n \<noteq> toget then Some (PERSISTENT_ACCESS_IO_ERROR, value, data, m)
        else do {
          block \<leftarrow> mem_read data 0 toget;
          value \<leftarrow> process_block store block value;
          calculate_loop store bsize m data (pa_add address toget) (rest - toget) value
        }
      })"

definition persistent_calculate_checksum ::
    "'m PersistentStorage \<Rightarrow> 'm \<Rightarrow> (PersistentAccess \<times> PersistentChecksum \<times> 'm PersistentStorage \<times> 'm) option" where
  "persistent_calculate_checksum store m = do {
     (access, value, data, m) \<leftarrow> calculate_loop store (work_size store) m (work_memory store)
        (data_address store) (data_size store) (checksum_initial store);
     Some (access, value, keep_work store data, m)
   }"

definition persistent_store_checksum ::
    "endianness \<Rightarrow> 'm PersistentStorage \<Rightarrow> 'm \<Rightarrow> PersistentChecksum \<Rightarrow> (PersistentAccess \<times> 'm) option" where
  "persistent_store_checksum e store m chk = do {
     obj \<leftarrow> (if checksum_type store = PERSISTENT_CHECKSUM_32BIT
             then (case chk of Sum32 v \<Rightarrow> Some (obj_octets e v) | _ \<Rightarrow> None)
             else (case chk of Sum16 v \<Rightarrow> Some (obj_octets e v) | _ \<Rightarrow> None));
     xs \<leftarrow> mem_read obj 0 (checksum_width store);
     let (n, m) = block_write store m (checksum_address store) xs;
     Some (if n \<noteq> checksum_width store then PERSISTENT_ACCESS_IO_ERROR else PERSISTENT_ACCESS_SUCCESS, m)
   }"

text \<open>The value is only meaningful when all its octets were read.\<close>

definition persistent_fetch_checksum ::
    "endianness \<Rightarrow> 'm PersistentStorage \<Rightarrow> 'm \<Rightarrow> (PersistentAccess \<times> PersistentChecksum \<times> 'm) option" where
  "persistent_fetch_checksum e store m = do {
     let (n, xs, m) = block_read store m (checksum_address store) (checksum_width store);
     value \<leftarrow> (if checksum_type store = PERSISTENT_CHECKSUM_32BIT
               then do { obj \<leftarrow> mem_write (obj_octets e (0 :: u32)) 0 xs; Some (Sum32 (host_value e obj)) }
               else do { obj \<leftarrow> mem_write (obj_octets e (0 :: u16)) 0 xs; Some (Sum16 (host_value e obj)) });
     Some (if n \<noteq> checksum_width store then PERSISTENT_ACCESS_IO_ERROR else PERSISTENT_ACCESS_SUCCESS, value, m)
   }"

definition persistent_match :: "'m PersistentStorage \<Rightarrow> PersistentChecksum \<Rightarrow> PersistentChecksum \<Rightarrow> bool option" where
  "persistent_match store a b =
     (case checksum_type store of
        PERSISTENT_CHECKSUM_16BIT \<Rightarrow> (case (a, b) of (Sum16 x, Sum16 y) \<Rightarrow> Some (x = y) | _ \<Rightarrow> None)
      | PERSISTENT_CHECKSUM_32BIT \<Rightarrow> (case (a, b) of (Sum32 x, Sum32 y) \<Rightarrow> Some (x = y) | _ \<Rightarrow> None))"

section \<open>Validation and transfer\<close>

definition persistent_validate ::
    "endianness \<Rightarrow> 'm PersistentStorage \<Rightarrow> 'm \<Rightarrow> (PersistentAccess \<times> 'm PersistentStorage \<times> 'm) option" where
  "persistent_validate e store m = do {
     (access, stored, m) \<leftarrow> persistent_fetch_checksum e store m;
     if access \<noteq> PERSISTENT_ACCESS_SUCCESS then Some (access, store, m)
     else do {
       (access, calculated, store, m) \<leftarrow> persistent_calculate_checksum store m;
       if access \<noteq> PERSISTENT_ACCESS_SUCCESS then Some (access, store, m)
       else do {
         valid \<leftarrow> persistent_match store stored calculated;
         Some (if valid then PERSISTENT_ACCESS_SUCCESS else PERSISTENT_ACCESS_INVALID_DATA, store, m)
       }
     }
   }"

definition persistent_fetch_part ::
    "u8 list \<Rightarrow> 'm PersistentStorage \<Rightarrow> 'm \<Rightarrow> nat \<Rightarrow> nat \<Rightarrow> (PersistentAccess \<times> u8 list \<times> 'm) option" where
  "persistent_fetch_part dst store m offset n =
     (if sz_add offset n > data_size store then Some (PERSISTENT_ACCESS_ADDRESS_OUT_OF_RANGE, dst, m)
      else do {
        let address = pa_add (data_address store) offset;
        let (r, xs, m) = block_read store m address n;
        dst \<leftarrow> mem_write dst 0 xs;
        Some (if r = n then PERSISTENT_ACCESS_SUCCESS else PERSISTENT_ACCESS_IO_ERROR, dst, m)
      })"

definition persistent_fetch ::
    "u8 list \<Rightarrow> 'm PersistentStorage \<Rightarrow> 'm \<Rightarrow> (PersistentAccess \<times> u8 list \<times> 'm) option" where
  "persistent_fetch dst store m = persistent_fetch_part dst store m 0 (data_size store)"

definition persistent_store_part ::
    "endianness \<Rightarrow> 'm PersistentStorage \<Rightarrow> 'm \<Rightarrow> u8 list \<Rightarrow> nat \<Rightarrow> nat
       \<Rightarrow> (PersistentAccess \<times> 'm PersistentStorage \<times> 'm) option" where
  "persistent_store_part e store m src offset n =
     (if sz_add offset n > data_size store then Some (PERSISTENT_ACCESS_ADDRESS_OUT_OF_RANGE, store, m)
      else do {
        let address = pa_add (data_address store) offset;
        xs \<leftarrow> mem_read src 0 n;
        let (stored, m) = block_write store m address xs;
        if stored \<noteq> n then Some (PERSISTENT_ACCESS_IO_ERROR, store, m)
        else if offset = 0 \<and> n = data_size store then do {
          chk \<leftarrow> persistent_checksum store src;
          (access, m) \<leftarrow> persistent_store_checksum e store m chk;
          Some (access, store, m)
        }
        else do {
          (access, chk, store, m) \<leftarrow> persistent_calculate_checksum store m;
          if access \<noteq> PERSISTENT_ACCESS_SUCCESS then Some (access, store, m)
          else do {
            (access, m) \<leftarrow> persistent_store_checksum e store m chk;
            Some (access, store, m)
          }
        }
      })"

definition persistent_store ::
    "endianness \<Rightarrow> 'm PersistentStorage \<Rightarrow> 'm \<Rightarrow> u8 list \<Rightarrow> (PersistentAccess \<times> 'm PersistentStorage \<times> 'm) option" where
  "persistent_store e store m src = persistent_store_part e store m src 0 (data_size store)"

partial_function (option) written_loop ::
    "'m PersistentStorage \<Rightarrow> nat \<Rightarrow> 'm \<Rightarrow> u8 list \<Rightarrow> nat \<Rightarrow> nat \<Rightarrow> (PersistentAccess \<times> 'm) option" where
  "written_loop store bsize m data address rest =
     (if rest = 0 then Some (PERSISTENT_ACCESS_SUCCESS, m)
      else do {
        let toput = (if rest > bsize then bsize else rest);
        block \<leftarrow> mem_read data 0 toput;
        (n, m) \<leftarrow> Some (block_write store m address block);
        if n \<noteq> toput then Some (PERSISTENT_ACCESS_IO_ERROR, m)
        else written_loop store bsize m data (pa_add address toput) (rest - toput)
      })"

definition persistent_written ::
    "'m PersistentStorage \<Rightarrow> 'm \<Rightarrow> nat \<Rightarrow> u8 \<Rightarrow> nat \<Rightarrow> (PersistentAccess \<times> 'm PersistentStorage \<times> 'm) option" where
  "persistent_written store m address item k = do {
     data \<leftarrow> mem_write (work_memory store) 0 (replicate (work_size store) item);
     (access, m) \<leftarrow> written_loop store (work_size store) m data address k;
     Some (access, keep_work store data, m)
   }"

definition persistent_reset ::
    "'m PersistentStorage \<Rightarrow> 'm \<Rightarrow> u8 \<Rightarrow> (PersistentAccess \<times> 'm PersistentStorage \<times> 'm) option" where
  "persistent_reset store m item = do {
     (rv, store, m) \<leftarrow> persistent_written store m (checksum_address store) item (checksum_width store);
     if rv \<noteq> PERSISTENT_ACCESS_SUCCESS then Some (rv, store, m)
     else persistent_written store m (data_address store) item (data_size store)
   }"

definition persistent_access_to_errno :: "PersistentAccess \<Rightarrow> int" where
  "persistent_access_to_errno pa = (case pa of
       PERSISTENT_ACCESS_SUCCESS \<Rightarrow> 0
     | PERSISTENT_ACCESS_INVALID_DATA \<Rightarrow> - EINVAL
     | PERSISTENT_ACCESS_IO_ERROR \<Rightarrow> - EIO
     | PERSISTENT_ACCESS_ADDRESS_OUT_OF_RANGE \<Rightarrow> - ERANGE)"

section \<open>Checksums of blocks\<close>

definition sum_kind :: "'m PersistentStorage \<Rightarrow> PersistentChecksum \<Rightarrow> bool" where
  "sum_kind store v = (case checksum_type store of
       PERSISTENT_CHECKSUM_16BIT \<Rightarrow> (\<exists>x. v = Sum16 x)
     | PERSISTENT_CHECKSUM_32BIT \<Rightarrow> (\<exists>x. v = Sum32 x))"

text \<open>The checksum is configured consistently, and it can be computed in pieces.\<close>

definition sum_configured :: "'m PersistentStorage \<Rightarrow> bool" where
  "sum_configured store = (case checksum_type store of
       PERSISTENT_CHECKSUM_16BIT \<Rightarrow> (\<exists>f. checksum_process store = C16 f \<and> streaming_sum (\<lambda>c xs. f xs c))
     | PERSISTENT_CHECKSUM_32BIT \<Rightarrow> (\<exists>f. checksum_process store = C32 f \<and> streaming_sum (\<lambda>c xs. f xs c)))"

lemma trivialsum_append: "trivialsum (xs @ ys) c = trivialsum ys (trivialsum xs c)"
  by (induction xs arbitrary: c) simp_all

interpretation trivial: streaming_sum "\<lambda>c xs. trivialsum xs c"
  by unfold_locales (simp_all add: trivialsum_append)

lemma process_block_kind:
  assumes "sum_configured store" and "sum_kind store v"
  shows "\<exists>v'. process_block store xs v = Some v' \<and> sum_kind store v'"
  using assms
  by (auto simp: sum_configured_def sum_kind_def process_block_def split: PersistentChecksumType.splits)

lemma streaming_process:
  fixes f :: "u8 list \<Rightarrow> 'c \<Rightarrow> 'c"
  assumes "streaming_sum (\<lambda>c xs. f xs c)"
  shows "f [] c = c" "f (xs @ ys) c = f ys (f xs c)"
  using streaming_sum.sum_Nil [OF assms, where c = c]
    streaming_sum.sum_append [OF assms, where c = c and xs = xs and ys = ys] by simp_all

lemma process_block_Nil:
  assumes "sum_configured store" and "sum_kind store v"
  shows "process_block store [] v = Some v"
  using assms
  by (auto simp: sum_configured_def sum_kind_def process_block_def streaming_process
      split: PersistentChecksumType.splits)

lemma process_block_append:
  assumes "sum_configured store" and "sum_kind store v"
  shows "process_block store (xs @ ys) v = do { v \<leftarrow> process_block store xs v; process_block store ys v }"
  using assms
  by (auto simp: sum_configured_def sum_kind_def process_block_def streaming_process
      split: PersistentChecksumType.splits)

definition sum_octets :: "endianness \<Rightarrow> PersistentChecksum \<Rightarrow> u8 list" where
  "sum_octets e v = (case v of Sum16 x \<Rightarrow> obj_octets e x | Sum32 x \<Rightarrow> obj_octets e x)"

lemma length_obj_octets [simp]: "length (obj_octets e (w :: 'a::len word)) = LENGTH('a) div 8"
  by (simp add: obj_octets_def)

lemma obj_octets_value:
  assumes "8 * length ys = LENGTH('a)"
  shows "obj_octets e (host_value e ys :: 'a::len word) = ys"
proof -
  have n: "LENGTH('a) div 8 = length ys"
    unfolding assms [symmetric] by simp
  show ?thesis
    using le_octets_value [of ys, where 'a = 'a] le_octets_value [of "rev ys", where 'a = 'a] assms n
    by (cases e) (simp_all add: obj_octets_def host_octets_def host_value_def be_octets_def be_value_def)
qed

lemma length_sum_octets: "sum_kind store v \<Longrightarrow> length (sum_octets e v) = checksum_size store"
  by (auto simp: sum_kind_def sum_octets_def checksum_size_def split: PersistentChecksumType.splits)

lemma sum_octets_inject:
  assumes "sum_kind store v" "sum_kind store w"
  shows "sum_octets e v = sum_octets e w \<longleftrightarrow> v = w"
proof -
  have "host_value e (obj_octets e x) = x" "host_value e (obj_octets e y) = y" for x :: u16 and y :: u32
    by (simp_all add: obj_octets_def host_value_octets take_bit_word_eq_self)
  then have "obj_octets e x = obj_octets e x' \<longleftrightarrow> x = x'" "obj_octets e y = obj_octets e y' \<longleftrightarrow> y = y'"
    for x x' :: u16 and y y' :: u32
    by metis+
  then show ?thesis
    using assms by (auto simp: sum_kind_def sum_octets_def split: PersistentChecksumType.splits)
qed

lemma persistent_match_eq:
  "sum_kind store v \<Longrightarrow> sum_kind store w \<Longrightarrow> persistent_match store v w = Some (v = w)"
  by (auto simp: sum_kind_def persistent_match_def split: PersistentChecksumType.splits)

text \<open>An instance with its checksum directly before the data, in a range of addresses that does not wrap.\<close>

definition store_ok :: "'m PersistentStorage \<Rightarrow> bool" where
  "store_ok store \<longleftrightarrow> sum_configured store \<and> sum_kind store (checksum_initial store) \<and>
     checksum_width store = checksum_size store \<and>
     data_address store = checksum_address store + checksum_width store \<and>
     data_address store + data_size store \<le> 2 ^ 32 \<and>
     0 < work_size store \<and> work_size store \<le> length (work_memory store)"

lemma keep_work_fields [simp]:
  "data_address (keep_work store w) = data_address store" "data_size (keep_work store w) = data_size store"
  "checksum_address (keep_work store w) = checksum_address store" "checksum_width (keep_work store w) = checksum_width store"
  "checksum_type (keep_work store w) = checksum_type store" "checksum_initial (keep_work store w) = checksum_initial store"
  "checksum_process (keep_work store w) = checksum_process store" "block_read (keep_work store w) = block_read store"
  "block_write (keep_work store w) = block_write store" "work_size (keep_work store w) = work_size store"
  by (simp_all add: keep_work_def work_size_def split: option.split)

lemma keep_work_sums [simp]:
  "process_block (keep_work store w) = process_block store" "sum_kind (keep_work store w) = sum_kind store"
  "sum_configured (keep_work store w) = sum_configured store" "checksum_size (keep_work store w) = checksum_size store"
  by (simp_all add: fun_eq_iff process_block_def sum_kind_def sum_configured_def checksum_size_def
      cong: PersistentChecksumType.case_cong)

lemma keep_work_memory: "buffer_data store = None \<Longrightarrow> work_memory (keep_work store w) = work_memory store"
  "buffer_data store = Some d \<Longrightarrow> work_memory (keep_work store w) = w"
  by (simp_all add: keep_work_def work_memory_def)

lemma store_ok_keep_work [simp]:
  "length w = length (work_memory store) \<Longrightarrow> store_ok (keep_work store w) = store_ok store"
  using keep_work_memory [of store] by (cases "buffer_data store") (auto simp: store_ok_def)

text \<open>
  The octets of the instance among the contents \<open>c\<close> of a medium, and whether its checksum is the one of
  its data.
\<close>

definition stored_data :: "'m PersistentStorage \<Rightarrow> u8 list \<Rightarrow> u8 list" where
  "stored_data store c = take (data_size store) (drop (data_address store) c)"

definition stored_sum :: "'m PersistentStorage \<Rightarrow> u8 list \<Rightarrow> u8 list" where
  "stored_sum store c = take (checksum_width store) (drop (checksum_address store) c)"

definition intact :: "endianness \<Rightarrow> 'm PersistentStorage \<Rightarrow> u8 list \<Rightarrow> bool" where
  "intact e store c \<longleftrightarrow> map_option (sum_octets e) (process_block store (stored_data store c) (checksum_initial store)) =
     Some (stored_sum store c)"

lemma stored_overwrite:
  assumes "off + length xs \<le> data_size store" "data_address store + data_size store \<le> length c"
  shows "stored_data store (overwrite c (data_address store + off) xs) = overwrite (stored_data store c) off xs"
  using assms by (intro nth_equalityI) (auto simp: stored_data_def overwrite_def nth_append)

text \<open>Contents that agree outside of the instance.\<close>

definition same_elsewhere :: "'m PersistentStorage \<Rightarrow> u8 list \<Rightarrow> u8 list \<Rightarrow> bool" where
  "same_elsewhere store c c' \<longleftrightarrow> length c' = length c \<and> take (checksum_address store) c' = take (checksum_address store) c \<and>
     drop (data_address store + data_size store) c' = drop (data_address store + data_size store) c"

lemma same_elsewhere_range:
  assumes "length c' = length c" "take a c' = take a c" "drop b c' = drop b c"
    and "checksum_address store \<le> a" "b \<le> data_address store + data_size store"
  shows "same_elsewhere store c c'"
proof -
  have "take (checksum_address store) (take a c') = take (checksum_address store) (take a c)"
    by (simp only: assms(2))
  moreover have "drop (data_address store + data_size store - b) (drop b c') = drop (data_address store + data_size store - b) (drop b c)"
    by (simp only: assms(3))
  ultimately show ?thesis
    using assms(1,4,5) by (simp add: same_elsewhere_def min_def split: if_splits)
qed

lemma same_elsewhere_trans:
  "same_elsewhere store a b \<Longrightarrow> same_elsewhere store b c \<Longrightarrow> same_elsewhere store a c"
  by (simp add: same_elsewhere_def)

lemma keep_work_same [simp]: "keep_work store (work_memory store) = store"
  by (simp add: keep_work_def work_memory_def split: option.split)

section \<open>Media\<close>

text \<open>
  What the callbacks promise: a call that reports the number it was asked for did all of it, any other
  call did something within its range. A medium may refuse any call, unless it is \<open>flawless\<close>: then it
  serves all calls within its contents.
\<close>

locale storage_medium =
  fixes rd :: "'m PersistentBlockRead" and wr :: "'m PersistentBlockWrite" and contents :: "'m \<Rightarrow> u8 list"
    and flawless :: bool
  assumes rd_law: "rd m a n = (k, xs, m') \<Longrightarrow> contents m' = contents m \<and> length xs \<le> n \<and>
        (k = n \<longrightarrow> 0 < n \<longrightarrow> a + n \<le> length (contents m) \<and> xs = take n (drop a (contents m)))"
    and wr_law: "wr m a xs = (k, m') \<Longrightarrow> length (contents m') = length (contents m) \<and>
        take a (contents m') = take a (contents m) \<and>
        drop (a + length xs) (contents m') = drop (a + length xs) (contents m) \<and>
        (k = length xs \<longrightarrow> xs \<noteq> [] \<longrightarrow> a + length xs \<le> length (contents m) \<and> contents m' = overwrite (contents m) a xs)"
    and rd_flawless: "flawless \<Longrightarrow> a + n \<le> length (contents m) \<Longrightarrow> fst (rd m a n) = n"
    and wr_flawless: "flawless \<Longrightarrow> a + length xs \<le> length (contents m) \<Longrightarrow> fst (wr m a xs) = length xs"
begin

lemma calculate_loop_ok:
  assumes "block_read store = rd" "sum_configured store" "sum_kind store v" "0 < bsize" "bsize \<le> length data"
    and "a + rest \<le> 2 ^ 32"
  shows "\<exists>access v' data' m'. calculate_loop store bsize m data a rest v = Some (access, v', data', m') \<and>
     contents m' = contents m \<and> length data' = length data \<and>
     (access = PERSISTENT_ACCESS_SUCCESS \<and> (0 < rest \<longrightarrow> a + rest \<le> length (contents m)) \<and>
        process_block store (take rest (drop a (contents m))) v = Some v' \<or>
      access = PERSISTENT_ACCESS_IO_ERROR \<and> \<not> (flawless \<and> a + rest \<le> length (contents m)))"
  using assms(3,5,6)
proof (induction rest arbitrary: m data a v rule: less_induct)
  case (less rest)
  note unf = calculate_loop.simps [of store bsize m data a rest v]
  show ?case
  proof (cases "rest = 0")
    case True
    with less.prems show ?thesis
      by (subst unf) (simp add: process_block_Nil [OF assms(2)])
  next
    case False
    define toget where "toget = (if rest > bsize then bsize else rest)"
    have t: "0 < toget" "toget \<le> rest" "toget \<le> length data"
      using False assms(4) less.prems(2) by (auto simp: toget_def)
    obtain k xs m1 where r: "rd m a toget = (k, xs, m1)"
      by (metis prod_cases3)
    from rd_law [OF r] have law: "contents m1 = contents m" "length xs \<le> toget"
      "k = toget \<Longrightarrow> a + toget \<le> length (contents m) \<and> xs = take toget (drop a (contents m))"
      using t by auto
    let ?data = "overwrite data 0 xs"
    have w: "mem_write data 0 xs = Some ?data" "length ?data = length data"
      using law(2) t by (auto simp: mem_write_overwrite)
    show ?thesis
    proof (cases "k = toget")
      case False
      have "calculate_loop store bsize m data a rest v = Some (PERSISTENT_ACCESS_IO_ERROR, v, ?data, m1)"
        using \<open>rest \<noteq> 0\<close> False r w assms(1) by (subst unf) (simp add: toget_def)
      moreover have "\<not> (flawless \<and> a + rest \<le> length (contents m))"
        using rd_flawless [of a toget m] r False t by auto
      ultimately show ?thesis
        using law w by simp
    next
      case True
      from law(3) [OF True] have l: "a + toget \<le> length (contents m)" "xs = take toget (drop a (contents m))"
        by auto
      have xs: "length xs = toget"
        using l by simp
      have b: "mem_read ?data 0 toget = Some xs"
        using xs t mem_read_overwrite [of 0 xs data toget] by simp
      obtain v1 where v1: "process_block store xs v = Some v1" "sum_kind store v1"
        using process_block_kind [OF assms(2) less.prems(1)] by blast
      have step: "calculate_loop store bsize m data a rest v =
          calculate_loop store bsize m1 ?data (pa_add a toget) (rest - toget) v1"
        using \<open>rest \<noteq> 0\<close> True r w b v1 assms(1) by (subst unf) (simp add: toget_def)
      show ?thesis
      proof (cases "rest = toget")
        case True
        have "calculate_loop store bsize m1 ?data (pa_add a toget) 0 v1 =
            Some (PERSISTENT_ACCESS_SUCCESS, v1, ?data, m1)"
          by (subst calculate_loop.simps) simp
        with True step l v1 w law show ?thesis
          by simp
      next
        case False
        then have a: "pa_add a toget = a + toget" and lt: "rest - toget < rest" and
            bound: "(a + toget) + (rest - toget) \<le> 2 ^ 32" and wl: "bsize \<le> length ?data"
          using less.prems(2,3) t w by (auto simp: pa_add_def)
        obtain access v' data' m' where ih:
          "calculate_loop store bsize m1 ?data (a + toget) (rest - toget) v1 = Some (access, v', data', m')"
          "contents m' = contents m1" "length data' = length ?data"
          "access = PERSISTENT_ACCESS_SUCCESS \<and> (0 < rest - toget \<longrightarrow> a + toget + (rest - toget) \<le> length (contents m1)) \<and>
             process_block store (take (rest - toget) (drop (a + toget) (contents m1))) v1 = Some v' \<or>
           access = PERSISTENT_ACCESS_IO_ERROR \<and> \<not> (flawless \<and> a + toget + (rest - toget) \<le> length (contents m1))"
          using less.IH [OF lt v1(2) wl bound] by blast
        have split: "take rest (drop a (contents m)) = xs @ take (rest - toget) (drop (a + toget) (contents m))"
          using t l(2) take_add [of toget "rest - toget" "drop a (contents m)"] by (simp add: add.commute)
        have "process_block store (take rest (drop a (contents m))) v =
            process_block store (take (rest - toget) (drop (a + toget) (contents m))) v1"
          unfolding split process_block_append [OF assms(2) less.prems(1)] by (simp add: v1)
        with ih law(1) step a t False w(2) show ?thesis
          by auto
      qed
    qed
  qed
qed

lemma calculate_ok:
  assumes "store_ok store" "block_read store = rd"
  shows "\<exists>access v w m'. persistent_calculate_checksum store m = Some (access, v, keep_work store w, m') \<and>
     contents m' = contents m \<and> length w = length (work_memory store) \<and>
     (access = PERSISTENT_ACCESS_SUCCESS \<and>
        (0 < data_size store \<longrightarrow> data_address store + data_size store \<le> length (contents m)) \<and>
        process_block store (stored_data store (contents m)) (checksum_initial store) = Some v \<and> sum_kind store v \<or>
      access = PERSISTENT_ACCESS_IO_ERROR \<and> \<not> (flawless \<and> data_address store + data_size store \<le> length (contents m)))"
proof -
  have c: "sum_configured store" "sum_kind store (checksum_initial store)" "0 < work_size store"
    "work_size store \<le> length (work_memory store)" "data_address store + data_size store \<le> 2 ^ 32"
    using assms(1) by (simp_all add: store_ok_def)
  obtain access v w m' where l: "calculate_loop store (work_size store) m (work_memory store) (data_address store)
       (data_size store) (checksum_initial store) = Some (access, v, w, m')"
     "contents m' = contents m" "length w = length (work_memory store)"
     "access = PERSISTENT_ACCESS_SUCCESS \<and> (0 < data_size store \<longrightarrow> data_address store + data_size store \<le> length (contents m)) \<and>
        process_block store (stored_data store (contents m)) (checksum_initial store) = Some v \<or>
      access = PERSISTENT_ACCESS_IO_ERROR \<and> \<not> (flawless \<and> data_address store + data_size store \<le> length (contents m))"
    using calculate_loop_ok [OF assms(2) c(1,2,3,4,5), of m] by (auto simp: stored_data_def)
  moreover have "process_block store (stored_data store (contents m)) (checksum_initial store) = Some v \<Longrightarrow> sum_kind store v"
    using process_block_kind [OF c(1,2), of "stored_data store (contents m)"] by auto
  ultimately show ?thesis
    by (auto simp: persistent_calculate_checksum_def)
qed

lemma store_checksum_ok:
  assumes "store_ok store" "block_write store = wr" "sum_kind store v"
  shows "\<exists>access m'. persistent_store_checksum e store m v = Some (access, m') \<and>
     take (checksum_address store) (contents m') = take (checksum_address store) (contents m) \<and>
     drop (data_address store) (contents m') = drop (data_address store) (contents m) \<and>
     length (contents m') = length (contents m) \<and>
     (access = PERSISTENT_ACCESS_SUCCESS \<and> stored_sum store (contents m') = sum_octets e v \<or> access = PERSISTENT_ACCESS_IO_ERROR \<and> \<not> (flawless \<and> data_address store \<le> length (contents m)))"
proof -
  have len: "length (sum_octets e v) = checksum_width store" "0 < checksum_width store"
    using assms(1) length_sum_octets [OF assms(3), of e] by (simp_all add: store_ok_def checksum_size_def
        split: PersistentChecksumType.split)
  have da: "data_address store = checksum_address store + checksum_width store"
    using assms(1) by (simp add: store_ok_def)
  obtain k m' where w: "wr m (checksum_address store) (sum_octets e v) = (k, m')"
    by fastforce
  from wr_law [OF w] len have law: "length (contents m') = length (contents m)"
    "take (checksum_address store) (contents m') = take (checksum_address store) (contents m)"
    "drop (data_address store) (contents m') = drop (data_address store) (contents m)"
    "k = checksum_width store \<Longrightarrow> checksum_address store + checksum_width store \<le> length (contents m) \<and>
       contents m' = overwrite (contents m) (checksum_address store) (sum_octets e v)"
    by (auto simp: da)
  have "k = checksum_width store \<Longrightarrow> stored_sum store (contents m') = sum_octets e v"
    using law(4) len by (auto simp: stored_sum_def overwrite_def)
  moreover have "flawless \<Longrightarrow> data_address store \<le> length (contents m) \<Longrightarrow> k = checksum_width store"
    using wr_flawless [of "checksum_address store" "sum_octets e v" m] w len da by simp
  moreover have "persistent_store_checksum e store m v =
      Some (if k \<noteq> checksum_width store then PERSISTENT_ACCESS_IO_ERROR else PERSISTENT_ACCESS_SUCCESS, m')"
    using assms(2,3) w len
    by (auto simp: persistent_store_checksum_def sum_kind_def sum_octets_def mem_read_def
        split: PersistentChecksumType.splits)
  ultimately show ?thesis
    using law by auto
qed

lemma fetch_checksum_ok:
  assumes "store_ok store" "block_read store = rd"
  shows "\<exists>access v m'. persistent_fetch_checksum e store m = Some (access, v, m') \<and> contents m' = contents m \<and>
     sum_kind store v \<and>
     (access = PERSISTENT_ACCESS_SUCCESS \<and> stored_sum store (contents m) = sum_octets e v \<or> access = PERSISTENT_ACCESS_IO_ERROR \<and> \<not> (flawless \<and> data_address store \<le> length (contents m)))"
proof -
  have wd: "checksum_width store = (case checksum_type store of PERSISTENT_CHECKSUM_16BIT \<Rightarrow> 2 | PERSISTENT_CHECKSUM_32BIT \<Rightarrow> 4)"
    using assms(1) by (simp add: store_ok_def checksum_size_def)
  obtain k xs m' where r: "rd m (checksum_address store) (checksum_width store) = (k, xs, m')"
    by (metis prod_cases3)
  from rd_law [OF r] wd have law: "contents m' = contents m" "length xs \<le> checksum_width store"
    "k = checksum_width store \<Longrightarrow> xs = stored_sum store (contents m) \<and> length xs = checksum_width store"
    by (auto simp: stored_sum_def split: PersistentChecksumType.splits)
  have fl: "flawless \<Longrightarrow> data_address store \<le> length (contents m) \<Longrightarrow> k = checksum_width store"
    using rd_flawless [of "checksum_address store" "checksum_width store" m] r assms(1) by (simp add: store_ok_def)
  show ?thesis
  proof (cases "checksum_type store")
    case PERSISTENT_CHECKSUM_16BIT
    let ?obj = "overwrite (obj_octets e (0 :: u16)) 0 xs"
    have "k = 2 \<Longrightarrow> ?obj = xs \<and> length xs = 2"
      using law(3) wd PERSISTENT_CHECKSUM_16BIT by (auto simp: overwrite_def)
    moreover have "persistent_fetch_checksum e store m =
        Some (if k \<noteq> 2 then PERSISTENT_ACCESS_IO_ERROR else PERSISTENT_ACCESS_SUCCESS, Sum16 (host_value e ?obj), m')"
      using r wd law(2) assms(2) PERSISTENT_CHECKSUM_16BIT
      by (simp add: persistent_fetch_checksum_def mem_write_overwrite)
    ultimately show ?thesis
      using law wd fl PERSISTENT_CHECKSUM_16BIT obj_octets_value [of xs e, where 'a = 16]
      by (auto simp: sum_kind_def sum_octets_def)
  next
    case PERSISTENT_CHECKSUM_32BIT
    let ?obj = "overwrite (obj_octets e (0 :: u32)) 0 xs"
    have "k = 4 \<Longrightarrow> ?obj = xs \<and> length xs = 4"
      using law(3) wd PERSISTENT_CHECKSUM_32BIT by (auto simp: overwrite_def)
    moreover have "persistent_fetch_checksum e store m =
        Some (if k \<noteq> 4 then PERSISTENT_ACCESS_IO_ERROR else PERSISTENT_ACCESS_SUCCESS, Sum32 (host_value e ?obj), m')"
      using r wd law(2) assms(2) PERSISTENT_CHECKSUM_32BIT
      by (simp add: persistent_fetch_checksum_def mem_write_overwrite)
    ultimately show ?thesis
      using law wd fl PERSISTENT_CHECKSUM_32BIT obj_octets_value [of xs e, where 'a = 32]
      by (auto simp: sum_kind_def sum_octets_def)
  qed
qed

lemma write_data_ok:
  assumes ok: "store_ok store" and fit: "offset + length xs \<le> data_size store"
    and w: "wr m (pa_add (data_address store) offset) xs = (k, m1)"
  shows "same_elsewhere store (contents m) (contents m1)"
    and "xs = [] \<Longrightarrow> contents m1 = contents m"
    and "k = length xs \<Longrightarrow> xs \<noteq> [] \<Longrightarrow> data_address store + offset + length xs \<le> length (contents m) \<and>
           contents m1 = overwrite (contents m) (data_address store + offset) xs"
proof -
  let ?da = "data_address store"
  have da: "?da + data_size store \<le> 2 ^ 32" "?da = checksum_address store + checksum_width store"
    using ok by (simp_all add: store_ok_def)
  from wr_law [OF w] show empty: "xs = [] \<Longrightarrow> contents m1 = contents m"
    by (metis append_take_drop_id add_0_right list.size(3))
  have addr: "pa_add ?da offset = ?da + offset" if "xs \<noteq> []"
    using that fit da(1) by (cases xs) (simp_all add: pa_add_def)
  then show "k = length xs \<Longrightarrow> xs \<noteq> [] \<Longrightarrow> ?da + offset + length xs \<le> length (contents m) \<and>
      contents m1 = overwrite (contents m) (?da + offset) xs"
    using wr_law [OF w] by auto
  show "same_elsewhere store (contents m) (contents m1)"
  proof (cases "xs = []")
    case False
    with wr_law [OF w] addr fit da(2) show ?thesis
      by (intro same_elsewhere_range [where a = "?da + offset" and b = "?da + offset + length xs"]) auto
  qed (simp add: empty same_elsewhere_def)
qed

lemma data_written:
  assumes "store_ok store" "offset + length xs \<le> data_size store"
    and "wr m (pa_add (data_address store) offset) xs = (length xs, m1)"
    and "xs \<noteq> [] \<longrightarrow> length xs = data_size store \<or> data_address store + data_size store \<le> length (contents m)"
  shows "stored_data store (contents m1) = overwrite (stored_data store (contents m)) offset xs"
proof (cases "xs = []")
  case False
  then show ?thesis
    using write_data_ok(3) [OF assms(1-3) refl] assms(2,4) stored_overwrite [of offset xs store "contents m"]
    by auto
qed (simp add: write_data_ok(2) [OF assms(1-3)])

lemma finish_store_ok:
  assumes "store_ok store" "block_write store = wr" "sum_kind store v" "contents m2 = c"
    and "process_block store (stored_data store c) (checksum_initial store) = Some v"
  shows "\<exists>access m'. persistent_store_checksum e store m2 v = Some (access, m') \<and>
       same_elsewhere store c (contents m') \<and>
       (access = PERSISTENT_ACCESS_SUCCESS \<and> stored_data store (contents m') = stored_data store c \<and>
          intact e store (contents m') \<or> access = PERSISTENT_ACCESS_IO_ERROR \<and> \<not> (flawless \<and> data_address store \<le> length c))"
proof -
  let ?da = "data_address store"
  obtain access m' where c: "persistent_store_checksum e store m2 v = Some (access, m')"
     "take (checksum_address store) (contents m') = take (checksum_address store) c"
     "drop ?da (contents m') = drop ?da c" "length (contents m') = length c"
     "access = PERSISTENT_ACCESS_SUCCESS \<and> stored_sum store (contents m') = sum_octets e v \<or> access = PERSISTENT_ACCESS_IO_ERROR \<and> \<not> (flawless \<and> data_address store \<le> length c)"
    using store_checksum_ok [OF assms(1-3), of e m2] assms(4) by auto
  moreover have "same_elsewhere store c (contents m')"
    using c(2,3,4) by (intro same_elsewhere_range [where a = "checksum_address store" and b = ?da]) simp_all
  moreover have "stored_data store (contents m') = stored_data store c"
    using c(3) by (simp add: stored_data_def)
  ultimately show ?thesis
    using assms(5) by (auto simp: intact_def)
qed

lemma keep_work_stored [simp]:
  "stored_data (keep_work store u) = stored_data store" "same_elsewhere (keep_work store u) = same_elsewhere store"
  "intact e (keep_work store u) = intact e store"
  by (simp_all add: fun_eq_iff stored_data_def stored_sum_def same_elsewhere_def intact_def)

lemma store_part_ok:
  assumes ok: "store_ok store" and rd: "block_read store = rd" and wr: "block_write store = wr"
    and fit: "offset + n \<le> data_size store" "n \<le> length src"
  shows "\<exists>access w m'. persistent_store_part e store m src offset n = Some (access, keep_work store w, m') \<and>
     length w = length (work_memory store) \<and> same_elsewhere store (contents m) (contents m') \<and>
     (access = PERSISTENT_ACCESS_SUCCESS \<and>
        stored_data store (contents m') = overwrite (stored_data store (contents m)) offset (take n src) \<and>
        intact e store (contents m') \<or>
      access = PERSISTENT_ACCESS_IO_ERROR \<and> \<not> (flawless \<and> data_address store + data_size store \<le> length (contents m)))"
proof -
  let ?da = "data_address store" and ?xs = "take n src"
  have len: "length ?xs = n" and src: "mem_read src 0 n = Some ?xs" and fit': "offset + length ?xs \<le> data_size store"
    using fit by (simp_all add: mem_read_def)
  have add: "sz_add offset n = offset + n" "\<not> data_size store < offset + n"
    using fit ok by (simp_all add: store_ok_def sz_add_def SIZE_MOD_def)
  obtain k m1 where w: "wr m (pa_add ?da offset) ?xs = (k, m1)"
    by fastforce
  note written = write_data_ok [OF ok fit' w]
  have l1: "length (contents m1) = length (contents m)"
    using written(1) by (simp add: same_elsewhere_def)
  consider "k \<noteq> n" | "k = n" "offset = 0" "n = data_size store" | "k = n" "\<not> (offset = 0 \<and> n = data_size store)"
    by blast
  then show ?thesis
  proof cases
    case 1
    then have "persistent_store_part e store m src offset n = Some (PERSISTENT_ACCESS_IO_ERROR, keep_work store (work_memory store), m1)"
      using add src w wr by (simp add: persistent_store_part_def)
    moreover have "\<not> (flawless \<and> ?da + data_size store \<le> length (contents m))"
    proof
      assume fl: "flawless \<and> ?da + data_size store \<le> length (contents m)"
      then have "pa_add ?da offset + length ?xs \<le> length (contents m)"
        using fit' mod_less_eq_dividend [of "?da + offset" "2 ^ 32"] unfolding pa_add_def by linarith
      with wr_flawless [of "pa_add ?da offset" ?xs m] fl w 1 len show False
        by simp
    qed
    ultimately show ?thesis
      using written(1) by blast
  next
    case 2
    have d1: "stored_data store (contents m1) = overwrite (stored_data store (contents m)) offset ?xs"
      using data_written [OF ok fit', of m m1] w 2 len by simp
    have "length (stored_data store (contents m)) = n"
    proof (cases "n = 0")
      case False
      then have "?xs \<noteq> []"
        using len by (metis list.size(3))
      with written(3) 2 len have "?da + n \<le> length (contents m)"
        by simp
      with 2 show ?thesis
        by (simp add: stored_data_def)
    qed (use 2 in \<open>simp add: stored_data_def\<close>)
    with d1 2 len have data: "stored_data store (contents m1) = ?xs"
      by (simp add: overwrite_def)
    obtain v where v: "process_block store ?xs (checksum_initial store) = Some v" "sum_kind store v"
      using process_block_kind [of store "checksum_initial store" ?xs] ok by (auto simp: store_ok_def)
    have pb: "process_block store (stored_data store (contents m1)) (checksum_initial store) = Some v"
      using v(1) data by simp
    obtain access m' where c: "persistent_store_checksum e store m1 v = Some (access, m')"
       "same_elsewhere store (contents m1) (contents m')"
       "access = PERSISTENT_ACCESS_SUCCESS \<and> stored_data store (contents m') = stored_data store (contents m1) \<and>
          intact e store (contents m') \<or>
        access = PERSISTENT_ACCESS_IO_ERROR \<and> \<not> (flawless \<and> ?da \<le> length (contents m1))"
      using finish_store_ok [OF ok wr v(2) refl pb, of e] by blast
    have "persistent_store_part e store m src offset n = Some (access, keep_work store (work_memory store), m')"
      using 2 add src w wr v c by (simp add: persistent_store_part_def persistent_checksum_def)
    with c d1 l1 same_elsewhere_trans [OF written(1) c(2)] show ?thesis
      by (intro exI [of _ access] exI [of _ "work_memory store"] exI [of _ m']) auto
  next
    case 3
    obtain access v u m2 where c: "persistent_calculate_checksum store m1 = Some (access, v, keep_work store u, m2)"
       "contents m2 = contents m1" "length u = length (work_memory store)"
       "access = PERSISTENT_ACCESS_SUCCESS \<and> (0 < data_size store \<longrightarrow> ?da + data_size store \<le> length (contents m1)) \<and>
          process_block store (stored_data store (contents m1)) (checksum_initial store) = Some v \<and> sum_kind store v \<or>
        access = PERSISTENT_ACCESS_IO_ERROR \<and> \<not> (flawless \<and> ?da + data_size store \<le> length (contents m1))"
      using calculate_ok [OF ok rd, of m1] by metis
    show ?thesis
    proof (cases "access = PERSISTENT_ACCESS_SUCCESS")
      case True
      with c(4) have v: "process_block store (stored_data store (contents m1)) (checksum_initial store) = Some v" "sum_kind store v"
        "0 < data_size store \<longrightarrow> ?da + data_size store \<le> length (contents m)"
        using written(1) by (auto simp: same_elsewhere_def)
      have kept: "store_ok (keep_work store u)" "block_write (keep_work store u) = wr"
        using ok wr c(3) by simp_all
      have kinds: "sum_kind (keep_work store u) = sum_kind store" "process_block (keep_work store u) = process_block store"
        "stored_data (keep_work store u) = stored_data store" "checksum_initial (keep_work store u) = checksum_initial store"
        "same_elsewhere (keep_work store u) = same_elsewhere store" "intact e (keep_work store u) = intact e store"
        "data_address (keep_work store u) = ?da"
        by simp_all
      obtain access' m' where f: "persistent_store_checksum e (keep_work store u) m2 v = Some (access', m')"
         "same_elsewhere store (contents m1) (contents m')"
         "access' = PERSISTENT_ACCESS_SUCCESS \<and> stored_data store (contents m') = stored_data store (contents m1) \<and>
            intact e store (contents m') \<or>
          access' = PERSISTENT_ACCESS_IO_ERROR \<and> \<not> (flawless \<and> ?da \<le> length (contents m1))"
        using finish_store_ok [where e = e, OF kept, unfolded kinds, OF v(2) c(2) v(1)] by metis
      have "persistent_store_part e store m src offset n = Some (access', keep_work store u, m')"
        using 3 True add src w wr c f by (auto simp: persistent_store_part_def)
      moreover have "stored_data store (contents m1) = overwrite (stored_data store (contents m)) offset ?xs"
        using data_written [OF ok fit', of m m1] w 3 v(3) len fit by fastforce
      ultimately show ?thesis
        using f c(3) l1 same_elsewhere_trans [OF written(1) f(2)] by auto
    next
      case False
      then have "persistent_store_part e store m src offset n = Some (access, keep_work store u, m2)"
        using 3 add src w wr c by (auto simp: persistent_store_part_def)
      with False c written(1) l1 show ?thesis
        by auto
    qed
  qed
qed

lemma validate_ok:
  assumes ok: "store_ok store" and rd: "block_read store = rd"
  shows "\<exists>access w m'. persistent_validate e store m = Some (access, keep_work store w, m') \<and>
     length w = length (work_memory store) \<and> contents m' = contents m \<and>
     (access = PERSISTENT_ACCESS_SUCCESS \<and> intact e store (contents m) \<or>
      access = PERSISTENT_ACCESS_INVALID_DATA \<and> \<not> intact e store (contents m) \<or>
      access = PERSISTENT_ACCESS_IO_ERROR \<and> \<not> (flawless \<and> data_address store + data_size store \<le> length (contents m)))"
proof -
  obtain access v m1 where f: "persistent_fetch_checksum e store m = Some (access, v, m1)" "contents m1 = contents m"
     "sum_kind store v"
     "access = PERSISTENT_ACCESS_SUCCESS \<and> stored_sum store (contents m) = sum_octets e v \<or>
      access = PERSISTENT_ACCESS_IO_ERROR \<and> \<not> (flawless \<and> data_address store \<le> length (contents m))"
    using fetch_checksum_ok [OF ok rd, of e m] by blast
  show ?thesis
  proof (cases "access = PERSISTENT_ACCESS_SUCCESS")
    case False
    then have "persistent_validate e store m = Some (access, keep_work store (work_memory store), m1)"
      using f by (simp add: persistent_validate_def)
    with f False show ?thesis
      by (intro exI [of _ access] exI [of _ "work_memory store"] exI [of _ m1]) auto
  next
    case True
    obtain access' v' w m2 where c: "persistent_calculate_checksum store m1 = Some (access', v', keep_work store w, m2)"
       "contents m2 = contents m1" "length w = length (work_memory store)"
       "access' = PERSISTENT_ACCESS_SUCCESS \<and> (0 < data_size store \<longrightarrow> data_address store + data_size store \<le> length (contents m1)) \<and>
          process_block store (stored_data store (contents m1)) (checksum_initial store) = Some v' \<and> sum_kind store v' \<or>
        access' = PERSISTENT_ACCESS_IO_ERROR \<and> \<not> (flawless \<and> data_address store + data_size store \<le> length (contents m1))"
      using calculate_ok [OF ok rd, of m1] by metis
    show ?thesis
    proof (cases "access' = PERSISTENT_ACCESS_SUCCESS")
      case no: False
      then have "persistent_validate e store m = Some (access', keep_work store w, m2)"
        using True f c by (simp add: persistent_validate_def)
      with no f c show ?thesis
        by auto
    next
      case yes: True
      with c(4) f(2) have v': "process_block store (stored_data store (contents m)) (checksum_initial store) = Some v'" "sum_kind store v'"
        by auto
      have intact: "intact e store (contents m) \<longleftrightarrow> v = v'"
        using True f(4) v' sum_octets_inject [OF v'(2) f(3), of e] by (auto simp: intact_def)
      have "persistent_validate e store m =
          Some (if v = v' then PERSISTENT_ACCESS_SUCCESS else PERSISTENT_ACCESS_INVALID_DATA, keep_work store w, m2)"
        using True yes f c persistent_match_eq [of "keep_work store w" v v'] v'(2) by (simp add: persistent_validate_def)
      with f c intact show ?thesis
        by auto
    qed
  qed
qed

lemma fetch_part_ok:
  assumes ok: "store_ok store" and rd: "block_read store = rd"
    and fit: "offset + n \<le> data_size store" "n \<le> length dst"
  shows "\<exists>access dst' m'. persistent_fetch_part dst store m offset n = Some (access, dst', m') \<and> contents m' = contents m \<and>
     length dst' = length dst \<and>
     (access = PERSISTENT_ACCESS_SUCCESS \<and> dst' = overwrite dst 0 (take n (drop offset (stored_data store (contents m)))) \<or>
      access = PERSISTENT_ACCESS_IO_ERROR \<and> \<not> (flawless \<and> data_address store + data_size store \<le> length (contents m)))"
proof -
  let ?a = "pa_add (data_address store) offset"
  have bound: "data_address store + data_size store \<le> 2 ^ 32"
    using ok by (simp add: store_ok_def)
  have add: "sz_add offset n = offset + n" "\<not> data_size store < offset + n"
    using fit bound by (simp_all add: sz_add_def SIZE_MOD_def)
  obtain k xs m' where r: "rd m ?a n = (k, xs, m')"
    by (metis prod_cases3)
  from rd_law [OF r] have law: "contents m' = contents m" "length xs \<le> n"
    "k = n \<Longrightarrow> 0 < n \<Longrightarrow> ?a + n \<le> length (contents m) \<and> xs = take n (drop ?a (contents m))"
    by auto
  have a: "0 < n \<Longrightarrow> ?a = data_address store + offset"
    using fit(1) bound by (simp add: pa_add_def)
  have xs: "k = n \<Longrightarrow> xs = take n (drop offset (stored_data store (contents m)))"
    using law(2,3) a fit(1) by (cases "n = 0") (auto simp: stored_data_def drop_take min_def add.commute)
  have "flawless \<Longrightarrow> data_address store + data_size store \<le> length (contents m) \<Longrightarrow> k = n"
    using rd_flawless [of ?a n m] r fit(1) mod_less_eq_dividend [of "data_address store + offset" "2 ^ 32"]
    unfolding pa_add_def by simp
  moreover have "persistent_fetch_part dst store m offset n =
      Some (if k = n then PERSISTENT_ACCESS_SUCCESS else PERSISTENT_ACCESS_IO_ERROR, overwrite dst 0 xs, m')"
    using add r rd law(2) fit(2) by (simp add: persistent_fetch_part_def mem_write_overwrite)
  ultimately show ?thesis
    using law(1,2) fit(2) xs by auto
qed

lemma written_loop_ok:
  assumes wr: "block_write store = wr" and "0 < bsize" and "take bsize data = replicate bsize item"
    and "a + rest \<le> 2 ^ 32"
  shows "\<exists>access m'. written_loop store bsize m data a rest = Some (access, m') \<and>
     length (contents m') = length (contents m) \<and> take a (contents m') = take a (contents m) \<and>
     drop (a + rest) (contents m') = drop (a + rest) (contents m) \<and>
     (access = PERSISTENT_ACCESS_SUCCESS \<and> (0 < rest \<longrightarrow> a + rest \<le> length (contents m)) \<and>
        take rest (drop a (contents m')) = replicate rest item \<or>
      access = PERSISTENT_ACCESS_IO_ERROR \<and> \<not> (flawless \<and> a + rest \<le> length (contents m)))"
  using assms(4)
proof (induction rest arbitrary: m a rule: less_induct)
  case (less rest)
  note unf = written_loop.simps [of store bsize m data a rest]
  show ?case
  proof (cases "rest = 0")
    case True
    then show ?thesis
      by (subst unf) simp
  next
    case False
    define toput where "toput = (if rest > bsize then bsize else rest)"
    have t: "0 < toput" "toput \<le> rest" "toput \<le> bsize"
      using False assms(2) by (auto simp: toput_def)
    have "length data \<ge> bsize"
      using arg_cong [OF assms(3), of length] by simp
    moreover have "take toput data = replicate toput item"
      using arg_cong [OF assms(3), of "take toput"] t(3) by (simp add: min_def)
    ultimately have b: "mem_read data 0 toput = Some (replicate toput item)"
      using t(3) by (simp add: mem_read_def)
    obtain k m1 where w: "wr m a (replicate toput item) = (k, m1)"
      by fastforce
    from wr_law [OF w] t have law: "length (contents m1) = length (contents m)" "take a (contents m1) = take a (contents m)"
      "drop (a + toput) (contents m1) = drop (a + toput) (contents m)"
      "k = toput \<Longrightarrow> a + toput \<le> length (contents m) \<and> contents m1 = overwrite (contents m) a (replicate toput item)"
      by auto
    have "drop (rest - toput) (drop (a + toput) (contents m1)) = drop (rest - toput) (drop (a + toput) (contents m))"
      by (simp only: law(3))
    then have law5: "drop (a + rest) (contents m1) = drop (a + rest) (contents m)"
      using t by (simp add: add.commute add.left_commute)
    show ?thesis
    proof (cases "k = toput")
      case no: False
      have "written_loop store bsize m data a rest = Some (PERSISTENT_ACCESS_IO_ERROR, m1)"
        using False no b w wr by (subst unf) (simp add: toput_def)
      moreover have "\<not> (flawless \<and> a + rest \<le> length (contents m))"
        using wr_flawless [of a "replicate toput item" m] w no t by auto
      ultimately show ?thesis
        using law law5 by simp
    next
      case True
      have step: "written_loop store bsize m data a rest =
          written_loop store bsize m1 data (pa_add a toput) (rest - toput)"
        using False True b w wr by (subst unf) (simp add: toput_def)
      have filled: "take toput (drop a (contents m1)) = replicate toput item" "a + toput \<le> length (contents m)"
        using law(4) [OF True] by (auto simp: overwrite_def)
      show ?thesis
      proof (cases "rest = toput")
        case True
        have "written_loop store bsize m1 data (pa_add a toput) 0 = Some (PERSISTENT_ACCESS_SUCCESS, m1)"
          by (subst written_loop.simps) simp
        with True step law law5 filled show ?thesis
          by simp
      next
        case no: False
        then have a: "pa_add a toput = a + toput" and lt: "rest - toput < rest"
            and bound: "(a + toput) + (rest - toput) \<le> 2 ^ 32"
          using less.prems t by (auto simp: pa_add_def)
        obtain access m' where ih: "written_loop store bsize m1 data (a + toput) (rest - toput) = Some (access, m')"
           "length (contents m') = length (contents m1)" "take (a + toput) (contents m') = take (a + toput) (contents m1)"
           "drop (a + toput + (rest - toput)) (contents m') = drop (a + toput + (rest - toput)) (contents m1)"
           "access = PERSISTENT_ACCESS_SUCCESS \<and> (0 < rest - toput \<longrightarrow> a + toput + (rest - toput) \<le> length (contents m1)) \<and>
              take (rest - toput) (drop (a + toput) (contents m')) = replicate (rest - toput) item \<or>
            access = PERSISTENT_ACCESS_IO_ERROR \<and> \<not> (flawless \<and> a + toput + (rest - toput) \<le> length (contents m1))"
          using less.IH [OF lt bound, of m1] by metis
        have "take a (take (a + toput) (contents m')) = take a (take (a + toput) (contents m1))"
          by (simp only: ih(3))
        then have front: "take a (contents m') = take a (contents m)"
          using law(2) by simp
        have "drop a (take (a + toput) (contents m')) = drop a (take (a + toput) (contents m1))"
          by (simp only: ih(3))
        then have mid: "take toput (drop a (contents m')) = replicate toput item"
          using filled by (simp add: drop_take)
        have "take rest (drop a (contents m')) = take toput (drop a (contents m')) @ take (rest - toput) (drop (a + toput) (contents m'))"
          using t take_add [of toput "rest - toput" "drop a (contents m')"] by (simp add: add.commute)
        then have all: "take (rest - toput) (drop (a + toput) (contents m')) = replicate (rest - toput) item \<Longrightarrow>
            take rest (drop a (contents m')) = replicate rest item"
          using mid t by (simp flip: replicate_add)
        have sums: "a + toput + (rest - toput) = a + rest"
          using t by simp
        show ?thesis
          using ih(1,2,4,5) a step front all law(1) law5 no t unfolding sums by auto
      qed
    qed
  qed
qed

lemma written_ok:
  assumes wr: "block_write store = wr" and ok: "0 < work_size store" "work_size store \<le> length (work_memory store)"
    and a: "a + k \<le> 2 ^ 32"
  shows "\<exists>access w m'. persistent_written store m a item k = Some (access, keep_work store w, m') \<and>
     length w = length (work_memory store) \<and>
     length (contents m') = length (contents m) \<and> take a (contents m') = take a (contents m) \<and>
     drop (a + k) (contents m') = drop (a + k) (contents m) \<and>
     (access = PERSISTENT_ACCESS_SUCCESS \<and> (0 < k \<longrightarrow> a + k \<le> length (contents m)) \<and>
        take k (drop a (contents m')) = replicate k item \<or>
      access = PERSISTENT_ACCESS_IO_ERROR \<and> \<not> (flawless \<and> a + k \<le> length (contents m)))"
proof -
  let ?w = "overwrite (work_memory store) 0 (replicate (work_size store) item)"
  have w: "mem_write (work_memory store) 0 (replicate (work_size store) item) = Some ?w"
    "length ?w = length (work_memory store)" "take (work_size store) ?w = replicate (work_size store) item"
    using ok(2) by (auto simp: mem_write_overwrite overwrite_def)
  show ?thesis
    using written_loop_ok [OF wr ok(1) w(3) a, of m] w(1,2)
    by (auto simp: persistent_written_def)
qed

lemma reset_ok:
  assumes ok: "store_ok store" and wr: "block_write store = wr"
  shows "\<exists>access w m'. persistent_reset store m item = Some (access, keep_work store w, m') \<and>
     length w = length (work_memory store) \<and> same_elsewhere store (contents m) (contents m') \<and>
     (access = PERSISTENT_ACCESS_SUCCESS \<and> stored_sum store (contents m') = replicate (checksum_width store) item \<and>
        stored_data store (contents m') = replicate (data_size store) item \<or>
      access = PERSISTENT_ACCESS_IO_ERROR \<and> \<not> (flawless \<and> data_address store + data_size store \<le> length (contents m)))"
proof -
  let ?da = "data_address store" and ?ca = "checksum_address store" and ?cw = "checksum_width store"
    and ?ds = "data_size store"
  have da: "?da = ?ca + ?cw" "?da + ?ds \<le> 2 ^ 32" and wk: "0 < work_size store" "work_size store \<le> length (work_memory store)"
    using ok by (simp_all add: store_ok_def)
  have "?ca + ?cw \<le> 2 ^ 32"
    using da by linarith
  then obtain a1 w1 m1 where one: "persistent_written store m ?ca item ?cw = Some (a1, keep_work store w1, m1)"
    "length w1 = length (work_memory store)" "length (contents m1) = length (contents m)"
    "take ?ca (contents m1) = take ?ca (contents m)" "drop ?da (contents m1) = drop ?da (contents m)"
    "a1 = PERSISTENT_ACCESS_SUCCESS \<and> (0 < ?cw \<longrightarrow> ?da \<le> length (contents m)) \<and>
        take ?cw (drop ?ca (contents m1)) = replicate ?cw item \<or>
      a1 = PERSISTENT_ACCESS_IO_ERROR \<and> \<not> (flawless \<and> ?da \<le> length (contents m))"
    using written_ok [OF wr wk, where m = m] unfolding da(1) by metis
  have e1: "same_elsewhere store (contents m) (contents m1)"
    using one da by (intro same_elsewhere_range [where a = ?ca and b = ?da]) simp_all
  show ?thesis
  proof (cases "a1 = PERSISTENT_ACCESS_SUCCESS")
    case False
    with one e1 show ?thesis
      by (auto simp: persistent_reset_def)
  next
    case True
    let ?st = "keep_work store w1"
    have ok1: "store_ok ?st"
      using ok one(2) by simp
    then have wk1: "0 < work_size ?st" "work_size ?st \<le> length (work_memory ?st)" and wr1: "block_write ?st = wr"
      using wr by (simp_all add: store_ok_def)
    obtain a2 w2 m2 where two: "persistent_written ?st m1 ?da item ?ds = Some (a2, keep_work ?st w2, m2)"
      "length w2 = length (work_memory ?st)" "length (contents m2) = length (contents m1)"
      "take ?da (contents m2) = take ?da (contents m1)" "drop (?da + ?ds) (contents m2) = drop (?da + ?ds) (contents m1)"
      "a2 = PERSISTENT_ACCESS_SUCCESS \<and> (0 < ?ds \<longrightarrow> ?da + ?ds \<le> length (contents m1)) \<and>
          take ?ds (drop ?da (contents m2)) = replicate ?ds item \<or>
        a2 = PERSISTENT_ACCESS_IO_ERROR \<and> \<not> (flawless \<and> ?da + ?ds \<le> length (contents m1))"
      using written_ok [OF wr1 wk1 da(2), where m = m1] by metis
    have "drop ?ca (take ?da (contents m2)) = drop ?ca (take ?da (contents m1))"
      by (simp only: two(4))
    then have sum: "stored_sum store (contents m2) = stored_sum store (contents m1)"
      unfolding stored_sum_def da(1) by (simp add: drop_take)
    have e2: "same_elsewhere store (contents m1) (contents m2)"
      using two da by (intro same_elsewhere_range [where a = ?da and b = "?da + ?ds"]) simp_all
    have kk: "keep_work ?st w2 = keep_work store w2" "length w2 = length (work_memory store)"
      using two(2) one(2) keep_work_memory [of store] by (cases "buffer_data store"; simp add: keep_work_def)+
    have "persistent_reset store m item = Some (a2, keep_work store w2, m2)"
      using True one(1) two(1) kk by (simp add: persistent_reset_def)
    with True one(3,6) two(6) sum kk(2) same_elsewhere_trans [OF e1 e2] show ?thesis
      by (auto simp: stored_data_def stored_sum_def)
  qed
qed

text \<open>Without room in the auxiliary buffer the loop asks for zero octets again and again.\<close>

lemma calculate_loop_spins:
  assumes "block_read store = rd" "flawless" "0 < rest" "a < 2 ^ 32" "a \<le> length (contents m)"
  shows "calculate_loop store 0 m data a rest v = None"
proof (rule ccontr)
  assume "calculate_loop store 0 m data a rest v \<noteq> None"
  then obtain y where y: "calculate_loop store 0 m data a rest v = Some y"
    by blast
  define P where "P = (\<lambda>st bs m' (_ :: u8 list) a' rest' (_ :: PersistentChecksum)
    (_ :: PersistentAccess \<times> PersistentChecksum \<times> u8 list \<times> 'm).
    \<not> (bs = (0 :: nat) \<and> st = store \<and> (0 :: nat) < rest' \<and> a' < 2 ^ 32 \<and> a' \<le> length (contents m')))"
  have "P store 0 m data a rest v y"
  proof (rule calculate_loop.raw_induct [where P = P, OF _ y])
    fix loop :: "'m PersistentStorage \<Rightarrow> nat \<Rightarrow> 'm \<Rightarrow> u8 list \<Rightarrow> nat \<Rightarrow> nat \<Rightarrow> PersistentChecksum
       \<Rightarrow> (PersistentAccess \<times> PersistentChecksum \<times> u8 list \<times> 'm) option" and st bs m' data' a' rest' v' y'
    assume ih: "\<And>st bs m data a rest v y. loop st bs m data a rest v = Some y \<Longrightarrow> P st bs m data a rest v y"
      and step: "(if rest' = 0 then Some (PERSISTENT_ACCESS_SUCCESS, v', data', m')
        else do {
          let toget = (if rest' > bs then bs else rest');
          (n, xs, m) \<leftarrow> Some (block_read st m' a' toget);
          data \<leftarrow> mem_write data' 0 xs;
          if n \<noteq> toget then Some (PERSISTENT_ACCESS_IO_ERROR, v', data, m)
          else do {
            block \<leftarrow> mem_read data 0 toget;
            value \<leftarrow> process_block st block v';
            loop st bs m data (pa_add a' toget) (rest' - toget) value
          }
        }) = Some y'"
    show "P st bs m' data' a' rest' v' y'"
      unfolding P_def
    proof
      assume h: "bs = 0 \<and> st = store \<and> 0 < rest' \<and> a' < 2 ^ 32 \<and> a' \<le> length (contents m')"
      obtain k xs m1 where r: "rd m' a' 0 = (k, xs, m1)"
        by (metis prod_cases3)
      then have k: "k = 0" "contents m1 = contents m'"
        using rd_law [OF r] rd_flawless [of a' 0 m'] assms(2) h by simp_all
      then obtain d v1 where "loop store 0 m1 d a' rest' v1 = Some y'"
        using step h r assms(1) by (auto simp: pa_add_def split: bind_splits)
      with ih have "P store 0 m1 d a' rest' v1 y'"
        by blast
      with h k show False
        by (simp add: P_def)
    qed
  qed
  with assms show False
    by (simp add: P_def)
qed

end

section \<open>A medium in memory\<close>

text \<open>
  The medium of the tests, \<^verbatim>\<open>src/test/t-persistent-storage.c\<close>: an array of 128 octets, given by its
  elements. A call that does not fit transfers nothing.
\<close>

definition BUFFER_SIZE :: nat where
  "BUFFER_SIZE = 128"

definition buffer_octets :: "(nat \<Rightarrow> u8) \<Rightarrow> u8 list" where
  "buffer_octets buffer = map buffer [0 ..< BUFFER_SIZE]"

definition buffer_read :: "(nat \<Rightarrow> u8) PersistentBlockRead" where
  "buffer_read buffer addr n =
     (if addr + n > BUFFER_SIZE then (0, [], buffer) else (n, map buffer [addr ..< addr + n], buffer))"

definition buffer_write :: "(nat \<Rightarrow> u8) PersistentBlockWrite" where
  "buffer_write buffer addr xs =
     (if addr + length xs > BUFFER_SIZE then (0, buffer)
      else (length xs, \<lambda>i. if addr \<le> i \<and> i < addr + length xs then xs ! (i - addr) else buffer i))"

interpretation ram: storage_medium buffer_read buffer_write buffer_octets True
proof unfold_locales
  fix m :: "nat \<Rightarrow> u8" and a n k xs m'
  show "buffer_read m a n = (k, xs, m') \<Longrightarrow> buffer_octets m' = buffer_octets m \<and> length xs \<le> n \<and>
      (k = n \<longrightarrow> 0 < n \<longrightarrow> a + n \<le> length (buffer_octets m) \<and> xs = take n (drop a (buffer_octets m)))"
    by (auto simp: buffer_read_def buffer_octets_def drop_map take_map drop_upt take_upt split: if_splits)
next
  fix m :: "nat \<Rightarrow> u8" and a k :: nat and xs m'
  assume "buffer_write m a xs = (k, m')"
  then show "length (buffer_octets m') = length (buffer_octets m) \<and>
      take a (buffer_octets m') = take a (buffer_octets m) \<and>
      drop (a + length xs) (buffer_octets m') = drop (a + length xs) (buffer_octets m) \<and>
      (k = length xs \<longrightarrow> xs \<noteq> [] \<longrightarrow> a + length xs \<le> length (buffer_octets m) \<and>
         buffer_octets m' = overwrite (buffer_octets m) a xs)"
    by (auto simp: buffer_write_def buffer_octets_def drop_map take_map drop_upt take_upt overwrite_def
        split: if_splits intro!: nth_equalityI simp: nth_append)
qed (auto simp: buffer_read_def buffer_write_def buffer_octets_def)

section \<open>Configured instances\<close>

lemma store_ok_init:
  assumes "2 + sz \<le> 2 ^ 32"
  shows "store_ok (persistent_init store sz rd wr)"
  using assms trivial.streaming_sum_axioms
  by (simp add: persistent_init_def persistent_sum16_def set_data_address_def checksum_size_def store_ok_def
      sum_configured_def sum_kind_def pa_add_def work_size_def work_memory_def)

lemma store_ok_sum16:
  assumes "store_ok store" "streaming_sum (\<lambda>c xs. f xs c)" "checksum_address store + 2 + data_size store \<le> 2 ^ 32"
    and "checksum_address store + 2 < 2 ^ 32"
  shows "store_ok (persistent_sum16 store f init)"
  using assms
  by (simp add: persistent_sum16_def set_data_address_def checksum_size_def store_ok_def
      sum_configured_def sum_kind_def pa_add_def work_size_def work_memory_def cong: option.case_cong)

lemma store_ok_sum32:
  assumes "store_ok store" "streaming_sum (\<lambda>c xs. f xs c)" "checksum_address store + 4 + data_size store \<le> 2 ^ 32"
    and "checksum_address store + 4 < 2 ^ 32"
  shows "store_ok (persistent_sum32 store f init)"
  using assms
  by (simp add: persistent_sum32_def set_data_address_def checksum_size_def store_ok_def
      sum_configured_def sum_kind_def pa_add_def work_size_def work_memory_def cong: option.case_cong)

lemma store_ok_place:
  assumes "store_ok store" "address + checksum_size store + data_size store \<le> 2 ^ 32"
    and "address + checksum_size store < 2 ^ 32"
  shows "store_ok (persistent_place store address)"
  using assms
  by (simp add: persistent_place_def set_data_address_def checksum_size_def store_ok_def
      sum_configured_def sum_kind_def pa_add_def work_size_def work_memory_def
      cong: option.case_cong PersistentChecksumType.case_cong)

lemma store_ok_buffer:
  "store_ok store \<Longrightarrow> 0 < n \<Longrightarrow> n \<le> length b \<Longrightarrow> store_ok (persistent_buffer store (Some b) n)"
  by (simp add: persistent_buffer_def checksum_size_def store_ok_def
      sum_configured_def sum_kind_def work_size_def work_memory_def cong: PersistentChecksumType.case_cong)

section \<open>Properties\<close>

lemma keep_work_twice: "keep_work (keep_work store w) w' = keep_work store w'"
  by (simp add: keep_work_def split: option.split)

lemma trivialsum_sum: "trivialsum xs c = c + sum_list (map ucast xs)"
proof -
  have "(0xffff :: u16) = - 1"
    by simp
  then have mask: "w AND 0xffff = w" for w :: u16
    by (simp only: and.right_neutral)
  show ?thesis
    by (induction xs arbitrary: c) (simp_all add: mask)
qed

lemma ucast_octet_inject: "(ucast (x :: u8) :: u16) = ucast y \<longleftrightarrow> x = y"
  by transfer (simp add: take_bit_eq_mod)

lemma trivialsum_update:
  assumes "i < length xs"
  shows "trivialsum (xs[i := x]) c = trivialsum xs c \<longleftrightarrow> x = xs ! i"
proof -
  have "trivialsum (take i xs @ y # drop (Suc i) xs) c =
      ucast y + (c + sum_list (map ucast (take i xs)) + sum_list (map ucast (drop (Suc i) xs)))" for y
    by (simp add: trivialsum_sum algebra_simps)
  from this [of x] this [of "xs ! i"] show ?thesis
    using assms by (simp add: upd_conv_take_nth_drop Cons_nth_drop_Suc ucast_octet_inject)
qed

text \<open>C9. Storing a part of the data, of an instance whose auxiliary buffer has room for at least one octet, gives a
  verdict the caller can rely on, as long as the end of the part does not wrap: a part that does not fit into the data is
  out of range, and nothing is touched. Any other part gives success, and then the medium holds the new octets within the
  old ones and a checksum that matches all of the data; or an error of the medium, which does not happen on a medium that
  is large enough and serves every call within its size. Nothing outside of the instance changes in any case.\<close>

theorem persistent_store_sound:
  assumes "storage_medium rd wr contents flawless" and "store_ok store"
    and "block_read store = rd" and "block_write store = wr"
    and "offset + n < SIZE_MOD" and "n \<le> length src"
  shows "\<exists>access store' m'. persistent_store_part e store m src offset n = Some (access, store', m') \<and>
     same_elsewhere store (contents m) (contents m') \<and>
     (if data_size store < offset + n then access = PERSISTENT_ACCESS_ADDRESS_OUT_OF_RANGE \<and> store' = store \<and> m' = m
      else access = PERSISTENT_ACCESS_SUCCESS \<and>
          stored_data store (contents m') = overwrite (stored_data store (contents m)) offset (take n src) \<and>
          intact e store (contents m') \<or>
        access = PERSISTENT_ACCESS_IO_ERROR \<and> \<not> (flawless \<and> data_address store + data_size store \<le> length (contents m)))"
proof (cases "offset + n \<le> data_size store")
  case True
  then show ?thesis
    using storage_medium.store_part_ok [OF assms(1-4) True assms(6), of e m] by (auto simp: not_less)
next
  case False
  have "same_elsewhere store (contents m) (contents m)"
    by (simp add: same_elsewhere_def)
  with False assms(5) show ?thesis
    by (simp add: persistent_store_part_def sz_add_id)
qed

text \<open>C8. Round trip: on a medium that is large enough and serves every call within its size, a store, a validation and a
  fetch one after the other all succeed and give back what was stored, whatever the checksum, the octet order of the
  machine, and the auxiliary buffer, as long as it has room for at least one octet: with an empty one, which the module
  accepts, the computation of a checksum does not end.\<close>

theorem persistent_roundtrip:
  assumes "storage_medium rd wr contents True" and "store_ok store"
    and "block_read store = rd" and "block_write store = wr"
    and "data_address store + data_size store \<le> length (contents m)"
    and "length src = data_size store" and "length dst = data_size store"
  shows "\<exists>s1 m1 s2 m2 m3. persistent_store e store m src = Some (PERSISTENT_ACCESS_SUCCESS, s1, m1) \<and>
     persistent_validate e s1 m1 = Some (PERSISTENT_ACCESS_SUCCESS, s2, m2) \<and>
     persistent_fetch dst s2 m2 = Some (PERSISTENT_ACCESS_SUCCESS, src, m3)"
proof -
  note medium = assms(1)
  have n: "0 + data_size store \<le> data_size store" "data_size store \<le> length src"
    using assms(6) by simp_all
  obtain w1 m1 where one: "persistent_store_part e store m src 0 (data_size store) =
        Some (PERSISTENT_ACCESS_SUCCESS, keep_work store w1, m1)"
      "length w1 = length (work_memory store)" "same_elsewhere store (contents m) (contents m1)"
      "stored_data store (contents m1) = overwrite (stored_data store (contents m)) 0 src" "intact e store (contents m1)"
    using storage_medium.store_part_ok [OF medium assms(2-4) n, of e m] assms(5,6) by auto
  let ?s1 = "keep_work store w1"
  have ok1: "store_ok ?s1" "block_read ?s1 = rd"
    using assms(2,3) one(2) by simp_all
  have len: "length (contents m1) = length (contents m)"
    using one(3) by (simp add: same_elsewhere_def)
  have data: "stored_data store (contents m1) = src"
    using one(4) assms(5,6) by (simp add: overwrite_def stored_data_def)
  obtain w2 m2 where two: "persistent_validate e ?s1 m1 = Some (PERSISTENT_ACCESS_SUCCESS, keep_work ?s1 w2, m2)"
      "length w2 = length (work_memory ?s1)" "contents m2 = contents m1"
    using storage_medium.validate_ok [OF medium ok1, of e m1] one(5) assms(5) len
    by (auto simp: storage_medium.keep_work_stored [OF medium])
  let ?s2 = "keep_work ?s1 w2"
  have ok2: "store_ok ?s2" "block_read ?s2 = rd" "0 + data_size store \<le> data_size ?s2" "data_size store \<le> length dst"
    using ok1 two(2) assms(7) by simp_all
  obtain m3 where "persistent_fetch_part dst ?s2 m2 0 (data_size store) =
      Some (PERSISTENT_ACCESS_SUCCESS, overwrite dst 0 (take (data_size store) (drop 0 (stored_data ?s2 (contents m2)))), m3)"
    using storage_medium.fetch_part_ok [OF medium ok2, of m2] assms(5) len two(3) by auto
  then have "persistent_fetch dst ?s2 m2 = Some (PERSISTENT_ACCESS_SUCCESS, src, m3)"
    using data two(3) assms(6,7)
    by (simp add: persistent_fetch_def storage_medium.keep_work_stored [OF medium] overwrite_def)
  with one(1) two(1) show ?thesis
    unfolding persistent_store_def by blast
qed

text \<open>With the default checksum, damage to any one octet of the data of an intact instance is found:
  validation says so, instead of success.\<close>

theorem persistent_detects_damage:
  assumes "storage_medium rd wr contents True" and "store_ok store" and "block_read store = rd"
    and "checksum_type store = PERSISTENT_CHECKSUM_16BIT" and "checksum_process store = C16 trivialsum"
    and "intact e store (contents m)" and "data_address store + data_size store \<le> length (contents m)"
    and "i < data_size store" and "x \<noteq> contents m ! (data_address store + i)"
    and "contents m' = (contents m)[data_address store + i := x]"
  shows "(\<exists>s m2. persistent_validate e store m = Some (PERSISTENT_ACCESS_SUCCESS, s, m2)) \<and>
     (\<exists>s m2. persistent_validate e store m' = Some (PERSISTENT_ACCESS_INVALID_DATA, s, m2))"
proof -
  note medium = assms(1)
  let ?d = "stored_data store (contents m)"
  have ok: "data_address store = checksum_address store + checksum_width store" "sum_kind store (checksum_initial store)"
    using assms(2) by (simp_all add: store_ok_def)
  then obtain v where v: "checksum_initial store = Sum16 v"
    using assms(4) by (auto simp: sum_kind_def)
  have i: "i < length ?d" "?d ! i = contents m ! (data_address store + i)"
    using assms(7,8) by (simp_all add: stored_data_def)
  have data': "stored_data store (contents m') = ?d[i := x]"
    using assms(7,8,10) by (simp add: stored_data_def drop_update_swap take_update_swap)
  have sum': "stored_sum store (contents m') = stored_sum store (contents m)"
    using assms(10) ok(1) by (simp add: stored_sum_def take_drop)
  have "sum_octets e (Sum16 (trivialsum (?d[i := x]) v)) \<noteq> sum_octets e (Sum16 (trivialsum ?d v))"
    using sum_octets_inject [of store "Sum16 (trivialsum (?d[i := x]) v)" "Sum16 (trivialsum ?d v)" e]
      trivialsum_update [OF i(1), of x v] i(2) assms(4,9) by (simp add: sum_kind_def)
  then have "\<not> intact e store (contents m')"
    using assms(4-6) v data' sum' by (simp add: intact_def process_block_def)
  then show ?thesis
    using storage_medium.validate_ok [OF medium assms(2,3), of e m]
      storage_medium.validate_ok [OF medium assms(2,3), of e m'] assms(6,7,10) by auto
qed

text \<open>C40. The computation of a checksum ends, on every medium, exactly when the auxiliary buffer has room: with an
  auxiliary buffer of size zero it reads nothing forever.\<close>

theorem persistent_calculation_ends:
  assumes "storage_medium rd wr contents True" and "store_ok (store\<lparr>buffer_size := k\<rparr>)" and "block_read store = rd"
    and "buffer_data store = Some aux" and "0 < data_size store" and "data_address store \<le> length (contents m)"
  shows "persistent_calculate_checksum (store\<lparr>buffer_size := k\<rparr>) m \<noteq> None \<and>
     persistent_calculate_checksum (store\<lparr>buffer_size := 0\<rparr>) m = None"
proof
  show "persistent_calculate_checksum (store\<lparr>buffer_size := k\<rparr>) m \<noteq> None"
    using storage_medium.calculate_ok [OF assms(1,2), of m] assms(3) by auto
next
  have "data_address store + data_size store \<le> 2 ^ 32"
    using assms(2) by (simp add: store_ok_def)
  then have "data_address store < 2 ^ 32"
    using assms(5) by linarith
  then show "persistent_calculate_checksum (store\<lparr>buffer_size := 0\<rparr>) m = None"
    using storage_medium.calculate_loop_spins [OF assms(1), of "store\<lparr>buffer_size := 0\<rparr>"] assms(3-6)
    by (simp add: persistent_calculate_checksum_def work_size_def work_memory_def)
qed

text \<open>A range that wraps around passes the check: four octets at the very end of the 64-bit offsets are the
  four octets before the data, among them the checksum.\<close>

lemma fetch_part_wrapped_offset:
  assumes "4 \<le> data_address store" "data_address store < 2 ^ 32" "length dst = 4"
    and "block_read store m (data_address store - 4) 4 = (4, xs, m')" "length xs = 4"
  shows "persistent_fetch_part dst store m (2 ^ 64 - 4) 4 = Some (PERSISTENT_ACCESS_SUCCESS, xs, m')"
proof -
  have "data_address store + (2 ^ 64 - 4) = (data_address store - 4) + 2 ^ 32 * 2 ^ 32"
    using assms(1) by simp
  then have "pa_add (data_address store) (2 ^ 64 - 4) = data_address store - 4"
    using assms(2) unfolding pa_add_def by (metis mod_mult_self2 mod_less less_imp_diff_less)
  moreover have "sz_add (2 ^ 64 - 4) 4 = 0"
    by (simp add: sz_add_def SIZE_MOD_def)
  ultimately show ?thesis
    using assms(3-5) by (simp add: persistent_fetch_part_def mem_write_overwrite overwrite_def)
qed

section \<open>Witnesses\<close>

definition no_store :: "(nat \<Rightarrow> u8) PersistentStorage" where
  "no_store = \<lparr>data_address = 0, data_size = 0, checksum_address = 0, checksum_width = 0,
     checksum_type = PERSISTENT_CHECKSUM_16BIT, checksum_initial = Sum16 0, checksum_process = C16 trivialsum,
     buffer_data = None, buffer_size = 0, block_read = buffer_read, block_write = buffer_write\<rparr>"

definition some_store :: "(nat \<Rightarrow> u8) PersistentStorage" where
  "some_store = persistent_buffer (persistent_place (persistent_init no_store 4 buffer_read buffer_write) 10) (Some [0, 0, 0]) 3"

lemma some_store_ok: "store_ok some_store"
  unfolding some_store_def
  by (intro store_ok_buffer store_ok_place store_ok_init)
    (simp_all add: persistent_init_def persistent_sum16_def set_data_address_def checksum_size_def)

lemma some_store_fields:
  "block_read some_store = buffer_read" "block_write some_store = buffer_write" "data_size some_store = 4"
  "data_address some_store = 12" "checksum_address some_store = 10" "checksum_width some_store = 2"
  "checksum_type some_store = PERSISTENT_CHECKSUM_16BIT" "checksum_process some_store = C16 trivialsum"
  "checksum_initial some_store = Sum16 0" "buffer_data some_store = Some [0, 0, 0]" "buffer_size some_store = 3"
  by (simp_all add: some_store_def persistent_buffer_def persistent_place_def persistent_init_def persistent_sum16_def
      set_data_address_def checksum_size_def pa_add_def)

lemma length_buffer_octets: "length (buffer_octets m) = 128"
  by (simp add: buffer_octets_def BUFFER_SIZE_def)

lemma some_store_intact: "intact SYSTEM_ENDIANNESS_LITTLE some_store (buffer_octets (\<lambda>_. 0))"
proof -
  have "stored_data some_store (buffer_octets (\<lambda>_. 0)) = replicate 4 0"
    "stored_sum some_store (buffer_octets (\<lambda>_. 0)) = replicate 2 0"
    by (simp_all add: stored_data_def stored_sum_def some_store_fields buffer_octets_def BUFFER_SIZE_def map_replicate_const)
  moreover have "obj_octets SYSTEM_ENDIANNESS_LITTLE (0 :: u16) = replicate 2 0"
    by (simp add: obj_octets_def host_octets_def le_octets_def map_replicate_const)
  ultimately show ?thesis
    by (simp add: intact_def some_store_fields process_block_def trivialsum_sum sum_list_replicate sum_octets_def)
qed

lemma persistent_store_sound_witness:
  "\<exists>access store' m'. persistent_store_part SYSTEM_ENDIANNESS_LITTLE some_store (\<lambda>_. 0) [7, 8] 1 2 = Some (access, store', m') \<and>
     same_elsewhere some_store (buffer_octets (\<lambda>_. 0)) (buffer_octets m') \<and>
     (if data_size some_store < 1 + 2
      then access = PERSISTENT_ACCESS_ADDRESS_OUT_OF_RANGE \<and> store' = some_store \<and> m' = (\<lambda>_. 0)
      else access = PERSISTENT_ACCESS_SUCCESS \<and>
          stored_data some_store (buffer_octets m') = overwrite (stored_data some_store (buffer_octets (\<lambda>_. 0))) 1 (take 2 [7, 8]) \<and>
          intact SYSTEM_ENDIANNESS_LITTLE some_store (buffer_octets m') \<or>
        access = PERSISTENT_ACCESS_IO_ERROR \<and>
          \<not> (True \<and> data_address some_store + data_size some_store \<le> length (buffer_octets (\<lambda>_. 0))))"
  by (rule persistent_store_sound [OF ram.storage_medium_axioms some_store_ok some_store_fields(1,2)])
    (simp_all add: some_store_fields SIZE_MOD_def)

lemma persistent_roundtrip_witness:
  "\<exists>s1 m1 s2 m2 m3. persistent_store SYSTEM_ENDIANNESS_BIG some_store (\<lambda>_. 0) [1, 2, 3, 4] = Some (PERSISTENT_ACCESS_SUCCESS, s1, m1) \<and>
     persistent_validate SYSTEM_ENDIANNESS_BIG s1 m1 = Some (PERSISTENT_ACCESS_SUCCESS, s2, m2) \<and>
     persistent_fetch [0, 0, 0, 0] s2 m2 = Some (PERSISTENT_ACCESS_SUCCESS, [1, 2, 3, 4], m3)"
  by (rule persistent_roundtrip [OF ram.storage_medium_axioms some_store_ok some_store_fields(1,2)])
    (simp_all add: some_store_fields length_buffer_octets)

lemma persistent_detects_damage_witness:
  "(\<exists>s m2. persistent_validate SYSTEM_ENDIANNESS_LITTLE some_store (\<lambda>_. 0) = Some (PERSISTENT_ACCESS_SUCCESS, s, m2)) \<and>
   (\<exists>s m2. persistent_validate SYSTEM_ENDIANNESS_LITTLE some_store ((\<lambda>_. 0)(13 := 1)) = Some (PERSISTENT_ACCESS_INVALID_DATA, s, m2))"
proof (rule persistent_detects_damage [OF ram.storage_medium_axioms some_store_ok some_store_fields(1,7,8), where i = 1 and x = 1])
  show "intact SYSTEM_ENDIANNESS_LITTLE some_store (buffer_octets (\<lambda>_. 0))"
    by (rule some_store_intact)
  show "buffer_octets ((\<lambda>_. 0)(13 := 1)) = (buffer_octets (\<lambda>_. 0))[data_address some_store + 1 := 1]"
    by (intro nth_equalityI) (auto simp: buffer_octets_def BUFFER_SIZE_def some_store_fields nth_list_update)
qed (simp_all add: some_store_fields length_buffer_octets, simp add: buffer_octets_def BUFFER_SIZE_def)

lemma persistent_calculation_ends_witness:
  "persistent_calculate_checksum (some_store\<lparr>buffer_size := 2\<rparr>) (\<lambda>_. 0) \<noteq> None \<and>
   persistent_calculate_checksum (some_store\<lparr>buffer_size := 0\<rparr>) (\<lambda>_. 0) = None"
proof (rule persistent_calculation_ends [OF ram.storage_medium_axioms _ some_store_fields(1,10)])
  show "store_ok (some_store\<lparr>buffer_size := 2\<rparr>)"
    using some_store_ok
    by (simp add: store_ok_def sum_configured_def sum_kind_def checksum_size_def work_size_def work_memory_def some_store_fields)
qed (simp_all add: some_store_fields length_buffer_octets)

end
