(* ===== verification/Register_Values.thy ===== *)
theory Register_Values
  imports Binary_Format
begin

text \<open>
  Values of registers: the types of \<^verbatim>\<open>include/ufw/register-table.h\<close> and the serialisers, deserialisers and limit
  checks of \<^verbatim>\<open>src/registers/core.c\<close>. A register lives in 16-bit atoms; \<open>e\<close> is the octet order of the machine,
  \<open>bigendian\<close> the one the table was told to use. Signed values are words read as two's complement, floating
  point values are their IEEE 754 bit patterns, and the comparisons of C are written out on them.

  The lemmas show the octets a serialiser leaves in memory, that the deserialiser inverts it, and which floating
  point values neither accepts.
\<close>

section \<open>Types\<close>

type_synonym RegisterAtom = u16

datatype RegisterType =
    REG_TYPE_UINT16 | REG_TYPE_UINT32 | REG_TYPE_UINT64 | REG_TYPE_SINT16 | REG_TYPE_SINT32 | REG_TYPE_SINT64
  | REG_TYPE_FLOAT32 | REG_TYPE_FLOAT64 | REG_TYPE_INVALID

text \<open>The members of the union. Using another member than the one stored is outside of the model.\<close>

datatype RegisterValueU = U16 u16 | U32 u32 | U64 u64 | S16 u16 | S32 u32 | S64 u64 | F32 u32 | F64 u64

record RegisterValue =
  rv_type :: RegisterType
  rv_value :: RegisterValueU

section \<open>Floating point comparisons\<close>

text \<open>
  The number of fraction bits is 23 or 52. The magnitude is the pattern without its sign; an infinity has all
  exponent bits and no fraction bit set, and not-a-number data are beyond it.
\<close>

definition flt_fraction :: "'a::len word \<Rightarrow> nat" where
  "flt_fraction _ = (if LENGTH('a) = 32 then 23 else 52)"

definition flt_magnitude :: "'a::len word \<Rightarrow> nat" where
  "flt_magnitude x = unat (take_bit (LENGTH('a) - 1) x)"

definition flt_infinity :: "'a::len word \<Rightarrow> nat" where
  "flt_infinity x = 2 ^ (LENGTH('a) - 1) - 2 ^ flt_fraction x"

definition flt_isnan :: "'a::len word \<Rightarrow> bool" where
  "flt_isnan x \<longleftrightarrow> flt_infinity x < flt_magnitude x"

definition flt_isnormal :: "'a::len word \<Rightarrow> bool" where
  "flt_isnormal x \<longleftrightarrow> 2 ^ flt_fraction x \<le> flt_magnitude x \<and> flt_magnitude x < flt_infinity x"

definition flt_key :: "'a::len word \<Rightarrow> int" where
  "flt_key x = (if bit x (LENGTH('a) - 1) then - int (flt_magnitude x) else int (flt_magnitude x))"

definition flt_eq :: "'a::len word \<Rightarrow> 'a word \<Rightarrow> bool" where
  "flt_eq x y \<longleftrightarrow> \<not> flt_isnan x \<and> \<not> flt_isnan y \<and> flt_key x = flt_key y"

definition flt_le :: "'a::len word \<Rightarrow> 'a word \<Rightarrow> bool" where
  "flt_le x y \<longleftrightarrow> \<not> flt_isnan x \<and> \<not> flt_isnan y \<and> flt_key x \<le> flt_key y"

section \<open>Serialisers and deserialisers\<close>

text \<open>The octets of an array of atoms, and the atoms in an array of octets.\<close>

definition atom_octets :: "endianness \<Rightarrow> RegisterAtom list \<Rightarrow> u8 list" where
  "atom_octets e r = concat (map (obj_octets e) r)"

fun octets_atoms :: "endianness \<Rightarrow> u8 list \<Rightarrow> RegisterAtom list" where
  "octets_atoms e (x # y # xs) = host_value e [x, y] # octets_atoms e xs"
| "octets_atoms e _ = []"

definition rds_put ::
    "endianness \<Rightarrow> (endianness \<Rightarrow> u8 list \<Rightarrow> nat \<Rightarrow> 'v \<Rightarrow> (nat \<times> u8 list) option)
       \<Rightarrow> (endianness \<Rightarrow> u8 list \<Rightarrow> nat \<Rightarrow> 'v \<Rightarrow> (nat \<times> u8 list) option)
       \<Rightarrow> RegisterAtom list \<Rightarrow> 'v \<Rightarrow> bool \<Rightarrow> (bool \<times> RegisterAtom list) option" where
  "rds_put e set_be set_le r v bigendian = do {
     (_, m) \<leftarrow> (if bigendian then set_be e (atom_octets e r) 0 v else set_le e (atom_octets e r) 0 v);
     Some (True, octets_atoms e m)
   }"

definition rds_get ::
    "endianness \<Rightarrow> (endianness \<Rightarrow> u8 list \<Rightarrow> nat \<Rightarrow> 'v option) \<Rightarrow> (endianness \<Rightarrow> u8 list \<Rightarrow> nat \<Rightarrow> 'v option)
       \<Rightarrow> RegisterAtom list \<Rightarrow> bool \<Rightarrow> 'v option" where
  "rds_get e ref_be ref_le r bigendian =
     (if bigendian then ref_be e (atom_octets e r) 0 else ref_le e (atom_octets e r) 0)"

type_synonym registerSer = "endianness \<Rightarrow> RegisterValue \<Rightarrow> RegisterAtom list \<Rightarrow> bool \<Rightarrow> (bool \<times> RegisterAtom list) option"
type_synonym registerDes = "endianness \<Rightarrow> RegisterAtom list \<Rightarrow> RegisterValue \<Rightarrow> bool \<Rightarrow> (bool \<times> RegisterValue) option"

definition rds_invalid_ser :: registerSer where
  "rds_invalid_ser e v r bigendian = Some (False, r)"

definition rds_invalid_des :: registerDes where
  "rds_invalid_des e r v bigendian = Some (False, v)"

definition rds_u16_ser :: registerSer where
  "rds_u16_ser e v r bigendian = (case rv_value v of
       U16 x \<Rightarrow> rds_put e bf_set_u16b bf_set_u16l r x bigendian
     | _ \<Rightarrow> None)"

definition rds_u16_des :: registerDes where
  "rds_u16_des e r v bigendian = do {
     x \<leftarrow> rds_get e bf_ref_u16b bf_ref_u16l r bigendian;
     Some (True, \<lparr>rv_type = REG_TYPE_UINT16, rv_value = U16 x\<rparr>)
   }"

definition rds_u32_ser :: registerSer where
  "rds_u32_ser e v r bigendian = (case rv_value v of
       U32 x \<Rightarrow> rds_put e bf_set_u32b bf_set_u32l r x bigendian
     | _ \<Rightarrow> None)"

definition rds_u32_des :: registerDes where
  "rds_u32_des e r v bigendian = do {
     x \<leftarrow> rds_get e bf_ref_u32b bf_ref_u32l r bigendian;
     Some (True, \<lparr>rv_type = REG_TYPE_UINT32, rv_value = U32 x\<rparr>)
   }"

definition rds_u64_ser :: registerSer where
  "rds_u64_ser e v r bigendian = (case rv_value v of
       U64 x \<Rightarrow> rds_put e bf_set_u64b bf_set_u64l r x bigendian
     | _ \<Rightarrow> None)"

definition rds_u64_des :: registerDes where
  "rds_u64_des e r v bigendian = do {
     x \<leftarrow> rds_get e bf_ref_u64b bf_ref_u64l r bigendian;
     Some (True, \<lparr>rv_type = REG_TYPE_UINT64, rv_value = U64 x\<rparr>)
   }"

definition rds_s16_ser :: registerSer where
  "rds_s16_ser e v r bigendian = (case rv_value v of
       S16 x \<Rightarrow> rds_put e bf_set_s16b bf_set_s16l r x bigendian
     | _ \<Rightarrow> None)"

definition rds_s16_des :: registerDes where
  "rds_s16_des e r v bigendian = do {
     x \<leftarrow> rds_get e bf_ref_s16b bf_ref_s16l r bigendian;
     Some (True, \<lparr>rv_type = REG_TYPE_SINT16, rv_value = S16 x\<rparr>)
   }"

definition rds_s32_ser :: registerSer where
  "rds_s32_ser e v r bigendian = (case rv_value v of
       S32 x \<Rightarrow> rds_put e bf_set_s32b bf_set_s32l r x bigendian
     | _ \<Rightarrow> None)"

definition rds_s32_des :: registerDes where
  "rds_s32_des e r v bigendian = do {
     x \<leftarrow> rds_get e bf_ref_s32b bf_ref_s32l r bigendian;
     Some (True, \<lparr>rv_type = REG_TYPE_SINT32, rv_value = S32 x\<rparr>)
   }"

definition rds_s64_ser :: registerSer where
  "rds_s64_ser e v r bigendian = (case rv_value v of
       S64 x \<Rightarrow> rds_put e bf_set_s64b bf_set_s64l r x bigendian
     | _ \<Rightarrow> None)"

definition rds_s64_des :: registerDes where
  "rds_s64_des e r v bigendian = do {
     x \<leftarrow> rds_get e bf_ref_s64b bf_ref_s64l r bigendian;
     Some (True, \<lparr>rv_type = REG_TYPE_SINT64, rv_value = S64 x\<rparr>)
   }"

definition rds_f32_ser :: registerSer where
  "rds_f32_ser e v r bigendian = (case rv_value v of
       F32 x \<Rightarrow>
         if \<not> flt_eq x 0 \<and> \<not> flt_isnormal x then Some (False, r)
         else rds_put e bf_set_f32b bf_set_f32l r x bigendian
     | _ \<Rightarrow> None)"

definition rds_f32_des :: registerDes where
  "rds_f32_des e r v bigendian = do {
     x \<leftarrow> rds_get e bf_ref_f32b bf_ref_f32l r bigendian;
     Some (flt_eq x 0 \<or> flt_isnormal x, \<lparr>rv_type = REG_TYPE_FLOAT32, rv_value = F32 x\<rparr>)
   }"

definition rds_f64_ser :: registerSer where
  "rds_f64_ser e v r bigendian = (case rv_value v of
       F64 x \<Rightarrow>
         if \<not> flt_eq x 0 \<and> \<not> flt_isnormal x then Some (False, r)
         else rds_put e bf_set_f64b bf_set_f64l r x bigendian
     | _ \<Rightarrow> None)"

definition rds_f64_des :: registerDes where
  "rds_f64_des e r v bigendian = do {
     x \<leftarrow> rds_get e bf_ref_f64b bf_ref_f64l r bigendian;
     Some (flt_eq x 0 \<or> flt_isnormal x, \<lparr>rv_type = REG_TYPE_FLOAT64, rv_value = F64 x\<rparr>)
   }"

fun rds_serdes :: "RegisterType \<Rightarrow> registerSer \<times> registerDes" where
  "rds_serdes REG_TYPE_INVALID = (rds_invalid_ser, rds_invalid_des)"
| "rds_serdes REG_TYPE_UINT16 = (rds_u16_ser, rds_u16_des)"
| "rds_serdes REG_TYPE_UINT32 = (rds_u32_ser, rds_u32_des)"
| "rds_serdes REG_TYPE_UINT64 = (rds_u64_ser, rds_u64_des)"
| "rds_serdes REG_TYPE_SINT16 = (rds_s16_ser, rds_s16_des)"
| "rds_serdes REG_TYPE_SINT32 = (rds_s32_ser, rds_s32_des)"
| "rds_serdes REG_TYPE_SINT64 = (rds_s64_ser, rds_s64_des)"
| "rds_serdes REG_TYPE_FLOAT32 = (rds_f32_ser, rds_f32_des)"
| "rds_serdes REG_TYPE_FLOAT64 = (rds_f64_ser, rds_f64_des)"

fun rds_size :: "RegisterType \<Rightarrow> nat" where
  "rds_size REG_TYPE_INVALID = 0"
| "rds_size REG_TYPE_UINT16 = 1"
| "rds_size REG_TYPE_UINT32 = 2"
| "rds_size REG_TYPE_UINT64 = 4"
| "rds_size REG_TYPE_SINT16 = 1"
| "rds_size REG_TYPE_SINT32 = 2"
| "rds_size REG_TYPE_SINT64 = 4"
| "rds_size REG_TYPE_FLOAT32 = 2"
| "rds_size REG_TYPE_FLOAT64 = 4"

section \<open>Limits\<close>

definition rv_check_min_value :: "RegisterValueU \<Rightarrow> RegisterValue \<Rightarrow> bool option" where
  "rv_check_min_value limit v = (case rv_type v of
       REG_TYPE_INVALID \<Rightarrow> Some False
     | REG_TYPE_UINT16 \<Rightarrow> (case (rv_value v, limit) of (U16 x, U16 y) \<Rightarrow> Some (y \<le> x) | _ \<Rightarrow> None)
     | REG_TYPE_UINT32 \<Rightarrow> (case (rv_value v, limit) of (U32 x, U32 y) \<Rightarrow> Some (y \<le> x) | _ \<Rightarrow> None)
     | REG_TYPE_UINT64 \<Rightarrow> (case (rv_value v, limit) of (U64 x, U64 y) \<Rightarrow> Some (y \<le> x) | _ \<Rightarrow> None)
     | REG_TYPE_SINT16 \<Rightarrow> (case (rv_value v, limit) of (S16 x, S16 y) \<Rightarrow> Some (sint y \<le> sint x) | _ \<Rightarrow> None)
     | REG_TYPE_SINT32 \<Rightarrow> (case (rv_value v, limit) of (S32 x, S32 y) \<Rightarrow> Some (sint y \<le> sint x) | _ \<Rightarrow> None)
     | REG_TYPE_SINT64 \<Rightarrow> (case (rv_value v, limit) of (S64 x, S64 y) \<Rightarrow> Some (sint y \<le> sint x) | _ \<Rightarrow> None)
     | REG_TYPE_FLOAT32 \<Rightarrow> (case (rv_value v, limit) of (F32 x, F32 y) \<Rightarrow> Some (flt_le y x) | _ \<Rightarrow> None)
     | REG_TYPE_FLOAT64 \<Rightarrow> (case (rv_value v, limit) of (F64 x, F64 y) \<Rightarrow> Some (flt_le y x) | _ \<Rightarrow> None))"

definition rv_check_max_value :: "RegisterValueU \<Rightarrow> RegisterValue \<Rightarrow> bool option" where
  "rv_check_max_value limit v = (case rv_type v of
       REG_TYPE_INVALID \<Rightarrow> Some False
     | REG_TYPE_UINT16 \<Rightarrow> (case (rv_value v, limit) of (U16 x, U16 y) \<Rightarrow> Some (x \<le> y) | _ \<Rightarrow> None)
     | REG_TYPE_UINT32 \<Rightarrow> (case (rv_value v, limit) of (U32 x, U32 y) \<Rightarrow> Some (x \<le> y) | _ \<Rightarrow> None)
     | REG_TYPE_UINT64 \<Rightarrow> (case (rv_value v, limit) of (U64 x, U64 y) \<Rightarrow> Some (x \<le> y) | _ \<Rightarrow> None)
     | REG_TYPE_SINT16 \<Rightarrow> (case (rv_value v, limit) of (S16 x, S16 y) \<Rightarrow> Some (sint x \<le> sint y) | _ \<Rightarrow> None)
     | REG_TYPE_SINT32 \<Rightarrow> (case (rv_value v, limit) of (S32 x, S32 y) \<Rightarrow> Some (sint x \<le> sint y) | _ \<Rightarrow> None)
     | REG_TYPE_SINT64 \<Rightarrow> (case (rv_value v, limit) of (S64 x, S64 y) \<Rightarrow> Some (sint x \<le> sint y) | _ \<Rightarrow> None)
     | REG_TYPE_FLOAT32 \<Rightarrow> (case (rv_value v, limit) of (F32 x, F32 y) \<Rightarrow> Some (flt_le x y) | _ \<Rightarrow> None)
     | REG_TYPE_FLOAT64 \<Rightarrow> (case (rv_value v, limit) of (F64 x, F64 y) \<Rightarrow> Some (flt_le x y) | _ \<Rightarrow> None))"

definition register_value_compare :: "RegisterValue \<Rightarrow> RegisterValue \<Rightarrow> bool option" where
  "register_value_compare a b =
     (if rv_type a \<noteq> rv_type b then Some False
      else case rv_type a of
         REG_TYPE_INVALID \<Rightarrow> Some False
       | REG_TYPE_UINT16 \<Rightarrow> (case (rv_value a, rv_value b) of (U16 x, U16 y) \<Rightarrow> Some (x = y) | _ \<Rightarrow> None)
       | REG_TYPE_UINT32 \<Rightarrow> (case (rv_value a, rv_value b) of (U32 x, U32 y) \<Rightarrow> Some (x = y) | _ \<Rightarrow> None)
       | REG_TYPE_UINT64 \<Rightarrow> (case (rv_value a, rv_value b) of (U64 x, U64 y) \<Rightarrow> Some (x = y) | _ \<Rightarrow> None)
       | REG_TYPE_SINT16 \<Rightarrow> (case (rv_value a, rv_value b) of (S16 x, S16 y) \<Rightarrow> Some (x = y) | _ \<Rightarrow> None)
       | REG_TYPE_SINT32 \<Rightarrow> (case (rv_value a, rv_value b) of (S32 x, S32 y) \<Rightarrow> Some (x = y) | _ \<Rightarrow> None)
       | REG_TYPE_SINT64 \<Rightarrow> (case (rv_value a, rv_value b) of (S64 x, S64 y) \<Rightarrow> Some (x = y) | _ \<Rightarrow> None)
       | REG_TYPE_FLOAT32 \<Rightarrow> (case (rv_value a, rv_value b) of (F32 x, F32 y) \<Rightarrow> Some (flt_eq x y) | _ \<Rightarrow> None)
       | REG_TYPE_FLOAT64 \<Rightarrow> (case (rv_value a, rv_value b) of (F64 x, F64 y) \<Rightarrow> Some (flt_eq x y) | _ \<Rightarrow> None))"

section \<open>Octets of values\<close>

fun value_type :: "RegisterValueU \<Rightarrow> RegisterType" where
  "value_type (U16 _) = REG_TYPE_UINT16"
| "value_type (U32 _) = REG_TYPE_UINT32"
| "value_type (U64 _) = REG_TYPE_UINT64"
| "value_type (S16 _) = REG_TYPE_SINT16"
| "value_type (S32 _) = REG_TYPE_SINT32"
| "value_type (S64 _) = REG_TYPE_SINT64"
| "value_type (F32 _) = REG_TYPE_FLOAT32"
| "value_type (F64 _) = REG_TYPE_FLOAT64"

definition ordered_octets :: "bool \<Rightarrow> nat \<Rightarrow> 'a::len word \<Rightarrow> u8 list" where
  "ordered_octets bigendian n x = (if bigendian then be_octets n x else le_octets n x)"

definition ordered_value :: "bool \<Rightarrow> u8 list \<Rightarrow> 'a::len word" where
  "ordered_value bigendian xs = (if bigendian then be_value xs else le_value xs)"

fun value_octets :: "bool \<Rightarrow> RegisterValueU \<Rightarrow> u8 list" where
  "value_octets b (U16 x) = ordered_octets b 2 x"
| "value_octets b (U32 x) = ordered_octets b 4 x"
| "value_octets b (U64 x) = ordered_octets b 8 x"
| "value_octets b (S16 x) = ordered_octets b 2 x"
| "value_octets b (S32 x) = ordered_octets b 4 x"
| "value_octets b (S64 x) = ordered_octets b 8 x"
| "value_octets b (F32 x) = ordered_octets b 4 x"
| "value_octets b (F64 x) = ordered_octets b 8 x"

fun octets_value :: "bool \<Rightarrow> RegisterType \<Rightarrow> u8 list \<Rightarrow> RegisterValueU" where
  "octets_value b REG_TYPE_UINT16 xs = U16 (ordered_value b xs)"
| "octets_value b REG_TYPE_UINT32 xs = U32 (ordered_value b xs)"
| "octets_value b REG_TYPE_UINT64 xs = U64 (ordered_value b xs)"
| "octets_value b REG_TYPE_SINT16 xs = S16 (ordered_value b xs)"
| "octets_value b REG_TYPE_SINT32 xs = S32 (ordered_value b xs)"
| "octets_value b REG_TYPE_SINT64 xs = S64 (ordered_value b xs)"
| "octets_value b REG_TYPE_FLOAT32 xs = F32 (ordered_value b xs)"
| "octets_value b REG_TYPE_FLOAT64 xs = F64 (ordered_value b xs)"
| "octets_value b REG_TYPE_INVALID xs = U16 0"

text \<open>Floating point registers take zeroes and normal numbers only.\<close>

fun storable :: "RegisterValueU \<Rightarrow> bool" where
  "storable (F32 x) \<longleftrightarrow> flt_eq x 0 \<or> flt_isnormal x"
| "storable (F64 x) \<longleftrightarrow> flt_eq x 0 \<or> flt_isnormal x"
| "storable _ \<longleftrightarrow> True"

lemma value_type_valid [simp]: "value_type v \<noteq> REG_TYPE_INVALID"
  by (cases v) simp_all

lemma length_value_octets [simp]: "length (value_octets b v) = 2 * rds_size (value_type v)"
  by (cases v) (simp_all add: ordered_octets_def be_octets_def le_octets_def)

lemma value_type_octets_value: "t \<noteq> REG_TYPE_INVALID \<Longrightarrow> value_type (octets_value b t xs) = t"
  by (cases t) simp_all

lemma ordered_value_octets: "8 * n = LENGTH('a) \<Longrightarrow> ordered_value b (ordered_octets b n (x :: 'a::len word)) = x"
  using host_value_octets [of SYSTEM_ENDIANNESS_BIG n x] host_value_octets [of SYSTEM_ENDIANNESS_LITTLE n x]
  by (simp add: ordered_value_def ordered_octets_def host_value_def host_octets_def take_bit_word_eq_self)

lemma octets_value_octets: "octets_value b (value_type v) (value_octets b v) = v"
  by (cases v) (simp_all add: ordered_value_octets)

lemma ordered_octets_value:
  "length xs = n \<Longrightarrow> 8 * n = LENGTH('a) \<Longrightarrow> ordered_octets b n (ordered_value b xs :: 'a::len word) = xs"
  using le_octets_value [of xs, where 'a = 'a] le_octets_value [of "rev xs", where 'a = 'a]
  by (auto simp: ordered_octets_def ordered_value_def be_octets_def be_value_def)

lemma value_octets_value: "t \<noteq> REG_TYPE_INVALID \<Longrightarrow> length xs = 2 * rds_size t \<Longrightarrow> value_octets b (octets_value b t xs) = xs"
  by (cases t) (simp_all add: ordered_octets_value)

lemma length_octets_atoms: "length (octets_atoms e xs) = length xs div 2"
  by (induction e xs rule: octets_atoms.induct) simp_all

lemma length_atom_octets [simp]: "length (atom_octets e r) = 2 * length r"
  by (induction r) (simp_all add: atom_octets_def obj_octets_def)

lemma two_octets: "length xs = 2 \<Longrightarrow> \<exists>a b. xs = [a, b]"
  by (auto simp: numeral_2_eq_2 length_Suc_conv)

lemma octets_atoms_append: "even (length xs) \<Longrightarrow> octets_atoms e (xs @ ys) = octets_atoms e xs @ octets_atoms e ys"
  by (induction e xs rule: octets_atoms.induct) simp_all

lemma octets_atoms_octets [simp]: "octets_atoms e (atom_octets e r) = r"
proof (induction r)
  case (Cons x r)
  obtain a b where o: "obj_octets e x = [a, b]"
    using two_octets [of "obj_octets e x"] by (auto simp: obj_octets_def)
  have "host_value e (obj_octets e x) = x"
    by (simp add: obj_octets_def host_value_octets take_bit_word_eq_self)
  with Cons o show ?case
    by (simp add: atom_octets_def)
qed (simp add: atom_octets_def)

lemma drop_atom_octets: "drop (2 * k) (atom_octets e r) = atom_octets e (drop k r)"
proof (induction k arbitrary: r)
  case (Suc k)
  then show ?case
    by (cases r) (simp_all add: atom_octets_def obj_octets_def)
qed simp

lemma take_atom_octets: "take (2 * k) (atom_octets e r) = atom_octets e (take k r)"
proof (induction k arbitrary: r)
  case (Suc k)
  then show ?case
    by (cases r) (simp_all add: atom_octets_def obj_octets_def)
qed (simp add: atom_octets_def)

lemma octets_atoms_overwrite:
  assumes "length ys = 2 * k"
  shows "octets_atoms e (overwrite (atom_octets e r) 0 ys) = overwrite r 0 (octets_atoms e ys)"
  using assms by (simp add: overwrite_def octets_atoms_append length_octets_atoms drop_atom_octets)

section \<open>What the serialisers do\<close>

lemma rds_put_eq:
  assumes "datum_codec refb (set_be e) (2 * k) be_value (be_octets (2 * k)) P"
    and "datum_codec refl' (set_le e) (2 * k) le_value (le_octets (2 * k)) Q" and "k \<le> length r"
  shows "rds_put e set_be set_le r x b = Some (True, overwrite r 0 (octets_atoms e (ordered_octets b (2 * k) x)))"
  using assms
  by (simp add: rds_put_def ordered_octets_def datum_codec.put_eq octets_atoms_overwrite datum_codec.length_octets)

lemma rds_get_eq:
  assumes "datum_codec (ref_be e) putb (2 * k) be_value (be_octets (2 * k)) P"
    and "datum_codec (ref_le e) putl (2 * k) le_value (le_octets (2 * k)) Q" and "k \<le> length r"
  shows "rds_get e ref_be ref_le r b = Some (ordered_value b (atom_octets e (take k r)))"
  using assms by (simp add: rds_get_def ordered_value_def datum_codec.ref_eq take_atom_octets)

lemmas codecs16 = u16b.datum_codec_axioms u16l.datum_codec_axioms s16b.datum_codec_axioms s16l.datum_codec_axioms
lemmas codecs32 = u32b.datum_codec_axioms u32l.datum_codec_axioms s32b.datum_codec_axioms s32l.datum_codec_axioms
  f32b.datum_codec_axioms f32l.datum_codec_axioms
lemmas codecs64 = u64b.datum_codec_axioms u64l.datum_codec_axioms s64b.datum_codec_axioms s64l.datum_codec_axioms
  f64b.datum_codec_axioms f64l.datum_codec_axioms

lemma rds_put16:
  "1 \<le> length r \<Longrightarrow> rds_put e bf_set_u16b bf_set_u16l r x b = Some (True, overwrite r 0 (octets_atoms e (ordered_octets b 2 x)))"
  "1 \<le> length r \<Longrightarrow> rds_put e bf_set_s16b bf_set_s16l r x b = Some (True, overwrite r 0 (octets_atoms e (ordered_octets b 2 x)))"
  using rds_put_eq [where k = 1 and e = e and set_be = bf_set_u16b and set_le = bf_set_u16l, simplified, OF codecs16(1,2)]
    rds_put_eq [where k = 1 and e = e and set_be = bf_set_s16b and set_le = bf_set_s16l, simplified, OF codecs16(3,4)]
  by (simp_all add: Suc_le_eq)

lemma rds_get16:
  "1 \<le> length r \<Longrightarrow> rds_get e bf_ref_u16b bf_ref_u16l r b = Some (ordered_value b (atom_octets e (take 1 r)))"
  "1 \<le> length r \<Longrightarrow> rds_get e bf_ref_s16b bf_ref_s16l r b = Some (ordered_value b (atom_octets e (take 1 r)))"
  using rds_get_eq [where k = 1 and e = e and ref_be = bf_ref_u16b and ref_le = bf_ref_u16l, simplified, OF codecs16(1,2)]
    rds_get_eq [where k = 1 and e = e and ref_be = bf_ref_s16b and ref_le = bf_ref_s16l, simplified, OF codecs16(3,4)]
  by (simp_all add: Suc_le_eq)

lemma rds_put32:
  "2 \<le> length r \<Longrightarrow> rds_put e bf_set_u32b bf_set_u32l r x b = Some (True, overwrite r 0 (octets_atoms e (ordered_octets b 4 x)))"
  "2 \<le> length r \<Longrightarrow> rds_put e bf_set_s32b bf_set_s32l r x b = Some (True, overwrite r 0 (octets_atoms e (ordered_octets b 4 x)))"
  "2 \<le> length r \<Longrightarrow> rds_put e bf_set_f32b bf_set_f32l r x b = Some (True, overwrite r 0 (octets_atoms e (ordered_octets b 4 x)))"
  using rds_put_eq [where k = 2 and e = e and set_be = bf_set_u32b and set_le = bf_set_u32l, simplified, OF codecs32(1,2)]
    rds_put_eq [where k = 2 and e = e and set_be = bf_set_s32b and set_le = bf_set_s32l, simplified, OF codecs32(3,4)]
    rds_put_eq [where k = 2 and e = e and set_be = bf_set_f32b and set_le = bf_set_f32l, simplified, OF codecs32(5,6)]
  by (simp_all add: Suc_le_eq)

lemma rds_get32:
  "2 \<le> length r \<Longrightarrow> rds_get e bf_ref_u32b bf_ref_u32l r b = Some (ordered_value b (atom_octets e (take 2 r)))"
  "2 \<le> length r \<Longrightarrow> rds_get e bf_ref_s32b bf_ref_s32l r b = Some (ordered_value b (atom_octets e (take 2 r)))"
  "2 \<le> length r \<Longrightarrow> rds_get e bf_ref_f32b bf_ref_f32l r b = Some (ordered_value b (atom_octets e (take 2 r)))"
  using rds_get_eq [where k = 2 and e = e and ref_be = bf_ref_u32b and ref_le = bf_ref_u32l, simplified, OF codecs32(1,2)]
    rds_get_eq [where k = 2 and e = e and ref_be = bf_ref_s32b and ref_le = bf_ref_s32l, simplified, OF codecs32(3,4)]
    rds_get_eq [where k = 2 and e = e and ref_be = bf_ref_f32b and ref_le = bf_ref_f32l, simplified, OF codecs32(5,6)]
  by (simp_all add: Suc_le_eq)

lemma rds_put64:
  "4 \<le> length r \<Longrightarrow> rds_put e bf_set_u64b bf_set_u64l r x b = Some (True, overwrite r 0 (octets_atoms e (ordered_octets b 8 x)))"
  "4 \<le> length r \<Longrightarrow> rds_put e bf_set_s64b bf_set_s64l r x b = Some (True, overwrite r 0 (octets_atoms e (ordered_octets b 8 x)))"
  "4 \<le> length r \<Longrightarrow> rds_put e bf_set_f64b bf_set_f64l r x b = Some (True, overwrite r 0 (octets_atoms e (ordered_octets b 8 x)))"
  using rds_put_eq [where k = 4 and e = e and set_be = bf_set_u64b and set_le = bf_set_u64l, simplified, OF codecs64(1,2)]
    rds_put_eq [where k = 4 and e = e and set_be = bf_set_s64b and set_le = bf_set_s64l, simplified, OF codecs64(3,4)]
    rds_put_eq [where k = 4 and e = e and set_be = bf_set_f64b and set_le = bf_set_f64l, simplified, OF codecs64(5,6)]
  by (simp_all add: Suc_le_eq)

lemma rds_get64:
  "4 \<le> length r \<Longrightarrow> rds_get e bf_ref_u64b bf_ref_u64l r b = Some (ordered_value b (atom_octets e (take 4 r)))"
  "4 \<le> length r \<Longrightarrow> rds_get e bf_ref_s64b bf_ref_s64l r b = Some (ordered_value b (atom_octets e (take 4 r)))"
  "4 \<le> length r \<Longrightarrow> rds_get e bf_ref_f64b bf_ref_f64l r b = Some (ordered_value b (atom_octets e (take 4 r)))"
  using rds_get_eq [where k = 4 and e = e and ref_be = bf_ref_u64b and ref_le = bf_ref_u64l, simplified, OF codecs64(1,2)]
    rds_get_eq [where k = 4 and e = e and ref_be = bf_ref_s64b and ref_le = bf_ref_s64l, simplified, OF codecs64(3,4)]
    rds_get_eq [where k = 4 and e = e and ref_be = bf_ref_f64b and ref_le = bf_ref_f64l, simplified, OF codecs64(5,6)]
  by (simp_all add: Suc_le_eq)

lemmas rds_ser_defs = rds_u16_ser_def rds_u32_ser_def rds_u64_ser_def rds_s16_ser_def rds_s32_ser_def rds_s64_ser_def
  rds_f32_ser_def rds_f64_ser_def rds_put16 rds_put32 rds_put64

lemmas rds_des_defs = rds_u16_des_def rds_u32_des_def rds_u64_des_def rds_s16_des_def rds_s32_des_def rds_s64_des_def
  rds_f32_des_def rds_f64_des_def rds_get16 rds_get32 rds_get64

definition value_atoms :: "endianness \<Rightarrow> bool \<Rightarrow> RegisterValueU \<Rightarrow> RegisterAtom list" where
  "value_atoms e b v = octets_atoms e (value_octets b v)"

definition atoms_value :: "endianness \<Rightarrow> bool \<Rightarrow> RegisterType \<Rightarrow> RegisterAtom list \<Rightarrow> RegisterValueU" where
  "atoms_value e b t r = octets_value b t (atom_octets e r)"

lemma length_value_atoms [simp]: "length (value_atoms e b v) = rds_size (value_type v)"
  by (simp add: value_atoms_def length_octets_atoms)

lemma rds_ser_eq:
  assumes "value_type (rv_value v) = t" and "rds_size t \<le> length r"
  shows "fst (rds_serdes t) e v r b =
    Some (if storable (rv_value v) then (True, overwrite r 0 (value_atoms e b (rv_value v))) else (False, r))"
  using assms by (cases "rv_value v") (auto simp: rds_ser_defs value_atoms_def Suc_le_eq)

lemma rds_des_eq:
  assumes "t \<noteq> REG_TYPE_INVALID" and "rds_size t \<le> length r"
  shows "snd (rds_serdes t) e r v b =
    (let x = atoms_value e b t (take (rds_size t) r) in Some (storable x, \<lparr>rv_type = t, rv_value = x\<rparr>))"
  using assms by (cases t) (auto simp: rds_des_defs atoms_value_def)

lemma value_type_atoms_value [simp]: "t \<noteq> REG_TYPE_INVALID \<Longrightarrow> value_type (atoms_value e b t r) = t"
  by (simp add: atoms_value_def value_type_octets_value)

lemma le_octets_atoms: "even (length xs) \<Longrightarrow> atom_octets e (octets_atoms e xs) = xs"
proof (induction e xs rule: octets_atoms.induct)
  case (1 e x y xs)
  have "obj_octets e (host_value e [x, y] :: u16) = [x, y]"
    using le_octets_value [of "[x, y]", where 'a = 16] le_octets_value [of "[y, x]", where 'a = 16]
    by (cases e) (simp_all add: obj_octets_def host_octets_def host_value_def be_octets_def be_value_def numeral_2_eq_2)
  with 1 show ?case
    by (simp add: atom_octets_def)
qed (simp_all add: atom_octets_def)

lemma atoms_value_atoms [simp]: "atoms_value e b (value_type v) (value_atoms e b v) = v"
  by (simp add: atoms_value_def value_atoms_def le_octets_atoms octets_value_octets)

lemma value_atoms_value: "t \<noteq> REG_TYPE_INVALID \<Longrightarrow> length q = rds_size t \<Longrightarrow> value_atoms e b (atoms_value e b t q) = q"
  by (simp add: atoms_value_def value_atoms_def value_octets_value length_atom_octets)

lemma read_written_back:
  assumes "t \<noteq> REG_TYPE_INVALID" "rds_size t \<le> length q"
  shows "\<exists>w. snd (rds_serdes t) e q v b = Some (storable (rv_value w), w) \<and> rv_type w = t \<and>
     fst (rds_serdes t) e w q b = Some (storable (rv_value w), q)"
proof -
  let ?w = "\<lparr>rv_type = t, rv_value = atoms_value e b t (take (rds_size t) q)\<rparr>"
  have "overwrite q 0 (value_atoms e b (rv_value ?w)) = q"
    using assms by (simp add: value_atoms_value overwrite_def)
  then show ?thesis
    using rds_des_eq [OF assms, of e v b] rds_ser_eq [of ?w t q e b] assms by (auto simp: Let_def)
qed

section \<open>Properties\<close>

text \<open>C26. Register values survive in memory: for every type, every octet order of the table and of the machine, the
  serialiser stores a value exactly when it is no floating point value other than a zero or a normal number, its
  octets are then in the order the table says, whatever the machine is, and the deserialiser gives the value back.
  A refused value leaves the memory as it was. Conversely, any atoms \<open>q\<close> are read as some value, which is accepted or
  not, and an accepted one is written back as the same atoms.\<close>

theorem register_value_roundtrip:
  assumes "value_type (rv_value v) = rv_type v" and "rds_size (rv_type v) \<le> length r" and "rds_size (rv_type v) \<le> length q"
  shows "(\<exists>r'. fst (rds_serdes (rv_type v)) e v r b = Some (storable (rv_value v), r') \<and>
     (if storable (rv_value v)
      then snd (rds_serdes (rv_type v)) e r' v' b = Some (True, v) \<and>
           take (2 * rds_size (rv_type v)) (atom_octets e r') = value_octets b (rv_value v) \<and>
           drop (rds_size (rv_type v)) r' = drop (rds_size (rv_type v)) r
      else r' = r)) \<and>
     (\<exists>w. snd (rds_serdes (rv_type v)) e q v' b = Some (storable (rv_value w), w) \<and> rv_type w = rv_type v \<and>
        fst (rds_serdes (rv_type v)) e w q b = Some (storable (rv_value w), q))" (is "?writes \<and> ?reads")
proof -
  have valid: "rv_type v \<noteq> REG_TYPE_INVALID"
    using value_type_valid [of "rv_value v"] assms(1) by simp
  let ?a = "value_atoms e b (rv_value v)"
  have len: "length ?a = rds_size (rv_type v)"
    using assms(1) by simp
  have split: "overwrite r 0 ?a = ?a @ drop (rds_size (rv_type v)) r"
    using len by (simp add: overwrite_def)
  have "atoms_value e b (rv_type v) ?a = rv_value v"
    using atoms_value_atoms [of e b "rv_value v"] assms(1) by simp
  moreover have "\<lparr>rv_type = rv_type v, rv_value = rv_value v\<rparr> = v"
    by simp
  moreover have "atom_octets e ?a = value_octets b (rv_value v)"
    by (simp add: value_atoms_def le_octets_atoms)
  ultimately have ?writes
    using rds_ser_eq [OF assms(1,2), of e b] rds_des_eq [OF valid, of "overwrite r 0 ?a" e v' b] assms(2) len
    by (cases "storable (rv_value v)") (simp_all add: split take_atom_octets Let_def)
  with read_written_back [OF valid assms(3)] show ?thesis
    by blast
qed

lemma register_value_roundtrip_witness:
  "(\<exists>r'. fst (rds_serdes REG_TYPE_FLOAT32) SYSTEM_ENDIANNESS_LITTLE
          \<lparr>rv_type = REG_TYPE_FLOAT32, rv_value = F32 0x3f800000\<rparr> [1, 2, 3] True = Some (storable (F32 0x3f800000), r') \<and>
     (if storable (F32 0x3f800000)
      then snd (rds_serdes REG_TYPE_FLOAT32) SYSTEM_ENDIANNESS_LITTLE r' \<lparr>rv_type = REG_TYPE_INVALID, rv_value = U16 0\<rparr> True =
             Some (True, \<lparr>rv_type = REG_TYPE_FLOAT32, rv_value = F32 0x3f800000\<rparr>) \<and>
           take (2 * rds_size REG_TYPE_FLOAT32) (atom_octets SYSTEM_ENDIANNESS_LITTLE r') = value_octets True (F32 0x3f800000) \<and>
           drop (rds_size REG_TYPE_FLOAT32) r' = drop (rds_size REG_TYPE_FLOAT32) [1, 2, 3]
      else r' = [1, 2, 3])) \<and>
   (\<exists>w. snd (rds_serdes REG_TYPE_FLOAT32) SYSTEM_ENDIANNESS_LITTLE [7, 8] \<lparr>rv_type = REG_TYPE_INVALID, rv_value = U16 0\<rparr> True =
        Some (storable (rv_value w), w) \<and> rv_type w = REG_TYPE_FLOAT32 \<and>
      fst (rds_serdes REG_TYPE_FLOAT32) SYSTEM_ENDIANNESS_LITTLE w [7, 8] True = Some (storable (rv_value w), [7, 8]))"
proof -
  let ?v = "\<lparr>rv_type = REG_TYPE_FLOAT32, rv_value = F32 0x3f800000\<rparr>"
  have "value_type (rv_value ?v) = rv_type ?v" "rds_size (rv_type ?v) \<le> length [1, 2, 3 :: RegisterAtom]"
    "rds_size (rv_type ?v) \<le> length [7, 8 :: RegisterAtom]"
    by simp_all
  from register_value_roundtrip [OF this, of SYSTEM_ENDIANNESS_LITTLE True "\<lparr>rv_type = REG_TYPE_INVALID, rv_value = U16 0\<rparr>"]
  show ?thesis
    by (simp only: RegisterValue.simps)
qed

end
