(* ===== verification/Register_Table.thy ===== *)
theory Register_Table
  imports Register_Values
begin

text \<open>
  Register tables: \<^verbatim>\<open>src/registers/core.c\<close> and \<^verbatim>\<open>include/ufw/register-table.h\<close>. A table is a list of memory areas,
  each with its callbacks for reading and writing, and a list of registers at addresses within the areas. Lists are
  ended by a marker, as in the code. Addresses, offsets and handles are naturals with the 32-bit wrap-around
  written out; what a pointer to an area designates is the index of the area; \<open>rt_world\<close> is the state of everything
  the callbacks reach beside the table. Text and values stand for the names and user pointers of registers.
\<close>

section \<open>State\<close>

datatype RegisterAccessCode =
    REG_ACCESS_SUCCESS | REG_ACCESS_FAILURE | REG_ACCESS_UNINITIALISED | REG_ACCESS_NOENTRY | REG_ACCESS_RANGE
  | REG_ACCESS_INVALID | REG_ACCESS_READONLY | REG_ACCESS_IO_ERROR

record RegisterAccess =
  ac_code :: RegisterAccessCode
  ac_address :: nat

abbreviation access :: "RegisterAccessCode \<Rightarrow> nat \<Rightarrow> RegisterAccess" where
  "access c a \<equiv> \<lparr>ac_code = c, ac_address = a\<rparr>"

definition REG_ACCESS_RESULT_INIT :: RegisterAccess where
  "REG_ACCESS_RESULT_INIT = access REG_ACCESS_SUCCESS 0"

datatype RegisterInitCode =
    REG_INIT_SUCCESS | REG_INIT_TABLE_INVALID | REG_INIT_NO_AREAS | REG_INIT_TOO_MANY_AREAS | REG_INIT_AREA_INVALID_ORDER
  | REG_INIT_AREA_ADDRESS_OVERLAP | REG_INIT_TOO_MANY_ENTRIES | REG_INIT_ENTRY_INVALID_ORDER
  | REG_INIT_ENTRY_ADDRESS_OVERLAP | REG_INIT_ENTRY_IN_MEMORY_HOLE | REG_INIT_ENTRY_INVALID_DEFAULT

datatype RegisterInitPos = Pos_area nat | Pos_entry nat | Pos_address nat

record RegisterInit =
  ri_code :: RegisterInitCode
  ri_pos :: RegisterInitPos

abbreviation init_result :: "RegisterInitCode \<Rightarrow> RegisterInitPos \<Rightarrow> RegisterInit" where
  "init_result c p \<equiv> \<lparr>ri_code = c, ri_pos = p\<rparr>"

text \<open>An area without its callbacks, which is what the callbacks see of it.\<close>

record RegisterAreaData =
  ra_flags :: u16
  ra_base :: nat
  ra_size :: nat
  ra_first :: nat
  ra_last :: nat
  ra_count :: nat
  ra_mem :: "RegisterAtom list option"

text \<open>
  A read callback gives the atoms it put at the destination; a write callback gets the memory from its source
  pointer on. Calls with a bad range have no result.
\<close>

type_synonym 'd registerRead = "RegisterAreaData \<Rightarrow> 'd \<Rightarrow> nat \<Rightarrow> nat \<Rightarrow> (RegisterAccess \<times> RegisterAtom list \<times> 'd) option"
type_synonym 'd registerWrite =
  "RegisterAreaData \<Rightarrow> 'd \<Rightarrow> RegisterAtom list \<Rightarrow> nat \<Rightarrow> nat \<Rightarrow> (RegisterAccess \<times> RegisterAreaData \<times> 'd) option"

record 'd RegisterArea = RegisterAreaData +
  ra_read :: "'d registerRead option"
  ra_write :: "'d registerWrite option"

definition area_data :: "'d RegisterArea \<Rightarrow> RegisterAreaData" where
  "area_data a = RegisterAreaData.truncate a"

definition with_data :: "'d RegisterArea \<Rightarrow> RegisterAreaData \<Rightarrow> 'd RegisterArea" where
  "with_data a x = RegisterAreaData.extend x (RegisterAreaData.more a)"

text \<open>A register without its validator, which is what a validating callback sees of it.\<close>

record RegisterEntryData =
  re_type :: RegisterType
  re_default :: RegisterValueU
  re_address :: nat
  re_area :: "nat option"
  re_offset :: nat
  re_name :: "string option"
  re_flags :: u16
  re_user :: nat

datatype RegisterValidator =
    REGV_TYPE_TRIVIAL
  | REGV_TYPE_FAIL
  | REGV_TYPE_MIN RegisterValueU
  | REGV_TYPE_MAX RegisterValueU
  | REGV_TYPE_RANGE RegisterValueU RegisterValueU
  | REGV_TYPE_CALLBACK "RegisterEntryData \<Rightarrow> RegisterValue \<Rightarrow> bool"

record RegisterEntry = RegisterEntryData +
  re_check :: RegisterValidator

definition entry_data :: "RegisterEntry \<Rightarrow> RegisterEntryData" where
  "entry_data x = RegisterEntryData.truncate x"

record 'd RegisterTable =
  rt_flags :: u16
  rt_areas :: nat
  rt_area :: "'d RegisterArea list option"
  rt_entries :: nat
  rt_entry :: "RegisterEntry list option"
  rt_world :: 'd

definition REG_EF_TOUCHED :: u16 where "REG_EF_TOUCHED = 1"
definition REG_AF_READABLE :: u16 where "REG_AF_READABLE = 1"
definition REG_AF_WRITEABLE :: u16 where "REG_AF_WRITEABLE = 2"
definition REG_AF_SKIP_DEFAULTS :: u16 where "REG_AF_SKIP_DEFAULTS = 4"
definition REG_TF_INITIALISED :: u16 where "REG_TF_INITIALISED = 1"
definition REG_TF_DURING_INIT :: u16 where "REG_TF_DURING_INIT = 2"
definition REG_TF_BIG_ENDIAN :: u16 where "REG_TF_BIG_ENDIAN = 4"

definition AREA_HANDLE_MAX :: nat where "AREA_HANDLE_MAX = 2 ^ 16 - 1"
definition REGISTER_HANDLE_MAX :: nat where "REGISTER_HANDLE_MAX = 2 ^ 32 - 1"

text \<open>Addresses wrap.\<close>

definition ad_add :: "nat \<Rightarrow> nat \<Rightarrow> nat" where
  "ad_add a b = (a + b) mod 2 ^ 32"

definition ad_sub :: "nat \<Rightarrow> nat \<Rightarrow> nat" where
  "ad_sub a b = (a + (2 ^ 32 - b mod 2 ^ 32)) mod 2 ^ 32"

definition reg_min :: "nat \<Rightarrow> nat \<Rightarrow> nat" where
  "reg_min a b = (if a > b then b else a)"

text \<open>Elements of the two arrays.\<close>

definition area_at :: "'d RegisterTable \<Rightarrow> nat \<Rightarrow> 'd RegisterArea option" where
  "area_at t i = do { as \<leftarrow> rt_area t; if i < length as then Some (as ! i) else None }"

definition entry_at :: "'d RegisterTable \<Rightarrow> nat \<Rightarrow> RegisterEntry option" where
  "entry_at t i = do { es \<leftarrow> rt_entry t; if i < length es then Some (es ! i) else None }"

definition put_area :: "'d RegisterTable \<Rightarrow> nat \<Rightarrow> 'd RegisterArea \<Rightarrow> 'd RegisterTable" where
  "put_area t i a = t\<lparr>rt_area := map_option (\<lambda>as. as[i := a]) (rt_area t)\<rparr>"

definition put_entry :: "'d RegisterTable \<Rightarrow> nat \<Rightarrow> RegisterEntry \<Rightarrow> 'd RegisterTable" where
  "put_entry t i x = t\<lparr>rt_entry := map_option (\<lambda>es. es[i := x]) (rt_entry t)\<rparr>"

text \<open>Calls of the callbacks of an area; calling a NULL pointer has no result.\<close>

definition call_read ::
    "'d RegisterTable \<Rightarrow> nat \<Rightarrow> nat \<Rightarrow> nat \<Rightarrow> (RegisterAccess \<times> RegisterAtom list \<times> 'd RegisterTable) option" where
  "call_read t i offset n = do {
     a \<leftarrow> area_at t i;
     rd \<leftarrow> ra_read a;
     (rv, xs, d) \<leftarrow> rd (area_data a) (rt_world t) offset n;
     Some (rv, xs, t\<lparr>rt_world := d\<rparr>)
   }"

definition call_write ::
    "'d RegisterTable \<Rightarrow> nat \<Rightarrow> RegisterAtom list \<Rightarrow> nat \<Rightarrow> nat \<Rightarrow> (RegisterAccess \<times> 'd RegisterTable) option" where
  "call_write t i src offset n = do {
     a \<leftarrow> area_at t i;
     wr \<leftarrow> ra_write a;
     (rv, x, d) \<leftarrow> wr (area_data a) (rt_world t) src offset n;
     Some (rv, (put_area t i (with_data a x))\<lparr>rt_world := d\<rparr>)
   }"

section \<open>Validators\<close>

definition rv_check_min :: "RegisterValueU \<Rightarrow> RegisterValue \<Rightarrow> bool option" where
  "rv_check_min lo v = rv_check_min_value lo v"

definition rv_check_max :: "RegisterValueU \<Rightarrow> RegisterValue \<Rightarrow> bool option" where
  "rv_check_max hi v = rv_check_max_value hi v"

definition rv_check_range :: "RegisterValueU \<Rightarrow> RegisterValueU \<Rightarrow> RegisterValue \<Rightarrow> bool option" where
  "rv_check_range lo hi v = do {
     ok \<leftarrow> rv_check_min_value lo v;
     if \<not> ok then Some False else rv_check_max_value hi v
   }"

definition rv_check_cb :: "(RegisterEntryData \<Rightarrow> RegisterValue \<Rightarrow> bool) \<Rightarrow> RegisterEntry \<Rightarrow> RegisterValue \<Rightarrow> bool option" where
  "rv_check_cb f x v = Some (f (entry_data x) v)"

definition rv_validate :: "'d RegisterTable \<Rightarrow> RegisterEntry \<Rightarrow> RegisterValue \<Rightarrow> bool option" where
  "rv_validate t x v =
     (if re_type x \<noteq> rv_type v then Some False
      else case re_check x of
         REGV_TYPE_TRIVIAL \<Rightarrow> Some True
       | REGV_TYPE_FAIL \<Rightarrow> Some (BIT_ISSET (rt_flags t) REG_TF_DURING_INIT)
       | REGV_TYPE_MIN lo \<Rightarrow> rv_check_min lo v
       | REGV_TYPE_MAX hi \<Rightarrow> rv_check_max hi v
       | REGV_TYPE_RANGE lo hi \<Rightarrow> rv_check_range lo hi v
       | REGV_TYPE_CALLBACK f \<Rightarrow> rv_check_cb f x v)"

section \<open>Areas and entries\<close>

definition is_end_of_areas :: "'d RegisterArea \<Rightarrow> bool" where
  "is_end_of_areas a =
     (if ra_read a \<noteq> None \<or> ra_write a \<noteq> None then False
      else if ra_size a \<noteq> 0 \<or> ra_base a \<noteq> 0 then False
      else if ra_mem a \<noteq> None then False
      else True)"

definition is_end_of_entries :: "RegisterEntry \<Rightarrow> bool" where
  "is_end_of_entries x \<longleftrightarrow> re_type x = REG_TYPE_INVALID"

fun reg_count_areas :: "'d RegisterArea list \<Rightarrow> nat \<Rightarrow> nat option" where
  "reg_count_areas [] n = (if n < AREA_HANDLE_MAX then None else Some n)"
| "reg_count_areas (a # as) n = (if n < AREA_HANDLE_MAX \<and> \<not> is_end_of_areas a then reg_count_areas as (n + 1) else Some n)"

fun reg_count_entries :: "RegisterEntry list \<Rightarrow> nat \<Rightarrow> nat option" where
  "reg_count_entries [] n = (if n < REGISTER_HANDLE_MAX then None else Some n)"
| "reg_count_entries (x # es) n =
     (if n < REGISTER_HANDLE_MAX \<and> \<not> is_end_of_entries x then reg_count_entries es (n + 1) else Some n)"

definition register_area_can_write :: "'d RegisterArea \<Rightarrow> bool" where
  "register_area_can_write a \<longleftrightarrow> ra_write a \<noteq> None"

definition register_area_is_writeable :: "'d RegisterArea \<Rightarrow> bool" where
  "register_area_is_writeable a \<longleftrightarrow> register_area_can_write a \<and> BIT_ISSET (ra_flags a) REG_AF_WRITEABLE"

definition register_area_is_readable :: "'d RegisterArea \<Rightarrow> bool" where
  "register_area_is_readable a \<longleftrightarrow> ra_read a \<noteq> None \<and> BIT_ISSET (ra_flags a) REG_AF_READABLE"

definition ra_addr_is_part_of :: "'d RegisterArea \<Rightarrow> nat \<Rightarrow> bool" where
  "ra_addr_is_part_of a addr =
     (if ra_base a > addr then False
      else if ad_add (ra_base a) (ra_size a) \<le> addr then False
      else True)"

definition ra_reg_is_part_of :: "'d RegisterArea \<Rightarrow> RegisterEntry \<Rightarrow> bool" where
  "ra_reg_is_part_of a x = ra_addr_is_part_of a (re_address x)"

definition ra_reg_fits_into :: "'d RegisterArea \<Rightarrow> RegisterEntry \<Rightarrow> bool" where
  "ra_reg_fits_into a x \<longleftrightarrow> ad_add (re_address x) (rds_size (re_type x)) \<le> ad_add (ra_base a) (ra_size a)"

fun find_area_from :: "'d RegisterTable \<Rightarrow> nat \<Rightarrow> nat list \<Rightarrow> nat option" where
  "find_area_from t addr [] = Some (rt_areas t)"
| "find_area_from t addr (n # ns) = do {
     a \<leftarrow> area_at t n;
     if ra_addr_is_part_of a addr then Some n else find_area_from t addr ns
   }"

definition ra_find_area_by_addr :: "'d RegisterTable \<Rightarrow> nat \<Rightarrow> nat option" where
  "ra_find_area_by_addr t addr = find_area_from t addr [0 ..< rt_areas t]"

text \<open>The verdict and the entry, linked to its area.\<close>

fun entry_in_area :: "'d RegisterTable \<Rightarrow> RegisterEntry \<Rightarrow> nat list \<Rightarrow> (bool \<times> RegisterEntry) option" where
  "entry_in_area t x [] = Some (False, x)"
| "entry_in_area t x (an # ans) = do {
     a \<leftarrow> area_at t an;
     if ra_reg_is_part_of a x then
       Some (if \<not> ra_reg_fits_into a x then (False, x)
             else (True, x\<lparr>re_area := Some an, re_offset := ad_sub (re_address x) (ra_base a)\<rparr>))
     else entry_in_area t x ans
   }"

definition reg_entry_is_in_memory :: "'d RegisterTable \<Rightarrow> RegisterEntry \<Rightarrow> (bool \<times> RegisterEntry) option" where
  "reg_entry_is_in_memory t x = entry_in_area t x [0 ..< rt_areas t]"

definition reg_range_touches :: "RegisterEntry \<Rightarrow> nat \<Rightarrow> nat \<Rightarrow> int" where
  "reg_range_touches x addr n =
     (if ad_add (re_address x) (rds_size (re_type x)) \<le> addr then - 1
      else if ad_add addr n \<le> re_address x then 1
      else 0)"

definition ra_range_touches :: "'d RegisterArea \<Rightarrow> nat \<Rightarrow> nat \<Rightarrow> int" where
  "ra_range_touches a addr n =
     (if ad_add (ra_base a) (ra_size a) \<le> addr then - 1
      else if ad_add addr n \<le> ra_base a then 1
      else 0)"

fun next_area_entry :: "'d RegisterTable \<Rightarrow> 'd RegisterArea \<Rightarrow> nat list \<Rightarrow> nat option" where
  "next_area_entry t a [] = Some (rt_entries t)"
| "next_area_entry t a (i # ix) = do {
     x \<leftarrow> entry_at t i;
     if \<not> ra_addr_is_part_of a (re_address x) then Some i else next_area_entry t a ix
   }"

definition ra_first_entry_of_next :: "'d RegisterTable \<Rightarrow> 'd RegisterArea \<Rightarrow> nat \<Rightarrow> nat option" where
  "ra_first_entry_of_next t a start = next_area_entry t a [start ..< rt_entries t]"

definition reg_read_entry ::
    "'d RegisterTable \<Rightarrow> RegisterEntry \<Rightarrow> RegisterAtom list \<Rightarrow> (RegisterAccess \<times> RegisterAtom list \<times> 'd RegisterTable) option" where
  "reg_read_entry t x buf = do {
     an \<leftarrow> re_area x;
     (rv, xs, t) \<leftarrow> call_read t an (re_offset x) (rds_size (re_type x));
     buf \<leftarrow> mem_write buf 0 xs;
     Some (rv, buf, t)
   }"

definition need_to_load_default :: "'d RegisterTable \<Rightarrow> RegisterEntry \<Rightarrow> bool option" where
  "need_to_load_default t x = do {
     an \<leftarrow> re_area x;
     a \<leftarrow> area_at t an;
     Some (if ra_write a = None then False
           else if BIT_ISSET (ra_flags a) REG_AF_SKIP_DEFAULTS then False
           else True)
   }"

definition register_entry_size :: "RegisterEntry \<Rightarrow> nat" where
  "register_entry_size x = rds_size (re_type x)"

definition register_make_bigendian :: "'d RegisterTable \<Rightarrow> bool \<Rightarrow> 'd RegisterTable" where
  "register_make_bigendian t bigendian =
     t\<lparr>rt_flags := (if bigendian then BIT_SET (rt_flags t) REG_TF_BIG_ENDIAN else BIT_CLEAR (rt_flags t) REG_TF_BIG_ENDIAN)\<rparr>"

section \<open>Single registers\<close>

definition table_bigendian :: "'d RegisterTable \<Rightarrow> bool" where
  "table_bigendian t \<longleftrightarrow> BIT_ISSET (rt_flags t) REG_TF_BIG_ENDIAN"

definition table_initialised :: "'d RegisterTable \<Rightarrow> bool" where
  "table_initialised t \<longleftrightarrow> BIT_ISSET (rt_flags t) REG_TF_INITIALISED"

text \<open>The local array of a function. What it held before does not matter where a callback fills it.\<close>

definition raw_atoms :: "RegisterAtom list" where
  "raw_atoms = replicate 4 0"

definition register_setx ::
    "endianness \<Rightarrow> 'd RegisterTable \<Rightarrow> nat \<Rightarrow> RegisterValue \<Rightarrow> bool \<Rightarrow> (RegisterAccess \<times> 'd RegisterTable) option" where
  "register_setx e t idx v withvalidator =
     (if \<not> table_initialised t then Some (access REG_ACCESS_UNINITIALISED idx, t)
      else if idx > rt_entries t then Some (access REG_ACCESS_NOENTRY idx, t)
      else do {
        x \<leftarrow> entry_at t idx;
        success \<leftarrow> (if withvalidator then rv_validate t x v else Some True);
        if \<not> success then Some (access REG_ACCESS_RANGE (re_address x), t)
        else do {
          an \<leftarrow> re_area x;
          a \<leftarrow> area_at t an;
          if \<not> register_area_can_write a then Some (access REG_ACCESS_READONLY (re_address x), t)
          else do {
            (success, raw) \<leftarrow> fst (rds_serdes (re_type x)) e v raw_atoms (table_bigendian t);
            if \<not> success then Some (access REG_ACCESS_INVALID (re_address x), t)
            else call_write t an raw (re_offset x) (rds_size (re_type x))
          }
        }
      })"

definition register_set ::
    "endianness \<Rightarrow> 'd RegisterTable \<Rightarrow> nat \<Rightarrow> RegisterValue \<Rightarrow> (RegisterAccess \<times> 'd RegisterTable) option" where
  "register_set e t idx v = register_setx e t idx v True"

definition register_set_unsafe ::
    "endianness \<Rightarrow> 'd RegisterTable \<Rightarrow> nat \<Rightarrow> RegisterValue \<Rightarrow> (RegisterAccess \<times> 'd RegisterTable) option" where
  "register_set_unsafe e t idx v = register_setx e t idx v False"

definition register_get ::
    "endianness \<Rightarrow> 'd RegisterTable \<Rightarrow> nat \<Rightarrow> RegisterValue
       \<Rightarrow> (RegisterAccess \<times> RegisterValue \<times> 'd RegisterTable) option" where
  "register_get e t idx v =
     (let v = v\<lparr>rv_type := REG_TYPE_INVALID\<rparr> in
      if \<not> table_initialised t then Some (access REG_ACCESS_UNINITIALISED idx, v, t)
      else if idx \<ge> rt_entries t then Some (access REG_ACCESS_NOENTRY idx, v, t)
      else do {
        x \<leftarrow> entry_at t idx;
        (rv, raw, t) \<leftarrow> reg_read_entry t x raw_atoms;
        if ac_code rv \<noteq> REG_ACCESS_SUCCESS then Some (rv, v, t)
        else do {
          (success, v) \<leftarrow> snd (rds_serdes (re_type x)) e raw v (table_bigendian t);
          Some (if \<not> success then access REG_ACCESS_INVALID idx else rv, v, t)
        }
      })"

definition register_change ::
    "endianness \<Rightarrow> 'd RegisterTable \<Rightarrow> nat \<Rightarrow> RegisterValue \<Rightarrow> (RegisterValueU \<Rightarrow> RegisterValueU \<Rightarrow> RegisterValueU option)
       \<Rightarrow> (RegisterAccess \<times> 'd RegisterTable) option" where
  "register_change e t idx v f = do {
     (rv, reg, t) \<leftarrow> register_get e t idx v;
     if ac_code rv \<noteq> REG_ACCESS_SUCCESS then Some (rv, t)
     else if rv_type reg \<noteq> rv_type v then Some (access REG_ACCESS_INVALID idx, t)
     else if rv_type reg \<in> {REG_TYPE_UINT16, REG_TYPE_UINT32, REG_TYPE_UINT64} then do {
       x \<leftarrow> f (rv_value reg) (rv_value v);
       register_set e t idx (reg\<lparr>rv_value := x\<rparr>)
     }
     else Some (access REG_ACCESS_INVALID idx, t)
   }"

fun value_bit_set :: "RegisterValueU \<Rightarrow> RegisterValueU \<Rightarrow> RegisterValueU option" where
  "value_bit_set (U16 x) (U16 y) = Some (U16 (BIT_SET x y))"
| "value_bit_set (U32 x) (U32 y) = Some (U32 (BIT_SET x y))"
| "value_bit_set (U64 x) (U64 y) = Some (U64 (BIT_SET x y))"
| "value_bit_set _ _ = None"

fun value_bit_clear :: "RegisterValueU \<Rightarrow> RegisterValueU \<Rightarrow> RegisterValueU option" where
  "value_bit_clear (U16 x) (U16 y) = Some (U16 (BIT_CLEAR x y))"
| "value_bit_clear (U32 x) (U32 y) = Some (U32 (BIT_CLEAR x y))"
| "value_bit_clear (U64 x) (U64 y) = Some (U64 (BIT_CLEAR x y))"
| "value_bit_clear _ _ = None"

definition register_bit_set ::
    "endianness \<Rightarrow> 'd RegisterTable \<Rightarrow> nat \<Rightarrow> RegisterValue \<Rightarrow> (RegisterAccess \<times> 'd RegisterTable) option" where
  "register_bit_set e t idx v = register_change e t idx v value_bit_set"

definition register_bit_clear ::
    "endianness \<Rightarrow> 'd RegisterTable \<Rightarrow> nat \<Rightarrow> RegisterValue \<Rightarrow> (RegisterAccess \<times> 'd RegisterTable) option" where
  "register_bit_clear e t idx v = register_change e t idx v value_bit_clear"

definition register_default ::
    "'d RegisterTable \<Rightarrow> nat \<Rightarrow> RegisterValue \<Rightarrow> (RegisterAccess \<times> RegisterValue) option" where
  "register_default t idx v =
     (if \<not> table_initialised t then Some (access REG_ACCESS_UNINITIALISED idx, v)
      else if idx \<ge> rt_entries t then Some (access REG_ACCESS_NOENTRY idx, v)
      else do {
        x \<leftarrow> entry_at t idx;
        Some (REG_ACCESS_RESULT_INIT, \<lparr>rv_type = re_type x, rv_value = re_default x\<rparr>)
      })"

definition reg_entry_load_default ::
    "endianness \<Rightarrow> 'd RegisterTable \<Rightarrow> nat \<Rightarrow> (RegisterAccess \<times> 'd RegisterTable) option" where
  "reg_entry_load_default e t reg = do {
     x \<leftarrow> entry_at t reg;
     register_set e t reg \<lparr>rv_type = re_type x, rv_value = re_default x\<rparr>
   }"

text \<open>A local value that was not initialised.\<close>

definition no_value :: RegisterValue where
  "no_value = \<lparr>rv_type = REG_TYPE_INVALID, rv_value = U16 0\<rparr>"

definition reg_entry_sane ::
    "endianness \<Rightarrow> 'd RegisterTable \<Rightarrow> nat \<Rightarrow> (RegisterAccess \<times> 'd RegisterTable) option" where
  "reg_entry_sane e t reg = do {
     (rv, current, t) \<leftarrow> register_get e t reg no_value;
     if ac_code rv \<noteq> REG_ACCESS_SUCCESS then Some (rv, t)
     else do {
       x \<leftarrow> entry_at t reg;
       ok \<leftarrow> rv_validate t x current;
       Some (if ok then access REG_ACCESS_SUCCESS 0 else access REG_ACCESS_RANGE reg, t)
     }
   }"

definition register_compare ::
    "endianness \<Rightarrow> 'd RegisterTable \<Rightarrow> nat \<Rightarrow> nat \<Rightarrow> (RegisterAccess \<times> 'd RegisterTable) option" where
  "register_compare e t a b = do {
     (rv, av, t) \<leftarrow> register_get e t a no_value;
     if ac_code rv \<noteq> REG_ACCESS_SUCCESS then Some (rv, t)
     else do {
       (rv, bv, t) \<leftarrow> register_get e t b no_value;
       if ac_code rv \<noteq> REG_ACCESS_SUCCESS then Some (rv, t)
       else do {
         same \<leftarrow> register_value_compare av bv;
         Some (rv\<lparr>ac_code := (if same then REG_ACCESS_SUCCESS else REG_ACCESS_FAILURE)\<rparr>, t)
       }
     }
   }"

definition register_touch :: "'d RegisterTable \<Rightarrow> nat \<Rightarrow> 'd RegisterTable option" where
  "register_touch t reg = do {
     x \<leftarrow> entry_at t reg;
     Some (put_entry t reg (x\<lparr>re_flags := BIT_SET (re_flags x) REG_EF_TOUCHED\<rparr>))
   }"

definition register_untouch :: "'d RegisterTable \<Rightarrow> nat \<Rightarrow> 'd RegisterTable option" where
  "register_untouch t reg = do {
     x \<leftarrow> entry_at t reg;
     Some (put_entry t reg (x\<lparr>re_flags := BIT_CLEAR (re_flags x) REG_EF_TOUCHED\<rparr>))
   }"

definition register_was_touched :: "'d RegisterTable \<Rightarrow> nat \<Rightarrow> bool option" where
  "register_was_touched t reg = do { x \<leftarrow> entry_at t reg; Some (BIT_ISSET (re_flags x) REG_EF_TOUCHED) }"

definition register_address :: "'d RegisterTable \<Rightarrow> nat \<Rightarrow> nat option" where
  "register_address t reg = map_option re_address (entry_at t reg)"

definition register_area :: "'d RegisterTable \<Rightarrow> nat \<Rightarrow> nat option option" where
  "register_area t reg = map_option re_area (entry_at t reg)"

definition register_offset :: "'d RegisterTable \<Rightarrow> nat \<Rightarrow> nat option" where
  "register_offset t reg = map_option re_offset (entry_at t reg)"

definition register_name :: "'d RegisterTable \<Rightarrow> nat \<Rightarrow> string option option" where
  "register_name t reg = map_option re_name (entry_at t reg)"

text \<open>The pointer to an entry is its index.\<close>

definition register_get_entry :: "'d RegisterTable \<Rightarrow> nat \<Rightarrow> nat option" where
  "register_get_entry t r = (if r \<ge> rt_entries t then None else Some r)"

section \<open>Blocks\<close>

partial_function (option) register_block_touches_hole ::
    "'d RegisterTable \<Rightarrow> nat \<Rightarrow> nat \<Rightarrow> RegisterAccess option" where
  "register_block_touches_hole t addr rest =
     (if rest = 0 then Some REG_ACCESS_RESULT_INIT
      else do {
        an \<leftarrow> ra_find_area_by_addr t addr;
        if an = rt_areas t then Some (access REG_ACCESS_NOENTRY addr)
        else do {
          a \<leftarrow> area_at t an;
          let used = reg_min (ad_sub (ad_add (ra_base a) (ra_size a)) addr) rest;
          register_block_touches_hole t (ad_add addr used) (rest - used)
        }
      })"

partial_function (option) block_read_loop ::
    "'d RegisterTable \<Rightarrow> nat \<Rightarrow> nat \<Rightarrow> RegisterAtom list \<Rightarrow> nat \<Rightarrow> (RegisterAccess \<times> RegisterAtom list \<times> 'd RegisterTable) option" where
  "block_read_loop t addr rest buf pos =
     (if rest = 0 then Some (REG_ACCESS_RESULT_INIT, buf, t)
      else do {
        an \<leftarrow> ra_find_area_by_addr t addr;
        a \<leftarrow> area_at t an;
        let offset = ad_sub addr (ra_base a);
        let readn = reg_min (ad_sub (ad_add (ra_base a) (ra_size a)) addr) rest;
        (rv, buf, t) \<leftarrow> (if register_area_is_readable a
           then do {
             (rv, xs, t) \<leftarrow> call_read t an offset readn;
             buf \<leftarrow> mem_write buf pos xs;
             Some (rv, buf, t)
           }
           else do {
             buf \<leftarrow> mem_write buf (pos + offset) (replicate readn 0);
             Some (REG_ACCESS_RESULT_INIT, buf, t)
           });
        if ac_code rv \<noteq> REG_ACCESS_SUCCESS then Some (rv, buf, t)
        else block_read_loop t (ad_add addr readn) (rest - readn) buf (pos + readn)
      })"

definition register_block_read_unsafe ::
    "'d RegisterTable \<Rightarrow> nat \<Rightarrow> nat \<Rightarrow> RegisterAtom list \<Rightarrow> (RegisterAccess \<times> RegisterAtom list \<times> 'd RegisterTable) option" where
  "register_block_read_unsafe t addr n buf = block_read_loop t addr n buf 0"

partial_function (option) block_write_loop ::
    "'d RegisterTable \<Rightarrow> nat \<Rightarrow> nat \<Rightarrow> RegisterAtom list \<Rightarrow> (RegisterAccess \<times> 'd RegisterTable) option" where
  "block_write_loop t addr rest buf =
     (if rest = 0 then Some (REG_ACCESS_RESULT_INIT, t)
      else do {
        an \<leftarrow> ra_find_area_by_addr t addr;
        a \<leftarrow> area_at t an;
        let offset = ad_sub addr (ra_base a);
        let writen = reg_min (ad_sub (ad_add (ra_base a) (ra_size a)) addr) rest;
        (rv, t) \<leftarrow> call_write t an buf offset writen;
        if ac_code rv \<noteq> REG_ACCESS_SUCCESS then Some (rv, t)
        else block_write_loop t (ad_add addr writen) (rest - writen) (drop writen buf)
      })"

definition register_block_write_unsafe ::
    "'d RegisterTable \<Rightarrow> nat \<Rightarrow> nat \<Rightarrow> RegisterAtom list \<Rightarrow> (RegisterAccess \<times> 'd RegisterTable) option" where
  "register_block_write_unsafe t addr n buf = block_write_loop t addr n buf"

definition register_block_read ::
    "'d RegisterTable \<Rightarrow> nat \<Rightarrow> nat \<Rightarrow> RegisterAtom list \<Rightarrow> (RegisterAccess \<times> RegisterAtom list \<times> 'd RegisterTable) option" where
  "register_block_read t addr n buf =
     (if \<not> table_initialised t then Some (access REG_ACCESS_UNINITIALISED addr, buf, t)
      else if n = 0 then Some (REG_ACCESS_RESULT_INIT, buf, t)
      else do {
        rv \<leftarrow> register_block_touches_hole t addr n;
        if ac_code rv \<noteq> REG_ACCESS_SUCCESS then Some (rv, buf, t)
        else register_block_read_unsafe t addr n buf
      })"

fun writeable_from :: "'d RegisterTable \<Rightarrow> nat \<Rightarrow> nat \<Rightarrow> nat list \<Rightarrow> RegisterAccess option" where
  "writeable_from t addr n [] = Some REG_ACCESS_RESULT_INIT"
| "writeable_from t addr n (i # ix) = do {
     a \<leftarrow> area_at t i;
     let touch = ra_range_touches a addr n;
     if touch < 0 then writeable_from t addr n ix
     else if touch > 0 then Some REG_ACCESS_RESULT_INIT
     else if \<not> register_area_is_writeable a then Some (access REG_ACCESS_READONLY addr)
     else writeable_from t addr n ix
   }"

definition ra_writeable :: "'d RegisterTable \<Rightarrow> nat \<Rightarrow> nat \<Rightarrow> RegisterAccess option" where
  "ra_writeable t addr n = writeable_from t addr n [0 ..< rt_areas t]"

text \<open>
  Which atoms of the block go to which atoms of the entry: the offset within the block, the offset within the
  entry, and the number of atoms.
\<close>

definition write_overlap :: "RegisterEntry \<Rightarrow> nat \<Rightarrow> nat \<Rightarrow> nat \<times> nat \<times> nat" where
  "write_overlap x addr n =
     (let last = ad_sub (ad_add addr n) 1;
          size' = rds_size (re_type x);
          end' = ad_sub (ad_add (re_address x) size') 1;
          rlen = size';
          (bs, rs, rlen) =
            (if addr > re_address x
             then (0, ad_sub addr (re_address x), ad_sub rlen (ad_sub (ad_sub addr (re_address x)) 1))
             else (ad_sub (re_address x) addr, 0, rlen));
          rlen = (if end' > last then ad_sub rlen (ad_sub (ad_add bs size') n) else rlen)
      in (bs, rs, rlen))"

fun malformed_from ::
    "endianness \<Rightarrow> 'd RegisterTable \<Rightarrow> nat \<Rightarrow> nat \<Rightarrow> RegisterAtom list \<Rightarrow> RegisterAccess \<Rightarrow> nat list
       \<Rightarrow> (RegisterAccess \<times> 'd RegisterTable) option" where
  "malformed_from e t addr n buf rv [] = Some (rv, t)"
| "malformed_from e t addr n buf rv (i # ix) = do {
     x \<leftarrow> entry_at t i;
     if addr > ad_sub (ad_add (re_address x) (rds_size (re_type x))) 1 then malformed_from e t addr n buf rv ix
     else if re_address x > ad_sub (ad_add addr n) 1 then Some (rv, t)
     else do {
       let (bs, rs, rlen) = write_overlap x addr n;
       (rv, raw, t) \<leftarrow> reg_read_entry t x raw_atoms;
       if ac_code rv \<noteq> REG_ACCESS_SUCCESS then Some (rv, t)
       else do {
         xs \<leftarrow> mem_read buf bs rlen;
         raw \<leftarrow> mem_write raw rs xs;
         (success, datum) \<leftarrow> snd (rds_serdes (re_type x)) e raw no_value (table_bigendian t);
         if \<not> success then Some (access REG_ACCESS_INVALID (ad_add addr bs), t)
         else do {
           ok \<leftarrow> rv_validate t x datum;
           if \<not> ok then Some (access REG_ACCESS_RANGE (ad_add addr bs), t)
           else malformed_from e t addr n buf rv ix
         }
       }
     }
   }"

definition ra_malformed_write ::
    "endianness \<Rightarrow> 'd RegisterTable \<Rightarrow> nat \<Rightarrow> nat \<Rightarrow> RegisterAtom list \<Rightarrow> (RegisterAccess \<times> 'd RegisterTable) option" where
  "ra_malformed_write e t addr n buf = malformed_from e t addr n buf REG_ACCESS_RESULT_INIT [0 ..< rt_entries t]"

fun taint_from :: "'d RegisterTable \<Rightarrow> nat \<Rightarrow> nat \<Rightarrow> nat list \<Rightarrow> 'd RegisterTable option" where
  "taint_from t addr n [] = Some t"
| "taint_from t addr n (i # ix) = do {
     x \<leftarrow> entry_at t i;
     let touch = reg_range_touches x addr n;
     if touch > 0 then Some t
     else if touch < 0 then taint_from t addr n ix
     else do { t \<leftarrow> register_touch t i; taint_from t addr n ix }
   }"

definition reg_taint_in_range :: "'d RegisterTable \<Rightarrow> nat \<Rightarrow> nat \<Rightarrow> 'd RegisterTable option" where
  "reg_taint_in_range t addr n = taint_from t addr n [0 ..< rt_entries t]"

definition register_block_write ::
    "endianness \<Rightarrow> 'd RegisterTable \<Rightarrow> nat \<Rightarrow> nat \<Rightarrow> RegisterAtom list \<Rightarrow> (RegisterAccess \<times> 'd RegisterTable) option" where
  "register_block_write e t addr n buf =
     (if \<not> table_initialised t then Some (access REG_ACCESS_UNINITIALISED addr, t)
      else if n = 0 then Some (REG_ACCESS_RESULT_INIT, t)
      else do {
        rv \<leftarrow> ra_writeable t addr n;
        if ac_code rv \<noteq> REG_ACCESS_SUCCESS then Some (rv, t)
        else do {
          rv \<leftarrow> register_block_touches_hole t addr n;
          if ac_code rv \<noteq> REG_ACCESS_SUCCESS then Some (rv, t)
          else do {
            (rv, t) \<leftarrow> ra_malformed_write e t addr n buf;
            if ac_code rv \<noteq> REG_ACCESS_SUCCESS then Some (rv, t)
            else do {
              (rv, t) \<leftarrow> register_block_write_unsafe t addr n buf;
              if ac_code rv \<noteq> REG_ACCESS_SUCCESS then Some (rv, t)
              else do { t \<leftarrow> reg_taint_in_range t addr n; Some (rv, t) }
            }
          }
        }
      })"

definition reg_mem_read :: "'d registerRead" where
  "reg_mem_read a d offset n = do {
     mem \<leftarrow> ra_mem a;
     xs \<leftarrow> mem_read mem offset n;
     Some (REG_ACCESS_RESULT_INIT, xs, d)
   }"

definition reg_mem_write :: "'d registerWrite" where
  "reg_mem_write a d src offset n = do {
     mem \<leftarrow> ra_mem a;
     xs \<leftarrow> mem_read src 0 n;
     mem \<leftarrow> mem_write mem offset xs;
     Some (REG_ACCESS_RESULT_INIT, a\<lparr>ra_mem := Some mem\<rparr>, d)
   }"

section \<open>Text, copies, sanitising\<close>

definition isxdigit :: "char \<Rightarrow> bool" where
  "isxdigit c \<longleftrightarrow> c \<in> set ''0123456789abcdefABCDEF''"

definition tolower :: "char \<Rightarrow> char" where
  "tolower c = (let n = of_char c :: nat in if 65 \<le> n \<and> n \<le> 90 then char_of (n + 32) else c)"

definition reg_is_hexstr :: "string \<Rightarrow> nat \<Rightarrow> bool option" where
  "reg_is_hexstr s n = do { cs \<leftarrow> mem_read s 0 n; Some (list_all isxdigit cs) }"

definition reg_c2a :: "char \<Rightarrow> RegisterAtom" where
  "reg_c2a c = (case map_of (zip ''123456789abcdef'' [1, 2, 3, 4, 5, 6, 7, 8, 9, 10, 11, 12, 13, 14, 15]) c of
       Some digit \<Rightarrow> digit | None \<Rightarrow> 0)"

fun hexstr_digits :: "string \<Rightarrow> RegisterAtom \<Rightarrow> RegisterAtom" where
  "hexstr_digits [] rv = rv"
| "hexstr_digits (c # cs) rv = hexstr_digits cs (rv OR push_bit (length cs * 4) (reg_c2a (tolower c) AND 0x0f))"

definition reg_atom_from_hexstr :: "string \<Rightarrow> nat \<Rightarrow> RegisterAtom option" where
  "reg_atom_from_hexstr s n = do { cs \<leftarrow> mem_read s 0 n; Some (hexstr_digits cs 0) }"

text \<open>The index into the text is four times the number of atoms written.\<close>

fun hexstr_from ::
    "'d RegisterTable \<Rightarrow> nat \<Rightarrow> string \<Rightarrow> nat \<Rightarrow> RegisterAccess \<Rightarrow> nat list \<Rightarrow> (RegisterAccess \<times> 'd RegisterTable) option" where
  "hexstr_from t start str n rv [] = Some (rv, t)"
| "hexstr_from t start str n rv (i # ix) = do {
     let cn = reg_min 4 (n - 4 * i);
     let ca = ad_add start i;
     ah \<leftarrow> ra_find_area_by_addr t ca;
     if ah \<ge> rt_areas t then Some (access REG_ACCESS_NOENTRY ca, t)
     else do {
       a \<leftarrow> area_at t ah;
       if \<not> register_area_can_write a then Some (access REG_ACCESS_READONLY ca, t)
       else do {
         hex \<leftarrow> reg_is_hexstr (drop (4 * i) str) cn;
         if \<not> hex then Some (access REG_ACCESS_INVALID ca, t)
         else do {
           value \<leftarrow> reg_atom_from_hexstr (drop (4 * i) str) cn;
           (rv, t) \<leftarrow> call_write t ah [value] (ad_sub ca (ra_base a)) (rds_size REG_TYPE_UINT16);
           if ac_code rv \<noteq> REG_ACCESS_SUCCESS then Some (rv, t)
           else hexstr_from t start str n rv ix
         }
       }
     }
   }"

definition register_set_from_hexstr ::
    "'d RegisterTable \<Rightarrow> nat \<Rightarrow> string \<Rightarrow> nat \<Rightarrow> (RegisterAccess \<times> 'd RegisterTable) option" where
  "register_set_from_hexstr t start str n = hexstr_from t start str n REG_ACCESS_RESULT_INIT [0 ..< (n + 3) div 4]"

definition register_mcopy :: "'d RegisterTable \<Rightarrow> nat \<Rightarrow> nat \<Rightarrow> (RegisterAccess \<times> 'd RegisterTable) option" where
  "register_mcopy t dst src = do {
     da \<leftarrow> area_at t dst;
     sa \<leftarrow> area_at t src;
     let n = (if ra_size da < ra_size sa then ra_size da else ra_size sa);
     case (ra_mem da, ra_mem sa) of
       (None, None) \<Rightarrow> Some (access REG_ACCESS_INVALID 0, t)
     | (Some dm, Some sm) \<Rightarrow> do {
         xs \<leftarrow> mem_read sm 0 n;
         dm \<leftarrow> mem_write dm 0 xs;
         Some (REG_ACCESS_RESULT_INIT, put_area t dst (da\<lparr>ra_mem := Some dm\<rparr>))
       }
     | (None, Some sm) \<Rightarrow> call_write t dst sm 0 n
     | (Some dm, None) \<Rightarrow> do {
         (rv, xs, t) \<leftarrow> call_read t src 0 n;
         dm \<leftarrow> mem_write dm 0 xs;
         Some (rv, put_area t dst (da\<lparr>ra_mem := Some dm\<rparr>))
       }
   }"

fun sanitise_from :: "endianness \<Rightarrow> 'd RegisterTable \<Rightarrow> nat list \<Rightarrow> (RegisterAccess \<times> 'd RegisterTable) option" where
  "sanitise_from e t [] = Some (access REG_ACCESS_SUCCESS 0, t)"
| "sanitise_from e t (i # ix) = do {
     (rv, t) \<leftarrow> reg_entry_sane e t i;
     if ac_code rv = REG_ACCESS_SUCCESS then do { t \<leftarrow> register_untouch t i; sanitise_from e t ix }
     else if ac_code rv \<in> {REG_ACCESS_INVALID, REG_ACCESS_RANGE} then do {
       (rv, t) \<leftarrow> reg_entry_load_default e t i;
       if ac_code rv \<noteq> REG_ACCESS_SUCCESS then Some (rv, t)
       else do { t \<leftarrow> register_untouch t i; sanitise_from e t ix }
     }
     else Some (rv, t)
   }"

definition register_sanitise :: "endianness \<Rightarrow> 'd RegisterTable \<Rightarrow> (RegisterAccess \<times> 'd RegisterTable) option" where
  "register_sanitise e t =
     (if \<not> table_initialised t then Some (access REG_ACCESS_UNINITIALISED 0, t)
      else sanitise_from e t [0 ..< rt_entries t])"

section \<open>Iteration\<close>

fun find_area :: "'d RegisterTable \<Rightarrow> nat \<Rightarrow> nat list \<Rightarrow> nat option option" where
  "find_area t addr [] = Some None"
| "find_area t addr (i # ix) = do {
     a \<leftarrow> area_at t i;
     if ra_addr_is_part_of a addr then Some (Some i) else find_area t addr ix
   }"

fun find_reg :: "'d RegisterTable \<Rightarrow> nat \<Rightarrow> nat list \<Rightarrow> nat option option" where
  "find_reg t addr [] = Some None"
| "find_reg t addr (i # ix) = do {
     x \<leftarrow> entry_at t i;
     if reg_range_touches x addr 1 = 0 then Some (Some i) else find_reg t addr ix
   }"

text \<open>A callback gives its verdict, the table and what is behind its argument.\<close>

type_synonym ('d, 's) registerCallback = "'d RegisterTable \<Rightarrow> nat \<Rightarrow> 's \<Rightarrow> int \<times> 'd RegisterTable \<times> 's"

fun iterate_from ::
    "'d RegisterTable \<Rightarrow> nat \<Rightarrow> ('d, 's) registerCallback \<Rightarrow> 's \<Rightarrow> nat list \<Rightarrow> (RegisterAccess \<times> 'd RegisterTable \<times> 's) option" where
  "iterate_from t end' f arg [] = Some (access REG_ACCESS_SUCCESS 0, t, arg)"
| "iterate_from t end' f arg (start # ix) = do {
     x \<leftarrow> entry_at t start;
     if \<not> re_address x \<le> end' then Some (access REG_ACCESS_SUCCESS 0, t, arg)
     else do {
       let (iret, t, arg) = f t start arg;
       if iret = 0 then iterate_from t end' f arg ix
       else if iret < 0 then do {
         x \<leftarrow> entry_at t start;
         Some (access REG_ACCESS_FAILURE (re_address x), t, arg)
       }
       else Some (access REG_ACCESS_SUCCESS 0, t, arg)
     }
   }"

definition reg_iterate ::
    "'d RegisterTable \<Rightarrow> nat \<Rightarrow> nat \<Rightarrow> ('d, 's) registerCallback \<Rightarrow> 's \<Rightarrow> (RegisterAccess \<times> 'd RegisterTable \<times> 's) option" where
  "reg_iterate t start end' f arg = iterate_from t end' f arg [start ..< Suc (ad_sub (rt_entries t) 1)]"

definition register_foreach_in ::
    "'d RegisterTable \<Rightarrow> nat \<Rightarrow> nat \<Rightarrow> ('d, 's) registerCallback \<Rightarrow> 's \<Rightarrow> (RegisterAccess \<times> 'd RegisterTable \<times> 's) option" where
  "register_foreach_in t addr off f arg =
     (if \<not> table_initialised t then Some (access REG_ACCESS_UNINITIALISED 0, t, arg)
      else if off = 0 \<or> rt_entries t = 0 then Some (access REG_ACCESS_SUCCESS 0, t, arg)
      else do {
        startarea \<leftarrow> find_area t addr [0 ..< Suc (ad_sub (rt_areas t) 1 mod 2 ^ 16)];
        startreg \<leftarrow> (case startarea of
            Some i \<Rightarrow> do { a \<leftarrow> area_at t i; find_reg t addr [ra_first a ..< Suc (ra_last a)] }
          | None \<Rightarrow> find_reg t addr [0 ..< Suc (ad_sub (rt_entries t) 1)]);
        case startreg of
          None \<Rightarrow> Some (access REG_ACCESS_SUCCESS 0, t, arg)
        | Some r \<Rightarrow> reg_iterate t r (ad_sub (ad_add addr off) 1) f arg
      })"

partial_function (option) user_init_loop ::
    "'d RegisterTable \<Rightarrow> ('d, nat) registerCallback \<Rightarrow> nat \<Rightarrow> (RegisterAccess \<times> 'd RegisterTable) option" where
  "user_init_loop t f i =
     (if i < rt_entries t then do {
        x \<leftarrow> entry_at t i;
        (code, t, _) \<leftarrow> Some (f t i (re_user x));
        if code < 0 then do { x \<leftarrow> entry_at t i; Some (access REG_ACCESS_FAILURE (re_address x), t) }
        else user_init_loop t f (ad_add i 1)
      }
      else Some (REG_ACCESS_RESULT_INIT, t))"

definition register_user_init ::
    "'d RegisterTable \<Rightarrow> ('d, nat) registerCallback \<Rightarrow> (RegisterAccess \<times> 'd RegisterTable) option" where
  "register_user_init t f =
     (if \<not> table_initialised t then Some (access REG_ACCESS_UNINITIALISED 0, t)
      else user_init_loop t f 0)"

section \<open>Initialisation\<close>

text \<open>The checks give the result to return, if there is something wrong. The sum of an area's base and size is a
  32-bit number, the sum of a register's address and size is not.\<close>

fun check_areas :: "'d RegisterTable \<Rightarrow> nat \<Rightarrow> nat list \<Rightarrow> RegisterInit option option" where
  "check_areas t previous [] = Some None"
| "check_areas t previous (i # ix) = do {
     a \<leftarrow> area_at t i;
     let current = ra_base a;
     if current < previous then Some (Some (init_result REG_INIT_AREA_INVALID_ORDER (Pos_area i)))
     else do {
       p \<leftarrow> area_at t (i - 1);
       if current < ad_add previous (ra_size p) then Some (Some (init_result REG_INIT_AREA_ADDRESS_OVERLAP (Pos_area i)))
       else check_areas t current ix
     }
   }"

fun check_entries :: "'d RegisterTable \<Rightarrow> nat \<Rightarrow> nat list \<Rightarrow> RegisterInit option option" where
  "check_entries t previous [] = Some None"
| "check_entries t previous (i # ix) = do {
     x \<leftarrow> entry_at t i;
     let current = re_address x;
     if current < previous then Some (Some (init_result REG_INIT_ENTRY_INVALID_ORDER (Pos_entry i)))
     else do {
       p \<leftarrow> entry_at t (i - 1);
       if current < previous + rds_size (re_type p) then Some (Some (init_result REG_INIT_ENTRY_ADDRESS_OVERLAP (Pos_entry i)))
       else check_entries t current ix
     }
   }"

fun clear_areas :: "'d RegisterTable \<Rightarrow> nat list \<Rightarrow> 'd RegisterTable option" where
  "clear_areas t [] = Some t"
| "clear_areas t (i # ix) = do {
     a \<leftarrow> area_at t i;
     case ra_mem a of
       None \<Rightarrow> clear_areas t ix
     | Some mem \<Rightarrow> do {
         mem \<leftarrow> mem_write mem 0 (replicate (ra_size a) 0);
         clear_areas (put_area t i (a\<lparr>ra_mem := Some mem\<rparr>)) ix
       }
   }"

definition clear_flags :: "'d RegisterTable \<Rightarrow> u16 \<Rightarrow> 'd RegisterTable" where
  "clear_flags t bits = t\<lparr>rt_flags := BIT_CLEAR (rt_flags t) bits\<rparr>"

definition set_flags :: "'d RegisterTable \<Rightarrow> u16 \<Rightarrow> 'd RegisterTable" where
  "set_flags t bits = t\<lparr>rt_flags := BIT_SET (rt_flags t) bits\<rparr>"

fun link_entries :: "endianness \<Rightarrow> 'd RegisterTable \<Rightarrow> nat list \<Rightarrow> (RegisterInit option \<times> 'd RegisterTable) option" where
  "link_entries e t [] = Some (None, t)"
| "link_entries e t (i # ix) = do {
     x \<leftarrow> entry_at t i;
     (success, x) \<leftarrow> reg_entry_is_in_memory t x;
     let t = put_entry t i x;
     if \<not> success
     then Some (Some (init_result REG_INIT_ENTRY_IN_MEMORY_HOLE (Pos_entry i)), clear_flags t (REG_TF_INITIALISED OR REG_TF_DURING_INIT))
     else do {
       an \<leftarrow> ra_find_area_by_addr t (re_address x);
       let x = x\<lparr>re_area := Some an\<rparr>;
       let t = put_entry t i x;
       load \<leftarrow> need_to_load_default t x;
       if load then do {
         (rv, t) \<leftarrow> register_set e t i \<lparr>rv_type = re_type x, rv_value = re_default x\<rparr>;
         if ac_code rv \<noteq> REG_ACCESS_SUCCESS
         then Some (Some (init_result REG_INIT_ENTRY_INVALID_DEFAULT (Pos_entry i)),
                    clear_flags t (REG_TF_INITIALISED OR REG_TF_DURING_INIT))
         else link_entries e t ix
       }
       else link_entries e t ix
     }
   }"

fun link_areas :: "'d RegisterTable \<Rightarrow> nat \<Rightarrow> nat list \<Rightarrow> 'd RegisterTable option" where
  "link_areas t entry [] = Some t"
| "link_areas t entry (i # ix) = do {
     a \<leftarrow> area_at t i;
     inside \<leftarrow> (if entry < rt_entries t
               then do { x \<leftarrow> entry_at t entry; Some (ra_addr_is_part_of a (re_address x)) }
               else Some False);
     if inside then do {
       following \<leftarrow> ra_first_entry_of_next t a (ad_add entry 1);
       link_areas (put_area t i (a\<lparr>ra_first := entry, ra_last := ad_sub following 1, ra_count := ad_sub following entry\<rparr>))
         following ix
     }
     else link_areas (put_area t i (a\<lparr>ra_first := 0, ra_last := 0, ra_count := 0\<rparr>)) entry ix
   }"

definition register_init ::
    "endianness \<Rightarrow> 'd RegisterTable option \<Rightarrow> (RegisterInit \<times> 'd RegisterTable option) option" where
  "register_init e table = (case table of
       None \<Rightarrow> Some (init_result REG_INIT_TABLE_INVALID (Pos_address 0), None)
     | Some t \<Rightarrow>
         if rt_area t = None \<or> rt_entry t = None then Some (init_result REG_INIT_TABLE_INVALID (Pos_address 0), Some t)
         else do {
           let t = set_flags (clear_flags t REG_TF_INITIALISED) REG_TF_DURING_INIT;
           as \<leftarrow> rt_area t;
           es \<leftarrow> rt_entry t;
           areas \<leftarrow> reg_count_areas as 0;
           let t = t\<lparr>rt_areas := areas\<rparr>;
           if areas = AREA_HANDLE_MAX
           then Some (init_result REG_INIT_TOO_MANY_AREAS (Pos_area AREA_HANDLE_MAX), Some (clear_flags t REG_TF_DURING_INIT))
           else do {
             entries \<leftarrow> reg_count_entries es 0;
             let t = t\<lparr>rt_entries := entries\<rparr>;
             if entries = REGISTER_HANDLE_MAX
             then Some (init_result REG_INIT_TOO_MANY_ENTRIES (Pos_entry REGISTER_HANDLE_MAX), Some (clear_flags t REG_TF_DURING_INIT))
             else if areas = 0 then Some (init_result REG_INIT_NO_AREAS (Pos_area 0), Some (clear_flags t REG_TF_DURING_INIT))
             else do {
               a0 \<leftarrow> area_at t 0;
               wrong \<leftarrow> check_areas t (ra_base a0) [1 ..< areas];
               case wrong of
                 Some r \<Rightarrow> Some (r, Some (clear_flags t REG_TF_DURING_INIT))
               | None \<Rightarrow> do {
                   x0 \<leftarrow> entry_at t 0;
                   wrong \<leftarrow> check_entries t (re_address x0) [1 ..< entries];
                   case wrong of
                     Some r \<Rightarrow> Some (r, Some (clear_flags t REG_TF_DURING_INIT))
                   | None \<Rightarrow> do {
                       t \<leftarrow> clear_areas t [0 ..< areas];
                       let t = set_flags t REG_TF_INITIALISED;
                       (wrong, t) \<leftarrow> link_entries e t [0 ..< entries];
                       case wrong of
                         Some r \<Rightarrow> Some (r, Some t)
                       | None \<Rightarrow> do {
                           t \<leftarrow> link_areas t 0 [0 ..< areas];
                           Some (init_result REG_INIT_SUCCESS (Pos_address 0), Some (clear_flags t REG_TF_DURING_INIT))
                         }
                     }
                 }
             }
           }
         })"

end
