(* ===== verification/Register_Blocks.thy ===== *)
theory Register_Blocks
  imports Register_Table
begin

text \<open>
  What the operations of register tables do, seen through the cells of the address space. The locale
  \<open>area_backend\<close> holds the contract of the callbacks of an area; inside of it every operation is described
  by the cell each address reads, whatever the areas are made of. The memory areas of the code are its
  interpretation.
\<close>

section \<open>Arithmetic of addresses\<close>

lemma ad_add_id [simp]: "a + b < 2 ^ 32 \<Longrightarrow> ad_add a b = a + b"
  by (simp add: ad_add_def)

lemma ad_sub_id [simp]:
  assumes "b \<le> a" "a < 2 ^ 32"
  shows "ad_sub a b = a - b"
proof -
  have "a + (2 ^ 32 - b mod 2 ^ 32) = a - b + 2 ^ 32"
    using assms by simp
  moreover have "(a - b + 2 ^ 32) mod 2 ^ 32 = a - b"
    using assms(2) by (simp only: mod_add_self2) simp
  ultimately show ?thesis
    unfolding ad_sub_def by simp
qed

lemma reg_min_eq [simp]: "reg_min a b = min a b"
  by (simp add: reg_min_def)

section \<open>Well-formed tables\<close>

text \<open>The areas are in order, apart from each other, and end before the end of the address space.\<close>

definition areas_ok :: "'d RegisterTable \<Rightarrow> bool" where
  "areas_ok t \<longleftrightarrow> rt_areas t < 2 ^ 16 \<and>
     (\<forall>i < rt_areas t. \<exists>a. area_at t i = Some a \<and> ra_base a + ra_size a < 2 ^ 32 \<and>
        (\<forall>j b. i < j \<longrightarrow> j < rt_areas t \<longrightarrow> area_at t j = Some b \<longrightarrow> ra_base a + ra_size a \<le> ra_base b))"

definition holds :: "'d RegisterTable \<Rightarrow> nat \<Rightarrow> nat \<Rightarrow> bool" where
  "holds t i addr \<longleftrightarrow> i < rt_areas t \<and>
     (case area_at t i of None \<Rightarrow> False | Some a \<Rightarrow> ra_base a \<le> addr \<and> addr < ra_base a + ra_size a)"

definition mapped :: "'d RegisterTable \<Rightarrow> nat \<Rightarrow> bool" where
  "mapped t addr \<longleftrightarrow> (\<exists>i < rt_areas t. holds t i addr)"

lemma areas_okD:
  assumes "areas_ok t" "i < rt_areas t"
  obtains a where "area_at t i = Some a" "ra_base a + ra_size a < 2 ^ 32"
  using assms by (auto simp: areas_ok_def)

lemma areas_ok_order:
  assumes "areas_ok t" "area_at t i = Some a" "area_at t j = Some b" "i < j" "j < rt_areas t"
  shows "ra_base a + ra_size a \<le> ra_base b"
proof -
  have "i < rt_areas t"
    using assms(4,5) by simp
  with assms show ?thesis
    unfolding areas_ok_def by (metis option.inject)
qed

lemma holds_unique:
  assumes "areas_ok t" "holds t i addr" "holds t j addr"
  shows "i = j"
proof (rule ccontr)
  obtain a b where ab: "area_at t i = Some a" "ra_base a \<le> addr" "addr < ra_base a + ra_size a" "i < rt_areas t"
    "area_at t j = Some b" "ra_base b \<le> addr" "addr < ra_base b + ra_size b" "j < rt_areas t"
    using assms(2,3) by (auto simp: holds_def split: option.splits)
  assume "i \<noteq> j"
  then consider "i < j" | "j < i"
    by linarith
  then show False
    using areas_ok_order [OF assms(1) ab(1,5) _ ab(8)] areas_ok_order [OF assms(1) ab(5,1) _ ab(4)] ab by cases auto
qed

lemma part_of_iff:
  "ra_base a + ra_size a < 2 ^ 32 \<Longrightarrow> ra_addr_is_part_of a addr \<longleftrightarrow> ra_base a \<le> addr \<and> addr < ra_base a + ra_size a"
  by (auto simp: ra_addr_is_part_of_def)

lemma find_area_from_eq:
  assumes "areas_ok t" "\<forall>n \<in> set ns. n < rt_areas t"
  shows "find_area_from t addr ns = Some (case find (\<lambda>n. holds t n addr) ns of Some n \<Rightarrow> n | None \<Rightarrow> rt_areas t)"
  using assms(2)
proof (induction ns)
  case (Cons n ns)
  then obtain a where "area_at t n = Some a" "ra_base a + ra_size a < 2 ^ 32" "n < rt_areas t"
    using areas_okD [OF assms(1), of n] by auto
  with Cons show ?case
    by (simp add: part_of_iff holds_def)
qed simp

lemma find_area_holds:
  assumes "areas_ok t" "holds t i addr"
  shows "ra_find_area_by_addr t addr = Some i"
proof -
  have "i < rt_areas t"
    using assms(2) by (simp add: holds_def)
  then obtain j where "find (\<lambda>n. holds t n addr) [0 ..< rt_areas t] = Some j" "holds t j addr"
    using assms(2) by (cases "find (\<lambda>n. holds t n addr) [0 ..< rt_areas t]") (auto simp: find_None_iff find_Some_iff)
  then show ?thesis
    using holds_unique [OF assms(1) assms(2), of j]
    by (simp add: ra_find_area_by_addr_def find_area_from_eq [OF assms(1)])
qed

lemma find_area_hole:
  assumes "areas_ok t" "\<not> mapped t addr"
  shows "ra_find_area_by_addr t addr = Some (rt_areas t)"
proof -
  have "find (\<lambda>n. holds t n addr) [0 ..< rt_areas t] = None"
    using assms(2) by (auto simp: find_None_iff mapped_def)
  then show ?thesis
    by (simp add: ra_find_area_by_addr_def find_area_from_eq [OF assms(1)])
qed

lemma mappedE:
  assumes "mapped t addr"
  obtains i a where "holds t i addr" "i < rt_areas t" "area_at t i = Some a" "ra_base a \<le> addr" "addr < ra_base a + ra_size a"
  using assms by (auto simp: mapped_def holds_def split: option.splits)

text \<open>The test for holes is exact, and says where the first one is.\<close>

lemma touches_hole_eq:
  assumes "areas_ok t" "addr + n < 2 ^ 32"
  shows "(\<forall>a. addr \<le> a \<longrightarrow> a < addr + n \<longrightarrow> mapped t a) \<and>
       register_block_touches_hole t addr n = Some REG_ACCESS_RESULT_INIT \<or>
     (\<exists>a. addr \<le> a \<and> a < addr + n \<and> \<not> mapped t a \<and> (\<forall>b. addr \<le> b \<longrightarrow> b < a \<longrightarrow> mapped t b) \<and>
       register_block_touches_hole t addr n = Some (access REG_ACCESS_NOENTRY a))"
  using assms(2)
proof (induction n arbitrary: addr rule: less_induct)
  case (less n)
  note unf = register_block_touches_hole.simps [of t addr n]
  show ?case
  proof (cases "n = 0 \<or> \<not> mapped t addr")
    case True
    then show ?thesis
    proof (cases "n = 0")
      case False
      with True have "register_block_touches_hole t addr n = Some (access REG_ACCESS_NOENTRY addr)"
        by (subst unf) (simp add: find_area_hole [OF assms(1)])
      with True False show ?thesis
        by (intro disjI2 exI [of _ addr]) simp
    qed (subst unf, simp)
  next
    case False
    then obtain i a where a: "holds t i addr" "i < rt_areas t" "area_at t i = Some a" "ra_base a \<le> addr"
        "addr < ra_base a + ra_size a"
      by (auto elim: mappedE)
    have "ra_base a + ra_size a < 2 ^ 32"
      using areas_okD [OF assms(1) a(2)] a(3) by auto
    define used where "used = min (ra_base a + ra_size a - addr) n"
    have u: "0 < used" "used \<le> n" "addr + used \<le> ra_base a + ra_size a"
      using a False by (auto simp: used_def)
    have within: "mapped t b" if "addr \<le> b" "b < addr + used" for b
      using that u a unfolding mapped_def holds_def by (intro exI [of _ i]) simp
    have step: "register_block_touches_hole t addr n = register_block_touches_hole t (addr + used) (n - used)"
      using False a \<open>ra_base a + ra_size a < 2 ^ 32\<close> u find_area_holds [OF assms(1) a(1)] less.prems
      by (subst unf) (simp add: Let_def used_def min_def)
    have lt: "n - used < n" and room: "addr + used + (n - used) < 2 ^ 32"
      using u less.prems by auto
    have front: "mapped t b" if "addr \<le> b" "b < h" "\<forall>b. addr + used \<le> b \<longrightarrow> b < h \<longrightarrow> mapped t b" for b h
      using within [OF that(1)] that by (cases "b < addr + used") auto
    have sum: "addr + used + (n - used) = addr + n"
      using u by simp
    from less.IH [OF lt room] show ?thesis
      unfolding sum
    proof (elim disjE exE conjE)
      assume all: "\<forall>a. addr + used \<le> a \<longrightarrow> a < addr + n \<longrightarrow> mapped t a"
        and ret: "register_block_touches_hole t (addr + used) (n - used) = Some REG_ACCESS_RESULT_INIT"
      show ?thesis
        using front [OF _ _ all] step ret by simp
    next
      fix h assume h: "addr + used \<le> h" "h < addr + n" "\<not> mapped t h"
        and all: "\<forall>b. addr + used \<le> b \<longrightarrow> b < h \<longrightarrow> mapped t b"
        and ret: "register_block_touches_hole t (addr + used) (n - used) = Some (access REG_ACCESS_NOENTRY h)"
      show ?thesis
        using front [OF _ _ all] step ret h by (intro disjI2 exI [of _ h]) simp
    qed
  qed
qed

section \<open>Cells\<close>

lemma area_data_simps [simp]:
  "ra_mem (area_data a) = ra_mem a" "ra_size (area_data a) = ra_size a"
  "area_data (a\<lparr>ra_mem := m\<rparr>) = (area_data a)\<lparr>ra_mem := m\<rparr>"
  "with_data a ((area_data a)\<lparr>ra_mem := m\<rparr>) = a\<lparr>ra_mem := m\<rparr>"
  by (cases a, simp add: area_data_def with_data_def RegisterAreaData.defs)+

lemma mem_update_same: "a\<lparr>ra_mem := ra_mem a\<rparr> = a"
  by simp

text \<open>
  What a table keeps when only the memory of its areas changes, and the contents of its address space: the
  cells of an area are a function of it.
\<close>

definition same_layout :: "'d RegisterTable \<Rightarrow> 'd RegisterTable \<Rightarrow> bool" where
  "same_layout t t' \<longleftrightarrow> rt_flags t' = rt_flags t \<and> rt_areas t' = rt_areas t \<and> rt_entries t' = rt_entries t \<and>
     rt_entry t' = rt_entry t \<and> rt_world t' = rt_world t \<and>
     (\<forall>i < rt_areas t. \<forall>a. area_at t i = Some a \<longrightarrow> (\<exists>m. area_at t' i = Some (a\<lparr>ra_mem := m\<rparr>)))"

definition atom_at :: "(RegisterAreaData \<Rightarrow> RegisterAtom list) \<Rightarrow> 'd RegisterTable \<Rightarrow> nat \<Rightarrow> RegisterAtom" where
  "atom_at cells t addr = (case ra_find_area_by_addr t addr of
       None \<Rightarrow> 0
     | Some i \<Rightarrow> if i \<ge> rt_areas t then 0 else (case area_at t i of None \<Rightarrow> 0 | Some a \<Rightarrow> cells (area_data a) ! (addr - ra_base a)))"

definition atoms_at :: "(RegisterAreaData \<Rightarrow> RegisterAtom list) \<Rightarrow> 'd RegisterTable \<Rightarrow> nat \<Rightarrow> nat \<Rightarrow> RegisterAtom list" where
  "atoms_at cells t addr n = map (atom_at cells t) [addr ..< addr + n]"

definition backed ::
    "'d registerRead \<Rightarrow> 'd registerWrite \<Rightarrow> (RegisterAreaData \<Rightarrow> RegisterAtom list) \<Rightarrow> 'd RegisterTable \<Rightarrow> bool" where
  "backed rd wr cells t \<longleftrightarrow> areas_ok t \<and>
     (\<forall>i < rt_areas t. \<forall>a. area_at t i = Some a \<longrightarrow>
        ra_read a = Some rd \<and> (ra_write a = None \<or> ra_write a = Some wr) \<and> length (cells (area_data a)) = ra_size a)"

lemma length_atoms_at [simp]: "length (atoms_at cells t addr n) = n"
  by (simp add: atoms_at_def)

lemma same_layout_refl [simp]: "same_layout t t"
  unfolding same_layout_def by (metis mem_update_same)

lemma same_layout_trans: "same_layout a b \<Longrightarrow> same_layout b c \<Longrightarrow> same_layout a c"
proof -
  assume ab: "same_layout a b" and bc: "same_layout b c"
  have "\<exists>m. area_at c i = Some (x\<lparr>ra_mem := m\<rparr>)" if i: "i < rt_areas a" "area_at a i = Some x" for i x
  proof -
    obtain m where "area_at b i = Some (x\<lparr>ra_mem := m\<rparr>)" "i < rt_areas b"
      using ab i unfolding same_layout_def by metis
    then obtain m' where "area_at c i = Some (x\<lparr>ra_mem := m\<rparr>\<lparr>ra_mem := m'\<rparr>)"
      using bc unfolding same_layout_def by metis
    then show ?thesis
      by auto
  qed
  then show ?thesis
    using ab bc by (simp add: same_layout_def)
qed

lemma same_layout_areas_ok:
  assumes "same_layout t t'" "areas_ok t"
  shows "areas_ok t'"
proof -
  have n: "rt_areas t' = rt_areas t"
    using assms(1) by (simp add: same_layout_def)
  have at: "\<exists>a m. area_at t i = Some a \<and> area_at t' i = Some (a\<lparr>ra_mem := m\<rparr>) \<and> ra_base a + ra_size a < 2 ^ 32"
    if "i < rt_areas t" for i
    using areas_okD [OF assms(2) that] assms(1) that unfolding same_layout_def by metis
  have "ra_base a' + ra_size a' \<le> ra_base b'"
    if i: "i < j" "j < rt_areas t" "area_at t' i = Some a'" "area_at t' j = Some b'" for i j a' b'
  proof -
    obtain a m b m' where "area_at t i = Some a" "a' = a\<lparr>ra_mem := m\<rparr>" "area_at t j = Some b" "b' = b\<lparr>ra_mem := m'\<rparr>"
      using at [of i] at [of j] i by auto
    with areas_ok_order [OF assms(2) _ _ i(1,2)] show ?thesis
      by simp
  qed
  moreover have "\<exists>a'. area_at t' i = Some a' \<and> ra_base a' + ra_size a' < 2 ^ 32" if "i < rt_areas t" for i
    using at [OF that] by auto
  ultimately show ?thesis
    using assms(2) n unfolding areas_ok_def by metis
qed

lemma same_layout_holds:
  assumes "same_layout t t'" "areas_ok t"
  shows "holds t' i addr = holds t i addr"
proof (cases "i < rt_areas t")
  case True
  then obtain a m where "area_at t i = Some a" "area_at t' i = Some (a\<lparr>ra_mem := m\<rparr>)"
    using areas_okD [OF assms(2) True] assms(1) unfolding same_layout_def by metis
  with True assms(1) show ?thesis
    by (simp add: holds_def same_layout_def)
qed (use assms(1) in \<open>simp add: holds_def same_layout_def\<close>)

lemma same_layout_mapped:
  "same_layout t t' \<Longrightarrow> areas_ok t \<Longrightarrow> mapped t' addr = mapped t addr"
  using same_layout_holds [of t t'] by (simp add: mapped_def) (simp add: same_layout_def)

lemma atom_at_area:
  assumes "areas_ok t" "holds t i addr" "area_at t i = Some a"
  shows "atom_at cells t addr = cells (area_data a) ! (addr - ra_base a)"
  using assms find_area_holds [OF assms(1,2)] by (simp add: atom_at_def holds_def)

lemma atom_at_hole: "areas_ok t \<Longrightarrow> \<not> mapped t addr \<Longrightarrow> atom_at cells t addr = 0"
  by (simp add: atom_at_def find_area_hole)

lemma atoms_at_area:
  assumes "areas_ok t" "i < rt_areas t" "area_at t i = Some a" "length (cells (area_data a)) = ra_size a"
    and "off + n \<le> ra_size a"
  shows "atoms_at cells t (ra_base a + off) n = take n (drop off (cells (area_data a)))"
proof (rule nth_equalityI)
  fix k assume "k < length (atoms_at cells t (ra_base a + off) n)"
  moreover from this have "holds t i (ra_base a + off + k)"
    using assms(2,3,5) by (simp add: holds_def)
  ultimately show "atoms_at cells t (ra_base a + off) n ! k = take n (drop off (cells (area_data a))) ! k"
    using assms(3-5) atom_at_area [OF assms(1) _ assms(3), of "ra_base a + off + k" cells]
    by (simp add: atoms_at_def)
qed (use assms(4,5) in simp)

lemma atoms_at_append: "atoms_at cells t addr (m + n) = atoms_at cells t addr m @ atoms_at cells t (addr + m) n"
proof -
  have "[addr ..< addr + m + n] = [addr ..< addr + m] @ [addr + m ..< addr + m + n]"
    by (rule upt_add_eq_append) simp
  then show ?thesis
    by (simp add: atoms_at_def add.assoc flip: map_append)
qed

lemma put_area_layout:
  assumes "i < rt_areas t" "area_at t i = Some a"
  shows "same_layout t (put_area t i (a\<lparr>ra_mem := m\<rparr>))"
    and "area_at (put_area t i b) j = (if j = i then Some b else area_at t j)"
proof -
  show at: "area_at (put_area t i b) j = (if j = i then Some b else area_at t j)" for b j
    using assms(2) by (auto simp: area_at_def put_area_def split: if_splits bind_splits)
  then show "same_layout t (put_area t i (a\<lparr>ra_mem := m\<rparr>))"
    using assms(2) unfolding same_layout_def
    by (auto simp: put_area_def) (metis mem_update_same)+
qed

section \<open>The contract of the callbacks\<close>

text \<open>
  An area behaves like memory: its cells are a function of its data, reading within them gives them, and writing
  within them changes just these.
\<close>

locale area_backend =
  fixes rd :: "'d registerRead" and wr :: "'d registerWrite" and cells :: "RegisterAreaData \<Rightarrow> RegisterAtom list"
  assumes rd_law: "off + n \<le> length (cells a) \<Longrightarrow> 0 < n \<Longrightarrow>
       rd a d off n = Some (REG_ACCESS_RESULT_INIT, take n (drop off (cells a)), d)"
    and wr_law: "off + n \<le> length (cells a) \<Longrightarrow> 0 < n \<Longrightarrow> n \<le> length src \<Longrightarrow>
       \<exists>m. wr a d src off n = Some (REG_ACCESS_RESULT_INIT, a\<lparr>ra_mem := m\<rparr>, d) \<and>
           cells (a\<lparr>ra_mem := m\<rparr>) = overwrite (cells a) off (take n src)"
begin

lemma backedD:
  assumes "backed rd wr cells t" "area_at t i = Some a" "i < rt_areas t"
  shows "ra_read a = Some rd" "ra_write a = None \<or> ra_write a = Some wr" "length (cells (area_data a)) = ra_size a"
  using assms unfolding backed_def by metis+

lemma backed_areas: "backed rd wr cells t \<Longrightarrow> areas_ok t"
  by (simp add: backed_def)

lemma call_read_ok:
  assumes "backed rd wr cells t" "i < rt_areas t" "area_at t i = Some a" "off + n \<le> ra_size a" "0 < n"
  shows "call_read t i off n = Some (REG_ACCESS_RESULT_INIT, atoms_at cells t (ra_base a + off) n, t)"
proof -
  note b = backedD [OF assms(1,3,2)]
  have "rd (area_data a) (rt_world t) off n =
      Some (REG_ACCESS_RESULT_INIT, take n (drop off (cells (area_data a))), rt_world t)"
    using rd_law [of off n "area_data a"] b(3) assms(4,5) by simp
  then show ?thesis
    using assms(3) b(1) atoms_at_area [where cells = cells and n = n, OF backed_areas [OF assms(1)] assms(2,3) b(3) assms(4)]
    by (simp add: call_read_def)
qed

lemma call_write_ok:
  assumes "backed rd wr cells t" "i < rt_areas t" "area_at t i = Some a" "ra_write a \<noteq> None"
    and "off + n \<le> ra_size a" "0 < n" "n \<le> length src"
  shows "\<exists>t'. call_write t i src off n = Some (REG_ACCESS_RESULT_INIT, t') \<and> same_layout t t' \<and>
     backed rd wr cells t' \<and>
     (\<forall>addr. atom_at cells t' addr =
        (if ra_base a + off \<le> addr \<and> addr < ra_base a + off + n then src ! (addr - (ra_base a + off)) else atom_at cells t addr))"
proof -
  note b = backedD [OF assms(1,3,2)]
  have wr: "ra_write a = Some wr"
    using assms(4) b(2) by (cases "ra_write a") simp_all
  obtain m where m: "wr (area_data a) (rt_world t) src off n =
        Some (REG_ACCESS_RESULT_INIT, (area_data a)\<lparr>ra_mem := m\<rparr>, rt_world t)"
      "cells ((area_data a)\<lparr>ra_mem := m\<rparr>) = overwrite (cells (area_data a)) off (take n src)"
    using wr_law [of off n "area_data a" src "rt_world t"] assms(5-7) b(3) by auto
  let ?t = "put_area t i (a\<lparr>ra_mem := m\<rparr>)"
  have call: "call_write t i src off n = Some (REG_ACCESS_RESULT_INIT, ?t)"
    using assms(3) wr m(1) by (simp add: call_write_def put_area_def)
  note layout = put_area_layout [OF assms(2,3)]
  have ok: "areas_ok t" "areas_ok ?t"
    using backed_areas [OF assms(1)] same_layout_areas_ok [OF layout(1)] by blast+
  have areas: "rt_areas ?t = rt_areas t"
    by (simp add: put_area_def)
  have len: "length (cells ((area_data a)\<lparr>ra_mem := m\<rparr>)) = ra_size a"
    using m(2) assms(5,7) b(3) by simp
  have "backed rd wr cells ?t"
    unfolding backed_def
  proof (intro conjI allI impI)
    fix j x assume j: "j < rt_areas ?t" "area_at ?t j = Some x"
    then have "j \<noteq> i \<Longrightarrow> area_at t j = Some x \<and> j < rt_areas t" "j = i \<Longrightarrow> x = a\<lparr>ra_mem := m\<rparr>"
      using layout(2) areas by simp_all
    then show "ra_read x = Some rd" "ra_write x = None \<or> ra_write x = Some wr" "length (cells (area_data x)) = ra_size x"
      using b(1) wr len backedD [OF assms(1), of j x] by (cases "j = i"; simp)+
  qed (rule ok(2))
  moreover have "atom_at cells ?t addr =
      (if ra_base a + off \<le> addr \<and> addr < ra_base a + off + n then src ! (addr - (ra_base a + off)) else atom_at cells t addr)" for addr
  proof (cases "mapped t addr")
    case False
    have "\<not> (ra_base a + off \<le> addr \<and> addr < ra_base a + off + n)"
      using False assms(2,3,5) unfolding mapped_def holds_def by fastforce
    then show ?thesis
      using False same_layout_mapped [OF layout(1) ok(1)] atom_at_hole [OF ok(1)] atom_at_hole [OF ok(2)] by auto
  next
    case True
    then obtain j x where j: "holds t j addr" "j < rt_areas t" "area_at t j = Some x" "ra_base x \<le> addr"
        "addr < ra_base x + ra_size x"
      by (rule mappedE)
    have hj: "holds ?t j addr"
      using j(1) same_layout_holds [OF layout(1) ok(1)] by simp
    show ?thesis
    proof (cases "j = i")
      case True
      then have x: "x = a"
        using j(3) assms(3) by simp
      have at: "area_at ?t i = Some (a\<lparr>ra_mem := m\<rparr>)"
        using layout(2) by simp
      have "atom_at cells ?t addr = overwrite (cells (area_data a)) off (take n src) ! (addr - ra_base a)"
        using atom_at_area [OF ok(2) hj, of "a\<lparr>ra_mem := m\<rparr>" cells] at True m(2) by simp
      moreover have "atom_at cells t addr = cells (area_data a) ! (addr - ra_base a)"
        using atom_at_area [OF ok(1) j(1,3), of cells] x by simp
      ultimately show ?thesis
        using j(4,5) x assms(5,7) b(3) by (auto simp: overwrite_def nth_append)
    next
      case False
      have "\<not> holds t i addr"
        using holds_unique [OF ok(1) j(1)] False by blast
      then have "\<not> (ra_base a + off \<le> addr \<and> addr < ra_base a + off + n)"
        using assms(2,3,5) by (auto simp: holds_def)
      moreover have "area_at ?t j = Some x"
        using layout(2) False j(3) by simp
      ultimately show ?thesis
        using atom_at_area [OF ok(1) j(1,3), of cells] atom_at_area [OF ok(2) hj, of x cells] by auto
    qed
  qed
  ultimately show ?thesis
    using call layout(1) by blast
qed

lemma block_read_loop_ok:
  assumes "backed rd wr cells t" "addr + n < 2 ^ 32" "pos + n \<le> length buf"
    and "\<forall>a. addr \<le> a \<longrightarrow> a < addr + n \<longrightarrow> mapped t a"
    and "\<forall>i a. i < rt_areas t \<longrightarrow> area_at t i = Some a \<longrightarrow> ra_base a < addr + n \<longrightarrow> addr < ra_base a + ra_size a \<longrightarrow> BIT_ISSET (ra_flags a) REG_AF_READABLE"
  shows "block_read_loop t addr n buf pos = Some (REG_ACCESS_RESULT_INIT, overwrite buf pos (atoms_at cells t addr n), t)"
  using assms(2-)
proof (induction n arbitrary: addr buf pos rule: less_induct)
  case (less n)
  note unf = block_read_loop.simps [of t addr n buf pos]
  note ok = backed_areas [OF assms(1)]
  show ?case
  proof (cases "n = 0")
    case True
    then show ?thesis
      by (subst unf) (simp add: atoms_at_def)
  next
    case False
    then have "mapped t addr"
      using less.prems(3) by simp
    then obtain i a where a: "holds t i addr" "i < rt_areas t" "area_at t i = Some a" "ra_base a \<le> addr"
        "addr < ra_base a + ra_size a"
      by (rule mappedE)
    have bound: "ra_base a + ra_size a < 2 ^ 32"
      using areas_okD [OF ok a(2)] a(3) by auto
    define k where "k = min (ra_base a + ra_size a - addr) n"
    have k: "0 < k" "k \<le> n" "addr - ra_base a + k \<le> ra_size a"
      using a(4,5) False by (auto simp: k_def)
    have readable: "register_area_is_readable a"
      using less.prems(4) a(2-5) False backedD [OF assms(1) a(3,2)]
      by (auto simp: register_area_is_readable_def)
    have off: "ra_base a + (addr - ra_base a) = addr"
      using a(4) by simp
    let ?xs = "atoms_at cells t addr k"
    have rdcall: "call_read t i (addr - ra_base a) k = Some (REG_ACCESS_RESULT_INIT, ?xs, t)"
      using call_read_ok [OF assms(1) a(2,3) k(3,1)] unfolding off .
    have mw: "mem_write buf pos ?xs = Some (overwrite buf pos ?xs)"
      using k(2) less.prems(2) by (simp add: mem_write_overwrite)
    have step: "block_read_loop t addr n buf pos = block_read_loop t (addr + k) (n - k) (overwrite buf pos ?xs) (pos + k)"
      using False find_area_holds [OF ok a(1)] a(3,4,5) bound readable rdcall mw less.prems(1) k
      by (subst unf) (simp add: Let_def k_def [symmetric] REG_ACCESS_RESULT_INIT_def)
    have lt: "n - k < n" and p1: "addr + k + (n - k) < 2 ^ 32" and p2: "pos + k + (n - k) \<le> length (overwrite buf pos ?xs)"
      using k less.prems(1,2) by auto
    have p3: "\<forall>b. addr + k \<le> b \<longrightarrow> b < addr + k + (n - k) \<longrightarrow> mapped t b"
      using less.prems(3) k by auto
    have p4: "\<forall>i a. i < rt_areas t \<longrightarrow> area_at t i = Some a \<longrightarrow> ra_base a < addr + k + (n - k) \<longrightarrow>
        addr + k < ra_base a + ra_size a \<longrightarrow> BIT_ISSET (ra_flags a) REG_AF_READABLE"
      using less.prems(4) k by auto
    have "overwrite (overwrite buf pos ?xs) (pos + k) (atoms_at cells t (addr + k) (n - k)) = overwrite buf pos (atoms_at cells t addr n)"
      using overwrite_append [of pos ?xs "atoms_at cells t (addr + k) (n - k)" buf] k(2) less.prems(2)
        atoms_at_append [of cells t addr k "n - k"] by simp
    then show ?thesis
      using step less.IH [OF lt p1 p2 p3 p4] by simp
  qed
qed

lemma block_write_loop_ok:
  assumes "backed rd wr cells t" "addr + n < 2 ^ 32" "n \<le> length buf"
    and "\<forall>a. addr \<le> a \<longrightarrow> a < addr + n \<longrightarrow> mapped t a"
    and "\<forall>i a. i < rt_areas t \<longrightarrow> area_at t i = Some a \<longrightarrow> ra_base a < addr + n \<longrightarrow> addr < ra_base a + ra_size a \<longrightarrow> ra_write a \<noteq> None"
  shows "\<exists>t'. block_write_loop t addr n buf = Some (REG_ACCESS_RESULT_INIT, t') \<and> same_layout t t' \<and> backed rd wr cells t' \<and>
     (\<forall>a. atom_at cells t' a = (if addr \<le> a \<and> a < addr + n then buf ! (a - addr) else atom_at cells t a))"
  using assms
proof (induction n arbitrary: t addr buf rule: less_induct)
  case (less n)
  note unf = block_write_loop.simps [of t addr n buf]
  note ok = backed_areas [OF less.prems(1)]
  show ?case
  proof (cases "n = 0")
    case True
    then show ?thesis
      using less.prems(1) by (subst unf) auto
  next
    case False
    then have "mapped t addr"
      using less.prems(4) by simp
    then obtain i a where a: "holds t i addr" "i < rt_areas t" "area_at t i = Some a" "ra_base a \<le> addr"
        "addr < ra_base a + ra_size a"
      by (rule mappedE)
    have bound: "ra_base a + ra_size a < 2 ^ 32"
      using areas_okD [OF ok a(2)] a(3) by auto
    define k where "k = min (ra_base a + ra_size a - addr) n"
    have k: "0 < k" "k \<le> n" "addr - ra_base a + k \<le> ra_size a"
      using a(4,5) False by (auto simp: k_def)
    have "ra_write a \<noteq> None"
      using less.prems(5) a(2-5) False by auto
    moreover have off: "ra_base a + (addr - ra_base a) = addr"
      using a(4) by simp
    ultimately obtain t1 where t1: "call_write t i buf (addr - ra_base a) k = Some (REG_ACCESS_RESULT_INIT, t1)"
       "same_layout t t1" "backed rd wr cells t1"
       "\<forall>b. atom_at cells t1 b = (if addr \<le> b \<and> b < addr + k then buf ! (b - addr) else atom_at cells t b)"
      using call_write_ok [OF less.prems(1) a(2,3) _ k(3,1), of buf] k(2) less.prems(3) unfolding off by auto
    have step: "block_write_loop t addr n buf = block_write_loop t1 (addr + k) (n - k) (drop k buf)"
      using False find_area_holds [OF ok a(1)] a(3,4,5) bound t1(1) less.prems(2) k
      by (subst unf) (simp add: Let_def k_def [symmetric] REG_ACCESS_RESULT_INIT_def)
    have lt: "n - k < n" and p1: "addr + k + (n - k) < 2 ^ 32" and p2: "n - k \<le> length (drop k buf)"
      using k less.prems(2,3) by auto
    have p3: "\<forall>b. addr + k \<le> b \<longrightarrow> b < addr + k + (n - k) \<longrightarrow> mapped t1 b"
      using less.prems(4) k same_layout_mapped [OF t1(2) ok] by auto
    have p4: "\<forall>i a. i < rt_areas t1 \<longrightarrow> area_at t1 i = Some a \<longrightarrow> ra_base a < addr + k + (n - k) \<longrightarrow>
        addr + k < ra_base a + ra_size a \<longrightarrow> ra_write a \<noteq> None"
    proof (intro allI impI)
      fix i' a' assume h: "i' < rt_areas t1" "area_at t1 i' = Some a'" "ra_base a' < addr + k + (n - k)"
        "addr + k < ra_base a' + ra_size a'"
      then have i': "i' < rt_areas t"
        using t1(2) by (simp add: same_layout_def)
      then obtain a0 m where "area_at t i' = Some a0" "a' = a0\<lparr>ra_mem := m\<rparr>"
        using areas_okD [OF ok i'] t1(2) h(2) unfolding same_layout_def by (metis option.inject)
      with less.prems(5) i' h(3,4) k show "ra_write a' \<noteq> None"
        by simp
    qed
    obtain t' where t': "block_write_loop t1 (addr + k) (n - k) (drop k buf) = Some (REG_ACCESS_RESULT_INIT, t')"
       "same_layout t1 t'" "backed rd wr cells t'"
       "\<forall>b. atom_at cells t' b = (if addr + k \<le> b \<and> b < addr + k + (n - k) then drop k buf ! (b - (addr + k)) else atom_at cells t1 b)"
      using less.IH [OF lt t1(3) p1 p2 p3 p4] by blast
    have "atom_at cells t' b = (if addr \<le> b \<and> b < addr + n then buf ! (b - addr) else atom_at cells t b)" for b
      using t'(4) t1(4) k(2) less.prems(3) by (auto simp: not_le)
    then show ?thesis
      using step t' same_layout_trans [OF t1(2) t'(2)] by auto
  qed
qed

end

end
