(* ===== verification/Register_Laws.thy ===== *)
theory Register_Laws
  imports Register_Blocks
begin

text \<open>
  What the operations on registers do to a well-formed table: reading and changing single registers, validated
  block writes, sanitising and initialisation. All of it is stated over the cells of the address space, for areas
  that keep the contract \<open>area_backend\<close>; the memory areas of the code are shown to keep it at the end.
\<close>

section \<open>Well-formed registers\<close>

text \<open>The default and the limits of a register are of its type, and its validator does not look at the flags of the entry.\<close>

definition check_matches :: "RegisterEntry \<Rightarrow> bool" where
  "check_matches x \<longleftrightarrow> value_type (re_default x) = re_type x \<and> (case re_check x of
       REGV_TYPE_MIN lo \<Rightarrow> value_type lo = re_type x
     | REGV_TYPE_MAX hi \<Rightarrow> value_type hi = re_type x
     | REGV_TYPE_RANGE lo hi \<Rightarrow> value_type lo = re_type x \<and> value_type hi = re_type x
     | REGV_TYPE_CALLBACK f \<Rightarrow> (\<forall>d fl v. f (d\<lparr>re_flags := fl\<rparr>) v = f d v)
     | _ \<Rightarrow> True)"

text \<open>A register is linked to the area that holds all of it.\<close>

definition entry_ok :: "'d RegisterTable \<Rightarrow> RegisterEntry \<Rightarrow> bool" where
  "entry_ok t x \<longleftrightarrow> re_type x \<noteq> REG_TYPE_INVALID \<and> check_matches x \<and>
     (\<exists>k a. re_area x = Some k \<and> k < rt_areas t \<and> area_at t k = Some a \<and> ra_base a \<le> re_address x \<and>
        re_address x + rds_size (re_type x) \<le> ra_base a + ra_size a \<and> re_offset x = re_address x - ra_base a)"

definition table_ok ::
    "'d registerRead \<Rightarrow> 'd registerWrite \<Rightarrow> (RegisterAreaData \<Rightarrow> RegisterAtom list) \<Rightarrow> 'd RegisterTable \<Rightarrow> bool" where
  "table_ok rd wr cells t \<longleftrightarrow> backed rd wr cells t \<and> table_initialised t \<and> rt_entries t < 2 ^ 32 - 1 \<and>
     (\<forall>i < rt_entries t. \<exists>x. entry_at t i = Some x \<and> entry_ok t x \<and>
        (\<forall>j y. i < j \<longrightarrow> j < rt_entries t \<longrightarrow> entry_at t j = Some y \<longrightarrow>
           re_address x + rds_size (re_type x) \<le> re_address y))"

lemma rds_size_bounds: "t \<noteq> REG_TYPE_INVALID \<Longrightarrow> 0 < rds_size t \<and> rds_size t \<le> 4"
  by (cases t) simp_all

lemma check_value_defined:
  assumes "value_type (rv_value v) = rv_type v" "value_type l = rv_type v"
  shows "\<exists>b. rv_check_min_value l v = Some b" "\<exists>b. rv_check_max_value l v = Some b"
  using assms
  by (cases "rv_value v"; cases l; simp add: rv_check_min_value_def rv_check_max_value_def)+

lemma validate_defined:
  assumes "check_matches x" "value_type (rv_value v) = rv_type v"
  shows "\<exists>b. rv_validate t x v = Some b"
proof (cases "re_type x = rv_type v")
  case True
  have lim: "value_type l = re_type x \<Longrightarrow> \<exists>b. rv_check_min_value l v = Some b"
    "value_type l = re_type x \<Longrightarrow> \<exists>b. rv_check_max_value l v = Some b" for l
    using check_value_defined [OF assms(2)] True by simp_all
  show ?thesis
  proof (cases "re_check x")
    case (REGV_TYPE_RANGE lo hi)
    then have "\<exists>b. rv_check_min_value lo v = Some b" "\<exists>b. rv_check_max_value hi v = Some b"
      using lim assms(1) by (simp_all add: check_matches_def)
    with REGV_TYPE_RANGE show ?thesis
      by (auto simp: rv_validate_def rv_check_range_def)
  qed (use assms(1) lim True in \<open>auto simp: rv_validate_def check_matches_def rv_check_min_def rv_check_max_def rv_check_cb_def\<close>)
qed (auto simp: rv_validate_def)

lemma validate_flags:
  assumes "rt_flags t' = rt_flags t"
  shows "rv_validate t' x v = rv_validate t x v"
  using assms by (simp add: rv_validate_def cong: RegisterValidator.case_cong)

lemma entry_data_flags: "entry_data (x\<lparr>re_flags := f\<rparr>) = (entry_data x)\<lparr>re_flags := f\<rparr>"
  by (simp add: entry_data_def RegisterEntryData.defs)

lemma validate_touched:
  "check_matches x \<Longrightarrow> rv_validate t (x\<lparr>re_flags := f\<rparr>) v = rv_validate t x v"
  by (cases "re_check x") (simp_all add: rv_validate_def rv_check_cb_def check_matches_def entry_data_flags)

lemma table_okD:
  assumes "table_ok rd wr cells t" "i < rt_entries t"
  obtains x where "entry_at t i = Some x" "entry_ok t x"
  using assms unfolding table_ok_def by metis

lemma table_ok_entry:
  assumes "table_ok rd wr cells t" "i < rt_entries t" "entry_at t i = Some x"
  shows "entry_ok t x"
  using table_okD [OF assms(1,2)] assms(3) by auto

lemma table_ok_order:
  assumes "table_ok rd wr cells t" "entry_at t i = Some x" "entry_at t j = Some y" "i < j" "j < rt_entries t"
  shows "re_address x + rds_size (re_type x) \<le> re_address y"
proof -
  have "i < rt_entries t"
    using assms(4,5) by simp
  then obtain x' where "entry_at t i = Some x'" "\<forall>j y. i < j \<longrightarrow> j < rt_entries t \<longrightarrow> entry_at t j = Some y \<longrightarrow>
      re_address x' + rds_size (re_type x') \<le> re_address y"
    using assms(1) unfolding table_ok_def by metis
  with assms show ?thesis
    by simp
qed

lemma table_ok_apart:
  assumes "table_ok rd wr cells t" "entry_at t i = Some x" "entry_at t j = Some y" "i \<noteq> j"
    and "i < rt_entries t" "j < rt_entries t"
  shows "re_address x + rds_size (re_type x) \<le> re_address y \<or> re_address y + rds_size (re_type y) \<le> re_address x"
  using table_ok_order [OF assms(1-3)] table_ok_order [OF assms(1,3,2)] assms(4-6)
  by (cases "i < j") auto

lemma entry_ok_layout:
  assumes "entry_ok t x" "same_layout t t'"
  shows "entry_ok t' x"
proof -
  obtain k a where k: "re_area x = Some k" "k < rt_areas t" "area_at t k = Some a" "ra_base a \<le> re_address x"
      "re_address x + rds_size (re_type x) \<le> ra_base a + ra_size a" "re_offset x = re_address x - ra_base a"
    using assms(1) by (auto simp: entry_ok_def)
  moreover obtain m where "area_at t' k = Some (a\<lparr>ra_mem := m\<rparr>)"
    using assms(2) k(2,3) unfolding same_layout_def by metis
  ultimately show ?thesis
    using assms by (simp add: entry_ok_def same_layout_def)
qed

lemma table_ok_layout:
  assumes "table_ok rd wr cells t" "same_layout t t'" "backed rd wr cells t'"
  shows "table_ok rd wr cells t'"
proof -
  have eq: "rt_entries t' = rt_entries t" "entry_at t' i = entry_at t i" "table_initialised t' = table_initialised t" for i
    using assms(2) by (simp_all add: same_layout_def entry_at_def table_initialised_def)
  have "entry_ok t' x" if "entry_at t i = Some x" "i < rt_entries t" for i x
    using entry_ok_layout [OF table_ok_entry [OF assms(1) that(2,1)] assms(2)] .
  then show ?thesis
    using assms(1,3) unfolding table_ok_def eq by metis
qed

text \<open>What a register holds.\<close>

definition stored_value ::
    "(RegisterAreaData \<Rightarrow> RegisterAtom list) \<Rightarrow> endianness \<Rightarrow> 'd RegisterTable \<Rightarrow> RegisterEntry \<Rightarrow> RegisterValueU" where
  "stored_value cells e t x =
     atoms_value e (table_bigendian t) (re_type x) (atoms_at cells t (re_address x) (rds_size (re_type x)))"

definition register_valid ::
    "(RegisterAreaData \<Rightarrow> RegisterAtom list) \<Rightarrow> endianness \<Rightarrow> 'd RegisterTable \<Rightarrow> RegisterEntry \<Rightarrow> bool" where
  "register_valid cells e t x \<longleftrightarrow> storable (stored_value cells e t x) \<and>
     (re_check x = REGV_TYPE_FAIL \<or>
      rv_validate t x \<lparr>rv_type = re_type x, rv_value = stored_value cells e t x\<rparr> = Some True)"

lemma stored_value_cong:
  assumes "same_layout t t'"
    and "\<forall>a. re_address x \<le> a \<longrightarrow> a < re_address x + rds_size (re_type x) \<longrightarrow> atom_at cells t' a = atom_at cells t a"
  shows "stored_value cells e t' x = stored_value cells e t x"
proof -
  have "atoms_at cells t' (re_address x) (rds_size (re_type x)) = atoms_at cells t (re_address x) (rds_size (re_type x))"
    using assms(2) by (simp add: atoms_at_def)
  then show ?thesis
    using assms(1) by (simp add: stored_value_def table_bigendian_def same_layout_def)
qed

lemma register_valid_cong:
  assumes "same_layout t t'"
    and "\<forall>a. re_address x \<le> a \<longrightarrow> a < re_address x + rds_size (re_type x) \<longrightarrow> atom_at cells t' a = atom_at cells t a"
  shows "register_valid cells e t' x = register_valid cells e t x"
  using stored_value_cong [OF assms, of e] validate_flags [of t' t] assms(1)
  by (simp add: register_valid_def same_layout_def)

section \<open>Reading and writing registers\<close>

context area_backend
begin

lemma writeable_ok:
  assumes "areas_ok t" "addr + n < 2 ^ 32" "0 < n"
  shows "\<exists>rv. writeable_from t addr n [k ..< rt_areas t] = Some rv \<and>
     (rv = REG_ACCESS_RESULT_INIT \<and>
        (\<forall>i a. k \<le> i \<longrightarrow> i < rt_areas t \<longrightarrow> area_at t i = Some a \<longrightarrow> ra_base a < addr + n \<longrightarrow> addr < ra_base a + ra_size a \<longrightarrow>
           register_area_is_writeable a) \<or>
      rv = access REG_ACCESS_READONLY addr)"
proof (induction "rt_areas t - k" arbitrary: k)
  case 0
  then show ?case
    by simp
next
  case (Suc m)
  then have k: "k < rt_areas t" and up: "[k ..< rt_areas t] = k # [Suc k ..< rt_areas t]"
    by (simp_all add: upt_conv_Cons)
  obtain a where a: "area_at t k = Some a" "ra_base a + ra_size a < 2 ^ 32"
    using areas_okD [OF assms(1) k] .
  have later: "ra_base a + ra_size a \<le> ra_base b" if "Suc k \<le> i" "i < rt_areas t" "area_at t i = Some b" for i b
    using areas_ok_order [OF assms(1) a(1) that(3) _ that(2)] that(1) by simp
  have m: "m = rt_areas t - Suc k"
    using Suc(2) by simp
  obtain rv where ih: "writeable_from t addr n [Suc k ..< rt_areas t] = Some rv"
     "rv = REG_ACCESS_RESULT_INIT \<and>
        (\<forall>i a. Suc k \<le> i \<longrightarrow> i < rt_areas t \<longrightarrow> area_at t i = Some a \<longrightarrow> ra_base a < addr + n \<longrightarrow> addr < ra_base a + ra_size a \<longrightarrow>
           register_area_is_writeable a) \<or>
      rv = access REG_ACCESS_READONLY addr"
    using Suc(1) [OF m] by metis
  have split: "i = k \<or> Suc k \<le> i" if "k \<le> i" for i
    using that by auto
  consider "ra_base a + ra_size a \<le> addr" | "addr < ra_base a + ra_size a" "addr + n \<le> ra_base a"
    | "addr < ra_base a + ra_size a" "ra_base a < addr + n" "\<not> register_area_is_writeable a"
    | "addr < ra_base a + ra_size a" "ra_base a < addr + n" "register_area_is_writeable a"
    by linarith
  then show ?case
  proof cases
    case 1
    then have "writeable_from t addr n [k ..< rt_areas t] = Some rv"
      using a ih(1) by (simp add: up ra_range_touches_def)
    with ih(2) 1 a(1) show ?thesis
      using split by (metis not_le option.inject)
  next
    case 2
    then have "writeable_from t addr n [k ..< rt_areas t] = Some REG_ACCESS_RESULT_INIT"
      using a assms(2) by (simp add: up ra_range_touches_def)
    moreover have "\<not> ra_base b < addr + n" if "k \<le> i" "i < rt_areas t" "area_at t i = Some b" for i b
      using later [OF _ that(2,3)] split [OF that(1)] that(3) 2 a(1) by auto
    ultimately show ?thesis
      by blast
  next
    case 3
    then have "writeable_from t addr n [k ..< rt_areas t] = Some (access REG_ACCESS_READONLY addr)"
      using a assms(2) by (simp add: up ra_range_touches_def)
    then show ?thesis
      by simp
  next
    case 4
    then have "writeable_from t addr n [k ..< rt_areas t] = Some rv"
      using a assms(2) ih(1) by (simp add: up ra_range_touches_def)
    with ih(2) 4 a(1) show ?thesis
      using split by (metis option.inject)
  qed
qed

lemma read_entry_ok:
  assumes "backed rd wr cells t" "entry_ok t x"
  shows "reg_read_entry t x raw_atoms =
     Some (REG_ACCESS_RESULT_INIT, overwrite raw_atoms 0 (atoms_at cells t (re_address x) (rds_size (re_type x))), t)"
proof -
  obtain k a where k: "re_area x = Some k" "k < rt_areas t" "area_at t k = Some a" "ra_base a \<le> re_address x"
      "re_address x + rds_size (re_type x) \<le> ra_base a + ra_size a" "re_offset x = re_address x - ra_base a"
      "re_type x \<noteq> REG_TYPE_INVALID"
    using assms(2) by (auto simp: entry_ok_def)
  have "call_read t k (re_offset x) (rds_size (re_type x)) =
      Some (REG_ACCESS_RESULT_INIT, atoms_at cells t (re_address x) (rds_size (re_type x)), t)"
    using call_read_ok [OF assms(1) k(2,3), of "re_offset x" "rds_size (re_type x)"] k(4-6) rds_size_bounds [OF k(7)] by simp
  with k(1) rds_size_bounds [OF k(7)] show ?thesis
    by (simp add: reg_read_entry_def mem_write_overwrite raw_atoms_def)
qed

lemma get_ok:
  assumes "table_ok rd wr cells t" "i < rt_entries t" "entry_at t i = Some x"
  shows "register_get e t i v =
     Some (if storable (stored_value cells e t x) then REG_ACCESS_RESULT_INIT else access REG_ACCESS_INVALID i,
           \<lparr>rv_type = re_type x, rv_value = stored_value cells e t x\<rparr>, t)"
proof -
  have x: "entry_ok t x" "re_type x \<noteq> REG_TYPE_INVALID" and b: "backed rd wr cells t" "table_initialised t"
    using table_ok_entry [OF assms] assms(1) by (auto simp: table_ok_def entry_ok_def)
  let ?n = "rds_size (re_type x)"
  let ?raw = "overwrite raw_atoms 0 (atoms_at cells t (re_address x) ?n)"
  have n: "?n \<le> length ?raw"
    using rds_size_bounds [OF x(2)] by (simp add: raw_atoms_def)
  have raw: "take ?n ?raw = atoms_at cells t (re_address x) ?n"
    by (simp add: overwrite_def)
  show ?thesis
    using assms(2,3) b(2) read_entry_ok [OF b(1) x(1)]
      rds_des_eq [OF x(2) n, of e "v\<lparr>rv_type := REG_TYPE_INVALID\<rparr>" "table_bigendian t"]
    unfolding raw by (simp add: register_get_def stored_value_def REG_ACCESS_RESULT_INIT_def Let_def)
qed

lemma setx_entry:
  assumes b: "backed rd wr cells t" "table_initialised t" and i: "i < rt_entries t" "entry_at t i = Some x"
    and at: "area_at t (the (re_area x)) = Some a" and ok: "entry_ok t x"
    and kind: "value_type (rv_value v) = re_type x" and valid: "withvalidator \<Longrightarrow> rv_validate t x v = Some True"
  shows "\<exists>rv t'. register_setx e t i v withvalidator = Some (rv, t') \<and>
     (if ra_write a = None then rv = access REG_ACCESS_READONLY (re_address x) \<and> t' = t
      else if \<not> storable (rv_value v) then rv = access REG_ACCESS_INVALID (re_address x) \<and> t' = t
      else rv = REG_ACCESS_RESULT_INIT \<and> same_layout t t' \<and> backed rd wr cells t' \<and>
           stored_value cells e t' x = rv_value v \<and>
           (\<forall>b. \<not> (re_address x \<le> b \<and> b < re_address x + rds_size (re_type x)) \<longrightarrow>
              atom_at cells t' b = atom_at cells t b))"
proof -
  let ?n = "rds_size (re_type x)"
  have x: "re_type x \<noteq> REG_TYPE_INVALID"
    using ok by (simp add: entry_ok_def)
  obtain k where k: "re_area x = Some k" "k < rt_areas t" "area_at t k = Some a" "ra_base a \<le> re_address x"
      "re_address x + ?n \<le> ra_base a + ra_size a" "re_offset x = re_address x - ra_base a"
    using ok at by (auto simp: entry_ok_def)
  have start: "register_setx e t i v withvalidator =
      (if ra_write a = None then Some (access REG_ACCESS_READONLY (re_address x), t)
       else do {
         (success, raw) \<leftarrow> fst (rds_serdes (re_type x)) e v raw_atoms (table_bigendian t);
         if \<not> success then Some (access REG_ACCESS_INVALID (re_address x), t)
         else call_write t k raw (re_offset x) ?n
       })"
    using i valid b(2) k(1,3) by (simp add: register_setx_def register_area_can_write_def)
  have n: "?n \<le> length raw_atoms" "0 < ?n" "?n \<le> 4"
    using rds_size_bounds [OF x] by (simp_all add: raw_atoms_def)
  show ?thesis
  proof (cases "ra_write a = None \<or> \<not> storable (rv_value v)")
    case True
    then show ?thesis
      using start rds_ser_eq [OF kind n(1), of e "table_bigendian t"] by auto
  next
    case False
    let ?va = "value_atoms e (table_bigendian t) (rv_value v)"
    let ?raw = "overwrite raw_atoms 0 ?va"
    have len: "length ?va = ?n"
      using kind by simp
    have raw: "j < ?n \<Longrightarrow> ?raw ! j = ?va ! j" for j
      using len by (simp add: overwrite_def nth_append)
    have rl: "?n \<le> length ?raw"
      using n len by (simp add: overwrite_def)
    have off: "re_offset x + ?n \<le> ra_size a" "ra_base a + re_offset x = re_address x"
      using k(4-6) by auto
    obtain t' where t': "call_write t k ?raw (re_offset x) ?n = Some (REG_ACCESS_RESULT_INIT, t')" "same_layout t t'"
       "backed rd wr cells t'"
       "\<forall>b. atom_at cells t' b = (if re_address x \<le> b \<and> b < re_address x + ?n then ?raw ! (b - re_address x) else atom_at cells t b)"
      using call_write_ok [OF b(1) k(2,3) _ off(1) n(2) rl] False unfolding off(2) by auto
    have "register_setx e t i v withvalidator = Some (REG_ACCESS_RESULT_INIT, t')"
      using start False t'(1) rds_ser_eq [OF kind n(1), of e "table_bigendian t"] by auto
    moreover have "atoms_at cells t' (re_address x) ?n = ?va"
      using t'(4) raw len by (intro nth_equalityI) (simp_all add: atoms_at_def)
    then have "stored_value cells e t' x = rv_value v"
      using t'(2) atoms_value_atoms [of e "table_bigendian t" "rv_value v"] kind
      by (simp add: stored_value_def same_layout_def table_bigendian_def)
    ultimately show ?thesis
      using False t'(2-4) by auto
  qed
qed

lemma setx_ok:
  assumes "table_ok rd wr cells t" "i < rt_entries t" "entry_at t i = Some x" "area_at t (the (re_area x)) = Some a"
    and "value_type (rv_value v) = re_type x" "withvalidator \<Longrightarrow> rv_validate t x v = Some True"
  shows "\<exists>rv t'. register_setx e t i v withvalidator = Some (rv, t') \<and>
     (if ra_write a = None then rv = access REG_ACCESS_READONLY (re_address x) \<and> t' = t
      else if \<not> storable (rv_value v) then rv = access REG_ACCESS_INVALID (re_address x) \<and> t' = t
      else rv = REG_ACCESS_RESULT_INIT \<and> same_layout t t' \<and> table_ok rd wr cells t' \<and>
           stored_value cells e t' x = rv_value v \<and>
           (\<forall>b. \<not> (re_address x \<le> b \<and> b < re_address x + rds_size (re_type x)) \<longrightarrow>
              atom_at cells t' b = atom_at cells t b))"
proof -
  have x: "entry_ok t x" "backed rd wr cells t" "table_initialised t"
    using table_ok_entry [OF assms(1-3)] assms(1) by (auto simp: table_ok_def)
  obtain rv t' where r: "register_setx e t i v withvalidator = Some (rv, t')"
     "if ra_write a = None then rv = access REG_ACCESS_READONLY (re_address x) \<and> t' = t
      else if \<not> storable (rv_value v) then rv = access REG_ACCESS_INVALID (re_address x) \<and> t' = t
      else rv = REG_ACCESS_RESULT_INIT \<and> same_layout t t' \<and> backed rd wr cells t' \<and>
           stored_value cells e t' x = rv_value v \<and>
           (\<forall>b. \<not> (re_address x \<le> b \<and> b < re_address x + rds_size (re_type x)) \<longrightarrow>
              atom_at cells t' b = atom_at cells t b)"
    using setx_entry [OF x(2,3) assms(2-4) x(1) assms(5,6)] by blast
  show ?thesis
    using r table_ok_layout [OF assms(1)] by (intro exI [of _ rv] exI [of _ t']) (simp split: if_splits)
qed

lemma written_entry:
  assumes "re_address x + rds_size (re_type x) < 2 ^ 32" "addr + n < 2 ^ 32" "n \<le> length buf" "re_type x \<noteq> REG_TYPE_INVALID"
    and "addr \<le> re_address x" "re_address x < addr + n" "length old = rds_size (re_type x)"
    and "write_overlap x addr n = (bs, rs, rlen)"
  shows "\<exists>raw. mem_read buf bs rlen = Some (take rlen (drop bs buf)) \<and>
     mem_write (overwrite raw_atoms 0 old) rs (take rlen (drop bs buf)) = Some raw \<and> rds_size (re_type x) \<le> length raw \<and>
     take (rds_size (re_type x)) raw =
       map (\<lambda>j. if re_address x + j < addr + n then buf ! (re_address x + j - addr) else old ! j) [0 ..< rds_size (re_type x)]"
proof -
  let ?n = "rds_size (re_type x)"
  have size: "0 < ?n" "?n \<le> 4"
    using rds_size_bounds [OF assms(4)] by auto
  define b where "b = re_address x - addr"
  have b: "re_address x = addr + b" "b < n"
    using assms(5,6) by (simp_all add: b_def)
  have over: "bs = b \<and> rs = 0 \<and> rlen = (if n < b + ?n then n - b else ?n)"
    using assms(1,2,8) b size by (auto simp: write_overlap_def Let_def split: if_splits)
  have l: "rlen \<le> ?n" "b + rlen \<le> length buf"
    using over b(2) assms(3) by (auto split: if_splits)
  let ?new = "take rlen (drop b buf)"
  have ln: "length ?new = rlen"
    using l(2) by simp
  have lo: "length (overwrite raw_atoms 0 old) = 4"
    using assms(7) size by (simp add: raw_atoms_def)
  have mw: "mem_write (overwrite raw_atoms 0 old) 0 ?new = Some (overwrite (overwrite raw_atoms 0 old) 0 ?new)"
    using ln lo l(1) size by (simp add: mem_write_overwrite)
  have "overwrite (overwrite raw_atoms 0 old) 0 ?new ! j =
      (if re_address x + j < addr + n then buf ! (re_address x + j - addr) else old ! j)" if j: "j < ?n" for j
  proof (cases "j < rlen")
    case True
    then have "re_address x + j < addr + n"
      using over b by (auto split: if_splits)
    then show ?thesis
      using True ln b l(2) by (simp add: overwrite_def nth_append)
  next
    case False
    then have "\<not> re_address x + j < addr + n"
      using over b j by (auto split: if_splits)
    moreover have "rlen + (j - rlen) = j" "j - rlen < ?n - rlen"
      using False j by simp_all
    ultimately show ?thesis
      using False ln l(1) j assms(7) size by (simp add: overwrite_def nth_append)
  qed
  then have "take ?n (overwrite (overwrite raw_atoms 0 old) 0 ?new) =
      map (\<lambda>j. if re_address x + j < addr + n then buf ! (re_address x + j - addr) else old ! j) [0 ..< ?n]"
    using lo ln l(1) size by (intro nth_equalityI) simp_all
  then show ?thesis
    using over l mw lo ln size by (simp add: mem_read_def)
qed

text \<open>What a register will hold once the block is written.\<close>

definition written_value :: "endianness \<Rightarrow> 'd RegisterTable \<Rightarrow> nat \<Rightarrow> nat \<Rightarrow> RegisterAtom list \<Rightarrow> RegisterEntry \<Rightarrow> RegisterValueU" where
  "written_value e t addr n buf x = atoms_value e (table_bigendian t) (re_type x)
     (map (\<lambda>a. if addr \<le> a \<and> a < addr + n then buf ! (a - addr) else atom_at cells t a)
        [re_address x ..< re_address x + rds_size (re_type x)])"

lemma malformed_ok:
  assumes "table_ok rd wr cells t" "addr + n < 2 ^ 32" "0 < n" "n \<le> length buf" "ac_code rv0 = REG_ACCESS_SUCCESS"
    and "\<forall>i x. i < rt_entries t \<longrightarrow> entry_at t i = Some x \<longrightarrow> \<not> (re_address x < addr \<and> addr < re_address x + rds_size (re_type x))"
  shows "\<exists>rv. malformed_from e t addr n buf rv0 [k ..< rt_entries t] = Some (rv, t) \<and>
     (ac_code rv = REG_ACCESS_SUCCESS \<longrightarrow>
        (\<forall>i x. k \<le> i \<longrightarrow> i < rt_entries t \<longrightarrow> entry_at t i = Some x \<longrightarrow> addr \<le> re_address x \<longrightarrow> re_address x < addr + n \<longrightarrow>
           storable (written_value e t addr n buf x) \<and>
           rv_validate t x \<lparr>rv_type = re_type x, rv_value = written_value e t addr n buf x\<rparr> = Some True))"
  using assms(5)
proof (induction "rt_entries t - k" arbitrary: k rv0)
  case 0
  then show ?case
    by simp
next
  case (Suc m)
  then have k: "k < rt_entries t" and up: "[k ..< rt_entries t] = k # [Suc k ..< rt_entries t]"
    by (simp_all add: upt_conv_Cons)
  obtain x where x: "entry_at t k = Some x" "entry_ok t x"
    using table_okD [OF assms(1) k] .
  have b: "backed rd wr cells t"
    using assms(1) by (simp add: table_ok_def)
  let ?n = "rds_size (re_type x)"
  have valid: "re_type x \<noteq> REG_TYPE_INVALID" "check_matches x"
    using x(2) by (simp_all add: entry_ok_def)
  note size = rds_size_bounds [OF valid(1)]
  obtain i a where a: "i < rt_areas t" "area_at t i = Some a" "re_address x + ?n \<le> ra_base a + ra_size a"
    using x(2) by (auto simp: entry_ok_def)
  have bound: "re_address x + ?n < 2 ^ 32"
    using areas_okD [OF backed_areas [OF b] a(1)] a(2,3) by fastforce
  have later: "re_address x + ?n \<le> re_address y" if "Suc k \<le> j" "j < rt_entries t" "entry_at t j = Some y" for j y
    using table_ok_order [OF assms(1) x(1) that(3) _ that(2)] that(1) by simp
  have m: "m = rt_entries t - Suc k"
    using Suc(2) by simp
  note ih = Suc(1) [OF m]
  have split: "j = k \<or> Suc k \<le> j" if "k \<le> j" for j
    using that by auto
  consider "re_address x + ?n \<le> addr" | "addr < re_address x + ?n" "addr + n \<le> re_address x"
    | "addr < re_address x + ?n" "re_address x < addr + n"
    by linarith
  then show ?case
  proof cases
    case 1
    then have "ad_sub (ad_add (re_address x) ?n) 1 < addr"
      using bound size by (simp, linarith)
    then have "malformed_from e t addr n buf rv0 [k ..< rt_entries t] = malformed_from e t addr n buf rv0 [Suc k ..< rt_entries t]"
      using x by (simp add: up)
    moreover have "\<not> addr \<le> re_address x"
      using 1 size by simp
    ultimately show ?thesis
      using ih [OF Suc.prems] x(1) split by (metis option.inject)
  next
    case 2
    then have "malformed_from e t addr n buf rv0 [k ..< rt_entries t] = Some (rv0, t)"
      using x bound size assms(2,3) by (auto simp: up)
    moreover have "\<not> re_address y < addr + n" if "k \<le> j" "j < rt_entries t" "entry_at t j = Some y" for j y
      using later [OF _ that(2,3)] split [OF that(1)] that(3) 2 x(1) by auto
    ultimately show ?thesis
      by blast
  next
    case 3
    then have start: "addr \<le> re_address x"
      using assms(6) k x(1) by (metis not_le)
    obtain bs rs rlen where over: "write_overlap x addr n = (bs, rs, rlen)"
      by (metis prod_cases3)
    let ?old = "atoms_at cells t (re_address x) ?n"
    obtain raw where raw: "mem_read buf bs rlen = Some (take rlen (drop bs buf))"
       "mem_write (overwrite raw_atoms 0 ?old) rs (take rlen (drop bs buf)) = Some raw" "?n \<le> length raw"
       "take ?n raw = map (\<lambda>j. if re_address x + j < addr + n then buf ! (re_address x + j - addr) else ?old ! j) [0 ..< ?n]"
      using written_entry [OF bound assms(2,4) valid(1) start 3(2) _ over, of ?old] by auto
    have "take ?n raw = map (\<lambda>a. if addr \<le> a \<and> a < addr + n then buf ! (a - addr) else atom_at cells t a)
        [re_address x ..< re_address x + ?n]"
      unfolding raw(4) using start by (intro nth_equalityI) (simp_all add: atoms_at_def)
    then have datum: "snd (rds_serdes (re_type x)) e raw no_value (table_bigendian t) =
        Some (storable (written_value e t addr n buf x), \<lparr>rv_type = re_type x, rv_value = written_value e t addr n buf x\<rparr>)"
      using rds_des_eq [OF valid(1) raw(3), of e no_value "table_bigendian t"] by (simp add: Let_def written_value_def)
    have kind: "value_type (written_value e t addr n buf x) = re_type x"
      using valid(1) by (simp add: written_value_def)
    obtain ok where ok: "rv_validate t x \<lparr>rv_type = re_type x, rv_value = written_value e t addr n buf x\<rparr> = Some ok"
      using validate_defined [OF valid(2), of "\<lparr>rv_type = re_type x, rv_value = written_value e t addr n buf x\<rparr>" t] kind by auto
    have cond: "\<not> ad_sub (ad_add (re_address x) ?n) 1 < addr" "\<not> ad_sub (ad_add addr n) 1 < re_address x"
      using 3 bound assms(2,3) size by auto
    let ?good = "storable (written_value e t addr n buf x) \<and> ok"
    have step: "malformed_from e t addr n buf rv0 [k ..< rt_entries t] =
        (if \<not> storable (written_value e t addr n buf x) then Some (access REG_ACCESS_INVALID (ad_add addr bs), t)
         else if \<not> ok then Some (access REG_ACCESS_RANGE (ad_add addr bs), t)
         else malformed_from e t addr n buf REG_ACCESS_RESULT_INIT [Suc k ..< rt_entries t])"
      using x(1) cond over read_entry_ok [OF b x(2)] raw(1,2) datum ok
      by (simp add: up REG_ACCESS_RESULT_INIT_def)
    show ?thesis
    proof (cases ?good)
      case True
      then show ?thesis
        using step ih [of REG_ACCESS_RESULT_INIT] x(1) split ok
        by (simp add: REG_ACCESS_RESULT_INIT_def) (metis option.inject)
    next
      case False
      then show ?thesis
        using step by (cases "storable (written_value e t addr n buf x)") simp_all
    qed
  qed
qed

end

section \<open>Touched registers\<close>

definition retouched :: "'d RegisterTable \<Rightarrow> 'd RegisterTable \<Rightarrow> bool" where
  "retouched t t' \<longleftrightarrow> rt_flags t' = rt_flags t \<and> rt_areas t' = rt_areas t \<and> rt_area t' = rt_area t \<and>
     rt_entries t' = rt_entries t \<and> rt_world t' = rt_world t \<and>
     (\<forall>i < rt_entries t. \<forall>x. entry_at t i = Some x \<longrightarrow> (\<exists>f. entry_at t' i = Some (x\<lparr>re_flags := f\<rparr>)))"

lemma flags_update_same: "x\<lparr>re_flags := re_flags x\<rparr> = x"
  by simp

lemma retouched_refl [simp]: "retouched t t"
  unfolding retouched_def by (metis flags_update_same)

lemma retouched_trans:
  assumes "retouched a b" "retouched b c"
  shows "retouched a c"
proof -
  have "\<exists>f. entry_at c i = Some (x\<lparr>re_flags := f\<rparr>)" if i: "i < rt_entries a" "entry_at a i = Some x" for i x
  proof -
    obtain f where "entry_at b i = Some (x\<lparr>re_flags := f\<rparr>)" "i < rt_entries b"
      using assms(1) i unfolding retouched_def by metis
    then obtain f' where "entry_at c i = Some (x\<lparr>re_flags := f\<rparr>\<lparr>re_flags := f'\<rparr>)"
      using assms(2) unfolding retouched_def by metis
    then show ?thesis
      by auto
  qed
  then show ?thesis
    using assms by (simp add: retouched_def)
qed

lemma put_entry_retouched:
  assumes "entry_at t i = Some x"
  shows "retouched t (put_entry t i (x\<lparr>re_flags := f\<rparr>))"
proof -
  have "entry_at (put_entry t i (x\<lparr>re_flags := f\<rparr>)) j = (if j = i then Some (x\<lparr>re_flags := f\<rparr>) else entry_at t j)" for j
    using assms by (auto simp: entry_at_def put_entry_def split: bind_splits if_splits)
  then show ?thesis
    using assms unfolding retouched_def by (auto simp: put_entry_def) (metis flags_update_same)+
qed

lemma touch_ok:
  assumes "entry_at t i = Some x"
  shows "\<exists>t'. register_touch t i = Some t' \<and> retouched t t'" "\<exists>t'. register_untouch t i = Some t' \<and> retouched t t'"
  using assms put_entry_retouched [OF assms] by (simp_all add: register_touch_def register_untouch_def)

lemma retouched_entry:
  assumes "retouched t t'" "table_ok rd wr cells t" "i < rt_entries t"
  obtains x f where "entry_at t i = Some x" "entry_at t' i = Some (x\<lparr>re_flags := f\<rparr>)" "entry_ok t x"
proof -
  obtain x where x: "entry_at t i = Some x" "entry_ok t x"
    using table_okD [OF assms(2,3)] .
  then obtain f where "entry_at t' i = Some (x\<lparr>re_flags := f\<rparr>)"
    using assms(1,3) unfolding retouched_def by metis
  with x that show ?thesis
    by blast
qed

lemma same_areas:
  assumes "rt_area t' = rt_area t" "rt_areas t' = rt_areas t"
  shows "area_at t' = area_at t" "backed rd wr cells t' = backed rd wr cells t" "atom_at cells t' = atom_at cells t"
    "ra_find_area_by_addr t' = ra_find_area_by_addr t"
proof -
  show at: "area_at t' = area_at t"
    by (simp add: fun_eq_iff area_at_def assms)
  then show "backed rd wr cells t' = backed rd wr cells t"
    by (simp add: backed_def areas_ok_def assms)
  have "find_area_from t' addr ns = find_area_from t addr ns" for addr ns
    by (induction ns) (simp_all add: at assms cong: if_cong)
  then show find: "ra_find_area_by_addr t' = ra_find_area_by_addr t"
    by (simp add: fun_eq_iff ra_find_area_by_addr_def assms)
  show "atom_at cells t' = atom_at cells t"
    by (simp add: fun_eq_iff atom_at_def at assms find cong: option.case_cong if_cong)
qed

lemma retouched_areas:
  assumes "retouched t t'"
  shows "area_at t' = area_at t" "backed rd wr cells t' = backed rd wr cells t" "atom_at cells t' = atom_at cells t"
  using same_areas [of t' t] assms by (simp_all add: retouched_def)

lemma retouched_ok:
  assumes "retouched t t'" "table_ok rd wr cells t"
  shows "table_ok rd wr cells t'"
proof -
  have n: "rt_entries t' = rt_entries t" "rt_areas t' = rt_areas t" "table_initialised t' = table_initialised t"
    using assms(1) by (simp_all add: retouched_def table_initialised_def)
  note ar = retouched_areas [OF assms(1)]
  have "\<exists>x. entry_at t' i = Some x \<and> entry_ok t' x \<and> (\<forall>j y. i < j \<longrightarrow> j < rt_entries t' \<longrightarrow> entry_at t' j = Some y \<longrightarrow>
           re_address x + rds_size (re_type x) \<le> re_address y)" if i: "i < rt_entries t'" for i
  proof -
    obtain x f where x: "entry_at t i = Some x" "entry_at t' i = Some (x\<lparr>re_flags := f\<rparr>)" "entry_ok t x"
      using retouched_entry [OF assms, of i] i n by auto
    have "entry_ok t' (x\<lparr>re_flags := f\<rparr>)"
      using x(3) n by (simp add: entry_ok_def check_matches_def ar(1) cong: RegisterValidator.case_cong)
    moreover have "re_address x + rds_size (re_type x) \<le> re_address y"
      if j: "i < j" "j < rt_entries t'" "entry_at t' j = Some y" for j y
    proof -
      have "j < rt_entries t"
        using j(2) n by simp
      from retouched_entry [OF assms this]
      obtain y' f' where "entry_at t j = Some y'" "entry_at t' j = Some (y'\<lparr>re_flags := f'\<rparr>)"
        by blast
      with j x(1) table_ok_order [OF assms(2) x(1), of j y'] n show ?thesis
        by auto
    qed
    ultimately show ?thesis
      using x(2) by simp
  qed
  then show ?thesis
    using assms(2) unfolding table_ok_def n ar(2) by blast
qed

definition valid_at :: "(RegisterAreaData \<Rightarrow> RegisterAtom list) \<Rightarrow> endianness \<Rightarrow> 'd RegisterTable \<Rightarrow> nat \<Rightarrow> bool" where
  "valid_at cells e t i \<longleftrightarrow> (case entry_at t i of None \<Rightarrow> False | Some x \<Rightarrow> register_valid cells e t x)"

definition all_valid :: "(RegisterAreaData \<Rightarrow> RegisterAtom list) \<Rightarrow> endianness \<Rightarrow> 'd RegisterTable \<Rightarrow> bool" where
  "all_valid cells e t \<longleftrightarrow> (\<forall>i < rt_entries t. valid_at cells e t i)"

lemma retouched_register_valid:
  assumes "retouched t t'" "check_matches x"
  shows "register_valid cells e t' (x\<lparr>re_flags := f\<rparr>) = register_valid cells e t x"
proof -
  have "stored_value cells e t' (x\<lparr>re_flags := f\<rparr>) = stored_value cells e t x"
    using assms(1) retouched_areas(3) [OF assms(1), of cells]
    by (simp add: stored_value_def atoms_at_def table_bigendian_def retouched_def)
  then show ?thesis
    using validate_flags [of t' t] assms(1)
    by (simp add: register_valid_def retouched_def validate_touched [OF assms(2)])
qed

lemma retouched_valid_at:
  assumes "retouched t t'" "table_ok rd wr cells t" "i < rt_entries t"
  shows "valid_at cells e t' i = valid_at cells e t i"
proof -
  obtain x f where "entry_at t i = Some x" "entry_at t' i = Some (x\<lparr>re_flags := f\<rparr>)" "entry_ok t x"
    using retouched_entry [OF assms] .
  then show ?thesis
    using retouched_register_valid [OF assms(1), of x cells e f] by (simp add: valid_at_def entry_ok_def)
qed

lemma same_layout_entries:
  "same_layout t t' \<Longrightarrow> entry_at t' i = entry_at t i" "same_layout t t' \<Longrightarrow> rt_entries t' = rt_entries t"
  by (simp_all add: same_layout_def entry_at_def)

lemma valid_at_cong:
  assumes "same_layout t t'" "entry_at t i = Some x"
    and "\<forall>a. re_address x \<le> a \<longrightarrow> a < re_address x + rds_size (re_type x) \<longrightarrow> atom_at cells t' a = atom_at cells t a"
  shows "valid_at cells e t' i = valid_at cells e t i"
  using register_valid_cong [OF assms(1,3)] assms(2) same_layout_entries [OF assms(1)] by (simp add: valid_at_def)

lemma taint_ok:
  "\<forall>i \<in> set ix. \<exists>x. entry_at t i = Some x \<Longrightarrow> \<exists>t'. taint_from t addr n ix = Some t' \<and> retouched t t'"
proof (induction ix arbitrary: t)
  case (Cons i ix)
  then obtain x where x: "entry_at t i = Some x"
    by auto
  consider "reg_range_touches x addr n > 0" | "reg_range_touches x addr n < 0" | "reg_range_touches x addr n = 0"
    by linarith
  then show ?case
  proof cases
    case 3
    let ?t = "put_entry t i (x\<lparr>re_flags := BIT_SET (re_flags x) REG_EF_TOUCHED\<rparr>)"
    have "\<forall>j \<in> set ix. \<exists>x. entry_at ?t j = Some x"
      using Cons.prems by (auto simp: entry_at_def put_entry_def split: bind_splits if_splits)
    then obtain t' where "taint_from ?t addr n ix = Some t'" "retouched ?t t'"
      using Cons.IH by blast
    with x 3 retouched_trans [OF put_entry_retouched [OF x]] show ?thesis
      by (auto simp: register_touch_def)
  qed (use x Cons in \<open>auto\<close>)
qed simp

section \<open>Operations on well-formed tables\<close>

context area_backend
begin

lemma block_write_ok:
  assumes "table_ok rd wr cells t" "addr + n < 2 ^ 32" "n \<le> length buf"
    and "\<forall>i x. i < rt_entries t \<longrightarrow> entry_at t i = Some x \<longrightarrow> \<not> (re_address x < addr \<and> addr < re_address x + rds_size (re_type x))"
  shows "\<exists>rv t1 t'. register_block_write e t addr n buf = Some (rv, t') \<and>
     (if ac_code rv = REG_ACCESS_SUCCESS
      then same_layout t t1 \<and> backed rd wr cells t1 \<and> retouched t1 t' \<and>
           (\<forall>a. addr \<le> a \<longrightarrow> a < addr + n \<longrightarrow> mapped t a) \<and>
           (\<forall>a. atom_at cells t1 a = (if addr \<le> a \<and> a < addr + n then buf ! (a - addr) else atom_at cells t a)) \<and>
           (\<forall>i x. i < rt_entries t \<longrightarrow> entry_at t i = Some x \<longrightarrow> addr \<le> re_address x \<longrightarrow> re_address x < addr + n \<longrightarrow>
              storable (written_value e t addr n buf x) \<and>
              rv_validate t x \<lparr>rv_type = re_type x, rv_value = written_value e t addr n buf x\<rparr> = Some True)
      else t' = t)"
proof (cases "n = 0")
  case True
  have "register_block_write e t addr n buf = Some (REG_ACCESS_RESULT_INIT, t)"
    using True assms(1) by (simp add: register_block_write_def table_ok_def)
  then show ?thesis
    using True assms(1) by (intro exI [of _ REG_ACCESS_RESULT_INIT] exI [of _ t]) (auto simp: table_ok_def)
next
  case False
  have ini: "table_initialised t" and b: "backed rd wr cells t" and ok: "areas_ok t"
    using assms(1) by (auto simp: table_ok_def backed_def)
  obtain r1 where r1: "ra_writeable t addr n = Some r1"
     "r1 = REG_ACCESS_RESULT_INIT \<and>
        (\<forall>i a. i < rt_areas t \<longrightarrow> area_at t i = Some a \<longrightarrow> ra_base a < addr + n \<longrightarrow> addr < ra_base a + ra_size a \<longrightarrow>
           register_area_is_writeable a) \<or>
      r1 = access REG_ACCESS_READONLY addr"
    using writeable_ok [OF ok assms(2), of 0] False unfolding ra_writeable_def by auto
  obtain r2 where r2: "register_block_touches_hole t addr n = Some r2"
     "r2 = REG_ACCESS_RESULT_INIT \<and> (\<forall>a. addr \<le> a \<longrightarrow> a < addr + n \<longrightarrow> mapped t a) \<or> (\<exists>a. r2 = access REG_ACCESS_NOENTRY a)"
    using touches_hole_eq [OF ok assms(2)] by auto
  obtain r3 where r3: "ra_malformed_write e t addr n buf = Some (r3, t)"
     "ac_code r3 = REG_ACCESS_SUCCESS \<longrightarrow>
        (\<forall>i x. i < rt_entries t \<longrightarrow> entry_at t i = Some x \<longrightarrow> addr \<le> re_address x \<longrightarrow> re_address x < addr + n \<longrightarrow>
           storable (written_value e t addr n buf x) \<and>
           rv_validate t x \<lparr>rv_type = re_type x, rv_value = written_value e t addr n buf x\<rparr> = Some True)"
    using malformed_ok [OF assms(1,2) _ assms(3) _ assms(4), of REG_ACCESS_RESULT_INIT e 0] False
    unfolding ra_malformed_write_def by (auto simp: REG_ACCESS_RESULT_INIT_def)
  show ?thesis
  proof (cases "r1 = REG_ACCESS_RESULT_INIT \<and> r2 = REG_ACCESS_RESULT_INIT \<and> ac_code r3 = REG_ACCESS_SUCCESS")
    case bad: False
    then have "\<exists>r. register_block_write e t addr n buf = Some (r, t) \<and> ac_code r \<noteq> REG_ACCESS_SUCCESS"
      using False ini r1 r2 r3(1) by (auto simp: register_block_write_def REG_ACCESS_RESULT_INIT_def)
    then show ?thesis
      by auto
  next
    case good: True
    have all: "\<forall>a. addr \<le> a \<longrightarrow> a < addr + n \<longrightarrow> mapped t a"
      using good r2(2) by (auto simp: REG_ACCESS_RESULT_INIT_def)
    have wr: "\<forall>i a. i < rt_areas t \<longrightarrow> area_at t i = Some a \<longrightarrow> ra_base a < addr + n \<longrightarrow> addr < ra_base a + ra_size a \<longrightarrow> ra_write a \<noteq> None"
      using good r1(2) by (auto simp: REG_ACCESS_RESULT_INIT_def register_area_is_writeable_def register_area_can_write_def)
    obtain t1 where t1: "register_block_write_unsafe t addr n buf = Some (REG_ACCESS_RESULT_INIT, t1)" "same_layout t t1"
       "backed rd wr cells t1"
       "\<forall>a. atom_at cells t1 a = (if addr \<le> a \<and> a < addr + n then buf ! (a - addr) else atom_at cells t a)"
      using block_write_loop_ok [OF b assms(2,3) all wr] unfolding register_block_write_unsafe_def by blast
    have "\<forall>i \<in> set [0 ..< rt_entries t1]. \<exists>x. entry_at t1 i = Some x"
      using table_okD [OF table_ok_layout [OF assms(1) t1(2,3)]] by (metis atLeastLessThan_iff set_upt)
    then obtain t' where t': "reg_taint_in_range t1 addr n = Some t'" "retouched t1 t'"
      using taint_ok unfolding reg_taint_in_range_def by blast
    have "register_block_write e t addr n buf = Some (REG_ACCESS_RESULT_INIT, t')"
      using False ini good r1(1) r2(1) r3(1) t1(1) t'(1) by (simp add: register_block_write_def REG_ACCESS_RESULT_INIT_def)
    then show ?thesis
      using t1(2-4) t'(2) all r3(2) good
      by (intro exI [of _ REG_ACCESS_RESULT_INIT] exI [of _ t1] exI [of _ t']) (simp add: REG_ACCESS_RESULT_INIT_def)
  qed
qed

lemma set_ok:
  assumes "table_ok rd wr cells t" "i < rt_entries t" "entry_at t i = Some x" "value_type (rv_value v) = rv_type v"
  shows "\<exists>rv t'. register_set e t i v = Some (rv, t') \<and> table_ok rd wr cells t' \<and> same_layout t t' \<and>
     (\<forall>j < rt_entries t. valid_at cells e t j \<longrightarrow> valid_at cells e t' j) \<and>
     (if ac_code rv = REG_ACCESS_SUCCESS
      then re_type x = rv_type v \<and> rv_validate t x v = Some True \<and> storable (rv_value v) \<and> valid_at cells e t' i \<and>
           stored_value cells e t' x = rv_value v \<and>
           (\<forall>b. \<not> (re_address x \<le> b \<and> b < re_address x + rds_size (re_type x)) \<longrightarrow>
              atom_at cells t' b = atom_at cells t b)
      else t' = t)"
proof -
  have x: "entry_ok t x" "check_matches x"
    using table_ok_entry [OF assms(1-3)] by (auto simp: entry_ok_def)
  obtain ok where ok: "rv_validate t x v = Some ok"
    using validate_defined [OF x(2) assms(4)] by blast
  show ?thesis
  proof (cases ok)
    case False
    then have "register_set e t i v = Some (access REG_ACCESS_RANGE (re_address x), t)"
      using assms(1-3) ok by (simp add: register_set_def register_setx_def table_ok_def)
    then show ?thesis
      using assms(1) by simp
  next
    case True
    then have valid: "rv_validate t x v = Some True" and same: "re_type x = rv_type v"
      using ok by (auto simp: rv_validate_def split: if_splits)
    obtain a where a: "area_at t (the (re_area x)) = Some a"
      using x(1) by (auto simp: entry_ok_def)
    have kind: "value_type (rv_value v) = re_type x"
      using assms(4) same by simp
    obtain rv t' where r: "register_set e t i v = Some (rv, t')"
       "if ra_write a = None then rv = access REG_ACCESS_READONLY (re_address x) \<and> t' = t
        else if \<not> storable (rv_value v) then rv = access REG_ACCESS_INVALID (re_address x) \<and> t' = t
        else rv = REG_ACCESS_RESULT_INIT \<and> same_layout t t' \<and> table_ok rd wr cells t' \<and>
           stored_value cells e t' x = rv_value v \<and>
           (\<forall>b. \<not> (re_address x \<le> b \<and> b < re_address x + rds_size (re_type x)) \<longrightarrow>
              atom_at cells t' b = atom_at cells t b)"
      using setx_ok [OF assms(1-3) a kind, of True e] valid unfolding register_set_def by auto
    show ?thesis
    proof (cases "ra_write a = None \<or> \<not> storable (rv_value v)")
      case True
      then have "ac_code rv \<noteq> REG_ACCESS_SUCCESS" "t' = t"
        using r(2) by (auto split: if_splits)
      then show ?thesis
        using r(1) assms(1) by simp
    next
      case False
      then have t': "rv = REG_ACCESS_RESULT_INIT" "same_layout t t'" "table_ok rd wr cells t'"
         "stored_value cells e t' x = rv_value v" "storable (rv_value v)"
         "\<forall>b. \<not> (re_address x \<le> b \<and> b < re_address x + rds_size (re_type x)) \<longrightarrow> atom_at cells t' b = atom_at cells t b"
        using r(2) by (auto split: if_splits)
      have "\<lparr>rv_type = re_type x, rv_value = rv_value v\<rparr> = v"
        using same by simp
      then have here: "valid_at cells e t' i"
        using t'(2,4,5) assms(3) valid same_layout_entries [OF t'(2)] validate_flags [of t' t]
        by (simp add: valid_at_def register_valid_def same_layout_def)
      have "valid_at cells e t' j" if j: "j < rt_entries t" "valid_at cells e t j" for j
      proof (cases "j = i")
        case False
        obtain y where y: "entry_at t j = Some y"
          using table_okD [OF assms(1) j(1)] .
        have "\<forall>a. re_address y \<le> a \<longrightarrow> a < re_address y + rds_size (re_type y) \<longrightarrow> atom_at cells t' a = atom_at cells t a"
          using t'(6) table_ok_apart [OF assms(1,3) y _ assms(2) j(1)] False by auto
        then show ?thesis
          using valid_at_cong [OF t'(2) y] j(2) by simp
      qed (use here in simp)
      then show ?thesis
        using r(1) t' here same valid by (intro exI [of _ rv] exI [of _ t']) (simp add: REG_ACCESS_RESULT_INIT_def)
    qed
  qed
qed

lemma change_ok:
  assumes "table_ok rd wr cells t" "i < rt_entries t" "value_type (rv_value v) = rv_type v"
    and "\<And>a b. value_type a = value_type b \<Longrightarrow> value_type a \<in> {REG_TYPE_UINT16, REG_TYPE_UINT32, REG_TYPE_UINT64} \<Longrightarrow>
           \<exists>c. f a b = Some c \<and> value_type c = value_type a"
  shows "\<exists>rv t'. register_change e t i v f = Some (rv, t') \<and> table_ok rd wr cells t' \<and> same_layout t t' \<and>
     (\<forall>j < rt_entries t. valid_at cells e t j \<longrightarrow> valid_at cells e t' j)"
proof -
  obtain x where x: "entry_at t i = Some x" "re_type x \<noteq> REG_TYPE_INVALID"
    using table_okD [OF assms(1,2)] by (auto simp: entry_ok_def)
  let ?s = "stored_value cells e t x"
  have kind: "value_type ?s = re_type x"
    using x(2) by (simp add: stored_value_def)
  show ?thesis
  proof (cases "storable ?s \<and> re_type x = rv_type v \<and> re_type x \<in> {REG_TYPE_UINT16, REG_TYPE_UINT32, REG_TYPE_UINT64}")
    case True
    then obtain c where c: "f ?s (rv_value v) = Some c" "value_type c = re_type x"
      using assms(4) [of ?s "rv_value v"] kind assms(3) by auto
    have "register_change e t i v f = register_set e t i \<lparr>rv_type = re_type x, rv_value = c\<rparr>"
      using True c get_ok [OF assms(1,2) x(1), of e v] by (auto simp: register_change_def REG_ACCESS_RESULT_INIT_def)
    then show ?thesis
      using set_ok [OF assms(1,2) x(1), of "\<lparr>rv_type = re_type x, rv_value = c\<rparr>" e] c(2) by auto
  next
    case False
    then have "\<exists>rv. register_change e t i v f = Some (rv, t)"
      using get_ok [OF assms(1,2) x(1), of e v] by (auto simp: register_change_def REG_ACCESS_RESULT_INIT_def)
    then show ?thesis
      using assms(1) by auto
  qed
qed

lemma sane_ok:
  assumes "table_ok rd wr cells t" "i < rt_entries t"
  shows "\<exists>rv. reg_entry_sane e t i = Some (rv, t) \<and>
     (ac_code rv = REG_ACCESS_SUCCESS \<and> valid_at cells e t i \<or> ac_code rv \<in> {REG_ACCESS_INVALID, REG_ACCESS_RANGE})"
proof -
  obtain x where x: "entry_at t i = Some x" "check_matches x" "re_type x \<noteq> REG_TYPE_INVALID"
    using table_okD [OF assms] by (auto simp: entry_ok_def)
  let ?v = "\<lparr>rv_type = re_type x, rv_value = stored_value cells e t x\<rparr>"
  have "value_type (rv_value ?v) = rv_type ?v"
    using x(3) by (simp add: stored_value_def)
  then obtain ok where "rv_validate t x ?v = Some ok"
    using validate_defined [OF x(2)] by blast
  then show ?thesis
    using x(1) get_ok [OF assms x(1), of e no_value]
    by (cases "storable (stored_value cells e t x)"; cases ok)
      (simp_all add: reg_entry_sane_def valid_at_def register_valid_def REG_ACCESS_RESULT_INIT_def)
qed

lemma sanitise_from_ok:
  assumes "table_ok rd wr cells t" "set ix \<subseteq> {..< rt_entries t}"
  shows "\<exists>rv t'. sanitise_from e t ix = Some (rv, t') \<and> table_ok rd wr cells t' \<and> rt_entries t' = rt_entries t \<and>
     (\<forall>j < rt_entries t. valid_at cells e t j \<longrightarrow> valid_at cells e t' j) \<and>
     (ac_code rv = REG_ACCESS_SUCCESS \<longrightarrow> (\<forall>i \<in> set ix. valid_at cells e t' i))"
  using assms
proof (induction ix arbitrary: t)
  case (Cons i ix)
  then have i: "i < rt_entries t"
    by simp
  obtain x where x: "entry_at t i = Some x" "check_matches x"
    using table_okD [OF Cons.prems(1) i] by (auto simp: entry_ok_def)
  obtain r0 where r0: "reg_entry_sane e t i = Some (r0, t)"
     "ac_code r0 = REG_ACCESS_SUCCESS \<and> valid_at cells e t i \<or> ac_code r0 \<in> {REG_ACCESS_INVALID, REG_ACCESS_RANGE}"
    using sane_ok [OF Cons.prems(1) i, of e] by blast
  have go: "\<exists>rv t'. (do { t \<leftarrow> register_untouch t1 i; sanitise_from e t ix }) = Some (rv, t') \<and>
      table_ok rd wr cells t' \<and> rt_entries t' = rt_entries t \<and>
      (\<forall>j < rt_entries t. valid_at cells e t1 j \<longrightarrow> valid_at cells e t' j) \<and>
      (ac_code rv = REG_ACCESS_SUCCESS \<longrightarrow> (\<forall>i \<in> set ix. valid_at cells e t' i))"
    if t1: "table_ok rd wr cells t1" "rt_entries t1 = rt_entries t" for t1
  proof -
    have "i < rt_entries t1"
      using i t1(2) by simp
    then obtain y where "entry_at t1 i = Some y"
      using table_okD [OF t1(1)] by blast
    from touch_ok(2) [OF this] obtain t2 where t2: "register_untouch t1 i = Some t2" "retouched t1 t2"
      by blast
    have ok2: "table_ok rd wr cells t2" and n2: "rt_entries t2 = rt_entries t"
      using retouched_ok [OF t2(2) t1(1)] t2(2) t1(2) by (simp_all add: retouched_def)
    have sub: "set ix \<subseteq> {..< rt_entries t2}"
      using Cons.prems(2) n2 by simp
    from Cons.IH [OF ok2 sub] retouched_valid_at [OF t2(2) t1(1), of _ e] t2(1) n2 t1(2) show ?thesis
      by auto
  qed
  show ?case
  proof (cases "ac_code r0 = REG_ACCESS_SUCCESS")
    case True
    then have "sanitise_from e t (i # ix) = (do { t \<leftarrow> register_untouch t i; sanitise_from e t ix })"
      using r0(1) by simp
    with go [OF Cons.prems(1) refl] r0(2) True i show ?thesis
      by auto
  next
    case False
    let ?d = "\<lparr>rv_type = re_type x, rv_value = re_default x\<rparr>"
    have "value_type (rv_value ?d) = rv_type ?d"
      using x(2) by (simp add: check_matches_def)
    from set_ok [OF Cons.prems(1) i x(1) this, of e]
    obtain r1 t1 where r1: "register_set e t i ?d = Some (r1, t1)" "table_ok rd wr cells t1" "same_layout t t1"
       "\<forall>j < rt_entries t. valid_at cells e t j \<longrightarrow> valid_at cells e t1 j"
       "ac_code r1 = REG_ACCESS_SUCCESS \<longrightarrow> valid_at cells e t1 i"
      by auto
    have n1: "rt_entries t1 = rt_entries t"
      using same_layout_entries [OF r1(3)] by simp
    have step: "sanitise_from e t (i # ix) =
        (if ac_code r1 \<noteq> REG_ACCESS_SUCCESS then Some (r1, t1) else (do { t \<leftarrow> register_untouch t1 i; sanitise_from e t ix }))"
      using False r0 r1(1) x(1) by (auto simp: reg_entry_load_default_def)
    show ?thesis
    proof (cases "ac_code r1 = REG_ACCESS_SUCCESS")
      case True
      obtain rv t' where g: "(do { t \<leftarrow> register_untouch t1 i; sanitise_from e t ix }) = Some (rv, t')"
          "table_ok rd wr cells t'" "rt_entries t' = rt_entries t"
          "\<forall>j < rt_entries t. valid_at cells e t1 j \<longrightarrow> valid_at cells e t' j"
          "ac_code rv = REG_ACCESS_SUCCESS \<longrightarrow> (\<forall>i \<in> set ix. valid_at cells e t' i)"
        using go [OF r1(2) n1] by blast
      have "sanitise_from e t (i # ix) = Some (rv, t')"
        using step True g(1) by simp
      with g(2-5) r1(4,5) True i show ?thesis
        by auto
    qed (use step r1 n1 in auto)
  qed
qed auto

end

end
