(* ===== verification/Register_Runs.thy ===== *)
theory Register_Runs
  imports Register_Laws
begin

text \<open>
  Register tables in use: memory areas keep the contract of \<open>area_backend\<close>, and the operations that change
  registers, in any order, keep every register at a value its validator accepts. The properties of this
  theory are about whole calls of the public functions; their witnesses use a table of two registers.
\<close>

section \<open>Memory areas\<close>

definition mem_cells :: "RegisterAreaData \<Rightarrow> RegisterAtom list" where
  "mem_cells a = (case ra_mem a of None \<Rightarrow> [] | Some m \<Rightarrow> m)"

interpretation mem: area_backend reg_mem_read reg_mem_write mem_cells
proof
  fix off n :: nat and a :: RegisterAreaData and d :: 'a and src :: "RegisterAtom list"
  assume room: "off + n \<le> length (mem_cells a)" and n: "0 < n"
  then obtain m where m: "ra_mem a = Some m" "off + n \<le> length m"
    by (auto simp: mem_cells_def split: option.splits)
  then show "reg_mem_read a d off n = Some (REG_ACCESS_RESULT_INIT, take n (drop off (mem_cells a)), d)"
    by (simp add: reg_mem_read_def mem_read_def mem_cells_def)
  assume "n \<le> length src"
  with m show "\<exists>m. reg_mem_write a d src off n = Some (REG_ACCESS_RESULT_INIT, a\<lparr>ra_mem := m\<rparr>, d) \<and>
      mem_cells (a\<lparr>ra_mem := m\<rparr>) = overwrite (mem_cells a) off (take n src)"
    by (intro exI [of _ "Some (overwrite m off (take n src))"])
      (simp add: reg_mem_write_def mem_read_def mem_write_overwrite mem_cells_def)
qed

section \<open>Operations in sequence\<close>

datatype register_op =
    Op_set nat RegisterValue
  | Op_bit_set nat RegisterValue
  | Op_bit_clear nat RegisterValue
  | Op_block_write nat nat "RegisterAtom list"
  | Op_sanitise
  | Op_touch nat
  | Op_untouch nat

fun run_op :: "endianness \<Rightarrow> 'd RegisterTable \<Rightarrow> register_op \<Rightarrow> 'd RegisterTable option" where
  "run_op e t (Op_set i v) = map_option snd (register_set e t i v)"
| "run_op e t (Op_bit_set i v) = map_option snd (register_bit_set e t i v)"
| "run_op e t (Op_bit_clear i v) = map_option snd (register_bit_clear e t i v)"
| "run_op e t (Op_block_write addr n buf) = map_option snd (register_block_write e t addr n buf)"
| "run_op e t Op_sanitise = map_option snd (register_sanitise e t)"
| "run_op e t (Op_touch i) = register_touch t i"
| "run_op e t (Op_untouch i) = register_untouch t i"

text \<open>
  Arguments the functions can be called with. A block must not wrap, must be within its buffer, and must not
  begin in the middle of a register.
\<close>

definition block_aligned :: "'d RegisterTable \<Rightarrow> nat \<Rightarrow> bool" where
  "block_aligned t addr \<longleftrightarrow> (\<forall>i < rt_entries t. case entry_at t i of None \<Rightarrow> True
     | Some x \<Rightarrow> \<not> (re_address x < addr \<and> addr < re_address x + rds_size (re_type x)))"

fun op_fits :: "'d RegisterTable \<Rightarrow> register_op \<Rightarrow> bool" where
  "op_fits t (Op_set i v) \<longleftrightarrow> i \<noteq> rt_entries t \<and> value_type (rv_value v) = rv_type v"
| "op_fits t (Op_bit_set i v) \<longleftrightarrow> value_type (rv_value v) = rv_type v"
| "op_fits t (Op_bit_clear i v) \<longleftrightarrow> value_type (rv_value v) = rv_type v"
| "op_fits t (Op_block_write addr n buf) \<longleftrightarrow> addr + n < 2 ^ 32 \<and> n \<le> length buf \<and> block_aligned t addr"
| "op_fits t Op_sanitise \<longleftrightarrow> True"
| "op_fits t (Op_touch i) \<longleftrightarrow> i < rt_entries t"
| "op_fits t (Op_untouch i) \<longleftrightarrow> i < rt_entries t"

inductive reg_step :: "endianness \<Rightarrow> 'd RegisterTable \<Rightarrow> 'd RegisterTable \<Rightarrow> bool" for e where
  step: "op_fits t op \<Longrightarrow> run_op e t op = Some t' \<Longrightarrow> reg_step e t t'"

lemma block_alignedD:
  "block_aligned t addr \<Longrightarrow> \<forall>i x. i < rt_entries t \<longrightarrow> entry_at t i = Some x \<longrightarrow>
     \<not> (re_address x < addr \<and> addr < re_address x + rds_size (re_type x))"
  by (auto simp: block_aligned_def split: option.splits)

lemma value_bit_set_kind:
  "value_type a = value_type b \<Longrightarrow> value_type a \<in> {REG_TYPE_UINT16, REG_TYPE_UINT32, REG_TYPE_UINT64} \<Longrightarrow>
     \<exists>c. value_bit_set a b = Some c \<and> value_type c = value_type a"
  by (cases a; cases b) auto

lemma value_bit_clear_kind:
  "value_type a = value_type b \<Longrightarrow> value_type a \<in> {REG_TYPE_UINT16, REG_TYPE_UINT32, REG_TYPE_UINT64} \<Longrightarrow>
     \<exists>c. value_bit_clear a b = Some c \<and> value_type c = value_type a"
  by (cases a; cases b) auto

lemma register_change_no_entry:
  "rt_entries t \<le> i \<Longrightarrow> \<exists>rv. register_change e t i v f = Some (rv, t)"
  by (auto simp: register_change_def register_get_def Let_def)

context area_backend
begin

lemma block_write_valid:
  assumes "table_ok rd wr cells t" "addr + n < 2 ^ 32" "n \<le> length buf" "block_aligned t addr"
  shows "\<exists>rv t'. register_block_write e t addr n buf = Some (rv, t') \<and> table_ok rd wr cells t' \<and>
     rt_entries t' = rt_entries t \<and> (\<forall>j < rt_entries t. valid_at cells e t j \<longrightarrow> valid_at cells e t' j)"
proof -
  obtain rv t1 t' where w: "register_block_write e t addr n buf = Some (rv, t')"
    "if ac_code rv = REG_ACCESS_SUCCESS
      then same_layout t t1 \<and> backed rd wr cells t1 \<and> retouched t1 t' \<and>
           (\<forall>a. addr \<le> a \<longrightarrow> a < addr + n \<longrightarrow> mapped t a) \<and>
           (\<forall>a. atom_at cells t1 a = (if addr \<le> a \<and> a < addr + n then buf ! (a - addr) else atom_at cells t a)) \<and>
           (\<forall>i x. i < rt_entries t \<longrightarrow> entry_at t i = Some x \<longrightarrow> addr \<le> re_address x \<longrightarrow> re_address x < addr + n \<longrightarrow>
              storable (written_value e t addr n buf x) \<and>
              rv_validate t x \<lparr>rv_type = re_type x, rv_value = written_value e t addr n buf x\<rparr> = Some True)
      else t' = t"
    using block_write_ok [OF assms(1-3) block_alignedD [OF assms(4)], of e] by blast
  show ?thesis
  proof (cases "ac_code rv = REG_ACCESS_SUCCESS")
    case False
    then show ?thesis
      using w assms(1) by auto
  next
    case True
    then have t1: "same_layout t t1" "backed rd wr cells t1" "retouched t1 t'"
       "\<And>a. atom_at cells t1 a = (if addr \<le> a \<and> a < addr + n then buf ! (a - addr) else atom_at cells t a)"
       "\<And>i x. i < rt_entries t \<Longrightarrow> entry_at t i = Some x \<Longrightarrow> addr \<le> re_address x \<Longrightarrow> re_address x < addr + n \<Longrightarrow>
          storable (written_value e t addr n buf x) \<and>
          rv_validate t x \<lparr>rv_type = re_type x, rv_value = written_value e t addr n buf x\<rparr> = Some True"
      using w(2) by auto
    have ok1: "table_ok rd wr cells t1"
      using table_ok_layout [OF assms(1) t1(1,2)] .
    have n1: "rt_entries t1 = rt_entries t"
      using same_layout_entries [OF t1(1)] by simp
    have "valid_at cells e t1 j" if j: "j < rt_entries t" "valid_at cells e t j" for j
    proof -
      obtain x where x: "entry_at t j = Some x"
        using table_okD [OF assms(1) j(1)] .
      show ?thesis
      proof (cases "addr \<le> re_address x \<and> re_address x < addr + n")
        case True
        have "atoms_at cells t1 (re_address x) (rds_size (re_type x)) =
            map (\<lambda>a. if addr \<le> a \<and> a < addr + n then buf ! (a - addr) else atom_at cells t a)
              [re_address x ..< re_address x + rds_size (re_type x)]"
          unfolding atoms_at_def using t1(4) by simp
        then have "stored_value cells e t1 x = written_value e t addr n buf x"
          using t1(1) by (simp add: stored_value_def written_value_def table_bigendian_def same_layout_def)
        then show ?thesis
          using t1(5) [OF j(1) x] True x same_layout_entries [OF t1(1)] validate_flags [of t1 t] t1(1)
          by (simp add: valid_at_def register_valid_def same_layout_def)
      next
        case False
        have "\<not> (re_address x < addr \<and> addr < re_address x + rds_size (re_type x))"
          using block_alignedD [OF assms(4)] j(1) x by blast
        then have "\<forall>a. re_address x \<le> a \<longrightarrow> a < re_address x + rds_size (re_type x) \<longrightarrow> atom_at cells t1 a = atom_at cells t a"
          using t1(4) False by auto
        then show ?thesis
          using valid_at_cong [OF t1(1) x] j(2) by simp
      qed
    qed
    then have "\<forall>j < rt_entries t. valid_at cells e t j \<longrightarrow> valid_at cells e t' j"
      using retouched_valid_at [OF t1(3) ok1] n1 by simp
    then show ?thesis
      using w(1) retouched_ok [OF t1(3) ok1] t1(3) n1 by (auto simp: retouched_def)
  qed
qed

lemma run_op_ok:
  assumes "table_ok rd wr cells t" "op_fits t op"
  shows "\<exists>t'. run_op e t op = Some t' \<and> table_ok rd wr cells t' \<and> rt_entries t' = rt_entries t \<and>
     (\<forall>j < rt_entries t. valid_at cells e t j \<longrightarrow> valid_at cells e t' j)"
proof (cases op)
  case (Op_set i v)
  have v: "value_type (rv_value v) = rv_type v" "i \<noteq> rt_entries t"
    using assms(2) Op_set by simp_all
  show ?thesis
  proof (cases "i < rt_entries t")
    case True
    then obtain x where "entry_at t i = Some x"
      using table_okD [OF assms(1)] by blast
    from set_ok [OF assms(1) True this v(1), of e] show ?thesis
      using Op_set same_layout_entries(2) by auto
  next
    case False
    then have "register_set e t i v = Some (access REG_ACCESS_NOENTRY i, t)"
      using v(2) assms(1) by (simp add: register_set_def register_setx_def table_ok_def)
    then show ?thesis
      using Op_set assms(1) by simp
  qed
next
  case (Op_bit_set i v)
  then have v: "value_type (rv_value v) = rv_type v"
    using assms(2) by simp
  have eq: "run_op e t op = map_option snd (register_change e t i v value_bit_set)"
    using Op_bit_set by (simp add: register_bit_set_def)
  show ?thesis
  proof (cases "i < rt_entries t")
    case True
    from change_ok [where e = e and f = value_bit_set, OF assms(1) True v value_bit_set_kind] show ?thesis
      unfolding eq using same_layout_entries(2) by auto
  next
    case False
    then obtain rv where "register_change e t i v value_bit_set = Some (rv, t)"
      using register_change_no_entry [of t i e v value_bit_set] by auto
    then show ?thesis
      unfolding eq using assms(1) by simp
  qed
next
  case (Op_bit_clear i v)
  then have v: "value_type (rv_value v) = rv_type v"
    using assms(2) by simp
  have eq: "run_op e t op = map_option snd (register_change e t i v value_bit_clear)"
    using Op_bit_clear by (simp add: register_bit_clear_def)
  show ?thesis
  proof (cases "i < rt_entries t")
    case True
    from change_ok [where e = e and f = value_bit_clear, OF assms(1) True v value_bit_clear_kind] show ?thesis
      unfolding eq using same_layout_entries(2) by auto
  next
    case False
    then obtain rv where "register_change e t i v value_bit_clear = Some (rv, t)"
      using register_change_no_entry [of t i e v value_bit_clear] by auto
    then show ?thesis
      unfolding eq using assms(1) by simp
  qed
next
  case (Op_block_write addr n buf)
  then show ?thesis
    using block_write_valid [OF assms(1), of addr n buf e] assms(2) by auto
next
  case Op_sanitise
  have "table_initialised t"
    using assms(1) by (simp add: table_ok_def)
  moreover have "set [0 ..< rt_entries t] \<subseteq> {..< rt_entries t}"
    by auto
  ultimately show ?thesis
    using sanitise_from_ok [OF assms(1), of "[0 ..< rt_entries t]" e] Op_sanitise by (auto simp: register_sanitise_def)
next
  case (Op_touch i)
  then obtain x where "entry_at t i = Some x"
    using table_okD [OF assms(1), of i] assms(2) by auto
  then obtain t' where "register_touch t i = Some t'" "retouched t t'"
    using touch_ok(1) by blast
  then show ?thesis
    using Op_touch retouched_ok [OF _ assms(1)] retouched_valid_at [OF _ assms(1)] by (auto simp: retouched_def)
next
  case (Op_untouch i)
  then obtain x where "entry_at t i = Some x"
    using table_okD [OF assms(1), of i] assms(2) by auto
  then obtain t' where "register_untouch t i = Some t'" "retouched t t'"
    using touch_ok(2) by blast
  then show ?thesis
    using Op_untouch retouched_ok [OF _ assms(1)] retouched_valid_at [OF _ assms(1)] by (auto simp: retouched_def)
qed

lemma reg_steps_ok:
  assumes "(reg_step e)\<^sup>*\<^sup>* t t'" "table_ok rd wr cells t" "all_valid cells e t"
  shows "table_ok rd wr cells t' \<and> all_valid cells e t'"
  using assms
proof (induction rule: rtranclp_induct)
  case (step t1 t2)
  then have ok: "table_ok rd wr cells t1" "all_valid cells e t1"
    by auto
  from step.hyps(2) obtain op where "op_fits t1 op" "run_op e t1 op = Some t2"
    by (auto elim: reg_step.cases)
  with run_op_ok [OF ok(1), of op e] ok(2) show ?case
    by (auto simp: all_valid_def)
qed simp

lemma all_valid_get:
  assumes "table_ok rd wr cells t" "all_valid cells e t" "i < rt_entries t"
  shows "\<exists>x y. entry_at t i = Some x \<and> register_get e t i v = Some (REG_ACCESS_RESULT_INIT, y, t) \<and>
     (re_check x = REGV_TYPE_FAIL \<or> rv_validate t x y = Some True)"
proof -
  obtain x where x: "entry_at t i = Some x"
    using table_okD [OF assms(1,3)] .
  then have "register_valid cells e t x"
    using assms(2,3) by (simp add: all_valid_def valid_at_def) (metis option.simps(5))
  then show ?thesis
    using get_ok [OF assms(1,3) x, of e v] x by (simp add: register_valid_def)
qed

end

section \<open>Properties\<close>

lemma mapped_iff:
  assumes "areas_ok t"
  shows "ra_find_area_by_addr t addr = Some (rt_areas t) \<longleftrightarrow> \<not> mapped t addr"
proof (cases "mapped t addr")
  case True
  then obtain i where "holds t i addr" "i < rt_areas t"
    by (auto simp: mapped_def)
  with True find_area_holds [OF assms(1)] show ?thesis
    by auto
qed (simp add: find_area_hole [OF assms])

text \<open>The test for memory holes is exact: for areas in order it succeeds if every address of the block is in an
  area, and otherwise names the first address that is in none. It always ends.\<close>

theorem register_holes_exact:
  assumes "areas_ok t" and "addr + n < 2 ^ 32"
  shows "\<exists>rv. register_block_touches_hole t addr n = Some rv \<and>
     (if \<exists>a. addr \<le> a \<and> a < addr + n \<and> ra_find_area_by_addr t a = Some (rt_areas t)
      then rv = access REG_ACCESS_NOENTRY (LEAST a. addr \<le> a \<and> ra_find_area_by_addr t a = Some (rt_areas t))
      else rv = REG_ACCESS_RESULT_INIT)"
  using touches_hole_eq [OF assms]
proof (elim disjE exE conjE)
  fix h assume h: "addr \<le> h" "h < addr + n" "\<not> mapped t h" "\<forall>b. addr \<le> b \<longrightarrow> b < h \<longrightarrow> mapped t b"
    "register_block_touches_hole t addr n = Some (access REG_ACCESS_NOENTRY h)"
  then have "(LEAST a. addr \<le> a \<and> \<not> mapped t a) = h"
    by (intro Least_equality) (auto simp: not_less [symmetric])
  with h show ?thesis
    by (auto simp: mapped_iff [OF assms(1)])
qed (auto simp: mapped_iff [OF assms(1)])

text \<open>C18. Setting and reading registers: a value is refused, with nothing changed, if the validator rejects it, if
  the area cannot be written, or if it is a floating point value other than a zero or a normal number, in this
  order; otherwise it is read back, and every other register reads as before.\<close>

theorem register_set_get:
  assumes "area_backend rd wr cells" and "table_ok rd wr cells t"
    and "i < rt_entries t" and "entry_at t i = Some x" and "area_at t (the (re_area x)) = Some a"
    and "value_type (rv_value v) = rv_type v"
  shows "\<exists>rv t'. register_set e t i v = Some (rv, t') \<and>
     rv = (if rv_validate t x v \<noteq> Some True then access REG_ACCESS_RANGE (re_address x)
           else if \<not> register_area_can_write a then access REG_ACCESS_READONLY (re_address x)
           else if \<not> storable (rv_value v) then access REG_ACCESS_INVALID (re_address x)
           else REG_ACCESS_RESULT_INIT) \<and>
     (if ac_code rv = REG_ACCESS_SUCCESS
      then register_get e t' i u = Some (REG_ACCESS_RESULT_INIT, v, t') \<and>
           (\<forall>j < rt_entries t. j \<noteq> i \<longrightarrow> (\<exists>r y. register_get e t j u = Some (r, y, t) \<and> register_get e t' j u = Some (r, y, t')))
      else t' = t)"
proof -
  note backend = assms(1)
  obtain rv t' where s: "register_set e t i v = Some (rv, t')" "table_ok rd wr cells t'" "same_layout t t'"
     "if ac_code rv = REG_ACCESS_SUCCESS
      then re_type x = rv_type v \<and> rv_validate t x v = Some True \<and> storable (rv_value v) \<and> valid_at cells e t' i \<and>
           stored_value cells e t' x = rv_value v \<and>
           (\<forall>b. \<not> (re_address x \<le> b \<and> b < re_address x + rds_size (re_type x)) \<longrightarrow>
              atom_at cells t' b = atom_at cells t b)
      else t' = t"
    using area_backend.set_ok [OF backend assms(2-4,6), of e] by blast
  have rv: "rv = (if rv_validate t x v \<noteq> Some True then access REG_ACCESS_RANGE (re_address x)
           else if \<not> register_area_can_write a then access REG_ACCESS_READONLY (re_address x)
           else if \<not> storable (rv_value v) then access REG_ACCESS_INVALID (re_address x)
           else REG_ACCESS_RESULT_INIT)"
  proof (cases "rv_validate t x v = Some True")
    case True
    then have kind: "value_type (rv_value v) = re_type x"
      using assms(6) by (auto simp: rv_validate_def split: if_splits)
    show ?thesis
      using area_backend.setx_ok [OF backend assms(2-5) kind, of True e] True s(1)
      by (auto simp: register_set_def register_area_can_write_def split: if_splits)
  next
    case False
    moreover obtain ok where "rv_validate t x v = Some ok"
      using validate_defined [OF _ assms(6)] table_ok_entry [OF assms(2-4)] by (auto simp: entry_ok_def)
    ultimately have "register_set e t i v = Some (access REG_ACCESS_RANGE (re_address x), t)"
      using assms(2-4) by (cases ok) (simp_all add: register_set_def register_setx_def table_ok_def)
    with False s(1) show ?thesis
      by simp
  qed
  show ?thesis
  proof (cases "ac_code rv = REG_ACCESS_SUCCESS")
    case True
    have n: "rt_entries t' = rt_entries t" "entry_at t' = entry_at t"
      using same_layout_entries [OF s(3)] by (simp_all add: fun_eq_iff)
    have "register_get e t' i u = Some (REG_ACCESS_RESULT_INIT, \<lparr>rv_type = rv_type v, rv_value = rv_value v\<rparr>, t')"
      using area_backend.get_ok [OF backend s(2), of i x e u] n assms(3,4) s(4) True by simp
    then have "register_get e t' i u = Some (REG_ACCESS_RESULT_INIT, v, t')"
      by simp
    moreover have "\<exists>r y. register_get e t j u = Some (r, y, t) \<and> register_get e t' j u = Some (r, y, t')"
      if j: "j < rt_entries t" "j \<noteq> i" for j
    proof -
      obtain y where y: "entry_at t j = Some y"
        using table_okD [OF assms(2) j(1)] .
      have "\<forall>a. re_address y \<le> a \<longrightarrow> a < re_address y + rds_size (re_type y) \<longrightarrow> atom_at cells t' a = atom_at cells t a"
        using s(4) True table_ok_apart [OF assms(2,4) y _ assms(3) j(1)] j(2) by auto
      from stored_value_cong [OF s(3) this, of e] show ?thesis
        using area_backend.get_ok [OF backend assms(2) j(1) y, of e u] area_backend.get_ok [OF backend s(2), of j y e u] n j(1) y
        by simp
    qed
    ultimately have "if ac_code rv = REG_ACCESS_SUCCESS
      then register_get e t' i u = Some (REG_ACCESS_RESULT_INIT, v, t') \<and>
           (\<forall>j < rt_entries t. j \<noteq> i \<longrightarrow> (\<exists>r y. register_get e t j u = Some (r, y, t) \<and> register_get e t' j u = Some (r, y, t')))
      else t' = t"
      unfolding if_P [OF True] by blast
    with s(1) rv show ?thesis
      by blast
  next
    case False
    then have t': "t' = t"
      using s(4) by simp
    show ?thesis
      by (rule exI [of _ rv], rule exI [of _ t'], intro conjI, rule s(1), rule rv) (simp only: t' False if_False)
  qed
qed

text \<open>C7. No sequence of operations that fit the table can bring a register from a valid value to one that its
  validator rejects: after any number of single writes, changes of bits, block writes, sanitising and touching, every
  register can be read and its value is valid, and every call that fits returns. A call fits when its value is in the
  member of the union that its type names, its handle is not the number of entries, which the code takes for a register,
  and its block is as long as announced, ends below the end of the address space and does not begin within a register,
  where the code overruns its local array.\<close>

theorem registers_stay_valid:
  assumes "area_backend rd wr cells" and "table_ok rd wr cells t" and "all_valid cells e t"
    and "(reg_step e)\<^sup>*\<^sup>* t t'"
  shows "(\<forall>i < rt_entries t'. \<exists>x y. entry_at t' i = Some x \<and> register_get e t' i u = Some (REG_ACCESS_RESULT_INIT, y, t') \<and>
        (re_check x = REGV_TYPE_FAIL \<or> rv_validate t' x y = Some True)) \<and>
     (\<forall>op. op_fits t' op \<longrightarrow> (\<exists>t2. run_op e t' op = Some t2))"
proof -
  have ok: "table_ok rd wr cells t'" "all_valid cells e t'"
    using area_backend.reg_steps_ok [OF assms(1,4,2,3)] by auto
  show ?thesis
    using area_backend.all_valid_get [OF assms(1) ok] area_backend.run_op_ok [OF assms(1) ok(1)] by blast
qed

definition block_readable :: "'d RegisterTable \<Rightarrow> nat \<Rightarrow> nat \<Rightarrow> bool" where
  "block_readable t addr n \<longleftrightarrow> (\<forall>i < rt_areas t. case area_at t i of None \<Rightarrow> True
     | Some a \<Rightarrow> ra_base a < addr + n \<longrightarrow> addr < ra_base a + ra_size a \<longrightarrow> BIT_ISSET (ra_flags a) REG_AF_READABLE)"

text \<open>C19. Block writes that do not begin within a register, below the end of the address space: one that is refused
  changes nothing. One that succeeds puts exactly the atoms of the block in their places, also across areas, and no other
  atom of the memory changes; registers outside of the block read as before; and where all areas of the block are
  readable, the block is read back as it was written.\<close>

theorem register_block_roundtrip:
  assumes "area_backend rd wr cells" and "table_ok rd wr cells t" and "addr + n < 2 ^ 32"
    and "n \<le> length buf" and "n \<le> length out" and "block_aligned t addr"
  shows "\<exists>rv t'. register_block_write e t addr n buf = Some (rv, t') \<and>
     (if ac_code rv = REG_ACCESS_SUCCESS
      then (block_readable t addr n \<longrightarrow>
              register_block_read t' addr n out = Some (REG_ACCESS_RESULT_INIT, take n buf @ drop n out, t')) \<and>
           (\<forall>a. atom_at cells t' a = (if addr \<le> a \<and> a < addr + n then buf ! (a - addr) else atom_at cells t a)) \<and>
           (\<forall>i x. i < rt_entries t \<longrightarrow> entry_at t i = Some x \<longrightarrow>
              re_address x + rds_size (re_type x) \<le> addr \<or> addr + n \<le> re_address x \<longrightarrow>
              (\<exists>r y. register_get e t i u = Some (r, y, t) \<and> register_get e t' i u = Some (r, y, t')))
      else t' = t)"
proof -
  note backend = assms(1)
  obtain rv t1 t' where w: "register_block_write e t addr n buf = Some (rv, t')"
    "if ac_code rv = REG_ACCESS_SUCCESS
      then same_layout t t1 \<and> backed rd wr cells t1 \<and> retouched t1 t' \<and>
           (\<forall>a. addr \<le> a \<longrightarrow> a < addr + n \<longrightarrow> mapped t a) \<and>
           (\<forall>a. atom_at cells t1 a = (if addr \<le> a \<and> a < addr + n then buf ! (a - addr) else atom_at cells t a)) \<and>
           (\<forall>i x. i < rt_entries t \<longrightarrow> entry_at t i = Some x \<longrightarrow> addr \<le> re_address x \<longrightarrow> re_address x < addr + n \<longrightarrow>
              storable (area_backend.written_value cells e t addr n buf x) \<and>
              rv_validate t x \<lparr>rv_type = re_type x, rv_value = area_backend.written_value cells e t addr n buf x\<rparr> = Some True)
      else t' = t"
    using area_backend.block_write_ok [OF backend assms(2-4) block_alignedD [OF assms(6)], of e] by blast
  show ?thesis
  proof (cases "ac_code rv = REG_ACCESS_SUCCESS")
    case True
    then have t1: "same_layout t t1" "backed rd wr cells t1" "retouched t1 t'" "\<forall>a. addr \<le> a \<longrightarrow> a < addr + n \<longrightarrow> mapped t a"
       "\<forall>a. atom_at cells t1 a = (if addr \<le> a \<and> a < addr + n then buf ! (a - addr) else atom_at cells t a)"
      using w(2) by auto
    have ok1: "table_ok rd wr cells t1" and ok': "table_ok rd wr cells t'"
      using table_ok_layout [OF assms(2) t1(1,2)] retouched_ok [OF t1(3)] by auto
    have b: "backed rd wr cells t'" "table_initialised t'" and areas: "areas_ok t" "areas_ok t1" "areas_ok t'"
      using ok' ok1 assms(2) by (auto simp: table_ok_def backed_def)
    have at: "area_at t' = area_at t1" "rt_areas t' = rt_areas t" "atom_at cells t' = atom_at cells t1"
      using retouched_areas [OF t1(3)] t1(1,3) by (simp_all add: retouched_def same_layout_def)
    have map1: "mapped t' a = mapped t a" for a
      using same_layout_mapped [OF t1(1) areas(1), of a] at(1,2) t1(1) by (simp add: mapped_def holds_def same_layout_def)
    have rdable: "\<forall>i a. i < rt_areas t' \<longrightarrow> area_at t' i = Some a \<longrightarrow> ra_base a < addr + n \<longrightarrow> addr < ra_base a + ra_size a \<longrightarrow>
        BIT_ISSET (ra_flags a) REG_AF_READABLE" if "block_readable t addr n"
    proof (intro allI impI)
      fix i a' assume i: "i < rt_areas t'" "area_at t' i = Some a'" "ra_base a' < addr + n" "addr < ra_base a' + ra_size a'"
      then have it: "i < rt_areas t"
        using at by simp
      obtain a m where "area_at t i = Some a" "area_at t1 i = Some (a\<lparr>ra_mem := m\<rparr>)"
        using areas_okD [OF areas(1) it] t1(1) it unfolding same_layout_def by metis
      then show "BIT_ISSET (ra_flags a') REG_AF_READABLE"
        using that i it at(1) by (auto simp: block_readable_def split: option.splits)
    qed
    have maps: "\<forall>a. addr \<le> a \<longrightarrow> a < addr + n \<longrightarrow> mapped t' a"
      using t1(4) map1 by simp
    have "atoms_at cells t' addr n = take n buf"
      using t1(5) at(3) assms(4) by (intro nth_equalityI) (simp_all add: atoms_at_def)
    moreover have "register_block_touches_hole t' addr n = Some REG_ACCESS_RESULT_INIT"
      using touches_hole_eq [OF areas(3) assms(3)] maps by auto
    ultimately have read: "register_block_read t' addr n out = Some (REG_ACCESS_RESULT_INIT, take n buf @ drop n out, t')"
      if "block_readable t addr n"
      using that area_backend.block_read_loop_ok [OF backend b(1) assms(3) _ maps, of 0 out] rdable b(2) assms(4,5)
      by (auto simp: register_block_read_def register_block_read_unsafe_def REG_ACCESS_RESULT_INIT_def overwrite_def)
    have "\<exists>r y. register_get e t i u = Some (r, y, t) \<and> register_get e t' i u = Some (r, y, t')"
      if i: "i < rt_entries t" "entry_at t i = Some x" "re_address x + rds_size (re_type x) \<le> addr \<or> addr + n \<le> re_address x" for i x
    proof -
      have same: "\<forall>a. re_address x \<le> a \<longrightarrow> a < re_address x + rds_size (re_type x) \<longrightarrow> atom_at cells t1 a = atom_at cells t a"
        using i(3) t1(5) by auto
      have i1: "i < rt_entries t1" "entry_at t1 i = Some x" "i < rt_entries t'"
        using same_layout_entries [OF t1(1)] i(1,2) t1(3) by (simp_all add: retouched_def)
      then obtain f where x': "entry_at t' i = Some (x\<lparr>re_flags := f\<rparr>)"
        using t1(3) unfolding retouched_def by metis
      have "stored_value cells e t' (x\<lparr>re_flags := f\<rparr>) = stored_value cells e t x"
        using stored_value_cong [OF t1(1) same, of e] t1(3) at(3)
        by (simp add: stored_value_def atoms_at_def table_bigendian_def retouched_def)
      then show ?thesis
        using area_backend.get_ok [OF backend assms(2) i(1,2), of e u] area_backend.get_ok [OF backend ok' i1(3) x', of e u]
        by simp
    qed
    then show ?thesis
      using w(1) read True t1(5) at(3) by (intro exI [of _ rv] exI [of _ t']) simp
  next
    case False
    then have "t' = t"
      using w(2) by simp
    then show ?thesis
      using w(1) False by (intro exI [of _ rv] exI [of _ t]) simp
  qed
qed

text \<open>
  Blocks that begin within a register. The third atom of a register of four atoms can be written without being
  validated: no atom of the block is put into the value that is checked. And a block that begins at the second
  atom and covers the rest puts four atoms behind the first one, one more than the local array has.
\<close>

lemma overlap_within_register:
  assumes "re_type x = REG_TYPE_UINT64" "re_address x + 4 < 2 ^ 32"
  shows "write_overlap x (re_address x + 2) 1 = (0, 2, 0)"
    and "write_overlap x (re_address x + 1) 3 = (0, 1, 4)"
  using assms by (simp_all add: write_overlap_def Let_def)

text \<open>
  Iteration over a range finds its first register only by an address that belongs to it. If there is none at the
  beginning of the range, nothing is run, whatever registers are behind it; so nothing is ever run for a range
  that begins at the largest address, which is how the code's comment says to iterate over all registers.
\<close>

lemma find_reg_none:
  "\<forall>i \<in> set ix. \<exists>x. entry_at t i = Some x \<and> reg_range_touches x addr 1 \<noteq> 0 \<Longrightarrow> find_reg t addr ix = Some None"
  by (induction ix) auto

lemma find_area_some:
  assumes "\<forall>i \<in> set ix. \<exists>a. area_at t i = Some a"
  shows "\<exists>r. find_area t addr ix = Some r \<and> (\<forall>i. r = Some i \<longrightarrow> i \<in> set ix)"
  using assms by (induction ix) auto

lemma foreach_needs_register:
  assumes "table_initialised t" "areas_ok t" "0 < rt_areas t" "rt_entries t < 2 ^ 32"
    and "\<forall>i < rt_areas t. \<forall>a. area_at t i = Some a \<longrightarrow> ra_last a < rt_entries t"
    and "\<forall>i < rt_entries t. \<exists>x. entry_at t i = Some x \<and> reg_range_touches x addr 1 \<noteq> 0"
  shows "register_foreach_in t addr off f arg = Some (access REG_ACCESS_SUCCESS 0, t, arg)"
proof (cases "off = 0 \<or> rt_entries t = 0")
  case False
  have few: "rt_areas t < 2 ^ 16"
    using assms(2) by (simp add: areas_ok_def)
  have n: "Suc (ad_sub (rt_areas t) 1 mod 2 ^ 16) = rt_areas t" "Suc (ad_sub (rt_entries t) 1) = rt_entries t"
    using assms(3,4) few False by simp_all
  have "\<forall>i \<in> set [0 ..< rt_areas t]. \<exists>a. area_at t i = Some a"
    using areas_okD [OF assms(2)] by (metis atLeastLessThan_iff set_upt)
  then obtain r where r: "find_area t addr [0 ..< rt_areas t] = Some r" "\<forall>i. r = Some i \<longrightarrow> i < rt_areas t"
    using find_area_some [of "[0 ..< rt_areas t]" t addr] by auto
  show ?thesis
  proof (cases r)
    case None
    have "find_reg t addr [0 ..< rt_entries t] = Some None"
      using assms(6) by (intro find_reg_none) simp
    then show ?thesis
      using r(1) None False n assms(1) by (simp add: register_foreach_in_def)
  next
    case (Some i)
    then obtain a where a: "area_at t i = Some a" "ra_last a < rt_entries t"
      using areas_okD [OF assms(2)] assms(5) r(2) by metis
    have "find_reg t addr [ra_first a ..< Suc (ra_last a)] = Some None"
      using assms(6) a(2) by (intro find_reg_none) auto
    then show ?thesis
      using r(1) Some False n assms(1) a(1) by (simp add: register_foreach_in_def del: upt_Suc)
  qed
qed (use assms(1) in \<open>simp add: register_foreach_in_def\<close>)

lemma last_address_touches_nothing:
  "re_address x + rds_size (re_type x) < 2 ^ 32 \<Longrightarrow> reg_range_touches x (2 ^ 32 - 1) 1 \<noteq> 0"
  by (simp add: reg_range_touches_def)

section \<open>Witnesses\<close>

definition some_area :: "unit RegisterArea" where
  "some_area = \<lparr>ra_flags = 3, ra_base = 16, ra_size = 8, ra_first = 0, ra_last = 1, ra_count = 2,
     ra_mem = Some [0, 0, 0, 0, 0, 0, 0, 0], ra_read = Some reg_mem_read, ra_write = Some reg_mem_write\<rparr>"

definition area_end :: "unit RegisterArea" where
  "area_end = \<lparr>ra_flags = 0, ra_base = 0, ra_size = 0, ra_first = 0, ra_last = 0, ra_count = 0, ra_mem = None,
     ra_read = None, ra_write = None\<rparr>"

definition some_entry :: RegisterEntry where
  "some_entry = \<lparr>re_type = REG_TYPE_UINT16, re_default = U16 0, re_address = 16, re_area = Some 0, re_offset = 0,
     re_name = None, re_flags = 0, re_user = 0, re_check = REGV_TYPE_MAX (U16 100)\<rparr>"

definition other_entry :: RegisterEntry where
  "other_entry = \<lparr>re_type = REG_TYPE_UINT32, re_default = U32 0, re_address = 18, re_area = Some 0, re_offset = 2,
     re_name = None, re_flags = 0, re_user = 0, re_check = REGV_TYPE_TRIVIAL\<rparr>"

definition entry_end :: RegisterEntry where
  "entry_end = \<lparr>re_type = REG_TYPE_INVALID, re_default = U16 0, re_address = 0, re_area = None, re_offset = 0,
     re_name = None, re_flags = 0, re_user = 0, re_check = REGV_TYPE_TRIVIAL\<rparr>"

definition some_table :: "unit RegisterTable" where
  "some_table = \<lparr>rt_flags = 1, rt_areas = 1, rt_area = Some [some_area, area_end], rt_entries = 2,
     rt_entry = Some [some_entry, other_entry, entry_end], rt_world = ()\<rparr>"

lemma some_table_fields:
  "rt_areas some_table = 1" "rt_entries some_table = 2" "rt_flags some_table = 1"
  "area_at some_table 0 = Some some_area" "entry_at some_table 0 = Some some_entry" "entry_at some_table (Suc 0) = Some other_entry"
  by (simp_all add: some_table_def area_at_def entry_at_def)

lemma below_two: "i < 2 \<Longrightarrow> i = 0 \<or> i = Suc 0"
  by auto

lemma some_table_areas: "areas_ok some_table"
  by (simp add: areas_ok_def some_table_fields some_area_def)

lemma some_table_ok: "table_ok reg_mem_read reg_mem_write mem_cells some_table"
proof -
  have "backed reg_mem_read reg_mem_write mem_cells some_table"
    using some_table_areas by (simp add: backed_def some_table_fields some_area_def area_data_def mem_cells_def RegisterAreaData.defs)
  moreover have "entry_ok some_table some_entry" "entry_ok some_table other_entry"
    by (simp_all add: entry_ok_def check_matches_def some_entry_def other_entry_def some_table_fields some_area_def)
  ultimately show ?thesis
    by (auto simp: table_ok_def table_initialised_def BIT_ISSET_def REG_TF_INITIALISED_def some_table_fields
        some_entry_def other_entry_def dest!: below_two)
qed

lemma some_table_atoms: "atom_at mem_cells some_table a = 0"
proof (cases "mapped some_table a")
  case True
  then obtain i x where i: "holds some_table i a" "i < rt_areas some_table" "area_at some_table i = Some x" "ra_base x \<le> a"
      "a < ra_base x + ra_size x"
    by (rule mappedE)
  then have "x = some_area"
    by (simp add: some_table_fields)
  moreover have "k < 8 \<Longrightarrow> replicate 8 (0 :: RegisterAtom) ! k = 0" for k
    by simp
  moreover have "mem_cells (area_data some_area) = replicate 8 0"
    by (simp add: some_area_def area_data_def mem_cells_def RegisterAreaData.defs eval_nat_numeral)
  ultimately show ?thesis
    using atom_at_area [OF some_table_areas i(1,3), of mem_cells] i(4,5) by (simp add: some_area_def)
qed (simp add: atom_at_hole [OF some_table_areas])

lemma some_table_values:
  "stored_value mem_cells e some_table some_entry = U16 0" "stored_value mem_cells e some_table other_entry = U32 0"
proof -
  have "atom_octets e (replicate n 0) = replicate (2 * n) 0" for n
    by (induction n) (simp_all add: atom_octets_def obj_octets_def host_octets_def be_octets_def le_octets_def
        map_replicate_const numeral_2_eq_2 split: endianness.split)
  moreover have "ordered_value b (replicate n 0) = 0" for b n
  proof -
    have "le_value (replicate n 0) = 0" for n
      by (induction n) simp_all
    then show ?thesis
      by (simp add: ordered_value_def be_value_def)
  qed
  moreover have "atoms_at mem_cells some_table addr n = replicate n 0" for addr n
    by (rule nth_equalityI) (simp_all add: atoms_at_def some_table_atoms)
  ultimately have "ordered_value b (atom_octets e (atoms_at mem_cells some_table addr n)) = 0" for b addr n
    by simp
  then show "stored_value mem_cells e some_table some_entry = U16 0" "stored_value mem_cells e some_table other_entry = U32 0"
    by (simp_all add: stored_value_def atoms_value_def some_entry_def other_entry_def del: One_nat_def)
qed

lemma some_table_valid: "all_valid mem_cells e some_table"
  unfolding all_valid_def
proof (intro allI impI)
  fix i assume "i < rt_entries some_table"
  then have "i = 0 \<or> i = Suc 0"
    using below_two by (simp add: some_table_fields)
  moreover have "register_valid mem_cells e some_table some_entry" "register_valid mem_cells e some_table other_entry"
    unfolding register_valid_def some_table_values
    by (simp_all add: some_entry_def other_entry_def rv_validate_def rv_check_max_def rv_check_max_value_def)
  ultimately show "valid_at mem_cells e some_table i"
    by (auto simp: valid_at_def some_table_fields)
qed

lemma register_holes_exact_witness:
  "\<exists>rv. register_block_touches_hole some_table 20 8 = Some rv \<and>
     (if \<exists>a. 20 \<le> a \<and> a < 20 + 8 \<and> ra_find_area_by_addr some_table a = Some (rt_areas some_table)
      then rv = access REG_ACCESS_NOENTRY (LEAST a. 20 \<le> a \<and> ra_find_area_by_addr some_table a = Some (rt_areas some_table))
      else rv = REG_ACCESS_RESULT_INIT)"
  by (rule register_holes_exact [OF some_table_areas]) simp

lemma register_set_get_witness:
  "\<exists>rv t'. register_set SYSTEM_ENDIANNESS_LITTLE some_table 0 \<lparr>rv_type = REG_TYPE_UINT16, rv_value = U16 7\<rparr> = Some (rv, t') \<and>
     rv = (if rv_validate some_table some_entry \<lparr>rv_type = REG_TYPE_UINT16, rv_value = U16 7\<rparr> \<noteq> Some True
             then access REG_ACCESS_RANGE (re_address some_entry)
           else if \<not> register_area_can_write some_area then access REG_ACCESS_READONLY (re_address some_entry)
           else if \<not> storable (rv_value \<lparr>rv_type = REG_TYPE_UINT16, rv_value = U16 7\<rparr>) then access REG_ACCESS_INVALID (re_address some_entry)
           else REG_ACCESS_RESULT_INIT) \<and>
     (if ac_code rv = REG_ACCESS_SUCCESS
      then register_get SYSTEM_ENDIANNESS_LITTLE t' 0 no_value =
             Some (REG_ACCESS_RESULT_INIT, \<lparr>rv_type = REG_TYPE_UINT16, rv_value = U16 7\<rparr>, t') \<and>
           (\<forall>j < rt_entries some_table. j \<noteq> 0 \<longrightarrow>
              (\<exists>r y. register_get SYSTEM_ENDIANNESS_LITTLE some_table j no_value = Some (r, y, some_table) \<and>
                 register_get SYSTEM_ENDIANNESS_LITTLE t' j no_value = Some (r, y, t')))
      else t' = some_table)"
  by (rule register_set_get [OF mem.area_backend_axioms some_table_ok _ some_table_fields(5)])
    (simp_all add: some_table_fields some_entry_def)

lemma registers_stay_valid_witness:
  "\<exists>t'. reg_step SYSTEM_ENDIANNESS_BIG some_table t' \<and>
     (\<forall>i < rt_entries t'. \<exists>x y. entry_at t' i = Some x \<and>
        register_get SYSTEM_ENDIANNESS_BIG t' i no_value = Some (REG_ACCESS_RESULT_INIT, y, t') \<and>
        (re_check x = REGV_TYPE_FAIL \<or> rv_validate t' x y = Some True)) \<and>
     (\<forall>op. op_fits t' op \<longrightarrow> (\<exists>t2. run_op SYSTEM_ENDIANNESS_BIG t' op = Some t2))"
proof -
  let ?op = "Op_block_write 16 2 [99, 3]"
  have fits: "op_fits some_table ?op"
    by (auto simp: block_aligned_def some_table_fields some_entry_def other_entry_def dest!: below_two)
  obtain t' where "run_op SYSTEM_ENDIANNESS_BIG some_table ?op = Some t'"
    using mem.run_op_ok [OF some_table_ok fits, of SYSTEM_ENDIANNESS_BIG] by blast
  then have step: "reg_step SYSTEM_ENDIANNESS_BIG some_table t'"
    using fits by (rule reg_step.step [rotated])
  from registers_stay_valid [OF mem.area_backend_axioms some_table_ok some_table_valid r_into_rtranclp [where r = "reg_step _", OF step]] step
  show ?thesis
    by blast
qed

lemma some_table_readable: "block_readable some_table 16 4"
  by (simp add: block_readable_def some_table_fields some_area_def BIT_ISSET_def REG_AF_READABLE_def)

lemma register_block_roundtrip_witness:
  "\<exists>rv t'. register_block_write SYSTEM_ENDIANNESS_LITTLE some_table 16 4 [1, 2, 3, 4] = Some (rv, t') \<and>
     (if ac_code rv = REG_ACCESS_SUCCESS
      then register_block_read t' 16 4 [0, 0, 0, 0, 9] = Some (REG_ACCESS_RESULT_INIT, [1, 2, 3, 4, 9], t') \<and>
           atom_at mem_cells t' 17 = 2 \<and> atom_at mem_cells t' 20 = atom_at mem_cells some_table 20
      else t' = some_table)"
proof -
  have "block_aligned some_table 16"
    by (auto simp: block_aligned_def some_table_fields some_entry_def other_entry_def dest!: below_two)
  note roundtrip = register_block_roundtrip [OF mem.area_backend_axioms some_table_ok _ _ _ this,
      of 4 "[1, 2, 3, 4]" "[0, 0, 0, 0, 9]" SYSTEM_ENDIANNESS_LITTLE no_value]
  obtain rv t' where w: "register_block_write SYSTEM_ENDIANNESS_LITTLE some_table 16 4 [1, 2, 3, 4] = Some (rv, t')"
    "if ac_code rv = REG_ACCESS_SUCCESS
     then (block_readable some_table 16 4 \<longrightarrow> register_block_read t' 16 4 [0, 0, 0, 0, 9] =
             Some (REG_ACCESS_RESULT_INIT, take 4 [1, 2, 3, 4] @ drop 4 [0, 0, 0, 0, 9], t')) \<and>
          (\<forall>a. atom_at mem_cells t' a = (if 16 \<le> a \<and> a < 16 + 4 then [1, 2, 3, 4] ! (a - 16) else atom_at mem_cells some_table a))
     else t' = some_table"
    by (rule exE [OF roundtrip], simp, simp, simp, elim exE conjE) (rule that, assumption, simp split: if_splits)
  show ?thesis
  proof (cases "ac_code rv = REG_ACCESS_SUCCESS")
    case True
    then have "atom_at mem_cells t' 17 = 2" "atom_at mem_cells t' 20 = atom_at mem_cells some_table 20"
      using w(2) by simp_all
    then show ?thesis
      using True w some_table_readable by simp
  next
    case False
    then show ?thesis
      using w by auto
  qed
qed

end
