(* ===== verification/Register_Init.thy ===== *)
theory Register_Init
  imports Register_Runs
begin

text \<open>
  Initialisation of register tables: \<open>register_init\<close> checks the order of areas and registers, clears the memory,
  links each register to the area that holds it and loads the defaults. The lemmas follow its steps; the property
  says that a table it accepts is well-formed, holds its defaults, and that one it refuses cannot be used.
\<close>

section \<open>Flags\<close>

lemma isset_bit:
  "BIT_ISSET w 1 = bit w 0" "BIT_ISSET w 2 = bit w 1" "BIT_ISSET w 4 = bit w 2" for w :: u16
proof -
  have p: "BIT_ISSET w (2 ^ k) = bit w k" if "k < 16" for k and w :: u16
    unfolding BIT_ISSET_def
  proof
    assume eq: "w AND 2 ^ k = 2 ^ k"
    have "bit (2 ^ k :: u16) k"
      using that by (simp add: bit_exp_iff)
    then have "bit (w AND 2 ^ k) k"
      by (simp only: eq)
    then show "bit w k"
      by (simp add: bit_and_iff)
  next
    assume "bit w k"
    then show "w AND 2 ^ k = 2 ^ k"
      by (intro bit_word_eqI) (auto simp: bit_and_iff bit_exp_iff)
  qed
  show "BIT_ISSET w 1 = bit w 0" "BIT_ISSET w 2 = bit w 1" "BIT_ISSET w 4 = bit w 2"
    using p [of 0 w] p [of 1 w] p [of 2 w] by simp_all
qed

lemma bit_of_flags:
  "bit (1 :: u16) n = (n = 0)" "bit (2 :: u16) n = (n = 1)" "bit (4 :: u16) n = (n = 2)"
  by (auto simp: bit_1_iff bit_numeral_rec split: nat.splits)

lemma table_flags:
  "table_initialised t = bit (rt_flags t) 0" "table_bigendian t = bit (rt_flags t) 2"
  by (simp_all add: table_initialised_def table_bigendian_def REG_TF_INITIALISED_def REG_TF_BIG_ENDIAN_def isset_bit)

lemma rt_flags_changed:
  "bit (rt_flags (set_flags t b)) n = (bit (rt_flags t) n \<or> bit b n)"
  "n < 16 \<Longrightarrow> bit (rt_flags (clear_flags t b)) n = (bit (rt_flags t) n \<and> \<not> bit b n)"
  by (simp_all add: set_flags_def clear_flags_def BIT_SET_def BIT_CLEAR_def bit_or_iff bit_and_iff bit_not_iff)

lemmas flag_bits = REG_TF_INITIALISED_def REG_TF_DURING_INIT_def bit_of_flags bit_or_iff rt_flags_changed

lemma flags_keep [simp]:
  "rt_areas (set_flags t b) = rt_areas t" "rt_areas (clear_flags t b) = rt_areas t"
  "rt_area (set_flags t b) = rt_area t" "rt_area (clear_flags t b) = rt_area t"
  "rt_entries (set_flags t b) = rt_entries t" "rt_entries (clear_flags t b) = rt_entries t"
  "rt_entry (set_flags t b) = rt_entry t" "rt_entry (clear_flags t b) = rt_entry t"
  "area_at (set_flags t b) i = area_at t i" "area_at (clear_flags t b) i = area_at t i"
  "entry_at (set_flags t b) i = entry_at t i" "entry_at (clear_flags t b) i = entry_at t i"
  by (simp_all add: set_flags_def clear_flags_def area_at_def entry_at_def)

section \<open>Counting and order\<close>

lemma count_areas_eq:
  assumes "\<forall>a \<in> set as. \<not> is_end_of_areas a" "is_end_of_areas m" "n + length as \<le> AREA_HANDLE_MAX"
  shows "reg_count_areas (as @ m # rest) n = Some (n + length as)"
  using assms by (induction as arbitrary: n) auto

lemma count_entries_eq:
  assumes "\<forall>x \<in> set es. \<not> is_end_of_entries x" "is_end_of_entries m" "n + length es \<le> REGISTER_HANDLE_MAX"
  shows "reg_count_entries (es @ m # rest) n = Some (n + length es)"
  using assms by (induction es arbitrary: n) auto

lemma neighbours_ordered:
  fixes lo hi :: "nat \<Rightarrow> nat"
  assumes "\<And>i. i < n \<Longrightarrow> lo i \<le> hi i" "\<And>i. Suc i < n \<Longrightarrow> hi i \<le> lo (Suc i)" "i < j" "j < n"
  shows "hi i \<le> lo j"
  using assms(3,4)
proof (induction j)
  case (Suc j)
  show ?case
  proof (cases "i = j")
    case True
    then show ?thesis
      using assms(2) Suc.prems by simp
  next
    case False
    then have "hi i \<le> lo j" "lo j \<le> hi j" "hi j \<le> lo (Suc j)"
      using Suc assms(1) [of j] assms(2) [of j] by auto
    then show ?thesis
      by linarith
  qed
qed simp

lemma check_areas_ok:
  assumes "\<And>i. i < n \<Longrightarrow> \<exists>a. area_at t i = Some a \<and> ra_base a + ra_size a < 2 ^ 32" "k < n" "area_at t k = Some p"
  shows "\<exists>r. check_areas t (ra_base p) [Suc k ..< n] = Some r \<and>
     (r = None \<longrightarrow> (\<forall>i a b. k \<le> i \<longrightarrow> Suc i < n \<longrightarrow> area_at t i = Some a \<longrightarrow> area_at t (Suc i) = Some b \<longrightarrow>
        ra_base a + ra_size a \<le> ra_base b)) \<and>
     (\<forall>q. r = Some q \<longrightarrow> ri_code q \<noteq> REG_INIT_SUCCESS)"
  using assms(2,3)
proof (induction "n - k" arbitrary: k p)
  case (Suc m)
  show ?case
  proof (cases "Suc k < n")
    case False
    then show ?thesis
      by auto
  next
    case True
    then have up: "[Suc k ..< n] = Suc k # [Suc (Suc k) ..< n]"
      by (simp add: upt_conv_Cons)
    obtain a where a: "area_at t (Suc k) = Some a"
      using assms(1) [OF True] by blast
    have p: "ra_base p + ra_size p < 2 ^ 32"
      using assms(1) [OF Suc.prems(1)] Suc.prems(2) by auto
    have m: "m = n - Suc k"
      using Suc.hyps(2) by simp
    obtain r where r: "check_areas t (ra_base a) [Suc (Suc k) ..< n] = Some r"
      "r = None \<longrightarrow> (\<forall>i a b. Suc k \<le> i \<longrightarrow> Suc i < n \<longrightarrow> area_at t i = Some a \<longrightarrow> area_at t (Suc i) = Some b \<longrightarrow>
        ra_base a + ra_size a \<le> ra_base b)"
      "\<forall>q. r = Some q \<longrightarrow> ri_code q \<noteq> REG_INIT_SUCCESS"
      using Suc.hyps(1) [OF m True a] by blast
    show ?thesis
    proof (cases "ra_base p + ra_size p \<le> ra_base a")
      case True
      then have "check_areas t (ra_base p) [Suc k ..< n] = Some r"
        using a p Suc.prems(2) r(1) by (simp add: up)
      moreover have "ra_base x + ra_size x \<le> ra_base y"
        if "r = None" "k \<le> i" "Suc i < n" "area_at t i = Some x" "area_at t (Suc i) = Some y" for i x y
      proof (cases "i = k")
        case False
        then have "Suc k \<le> i"
          using that(2) by simp
        with r(2) that show ?thesis
          by blast
      qed (use that True a Suc.prems(2) in auto)
      ultimately show ?thesis
        using r(3) by blast
    next
      case False
      then show ?thesis
        using a p Suc.prems(2) by (cases "ra_base a < ra_base p") (simp_all add: up Let_def)
    qed
  qed
qed simp

lemma check_entries_ok:
  assumes "\<And>i. i < n \<Longrightarrow> \<exists>x. entry_at t i = Some x" "k < n" "entry_at t k = Some p"
  shows "\<exists>r. check_entries t (re_address p) [Suc k ..< n] = Some r \<and>
     (r = None \<longrightarrow> (\<forall>i a b. k \<le> i \<longrightarrow> Suc i < n \<longrightarrow> entry_at t i = Some a \<longrightarrow> entry_at t (Suc i) = Some b \<longrightarrow>
        re_address a + rds_size (re_type a) \<le> re_address b)) \<and>
     (\<forall>q. r = Some q \<longrightarrow> ri_code q \<noteq> REG_INIT_SUCCESS)"
  using assms(2,3)
proof (induction "n - k" arbitrary: k p)
  case (Suc m)
  show ?case
  proof (cases "Suc k < n")
    case False
    then show ?thesis
      by auto
  next
    case True
    then have up: "[Suc k ..< n] = Suc k # [Suc (Suc k) ..< n]"
      by (simp add: upt_conv_Cons)
    obtain a where a: "entry_at t (Suc k) = Some a"
      using assms(1) [OF True] by blast
    have m: "m = n - Suc k"
      using Suc.hyps(2) by simp
    obtain r where r: "check_entries t (re_address a) [Suc (Suc k) ..< n] = Some r"
      "r = None \<longrightarrow> (\<forall>i a b. Suc k \<le> i \<longrightarrow> Suc i < n \<longrightarrow> entry_at t i = Some a \<longrightarrow> entry_at t (Suc i) = Some b \<longrightarrow>
        re_address a + rds_size (re_type a) \<le> re_address b)"
      "\<forall>q. r = Some q \<longrightarrow> ri_code q \<noteq> REG_INIT_SUCCESS"
      using Suc.hyps(1) [OF m True a] by blast
    show ?thesis
    proof (cases "re_address p + rds_size (re_type p) \<le> re_address a")
      case True
      then have "check_entries t (re_address p) [Suc k ..< n] = Some r"
        using a Suc.prems(2) r(1) by (simp add: up)
      moreover have "re_address x + rds_size (re_type x) \<le> re_address y"
        if "r = None" "k \<le> i" "Suc i < n" "entry_at t i = Some x" "entry_at t (Suc i) = Some y" for i x y
      proof (cases "i = k")
        case False
        then have "Suc k \<le> i"
          using that(2) by simp
        with r(2) that show ?thesis
          by blast
      qed (use that True a Suc.prems(2) in auto)
      ultimately show ?thesis
        using r(3) by blast
    next
      case False
      then show ?thesis
        using a Suc.prems(2) by (cases "re_address a < re_address p") (simp_all add: up Let_def)
    qed
  qed
qed simp

section \<open>Clearing the memory\<close>

abbreviation "mem_backed \<equiv> backed reg_mem_read reg_mem_write mem_cells"

lemma clear_areas_ok:
  assumes "mem_backed t" "set ix \<subseteq> {..< rt_areas t}"
  shows "\<exists>t'. clear_areas t ix = Some t' \<and> mem_backed t' \<and> same_layout t t'"
  using assms
proof (induction ix arbitrary: t)
  case (Cons i ix)
  have ok: "areas_ok t" and i: "i < rt_areas t"
    using Cons.prems by (simp_all add: backed_def)
  obtain a where a: "area_at t i = Some a"
    using areas_okD [OF ok i] .
  note b = mem.backedD [OF Cons.prems(1) a i]
  show ?case
  proof (cases "ra_mem a")
    case None
    then show ?thesis
      using Cons a by simp
  next
    case (Some m)
    let ?m = "overwrite m 0 (replicate (ra_size a) 0)"
    have len: "length m = ra_size a"
      using b(3) Some by (simp add: mem_cells_def)
    let ?t = "put_area t i (a\<lparr>ra_mem := Some ?m\<rparr>)"
    note layout = put_area_layout [OF i a]
    have "mem_backed ?t"
      unfolding backed_def
    proof (intro conjI allI impI)
      fix j x assume j: "j < rt_areas ?t" "area_at ?t j = Some x"
      then have "j < rt_areas t"
        by (simp add: put_area_def)
      moreover have "x = (if j = i then a\<lparr>ra_mem := Some ?m\<rparr> else x)" "j \<noteq> i \<Longrightarrow> area_at t j = Some x"
        using j(2) layout(2) by (auto split: if_splits)
      ultimately show "ra_read x = Some reg_mem_read" "ra_write x = None \<or> ra_write x = Some reg_mem_write"
          "length (mem_cells (area_data x)) = ra_size x"
        using b len mem.backedD [OF Cons.prems(1), of j x] by (cases "j = i"; simp add: mem_cells_def)+
    qed (rule same_layout_areas_ok [OF layout(1) ok])
    moreover have "set ix \<subseteq> {..< rt_areas ?t}"
      using Cons.prems(2) by (simp add: put_area_def)
    ultimately obtain t' where "clear_areas ?t ix = Some t'" "mem_backed t'" "same_layout ?t t'"
      using Cons.IH by blast
    moreover have "clear_areas t (i # ix) = clear_areas ?t ix"
      using a Some len by (simp add: mem_write_overwrite)
    ultimately show ?thesis
      using same_layout_trans [OF layout(1)] by auto
  qed
qed simp

section \<open>Linking registers\<close>

text \<open>Areas leave room for a register at the end of the address space.\<close>

definition areas_roomy :: "'d RegisterTable \<Rightarrow> bool" where
  "areas_roomy t \<longleftrightarrow> (\<forall>i < rt_areas t. case area_at t i of None \<Rightarrow> False | Some a \<Rightarrow> ra_base a + ra_size a + 4 \<le> 2 ^ 32)"

lemma rds_size_le: "rds_size t \<le> 4"
  by (cases t) simp_all

lemma entry_in_area_eq:
  assumes "areas_ok t" "areas_roomy t" "\<forall>n \<in> set ns. n < rt_areas t"
  shows "entry_in_area t x ns = Some (case find (\<lambda>n. holds t n (re_address x)) ns of
       None \<Rightarrow> (False, x)
     | Some n \<Rightarrow> (let a = the (area_at t n) in
         if re_address x + rds_size (re_type x) \<le> ra_base a + ra_size a
         then (True, x\<lparr>re_area := Some n, re_offset := re_address x - ra_base a\<rparr>) else (False, x)))"
  using assms(3)
proof (induction ns)
  case (Cons n ns)
  then have n: "n < rt_areas t"
    by simp
  obtain a where a: "area_at t n = Some a" "ra_base a + ra_size a < 2 ^ 32"
    using areas_okD [OF assms(1) n] .
  have room: "ra_base a + ra_size a + 4 \<le> 2 ^ 32"
    using assms(2) n a(1) unfolding areas_roomy_def by fastforce
  show ?case
  proof (cases "holds t n (re_address x)")
    case True
    then have in_a: "ra_base a \<le> re_address x" "re_address x < ra_base a + ra_size a"
      using a(1) by (simp_all add: holds_def)
    then have "re_address x + rds_size (re_type x) < 2 ^ 32"
      using room rds_size_le [of "re_type x"] by linarith
    then show ?thesis
      using True a in_a by (simp add: ra_reg_is_part_of_def part_of_iff ra_reg_fits_into_def Let_def)
  next
    case False
    then have "\<not> ra_addr_is_part_of a (re_address x)"
      using a n by (simp add: holds_def part_of_iff)
    with False Cons a(1) show ?thesis
      by (simp add: ra_reg_is_part_of_def)
  qed
qed simp

lemma link_ok:
  assumes "areas_ok t" "areas_roomy t"
  shows "reg_entry_is_in_memory t x = Some (False, x) \<or>
     (\<exists>k a. holds t k (re_address x) \<and> k < rt_areas t \<and> area_at t k = Some a \<and> ra_base a \<le> re_address x \<and>
        re_address x + rds_size (re_type x) \<le> ra_base a + ra_size a \<and>
        reg_entry_is_in_memory t x = Some (True, x\<lparr>re_area := Some k, re_offset := re_address x - ra_base a\<rparr>))"
proof -
  have all: "\<forall>n \<in> set [0 ..< rt_areas t]. n < rt_areas t"
    by simp
  note eq = entry_in_area_eq [OF assms all, of x, folded reg_entry_is_in_memory_def]
  show ?thesis
  proof (cases "find (\<lambda>n. holds t n (re_address x)) [0 ..< rt_areas t]")
    case (Some k)
    then have h: "holds t k (re_address x)" "k < rt_areas t"
      by (auto simp: find_Some_iff)
    then obtain a where "area_at t k = Some a" "ra_base a \<le> re_address x"
      by (auto simp: holds_def split: option.splits)
    with Some h eq show ?thesis
      by (auto simp: Let_def)
  qed (use eq in simp)
qed

text \<open>
  The table while its registers are linked, one after the other: the first \<open>k\<close> are linked and hold their
  defaults, if their area takes them.
\<close>

definition default_loaded :: "endianness \<Rightarrow> 'd RegisterTable \<Rightarrow> RegisterEntry \<Rightarrow> bool" where
  "default_loaded e t x \<longleftrightarrow> (case re_area x of None \<Rightarrow> False | Some k \<Rightarrow> (case area_at t k of None \<Rightarrow> False
     | Some a \<Rightarrow> ra_write a \<noteq> None \<and> \<not> BIT_ISSET (ra_flags a) REG_AF_SKIP_DEFAULTS \<longrightarrow>
         storable (re_default x) \<and> stored_value mem_cells e t x = re_default x \<and>
         (re_check x = REGV_TYPE_FAIL \<or> rv_validate t x \<lparr>rv_type = re_type x, rv_value = re_default x\<rparr> = Some True)))"

lemma validate_any: "re_check x \<noteq> REGV_TYPE_FAIL \<Longrightarrow> rv_validate t' x v = rv_validate t x v"
  by (cases "re_check x") (simp_all add: rv_validate_def)

text \<open>An entry without its link.\<close>

definition unlinked :: "RegisterEntry \<Rightarrow> RegisterEntry" where
  "unlinked x = x\<lparr>re_area := None, re_offset := 0\<rparr>"

lemma unlinked_link: "unlinked (x\<lparr>re_area := a, re_offset := n\<rparr>) = unlinked x"
  by (cases x) (simp add: unlinked_def)

definition entries_ordered :: "'d RegisterTable \<Rightarrow> bool" where
  "entries_ordered t \<longleftrightarrow> (\<forall>i j x y. i < j \<longrightarrow> j < rt_entries t \<longrightarrow> entry_at t i = Some x \<longrightarrow> entry_at t j = Some y \<longrightarrow>
     re_address x + rds_size (re_type x) \<le> re_address y)"

definition linking :: "endianness \<Rightarrow> nat \<Rightarrow> 'd RegisterTable \<Rightarrow> bool" where
  "linking e k t \<longleftrightarrow> mem_backed t \<and> areas_roomy t \<and> table_initialised t \<and> entries_ordered t \<and>
     (\<forall>i < rt_entries t. \<exists>x. entry_at t i = Some x \<and> re_type x \<noteq> REG_TYPE_INVALID \<and> check_matches x \<and>
        (i < k \<longrightarrow> entry_ok t x \<and> default_loaded e t x))"

lemma linkingD:
  assumes "linking e k t" "i < rt_entries t"
  obtains x where "entry_at t i = Some x" "re_type x \<noteq> REG_TYPE_INVALID" "check_matches x"
    "i < k \<longrightarrow> entry_ok t x \<and> default_loaded e t x"
  using assms unfolding linking_def by metis

lemma default_loaded_cong:
  assumes "default_loaded e t x" "same_layout t t'" "areas_ok t" "entry_ok t x"
    and "\<forall>a. re_address x \<le> a \<longrightarrow> a < re_address x + rds_size (re_type x) \<longrightarrow> atom_at mem_cells t' a = atom_at mem_cells t a"
  shows "default_loaded e t' x"
proof -
  obtain k a where k: "re_area x = Some k" "k < rt_areas t" "area_at t k = Some a"
    using assms(4) by (auto simp: entry_ok_def)
  then obtain m where "area_at t' k = Some (a\<lparr>ra_mem := m\<rparr>)"
    using assms(2) unfolding same_layout_def by metis
  moreover have "rv_validate t' x = rv_validate t x"
    using validate_flags [of t' t] assms(2) by (simp add: same_layout_def fun_eq_iff)
  ultimately show ?thesis
    using k assms(1) stored_value_cong [OF assms(2,5), of e] by (simp add: default_loaded_def)
qed

lemma put_entry_at:
  "entry_at t i = Some x \<Longrightarrow> entry_at (put_entry t i y) j = (if j = i then Some y else entry_at t j)"
  by (auto simp: entry_at_def put_entry_def split: bind_splits if_splits)

lemma put_entry_keeps [simp]:
  "rt_area (put_entry t i y) = rt_area t" "rt_areas (put_entry t i y) = rt_areas t" "rt_flags (put_entry t i y) = rt_flags t"
  "rt_entries (put_entry t i y) = rt_entries t" "area_at (put_entry t i y) = area_at t"
  "put_entry (put_entry t i x) i y = put_entry t i y"
  by (simp_all add: put_entry_def area_at_def fun_eq_iff option.map_comp o_def cong: option.map_cong)

lemma area_before_offset: "(x :: RegisterEntry)\<lparr>re_offset := off, re_area := k\<rparr> = x\<lparr>re_area := k, re_offset := off\<rparr>"
  by (cases x) simp

lemma link_step:
  assumes "linking e k t" "k < rt_entries t"
  shows "(\<exists>t'. link_entries e t (k # ix) = link_entries e t' ix \<and> linking e (Suc k) t' \<and> rt_entries t' = rt_entries t \<and>
        rt_areas t' = rt_areas t \<and> (\<forall>i. map_option unlinked (entry_at t' i) = map_option unlinked (entry_at t i))) \<or>
     (\<exists>r t'. link_entries e t (k # ix) = Some (Some r, t') \<and> ri_code r \<noteq> REG_INIT_SUCCESS \<and> \<not> table_initialised t')"
proof -
  have b: "mem_backed t" and ok: "areas_ok t" and room: "areas_roomy t" and ini: "table_initialised t" and ord: "entries_ordered t"
    using assms(1) by (auto simp: linking_def backed_def)
  obtain x where x: "entry_at t k = Some x" "re_type x \<noteq> REG_TYPE_INVALID" "check_matches x"
    using linkingD [OF assms] by blast
  have dead: "\<not> table_initialised (clear_flags u (REG_TF_INITIALISED OR REG_TF_DURING_INIT))" for u :: "'a RegisterTable"
    by (simp add: table_flags flag_bits)
  from link_ok [OF ok room, of x] show ?thesis
  proof (elim disjE exE conjE)
    assume "reg_entry_is_in_memory t x = Some (False, x)"
    then have "link_entries e t (k # ix) = Some (Some (init_result REG_INIT_ENTRY_IN_MEMORY_HOLE (Pos_entry k)),
        clear_flags (put_entry t k x) (REG_TF_INITIALISED OR REG_TF_DURING_INIT))"
      using x(1) by simp
    with dead show ?thesis
      by auto
  next
    fix i and a :: "'a RegisterArea"
    let ?x = "x\<lparr>re_area := Some i, re_offset := re_address x - ra_base a\<rparr>"
    let ?t = "put_entry t k ?x"
    assume a: "holds t i (re_address x)" "i < rt_areas t" "area_at t i = Some a" "ra_base a \<le> re_address x"
      "re_address x + rds_size (re_type x) \<le> ra_base a + ra_size a" "reg_entry_is_in_memory t x = Some (True, ?x)"
    have bare: "map_option unlinked (entry_at ?t j) = map_option unlinked (entry_at t j)" for j
      using put_entry_at [OF x(1)] x(1) by (simp add: unlinked_link)
    note same = same_areas [where t' = ?t and t = t, OF put_entry_keeps(1,2)]
    have at: "entry_at ?t j = (if j = k then Some ?x else entry_at t j)" for j
      using put_entry_at [OF x(1)] .
    have find: "ra_find_area_by_addr ?t (re_address x) = Some i"
      using find_area_holds [OF ok a(1)] same(4) by simp
    have b1: "mem_backed ?t" and ini1: "table_initialised ?t"
      using b ini same(2) by (simp_all add: table_initialised_def)
    have okx: "entry_ok ?t ?x"
      using a x(2,3) by (simp add: entry_ok_def check_matches_def cong: RegisterValidator.case_cong)
    have others: "entry_ok ?t y \<longleftrightarrow> entry_ok t y" "default_loaded e ?t y \<longleftrightarrow> default_loaded e t y" for y
      using validate_flags [of ?t t]
      by (simp_all add: entry_ok_def default_loaded_def stored_value_def atoms_at_def same(3) table_bigendian_def
          cong: option.case_cong)
    have ord1: "entries_ordered ?t"
      using ord x(1) unfolding entries_ordered_def at by (auto split: if_splits)
    have rest: "\<exists>y. entry_at ?t j = Some y \<and> re_type y \<noteq> REG_TYPE_INVALID \<and> check_matches y \<and>
        (j < k \<longrightarrow> entry_ok ?t y \<and> default_loaded e ?t y) \<and> (j = k \<longrightarrow> y = ?x)" if "j < rt_entries t" for j
    proof (cases "j = k")
      case True
      then show ?thesis
        using x(2,3) at by (simp add: check_matches_def cong: RegisterValidator.case_cong)
    next
      case False
      obtain y where "entry_at t j = Some y" "re_type y \<noteq> REG_TYPE_INVALID" "check_matches y"
          "j < k \<longrightarrow> entry_ok t y \<and> default_loaded e t y"
        using linkingD [OF assms(1) \<open>j < rt_entries t\<close>] .
      with False at others show ?thesis
        by auto
    qed
    have room1: "areas_roomy ?t"
      using room by (simp add: areas_roomy_def)
    have load: "need_to_load_default ?t ?x = Some (ra_write a \<noteq> None \<and> \<not> BIT_ISSET (ra_flags a) REG_AF_SKIP_DEFAULTS)"
      using a(3) by (simp add: need_to_load_default_def)
    have step: "link_entries e t (k # ix) =
        (if ra_write a \<noteq> None \<and> \<not> BIT_ISSET (ra_flags a) REG_AF_SKIP_DEFAULTS then do {
           (rv, t) \<leftarrow> register_set e ?t k \<lparr>rv_type = re_type x, rv_value = re_default x\<rparr>;
           if ac_code rv \<noteq> REG_ACCESS_SUCCESS
           then Some (Some (init_result REG_INIT_ENTRY_INVALID_DEFAULT (Pos_entry k)),
                      clear_flags t (REG_TF_INITIALISED OR REG_TF_DURING_INIT))
           else link_entries e t ix
         } else link_entries e ?t ix)"
      using x(1) a(6) find load by (simp add: Let_def area_before_offset)
    show ?thesis
    proof (cases "ra_write a \<noteq> None \<and> \<not> BIT_ISSET (ra_flags a) REG_AF_SKIP_DEFAULTS")
      case False
      then have "default_loaded e ?t ?x"
        using a(3) by (auto simp: default_loaded_def)
      then have "linking e (Suc k) ?t"
        unfolding linking_def using b1 ini1 ord1 room1 rest okx by (simp add: less_Suc_eq) blast
      moreover have "link_entries e t (k # ix) = link_entries e ?t ix"
        using step False by (simp only: if_False)
      ultimately show ?thesis
        using bare by (intro disjI1 exI [of _ ?t]) (simp del: link_entries.simps)
    next
      case True
      let ?v = "\<lparr>rv_type = re_type x, rv_value = re_default x\<rparr>"
      have kind: "value_type (rv_value ?v) = rv_type ?v" "value_type (rv_value ?v) = re_type ?x"
        using x(3) by (simp_all add: check_matches_def)
      have cm: "check_matches ?x"
        using okx by (simp add: entry_ok_def)
      obtain good where good: "rv_validate ?t ?x ?v = Some good"
        using validate_defined [OF cm kind(1)] by blast
      have here: "k < rt_entries ?t" "entry_at ?t k = Some ?x" "area_at ?t (the (re_area ?x)) = Some a"
        using assms(2) at a(3) by simp_all
      obtain rv t' where r: "register_set e ?t k ?v = Some (rv, t')"
         "ac_code rv = REG_ACCESS_SUCCESS \<longrightarrow> rv_validate ?t ?x ?v = Some True \<and> storable (re_default x) \<and> same_layout ?t t' \<and> mem_backed t' \<and>
            stored_value mem_cells e t' ?x = re_default x \<and>
            (\<forall>b. \<not> (re_address x \<le> b \<and> b < re_address x + rds_size (re_type x)) \<longrightarrow> atom_at mem_cells t' b = atom_at mem_cells ?t b)"
      proof (cases good)
        case True
        then have "True \<Longrightarrow> rv_validate ?t ?x ?v = Some True"
          using good by simp
        from mem.setx_entry [where e = e and withvalidator = True, OF b1 ini1 here okx kind(2) this, folded register_set_def]
        obtain rv t' where q: "register_set e ?t k ?v = Some (rv, t')"
          "if ra_write a = None then rv = access REG_ACCESS_READONLY (re_address ?x) \<and> t' = ?t
           else if \<not> storable (rv_value ?v) then rv = access REG_ACCESS_INVALID (re_address ?x) \<and> t' = ?t
           else rv = REG_ACCESS_RESULT_INIT \<and> same_layout ?t t' \<and> mem_backed t' \<and>
             stored_value mem_cells e t' ?x = rv_value ?v \<and>
             (\<forall>b. \<not> (re_address ?x \<le> b \<and> b < re_address ?x + rds_size (re_type ?x)) \<longrightarrow>
                atom_at mem_cells t' b = atom_at mem_cells ?t b)"
          by blast
        have "ac_code rv = REG_ACCESS_SUCCESS \<longrightarrow> rv_validate ?t ?x ?v = Some True \<and> storable (re_default x) \<and> same_layout ?t t' \<and> mem_backed t' \<and>
            stored_value mem_cells e t' ?x = re_default x \<and>
            (\<forall>b. \<not> (re_address x \<le> b \<and> b < re_address x + rds_size (re_type x)) \<longrightarrow> atom_at mem_cells t' b = atom_at mem_cells ?t b)"
          using q(2) good True by (simp split: if_splits)
        with q(1) show ?thesis
          by (rule that)
      next
        case False
        then have "register_set e ?t k ?v = Some (access REG_ACCESS_RANGE (re_address x), ?t)"
          using good here ini1 by (simp add: register_set_def register_setx_def)
        then show ?thesis
          by (rule that) simp
      qed
      show ?thesis
      proof (cases "ac_code rv = REG_ACCESS_SUCCESS")
        case False
        then show ?thesis
          using step True r(1) dead by auto
      next
        case success: True
        then have t': "storable (re_default x)" "same_layout ?t t'" "mem_backed t'" "stored_value mem_cells e t' ?x = re_default x"
          "\<forall>b. \<not> (re_address x \<le> b \<and> b < re_address x + rds_size (re_type x)) \<longrightarrow> atom_at mem_cells t' b = atom_at mem_cells ?t b"
          using r(2) success by blast+
        have valid: "rv_validate t' ?x ?v = Some True"
          using r(2) success validate_flags [of t' ?t] by (simp add: same_layout_def)
        have n: "rt_entries t' = rt_entries t" "rt_areas t' = rt_areas t" "entry_at t' j = entry_at ?t j" for j
          using t'(2) same_layout_entries [OF t'(2)] by (simp_all add: same_layout_def)
        obtain m where m: "area_at t' i = Some (a\<lparr>ra_mem := m\<rparr>)"
          using t'(2) a(2,3) unfolding same_layout_def by (metis put_entry_keeps(2,5))
        have ok1: "areas_ok ?t"
          using b1 by (simp add: backed_def)
        have "linking e (Suc k) t'"
          unfolding linking_def
        proof (intro conjI allI impI)
          show "mem_backed t'" by (rule t'(3))
          show "table_initialised t'"
            using ini1 t'(2) by (simp add: table_initialised_def same_layout_def)
          show "entries_ordered t'"
            using ord1 n by (simp add: entries_ordered_def)
          show "areas_roomy t'"
            unfolding areas_roomy_def
          proof (intro allI impI)
            fix j assume "j < rt_areas t'"
            then have j: "j < rt_areas ?t"
              using n by simp
            then obtain c where c: "area_at ?t j = Some c"
              using areas_okD [OF ok1 j] by blast
            then obtain m where "area_at t' j = Some (c\<lparr>ra_mem := m\<rparr>)"
              using t'(2) j unfolding same_layout_def by metis
            then show "case area_at t' j of None \<Rightarrow> False | Some a \<Rightarrow> ra_base a + ra_size a + 4 \<le> 2 ^ 32"
              using room1 j c unfolding areas_roomy_def by (auto split: option.splits)
          qed
          fix j assume "j < rt_entries t'"
          then have j: "j < rt_entries t"
            using n by simp
          obtain y where y: "entry_at ?t j = Some y" "re_type y \<noteq> REG_TYPE_INVALID" "check_matches y"
            "j < k \<longrightarrow> entry_ok ?t y \<and> default_loaded e ?t y" "j = k \<longrightarrow> y = ?x"
            using rest [OF j] by blast
          have "entry_ok t' y \<and> default_loaded e t' y" if "j < Suc k"
          proof (cases "j = k")
            case True
            then show ?thesis
              using entry_ok_layout [OF okx t'(2)] y(5) t'(1,4) valid m by (simp add: default_loaded_def)
          next
            case False
            then have jk: "j < k"
              using that by simp
            then have "re_address y + rds_size (re_type y) \<le> re_address ?x"
              using ord1 y(1) here(1,2) unfolding entries_ordered_def by blast
            then have "\<forall>b. re_address y \<le> b \<longrightarrow> b < re_address y + rds_size (re_type y) \<longrightarrow> atom_at mem_cells t' b = atom_at mem_cells ?t b"
              using t'(5) by auto
            then show ?thesis
              using default_loaded_cong [OF _ t'(2) ok1] entry_ok_layout [OF _ t'(2)] y(4) jk by blast
          qed
          then show "\<exists>x. entry_at t' j = Some x \<and> re_type x \<noteq> REG_TYPE_INVALID \<and> check_matches x \<and>
              (j < Suc k \<longrightarrow> entry_ok t' x \<and> default_loaded e t' x)"
            using y n by auto
        qed
        then show ?thesis
          using step True r(1) success n bare by (intro disjI1 exI [of _ t']) (simp del: link_entries.simps)
      qed
    qed
  qed
qed

lemma link_entries_ok:
  assumes "linking e k t" "k \<le> rt_entries t"
  shows "(\<exists>t'. link_entries e t [k ..< rt_entries t] = Some (None, t') \<and> linking e (rt_entries t) t' \<and>
        rt_entries t' = rt_entries t \<and> rt_areas t' = rt_areas t \<and>
        (\<forall>i. map_option unlinked (entry_at t' i) = map_option unlinked (entry_at t i))) \<or>
     (\<exists>r t'. link_entries e t [k ..< rt_entries t] = Some (Some r, t') \<and> ri_code r \<noteq> REG_INIT_SUCCESS \<and> \<not> table_initialised t')"
  using assms
proof (induction "rt_entries t - k" arbitrary: k t)
  case 0
  then show ?case
    by simp
next
  case (Suc n)
  then have k: "k < rt_entries t"
    by simp
  then have up: "[k ..< rt_entries t] = k # [Suc k ..< rt_entries t]"
    by (simp add: upt_conv_Cons)
  from link_step [OF Suc.prems(1) k, of "[Suc k ..< rt_entries t]"] show ?case
  proof (elim disjE exE conjE)
    fix t' assume t': "link_entries e t (k # [Suc k ..< rt_entries t]) = link_entries e t' [Suc k ..< rt_entries t]"
      "linking e (Suc k) t'" "rt_entries t' = rt_entries t" "rt_areas t' = rt_areas t"
      "\<forall>i. map_option unlinked (entry_at t' i) = map_option unlinked (entry_at t i)"
    have "n = rt_entries t' - Suc k" "Suc k \<le> rt_entries t'"
      using Suc.hyps(2) k t'(3) by simp_all
    from Suc.hyps(1) [OF this(1) t'(2) this(2)] show ?case
      unfolding up using t' by (simp del: link_entries.simps)
  next
    fix r t' assume "link_entries e t (k # [Suc k ..< rt_entries t]) = Some (Some r, t')" "ri_code r \<noteq> REG_INIT_SUCCESS"
      "\<not> table_initialised t'"
    then show ?case
      unfolding up by blast
  qed
qed

section \<open>Linking areas\<close>

text \<open>The last loop sets the first and last register of each area, and nothing else.\<close>

definition relinked :: "'d RegisterTable \<Rightarrow> 'd RegisterTable \<Rightarrow> bool" where
  "relinked t t' \<longleftrightarrow> rt_flags t' = rt_flags t \<and> rt_areas t' = rt_areas t \<and> rt_entries t' = rt_entries t \<and>
     entry_at t' = entry_at t \<and>
     (\<forall>i < rt_areas t. \<forall>a. area_at t i = Some a \<longrightarrow>
        (\<exists>f l c. area_at t' i = Some (a\<lparr>ra_first := f, ra_last := l, ra_count := c\<rparr>)))"

lemma relinked_refl [simp]: "relinked t t"
proof -
  have "a\<lparr>ra_first := ra_first a, ra_last := ra_last a, ra_count := ra_count a\<rparr> = a" for a :: "'a RegisterArea"
    by simp
  then show ?thesis
    unfolding relinked_def by metis
qed

lemma relinked_put:
  assumes "relinked t u" "i < rt_areas t" "area_at u i = Some a"
  shows "relinked t (put_area u i (a\<lparr>ra_first := f, ra_last := l, ra_count := c\<rparr>))"
proof -
  let ?u = "put_area u i (a\<lparr>ra_first := f, ra_last := l, ra_count := c\<rparr>)"
  have i: "i < rt_areas u"
    using assms by (simp add: relinked_def)
  note at = put_area_layout(2) [OF i assms(3)]
  have "\<exists>f l c. area_at ?u j = Some (b\<lparr>ra_first := f, ra_last := l, ra_count := c\<rparr>)"
    if j: "j < rt_areas t" "area_at t j = Some b" for j b
  proof -
    obtain f' l' c' where old: "area_at u j = Some (b\<lparr>ra_first := f', ra_last := l', ra_count := c'\<rparr>)"
      using assms(1) j unfolding relinked_def by blast
    show ?thesis
    proof (cases "j = i")
      case True
      with old assms(3) have "a\<lparr>ra_first := f, ra_last := l, ra_count := c\<rparr> = b\<lparr>ra_first := f, ra_last := l, ra_count := c\<rparr>"
        by simp
      with True show ?thesis
        unfolding at by auto
    next
      case False
      with old show ?thesis
        unfolding at by auto
    qed
  qed
  moreover have "entry_at ?u = entry_at u"
    by (simp add: entry_at_def put_area_def fun_eq_iff)
  ultimately show ?thesis
    using assms(1) by (auto simp: relinked_def put_area_def)
qed

lemma next_area_entry_some:
  "\<forall>i \<in> set ix. \<exists>x. entry_at t i = Some x \<Longrightarrow> \<exists>n. next_area_entry t a ix = Some n"
  by (induction ix) auto

lemma link_areas_ok:
  assumes "relinked t u" "areas_ok t" "\<forall>i < rt_entries t. \<exists>x. entry_at t i = Some x" "\<forall>i \<in> set ix. i < rt_areas t"
  shows "\<exists>t'. link_areas u entry ix = Some t' \<and> relinked t t'"
  using assms(1,4)
proof (induction ix arbitrary: u entry)
  case (Cons i ix)
  have i: "i < rt_areas t"
    using Cons.prems by simp
  obtain b where "area_at t i = Some b"
    using areas_okD [OF assms(2) i] .
  then obtain a where a: "area_at u i = Some a"
    using Cons.prems(1) i unfolding relinked_def by blast
  have u: "rt_entries u = rt_entries t" "entry_at u = entry_at t"
    using Cons.prems(1) by (simp_all add: relinked_def)
  note put = relinked_put [OF Cons.prems(1) i a]
  have go: "\<exists>t'. link_areas (put_area u i (a\<lparr>ra_first := f, ra_last := l, ra_count := c\<rparr>)) n ix = Some t' \<and> relinked t t'" for f l c n
    using Cons.IH [OF put] Cons.prems(2) by simp
  show ?case
  proof (cases "entry < rt_entries t")
    case True
    then obtain x where x: "entry_at t entry = Some x"
      using assms(3) by blast
    have "\<forall>j \<in> set [ad_add entry 1 ..< rt_entries u]. \<exists>x. entry_at u j = Some x"
      using assms(3) u by simp
    then obtain n where n: "ra_first_entry_of_next u a (ad_add entry 1) = Some n"
      using next_area_entry_some [of _ u a] unfolding ra_first_entry_of_next_def by blast
    show ?thesis
      using True x a n u go by (cases "ra_addr_is_part_of a (re_address x)") (simp_all add: Let_def)
  next
    case False
    then show ?thesis
      using a u go by simp
  qed
qed simp

lemma relinked_table:
  assumes "relinked t t'" "areas_ok t"
  shows "mem_backed t \<Longrightarrow> mem_backed t'" "entry_ok t x \<Longrightarrow> entry_ok t' x" "stored_value mem_cells e t' x = stored_value mem_cells e t x"
    and "areas_ok t'" "entry_ok t x \<Longrightarrow> default_loaded e t x \<Longrightarrow> default_loaded e t' x"
proof -
  have n: "rt_areas t' = rt_areas t" "rt_flags t' = rt_flags t"
    using assms(1) by (simp_all add: relinked_def)
  have at: "\<exists>a f l c. area_at t i = Some a \<and> ra_base a + ra_size a < 2 ^ 32 \<and>
      area_at t' i = Some (a\<lparr>ra_first := f, ra_last := l, ra_count := c\<rparr>)" if "i < rt_areas t" for i
    using areas_okD [OF assms(2) that] assms(1) that unfolding relinked_def by metis
  have data: "mem_cells (area_data (a\<lparr>ra_first := f, ra_last := l, ra_count := c\<rparr>)) = mem_cells (area_data a)"
    for a :: "'a RegisterArea" and f l c
    by (simp add: mem_cells_def)
  show ok: "areas_ok t'"
    unfolding areas_ok_def n
  proof (intro conjI allI impI)
    fix i assume i: "i < rt_areas t"
    obtain a f l c where a: "area_at t i = Some a" "ra_base a + ra_size a < 2 ^ 32"
      "area_at t' i = Some (a\<lparr>ra_first := f, ra_last := l, ra_count := c\<rparr>)"
      using at [OF i] by blast
    have "ra_base a + ra_size a \<le> ra_base y" if "i < j" "j < rt_areas t" "area_at t' j = Some y" for j y
      using at [OF that(2)] that(3) areas_ok_order [OF assms(2) a(1) _ that(1,2)] by auto
    then show "\<exists>a. area_at t' i = Some a \<and> ra_base a + ra_size a < 2 ^ 32 \<and>
        (\<forall>j b. i < j \<longrightarrow> j < rt_areas t \<longrightarrow> area_at t' j = Some b \<longrightarrow> ra_base a + ra_size a \<le> ra_base b)"
      using a by auto
  qed (use assms(2) in \<open>simp add: areas_ok_def\<close>)
  show "mem_backed t'" if b: "mem_backed t"
    unfolding backed_def n
  proof (intro conjI allI impI ok)
    fix i y assume i: "i < rt_areas t" "area_at t' i = Some y"
    then obtain a f l c where a: "area_at t i = Some a" "y = a\<lparr>ra_first := f, ra_last := l, ra_count := c\<rparr>"
      using at [OF i(1)] by auto
    then show "ra_read y = Some reg_mem_read" "ra_write y = None \<or> ra_write y = Some reg_mem_write"
      "length (mem_cells (area_data y)) = ra_size y"
      using mem.backedD [OF b a(1) i(1)] by (simp_all add: data)
  qed
  show "entry_ok t' x" if x: "entry_ok t x"
  proof -
    obtain k a where k: "re_area x = Some k" "k < rt_areas t" "area_at t k = Some a" "ra_base a \<le> re_address x"
      "re_address x + rds_size (re_type x) \<le> ra_base a + ra_size a" "re_offset x = re_address x - ra_base a"
      using x unfolding entry_ok_def by blast
    with at [OF k(2)] x show ?thesis
      by (auto simp: entry_ok_def n)
  qed
  have part: "ra_addr_is_part_of (a\<lparr>ra_first := f, ra_last := l, ra_count := c\<rparr>) addr = ra_addr_is_part_of a addr"
    for a :: "'a RegisterArea" and f l c addr
    by (simp add: ra_addr_is_part_of_def)
  have "find_area_from t' addr ns = find_area_from t addr ns" if "\<forall>i \<in> set ns. i < rt_areas t" for addr ns
    using that
  proof (induction ns)
    case (Cons i ns)
    then have "i < rt_areas t"
      by simp
    from at [OF this] Cons part show ?case
      by auto
  qed (simp add: n)
  then have find: "ra_find_area_by_addr t' addr = ra_find_area_by_addr t addr" for addr
    by (simp add: ra_find_area_by_addr_def n)
  have "atom_at mem_cells t' = atom_at mem_cells t"
  proof
    fix b
    show "atom_at mem_cells t' b = atom_at mem_cells t b"
    proof (cases "ra_find_area_by_addr t b")
      case (Some i)
      show ?thesis
      proof (cases "i < rt_areas t")
        case True
        from at [OF this] Some find show ?thesis
          by (auto simp: atom_at_def n data)
      qed (simp add: atom_at_def find Some n)
    qed (simp add: atom_at_def find)
  qed
  then show val: "stored_value mem_cells e t' x = stored_value mem_cells e t x"
    by (simp add: stored_value_def atoms_at_def table_bigendian_def n)
  show "default_loaded e t' x" if x: "entry_ok t x" and d: "default_loaded e t x"
  proof -
    obtain k a where k: "re_area x = Some k" "area_at t k = Some a" "k < rt_areas t"
      using x by (auto simp: entry_ok_def)
    from at [OF k(3)] k d val show ?thesis
      using validate_flags [of t' t, OF n(2)] by (auto simp: default_loaded_def)
  qed
qed

section \<open>The whole of it\<close>

lemma flags_table:
  assumes "t' = set_flags t REG_TF_INITIALISED \<or> t' = clear_flags t REG_TF_DURING_INIT"
  shows "mem_backed t' = mem_backed t" "entry_ok t' x = entry_ok t x" "default_loaded e t' x = default_loaded e t x"
    and "areas_roomy t' = areas_roomy t" "entries_ordered t' = entries_ordered t"
proof -
  have n: "rt_area t' = rt_area t" "rt_areas t' = rt_areas t" "rt_entries t' = rt_entries t" "entry_at t' = entry_at t"
    "table_bigendian t' = table_bigendian t"
    using assms by (auto simp: fun_eq_iff table_flags flag_bits)
  note same = same_areas [OF n(1,2)]
  have val: "(re_check x = REGV_TYPE_FAIL \<or> rv_validate t' x v = Some True) =
      (re_check x = REGV_TYPE_FAIL \<or> rv_validate t x v = Some True)" for v
    using validate_any [of x t' v t] by (cases "re_check x = REGV_TYPE_FAIL") simp_all
  have sv: "stored_value mem_cells e t' x = stored_value mem_cells e t x"
    by (simp add: stored_value_def atoms_at_def same n)
  show "mem_backed t' = mem_backed t"
    using same(2) by blast
  show "entry_ok t' x = entry_ok t x"
    by (simp add: entry_ok_def same n)
  show "default_loaded e t' x = default_loaded e t x"
    unfolding default_loaded_def val sv same(1) ..
  show "areas_roomy t' = areas_roomy t" "entries_ordered t' = entries_ordered t"
    by (simp_all add: areas_roomy_def entries_ordered_def same n)
qed

lemma same_layout_roomy:
  assumes "same_layout t t'" "areas_ok t" "areas_roomy t"
  shows "areas_roomy t'"
  unfolding areas_roomy_def
proof (intro allI impI)
  fix j assume "j < rt_areas t'"
  then have j: "j < rt_areas t"
    using assms(1) by (simp add: same_layout_def)
  then obtain c where c: "area_at t j = Some c"
    using areas_okD [OF assms(2) j] by blast
  then obtain m where "area_at t' j = Some (c\<lparr>ra_mem := m\<rparr>)"
    using assms(1) j unfolding same_layout_def by metis
  then show "case area_at t' j of None \<Rightarrow> False | Some a \<Rightarrow> ra_base a + ra_size a + 4 \<le> 2 ^ 32"
    using assms(3) j c unfolding areas_roomy_def by (auto split: option.splits)
qed

definition init_done :: "endianness \<Rightarrow> 'd RegisterTable \<Rightarrow> RegisterInit \<Rightarrow> 'd RegisterTable \<Rightarrow> bool" where
  "init_done e t r t' \<longleftrightarrow>
     (if ri_code r = REG_INIT_SUCCESS
      then table_ok reg_mem_read reg_mem_write mem_cells t' \<and> rt_entries t' = rt_entries t \<and>
        (\<forall>i < rt_entries t. \<exists>x y. entry_at t i = Some x \<and> entry_at t' i = Some y \<and> unlinked y = unlinked x \<and> default_loaded e t' y)
      else \<not> table_initialised t')"

lemma init_tail:
  assumes b: "mem_backed t" "areas_roomy t" "entries_ordered t" "rt_entries t < 2 ^ 32 - 1"
    and x: "\<forall>i < rt_entries t. \<exists>x. entry_at t i = Some x \<and> re_type x \<noteq> REG_TYPE_INVALID \<and> check_matches x"
    and n: "rt_areas t = areas" "rt_entries t = entries"
  shows "\<exists>r t'. do {
       t \<leftarrow> clear_areas t [0 ..< areas];
       let t = set_flags t REG_TF_INITIALISED;
       (wrong, t) \<leftarrow> link_entries e t [0 ..< entries];
       case wrong of
         Some r \<Rightarrow> Some (r, Some t)
       | None \<Rightarrow> do {
           t \<leftarrow> link_areas t 0 [0 ..< areas];
           Some (init_result REG_INIT_SUCCESS (Pos_address 0), Some (clear_flags t REG_TF_DURING_INIT))
         }
     } = Some (r, Some t') \<and> init_done e t r t'"
proof -
  obtain t1 where t1: "clear_areas t [0 ..< rt_areas t] = Some t1" "mem_backed t1" "same_layout t t1"
    using clear_areas_ok [OF b(1), of "[0 ..< rt_areas t]"] by (auto simp: atLeast0LessThan)
  let ?t2 = "set_flags t1 REG_TF_INITIALISED"
  have n1: "rt_areas t1 = rt_areas t" "rt_entries t1 = rt_entries t" "entry_at t1 i = entry_at t i" for i
    using t1(3) same_layout_entries [OF t1(3)] by (simp_all add: same_layout_def)
  note flags = flags_table [where t' = ?t2 and t = t1, OF disjI1 [OF refl]]
  have "areas_roomy t1" "entries_ordered t1"
    using same_layout_roomy [OF t1(3) mem.backed_areas [OF b(1)] b(2)] b(3) n1 by (simp_all add: entries_ordered_def)
  then have "linking e 0 ?t2"
    using t1(2) flags n1 x by (simp add: linking_def table_flags flag_bits)
  from link_entries_ok [OF this] consider
      (good) t3 where "link_entries e ?t2 [0 ..< rt_entries ?t2] = Some (None, t3)" "linking e (rt_entries ?t2) t3"
        "rt_entries t3 = rt_entries t" "rt_areas t3 = rt_areas t"
        "\<forall>i. map_option unlinked (entry_at t3 i) = map_option unlinked (entry_at t i)"
    | (bad) r t3 where "link_entries e ?t2 [0 ..< rt_entries ?t2] = Some (Some r, t3)" "ri_code r \<noteq> REG_INIT_SUCCESS"
        "\<not> table_initialised t3"
    using n1 by auto
  then show ?thesis
  proof cases
    case bad
    then show ?thesis
      using t1(1) n1 n by (simp add: Let_def init_done_def)
  next
    case good
    have b3: "mem_backed t3" "areas_ok t3" "table_initialised t3" "entries_ordered t3"
      using good(2) by (simp_all add: linking_def backed_def)
    have x3: "\<exists>y. entry_at t3 i = Some y \<and> entry_ok t3 y \<and> default_loaded e t3 y" if "i < rt_entries t" for i
      using good(2,3) that n1 unfolding linking_def by auto
    then have "\<forall>i < rt_entries t3. \<exists>x. entry_at t3 i = Some x"
      using good(3) by auto
    from link_areas_ok [OF relinked_refl b3(2) this, of "[0 ..< rt_areas t]" 0]
    obtain t4 where t4: "link_areas t3 0 [0 ..< rt_areas t] = Some t4" "relinked t3 t4"
      using good(4) by auto
    let ?t5 = "clear_flags t4 REG_TF_DURING_INIT"
    note flags5 = flags_table [where t' = ?t5 and t = t4, OF disjI2 [OF refl]]
    note keep = relinked_table [OF t4(2) b3(2)]
    have n4: "rt_entries t4 = rt_entries t" "rt_areas t4 = rt_areas t" "entry_at t4 = entry_at t3" "rt_flags t4 = rt_flags t3"
      using t4(2) good(3,4) by (simp_all add: relinked_def)
    have x5: "\<exists>y. entry_at ?t5 i = Some y \<and> entry_ok ?t5 y \<and> default_loaded e ?t5 y" if "i < rt_entries t" for i
      using x3 [OF that] flags5(2,3) keep(2,5) n4 by auto
    have "table_ok reg_mem_read reg_mem_write mem_cells ?t5"
      unfolding table_ok_def
    proof (intro conjI allI impI)
      show "mem_backed ?t5"
        using flags5(1) keep(1) [OF b3(1)] by blast
      show "table_initialised ?t5"
        using b3(3) n4 by (simp add: table_flags flag_bits)
      show "rt_entries ?t5 < 2 ^ 32 - 1"
        using b(4) n4 by simp
      fix i assume "i < rt_entries ?t5"
      then show "\<exists>x. entry_at ?t5 i = Some x \<and> entry_ok ?t5 x \<and>
          (\<forall>j y. i < j \<longrightarrow> j < rt_entries ?t5 \<longrightarrow> entry_at ?t5 j = Some y \<longrightarrow> re_address x + rds_size (re_type x) \<le> re_address y)"
        using x5 [of i] b3(4) n4 good(3) unfolding entries_ordered_def by auto
    qed
    moreover have "\<exists>x y. entry_at t i = Some x \<and> entry_at ?t5 i = Some y \<and> unlinked y = unlinked x \<and> default_loaded e ?t5 y"
      if "i < rt_entries t" for i
    proof -
      obtain y where y: "entry_at ?t5 i = Some y" "default_loaded e ?t5 y"
        using x5 [OF \<open>i < rt_entries t\<close>] by blast
      moreover have "map_option unlinked (entry_at ?t5 i) = map_option unlinked (entry_at t i)"
        using good(5) n4 by simp
      ultimately show ?thesis
        by (cases "entry_at t i") auto
    qed
    ultimately show ?thesis
      using t1(1) good(1) t4(1) n1 n4 n by (intro exI [of _ "init_result REG_INIT_SUCCESS (Pos_address 0)"] exI [of _ ?t5])
        (simp add: Let_def init_done_def)
  qed
qed

lemma checked_areas:
  assumes "rt_areas t = n" "n < 2 ^ 16" "\<And>i. i < n \<Longrightarrow> \<exists>a. area_at t i = Some a \<and> ra_base a + ra_size a + 4 \<le> 2 ^ 32"
    and "\<forall>i a b. Suc i < n \<longrightarrow> area_at t i = Some a \<longrightarrow> area_at t (Suc i) = Some b \<longrightarrow> ra_base a + ra_size a \<le> ra_base b"
  shows "areas_ok t"
  unfolding areas_ok_def assms(1)
proof (intro conjI allI impI assms(2))
  fix i assume "i < n"
  then obtain a where a: "area_at t i = Some a" "ra_base a + ra_size a + 4 \<le> 2 ^ 32"
    using assms(3) by blast
  let ?lo = "\<lambda>i. ra_base (the (area_at t i))" and ?hi = "\<lambda>i. ra_base (the (area_at t i)) + ra_size (the (area_at t i))"
  have next_to: "?hi k \<le> ?lo (Suc k)" if "Suc k < n" for k
  proof -
    obtain x y where "area_at t k = Some x" "area_at t (Suc k) = Some y"
      using assms(3) [of k] assms(3) [of "Suc k"] \<open>Suc k < n\<close> by auto
    with assms(4) \<open>Suc k < n\<close> show ?thesis
      by simp
  qed
  have "ra_base a + ra_size a \<le> ra_base b" if "i < j" "j < n" "area_at t j = Some b" for j b
    using neighbours_ordered [where lo = ?lo and hi = ?hi, OF _ next_to that(1,2)] a(1) that(3) by simp
  then show "\<exists>a. area_at t i = Some a \<and> ra_base a + ra_size a < 2 ^ 32 \<and>
      (\<forall>j b. i < j \<longrightarrow> j < n \<longrightarrow> area_at t j = Some b \<longrightarrow> ra_base a + ra_size a \<le> ra_base b)"
    using a by (intro exI [of _ a]) auto
qed

lemma checked_entries:
  assumes "rt_entries t = n" "\<And>i. i < n \<Longrightarrow> \<exists>x. entry_at t i = Some x"
    and "\<forall>i a b. Suc i < n \<longrightarrow> entry_at t i = Some a \<longrightarrow> entry_at t (Suc i) = Some b \<longrightarrow>
           re_address a + rds_size (re_type a) \<le> re_address b"
  shows "entries_ordered t"
  unfolding entries_ordered_def assms(1)
proof (intro allI impI)
  fix i j x y assume ij: "i < j" "j < n" "entry_at t i = Some x" "entry_at t j = Some y"
  let ?lo = "\<lambda>i. re_address (the (entry_at t i))"
    and ?hi = "\<lambda>i. re_address (the (entry_at t i)) + rds_size (re_type (the (entry_at t i)))"
  have next_to: "?hi k \<le> ?lo (Suc k)" if "Suc k < n" for k
  proof -
    obtain x y where "entry_at t k = Some x" "entry_at t (Suc k) = Some y"
      using assms(2) [of k] assms(2) [of "Suc k"] \<open>Suc k < n\<close> by auto
    with assms(3) \<open>Suc k < n\<close> show ?thesis
      by simp
  qed
  show "re_address x + rds_size (re_type x) \<le> re_address y"
    using neighbours_ordered [where lo = ?lo and hi = ?hi, OF _ next_to ij(1,2)] ij(3,4) by simp
qed

text \<open>A table as a program declares it, with memory areas only.\<close>

definition area_declared :: "'d RegisterArea \<Rightarrow> bool" where
  "area_declared a \<longleftrightarrow> ra_read a = Some reg_mem_read \<and> (ra_write a = None \<or> ra_write a = Some reg_mem_write) \<and>
     length (mem_cells (area_data a)) = ra_size a \<and> ra_base a + ra_size a + 4 \<le> 2 ^ 32"

definition table_declared :: "'d RegisterTable \<Rightarrow> bool" where
  "table_declared t \<longleftrightarrow> (\<exists>as m rest es z zs.
     rt_area t = Some (as @ m # rest) \<and> length as < AREA_HANDLE_MAX \<and> is_end_of_areas m \<and>
     (\<forall>a \<in> set as. \<not> is_end_of_areas a \<and> area_declared a) \<and>
     rt_entry t = Some (es @ z # zs) \<and> length es < REGISTER_HANDLE_MAX \<and> is_end_of_entries z \<and>
     (\<forall>x \<in> set es. \<not> is_end_of_entries x \<and> check_matches x))"

lemma unlinked_fields: "unlinked y = unlinked x \<Longrightarrow> re_default y = re_default x \<and> re_type y = re_type x"
  by (cases x; cases y) (simp add: unlinked_def)

lemma default_got:
  assumes "table_ok reg_mem_read reg_mem_write mem_cells t" "i < rt_entries t" "entry_at t i = Some x" "default_loaded e t x"
  shows "\<exists>k a. re_area x = Some k \<and> area_at t k = Some a \<and>
     (register_area_can_write a \<and> \<not> BIT_ISSET (ra_flags a) REG_AF_SKIP_DEFAULTS \<longrightarrow>
        register_get e t i no_value = Some (REG_ACCESS_RESULT_INIT, \<lparr>rv_type = re_type x, rv_value = re_default x\<rparr>, t) \<and>
        valid_at mem_cells e t i)"
proof -
  obtain k a where "re_area x = Some k" "area_at t k = Some a"
    using assms(4) by (auto simp: default_loaded_def split: option.splits)
  moreover from this assms(4) have "register_get e t i no_value =
        Some (REG_ACCESS_RESULT_INIT, \<lparr>rv_type = re_type x, rv_value = re_default x\<rparr>, t) \<and> valid_at mem_cells e t i"
    if "register_area_can_write a" "\<not> BIT_ISSET (ra_flags a) REG_AF_SKIP_DEFAULTS"
    using that mem.get_ok [OF assms(1-3)] assms(3)
    by (auto simp: default_loaded_def register_area_can_write_def valid_at_def register_valid_def)
  ultimately show ?thesis
    by blast
qed

lemma init_runs:
  assumes as: "rt_area t = Some (as @ m # rest)" "length as < AREA_HANDLE_MAX" "is_end_of_areas m"
      "\<forall>a \<in> set as. \<not> is_end_of_areas a" "\<forall>a \<in> set as. area_declared a"
    and es: "rt_entry t = Some (es @ z # zs)" "length es < REGISTER_HANDLE_MAX" "is_end_of_entries z"
      "\<forall>x \<in> set es. \<not> is_end_of_entries x" "\<forall>x \<in> set es. check_matches x"
    and t: "u = set_flags (clear_flags t REG_TF_INITIALISED) REG_TF_DURING_INIT\<lparr>rt_areas := length as, rt_entries := length es\<rparr>"
  shows "\<exists>r t'. register_init e (Some t) = Some (r, Some t') \<and> init_done e u r t'"
proof -
  have n: "rt_areas u = length as" "rt_entries u = length es"
    by (simp_all add: t)
  have unusable: "\<not> table_initialised (clear_flags u REG_TF_DURING_INIT)"
    by (simp add: t table_flags flag_bits)
  have counts: "reg_count_areas (as @ m # rest) 0 = Some (length as)" "reg_count_entries (es @ z # zs) 0 = Some (length es)"
    using count_areas_eq [OF as(4,3), of 0] count_entries_eq [OF es(4,3), of 0] as(2) es(2) by simp_all
  note begin_run = as(1,2) es(1,2) counts
  have areas: "\<exists>a. area_at u i = Some a \<and> a \<in> set as \<and> ra_base a + ra_size a + 4 \<le> 2 ^ 32" if "i < length as" for i
    using that as(1,5) by (auto simp: t area_at_def area_declared_def nth_append)
  have entries: "entry_at u i = Some (es ! i)" if "i < length es" for i
    using that es(1) by (auto simp: t entry_at_def nth_append)
  show ?thesis
  proof (cases "as = []")
    case True
    then show ?thesis
      using begin_run unusable by (auto simp: register_init_def init_done_def t Let_def)
  next
    case some: False
    then obtain a0 where a0: "area_at u 0 = Some a0"
      using areas [of 0] by auto
    have ends: "\<exists>a. area_at u i = Some a \<and> ra_base a + ra_size a < 2 ^ 32" if "i < length as" for i
      using areas [OF that] by force
    have "0 < length as"
      using some by simp
    from check_areas_ok [OF ends this a0] obtain ra where
      ra: "check_areas u (ra_base a0) [Suc 0 ..< length as] = Some ra"
        "ra = None \<longrightarrow> (\<forall>i a b. 0 \<le> i \<longrightarrow> Suc i < length as \<longrightarrow> area_at u i = Some a \<longrightarrow> area_at u (Suc i) = Some b \<longrightarrow>
          ra_base a + ra_size a \<le> ra_base b)" "\<forall>q. ra = Some q \<longrightarrow> ri_code q \<noteq> REG_INIT_SUCCESS"
      by blast
    obtain x0 where x0: "entry_at u 0 = Some x0"
      using es(1) by (auto simp: t entry_at_def nth_append)
    obtain re where re: "check_entries u (re_address x0) [Suc 0 ..< length es] = Some re"
      "re = None \<longrightarrow> (\<forall>i a b. 0 \<le> i \<longrightarrow> Suc i < length es \<longrightarrow> entry_at u i = Some a \<longrightarrow> entry_at u (Suc i) = Some b \<longrightarrow>
         re_address a + rds_size (re_type a) \<le> re_address b)" "\<forall>q. re = Some q \<longrightarrow> ri_code q \<noteq> REG_INIT_SUCCESS"
    proof (cases "es = []")
      case False
      then have "0 < length es"
        by simp
      from check_entries_ok [OF _ this x0] entries show ?thesis
        using that by blast
    qed (use that [of None] in simp)
    note middle = begin_run some a0 ra(1) x0 re(1)
    show ?thesis
    proof (cases "ra = None \<and> re = None")
      case False
      then show ?thesis
        using middle ra(3) re(3) unusable by (cases ra; cases re) (auto simp: register_init_def init_done_def t Let_def)
    next
      case fine: True
      have "areas_ok u"
        using checked_areas [OF n(1)] as(2) areas ra(2) fine by (fastforce simp: AREA_HANDLE_MAX_def)
      then have backed: "mem_backed u"
        unfolding backed_def n using areas as(5) by (fastforce simp: area_declared_def)
      have roomy: "areas_roomy u"
        unfolding areas_roomy_def n using areas by fastforce
      have ordered: "entries_ordered u"
        using checked_entries [OF n(2)] entries re(2) fine by fastforce
      have kinds: "\<forall>i < rt_entries u. \<exists>x. entry_at u i = Some x \<and> re_type x \<noteq> REG_TYPE_INVALID \<and> check_matches x"
        using entries es(4,5) n by (simp add: is_end_of_entries_def)
      have few: "rt_entries u < 2 ^ 32 - 1"
        using es(2) n by (simp add: REGISTER_HANDLE_MAX_def)
      from init_tail [OF backed roomy ordered few kinds n, of e] show ?thesis
        using middle fine by (simp add: register_init_def t Let_def)
    qed
  qed
qed

text \<open>C16. Initialisation: register_init returns for every table a program declares with memory areas that end at least four
  atoms below the end of the address space. A table that is
  accepted is well-formed: areas and registers are in order and apart, every register is linked to the area
  that holds all of it, and, where its area loads defaults, reads back as its default, which its validator
  accepts. A table that is refused is not marked as initialised, so no operation will use it.\<close>

lemma register_init_ok:
  assumes "table_declared t"
  shows "\<exists>r t'. register_init e (Some t) = Some (r, Some t') \<and>
     (if ri_code r = REG_INIT_SUCCESS
      then table_ok reg_mem_read reg_mem_write mem_cells t' \<and>
        (\<forall>i < rt_entries t'. \<exists>x y k a. entry_at t i = Some x \<and> entry_at t' i = Some y \<and> unlinked y = unlinked x \<and>
           re_area y = Some k \<and> area_at t' k = Some a \<and>
           (register_area_can_write a \<and> \<not> BIT_ISSET (ra_flags a) REG_AF_SKIP_DEFAULTS \<longrightarrow>
              register_get e t' i no_value = Some (REG_ACCESS_RESULT_INIT, \<lparr>rv_type = re_type x, rv_value = re_default x\<rparr>, t') \<and>
              valid_at mem_cells e t' i))
      else \<not> table_initialised t')"
proof -
  obtain as m rest es z zs where
    as: "rt_area t = Some (as @ m # rest)" "length as < AREA_HANDLE_MAX" "is_end_of_areas m"
      "\<forall>a \<in> set as. \<not> is_end_of_areas a" "\<forall>a \<in> set as. area_declared a" and
    es: "rt_entry t = Some (es @ z # zs)" "length es < REGISTER_HANDLE_MAX" "is_end_of_entries z"
      "\<forall>x \<in> set es. \<not> is_end_of_entries x" "\<forall>x \<in> set es. check_matches x"
    using assms unfolding table_declared_def by metis
  let ?u = "set_flags (clear_flags t REG_TF_INITIALISED) REG_TF_DURING_INIT\<lparr>rt_areas := length as, rt_entries := length es\<rparr>"
  have at: "entry_at ?u = entry_at t"
    by (simp add: fun_eq_iff entry_at_def)
  obtain r t' where t': "register_init e (Some t) = Some (r, Some t')" "init_done e ?u r t'"
    using init_runs [OF as es refl, of e] by blast
  show ?thesis
  proof (cases "ri_code r = REG_INIT_SUCCESS")
    case True
    note ok = t'(2) [unfolded init_done_def if_P [OF True] at]
    have "\<exists>x y k a. entry_at t i = Some x \<and> entry_at t' i = Some y \<and> unlinked y = unlinked x \<and>
         re_area y = Some k \<and> area_at t' k = Some a \<and>
         (register_area_can_write a \<and> \<not> BIT_ISSET (ra_flags a) REG_AF_SKIP_DEFAULTS \<longrightarrow>
            register_get e t' i no_value = Some (REG_ACCESS_RESULT_INIT, \<lparr>rv_type = re_type x, rv_value = re_default x\<rparr>, t') \<and>
            valid_at mem_cells e t' i)" if i: "i < rt_entries t'" for i
    proof -
      obtain x y where y: "entry_at t i = Some x" "entry_at t' i = Some y" "unlinked y = unlinked x" "default_loaded e t' y"
        using ok i by metis
      with default_got [OF _ i y(2,4)] ok unlinked_fields [OF y(3)] show ?thesis
        by metis
    qed
    with t'(1) True ok show ?thesis
      by (intro exI [of _ r] exI [of _ t']) simp
  qed (use t' in \<open>auto simp: init_done_def\<close>)
qed

lemma some_table_declared: "table_declared some_table"
proof -
  have "rt_area some_table = Some ([some_area] @ area_end # [])" "rt_entry some_table = Some ([some_entry, other_entry] @ entry_end # [])"
    by (simp_all add: some_table_def)
  moreover have "is_end_of_areas area_end" "\<not> is_end_of_areas some_area" "is_end_of_entries entry_end"
    "\<not> is_end_of_entries some_entry" "\<not> is_end_of_entries other_entry"
    by (simp_all add: is_end_of_areas_def is_end_of_entries_def area_end_def some_area_def entry_end_def some_entry_def other_entry_def)
  moreover have "area_declared some_area" "check_matches some_entry" "check_matches other_entry"
    by (simp_all add: area_declared_def check_matches_def some_area_def some_entry_def other_entry_def mem_cells_def)
  moreover have "length [some_area] < AREA_HANDLE_MAX" "length [some_entry, other_entry] < REGISTER_HANDLE_MAX"
    by (simp_all add: AREA_HANDLE_MAX_def REGISTER_HANDLE_MAX_def)
  ultimately show ?thesis
    unfolding table_declared_def by (metis (no_types) list.set_intros empty_iff insert_iff list.set)
qed

lemma register_init_ok_witness:
  "\<exists>r t'. register_init SYSTEM_ENDIANNESS_LITTLE (Some some_table) = Some (r, Some t') \<and>
     (if ri_code r = REG_INIT_SUCCESS
      then table_ok reg_mem_read reg_mem_write mem_cells t' \<and>
        (\<forall>i < rt_entries t'. \<exists>x y k a. entry_at some_table i = Some x \<and> entry_at t' i = Some y \<and> unlinked y = unlinked x \<and>
           re_area y = Some k \<and> area_at t' k = Some a \<and>
           (register_area_can_write a \<and> \<not> BIT_ISSET (ra_flags a) REG_AF_SKIP_DEFAULTS \<longrightarrow>
              register_get SYSTEM_ENDIANNESS_LITTLE t' i no_value =
                Some (REG_ACCESS_RESULT_INIT, \<lparr>rv_type = re_type x, rv_value = re_default x\<rparr>, t') \<and>
              valid_at mem_cells SYSTEM_ENDIANNESS_LITTLE t' i))
      else \<not> table_initialised t')"
  by (rule register_init_ok [OF some_table_declared])

end
