(* ===== verification/Register_Protocol.thy ===== *)
theory Register_Protocol
  imports Register_Init Length_Prefix Slip Crc16
begin

text \<open>
  The register protocol: \<^verbatim>\<open>src/register-protocol.c\<close> and \<^verbatim>\<open>include/ufw/register-protocol.h\<close>, with memory of
  eight-bit bytes and \<^verbatim>\<open>WITH_UINT8_T\<close>. \<open>e\<close> is the octet order of the machine.

  An instance has the memory it serves, reached through callbacks that transform a state, a session counter, a
  channel (a source, a sink and the kind of framing) and a block allocator. A received frame is a block from the
  allocator: the structure \<open>RPFrame\<close> is laid over its beginning and the raw frame follows. Pointers into the
  block are offsets. The structure is kept beside the octets of the block, and is \<open>None\<close> until it is first
  written: reading it before that is undefined. Enumerations are the numbers C gives them.
\<close>

section \<open>Constants\<close>

definition RP_IMPLEMENTATION_VERSION :: u32 where "RP_IMPLEMENTATION_VERSION = 0"
definition RP_DEFAULT_BUFFER_SIZE :: nat where "RP_DEFAULT_BUFFER_SIZE = 128"

definition RP_OPT_WORD_SIZE_16 :: u32 where "RP_OPT_WORD_SIZE_16 = BIT 0"
definition RP_OPT_WITH_HEADER_CRC :: u32 where "RP_OPT_WITH_HEADER_CRC = BIT 1"
definition RP_OPT_WITH_PAYLOAD_CRC :: u32 where "RP_OPT_WITH_PAYLOAD_CRC = BIT 2"

type_synonym RPFrameType = u32

definition RP_FRAME_INVALID :: RPFrameType where "RP_FRAME_INVALID = - 1"
definition RP_FRAME_READ_REQUEST :: RPFrameType where "RP_FRAME_READ_REQUEST = 0"
definition RP_FRAME_READ_RESPONSE :: RPFrameType where "RP_FRAME_READ_RESPONSE = 1"
definition RP_FRAME_WRITE_REQUEST :: RPFrameType where "RP_FRAME_WRITE_REQUEST = 2"
definition RP_FRAME_WRITE_RESPONSE :: RPFrameType where "RP_FRAME_WRITE_RESPONSE = 3"
definition RP_FRAME_META :: RPFrameType where "RP_FRAME_META = 15"

type_synonym RPResponse = u32

definition RP_RESP_ACK :: RPResponse where "RP_RESP_ACK = 0"
definition RP_RESP_EWORDSIZE :: RPResponse where "RP_RESP_EWORDSIZE = 1"
definition RP_RESP_EPAYLOADCRC :: RPResponse where "RP_RESP_EPAYLOADCRC = 2"
definition RP_RESP_EPAYLOADSIZE :: RPResponse where "RP_RESP_EPAYLOADSIZE = 3"
definition RP_RESP_ERXOVERFLOW :: RPResponse where "RP_RESP_ERXOVERFLOW = 4"
definition RP_RESP_ETXOVERFLOW :: RPResponse where "RP_RESP_ETXOVERFLOW = 5"
definition RP_RESP_EBUSY :: RPResponse where "RP_RESP_EBUSY = 6"
definition RP_RESP_EUNMAPPED :: RPResponse where "RP_RESP_EUNMAPPED = 7"
definition RP_RESP_EACCESS :: RPResponse where "RP_RESP_EACCESS = 8"
definition RP_RESP_ERANGE :: RPResponse where "RP_RESP_ERANGE = 9"
definition RP_RESP_EINVALID :: RPResponse where "RP_RESP_EINVALID = 10"
definition RP_RESP_EIO :: RPResponse where "RP_RESP_EIO = 11"

definition RP_META_EHEADERENC :: u8 where "RP_META_EHEADERENC = 1"
definition RP_META_EHEADERCRC :: u8 where "RP_META_EHEADERCRC = 2"

definition RP_HEADER_SIZE_16 :: nat where "RP_HEADER_SIZE_16 = 8"
definition RP_HEADER_MIN_SIZE_16 :: nat where "RP_HEADER_MIN_SIZE_16 = 6"
definition RP_HEADER_SIZE :: nat where "RP_HEADER_SIZE = RP_HEADER_SIZE_16 * 2"
definition RP_HEADER_MIN_SIZE :: nat where "RP_HEADER_MIN_SIZE = RP_HEADER_MIN_SIZE_16 * 2"

definition MSEM_AUTO :: nat where "MSEM_AUTO = 0"
definition MSEM_8BIT :: nat where "MSEM_8BIT = 1"
definition MSEM_16BIT :: nat where "MSEM_16BIT = 2"

named_theorems rp_consts \<open>constants of the register protocol\<close>

lemmas rp_frame_types [rp_consts] = RP_FRAME_INVALID_def RP_FRAME_READ_REQUEST_def RP_FRAME_READ_RESPONSE_def
  RP_FRAME_WRITE_REQUEST_def RP_FRAME_WRITE_RESPONSE_def RP_FRAME_META_def
lemmas rp_responses [rp_consts] = RP_RESP_ACK_def RP_RESP_EWORDSIZE_def RP_RESP_EPAYLOADCRC_def RP_RESP_EPAYLOADSIZE_def
  RP_RESP_ERXOVERFLOW_def RP_RESP_ETXOVERFLOW_def RP_RESP_EBUSY_def RP_RESP_EUNMAPPED_def RP_RESP_EACCESS_def
  RP_RESP_ERANGE_def RP_RESP_EINVALID_def RP_RESP_EIO_def RP_META_EHEADERENC_def RP_META_EHEADERCRC_def
lemmas rp_sizes [rp_consts] = RP_HEADER_SIZE_16_def RP_HEADER_MIN_SIZE_16_def RP_HEADER_SIZE_def RP_HEADER_MIN_SIZE_def
  RP_IMPLEMENTATION_VERSION_def MSEM_AUTO_def MSEM_8BIT_def MSEM_16BIT_def

section \<open>State\<close>

record RPBlockAccess =
  ba_status :: RPResponse
  ba_address :: u32

text \<open>
  A read callback gives its verdict, what it stored from the beginning of the buffer on, and the memory; a write
  callback gets what the buffer holds.
\<close>

type_synonym 'm RPBlockRead16 = "u32 \<Rightarrow> nat \<Rightarrow> 'm \<Rightarrow> (RPBlockAccess \<times> u16 list \<times> 'm) option"
type_synonym 'm RPBlockWrite16 = "u32 \<Rightarrow> nat \<Rightarrow> u16 list \<Rightarrow> 'm \<Rightarrow> (RPBlockAccess \<times> 'm) option"
type_synonym 'm RPBlockRead8 = "u32 \<Rightarrow> nat \<Rightarrow> 'm \<Rightarrow> (RPBlockAccess \<times> u8 list \<times> 'm) option"
type_synonym 'm RPBlockWrite8 = "u32 \<Rightarrow> nat \<Rightarrow> u8 list \<Rightarrow> 'm \<Rightarrow> (RPBlockAccess \<times> 'm) option"

datatype 'm RPMemory =
    RP_MEMTYPE_8 "'m RPBlockRead8" "'m RPBlockWrite8"
  | RP_MEMTYPE_16 "'m RPBlockRead16" "'m RPBlockWrite16"

datatype RPEndpointType = RP_EP_SERIAL | RP_EP_TCP

record ('s, 't) RPEndpoint =
  ep_type :: RPEndpointType
  ep_source :: "'s Source"
  ep_sink :: "'t Sink"

record ('m, 's, 't, 'd) RegP =
  rp_memory :: "'m RPMemory"
  rp_world :: 'm
  rp_sequence :: u16
  rp_ep :: "('s, 't) RPEndpoint"
  rp_alloc :: "'d BlockAllocator"

record RPHeader =
  rh_version :: u8
  rh_type :: RPFrameType
  rh_options :: u8
  rh_meta :: u32
  rh_sequence :: u16
  rh_address :: u32
  rh_blocksize :: u32
  rh_hdcrc :: u16
  rh_plcrc :: u16

record RPFrame =
  fr_header :: RPHeader
  fr_payload_size :: nat
  fr_payload_data :: nat
  fr_raw_memory :: nat
  fr_raw_size :: nat

text \<open>\<open>sizeof(RPFrame)\<close>, on machines with 32-bit \<open>int\<close> and 64-bit pointers and \<open>size_t\<close>.\<close>

definition SIZEOF_RPFrame :: nat where "SIZEOF_RPFrame = 64"

record RPBlock =
  rb_frame :: "RPFrame option"
  rb_octets :: "u8 list"

record RPMaybeFrame =
  mf_error :: int
  mf_framesize :: nat
  mf_frame :: "RPBlock option"

record RPRange =
  rr_address :: u32
  rr_size :: nat

section \<open>Headers\<close>

text \<open>Words in memory, and local variables before they are assigned.\<close>

definition words_at :: "endianness \<Rightarrow> u8 list \<Rightarrow> nat \<Rightarrow> nat \<Rightarrow> u16 list option" where
  "words_at e m off n = do { xs \<leftarrow> mem_read m off (2 * n); Some (octets_atoms e xs) }"

definition local_words :: "nat \<Rightarrow> u8 list" where
  "local_words n = replicate (2 * n) 0"

definition local_header :: RPHeader where
  "local_header = \<lparr>rh_version = 0, rh_type = 0, rh_options = 0, rh_meta = 0, rh_sequence = 0, rh_address = 0,
     rh_blocksize = 0, rh_hdcrc = 0, rh_plcrc = 0\<rparr>"

definition raw_with_hdcrc :: "u16 \<Rightarrow> bool" where
  "raw_with_hdcrc motv = BIT_ISSET (ucast motv) (push_bit 8 RP_OPT_WITH_HEADER_CRC)"

definition raw_with_plcrc :: "u16 \<Rightarrow> bool" where
  "raw_with_plcrc motv = BIT_ISSET (ucast motv) (push_bit 8 RP_OPT_WITH_PAYLOAD_CRC)"

definition memory16 :: "('m, 's, 't, 'd) RegP \<Rightarrow> bool" where
  "memory16 p = (case rp_memory p of RP_MEMTYPE_16 _ _ \<Rightarrow> True | RP_MEMTYPE_8 _ _ \<Rightarrow> False)"

definition make_motv :: "('m, 's, 't, 'd) RegP \<Rightarrow> nat \<Rightarrow> u8 \<Rightarrow> RPFrameType \<Rightarrow> nat \<Rightarrow> u16" where
  "make_motv p msem meta t n =
     (let rv = ucast (RP_IMPLEMENTATION_VERSION AND 0x0f);
          rv = rv OR ucast (push_bit 4 (t AND 0x0f));
          rv = rv OR ucast (push_bit 8
            ((if (msem = MSEM_AUTO \<and> memory16 p) \<or> msem = MSEM_16BIT then RP_OPT_WORD_SIZE_16 else 0)
             OR (if ep_type (rp_ep p) = RP_EP_SERIAL then RP_OPT_WITH_HEADER_CRC else 0)
             OR (if ep_type (rp_ep p) = RP_EP_SERIAL \<and> n > 0 \<and> t \<noteq> RP_FRAME_READ_REQUEST
                 then RP_OPT_WITH_PAYLOAD_CRC else 0)))
      in rv OR ucast (push_bit 12 (ucast meta :: u32)))"

definition populate_header ::
    "endianness \<Rightarrow> u8 list \<Rightarrow> ('m, 's, 't, 'd) RegP \<Rightarrow> nat \<Rightarrow> RPFrameType \<Rightarrow> u8 \<Rightarrow> u16 \<Rightarrow> u32 \<Rightarrow> nat \<Rightarrow> u16 \<Rightarrow> u8 list option" where
  "populate_header e buf p msem t meta seqno address n plcrc = do {
     (_, buf) \<leftarrow> bf_set_u16b e buf 0 (make_motv p msem meta t n);
     (_, buf) \<leftarrow> bf_set_u16b e buf (2 * 1) seqno;
     (_, buf) \<leftarrow> bf_set_u32b e buf (2 * 2) address;
     (_, buf) \<leftarrow> bf_set_u32b e buf (2 * 4) (of_nat n);
     buf \<leftarrow> mem_write buf (2 * 6) (obj_octets e (0 :: u16));
     (_, buf) \<leftarrow> bf_set_u16b e buf (2 * 7) plcrc;
     Some buf
   }"

definition encode_header ::
    "endianness \<Rightarrow> u8 list \<Rightarrow> ('m, 's, 't, 'd) RegP \<Rightarrow> nat \<Rightarrow> RPFrameType \<Rightarrow> u8 \<Rightarrow> u16 \<Rightarrow> u32 \<Rightarrow> nat \<Rightarrow> u16
       \<Rightarrow> (nat \<times> u8 list) option" where
  "encode_header e buf p msem t meta seqno address n plcrc = do {
     buf \<leftarrow> populate_header e buf p msem t meta seqno address n plcrc;
     motv \<leftarrow> bf_ref_u16b e buf 0;
     let with_hdcrc = raw_with_hdcrc motv;
     let with_plcrc = raw_with_plcrc motv;
     let size' = RP_HEADER_MIN_SIZE_16;
     (size', buf) \<leftarrow> (if with_hdcrc then do {
         ws \<leftarrow> words_at e buf 0 RP_HEADER_MIN_SIZE_16;
         crc \<leftarrow> ufw_buffer_crc16_arc_u16 e ws RP_HEADER_MIN_SIZE_16;
         crc \<leftarrow> (if with_plcrc then do {
             ws \<leftarrow> words_at e buf (2 * (RP_HEADER_SIZE_16 - 1)) 1;
             ufw_crc16_arc_u16 e crc ws 1
           } else Some crc);
         (_, buf) \<leftarrow> bf_set_u16b e buf (2 * RP_HEADER_MIN_SIZE_16) crc;
         Some (size' + 1, buf)
       } else Some (size', buf));
     Some (if with_plcrc then size' + 1 else size', buf)
   }"

text \<open>The header is parsed from the octets at \<open>off\<close> of a memory object; the fields are assigned one by one.\<close>

definition meta_plausible :: "RPFrameType \<Rightarrow> u32 \<Rightarrow> bool" where
  "meta_plausible t meta =
     (if t = RP_FRAME_READ_REQUEST \<or> t = RP_FRAME_WRITE_REQUEST then meta = 0
      else if t = RP_FRAME_READ_RESPONSE \<or> t = RP_FRAME_WRITE_RESPONSE then \<not> meta > RP_RESP_EINVALID
      else if t = RP_FRAME_META then \<not> (meta < 1 \<or> meta > 2)
      else False)"

definition parse_checksums ::
    "endianness \<Rightarrow> RPHeader \<Rightarrow> u16 \<Rightarrow> u8 list \<Rightarrow> nat \<Rightarrow> nat \<Rightarrow> (int \<times> RPHeader) option" where
  "parse_checksums e h motv m off n = do {
     let with_hdcrc = raw_with_hdcrc motv;
     let with_plcrc = raw_with_plcrc motv;
     let offset = 6;
     if with_hdcrc \<and> with_plcrc \<and> n < RP_HEADER_SIZE then Some (- EBADMSG, h)
     else if (with_hdcrc \<or> with_plcrc) \<and> n < RP_HEADER_SIZE - 2 then Some (- EBADMSG, h)
     else do {
       (crc, h, offset) \<leftarrow> (if with_hdcrc then do {
           hdcrc \<leftarrow> bf_ref_u16b e m (off + 2 * offset);
           ws \<leftarrow> words_at e m off offset;
           crc \<leftarrow> ufw_buffer_crc16_arc_u16 e ws offset;
           crc \<leftarrow> (if with_plcrc then do {
               ws \<leftarrow> words_at e m (off + 2 * (RP_HEADER_SIZE_16 - 1)) 1;
               ufw_crc16_arc_u16 e crc ws 1
             } else Some crc);
           Some (crc, h\<lparr>rh_hdcrc := hdcrc\<rparr>, offset + 1)
         } else Some (0, h, offset));
       (h, offset) \<leftarrow> (if with_plcrc then do {
           plcrc \<leftarrow> bf_ref_u16b e m (off + 2 * offset);
           Some (h\<lparr>rh_plcrc := plcrc\<rparr>, offset + 1)
         } else Some (h, offset));
       Some (if crc = rh_hdcrc h then int offset else - EILSEQ, h)
     }
   }"

definition parse_header :: "endianness \<Rightarrow> RPHeader \<Rightarrow> u8 list \<Rightarrow> nat \<Rightarrow> nat \<Rightarrow> (int \<times> RPHeader) option" where
  "parse_header e h m off n =
     (if n < RP_HEADER_MIN_SIZE then Some (- EBADMSG, h)
      else do {
        motv \<leftarrow> bf_ref_u16b e m off;
        let h = h\<lparr>rh_version := ucast (BIT_GET (ucast motv) 4 0)\<rparr>;
        if ucast (rh_version h) \<noteq> RP_IMPLEMENTATION_VERSION then Some (- EBADMSG, h)
        else do {
          let h = h\<lparr>rh_type := BIT_GET (ucast motv) 4 4, rh_options := ucast (BIT_GET (ucast motv) 4 8)\<rparr>;
          if rh_options h AND 0x8 \<noteq> 0 then Some (- EBADMSG, h)
          else do {
            let h = h\<lparr>rh_meta := BIT_GET (ucast motv) 4 12\<rparr>;
            if \<not> meta_plausible (rh_type h) (rh_meta h) then Some (- EBADMSG, h)
            else do {
              seqno \<leftarrow> bf_ref_u16b e m (off + 2 * 1);
              address \<leftarrow> bf_ref_u32b e m (off + 2 * 2);
              blocksize \<leftarrow> bf_ref_u32b e m (off + 2 * 4);
              parse_checksums e (h\<lparr>rh_sequence := seqno, rh_address := address, rh_blocksize := blocksize,
                rh_hdcrc := 0, rh_plcrc := 0\<rparr>) motv m off n
            }
          }
        }
      })"

section \<open>Matching\<close>

text \<open>The functions of this interface take a pointer that may be NULL.\<close>

definition regp_is_valid :: "RPFrame option \<Rightarrow> bool" where
  "regp_is_valid f = (case f of None \<Rightarrow> False | Some f \<Rightarrow> rh_type (fr_header f) \<noteq> RP_FRAME_INVALID)"

definition regp_is_request :: "RPFrame option \<Rightarrow> bool" where
  "regp_is_request f = (case f of None \<Rightarrow> False
     | Some f \<Rightarrow> rh_type (fr_header f) = RP_FRAME_READ_REQUEST \<or> rh_type (fr_header f) = RP_FRAME_WRITE_REQUEST)"

definition regp_is_response :: "RPFrame option \<Rightarrow> bool" where
  "regp_is_response f = (case f of None \<Rightarrow> False
     | Some f \<Rightarrow> rh_type (fr_header f) = RP_FRAME_READ_RESPONSE \<or> rh_type (fr_header f) = RP_FRAME_WRITE_RESPONSE)"

definition regp_is_read_request :: "RPFrame option \<Rightarrow> bool" where
  "regp_is_read_request f = (case f of None \<Rightarrow> False | Some f \<Rightarrow> rh_type (fr_header f) = RP_FRAME_READ_REQUEST)"

definition regp_is_write_request :: "RPFrame option \<Rightarrow> bool" where
  "regp_is_write_request f = (case f of None \<Rightarrow> False | Some f \<Rightarrow> rh_type (fr_header f) = RP_FRAME_WRITE_REQUEST)"

definition regp_is_read_response :: "RPFrame option \<Rightarrow> bool" where
  "regp_is_read_response f = (case f of None \<Rightarrow> False | Some f \<Rightarrow> rh_type (fr_header f) = RP_FRAME_READ_RESPONSE)"

definition regp_is_write_response :: "RPFrame option \<Rightarrow> bool" where
  "regp_is_write_response f = (case f of None \<Rightarrow> False | Some f \<Rightarrow> rh_type (fr_header f) = RP_FRAME_WRITE_RESPONSE)"

definition regp_is_meta_message :: "RPFrame option \<Rightarrow> bool" where
  "regp_is_meta_message f = (case f of None \<Rightarrow> False | Some f \<Rightarrow> rh_type (fr_header f) = RP_FRAME_META)"

definition regp_is_16bitsem :: "RPFrame \<Rightarrow> bool" where
  "regp_is_16bitsem f = BIT_ISSET (ucast (rh_options (fr_header f))) RP_OPT_WORD_SIZE_16"

definition regp_has_hdcrc :: "RPFrame \<Rightarrow> bool" where
  "regp_has_hdcrc f = BIT_ISSET (ucast (rh_options (fr_header f))) RP_OPT_WITH_HEADER_CRC"

definition regp_has_plcrc :: "RPFrame \<Rightarrow> bool" where
  "regp_has_plcrc f = BIT_ISSET (ucast (rh_options (fr_header f))) RP_OPT_WITH_PAYLOAD_CRC"

section \<open>Payloads\<close>

definition check_payload :: "endianness \<Rightarrow> RPFrame \<Rightarrow> u8 list \<Rightarrow> int option" where
  "check_payload e f m =
     (if \<not> regp_has_hdcrc f \<or> fr_payload_size f = 0 then Some 0
      else do {
        let n = unat (rh_blocksize (fr_header f));
        crc \<leftarrow> (if BIT_ISSET (ucast (rh_options (fr_header f))) RP_OPT_WORD_SIZE_16
               then do { ws \<leftarrow> words_at e m (fr_payload_data f) n; ufw_buffer_crc16_arc_u16 e ws n }
               else do { xs \<leftarrow> mem_read m (fr_payload_data f) n; ufw_buffer_crc16_arc xs n });
        Some (if crc = rh_plcrc (fr_header f) then 0 else - EPROTO)
      })"

definition payload_plausible :: "RPFrame \<Rightarrow> int" where
  "payload_plausible f =
     (let actualsize = fr_payload_size f;
          actualsize = (if BIT_ISSET (ucast (rh_options (fr_header f))) RP_OPT_WORD_SIZE_16 then actualsize div 2 else actualsize);
          t = rh_type (fr_header f)
      in if t = RP_FRAME_READ_REQUEST \<or> t = RP_FRAME_WRITE_RESPONSE \<or> t = RP_FRAME_META
         then (if actualsize = 0 then 0 else - EFAULT)
         else if t = RP_FRAME_READ_RESPONSE \<or> t = RP_FRAME_WRITE_REQUEST
         then (if unat (rh_blocksize (fr_header f)) = actualsize then 0 else - EFAULT)
         else - EINVAL)"

text \<open>The structure is written to the beginning of the block, which has to be large enough for it.\<close>

definition parse_frame :: "endianness \<Rightarrow> ByteBuffer \<Rightarrow> (int \<times> RPFrame) option" where
  "parse_frame e framebuf = do {
     m \<leftarrow> bb_data framebuf;
     _ \<leftarrow> mem_read m 0 SIZEOF_RPFrame;
     let n = sz_sub (bb_used framebuf) SIZEOF_RPFrame;
     (rc, h) \<leftarrow> parse_header e local_header m SIZEOF_RPFrame n;
     let f = \<lparr>fr_header = h, fr_payload_size = 0, fr_payload_data = 0, fr_raw_memory = SIZEOF_RPFrame, fr_raw_size = n\<rparr>;
     if rc < 0 then Some (rc, f)
     else do {
       let data = fr_raw_memory f + 2 * nat rc;
       let f = f\<lparr>fr_payload_data := data, fr_payload_size := sz_sub (fr_raw_size f) (data - fr_raw_memory f)\<rparr>;
       let rc = payload_plausible f;
       if rc < 0 then Some (rc, f)
       else do {
         rc \<leftarrow> check_payload e f m;
         Some (if rc < 0 then rc else 0, f)
       }
     }
   }"

section \<open>Sending\<close>

definition BYTE_BUFFER :: "u8 list option \<Rightarrow> nat \<Rightarrow> ByteBuffer" where
  "BYTE_BUFFER data n = \<lparr>bb_data = data, bb_size = n, bb_used = n, bb_offset = 0\<rparr>"

definition BYTE_BUFFER_EMPTY :: "u8 list option \<Rightarrow> nat \<Rightarrow> ByteBuffer" where
  "BYTE_BUFFER_EMPTY data n = \<lparr>bb_data = data, bb_size = n, bb_used = 0, bb_offset = 0\<rparr>"

definition BYTE_CHUNKS :: "ByteBuffer list \<Rightarrow> ByteChunks" where
  "BYTE_CHUNKS var = \<lparr>bc_chunks = length var, bc_active = 0, bc_chunk = var\<rparr>"

definition RFC1055_CONTEXT_INIT_DEFAULT :: RFC1055Context where
  "RFC1055_CONTEXT_INIT_DEFAULT = \<lparr>rfc_state = RFC1055_NORMAL, rfc_flags = 0\<rparr>"

text \<open>Endpoints on the stack, before they are initialised; no field that initialisation leaves is used.\<close>

definition local_source :: "'s \<Rightarrow> 's Source" where
  "local_source s = CHUNK_SOURCE_INIT (\<lambda>s n. None) s"

definition local_sink :: "'t \<Rightarrow> 't Sink" where
  "local_sink t = CHUNK_SINK_INIT (\<lambda>t xs. None) t"

definition send_memory ::
    "endianness \<Rightarrow> ('m, 's, 't, 'd) RegP \<Rightarrow> u8 list \<Rightarrow> nat \<Rightarrow> u8 list option \<Rightarrow> nat \<Rightarrow> (int \<times> ('m, 's, 't, 'd) RegP) option" where
  "send_memory e p hdr hs pl ps = do {
     let chunks = [BYTE_BUFFER (Some hdr) hs, BYTE_BUFFER pl ps];
     let data = BYTE_CHUNKS chunks;
     let data = (if pl = None then data\<lparr>bc_chunks := 1\<rparr> else data);
     case ep_type (rp_ep p) of
       RP_EP_TCP \<Rightarrow> do {
         (rc, snk) \<leftarrow> lenp_chunks_to_sink e (ep_sink (rp_ep p)) data;
         Some (if rc < 0 then to_int rc else 0, p\<lparr>rp_ep := (rp_ep p)\<lparr>ep_sink := snk\<rparr>\<rparr>)
       }
     | RP_EP_SERIAL \<Rightarrow> do {
         let src = source_from_chunks (local_source data) data;
         (rc, _, snk) \<leftarrow> rfc1055_encode RFC1055_CONTEXT_INIT_DEFAULT src (ep_sink (rp_ep p));
         Some (rc, p\<lparr>rp_ep := (rp_ep p)\<lparr>ep_sink := snk\<rparr>\<rparr>)
       }
   }"

definition req2resp :: "RPFrameType \<Rightarrow> RPFrameType" where
  "req2resp t =
     (if t = RP_FRAME_READ_REQUEST then RP_FRAME_READ_RESPONSE
      else if t = RP_FRAME_WRITE_REQUEST then RP_FRAME_WRITE_RESPONSE
      else RP_FRAME_META)"

definition send_resp_0 ::
    "endianness \<Rightarrow> ('m, 's, 't, 'd) RegP \<Rightarrow> RPHeader \<Rightarrow> RPResponse \<Rightarrow> nat \<Rightarrow> (int \<times> ('m, 's, 't, 'd) RegP) option" where
  "send_resp_0 e p h code msem = do {
     (size', header) \<leftarrow> encode_header e (local_words RP_HEADER_SIZE_16) p msem (req2resp (rh_type h)) (ucast code)
       (rh_sequence h) (rh_address h) 0 0;
     send_memory e p header (2 * size') None 0
   }"

definition msem_size :: "('m, 's, 't, 'd) RegP \<Rightarrow> nat \<Rightarrow> nat \<Rightarrow> nat" where
  "msem_size p msem n =
     (if msem = MSEM_16BIT then n else if msem = MSEM_8BIT then n * 2 else n * (if memory16 p then 1 else 2))"

definition send_resp_32 ::
    "endianness \<Rightarrow> ('m, 's, 't, 'd) RegP \<Rightarrow> RPHeader \<Rightarrow> RPResponse \<Rightarrow> u32 \<Rightarrow> nat \<Rightarrow> (int \<times> ('m, 's, 't, 'd) RegP) option" where
  "send_resp_32 e p h code pl msem = do {
     let plbuf = 2 * RP_HEADER_SIZE_16;
     (_, header) \<leftarrow> bf_set_u32b e (local_words (RP_HEADER_SIZE_16 + 2)) plbuf pl;
     ws \<leftarrow> words_at e header plbuf 2;
     plcrc \<leftarrow> ufw_buffer_crc16_arc_u16 e ws 2;
     (size', header) \<leftarrow> encode_header e header p msem (req2resp (rh_type h)) (ucast code)
       (rh_sequence h) (rh_address h) (msem_size p msem 2) plcrc;
     (_, realpl) \<leftarrow> bf_set_u32b e (local_words 2) 0 pl;
     send_memory e p header (2 * size') (Some realpl) 4
   }"

definition regp_resp_meta :: "endianness \<Rightarrow> ('m, 's, 't, 'd) RegP \<Rightarrow> u8 \<Rightarrow> (int \<times> ('m, 's, 't, 'd) RegP) option" where
  "regp_resp_meta e p meta = do {
     (size', header) \<leftarrow> encode_header e (local_words RP_HEADER_SIZE_16) p MSEM_8BIT RP_FRAME_META meta 0 0 0 0;
     send_memory e p header (2 * size') None 0
   }"

definition send_early_response ::
    "endianness \<Rightarrow> ('m, 's, 't, 'd) RegP \<Rightarrow> ByteBuffer \<Rightarrow> RPResponse \<Rightarrow> (int \<times> ('m, 's, 't, 'd) RegP) option" where
  "send_early_response e p hdrbuf code = do {
     m \<leftarrow> bb_data hdrbuf;
     (rc, h) \<leftarrow> parse_header e local_header m 0 (bb_used hdrbuf);
     if rc \<ge> 0 then send_resp_0 e p h code MSEM_8BIT
     else if rc = - EBADMSG then regp_resp_meta e p RP_META_EHEADERENC
     else if rc = - EILSEQ then regp_resp_meta e p RP_META_EHEADERCRC
     else Some (rc, p)
   }"

definition early_ebusy :: "endianness \<Rightarrow> ('m, 's, 't, 'd) RegP \<Rightarrow> ByteBuffer \<Rightarrow> (int \<times> ('m, 's, 't, 'd) RegP) option" where
  "early_ebusy e p hdrbuf = send_early_response e p hdrbuf RP_RESP_EBUSY"

definition early_erxoverflow :: "endianness \<Rightarrow> ('m, 's, 't, 'd) RegP \<Rightarrow> ByteBuffer \<Rightarrow> (int \<times> ('m, 's, 't, 'd) RegP) option" where
  "early_erxoverflow e p hdrbuf = send_early_response e p hdrbuf RP_RESP_ERXOVERFLOW"

definition memtype_valid :: "('m, 's, 't, 'd) RegP \<Rightarrow> RPHeader \<Rightarrow> bool" where
  "memtype_valid p h =
     (let opt16 = BIT_ISSET (ucast (rh_options h)) RP_OPT_WORD_SIZE_16 in memory16 p \<and> opt16 \<or> \<not> memory16 p \<and> \<not> opt16)"

definition setup_buffer :: "ByteBuffer \<Rightarrow> ByteBuffer" where
  "setup_buffer b = b\<lparr>bb_used := SIZEOF_RPFrame\<rparr>"

definition trxbufsize :: "('m, 's, 't, 'd) RegP \<Rightarrow> nat" where
  "trxbufsize p = sz_sub (ba_blocksize (rp_alloc p)) SIZEOF_RPFrame"

section \<open>Instances\<close>

definition regp_void_read16 :: "'m RPBlockRead16" where
  "regp_void_read16 address bsize world = Some (\<lparr>ba_status = RP_RESP_EUNMAPPED, ba_address = address\<rparr>, [], world)"

definition regp_void_write16 :: "'m RPBlockWrite16" where
  "regp_void_write16 address bsize buf world = Some (\<lparr>ba_status = RP_RESP_EUNMAPPED, ba_address = address\<rparr>, world)"

text \<open>The heap of the default allocator is a parameter.\<close>

definition rp_default_allocator ::
    "('d \<Rightarrow> nat \<Rightarrow> u8 list option \<times> 'd) \<Rightarrow> ('d \<Rightarrow> u8 list option \<Rightarrow> 'd) \<Rightarrow> 'd \<Rightarrow> 'd BlockAllocator" where
  "rp_default_allocator malloc free heap = \<lparr>ba_blocksize = RP_DEFAULT_BUFFER_SIZE, ba_driver = heap,
     ba_alloc = GenericAlloc (ufw_malloc malloc), ba_free = ufw_mfree free\<rparr>"

definition regp_init ::
    "('d \<Rightarrow> nat \<Rightarrow> u8 list option \<times> 'd) \<Rightarrow> ('d \<Rightarrow> u8 list option \<Rightarrow> 'd) \<Rightarrow> 'd \<Rightarrow> (unit, unit, unit, 'd) RegP" where
  "regp_init malloc free heap = \<lparr>rp_memory = RP_MEMTYPE_16 regp_void_read16 regp_void_write16, rp_world = (),
     rp_sequence = 0, rp_ep = \<lparr>ep_type = RP_EP_TCP, ep_source = source_empty, ep_sink = sink_null\<rparr>,
     rp_alloc = rp_default_allocator malloc free heap\<rparr>"

definition regp_use_memory8 ::
    "('a, 's, 't, 'd) RegP \<Rightarrow> 'm RPBlockRead8 \<Rightarrow> 'm RPBlockWrite8 \<Rightarrow> 'm \<Rightarrow> ('m, 's, 't, 'd) RegP" where
  "regp_use_memory8 p read write world = \<lparr>rp_memory = RP_MEMTYPE_8 read write, rp_world = world,
     rp_sequence = rp_sequence p, rp_ep = rp_ep p, rp_alloc = rp_alloc p\<rparr>"

definition regp_use_memory16 ::
    "('a, 's, 't, 'd) RegP \<Rightarrow> 'm RPBlockRead16 \<Rightarrow> 'm RPBlockWrite16 \<Rightarrow> 'm \<Rightarrow> ('m, 's, 't, 'd) RegP" where
  "regp_use_memory16 p read write world = \<lparr>rp_memory = RP_MEMTYPE_16 read write, rp_world = world,
     rp_sequence = rp_sequence p, rp_ep = rp_ep p, rp_alloc = rp_alloc p\<rparr>"

definition regp_use_channel ::
    "('m, 'a, 'b, 'd) RegP \<Rightarrow> RPEndpointType \<Rightarrow> 's Source \<Rightarrow> 't Sink \<Rightarrow> ('m, 's, 't, 'd) RegP" where
  "regp_use_channel p type' source sink = \<lparr>rp_memory = rp_memory p, rp_world = rp_world p, rp_sequence = rp_sequence p,
     rp_ep = \<lparr>ep_type = type', ep_source = source, ep_sink = sink\<rparr>, rp_alloc = rp_alloc p\<rparr>"

definition regp_use_allocator :: "('m, 's, 't, 'a) RegP \<Rightarrow> 'd BlockAllocator \<Rightarrow> ('m, 's, 't, 'd) RegP" where
  "regp_use_allocator p alloc = \<lparr>rp_memory = rp_memory p, rp_world = rp_world p, rp_sequence = rp_sequence p,
     rp_ep = rp_ep p, rp_alloc = alloc\<rparr>"

section \<open>Requests\<close>

definition send_request ::
    "endianness \<Rightarrow> ('m, 's, 't, 'd) RegP \<Rightarrow> nat \<Rightarrow> RPFrameType \<Rightarrow> u32 \<Rightarrow> nat \<Rightarrow> u16 \<Rightarrow> u8 list option \<Rightarrow> nat
       \<Rightarrow> (int \<times> ('m, 's, 't, 'd) RegP) option" where
  "send_request e p msem t address n plcrc pl ps = do {
     (size', header) \<leftarrow> encode_header e (local_words RP_HEADER_SIZE_16) p msem t 0 (rp_sequence p) address n plcrc;
     let p = p\<lparr>rp_sequence := rp_sequence p + 1\<rparr>;
     send_memory e p header (2 * size') pl ps
   }"

definition regp_req_read8 :: "endianness \<Rightarrow> ('m, 's, 't, 'd) RegP \<Rightarrow> u32 \<Rightarrow> nat \<Rightarrow> (int \<times> ('m, 's, 't, 'd) RegP) option" where
  "regp_req_read8 e p address n = send_request e p MSEM_8BIT RP_FRAME_READ_REQUEST address n 0 None 0"

definition regp_req_read16 :: "endianness \<Rightarrow> ('m, 's, 't, 'd) RegP \<Rightarrow> u32 \<Rightarrow> nat \<Rightarrow> (int \<times> ('m, 's, 't, 'd) RegP) option" where
  "regp_req_read16 e p address n = send_request e p MSEM_16BIT RP_FRAME_READ_REQUEST address n 0 None 0"

definition regp_req_write8 ::
    "endianness \<Rightarrow> ('m, 's, 't, 'd) RegP \<Rightarrow> u32 \<Rightarrow> nat \<Rightarrow> u8 list \<Rightarrow> (int \<times> ('m, 's, 't, 'd) RegP) option" where
  "regp_req_write8 e p address n buf = do {
     plcrc \<leftarrow> ufw_buffer_crc16_arc buf n;
     send_request e p MSEM_8BIT RP_FRAME_WRITE_REQUEST address n plcrc (Some buf) n
   }"

definition regp_req_write16 ::
    "endianness \<Rightarrow> ('m, 's, 't, 'd) RegP \<Rightarrow> u32 \<Rightarrow> nat \<Rightarrow> u16 list \<Rightarrow> (int \<times> ('m, 's, 't, 'd) RegP) option" where
  "regp_req_write16 e p address n buf = do {
     plcrc \<leftarrow> ufw_buffer_crc16_arc_u16 e buf n;
     send_request e p MSEM_16BIT RP_FRAME_WRITE_REQUEST address n plcrc (Some (atom_octets e buf)) ((n * 2) mod 2 ^ 64)
   }"

section \<open>Responses\<close>

text \<open>The payload of an acknowledgement is what a pointer points to, as octets.\<close>

definition regp_resp_ack ::
    "endianness \<Rightarrow> ('m, 's, 't, 'd) RegP \<Rightarrow> RPHeader \<Rightarrow> u8 list option \<Rightarrow> nat \<Rightarrow> (int \<times> ('m, 's, 't, 'd) RegP) option" where
  "regp_resp_ack e p h pl n = do {
     plcrc \<leftarrow> (case pl of None \<Rightarrow> Some 0
       | Some m \<Rightarrow> if memory16 p then do { ws \<leftarrow> words_at e m 0 n; ufw_buffer_crc16_arc_u16 e ws n }
                    else ufw_buffer_crc16_arc m n);
     let plsize = (if memory16 p then (n * 2) mod 2 ^ 64 else n);
     (size', header) \<leftarrow> encode_header e (local_words RP_HEADER_SIZE_16) p MSEM_AUTO (req2resp (rh_type h)) 0
       (rh_sequence h) (rh_address h) n plcrc;
     send_memory e p header (2 * size') pl plsize
   }"

definition regp_resp_ewordsize where "regp_resp_ewordsize e p h = send_resp_0 e p h RP_RESP_EWORDSIZE MSEM_8BIT"
definition regp_resp_epayloadcrc where "regp_resp_epayloadcrc e p h = send_resp_0 e p h RP_RESP_EPAYLOADCRC MSEM_8BIT"
definition regp_resp_epayloadsize where "regp_resp_epayloadsize e p h = send_resp_0 e p h RP_RESP_EPAYLOADSIZE MSEM_8BIT"
definition regp_resp_erxoverflow where
  "regp_resp_erxoverflow e p h size' = send_resp_32 e p h RP_RESP_ERXOVERFLOW size' MSEM_8BIT"
definition regp_resp_etxoverflow where
  "regp_resp_etxoverflow e p h size' = send_resp_32 e p h RP_RESP_ETXOVERFLOW size' MSEM_8BIT"
definition regp_resp_ebusy where "regp_resp_ebusy e p h = send_resp_0 e p h RP_RESP_EBUSY MSEM_8BIT"
definition regp_resp_eunmapped where
  "regp_resp_eunmapped e p h address = send_resp_32 e p h RP_RESP_EUNMAPPED address MSEM_8BIT"
definition regp_resp_eaccess where
  "regp_resp_eaccess e p h address = send_resp_32 e p h RP_RESP_EACCESS address MSEM_8BIT"
definition regp_resp_erange where
  "regp_resp_erange e p h address = send_resp_32 e p h RP_RESP_ERANGE address MSEM_8BIT"
definition regp_resp_einvalid where
  "regp_resp_einvalid e p h address = send_resp_32 e p h RP_RESP_EINVALID address MSEM_8BIT"
definition regp_resp_eio where "regp_resp_eio e p h = send_resp_0 e p h RP_RESP_EIO MSEM_8BIT"

section \<open>Processing\<close>

definition receive_frame ::
    "endianness \<Rightarrow> RPEndpointType \<Rightarrow> 's Source \<Rightarrow> 't Sink \<Rightarrow> (int \<times> 's Source \<times> 't Sink) option" where
  "receive_frame e t source recv = (case t of
       RP_EP_TCP \<Rightarrow> lenp_decode_source_to_sink e source recv
     | RP_EP_SERIAL \<Rightarrow> do {
         (rc, _, source, recv) \<leftarrow> rfc1055_decode RFC1055_CONTEXT_INIT_DEFAULT source recv;
         Some (rc, source, recv)
       })"

text \<open>When the buffer is too small the code reads the frame structure of the block, which nothing has written.\<close>

definition regp_recv ::
    "endianness \<Rightarrow> ('m, 's, 't, 'd) RegP \<Rightarrow> (int \<times> RPMaybeFrame \<times> ('m, 's, 't, 'd) RegP) option" where
  "regp_recv e p = do {
     let mf = \<lparr>mf_error = 0, mf_framesize = 0, mf_frame = None\<rparr>;
     let fb = BYTE_BUFFER_EMPTY (Some (local_words RP_HEADER_SIZE_16)) (2 * RP_HEADER_SIZE_16);
     let cs = \<lparr>cs_alloc = Some (rp_alloc p), cs_buffer = BYTE_BUFFER None 0, cs_fallback = Some fb,
               cs_postalloc = Some setup_buffer, cs_error_id = 0, cs_error_datacount = 0\<rparr>;
     let recv = continuable_sink_init (local_sink cs) cs;
     (rc, source, recv) \<leftarrow> receive_frame e (ep_type (rp_ep p)) (ep_source (rp_ep p)) recv;
     let cs = snk_driver recv;
     alloc \<leftarrow> cs_alloc cs;
     fb \<leftarrow> cs_fallback cs;
     let p = p\<lparr>rp_ep := (rp_ep p)\<lparr>ep_source := source\<rparr>, rp_alloc := alloc\<rparr>;
     if rc < 0 then Some (to_int rc, mf, p)
     else do {
       let mf = (if cs_error_id cs \<noteq> 0 then mf\<lparr>mf_error := cs_error_id cs, mf_framesize := cs_error_datacount cs\<rparr> else mf);
       let mf = mf\<lparr>mf_frame := map_option (\<lambda>m. \<lparr>rb_frame = None, rb_octets = m\<rparr>) (bb_data (cs_buffer cs))\<rparr>;
       if cs_error_id cs = 0 then do {
         (rc, f) \<leftarrow> parse_frame e (cs_buffer cs);
         let mf = mf\<lparr>mf_frame := map_option (\<lambda>b. b\<lparr>rb_frame := Some f\<rparr>) (mf_frame mf)\<rparr>;
         let mf = (if rc < 0 then mf\<lparr>mf_error := - rc\<rparr> else mf);
         (rc, p) \<leftarrow> (if rc = - EBADMSG then regp_resp_meta e p RP_META_EHEADERENC
                    else if rc = - EILSEQ then regp_resp_meta e p RP_META_EHEADERCRC
                    else Some (0, p));
         Some (rc, mf, p)
       }
       else if cs_error_id cs = EBUSY then do { (rc, p) \<leftarrow> early_ebusy e p fb; Some (rc, mf, p) }
       else if cs_error_id cs = ENOMEM then do {
         (_, fb) \<leftarrow> byte_buffer_rewind fb;
         block \<leftarrow> mf_frame mf;
         f \<leftarrow> rb_frame block;
         xs \<leftarrow> mem_read (rb_octets block) (fr_raw_memory f) RP_HEADER_SIZE;
         (_, fb) \<leftarrow> byte_buffer_add fb xs RP_HEADER_SIZE;
         (rc, p) \<leftarrow> early_erxoverflow e p fb;
         Some (rc, mf, p)
       }
       else Some (- EINVAL, mf, p)
     }
   }"

text \<open>The access to the memory: the verdict, the octets of the block, and the pointer to the data to send back.\<close>

definition serve_read ::
    "endianness \<Rightarrow> ('m, 's, 't, 'd) RegP \<Rightarrow> RPFrame \<Rightarrow> u8 list \<Rightarrow> (RPBlockAccess \<times> u8 list \<times> ('m, 's, 't, 'd) RegP) option" where
  "serve_read e p f m =
     (let addr = rh_address (fr_header f); blocksize = unat (rh_blocksize (fr_header f)); buf = fr_payload_data f;
          room = sz_sub (ba_blocksize (rp_alloc p)) SIZEOF_RPFrame;
          overflow = \<lparr>ba_status = RP_RESP_ETXOVERFLOW, ba_address = 0\<rparr>
      in case rp_memory p of
        RP_MEMTYPE_16 read _ \<Rightarrow>
          if room div 2 < blocksize then Some (overflow, m, p)
          else do {
            (ba, ws, world) \<leftarrow> read addr blocksize (rp_world p);
            m \<leftarrow> mem_write m buf (atom_octets e ws);
            Some (ba, m, p\<lparr>rp_world := world\<rparr>)
          }
      | RP_MEMTYPE_8 read _ \<Rightarrow>
          if room < blocksize then Some (overflow, m, p)
          else do {
            (ba, xs, world) \<leftarrow> read addr blocksize (rp_world p);
            m \<leftarrow> mem_write m buf xs;
            Some (ba, m, p\<lparr>rp_world := world\<rparr>)
          })"

definition serve_write ::
    "endianness \<Rightarrow> ('m, 's, 't, 'd) RegP \<Rightarrow> RPFrame \<Rightarrow> u8 list \<Rightarrow> (RPBlockAccess \<times> ('m, 's, 't, 'd) RegP) option" where
  "serve_write e p f m =
     (let addr = rh_address (fr_header f); blocksize = unat (rh_blocksize (fr_header f)); buf = fr_payload_data f
      in case rp_memory p of
        RP_MEMTYPE_16 _ write \<Rightarrow> do {
          ws \<leftarrow> words_at e m buf blocksize;
          (ba, world) \<leftarrow> write addr blocksize ws (rp_world p);
          Some (ba, p\<lparr>rp_world := world\<rparr>)
        }
      | RP_MEMTYPE_8 _ write \<Rightarrow> do {
          xs \<leftarrow> mem_read m buf blocksize;
          (ba, world) \<leftarrow> write addr blocksize xs (rp_world p);
          Some (ba, p\<lparr>rp_world := world\<rparr>)
        })"

text \<open>The response for a verdict. \<open>pl\<close> is the data of a read request, from the pointer on.\<close>

definition respond ::
    "endianness \<Rightarrow> ('m, 's, 't, 'd) RegP \<Rightarrow> RPHeader \<Rightarrow> RPBlockAccess \<Rightarrow> u8 list option \<Rightarrow> (int \<times> ('m, 's, 't, 'd) RegP) option" where
  "respond e p h ba pl =
     (let status = ba_status ba; address = ba_address ba; bufsize = of_nat (trxbufsize p)
      in if status = RP_RESP_ACK then regp_resp_ack e p h pl (if pl = None then 0 else unat (rh_blocksize h))
      else if status = RP_RESP_EWORDSIZE then regp_resp_ewordsize e p h
      else if status = RP_RESP_EPAYLOADCRC then regp_resp_epayloadcrc e p h
      else if status = RP_RESP_EPAYLOADSIZE then regp_resp_epayloadsize e p h
      else if status = RP_RESP_ERXOVERFLOW then regp_resp_erxoverflow e p h bufsize
      else if status = RP_RESP_ETXOVERFLOW then regp_resp_etxoverflow e p h bufsize
      else if status = RP_RESP_EBUSY then regp_resp_ebusy e p h
      else if status = RP_RESP_EUNMAPPED then regp_resp_eunmapped e p h address
      else if status = RP_RESP_EACCESS then regp_resp_eaccess e p h address
      else if status = RP_RESP_ERANGE then regp_resp_erange e p h address
      else if status = RP_RESP_EINVALID then regp_resp_einvalid e p h address
      else if status = RP_RESP_EIO then regp_resp_eio e p h
      else Some (- EINVAL, p))"

definition regp_process ::
    "endianness \<Rightarrow> ('m, 's, 't, 'd) RegP \<Rightarrow> RPMaybeFrame \<Rightarrow> (int \<times> RPMaybeFrame \<times> ('m, 's, 't, 'd) RegP) option" where
  "regp_process e p mf = (case mf_frame mf of
       None \<Rightarrow> Some (0, mf, p)
     | Some block \<Rightarrow>
         if mf_error mf = EPROTO \<or> mf_error mf = EFAULT then do {
           f \<leftarrow> rb_frame block;
           if regp_is_request (Some f) then do {
             (rc, p) \<leftarrow> send_resp_0 e p (fr_header f)
               (if mf_error mf = EPROTO then RP_RESP_EPAYLOADCRC else RP_RESP_EPAYLOADSIZE) MSEM_8BIT;
             Some (rc, mf, p)
           } else Some (0, mf, p)
         }
         else if mf_error mf \<noteq> 0 then Some (0, mf, p)
         else do {
           f \<leftarrow> rb_frame block;
           let h = fr_header f;
           if \<not> regp_is_request (Some f) then Some (0, mf, p)
           else if \<not> memtype_valid p h then do { (rc, p) \<leftarrow> send_resp_0 e p h RP_RESP_EWORDSIZE MSEM_8BIT; Some (rc, mf, p) }
           else if regp_is_read_request (Some f) then do {
             (ba, m, p) \<leftarrow> serve_read e p f (rb_octets block);
             (rc, p) \<leftarrow> respond e p h ba (Some (drop (fr_payload_data f) m));
             Some (rc, mf\<lparr>mf_frame := Some (block\<lparr>rb_octets := m\<rparr>)\<rparr>, p)
           }
           else do {
             (ba, p) \<leftarrow> serve_write e p f (rb_octets block);
             (rc, p) \<leftarrow> respond e p h ba None;
             Some (rc, mf, p)
           }
         })"

section \<open>Sessions, blocks and ranges\<close>

definition regp_reset_session :: "('m, 's, 't, 'd) RegP \<Rightarrow> ('m, 's, 't, 'd) RegP" where
  "regp_reset_session p = p\<lparr>rp_sequence := 0\<rparr>"

definition regp_free :: "('m, 's, 't, 'd) RegP \<Rightarrow> RPBlock option \<Rightarrow> ('m, 's, 't, 'd) RegP" where
  "regp_free p f = (case f of None \<Rightarrow> p
     | Some block \<Rightarrow> p\<lparr>rp_alloc := (rp_alloc p)\<lparr>ba_driver := ba_free (rp_alloc p) (ba_driver (rp_alloc p)) (Some (rb_octets block))\<rparr>\<rparr>)"

definition address_min :: "u32 \<Rightarrow> u32 \<Rightarrow> u32" where
  "address_min a b = (if a < b then a else b)"

definition address_max :: "u32 \<Rightarrow> u32 \<Rightarrow> u32" where
  "address_max a b = (if a > b then a else b)"

definition range_start :: "RPRange \<Rightarrow> u32" where
  "range_start b = rr_address b"

definition range_end :: "RPRange \<Rightarrow> u32" where
  "range_end b = of_nat (sz_sub (sz_add (unat (rr_address b)) (rr_size b)) 1)"

definition regp_range_intersection :: "RPRange \<Rightarrow> RPRange \<Rightarrow> RPRange" where
  "regp_range_intersection a b =
     (let start = address_max (range_start a) (range_start b);
          end' = address_min (range_end a) (range_end b)
      in if end' \<ge> start then \<lparr>rr_address = start, rr_size = unat (end' - start + 1)\<rparr> else \<lparr>rr_address = 0, rr_size = 0\<rparr>)"

definition regp_frame_intersection :: "RPHeader \<Rightarrow> RPRange \<Rightarrow> RPRange" where
  "regp_frame_intersection h r =
     (let a = \<lparr>rr_address = rh_address h, rr_size = unat (rh_blocksize h)\<rparr> in regp_range_intersection a r)"

definition regp_empty_intersection :: "RPRange \<Rightarrow> bool" where
  "regp_empty_intersection intersect \<longleftrightarrow> rr_size intersect > 0"

section \<open>Register tables as memory\<close>

fun regaccess2blockaccess :: "RegisterAccess \<Rightarrow> RPBlockAccess" where
  "regaccess2blockaccess ra = \<lparr>ba_status = (case ac_code ra of
       REG_ACCESS_SUCCESS \<Rightarrow> RP_RESP_ACK
     | REG_ACCESS_UNINITIALISED \<Rightarrow> RP_RESP_EUNMAPPED
     | REG_ACCESS_NOENTRY \<Rightarrow> RP_RESP_EUNMAPPED
     | REG_ACCESS_RANGE \<Rightarrow> RP_RESP_ERANGE
     | REG_ACCESS_INVALID \<Rightarrow> RP_RESP_EINVALID
     | REG_ACCESS_READONLY \<Rightarrow> RP_RESP_EACCESS
     | REG_ACCESS_FAILURE \<Rightarrow> RP_RESP_EIO
     | REG_ACCESS_IO_ERROR \<Rightarrow> RP_RESP_EIO), ba_address = of_nat (ac_address ra)\<rparr>"

end
