(* ===== verification/Register_Frames.thy ===== *)
theory Register_Frames
  imports Register_Protocol
begin

text \<open>
  Frames of the register protocol, as octets: what the code makes of a header, what it reads from one, when a
  received frame can be parsed without leaving the memory it is in, and which of the frames the code sends it
  takes for valid itself.
\<close>

section \<open>Words and checksums\<close>

lemma u16_octets_obj: "u16_octets e = obj_octets e"
  by (rule ext) (simp add: u16_octets_def obj_octets_def host_octets_def be_octets_def le_octets_def upt_rec split: endianness.split)

lemma octets_of_words: "even (length xs) \<Longrightarrow> concat (map (u16_octets e) (octets_atoms e xs)) = xs"
  using le_octets_atoms [of xs e] by (simp add: atom_octets_def u16_octets_obj)

lemma words_at_ok:
  assumes "off + 2 * n \<le> length m"
  obtains ws where "words_at e m off n = Some ws" "length ws = n" "concat (map (u16_octets e) ws) = take (2 * n) (drop off m)"
proof
  show "words_at e m off n = Some (octets_atoms e (take (2 * n) (drop off m)))"
    using assms by (simp add: words_at_def mem_simps)
qed (use assms in \<open>simp_all add: length_octets_atoms octets_of_words\<close>)

lemma words_at_undefined: "\<not> off + 2 * n \<le> length m \<Longrightarrow> words_at e m off n = None"
  by (simp add: words_at_def mem_read_def)

lemma sum_of_words:
  assumes "off + 2 * n \<le> length m"
  shows "do { ws \<leftarrow> words_at e m off n; ufw_crc16_arc_u16 e crc ws n } = Some (crc16_sum crc (take (2 * n) (drop off m)))"
proof -
  obtain ws where "words_at e m off n = Some ws" "length ws = n" "concat (map (u16_octets e) ws) = take (2 * n) (drop off m)"
    using words_at_ok [OF assms] .
  then show ?thesis
    by (simp add: ufw_crc16_arc_u16_eq)
qed

lemma buffer_sum_of_words:
  assumes "off + 2 * n \<le> length m"
  shows "do { ws \<leftarrow> words_at e m off n; ufw_buffer_crc16_arc_u16 e ws n } = Some (crc16_sum 0 (take (2 * n) (drop off m)))"
  using sum_of_words [OF assms] by (simp add: ufw_buffer_crc16_arc_u16_def CRC16_ARC_INITIAL_def)

section \<open>Headers\<close>

definition header_prefix :: "u16 \<Rightarrow> u16 \<Rightarrow> u32 \<Rightarrow> u32 \<Rightarrow> u8 list" where
  "header_prefix motv seqno address n = be_octets 2 motv @ be_octets 2 seqno @ be_octets 4 address @ be_octets 4 n"

definition header_sum :: "u16 \<Rightarrow> u16 \<Rightarrow> u32 \<Rightarrow> u32 \<Rightarrow> u16 \<Rightarrow> u16" where
  "header_sum motv seqno address n plcrc =
     crc16_sum 0 (header_prefix motv seqno address n @ (if raw_with_plcrc motv then be_octets 2 plcrc else []))"

definition header_octets :: "u16 \<Rightarrow> u16 \<Rightarrow> u32 \<Rightarrow> u32 \<Rightarrow> u16 \<Rightarrow> u8 list" where
  "header_octets motv seqno address n plcrc = header_prefix motv seqno address n @
     (if raw_with_hdcrc motv then be_octets 2 (header_sum motv seqno address n plcrc) else []) @
     (if raw_with_plcrc motv then be_octets 2 plcrc else [])"

lemma length_header_prefix [simp]: "length (header_prefix motv seqno address n) = 12"
  by (simp add: header_prefix_def)

lemma length_header_octets:
  "length (header_octets motv seqno address n plcrc) =
     12 + (if raw_with_hdcrc motv then 2 else 0) + (if raw_with_plcrc motv then 2 else 0)"
  by (simp add: header_octets_def)

lemmas header_puts = u16b.put_eq u32b.put_eq u16b.ref_eq u32b.ref_eq

lemma populate_header_ok:
  assumes "16 \<le> length buf"
  shows "populate_header e buf p msem t meta seqno address n plcrc =
     Some (header_prefix (make_motv p msem meta t n) seqno address (of_nat n) @ [0, 0] @ be_octets 2 plcrc @ drop 16 buf)"
proof -
  have zero: "obj_octets e (0 :: u16) = [0, 0]"
    by (simp add: obj_octets_def host_octets_def be_octets_def le_octets_def upt_rec split: endianness.split)
  show ?thesis
    using assms by (simp add: populate_header_def header_puts zero mem_write_overwrite overwrite_def header_prefix_def) arith
qed

lemma header_flags:
  "raw_with_hdcrc w = bit w 9" "raw_with_plcrc w = bit w 10"
proof -
  have "BIT_ISSET (ucast w :: u32) (push_bit k 1) = bit w k" if "k < 16" for k
  proof -
    have "BIT_ISSET (ucast w :: u32) (push_bit k 1) \<longleftrightarrow> bit (ucast w :: u32) k"
      using that by (auto simp: BIT_ISSET_iff bit_push_bit_iff bit_1_iff bit_exp_iff possible_bit_word)
    then show ?thesis
      using that by (simp add: bit_ucast_iff)
  qed
  from this [of 9] this [of 10] show "raw_with_hdcrc w = bit w 9" "raw_with_plcrc w = bit w 10"
    by (simp_all add: raw_with_hdcrc_def raw_with_plcrc_def RP_OPT_WITH_HEADER_CRC_def RP_OPT_WITH_PAYLOAD_CRC_def BIT_def push_bit_push_bit)
qed

lemma encode_header_ok:
  assumes "16 \<le> length buf" and motv: "motv = make_motv p msem meta t n"
    and both: "raw_with_plcrc motv \<Longrightarrow> raw_with_hdcrc motv"
  shows "\<exists>buf'. encode_header e buf p msem t meta seqno address n plcrc =
       Some (length (header_octets motv seqno address (of_nat n) plcrc) div 2, buf') \<and>
     take (length (header_octets motv seqno address (of_nat n) plcrc)) buf' = header_octets motv seqno address (of_nat n) plcrc \<and>
     length buf' = length buf \<and> drop 16 buf' = drop 16 buf"
proof -
  let ?pre = "header_prefix motv seqno address (of_nat n)"
  let ?b = "?pre @ [0, 0] @ be_octets 2 plcrc @ drop 16 buf"
  have pop: "populate_header e buf p msem t meta seqno address n plcrc = Some ?b"
    using populate_header_ok [OF assms(1)] motv by simp
  have len: "length ?b = length buf"
    using assms(1) by simp
  have ref: "bf_ref_u16b e ?b 0 = Some motv"
    using assms(1) by (simp add: header_puts header_prefix_def be_value_octets take_bit_word_eq_self)
  have sum: "do { ws \<leftarrow> words_at e ?b 0 6; ufw_buffer_crc16_arc_u16 e ws 6 } = Some (crc16_sum 0 ?pre)"
    using buffer_sum_of_words [of 0 6 ?b e] assms(1) by simp
  have sum2: "do { ws \<leftarrow> words_at e ?b 14 1; ufw_crc16_arc_u16 e crc ws 1 } = Some (crc16_sum crc (be_octets 2 plcrc))" for crc
    using sum_of_words [of 14 1 ?b e crc] assms(1) by (simp del: One_nat_def)
  have put: "bf_set_u16b e ?b 12 crc = Some (14, ?pre @ be_octets 2 crc @ be_octets 2 plcrc @ drop 16 buf)" for crc
    using assms(1) by (simp add: header_puts overwrite_def)
  show ?thesis
  proof (cases "raw_with_hdcrc motv")
    case False
    then have "\<not> raw_with_plcrc motv"
      using both by blast
    with False pop ref len show ?thesis
      by (simp add: encode_header_def header_octets_def rp_sizes)
  next
    case True
    obtain ws where ws: "words_at e ?b 0 6 = Some ws" "ufw_buffer_crc16_arc_u16 e ws 6 = Some (crc16_sum 0 ?pre)"
      using sum by (auto split: bind_splits)
    have room: "14 + 2 * 1 \<le> length ?b"
      unfolding len using assms(1) by simp
    obtain vs where vs: "words_at e ?b 14 1 = Some vs"
      by (rule words_at_ok [OF room, of e])
    then have vs2: "ufw_crc16_arc_u16 e crc vs 1 = Some (crc16_sum crc (be_octets 2 plcrc))" for crc
      using sum2 [of crc] by simp
    have app: "crc16_sum (crc16_sum 0 ?pre) xs = crc16_sum 0 (?pre @ xs)" for xs
      by (simp add: crc16.sum_append)
    show ?thesis
      using True pop ref ws vs vs2 put assms(1) unfolding encode_header_def
      by (cases "raw_with_plcrc motv") (simp_all add: header_octets_def header_sum_def rp_sizes app del: One_nat_def)
  qed
qed

section \<open>The first word of a header, bit by bit\<close>

lemma nibble: "w AND 0x0f = take_bit 4 (w :: 'a::len word)"
  by (simp add: take_bit_eq_mask mask_eq_exp_minus_1)

lemma make_motv_bits:
  assumes "j < 16"
  shows "bit (make_motv p msem meta t n) j \<longleftrightarrow>
     4 \<le> j \<and> j < 8 \<and> bit t (j - 4) \<or>
     j = 8 \<and> (msem = MSEM_AUTO \<and> memory16 p \<or> msem = MSEM_16BIT) \<or>
     j = 9 \<and> ep_type (rp_ep p) = RP_EP_SERIAL \<or>
     j = 10 \<and> ep_type (rp_ep p) = RP_EP_SERIAL \<and> n > 0 \<and> t \<noteq> RP_FRAME_READ_REQUEST \<or>
     12 \<le> j \<and> bit meta (j - 12)"
proof -
  have opt: "bit (((if A then RP_OPT_WORD_SIZE_16 else 0) OR (if B then RP_OPT_WITH_HEADER_CRC else 0) OR
      (if C then RP_OPT_WITH_PAYLOAD_CRC else 0)) :: u32) k \<longleftrightarrow> k = 0 \<and> A \<or> k = 1 \<and> B \<or> k = 2 \<and> C" for A B C k
    by (auto simp: bit_or_iff RP_OPT_WORD_SIZE_16_def RP_OPT_WITH_HEADER_CRC_def RP_OPT_WITH_PAYLOAD_CRC_def bit_BIT split: if_splits)
  have up: "bit (ucast (push_bit k x) :: u16) j \<longleftrightarrow> k \<le> j \<and> bit x (j - k)" for x :: u32 and k
    using assms by (auto simp: bit_ucast_iff bit_push_bit_iff possible_bit_word)
  have high: "bit (ucast meta :: u32) (j - 12) \<longleftrightarrow> bit meta (j - 12)"
    using assms by (auto simp: bit_ucast_iff possible_bit_word)
  let ?opts = "((if msem = MSEM_AUTO \<and> memory16 p \<or> msem = MSEM_16BIT then RP_OPT_WORD_SIZE_16 else 0) OR
      (if ep_type (rp_ep p) = RP_EP_SERIAL then RP_OPT_WITH_HEADER_CRC else 0) OR
      (if ep_type (rp_ep p) = RP_EP_SERIAL \<and> n > 0 \<and> t \<noteq> RP_FRAME_READ_REQUEST then RP_OPT_WITH_PAYLOAD_CRC else 0)) :: u32"
  have "bit (make_motv p msem meta t n) j \<longleftrightarrow>
      4 \<le> j \<and> bit (take_bit 4 t) (j - 4) \<or> 8 \<le> j \<and> bit ?opts (j - 8) \<or> 12 \<le> j \<and> bit meta (j - 12)"
    unfolding make_motv_def Let_def nibble RP_IMPLEMENTATION_VERSION_def
    by (simp only: bit_or_iff [where 'a = "16 word"] up high take_bit_of_0 unsigned_0 bit_0_eq bot_apply bot_bool_def or.assoc simp_thms)
  then show ?thesis
    unfolding opt bit_take_bit_iff using assms by (cases "j < 8"; cases "j = 8"; cases "j = 9"; cases "j = 10"; cases "j = 11") (simp_all, auto)
qed

lemma small_bits:
  fixes x :: "'a::len word"
  assumes "x < 16" "bit x j"
  shows "j < 4"
proof -
  have "take_bit 4 x = x"
    using less_mask_eq [of x 4] assms(1) by (simp add: take_bit_eq_mask)
  then show ?thesis
    using assms(2) by (metis bit_take_bit_iff)
qed

lemma make_motv_fields:
  assumes t: "t < 16" and meta: "meta < 16" and motv_def: "motv = make_motv p msem meta t n"
  shows "BIT_GET (ucast motv) 4 0 = 0" "BIT_GET (ucast motv) 4 4 = t" "BIT_GET (ucast motv) 4 12 = ucast meta"
    "\<not> bit motv 11"
    "raw_with_hdcrc motv \<longleftrightarrow> ep_type (rp_ep p) = RP_EP_SERIAL"
    "raw_with_plcrc motv \<longleftrightarrow> ep_type (rp_ep p) = RP_EP_SERIAL \<and> n > 0 \<and> t \<noteq> RP_FRAME_READ_REQUEST"
proof -
  have w: "bit (ucast motv :: u32) j \<longleftrightarrow> j < 16 \<and> bit motv j" for j
    by (auto simp: bit_ucast_iff possible_bit_word dest: bit_imp_possible_bit)
  note b = make_motv_bits [of _ p msem meta t n, folded motv_def]
  show "BIT_GET (ucast motv) 4 0 = 0"
    by (rule bit_word_eqI) (auto simp: bit_GET w b)
  show "BIT_GET (ucast motv) 4 4 = t"
  proof (rule bit_word_eqI)
    fix j
    show "bit (BIT_GET (ucast motv) 4 4) j \<longleftrightarrow> bit t j"
      using small_bits [OF t, of j] by (auto simp: bit_GET w b)
  qed
  show "BIT_GET (ucast motv) 4 12 = ucast meta"
  proof (rule bit_word_eqI)
    fix j
    show "bit (BIT_GET (ucast motv) 4 12) j \<longleftrightarrow> bit (ucast meta :: u32) j" if "j < LENGTH(32)"
      using small_bits [OF meta, of j] that by (auto simp: bit_GET w b bit_ucast_iff possible_bit_word)
  qed
qed (simp_all add: motv_def header_flags make_motv_bits)

section \<open>Reading a header\<close>

definition motv_header :: "u16 \<Rightarrow> u16 \<Rightarrow> u32 \<Rightarrow> u32 \<Rightarrow> u16 \<Rightarrow> u16 \<Rightarrow> RPHeader" where
  "motv_header motv seqno address n hdcrc plcrc =
     \<lparr>rh_version = ucast (BIT_GET (ucast motv) 4 0), rh_type = BIT_GET (ucast motv) 4 4,
      rh_options = ucast (BIT_GET (ucast motv) 4 8), rh_meta = BIT_GET (ucast motv) 4 12, rh_sequence = seqno,
      rh_address = address, rh_blocksize = n, rh_hdcrc = hdcrc, rh_plcrc = plcrc\<rparr>"

lemma options_high_bit: "ucast (BIT_GET (ucast motv) 4 8) AND (0x8 :: u8) = 0 \<longleftrightarrow> \<not> bit motv 11"
proof -
  have eight: "(0x8 :: u8) = push_bit 3 1"
    by simp
  have "bit (ucast (BIT_GET (ucast motv) 4 8) AND (0x8 :: u8)) j \<longleftrightarrow> j = 3 \<and> bit motv 11" for j
    by (simp only: eight bit_and_iff bit_push_bit_iff) (auto simp: bit_ucast_iff bit_GET bit_1_iff possible_bit_word dest: bit_imp_possible_bit)
  then show ?thesis
    by (metis bit_0_eq bot_apply bit_eq_iff bot_bool_def)
qed

lemma header_fields:
  assumes "take (length (header_octets motv seqno address n plcrc)) (drop off m) = header_octets motv seqno address n plcrc"
  shows "bf_ref_u16b e m off = Some motv" "bf_ref_u16b e m (off + 2) = Some seqno" "bf_ref_u32b e m (off + 4) = Some address"
    "bf_ref_u32b e m (off + 8) = Some n"
    "raw_with_hdcrc motv \<Longrightarrow> bf_ref_u16b e m (off + 12) = Some (header_sum motv seqno address n plcrc)"
    "raw_with_plcrc motv \<Longrightarrow> bf_ref_u16b e m (off + (if raw_with_hdcrc motv then 14 else 12)) = Some plcrc"
proof -
  let ?h = "header_octets motv seqno address n plcrc"
  have len: "length ?h \<le> length m - off"
    using arg_cong [OF assms, of length] by simp
  have piece: "take l (drop (off + i) m) = take l (drop i ?h)" "off + i + l \<le> length m" if "i + l \<le> length ?h" "0 < l" for i l
  proof -
    have "take l (drop i ?h) = take l (drop i (take (length ?h) (drop off m)))"
      using assms by simp
    then show "take l (drop (off + i) m) = take l (drop i ?h)"
      using that by (simp add: drop_take add.commute min_def)
    show "off + i + l \<le> length m"
      using that len by simp
  qed
  note ls = length_header_octets be_value_octets take_bit_word_eq_self header_puts
  show "bf_ref_u16b e m off = Some motv" 
    using piece [of 0 2] by (simp add: ls) (simp add: header_octets_def header_prefix_def be_value_octets take_bit_word_eq_self)
  show "bf_ref_u16b e m (off + 2) = Some seqno" 
    using piece [of 2 2] by (simp add: ls) (simp add: header_octets_def header_prefix_def be_value_octets take_bit_word_eq_self)
  show "bf_ref_u32b e m (off + 4) = Some address" 
    using piece [of 4 4] by (simp add: ls) (simp add: header_octets_def header_prefix_def be_value_octets take_bit_word_eq_self)
  show "bf_ref_u32b e m (off + 8) = Some n" 
    using piece [of 8 4] by (simp add: ls) (simp add: header_octets_def header_prefix_def be_value_octets take_bit_word_eq_self)
  show "bf_ref_u16b e m (off + 12) = Some (header_sum motv seqno address n plcrc)" if "raw_with_hdcrc motv"
    using piece [of 12 2] that by (simp add: ls) (simp add: header_octets_def header_prefix_def be_value_octets take_bit_word_eq_self)
  show "bf_ref_u16b e m (off + (if raw_with_hdcrc motv then 14 else 12)) = Some plcrc" if "raw_with_plcrc motv"
    using piece [of "if raw_with_hdcrc motv then 14 else 12" 2] that
    by (simp add: ls split: if_splits) (simp_all add: header_octets_def header_prefix_def be_value_octets take_bit_word_eq_self)
qed

lemma parse_header_ok:
  assumes hdr: "take (length (header_octets motv seqno address n plcrc)) (drop off m) = header_octets motv seqno address n plcrc"
    and len: "length (header_octets motv seqno address n plcrc) \<le> k"
    and motv: "BIT_GET (ucast motv) 4 0 = 0" "\<not> bit motv 11" "meta_plausible (BIT_GET (ucast motv) 4 4) (BIT_GET (ucast motv) 4 12)"
  shows "parse_header e h m off k = Some (int (length (header_octets motv seqno address n plcrc) div 2),
     motv_header motv seqno address n (if raw_with_hdcrc motv then header_sum motv seqno address n plcrc else 0)
       (if raw_with_plcrc motv then plcrc else 0))"
proof -
  let ?h = "header_octets motv seqno address n plcrc" and ?pre = "header_prefix motv seqno address n"
  note fs = header_fields [OF hdr]
  have room: "off + length ?h \<le> length m"
    using arg_cong [OF hdr, of length] by (simp add: length_header_octets split: if_splits)
  have pre: "take 12 (drop off m) = ?pre"
    using arg_cong [OF hdr, of "take 12"] by (simp add: length_header_octets header_octets_def min_def split: if_splits)
  have pl: "take 2 (drop (off + 14) m) = be_octets 2 plcrc" if "raw_with_hdcrc motv" "raw_with_plcrc motv"
    using arg_cong [OF hdr, of "drop 14"] that by (simp add: length_header_octets header_octets_def drop_take add.commute)
  have r6: "off + 2 * 6 \<le> length m"
    using room by (simp add: length_header_octets)
  obtain ws where w6: "words_at e m off 6 = Some ws"
    by (rule words_at_ok [OF r6, of e])
  then have ws: "words_at e m off 6 = Some ws" "ufw_buffer_crc16_arc_u16 e ws 6 = Some (crc16_sum 0 ?pre)"
    using buffer_sum_of_words [OF r6, of e] pre by simp_all
  have sum: "\<exists>vs. words_at e m (off + 14) 1 = Some vs \<and> (\<forall>c. ufw_crc16_arc_u16 e c vs 1 = Some (crc16_sum c (be_octets 2 plcrc)))"
    if f: "raw_with_hdcrc motv" "raw_with_plcrc motv"
  proof -
    have r: "off + 14 + 2 * 1 \<le> length m"
      using room f by (simp add: length_header_octets)
    obtain vs where "words_at e m (off + 14) 1 = Some vs"
      by (rule words_at_ok [OF r, of e])
    with sum_of_words [OF r, of e] pl [OF f] show ?thesis
      by simp
  qed
  let ?h' = "motv_header motv seqno address n 0 0"
  have head: "parse_header e h m off k = parse_checksums e ?h' motv m off k"
  proof -
    have "\<not> k < 12"
      using len by (simp add: length_header_octets split: if_splits)
    with fs(1-4) motv show ?thesis
      by (cases h) (simp add: parse_header_def rp_sizes options_high_bit motv_header_def)
  qed
  have k: "12 + (if raw_with_hdcrc motv then 2 else 0) + (if raw_with_plcrc motv then 2 else 0) \<le> k"
    using len by (simp add: length_header_octets)
  show ?thesis
  proof (cases "raw_with_hdcrc motv")
    case False
    with k fs show ?thesis
      by (cases "raw_with_plcrc motv") (simp_all add: head parse_checksums_def length_header_octets rp_sizes motv_header_def)
  next
    case True
    show ?thesis
    proof (cases "raw_with_plcrc motv")
      case False
      with True k fs(5) ws show ?thesis
        by (simp add: head parse_checksums_def length_header_octets rp_sizes motv_header_def header_sum_def)
    next
      case with_pl: True
      obtain vs where vs: "words_at e m (off + 14) 1 = Some vs" "\<And>c. ufw_crc16_arc_u16 e c vs 1 = Some (crc16_sum c (be_octets 2 plcrc))"
        using sum [OF True with_pl] by blast
      from True with_pl k fs(5,6) ws vs show ?thesis
        by (simp add: head parse_checksums_def length_header_octets rp_sizes motv_header_def header_sum_def
            crc16.sum_append del: One_nat_def)
    qed
  qed
qed

section \<open>Which frames can be parsed\<close>

text \<open>Reading a header never leaves the octets the parser was told to read.\<close>

lemma bf_refs_defined:
  "off + 2 \<le> length m \<Longrightarrow> bf_ref_u16b e m off \<noteq> None"
  "off + 4 \<le> length m \<Longrightarrow> bf_ref_u32b e m off \<noteq> None"
  by (simp_all add: header_puts)

lemma parse_checksums_defined:
  assumes "off + n \<le> length m" "12 \<le> n"
  shows "\<exists>rc h'. parse_checksums e h motv m off n = Some (rc, h') \<and> rh_type h' = rh_type h \<and> rh_options h' = rh_options h \<and>
     (rc < 0 \<or> rc = 6 + (if raw_with_hdcrc motv then 1 else 0) + (if raw_with_plcrc motv then 1 else 0) \<and> 2 * nat rc \<le> n)"
proof -
  have r6: "off + 2 * 6 \<le> length m"
    using assms by simp
  obtain ws where ws: "words_at e m off 6 = Some ws"
    by (rule words_at_ok [OF r6, of e])
  then obtain c where c: "ufw_buffer_crc16_arc_u16 e ws 6 = Some c"
    using buffer_sum_of_words [OF r6, of e] by simp
  have two: "\<exists>v. bf_ref_u16b e m (off + k) = Some v" if "k + 2 \<le> n" for k
    using bf_refs_defined(1) [of "off + k" m e] that assms(1) by simp
  show ?thesis
  proof (cases "raw_with_hdcrc motv")
    case False
    with two [of 12] assms(2) show ?thesis
      by (auto simp: parse_checksums_def rp_sizes errno_defs)
  next
    case True
    show ?thesis
    proof (cases "raw_with_plcrc motv")
      case False
      with True two [of 12] assms(2) ws c show ?thesis
        by (auto simp: parse_checksums_def rp_sizes errno_defs)
    next
      case pl: True
      show ?thesis
      proof (cases "n < 16")
        case True
        with \<open>raw_with_hdcrc motv\<close> pl show ?thesis
          by (auto simp: parse_checksums_def rp_sizes errno_defs)
      next
        case False
        then have r1: "off + 14 + 2 * 1 \<le> length m"
          using assms by simp
        obtain vs where vs: "words_at e m (off + 14) 1 = Some vs"
          by (rule words_at_ok [OF r1, of e])
        then obtain d where d: "ufw_crc16_arc_u16 e c vs 1 = Some d"
          using sum_of_words [OF r1, of e c] by simp
        obtain u where u: "bf_ref_u16b e m (off + 12) = Some u" 
          using two [of 12] False by auto
        obtain v where v: "bf_ref_u16b e m (off + 14) = Some v"
          using two [of 14] False by auto
        show ?thesis
          using False \<open>raw_with_hdcrc motv\<close> pl ws c vs d u v by (simp add: parse_checksums_def rp_sizes errno_defs del: One_nat_def)
      qed
    qed
  qed
qed

lemma parse_checksums_keeps:
  assumes "parse_checksums e h motv m off n = Some (rc, h')"
  shows "rh_type h' = rh_type h" "rh_options h' = rh_options h" "rh_meta h' = rh_meta h" "rh_blocksize h' = rh_blocksize h"
  using assms unfolding parse_checksums_def Let_def by (auto split: if_splits bind_splits)

lemma parse_header_defined:
  assumes "off + n \<le> length m"
  shows "\<exists>rc h'. parse_header e h m off n = Some (rc, h') \<and>
     (rc < 0 \<or> 6 \<le> rc \<and> 2 * nat rc \<le> n \<and> meta_plausible (rh_type h') (rh_meta h'))"
proof (cases "n < 12")
  case True
  then show ?thesis
    by (simp add: parse_header_def rp_sizes errno_defs)
next
  case False
  with assms have "bf_ref_u16b e m off \<noteq> None" "bf_ref_u16b e m (off + 2) \<noteq> None" "bf_ref_u32b e m (off + 4) \<noteq> None"
    "bf_ref_u32b e m (off + 8) \<noteq> None"
    by (simp_all add: header_puts)
  then obtain motv seqno address blocksize where refs: "bf_ref_u16b e m off = Some motv" "bf_ref_u16b e m (off + 2) = Some seqno"
    "bf_ref_u32b e m (off + 4) = Some address" "bf_ref_u32b e m (off + 8) = Some blocksize"
    by blast
  let ?h = "motv_header motv seqno address blocksize 0 0"
  have eq: "parse_header e h m off n = parse_checksums e ?h motv m off n"
    if "ucast (rh_version ?h) = RP_IMPLEMENTATION_VERSION" "rh_options ?h AND 8 = 0" "meta_plausible (rh_type ?h) (rh_meta ?h)"
    using that refs False by (cases h) (simp add: parse_header_def rp_sizes motv_header_def)
  have err: "\<exists>h'. parse_header e h m off n = Some (- EBADMSG, h')"
    if "\<not> (ucast (rh_version ?h) = RP_IMPLEMENTATION_VERSION \<and> rh_options ?h AND 8 = 0 \<and> meta_plausible (rh_type ?h) (rh_meta ?h))"
    using that refs False unfolding parse_header_def Let_def by (cases h) (auto simp: rp_sizes motv_header_def)
  show ?thesis
  proof (cases "ucast (rh_version ?h) = RP_IMPLEMENTATION_VERSION \<and> rh_options ?h AND 8 = 0 \<and> meta_plausible (rh_type ?h) (rh_meta ?h)")
    case False
    with err show ?thesis
      by (auto simp: errno_defs)
  next
    case True
    obtain rc h' where c: "parse_checksums e ?h motv m off n = Some (rc, h')"
      "rc < 0 \<or> rc = 6 + (if raw_with_hdcrc motv then 1 else 0) + (if raw_with_plcrc motv then 1 else 0) \<and> 2 * nat rc \<le> n"
      using parse_checksums_defined [OF assms, of e ?h motv] False by auto
    with True parse_checksums_keeps [OF c(1)] show ?thesis
      by (auto simp: eq)
  qed
qed

text \<open>
  A frame is read within its octets, with one exception: a request to read, an acknowledged write or a meta
  message in 16-bit semantics with a header checksum and a single stray octet behind its header. One octet counts
  as no payload there, but not as none when the payload checksum is computed, over as many words as the header
  asks for.
\<close>

definition stray_octet :: "RPHeader \<Rightarrow> int \<Rightarrow> nat \<Rightarrow> bool" where
  "stray_octet h rc n \<longleftrightarrow> rh_type h \<in> {RP_FRAME_READ_REQUEST, RP_FRAME_WRITE_RESPONSE, RP_FRAME_META} \<and>
     BIT_ISSET (ucast (rh_options h)) RP_OPT_WORD_SIZE_16 \<and> BIT_ISSET (ucast (rh_options h)) RP_OPT_WITH_HEADER_CRC \<and>
     n = 2 * nat rc + 1"

lemma check_payload_undefined:
  "check_payload e f m = None \<longleftrightarrow> regp_has_hdcrc f \<and> fr_payload_size f \<noteq> 0 \<and>
     length m < fr_payload_data f + (if regp_is_16bitsem f then 2 else 1) * unat (rh_blocksize (fr_header f))"
proof (cases "regp_is_16bitsem f")
  case True
  note sem = True [unfolded regp_is_16bitsem_def]
  show ?thesis
  proof (cases "length m < fr_payload_data f + 2 * unat (rh_blocksize (fr_header f))")
    case True
    with sem show ?thesis
      by (simp add: check_payload_def regp_is_16bitsem_def words_at_undefined Let_def)
  next
    case False
    then have r: "fr_payload_data f + 2 * unat (rh_blocksize (fr_header f)) \<le> length m"
      by simp
    obtain ws where "words_at e m (fr_payload_data f) (unat (rh_blocksize (fr_header f))) = Some ws"
      by (rule words_at_ok [OF r, of e])
    with buffer_sum_of_words [OF r, of e] False sem show ?thesis
      by (simp add: check_payload_def regp_is_16bitsem_def Let_def)
  qed
next
  case False
  then show ?thesis
    by (simp add: check_payload_def regp_is_16bitsem_def Let_def mem_read_def ufw_buffer_crc16_arc_def ufw_crc16_arc_eq
        not_le split: bind_splits)
qed

text \<open>C28. When the parser of received frames reads beyond the memory it may read. Parsing is undefined on exactly those
  raw frames that have an acceptable header, a type without a payload, 16-bit semantics and a header checksum, are
  followed by one stray octet, and whose block size asks for more words than the memory holds: half a word counts as
  no payload where the size is judged but as some where the payload checksum is computed. All other raw frames, of
  any length and content, get an answer.\<close>

theorem parse_frame_over_read:
  assumes b: "bb_data b = Some m" "64 \<le> bb_used b" "bb_used b \<le> length m" "bb_used b < 2 ^ 64"
  shows "parse_frame e b = None \<longleftrightarrow> (\<exists>rc h. parse_header e local_header m 64 (bb_used b - 64) = Some (rc, h) \<and> 0 \<le> rc \<and>
     stray_octet h rc (bb_used b - 64) \<and> length m < 64 + 2 * nat rc + 2 * unat (rh_blocksize h))"
proof -
  let ?n = "bb_used b - 64"
  have room: "64 + ?n \<le> length m"
    using b by simp
  obtain rc h where ph: "parse_header e local_header m 64 ?n = Some (rc, h)"
    "rc < 0 \<or> 6 \<le> rc \<and> 2 * nat rc \<le> ?n \<and> meta_plausible (rh_type h) (rh_meta h)"
    using parse_header_defined [OF room, of e local_header] by blast
  define f where "f = \<lparr>fr_header = h, fr_payload_size = ?n - 2 * nat rc, fr_payload_data = 64 + 2 * nat rc,
    fr_raw_memory = 64, fr_raw_size = ?n\<rparr>"
  show ?thesis
  proof (cases "rc < 0")
    case True
    with b ph(1) show ?thesis
      by (auto simp: parse_frame_def mem_simps SIZEOF_RPFrame_def sz_sub_def Let_def)
  next
    case False
    then have rc: "6 \<le> rc" "2 * nat rc \<le> ?n" and mp: "meta_plausible (rh_type h) (rh_meta h)"
      using ph(2) by auto
    have frame: "parse_frame e b = (if payload_plausible f < 0 then Some (payload_plausible f, f)
        else do { rc \<leftarrow> check_payload e f m; Some (if rc < 0 then rc else 0, f) })"
      using b ph(1) rc False
      by (simp add: parse_frame_def mem_simps SIZEOF_RPFrame_def sz_sub_def f_def Let_def)
    have types: "rh_type h \<in> {RP_FRAME_READ_REQUEST, RP_FRAME_WRITE_REQUEST, RP_FRAME_READ_RESPONSE, RP_FRAME_WRITE_RESPONSE, RP_FRAME_META}"
      using mp by (auto simp: meta_plausible_def split: if_splits)
    let ?ps = "?n - 2 * nat rc"
    show ?thesis
    proof (cases "rh_type h = RP_FRAME_READ_RESPONSE \<or> rh_type h = RP_FRAME_WRITE_REQUEST")
      case True
      then have "\<not> stray_octet h rc ?n"
        by (auto simp: stray_octet_def rp_frame_types)
      moreover have "check_payload e f m \<noteq> None" if "\<not> payload_plausible f < 0"
      proof -
        have "unat (rh_blocksize h) = (if regp_is_16bitsem f then ?ps div 2 else ?ps)"
          using that True by (auto simp: payload_plausible_def regp_is_16bitsem_def f_def rp_frame_types errno_defs Let_def split: if_splits)
        then have "64 + 2 * nat rc + (if regp_is_16bitsem f then 2 else 1) * unat (rh_blocksize h) \<le> length m"
          using room rc by auto
        then show ?thesis
          by (simp add: check_payload_undefined f_def del: split_paired_All)
      qed
      ultimately show ?thesis
        using ph(1) by (cases "payload_plausible f < 0") (auto simp: frame split: bind_splits)
    next
      case other: False
      have plausible: "\<not> payload_plausible f < 0 \<longleftrightarrow> (if regp_is_16bitsem f then ?ps < 2 else ?ps = 0)"
        using types other by (auto simp: payload_plausible_def regp_is_16bitsem_def f_def errno_defs Let_def)
      show ?thesis
        using types other plausible ph(1) rc False
        by (auto simp: frame stray_octet_def check_payload_undefined regp_has_hdcrc_def regp_is_16bitsem_def f_def
            Option.bind_eq_None_conv split: if_splits; arith)
    qed
  qed
qed

section \<open>Headers and frames, sent and received\<close>

lemma plausible_small:
  assumes "meta_plausible t (ucast meta)"
  shows "t < 16" "meta < (16 :: u8)"
proof -
  show "t < 16"
    using assms by (auto simp: meta_plausible_def rp_frame_types split: if_splits)
  have "ucast meta < (16 :: u32)"
    using assms by (auto simp: meta_plausible_def rp_responses not_less word_le_nat_alt word_less_nat_alt split: if_splits)
  moreover have "take_bit 32 (unat meta) = unat meta"
    using less_le_trans [OF unsigned_less [of meta], of "2 ^ 32"] by (intro take_bit_nat_eq_self) simp
  ultimately show "meta < 16"
    by (simp add: word_less_nat_alt unsigned_ucast_eq)
qed

lemma options_bits:
  assumes "rh_options h = ucast (BIT_GET (ucast (motv :: u16)) 4 8)"
  shows "BIT_ISSET (ucast (rh_options h)) RP_OPT_WORD_SIZE_16 \<longleftrightarrow> bit motv 8"
    "BIT_ISSET (ucast (rh_options h)) RP_OPT_WITH_HEADER_CRC \<longleftrightarrow> bit motv 9"
    "BIT_ISSET (ucast (rh_options h)) RP_OPT_WITH_PAYLOAD_CRC \<longleftrightarrow> bit motv 10"
  by (simp_all add: assms RP_OPT_WORD_SIZE_16_def RP_OPT_WITH_HEADER_CRC_def RP_OPT_WITH_PAYLOAD_CRC_def BIT_ISSET_BIT
      bit_ucast_iff bit_GET possible_bit_word)

text \<open>What the encoder decides: whether sizes are in words, and whether there is a checksum of the payload; there is one of
  the header on a serial channel.\<close>

definition sends_words :: "('m, 's, 't, 'd) RegP \<Rightarrow> nat \<Rightarrow> bool" where
  "sends_words p msem \<longleftrightarrow> msem = MSEM_AUTO \<and> memory16 p \<or> msem = MSEM_16BIT"

definition sends_plcrc :: "('m, 's, 't, 'd) RegP \<Rightarrow> RPFrameType \<Rightarrow> nat \<Rightarrow> bool" where
  "sends_plcrc p t n \<longleftrightarrow> ep_type (rp_ep p) = RP_EP_SERIAL \<and> 0 < n \<and> t \<noteq> RP_FRAME_READ_REQUEST"

lemma motv_options:
  "(ucast (ucast (BIT_GET (ucast (make_motv p msem meta t n)) 4 8) :: u8) :: u32) =
     (if sends_words p msem then RP_OPT_WORD_SIZE_16 else 0) OR
     (if ep_type (rp_ep p) = RP_EP_SERIAL then RP_OPT_WITH_HEADER_CRC else 0) OR
     (if sends_plcrc p t n then RP_OPT_WITH_PAYLOAD_CRC else 0)"
proof (rule bit_word_eqI)
  fix j
  assume "j < LENGTH(32)"
  have opt: "bit (((if A then RP_OPT_WORD_SIZE_16 else 0) OR (if B then RP_OPT_WITH_HEADER_CRC else 0) OR
      (if C then RP_OPT_WITH_PAYLOAD_CRC else 0)) :: u32) j \<longleftrightarrow> j = 0 \<and> A \<or> j = 1 \<and> B \<or> j = 2 \<and> C" for A B C
    by (auto simp: bit_or_iff RP_OPT_WORD_SIZE_16_def RP_OPT_WITH_HEADER_CRC_def RP_OPT_WITH_PAYLOAD_CRC_def bit_BIT split: if_splits)
  have "bit (ucast (ucast (BIT_GET (ucast (make_motv p msem meta t n)) 4 8) :: u8) :: u32) j \<longleftrightarrow>
      j < 4 \<and> bit (make_motv p msem meta t n) (j + 8)"
    by (auto simp: bit_ucast_iff bit_GET possible_bit_word add.commute dest: bit_imp_possible_bit)
  also have "\<dots> \<longleftrightarrow> j = 0 \<and> sends_words p msem \<or> j = 1 \<and> ep_type (rp_ep p) = RP_EP_SERIAL \<or> j = 2 \<and> sends_plcrc p t n"
    by (auto simp: make_motv_bits sends_words_def sends_plcrc_def)
  finally show "bit (ucast (ucast (BIT_GET (ucast (make_motv p msem meta t n)) 4 8) :: u8) :: u32) j \<longleftrightarrow>
     bit (((if sends_words p msem then RP_OPT_WORD_SIZE_16 else 0) OR
     (if ep_type (rp_ep p) = RP_EP_SERIAL then RP_OPT_WITH_HEADER_CRC else 0) OR
     (if sends_plcrc p t n then RP_OPT_WITH_PAYLOAD_CRC else 0)) :: u32) j"
    unfolding opt .
qed

text \<open>C27. A header with a type and a meta field that the parser takes for plausible is parsed back when it is encoded.
  Whatever instance sends it, serial with its checksums or TCP without them, and whatever follows it in the raw frame,
  \<open>parse_header\<close> accepts the words \<open>encode_header\<close> has written, on a machine of either octet order: it returns the
  number of words the encoder returned and finds every field as it was encoded: the type, the options (words or octets,
  which checksums there are), the meta field, the sequence number, the address, the block size, the checksum of the
  payload where there is one, and the checksum of the header on serial channels, which is over the other fields and
  the checksum of the payload.\<close>

theorem regp_header_roundtrip:
  assumes "16 \<le> length buf" "meta_plausible t (ucast meta)"
  shows "\<exists>k buf'. encode_header e buf p msem t meta seqno address n plcrc = Some (k, buf') \<and> length buf' = length buf \<and>
     k = 6 + (if ep_type (rp_ep p) = RP_EP_SERIAL then 1 else 0) + (if sends_plcrc p t n then 1 else 0) \<and>
     (\<forall>rest. \<exists>h'. parse_header e' h (take (2 * k) buf' @ rest) 0 (2 * k + length rest) = Some (int k, h') \<and>
        rh_version h' = 0 \<and> rh_type h' = t \<and> rh_meta h' = ucast meta \<and> rh_sequence h' = seqno \<and>
        rh_address h' = address \<and> rh_blocksize h' = of_nat n \<and>
        ucast (rh_options h') = (if sends_words p msem then RP_OPT_WORD_SIZE_16 else 0) OR
          (if ep_type (rp_ep p) = RP_EP_SERIAL then RP_OPT_WITH_HEADER_CRC else 0) OR
          (if sends_plcrc p t n then RP_OPT_WITH_PAYLOAD_CRC else 0) \<and>
        rh_plcrc h' = (if sends_plcrc p t n then plcrc else 0) \<and>
        rh_hdcrc h' = (if ep_type (rp_ep p) = RP_EP_SERIAL
          then crc16_sum 0 (take 12 buf' @ (if sends_plcrc p t n then be_octets 2 plcrc else [])) else 0))"
proof -
  let ?m = "make_motv p msem meta t n"
  let ?h = "header_octets ?m seqno address (of_nat n) plcrc"
  note fs = make_motv_fields [OF plausible_small [OF assms(2)] refl, of p msem n]
  have crcs: "raw_with_hdcrc ?m \<longleftrightarrow> ep_type (rp_ep p) = RP_EP_SERIAL" "raw_with_plcrc ?m \<longleftrightarrow> sends_plcrc p t n"
    using fs(5,6) by (simp_all add: sends_plcrc_def)
  obtain buf' where enc: "encode_header e buf p msem t meta seqno address n plcrc = Some (length ?h div 2, buf')"
    "take (length ?h) buf' = ?h" "length buf' = length buf"
    using encode_header_ok [OF assms(1) refl, where n = n and p = p and msem = msem and meta = meta and t = t] fs(5,6) by blast
  define k where "k = length ?h div 2"
  have even: "2 * k = length ?h"
    by (simp add: k_def length_header_octets)
  have size: "k = 6 + (if ep_type (rp_ep p) = RP_EP_SERIAL then 1 else 0) + (if sends_plcrc p t n then 1 else 0)"
    by (simp add: k_def length_header_octets crcs)
  have "take 12 (take (length ?h) buf') = header_prefix ?m seqno address (of_nat n)"
    unfolding enc(2) by (simp add: header_octets_def)
  then have prefix: "take 12 buf' = header_prefix ?m seqno address (of_nat n)"
    by (simp add: length_header_octets min_def split: if_splits)
  define h' where "h' = motv_header ?m seqno address (of_nat n)
     (if raw_with_hdcrc ?m then header_sum ?m seqno address (of_nat n) plcrc else 0) (if raw_with_plcrc ?m then plcrc else 0)"
  have parse: "parse_header e' h (take (2 * k) buf' @ rest) 0 (2 * k + length rest) = Some (int k, h')" for rest
    unfolding even unfolding k_def h'_def by (rule parse_header_ok) (use enc fs assms(2) in simp_all)
  have options: "ucast (rh_options h') = (if sends_words p msem then RP_OPT_WORD_SIZE_16 else 0) OR
      (if ep_type (rp_ep p) = RP_EP_SERIAL then RP_OPT_WITH_HEADER_CRC else 0) OR
      (if sends_plcrc p t n then RP_OPT_WITH_PAYLOAD_CRC else 0)"
    using motv_options [of p msem meta t n] by (simp only: h'_def motv_header_def RPHeader.simps)
  have fields: "rh_version h' = 0" "rh_type h' = t" "rh_meta h' = ucast meta" "rh_sequence h' = seqno" "rh_address h' = address"
    "rh_blocksize h' = of_nat n" "rh_plcrc h' = (if sends_plcrc p t n then plcrc else 0)"
    "rh_hdcrc h' = (if ep_type (rp_ep p) = RP_EP_SERIAL
       then crc16_sum 0 (take 12 buf' @ (if sends_plcrc p t n then be_octets 2 plcrc else [])) else 0)"
    unfolding prefix using fs(1-3) by (simp_all add: h'_def motv_header_def crcs header_sum_def)
  have "encode_header e buf p msem t meta seqno address n plcrc = Some (k, buf')"
    using enc(1) by (simp add: k_def)
  with enc(3) size parse options fields show ?thesis
    by blast
qed

text \<open>The frame that a header and \<open>len\<close> octets of payload describe.\<close>

definition frame_for ::
    "('m, 's, 't, 'd) RegP \<Rightarrow> nat \<Rightarrow> RPFrameType \<Rightarrow> u32 \<Rightarrow> u16 \<Rightarrow> u32 \<Rightarrow> nat \<Rightarrow> u16 \<Rightarrow> nat \<Rightarrow> nat \<Rightarrow> RPFrame \<Rightarrow> bool" where
  "frame_for p msem t meta seqno address n plcrc k len f \<longleftrightarrow>
     rh_type (fr_header f) = t \<and> rh_meta (fr_header f) = meta \<and> rh_sequence (fr_header f) = seqno \<and>
     rh_address (fr_header f) = address \<and> unat (rh_blocksize (fr_header f)) = n \<and>
     (regp_is_16bitsem f \<longleftrightarrow> msem = MSEM_AUTO \<and> memory16 p \<or> msem = MSEM_16BIT) \<and>
     (regp_has_hdcrc f \<longleftrightarrow> ep_type (rp_ep p) = RP_EP_SERIAL) \<and>
     (ep_type (rp_ep p) = RP_EP_SERIAL \<and> n > 0 \<and> t \<noteq> RP_FRAME_READ_REQUEST \<longrightarrow> rh_plcrc (fr_header f) = plcrc) \<and>
     fr_payload_data f = 64 + 2 * k \<and> fr_payload_size f = len"

lemma frame_head:
  assumes hdr: "encode_header e (local_words RP_HEADER_SIZE_16) p msem t meta seqno address n plcrc = Some (k, buf)"
    and meta: "meta_plausible t (ucast meta)" and n: "n < 2 ^ 32"
    and block: "length struct = SIZEOF_RPFrame" "64 + 2 * k + length payload < 2 ^ 64"
      "bb_data b = Some (struct @ take (2 * k) buf @ payload @ rest)" "bb_used b = 64 + 2 * k + length payload"
  shows "\<exists>f. frame_for p msem t (ucast meta) seqno address n plcrc k (length payload) f \<and> 12 \<le> 2 * k \<and> 2 * k \<le> 16 \<and> length buf = 16 \<and>
     parse_frame e' b = (if payload_plausible f < 0 then Some (payload_plausible f, f)
       else do { rc \<leftarrow> check_payload e' f (struct @ take (2 * k) buf @ payload @ rest); Some (if rc < 0 then rc else 0, f) })"
proof -
  let ?m = "make_motv p msem meta t n"
  let ?h = "header_octets ?m seqno address (of_nat n) plcrc"
  let ?mem = "struct @ take (2 * k) buf @ payload @ rest"
  note fs = make_motv_fields [OF plausible_small [OF meta] refl, of p msem n]
  have enc: "k = length ?h div 2" "take (length ?h) buf = ?h" "length buf = 16"
    using encode_header_ok [OF _ refl, of "local_words RP_HEADER_SIZE_16" p msem meta t n e seqno address plcrc] fs(5,6) hdr
    by (auto simp: local_words_def rp_sizes)
  have even: "2 * k = length ?h"
    using enc(1) by (simp add: length_header_octets)
  define f where "f = \<lparr>fr_header = motv_header ?m seqno address (of_nat n)
      (if raw_with_hdcrc ?m then header_sum ?m seqno address (of_nat n) plcrc else 0) (if raw_with_plcrc ?m then plcrc else 0),
    fr_payload_size = length payload, fr_payload_data = 64 + 2 * k, fr_raw_memory = 64, fr_raw_size = 2 * k + length payload\<rparr>"
  have "parse_header e' local_header ?mem 64 (2 * k + length payload) = Some (int (length ?h div 2), motv_header ?m seqno address (of_nat n)
      (if raw_with_hdcrc ?m then header_sum ?m seqno address (of_nat n) plcrc else 0) (if raw_with_plcrc ?m then plcrc else 0))"
    by (rule parse_header_ok) (use block(1) enc(2,3) fs meta in \<open>simp_all add: SIZEOF_RPFrame_def even\<close>)
  then have ph: "parse_header e' local_header ?mem 64 (2 * k + length payload) = Some (int k, fr_header f)"
    by (simp add: f_def enc(1))
  have opts: "rh_options (fr_header f) = ucast (BIT_GET (ucast ?m) 4 8)"
    by (simp add: f_def motv_header_def)
  have "regp_is_16bitsem f \<longleftrightarrow> msem = MSEM_AUTO \<and> memory16 p \<or> msem = MSEM_16BIT"
    "regp_has_hdcrc f \<longleftrightarrow> ep_type (rp_ep p) = RP_EP_SERIAL"
    by (simp_all add: regp_is_16bitsem_def regp_has_hdcrc_def options_bits [OF opts] make_motv_bits)
  moreover have "unat (rh_blocksize (fr_header f)) = n"
    using n by (simp add: f_def motv_header_def unat_of_nat)
  ultimately have "frame_for p msem t (ucast meta) seqno address n plcrc k (length payload) f"
    using fs unfolding frame_for_def by (simp add: f_def motv_header_def)
  moreover have "parse_frame e' b = (if payload_plausible f < 0 then Some (payload_plausible f, f)
       else do { rc \<leftarrow> check_payload e' f ?mem; Some (if rc < 0 then rc else 0, f) })"
    using block(1,3,4) ph by (simp add: parse_frame_def mem_simps SIZEOF_RPFrame_def sz_sub_def f_def Let_def)
  moreover have "12 \<le> 2 * k" "2 * k \<le> 16"
    using even by (simp_all add: length_header_octets split: if_splits)
  ultimately show ?thesis
    using enc(3) by blast
qed

lemma plausible_types:
  "meta_plausible t meta \<Longrightarrow>
     t \<in> {RP_FRAME_READ_REQUEST, RP_FRAME_WRITE_REQUEST, RP_FRAME_READ_RESPONSE, RP_FRAME_WRITE_RESPONSE, RP_FRAME_META}"
  by (auto simp: meta_plausible_def split: if_splits)

lemma frame_plausible:
  assumes "frame_for p msem t meta seqno address n plcrc k len f" "meta_plausible t meta"
  shows "payload_plausible f =
     (if (if t = RP_FRAME_READ_RESPONSE \<or> t = RP_FRAME_WRITE_REQUEST then n else 0) = (if regp_is_16bitsem f then len div 2 else len)
      then 0 else - EFAULT)"
proof -
  have "payload_plausible f = (if t = RP_FRAME_READ_REQUEST \<or> t = RP_FRAME_WRITE_RESPONSE \<or> t = RP_FRAME_META
        then (if (if regp_is_16bitsem f then len div 2 else len) = 0 then 0 else - EFAULT)
      else if t = RP_FRAME_READ_RESPONSE \<or> t = RP_FRAME_WRITE_REQUEST
        then (if n = (if regp_is_16bitsem f then len div 2 else len) then 0 else - EFAULT)
      else - EINVAL)"
    using assms(1) by (simp add: payload_plausible_def frame_for_def regp_is_16bitsem_def Let_def)
  then show ?thesis
    using plausible_types [OF assms(2)] by (auto simp: rp_frame_types)
qed

lemma frame_check:
  assumes f: "frame_for p msem t meta seqno address n plcrc k (length payload) f"
    and at: "take (length payload) (drop (64 + 2 * k) m) = payload" "64 + 2 * k + length payload \<le> length m"
    and len: "payload \<noteq> [] \<Longrightarrow> length payload = (if regp_is_16bitsem f then 2 else 1) * n \<and> t \<noteq> RP_FRAME_READ_REQUEST"
    and plcrc: "plcrc = crc16_sum 0 payload"
  shows "check_payload e' f m = Some 0"
proof (cases "payload = [] \<or> ep_type (rp_ep p) \<noteq> RP_EP_SERIAL")
  case True
  then show ?thesis
    using f by (auto simp: check_payload_def frame_for_def)
next
  case False
  then have pos: "n > 0" "t \<noteq> RP_FRAME_READ_REQUEST" and l: "length payload = (if regp_is_16bitsem f then 2 else 1) * n"
    using len by (auto intro: gr0I)
  have flds: "rh_plcrc (fr_header f) = plcrc" "unat (rh_blocksize (fr_header f)) = n" "fr_payload_data f = 64 + 2 * k"
    "fr_payload_size f = length payload"
    using f pos False by (auto simp: frame_for_def)
  show ?thesis
  proof (cases "regp_is_16bitsem f")
    case True
    have r: "64 + 2 * k + 2 * n \<le> length m"
      using at l True by simp
    obtain ws where "words_at e' m (64 + 2 * k) n = Some ws"
      by (rule words_at_ok [OF r, of e'])
    with at l True flds show ?thesis
      using buffer_sum_of_words [OF r, of e'] True [unfolded regp_is_16bitsem_def] plcrc by (simp add: check_payload_def)
  next
    case False
    with at l flds plcrc show ?thesis
      by (simp add: check_payload_def regp_is_16bitsem_def mem_simps ufw_buffer_crc16_arc_def ufw_crc16_arc_eq CRC16_ARC_INITIAL_def)
  qed
qed

lemma frame_parse_ok:
  assumes hdr: "encode_header e (local_words RP_HEADER_SIZE_16) p msem t meta seqno address n plcrc = Some (k, buf)"
    and meta: "meta_plausible t (ucast meta)" and n: "n < 2 ^ 32"
    and payload: "length payload = (if t = RP_FRAME_READ_RESPONSE \<or> t = RP_FRAME_WRITE_REQUEST
        then (if msem = MSEM_AUTO \<and> memory16 p \<or> msem = MSEM_16BIT then 2 else 1) * n else 0)"
    and plcrc: "plcrc = crc16_sum 0 payload"
    and block: "length struct = SIZEOF_RPFrame" "64 + 2 * k + length payload < 2 ^ 64"
      "bb_data b = Some (struct @ take (2 * k) buf @ payload @ rest)" "bb_used b = 64 + 2 * k + length payload"
  shows "\<exists>f. parse_frame e' b = Some (0, f) \<and> frame_for p msem t (ucast meta) seqno address n plcrc k (length payload) f \<and> 12 \<le> 2 * k"
proof -
  let ?mem = "struct @ take (2 * k) buf @ payload @ rest"
  obtain f where f: "frame_for p msem t (ucast meta) seqno address n plcrc k (length payload) f" "12 \<le> 2 * k" "2 * k \<le> 16" "length buf = 16"
    "parse_frame e' b = (if payload_plausible f < 0 then Some (payload_plausible f, f)
       else do { rc \<leftarrow> check_payload e' f ?mem; Some (if rc < 0 then rc else 0, f) })"
    using frame_head [OF hdr meta n block, of e'] by blast
  have sem: "regp_is_16bitsem f \<longleftrightarrow> msem = MSEM_AUTO \<and> memory16 p \<or> msem = MSEM_16BIT"
    using f(1) by (simp add: frame_for_def)
  have "payload_plausible f = 0"
    using frame_plausible [OF f(1) meta] payload sem by simp
  moreover have "check_payload e' f ?mem = Some 0"
    by (rule frame_check [OF f(1)]) (use block(1) f(2,3,4) payload plcrc sem in \<open>auto simp: SIZEOF_RPFrame_def rp_frame_types split: if_splits\<close>)
  ultimately show ?thesis
    using f(1,2,5) by auto
qed

section \<open>Concrete headers\<close>

definition sample_serial :: "(unit, unit, unit, unit) RegP" where
  "sample_serial = regp_use_channel (regp_init (\<lambda>d _. (None, d)) (\<lambda>d _. d) ()) RP_EP_SERIAL source_empty sink_null"

lemma sample_serial: "ep_type (rp_ep sample_serial) = RP_EP_SERIAL"
  by (simp add: sample_serial_def regp_use_channel_def)

theorem regp_header_roundtrip_witness:
  "\<exists>k buf'. encode_header SYSTEM_ENDIANNESS_LITTLE (local_words RP_HEADER_SIZE_16) sample_serial MSEM_16BIT RP_FRAME_WRITE_REQUEST 0 9 0x1000 4 0xABCD =
       Some (k, buf') \<and> length buf' = 16 \<and> k = 8 \<and>
     (\<exists>h'. parse_header SYSTEM_ENDIANNESS_BIG local_header (take (2 * k) buf' @ [1, 2, 3]) 0 (2 * k + 3) = Some (int k, h') \<and>
        rh_type h' = RP_FRAME_WRITE_REQUEST \<and> rh_sequence h' = 9 \<and> rh_address h' = 0x1000 \<and> rh_blocksize h' = 4 \<and>
        ucast (rh_options h') = RP_OPT_WORD_SIZE_16 OR RP_OPT_WITH_HEADER_CRC OR RP_OPT_WITH_PAYLOAD_CRC \<and> rh_plcrc h' = 0xABCD \<and>
        rh_hdcrc h' = crc16_sum 0 (take 12 buf' @ be_octets 2 (0xABCD :: u16)))"
proof -
  have a: "16 \<le> length (local_words RP_HEADER_SIZE_16)" "meta_plausible RP_FRAME_WRITE_REQUEST (ucast (0 :: u8))"
    by (simp_all add: local_words_def rp_sizes meta_plausible_def)
  have s: "ep_type (rp_ep sample_serial) = RP_EP_SERIAL" "sends_words sample_serial MSEM_16BIT" "sends_plcrc sample_serial RP_FRAME_WRITE_REQUEST 4"
    by (simp_all add: sample_serial sends_words_def sends_plcrc_def rp_frame_types)
  obtain k buf' where r: "encode_header SYSTEM_ENDIANNESS_LITTLE (local_words RP_HEADER_SIZE_16) sample_serial MSEM_16BIT RP_FRAME_WRITE_REQUEST 0 9 0x1000 4 0xABCD =
       Some (k, buf')" "length buf' = length (local_words RP_HEADER_SIZE_16)" "k = 6 + 1 + 1"
     "\<forall>rest. \<exists>h'. parse_header SYSTEM_ENDIANNESS_BIG local_header (take (2 * k) buf' @ rest) 0 (2 * k + length rest) = Some (int k, h') \<and>
        rh_version h' = 0 \<and> rh_type h' = RP_FRAME_WRITE_REQUEST \<and> rh_meta h' = ucast (0 :: u8) \<and> rh_sequence h' = 9 \<and>
        rh_address h' = 0x1000 \<and> rh_blocksize h' = of_nat 4 \<and>
        ucast (rh_options h') = RP_OPT_WORD_SIZE_16 OR RP_OPT_WITH_HEADER_CRC OR RP_OPT_WITH_PAYLOAD_CRC \<and> rh_plcrc h' = 0xABCD \<and>
        rh_hdcrc h' = crc16_sum 0 (take 12 buf' @ be_octets 2 (0xABCD :: u16))"
    using regp_header_roundtrip [OF a, of SYSTEM_ENDIANNESS_LITTLE sample_serial MSEM_16BIT 9 "0x1000" 4 "0xABCD" SYSTEM_ENDIANNESS_BIG local_header,
      unfolded s if_P [OF s(1)] if_P [OF s(2)] if_P [OF s(3)] if_P [OF refl] if_True] by blast
  from r(4) [rule_format, of "[1, 2, 3]"] r(1-3) show ?thesis
    by (auto simp: local_words_def rp_sizes numeral_3_eq_3)
qed

theorem parse_frame_over_read_witness:
  "\<exists>m. length m = 79 \<and> parse_frame SYSTEM_ENDIANNESS_BIG \<lparr>bb_data = Some m, bb_size = 79, bb_used = 79, bb_offset = 0\<rparr> = None"
proof -
  let ?m = "make_motv sample_serial MSEM_16BIT 0 RP_FRAME_READ_REQUEST 256"
  let ?h = "header_octets ?m 0 0 256 0" and ?s = "header_sum ?m 0 0 256 0"
  let ?mem = "replicate 64 0 @ ?h @ [0]" and ?hd = "motv_header ?m 0 0 256 ?s 0"
  have small: "RP_FRAME_READ_REQUEST < 16" "(0 :: u8) < 16"
    by (simp_all add: rp_frame_types)
  note fs = make_motv_fields [OF small refl, of sample_serial MSEM_16BIT 256]
  have len: "length ?h = 14" "length ?mem = 79"
    using fs(5,6) sample_serial by (simp_all add: length_header_octets)
  have "parse_header SYSTEM_ENDIANNESS_BIG local_header ?mem 64 15 =
      Some (int (length ?h div 2), motv_header ?m 0 0 256 (if raw_with_hdcrc ?m then ?s else 0) (if raw_with_plcrc ?m then 0 else 0))"
    by (rule parse_header_ok) (use len fs in \<open>simp_all add: meta_plausible_def rp_frame_types\<close>)
  then have ph: "parse_header SYSTEM_ENDIANNESS_BIG local_header ?mem 64 15 = Some (7, ?hd)"
    using fs(5) sample_serial len(1) by simp
  have bits: "bit ?m 8" "bit ?m 9"
    by (simp_all add: make_motv_bits sample_serial rp_sizes)
  have "stray_octet ?hd 7 15"
    using bits options_bits [of ?hd ?m] fs by (simp add: stray_octet_def motv_header_def)
  with ph parse_frame_over_read [of "\<lparr>bb_data = Some ?mem, bb_size = 79, bb_used = 79, bb_offset = 0\<rparr>" ?mem SYSTEM_ENDIANNESS_BIG] len
  have "parse_frame SYSTEM_ENDIANNESS_BIG \<lparr>bb_data = Some ?mem, bb_size = 79, bb_used = 79, bb_offset = 0\<rparr> = None"
    by (simp add: motv_header_def)
  with len show ?thesis
    by blast
qed

end
