(* ===== verification/Register_Transport.thy ===== *)
theory Register_Transport
  imports Register_Frames
begin

text \<open>
  Frames of the register protocol on their way: what the receiving side's continuable sink makes of the octets of
  a frame, whatever the framing, and what \<^verbatim>\<open>regp_recv\<close> makes of the result. The requests that one instance sends
  arrive at another one as they were meant; frames that are too long, or for which there is no block, do not.
\<close>

section \<open>Decoding into a sink that takes every octet\<close>

text \<open>\<open>S xs\<close> is the state of the driver when it has taken \<open>xs\<close>.\<close>

definition absorbs :: "('t \<Rightarrow> u8 list \<Rightarrow> (int \<times> 't) option) \<Rightarrow> (u8 list \<Rightarrow> 't) \<Rightarrow> bool" where
  "absorbs f S \<longleftrightarrow> (\<forall>xs x. f (S xs) [x] = Some (1, S (xs @ [x])))"

lemma absorbs_put:
  assumes "absorbs f S" "snk_fn sink = ChunkSink f" "snk_driver sink = S xs"
  shows "sink_put_octet sink x = Some (1, sink\<lparr>snk_driver := S (xs @ [x])\<rparr>)"
  using assms by (simp add: sink_put_octet_def absorbs_def)

context steady_channel
begin

lemma decode_into:
  assumes "joined source ends" "stream (src_driver source) = slip_payload data @ RAW_EOF # rest"
    and "absorbs f S" "snk_fn sink = ChunkSink f" "snk_driver sink = S taken"
    and "rfc_state ctx = RFC1055_NORMAL" "\<not> bit (rfc_flags ctx) RFC1055_WITH_SOF"
  shows "\<exists>src. rfc1055_decode ctx source sink = Some (1, ctx, src, sink\<lparr>snk_driver := S (taken @ data)\<rparr>) \<and>
     joined src ends \<and> stream (src_driver src) = rest"
  using assms(1,2,4,5)
proof (induction data arbitrary: source sink taken)
  case Nil
  from decode_end [of source ends rest] Nil obtain src where
    "rfc1055_decode_octet source = Some (0, 0, src)" "joined src ends" "stream (src_driver src) = rest"
    by auto
  moreover have "sink\<lparr>snk_driver := S taken\<rparr> = sink"
    using Nil.prems(4) by simp
  ultimately show ?case
    using assms(6,7) by (subst rfc1055_decode.simps) (auto simp: errno_defs)
next
  case (Cons x data)
  have st: "stream (src_driver source) = slip_octet x @ (slip_payload data @ RAW_EOF # rest)"
    using Cons.prems(2) by simp
  obtain rc src where g: "rfc1055_decode_octet source = Some (rc, x, src)" "0 < rc" "joined src ends"
     "stream (src_driver src) = slip_payload data @ RAW_EOF # rest"
    using decode_octet_ok [OF Cons.prems(1) st] by blast
  let ?snk = "sink\<lparr>snk_driver := S (taken @ [x])\<rparr>"
  have put: "sink_put_octet sink x = Some (1, ?snk)"
    by (rule absorbs_put [OF assms(3) Cons.prems(3,4)])
  have "snk_fn ?snk = ChunkSink f" "snk_driver ?snk = S (taken @ [x])"
    using Cons.prems(3) by simp_all
  from Cons.IH [OF g(3,4) this] obtain src' where ih: "rfc1055_decode ctx src ?snk =
      Some (1, ctx, src', ?snk\<lparr>snk_driver := S ((taken @ [x]) @ data)\<rparr>)" "joined src' ends" "stream (src_driver src') = rest"
    by blast
  have "rfc1055_decode ctx source sink = rfc1055_decode ctx src ?snk"
    using g(1,2) put assms(6) by (subst rfc1055_decode.simps) (simp add: errno_defs)
  with ih show ?case
    by simp
qed

lemma cbc_into:
  assumes "joined source ends" "stream (src_driver source) = data @ rest"
    and "absorbs f S" "snk_fn sink = ChunkSink f" "snk_driver sink = S taken"
  shows "\<exists>src. sts_atmost_cbc_loop source sink n (length data) = Some (to_ssize n, src, sink\<lparr>snk_driver := S (taken @ data)\<rparr>) \<and>
     joined src ends \<and> stream (src_driver src) = rest"
  using assms(1,2,4,5)
proof (induction data arbitrary: source sink taken)
  case Nil
  then have "sink\<lparr>snk_driver := S taken\<rparr> = sink"
    by simp
  with Nil show ?case
    by auto
next
  case (Cons x data)
  have st: "stream (src_driver source) = x # (data @ rest)"
    using Cons.prems(2) by simp
  obtain src where g: "source_get_octet source = Some (1, [x], src)" "joined src ends" "stream (src_driver src) = data @ rest"
    using take_octet_some [OF Cons.prems(1) st] by blast
  let ?snk = "sink\<lparr>snk_driver := S (taken @ [x])\<rparr>"
  have put: "sink_put_octet sink x = Some (1, ?snk)"
    by (rule absorbs_put [OF assms(3) Cons.prems(3,4)])
  have "snk_fn ?snk = ChunkSink f" "snk_driver ?snk = S (taken @ [x])"
    using Cons.prems(3) by simp_all
  from Cons.IH [OF g(2,3) this] g put show ?case
    by (auto simp: sts_cbc_def)
qed

lemma sts_n_into:
  assumes "joined source ends" "stream (src_driver source) = data @ rest" "length data \<le> SSIZE_MAX"
    and "absorbs f S" "snk_fn sink = ChunkSink f" "snk_driver sink = S taken"
    and "\<not> source_has_buffer_ext source" "\<not> sink_has_buffer_ext sink"
  shows "\<exists>src. sts_n source sink (length data) = Some (int (length data), src, sink\<lparr>snk_driver := S (taken @ data)\<rparr>) \<and>
     joined src ends \<and> stream (src_driver src) = rest"
proof (cases "data = []")
  case True
  then have "sink\<lparr>snk_driver := S taken\<rparr> = sink"
    using assms(6) by simp
  with True assms show ?thesis
    by (simp add: sts_n_def sts_n_loop.simps to_ssize_def)
next
  case False
  then have n: "0 < length data" "to_ssize (length data) = int (length data)"
    using assms(3) by (simp_all add: to_ssize_def SSIZE_MAX_def)
  obtain src where run: "sts_atmost_cbc_loop source sink (length data) (length data) =
      Some (int (length data), src, sink\<lparr>snk_driver := S (taken @ data)\<rparr>)" "joined src ends" "stream (src_driver src) = rest"
    using cbc_into [OF assms(1,2,4,5,6), of "length data"] n(2) by auto
  have "sts_n_loop False source sink (length data) (length data) =
      sts_n_loop False src (sink\<lparr>snk_driver := S (taken @ data)\<rparr>) (length data) 0"
    using assms(7,8) run(1) n False by (subst sts_n_loop.simps) (simp add: sts_atmost_def sts_atmost_cbc_def errno_defs)
  with run n show ?thesis
    by (simp add: sts_n_def sts_n_loop.simps)
qed

end

section \<open>What a receiver collects\<close>

text \<open>
  The sink of \<^verbatim>\<open>regp_recv\<close> waits for the first octet before it asks for a block. With a block it stores the
  octets behind the frame structure, and drops what does not fit without a word: the room it compares with is the
  number of octets in the buffer, not the number of free ones. Without a block it drops everything, since the
  buffer it falls back to is empty, and room is the number of octets in a buffer.
\<close>

definition waiting :: "'d BlockAllocator \<Rightarrow> ByteBuffer \<Rightarrow> 'd ContinuableSink" where
  "waiting ba fb = \<lparr>cs_alloc = Some ba, cs_buffer = \<lparr>bb_data = None, bb_size = 0, bb_used = 0, bb_offset = 0\<rparr>,
     cs_fallback = Some fb, cs_postalloc = Some setup_buffer, cs_error_id = 0, cs_error_datacount = 0\<rparr>"

definition block_with :: "u8 list \<Rightarrow> u8 list \<Rightarrow> ByteBuffer" where
  "block_with m xs = \<lparr>bb_data = Some (overwrite m SIZEOF_RPFrame (take (length m - SIZEOF_RPFrame) xs)), bb_size = length m,
     bb_used = SIZEOF_RPFrame + min (length m - SIZEOF_RPFrame) (length xs), bb_offset = 0\<rparr>"

definition filling :: "'d BlockAllocator \<Rightarrow> 'd BlockAllocator \<Rightarrow> u8 list \<Rightarrow> ByteBuffer \<Rightarrow> u8 list \<Rightarrow> 'd ContinuableSink" where
  "filling ba ba' m fb xs = (if xs = [] then waiting ba fb else (waiting ba' fb)\<lparr>cs_buffer := block_with m xs\<rparr>)"

definition refusing :: "'d BlockAllocator \<Rightarrow> 'd BlockAllocator \<Rightarrow> ByteBuffer \<Rightarrow> u8 list \<Rightarrow> 'd ContinuableSink" where
  "refusing ba ba' fb xs = (if xs = [] then waiting ba fb
     else (waiting ba' fb)\<lparr>cs_error_id := EBUSY, cs_error_datacount := length xs mod 2 ^ 64\<rparr>)"

lemma block_with_add:
  assumes "SIZEOF_RPFrame \<le> length m" "length m \<le> SSIZE_MAX"
  shows "\<exists>rc. byte_buffer_add (block_with m xs) [x] 1 = Some (rc, block_with m (xs @ [x]))"
proof (cases "length xs < length m - SIZEOF_RPFrame")
  case True
  let ?k = "SIZEOF_RPFrame + length xs"
  have room: "?k + 1 \<le> length m"
    using True by simp
  have "overwrite (overwrite m SIZEOF_RPFrame xs) ?k [x] = overwrite m SIZEOF_RPFrame (xs @ [x])"
    using room by (simp add: overwrite_append)
  then have put: "mem_write (overwrite m SIZEOF_RPFrame xs) ?k [x] = Some (overwrite m SIZEOF_RPFrame (xs @ [x]))"
    using room by (subst mem_write_overwrite) simp_all
  have old: "block_with m xs = \<lparr>bb_data = Some (overwrite m SIZEOF_RPFrame xs), bb_size = length m, bb_used = ?k, bb_offset = 0\<rparr>"
    and new: "block_with m (xs @ [x]) =
      \<lparr>bb_data = Some (overwrite m SIZEOF_RPFrame (xs @ [x])), bb_size = length m, bb_used = ?k + 1, bb_offset = 0\<rparr>"
    using True by (simp_all add: block_with_def min_def)
  have "sz_add ?k 1 = ?k + 1"
    using room assms(2) by (simp add: sz_add_def SIZE_MOD_def SSIZE_MAX_def)
  then show ?thesis
    unfolding old new using put room by (simp add: byte_buffer_add_def mem_read_def)
next
  case False
  with assms show ?thesis
    by (simp add: byte_buffer_add_def block_with_def sz_add_def SIZE_MOD_def SSIZE_MAX_def min_def)
qed

lemma absorbs_filling:
  assumes "block_alloc ba = (rc, Some m, ba')" "0 \<le> rc" "ba_blocksize ba = length m"
    and "SIZEOF_RPFrame \<le> length m" "length m \<le> SSIZE_MAX"
  shows "absorbs run_continuable_sink (filling ba ba' m fb)"
  unfolding absorbs_def
proof (intro allI)
  fix xs x
  have bs: "ba_blocksize ba' = length m"
    using assms(1,3) by (auto simp: block_alloc_def split: prod.splits)
  have rest: "1 < byte_buffer_rest (block_with m xs)" for xs
    by (simp add: byte_buffer_rest_def block_with_def SIZEOF_RPFrame_def sz_sub_def)
  obtain rc' where add: "byte_buffer_add (block_with m xs) [x] 1 = Some (rc', block_with m (xs @ [x]))"
    using block_with_add [OF assms(4,5)] by blast
  have cs: "cs_add ((waiting ba' fb)\<lparr>cs_buffer := block_with m xs\<rparr>) [x] 1 =
      Some (0, (waiting ba' fb)\<lparr>cs_buffer := block_with m (xs @ [x])\<rparr>)"
    using add rest [of xs] by (simp add: cs_add_def block_with_def [THEN arg_cong [of _ _ bb_data]] Let_def min_def)
  show "run_continuable_sink (filling ba ba' m fb xs) [x] = Some (1, filling ba ba' m fb (xs @ [x]))"
  proof (cases "xs = []")
    case True
    have "setup_buffer \<lparr>bb_data = Some m, bb_size = length m, bb_used = 0, bb_offset = 0\<rparr> = block_with m xs"
      using True by (simp add: setup_buffer_def block_with_def)
    with True cs assms(1,2) bs show ?thesis
      by (simp add: run_continuable_sink_def filling_def cs_allocate_def waiting_def to_ssize_def SSIZE_MAX_def Let_def)
  next
    case False
    with cs show ?thesis
      by (simp add: run_continuable_sink_def filling_def cs_allocate_def waiting_def to_ssize_def SSIZE_MAX_def block_with_def Let_def)
  qed
qed

lemma absorbs_refusing:
  assumes "block_alloc ba = (rc, m, ba')" "rc < 0" "bb_data fb = Some h" "bb_used fb = 0" "bb_offset fb = 0"
  shows "absorbs run_continuable_sink (refusing ba ba' fb)"
  unfolding absorbs_def
proof (intro allI)
  fix xs x
  have "byte_buffer_add fb [x] 0 = Some (0, fb)"
    using assms(3,4) by (simp add: byte_buffer_add_def mem_simps sz_add_def)
  then have cs: "cs_add ((waiting ba' fb)\<lparr>cs_error_id := EBUSY, cs_error_datacount := n\<rparr>) [x] 1 =
      Some (- ENOMEM, (waiting ba' fb)\<lparr>cs_error_id := EBUSY, cs_error_datacount := n\<rparr>)" for n
    using assms(4,5) by (simp add: cs_add_def waiting_def byte_buffer_rest_def Let_def)
  show "run_continuable_sink (refusing ba ba' fb xs) [x] = Some (1, refusing ba ba' fb (xs @ [x]))"
  proof (cases "xs = []")
    case True
    with cs [of 1] assms(1,2) show ?thesis
      by (simp add: run_continuable_sink_def refusing_def cs_allocate_def waiting_def to_ssize_def SSIZE_MAX_def Let_def)
  next
    case False
    with cs [of "length xs mod 2 ^ 64"] show ?thesis
      by (simp add: run_continuable_sink_def refusing_def waiting_def to_ssize_def SSIZE_MAX_def sz_add_def SIZE_MOD_def
          errno_defs mod_Suc_eq Let_def)
  qed
qed

section \<open>Frames on a channel\<close>

definition frame_octets :: "RPEndpointType \<Rightarrow> u8 list \<Rightarrow> u8 list" where
  "frame_octets t xs = (case t of RP_EP_SERIAL \<Rightarrow> slip_frame 0 xs | RP_EP_TCP \<Rightarrow> lenp_frame LENP_VARIABLE xs)"

lemma default_context: "rfc_state RFC1055_CONTEXT_INIT_DEFAULT = RFC1055_NORMAL" "rfc_flags RFC1055_CONTEXT_INIT_DEFAULT = 0"
  by (simp_all add: RFC1055_CONTEXT_INIT_DEFAULT_def)

context steady_channel
begin

lemma receive_frame_ok:
  assumes "joined source ends" "stream (src_driver source) = frame_octets t xs @ rest" "length xs \<le> SSIZE_MAX"
    and "absorbs f S" "snk_fn sink = ChunkSink f" "snk_driver sink = S []"
    and "\<not> source_has_buffer_ext source" "\<not> sink_has_buffer_ext sink"
  shows "\<exists>rc src. receive_frame e t source sink = Some (rc, src, sink\<lparr>snk_driver := S xs\<rparr>) \<and> 0 \<le> rc \<and>
     joined src ends \<and> stream (src_driver src) = rest"
proof (cases t)
  case RP_EP_SERIAL
  with assms(2) have "stream (src_driver source) = slip_payload xs @ RAW_EOF # rest"
    by (simp add: frame_octets_def slip_frame_def)
  from decode_into [OF assms(1) this assms(4,5,6), of RFC1055_CONTEXT_INIT_DEFAULT] RP_EP_SERIAL show ?thesis
    by (auto simp: receive_frame_def default_context)
next
  case RP_EP_TCP
  have j: "rinv (src_driver source)" "src_fn source = fn" "plain_retry (src_retry source)"
    using assms(1) by (simp_all add: joined_def)
  have st: "stream (src_driver source) = prefix_octets LENP_VARIABLE (length xs) @ (xs @ rest)" "length xs \<le> prefix_maximum LENP_VARIABLE"
    using assms(2,3) RP_EP_TCP by (simp_all add: frame_octets_def lenp_frame_def prefix_maximum_def)
  obtain rc s' where d: "decode_prefix e LENP_VARIABLE source 0 = Some (rc, of_nat (length xs), source\<lparr>src_driver := s'\<rparr>)"
     "0 \<le> rc" "rinv s'" "stream s' = xs @ rest"
    using decode_prefix_ok [OF j steady(1) st] by blast
  have len: "unat (of_nat (length xs) :: u64) = length xs"
    using assms(3) by (intro narrow_unat) (simp add: SSIZE_MAX_def)
  let ?src = "source\<lparr>src_driver := s'\<rparr>"
  have "joined ?src ends" "stream (src_driver ?src) = xs @ rest" "\<not> source_has_buffer_ext ?src"
    using assms(1,7) d by (simp_all add: joined_def source_has_buffer_ext_def)
  from sts_n_into [OF this(1,2) assms(3,4,5,6) this(3) assms(8)] d len RP_EP_TCP show ?thesis
    by (auto simp: receive_frame_def lenp_decode_source_to_sink_def flenp_decode_source_to_sink_def)
qed

end

section \<open>Sending into a buffer, receiving from a buffer\<close>

definition buffer_sink :: "ByteBuffer Sink \<Rightarrow> bool" where
  "buffer_sink snk \<longleftrightarrow> bb_ready (snk_driver snk) \<and> snk_fn snk = ChunkSink write_to_buffer \<and> plain_retry (snk_retry snk)"

definition buffer_source :: "ByteBuffer Source \<Rightarrow> bool" where
  "buffer_source src \<longleftrightarrow> bb_ready (src_driver src) \<and> src_fn src = ChunkSource read_from_buffer \<and> plain_retry (src_retry src) \<and>
     \<not> source_has_buffer_ext src"

lemma buffer_endpoints: "bb_ready b \<Longrightarrow> buffer_sink (sink_to_buffer ti b)" "bb_ready b \<Longrightarrow> buffer_source (source_from_buffer si b)"
  by (simp_all add: buffer_sink_def buffer_source_def source_from_buffer_def sink_to_buffer_def chunk_source_init_def
      chunk_sink_init_def plain_retry_def source_has_buffer_ext_def)

text \<open>The payload a pair of pointer and size stands for.\<close>

definition payload_of :: "u8 list option \<Rightarrow> nat \<Rightarrow> u8 list" where
  "payload_of pl ps = (case pl of None \<Rightarrow> [] | Some m \<Rightarrow> take ps m)"

lemma send_memory_ok:
  assumes snk: "buffer_sink (ep_sink (rp_ep p))"
    and hdr: "0 < hs" "hs \<le> length hdr" "length hdr \<le> SSIZE_MAX"
    and pl: "\<And>m. pl = Some m \<Longrightarrow> 0 < ps \<and> ps \<le> length m \<and> length m \<le> SSIZE_MAX"
    and sz: "hs + length (payload_of pl ps) + 10 \<le> SSIZE_MAX"
    and room: "length (frame_octets (ep_type (rp_ep p)) (take hs hdr @ payload_of pl ps)) \<le> byte_buffer_avail (snk_driver (ep_sink (rp_ep p)))"
  shows "\<exists>snk. send_memory e p hdr hs pl ps = Some (0, p\<lparr>rp_ep := (rp_ep p)\<lparr>ep_sink := snk\<rparr>\<rparr>) \<and> buffer_sink snk \<and>
     bb_pending (snk_driver snk) = bb_pending (snk_driver (ep_sink (rp_ep p))) @
       frame_octets (ep_type (rp_ep p)) (take hs hdr @ payload_of pl ps)"
proof -
  let ?data = "BYTE_CHUNKS [BYTE_BUFFER (Some hdr) hs, BYTE_BUFFER pl ps]"
  define c where "c = (if pl = None then ?data\<lparr>bc_chunks := 1\<rparr> else ?data)"
  have b1: "bb_ready (BYTE_BUFFER (Some hdr) hs)" "bb_pending (BYTE_BUFFER (Some hdr) hs) = take hs hdr"
    using hdr by (simp_all add: BYTE_BUFFER_def bb_ready_def bb_inv_def bb_pending_def)
  have b2: "bb_ready (BYTE_BUFFER (Some m) ps)" "bb_pending (BYTE_BUFFER (Some m) ps) = take ps m" if "pl = Some m" for m
    using pl [OF that] by (simp_all add: BYTE_BUFFER_def bb_ready_def bb_inv_def bb_pending_def)
  have inv: "chunks_inv c"
    using b1 b2 by (cases pl) (simp_all add: c_def BYTE_CHUNKS_def chunks_inv_def)
  have pending: "chunks_pending c = take hs hdr @ payload_of pl ps"
    using b1 b2 by (cases pl) (simp_all add: c_def BYTE_CHUNKS_def chunks_pending_def payload_of_def)
  have mems: "list_all (\<lambda>b. length (bb_mem b) \<le> SSIZE_MAX) (bc_chunk c)"
    using hdr pl by (cases pl) (simp_all add: c_def BYTE_CHUNKS_def BYTE_BUFFER_def bb_mem_def)
  let ?s = "ep_sink (rp_ep p)"
  have src: "chunks_to_buffer.joined (source_from_chunks (local_source c) c) ?s"
    using inv snk by (simp add: chunks_to_buffer.joined_def buffer_sink_def source_from_chunks_def chunk_source_init_def plain_retry_def)
  show ?thesis
  proof (cases "ep_type (rp_ep p)")
    case RP_EP_SERIAL
    have fit: "length (slip_frame (rfc_flags RFC1055_CONTEXT_INIT_DEFAULT) (chunks_pending c)) \<le> byte_buffer_avail (snk_driver ?s)"
      using room RP_EP_SERIAL by (simp add: default_context frame_octets_def pending)
    have data: "chunks_pending (src_driver (source_from_chunks (local_source c) c)) = chunks_pending c"
      by (simp add: source_from_chunks_def chunk_source_init_def)
    obtain src snk where "rfc1055_encode RFC1055_CONTEXT_INIT_DEFAULT (source_from_chunks (local_source c) c) ?s = Some (0, src, snk)"
      "chunks_to_buffer.joined src snk" "bb_pending (snk_driver snk) = bb_pending (snk_driver ?s) @ slip_frame 0 (chunks_pending c)"
      using chunks_to_buffer.rfc1055_encode_ok [OF src data refl fit] by (auto simp: default_context)
    then show ?thesis
      using RP_EP_SERIAL unfolding send_memory_def Let_def c_def [symmetric]
      by (intro exI [of _ snk]) (simp add: frame_octets_def pending buffer_sink_def chunks_to_buffer.joined_def)
  next
    case RP_EP_TCP
    have fit: "length (lenp_frame LENP_VARIABLE (chunks_pending c)) \<le> byte_buffer_avail (snk_driver ?s)"
      using room RP_EP_TCP by (simp add: frame_octets_def pending)
    have sizes: "length (chunks_pending c) \<le> prefix_maximum LENP_VARIABLE" "length (chunks_pending c) + 10 \<le> SSIZE_MAX"
      using sz hdr by (simp_all add: pending prefix_maximum_def)
    let ?bs = "drop (bc_active c) (take (bc_chunks c) (bc_chunk c))"
    have full: "list_all (\<lambda>b. bb_pending b \<noteq> []) ?bs"
      using b1 b2 hdr pl by (cases pl) (auto simp: c_def BYTE_CHUNKS_def)
    then have all: "takeWhile (\<lambda>b. bb_pending b \<noteq> []) ?bs = ?bs"
      by (simp add: list_all_iff takeWhile_eq_all_conv)
    obtain snk where "flenp_chunks_to_sink e LENP_VARIABLE ?s c = Some (int (length (lenp_frame LENP_VARIABLE (chunks_pending c))), snk)"
      "chunks_to_buffer.joined (source_from_chunks (local_source c) c) snk"
      "bb_pending (snk_driver snk) = bb_pending (snk_driver ?s) @ lenp_frame LENP_VARIABLE (chunks_pending c)"
      using chunks_to_buffer.chunks_frame_ok [OF src inv mems sizes fit refl, of e] full
      unfolding all by (auto simp: lenp_frame_def chunks_pending_def)
    then show ?thesis
      using RP_EP_TCP unfolding send_memory_def Let_def c_def [symmetric]
      by (intro exI [of _ snk]) (simp add: lenp_chunks_to_sink_def frame_octets_def pending buffer_sink_def chunks_to_buffer.joined_def)
  qed
qed

definition receiver_header :: ByteBuffer where
  "receiver_header = BYTE_BUFFER_EMPTY (Some (local_words RP_HEADER_SIZE_16)) (2 * RP_HEADER_SIZE_16)"

lemma regp_recv_collects:
  assumes src: "buffer_source (ep_source (rp_ep q))"
    and str: "bb_pending (src_driver (ep_source (rp_ep q))) = frame_octets (ep_type (rp_ep q)) xs @ rest" "length xs \<le> SSIZE_MAX"
    and S: "absorbs run_continuable_sink S" "S [] = waiting (rp_alloc q) receiver_header"
  shows "\<exists>rc src recv. receive_frame e (ep_type (rp_ep q)) (ep_source (rp_ep q))
       (continuable_sink_init (local_sink (waiting (rp_alloc q) receiver_header)) (waiting (rp_alloc q) receiver_header)) = Some (rc, src, recv) \<and> 0 \<le> rc \<and>
     snk_driver recv = S xs \<and> bb_ready (src_driver src) \<and> bb_pending (src_driver src) = rest"
proof -
  let ?r = "continuable_sink_init (local_sink (waiting (rp_alloc q) receiver_header)) (waiting (rp_alloc q) receiver_header)"
  have ready: "bb_ready (src_driver (ep_source (rp_ep q)))"
    using src by (simp add: buffer_source_def)
  have j: "buffer_to_buffer.joined (ep_source (rp_ep q)) (sink_to_buffer (idle_sink sample_buffer) sample_buffer)"
    using src by (simp add: buffer_to_buffer.joined_def buffer_source_def sample_buffer_ready)
  have r: "snk_fn ?r = ChunkSink run_continuable_sink" "snk_driver ?r = S []" "\<not> sink_has_buffer_ext ?r"
    by (simp_all add: continuable_sink_init_def chunk_sink_init_def waiting_def S(2) sink_has_buffer_ext_def)
  have ext: "\<not> source_has_buffer_ext (ep_source (rp_ep q))"
    using src by (simp add: buffer_source_def)
  from buffer_to_buffer.receive_frame_ok [OF j str S(1) r(1,2) ext r(3), of e] show ?thesis
    by (auto simp: buffer_to_buffer.joined_def)
qed

text \<open>The call, when the frame was received and the sink is in a state that is known.\<close>

lemma regp_recv_state:
  assumes "receive_frame e (ep_type (rp_ep q)) (ep_source (rp_ep q))
       (continuable_sink_init (local_sink (waiting (rp_alloc q) receiver_header)) (waiting (rp_alloc q) receiver_header)) =
     Some (rc, src, recv)" "0 \<le> rc"
    and "cs_alloc (snk_driver recv) = Some ba" "cs_fallback (snk_driver recv) = Some receiver_header"
  defines "q' \<equiv> q\<lparr>rp_ep := (rp_ep q)\<lparr>ep_source := src\<rparr>, rp_alloc := ba\<rparr>"
  shows "cs_error_id (snk_driver recv) = 0 \<Longrightarrow> regp_recv e q = do {
         (rc, f) \<leftarrow> parse_frame e (cs_buffer (snk_driver recv));
         (rc', q'') \<leftarrow> (if rc = - EBADMSG then regp_resp_meta e q' RP_META_EHEADERENC
                    else if rc = - EILSEQ then regp_resp_meta e q' RP_META_EHEADERCRC
                    else Some (0, q'));
         Some (rc', \<lparr>mf_error = (if rc < 0 then - rc else 0), mf_framesize = 0,
           mf_frame = map_option (\<lambda>m. \<lparr>rb_frame = Some f, rb_octets = m\<rparr>) (bb_data (cs_buffer (snk_driver recv)))\<rparr>, q'')
       }"
    "cs_error_id (snk_driver recv) = EBUSY \<Longrightarrow> regp_recv e q = do {
         (rc', q'') \<leftarrow> early_ebusy e q' receiver_header;
         Some (rc', \<lparr>mf_error = EBUSY, mf_framesize = cs_error_datacount (snk_driver recv),
           mf_frame = map_option (\<lambda>m. \<lparr>rb_frame = None, rb_octets = m\<rparr>) (bb_data (cs_buffer (snk_driver recv)))\<rparr>, q'')
       }"
proof -
  have start: "\<lparr>cs_alloc = Some (rp_alloc q), cs_buffer = BYTE_BUFFER None 0,
      cs_fallback = Some (BYTE_BUFFER_EMPTY (Some (local_words RP_HEADER_SIZE_16)) (2 * RP_HEADER_SIZE_16)),
      cs_postalloc = Some setup_buffer, cs_error_id = 0, cs_error_datacount = 0\<rparr> = waiting (rp_alloc q) receiver_header"
    by (simp add: waiting_def receiver_header_def BYTE_BUFFER_def)
  note run = assms(1-4)
  show "regp_recv e q = do {
         (rc, f) \<leftarrow> parse_frame e (cs_buffer (snk_driver recv));
         (rc', q'') \<leftarrow> (if rc = - EBADMSG then regp_resp_meta e q' RP_META_EHEADERENC
                    else if rc = - EILSEQ then regp_resp_meta e q' RP_META_EHEADERCRC
                    else Some (0, q'));
         Some (rc', \<lparr>mf_error = (if rc < 0 then - rc else 0), mf_framesize = 0,
           mf_frame = map_option (\<lambda>m. \<lparr>rb_frame = Some f, rb_octets = m\<rparr>) (bb_data (cs_buffer (snk_driver recv)))\<rparr>, q'')
       }" if "cs_error_id (snk_driver recv) = 0"
    unfolding regp_recv_def Let_def start using run that
    by (simp add: q'_def option.map_comp comp_def cong: if_cong)
      (intro Option.bind_cong refl, auto simp: fun_eq_iff split: prod.splits)
  show "regp_recv e q = do {
         (rc', q'') \<leftarrow> early_ebusy e q' receiver_header;
         Some (rc', \<lparr>mf_error = EBUSY, mf_framesize = cs_error_datacount (snk_driver recv),
           mf_frame = map_option (\<lambda>m. \<lparr>rb_frame = None, rb_octets = m\<rparr>) (bb_data (cs_buffer (snk_driver recv)))\<rparr>, q'')
       }" if "cs_error_id (snk_driver recv) = EBUSY"
    unfolding regp_recv_def Let_def start using run that
    by (simp add: q'_def errno_defs option.map_comp comp_def)
qed

lemma receiver_header_empty: "bb_data receiver_header = Some (local_words RP_HEADER_SIZE_16)" "bb_used receiver_header = 0"
    "bb_offset receiver_header = 0"
  by (simp_all add: receiver_header_def BYTE_BUFFER_EMPTY_def)

definition gives_block :: "'d BlockAllocator \<Rightarrow> u8 list \<Rightarrow> 'd BlockAllocator \<Rightarrow> bool" where
  "gives_block ba m ba' \<longleftrightarrow> block_alloc ba = (0, Some m, ba') \<and> ba_blocksize ba = length m \<and> length m \<le> SSIZE_MAX"

lemma regp_recv_block:
  assumes "buffer_source (ep_source (rp_ep q))"
    and "bb_pending (src_driver (ep_source (rp_ep q))) = frame_octets (ep_type (rp_ep q)) xs @ rest" "length xs \<le> SSIZE_MAX"
    and "xs \<noteq> []" "gives_block (rp_alloc q) m ba'" "SIZEOF_RPFrame \<le> length m"
  shows "\<exists>src. bb_ready (src_driver src) \<and> bb_pending (src_driver src) = rest \<and> regp_recv e q = (
       let q' = q\<lparr>rp_ep := (rp_ep q)\<lparr>ep_source := src\<rparr>, rp_alloc := ba'\<rparr> in do {
         (rc, f) \<leftarrow> parse_frame e (block_with m xs);
         (rc', q'') \<leftarrow> (if rc = - EBADMSG then regp_resp_meta e q' RP_META_EHEADERENC
                    else if rc = - EILSEQ then regp_resp_meta e q' RP_META_EHEADERCRC
                    else Some (0, q'));
         Some (rc', \<lparr>mf_error = (if rc < 0 then - rc else 0), mf_framesize = 0,
           mf_frame = map_option (\<lambda>m. \<lparr>rb_frame = Some f, rb_octets = m\<rparr>) (bb_data (block_with m xs))\<rparr>, q'')
       })"
proof -
  have S: "absorbs run_continuable_sink (filling (rp_alloc q) ba' m receiver_header)"
    using assms(5,6) by (intro absorbs_filling [where rc = 0]) (simp_all add: gives_block_def)
  have "filling (rp_alloc q) ba' m receiver_header [] = waiting (rp_alloc q) receiver_header"
    by (simp add: filling_def)
  from regp_recv_collects [OF assms(1-3) S this] obtain rc src recv where
    r: "receive_frame e (ep_type (rp_ep q)) (ep_source (rp_ep q))
       (continuable_sink_init (local_sink (waiting (rp_alloc q) receiver_header)) (waiting (rp_alloc q) receiver_header)) = Some (rc, src, recv)"
      "0 \<le> rc" "snk_driver recv = filling (rp_alloc q) ba' m receiver_header xs" "bb_ready (src_driver src)" "bb_pending (src_driver src) = rest"
    by blast
  have d: "cs_alloc (snk_driver recv) = Some ba'" "cs_fallback (snk_driver recv) = Some receiver_header"
    "cs_error_id (snk_driver recv) = 0" "cs_buffer (snk_driver recv) = block_with m xs"
    using r(3) assms(4) by (simp_all add: filling_def waiting_def)
  from regp_recv_state(1) [OF r(1,2) d(1-3)] r(4,5) show ?thesis
    unfolding Let_def by (intro exI [of _ src]) (simp add: d(4))
qed

text \<open>What a call of \<^verbatim>\<open>regp_recv\<close> hands out, when the frame is good.\<close>

definition good_frame ::
    "RPMaybeFrame \<Rightarrow> nat \<Rightarrow> RPFrameType \<Rightarrow> u32 \<Rightarrow> u16 \<Rightarrow> u32 \<Rightarrow> nat \<Rightarrow> bool \<Rightarrow> u8 list \<Rightarrow> bool" where
  "good_frame mf bs t meta seqno address n sem16 payload \<longleftrightarrow> mf_error mf = 0 \<and> (\<exists>block f. mf_frame mf = Some block \<and>
     rb_frame block = Some f \<and> rh_type (fr_header f) = t \<and> rh_meta (fr_header f) = meta \<and> rh_sequence (fr_header f) = seqno \<and>
     rh_address (fr_header f) = address \<and> unat (rh_blocksize (fr_header f)) = n \<and> (regp_is_16bitsem f \<longleftrightarrow> sem16) \<and>
     length (rb_octets block) = bs \<and> SIZEOF_RPFrame + RP_HEADER_MIN_SIZE \<le> fr_payload_data f \<and>
     fr_payload_data f \<le> SIZEOF_RPFrame + RP_HEADER_SIZE \<and>
     fr_payload_size f = length payload \<and> fr_payload_data f + length payload \<le> length (rb_octets block) \<and>
     take (length payload) (drop (fr_payload_data f) (rb_octets block)) = payload)"

lemma frame_delivered:
  assumes hdr: "encode_header e (local_words RP_HEADER_SIZE_16) p msem t meta seqno address n plcrc = Some (k, hdr)"
    and meta: "meta_plausible t (ucast meta)" and n: "n < 2 ^ 32"
    and payload: "length payload = (if t = RP_FRAME_READ_RESPONSE \<or> t = RP_FRAME_WRITE_REQUEST
        then (if msem = MSEM_AUTO \<and> memory16 p \<or> msem = MSEM_16BIT then 2 else 1) * n else 0)" "plcrc = crc16_sum 0 payload"
    and src: "buffer_source (ep_source (rp_ep q))" and k: "12 \<le> 2 * k" "2 * k \<le> 16" "length hdr = 16"
    and str: "bb_pending (src_driver (ep_source (rp_ep q))) = frame_octets (ep_type (rp_ep q)) (take (2 * k) hdr @ payload) @ rest"
    and block: "gives_block (rp_alloc q) m ba'" "SIZEOF_RPFrame + 16 + length payload \<le> length m"
  shows "\<exists>mf src. regp_recv e' q = Some (0, mf, q\<lparr>rp_ep := (rp_ep q)\<lparr>ep_source := src\<rparr>, rp_alloc := ba'\<rparr>) \<and>
     good_frame mf (length m) t (ucast meta) seqno address n (msem = MSEM_AUTO \<and> memory16 p \<or> msem = MSEM_16BIT) payload \<and>
     bb_ready (src_driver src) \<and> bb_pending (src_driver src) = rest"
proof -
  let ?xs = "take (2 * k) hdr @ payload"
  have lens: "length ?xs \<le> SSIZE_MAX" "?xs \<noteq> []" "SIZEOF_RPFrame \<le> length m" "length ?xs \<le> length m - SIZEOF_RPFrame"
    "length m \<le> SSIZE_MAX" "length ?xs = 2 * k + length payload"
    using block k by (auto simp: gives_block_def)
  have b: "bb_data (block_with m ?xs) = Some (take 64 m @ take (2 * k) hdr @ payload @ drop (64 + length ?xs) m)"
     "bb_used (block_with m ?xs) = 64 + 2 * k + length payload"
  proof -
    have whole: "take (length m - SIZEOF_RPFrame) ?xs = ?xs" "min (length m - SIZEOF_RPFrame) (length ?xs) = length ?xs"
      using lens(4) by (rule take_all, rule min_absorb2)
    show "bb_data (block_with m ?xs) = Some (take 64 m @ take (2 * k) hdr @ payload @ drop (64 + length ?xs) m)"
      unfolding block_with_def whole by (simp add: overwrite_def SIZEOF_RPFrame_def)
    show "bb_used (block_with m ?xs) = 64 + 2 * k + length payload"
      unfolding block_with_def whole using lens(6) by (simp add: SIZEOF_RPFrame_def)
  qed
  obtain f where f: "parse_frame e' (block_with m ?xs) = Some (0, f)" "rh_type (fr_header f) = t" "rh_meta (fr_header f) = ucast meta"
     "rh_sequence (fr_header f) = seqno" "rh_address (fr_header f) = address" "unat (rh_blocksize (fr_header f)) = n"
     "regp_is_16bitsem f \<longleftrightarrow> msem = MSEM_AUTO \<and> memory16 p \<or> msem = MSEM_16BIT"
     "fr_payload_data f = 64 + 2 * k" "fr_payload_size f = length payload" "12 \<le> 2 * k"
    using frame_parse_ok [OF hdr meta n payload, of "take 64 m" "block_with m ?xs" "drop (64 + length ?xs) m" e'] lens b
    by (auto simp: SIZEOF_RPFrame_def SSIZE_MAX_def frame_for_def)
  obtain src where recv: "bb_ready (src_driver src)" "bb_pending (src_driver src) = rest" "regp_recv e' q = (
       let q' = q\<lparr>rp_ep := (rp_ep q)\<lparr>ep_source := src\<rparr>, rp_alloc := ba'\<rparr> in do {
         (rc, f) \<leftarrow> parse_frame e' (block_with m ?xs);
         (rc', q'') \<leftarrow> (if rc = - EBADMSG then regp_resp_meta e' q' RP_META_EHEADERENC
                    else if rc = - EILSEQ then regp_resp_meta e' q' RP_META_EHEADERCRC
                    else Some (0, q'));
         Some (rc', \<lparr>mf_error = (if rc < 0 then - rc else 0), mf_framesize = 0,
           mf_frame = map_option (\<lambda>m. \<lparr>rb_frame = Some f, rb_octets = m\<rparr>) (bb_data (block_with m ?xs))\<rparr>, q'')
       })"
    using regp_recv_block [OF src str lens(1,2) block(1) lens(3), of e'] by blast
  let ?mf = "\<lparr>mf_error = 0, mf_framesize = 0, mf_frame = map_option (\<lambda>m. \<lparr>rb_frame = Some f, rb_octets = m\<rparr>) (bb_data (block_with m ?xs))\<rparr>"
  have "regp_recv e' q = Some (0, ?mf, q\<lparr>rp_ep := (rp_ep q)\<lparr>ep_source := src\<rparr>, rp_alloc := ba'\<rparr>)"
    using recv(3) f(1) by (simp add: errno_defs)
  moreover have "good_frame ?mf (length m) t (ucast meta) seqno address n (msem = MSEM_AUTO \<and> memory16 p \<or> msem = MSEM_16BIT) payload"
    using f b lens k by (simp add: good_frame_def SIZEOF_RPFrame_def rp_sizes)
  ultimately show ?thesis
    using recv(1,2) by blast
qed

section \<open>Requests\<close>

text \<open>A frame leaves the sender, header and payload.\<close>

lemma regp_send_frame_ok:
  assumes snk: "buffer_sink (ep_sink (rp_ep p))" and small: "t < 16" "meta < 16"
    and pl: "\<And>m. pl = Some m \<Longrightarrow> 0 < ps \<and> ps \<le> length m \<and> length m + 26 \<le> SSIZE_MAX"
    and room: "2 * (16 + length (payload_of pl ps)) + 10 \<le> byte_buffer_avail (snk_driver (ep_sink (rp_ep p)))"
  shows "\<exists>k hdr snk. encode_header e (local_words RP_HEADER_SIZE_16) p msem t meta seqno address n plcrc = Some (k, hdr) \<and>
     12 \<le> 2 * k \<and> 2 * k \<le> 16 \<and> length hdr = 16 \<and>
     send_memory e p hdr (2 * k) pl ps = Some (0, p\<lparr>rp_ep := (rp_ep p)\<lparr>ep_sink := snk\<rparr>\<rparr>) \<and> buffer_sink snk \<and>
     bb_pending (snk_driver snk) = bb_pending (snk_driver (ep_sink (rp_ep p))) @
       frame_octets (ep_type (rp_ep p)) (take (2 * k) hdr @ payload_of pl ps)"
proof -
  let ?h = "header_octets (make_motv p msem meta t n) seqno address (of_nat n) plcrc"
  note fs = make_motv_fields [OF small refl, of p msem n]
  obtain hdr where h: "encode_header e (local_words RP_HEADER_SIZE_16) p msem t meta seqno address n plcrc =
      Some (length ?h div 2, hdr)" "length hdr = 16"
    using encode_header_ok [OF _ refl, of "local_words RP_HEADER_SIZE_16" p msem meta t n e seqno address plcrc] fs(5,6)
    by (auto simp: local_words_def rp_sizes)
  define k where "k = length ?h div 2"
  have k: "12 \<le> 2 * k" "2 * k \<le> 16"
    by (auto simp: k_def length_header_octets)
  have lens: "length (frame_octets ft (take (2 * k) hdr @ xs)) \<le> 2 * (16 + length xs) + 10" for ft xs
  proof -
    have "length (take (2 * k) hdr @ xs) \<le> 16 + length xs"
      using k h(2) by simp
    then show ?thesis
      using length_slip_frame [of 0 "take (2 * k) hdr @ xs"] length_prefix_octets_le [of LENP_VARIABLE "length (take (2 * k) hdr @ xs)"]
      by (auto simp: frame_octets_def lenp_frame_def RFC1055_WORST_CASE_def split: RPEndpointType.split)
  qed
  have "length (payload_of pl ps) + 26 \<le> SSIZE_MAX"
    using pl by (cases pl) (auto simp: payload_of_def SSIZE_MAX_def)
  then have sz: "2 * k + length (payload_of pl ps) + 10 \<le> SSIZE_MAX"
    using k by simp
  have pl': "0 < ps \<and> ps \<le> length m \<and> length m \<le> SSIZE_MAX" if "pl = Some m" for m
    using pl [OF that] by simp
  have "\<exists>snk. send_memory e p hdr (2 * k) pl ps = Some (0, p\<lparr>rp_ep := (rp_ep p)\<lparr>ep_sink := snk\<rparr>\<rparr>) \<and> buffer_sink snk \<and>
     bb_pending (snk_driver snk) = bb_pending (snk_driver (ep_sink (rp_ep p))) @
       frame_octets (ep_type (rp_ep p)) (take (2 * k) hdr @ payload_of pl ps)"
    by (rule send_memory_ok) (use snk k h(2) pl' sz le_trans [OF lens room] in \<open>simp_all add: SSIZE_MAX_def\<close>)
  then show ?thesis
    using h k unfolding k_def [symmetric] by (intro exI [of _ k] exI [of _ hdr]) auto
qed

lemma encode_header_ignores_sequence:
  "encode_header e buf (p\<lparr>rp_sequence := s\<rparr>) msem t meta seqno address n plcrc = encode_header e buf p msem t meta seqno address n plcrc"
  by (simp add: encode_header_def populate_header_def make_motv_def memory16_def)

lemma send_request_ok:
  assumes snk: "buffer_sink (ep_sink (rp_ep p))" and t: "t = RP_FRAME_READ_REQUEST \<or> t = RP_FRAME_WRITE_REQUEST"
    and pl: "\<And>m. pl = Some m \<Longrightarrow> 0 < ps \<and> ps \<le> length m \<and> length m + 26 \<le> SSIZE_MAX"
    and room: "2 * (16 + length (payload_of pl ps)) + 10 \<le> byte_buffer_avail (snk_driver (ep_sink (rp_ep p)))"
  shows "\<exists>k hdr snk. encode_header e (local_words RP_HEADER_SIZE_16) p msem t 0 (rp_sequence p) address n plcrc = Some (k, hdr) \<and>
     12 \<le> 2 * k \<and> 2 * k \<le> 16 \<and> length hdr = 16 \<and>
     send_request e p msem t address n plcrc pl ps =
       Some (0, p\<lparr>rp_sequence := rp_sequence p + 1, rp_ep := (rp_ep p)\<lparr>ep_sink := snk\<rparr>\<rparr>) \<and> buffer_sink snk \<and>
     bb_pending (snk_driver snk) = bb_pending (snk_driver (ep_sink (rp_ep p))) @
       frame_octets (ep_type (rp_ep p)) (take (2 * k) hdr @ payload_of pl ps)"
proof -
  let ?p = "p\<lparr>rp_sequence := rp_sequence p + 1\<rparr>"
  have t16: "t < 16" "(0 :: u8) < 16"
    using t by (auto simp: rp_frame_types)
  have p': "buffer_sink (ep_sink (rp_ep ?p))" "2 * (16 + length (payload_of pl ps)) + 10 \<le> byte_buffer_avail (snk_driver (ep_sink (rp_ep ?p)))"
    using snk room by simp_all
  from regp_send_frame_ok [OF p'(1) t16 pl p'(2), where e = e and msem = msem and seqno = "rp_sequence p" and address = address and n = n and plcrc = plcrc]
  obtain k hdr snk where "encode_header e (local_words RP_HEADER_SIZE_16) p msem t 0 (rp_sequence p) address n plcrc = Some (k, hdr)"
     "12 \<le> 2 * k" "2 * k \<le> 16" "length hdr = 16" "send_memory e ?p hdr (2 * k) pl ps = Some (0, ?p\<lparr>rp_ep := (rp_ep ?p)\<lparr>ep_sink := snk\<rparr>\<rparr>)"
     "buffer_sink snk" "bb_pending (snk_driver snk) = bb_pending (snk_driver (ep_sink (rp_ep p))) @
       frame_octets (ep_type (rp_ep p)) (take (2 * k) hdr @ payload_of pl ps)"
    unfolding encode_header_ignores_sequence by auto
  then show ?thesis
    by (intro exI [of _ k] exI [of _ hdr] exI [of _ snk]) (simp add: send_request_def)
qed

end
