(* ===== verification/Register_Transactions.thy ===== *)
theory Register_Transactions
  imports Register_Transport
begin

text \<open>
  The register protocol as its users see it: requests that arrive, transactions that run to their answer, the
  answers to requests that fail, and the limits: frames that do not fit, blocks that are not there, reads that are
  served beyond the end of a block.
\<close>

section \<open>Words in memory\<close>

lemma length_atom_octets16: "length (atom_octets e (ws :: u16 list)) = 2 * length ws"
  by (simp add: atom_octets_def flip: u16_octets_obj) (induction ws; simp add: u16_octets_def host_octets_def split: endianness.split)

lemma sum_of_atoms: "n \<le> length ws \<Longrightarrow> ufw_buffer_crc16_arc_u16 e ws n = Some (crc16_sum 0 (atom_octets e (take n ws)))"
  by (simp add: ufw_buffer_crc16_arc_u16_def ufw_crc16_arc_u16_eq CRC16_ARC_INITIAL_def atom_octets_def u16_octets_obj)

lemma take_atom_octets16: "take (2 * n) (atom_octets e (ws :: u16 list)) = atom_octets e (take n ws)"
proof (induction ws arbitrary: n)
  case (Cons w ws)
  have two: "length (obj_octets e w) = 2"
    by (simp flip: u16_octets_obj add: u16_octets_def split: endianness.split)
  show ?case
    by (cases n) (use Cons two in \<open>simp_all add: atom_octets_def\<close>)
qed (simp add: atom_octets_def)

section \<open>Endpoints joined by a buffer\<close>

text \<open>An instance whose source reads what a sink has written into its buffer.\<close>

definition listening :: "('m, ByteBuffer, 't, 'd) RegP \<Rightarrow> ByteBuffer Source \<Rightarrow> ByteBuffer Sink \<Rightarrow> ('m, ByteBuffer, 't, 'd) RegP" where
  "listening q si snk = q\<lparr>rp_ep := (rp_ep q)\<lparr>ep_source := source_from_buffer si (snk_driver snk)\<rparr>\<rparr>"

lemma listening_source:
  assumes "buffer_sink snk"
  shows "buffer_source (ep_source (rp_ep (listening q si snk)))"
    "bb_pending (src_driver (ep_source (rp_ep (listening q si snk)))) = bb_pending (snk_driver snk)"
    "ep_type (rp_ep (listening q si snk)) = ep_type (rp_ep q)" "rp_alloc (listening q si snk) = rp_alloc q"
  using assms buffer_endpoints(2) by (simp_all add: listening_def buffer_sink_def source_from_buffer_def chunk_source_init_def)

section \<open>Serving a read request\<close>

lemma words_of_atoms:
  assumes "take (2 * n) m = atom_octets e ws" "length ws = n"
  shows "\<exists>vs. words_at e m 0 n = Some vs \<and> ufw_buffer_crc16_arc_u16 e vs n = Some (crc16_sum 0 (atom_octets e ws))"
proof -
  have "length (take (2 * n) m) = 2 * n"
    using assms by (simp add: length_atom_octets16)
  then have r: "0 + 2 * n \<le> length m"
    by simp
  obtain vs where "words_at e m 0 n = Some vs"
    by (rule words_at_ok [OF r, of e])
  with buffer_sum_of_words [OF r, of e] assms(1) show ?thesis
    by simp
qed

lemma process_read16_ok:
  assumes mf: "good_frame mf bs RP_FRAME_READ_REQUEST 0 seqno address n True []"
    and mem: "rp_memory q = RP_MEMTYPE_16 read write" "read address n (rp_world q) = Some (\<lparr>ba_status = RP_RESP_ACK, ba_address = a\<rparr>, ws, world')"
      "length ws = n"
    and n: "0 < n" "n < 2 ^ 32" "SIZEOF_RPFrame + RP_HEADER_SIZE + 2 * n \<le> bs" "bs + 26 \<le> SSIZE_MAX" "ba_blocksize (rp_alloc q) = bs"
    and snk: "buffer_sink (ep_sink (rp_ep q))" "2 * (16 + 2 * n) + 10 \<le> byte_buffer_avail (snk_driver (ep_sink (rp_ep q)))"
  shows "\<exists>k hdr snk mf'. encode_header e (local_words RP_HEADER_SIZE_16) q MSEM_AUTO RP_FRAME_READ_RESPONSE 0 seqno address n
         (crc16_sum 0 (atom_octets e ws)) = Some (k, hdr) \<and> 12 \<le> 2 * k \<and> 2 * k \<le> 16 \<and> length hdr = 16 \<and>
     regp_process e q mf = Some (0, mf', q\<lparr>rp_world := world', rp_ep := (rp_ep q)\<lparr>ep_sink := snk\<rparr>\<rparr>) \<and> buffer_sink snk \<and>
     bb_pending (snk_driver snk) = bb_pending (snk_driver (ep_sink (rp_ep q))) @
       frame_octets (ep_type (rp_ep q)) (take (2 * k) hdr @ atom_octets e ws)"
proof -
  obtain block f where f: "mf_error mf = 0" "mf_frame mf = Some block" "rb_frame block = Some f" "rh_type (fr_header f) = RP_FRAME_READ_REQUEST"
    "rh_sequence (fr_header f) = seqno" "rh_address (fr_header f) = address" "unat (rh_blocksize (fr_header f)) = n" "regp_is_16bitsem f"
    "length (rb_octets block) = bs" "fr_payload_data f \<le> SIZEOF_RPFrame + RP_HEADER_SIZE"
    using mf by (auto simp: good_frame_def)
  let ?at = "fr_payload_data f" and ?oct = "atom_octets e ws"
  define m where "m = overwrite (rb_octets block) ?at ?oct"
  have fits: "?at + length ?oct \<le> length (rb_octets block)"
    using f(9,10) n(3) mem(3) by (simp add: length_atom_octets16)
  have pl: "take (2 * n) (drop ?at m) = ?oct" "length m = bs"
    using fits f(9) mem(3) by (simp_all add: m_def overwrite_def length_atom_octets16)
  let ?q = "q\<lparr>rp_world := world'\<rparr>"
  have room: "\<not> (bs - SIZEOF_RPFrame) div 2 < n" "SIZEOF_RPFrame \<le> bs"
    using n(3) by (simp_all add: rp_sizes SIZEOF_RPFrame_def)
  have serve: "serve_read e q f (rb_octets block) = Some (\<lparr>ba_status = RP_RESP_ACK, ba_address = a\<rparr>, m, ?q)"
    using mem f(6,7) n(5) room mem_write_overwrite [OF fits] by (simp add: serve_read_def m_def)
  have m16: "memory16 ?q" "memory16 q"
    using mem(1) by (simp_all add: memory16_def)
  obtain vs where vs: "words_at e (drop ?at m) 0 n = Some vs" "ufw_buffer_crc16_arc_u16 e vs n = Some (crc16_sum 0 ?oct)"
    using words_of_atoms [OF pl(1) mem(3)] by blast
  have plm: "0 < 2 * n \<and> 2 * n \<le> length mm \<and> length mm + 26 \<le> SSIZE_MAX" if "Some (drop ?at m) = Some mm" for mm
    using that pl(2) n f(9,10) by auto
  have payload: "payload_of (Some (drop ?at m)) (2 * n) = ?oct" "length ?oct = 2 * n"
    using pl(1) mem(3) by (simp_all add: payload_of_def length_atom_octets16)
  have small: "RP_FRAME_READ_RESPONSE < 16" "(0 :: u8) < 16"
    by (simp_all add: rp_frame_types)
  have s: "buffer_sink (ep_sink (rp_ep ?q))"
    "2 * (16 + length (payload_of (Some (drop ?at m)) (2 * n))) + 10 \<le> byte_buffer_avail (snk_driver (ep_sink (rp_ep ?q)))"
    using snk payload by simp_all
  have enc: "encode_header e buf ?q msem t meta seqno address n plcrc = encode_header e buf q msem t meta seqno address n plcrc"
    for buf msem t meta seqno address n plcrc
    by (simp add: encode_header_def populate_header_def make_motv_def memory16_def)
  obtain k hdr snk where r: "encode_header e (local_words RP_HEADER_SIZE_16) q MSEM_AUTO RP_FRAME_READ_RESPONSE 0 seqno address n
         (crc16_sum 0 ?oct) = Some (k, hdr)" "12 \<le> 2 * k" "2 * k \<le> 16" "length hdr = 16"
     "send_memory e ?q hdr (2 * k) (Some (drop ?at m)) (2 * n) = Some (0, ?q\<lparr>rp_ep := (rp_ep ?q)\<lparr>ep_sink := snk\<rparr>\<rparr>)" "buffer_sink snk"
     "bb_pending (snk_driver snk) = bb_pending (snk_driver (ep_sink (rp_ep q))) @ frame_octets (ep_type (rp_ep q)) (take (2 * k) hdr @ ?oct)"
    using regp_send_frame_ok [OF s(1) small plm s(2), where e = e and msem = MSEM_AUTO and seqno = seqno and address = address and n = n
        and plcrc = "crc16_sum 0 ?oct"] unfolding payload(1) enc by auto
  have "(n * 2) mod 2 ^ 64 = 2 * n"
    using n(2) by simp
  then have resp: "respond e ?q (fr_header f) \<lparr>ba_status = RP_RESP_ACK, ba_address = a\<rparr> (Some (drop ?at m)) =
      Some (0, ?q\<lparr>rp_ep := (rp_ep ?q)\<lparr>ep_sink := snk\<rparr>\<rparr>)"
    using f(4-7) vs r(1,5) m16 by (simp add: respond_def regp_resp_ack_def enc req2resp_def rp_frame_types)
  have valid: "memtype_valid q (fr_header f)"
    using m16 f(8) by (simp add: memtype_valid_def regp_is_16bitsem_def)
  have "regp_process e q mf = Some (0, mf\<lparr>mf_frame := Some (block\<lparr>rb_octets := m\<rparr>)\<rparr>, ?q\<lparr>rp_ep := (rp_ep ?q)\<lparr>ep_sink := snk\<rparr>\<rparr>)"
    using f(1-4) serve resp valid
    by (simp add: regp_process_def regp_is_request_def regp_is_read_request_def errno_defs)
  with r show ?thesis
    by (intro exI [of _ k] exI [of _ hdr] exI [of _ snk] exI) auto
qed

lemma read_request_received:
  assumes "buffer_sink (ep_sink (rp_ep p))" and "bb_pending (snk_driver (ep_sink (rp_ep p))) = []"
    and "42 \<le> byte_buffer_avail (snk_driver (ep_sink (rp_ep p)))"
    and "ep_type (rp_ep q) = ep_type (rp_ep p)" and "n < 2 ^ 32"
    and "gives_block (rp_alloc q) m ba" and "SIZEOF_RPFrame + 16 \<le> length m"
  shows "\<exists>snk mf src. regp_req_read16 e p address n =
         Some (0, p\<lparr>rp_sequence := rp_sequence p + 1, rp_ep := (rp_ep p)\<lparr>ep_sink := snk\<rparr>\<rparr>) \<and> buffer_sink snk \<and>
     regp_recv e' (listening q si snk) = Some (0, mf, (listening q si snk)\<lparr>rp_ep := (rp_ep q)\<lparr>ep_source := src\<rparr>, rp_alloc := ba\<rparr>) \<and>
     good_frame mf (length m) RP_FRAME_READ_REQUEST 0 (rp_sequence p) address n True []"
proof -
  let ?t = RP_FRAME_READ_REQUEST
  have plaus: "meta_plausible ?t (ucast (0 :: u8))"
    by (simp add: meta_plausible_def rp_frame_types)
  have none: "0 < (0 :: nat) \<and> 0 \<le> length mm \<and> length mm + 26 \<le> SSIZE_MAX" if "None = Some mm" for mm :: "u8 list"
    using that by simp
  have room: "2 * (16 + length (payload_of None 0)) + 10 \<le> byte_buffer_avail (snk_driver (ep_sink (rp_ep p)))"
    using assms(3) by (simp add: payload_of_def)
  obtain k hdr snk where s: "encode_header e (local_words RP_HEADER_SIZE_16) p MSEM_16BIT ?t 0 (rp_sequence p) address n 0 = Some (k, hdr)"
    "12 \<le> 2 * k" "2 * k \<le> 16" "length hdr = 16"
    "send_request e p MSEM_16BIT ?t address n 0 None 0 = Some (0, p\<lparr>rp_sequence := rp_sequence p + 1, rp_ep := (rp_ep p)\<lparr>ep_sink := snk\<rparr>\<rparr>)"
    "buffer_sink snk" "bb_pending (snk_driver snk) = frame_octets (ep_type (rp_ep p)) (take (2 * k) hdr @ [])"
    using send_request_ok [OF assms(1) _ none room, of ?t e MSEM_16BIT address n 0] assms(2) by (auto simp: payload_of_def)
  define q0 where "q0 = listening q si snk"
  note l = listening_source [OF s(6), of q si, folded q0_def]
  have str: "bb_pending (src_driver (ep_source (rp_ep q0))) = frame_octets (ep_type (rp_ep q0)) (take (2 * k) hdr @ []) @ []"
    using l s(7) assms(4) by simp
  have c: "length [] = (if ?t = RP_FRAME_READ_RESPONSE \<or> ?t = RP_FRAME_WRITE_REQUEST
        then (if MSEM_16BIT = MSEM_AUTO \<and> memory16 p \<or> MSEM_16BIT = MSEM_16BIT then 2 else 1) * n else 0)" "0 = crc16_sum 0 []"
      "gives_block (rp_alloc q0) m ba" "SIZEOF_RPFrame + 16 + length [] \<le> length m"
    using l(4) assms(6,7) by (simp_all add: rp_frame_types crc16.sum_Nil)
  obtain mf src where "regp_recv e' q0 = Some (0, mf, q0\<lparr>rp_ep := (rp_ep q0)\<lparr>ep_source := src\<rparr>, rp_alloc := ba\<rparr>)"
    "good_frame mf (length m) ?t 0 (rp_sequence p) address n True []"
    using frame_delivered [OF s(1) plaus assms(5) c(1,2) l(1) s(2,3,4) str c(3,4), of e'] by (auto simp: MSEM_16BIT_def)
  then show ?thesis
    using s(5,6) unfolding q0_def regp_req_read16_def
    by (intro exI [of _ snk] exI [of _ mf] exI [of _ src]) (simp add: listening_def)
qed

section \<open>Sending a write request\<close>

lemma write_request_sent:
  assumes "buffer_sink (ep_sink (rp_ep p))" and "bb_pending (snk_driver (ep_sink (rp_ep p))) = []"
    and "2 * (16 + 2 * n) + 10 \<le> byte_buffer_avail (snk_driver (ep_sink (rp_ep p)))"
    and "0 < n" and "n \<le> length buf" and "n < 2 ^ 32" and "2 * length buf + 26 \<le> SSIZE_MAX"
  shows "\<exists>k hdr snk. encode_header e (local_words RP_HEADER_SIZE_16) p MSEM_16BIT RP_FRAME_WRITE_REQUEST 0 (rp_sequence p) address n
         (crc16_sum 0 (atom_octets e (take n buf))) = Some (k, hdr) \<and> 12 \<le> 2 * k \<and> 2 * k \<le> 16 \<and> length hdr = 16 \<and>
     regp_req_write16 e p address n buf = Some (0, p\<lparr>rp_sequence := rp_sequence p + 1, rp_ep := (rp_ep p)\<lparr>ep_sink := snk\<rparr>\<rparr>) \<and>
     buffer_sink snk \<and> bb_pending (snk_driver snk) =
       frame_octets (ep_type (rp_ep p)) (take (2 * k) hdr @ atom_octets e (take n buf))"
proof -
  let ?pl = "atom_octets e buf" and ?sum = "crc16_sum 0 (atom_octets e (take n buf))"
  have sum: "ufw_buffer_crc16_arc_u16 e buf n = Some ?sum"
    by (rule sum_of_atoms [OF assms(5)])
  have size': "(n * 2) mod 2 ^ 64 = 2 * n"
    using assms(6) by simp
  have pl: "0 < 2 * n \<and> 2 * n \<le> length mm \<and> length mm + 26 \<le> SSIZE_MAX" if "Some ?pl = Some mm" for mm
    using that assms(4,5,7) by (auto simp: length_atom_octets16)
  have payload: "payload_of (Some ?pl) (2 * n) = atom_octets e (take n buf)" "length (atom_octets e (take n buf)) = 2 * n"
    using assms(5) by (simp_all add: payload_of_def take_atom_octets16 length_atom_octets16)
  have room: "2 * (16 + length (payload_of (Some ?pl) (2 * n))) + 10 \<le> byte_buffer_avail (snk_driver (ep_sink (rp_ep p)))"
    using assms(3) payload by simp
  from send_request_ok [OF assms(1) _ pl room, of RP_FRAME_WRITE_REQUEST e MSEM_16BIT address n ?sum] payload assms(2)
  show ?thesis
    unfolding regp_req_write16_def sum size' by auto
qed

section \<open>Properties\<close>

text \<open>C15. A request to write reaches the peer as it was meant. Whatever the channel is, serial with its escapes and
  checksums or TCP with its length prefix, and also between machines of different octet orders, the call returns 0
  and counts the sequence number up, and the peer's receive call on what was sent returns a write request with this
  sequence number, address and size in 16-bit semantics, whose payload is the words in the order of the sender's
  memory; nothing is left of the frame on the channel.\<close>

theorem regp_write_delivered:
  assumes "bb_ready bt" and "bb_pending bt = []" and "0 < n" and "n \<le> length buf" and "n < 2 ^ 32"
    and "2 * length buf + 26 \<le> SSIZE_MAX" and "2 * (16 + 2 * n) + 10 \<le> byte_buffer_avail bt"
    and "ep_sink (rp_ep p) = sink_to_buffer ti bt" and "ep_type (rp_ep q) = ep_type (rp_ep p)"
    and "gives_block (rp_alloc q) m ba'" and "SIZEOF_RPFrame + 16 + 2 * n \<le> length m"
  shows "\<exists>p' mf q'. regp_req_write16 e p address n buf = Some (0, p') \<and> rp_sequence p' = rp_sequence p + 1 \<and>
     regp_recv e' (listening q si (ep_sink (rp_ep p'))) = Some (0, mf, q') \<and>
     good_frame mf (length m) RP_FRAME_WRITE_REQUEST 0 (rp_sequence p) address n True (atom_octets e (take n buf)) \<and>
     bb_pending (src_driver (ep_source (rp_ep q'))) = []"
proof -
  have p: "buffer_sink (ep_sink (rp_ep p))" "bb_pending (snk_driver (ep_sink (rp_ep p))) = []"
    "2 * (16 + 2 * n) + 10 \<le> byte_buffer_avail (snk_driver (ep_sink (rp_ep p)))"
    using assms(1,2,7,8) buffer_endpoints(1) by (simp_all add: sink_to_buffer_def chunk_sink_init_def)
  obtain k hdr snk where s: "encode_header e (local_words RP_HEADER_SIZE_16) p MSEM_16BIT RP_FRAME_WRITE_REQUEST 0 (rp_sequence p) address n
         (crc16_sum 0 (atom_octets e (take n buf))) = Some (k, hdr)" "12 \<le> 2 * k" "2 * k \<le> 16" "length hdr = 16"
    "regp_req_write16 e p address n buf = Some (0, p\<lparr>rp_sequence := rp_sequence p + 1, rp_ep := (rp_ep p)\<lparr>ep_sink := snk\<rparr>\<rparr>)"
    "buffer_sink snk" "bb_pending (snk_driver snk) = frame_octets (ep_type (rp_ep p)) (take (2 * k) hdr @ atom_octets e (take n buf))"
    using write_request_sent [OF p assms(3-6), of e address] by blast
  define q0 where "q0 = listening q si snk"
  note l = listening_source [OF s(6), of q si, folded q0_def]
  have str: "bb_pending (src_driver (ep_source (rp_ep q0))) =
      frame_octets (ep_type (rp_ep q0)) (take (2 * k) hdr @ atom_octets e (take n buf)) @ []"
    using l s(7) assms(9) by simp
  have plaus: "meta_plausible RP_FRAME_WRITE_REQUEST (ucast (0 :: u8))"
    by (simp add: meta_plausible_def rp_frame_types)
  have len: "length (atom_octets e (take n buf)) = (if RP_FRAME_WRITE_REQUEST = RP_FRAME_READ_RESPONSE \<or> RP_FRAME_WRITE_REQUEST = RP_FRAME_WRITE_REQUEST
        then (if MSEM_16BIT = MSEM_AUTO \<and> memory16 p \<or> MSEM_16BIT = MSEM_16BIT then 2 else 1) * n else 0)"
    using assms(4) by (simp add: length_atom_octets16)
  have block: "gives_block (rp_alloc q0) m ba'" "SIZEOF_RPFrame + 16 + length (atom_octets e (take n buf)) \<le> length m"
    using assms(4,10,11) l(4) by (simp_all add: length_atom_octets16)
  from frame_delivered [OF s(1) plaus assms(5) len refl l(1) s(2,3,4) str block, of e'] obtain mf src' where
    "regp_recv e' q0 = Some (0, mf, q0\<lparr>rp_ep := (rp_ep q0)\<lparr>ep_source := src'\<rparr>, rp_alloc := ba'\<rparr>)"
    "good_frame mf (length m) RP_FRAME_WRITE_REQUEST 0 (rp_sequence p) address n True (atom_octets e (take n buf))" "bb_pending (src_driver src') = []"
    by (auto simp: MSEM_16BIT_def)
  with s(5) show ?thesis
    unfolding q0_def by simp
qed

text \<open>What a machine reads as words of the payload that another one sent: the same words on machines of the same octet
  order, and otherwise words with swapped octets.\<close>

definition words_between :: "endianness \<Rightarrow> endianness \<Rightarrow> u16 list \<Rightarrow> u16 list" where
  "words_between e e' ws = (if e = e' then ws else map bf_swap16 ws)"

lemma words_between: "octets_atoms e (atom_octets e' ws) = words_between e e' ws"
proof (induction ws)
  case Nil
  then show ?case
    by (simp add: words_between_def atom_octets_def)
next
  case (Cons w ws)
  obtain a b where o: "obj_octets e' w = [a, b]"
    using two_octets [of "obj_octets e' w"] by (auto simp: obj_octets_def)
  have "host_value e (obj_octets e' w) = (if e = e' then w else bf_swap16 w)"
    using swap16_reverses take_bit_length_eq [of w] by (cases e; cases e')
      (simp_all add: obj_octets_def host_octets_def host_value_def reverses_def be_octets_def be_value_def le_value_octets)
  with Cons o show ?case
    by (auto simp: words_between_def atom_octets_def)
qed

lemma good_frame_words:
  assumes "good_frame mf bs t meta seqno address n sem16 (atom_octets e' ws)" "length ws = n"
  shows "\<exists>block f. mf_frame mf = Some block \<and> rb_frame block = Some f \<and>
    words_at e (rb_octets block) (fr_payload_data f) n = Some (words_between e e' ws)"
proof -
  have "length (atom_octets e' ws) = 2 * n"
    using assms(2) by (simp add: length_atom_octets16)
  with assms(1) obtain block f where f: "mf_frame mf = Some block" "rb_frame block = Some f"
    "fr_payload_data f + 2 * n \<le> length (rb_octets block)" "take (2 * n) (drop (fr_payload_data f) (rb_octets block)) = atom_octets e' ws"
    by (auto simp: good_frame_def)
  then have "words_at e (rb_octets block) (fr_payload_data f) n = Some (words_between e e' ws)"
    by (simp add: words_at_def mem_read_def words_between)
  with f(1,2) show ?thesis
    by blast
qed

text \<open>C14. A transaction. One instance asks for \<open>n\<close> words, the other receives the request, reads its memory through its
  callback and answers, and the first one receives the answer: a read response with the sequence number and the
  address it had asked for, and with the octets of the words the callback delivered, in the order of the other machine's
  memory. As words the first machine reads what the callback delivered when both machines have the same octet order, and
  these words with swapped octets otherwise. Every call on the way returns 0. It holds on serial and TCP channels.\<close>

theorem regp_read_transaction:
  assumes "bb_ready bt" and "bb_pending bt = []" and "ep_sink (rp_ep p) = sink_to_buffer ti bt" and "42 \<le> byte_buffer_avail bt"
    and "bb_ready bu" and "bb_pending bu = []" and "ep_sink (rp_ep q) = sink_to_buffer tj bu" and "2 * (16 + 2 * n) + 10 \<le> byte_buffer_avail bu"
    and "ep_type (rp_ep q) = ep_type (rp_ep p)" and "0 < n" and "n < 2 ^ 32"
    and "gives_block (rp_alloc q) m ba" and "SIZEOF_RPFrame + 16 + 2 * n \<le> length m" and "length m + 26 \<le> SSIZE_MAX"
    and "gives_block (rp_alloc p) m' ba'" and "SIZEOF_RPFrame + 16 + 2 * n \<le> length m'"
    and "rp_memory q = RP_MEMTYPE_16 read write"
    and "read address n (rp_world q) = Some (\<lparr>ba_status = RP_RESP_ACK, ba_address = a\<rparr>, ws, world)" and "length ws = n"
  shows "\<exists>p1 mf1 q1 mf2 q2 mf3 p2. regp_req_read16 e p address n = Some (0, p1) \<and>
     regp_recv e' (listening q si (ep_sink (rp_ep p1))) = Some (0, mf1, q1) \<and>
     regp_process e' q1 mf1 = Some (0, mf2, q2) \<and> rp_world q2 = world \<and>
     regp_recv e (listening p1 sj (ep_sink (rp_ep q2))) = Some (0, mf3, p2) \<and>
     good_frame mf3 (length m') RP_FRAME_READ_RESPONSE 0 (rp_sequence p) address n True (atom_octets e' ws) \<and>
     (\<exists>block f. mf_frame mf3 = Some block \<and> rb_frame block = Some f \<and>
        words_at e (rb_octets block) (fr_payload_data f) n = Some (words_between e e' ws))"
proof -
  let ?r = RP_FRAME_READ_RESPONSE
  have plaus: "meta_plausible ?r (ucast (0 :: u8))"
    by (simp add: meta_plausible_def rp_frame_types)
  have p: "buffer_sink (ep_sink (rp_ep p))" "bb_pending (snk_driver (ep_sink (rp_ep p))) = []"
    "42 \<le> byte_buffer_avail (snk_driver (ep_sink (rp_ep p)))"
    using assms(1-4) buffer_endpoints(1) by (simp_all add: sink_to_buffer_def chunk_sink_init_def)
  have struct: "SIZEOF_RPFrame + 16 \<le> length m"
    using assms(13) by simp
  obtain snk mf1 src1 where r1: "regp_req_read16 e p address n =
       Some (0, p\<lparr>rp_sequence := rp_sequence p + 1, rp_ep := (rp_ep p)\<lparr>ep_sink := snk\<rparr>\<rparr>)"
    "regp_recv e' (listening q si snk) = Some (0, mf1, (listening q si snk)\<lparr>rp_ep := (rp_ep q)\<lparr>ep_source := src1\<rparr>, rp_alloc := ba\<rparr>)"
    "good_frame mf1 (length m) RP_FRAME_READ_REQUEST 0 (rp_sequence p) address n True []"
    using read_request_received [OF p assms(9,11,12) struct, of e address e' si] by blast
  define p1 where "p1 = p\<lparr>rp_sequence := rp_sequence p + 1, rp_ep := (rp_ep p)\<lparr>ep_sink := snk\<rparr>\<rparr>"
  define q1 where "q1 = (listening q si snk)\<lparr>rp_ep := (rp_ep q)\<lparr>ep_source := src1\<rparr>, rp_alloc := ba\<rparr>"
  have bs: "ba_blocksize ba = length m"
    using assms(12) by (auto simp: gives_block_def block_alloc_def split: prod.splits)
  have q1: "rp_memory q1 = RP_MEMTYPE_16 read write" "rp_world q1 = rp_world q" "rp_alloc q1 = ba" "ep_sink (rp_ep q1) = sink_to_buffer tj bu"
    "ep_type (rp_ep q1) = ep_type (rp_ep p)" "memory16 q1"
    using assms(7,9,17) by (simp_all add: q1_def listening_def memory16_def)
  have s1: "buffer_sink (ep_sink (rp_ep q1))" "2 * (16 + 2 * n) + 10 \<le> byte_buffer_avail (snk_driver (ep_sink (rp_ep q1)))"
    "bb_pending (snk_driver (ep_sink (rp_ep q1))) = []"
    using q1(4) assms(5,6,8) buffer_endpoints(1) by (simp_all add: sink_to_buffer_def chunk_sink_init_def)
  have sz: "SIZEOF_RPFrame + RP_HEADER_SIZE + 2 * n \<le> length m"
    using assms(13) by (simp add: rp_sizes)
  obtain k2 hdr2 snk2 mf2 where s2: "encode_header e' (local_words RP_HEADER_SIZE_16) q1 MSEM_AUTO ?r 0 (rp_sequence p) address n
         (crc16_sum 0 (atom_octets e' ws)) = Some (k2, hdr2)" "12 \<le> 2 * k2" "2 * k2 \<le> 16" "length hdr2 = 16"
     "regp_process e' q1 mf1 = Some (0, mf2, q1\<lparr>rp_world := world, rp_ep := (rp_ep q1)\<lparr>ep_sink := snk2\<rparr>\<rparr>)" "buffer_sink snk2"
     "bb_pending (snk_driver snk2) = frame_octets (ep_type (rp_ep p)) (take (2 * k2) hdr2 @ atom_octets e' ws)"
    using process_read16_ok [OF r1(3) q1(1) _ assms(19) assms(10,11) sz assms(14) _ s1(1,2), of a world e'] assms(18) q1(2,3,5) bs s1(3)
    by auto
  define p0 where "p0 = listening p1 sj snk2"
  note l2 = listening_source [OF s2(6), of p1 sj, folded p0_def]
  have str2: "bb_pending (src_driver (ep_source (rp_ep p0))) =
      frame_octets (ep_type (rp_ep p0)) (take (2 * k2) hdr2 @ atom_octets e' ws) @ []"
    using l2 s2(7) by (simp add: p1_def)
  have c2: "length (atom_octets e' ws) = (if ?r = RP_FRAME_READ_RESPONSE \<or> ?r = RP_FRAME_WRITE_REQUEST
        then (if MSEM_AUTO = MSEM_AUTO \<and> memory16 q1 \<or> MSEM_AUTO = MSEM_16BIT then 2 else 1) * n else 0)"
      "gives_block (rp_alloc p0) m' ba'" "SIZEOF_RPFrame + 16 + length (atom_octets e' ws) \<le> length m'"
    using l2(4) assms(15,16,19) q1(6) by (simp_all add: length_atom_octets16 p1_def)
  obtain mf3 p2 where "regp_recv e p0 = Some (0, mf3, p2)" "good_frame mf3 (length m') ?r 0 (rp_sequence p) address n True (atom_octets e' ws)"
    using frame_delivered [OF s2(1) plaus assms(11) c2(1) refl l2(1) s2(2,3,4) str2 c2(2,3), of e] q1(6) by auto
  define q2 where "q2 = q1\<lparr>rp_world := world, rp_ep := (rp_ep q1)\<lparr>ep_sink := snk2\<rparr>\<rparr>"
  note answer = \<open>regp_recv e p0 = Some (0, mf3, p2)\<close> \<open>good_frame mf3 (length m') ?r 0 (rp_sequence p) address n True (atom_octets e' ws)\<close>
  have "regp_req_read16 e p address n = Some (0, p1)"
    using r1(1) by (simp add: p1_def)
  moreover have "regp_recv e' (listening q si (ep_sink (rp_ep p1))) = Some (0, mf1, q1)"
    using r1(2) by (simp add: p1_def q1_def)
  moreover have "regp_process e' q1 mf1 = Some (0, mf2, q2)" "rp_world q2 = world"
    using s2(5) by (simp_all add: q2_def)
  moreover have "regp_recv e (listening p1 sj (ep_sink (rp_ep q2))) = Some (0, mf3, p2)"
    using answer(1) by (simp add: p0_def q2_def)
  ultimately show ?thesis
    using answer(2) good_frame_words [OF answer(2) assms(19), of e] by blast
qed

text \<open>When the allocator has no block for a frame, the frame is still taken off the channel as a whole, on serial and
  TCP channels, so the octets after it are where the next call starts. The call reports EBUSY and the size of the
  frame to its caller. What it sends to the peer is a META frame that says the header was badly encoded, not the
  EBUSY response.\<close>

theorem regp_recv_without_block:
  assumes "buffer_source (ep_source (rp_ep q))" and "xs \<noteq> []" and "length xs \<le> SSIZE_MAX"
    and "bb_pending (src_driver (ep_source (rp_ep q))) = frame_octets (ep_type (rp_ep q)) xs @ rest"
    and "block_alloc (rp_alloc q) = (rc, b, ba')" and "rc < 0"
  shows "\<exists>src. bb_pending (src_driver src) = rest \<and> regp_recv e q = do {
       (rc, q') \<leftarrow> regp_resp_meta e (q\<lparr>rp_ep := (rp_ep q)\<lparr>ep_source := src\<rparr>, rp_alloc := ba'\<rparr>) RP_META_EHEADERENC;
       Some (rc, \<lparr>mf_error = EBUSY, mf_framesize = length xs, mf_frame = None\<rparr>, q')
     }"
proof -
  have S: "absorbs run_continuable_sink (refusing (rp_alloc q) ba' receiver_header)"
    by (rule absorbs_refusing [OF assms(5,6) receiver_header_empty])
  have "refusing (rp_alloc q) ba' receiver_header [] = waiting (rp_alloc q) receiver_header"
    by (simp add: refusing_def)
  from regp_recv_collects [OF assms(1,4,3) S this] obtain rc src recv where
    r: "receive_frame e (ep_type (rp_ep q)) (ep_source (rp_ep q))
       (continuable_sink_init (local_sink (waiting (rp_alloc q) receiver_header)) (waiting (rp_alloc q) receiver_header)) = Some (rc, src, recv)"
      "0 \<le> rc" "snk_driver recv = refusing (rp_alloc q) ba' receiver_header xs" "bb_pending (src_driver src) = rest"
    by blast
  have n: "length xs mod 2 ^ 64 = length xs"
    using assms(3) by (simp add: SSIZE_MAX_def)
  have d: "cs_alloc (snk_driver recv) = Some ba'" "cs_fallback (snk_driver recv) = Some receiver_header"
    "cs_error_id (snk_driver recv) = EBUSY" "cs_error_datacount (snk_driver recv) = length xs" "bb_data (cs_buffer (snk_driver recv)) = None"
    using r(3) assms(2) n by (simp_all add: refusing_def waiting_def)
  have early: "early_ebusy e q' receiver_header = regp_resp_meta e q' RP_META_EHEADERENC" for q'
    by (simp add: early_ebusy_def send_early_response_def receiver_header_empty parse_header_def rp_sizes errno_defs)
  from regp_recv_state(2) [OF r(1,2) d(1-3)] r(4) show ?thesis
    by (intro exI [of _ src]) (simp add: d(4,5) early)
qed

text \<open>A frame without octets crashes the receiver: on a serial channel a lone delimiter, on a TCP channel a zero. The
  allocator is asked for a block when the first octet of a frame is stored, so after an empty frame there is none,
  and the call goes on to parse the block it does not have.\<close>

theorem regp_recv_empty_frame:
  assumes "buffer_source (ep_source (rp_ep q))"
    and "bb_pending (src_driver (ep_source (rp_ep q))) = frame_octets (ep_type (rp_ep q)) [] @ rest"
    and "gives_block (rp_alloc q) m ba'" and "SIZEOF_RPFrame \<le> length m"
  shows "regp_recv e q = None"
proof -
  have S: "absorbs run_continuable_sink (filling (rp_alloc q) ba' m receiver_header)"
    using assms(3,4) by (intro absorbs_filling [where rc = 0]) (simp_all add: gives_block_def)
  have w: "filling (rp_alloc q) ba' m receiver_header [] = waiting (rp_alloc q) receiver_header"
    by (simp add: filling_def)
  have z: "length ([] :: u8 list) \<le> SSIZE_MAX"
    by simp
  from regp_recv_collects [OF assms(1,2) z S w] obtain rc src recv where
    r: "receive_frame e (ep_type (rp_ep q)) (ep_source (rp_ep q))
       (continuable_sink_init (local_sink (waiting (rp_alloc q) receiver_header)) (waiting (rp_alloc q) receiver_header)) = Some (rc, src, recv)"
      "0 \<le> rc" "snk_driver recv = waiting (rp_alloc q) receiver_header"
    unfolding w by blast
  have d: "cs_alloc (snk_driver recv) = Some (rp_alloc q)" "cs_fallback (snk_driver recv) = Some receiver_header"
    "cs_error_id (snk_driver recv) = 0" "bb_data (cs_buffer (snk_driver recv)) = None"
    using r(3) by (simp_all add: waiting_def)
  from regp_recv_state(1) [OF r(1,2) d(1-3)] show ?thesis
    by (simp add: parse_frame_def d(4))
qed

text \<open>Processing a received frame does nothing, sends nothing and returns 0, unless the frame is a read request or a
  write request that arrived whole or with a bad payload: responses and META messages are never answered.\<close>

theorem regp_process_answers_requests_only:
  assumes "regp_process e q mf = Some (rc, mf', q')" and "q' \<noteq> q \<or> rc \<noteq> 0 \<or> mf' \<noteq> mf"
  shows "\<exists>block f. mf_frame mf = Some block \<and> rb_frame block = Some f \<and>
     (rh_type (fr_header f) = RP_FRAME_READ_REQUEST \<or> rh_type (fr_header f) = RP_FRAME_WRITE_REQUEST) \<and>
     mf_error mf \<in> {0, EPROTO, EFAULT}"
  using assms
  by (auto simp: regp_process_def regp_is_request_def Let_def split: option.splits if_splits bind_splits)

text \<open>A write request whose frame does not fit into the receiver's block is cut, not refused as too large. The octets
  that do not fit are dropped without an error, the frame is parsed from what is left, its payload has the wrong
  size, and the request is answered with EPAYLOADSIZE; the ERXOVERFLOW response is never sent.\<close>

theorem regp_write_too_large:
  assumes "bb_ready bt" and "bb_pending bt = []" and "0 < n" and "n \<le> length buf" and "n < 2 ^ 32"
    and "2 * length buf + 26 \<le> SSIZE_MAX" and "2 * (16 + 2 * n) + 10 \<le> byte_buffer_avail bt"
    and "ep_sink (rp_ep p) = sink_to_buffer ti bt" and "ep_type (rp_ep q) = ep_type (rp_ep p)"
    and "gives_block (rp_alloc q) m ba'" and "SIZEOF_RPFrame + 16 \<le> length m" and "length m < SIZEOF_RPFrame + 12 + 2 * n"
  shows "\<exists>p' mf q' block f. regp_req_write16 e p address n buf = Some (0, p') \<and>
     regp_recv e' (listening q si (ep_sink (rp_ep p'))) = Some (0, mf, q') \<and> mf_error mf = EFAULT \<and>
     mf_frame mf = Some block \<and> rb_frame block = Some f \<and>
     regp_process e' q' mf = do { (rc, q'') \<leftarrow> regp_resp_epayloadsize e' q' (fr_header f); Some (rc, mf, q'') }"
proof -
  have p: "buffer_sink (ep_sink (rp_ep p))" "bb_pending (snk_driver (ep_sink (rp_ep p))) = []"
    "2 * (16 + 2 * n) + 10 \<le> byte_buffer_avail (snk_driver (ep_sink (rp_ep p)))"
    using assms(1,2,7,8) buffer_endpoints(1) by (simp_all add: sink_to_buffer_def chunk_sink_init_def)
  obtain k hdr snk where s: "encode_header e (local_words RP_HEADER_SIZE_16) p MSEM_16BIT RP_FRAME_WRITE_REQUEST 0 (rp_sequence p) address n
         (crc16_sum 0 (atom_octets e (take n buf))) = Some (k, hdr)" "12 \<le> 2 * k" "2 * k \<le> 16" "length hdr = 16"
    "regp_req_write16 e p address n buf = Some (0, p\<lparr>rp_sequence := rp_sequence p + 1, rp_ep := (rp_ep p)\<lparr>ep_sink := snk\<rparr>\<rparr>)"
    "buffer_sink snk" "bb_pending (snk_driver snk) = frame_octets (ep_type (rp_ep p)) (take (2 * k) hdr @ atom_octets e (take n buf))"
    using write_request_sent [OF p assms(3-6), of e address] by blast
  let ?xs = "take (2 * k) hdr @ atom_octets e (take n buf)"
  define q0 where "q0 = listening q si snk"
  note l = listening_source [OF s(6), of q si, folded q0_def]
  have plaus: "meta_plausible RP_FRAME_WRITE_REQUEST (ucast (0 :: u8))"
    by (simp add: meta_plausible_def rp_frame_types)
  have xs: "length ?xs = 2 * k + 2 * n" "length m - 64 < length ?xs" "?xs \<noteq> []" "length ?xs \<le> SSIZE_MAX"
    using assms s(2-4) by (auto simp: length_atom_octets16 SIZEOF_RPFrame_def)
  define cut where "cut = take (length m - 64 - 2 * k) (atom_octets e (take n buf))"
  have "min (length m - 64) (length ?xs) = length m - 64"
    using xs(2) by simp
  moreover have "take (length m - 64) ?xs = take (2 * k) hdr @ cut"
    using assms(11) s(3,4) by (simp add: cut_def SIZEOF_RPFrame_def)
  moreover have cut: "length cut = length m - 64 - 2 * k"
    using xs by (simp add: cut_def length_atom_octets16 assms(4))
  ultimately have b: "bb_data (block_with m ?xs) = Some (take 64 m @ take (2 * k) hdr @ cut @ [])"
    "bb_used (block_with m ?xs) = 64 + 2 * k + length cut"
    using assms(11) s(3,4) by (simp_all add: block_with_def SIZEOF_RPFrame_def overwrite_def)
  have small: "length (take 64 m) = SIZEOF_RPFrame" "64 + 2 * k + length cut < 2 ^ 64"
    using assms(10,11) s(3) cut by (simp_all add: SIZEOF_RPFrame_def gives_block_def SSIZE_MAX_def)
  obtain f where f: "frame_for p MSEM_16BIT RP_FRAME_WRITE_REQUEST (ucast (0 :: u8)) (rp_sequence p) address n
       (crc16_sum 0 (atom_octets e (take n buf))) k (length cut) f" "12 \<le> 2 * k"
     "parse_frame e' (block_with m ?xs) = (if payload_plausible f < 0 then Some (payload_plausible f, f)
       else do { rc \<leftarrow> check_payload e' f (take 64 m @ take (2 * k) hdr @ cut @ []); Some (if rc < 0 then rc else 0, f) })"
    using frame_head [OF s(1) plaus assms(5) small b, of e'] by blast
  have "length cut < n * 2"
    using cut f(2) assms(3,12) by (simp add: SIZEOF_RPFrame_def)
  then have "length cut div 2 < n"
    by (rule less_mult_imp_div_less)
  then have "payload_plausible f = - EFAULT"
    using frame_plausible [OF f(1) plaus] f(1) by (simp add: frame_for_def rp_frame_types)
  then have parsed: "parse_frame e' (block_with m ?xs) = Some (- EFAULT, f)"
    using f(3) by (simp add: errno_defs)
  have str: "bb_pending (src_driver (ep_source (rp_ep q0))) = frame_octets (ep_type (rp_ep q0)) ?xs @ []"
    using l s(7) assms(9) by simp
  have alloc: "gives_block (rp_alloc q0) m ba'" "SIZEOF_RPFrame \<le> length m"
    using assms(10,11) l(4) by simp_all
  let ?mf = "\<lparr>mf_error = EFAULT, mf_framesize = 0, mf_frame = map_option (\<lambda>m. \<lparr>rb_frame = Some f, rb_octets = m\<rparr>) (bb_data (block_with m ?xs))\<rparr>"
  obtain q' where recv: "regp_recv e' q0 = Some (0, ?mf, q')"
    using regp_recv_block [OF l(1) str xs(4,3) alloc, of e'] by (auto simp: Let_def parsed errno_defs)
  have "regp_process e' q' ?mf = do { (rc, q'') \<leftarrow> regp_resp_epayloadsize e' q' (fr_header f); Some (rc, ?mf, q'') }"
    using f(1) b by (simp add: regp_process_def regp_is_request_def frame_for_def regp_resp_epayloadsize_def errno_defs)
  then show ?thesis
    using s(5) recv b(1) unfolding q0_def
    by (intro exI [of _ "p\<lparr>rp_sequence := rp_sequence p + 1, rp_ep := (rp_ep p)\<lparr>ep_sink := snk\<rparr>\<rparr>"] exI [of _ ?mf] exI [of _ q']) simp
qed

text \<open>A read request for a number of words that just fits into the room after the frame structure, but not into the
  room after structure and header, makes the server write beyond the end of the block: the limit is computed without
  the header, while the words are put behind it.\<close>

theorem regp_read_overruns_block:
  assumes "good_frame mf bs RP_FRAME_READ_REQUEST 0 seqno address n True []"
    and "rp_memory q = RP_MEMTYPE_16 read write" and "read address n (rp_world q) = Some (v, ws, world)" and "length ws = n"
    and "ba_blocksize (rp_alloc q) = bs" and "SIZEOF_RPFrame + 2 * n \<le> bs" and "bs < SIZEOF_RPFrame + RP_HEADER_MIN_SIZE + 2 * n"
  shows "regp_process e q mf = None"
proof -
  obtain block f where f: "mf_error mf = 0" "mf_frame mf = Some block" "rb_frame block = Some f" "rh_type (fr_header f) = RP_FRAME_READ_REQUEST"
    "rh_address (fr_header f) = address" "unat (rh_blocksize (fr_header f)) = n" "regp_is_16bitsem f"
    "length (rb_octets block) = bs" "SIZEOF_RPFrame + RP_HEADER_MIN_SIZE \<le> fr_payload_data f"
    using assms(1) by (auto simp: good_frame_def)
  have room: "\<not> (bs - SIZEOF_RPFrame) div 2 < n" "SIZEOF_RPFrame \<le> bs"
    using assms(6) by simp_all
  have "mem_write (rb_octets block) (fr_payload_data f) (atom_octets e ws) = None"
    using f(8,9) assms(4,7) by (simp add: mem_write_def length_atom_octets16)
  then have "serve_read e q f (rb_octets block) = None"
    using assms(2-5) f(5,6) room by (simp add: serve_read_def)
  moreover have "memtype_valid q (fr_header f)"
    using assms(2) f(7) by (simp add: memtype_valid_def regp_is_16bitsem_def memory16_def)
  ultimately show ?thesis
    using f(1-4) by (simp add: regp_process_def regp_is_request_def regp_is_read_request_def errno_defs)
qed

text \<open>The addresses of a range.\<close>

definition addresses :: "RPRange \<Rightarrow> nat set" where
  "addresses r = {unat (rr_address r) ..< unat (rr_address r) + rr_size r}"

definition proper_range :: "RPRange \<Rightarrow> bool" where
  "proper_range r \<longleftrightarrow> 0 < rr_size r \<and> unat (rr_address r) + rr_size r \<le> 2 ^ 32"

lemma range_end_nat: "proper_range r \<Longrightarrow> unat (range_end r) = unat (rr_address r) + rr_size r - 1"
proof -
  assume r: "proper_range r"
  then have "sz_sub (sz_add (unat (rr_address r)) (rr_size r)) 1 = unat (rr_address r) + rr_size r - 1"
    by (simp add: proper_range_def sz_sub_def sz_add_def SIZE_MOD_def)
  moreover have "unat (rr_address r) + rr_size r - 1 < 2 ^ LENGTH(32)"
    using r by (simp add: proper_range_def) arith
  ultimately show ?thesis
    unfolding range_end_def by (metis narrow_unat)
qed

text \<open>For ranges that are not empty and end within the 32-bit address space, the intersection is the range of exactly
  the addresses both have, also when they have none; the exception are two ranges that are both the whole address
  space. The test whether an intersection is empty answers the opposite: it is true for those that are not empty.\<close>

theorem regp_range_intersection_exact:
  assumes "proper_range a" and "proper_range b" and "rr_size a \<noteq> 2 ^ 32 \<or> rr_size b \<noteq> 2 ^ 32"
  shows "addresses (regp_range_intersection a b) = addresses a \<inter> addresses b \<and>
     (regp_empty_intersection (regp_range_intersection a b) \<longleftrightarrow> addresses a \<inter> addresses b \<noteq> {})"
proof -
  let ?s = "address_max (range_start a) (range_start b)" and ?e = "address_min (range_end a) (range_end b)"
  have s: "unat ?s = max (unat (rr_address a)) (unat (rr_address b))"
    by (auto simp: address_max_def range_start_def word_less_nat_alt)
  have e: "unat ?e = min (unat (rr_address a) + rr_size a - 1) (unat (rr_address b) + rr_size b - 1)"
    using range_end_nat assms by (auto simp: address_min_def word_less_nat_alt)
  have meet: "addresses a \<inter> addresses b = {unat ?s ..< unat ?e + 1}"
    using assms unfolding s e by (auto simp: addresses_def proper_range_def)
  show ?thesis
  proof (cases "?s \<le> ?e")
    case True
    have le: "unat ?s \<le> unat ?e" "unat ?e - unat ?s + 1 < 2 ^ 32"
      using True assms unfolding s e by (auto simp: word_le_nat_alt s e proper_range_def)
    have "unat (?e - ?s + 1) = unat ?e - unat ?s + 1"
      using True le by (simp add: unat_sub unat_word_ariths)
    then have "regp_range_intersection a b = \<lparr>rr_address = ?s, rr_size = unat ?e - unat ?s + 1\<rparr>"
      using True by (simp add: regp_range_intersection_def Let_def)
    then show ?thesis
      using le unfolding meet by (auto simp: addresses_def regp_empty_intersection_def)
  next
    case False
    then have "addresses a \<inter> addresses b = {}"
      unfolding meet by (simp add: word_le_nat_alt)
    with False show ?thesis
      by (simp add: regp_range_intersection_def addresses_def regp_empty_intersection_def Let_def)
  qed
qed

section \<open>The answers to requests that fail\<close>

lemma parse_header_implausible:
  assumes hdr: "take (length (header_octets motv seqno address n plcrc)) (drop off m) = header_octets motv seqno address n plcrc"
    and len: "length (header_octets motv seqno address n plcrc) \<le> k"
    and motv: "BIT_GET (ucast motv) 4 0 = 0" "\<not> bit motv 11" "\<not> meta_plausible (BIT_GET (ucast motv) 4 4) (BIT_GET (ucast motv) 4 12)"
  shows "\<exists>h'. parse_header e h m off k = Some (- EBADMSG, h')"
proof -
  have "\<not> k < 12"
    using len by (simp add: length_header_octets split: if_splits)
  with header_fields(1) [OF hdr, of e] motv show ?thesis
    by (cases h) (simp add: parse_header_def rp_sizes options_high_bit)
qed

lemma block_with_fits:
  assumes "SIZEOF_RPFrame + length xs \<le> length m"
  shows "bb_data (block_with m xs) = Some (take 64 m @ xs @ drop (64 + length xs) m)" "bb_used (block_with m xs) = 64 + length xs"
proof -
  have whole: "take (length m - SIZEOF_RPFrame) xs = xs" "min (length m - SIZEOF_RPFrame) (length xs) = length xs"
    using assms by simp_all
  show "bb_data (block_with m xs) = Some (take 64 m @ xs @ drop (64 + length xs) m)" "bb_used (block_with m xs) = 64 + length xs"
    unfolding block_with_def whole by (simp_all add: overwrite_def SIZEOF_RPFrame_def)
qed

lemma memory_8bit: "MSEM_8BIT = MSEM_AUTO \<and> A \<or> MSEM_8BIT = MSEM_16BIT \<longleftrightarrow> False"
  by (simp add: rp_sizes)

lemma encode_header_octets:
  assumes "16 \<le> length buf" "t < 16" "meta < 16"
  shows "\<exists>buf'. encode_header e buf p msem t meta seqno address n plcrc =
       Some (length (header_octets (make_motv p msem meta t n) seqno address (of_nat n) plcrc) div 2, buf') \<and>
     take (length (header_octets (make_motv p msem meta t n) seqno address (of_nat n) plcrc)) buf' =
       header_octets (make_motv p msem meta t n) seqno address (of_nat n) plcrc \<and> length buf' = length buf"
  using encode_header_ok [OF assms(1) refl] make_motv_fields(5,6) [OF assms(2,3) refl, of p msem n] by blast

text \<open>Both kinds of error response leave as one frame, the second one with four octets of payload.\<close>

lemma send_resp_32_ok:
  assumes snk: "buffer_sink (ep_sink (rp_ep p))" and small: "req2resp (rh_type h) < 16" "ucast code < (16 :: u8)"
    and room: "50 \<le> byte_buffer_avail (snk_driver (ep_sink (rp_ep p)))"
  shows "\<exists>k hdr snk. encode_header e (local_words RP_HEADER_SIZE_16) p MSEM_8BIT (req2resp (rh_type h)) (ucast code)
         (rh_sequence h) (rh_address h) 4 (crc16_sum 0 (be_octets 4 pl)) = Some (k, hdr) \<and> 12 \<le> 2 * k \<and> 2 * k \<le> 16 \<and> length hdr = 16 \<and>
     send_resp_32 e p h code pl MSEM_8BIT = Some (0, p\<lparr>rp_ep := (rp_ep p)\<lparr>ep_sink := snk\<rparr>\<rparr>) \<and> buffer_sink snk \<and>
     bb_pending (snk_driver snk) = bb_pending (snk_driver (ep_sink (rp_ep p))) @
       frame_octets (ep_type (rp_ep p)) (take (2 * k) hdr @ be_octets 4 pl)"
proof -
  let ?t = "req2resp (rh_type h)" and ?sum = "crc16_sum 0 (be_octets 4 pl)"
  let ?h = "header_octets (make_motv p MSEM_8BIT (ucast code) ?t 4) (rh_sequence h) (rh_address h) (of_nat 4) ?sum"
  define h1 where "h1 = overwrite (local_words 10) 16 (be_octets 4 pl)"
  have put: "bf_set_u32b e (local_words 10) 16 pl = Some (20, h1)" "bf_set_u32b e (local_words 2) 0 pl = Some (4, be_octets 4 pl)"
    by (simp_all add: header_puts local_words_def h1_def overwrite_def)
  have h1: "length h1 = 20" "take 4 (drop 16 h1) = be_octets 4 pl"
    by (simp_all add: h1_def local_words_def overwrite_def)
  have r: "16 + 2 * 2 \<le> length h1"
    by (simp add: h1)
  obtain ws where ws: "words_at e h1 16 2 = Some ws"
    by (rule words_at_ok [OF r, of e])
  then have sum: "ufw_buffer_crc16_arc_u16 e ws 2 = Some ?sum"
    using buffer_sum_of_words [OF r, of e] h1(2) by simp
  obtain hdr0 where e0: "encode_header e (local_words RP_HEADER_SIZE_16) p MSEM_8BIT ?t (ucast code) (rh_sequence h) (rh_address h) 4 ?sum =
      Some (length ?h div 2, hdr0)" "take (length ?h) hdr0 = ?h" "length hdr0 = 16"
    using encode_header_octets [OF _ small, of "local_words RP_HEADER_SIZE_16" e p MSEM_8BIT "rh_sequence h" "rh_address h" 4 ?sum]
    by (auto simp: local_words_def rp_sizes)
  obtain hdr1 where e1: "encode_header e h1 p MSEM_8BIT ?t (ucast code) (rh_sequence h) (rh_address h) 4 ?sum =
      Some (length ?h div 2, hdr1)" "take (length ?h) hdr1 = ?h" "length hdr1 = 20"
    using encode_header_octets [OF _ small, of h1 e p MSEM_8BIT "rh_sequence h" "rh_address h" 4 ?sum] h1(1) by auto
  define k where "k = length ?h div 2"
  have k: "12 \<le> 2 * k" "2 * k \<le> 16" "2 * k = length ?h"
    by (auto simp: k_def length_header_octets)
  have same: "take (2 * k) hdr1 = take (2 * k) hdr0"
    using e0(2) e1(2) k(3) by simp
  have payload: "payload_of (Some (be_octets 4 pl)) 4 = be_octets 4 pl"
    by (simp add: payload_of_def)
  have len: "length (frame_octets ft (take (2 * k) hdr1 @ be_octets 4 pl)) \<le> 50" for ft
    using length_slip_frame [of 0 "take (2 * k) hdr1 @ be_octets 4 pl"]
      length_prefix_octets_le [of LENP_VARIABLE "length (take (2 * k) hdr1 @ be_octets 4 pl)"] k(2) e1(3)
    by (cases ft) (auto simp: frame_octets_def lenp_frame_def RFC1055_WORST_CASE_def)
  have "\<exists>snk. send_memory e p hdr1 (2 * k) (Some (be_octets 4 pl)) 4 = Some (0, p\<lparr>rp_ep := (rp_ep p)\<lparr>ep_sink := snk\<rparr>\<rparr>) \<and> buffer_sink snk \<and>
     bb_pending (snk_driver snk) = bb_pending (snk_driver (ep_sink (rp_ep p))) @
       frame_octets (ep_type (rp_ep p)) (take (2 * k) hdr1 @ payload_of (Some (be_octets 4 pl)) 4)"
    by (rule send_memory_ok [OF snk]) (use k e1(3) le_trans [OF len room] payload in \<open>auto simp: SSIZE_MAX_def\<close>)
  then obtain snk where snk: "send_memory e p hdr1 (2 * k) (Some (be_octets 4 pl)) 4 = Some (0, p\<lparr>rp_ep := (rp_ep p)\<lparr>ep_sink := snk\<rparr>\<rparr>)"
     "buffer_sink snk" "bb_pending (snk_driver snk) = bb_pending (snk_driver (ep_sink (rp_ep p))) @
       frame_octets (ep_type (rp_ep p)) (take (2 * k) hdr0 @ be_octets 4 pl)"
    unfolding payload same by blast
  have n: "msem_size p MSEM_8BIT 2 = 4"
    by (simp add: msem_size_def rp_sizes)
  have "send_resp_32 e p h code pl MSEM_8BIT = Some (0, p\<lparr>rp_ep := (rp_ep p)\<lparr>ep_sink := snk\<rparr>\<rparr>)"
    using put ws sum e1(1) snk(1) unfolding send_resp_32_def Let_def k_def [symmetric] n
    by (simp add: rp_sizes)
  then show ?thesis
    using e0(1,3) k snk(2,3) unfolding k_def [symmetric] by blast
qed

definition error_responses :: "RPResponse set" where
  "error_responses = {RP_RESP_EWORDSIZE, RP_RESP_EPAYLOADCRC, RP_RESP_EPAYLOADSIZE, RP_RESP_ERXOVERFLOW, RP_RESP_ETXOVERFLOW,
     RP_RESP_EBUSY, RP_RESP_EUNMAPPED, RP_RESP_EACCESS, RP_RESP_ERANGE, RP_RESP_EINVALID, RP_RESP_EIO}"

definition answers_address :: "RPResponse \<Rightarrow> bool" where
  "answers_address s \<longleftrightarrow> s \<in> {RP_RESP_ERXOVERFLOW, RP_RESP_ETXOVERFLOW, RP_RESP_EUNMAPPED, RP_RESP_EACCESS, RP_RESP_ERANGE, RP_RESP_EINVALID}"

lemma respond_error:
  assumes "s \<in> error_responses"
  shows "\<exists>v. respond e p h \<lparr>ba_status = s, ba_address = a\<rparr> pl =
     (if answers_address s then send_resp_32 e p h s v MSEM_8BIT else send_resp_0 e p h s MSEM_8BIT)"
  using assms unfolding error_responses_def
  by (elim insertE emptyE)
    (simp_all add: respond_def answers_address_def rp_responses regp_resp_ewordsize_def regp_resp_epayloadcrc_def
      regp_resp_epayloadsize_def regp_resp_erxoverflow_def regp_resp_etxoverflow_def regp_resp_ebusy_def regp_resp_eunmapped_def
      regp_resp_eaccess_def regp_resp_erange_def regp_resp_einvalid_def regp_resp_eio_def Let_def, auto)

lemma respond_error_sent:
  assumes "s \<in> error_responses" and "rh_type h \<in> {RP_FRAME_READ_REQUEST, RP_FRAME_WRITE_REQUEST}"
    and snk: "buffer_sink (ep_sink (rp_ep q))" "50 \<le> byte_buffer_avail (snk_driver (ep_sink (rp_ep q)))"
  shows "\<exists>payload k hdr snk. length payload = (if answers_address s then 4 else 0) \<and>
     encode_header e (local_words RP_HEADER_SIZE_16) q MSEM_8BIT (req2resp (rh_type h)) (ucast s) (rh_sequence h) (rh_address h)
       (length payload) (crc16_sum 0 payload) = Some (k, hdr) \<and> 12 \<le> 2 * k \<and> 2 * k \<le> 16 \<and> length hdr = 16 \<and>
     respond e q h \<lparr>ba_status = s, ba_address = a\<rparr> pl = Some (0, q\<lparr>rp_ep := (rp_ep q)\<lparr>ep_sink := snk\<rparr>\<rparr>) \<and> buffer_sink snk \<and>
     bb_pending (snk_driver snk) = bb_pending (snk_driver (ep_sink (rp_ep q))) @
       frame_octets (ep_type (rp_ep q)) (take (2 * k) hdr @ payload)"
proof -
  obtain v where v: "respond e q h \<lparr>ba_status = s, ba_address = a\<rparr> pl =
     (if answers_address s then send_resp_32 e q h s v MSEM_8BIT else send_resp_0 e q h s MSEM_8BIT)"
    using respond_error [OF assms(1)] by blast
  have small: "req2resp (rh_type h) < 16" "ucast s < (16 :: u8)"
    using assms(1,2) by (auto simp: req2resp_def error_responses_def rp_frame_types rp_responses)
  show ?thesis
  proof (cases "answers_address s")
    case True
    obtain k hdr snk where "encode_header e (local_words RP_HEADER_SIZE_16) q MSEM_8BIT (req2resp (rh_type h)) (ucast s)
         (rh_sequence h) (rh_address h) 4 (crc16_sum 0 (be_octets 4 v)) = Some (k, hdr)" "12 \<le> 2 * k" "2 * k \<le> 16" "length hdr = 16"
      "send_resp_32 e q h s v MSEM_8BIT = Some (0, q\<lparr>rp_ep := (rp_ep q)\<lparr>ep_sink := snk\<rparr>\<rparr>)" "buffer_sink snk"
      "bb_pending (snk_driver snk) = bb_pending (snk_driver (ep_sink (rp_ep q))) @
       frame_octets (ep_type (rp_ep q)) (take (2 * k) hdr @ be_octets 4 v)"
      using send_resp_32_ok [OF snk(1) small snk(2), of e v] by blast
    with v True show ?thesis
      by (intro exI [of _ "be_octets 4 v"] exI [of _ k] exI [of _ hdr] exI [of _ snk]) simp
  next
    case False
    have none: "0 < (0 :: nat) \<and> 0 \<le> length mm \<and> length mm + 26 \<le> SSIZE_MAX" if "None = Some mm" for mm :: "u8 list"
      using that by simp
    have room: "2 * (16 + length (payload_of None 0)) + 10 \<le> byte_buffer_avail (snk_driver (ep_sink (rp_ep q)))"
      using snk(2) by (simp add: payload_of_def)
    obtain k hdr snk where "encode_header e (local_words RP_HEADER_SIZE_16) q MSEM_8BIT (req2resp (rh_type h)) (ucast s)
         (rh_sequence h) (rh_address h) 0 0 = Some (k, hdr)" "12 \<le> 2 * k" "2 * k \<le> 16" "length hdr = 16"
      "send_memory e q hdr (2 * k) None 0 = Some (0, q\<lparr>rp_ep := (rp_ep q)\<lparr>ep_sink := snk\<rparr>\<rparr>)" "buffer_sink snk"
      "bb_pending (snk_driver snk) = bb_pending (snk_driver (ep_sink (rp_ep q))) @ frame_octets (ep_type (rp_ep q)) (take (2 * k) hdr)"
      using regp_send_frame_ok [OF snk(1) small none room, of e MSEM_8BIT "rh_sequence h" "rh_address h" 0 0] by (auto simp: payload_of_def)
    with v False show ?thesis
      by (intro exI [of _ "[]"] exI [of _ k] exI [of _ hdr] exI [of _ snk]) (simp add: send_resp_0_def crc16.sum_Nil)
  qed
qed

lemma resp_meta_ok:
  assumes "buffer_sink (ep_sink (rp_ep p))" "42 \<le> byte_buffer_avail (snk_driver (ep_sink (rp_ep p)))" "c < 16"
  shows "\<exists>p'. regp_resp_meta e p c = Some (0, p')"
proof -
  have none: "0 < (0 :: nat) \<and> 0 \<le> length mm \<and> length mm + 26 \<le> SSIZE_MAX" if "None = Some mm" for mm :: "u8 list"
    using that by simp
  have room: "2 * (16 + length (payload_of None 0)) + 10 \<le> byte_buffer_avail (snk_driver (ep_sink (rp_ep p)))"
    using assms(2) by (simp add: payload_of_def)
  have "RP_FRAME_META < 16"
    by (simp add: rp_frame_types)
  from regp_send_frame_ok [OF assms(1) this assms(3) none room, of e MSEM_8BIT 0 0 0 0] show ?thesis
    by (auto simp: regp_resp_meta_def)
qed

text \<open>A response the receiver's header parser does not accept.\<close>

lemma implausible_frame:
  assumes hdr: "encode_header e (local_words RP_HEADER_SIZE_16) p msem t meta seqno address n plcrc = Some (k, hdr)"
    and small: "t < 16" "meta < 16" "\<not> meta_plausible t (ucast meta)"
    and fits: "SIZEOF_RPFrame + 16 + length payload \<le> length m" "length m \<le> SSIZE_MAX"
  shows "\<exists>f. parse_frame e' (block_with m (take (2 * k) hdr @ payload)) = Some (- EBADMSG, f)"
proof -
  let ?m = "make_motv p msem meta t n"
  let ?h = "header_octets ?m seqno address (of_nat n) plcrc"
  note fs = make_motv_fields [OF small(1,2) refl, of p msem n]
  have enc: "k = length ?h div 2" "take (length ?h) hdr = ?h" "length hdr = 16"
    using encode_header_octets [OF _ small(1,2), of "local_words RP_HEADER_SIZE_16" e p msem seqno address n plcrc] hdr
    by (auto simp: local_words_def rp_sizes)
  have k: "2 * k = length ?h" "2 * k \<le> 16"
    using enc(1) by (auto simp: length_header_octets)
  let ?xs = "take (2 * k) hdr @ payload" and ?mem = "take 64 m @ take (2 * k) hdr @ payload @ drop (64 + (2 * k + length payload)) m"
  have xs: "length ?xs = 2 * k + length payload" "SIZEOF_RPFrame + length ?xs \<le> length m"
    using k(2) enc(3) fits by simp_all
  have head: "take (length ?h) (drop 64 ?mem) = ?h" "length ?h \<le> 2 * k + length payload"
    using enc(2) fits k by (simp_all add: SIZEOF_RPFrame_def)
  have bad: "\<not> meta_plausible (BIT_GET (ucast ?m) 4 4) (BIT_GET (ucast ?m) 4 12)"
    using fs small(3) by simp
  obtain h' where "parse_header e' local_header ?mem 64 (2 * k + length payload) = Some (- EBADMSG, h')"
    using parse_header_implausible [OF head fs(1,4) bad, of e' local_header] by blast
  then show ?thesis
    using block_with_fits [OF xs(2)] xs fits
    by (simp add: parse_frame_def mem_simps SIZEOF_RPFrame_def sz_sub_def errno_defs Let_def)
qed

lemma parsed_answer:
  assumes hdr: "encode_header e (local_words RP_HEADER_SIZE_16) q MSEM_8BIT (req2resp rt) (ucast s) seqno address (length payload)
       (crc16_sum 0 payload) = Some (k, hdr)" "2 * k \<le> 16" "length hdr = 16"
    and rt: "rt \<in> {RP_FRAME_READ_REQUEST, RP_FRAME_WRITE_REQUEST}"
    and plaus: "meta_plausible (req2resp rt) (ucast (ucast s :: u8))" and payload: "length payload = (if answers_address s then 4 else 0)"
    and fits: "SIZEOF_RPFrame + 20 \<le> length m"
  shows "\<exists>f. parse_frame e' (block_with m (take (2 * k) hdr @ payload)) =
     Some (if rt = RP_FRAME_WRITE_REQUEST \<and> answers_address s then - EFAULT else 0, f)"
proof -
  let ?t = "req2resp rt" and ?xs = "take (2 * k) hdr @ payload"
  let ?mem = "take 64 m @ take (2 * k) hdr @ payload @ drop (64 + length ?xs) m"
  have n: "length payload < 2 ^ 32" "64 + 2 * k + length payload < 2 ^ 64"
    using payload hdr(2) by simp_all
  have xs: "SIZEOF_RPFrame + length ?xs \<le> length m"
    using fits payload hdr(2,3) by (simp split: if_splits)
  have mem: "length (take 64 m) = SIZEOF_RPFrame" "bb_data (block_with m ?xs) = Some ?mem"
    "bb_used (block_with m ?xs) = 64 + 2 * k + length payload"
    using block_with_fits [OF xs] fits hdr(2,3) by (simp_all add: SIZEOF_RPFrame_def)
  obtain f where f: "frame_for q MSEM_8BIT ?t (ucast (ucast s :: u8)) seqno address (length payload) (crc16_sum 0 payload) k (length payload) f"
     "parse_frame e' (block_with m ?xs) = (if payload_plausible f < 0 then Some (payload_plausible f, f)
       else do { rc \<leftarrow> check_payload e' f ?mem; Some (if rc < 0 then rc else 0, f) })"
    using frame_head [OF hdr(1) plaus n(1) mem(1) n(2) mem(2,3), of e'] by blast
  have sem: "\<not> regp_is_16bitsem f"
    using f(1) memory_8bit by (simp add: frame_for_def)
  have t: "?t = RP_FRAME_READ_RESPONSE \<or> ?t = RP_FRAME_WRITE_REQUEST \<longleftrightarrow> rt = RP_FRAME_READ_REQUEST"
    "rt = RP_FRAME_WRITE_REQUEST \<longleftrightarrow> rt \<noteq> RP_FRAME_READ_REQUEST" "?t \<noteq> RP_FRAME_READ_REQUEST"
    using rt by (auto simp: req2resp_def rp_frame_types)
  have plausible: "payload_plausible f = (if rt = RP_FRAME_WRITE_REQUEST \<and> answers_address s then - EFAULT else 0)"
    using frame_plausible [OF f(1) plaus] sem t payload by auto
  have check: "check_payload e' f ?mem = Some 0"
    by (rule frame_check [OF f(1)]) (use mem(1) sem t(3) hdr(2,3) in \<open>auto simp: SIZEOF_RPFrame_def\<close>)
  show ?thesis
    using f(2) unfolding plausible check by (auto simp: errno_defs)
qed

text \<open>C29. The answer to a request that fails is sent, and is a complete frame to its receiver, but not every answer is
  accepted there: one that says EIO is taken for a badly encoded header, and one that names an address in answer to a
  write request is taken for one with a payload of the wrong size. All the others arrive without an error.\<close>

theorem regp_error_replies:
  assumes "s \<in> error_responses" and "rh_type h \<in> {RP_FRAME_READ_REQUEST, RP_FRAME_WRITE_REQUEST}"
    and "bb_ready bu" and "bb_pending bu = []" and "50 \<le> byte_buffer_avail bu" and "ep_sink (rp_ep q) = sink_to_buffer tj bu"
    and "ep_type (rp_ep p) = ep_type (rp_ep q)" and "bb_ready bt" and "42 \<le> byte_buffer_avail bt" and "ep_sink (rp_ep p) = sink_to_buffer ti bt"
    and "gives_block (rp_alloc p) m ba" and "SIZEOF_RPFrame + 20 \<le> length m"
  shows "\<exists>q' mf p'. respond e q h \<lparr>ba_status = s, ba_address = a\<rparr> pl = Some (0, q') \<and>
     regp_recv e' (listening p si (ep_sink (rp_ep q'))) = Some (0, mf, p') \<and>
     mf_error mf = (if s = RP_RESP_EIO then EBADMSG
       else if rh_type h = RP_FRAME_WRITE_REQUEST \<and> answers_address s then EFAULT else 0)"
proof -
  let ?t = "req2resp (rh_type h)"
  have snk: "buffer_sink (ep_sink (rp_ep q))" "50 \<le> byte_buffer_avail (snk_driver (ep_sink (rp_ep q)))"
    using assms(3,5,6) buffer_endpoints(1) by (simp_all add: sink_to_buffer_def chunk_sink_init_def)
  obtain payload k hdr snk where r: "length payload = (if answers_address s then 4 else 0)"
    "encode_header e (local_words RP_HEADER_SIZE_16) q MSEM_8BIT ?t (ucast s) (rh_sequence h) (rh_address h)
       (length payload) (crc16_sum 0 payload) = Some (k, hdr)" "12 \<le> 2 * k" "2 * k \<le> 16" "length hdr = 16"
    "respond e q h \<lparr>ba_status = s, ba_address = a\<rparr> pl = Some (0, q\<lparr>rp_ep := (rp_ep q)\<lparr>ep_sink := snk\<rparr>\<rparr>)" "buffer_sink snk"
    "bb_pending (snk_driver snk) = frame_octets (ep_type (rp_ep q)) (take (2 * k) hdr @ payload)"
    using respond_error_sent [OF assms(1,2) snk, of e a pl] assms(4,6) by (auto simp: sink_to_buffer_def chunk_sink_init_def)
  define p0 where "p0 = listening p si snk"
  note l = listening_source [OF r(7), of p si, folded p0_def]
  let ?xs = "take (2 * k) hdr @ payload"
  have str: "bb_pending (src_driver (ep_source (rp_ep p0))) = frame_octets (ep_type (rp_ep p0)) ?xs @ []"
    using l r(8) assms(7) by simp
  have block: "gives_block (rp_alloc p0) m ba" "SIZEOF_RPFrame \<le> length m" "SIZEOF_RPFrame + 16 + length payload \<le> length m" "length m \<le> SSIZE_MAX"
    using l(4) assms(11,12) r(1) by (simp_all add: gives_block_def)
  have xs: "length ?xs \<le> SSIZE_MAX" "?xs \<noteq> []"
    using r(3-5) block by auto
  obtain src where recv: "regp_recv e' p0 = (
       let q' = p0\<lparr>rp_ep := (rp_ep p0)\<lparr>ep_source := src\<rparr>, rp_alloc := ba\<rparr> in do {
         (rc, f) \<leftarrow> parse_frame e' (block_with m ?xs);
         (rc', q'') \<leftarrow> (if rc = - EBADMSG then regp_resp_meta e' q' RP_META_EHEADERENC
                    else if rc = - EILSEQ then regp_resp_meta e' q' RP_META_EHEADERCRC
                    else Some (0, q'));
         Some (rc', \<lparr>mf_error = (if rc < 0 then - rc else 0), mf_framesize = 0,
           mf_frame = map_option (\<lambda>m. \<lparr>rb_frame = Some f, rb_octets = m\<rparr>) (bb_data (block_with m ?xs))\<rparr>, q'')
       })"
    using regp_recv_block [OF l(1) str xs block(1,2), of e'] by blast
  have small: "?t < 16" "ucast s < (16 :: u8)" "ucast (ucast s :: u8) = s" "meta_plausible ?t s \<longleftrightarrow> s \<noteq> RP_RESP_EIO"
    using assms(1,2) by (auto simp: req2resp_def error_responses_def rp_frame_types rp_responses meta_plausible_def)
  have "\<exists>mf p'. regp_recv e' p0 = Some (0, mf, p') \<and> mf_error mf = (if s = RP_RESP_EIO then EBADMSG
       else if rh_type h = RP_FRAME_WRITE_REQUEST \<and> answers_address s then EFAULT else 0)"
  proof (cases "s = RP_RESP_EIO")
    case True
    obtain f where f: "parse_frame e' (block_with m ?xs) = Some (- EBADMSG, f)"
      using implausible_frame [OF r(2) small(1,2) _ block(3,4), of e'] small(3,4) True by auto
    let ?q' = "p0\<lparr>rp_ep := (rp_ep p0)\<lparr>ep_source := src\<rparr>, rp_alloc := ba\<rparr>"
    have s': "buffer_sink (ep_sink (rp_ep ?q'))" "42 \<le> byte_buffer_avail (snk_driver (ep_sink (rp_ep ?q')))" "RP_META_EHEADERENC < 16"
      using assms(8-10) buffer_endpoints(1) by (simp_all add: p0_def listening_def sink_to_buffer_def chunk_sink_init_def rp_responses)
    obtain p' where "regp_resp_meta e' ?q' RP_META_EHEADERENC = Some (0, p')"
      using resp_meta_ok [OF s', of e'] by blast
    with recv f True show ?thesis
      by (simp add: errno_defs)
  next
    case False
    then have plaus: "meta_plausible ?t (ucast (ucast s :: u8))"
      using small by simp
    from parsed_answer [OF r(2,4,5) assms(2) plaus r(1) assms(12), of e'] recv False show ?thesis
      by (auto simp: errno_defs)
  qed
  with r(6) show ?thesis
    unfolding p0_def by fastforce
qed

section \<open>Concrete runs\<close>

text \<open>Instances for concrete runs: an empty buffer to send into, one block of memory, and a register table of words.\<close>

definition sample_port :: "nat \<Rightarrow> ByteBuffer" where
  "sample_port n = \<lparr>bb_data = Some (replicate n 0), bb_size = n, bb_used = 0, bb_offset = 0\<rparr>"

definition sample_read :: "u16 list RPBlockRead16" where
  "sample_read address n w = Some (\<lparr>ba_status = RP_RESP_ACK, ba_address = 0\<rparr>, take n (drop (unat address) w), w)"

definition sample_write :: "u16 list RPBlockWrite16" where
  "sample_write address n buf w =
     Some (\<lparr>ba_status = RP_RESP_ACK, ba_address = 0\<rparr>, take (unat address) w @ take n buf @ drop (unat address + n) w)"

definition sample_allocator :: "nat \<Rightarrow> unit BlockAllocator" where
  "sample_allocator n = \<lparr>ba_blocksize = n, ba_driver = (), ba_alloc = SlabAlloc (\<lambda>d. (0, Some (replicate n 0), d)), ba_free = \<lambda>d _. d\<rparr>"

definition sample_instance :: "RPEndpointType \<Rightarrow> nat \<Rightarrow> nat \<Rightarrow> (u16 list, ByteBuffer, ByteBuffer, unit) RegP" where
  "sample_instance t block port = regp_use_allocator
     (regp_use_channel
        (regp_use_memory16 (regp_init (\<lambda>d _. (None, d)) (\<lambda>d _. d) ()) sample_read sample_write [10, 11, 12, 13])
        t (source_from_buffer (idle_source (sample_port port)) (sample_port port))
        (sink_to_buffer (idle_sink (sample_port port)) (sample_port port)))
     (sample_allocator block)"

lemma sample_instance:
  "rp_memory (sample_instance t b n) = RP_MEMTYPE_16 sample_read sample_write" "rp_world (sample_instance t b n) = [10, 11, 12, 13]"
  "ep_type (rp_ep (sample_instance t b n)) = t" "rp_alloc (sample_instance t b n) = sample_allocator b" "rp_sequence (sample_instance t b n) = 0"
  "ep_sink (rp_ep (sample_instance t b n)) = sink_to_buffer (idle_sink (sample_port n)) (sample_port n)"
  by (simp_all add: sample_instance_def regp_use_allocator_def regp_use_channel_def regp_use_memory16_def regp_init_def)

lemma sample_port:
  "n \<le> SSIZE_MAX \<Longrightarrow> 0 < n \<Longrightarrow> bb_ready (sample_port n)" "bb_pending (sample_port n) = []" "n \<le> SSIZE_MAX \<Longrightarrow> byte_buffer_avail (sample_port n) = n"
  by (simp_all add: sample_port_def bb_ready_def bb_inv_def bb_pending_def byte_buffer_avail_def sz_sub_def SSIZE_MAX_def take_bit_nat_eq_self)

lemma sample_allocator: "b \<le> SSIZE_MAX \<Longrightarrow> gives_block (sample_allocator b) (replicate b 0) (sample_allocator b)"
  by (simp add: gives_block_def block_alloc_def sample_allocator_def)

lemma sample_bound: "n \<le> 2 ^ 20 \<Longrightarrow> n \<le> SSIZE_MAX" 
  by (simp add: SSIZE_MAX_def)

lemmas sample_facts = sample_port sample_instance sample_allocator

theorem regp_write_delivered_witness:
  "\<exists>p' mf q'. let p = sample_instance RP_EP_SERIAL 256 100; q = sample_instance RP_EP_SERIAL 256 100 in
     regp_req_write16 SYSTEM_ENDIANNESS_LITTLE p 5 2 [0x1234, 0xABC0] = Some (0, p') \<and> rp_sequence p' = 1 \<and>
     regp_recv SYSTEM_ENDIANNESS_BIG (listening q (idle_source (sample_port 100)) (ep_sink (rp_ep p'))) = Some (0, mf, q') \<and>
     good_frame mf 256 RP_FRAME_WRITE_REQUEST 0 0 5 2 True [0x34, 0x12, 0xC0, 0xAB] \<and>
     bb_pending (src_driver (ep_source (rp_ep q'))) = []"
proof -
  let ?p = "sample_instance RP_EP_SERIAL 256 100"
  have o: "atom_octets SYSTEM_ENDIANNESS_LITTLE (take 2 [0x1234, 0xABC0 :: u16]) = [0x34, 0x12, 0xC0, 0xAB]"
    by (simp add: atom_octets_def flip: u16_octets_obj) (simp add: u16_octets_def host_octets_def)
  show ?thesis
    using regp_write_delivered [of "sample_port 100" 2 "[0x1234, 0xABC0]" ?p "idle_sink (sample_port 100)" ?p "replicate 256 0" "sample_allocator 256"
      SYSTEM_ENDIANNESS_LITTLE 5 SYSTEM_ENDIANNESS_BIG "idle_source (sample_port 100)", unfolded o]
    by (simp add: sample_facts SSIZE_MAX_def SIZEOF_RPFrame_def Let_def)
qed

definition sample_empty_allocator :: "unit BlockAllocator" where
  "sample_empty_allocator = \<lparr>ba_blocksize = 80, ba_driver = (), ba_alloc = SlabAlloc (\<lambda>d. (- ENOMEM, None, d)), ba_free = \<lambda>d _. d\<rparr>"

definition sample_full_port :: "u8 list \<Rightarrow> ByteBuffer" where
  "sample_full_port xs = \<lparr>bb_data = Some xs, bb_size = length xs, bb_used = length xs, bb_offset = 0\<rparr>"

definition sample_receiver :: "RPEndpointType \<Rightarrow> u8 list \<Rightarrow> unit BlockAllocator \<Rightarrow> (u16 list, ByteBuffer, ByteBuffer, unit) RegP" where
  "sample_receiver t xs alloc = regp_use_allocator
     (regp_use_channel (sample_instance t 80 100) t (source_from_buffer (idle_source (sample_full_port xs)) (sample_full_port xs))
       (sink_to_buffer (idle_sink (sample_port 100)) (sample_port 100))) alloc"

lemma sample_receiver:
  assumes "xs \<noteq> []" "length xs \<le> SSIZE_MAX"
  shows "buffer_source (ep_source (rp_ep (sample_receiver t xs alloc)))" "bb_pending (src_driver (ep_source (rp_ep (sample_receiver t xs alloc)))) = xs"
    "ep_type (rp_ep (sample_receiver t xs alloc)) = t" "rp_alloc (sample_receiver t xs alloc) = alloc"
proof -
  have b: "bb_ready (sample_full_port xs)" "bb_pending (sample_full_port xs) = xs"
    using assms by (simp_all add: bb_ready_def bb_inv_def bb_pending_def sample_full_port_def)
  show "buffer_source (ep_source (rp_ep (sample_receiver t xs alloc)))"
    using buffer_endpoints(2) [OF b(1)] by (simp add: sample_receiver_def regp_use_allocator_def regp_use_channel_def)
qed (simp_all add: sample_receiver_def regp_use_allocator_def regp_use_channel_def bb_pending_def sample_full_port_def
      source_from_buffer_def chunk_source_init_def)

theorem regp_read_transaction_witness:
  "\<exists>p1 mf1 q1 mf2 q2 mf3 p2. let p = sample_instance RP_EP_TCP 256 100; q = sample_instance RP_EP_TCP 256 100 in
     regp_req_read16 SYSTEM_ENDIANNESS_LITTLE p 1 2 = Some (0, p1) \<and>
     regp_recv SYSTEM_ENDIANNESS_BIG (listening q (idle_source (sample_port 100)) (ep_sink (rp_ep p1))) = Some (0, mf1, q1) \<and>
     regp_process SYSTEM_ENDIANNESS_BIG q1 mf1 = Some (0, mf2, q2) \<and> rp_world q2 = [10, 11, 12, 13] \<and>
     regp_recv SYSTEM_ENDIANNESS_LITTLE (listening p1 (idle_source (sample_port 100)) (ep_sink (rp_ep q2))) = Some (0, mf3, p2) \<and>
     good_frame mf3 256 RP_FRAME_READ_RESPONSE 0 0 1 2 True [0, 11, 0, 12] \<and>
     (\<exists>block f. mf_frame mf3 = Some block \<and> rb_frame block = Some f \<and>
        words_at SYSTEM_ENDIANNESS_LITTLE (rb_octets block) (fr_payload_data f) 2 = Some (words_between SYSTEM_ENDIANNESS_LITTLE SYSTEM_ENDIANNESS_BIG [11, 12]))"
proof -
  let ?p = "sample_instance RP_EP_TCP 256 100"
  have o: "atom_octets SYSTEM_ENDIANNESS_BIG [11, 12 :: u16] = [0, 11, 0, 12]"
    by (simp add: atom_octets_def flip: u16_octets_obj) (simp add: u16_octets_def host_octets_def)
  have r: "sample_read 1 2 [10, 11, 12, 13] = Some (\<lparr>ba_status = RP_RESP_ACK, ba_address = 0\<rparr>, [11, 12], [10, 11, 12, 13])"
    by (simp add: sample_read_def sample_instance numeral_2_eq_2)
  show ?thesis
    using regp_read_transaction [of "sample_port 100" ?p "idle_sink (sample_port 100)" "sample_port 100" ?p "idle_sink (sample_port 100)" 2
      "replicate 256 0" "sample_allocator 256" "replicate 256 0" "sample_allocator 256" sample_read sample_write 1 0 "[11, 12]" "[10, 11, 12, 13]"
      SYSTEM_ENDIANNESS_LITTLE SYSTEM_ENDIANNESS_BIG "idle_source (sample_port 100)" "idle_source (sample_port 100)", unfolded o]
    by (simp add: sample_facts r SSIZE_MAX_def SIZEOF_RPFrame_def Let_def)
qed

theorem regp_recv_without_block_witness:
  "\<exists>src. bb_pending (src_driver src) = [7] \<and>
     regp_recv SYSTEM_ENDIANNESS_LITTLE (sample_receiver RP_EP_TCP [3, 1, 2, 3, 7] sample_empty_allocator) = do {
       (rc, q') \<leftarrow> regp_resp_meta SYSTEM_ENDIANNESS_LITTLE (sample_receiver RP_EP_TCP [3, 1, 2, 3, 7] sample_empty_allocator
         \<lparr>rp_ep := (rp_ep (sample_receiver RP_EP_TCP [3, 1, 2, 3, 7] sample_empty_allocator))\<lparr>ep_source := src\<rparr>, rp_alloc := sample_empty_allocator\<rparr>) RP_META_EHEADERENC;
       Some (rc, \<lparr>mf_error = EBUSY, mf_framesize = 3, mf_frame = None\<rparr>, q')
     }"
proof -
  let ?q = "sample_receiver RP_EP_TCP [3, 1, 2, 3, 7] sample_empty_allocator"
  have a: "block_alloc (rp_alloc ?q) = (- ENOMEM, None, sample_empty_allocator)" "- ENOMEM < 0"
    by (simp_all add: sample_receiver SSIZE_MAX_def block_alloc_def errno_defs sample_empty_allocator_def)
  have b: "bb_pending (src_driver (ep_source (rp_ep ?q))) = frame_octets (ep_type (rp_ep ?q)) [1, 2, 3] @ [7]"
    by (simp add: sample_receiver SSIZE_MAX_def frame_octets_def lenp_frame_def prefix_octets_def varint_octets.simps)
  have c: "buffer_source (ep_source (rp_ep ?q))" "[1, 2, 3 :: u8] \<noteq> []" "length [1, 2, 3 :: u8] \<le> SSIZE_MAX"
    by (simp_all add: sample_receiver SSIZE_MAX_def)
  have d: "length [1, 2, 3 :: u8] = 3"
    by simp
  show ?thesis
    using regp_recv_without_block [OF c b a, of SYSTEM_ENDIANNESS_LITTLE, unfolded d] .
qed

theorem regp_recv_empty_frame_witness:
  "regp_recv SYSTEM_ENDIANNESS_LITTLE (sample_receiver RP_EP_SERIAL [0xC0, 1, 2] (sample_allocator 256)) = None"
proof -
  let ?q = "sample_receiver RP_EP_SERIAL [0xC0, 1, 2] (sample_allocator 256)"
  have b: "bb_pending (src_driver (ep_source (rp_ep ?q))) = frame_octets (ep_type (rp_ep ?q)) [] @ [1, 2]"
    by (simp add: sample_receiver SSIZE_MAX_def frame_octets_def slip_frame_def RAW_EOF_def)
  show ?thesis
    by (rule regp_recv_empty_frame [OF _ b, of "replicate 256 0" "sample_allocator 256"])
      (simp_all add: sample_receiver sample_allocator SSIZE_MAX_def SIZEOF_RPFrame_def)
qed

theorem regp_write_too_large_witness:
  "\<exists>p' mf q' block f. let p = sample_instance RP_EP_SERIAL 80 100; q = sample_instance RP_EP_SERIAL 80 100 in
     regp_req_write16 SYSTEM_ENDIANNESS_LITTLE p 0 3 [1, 2, 3] = Some (0, p') \<and>
     regp_recv SYSTEM_ENDIANNESS_LITTLE (listening q (idle_source (sample_port 100)) (ep_sink (rp_ep p'))) = Some (0, mf, q') \<and>
     mf_error mf = EFAULT \<and> mf_frame mf = Some block \<and> rb_frame block = Some f \<and>
     regp_process SYSTEM_ENDIANNESS_LITTLE q' mf =
       do { (rc, q'') \<leftarrow> regp_resp_epayloadsize SYSTEM_ENDIANNESS_LITTLE q' (fr_header f); Some (rc, mf, q'') }"
proof -
  let ?p = "sample_instance RP_EP_SERIAL 80 100"
  show ?thesis
    using regp_write_too_large [of "sample_port 100" 3 "[1, 2, 3]" ?p "idle_sink (sample_port 100)" ?p "replicate 80 0" "sample_allocator 80"
      SYSTEM_ENDIANNESS_LITTLE 0 SYSTEM_ENDIANNESS_LITTLE "idle_source (sample_port 100)"]
    by (simp add: sample_facts SSIZE_MAX_def SIZEOF_RPFrame_def Let_def)
qed

theorem regp_read_overruns_block_witness:
  "let h = \<lparr>rh_version = 0, rh_type = RP_FRAME_READ_REQUEST, rh_options = 1, rh_meta = 0, rh_sequence = 0, rh_address = 0,
       rh_blocksize = 3, rh_hdcrc = 0, rh_plcrc = 0\<rparr>;
     f = \<lparr>fr_header = h, fr_payload_size = 0, fr_payload_data = 76, fr_raw_memory = 64, fr_raw_size = 12\<rparr>;
     mf = \<lparr>mf_error = 0, mf_framesize = 0, mf_frame = Some \<lparr>rb_frame = Some f, rb_octets = replicate 80 0\<rparr>\<rparr> in
   regp_process SYSTEM_ENDIANNESS_LITTLE (sample_instance RP_EP_TCP 80 100) mf = None"
proof -
  let ?h = "\<lparr>rh_version = 0, rh_type = RP_FRAME_READ_REQUEST, rh_options = 1, rh_meta = 0, rh_sequence = 0, rh_address = 0,
       rh_blocksize = 3, rh_hdcrc = 0, rh_plcrc = 0\<rparr>"
  let ?f = "\<lparr>fr_header = ?h, fr_payload_size = 0, fr_payload_data = 76, fr_raw_memory = 64, fr_raw_size = 12\<rparr>"
  let ?mf = "\<lparr>mf_error = 0, mf_framesize = 0, mf_frame = Some \<lparr>rb_frame = Some ?f, rb_octets = replicate 80 0\<rparr>\<rparr>"
  have g: "good_frame ?mf 80 RP_FRAME_READ_REQUEST 0 0 0 3 True []"
    by (simp add: good_frame_def SIZEOF_RPFrame_def rp_sizes regp_is_16bitsem_def RP_OPT_WORD_SIZE_16_def BIT_ISSET_BIT)
  have r: "sample_read 0 3 (rp_world (sample_instance RP_EP_TCP 80 100)) =
      Some (\<lparr>ba_status = RP_RESP_ACK, ba_address = 0\<rparr>, [10, 11, 12], [10, 11, 12, 13])"
    by (simp add: sample_read_def sample_instance numeral_3_eq_3)
  have "ba_blocksize (sample_allocator 80) = 80"
    by (simp add: sample_allocator_def)
  with regp_read_overruns_block [OF g sample_instance(1) r, of SYSTEM_ENDIANNESS_LITTLE] show ?thesis
    by (simp add: sample_instance SIZEOF_RPFrame_def rp_sizes Let_def)
qed

theorem regp_range_intersection_exact_witness:
  "addresses (regp_range_intersection \<lparr>rr_address = 2, rr_size = 5\<rparr> \<lparr>rr_address = 4, rr_size = 10\<rparr>) = {4 ..< 7}"
proof -
  have "addresses (regp_range_intersection \<lparr>rr_address = 2, rr_size = 5\<rparr> \<lparr>rr_address = 4, rr_size = 10\<rparr>) =
      addresses \<lparr>rr_address = 2, rr_size = 5\<rparr> \<inter> addresses \<lparr>rr_address = 4, rr_size = 10\<rparr>"
    using regp_range_intersection_exact [of "\<lparr>rr_address = 2, rr_size = 5\<rparr>" "\<lparr>rr_address = 4, rr_size = 10\<rparr>"]
    by (simp add: proper_range_def)
  then show ?thesis
    by (simp add: addresses_def)
qed

theorem regp_error_replies_witness:
  "\<exists>q' mf p'. let q = sample_instance RP_EP_SERIAL 256 100; h = local_header\<lparr>rh_type := RP_FRAME_WRITE_REQUEST, rh_sequence := 8, rh_address := 3\<rparr> in
     respond SYSTEM_ENDIANNESS_LITTLE q h \<lparr>ba_status = RP_RESP_EACCESS, ba_address = 5\<rparr> None = Some (0, q') \<and>
     regp_recv SYSTEM_ENDIANNESS_BIG (listening q (idle_source (sample_port 100)) (ep_sink (rp_ep q'))) = Some (0, mf, p') \<and>
     mf_error mf = EFAULT"
proof -
  let ?q = "sample_instance RP_EP_SERIAL 256 100" and ?h = "local_header\<lparr>rh_type := RP_FRAME_WRITE_REQUEST, rh_sequence := 8, rh_address := 3\<rparr>"
  have s: "RP_RESP_EACCESS \<in> error_responses" "answers_address RP_RESP_EACCESS" "RP_RESP_EACCESS \<noteq> RP_RESP_EIO"
    "rh_type ?h = RP_FRAME_WRITE_REQUEST"
    by (simp_all add: error_responses_def answers_address_def rp_responses)
  show ?thesis
    using regp_error_replies [OF s(1), of ?h "sample_port 100" ?q "idle_sink (sample_port 100)" ?q "sample_port 100" "idle_sink (sample_port 100)"
      "replicate 256 0" "sample_allocator 256" SYSTEM_ENDIANNESS_LITTLE 5 None SYSTEM_ENDIANNESS_BIG "idle_source (sample_port 100)"]
    by (simp add: sample_facts s SSIZE_MAX_def SIZEOF_RPFrame_def Let_def)
qed

end
