(* ===== verification/Register_Declare.thy ===== *)
theory Register_Declare
  imports Register_Init
begin

text \<open>
  Declaring register tables: the macros of \<^verbatim>\<open>include/ufw/register-table.h\<close> that initialise areas, entries and the
  end markers of both arrays, and what a table declared with them is good for. An initialiser of an array of entries
  has the index it designates, or none; entries that no initialiser names are all zero. The names of registers are
  null pointers, as they are without \<^verbatim>\<open>REGISTER_TABLE_WITH_NAMES\<close>. \<^verbatim>\<open>CUSTOM_AREA_WO\<close> is left out because it does
  not compile.
\<close>

section \<open>Entries\<close>

type_synonym initialiser = "nat option \<times> RegisterEntry"

definition REGISTER_ENTRY_END :: initialiser where
  "REGISTER_ENTRY_END = (None, \<lparr>re_type = REG_TYPE_INVALID, re_default = U16 0, re_address = 0, re_area = None, re_offset = 0,
     re_name = None, re_flags = 0, re_user = 0, re_check = REGV_TYPE_TRIVIAL\<rparr>)"

text \<open>\<open>MEMBER\<close> is the constructor of the member of the union; the fields that are not named are zero.\<close>

definition REGCOMMON :: "nat \<Rightarrow> RegisterType \<Rightarrow> ('v \<Rightarrow> RegisterValueU) \<Rightarrow> 'v \<Rightarrow> nat \<Rightarrow> RegisterValidator \<Rightarrow> RegisterEntry" where
  "REGCOMMON addr ty member dflt usr check =
     \<lparr>re_type = ty, re_default = member dflt, re_address = addr, re_area = None, re_offset = 0, re_name = None,
      re_flags = 0, re_user = usr, re_check = check\<rparr>"

definition MAKE_REGISTERx :: "nat \<Rightarrow> nat \<Rightarrow> RegisterType \<Rightarrow> ('v \<Rightarrow> RegisterValueU) \<Rightarrow> 'v \<Rightarrow> nat \<Rightarrow> initialiser" where
  "MAKE_REGISTERx i a ty member d usr = (Some i, REGCOMMON a ty member d usr REGV_TYPE_TRIVIAL)"
definition MAKE_FAIL_REGISTERx :: "nat \<Rightarrow> nat \<Rightarrow> RegisterType \<Rightarrow> ('v \<Rightarrow> RegisterValueU) \<Rightarrow> 'v \<Rightarrow> nat \<Rightarrow> initialiser" where
  "MAKE_FAIL_REGISTERx i a ty member d usr = (Some i, REGCOMMON a ty member d usr REGV_TYPE_FAIL)"
definition MAKE_MIN_REGISTERx :: "nat \<Rightarrow> nat \<Rightarrow> RegisterType \<Rightarrow> ('v \<Rightarrow> RegisterValueU) \<Rightarrow> 'v \<Rightarrow> 'v \<Rightarrow> nat \<Rightarrow> initialiser" where
  "MAKE_MIN_REGISTERx i a ty member d lo usr = (Some i, REGCOMMON a ty member d usr (REGV_TYPE_MIN (member lo)))"
definition MAKE_MAX_REGISTERx :: "nat \<Rightarrow> nat \<Rightarrow> RegisterType \<Rightarrow> ('v \<Rightarrow> RegisterValueU) \<Rightarrow> 'v \<Rightarrow> 'v \<Rightarrow> nat \<Rightarrow> initialiser" where
  "MAKE_MAX_REGISTERx i a ty member d hi usr = (Some i, REGCOMMON a ty member d usr (REGV_TYPE_MAX (member hi)))"
definition MAKE_RANGE_REGISTERx :: "nat \<Rightarrow> nat \<Rightarrow> RegisterType \<Rightarrow> ('v \<Rightarrow> RegisterValueU) \<Rightarrow> 'v \<Rightarrow> 'v \<Rightarrow> 'v \<Rightarrow> nat \<Rightarrow> initialiser" where
  "MAKE_RANGE_REGISTERx i a ty member d lo hi usr = (Some i, REGCOMMON a ty member d usr (REGV_TYPE_RANGE (member lo) (member hi)))"
definition MAKE_VALIDATOR_REGISTERx ::
    "nat \<Rightarrow> nat \<Rightarrow> RegisterType \<Rightarrow> ('v \<Rightarrow> RegisterValueU) \<Rightarrow> 'v \<Rightarrow> (RegisterEntryData \<Rightarrow> RegisterValue \<Rightarrow> bool) \<Rightarrow> nat \<Rightarrow> initialiser" where
  "MAKE_VALIDATOR_REGISTERx i a ty member d fnc usr = (Some i, REGCOMMON a ty member d usr (REGV_TYPE_CALLBACK fnc))"

definition MAKE_REGISTER :: "nat \<Rightarrow> nat \<Rightarrow> RegisterType \<Rightarrow> ('v \<Rightarrow> RegisterValueU) \<Rightarrow> 'v \<Rightarrow> initialiser" where
  "MAKE_REGISTER i a ty member d = MAKE_REGISTERx i a ty member d 0"
definition MAKE_FAIL_REGISTER :: "nat \<Rightarrow> nat \<Rightarrow> RegisterType \<Rightarrow> ('v \<Rightarrow> RegisterValueU) \<Rightarrow> 'v \<Rightarrow> initialiser" where
  "MAKE_FAIL_REGISTER i a ty member d = MAKE_FAIL_REGISTERx i a ty member d 0"
definition MAKE_MIN_REGISTER :: "nat \<Rightarrow> nat \<Rightarrow> RegisterType \<Rightarrow> ('v \<Rightarrow> RegisterValueU) \<Rightarrow> 'v \<Rightarrow> 'v \<Rightarrow> initialiser" where
  "MAKE_MIN_REGISTER i a ty member d lo = MAKE_MIN_REGISTERx i a ty member d lo 0"
definition MAKE_MAX_REGISTER :: "nat \<Rightarrow> nat \<Rightarrow> RegisterType \<Rightarrow> ('v \<Rightarrow> RegisterValueU) \<Rightarrow> 'v \<Rightarrow> 'v \<Rightarrow> initialiser" where
  "MAKE_MAX_REGISTER i a ty member d hi = MAKE_MAX_REGISTERx i a ty member d hi 0"
definition MAKE_RANGE_REGISTER :: "nat \<Rightarrow> nat \<Rightarrow> RegisterType \<Rightarrow> ('v \<Rightarrow> RegisterValueU) \<Rightarrow> 'v \<Rightarrow> 'v \<Rightarrow> 'v \<Rightarrow> initialiser" where
  "MAKE_RANGE_REGISTER i a ty member d lo hi = MAKE_RANGE_REGISTERx i a ty member d lo hi 0"
definition MAKE_VALIDATOR_REGISTER ::
    "nat \<Rightarrow> nat \<Rightarrow> RegisterType \<Rightarrow> ('v \<Rightarrow> RegisterValueU) \<Rightarrow> 'v \<Rightarrow> (RegisterEntryData \<Rightarrow> RegisterValue \<Rightarrow> bool) \<Rightarrow> initialiser" where
  "MAKE_VALIDATOR_REGISTER i a ty member d fnc = MAKE_VALIDATOR_REGISTERx i a ty member d fnc 0"

section \<open>The front ends\<close>

definition REG_U16 :: "nat \<Rightarrow> nat \<Rightarrow> u16 \<Rightarrow> initialiser" where "REG_U16 i a d = MAKE_REGISTER i a REG_TYPE_UINT16 U16 d"
definition REGx_U16 :: "nat \<Rightarrow> nat \<Rightarrow> u16 \<Rightarrow> nat \<Rightarrow> initialiser" where "REGx_U16 i a d usr = MAKE_REGISTERx i a REG_TYPE_UINT16 U16 d usr"
definition REG_U16FAIL :: "nat \<Rightarrow> nat \<Rightarrow> u16 \<Rightarrow> initialiser" where "REG_U16FAIL i a d = MAKE_FAIL_REGISTER i a REG_TYPE_UINT16 U16 d"
definition REGx_U16FAIL :: "nat \<Rightarrow> nat \<Rightarrow> u16 \<Rightarrow> nat \<Rightarrow> initialiser" where "REGx_U16FAIL i a d usr = MAKE_FAIL_REGISTERx i a REG_TYPE_UINT16 U16 d usr"
definition REG_U16MIN :: "nat \<Rightarrow> nat \<Rightarrow> u16 \<Rightarrow> u16 \<Rightarrow> initialiser" where "REG_U16MIN i a lo d = MAKE_MIN_REGISTER i a REG_TYPE_UINT16 U16 d lo"
definition REGx_U16MIN :: "nat \<Rightarrow> nat \<Rightarrow> u16 \<Rightarrow> u16 \<Rightarrow> nat \<Rightarrow> initialiser" where "REGx_U16MIN i a lo d usr = MAKE_MIN_REGISTERx i a REG_TYPE_UINT16 U16 d lo usr"
definition REG_U16MAX :: "nat \<Rightarrow> nat \<Rightarrow> u16 \<Rightarrow> u16 \<Rightarrow> initialiser" where "REG_U16MAX i a hi d = MAKE_MAX_REGISTER i a REG_TYPE_UINT16 U16 d hi"
definition REGx_U16MAX :: "nat \<Rightarrow> nat \<Rightarrow> u16 \<Rightarrow> u16 \<Rightarrow> nat \<Rightarrow> initialiser" where "REGx_U16MAX i a hi d usr = MAKE_MAX_REGISTERx i a REG_TYPE_UINT16 U16 d hi usr"
definition REG_U16RANGE :: "nat \<Rightarrow> nat \<Rightarrow> u16 \<Rightarrow> u16 \<Rightarrow> u16 \<Rightarrow> initialiser" where "REG_U16RANGE i a lo hi d = MAKE_RANGE_REGISTER i a REG_TYPE_UINT16 U16 d lo hi"
definition REGx_U16RANGE :: "nat \<Rightarrow> nat \<Rightarrow> u16 \<Rightarrow> u16 \<Rightarrow> u16 \<Rightarrow> nat \<Rightarrow> initialiser" where "REGx_U16RANGE i a lo hi d usr = MAKE_RANGE_REGISTERx i a REG_TYPE_UINT16 U16 d lo hi usr"
definition REG_U16FNC :: "nat \<Rightarrow> nat \<Rightarrow> (RegisterEntryData \<Rightarrow> RegisterValue \<Rightarrow> bool) \<Rightarrow> u16 \<Rightarrow> initialiser" where "REG_U16FNC i a fnc d = MAKE_VALIDATOR_REGISTER i a REG_TYPE_UINT16 U16 d fnc"
definition REGx_U16FNC :: "nat \<Rightarrow> nat \<Rightarrow> (RegisterEntryData \<Rightarrow> RegisterValue \<Rightarrow> bool) \<Rightarrow> u16 \<Rightarrow> nat \<Rightarrow> initialiser" where "REGx_U16FNC i a fnc d usr = MAKE_VALIDATOR_REGISTERx i a REG_TYPE_UINT16 U16 d fnc usr"
definition REG_U32 :: "nat \<Rightarrow> nat \<Rightarrow> u32 \<Rightarrow> initialiser" where "REG_U32 i a d = MAKE_REGISTER i a REG_TYPE_UINT32 U32 d"
definition REGx_U32 :: "nat \<Rightarrow> nat \<Rightarrow> u32 \<Rightarrow> nat \<Rightarrow> initialiser" where "REGx_U32 i a d usr = MAKE_REGISTERx i a REG_TYPE_UINT32 U32 d usr"
definition REG_U32FAIL :: "nat \<Rightarrow> nat \<Rightarrow> u32 \<Rightarrow> initialiser" where "REG_U32FAIL i a d = MAKE_FAIL_REGISTER i a REG_TYPE_UINT32 U32 d"
definition REGx_U32FAIL :: "nat \<Rightarrow> nat \<Rightarrow> u32 \<Rightarrow> nat \<Rightarrow> initialiser" where "REGx_U32FAIL i a d usr = MAKE_FAIL_REGISTERx i a REG_TYPE_UINT32 U32 d usr"
definition REG_U32MIN :: "nat \<Rightarrow> nat \<Rightarrow> u32 \<Rightarrow> u32 \<Rightarrow> initialiser" where "REG_U32MIN i a lo d = MAKE_MIN_REGISTER i a REG_TYPE_UINT32 U32 d lo"
definition REGx_U32MIN :: "nat \<Rightarrow> nat \<Rightarrow> u32 \<Rightarrow> u32 \<Rightarrow> nat \<Rightarrow> initialiser" where "REGx_U32MIN i a lo d usr = MAKE_MIN_REGISTERx i a REG_TYPE_UINT32 U32 d lo usr"
definition REG_U32MAX :: "nat \<Rightarrow> nat \<Rightarrow> u32 \<Rightarrow> u32 \<Rightarrow> initialiser" where "REG_U32MAX i a hi d = MAKE_MAX_REGISTER i a REG_TYPE_UINT32 U32 d hi"
definition REGx_U32MAX :: "nat \<Rightarrow> nat \<Rightarrow> u32 \<Rightarrow> u32 \<Rightarrow> nat \<Rightarrow> initialiser" where "REGx_U32MAX i a hi d usr = MAKE_MAX_REGISTERx i a REG_TYPE_UINT32 U32 d hi usr"
definition REG_U32RANGE :: "nat \<Rightarrow> nat \<Rightarrow> u32 \<Rightarrow> u32 \<Rightarrow> u32 \<Rightarrow> initialiser" where "REG_U32RANGE i a lo hi d = MAKE_RANGE_REGISTER i a REG_TYPE_UINT32 U32 d lo hi"
definition REGx_U32RANGE :: "nat \<Rightarrow> nat \<Rightarrow> u32 \<Rightarrow> u32 \<Rightarrow> u32 \<Rightarrow> nat \<Rightarrow> initialiser" where "REGx_U32RANGE i a lo hi d usr = MAKE_RANGE_REGISTERx i a REG_TYPE_UINT32 U32 d lo hi usr"
definition REG_U32FNC :: "nat \<Rightarrow> nat \<Rightarrow> (RegisterEntryData \<Rightarrow> RegisterValue \<Rightarrow> bool) \<Rightarrow> u32 \<Rightarrow> initialiser" where "REG_U32FNC i a fnc d = MAKE_VALIDATOR_REGISTER i a REG_TYPE_UINT32 U32 d fnc"
definition REGx_U32FNC :: "nat \<Rightarrow> nat \<Rightarrow> (RegisterEntryData \<Rightarrow> RegisterValue \<Rightarrow> bool) \<Rightarrow> u32 \<Rightarrow> nat \<Rightarrow> initialiser" where "REGx_U32FNC i a fnc d usr = MAKE_VALIDATOR_REGISTERx i a REG_TYPE_UINT32 U32 d fnc usr"
definition REG_U64 :: "nat \<Rightarrow> nat \<Rightarrow> u64 \<Rightarrow> initialiser" where "REG_U64 i a d = MAKE_REGISTER i a REG_TYPE_UINT64 U64 d"
definition REGx_U64 :: "nat \<Rightarrow> nat \<Rightarrow> u64 \<Rightarrow> nat \<Rightarrow> initialiser" where "REGx_U64 i a d usr = MAKE_REGISTERx i a REG_TYPE_UINT64 U64 d usr"
definition REG_U64FAIL :: "nat \<Rightarrow> nat \<Rightarrow> u64 \<Rightarrow> initialiser" where "REG_U64FAIL i a d = MAKE_FAIL_REGISTER i a REG_TYPE_UINT64 U64 d"
definition REGx_U64FAIL :: "nat \<Rightarrow> nat \<Rightarrow> u64 \<Rightarrow> nat \<Rightarrow> initialiser" where "REGx_U64FAIL i a d usr = MAKE_FAIL_REGISTERx i a REG_TYPE_UINT64 U64 d usr"
definition REG_U64MIN :: "nat \<Rightarrow> nat \<Rightarrow> u64 \<Rightarrow> u64 \<Rightarrow> initialiser" where "REG_U64MIN i a lo d = MAKE_MIN_REGISTER i a REG_TYPE_UINT64 U64 d lo"
definition REGx_U64MIN :: "nat \<Rightarrow> nat \<Rightarrow> u64 \<Rightarrow> u64 \<Rightarrow> nat \<Rightarrow> initialiser" where "REGx_U64MIN i a lo d usr = MAKE_MIN_REGISTERx i a REG_TYPE_UINT64 U64 d lo usr"
definition REG_U64MAX :: "nat \<Rightarrow> nat \<Rightarrow> u64 \<Rightarrow> u64 \<Rightarrow> initialiser" where "REG_U64MAX i a hi d = MAKE_MAX_REGISTER i a REG_TYPE_UINT64 U64 d hi"
definition REGx_U64MAX :: "nat \<Rightarrow> nat \<Rightarrow> u64 \<Rightarrow> u64 \<Rightarrow> nat \<Rightarrow> initialiser" where "REGx_U64MAX i a hi d usr = MAKE_MAX_REGISTERx i a REG_TYPE_UINT64 U64 d hi usr"
definition REG_U64RANGE :: "nat \<Rightarrow> nat \<Rightarrow> u64 \<Rightarrow> u64 \<Rightarrow> u64 \<Rightarrow> initialiser" where "REG_U64RANGE i a lo hi d = MAKE_RANGE_REGISTER i a REG_TYPE_UINT64 U64 d lo hi"
definition REGx_U64RANGE :: "nat \<Rightarrow> nat \<Rightarrow> u64 \<Rightarrow> u64 \<Rightarrow> u64 \<Rightarrow> nat \<Rightarrow> initialiser" where "REGx_U64RANGE i a lo hi d usr = MAKE_RANGE_REGISTERx i a REG_TYPE_UINT64 U64 d lo hi usr"
definition REG_U64FNC :: "nat \<Rightarrow> nat \<Rightarrow> (RegisterEntryData \<Rightarrow> RegisterValue \<Rightarrow> bool) \<Rightarrow> u64 \<Rightarrow> initialiser" where "REG_U64FNC i a fnc d = MAKE_VALIDATOR_REGISTER i a REG_TYPE_UINT64 U64 d fnc"
definition REGx_U64FNC :: "nat \<Rightarrow> nat \<Rightarrow> (RegisterEntryData \<Rightarrow> RegisterValue \<Rightarrow> bool) \<Rightarrow> u64 \<Rightarrow> nat \<Rightarrow> initialiser" where "REGx_U64FNC i a fnc d usr = MAKE_VALIDATOR_REGISTERx i a REG_TYPE_UINT64 U64 d fnc usr"
definition REG_S16 :: "nat \<Rightarrow> nat \<Rightarrow> u16 \<Rightarrow> initialiser" where "REG_S16 i a d = MAKE_REGISTER i a REG_TYPE_SINT16 S16 d"
definition REGx_S16 :: "nat \<Rightarrow> nat \<Rightarrow> u16 \<Rightarrow> nat \<Rightarrow> initialiser" where "REGx_S16 i a d usr = MAKE_REGISTERx i a REG_TYPE_SINT16 S16 d usr"
definition REG_S16FAIL :: "nat \<Rightarrow> nat \<Rightarrow> u16 \<Rightarrow> initialiser" where "REG_S16FAIL i a d = MAKE_FAIL_REGISTER i a REG_TYPE_SINT16 S16 d"
definition REGx_S16FAIL :: "nat \<Rightarrow> nat \<Rightarrow> u16 \<Rightarrow> nat \<Rightarrow> initialiser" where "REGx_S16FAIL i a d usr = MAKE_FAIL_REGISTERx i a REG_TYPE_SINT16 S16 d usr"
definition REG_S16MIN :: "nat \<Rightarrow> nat \<Rightarrow> u16 \<Rightarrow> u16 \<Rightarrow> initialiser" where "REG_S16MIN i a lo d = MAKE_MIN_REGISTER i a REG_TYPE_SINT16 S16 d lo"
definition REGx_S16MIN :: "nat \<Rightarrow> nat \<Rightarrow> u16 \<Rightarrow> u16 \<Rightarrow> nat \<Rightarrow> initialiser" where "REGx_S16MIN i a lo d usr = MAKE_MIN_REGISTERx i a REG_TYPE_SINT16 S16 d lo usr"
definition REG_S16MAX :: "nat \<Rightarrow> nat \<Rightarrow> u16 \<Rightarrow> u16 \<Rightarrow> initialiser" where "REG_S16MAX i a hi d = MAKE_MAX_REGISTER i a REG_TYPE_SINT16 S16 d hi"
definition REGx_S16MAX :: "nat \<Rightarrow> nat \<Rightarrow> u16 \<Rightarrow> u16 \<Rightarrow> nat \<Rightarrow> initialiser" where "REGx_S16MAX i a hi d usr = MAKE_MAX_REGISTERx i a REG_TYPE_SINT16 S16 d hi usr"
definition REG_S16RANGE :: "nat \<Rightarrow> nat \<Rightarrow> u16 \<Rightarrow> u16 \<Rightarrow> u16 \<Rightarrow> initialiser" where "REG_S16RANGE i a lo hi d = MAKE_RANGE_REGISTER i a REG_TYPE_SINT16 S16 d lo hi"
definition REGx_S16RANGE :: "nat \<Rightarrow> nat \<Rightarrow> u16 \<Rightarrow> u16 \<Rightarrow> u16 \<Rightarrow> nat \<Rightarrow> initialiser" where "REGx_S16RANGE i a lo hi d usr = MAKE_RANGE_REGISTERx i a REG_TYPE_SINT16 S16 d lo hi usr"
definition REG_S16FNC :: "nat \<Rightarrow> nat \<Rightarrow> (RegisterEntryData \<Rightarrow> RegisterValue \<Rightarrow> bool) \<Rightarrow> u16 \<Rightarrow> initialiser" where "REG_S16FNC i a fnc d = MAKE_VALIDATOR_REGISTER i a REG_TYPE_SINT16 S16 d fnc"
definition REGx_S16FNC :: "nat \<Rightarrow> nat \<Rightarrow> (RegisterEntryData \<Rightarrow> RegisterValue \<Rightarrow> bool) \<Rightarrow> u16 \<Rightarrow> nat \<Rightarrow> initialiser" where "REGx_S16FNC i a fnc d usr = MAKE_VALIDATOR_REGISTERx i a REG_TYPE_SINT16 S16 d fnc usr"
definition REG_S32 :: "nat \<Rightarrow> nat \<Rightarrow> u32 \<Rightarrow> initialiser" where "REG_S32 i a d = MAKE_REGISTER i a REG_TYPE_SINT32 S32 d"
definition REGx_S32 :: "nat \<Rightarrow> nat \<Rightarrow> u32 \<Rightarrow> nat \<Rightarrow> initialiser" where "REGx_S32 i a d usr = MAKE_REGISTERx i a REG_TYPE_SINT32 S32 d usr"
definition REG_S32FAIL :: "nat \<Rightarrow> nat \<Rightarrow> u32 \<Rightarrow> initialiser" where "REG_S32FAIL i a d = MAKE_FAIL_REGISTER i a REG_TYPE_SINT32 S32 d"
definition REGx_S32FAIL :: "nat \<Rightarrow> nat \<Rightarrow> u32 \<Rightarrow> nat \<Rightarrow> initialiser" where "REGx_S32FAIL i a d usr = MAKE_FAIL_REGISTERx i a REG_TYPE_SINT32 S32 d usr"
definition REG_S32MIN :: "nat \<Rightarrow> nat \<Rightarrow> u32 \<Rightarrow> u32 \<Rightarrow> initialiser" where "REG_S32MIN i a lo d = MAKE_MIN_REGISTER i a REG_TYPE_SINT32 S32 d lo"
definition REGx_S32MIN :: "nat \<Rightarrow> nat \<Rightarrow> u32 \<Rightarrow> u32 \<Rightarrow> nat \<Rightarrow> initialiser" where "REGx_S32MIN i a lo d usr = MAKE_MIN_REGISTERx i a REG_TYPE_SINT32 S32 d lo usr"
definition REG_S32MAX :: "nat \<Rightarrow> nat \<Rightarrow> u32 \<Rightarrow> u32 \<Rightarrow> initialiser" where "REG_S32MAX i a hi d = MAKE_MAX_REGISTER i a REG_TYPE_SINT32 S32 d hi"
definition REGx_S32MAX :: "nat \<Rightarrow> nat \<Rightarrow> u32 \<Rightarrow> u32 \<Rightarrow> nat \<Rightarrow> initialiser" where "REGx_S32MAX i a hi d usr = MAKE_MAX_REGISTERx i a REG_TYPE_SINT32 S32 d hi usr"
definition REG_S32RANGE :: "nat \<Rightarrow> nat \<Rightarrow> u32 \<Rightarrow> u32 \<Rightarrow> u32 \<Rightarrow> initialiser" where "REG_S32RANGE i a lo hi d = MAKE_RANGE_REGISTER i a REG_TYPE_SINT32 S32 d lo hi"
definition REGx_S32RANGE :: "nat \<Rightarrow> nat \<Rightarrow> u32 \<Rightarrow> u32 \<Rightarrow> u32 \<Rightarrow> nat \<Rightarrow> initialiser" where "REGx_S32RANGE i a lo hi d usr = MAKE_RANGE_REGISTERx i a REG_TYPE_SINT32 S32 d lo hi usr"
definition REG_S32FNC :: "nat \<Rightarrow> nat \<Rightarrow> (RegisterEntryData \<Rightarrow> RegisterValue \<Rightarrow> bool) \<Rightarrow> u32 \<Rightarrow> initialiser" where "REG_S32FNC i a fnc d = MAKE_VALIDATOR_REGISTER i a REG_TYPE_SINT32 S32 d fnc"
definition REGx_S32FNC :: "nat \<Rightarrow> nat \<Rightarrow> (RegisterEntryData \<Rightarrow> RegisterValue \<Rightarrow> bool) \<Rightarrow> u32 \<Rightarrow> nat \<Rightarrow> initialiser" where "REGx_S32FNC i a fnc d usr = MAKE_VALIDATOR_REGISTERx i a REG_TYPE_SINT32 S32 d fnc usr"
definition REG_S64 :: "nat \<Rightarrow> nat \<Rightarrow> u64 \<Rightarrow> initialiser" where "REG_S64 i a d = MAKE_REGISTER i a REG_TYPE_SINT64 S64 d"
definition REGx_S64 :: "nat \<Rightarrow> nat \<Rightarrow> u64 \<Rightarrow> nat \<Rightarrow> initialiser" where "REGx_S64 i a d usr = MAKE_REGISTERx i a REG_TYPE_SINT64 S64 d usr"
definition REG_S64FAIL :: "nat \<Rightarrow> nat \<Rightarrow> u64 \<Rightarrow> initialiser" where "REG_S64FAIL i a d = MAKE_FAIL_REGISTER i a REG_TYPE_SINT64 S64 d"
definition REGx_S64FAIL :: "nat \<Rightarrow> nat \<Rightarrow> u64 \<Rightarrow> nat \<Rightarrow> initialiser" where "REGx_S64FAIL i a d usr = MAKE_FAIL_REGISTERx i a REG_TYPE_SINT64 S64 d usr"
definition REG_S64MIN :: "nat \<Rightarrow> nat \<Rightarrow> u64 \<Rightarrow> u64 \<Rightarrow> initialiser" where "REG_S64MIN i a lo d = MAKE_MIN_REGISTER i a REG_TYPE_SINT64 S64 d lo"
definition REGx_S64MIN :: "nat \<Rightarrow> nat \<Rightarrow> u64 \<Rightarrow> u64 \<Rightarrow> nat \<Rightarrow> initialiser" where "REGx_S64MIN i a lo d usr = MAKE_MIN_REGISTERx i a REG_TYPE_SINT64 S64 d lo usr"
definition REG_S64MAX :: "nat \<Rightarrow> nat \<Rightarrow> u64 \<Rightarrow> u64 \<Rightarrow> initialiser" where "REG_S64MAX i a hi d = MAKE_MAX_REGISTER i a REG_TYPE_SINT64 S64 d hi"
definition REGx_S64MAX :: "nat \<Rightarrow> nat \<Rightarrow> u64 \<Rightarrow> u64 \<Rightarrow> nat \<Rightarrow> initialiser" where "REGx_S64MAX i a hi d usr = MAKE_MAX_REGISTERx i a REG_TYPE_SINT64 S64 d hi usr"
definition REG_S64RANGE :: "nat \<Rightarrow> nat \<Rightarrow> u64 \<Rightarrow> u64 \<Rightarrow> u64 \<Rightarrow> initialiser" where "REG_S64RANGE i a lo hi d = MAKE_RANGE_REGISTER i a REG_TYPE_SINT64 S64 d lo hi"
definition REGx_S64RANGE :: "nat \<Rightarrow> nat \<Rightarrow> u64 \<Rightarrow> u64 \<Rightarrow> u64 \<Rightarrow> nat \<Rightarrow> initialiser" where "REGx_S64RANGE i a lo hi d usr = MAKE_RANGE_REGISTERx i a REG_TYPE_SINT64 S64 d lo hi usr"
definition REG_S64FNC :: "nat \<Rightarrow> nat \<Rightarrow> (RegisterEntryData \<Rightarrow> RegisterValue \<Rightarrow> bool) \<Rightarrow> u64 \<Rightarrow> initialiser" where "REG_S64FNC i a fnc d = MAKE_VALIDATOR_REGISTER i a REG_TYPE_SINT64 S64 d fnc"
definition REGx_S64FNC :: "nat \<Rightarrow> nat \<Rightarrow> (RegisterEntryData \<Rightarrow> RegisterValue \<Rightarrow> bool) \<Rightarrow> u64 \<Rightarrow> nat \<Rightarrow> initialiser" where "REGx_S64FNC i a fnc d usr = MAKE_VALIDATOR_REGISTERx i a REG_TYPE_SINT64 S64 d fnc usr"
definition REG_F32 :: "nat \<Rightarrow> nat \<Rightarrow> u32 \<Rightarrow> initialiser" where "REG_F32 i a d = MAKE_REGISTER i a REG_TYPE_FLOAT32 F32 d"
definition REGx_F32 :: "nat \<Rightarrow> nat \<Rightarrow> u32 \<Rightarrow> nat \<Rightarrow> initialiser" where "REGx_F32 i a d usr = MAKE_REGISTERx i a REG_TYPE_FLOAT32 F32 d usr"
definition REG_F32FAIL :: "nat \<Rightarrow> nat \<Rightarrow> u32 \<Rightarrow> initialiser" where "REG_F32FAIL i a d = MAKE_FAIL_REGISTER i a REG_TYPE_FLOAT32 F32 d"
definition REGx_F32FAIL :: "nat \<Rightarrow> nat \<Rightarrow> u32 \<Rightarrow> nat \<Rightarrow> initialiser" where "REGx_F32FAIL i a d usr = MAKE_FAIL_REGISTERx i a REG_TYPE_FLOAT32 F32 d usr"
definition REG_F32MIN :: "nat \<Rightarrow> nat \<Rightarrow> u32 \<Rightarrow> u32 \<Rightarrow> initialiser" where "REG_F32MIN i a lo d = MAKE_MIN_REGISTER i a REG_TYPE_FLOAT32 F32 d lo"
definition REGx_F32MIN :: "nat \<Rightarrow> nat \<Rightarrow> u32 \<Rightarrow> u32 \<Rightarrow> nat \<Rightarrow> initialiser" where "REGx_F32MIN i a lo d usr = MAKE_MIN_REGISTERx i a REG_TYPE_FLOAT32 F32 d lo usr"
definition REG_F32MAX :: "nat \<Rightarrow> nat \<Rightarrow> u32 \<Rightarrow> u32 \<Rightarrow> initialiser" where "REG_F32MAX i a hi d = MAKE_MAX_REGISTER i a REG_TYPE_FLOAT32 F32 d hi"
definition REGx_F32MAX :: "nat \<Rightarrow> nat \<Rightarrow> u32 \<Rightarrow> u32 \<Rightarrow> nat \<Rightarrow> initialiser" where "REGx_F32MAX i a hi d usr = MAKE_MAX_REGISTERx i a REG_TYPE_FLOAT32 F32 d hi usr"
definition REG_F32RANGE :: "nat \<Rightarrow> nat \<Rightarrow> u32 \<Rightarrow> u32 \<Rightarrow> u32 \<Rightarrow> initialiser" where "REG_F32RANGE i a lo hi d = MAKE_RANGE_REGISTER i a REG_TYPE_FLOAT32 F32 d lo hi"
definition REGx_F32RANGE :: "nat \<Rightarrow> nat \<Rightarrow> u32 \<Rightarrow> u32 \<Rightarrow> u32 \<Rightarrow> nat \<Rightarrow> initialiser" where "REGx_F32RANGE i a lo hi d usr = MAKE_RANGE_REGISTERx i a REG_TYPE_FLOAT32 F32 d lo hi usr"
definition REG_F32FNC :: "nat \<Rightarrow> nat \<Rightarrow> (RegisterEntryData \<Rightarrow> RegisterValue \<Rightarrow> bool) \<Rightarrow> u32 \<Rightarrow> initialiser" where "REG_F32FNC i a fnc d = MAKE_VALIDATOR_REGISTER i a REG_TYPE_FLOAT32 F32 d fnc"
definition REGx_F32FNC :: "nat \<Rightarrow> nat \<Rightarrow> (RegisterEntryData \<Rightarrow> RegisterValue \<Rightarrow> bool) \<Rightarrow> u32 \<Rightarrow> nat \<Rightarrow> initialiser" where "REGx_F32FNC i a fnc d usr = MAKE_VALIDATOR_REGISTERx i a REG_TYPE_FLOAT32 F32 d fnc usr"
definition REG_F64 :: "nat \<Rightarrow> nat \<Rightarrow> u64 \<Rightarrow> initialiser" where "REG_F64 i a d = MAKE_REGISTER i a REG_TYPE_FLOAT64 F64 d"
definition REGx_F64 :: "nat \<Rightarrow> nat \<Rightarrow> u64 \<Rightarrow> nat \<Rightarrow> initialiser" where "REGx_F64 i a d usr = MAKE_REGISTERx i a REG_TYPE_FLOAT64 F64 d usr"
definition REG_F64FAIL :: "nat \<Rightarrow> nat \<Rightarrow> u64 \<Rightarrow> initialiser" where "REG_F64FAIL i a d = MAKE_FAIL_REGISTER i a REG_TYPE_FLOAT64 F64 d"
definition REGx_F64FAIL :: "nat \<Rightarrow> nat \<Rightarrow> u64 \<Rightarrow> nat \<Rightarrow> initialiser" where "REGx_F64FAIL i a d usr = MAKE_FAIL_REGISTERx i a REG_TYPE_FLOAT64 F64 d usr"
definition REG_F64MIN :: "nat \<Rightarrow> nat \<Rightarrow> u64 \<Rightarrow> u64 \<Rightarrow> initialiser" where "REG_F64MIN i a lo d = MAKE_MIN_REGISTER i a REG_TYPE_FLOAT64 F64 d lo"
definition REGx_F64MIN :: "nat \<Rightarrow> nat \<Rightarrow> u64 \<Rightarrow> u64 \<Rightarrow> nat \<Rightarrow> initialiser" where "REGx_F64MIN i a lo d usr = MAKE_MIN_REGISTERx i a REG_TYPE_FLOAT64 F64 d lo usr"
definition REG_F64MAX :: "nat \<Rightarrow> nat \<Rightarrow> u64 \<Rightarrow> u64 \<Rightarrow> initialiser" where "REG_F64MAX i a hi d = MAKE_MAX_REGISTER i a REG_TYPE_FLOAT64 F64 d hi"
definition REGx_F64MAX :: "nat \<Rightarrow> nat \<Rightarrow> u64 \<Rightarrow> u64 \<Rightarrow> nat \<Rightarrow> initialiser" where "REGx_F64MAX i a hi d usr = MAKE_MAX_REGISTERx i a REG_TYPE_FLOAT64 F64 d hi usr"
definition REG_F64RANGE :: "nat \<Rightarrow> nat \<Rightarrow> u64 \<Rightarrow> u64 \<Rightarrow> u64 \<Rightarrow> initialiser" where "REG_F64RANGE i a lo hi d = MAKE_RANGE_REGISTER i a REG_TYPE_FLOAT64 F64 d lo hi"
definition REGx_F64RANGE :: "nat \<Rightarrow> nat \<Rightarrow> u64 \<Rightarrow> u64 \<Rightarrow> u64 \<Rightarrow> nat \<Rightarrow> initialiser" where "REGx_F64RANGE i a lo hi d usr = MAKE_RANGE_REGISTERx i a REG_TYPE_FLOAT64 F64 d lo hi usr"
definition REG_F64FNC :: "nat \<Rightarrow> nat \<Rightarrow> (RegisterEntryData \<Rightarrow> RegisterValue \<Rightarrow> bool) \<Rightarrow> u64 \<Rightarrow> initialiser" where "REG_F64FNC i a fnc d = MAKE_VALIDATOR_REGISTER i a REG_TYPE_FLOAT64 F64 d fnc"
definition REGx_F64FNC :: "nat \<Rightarrow> nat \<Rightarrow> (RegisterEntryData \<Rightarrow> RegisterValue \<Rightarrow> bool) \<Rightarrow> u64 \<Rightarrow> nat \<Rightarrow> initialiser" where "REGx_F64FNC i a fnc d usr = MAKE_VALIDATOR_REGISTERx i a REG_TYPE_FLOAT64 F64 d fnc usr"

lemmas make_defs = MAKE_REGISTER_def MAKE_FAIL_REGISTER_def MAKE_MIN_REGISTER_def MAKE_MAX_REGISTER_def MAKE_RANGE_REGISTER_def
  MAKE_VALIDATOR_REGISTER_def MAKE_REGISTERx_def MAKE_FAIL_REGISTERx_def MAKE_MIN_REGISTERx_def MAKE_MAX_REGISTERx_def
  MAKE_RANGE_REGISTERx_def MAKE_VALIDATOR_REGISTERx_def REGCOMMON_def

lemmas front_end_defs = REG_U16_def REGx_U16_def REG_U16FAIL_def REGx_U16FAIL_def REG_U16MIN_def REGx_U16MIN_def REG_U16MAX_def REGx_U16MAX_def
  REG_U16RANGE_def REGx_U16RANGE_def REG_U16FNC_def REGx_U16FNC_def REG_U32_def REGx_U32_def REG_U32FAIL_def REGx_U32FAIL_def REG_U32MIN_def
  REGx_U32MIN_def REG_U32MAX_def REGx_U32MAX_def REG_U32RANGE_def REGx_U32RANGE_def REG_U32FNC_def REGx_U32FNC_def REG_U64_def REGx_U64_def
  REG_U64FAIL_def REGx_U64FAIL_def REG_U64MIN_def REGx_U64MIN_def REG_U64MAX_def REGx_U64MAX_def REG_U64RANGE_def REGx_U64RANGE_def REG_U64FNC_def
  REGx_U64FNC_def REG_S16_def REGx_S16_def REG_S16FAIL_def REGx_S16FAIL_def REG_S16MIN_def REGx_S16MIN_def REG_S16MAX_def REGx_S16MAX_def
  REG_S16RANGE_def REGx_S16RANGE_def REG_S16FNC_def REGx_S16FNC_def REG_S32_def REGx_S32_def REG_S32FAIL_def REGx_S32FAIL_def REG_S32MIN_def
  REGx_S32MIN_def REG_S32MAX_def REGx_S32MAX_def REG_S32RANGE_def REGx_S32RANGE_def REG_S32FNC_def REGx_S32FNC_def REG_S64_def REGx_S64_def
  REG_S64FAIL_def REGx_S64FAIL_def REG_S64MIN_def REGx_S64MIN_def REG_S64MAX_def REGx_S64MAX_def REG_S64RANGE_def REGx_S64RANGE_def REG_S64FNC_def
  REGx_S64FNC_def REG_F32_def REGx_F32_def REG_F32FAIL_def REGx_F32FAIL_def REG_F32MIN_def REGx_F32MIN_def REG_F32MAX_def REGx_F32MAX_def
  REG_F32RANGE_def REGx_F32RANGE_def REG_F32FNC_def REGx_F32FNC_def REG_F64_def REGx_F64_def REG_F64FAIL_def REGx_F64FAIL_def REG_F64MIN_def
  REGx_F64MIN_def REG_F64MAX_def REGx_F64MAX_def REG_F64RANGE_def REGx_F64RANGE_def REG_F64FNC_def REGx_F64FNC_def

section \<open>Well-typed declarations\<close>

definition ignores_flags :: "(RegisterEntryData \<Rightarrow> RegisterValue \<Rightarrow> bool) \<Rightarrow> bool" where
  "ignores_flags f \<longleftrightarrow> (\<forall>d fl v. f (d\<lparr>re_flags := fl\<rparr>) v = f d v)"

inductive front_end :: "initialiser \<Rightarrow> bool" where
  "front_end (REG_U16 i a d)"
| "front_end (REGx_U16 i a d usr)"
| "front_end (REG_U16FAIL i a d)"
| "front_end (REGx_U16FAIL i a d usr)"
| "front_end (REG_U16MIN i a lo d)"
| "front_end (REGx_U16MIN i a lo d usr)"
| "front_end (REG_U16MAX i a hi d)"
| "front_end (REGx_U16MAX i a hi d usr)"
| "front_end (REG_U16RANGE i a lo hi d)"
| "front_end (REGx_U16RANGE i a lo hi d usr)"
| "ignores_flags fnc \<Longrightarrow> front_end (REG_U16FNC i a fnc d)"
| "ignores_flags fnc \<Longrightarrow> front_end (REGx_U16FNC i a fnc d usr)"
| "front_end (REG_U32 i a d)"
| "front_end (REGx_U32 i a d usr)"
| "front_end (REG_U32FAIL i a d)"
| "front_end (REGx_U32FAIL i a d usr)"
| "front_end (REG_U32MIN i a lo d)"
| "front_end (REGx_U32MIN i a lo d usr)"
| "front_end (REG_U32MAX i a hi d)"
| "front_end (REGx_U32MAX i a hi d usr)"
| "front_end (REG_U32RANGE i a lo hi d)"
| "front_end (REGx_U32RANGE i a lo hi d usr)"
| "ignores_flags fnc \<Longrightarrow> front_end (REG_U32FNC i a fnc d)"
| "ignores_flags fnc \<Longrightarrow> front_end (REGx_U32FNC i a fnc d usr)"
| "front_end (REG_U64 i a d)"
| "front_end (REGx_U64 i a d usr)"
| "front_end (REG_U64FAIL i a d)"
| "front_end (REGx_U64FAIL i a d usr)"
| "front_end (REG_U64MIN i a lo d)"
| "front_end (REGx_U64MIN i a lo d usr)"
| "front_end (REG_U64MAX i a hi d)"
| "front_end (REGx_U64MAX i a hi d usr)"
| "front_end (REG_U64RANGE i a lo hi d)"
| "front_end (REGx_U64RANGE i a lo hi d usr)"
| "ignores_flags fnc \<Longrightarrow> front_end (REG_U64FNC i a fnc d)"
| "ignores_flags fnc \<Longrightarrow> front_end (REGx_U64FNC i a fnc d usr)"
| "front_end (REG_S16 i a d)"
| "front_end (REGx_S16 i a d usr)"
| "front_end (REG_S16FAIL i a d)"
| "front_end (REGx_S16FAIL i a d usr)"
| "front_end (REG_S16MIN i a lo d)"
| "front_end (REGx_S16MIN i a lo d usr)"
| "front_end (REG_S16MAX i a hi d)"
| "front_end (REGx_S16MAX i a hi d usr)"
| "front_end (REG_S16RANGE i a lo hi d)"
| "front_end (REGx_S16RANGE i a lo hi d usr)"
| "ignores_flags fnc \<Longrightarrow> front_end (REG_S16FNC i a fnc d)"
| "ignores_flags fnc \<Longrightarrow> front_end (REGx_S16FNC i a fnc d usr)"
| "front_end (REG_S32 i a d)"
| "front_end (REGx_S32 i a d usr)"
| "front_end (REG_S32FAIL i a d)"
| "front_end (REGx_S32FAIL i a d usr)"
| "front_end (REG_S32MIN i a lo d)"
| "front_end (REGx_S32MIN i a lo d usr)"
| "front_end (REG_S32MAX i a hi d)"
| "front_end (REGx_S32MAX i a hi d usr)"
| "front_end (REG_S32RANGE i a lo hi d)"
| "front_end (REGx_S32RANGE i a lo hi d usr)"
| "ignores_flags fnc \<Longrightarrow> front_end (REG_S32FNC i a fnc d)"
| "ignores_flags fnc \<Longrightarrow> front_end (REGx_S32FNC i a fnc d usr)"
| "front_end (REG_S64 i a d)"
| "front_end (REGx_S64 i a d usr)"
| "front_end (REG_S64FAIL i a d)"
| "front_end (REGx_S64FAIL i a d usr)"
| "front_end (REG_S64MIN i a lo d)"
| "front_end (REGx_S64MIN i a lo d usr)"
| "front_end (REG_S64MAX i a hi d)"
| "front_end (REGx_S64MAX i a hi d usr)"
| "front_end (REG_S64RANGE i a lo hi d)"
| "front_end (REGx_S64RANGE i a lo hi d usr)"
| "ignores_flags fnc \<Longrightarrow> front_end (REG_S64FNC i a fnc d)"
| "ignores_flags fnc \<Longrightarrow> front_end (REGx_S64FNC i a fnc d usr)"
| "front_end (REG_F32 i a d)"
| "front_end (REGx_F32 i a d usr)"
| "front_end (REG_F32FAIL i a d)"
| "front_end (REGx_F32FAIL i a d usr)"
| "front_end (REG_F32MIN i a lo d)"
| "front_end (REGx_F32MIN i a lo d usr)"
| "front_end (REG_F32MAX i a hi d)"
| "front_end (REGx_F32MAX i a hi d usr)"
| "front_end (REG_F32RANGE i a lo hi d)"
| "front_end (REGx_F32RANGE i a lo hi d usr)"
| "ignores_flags fnc \<Longrightarrow> front_end (REG_F32FNC i a fnc d)"
| "ignores_flags fnc \<Longrightarrow> front_end (REGx_F32FNC i a fnc d usr)"
| "front_end (REG_F64 i a d)"
| "front_end (REGx_F64 i a d usr)"
| "front_end (REG_F64FAIL i a d)"
| "front_end (REGx_F64FAIL i a d usr)"
| "front_end (REG_F64MIN i a lo d)"
| "front_end (REGx_F64MIN i a lo d usr)"
| "front_end (REG_F64MAX i a hi d)"
| "front_end (REGx_F64MAX i a hi d usr)"
| "front_end (REG_F64RANGE i a lo hi d)"
| "front_end (REGx_F64RANGE i a lo hi d usr)"
| "ignores_flags fnc \<Longrightarrow> front_end (REG_F64FNC i a fnc d)"
| "ignores_flags fnc \<Longrightarrow> front_end (REGx_F64FNC i a fnc d usr)"

text \<open>An entry whose default and limits are of its type.\<close>

definition typed_entry :: "RegisterEntry \<Rightarrow> bool" where
  "typed_entry x \<longleftrightarrow> re_type x \<noteq> REG_TYPE_INVALID \<and> check_matches x"

lemma front_end_typed: "front_end p \<Longrightarrow> (\<exists>i. fst p = Some i) \<and> typed_entry (snd p)"
  by (induction rule: front_end.induct)
    (simp_all only: front_end_defs make_defs, simp_all add: typed_entry_def check_matches_def ignores_flags_def)

section \<open>Areas\<close>

definition REG_AF_RW :: u16 where "REG_AF_RW = REG_AF_READABLE OR REG_AF_WRITEABLE"

definition REGISTER_AREA_END :: "'d RegisterArea" where
  "REGISTER_AREA_END = \<lparr>ra_flags = 0, ra_base = 0, ra_size = 0, ra_first = 0, ra_last = 0, ra_count = 0, ra_mem = None,
     ra_read = None, ra_write = None\<rparr>"

definition MAKE_CUSTOM_AREA ::
    "'d registerRead option \<Rightarrow> 'd registerWrite option \<Rightarrow> nat \<Rightarrow> nat \<Rightarrow> u16 \<Rightarrow> 'd RegisterArea" where
  "MAKE_CUSTOM_AREA rd wr addr sz flags = \<lparr>ra_flags = flags, ra_base = addr, ra_size = sz, ra_first = 0, ra_last = 0, ra_count = 0,
     ra_mem = None, ra_read = rd, ra_write = wr\<rparr>"
definition CUSTOM_AREA :: "'d registerRead \<Rightarrow> 'd registerWrite \<Rightarrow> nat \<Rightarrow> nat \<Rightarrow> 'd RegisterArea" where
  "CUSTOM_AREA r w a s = MAKE_CUSTOM_AREA (Some r) (Some w) a s REG_AF_RW"
definition CUSTOM_AREA_RO :: "'d registerRead \<Rightarrow> nat \<Rightarrow> nat \<Rightarrow> 'd RegisterArea" where
  "CUSTOM_AREA_RO r a s = MAKE_CUSTOM_AREA (Some r) None a s REG_AF_READABLE"

definition MAKE_MEMORY_AREA :: "nat \<Rightarrow> nat \<Rightarrow> u16 \<Rightarrow> 'd RegisterArea" where
  "MAKE_MEMORY_AREA addr sz flags = \<lparr>ra_flags = flags, ra_base = addr, ra_size = sz, ra_first = 0, ra_last = 0, ra_count = 0,
     ra_mem = Some (replicate sz 0), ra_read = Some reg_mem_read, ra_write = Some reg_mem_write\<rparr>"
definition MEMORY_AREA :: "nat \<Rightarrow> nat \<Rightarrow> 'd RegisterArea" where
  "MEMORY_AREA a s = MAKE_MEMORY_AREA a s REG_AF_RW"
definition MEMORY_AREA_RO :: "nat \<Rightarrow> nat \<Rightarrow> 'd RegisterArea" where
  "MEMORY_AREA_RO a s = MAKE_MEMORY_AREA a s REG_AF_READABLE"
definition MEMORY_AREA_WO :: "nat \<Rightarrow> nat \<Rightarrow> 'd RegisterArea" where
  "MEMORY_AREA_WO a s = MAKE_MEMORY_AREA a s REG_AF_WRITEABLE"

lemmas area_defs = MAKE_CUSTOM_AREA_def CUSTOM_AREA_def CUSTOM_AREA_RO_def MAKE_MEMORY_AREA_def MEMORY_AREA_def MEMORY_AREA_RO_def
  MEMORY_AREA_WO_def REGISTER_AREA_END_def

section \<open>Arrays\<close>

text \<open>An initialiser without an index is for the element behind the one of the initialiser before it.\<close>

definition zero_entry :: RegisterEntry where
  "zero_entry = REGCOMMON 0 REG_TYPE_UINT16 U16 0 0 REGV_TYPE_TRIVIAL"

definition initialise :: "RegisterEntry list \<Rightarrow> nat \<Rightarrow> RegisterEntry \<Rightarrow> RegisterEntry list" where
  "initialise xs i x = (if i < length xs then xs[i := x] else xs @ replicate (i - length xs) zero_entry @ [x])"

fun entry_array :: "RegisterEntry list \<Rightarrow> nat \<Rightarrow> initialiser list \<Rightarrow> RegisterEntry list" where
  "entry_array xs pos [] = xs"
| "entry_array xs pos ((designator, x) # ps) =
     (let i = (case designator of Some i \<Rightarrow> i | None \<Rightarrow> pos) in entry_array (initialise xs i x) (i + 1) ps)"

lemma set_initialise: "x \<in> set (initialise xs i x)" "set (initialise xs i x) \<subseteq> insert x (insert zero_entry (set xs))"
  using set_update_subset_insert [of xs i x] by (auto simp: initialise_def set_update_memI)

lemma entry_array_elements:
  assumes "\<And>x. x \<in> set xs \<Longrightarrow> P x" "P zero_entry" "\<And>p. p \<in> set ps \<Longrightarrow> P (snd p)" "y \<in> set (entry_array xs pos ps)"
  shows "P y"
  using assms
proof (induction xs pos ps rule: entry_array.induct)
  case (2 xs pos designator x ps)
  let ?i = "case designator of Some i \<Rightarrow> i | None \<Rightarrow> pos"
  have "P z" if "z \<in> set (initialise xs ?i x)" for z
    using set_initialise(2) [of xs ?i x] that 2(2,3) 2(4) [of "(designator, x)"] by auto
  with 2 show ?case
    by (simp add: Let_def)
qed simp

lemma entry_array_last: "ps \<noteq> [] \<Longrightarrow> snd (last ps) \<in> set (entry_array xs pos ps)"
  by (induction xs pos ps rule: entry_array.induct) (auto simp: Let_def set_initialise(1))

lemma zero_entry_typed: "typed_entry zero_entry"
  by (simp add: typed_entry_def zero_entry_def REGCOMMON_def check_matches_def)

text \<open>An array ended by the end marker: what is in front of the first marker is typed.\<close>

lemma declared_entries:
  assumes "\<And>p. p \<in> set regs \<Longrightarrow> front_end p" "es = takeWhile (\<lambda>x. \<not> is_end_of_entries x) (entry_array [] 0 (regs @ [REGISTER_ENTRY_END]))"
  shows "\<exists>z zs. entry_array [] 0 (regs @ [REGISTER_ENTRY_END]) = es @ z # zs \<and> is_end_of_entries z \<and>
     (\<forall>x \<in> set es. \<not> is_end_of_entries x \<and> typed_entry x)"
proof -
  let ?a = "entry_array [] 0 (regs @ [REGISTER_ENTRY_END])"
  have typed: "typed_entry x \<or> is_end_of_entries x" if "x \<in> set ?a" for x
    by (rule entry_array_elements [OF _ _ _ that])
      (use zero_entry_typed front_end_typed assms(1) in \<open>auto simp: REGISTER_ENTRY_END_def is_end_of_entries_def\<close>)
  have "snd REGISTER_ENTRY_END \<in> set ?a"
    using entry_array_last [of "regs @ [REGISTER_ENTRY_END]" "[]" 0] by simp
  moreover have "is_end_of_entries (snd REGISTER_ENTRY_END)"
    by (simp add: REGISTER_ENTRY_END_def is_end_of_entries_def)
  ultimately have "dropWhile (\<lambda>x. \<not> is_end_of_entries x) ?a \<noteq> []"
    unfolding dropWhile_eq_Nil_conv by blast
  then obtain z zs where z: "dropWhile (\<lambda>x. \<not> is_end_of_entries x) ?a = z # zs" "is_end_of_entries z"
    by (metis list.exhaust hd_dropWhile list.sel(1))
  then have "?a = es @ z # zs"
    unfolding assms(2) by (metis takeWhile_dropWhile_id)
  with z(2) typed show ?thesis
    unfolding assms(2) by (auto dest: set_takeWhileD)
qed

definition memory_area :: "'d RegisterArea \<Rightarrow> bool" where
  "memory_area a \<longleftrightarrow> (\<exists>addr sz. addr + sz + 4 \<le> 2 ^ 32 \<and> a \<in> {MEMORY_AREA addr sz, MEMORY_AREA_RO addr sz, MEMORY_AREA_WO addr sz})"

lemma memory_area_declared: "memory_area a \<Longrightarrow> area_declared a \<and> \<not> is_end_of_areas a"
  by (auto simp: memory_area_def area_defs area_declared_def is_end_of_areas_def mem_cells_def area_data_def RegisterAreaData.truncate_def)

section \<open>Property\<close>

text \<open>C17. Declared tables are well typed. In a table whose areas are made by the macros for memory areas and whose entries are
  made by any of the macros for registers, in any order and with any indices, ended by the end markers, every entry up
  to the first marker has a type other than the invalid one, and its default and its limits are of this type; so the
  validators have a result for every value. Initialising the table has a result, and when it is success, the table is
  well-formed and its entries have the types and the defaults they were declared with.\<close>

theorem register_declared_typed:
  assumes "\<And>p. p \<in> set regs \<Longrightarrow> front_end p" and "\<And>a. a \<in> set areas \<Longrightarrow> memory_area a" and "length areas < AREA_HANDLE_MAX"
    and "es = takeWhile (\<lambda>x. \<not> is_end_of_entries x) (entry_array [] 0 (regs @ [REGISTER_ENTRY_END]))" and "length es < REGISTER_HANDLE_MAX"
    and "rt_area t = Some (areas @ [REGISTER_AREA_END])" and "rt_entry t = Some (entry_array [] 0 (regs @ [REGISTER_ENTRY_END]))"
  shows "(\<forall>x \<in> set es. typed_entry x \<and> (\<forall>v. value_type (rv_value v) = rv_type v \<longrightarrow> (\<exists>b. rv_validate t x v = Some b))) \<and>
     (\<exists>r t'. register_init e (Some t) = Some (r, Some t') \<and>
       (if ri_code r = REG_INIT_SUCCESS
        then table_ok reg_mem_read reg_mem_write mem_cells t' \<and> rt_entries t' = length es \<and>
          (\<forall>i < length es. \<exists>y. entry_at t' i = Some y \<and> typed_entry y \<and> re_type y = re_type (es ! i) \<and> re_default y = re_default (es ! i))
        else \<not> table_initialised t'))"
proof -
  let ?u = "set_flags (clear_flags t REG_TF_INITIALISED) REG_TF_DURING_INIT\<lparr>rt_areas := length areas, rt_entries := length es\<rparr>"
  obtain z zs where es: "entry_array [] 0 (regs @ [REGISTER_ENTRY_END]) = es @ z # zs" "is_end_of_entries z"
    "\<forall>x \<in> set es. \<not> is_end_of_entries x" "\<forall>x \<in> set es. typed_entry x"
    using declared_entries [OF assms(1,4)] by blast
  have ct: "\<forall>x \<in> set es. check_matches x"
    using es(4) by (simp add: typed_entry_def)
  have area: "is_end_of_areas REGISTER_AREA_END" "\<forall>a \<in> set areas. \<not> is_end_of_areas a" "\<forall>a \<in> set areas. area_declared a"
    using assms(2) memory_area_declared by (simp add: area_defs is_end_of_areas_def, blast+)
  obtain r t' where r: "register_init e (Some t) = Some (r, Some t')" "init_done e ?u r t'"
    using init_runs [OF assms(6,3) area assms(7) [unfolded es(1)] assms(5) es(2,3) ct refl] by blast
  have n: "rt_entries ?u = length es"
    by simp
  note finished = r(2) [unfolded init_done_def n]
  have at: "entry_at ?u i = Some (es ! i)" if "i < length es" for i
    using that assms(7) es(1) by (simp add: entry_at_def nth_append set_flags_def clear_flags_def)
  have "\<exists>y. entry_at t' i = Some y \<and> typed_entry y \<and> re_type y = re_type (es ! i) \<and> re_default y = re_default (es ! i)"
    if c: "ri_code r = REG_INIT_SUCCESS" and i: "i < length es" for i
  proof -
    obtain x y where xy: "entry_at ?u i = Some x" "entry_at t' i = Some y" "unlinked y = unlinked x"
      and ok: "table_ok reg_mem_read reg_mem_write mem_cells t'" "rt_entries t' = length es"
      using finished c i by auto
    have "entry_ok t' y"
      using ok i xy(2) unfolding table_ok_def by auto
    then show ?thesis
      using xy at [OF i] unlinked_fields [OF xy(3)] by (auto simp: typed_entry_def entry_ok_def)
  qed
  moreover have "\<forall>x \<in> set es. typed_entry x \<and> (\<forall>v. value_type (rv_value v) = rv_type v \<longrightarrow> (\<exists>b. rv_validate t x v = Some b))"
    using es(4) ct validate_defined by blast
  ultimately show ?thesis
    using r(1) finished by auto
qed

theorem register_declared_typed_witness:
  "\<exists>r t'. register_init SYSTEM_ENDIANNESS_LITTLE (Some \<lparr>rt_flags = 0, rt_areas = 0, rt_area = Some [MEMORY_AREA 16 8, REGISTER_AREA_END],
       rt_entries = 0, rt_entry = Some (entry_array [] 0 ([REG_U16MAX 0 16 100 5, REG_S32 1 18 7] @ [REGISTER_ENTRY_END])), rt_world = ()\<rparr>) =
     Some (r, Some t')"
proof -
  let ?regs = "[REG_U16MAX 0 16 100 5, REG_S32 1 18 7]"
  let ?es = "takeWhile (\<lambda>x. \<not> is_end_of_entries x) (entry_array [] 0 (?regs @ [REGISTER_ENTRY_END]))"
  have "length ?es < REGISTER_HANDLE_MAX"
    by (simp add: Let_def initialise_def front_end_defs make_defs REGISTER_ENTRY_END_def is_end_of_entries_def REGISTER_HANDLE_MAX_def)
  moreover have "front_end p" if "p \<in> set ?regs" for p
    using that by (auto intro: front_end.intros)
  moreover have "memory_area a" if "a \<in> set [MEMORY_AREA 16 8 :: unit RegisterArea]" for a
    unfolding memory_area_def by (intro exI [of _ 16] exI [of _ 8]) (use that in simp)
  ultimately show ?thesis
    using register_declared_typed [of ?regs "[MEMORY_AREA 16 8]" ?es "\<lparr>rt_flags = 0, rt_areas = 0, rt_area = Some [MEMORY_AREA 16 8, REGISTER_AREA_END],
       rt_entries = 0, rt_entry = Some (entry_array [] 0 (?regs @ [REGISTER_ENTRY_END])), rt_world = ()\<rparr>" SYSTEM_ENDIANNESS_LITTLE]
    by (auto simp: AREA_HANDLE_MAX_def)
qed

end
