(* ===== verification/Register_Utilities.thy ===== *)
theory Register_Utilities
  imports Register_Declare Text_Formats
begin

text \<open>
  Printing of register tables: \<^verbatim>\<open>src/registers/utilities.c\<close>. The function that all printing goes through is a parameter
  \<open>pr\<close>: it gets the state of the output and the text that a format and its arguments stand for. What names and numbers
  enumerators have is part of the model, because the code looks names up by number. The lemmas show what a printed
  table lists, which values print alike, and which codes have no name.
\<close>

section \<open>Enumerators and their names\<close>

fun access_number :: "RegisterAccessCode \<Rightarrow> nat" where
  "access_number REG_ACCESS_SUCCESS = 0" | "access_number REG_ACCESS_FAILURE = 1" | "access_number REG_ACCESS_UNINITIALISED = 2"
| "access_number REG_ACCESS_NOENTRY = 3" | "access_number REG_ACCESS_RANGE = 4" | "access_number REG_ACCESS_INVALID = 5"
| "access_number REG_ACCESS_READONLY = 6" | "access_number REG_ACCESS_IO_ERROR = 7"

fun init_number :: "RegisterInitCode \<Rightarrow> nat" where
  "init_number REG_INIT_SUCCESS = 0" | "init_number REG_INIT_TABLE_INVALID = 1" | "init_number REG_INIT_NO_AREAS = 2"
| "init_number REG_INIT_TOO_MANY_AREAS = 3" | "init_number REG_INIT_AREA_INVALID_ORDER = 4"
| "init_number REG_INIT_AREA_ADDRESS_OVERLAP = 5" | "init_number REG_INIT_TOO_MANY_ENTRIES = 6"
| "init_number REG_INIT_ENTRY_INVALID_ORDER = 7" | "init_number REG_INIT_ENTRY_ADDRESS_OVERLAP = 8"
| "init_number REG_INIT_ENTRY_IN_MEMORY_HOLE = 9" | "init_number REG_INIT_ENTRY_INVALID_DEFAULT = 10"

fun type_number :: "RegisterType \<Rightarrow> nat" where
  "type_number REG_TYPE_UINT16 = 0" | "type_number REG_TYPE_UINT32 = 1" | "type_number REG_TYPE_UINT64 = 2"
| "type_number REG_TYPE_SINT16 = 3" | "type_number REG_TYPE_SINT32 = 4" | "type_number REG_TYPE_SINT64 = 5"
| "type_number REG_TYPE_FLOAT32 = 6" | "type_number REG_TYPE_FLOAT64 = 7" | "type_number REG_TYPE_INVALID = 8"

fun validator_number :: "RegisterValidator \<Rightarrow> nat" where
  "validator_number REGV_TYPE_TRIVIAL = 0" | "validator_number REGV_TYPE_FAIL = 1" | "validator_number (REGV_TYPE_MIN _) = 2"
| "validator_number (REGV_TYPE_MAX _) = 3" | "validator_number (REGV_TYPE_RANGE _ _) = 4" | "validator_number (REGV_TYPE_CALLBACK _) = 5"

definition REG_INIT_CODE_MAXIDX :: nat where "REG_INIT_CODE_MAXIDX = init_number REG_INIT_ENTRY_INVALID_DEFAULT"
definition REG_ACCESS_CODE_MAXIDX :: nat where "REG_ACCESS_CODE_MAXIDX = access_number REG_ACCESS_READONLY"
definition REG_TYPE_MAXIDX :: nat where "REG_TYPE_MAXIDX = type_number REG_TYPE_FLOAT64"
definition REGV_TYPE_MAXIDX :: nat where "REGV_TYPE_MAXIDX = validator_number (REGV_TYPE_CALLBACK (\<lambda>_ _. True))"

text \<open>The functions take the number that is in the object of enumeration type.\<close>

definition register_accesscode_to_string :: "nat \<Rightarrow> string" where
  "register_accesscode_to_string code =
     (if code > REG_ACCESS_CODE_MAXIDX then ''<INVALID-REGISTER-ACCESS-CODE>''
      else [''REG_ACCESS_SUCCESS'', ''REG_ACCESS_FAILURE'', ''REG_ACCESS_UNINITIALISED'', ''REG_ACCESS_NOENTRY'', ''REG_ACCESS_RANGE'',
        ''REG_ACCESS_INVALID'', ''REG_ACCESS_READONLY'', ''REG_ACCESS_IO_ERROR''] ! code)"

definition register_initcode_to_string :: "nat \<Rightarrow> string" where
  "register_initcode_to_string code =
     (if code > REG_INIT_CODE_MAXIDX then ''<INVALID-REGISTER-INIT-CODE>''
      else [''REG_INIT_SUCCESS'', ''REG_INIT_TABLE_INVALID'', ''REG_INIT_NO_AREAS'', ''REG_INIT_TOO_MANY_AREAS'',
        ''REG_INIT_AREA_INVALID_ORDER'', ''REG_INIT_AREA_ADDRESS_OVERLAP'', ''REG_INIT_TOO_MANY_ENTRIES'',
        ''REG_INIT_ENTRY_INVALID_ORDER'', ''REG_INIT_ENTRY_ADDRESS_OVERLAP'', ''REG_INIT_ENTRY_IN_MEMORY_HOLE'',
        ''REG_INIT_ENTRY_INVALID_DEFAULT''] ! code)"

definition register_registertype_to_string :: "nat \<Rightarrow> string" where
  "register_registertype_to_string ty =
     (if ty > REG_TYPE_MAXIDX then ''<INVALID-REGISTER-TYPE>''
      else [''REG_TYPE_UINT16'', ''REG_TYPE_UINT32'', ''REG_TYPE_UINT64'', ''REG_TYPE_SINT16'', ''REG_TYPE_SINT32'', ''REG_TYPE_SINT64'',
        ''REG_TYPE_FLOAT32'', ''REG_TYPE_FLOAT64'', ''REG_TYPE_INVALID''] ! ty)"

definition register_validatortype_to_string :: "nat \<Rightarrow> string" where
  "register_validatortype_to_string ty =
     (if ty > REGV_TYPE_MAXIDX then ''<INVALID-VALIDATOR-TYPE>''
      else [''REGV_TYPE_TRIVIAL'', ''REGV_TYPE_FAIL'', ''REGV_TYPE_MIN'', ''REGV_TYPE_MAX'', ''REGV_TYPE_RANGE'', ''REGV_TYPE_CALLBACK''] ! ty)"

section \<open>Printing\<close>

type_synonym 's fprintf_like = "'s \<Rightarrow> string \<Rightarrow> 's"

text \<open>The default prints to the stream it is given. Setting a printer replaces the one before.\<close>

definition rimpl_fprintf :: "string fprintf_like" where
  "rimpl_fprintf dst text' = dst @ text'"

definition register_set_printer :: "'s fprintf_like \<Rightarrow> 's fprintf_like \<Rightarrow> 's fprintf_like" where
  "register_set_printer r_fprintf p = p"

abbreviation newline :: string where "newline \<equiv> [CHR 0x0A]"

text \<open>The value has to be in the member of the union that the type says.\<close>

definition register_value_print :: "'s fprintf_like \<Rightarrow> 's \<Rightarrow> RegisterValue \<Rightarrow> 's option" where
  "register_value_print pr fh v = (case rv_type v of
       REG_TYPE_UINT16 \<Rightarrow> (case rv_value v of U16 x \<Rightarrow> Some (pr fh (''['' @ fmt_u (unat x) @ ''; 0x'' @ fmt_x 4 (unat x) @ '']'')) | _ \<Rightarrow> None)
     | REG_TYPE_SINT16 \<Rightarrow> (case rv_value v of S16 x \<Rightarrow> Some (pr fh (fmt_d (sint x))) | _ \<Rightarrow> None)
     | REG_TYPE_UINT32 \<Rightarrow> (case rv_value v of U32 x \<Rightarrow> Some (pr fh (''['' @ fmt_u (unat x) @ ''; 0x'' @ fmt_x 8 (unat x) @ '']'')) | _ \<Rightarrow> None)
     | REG_TYPE_SINT32 \<Rightarrow> (case rv_value v of S32 x \<Rightarrow> Some (pr fh (fmt_d (sint x))) | _ \<Rightarrow> None)
     | REG_TYPE_UINT64 \<Rightarrow> (case rv_value v of U64 x \<Rightarrow> Some (pr fh (''['' @ fmt_u (unat x) @ ''; 0x'' @ fmt_x 16 (unat x) @ '']'')) | _ \<Rightarrow> None)
     | REG_TYPE_SINT64 \<Rightarrow> (case rv_value v of S64 x \<Rightarrow> Some (pr fh (fmt_d (sint x))) | _ \<Rightarrow> None)
     | REG_TYPE_FLOAT32 \<Rightarrow> (case rv_value v of F32 x \<Rightarrow> Some (pr fh (fmt_e 23 8 (unat x))) | _ \<Rightarrow> None)
     | REG_TYPE_FLOAT64 \<Rightarrow> (case rv_value v of F64 x \<Rightarrow> Some (pr fh (fmt_e 52 11 (unat x))) | _ \<Rightarrow> None)
     | REG_TYPE_INVALID \<Rightarrow> Some (pr fh ''<value-invalid>''))"

definition register_entry_print_value :: "'s fprintf_like \<Rightarrow> 's \<Rightarrow> RegisterEntry \<Rightarrow> 's option" where
  "register_entry_print_value pr fh x = register_value_print pr fh \<lparr>rv_type = re_type x, rv_value = re_default x\<rparr>"

definition register_validator_print :: "'s fprintf_like \<Rightarrow> 's \<Rightarrow> RegisterType \<Rightarrow> RegisterValidator \<Rightarrow> 's option" where
  "register_validator_print pr h ty v = (case v of
       REGV_TYPE_TRIVIAL \<Rightarrow> Some (pr h ''<trivial>'')
     | REGV_TYPE_FAIL \<Rightarrow> Some (pr h ''<fail>'')
     | REGV_TYPE_MIN lo \<Rightarrow> do {
         h \<leftarrow> register_value_print pr (pr h ''<min: '') \<lparr>rv_type = ty, rv_value = lo\<rparr>;
         Some (pr h ''>'') }
     | REGV_TYPE_MAX hi \<Rightarrow> do {
         h \<leftarrow> register_value_print pr (pr h ''<max: '') \<lparr>rv_type = ty, rv_value = hi\<rparr>;
         Some (pr h ''>'') }
     | REGV_TYPE_RANGE lo hi \<Rightarrow> do {
         h \<leftarrow> register_value_print pr (pr h ''<range: '') \<lparr>rv_type = ty, rv_value = lo\<rparr>;
         h \<leftarrow> register_value_print pr (pr h '', '') \<lparr>rv_type = ty, rv_value = hi\<rparr>;
         Some (pr h ''>'') }
     | REGV_TYPE_CALLBACK _ \<Rightarrow> Some (pr h ''<callback>''))"

definition register_area_print :: "'s fprintf_like \<Rightarrow> 's \<Rightarrow> string \<Rightarrow> 'd RegisterArea \<Rightarrow> 's" where
  "register_area_print pr fh prefix a = foldl pr fh
     [prefix @ ''    Area Start: 0x'' @ fmt_x 8 (ra_base a) @ newline,
      prefix @ ''    Area Size : 0x'' @ fmt_x 8 (ra_size a) @ newline,
      prefix @ ''    Area Flags: 0x'' @ fmt_x 8 (unat (ra_flags a)) @ newline,
      prefix @ ''    Area has '' @ (if ra_read a = None then ''no'' else ''a'') @ '' read method.'' @ newline,
      prefix @ ''    Area has '' @ (if ra_write a = None then ''no'' else ''a'') @ '' write method.'' @ newline]"

definition register_entry_print :: "'s fprintf_like \<Rightarrow> 's \<Rightarrow> string \<Rightarrow> RegisterEntry \<Rightarrow> 's option" where
  "register_entry_print pr fh prefix x = do {
     let fh = foldl pr fh
       [prefix @ ''    Register Name   : '' @ (case re_name x of Some name \<Rightarrow> name | None \<Rightarrow> ''<UNNAMED-REGISTER>'') @ newline,
        prefix @ ''    Register Type   : '' @ register_registertype_to_string (type_number (re_type x)) @ newline,
        prefix @ ''    Register Flags  : 0x'' @ fmt_x 8 (unat (re_flags x)) @ newline,
        prefix @ ''    Register Address: 0x'' @ fmt_x 8 (re_address x) @ newline,
        prefix @ ''    Default Value   : ''];
     fh \<leftarrow> register_entry_print_value pr fh x;
     fh \<leftarrow> register_validator_print pr (pr fh (newline @ prefix @ ''    Validation Type : '')) (re_type x) (re_check x);
     Some (pr fh newline)
   }"

fun print_areas :: "'s fprintf_like \<Rightarrow> 's \<Rightarrow> string \<Rightarrow> 'd RegisterArea list \<Rightarrow> nat \<Rightarrow> 's option" where
  "print_areas pr fh prefix [] area = (if area < AREA_HANDLE_MAX then None else Some fh)"
| "print_areas pr fh prefix (a # as) area =
     (if area < AREA_HANDLE_MAX \<and> \<not> is_end_of_areas a
      then print_areas pr (register_area_print pr (pr fh (prefix @ ''  AreaID: '' @ fmt_u area @ newline)) prefix a) prefix as (area + 1)
      else Some fh)"

text \<open>The loop over the entries stops at the largest handle of an area.\<close>

fun print_entries :: "'s fprintf_like \<Rightarrow> 's \<Rightarrow> string \<Rightarrow> RegisterEntry list \<Rightarrow> nat \<Rightarrow> 's option" where
  "print_entries pr fh prefix [] reg = (if reg < AREA_HANDLE_MAX then None else Some fh)"
| "print_entries pr fh prefix (x # xs) reg =
     (if reg < AREA_HANDLE_MAX \<and> \<not> is_end_of_entries x
      then do {
        fh \<leftarrow> register_entry_print pr (pr fh (prefix @ ''  RegisterEntryID: '' @ fmt_u reg @ newline)) prefix x;
        print_entries pr fh prefix xs (reg + 1) }
      else Some fh)"

definition register_table_print :: "'s fprintf_like \<Rightarrow> 's \<Rightarrow> string \<Rightarrow> 'd RegisterTable \<Rightarrow> 's option" where
  "register_table_print pr fh prefix t = do {
     let is_initialised = BIT_ISSET (rt_flags t) REG_TF_INITIALISED;
     let fh = pr fh (prefix @ ''RegisterTable '');
     let fh = (if \<not> is_initialised then pr fh (''is NOT initialised!'' @ newline)
       else foldl pr fh [''is initialised.'' @ newline,
         prefix @ ''     areas: '' @ fmt_u (rt_areas t) @ newline,
         prefix @ ''   entries: '' @ fmt_u (rt_entries t) @ newline]);
     let fh = pr fh (prefix @ newline @ prefix @ ''List of Areas:'' @ newline);
     as \<leftarrow> rt_area t;
     fh \<leftarrow> print_areas pr fh prefix as 0;
     let fh = pr fh (prefix @ newline @ prefix @ ''List of Entries:'' @ newline);
     es \<leftarrow> rt_entry t;
     print_entries pr fh prefix es 0
   }"

text \<open>Where the code reads a member of the union, the result has to be in this member.\<close>

definition offending_area :: "'s fprintf_like \<Rightarrow> 's \<Rightarrow> string \<Rightarrow> RegisterInitPos \<Rightarrow> 's option" where
  "offending_area pr fh prefix pos = (case pos of
       Pos_area n \<Rightarrow> Some (pr fh (prefix @ ''First offending area: '' @ fmt_u n @ ''!'' @ newline)) | _ \<Rightarrow> None)"

definition offending_entry :: "'s fprintf_like \<Rightarrow> 's \<Rightarrow> string \<Rightarrow> RegisterInitPos \<Rightarrow> 's option" where
  "offending_entry pr fh prefix pos = (case pos of
       Pos_entry n \<Rightarrow> Some (pr fh (prefix @ ''First offending entry: '' @ fmt_u n @ ''!'' @ newline)) | _ \<Rightarrow> None)"

definition register_init_print :: "'s fprintf_like \<Rightarrow> 's \<Rightarrow> string \<Rightarrow> RegisterInit \<Rightarrow> 's option" where
  "register_init_print pr fh prefix result = (
     let fh = pr fh (prefix @ ''Register Init Code: '' @ register_initcode_to_string (init_number (ri_code result)) @ newline);
         line = (\<lambda>s. pr fh (prefix @ s @ newline)) in
     case ri_code result of
       REG_INIT_TABLE_INVALID \<Rightarrow> Some (line ''Basic Initialisation Error!'')
     | REG_INIT_NO_AREAS \<Rightarrow> Some (line ''Supplied area table is empty!'')
     | REG_INIT_TOO_MANY_AREAS \<Rightarrow> Some (line ''Supplied area table has more than AREA_HANDLE_MAX entries!'')
     | REG_INIT_AREA_INVALID_ORDER \<Rightarrow>
         offending_area pr (line ''Addresses in area table is not linear!'') prefix (ri_pos result)
     | REG_INIT_AREA_ADDRESS_OVERLAP \<Rightarrow> offending_area pr (line ''Addresses of areas overlap!'') prefix (ri_pos result)
     | REG_INIT_TOO_MANY_ENTRIES \<Rightarrow> Some (line ''Supplied entry table has more than REGISTER_HANDLE_MAX entries!'')
     | REG_INIT_ENTRY_INVALID_ORDER \<Rightarrow>
         offending_entry pr (line ''Addresses in entry table is not linear!'') prefix (ri_pos result)
     | REG_INIT_ENTRY_ADDRESS_OVERLAP \<Rightarrow> offending_entry pr (line ''Addresses of entries overlap!'') prefix (ri_pos result)
     | REG_INIT_ENTRY_IN_MEMORY_HOLE \<Rightarrow>
         offending_entry pr (line ''Memory of entry in unmapped address-space!'') prefix (ri_pos result)
     | REG_INIT_ENTRY_INVALID_DEFAULT \<Rightarrow>
         offending_entry pr (line ''Entry defines default value that does not validate!'') prefix (ri_pos result)
     | REG_INIT_SUCCESS \<Rightarrow> Some (line ''Register Table Initialisation Successful!''))"

section \<open>Any printer prints what the appending one prints\<close>

context printer
begin

definition continues :: "string \<Rightarrow> 's \<Rightarrow> string \<Rightarrow> bool" where
  "continues b s t \<longleftrightarrow> shown s = b @ t"

lemma continues_print: "continues b s t \<Longrightarrow> continues b (print s u) (t @ u)"
  by (simp add: continues_def appends)

lemma continues_calls: "continues b s t \<Longrightarrow> continues b (foldl print s us) (foldl (@) t us)"
  by (induction us arbitrary: s t) (simp_all add: continues_print)

lemma continues_if: "continues b s t \<Longrightarrow> continues b s' t' \<Longrightarrow> continues b (if c then s else s') (if c then t else t')"
  by simp

lemma value_continues:
  "continues b s t \<Longrightarrow> rel_option (continues b) (register_value_print print s v) (register_value_print (@) t v)"
  unfolding register_value_print_def by (cases "rv_type v"; cases "rv_value v") (simp_all add: continues_print)

lemma bind_continues:
  "rel_option (continues b) f f' \<Longrightarrow> (\<And>s t. continues b s t \<Longrightarrow> rel_option (continues b) (g s) (g' t)) \<Longrightarrow>
     rel_option (continues b) (Option.bind f g) (Option.bind f' g')"
  by (cases f; cases f') simp_all

lemma validator_continues:
  "continues b s t \<Longrightarrow> rel_option (continues b) (register_validator_print print s ty v) (register_validator_print (@) t ty v)"
  unfolding register_validator_print_def
  by (cases v) (auto intro!: bind_continues value_continues continues_print)

lemma area_continues: "continues b s t \<Longrightarrow> continues b (register_area_print print s prefix a) (register_area_print (@) t prefix a)"
  unfolding register_area_print_def by (rule continues_calls)

lemma entry_continues:
  "continues b s t \<Longrightarrow> rel_option (continues b) (register_entry_print print s prefix x) (register_entry_print (@) t prefix x)"
  unfolding register_entry_print_def Let_def register_entry_print_value_def
  by (intro bind_continues value_continues validator_continues continues_calls continues_print)
    (simp_all add: continues_print)

lemma areas_continue:
  "continues b s t \<Longrightarrow> rel_option (continues b) (print_areas print s prefix as n) (print_areas (@) t prefix as n)"
  by (induction "as" arbitrary: s t n) (simp_all add: area_continues continues_print)

lemma entries_continue:
  "continues b s t \<Longrightarrow> rel_option (continues b) (print_entries print s prefix xs n) (print_entries (@) t prefix xs n)"
  by (induction xs arbitrary: s t n) (auto intro!: bind_continues entry_continues continues_print)

lemma table_continues:
  "continues b s t \<Longrightarrow> rel_option (continues b) (register_table_print print s prefix tab) (register_table_print (@) t prefix tab)"
  unfolding register_table_print_def Let_def
  by (cases "rt_area tab"; cases "rt_entry tab")
    (auto intro!: bind_continues areas_continue entries_continue continues_print continues_calls continues_if split del: if_split)

end

section \<open>What a printed table lists\<close>

interpretation default_printer: printer rimpl_fprintf "\<lambda>s. s"
  by unfold_locales (simp add: rimpl_fprintf_def)

lemma rimpl_append: "rimpl_fprintf = (@)"
  by (simp add: rimpl_fprintf_def fun_eq_iff)

definition area_text :: "string \<Rightarrow> nat \<Rightarrow> 'd RegisterArea \<Rightarrow> string" where
  "area_text prefix i a = prefix @ ''  AreaID: '' @ fmt_u i @ newline @ register_area_print rimpl_fprintf [] prefix a"

definition entry_text :: "string \<Rightarrow> nat \<Rightarrow> RegisterEntry \<Rightarrow> string" where
  "entry_text prefix i x = prefix @ ''  RegisterEntryID: '' @ fmt_u i @ newline @ the (register_entry_print rimpl_fprintf [] prefix x)"

definition table_head :: "string \<Rightarrow> 'd RegisterTable \<Rightarrow> string" where
  "table_head prefix t = prefix @ ''RegisterTable '' @
     (if BIT_ISSET (rt_flags t) REG_TF_INITIALISED
      then ''is initialised.'' @ newline @ prefix @ ''     areas: '' @ fmt_u (rt_areas t) @ newline @
        prefix @ ''   entries: '' @ fmt_u (rt_entries t) @ newline
      else ''is NOT initialised!'' @ newline)"

lemma area_appends: "register_area_print (@) t prefix a = t @ register_area_print (@) [] prefix a"
  using default_printer.area_continues [of t t "[]" prefix a] by (simp add: default_printer.continues_def rimpl_append)

lemma entry_appends:
  "register_entry_print (@) [] prefix x = Some u \<Longrightarrow> register_entry_print (@) t prefix x = Some (t @ u)"
  using default_printer.entry_continues [of t t "[]" prefix x]
  by (auto simp: default_printer.continues_def rimpl_append option_rel_Some2)

lemma value_printed:
  "value_type (rv_value v) = rv_type v \<Longrightarrow> \<exists>fh'. register_value_print pr fh v = Some fh'"
  unfolding register_value_print_def by (cases "rv_value v") (auto dest: sym)

lemma entry_printed:
  assumes "check_matches x"
  shows "\<exists>fh'. register_entry_print pr fh prefix x = Some fh'"
proof -
  have "\<exists>h'. register_validator_print pr h (re_type x) (re_check x) = Some h'" for h
  proof (cases "re_check x")
    case (REGV_TYPE_RANGE lo hi)
    then have "\<exists>h'. register_value_print pr h \<lparr>rv_type = re_type x, rv_value = v\<rparr> = Some h'" if "v = lo \<or> v = hi" for h v
      using assms that by (intro value_printed) (auto simp: check_matches_def)
    then show ?thesis
      unfolding register_validator_print_def REGV_TYPE_RANGE
      by (simp) (metis Option.bind.bind_lunit)
  next
    case (REGV_TYPE_MIN v)
    then have "\<exists>h'. register_value_print pr h \<lparr>rv_type = re_type x, rv_value = v\<rparr> = Some h'" for h
      using assms by (intro value_printed) (auto simp: check_matches_def)
    then show ?thesis
      unfolding register_validator_print_def REGV_TYPE_MIN by (simp) (metis Option.bind.bind_lunit)
  next
    case (REGV_TYPE_MAX v)
    then have "\<exists>h'. register_value_print pr h \<lparr>rv_type = re_type x, rv_value = v\<rparr> = Some h'" for h
      using assms by (intro value_printed) (auto simp: check_matches_def)
    then show ?thesis
      unfolding register_validator_print_def REGV_TYPE_MAX by (simp) (metis Option.bind.bind_lunit)
  qed (simp_all add: register_validator_print_def)
  moreover have "\<exists>h'. register_value_print pr h \<lparr>rv_type = re_type x, rv_value = re_default x\<rparr> = Some h'" for h
    using assms by (intro value_printed) (simp add: check_matches_def)
  ultimately show ?thesis
    unfolding register_entry_print_def register_entry_print_value_def Let_def by (metis Option.bind.bind_lunit)
qed

lemma areas_listed:
  assumes "\<And>a. a \<in> set as \<Longrightarrow> \<not> is_end_of_areas a" "is_end_of_areas z"
  shows "print_areas (@) t prefix (as @ z # zs) n =
     Some (t @ concat (map2 (area_text prefix) [n ..< n + length as] (take (AREA_HANDLE_MAX - n) as)))"
  using assms(1)
proof (induction "as" arbitrary: t n)
  case Nil
  then show ?case
    using assms(2) by simp
next
  case (Cons a as)
  show ?case
  proof (cases "n < AREA_HANDLE_MAX")
    case True
    then have "AREA_HANDLE_MAX - n = Suc (AREA_HANDLE_MAX - Suc n)"
      by simp
    moreover have "[n ..< n + length (a # as)] = n # [Suc n ..< Suc n + length as]"
      by (simp add: upt_conv_Cons del: upt_Suc)
    ultimately show ?thesis
      using True Cons.prems Cons.IH [of "register_area_print (@) (t @ prefix @ ''  AreaID: '' @ fmt_u n @ newline) prefix a" "Suc n"]
      by (simp add: area_appends [of "t @ _"] area_text_def rimpl_append)
  qed simp
qed

lemma entries_listed:
  assumes "\<And>x. x \<in> set xs \<Longrightarrow> \<not> is_end_of_entries x \<and> check_matches x" "is_end_of_entries z"
  shows "print_entries (@) t prefix (xs @ z # zs) n =
     Some (t @ concat (map2 (entry_text prefix) [n ..< n + length xs] (take (AREA_HANDLE_MAX - n) xs)))"
  using assms(1)
proof (induction xs arbitrary: t n)
  case Nil
  then show ?case
    using assms(2) by simp
next
  case (Cons x xs)
  show ?case
  proof (cases "n < AREA_HANDLE_MAX")
    case True
    then have max: "AREA_HANDLE_MAX - n = Suc (AREA_HANDLE_MAX - Suc n)"
      by simp
    have range: "[n ..< n + length (x # xs)] = n # [Suc n ..< Suc n + length xs]"
      by (simp add: upt_conv_Cons del: upt_Suc)
    obtain u where u: "register_entry_print (@) [] prefix x = Some u"
      using entry_printed [of x "(@)" "[]" prefix] Cons.prems by auto
    show ?thesis
      unfolding range max
      using True Cons.prems Cons.IH [of "(t @ prefix @ ''  RegisterEntryID: '' @ fmt_u n @ newline) @ u" "Suc n"] entry_appends [OF u]
      by (simp add: entry_text_def rimpl_append u)
  qed simp
qed

section \<open>Values that print alike\<close>

definition read_decimal :: "string \<Rightarrow> int" where
  "read_decimal s = (if hd s = CHR ''-'' then - int (number_read 10 (tl s)) else int (number_read 10 s))"

definition read_bracket :: "string \<Rightarrow> nat" where
  "read_bracket s = number_read 10 (takeWhile (\<lambda>c. c \<noteq> CHR '';'') (tl s))"

lemma number_text_chars: "c \<in> set (number_text 10 k) \<Longrightarrow> c \<notin> {CHR ''-'', CHR '';''}" "number_text 10 k \<noteq> []"
proof -
  assume "c \<in> set (number_text 10 k)"
  moreover have "d < length digit_names" if "d \<in> set (digits 10 k)" for d
    using digits_small [OF _ that] by (simp add: digit_names_def)
  ultimately have "c \<in> set digit_names"
    by (auto simp: number_text_def)
  then show "c \<notin> {CHR ''-'', CHR '';''}"
    by (auto simp: digit_names_def)
next
  show "number_text 10 k \<noteq> []"
    by (subst number_text_def, subst digits.simps) simp
qed

lemma read_decimal: "read_decimal (fmt_d i) = i"
proof -
  have "hd (number_text 10 k) \<noteq> CHR ''-''" for k
    using number_text_chars(1) [OF hd_in_set [OF number_text_chars(2)], of k] by auto
  then show ?thesis
    by (simp add: read_decimal_def fmt_d_def number_read_text)
qed

lemma read_bracket: "read_bracket (CHR ''['' # fmt_u n @ CHR '';'' # r) = n"
proof -
  have "takeWhile (\<lambda>c. c \<noteq> CHR '';'') (fmt_u n @ CHR '';'' # r) = fmt_u n"
    using number_text_chars(1) [of _ n] by (subst takeWhile_append2) (auto simp: fmt_u_def)
  then show ?thesis
    by (simp add: read_bracket_def) (simp add: fmt_u_def number_read_text)
qed

text \<open>Values of the same integer type print alike only when they are equal.\<close>

lemma values_print_apart:
  assumes "value_type (rv_value v) = rv_type v" "value_type (rv_value w) = rv_type w" "rv_type v = rv_type w"
    and "rv_type v \<notin> {REG_TYPE_FLOAT32, REG_TYPE_FLOAT64}"
    and "register_value_print rimpl_fprintf [] v = register_value_print rimpl_fprintf [] w"
  shows "v = w"
proof -
  let ?print = "register_value_print rimpl_fprintf []"
  have decimal: "fmt_d i = fmt_d j \<Longrightarrow> i = j" for i j
    by (metis read_decimal)
  have bracket: "fmt_u m @ CHR '';'' # r = fmt_u n @ CHR '';'' # r' \<Longrightarrow> m = n" for m n r r'
    by (metis read_bracket)
  have "rv_value v = rv_value w"
  proof (cases "rv_value v")
    case (U16 x)
    with assms(1-3) obtain y where "rv_value w = U16 y" "rv_type v = REG_TYPE_UINT16" "rv_type w = REG_TYPE_UINT16"
      by (cases "rv_value w") auto
    with U16 assms(5) show ?thesis
      by (auto simp: register_value_print_def rimpl_append dest: bracket intro: unsigned_word_eqI)
  next
    case (U32 x)
    with assms(1-3) obtain y where "rv_value w = U32 y" "rv_type v = REG_TYPE_UINT32" "rv_type w = REG_TYPE_UINT32"
      by (cases "rv_value w") auto
    with U32 assms(5) show ?thesis
      by (auto simp: register_value_print_def rimpl_append dest: bracket intro: unsigned_word_eqI)
  next
    case (U64 x)
    with assms(1-3) obtain y where "rv_value w = U64 y" "rv_type v = REG_TYPE_UINT64" "rv_type w = REG_TYPE_UINT64"
      by (cases "rv_value w") auto
    with U64 assms(5) show ?thesis
      by (auto simp: register_value_print_def rimpl_append dest: bracket intro: unsigned_word_eqI)
  next
    case (S16 x)
    with assms(1-3) obtain y where "rv_value w = S16 y" "rv_type v = REG_TYPE_SINT16" "rv_type w = REG_TYPE_SINT16"
      by (cases "rv_value w") auto
    with S16 assms(5) show ?thesis
      by (auto simp: register_value_print_def rimpl_append dest: decimal intro: signed_word_eqI)
  next
    case (S32 x)
    with assms(1-3) obtain y where "rv_value w = S32 y" "rv_type v = REG_TYPE_SINT32" "rv_type w = REG_TYPE_SINT32"
      by (cases "rv_value w") auto
    with S32 assms(5) show ?thesis
      by (auto simp: register_value_print_def rimpl_append dest: decimal intro: signed_word_eqI)
  next
    case (S64 x)
    with assms(1-3) obtain y where "rv_value w = S64 y" "rv_type v = REG_TYPE_SINT64" "rv_type w = REG_TYPE_SINT64"
      by (cases "rv_value w") auto
    with S64 assms(5) show ?thesis
      by (auto simp: register_value_print_def rimpl_append dest: decimal intro: signed_word_eqI)
  qed (use assms(1,4) in auto)
  with assms(3) show ?thesis
    by (simp add: RegisterValue.equality)
qed

section \<open>Names of codes\<close>

lemma names_apart:
  "distinct (map register_initcode_to_string [0 ..< 11])" "distinct (map register_registertype_to_string [0 ..< 8])"
  "distinct (map register_validatortype_to_string [0 ..< 6])" "distinct (map register_accesscode_to_string [0 ..< 7])"
  by code_simp+

text \<open>The last code of the enumeration of access results is beyond the limit, and so is the invalid type.\<close>

lemma unnamed_codes:
  "register_accesscode_to_string (access_number REG_ACCESS_IO_ERROR) = ''<INVALID-REGISTER-ACCESS-CODE>''"
  "register_registertype_to_string (type_number REG_TYPE_INVALID) = ''<INVALID-REGISTER-TYPE>''"
  by (simp_all add: register_accesscode_to_string_def REG_ACCESS_CODE_MAXIDX_def register_registertype_to_string_def REG_TYPE_MAXIDX_def)

section \<open>Properties\<close>

text \<open>C37. What a printed table lists. Printing a table whose areas and entries are ended by their markers, with entries whose
  default and limits are of their type, through any printing function that appends the text it is given, has a result:
  the state of the table, then every area in order with its number, then the first 65535 entries in order with theirs.
  The entries beyond are left out, although a table may have 4294967294 of them.\<close>

theorem register_table_print_lists:
  assumes "\<And>s u. shown (pr s u) = shown s @ u"
    and "rt_area t = Some (as @ z # zs)" and "\<And>a. a \<in> set as \<Longrightarrow> \<not> is_end_of_areas a" and "is_end_of_areas z"
    and "length as \<le> AREA_HANDLE_MAX"
    and "rt_entry t = Some (es @ y # ys)" and "\<And>x. x \<in> set es \<Longrightarrow> \<not> is_end_of_entries x \<and> check_matches x" and "is_end_of_entries y"
  shows "\<exists>fh'. register_table_print pr fh prefix t = Some fh' \<and>
     shown fh' = shown fh @ table_head prefix t @ prefix @ newline @ prefix @ ''List of Areas:'' @ newline @
       concat (map2 (area_text prefix) [0 ..< length as] as) @ prefix @ newline @ prefix @ ''List of Entries:'' @ newline @
       concat (map2 (entry_text prefix) [0 ..< length es] (take 65535 es))"
proof -
  have printer: "printer pr shown"
    using assms(1) by unfold_locales
  let ?u = "table_head prefix t @ prefix @ newline @ prefix @ ''List of Areas:'' @ newline @
       concat (map2 (area_text prefix) [0 ..< length as] as) @ prefix @ newline @ prefix @ ''List of Entries:'' @ newline @
       concat (map2 (entry_text prefix) [0 ..< length es] (take 65535 es))"
  have "register_table_print (@) [] prefix t = Some ?u"
    using areas_listed [OF assms(3,4), where n = 0] entries_listed [OF assms(7,8), where n = 0] assms(2,5,6)
    by (simp add: register_table_print_def Let_def table_head_def) (simp add: AREA_HANDLE_MAX_def)
  moreover have "rel_option (printer.continues shown (shown fh)) (register_table_print pr fh prefix t) (register_table_print (@) [] prefix t)"
    by (rule printer.table_continues [OF printer]) (simp add: printer.continues_def [OF printer])
  ultimately show ?thesis
    by (auto simp: option_rel_Some2 printer.continues_def [OF printer])
qed

definition sample_printed :: "unit RegisterTable" where
  "sample_printed = \<lparr>rt_flags = 0, rt_areas = 0, rt_area = Some [MEMORY_AREA 256 16, REGISTER_AREA_END], rt_entries = 0,
     rt_entry = Some [snd (REG_U16RANGE 0 256 1 10 5), snd (REG_S32 1 258 7), snd REGISTER_ENTRY_END], rt_world = ()\<rparr>"

theorem register_table_print_lists_witness:
  "\<exists>fh'. register_table_print rimpl_fprintf ''>'' ''# '' sample_printed = Some fh' \<and>
     fh' = ''># RegisterTable is NOT initialised!'' @ newline @ ''# '' @ newline @ ''# List of Areas:'' @ newline @
       area_text ''# '' 0 (MEMORY_AREA 256 16 :: unit RegisterArea) @ ''# '' @ newline @ ''# List of Entries:'' @ newline @
       entry_text ''# '' 0 (snd (REG_U16RANGE 0 256 1 10 5)) @ entry_text ''# '' 1 (snd (REG_S32 1 258 7))"
proof -
  have area: "\<not> is_end_of_areas (MEMORY_AREA 256 16 :: unit RegisterArea)" "is_end_of_areas (REGISTER_AREA_END :: unit RegisterArea)"
    by (simp_all add: area_defs is_end_of_areas_def)
  have entry: "\<not> is_end_of_entries (snd (REG_U16RANGE 0 256 1 10 5)) \<and> check_matches (snd (REG_U16RANGE 0 256 1 10 5))"
    "\<not> is_end_of_entries (snd (REG_S32 1 258 7)) \<and> check_matches (snd (REG_S32 1 258 7))" "is_end_of_entries (snd REGISTER_ENTRY_END)"
    by (simp_all add: REG_U16RANGE_def REG_S32_def REGISTER_ENTRY_END_def make_defs is_end_of_entries_def check_matches_def)
  have all: "\<not> is_end_of_entries x \<and> check_matches x" if "x \<in> set [snd (REG_U16RANGE 0 256 1 10 5), snd (REG_S32 1 258 7)]" for x
    using that entry by auto
  have some: "\<not> is_end_of_areas a" if "a \<in> set [MEMORY_AREA 256 16 :: unit RegisterArea]" for a
    using that area by simp
  show ?thesis
    using register_table_print_lists [of "\<lambda>s. s" rimpl_fprintf sample_printed "[MEMORY_AREA 256 16]" REGISTER_AREA_END "[]"
        "[snd (REG_U16RANGE 0 256 1 10 5), snd (REG_S32 1 258 7)]" "snd REGISTER_ENTRY_END" "[]" "''>''" "''# ''", OF _ _ some area(2) _ _ all entry(3)]
    by (simp add: sample_printed_def rimpl_append AREA_HANDLE_MAX_def table_head_def BIT_ISSET_def REG_TF_INITIALISED_def upt_rec)
qed

end
