(* ===== verification/Register_Shell.thy ===== *)
theory Register_Shell
  imports Register_Utilities
begin

text \<open>
  The command \<open>regshow\<close> for the shell of the Zephyr kernel: \<^verbatim>\<open>src/z/shell-addons.c\<close>. The kernel's \<open>shell_vfprintf\<close>, for
  its normal style, is the parameter \<open>vf\<close>; \<open>pr\<close> is the function that the register utilities print with, which the
  initialisation sets to the former. The type \<open>long int\<close> reaches from \<open>- lmax - 1\<close> to \<open>lmax\<close>. The lemmas show what a range
  of registers looks like, which arguments are refused, and that handles are cut down to 32 bits.
\<close>

section \<open>Reading arguments\<close>

definition is_space :: "char \<Rightarrow> bool" where
  "is_space c \<longleftrightarrow> c \<in> {CHR '' '', CHR 0x09, CHR 0x0A, CHR 0x0B, CHR 0x0C, CHR 0x0D}"

definition is_digit :: "char \<Rightarrow> bool" where
  "is_digit c \<longleftrightarrow> c \<in> set (take 10 digit_names)"

definition strtol10 :: "int \<Rightarrow> string \<Rightarrow> int" where
  "strtol10 lmax s =
     (let s = dropWhile is_space s;
          number = (\<lambda>s. int (number_read 10 (takeWhile is_digit s)))
      in case s of
           [] \<Rightarrow> 0
         | c # r \<Rightarrow> if c = CHR ''-'' then max (- lmax - 1) (- number r)
                   else if c = CHR ''+'' then min lmax (number r)
                   else min lmax (number s))"

definition long_of :: "int \<Rightarrow> u32 \<Rightarrow> int" where
  "long_of lmax h = (if uint h \<le> lmax then uint h else uint h - 2 * (lmax + 1))"

section \<open>The command\<close>

definition ufw_shell_fprintf :: "'s fprintf_like \<Rightarrow> 's fprintf_like" where
  "ufw_shell_fprintf vf dst text' = vf dst text'"

definition ufw_shell_addons_init :: "'s fprintf_like \<Rightarrow> 's fprintf_like \<Rightarrow> int \<times> 's fprintf_like" where
  "ufw_shell_addons_init vf r_fprintf = (0, register_set_printer r_fprintf (ufw_shell_fprintf vf))"

definition ufw_shell_reg_init :: "'d RegisterTable option \<Rightarrow> 'd RegisterTable option \<Rightarrow> 'd RegisterTable option" where
  "ufw_shell_reg_init table t = t"

definition outofrange :: "'s fprintf_like \<Rightarrow> 's \<Rightarrow> int \<Rightarrow> 's" where
  "outofrange vf shell n = ufw_shell_fprintf vf shell (''Argument out of range: '' @ fmt_d n @ newline)"

definition print_by_handle ::
    "int \<Rightarrow> 's fprintf_like \<Rightarrow> 's fprintf_like \<Rightarrow> 'd RegisterTable \<Rightarrow> 's \<Rightarrow> u32 \<Rightarrow> (int \<times> 's) option" where
  "print_by_handle lmax vf pr table shell h = (case register_get_entry table (unat h) of
       None \<Rightarrow> Some (-1, outofrange vf shell (long_of lmax h))
     | Some r \<Rightarrow> do {
         x \<leftarrow> entry_at table r;
         let shell = ufw_shell_fprintf vf shell (''  RegisterEntryID: '' @ fmt_u (unat h) @ newline);
         shell \<leftarrow> register_entry_print pr shell '''' x;
         Some (0, shell)
       })"

text \<open>What an uninitialised object of type \<open>RegisterValue\<close> holds is the parameter \<open>val\<close>.\<close>

definition print_current ::
    "endianness \<Rightarrow> RegisterValue \<Rightarrow> 's fprintf_like \<Rightarrow> 's fprintf_like \<Rightarrow> 'd RegisterTable \<Rightarrow> 's \<Rightarrow> u32 \<Rightarrow> ('s \<times> 'd RegisterTable) option" where
  "print_current e val vf pr table shell h = do {
     (rv, val, table) \<leftarrow> register_get e table (unat h) val;
     if ac_code rv \<noteq> REG_ACCESS_SUCCESS
     then Some (ufw_shell_fprintf vf shell (''register_get(): '' @ fmt_d (int (access_number (ac_code rv))) @ '', '' @
                  register_accesscode_to_string (access_number (ac_code rv)) @ newline), table)
     else do {
       shell \<leftarrow> register_value_print pr (ufw_shell_fprintf vf shell ''    Current Value   : '') val;
       Some (ufw_shell_fprintf vf shell newline, table)
     }
   }"

definition print_with_current ::
    "int \<Rightarrow> endianness \<Rightarrow> RegisterValue \<Rightarrow> 's fprintf_like \<Rightarrow> 's fprintf_like \<Rightarrow> 'd RegisterTable \<Rightarrow> 's \<Rightarrow> int
       \<Rightarrow> (int \<times> 's \<times> 'd RegisterTable) option" where
  "print_with_current lmax e val vf pr table shell reg = do {
     (rc, shell) \<leftarrow> print_by_handle lmax vf pr table shell (word_of_int reg);
     if rc = 0 then do {
       (shell, table) \<leftarrow> print_current e val vf pr table shell (word_of_int reg);
       Some (0, shell, table) }
     else Some (-1, shell, table)
   }"

text \<open>Counting beyond the largest number of the type has no result.\<close>

function print_handles ::
    "int \<Rightarrow> endianness \<Rightarrow> RegisterValue \<Rightarrow> 's fprintf_like \<Rightarrow> 's fprintf_like \<Rightarrow> int \<Rightarrow> int \<Rightarrow> 'd RegisterTable \<Rightarrow> 's
       \<Rightarrow> (int \<times> 's \<times> 'd RegisterTable) option" where
  "print_handles lmax e val vf pr i stop table shell =
     (if i \<le> stop then
        (case print_with_current lmax e val vf pr table shell i of
           None \<Rightarrow> None
         | Some (rc, shell, table) \<Rightarrow>
             if rc < 0 then Some (-1, shell, table)
             else if i < lmax then print_handles lmax e val vf pr (i + 1) stop table shell else None)
      else Some (0, shell, table))"
  by auto
termination
  by (relation "measure (\<lambda>(_, _, _, _, _, i, stop, _). nat (stop + 1 - i))") auto

declare print_handles.simps [simp del]

definition print_range ::
    "int \<Rightarrow> endianness \<Rightarrow> RegisterValue \<Rightarrow> 's fprintf_like \<Rightarrow> 's fprintf_like \<Rightarrow> 'd RegisterTable \<Rightarrow> 's \<Rightarrow> string \<Rightarrow> string
       \<Rightarrow> (int \<times> 's \<times> 'd RegisterTable) option" where
  "print_range lmax e val vf pr table shell from' to' =
     (let start = strtol10 lmax from'; stop = strtol10 lmax to' in
      if start < 0 then Some (-1, outofrange vf shell start, table)
      else if start > stop then
        Some (-1, ufw_shell_fprintf vf shell (''Start parameter must be <= End parameter.'' @ newline), table)
      else print_handles lmax e val vf pr start stop table shell)"

definition want_help :: "nat \<Rightarrow> string \<Rightarrow> bool" where
  "want_help argc arg \<longleftrightarrow> argc = 2 \<and> (arg = ''--usage'' \<or> arg = ''-u'')"

definition regshow_usage :: "'s fprintf_like \<Rightarrow> 's \<Rightarrow> 's" where
  "regshow_usage vf shell = ufw_shell_fprintf vf
     (ufw_shell_fprintf vf shell (''usage: regshow '' @ ''[HANDLE : Integer] '' @ ''[HANDLE : Integer]'' @ newline @ newline))
     (''When called with a single integer argument, it will print the'' @ newline @
      ''referenced register's specification and also reach into storage'' @ newline @
      ''to reveal its current value.'' @ newline @ newline @
      ''When called with two integer arguments, the command prints the'' @ newline @
      ''same information as it would with one When called with two integer'' @ newline @
      ''arguments, the command prints the same information as with one ar-'' @ newline @
      ''gument, but for all the register within the range if register IDs,'' @ newline @
      ''including the range boundaries.'' @ newline)"

text \<open>The vector of arguments ends in a null pointer, so that its second element exists when there is at least one argument.\<close>

definition ufw_shell_regshow ::
    "int \<Rightarrow> endianness \<Rightarrow> RegisterValue \<Rightarrow> 's fprintf_like \<Rightarrow> 's fprintf_like \<Rightarrow> 'd RegisterTable option \<Rightarrow> 's \<Rightarrow> string list
       \<Rightarrow> ('s \<times> 'd RegisterTable option) option" where
  "ufw_shell_regshow lmax e val vf pr table shell argv =
     (let range = (\<lambda>t a b. map_option (\<lambda>(_, shell, t). (shell, Some t)) (print_range lmax e val vf pr t shell a b)) in
      if argv = [] then None
      else if 1 < length argv \<and> want_help (length argv) (argv ! 1) then Some (regshow_usage vf shell, table)
      else case table of
          None \<Rightarrow> Some (ufw_shell_fprintf vf shell (''No register table found.'' @ newline), None)
        | Some t \<Rightarrow>
            if length argv = 1 then map_option (\<lambda>shell. (shell, Some t)) (register_table_print pr shell '''' t)
            else if length argv = 2 then range t (argv ! 1) (argv ! 1)
            else if length argv = 3 then range t (argv ! 1) (argv ! 2)
            else Some (regshow_usage vf shell, table))"

lemmas shell_defs = ufw_shell_fprintf_def outofrange_def print_by_handle_def print_current_def print_with_current_def

section \<open>Arguments\<close>

lemma number_text_head:
  "\<exists>c r. number_text 10 n = c # r \<and> is_digit c" "takeWhile is_digit (number_text 10 n) = number_text 10 n"
proof -
  have all: "is_digit c" if c: "c \<in> set (number_text 10 n)" for c
  proof -
    obtain d where d: "d \<in> set (digits 10 n)" "c = digit_names ! d"
      using c by (auto simp: number_text_def)
    then have "c = take 10 digit_names ! d" "d < length (take 10 digit_names)"
      using digits_small [of 10 d n] by simp_all (simp add: digit_names_def)
    then show ?thesis
      unfolding is_digit_def by (metis nth_mem)
  qed
  then show "takeWhile is_digit (number_text 10 n) = number_text 10 n"
    by simp
  show "\<exists>c r. number_text 10 n = c # r \<and> is_digit c"
    using all number_text_chars(2) [of n] by (cases "number_text 10 n") auto
qed

lemma digit_apart: "is_digit c \<Longrightarrow> \<not> is_space c \<and> c \<noteq> CHR ''-'' \<and> c \<noteq> CHR ''+''"
  by (auto simp: is_digit_def is_space_def digit_names_def)

lemma space_not_minus: "\<not> is_space (CHR ''-'')"
  by (simp add: is_space_def)

text \<open>An argument that is a decimal number stands for this number, as far as the type can hold it.\<close>

lemma strtol_decimal: "strtol10 lmax (fmt_d i) = (if i < 0 then max (- lmax - 1) i else min lmax i)"
proof (cases "i < 0")
  case True
  then show ?thesis
    by (simp add: strtol10_def fmt_d_def space_not_minus number_text_head(2) number_read_text)
next
  case False
  obtain c r where "number_text 10 (nat i) = c # r" "is_digit c"
    using number_text_head(1) by blast
  then have "strtol10 lmax (c # r) = min lmax (int (number_read 10 (takeWhile is_digit (c # r))))"
    using digit_apart [of c] by (simp add: strtol10_def Let_def)
  with False \<open>number_text 10 (nat i) = c # r\<close> number_text_head(2) [of "nat i"] number_read_text [of 10 "nat i"] show ?thesis
    by (simp add: fmt_d_def)
qed

lemma strtol_unsigned: "strtol10 lmax (fmt_u n) = min lmax (int n)"
  using strtol_decimal [of lmax "int n"] by (simp add: fmt_d_def fmt_u_def)

section \<open>What the command prints\<close>

text \<open>A register and its value.\<close>

definition handle_text :: "nat \<Rightarrow> RegisterEntry \<Rightarrow> RegisterValue \<Rightarrow> string" where
  "handle_text h x v = entry_text '''' h x @ ''    Current Value   : '' @ the (register_value_print rimpl_fprintf [] v) @ newline"

context printer
begin

lemma entry_shown:
  assumes "check_matches x"
  shows "\<exists>s'. register_entry_print print s prefix x = Some s' \<and>
    shown s' = shown s @ the (register_entry_print rimpl_fprintf [] prefix x)"
  using entry_continues [of "shown s" s "[]" prefix x] entry_printed [OF assms, of print s prefix]
  by (auto simp: continues_def rimpl_append option_rel_Some1)

lemma value_shown:
  assumes "value_type (rv_value v) = rv_type v"
  shows "\<exists>s'. register_value_print print s v = Some s' \<and> shown s' = shown s @ the (register_value_print rimpl_fprintf [] v)"
  using value_continues [of "shown s" s "[]" v] value_printed [OF assms, of print s]
  by (auto simp: continues_def rimpl_append option_rel_Some1)

lemma handle_shown:
  assumes "h < rt_entries t" "h < 2 ^ 32" "entry_at t h = Some x" "check_matches x"
    and "register_get e t h val = Some (rv, v, t)" "ac_code rv = REG_ACCESS_SUCCESS" "value_type (rv_value v) = rv_type v"
  shows "\<exists>s'. print_with_current lmax e val print print t s (int h) = Some (0, s', t) \<and> shown s' = shown s @ handle_text h x v"
proof -
  have h: "unat (word_of_int (int h) :: u32) = h"
    using assms(2) by (simp add: unat_of_nat take_bit_eq_mod)
  let ?s = "print s (''  RegisterEntryID: '' @ fmt_u h @ newline)"
  obtain s1 where s1: "register_entry_print print ?s '''' x = Some s1"
    "shown s1 = shown ?s @ the (register_entry_print rimpl_fprintf [] '''' x)"
    using entry_shown [OF assms(4)] by blast
  obtain s2 where s2: "register_value_print print (print s1 ''    Current Value   : '') v = Some s2"
    "shown s2 = shown (print s1 ''    Current Value   : '') @ the (register_value_print rimpl_fprintf [] v)"
    using value_shown [OF assms(7)] by blast
  show ?thesis
    using assms(1,3,5,6) s1 s2
    by (simp add: shell_defs register_get_entry_def h appends handle_text_def entry_text_def del: of_int_of_nat_eq)
qed

lemma handles_shown:
  assumes "b + n < lmax"
    and "\<And>h. b \<le> h \<Longrightarrow> h < b + n \<Longrightarrow>
      h < rt_entries t \<and> h < 2 ^ 32 \<and> entry_at t h = Some (x h) \<and> check_matches (x h) \<and>
      (\<exists>rv. register_get e t h val = Some (rv, v h, t) \<and> ac_code rv = REG_ACCESS_SUCCESS) \<and> value_type (rv_value (v h)) = rv_type (v h)"
  shows "\<exists>s'. print_handles (int lmax) e val print print (int b) (int (b + n) - 1) t s = Some (0, s', t) \<and>
    shown s' = shown s @ concat (map (\<lambda>h. handle_text h (x h) (v h)) [b ..< b + n])"
  using assms
proof (induction n arbitrary: b s)
  case 0
  then show ?case
    by (simp add: print_handles.simps)
next
  case (Suc n)
  obtain s1 where s1: "print_with_current (int lmax) e val print print t s (int b) = Some (0, s1, t)"
    "shown s1 = shown s @ handle_text b (x b) (v b)"
    using Suc.prems(2) [of b] handle_shown [of b t "x b" e val _ "v b" "int lmax" s] by fastforce
  have "\<exists>s'. print_handles (int lmax) e val print print (int (Suc b)) (int (Suc b + n) - 1) t s1 = Some (0, s', t) \<and>
    shown s' = shown s1 @ concat (map (\<lambda>h. handle_text h (x h) (v h)) [Suc b ..< Suc b + n])"
    using Suc.prems by (intro Suc.IH) auto
  moreover have "[b ..< b + Suc n] = b # [Suc b ..< Suc b + n]"
    by (simp add: upt_conv_Cons del: upt_Suc)
  ultimately show ?case
    using s1 Suc.prems(1) by (subst print_handles.simps) (auto simp add: algebra_simps simp del: upt_Suc)
qed

text \<open>The command with the first and the last handle of a range shows every register of it, each with its value.\<close>

lemma regshow_range:
  assumes "b + n < lmax" "0 < n"
    and "\<And>h. b \<le> h \<Longrightarrow> h < b + n \<Longrightarrow>
      h < rt_entries t \<and> h < 2 ^ 32 \<and> entry_at t h = Some (x h) \<and> check_matches (x h) \<and>
      (\<exists>rv. register_get e t h val = Some (rv, v h, t) \<and> ac_code rv = REG_ACCESS_SUCCESS) \<and> value_type (rv_value (v h)) = rv_type (v h)"
  shows "\<exists>s'. ufw_shell_regshow (int lmax) e val print print (Some t) s [''regshow'', fmt_u b, fmt_u (b + n - 1)] = Some (s', Some t) \<and>
    shown s' = shown s @ concat (map (\<lambda>h. handle_text h (x h) (v h)) [b ..< b + n])"
proof -
  have "int (b + n - 1) = int (b + n) - 1"
    using assms(2) by simp
  then have "strtol10 (int lmax) (fmt_u b) = int b" "strtol10 (int lmax) (fmt_u (b + n - 1)) = int (b + n) - 1"
    using assms(1) by (simp_all add: strtol_unsigned)
  then have "print_range (int lmax) e val print print t s (fmt_u b) (fmt_u (b + n - 1)) =
      print_handles (int lmax) e val print print (int b) (int (b + n) - 1) t s"
    using assms(2) by (simp add: print_range_def Let_def)
  with handles_shown [OF assms(1,3), of s] show ?thesis
    by (auto simp: ufw_shell_regshow_def want_help_def)
qed

end

section \<open>Arguments that name no register\<close>

lemma regshow_negative:
  assumes "i < 0" "- lmax \<le> i"
  shows "ufw_shell_regshow lmax e val vf pr (Some t) s [c, fmt_d i] =
    Some (vf s (''Argument out of range: '' @ fmt_d i @ newline), Some t)"
proof -
  have "\<not> want_help 2 (fmt_d i)"
    using number_text_head(1) [of "nat (- i)"] assms by (auto simp: want_help_def fmt_d_def is_digit_def digit_names_def)
  then have "\<not> want_help (Suc (Suc 0)) (fmt_d i)"
    by (simp add: numeral_2_eq_2)
  moreover have "strtol10 lmax (fmt_d i) = i"
    using assms by (simp add: strtol_decimal)
  ultimately show ?thesis
    using assms by (simp add: ufw_shell_regshow_def print_range_def Let_def shell_defs)
qed

lemma regshow_no_entry:
  assumes "rt_entries t \<le> h" "h < 2 ^ 32" "int h \<le> lmax"
  shows "print_with_current lmax e val vf pr t s (int h) = Some (-1, vf s (''Argument out of range: '' @ fmt_d (int h) @ newline), t)"
proof -
  have h: "unat (word_of_int (int h) :: u32) = h"
    using assms(2) by (simp add: unat_of_nat take_bit_eq_mod)
  then have "uint (word_of_int (int h) :: u32) = int h"
    by (metis uint_nat)
  then show ?thesis
    using assms(1,3) h by (simp add: shell_defs register_get_entry_def long_of_def del: of_int_of_nat_eq)
qed

text \<open>A handle is cut down to 32 bits, so that the number of no register shows another one.\<close>

lemma handles_wrap:
  "print_with_current lmax e val vf pr t s (int h + 2 ^ 32) = print_with_current lmax e val vf pr t s (int h)"
proof -
  have wrap: "(word_of_int (int h + 2 ^ 32) :: u32) = word_of_int (int h)"
    by (simp add: word_of_int_eq_iff take_bit_eq_mod)
  show ?thesis
    unfolding print_with_current_def wrap ..
qed

lemma regshow_not_found: "ufw_shell_regshow lmax e val vf pr None s [c] = Some (vf s (''No register table found.'' @ newline), None)"
  by (simp add: ufw_shell_regshow_def shell_defs)

end
