(* ===== verification/Versioned_Persistence.thy ===== *)
theory Versioned_Persistence
  imports Endpoint_Core Binary_Format Crc16
begin

text \<open>
  Persistent memory with version information: \<^verbatim>\<open>src/vp/core.c\<close>, \<^verbatim>\<open>src/vp/internal.c\<close>, \<^verbatim>\<open>src/vp/internal.h\<close>
  and \<^verbatim>\<open>include/ufw/versioned-persistence.h\<close>. A section of a storage peripheral begins with a meta block of four
  16-bit words in the order of the machine, the checksum of the block, version, length and checksum of the payload;
  the payload follows. \<open>e\<close> is the octet order of the machine.

  The source and the sink of an instance reach the same peripheral: their drivers are one state, \<open>vp_medium\<close>, that
  both are given and both return. The macro \<open>maybe\<close>, which leaves the function with a negative result, is a
  combinator of calls that return a number and the changed instance.

  The locale \<open>storage\<close> says what is relied on of a peripheral: seeking moves a read and a write position, reading and
  writing move them on and transfer at least one octet when what is asked for lies within the memory.
\<close>

section \<open>Data types\<close>

definition VP_CHKSUM_MAX :: u16 where "VP_CHKSUM_MAX = 0xffff"

definition VP_SIZE_META :: nat where "VP_SIZE_META = (2 * 2) + 2 + 2"
definition VP_OFFSET_HEADER_CHKSUM :: nat where "VP_OFFSET_HEADER_CHKSUM = 0"
definition VP_OFFSET_VERSION :: nat where "VP_OFFSET_VERSION = VP_OFFSET_HEADER_CHKSUM + 2"
definition VP_OFFSET_LENGTH :: nat where "VP_OFFSET_LENGTH = VP_OFFSET_VERSION + 2"
definition VP_OFFSET_PAYLOAD_CHKSUM :: nat where "VP_OFFSET_PAYLOAD_CHKSUM = VP_OFFSET_LENGTH + 2"

definition VP_STATE_META_CACHE_ACTIVE :: u32 where "VP_STATE_META_CACHE_ACTIVE = BIT 0"
definition VP_STATE_META_CACHE_FROM_STORAGE :: u32 where "VP_STATE_META_CACHE_FROM_STORAGE = BIT 1"
definition VP_STATE_META_CONSISTENT :: u32 where "VP_STATE_META_CONSISTENT = BIT 2"
definition VP_STATE_PAYLOAD_CONSISTENT :: u32 where "VP_STATE_PAYLOAD_CONSISTENT = BIT 3"
definition VP_STATE_PAYLOAD_COMPATIBLE :: u32 where "VP_STATE_PAYLOAD_COMPATIBLE = BIT 4"
definition VP_STATE_LENGTH_COMPATIBLE :: u32 where "VP_STATE_LENGTH_COMPATIBLE = BIT 5"
definition VP_STATE_VERSION_COMPATIBLE :: u32 where "VP_STATE_VERSION_COMPATIBLE = BIT 6"

definition VP_DATA_META :: u32 where "VP_DATA_META = BIT 0"
definition VP_DATA_PAYLOAD :: u32 where "VP_DATA_PAYLOAD = BIT 1"

definition VP_SECTION_SIZE :: "nat \<Rightarrow> nat" where "VP_SECTION_SIZE n = n + VP_SIZE_META"

type_synonym vp_chksum_fnc = "u16 \<Rightarrow> u8 list \<Rightarrow> nat \<Rightarrow> u16 option"

record 'd VersionedPersistence =
  vp_metablock :: "u8 list"
  vp_state :: u16
  vp_address :: u32
  vp_source :: "'d Source"
  vp_sink :: "'d Sink"
  vp_medium :: 'd
  vp_spec_length :: u16
  vp_spec_version :: u16
  vp_initial :: u16
  vp_process :: vp_chksum_fnc
  vp_header_result :: u16
  vp_payload_result :: u16
  vp_buffer :: "ByteBuffer option"

definition VP_FULL_INIT ::
    "u32 \<Rightarrow> u16 \<Rightarrow> u16 \<Rightarrow> ByteBuffer option \<Rightarrow> 'd Source \<Rightarrow> 'd Sink \<Rightarrow> 'd \<Rightarrow> vp_chksum_fnc \<Rightarrow> u16 \<Rightarrow> 'd VersionedPersistence" where
  "VP_FULL_INIT addr sz version buf source sink medium chksum init =
     \<lparr>vp_metablock = replicate VP_SIZE_META 0, vp_state = 0, vp_address = addr, vp_source = source, vp_sink = sink,
      vp_medium = medium, vp_spec_length = sz, vp_spec_version = version, vp_initial = init, vp_process = chksum,
      vp_header_result = 0, vp_payload_result = 0, vp_buffer = buf\<rparr>"

definition VP_INIT ::
    "u32 \<Rightarrow> u16 \<Rightarrow> u16 \<Rightarrow> ByteBuffer option \<Rightarrow> 'd Source \<Rightarrow> 'd Sink \<Rightarrow> 'd \<Rightarrow> 'd VersionedPersistence" where
  "VP_INIT addr sz version buf source sink medium =
     VP_FULL_INIT addr sz version buf source sink medium ufw_crc16_arc CRC16_ARC_INITIAL"

definition VP_SIMPLE_INIT :: "u32 \<Rightarrow> u16 \<Rightarrow> u16 \<Rightarrow> 'd Source \<Rightarrow> 'd Sink \<Rightarrow> 'd \<Rightarrow> 'd VersionedPersistence" where
  "VP_SIMPLE_INIT addr sz version source sink medium = VP_INIT addr sz version None source sink medium"

section \<open>Endpoints on one peripheral\<close>

definition maybe :: "(int \<times> 's) option \<Rightarrow> ('s \<Rightarrow> (int \<times> 's) option) \<Rightarrow> (int \<times> 's) option" where
  "maybe expr k = do {
     (rc, vp) \<leftarrow> expr;
     let retval = to_int rc;
     if retval < 0 then Some (retval, vp) else k vp
   }"

definition at_source :: "'d VersionedPersistence \<Rightarrow> 'd Source" where
  "at_source vp = (vp_source vp)\<lparr>src_driver := vp_medium vp\<rparr>"

definition at_sink :: "'d VersionedPersistence \<Rightarrow> 'd Sink" where
  "at_sink vp = (vp_sink vp)\<lparr>snk_driver := vp_medium vp\<rparr>"

definition with_source :: "'d VersionedPersistence \<Rightarrow> 'd Source \<Rightarrow> 'd VersionedPersistence" where
  "with_source vp src = vp\<lparr>vp_source := src, vp_medium := src_driver src\<rparr>"

definition with_sink :: "'d VersionedPersistence \<Rightarrow> 'd Sink \<Rightarrow> 'd VersionedPersistence" where
  "with_sink vp snk = vp\<lparr>vp_sink := snk, vp_medium := snk_driver snk\<rparr>"

definition vp_source_seek :: "'d VersionedPersistence \<Rightarrow> nat \<Rightarrow> (int \<times> 'd VersionedPersistence) option" where
  "vp_source_seek vp offset = (let (rc, src) = source_seek (at_source vp) offset in Some (rc, with_source vp src))"

definition vp_sink_seek :: "'d VersionedPersistence \<Rightarrow> nat \<Rightarrow> (int \<times> 'd VersionedPersistence) option" where
  "vp_sink_seek vp offset = (let (rc, snk) = sink_seek (at_sink vp) offset in Some (rc, with_sink vp snk))"

definition vp_get_chunk :: "'d VersionedPersistence \<Rightarrow> u8 list \<Rightarrow> nat \<Rightarrow> (int \<times> u8 list \<times> 'd VersionedPersistence) option" where
  "vp_get_chunk vp buf n = do {
     (rc, buf, src) \<leftarrow> source_get_chunk (at_source vp) buf 0 n;
     Some (rc, buf, with_source vp src)
   }"

definition vp_put_chunk :: "'d VersionedPersistence \<Rightarrow> u8 list \<Rightarrow> nat \<Rightarrow> (int \<times> 'd VersionedPersistence) option" where
  "vp_put_chunk vp buf n = do {
     (rc, snk) \<leftarrow> sink_put_chunk (at_sink vp) buf 0 n;
     Some (rc, with_sink vp snk)
   }"

section \<open>The meta block\<close>

definition vp_isset :: "'d VersionedPersistence \<Rightarrow> u32 \<Rightarrow> bool" where
  "vp_isset vp mask' \<longleftrightarrow> BIT_ISSET (ucast (vp_state vp)) mask'"

definition vp_set_bits :: "'d VersionedPersistence \<Rightarrow> u32 \<Rightarrow> 'd VersionedPersistence" where
  "vp_set_bits vp mask' = vp\<lparr>vp_state := ucast (BIT_SET (ucast (vp_state vp)) mask')\<rparr>"

definition vp_clear_bits :: "'d VersionedPersistence \<Rightarrow> u32 \<Rightarrow> 'd VersionedPersistence" where
  "vp_clear_bits vp mask' = vp\<lparr>vp_state := ucast (BIT_CLEAR (ucast (vp_state vp)) mask')\<rparr>"

definition vp_put_word :: "endianness \<Rightarrow> 'd VersionedPersistence \<Rightarrow> nat \<Rightarrow> u16 \<Rightarrow> 'd VersionedPersistence option" where
  "vp_put_word e vp off w = do { (_, m) \<leftarrow> bf_set_u16n e (vp_metablock vp) off w; Some (vp\<lparr>vp_metablock := m\<rparr>) }"

definition put_version :: "endianness \<Rightarrow> 'd VersionedPersistence \<Rightarrow> u16 \<Rightarrow> 'd VersionedPersistence option" where
  "put_version e vp version = vp_put_word e vp VP_OFFSET_VERSION version"
definition get_version :: "endianness \<Rightarrow> 'd VersionedPersistence \<Rightarrow> u16 option" where
  "get_version e vp = bf_ref_u16n e (vp_metablock vp) VP_OFFSET_VERSION"
definition put_length :: "endianness \<Rightarrow> 'd VersionedPersistence \<Rightarrow> u16 \<Rightarrow> 'd VersionedPersistence option" where
  "put_length e vp len = vp_put_word e vp VP_OFFSET_LENGTH len"
definition get_length :: "endianness \<Rightarrow> 'd VersionedPersistence \<Rightarrow> u16 option" where
  "get_length e vp = bf_ref_u16n e (vp_metablock vp) VP_OFFSET_LENGTH"
definition put_header_chksum :: "endianness \<Rightarrow> 'd VersionedPersistence \<Rightarrow> u16 \<Rightarrow> 'd VersionedPersistence option" where
  "put_header_chksum e vp cs = vp_put_word e vp VP_OFFSET_HEADER_CHKSUM cs"
definition get_header_chksum :: "endianness \<Rightarrow> 'd VersionedPersistence \<Rightarrow> u16 option" where
  "get_header_chksum e vp = bf_ref_u16n e (vp_metablock vp) VP_OFFSET_HEADER_CHKSUM"
definition put_payload_chksum :: "endianness \<Rightarrow> 'd VersionedPersistence \<Rightarrow> u16 \<Rightarrow> 'd VersionedPersistence option" where
  "put_payload_chksum e vp cs = vp_put_word e vp VP_OFFSET_PAYLOAD_CHKSUM cs"
definition get_payload_chksum :: "endianness \<Rightarrow> 'd VersionedPersistence \<Rightarrow> u16 option" where
  "get_payload_chksum e vp = bf_ref_u16n e (vp_metablock vp) VP_OFFSET_PAYLOAD_CHKSUM"

definition load_meta_from_spec :: "endianness \<Rightarrow> 'd VersionedPersistence \<Rightarrow> 'd VersionedPersistence option" where
  "load_meta_from_spec e vp = do {
     vp \<leftarrow> put_version e vp (vp_spec_version vp);
     vp \<leftarrow> put_length e vp (vp_spec_length vp);
     Some (vp_clear_bits (vp_set_bits vp VP_STATE_META_CACHE_ACTIVE) VP_STATE_META_CACHE_FROM_STORAGE)
   }"

definition header_intact :: "endianness \<Rightarrow> 'd VersionedPersistence \<Rightarrow> bool option" where
  "header_intact e vp = do { cs \<leftarrow> get_header_chksum e vp; Some (cs = vp_header_result vp) }"

definition payload_intact :: "endianness \<Rightarrow> 'd VersionedPersistence \<Rightarrow> bool option" where
  "payload_intact e vp = do { cs \<leftarrow> get_payload_chksum e vp; Some (cs = vp_payload_result vp) }"

definition vp_calculate_header_checksum :: "'d VersionedPersistence \<Rightarrow> 'd VersionedPersistence option" where
  "vp_calculate_header_checksum vp = do {
     cs \<leftarrow> vp_process vp (vp_initial vp) (drop 2 (vp_metablock vp)) (VP_SIZE_META - 2);
     Some (vp\<lparr>vp_header_result := cs\<rparr>)
   }"

section \<open>Transfers of the meta block and the checksum of the payload\<close>

text \<open>The loop leaves the function, or ends with the checksum.\<close>

partial_function (option) payload_sum_loop ::
    "'d VersionedPersistence \<Rightarrow> u8 list \<Rightarrow> nat \<Rightarrow> u16 \<Rightarrow> ((int + u16) \<times> 'd VersionedPersistence) option" where
  "payload_sum_loop vp buf rest cs =
     (if rest = 0 then Some (Inr cs, vp)
      else do {
        let toread = (if rest > 16 then 16 else rest);
        (m, buf, vp) \<leftarrow> vp_get_chunk vp buf toread;
        if m < 0 then Some (Inl (to_int m), vp)
        else do {
          cs \<leftarrow> vp_process vp cs buf (nat m);
          payload_sum_loop vp buf (sz_sub rest (nat m)) cs
        }
      })"

definition vp_calculate_payload_checksum :: "'d VersionedPersistence \<Rightarrow> nat \<Rightarrow> (int \<times> 'd VersionedPersistence) option" where
  "vp_calculate_payload_checksum vp n =
     maybe (vp_source_seek vp (sz_add (unat (vp_address vp)) VP_SIZE_META)) (\<lambda>vp. do {
       (r, vp) \<leftarrow> payload_sum_loop vp (replicate 16 0) n (vp_initial vp);
       Some (case r of Inl rc \<Rightarrow> (rc, vp) | Inr cs \<Rightarrow> (0, vp\<lparr>vp_payload_result := cs\<rparr>))
     })"

definition vp_read_meta :: "endianness \<Rightarrow> 'd VersionedPersistence \<Rightarrow> (int \<times> 'd VersionedPersistence) option" where
  "vp_read_meta e vp =
     maybe (vp_source_seek vp (unat (vp_address vp))) (\<lambda>vp.
     maybe (do { (rc, m, vp) \<leftarrow> vp_get_chunk vp (vp_metablock vp) VP_SIZE_META; Some (rc, vp\<lparr>vp_metablock := m\<rparr>) }) (\<lambda>vp. do {
       vp \<leftarrow> vp_calculate_header_checksum vp;
       let bits = VP_STATE_META_CACHE_FROM_STORAGE OR VP_STATE_META_CACHE_ACTIVE OR VP_STATE_META_CONSISTENT;
       intact \<leftarrow> header_intact e vp;
       Some (if \<not> intact then (- EBADFD, vp_clear_bits vp bits) else (0, vp_set_bits vp bits))
     }))"

definition vp_verify_payload :: "endianness \<Rightarrow> 'd VersionedPersistence \<Rightarrow> nat \<Rightarrow> (int \<times> 'd VersionedPersistence) option" where
  "vp_verify_payload e vp n =
     maybe (vp_calculate_payload_checksum vp n) (\<lambda>vp. do {
       intact \<leftarrow> payload_intact e vp;
       Some (if intact then 0 else - EBADMSG, vp)
     })"

definition vp_store_header :: "'d VersionedPersistence \<Rightarrow> (int \<times> 'd VersionedPersistence) option" where
  "vp_store_header vp =
     maybe (vp_sink_seek vp (unat (vp_address vp))) (\<lambda>vp.
     maybe (vp_put_chunk vp (vp_metablock vp) VP_SIZE_META) (\<lambda>vp.
       Some (0, vp)))"

definition vp_update_checksums :: "endianness \<Rightarrow> 'd VersionedPersistence \<Rightarrow> (int \<times> 'd VersionedPersistence) option" where
  "vp_update_checksums e vp = do {
     n \<leftarrow> get_length e vp;
     maybe (vp_calculate_payload_checksum vp (unat n)) (\<lambda>vp. do {
       vp \<leftarrow> put_payload_chksum e vp (vp_payload_result vp);
       vp \<leftarrow> vp_calculate_header_checksum vp;
       vp \<leftarrow> put_header_chksum e vp (vp_header_result vp);
       vp \<leftarrow> vp_calculate_header_checksum vp;
       Some (0, vp)
     })
   }"

text \<open>Operations that work on the specification when no meta block has been read.\<close>

definition with_meta_cache :: "endianness \<Rightarrow> 'd VersionedPersistence \<Rightarrow> 'd VersionedPersistence option" where
  "with_meta_cache e vp = (if \<not> vp_isset vp VP_STATE_META_CACHE_ACTIVE then load_meta_from_spec e vp else Some vp)"

definition vp_update_meta :: "endianness \<Rightarrow> 'd VersionedPersistence \<Rightarrow> (int \<times> 'd VersionedPersistence) option" where
  "vp_update_meta e vp = do {
     vp \<leftarrow> with_meta_cache e vp;
     maybe (vp_update_checksums e vp) vp_store_header
   }"

section \<open>The interface\<close>

definition vp_section_size :: "endianness \<Rightarrow> 'd VersionedPersistence \<Rightarrow> nat option" where
  "vp_section_size e vp = do { n \<leftarrow> get_length e vp; Some (unat n + VP_SIZE_META) }"

definition vp_spec_size :: "'d VersionedPersistence \<Rightarrow> nat" where
  "vp_spec_size vp = unat (vp_spec_length vp) + VP_SIZE_META"

partial_function (option) memset_loop ::
    "'d VersionedPersistence \<Rightarrow> u8 list \<Rightarrow> nat \<Rightarrow> (int option \<times> 'd VersionedPersistence) option" where
  "memset_loop vp buf rest =
     (if rest = 0 then Some (None, vp)
      else do {
        let towrite = (if rest > 16 then 16 else rest);
        (m, vp) \<leftarrow> vp_put_chunk vp buf towrite;
        if m < 0 then Some (Some (to_int m), vp) else memset_loop vp buf (sz_sub rest (nat m))
      })"

definition vp_memset :: "endianness \<Rightarrow> 'd VersionedPersistence \<Rightarrow> u8 \<Rightarrow> nat \<Rightarrow> nat \<Rightarrow> (int \<times> 'd VersionedPersistence) option" where
  "vp_memset e vp c offset n = do {
     vp \<leftarrow> with_meta_cache e vp;
     len \<leftarrow> get_length e vp;
     if sz_add n offset > unat len then Some (- EINVAL, vp)
     else maybe (vp_sink_seek vp (sz_add (sz_add (unat (vp_address vp)) VP_SIZE_META) offset)) (\<lambda>vp. do {
       (r, vp) \<leftarrow> memset_loop vp (replicate 16 c) n;
       (case r of Some rc \<Rightarrow> Some (rc, vp) | None \<Rightarrow> vp_update_meta e vp)
     })
   }"

definition vp_invalidate :: "endianness \<Rightarrow> 'd VersionedPersistence \<Rightarrow> u32 \<Rightarrow> (int \<times> 'd VersionedPersistence) option" where
  "vp_invalidate e vp parts = do {
     vp \<leftarrow> with_meta_cache e vp;
     if parts = 0 then Some (0, vp)
     else maybe (vp_update_checksums e vp) (\<lambda>vp. do {
       vp \<leftarrow> (if BIT_ISSET parts VP_DATA_PAYLOAD then do {
           cs \<leftarrow> get_payload_chksum e vp;
           vp \<leftarrow> put_payload_chksum e vp (cs XOR VP_CHKSUM_MAX);
           vp \<leftarrow> vp_calculate_header_checksum (vp_clear_bits vp VP_STATE_PAYLOAD_CONSISTENT);
           put_header_chksum e vp (vp_header_result vp)
         } else Some vp);
       vp \<leftarrow> (if BIT_ISSET parts VP_DATA_META then do {
           cs \<leftarrow> get_header_chksum e vp;
           vp \<leftarrow> put_header_chksum e vp (cs XOR VP_CHKSUM_MAX);
           Some (vp_clear_bits vp VP_STATE_META_CONSISTENT)
         } else Some vp);
       vp_store_header vp
     })
   }"

definition vp_format :: "endianness \<Rightarrow> 'd VersionedPersistence \<Rightarrow> (int \<times> 'd VersionedPersistence) option" where
  "vp_format e vp = do {
     vp \<leftarrow> load_meta_from_spec e vp;
     maybe (vp_invalidate e vp VP_DATA_PAYLOAD) (vp_read_meta e)
   }"

text \<open>\<open>dst\<close> and \<open>src\<close> are the caller's memory from the pointer on.\<close>

definition vp_fetch :: "endianness \<Rightarrow> 'd VersionedPersistence \<Rightarrow> u8 list \<Rightarrow> nat \<Rightarrow> nat \<Rightarrow> (int \<times> u8 list \<times> 'd VersionedPersistence) option" where
  "vp_fetch e vp dst offset n = do {
     (rc, vp) \<leftarrow> (if \<not> vp_isset vp VP_STATE_META_CACHE_ACTIVE then maybe (vp_read_meta e vp) (\<lambda>vp. Some (0, vp)) else Some (0, vp));
     if rc < 0 then Some (rc, dst, vp)
     else if \<not> vp_isset vp (VP_STATE_PAYLOAD_CONSISTENT OR VP_STATE_META_CONSISTENT) then Some (- EINVAL, dst, vp)
     else do {
       len \<leftarrow> get_length e vp;
       if sz_add offset n > unat len then Some (- EFAULT, dst, vp)
       else do {
         let start = sz_add (sz_add (unat (vp_address vp)) VP_SIZE_META) offset;
         (rc, vp) \<leftarrow> maybe (vp_source_seek vp start) (\<lambda>vp. Some (0, vp));
         if rc < 0 then Some (rc, dst, vp) else vp_get_chunk vp dst n
       }
     }
   }"

definition vp_store :: "endianness \<Rightarrow> 'd VersionedPersistence \<Rightarrow> u8 list \<Rightarrow> nat \<Rightarrow> nat \<Rightarrow> (int \<times> 'd VersionedPersistence) option" where
  "vp_store e vp src offset n = do {
     vp \<leftarrow> with_meta_cache e vp;
     if \<not> vp_isset vp VP_STATE_META_CONSISTENT then Some (- EINVAL, vp)
     else do {
       len \<leftarrow> get_length e vp;
       if sz_add offset n > unat len then Some (- EFAULT, vp)
       else do {
         let start = sz_add (sz_add (unat (vp_address vp)) VP_SIZE_META) offset;
         maybe (vp_sink_seek vp start) (\<lambda>vp. do {
           (rc, vp) \<leftarrow> vp_put_chunk vp src n;
           if rc \<ge> 0 then maybe (vp_update_meta e vp) (\<lambda>vp. Some (rc, vp)) else Some (rc, vp)
         })
       }
     }
   }"

definition vp_load :: "endianness \<Rightarrow> 'd VersionedPersistence \<Rightarrow> (int \<times> 'd VersionedPersistence) option" where
  "vp_load e vp =
     maybe (vp_read_meta e (vp\<lparr>vp_state := 0\<rparr>)) (\<lambda>vp. do {
       read_version \<leftarrow> get_version e vp;
       read_length \<leftarrow> get_length e vp;
       let vp = (if read_version = vp_spec_version vp then vp_set_bits vp VP_STATE_VERSION_COMPATIBLE else vp);
       let vp = (if read_length = vp_spec_length vp then
           (let vp = vp_set_bits vp VP_STATE_LENGTH_COMPATIBLE
            in if vp_isset vp VP_STATE_VERSION_COMPATIBLE then vp_set_bits vp VP_STATE_PAYLOAD_COMPATIBLE else vp)
         else vp);
       maybe (vp_verify_payload e vp (unat read_length)) (\<lambda>vp.
         Some (0, vp_set_bits vp VP_STATE_PAYLOAD_CONSISTENT))
     })"

definition vp_save :: "endianness \<Rightarrow> 'd VersionedPersistence \<Rightarrow> u8 list \<Rightarrow> nat \<Rightarrow> (int \<times> 'd VersionedPersistence) option" where
  "vp_save e vp src n =
     maybe (vp_format e vp) (\<lambda>vp.
     maybe (vp_store e vp src 0 n) (vp_load e))"

definition vp_usable :: "'d VersionedPersistence \<Rightarrow> bool" where
  "vp_usable vp \<longleftrightarrow> vp_isset vp (VP_STATE_META_CONSISTENT OR VP_STATE_PAYLOAD_COMPATIBLE OR VP_STATE_PAYLOAD_CONSISTENT)"

section \<open>Meta blocks as words\<close>

definition meta_block :: "endianness \<Rightarrow> u16 \<Rightarrow> u16 \<Rightarrow> u16 \<Rightarrow> u16 \<Rightarrow> u8 list" where
  "meta_block e h v l p = host_octets e 2 h @ host_octets e 2 v @ host_octets e 2 l @ host_octets e 2 p"

lemma length_meta_block [simp]: "length (meta_block e h v l p) = 8"
  by (simp add: meta_block_def)

lemma word_of_octets: "host_value e (host_octets e 2 w) = (w :: u16)"
  by (simp add: host_value_octets take_bit_word_eq_self)

lemma host_word: "length xs = 2 \<Longrightarrow> host_octets e 2 (host_value e xs :: u16) = xs"
  using le_octets_value [where 'a = 16, of xs] le_octets_value [where 'a = 16, of "rev xs"]
  by (cases e) (simp_all add: host_octets_def host_value_def be_octets_def be_value_def)

lemma meta_block_exists:
  assumes "length m = 8"
  shows "\<exists>h v l p. m = meta_block e h v l p"
proof -
  let ?w = "\<lambda>i. host_value e (take 2 (drop i m)) :: u16"
  have "meta_block e (?w 0) (?w 2) (?w 4) (?w 6) = take 2 m @ take 2 (drop 2 m) @ take 2 (drop 4 m) @ take 2 (drop 6 m)"
    using assms by (simp add: meta_block_def host_word)
  also have "\<dots> = m"
    using assms take_drop_append [of 2 0 m 2] take_drop_append [of 2 4 m 2]
    by (simp flip: append_assoc)
  finally show ?thesis
    by metis
qed

lemma meta_block_inject [simp]: "meta_block e h v l p = meta_block e h' v' l' p' \<longleftrightarrow> h = h' \<and> v = v' \<and> l = l' \<and> p = p'"
proof -
  have "host_octets e 2 a = host_octets e 2 b \<longleftrightarrow> a = b" for a b :: u16
    using word_of_octets [of e a] word_of_octets [of e b] by metis
  then show ?thesis
    by (simp add: meta_block_def)
qed

lemma drop_meta_block [simp]: "drop 2 (meta_block e h v l p) = host_octets e 2 v @ host_octets e 2 l @ host_octets e 2 p"
  by (simp add: meta_block_def)

lemma ref_word: "length xs = off \<Longrightarrow> bf_ref_u16n e (xs @ host_octets e 2 w @ ys) off = Some w"
  by (simp add: bf_ref_u16n_def mem_simps obj_octets_def word_of_octets)

lemma set_word: "length xs = off \<Longrightarrow> bf_set_u16n e (xs @ host_octets e 2 w @ ys) off w' = Some (off + 2, xs @ host_octets e 2 w' @ ys)"
  by (simp add: bf_set_u16n_def mem_simps obj_octets_def)

lemma vp_offsets: "VP_OFFSET_HEADER_CHKSUM = 0" "VP_OFFSET_VERSION = 2" "VP_OFFSET_LENGTH = 4" "VP_OFFSET_PAYLOAD_CHKSUM = 6" "VP_SIZE_META = 8"
  by (simp_all add: VP_OFFSET_HEADER_CHKSUM_def VP_OFFSET_VERSION_def VP_OFFSET_LENGTH_def VP_OFFSET_PAYLOAD_CHKSUM_def VP_SIZE_META_def)

lemma meta_words:
  assumes "vp_metablock vp = meta_block e h v l p"
  shows "get_header_chksum e vp = Some h" "get_version e vp = Some v" "get_length e vp = Some l" "get_payload_chksum e vp = Some p"
    "put_header_chksum e vp w = Some (vp\<lparr>vp_metablock := meta_block e w v l p\<rparr>)"
    "put_version e vp w = Some (vp\<lparr>vp_metablock := meta_block e h w l p\<rparr>)"
    "put_length e vp w = Some (vp\<lparr>vp_metablock := meta_block e h v w p\<rparr>)"
    "put_payload_chksum e vp w = Some (vp\<lparr>vp_metablock := meta_block e h v l w\<rparr>)"
  using assms ref_word [of "[]" 0 e h] ref_word [of "host_octets e 2 h" 2 e v] ref_word [of "host_octets e 2 h @ host_octets e 2 v" 4 e l]
    ref_word [of "host_octets e 2 h @ host_octets e 2 v @ host_octets e 2 l" 6 e p "[]"]
    set_word [of "[]" 0 e h] set_word [of "host_octets e 2 h" 2 e v] set_word [of "host_octets e 2 h @ host_octets e 2 v" 4 e l]
    set_word [of "host_octets e 2 h @ host_octets e 2 v @ host_octets e 2 l" 6 e p "[]"]
  by (simp_all add: meta_block_def vp_put_word_def vp_offsets get_header_chksum_def get_version_def get_length_def get_payload_chksum_def
      put_header_chksum_def put_version_def put_length_def put_payload_chksum_def)

section \<open>Storage peripherals\<close>

locale storage =
  fixes rd :: "'d \<Rightarrow> nat \<Rightarrow> (int \<times> u8 list \<times> 'd) option" and wr :: "'d \<Rightarrow> u8 list \<Rightarrow> (int \<times> 'd) option"
    and rseek wseek :: "'d \<Rightarrow> nat \<Rightarrow> int \<times> 'd"
    and ok :: "'d \<Rightarrow> bool" and mem :: "'d \<Rightarrow> u8 list" and rpos wpos :: "'d \<Rightarrow> nat"
  assumes size_law: "ok d \<Longrightarrow> length (mem d) \<le> SSIZE_MAX"
    and rseek_law: "ok d \<Longrightarrow> off \<le> length (mem d) \<Longrightarrow> \<exists>d'. rseek d off = (0, d') \<and> ok d' \<and> mem d' = mem d \<and> rpos d' = off"
    and wseek_law: "ok d \<Longrightarrow> off \<le> length (mem d) \<Longrightarrow> \<exists>d'. wseek d off = (0, d') \<and> ok d' \<and> mem d' = mem d \<and> wpos d' = off"
    and read_law: "ok d \<Longrightarrow> 0 < n \<Longrightarrow> rpos d + n \<le> length (mem d) \<Longrightarrow>
      \<exists>k d'. 0 < k \<and> k \<le> n \<and> rd d n = Some (int k, take k (drop (rpos d) (mem d)), d') \<and> ok d' \<and> mem d' = mem d \<and> rpos d' = rpos d + k"
    and write_law: "ok d \<Longrightarrow> xs \<noteq> [] \<Longrightarrow> wpos d + length xs \<le> length (mem d) \<Longrightarrow>
      \<exists>k d'. 0 < k \<and> k \<le> length xs \<and> wr d xs = Some (int k, d') \<and> ok d' \<and> mem d' = overwrite (mem d) (wpos d) (take k xs) \<and>
        wpos d' = wpos d + k"
begin

definition wired :: "'d Source \<Rightarrow> 'd Sink \<Rightarrow> 'd \<Rightarrow> bool" where
  "wired s t d \<longleftrightarrow> src_fn s = ChunkSource rd \<and> plain_retry (src_retry s) \<and> src_seek s = Some rseek \<and>
     snk_fn t = ChunkSink wr \<and> plain_retry (snk_retry t) \<and> snk_seek t = Some wseek \<and> ok d"

lemma read_multi_loop_all:
  assumes "src_fn s = ChunkSource rd" "plain_retry (src_retry s)" "ok (src_driver s)" "rest \<le> n" "n \<le> length buf" "length buf \<le> SSIZE_MAX"
    and "rpos (src_driver s) + rest \<le> length (mem (src_driver s))"
  shows "\<exists>d'. read_multi_loop s buf 0 n rest =
       Some (0, n, overwrite buf (n - rest) (take rest (drop (rpos (src_driver s)) (mem (src_driver s)))), s\<lparr>src_driver := d'\<rparr>) \<and>
     ok d' \<and> mem d' = mem (src_driver s) \<and> rpos d' = rpos (src_driver s) + rest"
  using assms
proof (induction rest arbitrary: s buf rule: less_induct)
  case (less rest)
  let ?d = "src_driver s"
  show ?case
  proof (cases "rest = 0")
    case True
    with less.prems show ?thesis
      by (subst read_multi_loop.simps) (auto intro!: exI [of _ ?d])
  next
    case False
    then obtain k d1 where r: "0 < k" "k \<le> rest" "rd ?d rest = Some (int k, take k (drop (rpos ?d) (mem ?d)), d1)"
      "ok d1" "mem d1 = mem ?d" "rpos d1 = rpos ?d + k"
      using read_law [OF less.prems(3) _ less.prems(7)] by blast
    let ?xs = "take k (drop (rpos ?d) (mem ?d))" and ?s = "s\<lparr>src_driver := d1\<rparr>"
    have len: "length ?xs = k" "n - rest + k \<le> length buf"
      using r(2) less.prems by auto
    have off: "sz_add 0 (n - rest) = n - rest"
      using less.prems by (simp add: size_simps SSIZE_MAX_def SIZE_MOD_def)
    have step: "source_read s buf (n - rest) rest = Some (int k, overwrite buf (n - rest) ?xs, ?s)"
      using less.prems(1) r(3) len by (simp add: source_read_def mem_write_overwrite)
    have "\<exists>d'. read_multi_loop ?s (overwrite buf (n - rest) ?xs) 0 n (rest - k) =
        Some (0, n, overwrite (overwrite buf (n - rest) ?xs) (n - (rest - k)) (take (rest - k) (drop (rpos d1) (mem d1))), ?s\<lparr>src_driver := d'\<rparr>) \<and>
        ok d' \<and> mem d' = mem d1 \<and> rpos d' = rpos d1 + (rest - k)"
      using less.IH [of "rest - k" ?s "overwrite buf (n - rest) ?xs"] less.prems r len by simp
    then obtain d' where d': "read_multi_loop ?s (overwrite buf (n - rest) ?xs) 0 n (rest - k) =
        Some (0, n, overwrite (overwrite buf (n - rest) ?xs) (n - (rest - k)) (take (rest - k) (drop (rpos d1) (mem d1))), ?s\<lparr>src_driver := d'\<rparr>)"
       "ok d'" "mem d' = mem d1" "rpos d' = rpos d1 + (rest - k)"
      by blast
    have pos: "n - (rest - k) = n - rest + length ?xs"
      using less.prems(4) r(2) len(1) by simp
    have "overwrite (overwrite buf (n - rest) ?xs) (n - (rest - k)) (take (rest - k) (drop (rpos d1) (mem d1))) =
        overwrite buf (n - rest) (?xs @ take (rest - k) (drop (rpos d1) (mem d1)))"
      unfolding pos by (rule overwrite_append) (use less.prems(4,5,7) r(2,5,6) len(1) in simp)
    also have "?xs @ take (rest - k) (drop (rpos d1) (mem d1)) = take rest (drop (rpos ?d) (mem ?d))"
      using r(2,5,6) take_drop_append [of k "rpos ?d" "mem ?d" "rest - k"] by (simp add: add.commute)
    finally show ?thesis
      using False r d' less.prems(4) step off
      by (subst read_multi_loop.simps) (auto simp: Let_def)
  qed
qed

lemma write_multi_loop_all:
  assumes "snk_fn t = ChunkSink wr" "plain_retry (snk_retry t)" "ok (snk_driver t)" "rest \<le> n" "n \<le> length buf" "length buf \<le> SSIZE_MAX"
    and "wpos (snk_driver t) + rest \<le> length (mem (snk_driver t))"
  shows "\<exists>d'. write_multi_loop t buf 0 n rest = Some (0, n, t\<lparr>snk_driver := d'\<rparr>) \<and> ok d' \<and>
     mem d' = overwrite (mem (snk_driver t)) (wpos (snk_driver t)) (take rest (drop (n - rest) buf)) \<and>
     wpos d' = wpos (snk_driver t) + rest"
  using assms
proof (induction rest arbitrary: t rule: less_induct)
  case (less rest)
  let ?d = "snk_driver t"
  show ?case
  proof (cases "rest = 0")
    case True
    with less.prems show ?thesis
      by (subst write_multi_loop.simps) (auto intro!: exI [of _ ?d])
  next
    case False
    let ?ys = "take rest (drop (n - rest) buf)"
    have ys: "length ?ys = rest" "?ys \<noteq> []"
      using less.prems False by auto
    then obtain k d1 where r: "0 < k" "k \<le> rest" "wr ?d ?ys = Some (int k, d1)"
      "ok d1" "mem d1 = overwrite (mem ?d) (wpos ?d) (take k ?ys)" "wpos d1 = wpos ?d + k"
      using write_law [OF less.prems(3) ys(2)] less.prems(7) by (metis (no_types, lifting))
    let ?t = "t\<lparr>snk_driver := d1\<rparr>"
    have off: "sz_add 0 (n - rest) = n - rest"
      using less.prems by (simp add: size_simps SSIZE_MAX_def SIZE_MOD_def)
    have step: "sink_write t buf (n - rest) rest = Some (int k, ?t)"
      using less.prems r(3) by (simp add: sink_write_def mem_read_inside)
    have room: "wpos ?d + length (take k ?ys) \<le> length (mem ?d)"
      using less.prems(7) r(2) ys(1) by simp
    have "\<exists>d'. write_multi_loop ?t buf 0 n (rest - k) = Some (0, n, ?t\<lparr>snk_driver := d'\<rparr>) \<and> ok d' \<and>
        mem d' = overwrite (mem d1) (wpos d1) (take (rest - k) (drop (n - (rest - k)) buf)) \<and> wpos d' = wpos d1 + (rest - k)"
      using less.IH [of "rest - k" ?t] less.prems r room by simp
    then obtain d' where d': "write_multi_loop ?t buf 0 n (rest - k) = Some (0, n, ?t\<lparr>snk_driver := d'\<rparr>)"
       "ok d'" "mem d' = overwrite (mem d1) (wpos d1) (take (rest - k) (drop (n - (rest - k)) buf))" "wpos d' = wpos d1 + (rest - k)"
      by blast
    have pos: "wpos d1 = wpos ?d + length (take k ?ys)"
      using r(2,6) ys(1) by simp
    have ds: "drop (n - (rest - k)) buf = drop k (drop (n - rest) buf)"
      using less.prems(4) r(2) by (simp add: add.commute)
    have "mem d' = overwrite (mem ?d) (wpos ?d) (take k ?ys @ take (rest - k) (drop k (drop (n - rest) buf)))"
      unfolding d'(3) r(5) pos ds by (rule overwrite_append) (use less.prems(4,5,7) r(2) in simp)
    also have "take k ?ys @ take (rest - k) (drop k (drop (n - rest) buf)) = ?ys"
      using r(2) take_drop_append [of k 0 "drop (n - rest) buf" "rest - k"] by (simp add: min_def)
    finally show ?thesis
      using False r d' less.prems(4) step off
      by (subst write_multi_loop.simps) (auto simp: Let_def)
  qed
qed

end

section \<open>Instances on a storage peripheral\<close>

locale checked_storage = storage rd wr rseek wseek ok mem rpos wpos + streaming_sum sum
  for rd :: "'d \<Rightarrow> nat \<Rightarrow> (int \<times> u8 list \<times> 'd) option" and wr :: "'d \<Rightarrow> u8 list \<Rightarrow> (int \<times> 'd) option"
    and rseek wseek :: "'d \<Rightarrow> nat \<Rightarrow> int \<times> 'd" and ok :: "'d \<Rightarrow> bool" and mem :: "'d \<Rightarrow> u8 list" and rpos wpos :: "'d \<Rightarrow> nat"
    and sum :: "u16 \<Rightarrow> u8 list \<Rightarrow> u16" +
  fixes process :: vp_chksum_fnc
  assumes process_law: "n \<le> length xs \<Longrightarrow> process c xs n = Some (sum c (take n xs))"
begin

definition attached :: "'d VersionedPersistence \<Rightarrow> bool" where
  "attached vp \<longleftrightarrow> wired (vp_source vp) (vp_sink vp) (vp_medium vp) \<and> vp_process vp = process"

definition moved :: "'d VersionedPersistence \<Rightarrow> 'd VersionedPersistence \<Rightarrow> u8 list \<Rightarrow> bool" where
  "moved vp vp' m \<longleftrightarrow> attached vp' \<and> mem (vp_medium vp') = m \<and> vp_process vp = process \<and> vp_metablock vp' = vp_metablock vp \<and>
     vp_state vp' = vp_state vp \<and> vp_address vp' = vp_address vp \<and> vp_spec_length vp' = vp_spec_length vp \<and>
     vp_spec_version vp' = vp_spec_version vp \<and> vp_initial vp' = vp_initial vp \<and> vp_header_result vp' = vp_header_result vp \<and>
     vp_payload_result vp' = vp_payload_result vp \<and> vp_buffer vp' = vp_buffer vp"

lemma moved_fields:
  assumes "moved vp vp' m"
  shows "attached vp'" "mem (vp_medium vp') = m" "vp_metablock vp' = vp_metablock vp" "vp_state vp' = vp_state vp"
    "vp_address vp' = vp_address vp" "vp_spec_length vp' = vp_spec_length vp" "vp_spec_version vp' = vp_spec_version vp"
    "vp_initial vp' = vp_initial vp" "vp_process vp' = process" "vp_header_result vp' = vp_header_result vp"
    "vp_payload_result vp' = vp_payload_result vp" "length m \<le> SSIZE_MAX"
  using assms size_law by (auto simp: moved_def attached_def wired_def)

lemma moved_trans: "moved vp vp' m \<Longrightarrow> moved vp' vp'' m' \<Longrightarrow> moved vp vp'' m'"
  by (auto simp: moved_def)

lemma moved_refl: "attached vp \<Longrightarrow> moved vp vp (mem (vp_medium vp))"
  by (simp add: moved_def attached_def)

lemma attached_updates [simp]:
  "attached (vp\<lparr>vp_metablock := b\<rparr>) = attached vp" "attached (vp\<lparr>vp_state := st\<rparr>) = attached vp"
  "attached (vp\<lparr>vp_header_result := w\<rparr>) = attached vp" "attached (vp\<lparr>vp_payload_result := w\<rparr>) = attached vp"
  by (simp_all add: attached_def)

lemma moved_updates:
  assumes "moved vp vp' m"
  shows "moved (vp\<lparr>vp_metablock := b\<rparr>) (vp'\<lparr>vp_metablock := b\<rparr>) m" "moved (vp\<lparr>vp_state := st\<rparr>) (vp'\<lparr>vp_state := st\<rparr>) m"
    "moved (vp\<lparr>vp_header_result := w\<rparr>) (vp'\<lparr>vp_header_result := w\<rparr>) m" "moved (vp\<lparr>vp_payload_result := w\<rparr>) (vp'\<lparr>vp_payload_result := w\<rparr>) m"
  using assms by (simp_all add: moved_def)

lemma source_seek_ok:
  assumes "attached vp" "mem (vp_medium vp) = m" "off \<le> length m"
  shows "\<exists>vp'. vp_source_seek vp off = Some (0, vp') \<and> moved vp vp' m \<and> rpos (vp_medium vp') = off"
proof -
  obtain d' where "rseek (vp_medium vp) off = (0, d')" "ok d'" "mem d' = m" "rpos d' = off"
    using rseek_law [of "vp_medium vp" off] assms by (auto simp: attached_def wired_def)
  with assms show ?thesis
    by (auto simp: vp_source_seek_def source_seek_def at_source_def with_source_def moved_def attached_def wired_def)
qed

lemma sink_seek_ok:
  assumes "attached vp" "mem (vp_medium vp) = m" "off \<le> length m"
  shows "\<exists>vp'. vp_sink_seek vp off = Some (0, vp') \<and> moved vp vp' m \<and> wpos (vp_medium vp') = off"
proof -
  obtain d' where "wseek (vp_medium vp) off = (0, d')" "ok d'" "mem d' = m" "wpos d' = off"
    using wseek_law [of "vp_medium vp" off] assms by (auto simp: attached_def wired_def)
  with assms show ?thesis
    by (auto simp: vp_sink_seek_def sink_seek_def at_sink_def with_sink_def moved_def attached_def wired_def)
qed

lemma get_chunk_all:
  assumes "attached vp" "mem (vp_medium vp) = m" "0 < n" "n \<le> length buf" "length buf \<le> SSIZE_MAX" "rpos (vp_medium vp) + n \<le> length m"
  shows "\<exists>vp'. vp_get_chunk vp buf n = Some (int n, overwrite buf 0 (take n (drop (rpos (vp_medium vp)) m)), vp') \<and>
     moved vp vp' m \<and> rpos (vp_medium vp') = rpos (vp_medium vp) + n"
proof -
  have a: "src_fn (at_source vp) = ChunkSource rd" "plain_retry (src_retry (at_source vp))" "src_driver (at_source vp) = vp_medium vp" "ok (vp_medium vp)"
    using assms(1) by (simp_all add: at_source_def attached_def wired_def)
  obtain d' where "read_multi_loop (at_source vp) buf 0 n n = Some (0, n, overwrite buf 0 (take n (drop (rpos (vp_medium vp)) m)), (at_source vp)\<lparr>src_driver := d'\<rparr>)"
     "ok d'" "mem d' = m" "rpos d' = rpos (vp_medium vp) + n"
    using read_multi_loop_all [of "at_source vp" n n buf] a assms by auto
  with a assms show ?thesis
    by (auto simp: vp_get_chunk_def source_get_chunk_def source_read_multi_def retry_start_def plain_retry_def
        with_source_def moved_def attached_def wired_def at_source_def)
qed

lemma put_chunk_all:
  assumes "attached vp" "mem (vp_medium vp) = m" "n \<le> length buf" "length buf \<le> SSIZE_MAX" "wpos (vp_medium vp) + n \<le> length m"
  shows "\<exists>vp'. vp_put_chunk vp buf n = Some (int n, vp') \<and>
     moved vp vp' (overwrite m (wpos (vp_medium vp)) (take n buf)) \<and> wpos (vp_medium vp') = wpos (vp_medium vp) + n"
proof (cases "n = 0")
  case True
  with assms moved_refl [OF assms(1)] show ?thesis
    by (auto simp: vp_put_chunk_def sink_put_chunk_def sink_write_multi_def with_sink_def at_sink_def moved_def attached_def wired_def)
next
  case False
  have a: "snk_fn (at_sink vp) = ChunkSink wr" "plain_retry (snk_retry (at_sink vp))" "snk_driver (at_sink vp) = vp_medium vp" "ok (vp_medium vp)"
    using assms(1) by (simp_all add: at_sink_def attached_def wired_def)
  obtain d' where "write_multi_loop (at_sink vp) buf 0 n n = Some (0, n, (at_sink vp)\<lparr>snk_driver := d'\<rparr>)"
     "ok d'" "mem d' = overwrite m (wpos (vp_medium vp)) (take n buf)" "wpos d' = wpos (vp_medium vp) + n"
    using write_multi_loop_all [of "at_sink vp" n n buf] a assms by auto
  with a assms False show ?thesis
    by (auto simp: vp_put_chunk_def sink_put_chunk_def sink_write_multi_def retry_start_def plain_retry_def
        with_sink_def moved_def attached_def wired_def at_sink_def)
qed

end

text \<open>The flags of an instance.\<close>

lemma vp_isset_or: "vp_isset vp (a OR b) \<longleftrightarrow> vp_isset vp a \<and> vp_isset vp b"
  by (auto simp: vp_isset_def BIT_ISSET_iff bit_or_iff)

lemma vp_isset_bit: "i < 16 \<Longrightarrow> vp_isset vp (BIT i) \<longleftrightarrow> bit (vp_state vp) i"
  by (auto simp: vp_isset_def BIT_ISSET_iff bit_BIT bit_ucast_iff possible_bit_word)

lemma state_set_bits: "i < 16 \<Longrightarrow> bit (vp_state (vp_set_bits vp m)) i \<longleftrightarrow> bit (vp_state vp) i \<or> bit m i"
  by (auto simp: vp_set_bits_def BIT_SET_def bit_ucast_iff bit_or_iff possible_bit_word)

lemma state_clear_bits: "i < 16 \<Longrightarrow> bit (vp_state (vp_clear_bits vp m)) i \<longleftrightarrow> bit (vp_state vp) i \<and> \<not> bit m i"
  by (auto simp: vp_clear_bits_def BIT_CLEAR_def bit_ucast_iff bit_and_iff bit_not_iff possible_bit_word)

lemmas vp_state_bits = VP_STATE_META_CACHE_ACTIVE_def VP_STATE_META_CACHE_FROM_STORAGE_def VP_STATE_META_CONSISTENT_def
  VP_STATE_PAYLOAD_CONSISTENT_def VP_STATE_PAYLOAD_COMPATIBLE_def VP_STATE_LENGTH_COMPATIBLE_def VP_STATE_VERSION_COMPATIBLE_def

lemmas vp_flags = vp_isset_or vp_isset_bit state_set_bits state_clear_bits bit_or_iff bit_BIT vp_state_bits

text \<open>Combinators whose call succeeds.\<close>

lemma maybe_ok: "0 \<le> rc \<Longrightarrow> rc < 2 ^ 31 \<Longrightarrow> maybe (Some (rc, vp)) k = k vp"
  by (simp add: maybe_def)

lemma maybe_error: "rc < 0 \<Longrightarrow> - (2 ^ 31) \<le> rc \<Longrightarrow> maybe (Some (rc, vp)) k = Some (rc, vp)"
  by (simp add: maybe_def)

definition meta_sum :: "(u16 \<Rightarrow> u8 list \<Rightarrow> u16) \<Rightarrow> endianness \<Rightarrow> u16 \<Rightarrow> u16 \<Rightarrow> u16 \<Rightarrow> u16 \<Rightarrow> u16" where
  "meta_sum S e init v l p = S init (host_octets e 2 v @ host_octets e 2 l @ host_octets e 2 p)"

context checked_storage
begin

lemma header_checksum_ok:
  assumes "vp_process vp = process" "vp_metablock vp = meta_block e h v l p"
  shows "vp_calculate_header_checksum vp = Some (vp\<lparr>vp_header_result := meta_sum sum e (vp_initial vp) v l p\<rparr>)"
  using assms by (simp add: vp_calculate_header_checksum_def vp_offsets process_law meta_sum_def)

lemma payload_sum_loop_ok:
  assumes "attached vp" "mem (vp_medium vp) = m" "length buf = 16" "rpos (vp_medium vp) + rest \<le> length m"
  shows "\<exists>vp'. payload_sum_loop vp buf rest cs = Some (Inr (sum cs (take rest (drop (rpos (vp_medium vp)) m))), vp') \<and> moved vp vp' m"
  using assms
proof (induction rest arbitrary: vp buf cs rule: less_induct)
  case (less rest)
  show ?case
  proof (cases "rest = 0")
    case True
    with less.prems moved_refl [OF less.prems(1)] show ?thesis
      by (subst payload_sum_loop.simps) (simp add: sum_Nil)
  next
    case False
    define k where "k = (if rest > 16 then 16 else rest)"
    have k: "0 < k" "k \<le> length buf" "k \<le> rest"
      using False less.prems(3) by (simp_all add: k_def)
    have small: "length buf \<le> SSIZE_MAX" "rpos (vp_medium vp) + k \<le> length m"
      using less.prems(3,4) k(3) by (simp_all add: SSIZE_MAX_def)
    let ?xs = "take k (drop (rpos (vp_medium vp)) m)"
    obtain vp1 where r: "vp_get_chunk vp buf k = Some (int k, overwrite buf 0 ?xs, vp1)" "moved vp vp1 m"
      "rpos (vp_medium vp1) = rpos (vp_medium vp) + k"
      using get_chunk_all [OF less.prems(1,2) k(1,2) small] by blast
    note f = moved_fields [OF r(2)]
    have len: "length ?xs = k" "length (overwrite buf 0 ?xs) = 16"
      using small(2) k(2) less.prems(3) by simp_all
    have sum: "vp_process vp1 cs (overwrite buf 0 ?xs) k = Some (sum cs ?xs)"
      using len k(2) f(9) by (simp add: process_law) (simp add: overwrite_def)
    have rest: "rpos (vp_medium vp1) + (rest - k) \<le> length m" "rest - k < rest"
      using r(3) less.prems(4) k by simp_all
    obtain vp' where r': "payload_sum_loop vp1 (overwrite buf 0 ?xs) (rest - k) (sum cs ?xs) =
        Some (Inr (sum (sum cs ?xs) (take (rest - k) (drop (rpos (vp_medium vp1)) m))), vp')" "moved vp1 vp' m"
      using less.IH [OF rest(2) f(1,2) len(2) rest(1)] by blast
    have "?xs @ take (rest - k) (drop (rpos (vp_medium vp1)) m) = take rest (drop (rpos (vp_medium vp)) m)"
      using k(3) r(3) take_drop_append [of k "rpos (vp_medium vp)" m "rest - k"] by (simp add: add.commute)
    then have "sum (sum cs ?xs) (take (rest - k) (drop (rpos (vp_medium vp1)) m)) = sum cs (take rest (drop (rpos (vp_medium vp)) m))"
      by (metis sum_append)
    with r' moved_trans [OF r(2) r'(2)] r(1) sum False k(3) show ?thesis
      by (subst payload_sum_loop.simps) (simp add: Let_def flip: k_def)
  qed
qed

lemma payload_checksum_ok:
  assumes "attached vp" "mem (vp_medium vp) = m" "unat (vp_address vp) + 8 + n \<le> length m"
  shows "\<exists>vp'. vp_calculate_payload_checksum vp n = Some (0, vp') \<and>
     moved (vp\<lparr>vp_payload_result := sum (vp_initial vp) (take n (drop (unat (vp_address vp) + 8) m))\<rparr>) vp' m"
proof -
  have "length m \<le> SSIZE_MAX"
    using assms(1,2) size_law by (auto simp: attached_def wired_def)
  then have start: "sz_add (unat (vp_address vp)) VP_SIZE_META = unat (vp_address vp) + 8"
    using assms(3) by (simp add: vp_offsets size_simps SSIZE_MAX_def SIZE_MOD_def)
  have "unat (vp_address vp) + 8 \<le> length m"
    using assms(3) by simp
  then obtain vp1 where s: "vp_source_seek vp (unat (vp_address vp) + 8) = Some (0, vp1)" "moved vp vp1 m"
    "rpos (vp_medium vp1) = unat (vp_address vp) + 8"
    using source_seek_ok [OF assms(1,2)] by blast
  note f = moved_fields [OF s(2)]
  obtain vp2 where l: "payload_sum_loop vp1 (replicate 16 0) n (vp_initial vp1) =
      Some (Inr (sum (vp_initial vp1) (take n (drop (unat (vp_address vp) + 8) m))), vp2)" "moved vp1 vp2 m"
    using payload_sum_loop_ok [OF f(1,2), of "replicate 16 0" n "vp_initial vp1"] assms(3) s(3) by auto
  have "moved (vp\<lparr>vp_payload_result := w\<rparr>) (vp2\<lparr>vp_payload_result := w\<rparr>) m" for w
    using moved_updates(4) [OF moved_trans [OF s(2) l(2)]] .
  with s(1) l(1) f(8) start show ?thesis
    by (simp add: vp_calculate_payload_checksum_def maybe_ok)
qed

end

section \<open>Sections\<close>

text \<open>The octets of an intact section with version \<open>v\<close> and payload \<open>xs\<close>.\<close>

definition section_octets :: "(u16 \<Rightarrow> u8 list \<Rightarrow> u16) \<Rightarrow> endianness \<Rightarrow> u16 \<Rightarrow> u16 \<Rightarrow> u8 list \<Rightarrow> u8 list" where
  "section_octets S e init v xs =
     (let l = of_nat (length xs); p = S init xs in meta_block e (meta_sum S e init v l p) v l p @ xs)"

lemma length_section_octets [simp]: "length (section_octets S e init v xs) = 8 + length xs"
  by (simp add: section_octets_def Let_def)

lemma slice_overwrite: "off + length xs \<le> length m \<Longrightarrow> n \<le> length xs \<Longrightarrow> take n (drop off (overwrite m off xs)) = take n xs"
  by (simp add: overwrite_def)

lemma slice_overwrite_before: "off + n \<le> o2 \<Longrightarrow> o2 \<le> length m \<Longrightarrow> take n (drop off (overwrite m o2 xs)) = take n (drop off m)"
proof -
  assume a: "off + n \<le> o2" "o2 \<le> length m"
  then have "length (take o2 m) = o2" "n \<le> o2 - off"
    by auto
  with a show ?thesis
    by (simp add: overwrite_def drop_take min_absorb1)
qed

lemma slice_overwrite_after: "o2 + length xs \<le> off \<Longrightarrow> o2 + length xs \<le> length m \<Longrightarrow> take n (drop off (overwrite m o2 xs)) = take n (drop off m)"
  by (simp add: overwrite_def)

lemma slice_overwrite_inside:
  assumes "start \<le> off" "off + length xs \<le> start + n" "start + n \<le> length m"
  shows "take n (drop start (overwrite m off xs)) = overwrite (take n (drop start m)) (off - start) xs"
proof (cases "xs = []")
  case False
  then have "off - start < n" "0 < length xs"
    using assms by (auto simp flip: length_greater_0_conv)
  with assms show ?thesis
    by (simp add: overwrite_def drop_take min_def) (simp add: take_drop add.commute, arith)
qed simp

context checked_storage
begin

lemma moved_bits:
  assumes "moved vp vp' m"
  shows "moved (vp_set_bits vp b) (vp_set_bits vp' b) m" "moved (vp_clear_bits vp b) (vp_clear_bits vp' b) m"
  using assms by (simp_all add: moved_def vp_set_bits_def vp_clear_bits_def)

lemma attached_bits [simp]: "attached (vp_set_bits vp b) = attached vp" "attached (vp_clear_bits vp b) = attached vp"
  by (simp_all add: vp_set_bits_def vp_clear_bits_def)

lemma read_meta_ok:
  assumes "attached vp" "mem (vp_medium vp) = m" "length (vp_metablock vp) = 8" "unat (vp_address vp) + 8 \<le> length m"
    and block: "take 8 (drop (unat (vp_address vp)) m) = meta_block e h v l p" and "hc = meta_sum sum e (vp_initial vp) v l p"
    and "bits = VP_STATE_META_CACHE_FROM_STORAGE OR VP_STATE_META_CACHE_ACTIVE OR VP_STATE_META_CONSISTENT"
  shows "\<exists>vp'. vp_read_meta e vp = Some (if h = hc then 0 else - EBADFD, vp') \<and>
     moved (let vp1 = vp\<lparr>vp_metablock := meta_block e h v l p, vp_header_result := hc\<rparr>
       in if h = hc then vp_set_bits vp1 bits else vp_clear_bits vp1 bits) vp' m"
proof -
  have "unat (vp_address vp) \<le> length m"
    using assms(4) by simp
  then obtain vp1 where s: "vp_source_seek vp (unat (vp_address vp)) = Some (0, vp1)" "moved vp vp1 m" "rpos (vp_medium vp1) = unat (vp_address vp)"
    using source_seek_ok [OF assms(1,2)] by blast
  note f = moved_fields [OF s(2)]
  have b: "0 < (8 :: nat)" "8 \<le> length (vp_metablock vp1)" "length (vp_metablock vp1) \<le> SSIZE_MAX" "rpos (vp_medium vp1) + 8 \<le> length m"
    using f(3) assms(3,4) s(3) by (simp_all add: SSIZE_MAX_def)
  obtain vp2 where g: "vp_get_chunk vp1 (vp_metablock vp1) 8 = Some (8, overwrite (vp_metablock vp1) 0 (take 8 (drop (rpos (vp_medium vp1)) m)), vp2)"
    "moved vp1 vp2 m"
    using get_chunk_all [OF f(1,2) b] by auto
  have mb: "overwrite (vp_metablock vp1) 0 (take 8 (drop (rpos (vp_medium vp1)) m)) = meta_block e h v l p"
    using f(3) assms(3) s(3) block by (simp add: overwrite_def)
  note mv = moved_trans [OF s(2) g(2)]
  note f2 = moved_fields [OF mv]
  let ?vp3 = "vp2\<lparr>vp_metablock := meta_block e h v l p\<rparr>"
  have hs: "vp_calculate_header_checksum ?vp3 = Some (?vp3\<lparr>vp_header_result := hc\<rparr>)"
    using header_checksum_ok [of ?vp3 e h v l p] f2(8,9) assms(6) by simp
  have "moved (vp\<lparr>vp_metablock := meta_block e h v l p, vp_header_result := hc\<rparr>) (?vp3\<lparr>vp_header_result := hc\<rparr>) m"
    by (rule moved_updates(3) [OF moved_updates(1) [OF mv]])
  then have "moved (let vp1 = vp\<lparr>vp_metablock := meta_block e h v l p, vp_header_result := hc\<rparr>
       in if h = hc then vp_set_bits vp1 bits else vp_clear_bits vp1 bits)
     (if h = hc then vp_set_bits (?vp3\<lparr>vp_header_result := hc\<rparr>) bits else vp_clear_bits (?vp3\<lparr>vp_header_result := hc\<rparr>) bits) m"
    by (cases "h = hc") (auto simp: Let_def intro: moved_bits)
  moreover have "vp_read_meta e vp = Some (if h = hc then 0 else - EBADFD,
      if h = hc then vp_set_bits (?vp3\<lparr>vp_header_result := hc\<rparr>) bits else vp_clear_bits (?vp3\<lparr>vp_header_result := hc\<rparr>) bits)"
    using s(1) g(1) mb hs meta_words(1) [of "?vp3\<lparr>vp_header_result := hc\<rparr>" e h v l p] assms(7)
    by (simp add: vp_read_meta_def maybe_ok vp_offsets header_intact_def Let_def)
  ultimately show ?thesis
    by blast
qed

lemma store_header_ok:
  assumes "attached vp" "mem (vp_medium vp) = m" "length (vp_metablock vp) = 8" "unat (vp_address vp) + 8 \<le> length m"
  shows "\<exists>vp'. vp_store_header vp = Some (0, vp') \<and> moved vp vp' (overwrite m (unat (vp_address vp)) (vp_metablock vp))"
proof -
  have "unat (vp_address vp) \<le> length m"
    using assms(4) by simp
  then obtain vp1 where s: "vp_sink_seek vp (unat (vp_address vp)) = Some (0, vp1)" "moved vp vp1 m" "wpos (vp_medium vp1) = unat (vp_address vp)"
    using sink_seek_ok [OF assms(1,2)] by blast
  note f = moved_fields [OF s(2)]
  have b: "8 \<le> length (vp_metablock vp1)" "length (vp_metablock vp1) \<le> SSIZE_MAX" "wpos (vp_medium vp1) + 8 \<le> length m"
    using f(3) assms(3,4) s(3) by (simp_all add: SSIZE_MAX_def)
  obtain vp2 where p: "vp_put_chunk vp1 (vp_metablock vp1) 8 = Some (8, vp2)" "moved vp1 vp2 (overwrite m (unat (vp_address vp)) (vp_metablock vp))"
    using put_chunk_all [OF f(1,2) b] f(3) s(3) assms(3) by auto
  show ?thesis
    using s(1) p(1) moved_trans [OF s(2) p(2)] by (simp add: vp_store_header_def maybe_ok vp_offsets)
qed

lemma update_checksums_ok:
  assumes "attached vp" "mem (vp_medium vp) = m" "vp_metablock vp = meta_block e h v l p" "unat (vp_address vp) + 8 + unat l \<le> length m"
    and "pc = sum (vp_initial vp) (take (unat l) (drop (unat (vp_address vp) + 8) m))" and "hc = meta_sum sum e (vp_initial vp) v l pc"
  shows "\<exists>vp'. vp_update_checksums e vp = Some (0, vp') \<and>
     moved (vp\<lparr>vp_metablock := meta_block e hc v l pc, vp_header_result := hc, vp_payload_result := pc\<rparr>) vp' m"
proof -
  obtain vp1 where c: "vp_calculate_payload_checksum vp (unat l) = Some (0, vp1)" "moved (vp\<lparr>vp_payload_result := pc\<rparr>) vp1 m"
    using payload_checksum_ok [OF assms(1,2,4)] assms(5) by blast
  note f = moved_fields [OF c(2), simplified]
  have mb: "vp_metablock vp1 = meta_block e h v l p"
    using f(3) assms(3) by simp
  let ?vp2 = "vp1\<lparr>vp_metablock := meta_block e h v l pc\<rparr>"
  let ?vp3 = "vp1\<lparr>vp_header_result := hc, vp_metablock := meta_block e hc v l pc\<rparr>"
  have s2: "vp_calculate_header_checksum ?vp2 = Some (?vp2\<lparr>vp_header_result := hc\<rparr>)"
    using header_checksum_ok [of ?vp2 e h v l pc] f(8,9) assms(6) by simp
  have s3: "vp_calculate_header_checksum ?vp3 = Some ?vp3"
    using header_checksum_ok [of ?vp3 e hc v l pc] f(8,9) assms(6) by simp
  have "vp_update_checksums e vp = Some (0, ?vp3)"
    using c(1) meta_words(3) [OF assms(3)] meta_words(8) [OF mb, of pc] s2 s3 f(11)
      meta_words(5) [of "?vp2\<lparr>vp_header_result := hc\<rparr>" e h v l pc hc]
    by (simp add: vp_update_checksums_def maybe_ok)
  moreover have "moved (vp\<lparr>vp_metablock := meta_block e hc v l pc, vp_header_result := hc, vp_payload_result := pc\<rparr>) ?vp3 m"
    using c(2) by (simp add: moved_def)
  ultimately show ?thesis
    by blast
qed

end

lemma overwrite_prefix:
  assumes "take (length ys) (drop (off + length xs) m) = ys" "off + length xs + length ys \<le> length m"
  shows "overwrite m off (xs @ ys) = overwrite m off xs"
proof -
  have "drop (off + length xs) m = ys @ drop (off + length xs + length ys) m"
    using assms append_take_drop_id [of "length ys" "drop (off + length xs) m"] by (simp add: add.commute)
  then show ?thesis
    by (simp add: overwrite_def add.assoc)
qed

lemma overwrite_covers:
  assumes "a \<le> off" "off + length ys \<le> a + length xs" "a + length xs \<le> length m"
  shows "overwrite (overwrite m off ys) a xs = overwrite m a xs"
proof -
  have "take a (overwrite m off ys) = take a m"
    using assms by (simp add: overwrite_def min_absorb1)
  moreover have "drop (a + length xs) (overwrite m off ys) = drop (a + length xs) m"
    using assms by (simp add: overwrite_def)
  ultimately show ?thesis
    by (simp add: overwrite_def)
qed

definition kept :: "'d VersionedPersistence \<Rightarrow> 'd VersionedPersistence \<Rightarrow> bool" where
  "kept vp vp' \<longleftrightarrow> vp_address vp' = vp_address vp \<and> vp_spec_length vp' = vp_spec_length vp \<and>
     vp_spec_version vp' = vp_spec_version vp \<and> vp_initial vp' = vp_initial vp"

lemma kept_trans: "kept vp vp' \<Longrightarrow> kept vp' vp'' \<Longrightarrow> kept vp vp''"
  by (simp add: kept_def)

context checked_storage
begin

definition opened :: "endianness \<Rightarrow> 'd VersionedPersistence \<Rightarrow> u16 \<Rightarrow> u8 list \<Rightarrow> u8 list \<Rightarrow> bool" where
  "opened e vp v xs m \<longleftrightarrow> attached vp \<and> mem (vp_medium vp) = m \<and> length xs < 2 ^ 16 \<and> unat (vp_address vp) + 8 + length xs \<le> length m \<and>
     (\<exists>h p. vp_metablock vp = meta_block e h v (of_nat (length xs)) p) \<and> take (length xs) (drop (unat (vp_address vp) + 8) m) = xs \<and>
     vp_isset vp VP_STATE_META_CACHE_ACTIVE"

lemma openedD:
  assumes "opened e vp v xs m"
  shows "attached vp" "mem (vp_medium vp) = m" "length xs < 2 ^ 16" "unat (vp_address vp) + 8 + length xs \<le> length m"
    "take (length xs) (drop (unat (vp_address vp) + 8) m) = xs" "vp_isset vp VP_STATE_META_CACHE_ACTIVE"
    "get_length e vp = Some (of_nat (length xs))" "unat (of_nat (length xs) :: u16) = length xs" "with_meta_cache e vp = Some vp"
    "length m \<le> SSIZE_MAX" "vp_process vp = process" "length (vp_metablock vp) = 8"
proof -
  show b: "length xs < 2 ^ 16" "attached vp" "mem (vp_medium vp) = m"
    using assms by (simp_all add: opened_def)
  then show "unat (of_nat (length xs) :: u16) = length xs"
    by (simp add: unat_of_nat)
  show "get_length e vp = Some (of_nat (length xs))" "length (vp_metablock vp) = 8"
    using assms meta_words(3) by (auto simp: opened_def)
  show "with_meta_cache e vp = Some vp"
    using assms by (simp add: opened_def with_meta_cache_def)
  show "length m \<le> SSIZE_MAX" "vp_process vp = process"
    using b(2,3) size_law by (auto simp: attached_def wired_def)
qed (use assms in \<open>simp_all add: opened_def\<close>)

lemma start_of_payload:
  assumes "opened e vp v xs m" "offset + n \<le> length xs"
  shows "sz_add offset n = offset + n" "sz_add n offset = n + offset"
    "sz_add (sz_add (unat (vp_address vp)) VP_SIZE_META) offset = unat (vp_address vp) + 8 + offset"
    "unat (vp_address vp) + 8 + offset \<le> length m"
proof -
  have "length m < SIZE_MOD"
    using openedD(10) [OF assms(1)] by (rule SSIZE_MAX_less)
  with openedD(4) [OF assms(1)] assms(2)
  show "sz_add offset n = offset + n" "sz_add n offset = n + offset"
    "sz_add (sz_add (unat (vp_address vp)) VP_SIZE_META) offset = unat (vp_address vp) + 8 + offset"
    "unat (vp_address vp) + 8 + offset \<le> length m"
    by (simp_all add: vp_offsets size_simps)
qed

lemma update_meta_ok:
  assumes "opened e vp v xs m" and "sec = section_octets sum e (vp_initial vp) v xs"
  shows "\<exists>vp'. vp_update_meta e vp = Some (0, vp') \<and> opened e vp' v xs (overwrite m (unat (vp_address vp)) sec) \<and> kept vp vp' \<and>
     vp_state vp' = vp_state vp \<and> vp_metablock vp' = take 8 sec"
proof -
  note o = openedD [OF assms(1)]
  let ?l = "of_nat (length xs) :: u16" and ?pc = "sum (vp_initial vp) xs"
  let ?hc = "meta_sum sum e (vp_initial vp) v ?l ?pc" and ?a = "unat (vp_address vp)"
  obtain h p where mb: "vp_metablock vp = meta_block e h v ?l p"
    using assms(1) by (auto simp: opened_def)
  have fits: "unat (vp_address vp) + 8 + unat ?l \<le> length m" "?pc = sum (vp_initial vp) (take (unat ?l) (drop (?a + 8) m))"
    using o(4,5,8) by simp_all
  obtain vp1 where u: "vp_update_checksums e vp = Some (0, vp1)"
    "moved (vp\<lparr>vp_metablock := meta_block e ?hc v ?l ?pc, vp_header_result := ?hc, vp_payload_result := ?pc\<rparr>) vp1 m"
    using update_checksums_ok [OF o(1,2) mb fits refl] by blast
  note f = moved_fields [OF u(2), simplified]
  have b: "length (vp_metablock vp1) = 8" "unat (vp_address vp1) + 8 \<le> length m"
    using f(3,5) o(4) by simp_all
  obtain vp2 where s: "vp_store_header vp1 = Some (0, vp2)" "moved vp1 vp2 (overwrite m ?a (meta_block e ?hc v ?l ?pc))"
    using store_header_ok [OF f(1,2) b] f(3,5) by auto
  note f2 = moved_fields [OF s(2)]
  have sec: "sec = meta_block e ?hc v ?l ?pc @ xs"
    by (simp add: assms(2) section_octets_def Let_def)
  have ow: "overwrite m ?a (meta_block e ?hc v ?l ?pc) = overwrite m ?a sec"
    unfolding sec using o(4,5) by (intro overwrite_prefix [symmetric]) simp_all
  have pl: "take (length xs) (drop (?a + 8) (overwrite m ?a (meta_block e ?hc v ?l ?pc))) = xs"
    using slice_overwrite_after [of ?a "meta_block e ?hc v ?l ?pc" "?a + 8" m "length xs"] o(4,5) by simp
  have "opened e vp2 v xs (overwrite m ?a sec)"
    unfolding opened_def ow [symmetric]
    using f2(1-5) f(3-5) pl o(3,4,6) by (auto simp: vp_isset_def)
  with u(1) s(1) o(9) f2 f sec show ?thesis
    by (auto simp: vp_update_meta_def maybe_ok kept_def)
qed

text \<open>After octets of the payload have been written, the meta block is brought up to date.\<close>

lemma written_ok:
  assumes "opened e vp v xs m" and "moved vp vp2 (overwrite m (unat (vp_address vp) + 8 + offset) ys)" and "offset + length ys \<le> length xs"
    and "xs' = overwrite xs offset ys" and "sec = section_octets sum e (vp_initial vp) v xs'"
  shows "\<exists>vp'. vp_update_meta e vp2 = Some (0, vp') \<and> opened e vp' v xs' (overwrite m (unat (vp_address vp)) sec) \<and> kept vp vp' \<and>
     vp_state vp' = vp_state vp \<and> vp_metablock vp' = take 8 sec"
proof -
  note o = openedD [OF assms(1)] and f2 = moved_fields [OF assms(2)]
  let ?a = "unat (vp_address vp)"
  let ?m1 = "overwrite m (?a + 8 + offset) ys"
  have lm: "length ?m1 = length m" "length xs' = length xs"
    using o(4) assms(3,4) by simp_all
  have inside: "take (length xs) (drop (?a + 8) ?m1) = xs'"
    using slice_overwrite_inside [of "?a + 8" "?a + 8 + offset" ys "length xs" m] o(4,5) assms(3,4) by simp
  obtain h p where mb: "vp_metablock vp = meta_block e h v (of_nat (length xs)) p"
    using assms(1) by (auto simp: opened_def)
  have op: "opened e vp2 v xs' ?m1"
    unfolding opened_def using f2(1-5) inside lm o(3,4,6) mb by (auto simp: vp_isset_def)
  have init: "sec = section_octets sum e (vp_initial vp2) v xs'" "vp_address vp2 = vp_address vp"
    using assms(5) f2(5,8) by simp_all
  obtain vp3 where u: "vp_update_meta e vp2 = Some (0, vp3)" "opened e vp3 v xs' (overwrite ?m1 ?a sec)" "kept vp2 vp3"
    "vp_state vp3 = vp_state vp2" "vp_metablock vp3 = take 8 sec"
    using update_meta_ok [OF op init(1)] unfolding init(2) by blast
  have sub: "overwrite ?m1 ?a sec = overwrite m ?a sec"
    by (rule overwrite_covers) (use lm(2) o(4) assms(3) in \<open>simp_all add: assms(5)\<close>)
  have "kept vp vp3" "vp_state vp3 = vp_state vp"
    using u(3,4) f2(4-8) by (simp_all add: kept_def)
  with u(1,2,5) show ?thesis
    unfolding sub by blast
qed

lemma store_ok:
  assumes "opened e vp v xs m" and "vp_isset vp VP_STATE_META_CONSISTENT" and "offset + n \<le> length xs"
    and "n \<le> length src" "length src \<le> SSIZE_MAX"
    and "xs' = overwrite xs offset (take n src)" and "sec = section_octets sum e (vp_initial vp) v xs'"
  shows "\<exists>vp'. vp_store e vp src offset n = Some (int n, vp') \<and> opened e vp' v xs' (overwrite m (unat (vp_address vp)) sec) \<and> kept vp vp' \<and>
     vp_state vp' = vp_state vp \<and> vp_metablock vp' = take 8 sec"
proof -
  note o = openedD [OF assms(1)] and st = start_of_payload [OF assms(1,3)]
  let ?a = "unat (vp_address vp)"
  obtain vp1 where s: "vp_sink_seek vp (?a + 8 + offset) = Some (0, vp1)" "moved vp vp1 m" "wpos (vp_medium vp1) = ?a + 8 + offset"
    using sink_seek_ok [OF o(1,2) st(4)] by blast
  note f1 = moved_fields [OF s(2)]
  have room: "wpos (vp_medium vp1) + n \<le> length m"
    using s(3) o(4) assms(3) by simp
  obtain vp2 where p: "vp_put_chunk vp1 src n = Some (int n, vp2)" "moved vp1 vp2 (overwrite m (?a + 8 + offset) (take n src))"
    using put_chunk_all [OF f1(1,2) assms(4,5) room] s(3) by auto
  have len: "offset + length (take n src) \<le> length xs"
    using assms(3,4) by simp
  obtain vp3 where u: "vp_update_meta e vp2 = Some (0, vp3)" "opened e vp3 v xs' (overwrite m ?a sec)" "kept vp vp3"
    "vp_state vp3 = vp_state vp" "vp_metablock vp3 = take 8 sec"
    using written_ok [OF assms(1) moved_trans [OF s(2) p(2)] len assms(6,7)] by blast
  have "vp_store e vp src offset n = Some (int n, vp3)"
    using o(7-9) assms(2,3) st(1,3) s(1) p(1) u(1) by (simp add: vp_store_def maybe_ok)
  with u show ?thesis
    by blast
qed

lemma memset_loop_ok:
  assumes "attached vp" "mem (vp_medium vp) = m" "wpos (vp_medium vp) + rest \<le> length m"
  shows "\<exists>vp'. memset_loop vp (replicate 16 c) rest = Some (None, vp') \<and> moved vp vp' (overwrite m (wpos (vp_medium vp)) (replicate rest c))"
  using assms
proof (induction rest arbitrary: vp m rule: less_induct)
  case (less rest)
  show ?case
  proof (cases "rest = 0")
    case True
    with less.prems moved_refl [OF less.prems(1)] show ?thesis
      by (subst memset_loop.simps) simp
  next
    case False
    define k where "k = (if rest > 16 then 16 else rest)"
    have k: "0 < k" "k \<le> length (replicate 16 c)" "k \<le> rest" "rest - k < rest" "length (replicate 16 c) \<le> SSIZE_MAX"
      "wpos (vp_medium vp) + k \<le> length m"
      using False less.prems(3) by (simp_all add: k_def SSIZE_MAX_def)
    let ?w = "wpos (vp_medium vp)"
    let ?m1 = "overwrite m ?w (replicate k c)"
    obtain vp1 where r: "vp_put_chunk vp (replicate 16 c) k = Some (int k, vp1)" "moved vp vp1 ?m1" "wpos (vp_medium vp1) = ?w + k"
      using put_chunk_all [OF less.prems(1,2) k(2,5,6)] k(2) by (auto simp: min_absorb1)
    note f = moved_fields [OF r(2)]
    have rest: "wpos (vp_medium vp1) + (rest - k) \<le> length ?m1"
      using r(3) less.prems(3) k by simp
    obtain vp' where r': "memset_loop vp1 (replicate 16 c) (rest - k) = Some (None, vp')"
      "moved vp1 vp' (overwrite ?m1 (?w + k) (replicate (rest - k) c))"
      using less.IH [OF k(4) f(1,2) rest] r(3) by auto
    have "overwrite ?m1 (?w + k) (replicate (rest - k) c) = overwrite m ?w (replicate rest c)"
      using overwrite_append [of ?w "replicate k c" "replicate (rest - k) c" m] k(3) less.prems(3)
      by (simp flip: replicate_add)
    with r' moved_trans [OF r(2) r'(2)] r(1) False k(3) show ?thesis
      by (subst memset_loop.simps) (simp add: Let_def flip: k_def)
  qed
qed

lemma memset_ok:
  assumes "opened e vp v xs m" and "offset + n \<le> length xs"
    and "xs' = overwrite xs offset (replicate n c)" and "sec = section_octets sum e (vp_initial vp) v xs'"
  shows "\<exists>vp'. vp_memset e vp c offset n = Some (0, vp') \<and> opened e vp' v xs' (overwrite m (unat (vp_address vp)) sec) \<and> kept vp vp' \<and>
     vp_state vp' = vp_state vp \<and> vp_metablock vp' = take 8 sec"
proof -
  note o = openedD [OF assms(1)] and st = start_of_payload [OF assms(1,2)]
  let ?a = "unat (vp_address vp)"
  obtain vp1 where s: "vp_sink_seek vp (?a + 8 + offset) = Some (0, vp1)" "moved vp vp1 m" "wpos (vp_medium vp1) = ?a + 8 + offset"
    using sink_seek_ok [OF o(1,2) st(4)] by blast
  note f1 = moved_fields [OF s(2)]
  have room: "wpos (vp_medium vp1) + n \<le> length m"
    using s(3) o(4) assms(2) by simp
  obtain vp2 where p: "memset_loop vp1 (replicate 16 c) n = Some (None, vp2)" "moved vp1 vp2 (overwrite m (?a + 8 + offset) (replicate n c))"
    using memset_loop_ok [OF f1(1,2) room] s(3) by auto
  have len: "offset + length (replicate n c) \<le> length xs"
    using assms(2) by simp
  obtain vp3 where u: "vp_update_meta e vp2 = Some (0, vp3)" "opened e vp3 v xs' (overwrite m ?a sec)" "kept vp vp3"
    "vp_state vp3 = vp_state vp" "vp_metablock vp3 = take 8 sec"
    using written_ok [OF assms(1) moved_trans [OF s(2) p(2)] len assms(3,4)] by blast
  have "vp_memset e vp c offset n = Some (0, vp3)"
    using o(7-9) assms(2) st(2,3) s(1) p(1) u(1) by (simp add: vp_memset_def maybe_ok)
  with u show ?thesis
    by blast
qed

end

lemma vp_isset_state: "vp_state vp = vp_state vp' \<Longrightarrow> vp_isset vp b = vp_isset vp' b"
  by (simp add: vp_isset_def)

lemma bits_fields [simp]:
  "vp_metablock (vp_set_bits vp b) = vp_metablock vp" "vp_metablock (vp_clear_bits vp b) = vp_metablock vp"
  "vp_address (vp_set_bits vp b) = vp_address vp" "vp_address (vp_clear_bits vp b) = vp_address vp"
  "vp_spec_length (vp_set_bits vp b) = vp_spec_length vp" "vp_spec_length (vp_clear_bits vp b) = vp_spec_length vp"
  "vp_spec_version (vp_set_bits vp b) = vp_spec_version vp" "vp_spec_version (vp_clear_bits vp b) = vp_spec_version vp"
  "vp_initial (vp_set_bits vp b) = vp_initial vp" "vp_initial (vp_clear_bits vp b) = vp_initial vp"
  "vp_medium (vp_set_bits vp b) = vp_medium vp" "vp_medium (vp_clear_bits vp b) = vp_medium vp"
  "vp_header_result (vp_set_bits vp b) = vp_header_result vp" "vp_header_result (vp_clear_bits vp b) = vp_header_result vp"
  "vp_payload_result (vp_set_bits vp b) = vp_payload_result vp" "vp_payload_result (vp_clear_bits vp b) = vp_payload_result vp"
  by (simp_all add: vp_set_bits_def vp_clear_bits_def)

context checked_storage
begin

lemma verify_ok:
  assumes "attached vp" "mem (vp_medium vp) = m" "vp_metablock vp = meta_block e h v l p" "unat (vp_address vp) + 8 + n \<le> length m"
    and "pc = sum (vp_initial vp) (take n (drop (unat (vp_address vp) + 8) m))"
  shows "\<exists>vp'. vp_verify_payload e vp n = Some (if p = pc then 0 else - EBADMSG, vp') \<and> moved (vp\<lparr>vp_payload_result := pc\<rparr>) vp' m"
proof -
  obtain vp1 where c: "vp_calculate_payload_checksum vp n = Some (0, vp1)" "moved (vp\<lparr>vp_payload_result := pc\<rparr>) vp1 m"
    using payload_checksum_ok [OF assms(1,2,4)] assms(5) by blast
  note f = moved_fields [OF c(2), simplified]
  have "payload_intact e vp1 = Some (p = pc)"
    using meta_words(4) [of vp1 e h v l p] f(3,11) assms(3) by (simp add: payload_intact_def)
  with c show ?thesis
    by (auto simp: vp_verify_payload_def maybe_ok)
qed

definition compatible :: "'d VersionedPersistence \<Rightarrow> u16 \<Rightarrow> u16 \<Rightarrow> 'd VersionedPersistence" where
  "compatible vp v l =
     (let vp = (if v = vp_spec_version vp then vp_set_bits vp VP_STATE_VERSION_COMPATIBLE else vp)
      in if l = vp_spec_length vp then
           (let vp = vp_set_bits vp VP_STATE_LENGTH_COMPATIBLE
            in if vp_isset vp VP_STATE_VERSION_COMPATIBLE then vp_set_bits vp VP_STATE_PAYLOAD_COMPATIBLE else vp)
         else vp)"

lemma compatible_bits:
  assumes "vp_state vp = ucast (VP_STATE_META_CACHE_FROM_STORAGE OR VP_STATE_META_CACHE_ACTIVE OR VP_STATE_META_CONSISTENT)"
  shows "bit (vp_state (compatible vp v l)) 0" "bit (vp_state (compatible vp v l)) 2" "\<not> bit (vp_state (compatible vp v l)) 3"
    "bit (vp_state (compatible vp v l)) 4 \<longleftrightarrow> v = vp_spec_version vp \<and> l = vp_spec_length vp"
  by (auto simp: compatible_def Let_def assms vp_flags bit_ucast_iff)

lemma compatible_moved: "attached vp \<Longrightarrow> moved (vp\<lparr>vp_state := vp_state (compatible vp v l)\<rparr>) (compatible vp v l) (mem (vp_medium vp))"
  by (simp add: moved_def compatible_def attached_def Let_def vp_set_bits_def)

lemma load_damaged_header:
  assumes "attached vp" "mem (vp_medium vp) = m" "length (vp_metablock vp) = 8" "unat (vp_address vp) + 8 \<le> length m"
    and "take 8 (drop (unat (vp_address vp)) m) = meta_block e h v l p" and "h \<noteq> meta_sum sum e (vp_initial vp) v l p"
  shows "\<exists>vp'. vp_load e vp = Some (- EBADFD, vp') \<and> vp_state vp' = 0 \<and> kept vp vp' \<and> attached vp' \<and> mem (vp_medium vp') = m"
proof -
  let ?vp = "vp\<lparr>vp_state := 0\<rparr>"
  have a: "attached ?vp" "mem (vp_medium ?vp) = m" "length (vp_metablock ?vp) = 8" "unat (vp_address ?vp) + 8 \<le> length m"
    "take 8 (drop (unat (vp_address ?vp)) m) = meta_block e h v l p"
    using assms by simp_all
  obtain vp1 where r: "vp_read_meta e ?vp = Some (- EBADFD, vp1)"
    "moved (vp_clear_bits (?vp\<lparr>vp_metablock := meta_block e h v l p, vp_header_result := meta_sum sum e (vp_initial vp) v l p\<rparr>)
       (VP_STATE_META_CACHE_FROM_STORAGE OR VP_STATE_META_CACHE_ACTIVE OR VP_STATE_META_CONSISTENT)) vp1 m"
    using read_meta_ok [OF a refl refl] assms(6) by (auto simp: Let_def)
  note f = moved_fields [OF r(2), simplified]
  have "vp_load e vp = Some (- EBADFD, vp1)"
    using r(1) by (simp add: vp_load_def maybe_error errno_defs)
  moreover have "vp_state vp1 = 0"
    using f(4) by (simp add: vp_clear_bits_def BIT_CLEAR_def)
  ultimately show ?thesis
    using f by (auto simp: kept_def vp_clear_bits_def)
qed

lemma load_ok:
  assumes "attached vp" "mem (vp_medium vp) = m" "length (vp_metablock vp) = 8" "unat (vp_address vp) + 8 + unat l \<le> length m"
    and "take 8 (drop (unat (vp_address vp)) m) = meta_block e h v l p" and "h = meta_sum sum e (vp_initial vp) v l p"
    and "xs = take (unat l) (drop (unat (vp_address vp) + 8) m)"
  shows "\<exists>vp'. vp_load e vp = Some (if p = sum (vp_initial vp) xs then 0 else - EBADMSG, vp') \<and> opened e vp' v xs m \<and> kept vp vp' \<and>
     vp_isset vp' VP_STATE_META_CONSISTENT \<and> (vp_isset vp' VP_STATE_PAYLOAD_CONSISTENT \<longleftrightarrow> p = sum (vp_initial vp) xs) \<and>
     (vp_usable vp' \<longleftrightarrow> p = sum (vp_initial vp) xs \<and> v = vp_spec_version vp \<and> l = vp_spec_length vp) \<and> vp_metablock vp' = meta_block e h v l p"
proof -
  let ?vp = "vp\<lparr>vp_state := 0\<rparr>" and ?pc = "sum (vp_initial vp) xs"
  let ?bits = "VP_STATE_META_CACHE_FROM_STORAGE OR VP_STATE_META_CACHE_ACTIVE OR VP_STATE_META_CONSISTENT"
  have a: "attached ?vp" "mem (vp_medium ?vp) = m" "length (vp_metablock ?vp) = 8" "unat (vp_address ?vp) + 8 \<le> length m"
    "take 8 (drop (unat (vp_address ?vp)) m) = meta_block e h v l p" "h = meta_sum sum e (vp_initial ?vp) v l p"
    using assms by simp_all
  obtain vp1 where r: "vp_read_meta e ?vp = Some (0, vp1)"
    "moved (vp_set_bits (?vp\<lparr>vp_metablock := meta_block e h v l p, vp_header_result := h\<rparr>) ?bits) vp1 m"
    using read_meta_ok [OF a refl] by (auto simp: Let_def)
  note f = moved_fields [OF r(2), simplified]
  have st: "vp_state vp1 = ucast ?bits"
    using f(4) by (simp add: vp_set_bits_def BIT_SET_def)
  have f': "vp_address vp1 = vp_address vp" "vp_metablock vp1 = meta_block e h v l p" "vp_spec_length vp1 = vp_spec_length vp"
    "vp_spec_version vp1 = vp_spec_version vp" "vp_initial vp1 = vp_initial vp"
    using f(3,5-8) by (simp_all add: vp_set_bits_def)
  let ?vp2 = "compatible vp1 v l"
  note c = moved_fields [OF compatible_moved [OF f(1), of v l], simplified] and cb = compatible_bits [OF st, of v l]
  have v: "attached ?vp2" "mem (vp_medium ?vp2) = m" "vp_metablock ?vp2 = meta_block e h v l p" "unat (vp_address ?vp2) + 8 + unat l \<le> length m"
    "?pc = sum (vp_initial ?vp2) (take (unat l) (drop (unat (vp_address ?vp2) + 8) m))"
    using c f(2) f' assms(4,7) by simp_all
  obtain vp3 where w: "vp_verify_payload e ?vp2 (unat l) = Some (if p = ?pc then 0 else - EBADMSG, vp3)" "moved (?vp2\<lparr>vp_payload_result := ?pc\<rparr>) vp3 m"
    using verify_ok [OF v] by blast
  note g = moved_fields [OF w(2), simplified]
  define vp4 where "vp4 = (if p = ?pc then vp_set_bits vp3 VP_STATE_PAYLOAD_CONSISTENT else vp3)"
  have "vp_load e vp = maybe (vp_verify_payload e ?vp2 (unat l)) (\<lambda>vp. Some (0, vp_set_bits vp VP_STATE_PAYLOAD_CONSISTENT))"
    by (simp add: vp_load_def r(1) maybe_ok meta_words(2,3) [OF f'(2)] compatible_def Let_def)
  then have "vp_load e vp = Some (if p = ?pc then 0 else - EBADMSG, vp4)"
    using w(1) by (simp add: maybe_ok maybe_error errno_defs vp4_def)
  moreover have xs: "length xs = unat l" "take (length xs) (drop (unat (vp_address vp) + 8) m) = xs"
    using assms(4,7) by auto
  have bits: "bit (vp_state vp4) i \<longleftrightarrow> bit (vp_state ?vp2) i \<or> i = 3 \<and> p = ?pc" if "i < 16" for i
    using that g(4) by (auto simp: vp4_def vp_flags)
  have o4: "attached vp4" "mem (vp_medium vp4) = m" "vp_address vp4 = vp_address vp" "vp_metablock vp4 = meta_block e h v l p"
    "kept vp vp4"
    using g c f' by (simp_all add: vp4_def kept_def vp_set_bits_def)
  moreover have "opened e vp4 v xs m"
    unfolding opened_def using o4 xs assms(4) cb(1) bits [of 0] unsigned_less [of l]
    by (auto simp: vp_flags)
  ultimately show ?thesis
    using cb bits f'(3,4) by (auto simp: vp_usable_def vp_flags)
qed

lemma fetch_ok:
  assumes "opened e vp v xs m" and "vp_isset vp (VP_STATE_PAYLOAD_CONSISTENT OR VP_STATE_META_CONSISTENT)" and "offset + n \<le> length xs"
    and "0 < n" "n \<le> length dst" "length dst \<le> SSIZE_MAX"
  shows "\<exists>vp'. vp_fetch e vp dst offset n = Some (int n, overwrite dst 0 (take n (drop offset xs)), vp') \<and> moved vp vp' m"
proof -
  note o = openedD [OF assms(1)] and st = start_of_payload [OF assms(1,3)]
  let ?a = "unat (vp_address vp)"
  obtain vp1 where s: "vp_source_seek vp (?a + 8 + offset) = Some (0, vp1)" "moved vp vp1 m" "rpos (vp_medium vp1) = ?a + 8 + offset"
    using source_seek_ok [OF o(1,2) st(4)] by blast
  note f1 = moved_fields [OF s(2)]
  have room: "rpos (vp_medium vp1) + n \<le> length m"
    using s(3) o(4) assms(3) by simp
  obtain vp2 where p: "vp_get_chunk vp1 dst n = Some (int n, overwrite dst 0 (take n (drop (?a + 8 + offset) m)), vp2)" "moved vp1 vp2 m"
    using get_chunk_all [OF f1(1,2) assms(4-6) room] s(3) by auto
  have "take n (drop offset (take (length xs) (drop (?a + 8) m))) = take n (drop (?a + 8 + offset) m)"
    using assms(3) by (simp add: drop_take min_absorb1 add.commute)
  then have "take n (drop (?a + 8 + offset) m) = take n (drop offset xs)"
    using o(5) by simp
  then have "vp_fetch e vp dst offset n = Some (int n, overwrite dst 0 (take n (drop offset xs)), vp2)"
    using o(6-8) assms(2,3) st(1,3) s(1) p(1) by (simp add: vp_fetch_def maybe_ok)
  with moved_trans [OF s(2) p(2)] show ?thesis
    by blast
qed

end

context checked_storage
begin

lemma format_ok:
  assumes "attached vp" "mem (vp_medium vp) = m" "length (vp_metablock vp) = 8"
    and "unat (vp_address vp) + 8 + unat (vp_spec_length vp) \<le> length m"
    and "xs = take (unat (vp_spec_length vp)) (drop (unat (vp_address vp) + 8) m)" and "pc = sum (vp_initial vp) xs XOR VP_CHKSUM_MAX"
    and "b = meta_block e (meta_sum sum e (vp_initial vp) (vp_spec_version vp) (vp_spec_length vp) pc) (vp_spec_version vp) (vp_spec_length vp) pc"
  shows "\<exists>vp'. vp_format e vp = Some (0, vp') \<and> opened e vp' (vp_spec_version vp) xs (overwrite m (unat (vp_address vp)) b) \<and> kept vp vp' \<and>
     vp_isset vp' VP_STATE_META_CONSISTENT \<and> vp_metablock vp' = b"
proof -
  let ?v = "vp_spec_version vp" and ?l = "vp_spec_length vp" and ?a = "unat (vp_address vp)" and ?pc = "sum (vp_initial vp) xs"
  let ?hc = "\<lambda>p. meta_sum sum e (vp_initial vp) ?v ?l p"
  obtain h v l p where mb: "vp_metablock vp = meta_block e h v l p"
    using meta_block_exists [OF assms(3), of e] by blast
  define vp1 where "vp1 = vp_clear_bits (vp_set_bits (vp\<lparr>vp_metablock := meta_block e h ?v ?l p\<rparr>) VP_STATE_META_CACHE_ACTIVE) VP_STATE_META_CACHE_FROM_STORAGE"
  have load: "load_meta_from_spec e vp = Some vp1"
    using meta_words(6) [OF mb] meta_words(7) [of "vp\<lparr>vp_metablock := meta_block e h ?v l p\<rparr>" e h ?v l p]
    by (simp add: load_meta_from_spec_def vp1_def)
  have f1: "attached vp1" "mem (vp_medium vp1) = m" "vp_metablock vp1 = meta_block e h ?v ?l p" "vp_address vp1 = vp_address vp"
    "vp_initial vp1 = vp_initial vp" "kept vp vp1"
    using assms(1,2) by (simp_all add: vp1_def kept_def)
  have act: "bit (vp_state vp1) 0"
    by (simp add: vp1_def vp_flags)
  have u: "unat (vp_address vp1) + 8 + unat ?l \<le> length m" "?pc = sum (vp_initial vp1) (take (unat ?l) (drop (unat (vp_address vp1) + 8) m))"
    "?hc ?pc = meta_sum sum e (vp_initial vp1) ?v ?l ?pc"
    using f1 assms(4,5) by simp_all
  obtain vp2 where c: "vp_update_checksums e vp1 = Some (0, vp2)"
    "moved (vp1\<lparr>vp_metablock := meta_block e (?hc ?pc) ?v ?l ?pc, vp_header_result := ?hc ?pc, vp_payload_result := ?pc\<rparr>) vp2 m"
    using update_checksums_ok [OF f1(1-3) u] by blast
  note f2 = moved_fields [OF c(2), simplified]
  define vp3 where "vp3 = vp_clear_bits (vp2\<lparr>vp_metablock := meta_block e (?hc ?pc) ?v ?l pc\<rparr>) VP_STATE_PAYLOAD_CONSISTENT"
  define vp4 where "vp4 = vp3\<lparr>vp_header_result := ?hc pc, vp_metablock := b\<rparr>"
  have put: "put_payload_chksum e vp2 pc = Some (vp2\<lparr>vp_metablock := meta_block e (?hc ?pc) ?v ?l pc\<rparr>)"
    "get_payload_chksum e vp2 = Some ?pc"
    using meta_words(4,8) [OF f2(3)] by simp_all
  have hs: "vp_calculate_header_checksum vp3 = Some (vp3\<lparr>vp_header_result := ?hc pc\<rparr>)"
    using header_checksum_ok [of vp3 e "?hc ?pc" ?v ?l pc] f2(8,9) f1(5) by (simp add: vp3_def vp_clear_bits_def)
  have ph: "put_header_chksum e (vp3\<lparr>vp_header_result := ?hc pc\<rparr>) (?hc pc) = Some vp4"
    using meta_words(5) [of "vp3\<lparr>vp_header_result := ?hc pc\<rparr>" e "?hc ?pc" ?v ?l pc "?hc pc"]
    by (simp add: vp3_def vp4_def assms(7))
  have f4: "attached vp4" "mem (vp_medium vp4) = m" "length (vp_metablock vp4) = 8" "unat (vp_address vp4) + 8 \<le> length m"
     "vp_address vp4 = vp_address vp" "vp_metablock vp4 = b" "kept vp vp4" "vp_initial vp4 = vp_initial vp"
    using f2 f1 assms(4,7) by (simp_all add: vp3_def vp4_def kept_def)
  obtain vp5 where s: "vp_store_header vp4 = Some (0, vp5)" "moved vp4 vp5 (overwrite m ?a b)"
    using store_header_ok [OF f4(1-4)] unfolding f4(5,6) by blast
  note f5 = moved_fields [OF s(2)]
  have inval: "vp_invalidate e vp1 VP_DATA_PAYLOAD = Some (0, vp5)"
    using act c(1) put hs ph s(1) assms(6) f2(11)
    by (simp add: vp_invalidate_def with_meta_cache_def vp_flags maybe_ok VP_DATA_PAYLOAD_def VP_DATA_META_def BIT_ISSET_BIT)
      (simp add: vp3_def vp_flags BIT_def)
  have b8: "length b = 8"
    by (simp add: assms(7))
  let ?m = "overwrite m ?a b"
  have lm: "length ?m = length m"
    using assms(4) b8 by simp
  have r: "length (vp_metablock vp5) = 8" "unat (vp_address vp5) + 8 \<le> length ?m"
    "take 8 (drop (unat (vp_address vp5)) ?m) = meta_block e (?hc pc) ?v ?l pc" "?hc pc = meta_sum sum e (vp_initial vp5) ?v ?l pc"
    using f5(3,5,8) f4 lm b8 slice_overwrite [of ?a b m 8] assms(4,7) by simp_all
  obtain vp6 where g: "vp_read_meta e vp5 = Some (0, vp6)"
    "moved (vp_set_bits (vp5\<lparr>vp_metablock := b, vp_header_result := ?hc pc\<rparr>)
       (VP_STATE_META_CACHE_FROM_STORAGE OR VP_STATE_META_CACHE_ACTIVE OR VP_STATE_META_CONSISTENT)) vp6 ?m"
    using read_meta_ok [OF f5(1,2) r refl] assms(7) by (auto simp: Let_def)
  note f6 = moved_fields [OF g(2), simplified]
  have fmt: "vp_format e vp = Some (0, vp6)"
    using load inval g(1) by (simp add: vp_format_def maybe_ok)
  have k: "kept vp vp6"
    using f4(7) f5(5-8) f6(5-8) by (simp add: kept_def)
  have fl: "vp_isset vp6 VP_STATE_META_CONSISTENT" "vp_isset vp6 VP_STATE_META_CACHE_ACTIVE"
    using f6(4) by (simp_all add: vp_flags)
  have xs: "length xs = unat ?l" "of_nat (length xs) = ?l"
    using assms(4,5) by simp_all
  have pl: "take (length xs) (drop (?a + 8) ?m) = xs"
    using slice_overwrite_after [of ?a b "?a + 8" m "length xs"] b8 assms(4,5) xs(1) by simp
  have "opened e vp6 ?v xs ?m"
    unfolding opened_def using f6(1-3,5) f5(5) f4(5) lm xs pl fl assms(4,7) unsigned_less [of ?l] by auto
  with fmt k fl f6(3) show ?thesis
    by auto
qed

end

text \<open>Calls on an open section, and on an array of octets.\<close>

datatype vp_op = VStore nat "u8 list" | VFill nat u8 nat | VFetch nat nat | VLoad

fun vp_step :: "endianness \<Rightarrow> 'd VersionedPersistence \<Rightarrow> vp_op \<Rightarrow> ((int \<times> u8 list) \<times> 'd VersionedPersistence) option" where
  "vp_step e vp (VStore off ys) = do { (rc, vp) \<leftarrow> vp_store e vp ys off (length ys); Some ((rc, []), vp) }"
| "vp_step e vp (VFill off c n) = do { (rc, vp) \<leftarrow> vp_memset e vp c off n; Some ((rc, []), vp) }"
| "vp_step e vp (VFetch off n) = do { (rc, dst, vp) \<leftarrow> vp_fetch e vp (replicate n 0) off n; Some ((rc, if rc < 0 then [] else dst), vp) }"
| "vp_step e vp VLoad = do { (rc, vp) \<leftarrow> vp_load e vp; Some ((rc, []), vp) }"

fun vp_run :: "endianness \<Rightarrow> 'd VersionedPersistence \<Rightarrow> vp_op list \<Rightarrow> ((int \<times> u8 list) list \<times> 'd VersionedPersistence) option" where
  "vp_run e vp [] = Some ([], vp)"
| "vp_run e vp (op # ops) = do { (r, vp) \<leftarrow> vp_step e vp op; (rs, vp) \<leftarrow> vp_run e vp ops; Some (r # rs, vp) }"

fun array_step :: "u8 list \<Rightarrow> vp_op \<Rightarrow> (int \<times> u8 list) \<times> u8 list" where
  "array_step xs (VStore off ys) = (if off + length ys \<le> length xs then ((int (length ys), []), overwrite xs off ys) else ((- EFAULT, []), xs))"
| "array_step xs (VFill off c n) = (if off + n \<le> length xs then ((0, []), overwrite xs off (replicate n c)) else ((- EINVAL, []), xs))"
| "array_step xs (VFetch off n) = ((if off + n > length xs then (- EFAULT, []) else if n = 0 then (- EINVAL, []) else (int n, take n (drop off xs))), xs)"
| "array_step xs VLoad = ((0, []), xs)"

fun array_run :: "u8 list \<Rightarrow> vp_op list \<Rightarrow> (int \<times> u8 list) list \<times> u8 list" where
  "array_run xs [] = ([], xs)"
| "array_run xs (op # ops) = (let (r, xs) = array_step xs op; (rs, xs) = array_run xs ops in (r # rs, xs))"

fun op_small :: "vp_op \<Rightarrow> bool" where
  "op_small (VStore off ys) \<longleftrightarrow> off + length ys < SIZE_MOD"
| "op_small (VFill off c n) \<longleftrightarrow> off + n < SIZE_MOD"
| "op_small (VFetch off n) \<longleftrightarrow> off + n < SIZE_MOD"
| "op_small VLoad \<longleftrightarrow> True"

lemma length_array_step: "length (snd (array_step xs op)) = length xs"
  by (cases op) simp_all

context checked_storage
begin

definition ready :: "endianness \<Rightarrow> 'd VersionedPersistence \<Rightarrow> u16 \<Rightarrow> u8 list \<Rightarrow> u8 list \<Rightarrow> bool" where
  "ready e vp v xs m \<longleftrightarrow> opened e vp v xs m \<and> vp_isset vp (VP_STATE_PAYLOAD_CONSISTENT OR VP_STATE_META_CONSISTENT) \<and>
     take (8 + length xs) (drop (unat (vp_address vp)) m) = section_octets sum e (vp_initial vp) v xs"

lemma section_in_place:
  assumes "take (length s) (drop a m) = s" "a + length s \<le> length m"
  shows "overwrite m a s = m"
proof -
  have "s @ drop (a + length s) m = drop a m"
    using assms append_take_drop_id [of "length s" "drop a m"] by (simp add: add.commute)
  then show ?thesis
    by (simp add: overwrite_def)
qed

lemma section_parts:
  assumes "take (8 + length xs) (drop a m) = section_octets S e init v xs" "a + 8 + length xs \<le> length m" "length xs < 2 ^ 16"
    and "l = of_nat (length xs)"
  shows "take 8 (drop a m) = meta_block e (meta_sum S e init v l (S init xs)) v l (S init xs)"
    "take (length xs) (drop (a + 8) m) = xs" "unat (l :: u16) = length xs"
proof -
  have s: "section_octets S e init v xs = meta_block e (meta_sum S e init v l (S init xs)) v l (S init xs) @ xs"
    by (simp add: section_octets_def Let_def assms(4))
  have "take 8 (take (8 + length xs) (drop a m)) = take 8 (drop a m)" "drop 8 (take (8 + length xs) (drop a m)) = take (length xs) (drop (a + 8) m)"
    by (simp_all add: drop_take add.commute)
  then show "take 8 (drop a m) = meta_block e (meta_sum S e init v l (S init xs)) v l (S init xs)" "take (length xs) (drop (a + 8) m) = xs"
    using assms(2) unfolding assms(1) s by (simp_all add: min_absorb2)
  show "unat l = length xs"
    using assms(3,4) by (simp add: unat_of_nat)
qed

lemma ready_section: "ready e vp v xs m \<Longrightarrow> overwrite m (unat (vp_address vp)) (section_octets sum e (vp_initial vp) v xs) = m"
  by (rule section_in_place) (simp_all add: ready_def opened_def)

text \<open>What has been stored is in place again.\<close>

lemma ready_again:
  assumes "ready e vp v xs m" "opened e vp' v xs' (overwrite m (unat (vp_address vp)) sec)" "kept vp vp'" "vp_state vp' = vp_state vp"
    and "length xs' = length xs" "sec = section_octets sum e (vp_initial vp) v xs'"
  shows "ready e vp' v xs' (overwrite m (unat (vp_address vp)) sec)"
proof -
  have "unat (vp_address vp) + length sec \<le> length m" "length sec = 8 + length xs'"
    using assms(1,5,6) by (simp_all add: ready_def opened_def)
  then have "take (8 + length xs') (drop (unat (vp_address vp)) (overwrite m (unat (vp_address vp)) sec)) = sec"
    using slice_overwrite [of "unat (vp_address vp)" sec m "8 + length xs'"] by simp
  with assms show ?thesis
    by (simp add: ready_def kept_def vp_isset_def)
qed

lemma ready_moved: "ready e vp v xs m \<Longrightarrow> moved vp vp' m \<Longrightarrow> ready e vp' v xs m \<and> kept vp vp'"
  using moved_fields [of vp vp' m] by (auto simp: ready_def opened_def vp_isset_def kept_def)

lemma load_ready:
  assumes "attached vp" "mem (vp_medium vp) = m" "length (vp_metablock vp) = 8" "unat (vp_address vp) + 8 + length xs \<le> length m" "length xs < 2 ^ 16"
    and "take (8 + length xs) (drop (unat (vp_address vp)) m) = section_octets sum e (vp_initial vp) v xs"
  shows "\<exists>vp'. vp_load e vp = Some (0, vp') \<and> ready e vp' v xs m \<and> kept vp vp' \<and>
     (vp_usable vp' \<longleftrightarrow> v = vp_spec_version vp \<and> of_nat (length xs) = vp_spec_length vp)"
proof -
  let ?l = "of_nat (length xs) :: u16"
  note p = section_parts [OF assms(6,4,5) refl]
  have fits: "unat (vp_address vp) + 8 + unat ?l \<le> length m" "xs = take (unat ?l) (drop (unat (vp_address vp) + 8) m)"
    using assms(4) p(2,3) by simp_all
  obtain vp' where l: "vp_load e vp = Some (0, vp')" "opened e vp' v xs m" "kept vp vp'" "vp_isset vp' VP_STATE_META_CONSISTENT"
    "vp_isset vp' VP_STATE_PAYLOAD_CONSISTENT" "vp_usable vp' \<longleftrightarrow> v = vp_spec_version vp \<and> ?l = vp_spec_length vp"
    using load_ok [OF assms(1-3) fits(1) p(1) refl fits(2)] by auto
  then have "ready e vp' v xs m"
    using assms(6) by (simp add: ready_def vp_isset_or kept_def)
  with l show ?thesis
    by blast
qed

lemma step_ok:
  assumes "ready e vp v xs m" "op_small op" "array_step xs op = (r, xs')"
  shows "\<exists>vp'. vp_step e vp op = Some (r, vp') \<and> kept vp vp' \<and>
     ready e vp' v xs' (overwrite m (unat (vp_address vp)) (section_octets sum e (vp_initial vp) v xs'))"
proof -
  have o: "opened e vp v xs m" and fl: "vp_isset vp VP_STATE_META_CONSISTENT" "vp_isset vp (VP_STATE_PAYLOAD_CONSISTENT OR VP_STATE_META_CONSISTENT)"
    using assms(1) by (simp_all add: ready_def vp_isset_or)
  note od = openedD [OF o] and bk = ready_section [OF assms(1)]
  have same: "kept vp vp" "ready e vp v xs (overwrite m (unat (vp_address vp)) (section_octets sum e (vp_initial vp) v xs))"
    using assms(1) bk by (simp_all add: kept_def)
  show ?thesis
  proof (cases op)
    case (VStore off ys)
    show ?thesis
    proof (cases "off + length ys \<le> length xs")
      case True
      have ys: "length ys \<le> length ys" "length ys \<le> SSIZE_MAX" "overwrite xs off ys = overwrite xs off (take (length ys) ys)"
        using True od(3) by (simp_all add: SSIZE_MAX_def)
      from store_ok [OF o fl(1) True ys refl] obtain vp' where
        s: "vp_store e vp ys off (length ys) = Some (int (length ys), vp')" "kept vp vp'" "vp_state vp' = vp_state vp"
          "opened e vp' v (overwrite xs off ys) (overwrite m (unat (vp_address vp)) (section_octets sum e (vp_initial vp) v (overwrite xs off ys)))"
        by blast
      with ready_again [OF assms(1) s(4,2,3) _ refl] True assms(3) VStore show ?thesis
        by auto
    next
      case False
      then show ?thesis
        using VStore assms(2,3) same fl od by (auto simp: vp_store_def size_simps)
    qed
  next
    case (VFill off c n)
    show ?thesis
    proof (cases "off + n \<le> length xs")
      case True
      from memset_ok [OF o True refl refl] obtain vp' where
        s: "vp_memset e vp c off n = Some (0, vp')" "kept vp vp'" "vp_state vp' = vp_state vp"
          "opened e vp' v (overwrite xs off (replicate n c)) (overwrite m (unat (vp_address vp)) (section_octets sum e (vp_initial vp) v (overwrite xs off (replicate n c))))"
        by blast
      with ready_again [OF assms(1) s(4,2,3) _ refl] True assms(3) VFill show ?thesis
        by auto
    next
      case False
      then show ?thesis
        using VFill assms(2,3) same od by (auto simp: vp_memset_def size_simps add.commute)
    qed
  next
    case (VFetch off n)
    consider "length xs < off + n" | "off + n \<le> length xs" "n = 0" | "off + n \<le> length xs" "0 < n"
      by linarith
    then show ?thesis
    proof cases
      case 1
      then show ?thesis
        using VFetch assms(2,3) same od fl by (auto simp: vp_fetch_def size_simps errno_defs)
    next
      case 2
      note st = start_of_payload [OF o 2(1)]
      obtain vp1 where s: "vp_source_seek vp (unat (vp_address vp) + 8 + off) = Some (0, vp1)" "moved vp vp1 m"
        using source_seek_ok [OF od(1,2) st(4)] by blast
      note f = moved_fields [OF s(2)]
      have "moved vp vp1 m \<Longrightarrow> moved vp (with_source vp1 (at_source vp1)) m"
        using f(1) by (simp add: moved_def with_source_def at_source_def attached_def wired_def)
      moreover have "vp_get_chunk vp1 (replicate n 0) n = Some (- EINVAL, replicate n 0, with_source vp1 (at_source vp1))"
        using 2 by (simp add: vp_get_chunk_def source_get_chunk_def source_read_multi_def errno_defs)
      then have "vp_step e vp op = Some ((- EINVAL, []), with_source vp1 (at_source vp1))"
        using VFetch 2 od fl(2) st(1,3) s(1) by (simp add: vp_fetch_def maybe_ok errno_defs)
      ultimately show ?thesis
        using ready_moved [OF assms(1)] s(2) bk VFetch 2 assms(3) by auto
    next
      case 3
      have len: "n \<le> length (replicate n (0 :: u8))" "length (replicate n (0 :: u8)) \<le> SSIZE_MAX"
        using 3 od(3) by (simp_all add: SSIZE_MAX_def)
      from fetch_ok [OF o fl(2) 3 len] obtain vp' where "moved vp vp' m"
        "vp_fetch e vp (replicate n 0) off n = Some (int n, overwrite (replicate n 0) 0 (take n (drop off xs)), vp')"
        by blast
      with ready_moved [OF assms(1)] bk VFetch 3 assms(3) show ?thesis
        by (auto simp: overwrite_def)
    qed
  next
    case VLoad
    have "unat (vp_address vp) + 8 + length xs \<le> length m" "take (8 + length xs) (drop (unat (vp_address vp)) m) = section_octets sum e (vp_initial vp) v xs"
      using assms(1) by (simp_all add: ready_def opened_def)
    from load_ready [OF od(1,2,12) this(1) od(3) this(2)] obtain vp' where
      "vp_load e vp = Some (0, vp')" "ready e vp' v xs m" "kept vp vp'"
      by blast
    with bk VLoad assms(3) show ?thesis
      by auto
  qed
qed

end

context checked_storage
begin

lemma save_ok:
  assumes "attached vp" "mem (vp_medium vp) = m" "length (vp_metablock vp) = 8"
    and "unat (vp_address vp) + 8 + unat (vp_spec_length vp) \<le> length m" and "n \<le> unat (vp_spec_length vp)" "n \<le> length src" "length src \<le> SSIZE_MAX"
    and "xs = take n src @ drop n (take (unat (vp_spec_length vp)) (drop (unat (vp_address vp) + 8) m))"
    and "sec = section_octets sum e (vp_initial vp) (vp_spec_version vp) xs"
  shows "\<exists>vp'. vp_save e vp src n = Some (0, vp') \<and> ready e vp' (vp_spec_version vp) xs (overwrite m (unat (vp_address vp)) sec) \<and> kept vp vp' \<and> vp_usable vp'"
proof -
  let ?a = "unat (vp_address vp)" and ?l = "vp_spec_length vp" and ?v = "vp_spec_version vp"
  let ?xs = "take (unat ?l) (drop (?a + 8) m)"
  obtain b vp1 where f: "vp_format e vp = Some (0, vp1)" "opened e vp1 ?v ?xs (overwrite m ?a b)" "kept vp vp1"
    "vp_isset vp1 VP_STATE_META_CONSISTENT" "length b = 8"
    using format_ok [OF assms(1-4) refl refl refl, of e] by (metis length_meta_block)
  have xs: "length ?xs = unat ?l" "0 + n \<le> length ?xs" "xs = overwrite ?xs 0 (take n src)" "length xs = unat ?l"
    using assms(4-6,8) by (auto simp: overwrite_def)
  have keep: "vp_address vp1 = vp_address vp" "sec = section_octets sum e (vp_initial vp1) ?v xs" "vp_spec_length vp1 = ?l" "vp_spec_version vp1 = ?v"
    using f(3) assms(9) by (simp_all add: kept_def)
  obtain vp2 where s: "vp_store e vp1 src 0 n = Some (int n, vp2)" "opened e vp2 ?v xs (overwrite (overwrite m ?a b) ?a sec)" "kept vp1 vp2"
    using store_ok [OF f(2,4) xs(2) assms(6,7) xs(3) keep(2)] unfolding keep(1) by blast
  have cover: "overwrite (overwrite m ?a b) ?a sec = overwrite m ?a sec"
    by (rule overwrite_covers) (use f(5) assms(4,9) xs(4) in simp_all)
  let ?m = "overwrite m ?a sec"
  note o = openedD [OF s(2) [unfolded cover]]
  have k: "kept vp vp2" "vp_address vp2 = vp_address vp" "vp_initial vp2 = vp_initial vp"
    using kept_trans [OF f(3) s(3)] by (simp_all add: kept_def)
  have "take (8 + length xs) (drop (unat (vp_address vp2)) ?m) = section_octets sum e (vp_initial vp2) ?v xs"
    using slice_overwrite [of ?a sec m "8 + length xs"] assms(4,9) xs(4) k by simp
  from load_ready [OF o(1,2,12,4,3) this] obtain vp3 where l: "vp_load e vp2 = Some (0, vp3)" "ready e vp3 ?v xs ?m" "kept vp2 vp3"
    "vp_usable vp3 \<longleftrightarrow> ?v = vp_spec_version vp2 \<and> of_nat (length xs) = vp_spec_length vp2"
    by blast
  have "unat ?l < 2 ^ 16"
    by (rule order.strict_trans2 [OF unsigned_less]) simp
  then have "int n < 2 ^ 31"
    using assms(5) by simp
  then have "vp_save e vp src n = Some (0, vp3)"
    using f(1) s(1) l(1) by (simp add: vp_save_def maybe_ok)
  moreover have "vp_usable vp3"
    using l(4) k(1) xs(4) by (simp add: kept_def)
  ultimately show ?thesis
    using l(2) kept_trans [OF k(1) l(3)] by blast
qed

lemma run_ok:
  assumes "ready e vp v xs m" "list_all op_small ops" "array_run xs ops = (rs, xs')"
  shows "\<exists>vp'. vp_run e vp ops = Some (rs, vp') \<and> kept vp vp' \<and> length xs' = length xs \<and>
     ready e vp' v xs' (overwrite m (unat (vp_address vp)) (section_octets sum e (vp_initial vp) v xs'))"
  using assms
proof (induction ops arbitrary: vp xs m rs)
  case Nil
  then show ?case
    using ready_section [OF Nil.prems(1)] by (auto simp: kept_def)
next
  case (Cons op ops)
  obtain r xs1 where a: "array_step xs op = (r, xs1)"
    by (cases "array_step xs op")
  obtain rs' where b: "array_run xs1 ops = (rs', xs')" "rs = r # rs'"
    using Cons.prems(3) a by (auto simp: Let_def split: prod.splits)
  let ?a = "unat (vp_address vp)" and ?sec = "section_octets sum e (vp_initial vp) v"
  obtain vp1 where s: "vp_step e vp op = Some (r, vp1)" "kept vp vp1" "ready e vp1 v xs1 (overwrite m ?a (?sec xs1))"
    using step_ok [OF Cons.prems(1) _ a] Cons.prems(2) by auto
  have k: "vp_address vp1 = vp_address vp" "vp_initial vp1 = vp_initial vp"
    using s(2) by (simp_all add: kept_def)
  have len: "length xs1 = length xs"
    using length_array_step [of xs op] a by simp
  from Cons.IH [OF s(3) _ b(1)] Cons.prems(2) obtain vp' where
    r: "vp_run e vp1 ops = Some (rs', vp')" "kept vp1 vp'" "length xs' = length xs1"
      "ready e vp' v xs' (overwrite (overwrite m ?a (?sec xs1)) ?a (?sec xs'))"
    unfolding k by auto
  have "?a + length (?sec xs') \<le> length m"
    using Cons.prems(1) r(3) len by (simp add: ready_def opened_def)
  then have "overwrite (overwrite m ?a (?sec xs1)) ?a (?sec xs') = overwrite m ?a (?sec xs')"
    by (intro overwrite_covers) (use r(3) in simp_all)
  with r s b len kept_trans [OF s(2) r(2)] show ?case
    by auto
qed

end

section \<open>Properties\<close>

text \<open>C11. What is saved is there to be used. On any peripheral that works as a memory and with any checksum, saving makes
  the section at the address of the instance an intact one of the version and the length of the specification, that
  holds the data and behind it, when the data is shorter, what was there before; nothing else in the memory changes.
  The instance is usable afterwards, reading any part of the data gives it back, and any other instance with the same
  specification finds it usable as well when it loads the section.\<close>

theorem vp_save_load:
  assumes "checked_storage rd wr rseek wseek ok mem rpos wpos S process" and "checked_storage.attached rd wr rseek wseek ok process vp"
    and "mem (vp_medium vp) = m" and "length (vp_metablock vp) = 8" and "unat (vp_address vp) + 8 + unat (vp_spec_length vp) \<le> length m"
    and "n \<le> unat (vp_spec_length vp)" and "n \<le> length src" and "length src \<le> SSIZE_MAX"
  shows "\<exists>vp'. vp_save e vp src n = Some (0, vp') \<and> vp_usable vp' \<and>
     mem (vp_medium vp') = overwrite m (unat (vp_address vp)) (section_octets S e (vp_initial vp) (vp_spec_version vp)
       (take n src @ drop n (take (unat (vp_spec_length vp)) (drop (unat (vp_address vp) + 8) m)))) \<and>
     (\<forall>off k dst. 0 < k \<and> off + k \<le> n \<and> length dst = k \<longrightarrow> (\<exists>vp2. vp_fetch e vp' dst off k = Some (int k, take k (drop off src), vp2))) \<and>
     (\<forall>other. checked_storage.attached rd wr rseek wseek ok process other \<and> length (vp_metablock other) = 8 \<and> kept vp other \<and>
        mem (vp_medium other) = mem (vp_medium vp') \<longrightarrow> (\<exists>other'. vp_load e other = Some (0, other') \<and> vp_usable other'))"
proof -
  let ?a = "unat (vp_address vp)" and ?l = "vp_spec_length vp" and ?v = "vp_spec_version vp"
  let ?xs = "take n src @ drop n (take (unat ?l) (drop (?a + 8) m))"
  let ?m = "overwrite m ?a (section_octets S e (vp_initial vp) ?v ?xs)"
  obtain vp' where s: "vp_save e vp src n = Some (0, vp')" "checked_storage.ready rd wr rseek wseek ok mem S process e vp' ?v ?xs ?m"
    "kept vp vp'" "vp_usable vp'"
    using checked_storage.save_ok [OF assms(1,2,3,4,5,6,7,8) refl refl] by blast
  note r = s(2) [unfolded checked_storage.ready_def [OF assms(1)]]
  note o = checked_storage.openedD [OF assms(1) conjunct1 [OF r]]
  have k: "vp_address vp' = vp_address vp" "vp_initial vp' = vp_initial vp" "length ?xs = unat ?l"
    using s(3) assms(5-7) by (auto simp: kept_def)
  have fetch: "\<exists>vp2. vp_fetch e vp' dst off j = Some (int j, take j (drop off src), vp2)" if "0 < j" "off + j \<le> n" "length dst = j" for off j dst
  proof -
    have a: "off + j \<le> length ?xs" "j \<le> length dst" "length dst \<le> SSIZE_MAX" "take j (drop off ?xs) = take j (drop off src)"
      using that assms(5-8) by (auto simp: drop_take min_absorb1)
    have "\<exists>vp2. vp_fetch e vp' dst off j = Some (int j, overwrite dst 0 (take j (drop off ?xs)), vp2)"
      using checked_storage.fetch_ok [OF assms(1) conjunct1 [OF r] _ a(1) that(1) a(2,3)] r by blast
    moreover have "overwrite dst 0 (take j (drop off src)) = take j (drop off src)"
      using that assms(7) by (simp add: overwrite_def)
    ultimately show ?thesis
      unfolding a(4) by simp
  qed
  have load: "\<exists>other'. vp_load e other = Some (0, other') \<and> vp_usable other'"
    if "checked_storage.attached rd wr rseek wseek ok process other" "length (vp_metablock other) = 8" "kept vp other"
      "mem (vp_medium other) = mem (vp_medium vp')" for other
  proof -
    have b: "mem (vp_medium other) = ?m" "unat (vp_address other) + 8 + length ?xs \<le> length ?m" "length ?xs < 2 ^ 16"
      "take (8 + length ?xs) (drop (unat (vp_address other)) ?m) = section_octets S e (vp_initial other) ?v ?xs"
      "vp_spec_version other = ?v" "vp_spec_length other = ?l"
      using that(3,4) o(2-4) r k by (auto simp: kept_def)
    have "of_nat (length ?xs) = vp_spec_length other"
      unfolding k(3) b(6) by simp
    with checked_storage.load_ready [OF assms(1) that(1) b(1) that(2) b(2-4)] b(5) [symmetric] show ?thesis
      by blast
  qed
  show ?thesis
    using s(1,4) o(2) fetch load by blast
qed

text \<open>C20. What loading finds out. A section whose meta block has a wrong checksum gives -EBADFD and leaves no flag set. One
  with an intact meta block gives -EBADMSG when the checksum of as much payload as the block says is not the one in the
  block, and 0 when it is; the instance is usable exactly when the checksums are right and version and length are the
  ones of the specification. Loading does not change the memory.\<close>

theorem vp_load_exact:
  assumes "checked_storage rd wr rseek wseek ok mem rpos wpos S process" and "checked_storage.attached rd wr rseek wseek ok process vp"
    and "mem (vp_medium vp) = m" and "length (vp_metablock vp) = 8"
    and "take 8 (drop (unat (vp_address vp)) m) = meta_block e h v l p" and "unat (vp_address vp) + 8 + unat l \<le> length m"
    and "xs = take (unat l) (drop (unat (vp_address vp) + 8) m)"
  shows "\<exists>vp'. vp_load e vp = Some (if h \<noteq> meta_sum S e (vp_initial vp) v l p then - EBADFD
       else if p \<noteq> S (vp_initial vp) xs then - EBADMSG else 0, vp') \<and> mem (vp_medium vp') = m \<and>
     (h \<noteq> meta_sum S e (vp_initial vp) v l p \<longrightarrow> vp_state vp' = 0) \<and>
     (vp_usable vp' \<longleftrightarrow> h = meta_sum S e (vp_initial vp) v l p \<and> p = S (vp_initial vp) xs \<and>
        v = vp_spec_version vp \<and> l = vp_spec_length vp)"
proof (cases "h = meta_sum S e (vp_initial vp) v l p")
  case True
  from checked_storage.load_ok [OF assms(1,2,3,4,6,5) True assms(7)] obtain vp' where
    "vp_load e vp = Some (if p = S (vp_initial vp) xs then 0 else - EBADMSG, vp')" "checked_storage.opened rd wr rseek wseek ok mem process e vp' v xs m"
    "vp_usable vp' \<longleftrightarrow> p = S (vp_initial vp) xs \<and> v = vp_spec_version vp \<and> l = vp_spec_length vp"
    by blast
  with True checked_storage.openedD(2) [OF assms(1)] show ?thesis
    by auto
next
  case False
  have "unat (vp_address vp) + 8 \<le> length m"
    using assms(6) by simp
  from checked_storage.load_damaged_header [OF assms(1,2,3,4) this assms(5) False] obtain vp' where
    "vp_load e vp = Some (- EBADFD, vp')" "vp_state vp' = 0" "mem (vp_medium vp') = m"
    by blast
  with False show ?thesis
    by (auto simp: vp_usable_def vp_flags)
qed

text \<open>C33. A fresh format is never mistaken for data. Formatting writes a meta block with the version and the length of the
  specification, and nothing else; loading the section afterwards finds the meta block intact and the payload not.\<close>

theorem vp_format_then_load:
  assumes "checked_storage rd wr rseek wseek ok mem rpos wpos S process" and "checked_storage.attached rd wr rseek wseek ok process vp"
    and "mem (vp_medium vp) = m" and "length (vp_metablock vp) = 8" and "unat (vp_address vp) + 8 + unat (vp_spec_length vp) \<le> length m"
  shows "\<exists>vp' vp2 b. vp_format e vp = Some (0, vp') \<and> length b = 8 \<and> mem (vp_medium vp') = overwrite m (unat (vp_address vp)) b \<and>
     vp_load e vp' = Some (- EBADMSG, vp2) \<and> vp_isset vp2 VP_STATE_META_CONSISTENT \<and> \<not> vp_usable vp2"
proof -
  let ?a = "unat (vp_address vp)" and ?l = "vp_spec_length vp" and ?v = "vp_spec_version vp"
  let ?xs = "take (unat ?l) (drop (?a + 8) m)" and ?pc = "S (vp_initial vp) (take (unat ?l) (drop (?a + 8) m)) XOR VP_CHKSUM_MAX"
  let ?b = "meta_block e (meta_sum S e (vp_initial vp) ?v ?l ?pc) ?v ?l ?pc" and ?m = "overwrite m ?a (meta_block e (meta_sum S e (vp_initial vp) ?v ?l ?pc) ?v ?l ?pc)"
  obtain vp' where f: "vp_format e vp = Some (0, vp')" "checked_storage.opened rd wr rseek wseek ok mem process e vp' ?v ?xs ?m" "kept vp vp'"
    using checked_storage.format_ok [OF assms refl refl refl, of e] by blast
  note o = checked_storage.openedD [OF assms(1) f(2)]
  have k: "vp_address vp' = vp_address vp" "vp_initial vp' = vp_initial vp" "length ?xs = unat ?l"
    using f(3) assms(5) by (simp_all add: kept_def)
  have a: "unat (vp_address vp') + 8 + unat ?l \<le> length ?m" "take 8 (drop (unat (vp_address vp')) ?m) = ?b"
    "meta_sum S e (vp_initial vp) ?v ?l ?pc = meta_sum S e (vp_initial vp') ?v ?l ?pc"
    "?xs = take (unat ?l) (drop (unat (vp_address vp') + 8) ?m)"
    using o(4,5) k slice_overwrite [of ?a ?b m 8] assms(5) by simp_all
  have "x XOR VP_CHKSUM_MAX \<noteq> x" for x :: u16
  proof
    assume "x XOR VP_CHKSUM_MAX = x"
    then have "VP_CHKSUM_MAX = 0"
      by (metis xor_self_eq xor.left_commute xor.right_neutral)
    then show False
      by (simp add: VP_CHKSUM_MAX_def)
  qed
  with checked_storage.load_ok [OF assms(1) o(1,2,12) a] k(2) obtain vp2 where
    "vp_load e vp' = Some (- EBADMSG, vp2)" "vp_isset vp2 VP_STATE_META_CONSISTENT" "\<not> vp_usable vp2"
    by auto
  with f(1) o(2) show ?thesis
    by (metis length_meta_block)
qed

text \<open>C10. A usable section is an array. After a section was found intact, any sequence of calls that store, fill, fetch and
  load again, with offsets and sizes whose sum does not wrap, returns what the same operations on an array of octets
  return, errors for parts that are not in the array included; at the end the memory is what it was, except for the
  section, which is the intact one of the array's contents. (A sum that wraps passes the test of the range.)\<close>

theorem vp_section_is_array:
  assumes "checked_storage rd wr rseek wseek ok mem rpos wpos S process" and "checked_storage.attached rd wr rseek wseek ok process vp"
    and "mem (vp_medium vp) = m" and "length (vp_metablock vp) = 8" and "unat (vp_address vp) + 8 + length xs \<le> length m" and "length xs < 2 ^ 16"
    and "take (8 + length xs) (drop (unat (vp_address vp)) m) = section_octets S e (vp_initial vp) v xs"
    and "list_all op_small ops" and "array_run xs ops = (rs, ys)"
  shows "\<exists>vp1 vp2. vp_load e vp = Some (0, vp1) \<and> vp_run e vp1 ops = Some (rs, vp2) \<and>
     mem (vp_medium vp2) = overwrite m (unat (vp_address vp)) (section_octets S e (vp_initial vp) v ys)"
proof -
  obtain vp1 where l: "vp_load e vp = Some (0, vp1)" "checked_storage.ready rd wr rseek wseek ok mem S process e vp1 v xs m" "kept vp vp1"
    using checked_storage.load_ready [OF assms(1-7)] by blast
  obtain vp2 where r: "vp_run e vp1 ops = Some (rs, vp2)"
    "checked_storage.ready rd wr rseek wseek ok mem S process e vp2 v ys
       (overwrite m (unat (vp_address vp1)) (section_octets S e (vp_initial vp1) v ys))"
    using checked_storage.run_ok [OF assms(1) l(2) assms(8,9)] by blast
  note o = checked_storage.openedD(2) [OF assms(1) conjunct1 [OF r(2) [unfolded checked_storage.ready_def [OF assms(1)]]]]
  have "vp_address vp1 = vp_address vp" "vp_initial vp1 = vp_initial vp"
    using l(3) by (simp_all add: kept_def)
  with l(1) r(1) o show ?thesis
    by auto
qed

context checked_storage
begin

text \<open>An offset near the end of \<open>size_t\<close>, so that the sums wrap around.\<close>

lemma store_wrapped_ok:
  assumes "opened e vp v xs m" and "vp_isset vp VP_STATE_META_CONSISTENT" and "8 \<le> k" "k \<le> unat (vp_address vp) + 8" and "length src = k"
    and "sec = section_octets sum e (vp_initial vp) v xs"
  shows "\<exists>vp'. vp_store e vp src (SIZE_MOD - k) k = Some (int k, vp') \<and>
     mem (vp_medium vp') = overwrite (overwrite m (unat (vp_address vp) + 8 - k) src) (unat (vp_address vp)) sec"
proof -
  note o = openedD [OF assms(1)]
  let ?a = "unat (vp_address vp)"
  have m: "length m < SIZE_MOD" "k < SIZE_MOD" "?a + 8 < SIZE_MOD"
    using SSIZE_MAX_less [OF o(10)] o(4) assms(4) by simp_all
  have wrap: "sz_add (SIZE_MOD - k) k = 0"
    using m(2) by (simp add: sz_add_def)
  have sum: "(?a + 8 + (SIZE_MOD - k)) = (?a + 8 - k) + SIZE_MOD"
    using m(2,3) assms(4) by simp
  have "sz_add (?a + 8) (SIZE_MOD - k) = ?a + 8 - k"
    unfolding sz_add_def sum using m(3) by simp
  then have start: "sz_add (sz_add ?a VP_SIZE_META) (SIZE_MOD - k) = ?a + 8 - k"
    using m(3) by (simp add: vp_offsets sz_add_id)
  have "?a + 8 - k \<le> length m"
    using o(4) by simp
  then obtain vp1 where s: "vp_sink_seek vp (?a + 8 - k) = Some (0, vp1)" "moved vp vp1 m" "wpos (vp_medium vp1) = ?a + 8 - k"
    using sink_seek_ok [OF o(1,2)] by blast
  note f1 = moved_fields [OF s(2)]
  have c: "k \<le> length src" "length src \<le> SSIZE_MAX" "wpos (vp_medium vp1) + k \<le> length m"
    using assms(4,5) o(4,10) s(3) by simp_all
  let ?m1 = "overwrite m (?a + 8 - k) src"
  obtain vp2 where p: "vp_put_chunk vp1 src k = Some (int k, vp2)" "moved vp1 vp2 ?m1"
    using put_chunk_all [OF f1(1,2) c] s(3) assms(5) by auto
  note f2 = moved_fields [OF moved_trans [OF s(2) p(2)]]
  have lm: "length ?m1 = length m" "take (length xs) (drop (?a + 8) ?m1) = xs"
    using o(4,5) assms(4,5) slice_overwrite_after [of "?a + 8 - k" src "?a + 8" m "length xs"] by simp_all
  obtain h w where mb: "vp_metablock vp = meta_block e h v (of_nat (length xs)) w"
    using assms(1) by (auto simp: opened_def)
  have op: "opened e vp2 v xs ?m1"
    unfolding opened_def using f2(1-5) lm o(3,4,6) mb by (auto simp: vp_isset_def)
  have init: "sec = section_octets sum e (vp_initial vp2) v xs" "vp_address vp2 = vp_address vp"
    using assms(6) f2(5,8) by simp_all
  obtain vp3 where u: "vp_update_meta e vp2 = Some (0, vp3)" "opened e vp3 v xs (overwrite ?m1 ?a sec)"
    using update_meta_ok [OF op init(1)] unfolding init(2) by blast
  have "vp_store e vp src (SIZE_MOD - k) k = Some (int k, vp3)"
    using o(7-9) assms(2) wrap start s(1) p(1) u(1) by (simp add: vp_store_def maybe_ok)
  with openedD(2) [OF u(2)] show ?thesis
    by blast
qed

end

lemma overwrite_around:
  assumes "overwrite m a sec = m" "o2 + length p = a" "length q \<le> length sec" "a + length sec \<le> length m"
  shows "overwrite (overwrite m o2 (p @ q)) a sec = overwrite m o2 p"
proof -
  let ?m = "overwrite m o2 p"
  have p: "take (length sec) (drop (o2 + length p) m) = sec"
    using slice_overwrite [of a sec m "length sec"] assms(1,2,4) by simp
  have "overwrite m o2 (p @ q) = overwrite ?m a q"
    using overwrite_append [of o2 p q m] assms(2-4) by simp
  moreover have "overwrite (overwrite ?m a q) a sec = overwrite ?m a sec"
    by (rule overwrite_covers) (use assms(2-4) in simp_all)
  moreover have "overwrite ?m a sec = overwrite m o2 (p @ sec)"
    using overwrite_append [of o2 p sec m] assms(2,4) by simp
  moreover have "overwrite m o2 (p @ sec) = ?m"
    using p assms(2,4) by (intro overwrite_prefix) simp_all
  ultimately show ?thesis
    by simp
qed

text \<open>The test for the part to store can be passed from outside of the section. The sum of offset and size wraps around,
  so with an offset of \<open>k\<close> below zero, as an unsigned number, and size \<open>k\<close>, a store to an intact section succeeds and
  writes the caller's data to the \<open>k - 8\<close> octets before the section, over what belongs to others.\<close>

theorem vp_store_before_section:
  assumes "checked_storage rd wr rseek wseek ok mem rpos wpos S process" and "checked_storage.attached rd wr rseek wseek ok process vp"
    and "mem (vp_medium vp) = m" and "length (vp_metablock vp) = 8" and "unat (vp_address vp) + 8 + length xs \<le> length m" and "length xs < 2 ^ 16"
    and "take (8 + length xs) (drop (unat (vp_address vp)) m) = section_octets S e (vp_initial vp) v xs"
    and "8 \<le> k" and "k \<le> unat (vp_address vp) + 8" and "length src = k"
  shows "\<exists>vp1 vp2. vp_load e vp = Some (0, vp1) \<and> vp_store e vp1 src (SIZE_MOD - k) k = Some (int k, vp2) \<and>
     mem (vp_medium vp2) = overwrite m (unat (vp_address vp) + 8 - k) (take (k - 8) src)"
proof -
  let ?a = "unat (vp_address vp)" and ?sec = "section_octets S e (vp_initial vp) v xs"
  obtain vp1 where l: "vp_load e vp = Some (0, vp1)" "checked_storage.ready rd wr rseek wseek ok mem S process e vp1 v xs m" "kept vp vp1"
    using checked_storage.load_ready [OF assms(1-7)] by blast
  note r = l(2) [unfolded checked_storage.ready_def [OF assms(1)] vp_isset_or]
  have k: "vp_address vp1 = vp_address vp" "vp_initial vp1 = vp_initial vp"
    using l(3) by (simp_all add: kept_def)
  obtain vp2 where s: "vp_store e vp1 src (SIZE_MOD - k) k = Some (int k, vp2)"
    "mem (vp_medium vp2) = overwrite (overwrite m (?a + 8 - k) src) ?a ?sec"
    using checked_storage.store_wrapped_ok [OF assms(1) conjunct1 [OF r] _ assms(8) _ assms(10) refl] r assms(9) unfolding k by blast
  have "overwrite (overwrite m (?a + 8 - k) (take (k - 8) src @ drop (k - 8) src)) ?a ?sec = overwrite m (?a + 8 - k) (take (k - 8) src)"
  proof (rule overwrite_around)
    show "overwrite m ?a ?sec = m"
      using checked_storage.ready_section [OF assms(1) l(2)] unfolding k .
  qed (use assms in simp_all)
  with l(1) s show ?thesis
    by auto
qed

lemma header_damage_found:
  assumes "checked_storage rd wr rseek wseek ok mem rpos wpos crc16_sum process" and "checked_storage.attached rd wr rseek wseek ok process vp"
    and "mem (vp_medium vp) = m" and "length (vp_metablock vp) = 8" and "unat (vp_address vp) + 8 \<le> length m"
    and "h = meta_sum crc16_sum e (vp_initial vp) v l p" and "b = meta_block e h v l p"
    and "take 8 (drop (unat (vp_address vp)) m) = new"
    and "take 2 new \<noteq> take 2 b \<and> drop 2 new = drop 2 b \<or>
      take 2 new = take 2 b \<and> crc16_sum (vp_initial vp) (drop 2 b) \<noteq> crc16_sum (vp_initial vp) (drop 2 new)"
  shows "\<exists>vp'. vp_load e vp = Some (- EBADFD, vp') \<and> \<not> vp_usable vp'"
proof -
  have "length new = 8"
    using assms(5,8) by auto
  then obtain h' v' l' p' where nb: "new = meta_block e h' v' l' p'"
    using meta_block_exists by blast
  have word: "take 2 new = take 2 b \<longleftrightarrow> h' = h"
    unfolding nb assms(7) by (simp add: meta_block_def) (metis word_of_octets)
  have "h' \<noteq> meta_sum crc16_sum e (vp_initial vp) v' l' p'"
    using assms(9) word unfolding assms(6,7) nb drop_meta_block meta_sum_def by auto
  from checked_storage.load_damaged_header [OF assms(1-5) _ this] assms(8) nb obtain vp' where
    "vp_load e vp = Some (- EBADFD, vp')" "vp_state vp' = 0"
    by auto
  then show ?thesis
    by (auto simp: vp_usable_def vp_flags)
qed

text \<open>A change of two neighbouring octets of eight octets, of which the first two are the checksum of the others.\<close>

lemma header_change:
  fixes b :: "u8 list"
  assumes "b = p @ [c, d] @ q" "new = p @ [x, y] @ q" "(c, d) \<noteq> (x, y)" "length p \<noteq> 1"
  shows "take 2 new \<noteq> take 2 b \<and> drop 2 new = drop 2 b \<or>
     take 2 new = take 2 b \<and> crc16_sum init (drop 2 b) \<noteq> crc16_sum init (drop 2 new)"
proof (cases "p = []")
  case True
  with assms show ?thesis
    by auto
next
  case False
  then have p: "2 \<le> length p"
    using assms(4) by (cases p) (auto simp: Suc_le_eq)
  have cut: "take 2 (p @ r) = take 2 p" "drop 2 (p @ r) = drop 2 p @ r" for r
    using p by simp_all
  show ?thesis
    unfolding assms(1,2) cut using crc16_sum_burst [OF assms(3)] by blast
qed

text \<open>C32. Damage is found. With the CRC-16-ARC, when any two neighbouring octets of an intact section have changed in any
  way, except for the pair of the last octet of the checksum of the meta block and the first octet behind it, loading the
  section gives -EBADFD when the meta block has changed and -EBADMSG when only the payload has, and the instance is not
  usable. The excepted pair can change so that the checksum still matches.\<close>

theorem vp_detects_damage:
  assumes "checked_storage rd wr rseek wseek ok mem rpos wpos crc16_sum process" and "checked_storage.attached rd wr rseek wseek ok process vp"
    and "mem (vp_medium vp) = m" and "length (vp_metablock vp) = 8" and "unat (vp_address vp) + 8 + length xs \<le> length m" and "length xs < 2 ^ 16"
    and "sec = section_octets crc16_sum e (vp_initial vp) v xs" and "take (8 + length xs) (drop (unat (vp_address vp)) m) = overwrite sec i [x, y]"
    and "i \<noteq> 1" and "i + 2 \<le> length sec" and "take 2 (drop i sec) \<noteq> [x, y]"
  shows "\<exists>vp'. vp_load e vp = Some (if i < 7 \<or> i = 7 \<and> x \<noteq> sec ! 7 then - EBADFD else - EBADMSG, vp') \<and> \<not> vp_usable vp'"
proof -
  let ?a = "unat (vp_address vp)" and ?l = "of_nat (length xs) :: u16" and ?init = "vp_initial vp"
  let ?pc = "crc16_sum ?init xs"
  let ?h = "meta_sum crc16_sum e ?init v ?l ?pc"
  let ?b = "meta_block e ?h v ?l ?pc"
  have sec: "sec = ?b @ xs" "length sec = 8 + length xs"
    by (simp_all add: assms(7) section_octets_def Let_def)
  obtain p q c d where pq: "sec = p @ [c, d] @ q" "length p = i" "(c, d) \<noteq> (x, y)"
  proof -
    have "length (take 2 (drop i sec)) = Suc (Suc 0)"
      using assms(10) by simp
    then obtain c d where "take 2 (drop i sec) = [c, d]"
      unfolding length_Suc_conv by auto
    moreover have "sec = take i sec @ take 2 (drop i sec) @ drop (i + 2) sec"
      by (metis add.commute append_take_drop_id drop_drop)
    ultimately show ?thesis
      using that [of "take i sec" c d "drop (i + 2) sec"] assms(10,11) by auto
  qed
  have ov: "overwrite sec i [x, y] = p @ [x, y] @ q"
    by (simp add: overwrite_def pq(1,2))
  have parts: "take 8 (drop ?a m) = take 8 (p @ [x, y] @ q)" "take (length xs) (drop (?a + 8) m) = drop 8 (p @ [x, y] @ q)"
  proof -
    have "take 8 (take (8 + length xs) (drop ?a m)) = take 8 (drop ?a m)" "drop 8 (take (8 + length xs) (drop ?a m)) = take (length xs) (drop (?a + 8) m)"
      by (simp_all add: drop_take add.commute)
    then show "take 8 (drop ?a m) = take 8 (p @ [x, y] @ q)" "take (length xs) (drop (?a + 8) m) = drop 8 (p @ [x, y] @ q)"
      using assms(8) ov by simp_all
  qed
  have fits: "?a + 8 \<le> length m" "unat ?l = length xs"
    using assms(5,6) by (simp_all add: unat_of_nat)
  have old: "?b = take 8 (p @ [c, d] @ q)" "xs = drop 8 (p @ [c, d] @ q)"
    using sec(1) pq(1) by (metis append_eq_conv_conj length_meta_block)+
  note header = header_damage_found [where v = v and l = ?l and p = ?pc and e = e, OF assms(1-4) fits(1) refl refl parts(1)]
  have payload: "\<exists>vp'. vp_load e vp = Some (- EBADMSG, vp') \<and> \<not> vp_usable vp'"
    if "take 8 (p @ [x, y] @ q) = ?b" "?pc \<noteq> crc16_sum ?init (drop 8 (p @ [x, y] @ q))"
  proof -
    have f: "?a + 8 + unat ?l \<le> length m" "drop 8 (p @ [x, y] @ q) = take (unat ?l) (drop (?a + 8) m)"
      using parts(2) fits(2) assms(5) by simp_all
    have hb: "take 8 (drop ?a m) = ?b"
      using that(1) parts(1) by simp
    from checked_storage.load_ok [OF assms(1-4) f(1) hb refl f(2)] that(2) show ?thesis
      by auto
  qed
  consider "i < 7" | "i = 7" "x \<noteq> c" | "i = 7" "x = c" | "7 < i"
    by linarith
  then show ?thesis
  proof cases
    case 1
    then have cut: "take 8 (p @ [u, w] @ q) = p @ [u, w] @ take (6 - i) q" for u w
      using pq(2) by (simp add: take_Cons' numeral_eq_Suc)
    show ?thesis
      using 1 header [OF header_change [OF old(1) [unfolded cut] cut pq(3)]] pq(2) assms(9) by simp
  next
    case 2
    then have cut: "take 8 (p @ [u, w] @ q) = p @ [u]" for u w
      using pq(2) by simp
    have "drop 2 (p @ [u]) = drop 2 p @ [u] @ []" "take 2 (p @ [u]) = take 2 p" for u
      using 2(1) pq(2) by simp_all
    then have "take 2 (p @ [x]) = take 2 (p @ [c]) \<and> crc16_sum ?init (drop 2 (p @ [c])) \<noteq> crc16_sum ?init (drop 2 (p @ [x]))"
      using crc16_sum_octet [OF 2(2) [symmetric], of ?init "drop 2 p" "[]"] by simp
    moreover have "sec ! 7 = c"
      using 2(1) pq(1,2) by (simp add: nth_append)
    ultimately show ?thesis
      using 2 header [unfolded old(1) cut] by auto
  next
    case 3
    then have "take 8 (p @ [x, y] @ q) = ?b" "y \<noteq> d" "sec ! 7 = x"
      using old(1) pq by (auto simp: nth_append)
    moreover have "?pc \<noteq> crc16_sum ?init (drop 8 (p @ [x, y] @ q))"
      using crc16_sum_octet [OF \<open>y \<noteq> d\<close>, of ?init "[]" q] 3 old(2) pq(2) by simp
    ultimately show ?thesis
      using payload 3 by simp
  next
    case 4
    then have eight: "8 \<le> length p"
      using pq(2) by simp
    then have "?pc \<noteq> crc16_sum ?init (drop 8 (p @ [x, y] @ q))"
      using crc16_sum_burst [OF pq(3), of ?init "drop 8 p" q] old(2) by simp
    with eight payload old(1) 4 show ?thesis
      by simp
  qed
qed

text \<open>The excepted pair: another version and another checksum of the meta block, in one octet each, that match.\<close>

lemma excepted_pair:
  "meta_block SYSTEM_ENDIANNESS_LITTLE (meta_sum crc16_sum SYSTEM_ENDIANNESS_LITTLE 0 6 36 0) 6 36 0 =
   overwrite (meta_block SYSTEM_ENDIANNESS_LITTLE (meta_sum crc16_sum SYSTEM_ENDIANNESS_LITTLE 0 5 36 0) 5 36 0) 1
     [meta_block SYSTEM_ENDIANNESS_LITTLE (meta_sum crc16_sum SYSTEM_ENDIANNESS_LITTLE 0 6 36 0) 6 36 0 ! 1, 6]"
  by code_simp

section \<open>The peripheral of the test suite\<close>

text \<open>\<^verbatim>\<open>t-versioned-persistence.c\<close>: an array of octets with one position for reading and one for writing, that hands out at
  most six and takes at most five octets at a time.\<close>

definition ENOBUFS :: int where [errno_defs]: "ENOBUFS = 105"

definition STORAGE_SIZE :: nat where "STORAGE_SIZE = 0x200"
definition INFO_ADDRESS :: u32 where "INFO_ADDRESS = 24"
definition INFO_VERSION :: u16 where "INFO_VERSION = 5"
definition INFO_SIZE :: u16 where "INFO_SIZE = 36"

record bench =
  bn_memory :: "u8 list"
  bn_source_offset :: nat
  bn_sink_offset :: nat

definition bench_read :: "bench \<Rightarrow> nat \<Rightarrow> (int \<times> u8 list \<times> bench) option" where
  "bench_read b n =
     (let addr = bn_source_offset b
      in if sz_add addr n > STORAGE_SIZE then Some (- ENOBUFS, [], b)
         else do {
           let n = (if n > 6 then 6 else n);
           xs \<leftarrow> mem_read (bn_memory b) addr n;
           Some (to_ssize n, xs, b\<lparr>bn_source_offset := sz_add addr n\<rparr>)
         })"

definition bench_write :: "bench \<Rightarrow> u8 list \<Rightarrow> (int \<times> bench) option" where
  "bench_write b buf =
     (let addr = bn_sink_offset b; n = length buf
      in if sz_add addr n > STORAGE_SIZE then Some (- ENOBUFS, b)
         else do {
           let n = (if n > 5 then 5 else n);
           m \<leftarrow> mem_write (bn_memory b) addr (take n buf);
           Some (to_ssize n, b\<lparr>bn_memory := m, bn_sink_offset := sz_add addr n\<rparr>)
         })"

definition seek_source :: "bench \<Rightarrow> nat \<Rightarrow> int \<times> bench" where
  "seek_source b n = (0, b\<lparr>bn_source_offset := n\<rparr>)"

definition seek_sink :: "bench \<Rightarrow> nat \<Rightarrow> int \<times> bench" where
  "seek_sink b n = (0, b\<lparr>bn_sink_offset := n\<rparr>)"

definition bench_ok :: "bench \<Rightarrow> bool" where
  "bench_ok b \<longleftrightarrow> length (bn_memory b) = STORAGE_SIZE"

interpretation bench: checked_storage bench_read bench_write seek_source seek_sink bench_ok bn_memory bn_source_offset bn_sink_offset
  crc16_sum ufw_crc16_arc
proof
  fix d n
  assume d: "bench_ok d" "0 < n" "bn_source_offset d + n \<le> length (bn_memory d)"
  define k where "k = (if n > 6 then 6 else n)"
  have k: "0 < k" "k \<le> n" "to_ssize k = int k"
    using d(2) by (simp_all add: k_def SSIZE_MAX_def)
  have "\<not> sz_add (bn_source_offset d) n > STORAGE_SIZE" "sz_add (bn_source_offset d) k = bn_source_offset d + k"
    using d k(2) by (simp_all add: size_simps bench_ok_def STORAGE_SIZE_def SIZE_MOD_def)
  then have "bench_read d n = Some (int k, take k (drop (bn_source_offset d) (bn_memory d)), d\<lparr>bn_source_offset := bn_source_offset d + k\<rparr>)"
    using d(3) k(2,3) by (simp add: bench_read_def Let_def mem_read_inside flip: k_def)
  with d(1) k show "\<exists>k d'. 0 < k \<and> k \<le> n \<and> bench_read d n = Some (int k, take k (drop (bn_source_offset d) (bn_memory d)), d') \<and>
      bench_ok d' \<and> bn_memory d' = bn_memory d \<and> bn_source_offset d' = bn_source_offset d + k"
    by (auto simp: bench_ok_def)
next
  fix d and xs :: "u8 list"
  assume d: "bench_ok d" "xs \<noteq> []" "bn_sink_offset d + length xs \<le> length (bn_memory d)"
  define k where "k = (if length xs > 5 then 5 else length xs)"
  have k: "0 < k" "k \<le> length xs" "to_ssize k = int k"
    using d(2) by (simp_all add: k_def SSIZE_MAX_def)
  have "\<not> sz_add (bn_sink_offset d) (length xs) > STORAGE_SIZE" "sz_add (bn_sink_offset d) k = bn_sink_offset d + k"
    using d k(2) by (simp_all add: size_simps bench_ok_def STORAGE_SIZE_def SIZE_MOD_def)
  then have "bench_write d xs = Some (int k, d\<lparr>bn_memory := overwrite (bn_memory d) (bn_sink_offset d) (take k xs), bn_sink_offset := bn_sink_offset d + k\<rparr>)"
    using d(3) k(2,3) by (simp add: bench_write_def Let_def mem_write_overwrite flip: k_def)
  with d k show "\<exists>k d'. 0 < k \<and> k \<le> length xs \<and> bench_write d xs = Some (int k, d') \<and> bench_ok d' \<and>
      bn_memory d' = overwrite (bn_memory d) (bn_sink_offset d) (take k xs) \<and> bn_sink_offset d' = bn_sink_offset d + k"
    by (auto simp: bench_ok_def)
qed (simp_all add: bench_ok_def STORAGE_SIZE_def SSIZE_MAX_def seek_source_def seek_sink_def ufw_crc16_arc_eq)

definition bench_instance :: "u8 list \<Rightarrow> bench VersionedPersistence" where
  "bench_instance m =
     (let b = \<lparr>bn_memory = m, bn_source_offset = 0, bn_sink_offset = 0\<rparr> in
      VP_SIMPLE_INIT INFO_ADDRESS INFO_SIZE INFO_VERSION ((CHUNK_SOURCE_INIT bench_read b)\<lparr>src_seek := Some seek_source\<rparr>)
        ((CHUNK_SINK_INIT bench_write b)\<lparr>snk_seek := Some seek_sink\<rparr>) b)"

lemma bench_instance:
  assumes "length m = STORAGE_SIZE"
  shows "bench.attached (bench_instance m)" "bn_memory (vp_medium (bench_instance m)) = m" "length (vp_metablock (bench_instance m)) = 8"
    "vp_address (bench_instance m) = 24" "vp_spec_length (bench_instance m) = 36" "vp_spec_version (bench_instance m) = 5"
    "vp_initial (bench_instance m) = CRC16_ARC_INITIAL"
  using assms by (simp_all add: bench_instance_def Let_def VP_SIMPLE_INIT_def VP_INIT_def VP_FULL_INIT_def bench.attached_def bench.wired_def
      CHUNK_SOURCE_INIT_def CHUNK_SINK_INIT_def plain_retry_def EP_RETRY_INIT_def bench_ok_def vp_offsets INFO_ADDRESS_def INFO_SIZE_def INFO_VERSION_def)

theorem vp_save_load_witness:
  "\<exists>vp' vp2. vp_save SYSTEM_ENDIANNESS_LITTLE (bench_instance (replicate 512 0xff)) [1, 2, 3, 4, 5, 6, 7] 7 = Some (0, vp') \<and> vp_usable vp' \<and>
     vp_fetch SYSTEM_ENDIANNESS_LITTLE vp' [0, 0, 0] 2 3 = Some (3, [3, 4, 5], vp2)"
proof -
  let ?vp = "bench_instance (replicate 512 0xff)"
  have m: "length (replicate 512 (0xff :: u8)) = STORAGE_SIZE"
    by (simp add: STORAGE_SIZE_def)
  note b = bench_instance [OF m]
  have a: "unat (vp_address ?vp) + 8 + unat (vp_spec_length ?vp) \<le> length (replicate 512 (0xff :: u8))" "7 \<le> unat (vp_spec_length ?vp)"
    "7 \<le> length [1, 2, 3, 4, 5, 6, 7 :: u8]" "length [1, 2, 3, 4, 5, 6, 7 :: u8] \<le> SSIZE_MAX"
    using b by (simp_all add: SSIZE_MAX_def)
  obtain vp' where s: "vp_save SYSTEM_ENDIANNESS_LITTLE ?vp [1, 2, 3, 4, 5, 6, 7] 7 = Some (0, vp')" "vp_usable vp'"
    "\<forall>off k dst. 0 < k \<and> off + k \<le> 7 \<and> length dst = k \<longrightarrow>
       (\<exists>vp2. vp_fetch SYSTEM_ENDIANNESS_LITTLE vp' dst off k = Some (int k, take k (drop off [1, 2, 3, 4, 5, 6, 7]), vp2))"
    using vp_save_load [OF bench.checked_storage_axioms b(1-3) a, of SYSTEM_ENDIANNESS_LITTLE] by blast
  have "take 3 (drop 2 [1, 2, 3, 4, 5, 6, 7 :: u8]) = [3, 4, 5]" "length [0, 0, 0 :: u8] = 3"
    by simp_all
  with s(1,2) s(3) [rule_format, of 3 2 "[0, 0, 0]"] show ?thesis
    by auto
qed

text \<open>A memory with an intact section in it.\<close>

definition bench_memory :: "u8 list" where
  "bench_memory = replicate 24 0xff @ section_octets crc16_sum SYSTEM_ENDIANNESS_LITTLE CRC16_ARC_INITIAL 5 (replicate 36 7) @ replicate 444 0"

lemma bench_memory:
  shows "length bench_memory = STORAGE_SIZE"
    "take (8 + length (replicate 36 7)) (drop (unat (vp_address (bench_instance bench_memory))) bench_memory) =
       section_octets crc16_sum SYSTEM_ENDIANNESS_LITTLE (vp_initial (bench_instance bench_memory)) 5 (replicate 36 7)"
    "unat (vp_address (bench_instance bench_memory)) + 8 + length (replicate 36 (7 :: u8)) \<le> length bench_memory" "length (replicate 36 (7 :: u8)) < 2 ^ 16"
proof -
  show l: "length bench_memory = STORAGE_SIZE"
    by (simp add: bench_memory_def STORAGE_SIZE_def)
  show "take (8 + length (replicate 36 7)) (drop (unat (vp_address (bench_instance bench_memory))) bench_memory) =
       section_octets crc16_sum SYSTEM_ENDIANNESS_LITTLE (vp_initial (bench_instance bench_memory)) 5 (replicate 36 7)"
    unfolding bench_instance [OF l] by (simp add: bench_memory_def)
  show "unat (vp_address (bench_instance bench_memory)) + 8 + length (replicate 36 (7 :: u8)) \<le> length bench_memory" "length (replicate 36 (7 :: u8)) < 2 ^ 16"
    using l by (simp_all add: bench_instance [OF l] STORAGE_SIZE_def)
qed

theorem vp_load_exact_witness:
  "\<exists>vp'. vp_load SYSTEM_ENDIANNESS_LITTLE (bench_instance bench_memory) = Some (0, vp') \<and> vp_usable vp'"
proof -
  let ?vp = "bench_instance bench_memory" and ?xs = "replicate 36 7 :: u8 list"
  note b = bench_instance [OF bench_memory(1)] and p = bench.section_parts [OF bench_memory(2-4) refl]
  have f: "unat (vp_address ?vp) + 8 + unat (of_nat (length ?xs) :: u16) \<le> length bench_memory"
    "?xs = take (unat (of_nat (length ?xs) :: u16)) (drop (unat (vp_address ?vp) + 8) bench_memory)"
    using p(2,3) bench_memory(3) by simp_all
  show ?thesis
    using vp_load_exact [OF bench.checked_storage_axioms b(1-3) p(1) f] b by auto
qed

theorem vp_format_then_load_witness:
  "\<exists>vp' vp2. vp_format SYSTEM_ENDIANNESS_BIG (bench_instance (replicate 512 0xff)) = Some (0, vp') \<and>
     vp_load SYSTEM_ENDIANNESS_BIG vp' = Some (- EBADMSG, vp2) \<and> \<not> vp_usable vp2"
proof -
  have m: "length (replicate 512 (0xff :: u8)) = STORAGE_SIZE"
    by (simp add: STORAGE_SIZE_def)
  note b = bench_instance [OF m]
  have a: "unat (vp_address (bench_instance (replicate 512 0xff))) + 8 + unat (vp_spec_length (bench_instance (replicate 512 0xff))) \<le> length (replicate 512 (0xff :: u8))"
    using b by simp
  show ?thesis
    using vp_format_then_load [OF bench.checked_storage_axioms b(1-3) a, of SYSTEM_ENDIANNESS_BIG] by blast
qed

theorem vp_section_is_array_witness:
  "\<exists>vp1 vp2. vp_load SYSTEM_ENDIANNESS_LITTLE (bench_instance bench_memory) = Some (0, vp1) \<and>
     vp_run SYSTEM_ENDIANNESS_LITTLE vp1 [VStore 2 [1, 2], VFetch 1 4, VFetch 34 3, VLoad] =
       Some ([(2, []), (4, [7, 1, 2, 7]), (- EFAULT, []), (0, [])], vp2)"
proof -
  have r: "array_run (replicate 36 7) [VStore 2 [1, 2], VFetch 1 4, VFetch 34 3, VLoad] =
      ([(2, []), (4, [7, 1, 2, 7]), (- EFAULT, []), (0, [])], overwrite (replicate 36 7) 2 [1, 2])"
    by (simp add: overwrite_def numeral_eq_Suc)
  have s: "list_all op_small [VStore 2 [1, 2], VFetch 1 4, VFetch 34 3, VLoad]"
    by (simp add: SIZE_MOD_def)
  show ?thesis
    using vp_section_is_array [OF bench.checked_storage_axioms bench_instance(1-3) [OF bench_memory(1)] bench_memory(3,4,2) s r] by blast
qed

theorem vp_store_before_section_witness:
  "\<exists>vp1 vp2. vp_load SYSTEM_ENDIANNESS_LITTLE (bench_instance bench_memory) = Some (0, vp1) \<and>
     vp_store SYSTEM_ENDIANNESS_LITTLE vp1 (replicate 20 1) (SIZE_MOD - 20) 20 = Some (20, vp2) \<and>
     bn_memory (vp_medium vp2) = overwrite bench_memory 12 (replicate 12 1)"
proof -
  have k: "8 \<le> (20 :: nat)" "20 \<le> unat (vp_address (bench_instance bench_memory)) + 8" "length (replicate 20 (1 :: u8)) = 20"
    by (simp_all add: bench_instance [OF bench_memory(1)])
  show ?thesis
    using vp_store_before_section [OF bench.checked_storage_axioms bench_instance(1-3) [OF bench_memory(1)] bench_memory(3,4,2) k]
    by (simp add: bench_instance [OF bench_memory(1)])
qed

theorem vp_detects_damage_witness:
  "\<exists>vp'. vp_load SYSTEM_ENDIANNESS_LITTLE (bench_instance (replicate 24 0xff @ overwrite (section_octets crc16_sum SYSTEM_ENDIANNESS_LITTLE
     CRC16_ARC_INITIAL 5 (replicate 36 7)) 20 [7, 8] @ replicate 444 0)) = Some (- EBADMSG, vp') \<and> \<not> vp_usable vp'"
proof -
  let ?sec = "section_octets crc16_sum SYSTEM_ENDIANNESS_LITTLE CRC16_ARC_INITIAL 5 (replicate 36 7)"
  let ?m = "replicate 24 0xff @ overwrite ?sec 20 [7, 8] @ replicate 444 0"
  have l: "length ?m = STORAGE_SIZE"
    by (simp add: STORAGE_SIZE_def)
  note b = bench_instance [OF l]
  have a: "unat (vp_address (bench_instance ?m)) + 8 + length (replicate 36 (7 :: u8)) \<le> length ?m" "length (replicate 36 (7 :: u8)) < 2 ^ 16"
    "?sec = section_octets crc16_sum SYSTEM_ENDIANNESS_LITTLE (vp_initial (bench_instance ?m)) 5 (replicate 36 7)"
    "take (8 + length (replicate 36 (7 :: u8))) (drop (unat (vp_address (bench_instance ?m))) ?m) = overwrite ?sec 20 [7, 8]"
    using b by simp_all
  have "take 2 (drop 20 ?sec) = take 2 (drop 12 (replicate 36 7))"
    by (simp add: section_octets_def Let_def)
  then have c: "take 2 (drop 20 ?sec) \<noteq> [7, 8]" "(20 :: nat) \<noteq> 1" "20 + 2 \<le> length ?sec"
    by (simp_all add: numeral_eq_Suc section_octets_def Let_def)
  show ?thesis
    using vp_detects_damage [OF bench.checked_storage_axioms b(1-3) a c(2,3,1)] by simp
qed

end
