(* ===== verification/Compat_Strings.thy ===== *)
theory Compat_Strings
  imports Ufw_Prelude
begin

text \<open>
  The string functions of the compatibility layer, \<^verbatim>\<open>src/compat/strlcpy.c\<close>, \<^verbatim>\<open>strlcat.c\<close> and \<^verbatim>\<open>strnlen.c\<close>. A pointer
  into a string is the list of the octets from there to the end of the memory object; a string ends at its first zero.
\<close>

section \<open>Strings in memory\<close>

definition octets :: "string \<Rightarrow> u8 list" where
  "octets = map of_char"

definition octet_at :: "u8 list \<Rightarrow> nat \<Rightarrow> u8 option" where
  "octet_at s i = (if i < length s then Some (s ! i) else None)"

lemma octet_at_inside [mem_simps]: "i < length s \<Longrightarrow> octet_at s i = Some (s ! i)"
  by (simp add: octet_at_def)

text \<open>The index behind the zero that \<open>while (*src++)\<close> arrives at.\<close>

function behind_string :: "u8 list \<Rightarrow> nat \<Rightarrow> nat option" where
  "behind_string src i = (if i < length src then (if src ! i \<noteq> 0 then behind_string src (i + 1) else Some (i + 1)) else None)"
  by pat_completeness auto
termination by (relation "measure (\<lambda>(src, i). length src - i)") auto

declare behind_string.simps [simp del]

definition strlen :: "u8 list \<Rightarrow> nat option" where
  "strlen s = do { i \<leftarrow> behind_string s 0; Some (i - 1) }"

section \<open>The functions\<close>

fun strlcpy_loop :: "u8 list \<Rightarrow> u8 list \<Rightarrow> nat \<Rightarrow> nat \<Rightarrow> (u8 list \<times> nat \<times> nat) option" where
  "strlcpy_loop dst src i 0 = Some (dst, i, 0)"
| "strlcpy_loop dst src i (Suc nleft) =
     (if nleft \<noteq> 0 then do {
         c \<leftarrow> octet_at src i;
         dst \<leftarrow> mem_write dst i [c];
         if c = 0 then Some (dst, i + 1, nleft) else strlcpy_loop dst src (i + 1) nleft
       }
      else Some (dst, i, nleft))"

definition strlcpy :: "u8 list \<Rightarrow> u8 list \<Rightarrow> nat \<Rightarrow> (nat \<times> u8 list) option" where
  "strlcpy dst src dsize = do {
     (dst, i, nleft) \<leftarrow> (if dsize \<noteq> 0 then strlcpy_loop dst src 0 dsize else Some (dst, 0, 0));
     if nleft = 0 then do {
       dst \<leftarrow> (if dsize \<noteq> 0 then mem_write dst i [0] else Some dst);
       i \<leftarrow> behind_string src i;
       Some (sz_sub i 1, dst)
     } else Some (sz_sub i 1, dst)
   }"

fun strnlen_loop :: "u8 list \<Rightarrow> nat \<Rightarrow> nat \<Rightarrow> nat option" where
  "strnlen_loop str cp 0 = Some cp"
| "strnlen_loop str cp (Suc maxlen) = do {
     c \<leftarrow> octet_at str cp;
     if c \<noteq> 0 then strnlen_loop str (cp + 1) maxlen else Some cp
   }"

definition strnlen :: "u8 list \<Rightarrow> nat \<Rightarrow> nat option" where
  "strnlen str maxlen = strnlen_loop str 0 maxlen"

text \<open>The first loop of \<open>strlcat\<close> is the one of \<open>strnlen\<close>; the second goes over the source with room for \<open>n\<close> octets.\<close>

function strlcat_loop :: "u8 list \<Rightarrow> nat \<Rightarrow> u8 list \<Rightarrow> nat \<Rightarrow> nat \<Rightarrow> (u8 list \<times> nat \<times> nat) option" where
  "strlcat_loop dst j src i n =
     (if i < length src then
        if src ! i \<noteq> 0 then
          if n \<noteq> 0 then do { dst \<leftarrow> mem_write dst j [src ! i]; strlcat_loop dst (j + 1) src (i + 1) (n - 1) }
          else strlcat_loop dst j src (i + 1) n
        else Some (dst, j, i)
      else None)"
  by pat_completeness auto
termination by (relation "measure (\<lambda>(dst, j, src, i, n). length src - i)") auto

declare strlcat_loop.simps [simp del]

definition strlcat :: "u8 list \<Rightarrow> u8 list \<Rightarrow> nat \<Rightarrow> (nat \<times> u8 list) option" where
  "strlcat dst src dsize = do {
     dlen \<leftarrow> strnlen_loop dst 0 dsize;
     let n = dsize - dlen;
     if n = 0 then do { l \<leftarrow> strlen src; Some (sz_add dlen l, dst) }
     else do {
       (dst, j, i) \<leftarrow> strlcat_loop dst dlen src 0 (n - 1);
       dst \<leftarrow> mem_write dst j [0];
       Some (sz_add dlen i, dst)
     }
   }"

section \<open>What they do\<close>

definition ends_string :: "u8 list \<Rightarrow> u8 list \<Rightarrow> bool" where
  "ends_string s m \<longleftrightarrow> 0 \<notin> set s \<and> (\<exists>r. m = s @ 0 # r)"

lemma behind_string_ok:
  assumes "src = pre @ s @ 0 # r" "0 \<notin> set s"
  shows "behind_string src (length pre) = Some (length pre + length s + 1)"
  using assms
proof (induction s arbitrary: pre)
  case Nil
  then show ?case by (subst behind_string.simps) simp
next
  case (Cons c s)
  have "behind_string src (length (pre @ [c])) = Some (length (pre @ [c]) + length s + 1)"
    by (rule Cons.IH) (use Cons.prems in auto)
  with Cons.prems show ?case by (subst behind_string.simps) simp
qed

lemma strlen_ok: "ends_string s m \<Longrightarrow> strlen m = Some (length s)"
  using behind_string_ok [of m "[]" s] by (auto simp: strlen_def ends_string_def)

text \<open>As long as there is room, the octets go to the same place of the destination.\<close>

lemma strlcpy_loop_ok:
  assumes "src = pre @ s @ 0 # r" "0 \<notin> set s" "length pre + nleft \<le> length dst" "0 < nleft"
  shows "strlcpy_loop dst src (length pre) nleft =
     (if length s < nleft - 1 then Some (overwrite dst (length pre) (s @ [0]), length pre + length s + 1, nleft - 1 - length s)
      else Some (overwrite dst (length pre) (take (nleft - 1) s), length pre + (nleft - 1), 0))"
  using assms
proof (induction s arbitrary: pre nleft dst)
  case Nil
  then show ?case
    by (cases nleft) (auto simp: octet_at_def mem_write_overwrite nth_append)
next
  case (Cons c s)
  then obtain k where k: "nleft = Suc k" by (cases nleft) auto
  show ?case
  proof (cases "k = 0")
    case True
    with k show ?thesis by simp
  next
    case False
    let ?d = "overwrite dst (length pre) [c]"
    have l: "length pre + 1 \<le> length dst" using Cons.prems(3) k by simp
    have "strlcpy_loop ?d src (length (pre @ [c])) k =
       (if length s < k - 1 then Some (overwrite ?d (length (pre @ [c])) (s @ [0]), length (pre @ [c]) + length s + 1, k - 1 - length s)
        else Some (overwrite ?d (length (pre @ [c])) (take (k - 1) s), length (pre @ [c]) + (k - 1), 0))"
      by (rule Cons.IH) (use Cons.prems k False l in auto)
    moreover have "octet_at src (length pre) = Some c" "c \<noteq> 0"
      using Cons.prems by (auto simp: octet_at_def nth_append)
    moreover have "overwrite ?d (length pre + 1) ys = overwrite dst (length pre) (c # ys)" if "length pre + 1 + length ys \<le> length dst" for ys
      using overwrite_append [of "length pre" "[c]" ys dst] that by simp
    moreover have "take k (c # s) = c # take (k - 1) s"
      using False by (cases k) auto
    ultimately show ?thesis
      using Cons.prems k False l by (auto simp: mem_write_overwrite)
  qed
qed

lemma strlcpy_ok:
  assumes "ends_string s src" "dsize \<le> length dst" "0 < dsize" "length s < SIZE_MOD - 1"
  shows "strlcpy dst src dsize = Some (length s, overwrite dst 0 (take (dsize - 1) s @ [0]))"
proof -
  obtain r where src: "src = s @ 0 # r" and s: "0 \<notin> set s"
    using assms(1) by (auto simp: ends_string_def)
  note l = strlcpy_loop_ok [of src "[]" s r dsize dst]
  show ?thesis
  proof (cases "length s < dsize - 1")
    case True
    then have "\<not> dsize \<le> Suc (length s)" "take (dsize - 1) s = s"
      by simp_all
    with True l src s assms show ?thesis
      by (simp add: strlcpy_def)
  next
    case False
    have "src = take (dsize - 1) s @ drop (dsize - 1) s @ 0 # r"
      using src by simp
    then have "behind_string src (length (take (dsize - 1) s)) = Some (length (take (dsize - 1) s) + length (drop (dsize - 1) s) + 1)"
      by (rule behind_string_ok) (use s in \<open>auto dest: in_set_dropD\<close>)
    moreover have "overwrite (overwrite dst 0 (take (dsize - 1) s)) (dsize - 1) [0] = overwrite dst 0 (take (dsize - 1) s @ [0])"
      using overwrite_append [of 0 "take (dsize - 1) s" "[0]" dst] False assms by simp
    ultimately show ?thesis
      using False l src s assms by (simp add: strlcpy_def mem_write_overwrite)
  qed
qed

lemma strnlen_loop_ok:
  assumes "m = pre @ s @ 0 # r" "0 \<notin> set s"
  shows "strnlen_loop m (length pre) n = Some (length pre + min n (length s))"
  using assms
proof (induction s arbitrary: pre n)
  case Nil
  then show ?case by (cases n) (auto simp: octet_at_def nth_append)
next
  case (Cons c s)
  show ?case
  proof (cases n)
    case (Suc k)
    have "strnlen_loop m (length (pre @ [c])) k = Some (length (pre @ [c]) + min k (length s))"
      by (rule Cons.IH) (use Cons.prems in auto)
    with Cons.prems Suc show ?thesis by (auto simp: octet_at_def nth_append)
  qed simp
qed

lemma strnlen_ok: "ends_string s m \<Longrightarrow> strnlen m n = Some (min n (length s))"
  using strnlen_loop_ok [of m "[]" s] by (auto simp: strnlen_def ends_string_def)

lemma strlcat_loop_ok:
  assumes "src = pre @ s @ 0 # r" "0 \<notin> set s" "j + n \<le> length dst"
  shows "strlcat_loop dst j src (length pre) n = Some (overwrite dst j (take n s), j + min n (length s), length pre + length s)"
  using assms
proof (induction s arbitrary: pre n j dst)
  case Nil
  then show ?case by (subst strlcat_loop.simps) (simp add: nth_append)
next
  case (Cons c s)
  have c: "src ! length pre = c" "c \<noteq> 0" "length pre < length src"
    using Cons.prems by auto
  show ?case
  proof (cases n)
    case 0
    have "strlcat_loop dst j src (length (pre @ [c])) 0 = Some (overwrite dst j (take 0 s), j + min 0 (length s), length (pre @ [c]) + length s)"
      by (rule Cons.IH) (use Cons.prems 0 in auto)
    with c 0 show ?thesis by (subst strlcat_loop.simps) simp
  next
    case (Suc k)
    have "strlcat_loop (overwrite dst j [c]) (j + 1) src (length (pre @ [c])) k =
       Some (overwrite (overwrite dst j [c]) (j + 1) (take k s), j + 1 + min k (length s), length (pre @ [c]) + length s)"
      by (rule Cons.IH) (use Cons.prems Suc in auto)
    moreover have "overwrite (overwrite dst j [c]) (j + 1) (take k s) = overwrite dst j (c # take k s)"
      using overwrite_append [of j "[c]" "take k s" dst] Cons.prems(3) Suc by simp
    ultimately show ?thesis
      using c Suc Cons.prems(3) by (subst strlcat_loop.simps) (simp add: mem_write_overwrite)
  qed
qed

lemma strlcat_ok:
  assumes "ends_string d dst" "ends_string s src" "length d < dsize" "dsize \<le> length dst" "length d + length s < SIZE_MOD"
  shows "strlcat dst src dsize = Some (length d + length s, overwrite dst (length d) (take (dsize - 1 - length d) s @ [0]))"
proof -
  obtain r where dst: "dst = d @ 0 # r" and d: "0 \<notin> set d"
    using assms(1) by (auto simp: ends_string_def)
  obtain t where src: "src = s @ 0 # t" and s: "0 \<notin> set s"
    using assms(2) by (auto simp: ends_string_def)
  let ?n = "dsize - length d - 1"
  have a: "strnlen_loop dst 0 dsize = Some (length d)"
    using strnlen_loop_ok [of dst "[]" d r dsize] dst d assms(3) by simp
  have b: "strlcat_loop dst (length d) src 0 ?n = Some (overwrite dst (length d) (take ?n s), length d + min ?n (length s), length s)"
    using strlcat_loop_ok [of src "[]" s t "length d" ?n dst] src s assms(3,4) by simp
  have c: "overwrite (overwrite dst (length d) (take ?n s)) (length d + min ?n (length s)) [0] = overwrite dst (length d) (take ?n s @ [0])"
    using overwrite_append [of "length d" "take ?n s" "[0]" dst] assms(3,4) by (simp add: min.commute)
  have e: "dsize - 1 - length d = ?n" "dsize - length d \<noteq> 0"
    using assms(3) by simp_all
  have "length d + min ?n (length s) + 1 \<le> length dst"
    using assms(3,4) by linarith
  with a b c e assms(3-5) show ?thesis
    by (simp add: strlcat_def mem_write_overwrite sz_add_id)
qed

lemma drop_overwrite: "off + length xs \<le> n \<Longrightarrow> n \<le> length m \<Longrightarrow> drop n (overwrite m off xs) = drop n m"
  by (simp add: overwrite_def)

text \<open>C38. Building a string piece by piece is safe. Copying one string and appending another, with the size of the
  destination given both times, leaves the beginning of both together that has room, ended by a zero, and nothing behind
  the size changes; the results are the length of the string to be copied, and the sum of the lengths of what was there
  and of what was to be appended, so that a result of at least the size tells that octets were left out.\<close>

theorem strl_builds_prefix:
  assumes "ends_string s m" and "ends_string t m'" and "0 < dsize" and "dsize \<le> length dst" and "length s + length t < SIZE_MOD - 1"
  shows "\<exists>dst1 dst2. strlcpy dst m dsize = Some (length s, dst1) \<and>
     strlcat dst1 m' dsize = Some (min (dsize - 1) (length s) + length t, dst2) \<and>
     dst2 = take (dsize - 1) (s @ t) @ [0] @ drop (min (dsize - 1) (length (s @ t)) + 1) (overwrite dst 0 (take (dsize - 1) s @ [0])) \<and>
     strnlen dst2 dsize = Some (min (dsize - 1) (length (s @ t))) \<and> drop dsize dst2 = drop dsize dst"
proof -
  let ?k = "dsize - 1"
  let ?d = "take ?k s"
  let ?dst1 = "overwrite dst 0 (?d @ [0])"
  let ?dst2 = "overwrite ?dst1 (length ?d) (take (?k - length ?d) t @ [0])"
  have z: "0 \<notin> set s" "0 \<notin> set t"
    using assms(1,2) by (auto simp: ends_string_def)
  have l: "length ?dst1 = length dst" "length ?d < dsize"
    using assms(3,4) by auto
  have cpy: "strlcpy dst m dsize = Some (length s, ?dst1)"
    using strlcpy_ok [OF assms(1) assms(4) assms(3)] assms(5) by simp
  have e: "ends_string ?d ?dst1"
    using z by (auto simp: ends_string_def overwrite_def dest: in_set_takeD)
  have cat: "strlcat ?dst1 m' dsize = Some (min ?k (length s) + length t, ?dst2)"
    using strlcat_ok [OF e assms(2) l(2)] l(1) assms(4,5) by (simp add: min.commute)
  have st: "?d @ take (?k - length ?d) t = take ?k (s @ t)"
    by (cases "?k \<le> length s") simp_all
  have tk: "take (length ?d) ?dst1 = ?d" "length ?d + length (take (?k - length ?d) t @ [0]) = min ?k (length (s @ t)) + 1"
    by (auto simp: overwrite_def min_def)
  have d2: "?dst2 = take ?k (s @ t) @ [0] @ drop (min ?k (length (s @ t)) + 1) ?dst1"
    unfolding overwrite_def [of ?dst1] tk st [symmetric] append_assoc by (rule refl)
  have ends: "ends_string (take ?k (s @ t)) ?dst2"
    unfolding d2 ends_string_def using z by (auto dest: in_set_takeD)
  have "drop dsize ?dst2 = drop dsize ?dst1"
    by (rule drop_overwrite) (use assms(3,4) l in auto)
  also have "\<dots> = drop dsize dst"
    by (rule drop_overwrite) (use assms(3,4) in auto)
  finally show ?thesis
    using cpy cat d2 strnlen_ok [OF ends] by (auto simp: min_def)
qed

theorem strl_builds_prefix_witness:
  "\<exists>dst1 dst2. strlcpy (replicate 6 7) [65, 66, 0] 5 = Some (2, dst1) \<and> strlcat dst1 [67, 68, 69, 0] 5 = Some (5, dst2) \<and>
     dst2 = [65, 66, 67, 68, 0, 7]"
proof -
  have e: "ends_string [65, 66] [65, 66, 0]" "ends_string [67, 68, 69] [67, 68, 69, 0]" "length [65, 66 :: u8] + length [67, 68, 69 :: u8] < SIZE_MOD - 1"
    by (simp_all add: ends_string_def SIZE_MOD_def)
  show ?thesis
    using strl_builds_prefix [OF e(1,2) _ _ e(3), of 5 "replicate 6 7"] by (auto simp: overwrite_def numeral_eq_Suc)
qed

end
