(* ===== verification/S_Expressions.thy ===== *)
theory S_Expressions
  imports Compat_Strings
begin

text \<open>
  S-expressions, \<^verbatim>\<open>src/sx.c\<close> and \<^verbatim>\<open>include/ufw/sx.h\<close>, as structures in the heap of the C library: nodes, pairs
  and the octets of symbols are cells of their own, that are allocated and released one by one. A call that is given up
  because there is no memory ends the process; its outcome is \<open>Inl\<close> with the exit status. \<open>None\<close> is behaviour that C
  does not define: reading through a null pointer, a cell that was released, or the wrong member of the union.

  This theory has the heap, the nodes and the functions on lists; the parser is in \<open>S_Expression_Parser\<close>.
\<close>

section \<open>Data types\<close>

type_synonym sx_ptr = "nat option"

datatype sx_node_type = SXT_SYMBOL | SXT_INTEGER | SXT_PAIR | SXT_EMPTY_LIST

datatype sx_data = Undefined | U64 u64 | Symbol_ptr sx_ptr | Pair_ptr sx_ptr

text \<open>A node fresh from \<open>malloc\<close> has no type yet.\<close>

record sx_node =
  nd_type :: "sx_node_type option"
  nd_data :: sx_data

record sx_pair =
  pr_car :: sx_ptr
  pr_cdr :: sx_ptr

section \<open>The heap\<close>

text \<open>\<open>hp_left\<close> is the number of cells there is still room for. Released addresses are not given out again, so an access
  through an old pointer is always found out.\<close>

datatype sx_cell = Node_cell sx_node | Pair_cell sx_pair | Char_cell "u8 list"

record sx_heap =
  hp_cells :: "nat \<rightharpoonup> sx_cell"
  hp_next :: nat
  hp_left :: nat

type_synonym 'a sx_run = "(int + 'a \<times> sx_heap) option"

definition sx_return :: "'a \<Rightarrow> sx_heap \<Rightarrow> 'a sx_run" where
  "sx_return x h = Some (Inr (x, h))"

definition sx_then :: "'a sx_run \<Rightarrow> ('a \<Rightarrow> sx_heap \<Rightarrow> 'b sx_run) \<Rightarrow> 'b sx_run" where
  "sx_then r k = do { o' \<leftarrow> r; case o' of Inl status \<Rightarrow> Some (Inl status) | Inr (x, h) \<Rightarrow> k x h }"

lemma sx_then_mono [partial_function_mono]:
  assumes "mono_option (\<lambda>f. B f)" and "\<And>x h. mono_option (\<lambda>f. C x h f)"
  shows "mono_option (\<lambda>f. sx_then (B f) (\<lambda>x h. C x h f))"
proof -
  have "mono_option (\<lambda>f. case y of Inl status \<Rightarrow> Some (Inl status) | Inr (x, h) \<Rightarrow> C x h f)" for y
    using assms(2) by (cases y) (auto simp: option.const_mono split: prod.split)
  then show ?thesis
    unfolding sx_then_def by (intro bind_mono assms(1))
qed

definition sx_alloc :: "sx_cell \<Rightarrow> sx_heap \<Rightarrow> sx_ptr \<times> sx_heap" where
  "sx_alloc c h =
     (if hp_left h = 0 then (None, h)
      else (Some (hp_next h),
        h\<lparr>hp_cells := (hp_cells h)(hp_next h \<mapsto> c), hp_next := hp_next h + 1, hp_left := hp_left h - 1\<rparr>))"

definition sx_cell_at :: "sx_ptr \<Rightarrow> sx_heap \<Rightarrow> sx_cell option" where
  "sx_cell_at p h = do { a \<leftarrow> p; hp_cells h a }"

definition sx_free :: "sx_ptr \<Rightarrow> sx_heap \<Rightarrow> sx_heap option" where
  "sx_free p h = (case p of None \<Rightarrow> Some h
     | Some a \<Rightarrow> do { _ \<leftarrow> hp_cells h a; Some (h\<lparr>hp_cells := (hp_cells h)(a := None), hp_left := hp_left h + 1\<rparr>) })"

definition node_at :: "sx_ptr \<Rightarrow> sx_heap \<Rightarrow> sx_node option" where
  "node_at p h = do { c \<leftarrow> sx_cell_at p h; case c of Node_cell n \<Rightarrow> Some n | _ \<Rightarrow> None }"

definition pair_at :: "sx_ptr \<Rightarrow> sx_heap \<Rightarrow> sx_pair option" where
  "pair_at p h = do { c \<leftarrow> sx_cell_at p h; case c of Pair_cell n \<Rightarrow> Some n | _ \<Rightarrow> None }"

definition chars_at :: "sx_ptr \<Rightarrow> sx_heap \<Rightarrow> u8 list option" where
  "chars_at p h = do { c \<leftarrow> sx_cell_at p h; case c of Char_cell n \<Rightarrow> Some n | _ \<Rightarrow> None }"

definition sx_update :: "sx_ptr \<Rightarrow> sx_cell \<Rightarrow> sx_heap \<Rightarrow> sx_heap option" where
  "sx_update p c h = do { a \<leftarrow> p; _ \<leftarrow> hp_cells h a; Some (h\<lparr>hp_cells := (hp_cells h)(a \<mapsto> c)\<rparr>) }"

definition set_type :: "sx_ptr \<Rightarrow> sx_node_type \<Rightarrow> sx_heap \<Rightarrow> sx_heap option" where
  "set_type p t h = do { n \<leftarrow> node_at p h; sx_update p (Node_cell (n\<lparr>nd_type := Some t\<rparr>)) h }"

definition set_data :: "sx_ptr \<Rightarrow> sx_data \<Rightarrow> sx_heap \<Rightarrow> sx_heap option" where
  "set_data p d h = do { n \<leftarrow> node_at p h; sx_update p (Node_cell (n\<lparr>nd_data := d\<rparr>)) h }"

text \<open>The members of the union.\<close>

definition data_u64 :: "sx_ptr \<Rightarrow> sx_heap \<Rightarrow> u64 option" where
  "data_u64 p h = do { n \<leftarrow> node_at p h; case nd_data n of U64 u \<Rightarrow> Some u | _ \<Rightarrow> None }"

definition data_symbol :: "sx_ptr \<Rightarrow> sx_heap \<Rightarrow> sx_ptr option" where
  "data_symbol p h = do { n \<leftarrow> node_at p h; case nd_data n of Symbol_ptr u \<Rightarrow> Some u | _ \<Rightarrow> None }"

definition data_pair :: "sx_ptr \<Rightarrow> sx_heap \<Rightarrow> sx_ptr option" where
  "data_pair p h = do { n \<leftarrow> node_at p h; case nd_data n of Pair_ptr u \<Rightarrow> Some u | _ \<Rightarrow> None }"

definition node_type :: "sx_ptr \<Rightarrow> sx_heap \<Rightarrow> sx_node_type option" where
  "node_type p h = do { n \<leftarrow> node_at p h; nd_type n }"

definition set_car :: "sx_ptr \<Rightarrow> sx_ptr \<Rightarrow> sx_heap \<Rightarrow> sx_heap option" where
  "set_car q p h = do { pr \<leftarrow> pair_at q h; sx_update q (Pair_cell (pr\<lparr>pr_car := p\<rparr>)) h }"

definition set_cdr :: "sx_ptr \<Rightarrow> sx_ptr \<Rightarrow> sx_heap \<Rightarrow> sx_heap option" where
  "set_cdr q p h = do { pr \<leftarrow> pair_at q h; sx_update q (Pair_cell (pr\<lparr>pr_cdr := p\<rparr>)) h }"

section \<open>Making nodes\<close>

text \<open>\<open>sxoom\<close> writes a message and ends the process with status one.\<close>

definition sxoom :: "'a sx_run" where
  "sxoom = Some (Inl 1)"

definition make_node :: "sx_heap \<Rightarrow> sx_ptr sx_run" where
  "make_node h = (let (node, h) = sx_alloc (Node_cell \<lparr>nd_type = None, nd_data = Undefined\<rparr>) h
     in if node = None then sxoom else sx_return node h)"

definition sx_make_integer :: "u64 \<Rightarrow> sx_heap \<Rightarrow> sx_ptr sx_run" where
  "sx_make_integer n h = sx_then (make_node h) (\<lambda>node h. do {
     h \<leftarrow> set_type node SXT_INTEGER h;
     h \<leftarrow> set_data node (U64 n) h;
     sx_return node h
   })"

definition sx_make_empty_list :: "sx_heap \<Rightarrow> sx_ptr sx_run" where
  "sx_make_empty_list h = sx_then (make_node h) (\<lambda>node h. do {
     h \<leftarrow> set_type node SXT_EMPTY_LIST h;
     sx_return node h
   })"

definition sx_make_symboln :: "u8 list \<Rightarrow> nat \<Rightarrow> sx_heap \<Rightarrow> sx_ptr sx_run" where
  "sx_make_symboln s len h =
     (let n = sz_add len 1
      in sx_then (make_node h) (\<lambda>node h. do {
        h \<leftarrow> set_type node SXT_SYMBOL h;
        let (symbol, h) = sx_alloc (Char_cell (replicate n 0)) h;
        h \<leftarrow> set_data node (Symbol_ptr symbol) h;
        if symbol = None then sxoom
        else do {
          dst \<leftarrow> chars_at symbol h;
          (_, dst) \<leftarrow> strlcpy dst s n;
          h \<leftarrow> sx_update symbol (Char_cell dst) h;
          sx_return node h
        }
      }))"

definition sx_make_symbol :: "u8 list \<Rightarrow> sx_heap \<Rightarrow> sx_ptr sx_run" where
  "sx_make_symbol s h = do { n \<leftarrow> strlen s; sx_make_symboln s n h }"

definition make_pair :: "sx_heap \<Rightarrow> sx_ptr sx_run" where
  "make_pair h = sx_then (make_node h) (\<lambda>rv h. do {
     let (pair, h) = sx_alloc (Pair_cell \<lparr>pr_car = None, pr_cdr = None\<rparr>) h;
     h \<leftarrow> set_data rv (Pair_ptr pair) h;
     if pair = None then sxoom
     else do {
       h \<leftarrow> set_type rv SXT_PAIR h;
       sx_return rv h
     }
   })"

definition sx_cons :: "sx_ptr \<Rightarrow> sx_ptr \<Rightarrow> sx_heap \<Rightarrow> sx_ptr sx_run" where
  "sx_cons car cdr h = sx_then (make_pair h) (\<lambda>cons h. do {
     pair \<leftarrow> data_pair cons h;
     h \<leftarrow> set_car pair car h;
     pair \<leftarrow> data_pair cons h;
     h \<leftarrow> set_cdr pair cdr h;
     sx_return cons h
   })"

section \<open>Queries\<close>

definition sx_is_integer :: "sx_ptr \<Rightarrow> sx_heap \<Rightarrow> bool option" where
  "sx_is_integer node h = do { t \<leftarrow> node_type node h; Some (t = SXT_INTEGER) }"

definition sx_is_the_integer :: "sx_ptr \<Rightarrow> u64 \<Rightarrow> sx_heap \<Rightarrow> bool option" where
  "sx_is_the_integer node n h = do {
     yes \<leftarrow> sx_is_integer node h;
     if yes then do { u \<leftarrow> data_u64 node h; Some (u = n) } else Some False
   }"

definition sx_is_null :: "sx_ptr \<Rightarrow> sx_heap \<Rightarrow> bool option" where
  "sx_is_null node h = do { t \<leftarrow> node_type node h; Some (t = SXT_EMPTY_LIST) }"

definition sx_is_pair :: "sx_ptr \<Rightarrow> sx_heap \<Rightarrow> bool option" where
  "sx_is_pair node h = do { t \<leftarrow> node_type node h; Some (t = SXT_PAIR) }"

definition sx_is_symbol :: "sx_ptr \<Rightarrow> sx_heap \<Rightarrow> bool option" where
  "sx_is_symbol node h = do { t \<leftarrow> node_type node h; Some (t = SXT_SYMBOL) }"

text \<open>\<open>strcmp(a, b) == 0\<close>.\<close>

fun same_string :: "u8 list \<Rightarrow> u8 list \<Rightarrow> bool option" where
  "same_string (a # as) (b # bs) = (if a \<noteq> b then Some False else if a = 0 then Some True else same_string as bs)"
| "same_string _ _ = None"

definition sx_is_the_symbol :: "sx_ptr \<Rightarrow> u8 list \<Rightarrow> sx_heap \<Rightarrow> bool option" where
  "sx_is_the_symbol node s h = do {
     yes \<leftarrow> sx_is_symbol node h;
     if yes then do { p \<leftarrow> data_symbol node h; cs \<leftarrow> chars_at p h; same_string cs s } else Some False
   }"

definition sx_car_unsafe :: "sx_ptr \<Rightarrow> sx_heap \<Rightarrow> sx_ptr option" where
  "sx_car_unsafe n h = do { q \<leftarrow> data_pair n h; pr \<leftarrow> pair_at q h; Some (pr_car pr) }"

definition sx_cdr_unsafe :: "sx_ptr \<Rightarrow> sx_heap \<Rightarrow> sx_ptr option" where
  "sx_cdr_unsafe n h = do { q \<leftarrow> data_pair n h; pr \<leftarrow> pair_at q h; Some (pr_cdr pr) }"

definition sx_car :: "sx_ptr \<Rightarrow> sx_heap \<Rightarrow> sx_ptr option" where
  "sx_car n h = do { yes \<leftarrow> sx_is_pair n h; if yes then sx_car_unsafe n h else Some None }"

definition sx_cdr :: "sx_ptr \<Rightarrow> sx_heap \<Rightarrow> sx_ptr option" where
  "sx_cdr n h = do { yes \<leftarrow> sx_is_pair n h; if yes then sx_cdr_unsafe n h else Some None }"

section \<open>Operations on structures\<close>

text \<open>The result is what \<open>*n\<close> is afterwards. The members of a pair are released where they are, so each of them is null
  before the pair is released.\<close>

partial_function (option) sx_destroy :: "sx_ptr \<Rightarrow> sx_heap \<Rightarrow> (sx_ptr \<times> sx_heap) option" where
  "sx_destroy n h =
     (if n = None then Some (n, h)
      else do {
        pair \<leftarrow> sx_is_pair n h;
        h \<leftarrow> (if pair then do {
            q \<leftarrow> data_pair n h;
            pr \<leftarrow> pair_at q h;
            (car, h) \<leftarrow> sx_destroy (pr_car pr) h;
            h \<leftarrow> set_car q car h;
            q \<leftarrow> data_pair n h;
            pr \<leftarrow> pair_at q h;
            (cdr, h) \<leftarrow> sx_destroy (pr_cdr pr) h;
            h \<leftarrow> set_cdr q cdr h;
            q \<leftarrow> data_pair n h;
            h \<leftarrow> sx_free q h;
            set_data n (Pair_ptr None) h
          } else do {
            symbol \<leftarrow> sx_is_symbol n h;
            if symbol then do {
              q \<leftarrow> data_symbol n h;
              h \<leftarrow> sx_free q h;
              set_data n (Symbol_ptr None) h
            } else Some h
          });
        h \<leftarrow> sx_free n h;
        Some (None, h)
      })"

declare sx_destroy.simps [code]

fun sx_cxr_loop :: "sx_ptr \<Rightarrow> u8 list \<Rightarrow> nat \<Rightarrow> sx_heap \<Rightarrow> sx_ptr option" where
  "sx_cxr_loop ptr addr i h = do {
     pair \<leftarrow> sx_is_pair ptr h;
     if \<not> pair then Some None
     else do {
       c \<leftarrow> octet_at addr i;
       if c = of_char CHR ''a'' then do {
         ptr \<leftarrow> sx_car_unsafe ptr h;
         case i of 0 \<Rightarrow> Some ptr | Suc i \<Rightarrow> sx_cxr_loop ptr addr i h
       } else if c = of_char CHR ''d'' then do {
         ptr \<leftarrow> sx_cdr_unsafe ptr h;
         case i of 0 \<Rightarrow> Some ptr | Suc i \<Rightarrow> sx_cxr_loop ptr addr i h
       } else Some None
     }
   }"

declare sx_cxr_loop.simps [simp del]

definition sx_cxr :: "sx_ptr \<Rightarrow> u8 list \<Rightarrow> sx_heap \<Rightarrow> sx_ptr option" where
  "sx_cxr root addr h = do {
     i \<leftarrow> strlen addr;
     if i = 0 then Some root else sx_cxr_loop root addr (i - 1) h
   }"

text \<open>The result is the first element and the new value of \<open>*root\<close>.\<close>

definition sx_pop :: "sx_ptr \<Rightarrow> sx_heap \<Rightarrow> (sx_ptr \<times> sx_ptr \<times> sx_heap) option" where
  "sx_pop root h =
     (let node = root
      in if node = None then Some (None, root, h)
         else do {
           pair \<leftarrow> sx_is_pair node h;
           if \<not> pair then Some (node, None, h)
           else do {
             root \<leftarrow> sx_cdr_unsafe node h;
             car \<leftarrow> sx_car_unsafe node h;
             q \<leftarrow> data_pair node h;
             h \<leftarrow> sx_free q h;
             h \<leftarrow> sx_free node h;
             Some (car, root, h)
           }
         })"

partial_function (option) sx_is_list :: "sx_ptr \<Rightarrow> sx_heap \<Rightarrow> bool option" where
  "sx_is_list ptr h = do {
     null \<leftarrow> sx_is_null ptr h;
     if null then Some True
     else do {
       pair \<leftarrow> sx_is_pair ptr h;
       if \<not> pair then Some False
       else do { ptr \<leftarrow> sx_cdr_unsafe ptr h; sx_is_list ptr h }
     }
   }"

declare sx_is_list.simps [code]

text \<open>The last pair of a list, from a pair on.\<close>

partial_function (option) last_pair :: "sx_ptr \<Rightarrow> sx_heap \<Rightarrow> sx_ptr option" where
  "last_pair q h = do {
     pr \<leftarrow> pair_at q h;
     pair \<leftarrow> sx_is_pair (pr_cdr pr) h;
     if pair then do { q \<leftarrow> data_pair (pr_cdr pr) h; last_pair q h } else Some q
   }"

declare last_pair.simps [code]

definition sx_append :: "sx_ptr \<Rightarrow> sx_ptr \<Rightarrow> sx_heap \<Rightarrow> (sx_ptr \<times> sx_heap) option" where
  "sx_append a b h =
     (if a = None \<or> b = None then Some (None, h)
      else do {
        null \<leftarrow> sx_is_null a h;
        if null then do { (_, h) \<leftarrow> sx_destroy a h; Some (b, h) }
        else do {
          null \<leftarrow> sx_is_null b h;
          if null then do { (_, h) \<leftarrow> sx_destroy b h; Some (a, h) }
          else do {
            pair \<leftarrow> sx_is_pair a h;
            both \<leftarrow> (if pair then sx_is_pair b h else Some False);
            if \<not> both then Some (None, h)
            else do {
              q \<leftarrow> data_pair a h;
              q \<leftarrow> last_pair q h;
              pr \<leftarrow> pair_at q h;
              (cdr, h) \<leftarrow> sx_destroy (pr_cdr pr) h;
              h \<leftarrow> set_cdr q cdr h;
              h \<leftarrow> set_cdr q b h;
              Some (a, h)
            }
          }
        }
      })"

text \<open>The function that is called for each element works on \<open>arg\<close> and on the heap; its result is not used.\<close>

type_synonym 'a sx_nodefnc = "sx_ptr \<Rightarrow> 'a \<Rightarrow> sx_heap \<Rightarrow> ('a \<times> sx_heap) option"

partial_function (option) foreach_loop :: "sx_ptr \<Rightarrow> 'a sx_nodefnc \<Rightarrow> 'a \<Rightarrow> sx_heap \<Rightarrow> ('a \<times> sx_heap) option" where
  "foreach_loop ptr f arg h = do {
     pair \<leftarrow> sx_is_pair ptr h;
     if pair then do {
       car \<leftarrow> sx_car_unsafe ptr h;
       (arg, h) \<leftarrow> f car arg h;
       ptr \<leftarrow> sx_cdr_unsafe ptr h;
       foreach_loop ptr f arg h
     } else Some (arg, h)
   }"

declare foreach_loop.simps [code]

definition sx_foreach :: "sx_ptr \<Rightarrow> 'a sx_nodefnc \<Rightarrow> 'a \<Rightarrow> sx_heap \<Rightarrow> ('a \<times> sx_heap) option" where
  "sx_foreach node f arg h = do {
     pair \<leftarrow> sx_is_pair node h;
     if \<not> pair then Some (arg, h) else foreach_loop node f arg h
   }"

section \<open>The expression a pointer stands for\<close>

datatype sx_tree = Null | Symbol "u8 list" | Integer u64 | Empty_list | Cons sx_tree sx_tree

text \<open>\<open>holds m p t F\<close>: the structure from \<open>p\<close> on is the expression \<open>t\<close>, and its cells are those of \<open>F\<close>, none of them
  used twice.\<close>

fun holds :: "(nat \<rightharpoonup> sx_cell) \<Rightarrow> sx_ptr \<Rightarrow> sx_tree \<Rightarrow> nat set \<Rightarrow> bool" where
  "holds m p Null F \<longleftrightarrow> p = None \<and> F = {}"
| "holds m p (Symbol s) F \<longleftrightarrow> (\<exists>a b cs. p = Some a \<and> a \<noteq> b \<and> F = {a, b} \<and>
     m a = Some (Node_cell \<lparr>nd_type = Some SXT_SYMBOL, nd_data = Symbol_ptr (Some b)\<rparr>) \<and>
     m b = Some (Char_cell cs) \<and> ends_string s cs)"
| "holds m p (Integer n) F \<longleftrightarrow> (\<exists>a. p = Some a \<and> F = {a} \<and>
     m a = Some (Node_cell \<lparr>nd_type = Some SXT_INTEGER, nd_data = U64 n\<rparr>))"
| "holds m p Empty_list F \<longleftrightarrow> (\<exists>a d. p = Some a \<and> F = {a} \<and> m a = Some (Node_cell \<lparr>nd_type = Some SXT_EMPTY_LIST, nd_data = d\<rparr>))"
| "holds m p (Cons x y) F \<longleftrightarrow> (\<exists>a b px py X Y. p = Some a \<and> a \<noteq> b \<and> F = {a, b} \<union> X \<union> Y \<and>
     m a = Some (Node_cell \<lparr>nd_type = Some SXT_PAIR, nd_data = Pair_ptr (Some b)\<rparr>) \<and>
     m b = Some (Pair_cell \<lparr>pr_car = px, pr_cdr = py\<rparr>) \<and> holds m px x X \<and> holds m py y Y \<and>
     a \<notin> X \<and> b \<notin> X \<and> a \<notin> Y \<and> b \<notin> Y \<and> X \<inter> Y = {})"

lemma holds_finite: "holds m p t F \<Longrightarrow> finite F"
  by (induction t arbitrary: p F) auto

lemma holds_cells: "holds m p t F \<Longrightarrow> F \<subseteq> dom m"
  by (induction t arbitrary: p F) (auto, blast+)

lemma holds_cong: "holds m p t F \<Longrightarrow> (\<And>a. a \<in> F \<Longrightarrow> m' a = m a) \<Longrightarrow> holds m' p t F"
proof (induction t arbitrary: p F)
  case (Cons x y)
  from Cons.prems(1) obtain a b px py X Y where c: "p = Some a" "a \<noteq> b" "F = {a, b} \<union> X \<union> Y"
     "m a = Some (Node_cell \<lparr>nd_type = Some SXT_PAIR, nd_data = Pair_ptr (Some b)\<rparr>)"
     "m b = Some (Pair_cell \<lparr>pr_car = px, pr_cdr = py\<rparr>)" "holds m px x X" "holds m py y Y"
     "a \<notin> X \<and> b \<notin> X \<and> a \<notin> Y \<and> b \<notin> Y \<and> X \<inter> Y = {}"
    by auto
  have "holds m' px x X" "holds m' py y Y"
    using Cons.IH(1) [OF c(6)] Cons.IH(2) [OF c(7)] Cons.prems(2) c(3) by auto
  moreover have "m' a = m a" "m' b = m b"
    using Cons.prems(2) c(3) by auto
  ultimately show ?case
    unfolding holds.simps using c by (intro exI conjI) (assumption | simp)+
qed auto

lemmas access_defs = sx_cell_at_def node_at_def pair_at_def chars_at_def node_type_def data_u64_def data_symbol_def data_pair_def
  sx_is_integer_def sx_is_null_def sx_is_pair_def sx_is_symbol_def sx_car_unsafe_def sx_cdr_unsafe_def
  sx_update_def set_type_def set_data_def set_car_def set_cdr_def

lemma holds_Cons_cases:
  assumes "holds m p (Cons x y) F"
  obtains a b px py X Y where "p = Some a" "a \<noteq> b" "F = {a, b} \<union> X \<union> Y"
    "m a = Some (Node_cell \<lparr>nd_type = Some SXT_PAIR, nd_data = Pair_ptr (Some b)\<rparr>)"
    "m b = Some (Pair_cell \<lparr>pr_car = px, pr_cdr = py\<rparr>)" "holds m px x X" "holds m py y Y"
    "a \<notin> X" "b \<notin> X" "a \<notin> Y" "b \<notin> Y" "X \<inter> Y = {}"
  using assms by auto

lemma holds_ConsI:
  assumes "m a = Some (Node_cell \<lparr>nd_type = Some SXT_PAIR, nd_data = Pair_ptr (Some b)\<rparr>)"
    "m b = Some (Pair_cell \<lparr>pr_car = px, pr_cdr = py\<rparr>)" "holds m px x X" "holds m py y Y"
    "a \<noteq> b" "a \<notin> X" "b \<notin> X" "a \<notin> Y" "b \<notin> Y" "X \<inter> Y = {}" "F = {a, b} \<union> X \<union> Y"
  shows "holds m (Some a) (Cons x y) F"
  unfolding holds.simps using assms by (intro exI conjI) (assumption | simp)+

text \<open>The heap without some of its cells.\<close>

definition released :: "nat set \<Rightarrow> sx_heap \<Rightarrow> sx_heap" where
  "released F h = h\<lparr>hp_cells := hp_cells h |` (- F), hp_left := hp_left h + card F\<rparr>"

lemma released_empty [simp]: "released {} h = h"
  by (simp add: released_def restrict_map_def)

lemma sx_destroy_ok: "holds (hp_cells h) p t F \<Longrightarrow> sx_destroy p h = Some (None, released F h)"
proof (induction t arbitrary: p F h)
  case Null
  then show ?case
    by (subst sx_destroy.simps) simp
next
  case (Symbol s)
  then obtain a b cs where c: "p = Some a" "a \<noteq> b" "F = {a, b}"
     "hp_cells h a = Some (Node_cell \<lparr>nd_type = Some SXT_SYMBOL, nd_data = Symbol_ptr (Some b)\<rparr>)" "hp_cells h b = Some (Char_cell cs)"
    by auto
  have "(hp_cells h)(b := None, a \<mapsto> n, a := None) = hp_cells h |` (- {a, b})" for n
    by (auto simp: fun_eq_iff restrict_map_def)
  with c show ?case
    by (subst sx_destroy.simps) (simp add: access_defs sx_free_def released_def)
next
  case (Integer n)
  then obtain a where c: "p = Some a" "F = {a}"
     "hp_cells h a = Some (Node_cell \<lparr>nd_type = Some SXT_INTEGER, nd_data = U64 n\<rparr>)"
    by auto
  have "(hp_cells h)(a := None) = hp_cells h |` (- {a})"
    by (auto simp: fun_eq_iff restrict_map_def)
  with c show ?case
    by (subst sx_destroy.simps) (simp add: access_defs sx_free_def released_def)
next
  case Empty_list
  then obtain a d where c: "p = Some a" "F = {a}"
     "hp_cells h a = Some (Node_cell \<lparr>nd_type = Some SXT_EMPTY_LIST, nd_data = d\<rparr>)"
    by auto
  have "(hp_cells h)(a := None) = hp_cells h |` (- {a})"
    by (auto simp: fun_eq_iff restrict_map_def)
  with c show ?case
    by (subst sx_destroy.simps) (simp add: access_defs sx_free_def released_def)
next
  case (Cons x y)
  from Cons.prems show ?case
  proof (rule holds_Cons_cases)
    fix a b px py X Y
    assume p: "p = Some a" and ab: "a \<noteq> b" and F: "F = {a, b} \<union> X \<union> Y"
      and a: "hp_cells h a = Some (Node_cell \<lparr>nd_type = Some SXT_PAIR, nd_data = Pair_ptr (Some b)\<rparr>)"
      and b: "hp_cells h b = Some (Pair_cell \<lparr>pr_car = px, pr_cdr = py\<rparr>)"
      and x: "holds (hp_cells h) px x X" and y: "holds (hp_cells h) py y Y"
      and d: "a \<notin> X" "b \<notin> X" "a \<notin> Y" "b \<notin> Y" "X \<inter> Y = {}"
    let ?h1 = "released X h"
    let ?h2 = "?h1\<lparr>hp_cells := (hp_cells ?h1)(b \<mapsto> Pair_cell \<lparr>pr_car = None, pr_cdr = py\<rparr>)\<rparr>"
    have y2: "holds (hp_cells ?h2) py y Y"
      by (rule holds_cong [OF y]) (use d in \<open>auto simp: released_def restrict_map_def\<close>)
    let ?h3 = "released Y ?h2"
    have s1: "sx_destroy px h = Some (None, ?h1)" and s2: "sx_destroy py ?h2 = Some (None, ?h3)"
      using Cons.IH(1) [OF x] Cons.IH(2) [OF y2] by simp_all
    have fin: "finite X" "finite Y"
      using x y by (auto dest: holds_finite)
    have "card (insert a (insert b (X \<union> Y))) = card X + card Y + 2"
      using fin d ab by (simp add: card_Un_disjoint)
    moreover have "(hp_cells ?h3)(b := v, b := None, a := w, a := None) = hp_cells h |` (- F)" for v w
      using d F ab by (auto simp: fun_eq_iff restrict_map_def released_def)
    ultimately have "(?h3\<lparr>hp_cells := (hp_cells ?h3)(b := None, a := w, a := None), hp_left := hp_left ?h3 + 1 + 1\<rparr>) = released F h" for w
      using F by (simp add: released_def)
    with p ab F a b s1 s2 d show ?case
      by (subst sx_destroy.simps) (simp add: access_defs sx_free_def released_def)
  qed
qed

section \<open>Lists\<close>

definition list_then :: "sx_tree list \<Rightarrow> sx_tree \<Rightarrow> sx_tree" where
  "list_then xs t = foldr Cons xs t"

abbreviation list_of :: "sx_tree list \<Rightarrow> sx_tree" where
  "list_of xs \<equiv> list_then xs Empty_list"

lemma list_then_simps [simp]: "list_then [] t = t" "list_then (x # xs) t = Cons x (list_then xs t)"
  by (simp_all add: list_then_def)

lemma list_then_append [simp]: "list_then (xs @ ys) t = list_then xs (list_then ys t)"
  by (simp add: list_then_def)

lemma cell_of_pair:
  assumes "hp_cells h a = Some (Node_cell \<lparr>nd_type = Some SXT_PAIR, nd_data = Pair_ptr (Some b)\<rparr>)"
    "hp_cells h b = Some (Pair_cell \<lparr>pr_car = px, pr_cdr = py\<rparr>)"
  shows "sx_is_pair (Some a) h = Some True" "sx_is_null (Some a) h = Some False" "data_pair (Some a) h = Some (Some b)"
    "sx_car_unsafe (Some a) h = Some px" "sx_cdr_unsafe (Some a) h = Some py" "pair_at (Some b) h = Some \<lparr>pr_car = px, pr_cdr = py\<rparr>"
  using assms by (simp_all add: access_defs)

lemma empty_list_queries:
  assumes "holds (hp_cells h) p Empty_list F"
  shows "sx_is_pair p h = Some False" "sx_is_null p h = Some True"
  using assms by (auto simp: access_defs)

lemma sx_is_list_ok: "holds (hp_cells h) p (list_of xs) F \<Longrightarrow> sx_is_list p h = Some True"
proof (induction xs arbitrary: p F)
  case Nil
  then show ?case
    using empty_list_queries [of h p F] by (subst sx_is_list.simps) simp
next
  case (Cons x xs)
  from Cons.prems show ?case
    by (simp only: list_then_simps, elim holds_Cons_cases) (subst sx_is_list.simps, simp add: cell_of_pair Cons.IH)
qed

lemma foreach_loop_ok:
  assumes "holds (hp_cells h) p (list_of xs) F" "\<And>q t X arg. holds (hp_cells h) q t X \<Longrightarrow> f q arg h = Some (g t arg, h)"
  shows "foreach_loop p f arg h = Some (fold g xs arg, h)"
  using assms(1)
proof (induction xs arbitrary: p F arg)
  case Nil
  then show ?case
    using empty_list_queries [of h p F] by (subst foreach_loop.simps) simp
next
  case (Cons x xs)
  from Cons.prems show ?case
    by (simp only: list_then_simps, elim holds_Cons_cases)
      (subst foreach_loop.simps, simp add: cell_of_pair Cons.IH assms(2))
qed

lemma sx_foreach_ok:
  assumes "holds (hp_cells h) p (list_of xs) F" "\<And>q t X arg. holds (hp_cells h) q t X \<Longrightarrow> f q arg h = Some (g t arg, h)"
  shows "sx_foreach p f arg h = Some (fold g xs arg, h)"
proof (cases xs)
  case Nil
  with assms(1) empty_list_queries [of h p F] show ?thesis
    by (simp add: sx_foreach_def)
next
  case (Cons x ys)
  with assms(1) have "sx_is_pair p h = Some True"
    by (simp only: list_then_simps, elim holds_Cons_cases) (simp add: cell_of_pair)
  moreover have "foreach_loop p f arg h = Some (fold g xs arg, h)"
    by (rule foreach_loop_ok [OF assms(1)]) (rule assms(2))
  ultimately show ?thesis
    by (simp add: sx_foreach_def)
qed

text \<open>The last pair of a list, and what the list becomes when something else is put in the place of its end.\<close>

lemma last_pair_ok:
  assumes "holds (hp_cells h) (Some a) (list_of (x # xs)) F" "data_pair (Some a) h = Some (Some b)"
  shows "\<exists>l e px. last_pair (Some b) h = Some (Some l) \<and> hp_cells h l = Some (Pair_cell \<lparr>pr_car = px, pr_cdr = Some e\<rparr>) \<and>
     l \<in> F \<and> e \<in> F \<and> l \<noteq> e \<and> holds (hp_cells h) (Some e) Empty_list {e} \<and>
     (\<forall>m q t B. (\<forall>c. c \<in> F - {l, e} \<longrightarrow> m c = hp_cells h c) \<longrightarrow> m l = Some (Pair_cell \<lparr>pr_car = px, pr_cdr = q\<rparr>) \<longrightarrow>
       holds m q t B \<longrightarrow> B \<inter> F = {} \<longrightarrow> holds m (Some a) (list_then (x # xs) t) (F - {e} \<union> B))"
  using assms
proof (induction xs arbitrary: a b x F)
  case Nil
  from Nil.prems(1) [unfolded list_then_simps] show ?case
  proof (rule holds_Cons_cases)
    fix a' b' px py X Y
    assume p: "Some a = Some a'" and ab: "a' \<noteq> b'" and F: "F = {a', b'} \<union> X \<union> Y"
      and a: "hp_cells h a' = Some (Node_cell \<lparr>nd_type = Some SXT_PAIR, nd_data = Pair_ptr (Some b')\<rparr>)"
      and b: "hp_cells h b' = Some (Pair_cell \<lparr>pr_car = px, pr_cdr = py\<rparr>)"
      and x: "holds (hp_cells h) px x X" and y: "holds (hp_cells h) py Empty_list Y"
      and d: "a' \<notin> X" "b' \<notin> X" "a' \<notin> Y" "b' \<notin> Y" "X \<inter> Y = {}"
    note q = cell_of_pair [OF a b]
    have [simp]: "a' = a" "b' = b"
      using p q(3) Nil.prems(2) by auto
    obtain e where e: "py = Some e" "Y = {e}"
      using y by auto
    have l: "last_pair (Some b) h = Some (Some b)"
      using q(6) empty_list_queries [OF y] by (subst last_pair.simps) simp
    have "holds m (Some a) (Cons x t) (F - {e} \<union> B)"
      if "\<forall>c. c \<in> F - {b, e} \<longrightarrow> m c = hp_cells h c" "m b = Some (Pair_cell \<lparr>pr_car = px, pr_cdr = q\<rparr>)" "holds m q t B" "B \<inter> F = {}" for m q t B
    proof (rule holds_ConsI [OF _ that(2) _ that(3)])
      show "m a = Some (Node_cell \<lparr>nd_type = Some SXT_PAIR, nd_data = Pair_ptr (Some b)\<rparr>)"
        using that(1) a F ab d e by auto
      show "holds m px x X"
        by (rule holds_cong [OF x]) (use that(1) F d e in auto)
    qed (use ab d e F that(4) in auto)
    then have "\<forall>m q t B. (\<forall>c. c \<in> F - {b, e} \<longrightarrow> m c = hp_cells h c) \<longrightarrow> m b = Some (Pair_cell \<lparr>pr_car = px, pr_cdr = q\<rparr>) \<longrightarrow>
       holds m q t B \<longrightarrow> B \<inter> F = {} \<longrightarrow> holds m (Some a) (list_then [x] t) (F - {e} \<union> B)"
      unfolding list_then_simps by blast
    moreover have "b \<in> F" "e \<in> F" "b \<noteq> e" "hp_cells h b = Some (Pair_cell \<lparr>pr_car = px, pr_cdr = Some e\<rparr>)"
      "holds (hp_cells h) (Some e) Empty_list {e}"
      using b y e F d by auto
    ultimately show ?thesis
      using l by blast
  qed
next
  case (Cons x' xs)
  from Cons.prems(1) [unfolded list_then_simps(2) [of x]] show ?case
  proof (rule holds_Cons_cases)
    fix a' b' px py X Y
    assume p: "Some a = Some a'" and ab: "a' \<noteq> b'" and F: "F = {a', b'} \<union> X \<union> Y"
      and a: "hp_cells h a' = Some (Node_cell \<lparr>nd_type = Some SXT_PAIR, nd_data = Pair_ptr (Some b')\<rparr>)"
      and b: "hp_cells h b' = Some (Pair_cell \<lparr>pr_car = px, pr_cdr = py\<rparr>)"
      and x: "holds (hp_cells h) px x X" and y: "holds (hp_cells h) py (list_of (x' # xs)) Y"
      and d: "a' \<notin> X" "b' \<notin> X" "a' \<notin> Y" "b' \<notin> Y" "X \<inter> Y = {}"
    note q = cell_of_pair [OF a b]
    have [simp]: "a' = a" "b' = b"
      using p q(3) Cons.prems(2) by auto
    obtain a2 b2 where y2: "py = Some a2" "data_pair (Some a2) h = Some (Some b2)" "sx_is_pair (Some a2) h = Some True"
      using y by (simp only: list_then_simps, elim holds_Cons_cases) (auto simp: cell_of_pair)
    obtain l e pl where l: "last_pair (Some b2) h = Some (Some l)" "hp_cells h l = Some (Pair_cell \<lparr>pr_car = pl, pr_cdr = Some e\<rparr>)"
      "l \<in> Y" "e \<in> Y" "l \<noteq> e" "holds (hp_cells h) (Some e) Empty_list {e}"
      "\<And>m q t B. (\<forall>c. c \<in> Y - {l, e} \<longrightarrow> m c = hp_cells h c) \<Longrightarrow> m l = Some (Pair_cell \<lparr>pr_car = pl, pr_cdr = q\<rparr>) \<Longrightarrow>
       holds m q t B \<Longrightarrow> B \<inter> Y = {} \<Longrightarrow> holds m (Some a2) (list_then (x' # xs) t) (Y - {e} \<union> B)"
      using Cons.IH [OF y [unfolded y2(1)] y2(2)] by blast
    have lp: "last_pair (Some b) h = Some (Some l)"
      using q(6) y2 l(1) by (subst last_pair.simps) simp
    have "holds m (Some a) (Cons x (list_then (x' # xs) t)) (F - {e} \<union> B)"
      if m: "\<forall>c. c \<in> F - {l, e} \<longrightarrow> m c = hp_cells h c" "m l = Some (Pair_cell \<lparr>pr_car = pl, pr_cdr = q\<rparr>)" "holds m q t B" "B \<inter> F = {}" for m q t B
    proof (rule holds_ConsI [of _ _ b px py])
      show "m a = Some (Node_cell \<lparr>nd_type = Some SXT_PAIR, nd_data = Pair_ptr (Some b)\<rparr>)" "m b = Some (Pair_cell \<lparr>pr_car = px, pr_cdr = py\<rparr>)"
        using m(1) a b F ab d l(3,4) by auto
      show "holds m px x X"
        by (rule holds_cong [OF x]) (use m(1) F d l(3,4) in auto)
      show "holds m py (list_then (x' # xs) t) (Y - {e} \<union> B)"
        unfolding y2(1) by (rule l(7) [OF _ m(2,3)]) (use m(1,4) F in auto)
    qed (use ab d l(3,4) F m(4) in auto)
    then have "\<forall>m q t B. (\<forall>c. c \<in> F - {l, e} \<longrightarrow> m c = hp_cells h c) \<longrightarrow> m l = Some (Pair_cell \<lparr>pr_car = pl, pr_cdr = q\<rparr>) \<longrightarrow>
       holds m q t B \<longrightarrow> B \<inter> F = {} \<longrightarrow> holds m (Some a) (list_then (x # x' # xs) t) (F - {e} \<union> B)"
      unfolding list_then_simps(2) by blast
    moreover have "l \<in> F" "e \<in> F"
      using l(3,4) F by auto
    ultimately show ?thesis
      using lp l(2,5,6) by blast
  qed
qed

lemma list_cases:
  assumes "holds (hp_cells h) p (list_of (x # xs)) F"
  obtains a b where "p = Some a" "data_pair p h = Some (Some b)" "sx_is_pair p h = Some True" "sx_is_null p h = Some False"
  using assms by (simp only: list_then_simps, elim holds_Cons_cases) (auto simp: cell_of_pair)

text \<open>Appending gives up the end marker of one of the lists, and nothing else.\<close>

lemma sx_append_ok:
  assumes A: "holds (hp_cells h) p (list_of xs) A" and B: "holds (hp_cells h) q (list_of ys) B" and AB: "A \<inter> B = {}"
  shows "\<exists>r h' e. sx_append p q h = Some (r, h') \<and> e \<in> A \<union> B \<and> holds (hp_cells h') r (list_of (xs @ ys)) (A \<union> B - {e}) \<and>
     hp_cells h' e = None \<and> hp_left h' = hp_left h + 1 \<and> hp_next h' = hp_next h \<and> (\<forall>c. c \<notin> A \<union> B \<longrightarrow> hp_cells h' c = hp_cells h c)"
proof -
  have nn: "p \<noteq> None" "q \<noteq> None"
    using A B by (cases xs; cases ys; auto)+
  consider "xs = []" | "xs \<noteq> []" "ys = []" | x xs' y ys' where "xs = x # xs'" "ys = y # ys'"
    by (cases xs; cases ys) auto
  then show ?thesis
  proof cases
    case 1
    then obtain e where e: "A = {e}" "sx_is_null p h = Some True"
      using A empty_list_queries [of h p A] by auto
    then have "sx_append p q h = Some (q, released A h)"
      using nn sx_destroy_ok [OF A] by (simp add: sx_append_def del: not_None_eq)
    moreover have "holds (hp_cells (released A h)) q (list_of ys) B"
      by (rule holds_cong [OF B]) (use AB in \<open>auto simp: released_def restrict_map_def\<close>)
    moreover have "A \<union> B - {e} = B"
      using e(1) AB by auto
    ultimately show ?thesis
      using 1 e(1) by (intro exI [of _ q] exI [of _ "released A h"] exI [of _ e]) (auto simp: released_def)
  next
    case 2
    then obtain e where e: "B = {e}" "sx_is_null q h = Some True"
      using B empty_list_queries [of h q B] by auto
    have n: "sx_is_null p h = Some False"
      using A 2(1) by (cases xs) (auto elim: list_cases simp del: list_then_simps)
    then have "sx_append p q h = Some (p, released B h)"
      using nn e sx_destroy_ok [OF B] by (simp add: sx_append_def del: not_None_eq)
    moreover have "holds (hp_cells (released B h)) p (list_of xs) A"
      by (rule holds_cong [OF A]) (use AB in \<open>auto simp: released_def restrict_map_def\<close>)
    moreover have "A \<union> B - {e} = A"
      using e(1) AB by auto
    ultimately show ?thesis
      using 2 e(1) by (intro exI [of _ p] exI [of _ "released B h"] exI [of _ e]) (auto simp: released_def)
  next
    case 3
    obtain a b where p: "p = Some a" "data_pair p h = Some (Some b)" "sx_is_pair p h = Some True" "sx_is_null p h = Some False"
      using A unfolding 3(1) by (rule list_cases)
    obtain a2 b2 where q: "q = Some a2" "sx_is_pair q h = Some True" "sx_is_null q h = Some False"
      using B unfolding 3(2) by (rule list_cases)
    obtain l e px where l: "last_pair (Some b) h = Some (Some l)" "hp_cells h l = Some (Pair_cell \<lparr>pr_car = px, pr_cdr = Some e\<rparr>)"
      "l \<in> A" "e \<in> A" "l \<noteq> e" "holds (hp_cells h) (Some e) Empty_list {e}"
      "\<And>m q t B. (\<forall>c. c \<in> A - {l, e} \<longrightarrow> m c = hp_cells h c) \<Longrightarrow> m l = Some (Pair_cell \<lparr>pr_car = px, pr_cdr = q\<rparr>) \<Longrightarrow>
       holds m q t B \<Longrightarrow> B \<inter> A = {} \<Longrightarrow> holds m (Some a) (list_then (x # xs') t) (A - {e} \<union> B)"
      using last_pair_ok [OF A [unfolded 3(1) p(1)] p(2) [unfolded p(1)]] by blast
    let ?h = "released {e} h"
    let ?m = "(hp_cells ?h)(l \<mapsto> Pair_cell \<lparr>pr_car = px, pr_cdr = q\<rparr>)"
    have cells: "hp_cells ?h l = Some (Pair_cell \<lparr>pr_car = px, pr_cdr = Some e\<rparr>)"
      using l(2,5) by (simp add: released_def)
    have "sx_append p q h = Some (p, ?h\<lparr>hp_cells := ?m\<rparr>)"
      using p q l(1,2,5) cells sx_destroy_ok [OF l(6)] by (simp add: sx_append_def set_cdr_def sx_update_def pair_at_def sx_cell_at_def)
    moreover have "holds ?m p (list_of (xs @ ys)) (A - {e} \<union> B)"
      unfolding 3(1) list_then_append p(1)
    proof (rule l(7))
      show "holds ?m q (list_of ys) B"
        by (rule holds_cong [OF B]) (use AB l(3,4) in \<open>auto simp: released_def restrict_map_def\<close>)
    qed (use AB in \<open>auto simp: released_def restrict_map_def\<close>)
    moreover have "A - {e} \<union> B = A \<union> B - {e}"
      using AB l(4) by auto
    ultimately show ?thesis
      using l(3-5) by (intro exI [of _ p] exI [of _ "?h\<lparr>hp_cells := ?m\<rparr>"] exI [of _ e]) (auto simp: released_def restrict_map_def)
  qed
qed

lemma sx_pop_ok:
  assumes F: "holds (hp_cells h) p (list_of (x # xs)) F"
  shows "\<exists>car cdr X Y. sx_pop p h = Some (car, cdr, released (F - X - Y) h) \<and> X \<inter> Y = {} \<and> X \<union> Y \<subseteq> F \<and> card F = card X + card Y + 2 \<and>
     holds (hp_cells (released (F - X - Y) h)) car x X \<and> holds (hp_cells (released (F - X - Y) h)) cdr (list_of xs) Y"
proof -
  from F [unfolded list_then_simps] show ?thesis
  proof (rule holds_Cons_cases)
    fix a b px py X Y
    assume p: "p = Some a" and ab: "a \<noteq> b" and F: "F = {a, b} \<union> X \<union> Y"
      and a: "hp_cells h a = Some (Node_cell \<lparr>nd_type = Some SXT_PAIR, nd_data = Pair_ptr (Some b)\<rparr>)"
      and b: "hp_cells h b = Some (Pair_cell \<lparr>pr_car = px, pr_cdr = py\<rparr>)"
      and x: "holds (hp_cells h) px x X" and y: "holds (hp_cells h) py (list_of xs) Y"
      and d: "a \<notin> X" "b \<notin> X" "a \<notin> Y" "b \<notin> Y" "X \<inter> Y = {}"
    have e: "F - X - Y = {a, b}"
      using F d by auto
    have "(hp_cells h)(b := None, a := None) = hp_cells h |` (- {a, b})"
      by (auto simp: fun_eq_iff restrict_map_def)
    with p a b ab cell_of_pair [OF a b] have "sx_pop p h = Some (px, py, released {a, b} h)"
      by (simp add: sx_pop_def sx_free_def released_def)
    moreover have "holds (hp_cells (released {a, b} h)) px x X" "holds (hp_cells (released {a, b} h)) py (list_of xs) Y"
      by (rule holds_cong [OF x] holds_cong [OF y]; use d in \<open>auto simp: released_def restrict_map_def\<close>)+
    moreover have "card F = card X + card Y + 2"
      using F d ab holds_finite [OF x] holds_finite [OF y] by (simp add: card_Un_disjoint)
    ultimately show ?thesis
      unfolding e [symmetric] using d(5) F by blast
  qed
qed

text \<open>The part of an expression that a path of the letters \<open>a\<close> and \<open>d\<close> leads to, the first step first.\<close>

fun walk :: "u8 list \<Rightarrow> sx_tree \<Rightarrow> sx_tree" where
  "walk [] t = t"
| "walk (c # cs) (Cons x y) = (if c = of_char CHR ''a'' then walk cs x else if c = of_char CHR ''d'' then walk cs y else Null)"
| "walk (c # cs) t = Null"

fun whole :: "sx_tree \<Rightarrow> bool" where
  "whole Null \<longleftrightarrow> False"
| "whole (Cons x y) \<longleftrightarrow> whole x \<and> whole y"
| "whole t \<longleftrightarrow> True"

lemma sx_cxr_loop_ok:
  assumes "holds (hp_cells h) p t F" "whole t" "i < length addr"
  shows "\<exists>q X. sx_cxr_loop p addr i h = Some q \<and> holds (hp_cells h) q (walk (rev (take (Suc i) addr)) t) X \<and> X \<subseteq> F"
  using assms
proof (induction i arbitrary: p t F)
  case 0
  then have r: "rev (take (Suc 0) addr) = [addr ! 0]" "octet_at addr 0 = Some (addr ! 0)"
    by (cases addr; simp add: octet_at_def)+
  show ?case
  proof (cases t)
    case (Cons x y)
    from 0(1) [unfolded Cons] show ?thesis
      by (rule holds_Cons_cases) (use r Cons cell_of_pair in \<open>subst sx_cxr_loop.simps, auto\<close>)
  qed (use 0 r in \<open>subst sx_cxr_loop.simps, auto simp: access_defs\<close>)+
next
  case (Suc i)
  have r: "rev (take (Suc (Suc i)) addr) = addr ! Suc i # rev (take (Suc i) addr)" "octet_at addr (Suc i) = Some (addr ! Suc i)" "i < length addr"
    using Suc.prems(3) by (simp_all add: take_Suc_conv_app_nth [of "Suc i"] octet_at_def)
  show ?case
  proof (cases t)
    case (Cons x y)
    from Suc.prems(1) [unfolded Cons] show ?thesis
    proof (rule holds_Cons_cases)
      fix a b px py X Y
      assume p: "p = Some a" and F: "F = {a, b} \<union> X \<union> Y"
        and a: "hp_cells h a = Some (Node_cell \<lparr>nd_type = Some SXT_PAIR, nd_data = Pair_ptr (Some b)\<rparr>)"
        and b: "hp_cells h b = Some (Pair_cell \<lparr>pr_car = px, pr_cdr = py\<rparr>)"
        and x: "holds (hp_cells h) px x X" and y: "holds (hp_cells h) py y Y"
      obtain q Z where "sx_cxr_loop px addr i h = Some q" "holds (hp_cells h) q (walk (rev (take (Suc i) addr)) x) Z" "Z \<subseteq> X"
        using Suc.IH [OF x _ r(3)] Suc.prems(2) Cons by auto
      moreover obtain q' Z' where "sx_cxr_loop py addr i h = Some q'" "holds (hp_cells h) q' (walk (rev (take (Suc i) addr)) y) Z'" "Z' \<subseteq> Y"
        using Suc.IH [OF y _ r(3)] Suc.prems(2) Cons by auto
      ultimately show ?thesis
        using p F r(2) cell_of_pair [OF a b] unfolding Cons r(1) by (subst sx_cxr_loop.simps) auto
    qed
  qed (use Suc.prems r in \<open>subst sx_cxr_loop.simps, auto simp: access_defs\<close>)+
qed

lemma sx_cxr_ok:
  assumes "holds (hp_cells h) p t F" "whole t" "ends_string path addr"
  shows "\<exists>q X. sx_cxr p addr h = Some q \<and> holds (hp_cells h) q (walk (rev path) t) X \<and> X \<subseteq> F"
proof (cases "path = []")
  case True
  with assms show ?thesis
    by (auto simp: sx_cxr_def strlen_ok)
next
  case False
  have "take (Suc (length path - 1)) addr = path" "length path - 1 < length addr"
    using assms(3) False by (auto simp: ends_string_def)
  with sx_cxr_loop_ok [OF assms(1,2), of "length path - 1" addr] False strlen_ok [OF assms(3)] show ?thesis
    by (simp add: sx_cxr_def)
qed

section \<open>Property\<close>

text \<open>C30. Lists in the heap are lists. A list can be told to be one; appending two lists that share no cell gives the
  list of the elements of both, and releases one end marker; the first element can be taken off, which releases its
  pair; the function of sx_foreach is called for each element in order; a path of the letters a and d leads to the part
  it names, or to a null pointer when it leaves the expression; and sx_destroy releases the cells of the list, every one
  of them once, and no other.\<close>

theorem sx_list_operations:
  assumes "holds (hp_cells h) p (list_of xs) A" and "holds (hp_cells h) q (list_of ys) B" and "A \<inter> B = {}"
  shows "sx_is_list p h = Some True \<and>
     (\<exists>r h' e. sx_append p q h = Some (r, h') \<and> e \<in> A \<union> B \<and> holds (hp_cells h') r (list_of (xs @ ys)) (A \<union> B - {e}) \<and>
        hp_cells h' e = None \<and> (\<forall>c. c \<notin> A \<union> B \<longrightarrow> hp_cells h' c = hp_cells h c)) \<and>
     (\<forall>z zs. xs = z # zs \<longrightarrow> (\<exists>car cdr X Y. sx_pop p h = Some (car, cdr, released (A - X - Y) h) \<and> X \<inter> Y = {} \<and> X \<union> Y \<subseteq> A \<and>
        card A = card X + card Y + 2 \<and> holds (hp_cells (released (A - X - Y) h)) car z X \<and>
        holds (hp_cells (released (A - X - Y) h)) cdr (list_of zs) Y)) \<and>
     ((\<forall>c t X arg. holds (hp_cells h) c t X \<longrightarrow> f c arg h = Some (g t arg, h)) \<longrightarrow> sx_foreach p f arg h = Some (fold g xs arg, h)) \<and>
     (\<forall>path addr. whole (list_of xs) \<and> ends_string path addr \<longrightarrow>
        (\<exists>c X. sx_cxr p addr h = Some c \<and> holds (hp_cells h) c (walk (rev path) (list_of xs)) X \<and> X \<subseteq> A)) \<and>
     sx_destroy p h = Some (None, released A h)"
proof (intro conjI allI impI)
  show "sx_is_list p h = Some True"
    by (rule sx_is_list_ok [OF assms(1)])
  show "\<exists>r h' e. sx_append p q h = Some (r, h') \<and> e \<in> A \<union> B \<and> holds (hp_cells h') r (list_of (xs @ ys)) (A \<union> B - {e}) \<and>
      hp_cells h' e = None \<and> (\<forall>c. c \<notin> A \<union> B \<longrightarrow> hp_cells h' c = hp_cells h c)"
    using sx_append_ok [OF assms] by blast
  show "sx_destroy p h = Some (None, released A h)"
    by (rule sx_destroy_ok [OF assms(1)])
next
  fix z zs
  assume "xs = z # zs"
  with assms(1) show "\<exists>car cdr X Y. sx_pop p h = Some (car, cdr, released (A - X - Y) h) \<and> X \<inter> Y = {} \<and> X \<union> Y \<subseteq> A \<and>
      card A = card X + card Y + 2 \<and> holds (hp_cells (released (A - X - Y) h)) car z X \<and>
      holds (hp_cells (released (A - X - Y) h)) cdr (list_of zs) Y"
    using sx_pop_ok [of h p z zs A] by blast
next
  assume "\<forall>c t X arg. holds (hp_cells h) c t X \<longrightarrow> f c arg h = Some (g t arg, h)"
  then show "sx_foreach p f arg h = Some (fold g xs arg, h)"
    by (intro sx_foreach_ok [OF assms(1)]) blast
next
  fix path addr
  assume "whole (list_of xs) \<and> ends_string path addr"
  then show "\<exists>c X. sx_cxr p addr h = Some c \<and> holds (hp_cells h) c (walk (rev path) (list_of xs)) X \<and> X \<subseteq> A"
    using sx_cxr_ok [OF assms(1)] by blast
qed

definition example_heap :: sx_heap where
  "example_heap = \<lparr>hp_cells = [1 \<mapsto> Node_cell \<lparr>nd_type = Some SXT_EMPTY_LIST, nd_data = Undefined\<rparr>,
     2 \<mapsto> Node_cell \<lparr>nd_type = Some SXT_PAIR, nd_data = Pair_ptr (Some 3)\<rparr>, 3 \<mapsto> Pair_cell \<lparr>pr_car = Some 4, pr_cdr = Some 1\<rparr>,
     4 \<mapsto> Node_cell \<lparr>nd_type = Some SXT_INTEGER, nd_data = U64 7\<rparr>,
     5 \<mapsto> Node_cell \<lparr>nd_type = Some SXT_EMPTY_LIST, nd_data = Undefined\<rparr>], hp_next = 6, hp_left = 10\<rparr>"

theorem sx_list_operations_witness:
  "sx_is_list (Some 2) example_heap = Some True \<and> sx_destroy (Some 2) example_heap = Some (None, released {1, 2, 3, 4} example_heap) \<and>
   (\<exists>r h'. sx_append (Some 2) (Some 5) example_heap = Some (r, h')) \<and>
   (\<exists>c X. sx_cxr (Some 2) [97, 0] example_heap = Some c \<and> holds (hp_cells example_heap) c (Integer 7) X)"
proof -
  have a: "holds (hp_cells example_heap) (Some 2) (list_of [Integer 7]) {1, 2, 3, 4}"
    unfolding list_then_simps
    by (rule holds_ConsI [of _ _ 3 "Some 4" "Some 1" _ "{4}" _ "{1}"]) (auto simp: example_heap_def)
  have b: "holds (hp_cells example_heap) (Some 5) (list_of []) {5}"
    by (simp add: example_heap_def)
  have c: "whole (list_of [Integer 7]) \<and> ends_string [97] [97, 0]" "walk (rev [97]) (list_of [Integer 7]) = Integer 7"
    by (simp_all add: ends_string_def of_char_def)
  have d: "{1, 2, 3, 4} \<inter> {5 :: nat} = {}"
    by simp
  note t = sx_list_operations [OF a b d, of "\<lambda>c arg h. Some (arg, h)" "\<lambda>t arg. arg" "()"]
  have "\<exists>r h'. sx_append (Some 2) (Some 5) example_heap = Some (r, h')"
    using t by blast
  moreover have "\<exists>c X. sx_cxr (Some 2) [97, 0] example_heap = Some c \<and>
      holds (hp_cells example_heap) c (walk (rev [97]) (list_of [Integer 7])) X"
    using t c(1) by blast
  ultimately show ?thesis
    using t unfolding c(2) by blast
qed

end
