(* ===== verification/S_Expression_Parser.thy ===== *)
theory S_Expression_Parser
  imports S_Expressions
begin

text \<open>
  The parser of \<^verbatim>\<open>src/sx.c\<close>. \<open>s\<close> is the memory from the first octet of the text on, \<open>n\<close> the size of the text and
  \<open>i\<close> the position parsing begins at. The predicates of the C library are those of the C locale, in which octets from
  128 on are in no class.
\<close>

section \<open>Characters\<close>

datatype sx_what = LOOKING_AT_UNKNOWN | LOOKING_AT_SYMBOL | LOOKING_AT_INT_DEC | LOOKING_AT_INT_HEX
  | LOOKING_AT_PAREN_OPEN | LOOKING_AT_PAREN_CLOSE

definition isdigit :: "u8 \<Rightarrow> bool" where "isdigit c \<longleftrightarrow> 48 \<le> c \<and> c \<le> 57"
definition isxdigit :: "u8 \<Rightarrow> bool" where "isxdigit c \<longleftrightarrow> isdigit c \<or> 65 \<le> c \<and> c \<le> 70 \<or> 97 \<le> c \<and> c \<le> 102"
definition isspace :: "u8 \<Rightarrow> bool" where "isspace c \<longleftrightarrow> c = 32 \<or> 9 \<le> c \<and> c \<le> 13"

definition digits :: "u8 list" where "digits = octets ''0123456789abcdef''"

definition minu64 :: "nat \<Rightarrow> nat \<Rightarrow> nat" where
  "minu64 a b = (if a < b then a else b)"

fun digit_from :: "u8 list \<Rightarrow> u64 \<Rightarrow> u8 \<Rightarrow> u64" where
  "digit_from [] rv c = 0"
| "digit_from (d # ds) rv c = (if d = c then rv else digit_from ds (rv + 1) c)"

definition digit2int :: "u8 \<Rightarrow> u64" where
  "digit2int c = digit_from digits 0 c"

definition syminitchtab :: "u8 list" where
  "syminitchtab = octets (''abcdefghijklmnopqrstuvwxyz'' @ ''ABCDEFGHIJKLMNOPQRSTUVWXYZ'' @ ''+%|/_:;.!?$&=*<>~'')"

text \<open>\<open>strchr\<close> finds the zero at the end of the table as well.\<close>

definition issyminitch :: "u8 \<Rightarrow> bool" where
  "issyminitch c \<longleftrightarrow> c \<in> set (syminitchtab @ [0])"

definition issymch :: "u8 \<Rightarrow> bool" where
  "issymch c \<longleftrightarrow> issyminitch c \<or> isdigit c \<or> c = of_char CHR ''-''"

definition nextisdelimiter :: "u8 \<Rightarrow> bool" where
  "nextisdelimiter c \<longleftrightarrow> c = of_char CHR ''('' \<or> c = of_char CHR '')'' \<or> isspace c"

section \<open>Tokens\<close>

text \<open>The loops that skip the octets of a class, as far as the text goes.\<close>

function skip_class :: "(u8 \<Rightarrow> bool) \<Rightarrow> u8 list \<Rightarrow> nat \<Rightarrow> nat \<Rightarrow> nat option" where
  "skip_class P s n j = (if j < n then do { c \<leftarrow> octet_at s j; if \<not> P c then Some j else skip_class P s n (j + 1) } else Some j)"
  by pat_completeness auto
termination by (relation "measure (\<lambda>(P, s, n, j). n - j)") auto

declare skip_class.simps [simp del]

definition skip_ws :: "u8 list \<Rightarrow> nat \<Rightarrow> nat \<Rightarrow> nat option" where
  "skip_ws s n i = skip_class isspace s n i"

definition parse_symbol :: "u8 list \<Rightarrow> nat \<Rightarrow> nat \<Rightarrow> sx_heap \<Rightarrow> (sx_ptr \<times> nat) sx_run" where
  "parse_symbol s n i h = do {
     j \<leftarrow> skip_class issymch s n i;
     stop \<leftarrow> (if j < n then do { c \<leftarrow> octet_at s j; Some (\<not> nextisdelimiter c) } else Some False);
     if stop then sx_return (None, j) h
     else sx_then (sx_make_symboln (drop i s) (sz_sub j i) h) (\<lambda>rv h.
       sx_return (rv, minu64 j n) h)
   }"

function integer_value :: "u8 list \<Rightarrow> nat \<Rightarrow> u64 \<Rightarrow> nat \<Rightarrow> u64 \<Rightarrow> u64 \<Rightarrow> u64 option" where
  "integer_value s i base j newi mult =
     (if j \<ge> i then do {
        c \<leftarrow> octet_at s j;
        let newi = newi + mult * digit2int c;
        let mult = mult * base;
        if j = 0 then Some newi else integer_value s i base (j - 1) newi mult
      } else Some newi)"
  by pat_completeness auto
termination by (relation "measure (\<lambda>(s, i, base, j, newi, mult). j)") auto

declare integer_value.simps [simp del]

definition parse_integer_base :: "u8 list \<Rightarrow> nat \<Rightarrow> nat \<Rightarrow> nat \<Rightarrow> (u8 \<Rightarrow> bool) \<Rightarrow> u64 \<Rightarrow> sx_heap \<Rightarrow> (sx_ptr \<times> nat) sx_run" where
  "parse_integer_base s n i offset digitpredicate base h = do {
     j \<leftarrow> skip_class digitpredicate s n (sz_add i offset);
     stop \<leftarrow> (if j < n then do { c \<leftarrow> octet_at s j; Some (\<not> nextisdelimiter c) } else Some False);
     if stop then sx_return (None, j) h
     else do {
       let save = j;
       newi \<leftarrow> integer_value s i base (sz_sub j 1) 0 1;
       sx_then (sx_make_integer newi h) (\<lambda>rv h. sx_return (rv, minu64 save n) h)
     }
   }"

definition parse_integer :: "u8 list \<Rightarrow> nat \<Rightarrow> nat \<Rightarrow> sx_heap \<Rightarrow> (sx_ptr \<times> nat) sx_run" where
  "parse_integer s n i h = parse_integer_base s n i 0 isdigit 10 h"

definition parse_hinteger :: "u8 list \<Rightarrow> nat \<Rightarrow> nat \<Rightarrow> sx_heap \<Rightarrow> (sx_ptr \<times> nat) sx_run" where
  "parse_hinteger s n i h = parse_integer_base s n i 2 isxdigit 16 h"

definition looking_at :: "u8 list \<Rightarrow> nat \<Rightarrow> nat \<Rightarrow> sx_what option" where
  "looking_at s n i = do {
     hex \<leftarrow> (if n > sz_add i 1 then do {
         c \<leftarrow> octet_at s i;
         if c = of_char CHR ''#'' then do {
           c \<leftarrow> octet_at s (sz_add i 1);
           if c = of_char CHR ''x'' then do { c \<leftarrow> octet_at s (sz_add i 2); Some (isxdigit c) } else Some False
         } else Some False
       } else Some False);
     if hex then Some LOOKING_AT_INT_HEX
     else do {
       c \<leftarrow> octet_at s i;
       Some (if c = of_char CHR ''('' then LOOKING_AT_PAREN_OPEN
         else if c = of_char CHR '')'' then LOOKING_AT_PAREN_CLOSE
         else if isdigit c then LOOKING_AT_INT_DEC
         else if issyminitch c then LOOKING_AT_SYMBOL
         else LOOKING_AT_UNKNOWN)
     }
   }"

section \<open>Expressions\<close>

datatype sx_status = SXS_SUCCESS | SXS_FOUND_LIST | SXS_BROKEN_INTEGER | SXS_BROKEN_SYMBOL | SXS_UNKNOWN_INPUT | SXS_UNEXPECTED_END

record sx_parse_result =
  rs_position :: nat
  rs_status :: sx_status
  rs_node :: sx_ptr

definition SX_PARSE_RESULT_INIT :: sx_parse_result where
  "SX_PARSE_RESULT_INIT = \<lparr>rs_position = 0, rs_status = SXS_SUCCESS, rs_node = None\<rparr>"

text \<open>What \<open>sx_parse_token\<close> makes of the node a token function returned, with the status for none.\<close>

definition token_result :: "sx_status \<Rightarrow> (sx_ptr \<times> nat) sx_run \<Rightarrow> sx_parse_result sx_run" where
  "token_result broken r = sx_then r (\<lambda>(node, j) h.
     sx_return (SX_PARSE_RESULT_INIT\<lparr>rs_node := node, rs_status := (if node = None then broken else SXS_SUCCESS), rs_position := j\<rparr>) h)"

definition sx_parse_token :: "u8 list \<Rightarrow> nat \<Rightarrow> nat \<Rightarrow> sx_heap \<Rightarrow> sx_parse_result sx_run" where
  "sx_parse_token s n i h = do {
     let rv = SX_PARSE_RESULT_INIT;
     j \<leftarrow> skip_ws s n i;
     if j = n then sx_return (rv\<lparr>rs_position := j\<rparr>) h
     else do {
       what \<leftarrow> looking_at s n j;
       (case what of
          LOOKING_AT_INT_DEC \<Rightarrow> token_result SXS_BROKEN_INTEGER (parse_integer s n j h)
        | LOOKING_AT_INT_HEX \<Rightarrow> token_result SXS_BROKEN_INTEGER (parse_hinteger s n j h)
        | LOOKING_AT_SYMBOL \<Rightarrow> token_result SXS_BROKEN_SYMBOL (parse_symbol s n j h)
        | LOOKING_AT_PAREN_OPEN \<Rightarrow> sx_return (rv\<lparr>rs_status := SXS_FOUND_LIST, rs_position := sz_add j 1\<rparr>) h
        | LOOKING_AT_PAREN_CLOSE \<Rightarrow> sx_then (sx_make_empty_list h) (\<lambda>node h.
            sx_return (rv\<lparr>rs_node := node, rs_position := sz_add j 1\<rparr>) h)
        | LOOKING_AT_UNKNOWN \<Rightarrow> sx_return (rv\<lparr>rs_status := SXS_UNKNOWN_INPUT, rs_position := j\<rparr>) h)
     }
   }"

definition result_is_empty_listp :: "sx_parse_result \<Rightarrow> sx_heap \<Rightarrow> bool option" where
  "result_is_empty_listp res h =
     (if rs_status res = SXS_SUCCESS \<and> rs_node res \<noteq> None then do { t \<leftarrow> node_type (rs_node res) h; Some (t = SXT_EMPTY_LIST) }
      else Some False)"

definition result_is_error :: "sx_parse_result \<Rightarrow> bool" where
  "result_is_error res \<longleftrightarrow> rs_status res \<noteq> SXS_SUCCESS \<and> rs_status res \<noteq> SXS_FOUND_LIST"

text \<open>The functions \<^verbatim>\<open>sx_parse_\<close> and \<^verbatim>\<open>sx_parse_list\<close> call each other; the first one is given the second one here.\<close>

definition parse_with ::
    "(u8 list \<Rightarrow> nat \<Rightarrow> nat \<Rightarrow> sx_heap \<Rightarrow> sx_parse_result sx_run) \<Rightarrow> u8 list \<Rightarrow> nat \<Rightarrow> nat \<Rightarrow> sx_heap \<Rightarrow> sx_parse_result sx_run" where
  "parse_with parse_list s n i h = sx_then (sx_parse_token s n i h) (\<lambda>rv h.
     if rs_status rv = SXS_FOUND_LIST then parse_list s n (rs_position rv) h
     else if i \<ge> n \<and> rs_node rv = None then sx_return (rv\<lparr>rs_status := SXS_UNEXPECTED_END\<rparr>) h
     else sx_return rv h)"

lemma parse_with_mono [partial_function_mono]:
  "mono_option (\<lambda>f. parse_with (\<lambda>s n i h. f (((s, n), i), h)) s n i h)"
  unfolding parse_with_def by (intro partial_function_mono)

partial_function (option) sx_parse_list :: "u8 list \<Rightarrow> nat \<Rightarrow> nat \<Rightarrow> sx_heap \<Rightarrow> sx_parse_result sx_run" where
  "sx_parse_list s n i h =
     (if i \<ge> n then sx_return (SX_PARSE_RESULT_INIT\<lparr>rs_status := SXS_UNEXPECTED_END\<rparr>) h
      else sx_then (parse_with sx_parse_list s n i h) (\<lambda>carres h. do {
        empty \<leftarrow> result_is_empty_listp carres h;
        if empty \<or> result_is_error carres then sx_return carres h
        else sx_then (sx_parse_list s n (rs_position carres) h) (\<lambda>cdrres h.
          sx_then (sx_cons (rs_node carres) (rs_node cdrres) h) (\<lambda>cons h.
            sx_return (carres\<lparr>rs_node := cons, rs_position := rs_position cdrres, rs_status := rs_status cdrres\<rparr>) h))
      }))"

declare sx_parse_list.simps [code]

definition sx_parse_rec :: "u8 list \<Rightarrow> nat \<Rightarrow> nat \<Rightarrow> sx_heap \<Rightarrow> sx_parse_result sx_run" where
  "sx_parse_rec s n i h = parse_with sx_parse_list s n i h"

definition sx_parse :: "u8 list \<Rightarrow> nat \<Rightarrow> nat \<Rightarrow> sx_heap \<Rightarrow> sx_parse_result sx_run" where
  "sx_parse s n i h = sx_then (sx_parse_rec s n i h) (\<lambda>rv h.
     if result_is_error rv then do { (node, h) \<leftarrow> sx_destroy (rs_node rv) h; sx_return (rv\<lparr>rs_node := node\<rparr>) h }
     else sx_return rv h)"

definition sx_parse_stringn :: "u8 list \<Rightarrow> nat \<Rightarrow> sx_heap \<Rightarrow> sx_parse_result sx_run" where
  "sx_parse_stringn s n h = sx_parse s n 0 h"

definition sx_parse_string :: "u8 list \<Rightarrow> sx_heap \<Rightarrow> sx_parse_result sx_run" where
  "sx_parse_string s h = do { n \<leftarrow> strlen s; sx_parse_stringn s n h }"

section \<open>Runs and growing heaps\<close>

text \<open>\<open>runs L N Q r\<close>: the run \<open>r\<close> is defined; it ends with \<open>Q\<close>, or the process was left because of room for \<open>L\<close> cells
  only, when \<open>N\<close> would have been enough.\<close>

definition runs :: "nat \<Rightarrow> nat \<Rightarrow> ('a \<Rightarrow> sx_heap \<Rightarrow> bool) \<Rightarrow> 'a sx_run \<Rightarrow> bool" where
  "runs L N Q r \<longleftrightarrow> (case r of None \<Rightarrow> False | Some (Inl status) \<Rightarrow> status = 1 \<and> L < N | Some (Inr (x, h)) \<Rightarrow> Q x h)"

lemma runs_return [simp]: "runs L N Q (sx_return x h) \<longleftrightarrow> Q x h"
  by (simp add: runs_def sx_return_def)

lemma runs_sxoom [simp]: "runs L N Q sxoom \<longleftrightarrow> L < N"
  by (simp add: runs_def sxoom_def)

lemma runs_then:
  assumes "runs L N Q r" "\<And>x h. Q x h \<Longrightarrow> runs L N R (k x h)"
  shows "runs L N R (sx_then r k)"
proof -
  consider "r = Some (Inl 1)" "L < N" | x h where "r = Some (Inr (x, h))" "Q x h"
    using assms(1) by (auto simp: runs_def split: option.splits sum.splits)
  then show ?thesis
    using assms(2) by cases (simp_all add: runs_def sx_then_def)
qed

lemma runs_mono:
  assumes "runs L N Q r" "L < N \<Longrightarrow> L' < N'" "\<And>x h. Q x h \<Longrightarrow> Q' x h"
  shows "runs L' N' Q' r"
  using assms by (auto simp: runs_def split: option.splits sum.splits)

lemma runs_weaken: "runs L N Q r \<Longrightarrow> N \<le> N' \<Longrightarrow> runs L N' Q r"
  by (erule runs_mono) simp_all

lemma runs_result:
  assumes "runs L N Q r" "N \<le> L"
  shows "\<exists>x h. r = Some (Inr (x, h)) \<and> Q x h"
  using assms by (auto simp: runs_def split: option.splits sum.splits)

definition sx_ok :: "sx_heap \<Rightarrow> bool" where
  "sx_ok h \<longleftrightarrow> (\<forall>a. hp_next h \<le> a \<longrightarrow> hp_cells h a = None)"

definition grown :: "sx_heap \<Rightarrow> sx_heap \<Rightarrow> bool" where
  "grown h h' \<longleftrightarrow> sx_ok h \<and> sx_ok h' \<and> hp_next h \<le> hp_next h' \<and> (\<forall>a < hp_next h. hp_cells h' a = hp_cells h a) \<and>
     hp_left h' + (hp_next h' - hp_next h) = hp_left h"

lemma grown_refl: "sx_ok h \<Longrightarrow> grown h h"
  by (simp add: grown_def)

lemma grown_trans: "grown h h' \<Longrightarrow> grown h' h'' \<Longrightarrow> grown h h''"
  by (auto simp: grown_def)

definition new_tree :: "sx_heap \<Rightarrow> sx_heap \<Rightarrow> sx_ptr \<Rightarrow> sx_tree \<Rightarrow> bool" where
  "new_tree h h' p t \<longleftrightarrow> grown h h' \<and> holds (hp_cells h') p t {hp_next h..<hp_next h'}"

lemma new_tree_none: "sx_ok h \<Longrightarrow> new_tree h h None Null"
  by (simp add: new_tree_def grown_refl)

lemma sx_alloc_ok:
  assumes "sx_ok h" "hp_left h \<noteq> 0"
  shows "\<exists>h'. sx_alloc c h = (Some (hp_next h), h') \<and> grown h h' \<and> hp_next h' = hp_next h + 1 \<and> hp_cells h' = (hp_cells h)(hp_next h \<mapsto> c)"
  using assms by (auto simp: sx_alloc_def grown_def sx_ok_def)

lemma grown_update:
  assumes "grown h h'" "hp_next h \<le> a" "a < hp_next h'"
  shows "grown h (h'\<lparr>hp_cells := (hp_cells h')(a \<mapsto> c)\<rparr>)"
  using assms by (auto simp: grown_def sx_ok_def)

lemma make_node_ok:
  assumes "sx_ok h"
  shows "runs (hp_left h) 1 (\<lambda>p h'. p = Some (hp_next h) \<and> grown h h' \<and> hp_next h' = hp_next h + 1 \<and>
     hp_cells h' = (hp_cells h)(hp_next h \<mapsto> Node_cell \<lparr>nd_type = None, nd_data = Undefined\<rparr>)) (make_node h)"
proof (cases "hp_left h = 0")
  case True
  then show ?thesis
    by (simp add: make_node_def sx_alloc_def)
next
  case False
  with sx_alloc_ok [OF assms False, of "Node_cell \<lparr>nd_type = None, nd_data = Undefined\<rparr>"] show ?thesis
    by (auto simp: make_node_def)
qed

lemma interval_1: "{n ..< n + 1} = {n :: nat}"
  by auto

lemma interval_2: "{n ..< n + 2} = {n, n + 1 :: nat}"
  by auto

lemma sx_make_integer_ok:
  assumes "sx_ok h"
  shows "runs (hp_left h) 1 (\<lambda>p h'. new_tree h h' p (Integer n) \<and> hp_next h' = hp_next h + 1) (sx_make_integer n h)"
  unfolding sx_make_integer_def
proof (rule runs_then [OF make_node_ok [OF assms]], elim conjE)
  fix p h'
  assume h': "p = Some (hp_next h)" "grown h h'" "hp_next h' = hp_next h + 1"
    "hp_cells h' = (hp_cells h)(hp_next h \<mapsto> Node_cell \<lparr>nd_type = None, nd_data = Undefined\<rparr>)"
  then show "runs (hp_left h) 1 (\<lambda>p h'. new_tree h h' p (Integer n) \<and> hp_next h' = hp_next h + 1)
     (set_type p SXT_INTEGER h' \<bind> (\<lambda>h. set_data p (U64 n) h \<bind> sx_return p))"
    using grown_update [OF h'(2), of "hp_next h"] by (simp add: access_defs new_tree_def)
qed

lemma sx_make_empty_list_ok:
  assumes "sx_ok h"
  shows "runs (hp_left h) 1 (\<lambda>p h'. new_tree h h' p Empty_list \<and> hp_next h' = hp_next h + 1) (sx_make_empty_list h)"
  unfolding sx_make_empty_list_def
proof (rule runs_then [OF make_node_ok [OF assms]], elim conjE)
  fix p h'
  assume h': "p = Some (hp_next h)" "grown h h'" "hp_next h' = hp_next h + 1"
    "hp_cells h' = (hp_cells h)(hp_next h \<mapsto> Node_cell \<lparr>nd_type = None, nd_data = Undefined\<rparr>)"
  then show "runs (hp_left h) 1 (\<lambda>p h'. new_tree h h' p Empty_list \<and> hp_next h' = hp_next h + 1)
     (set_type p SXT_EMPTY_LIST h' \<bind> sx_return p)"
    using grown_update [OF h'(2), of "hp_next h"] by (simp add: access_defs new_tree_def)
qed

lemma ends_string_takeWhile:
  assumes "0 \<in> set s"
  shows "ends_string (takeWhile (\<lambda>c. c \<noteq> 0) s) s"
proof -
  obtain ys zs where s: "s = ys @ 0 # zs" "0 \<notin> set ys"
    using split_list_first [OF assms] by blast
  then have "takeWhile (\<lambda>c. c \<noteq> 0) ys = ys"
    by (auto simp: takeWhile_eq_all_conv)
  with s show ?thesis
    by (simp add: ends_string_def takeWhile_tail)
qed

lemma sx_make_symboln_ok:
  assumes "sx_ok h" "0 \<in> set s" "length s \<le> SSIZE_MAX" "len < SSIZE_MAX"
  shows "runs (hp_left h) 2 (\<lambda>p h'. new_tree h h' p (Symbol (take len (takeWhile (\<lambda>c. c \<noteq> 0) s))) \<and> hp_next h' = hp_next h + 2)
     (sx_make_symboln s len h)"
  unfolding sx_make_symboln_def Let_def
proof (rule runs_then [OF runs_weaken [OF make_node_ok [OF assms(1)] one_le_numeral]], elim conjE)
  fix p h1
  let ?a = "hp_next h" and ?n = "sz_add len 1" and ?s = "takeWhile (\<lambda>c. c \<noteq> 0) s"
  assume h1: "p = Some ?a" "grown h h1" "hp_next h1 = ?a + 1"
    "hp_cells h1 = (hp_cells h)(?a \<mapsto> Node_cell \<lparr>nd_type = None, nd_data = Undefined\<rparr>)"
  let ?h2 = "h1\<lparr>hp_cells := (hp_cells h1)(?a \<mapsto> Node_cell \<lparr>nd_type = Some SXT_SYMBOL, nd_data = Undefined\<rparr>)\<rparr>"
  have t: "set_type p SXT_SYMBOL h1 = Some ?h2" and g2: "grown h ?h2"
    using h1 grown_update [OF h1(2), of ?a] by (simp_all add: access_defs)
  have n: "?n = len + 1"
    using assms(4) by (simp add: sz_add_id SSIZE_MAX_def SIZE_MOD_def)
  have e: "ends_string ?s s"
    by (rule ends_string_takeWhile [OF assms(2)])
  have l: "length ?s < SIZE_MOD - 1"
    using assms(3) length_takeWhile_le [of "\<lambda>c. c \<noteq> 0" s] by (simp add: SSIZE_MAX_def SIZE_MOD_def)
  let ?dst = "overwrite (replicate ?n 0) 0 (take len ?s @ [0])"
  have cpy: "strlcpy (replicate ?n 0) s ?n = Some (length ?s, ?dst)"
    using strlcpy_ok [OF e _ _ l, of ?n "replicate ?n 0"] n by simp
  have d: "ends_string (take len ?s) ?dst"
    by (auto simp: ends_string_def overwrite_def dest: set_takeWhileD in_set_takeD)
  show "runs (hp_left h) 2 (\<lambda>p h'. new_tree h h' p (Symbol (take len ?s)) \<and> hp_next h' = ?a + 2)
     (set_type p SXT_SYMBOL h1 \<bind> (\<lambda>h. case sx_alloc (Char_cell (replicate ?n 0)) h of (symbol, h) \<Rightarrow>
        set_data p (Symbol_ptr symbol) h \<bind> (\<lambda>h. if symbol = None then sxoom
          else chars_at symbol h \<bind> (\<lambda>dst. strlcpy dst s ?n \<bind> (\<lambda>(x, dst). sx_update symbol (Char_cell dst) h \<bind> sx_return p)))))"
  proof (cases "hp_left h1 = 0")
    case True
    with h1(2,3) have "hp_left h < 2"
      by (simp add: grown_def)
    with True t h1(1) show ?thesis
      by (simp add: sx_alloc_def access_defs)
  next
    case False
    have ok: "sx_ok ?h2"
      using g2 by (simp add: grown_def)
    obtain h3 where h3: "sx_alloc (Char_cell (replicate ?n 0)) ?h2 = (Some (?a + 1), h3)" "grown ?h2 h3" "hp_next h3 = ?a + 2"
       "hp_cells h3 = (hp_cells ?h2)(?a + 1 \<mapsto> Char_cell (replicate ?n 0))"
      using sx_alloc_ok [OF ok, of "Char_cell (replicate ?n 0)"] False h1(3) by auto
    have g3: "grown h h3"
      using grown_trans [OF g2 h3(2)] .
    let ?h4 = "h3\<lparr>hp_cells := (hp_cells h3)(?a \<mapsto> Node_cell \<lparr>nd_type = Some SXT_SYMBOL, nd_data = Symbol_ptr (Some (?a + 1))\<rparr>)\<rparr>"
    let ?h5 = "?h4\<lparr>hp_cells := (hp_cells ?h4)(?a + 1 \<mapsto> Char_cell ?dst)\<rparr>"
    have "grown h ?h4"
      by (rule grown_update [OF g3]) (use h3(3) in simp_all)
    then have "grown h ?h5"
      by (rule grown_update) (use h3(3) in simp_all)
    then have "new_tree h ?h5 p (Symbol (take len ?s)) \<and> hp_next ?h5 = ?a + 2"
      using h1(1) h3(3) d by (auto simp: new_tree_def interval_2)
    moreover have "set_data p (Symbol_ptr (Some (?a + 1))) h3 = Some ?h4" "chars_at (Some (?a + 1)) ?h4 = Some (replicate ?n 0)"
       "sx_update (Some (?a + 1)) (Char_cell ?dst) ?h4 = Some ?h5"
      using h1(1) h3(4) by (simp_all add: access_defs)
    ultimately show ?thesis
      using t h3(1) cpy by simp
  qed
qed

lemma make_pair_ok:
  assumes "sx_ok h"
  shows "runs (hp_left h) 2 (\<lambda>p h'. p = Some (hp_next h) \<and> grown h h' \<and> hp_next h' = hp_next h + 2 \<and>
     hp_cells h' = (hp_cells h)(hp_next h \<mapsto> Node_cell \<lparr>nd_type = Some SXT_PAIR, nd_data = Pair_ptr (Some (hp_next h + 1))\<rparr>,
       hp_next h + 1 \<mapsto> Pair_cell \<lparr>pr_car = None, pr_cdr = None\<rparr>)) (make_pair h)"
  unfolding make_pair_def Let_def
proof (rule runs_then [OF runs_weaken [OF make_node_ok [OF assms(1)] one_le_numeral]], elim conjE)
  fix p h1
  let ?a = "hp_next h"
  assume h1: "p = Some ?a" "grown h h1" "hp_next h1 = ?a + 1"
    "hp_cells h1 = (hp_cells h)(?a \<mapsto> Node_cell \<lparr>nd_type = None, nd_data = Undefined\<rparr>)"
  show "runs (hp_left h) 2 (\<lambda>p h'. p = Some ?a \<and> grown h h' \<and> hp_next h' = ?a + 2 \<and>
     hp_cells h' = (hp_cells h)(?a \<mapsto> Node_cell \<lparr>nd_type = Some SXT_PAIR, nd_data = Pair_ptr (Some (?a + 1))\<rparr>,
       ?a + 1 \<mapsto> Pair_cell \<lparr>pr_car = None, pr_cdr = None\<rparr>))
     (case sx_alloc (Pair_cell \<lparr>pr_car = None, pr_cdr = None\<rparr>) h1 of (pair, h) \<Rightarrow> set_data p (Pair_ptr pair) h \<bind>
       (\<lambda>h. if pair = None then sxoom else set_type p SXT_PAIR h \<bind> sx_return p))"
  proof (cases "hp_left h1 = 0")
    case True
    with h1(2,3) have "hp_left h < 2"
      by (simp add: grown_def)
    with True h1(1,4) show ?thesis
      by (simp add: sx_alloc_def access_defs)
  next
    case False
    have ok: "sx_ok h1"
      using h1(2) by (simp add: grown_def)
    obtain h3 where h3: "sx_alloc (Pair_cell \<lparr>pr_car = None, pr_cdr = None\<rparr>) h1 = (Some (?a + 1), h3)" "grown h1 h3" "hp_next h3 = ?a + 2"
       "hp_cells h3 = (hp_cells h1)(?a + 1 \<mapsto> Pair_cell \<lparr>pr_car = None, pr_cdr = None\<rparr>)"
      using sx_alloc_ok [OF ok False] h1(3) by auto
    have g3: "grown h h3"
      using grown_trans [OF h1(2) h3(2)] .
    let ?h4 = "h3\<lparr>hp_cells := (hp_cells h3)(?a \<mapsto> Node_cell \<lparr>nd_type = None, nd_data = Pair_ptr (Some (?a + 1))\<rparr>)\<rparr>"
    let ?h5 = "?h4\<lparr>hp_cells := (hp_cells ?h4)(?a \<mapsto> Node_cell \<lparr>nd_type = Some SXT_PAIR, nd_data = Pair_ptr (Some (?a + 1))\<rparr>)\<rparr>"
    have "grown h ?h4"
      by (rule grown_update [OF g3]) (use h3(3) in simp_all)
    then have "grown h ?h5"
      by (rule grown_update) (use h3(3) in simp_all)
    moreover have "hp_cells ?h5 = (hp_cells h)(?a \<mapsto> Node_cell \<lparr>nd_type = Some SXT_PAIR, nd_data = Pair_ptr (Some (?a + 1))\<rparr>,
       ?a + 1 \<mapsto> Pair_cell \<lparr>pr_car = None, pr_cdr = None\<rparr>)"
      using h1(4) h3(4) by auto
    moreover have "set_data p (Pair_ptr (Some (?a + 1))) h3 = Some ?h4" "set_type p SXT_PAIR ?h4 = Some ?h5" "hp_next ?h5 = ?a + 2"
      using h1(1,4) h3(3,4) by (simp_all add: access_defs)
    ultimately show ?thesis
      using h3(1) h1(1) by simp
  qed
qed

lemma sx_cons_ok:
  assumes "sx_ok h" "holds (hp_cells h) px x X" "holds (hp_cells h) py y Y" "X \<inter> Y = {}"
  shows "runs (hp_left h) 2 (\<lambda>p h'. grown h h' \<and> hp_next h' = hp_next h + 2 \<and>
     holds (hp_cells h') p (Cons x y) ({hp_next h, hp_next h + 1} \<union> X \<union> Y)) (sx_cons px py h)"
  unfolding sx_cons_def
proof (rule runs_then [OF make_pair_ok [OF assms(1)]], elim conjE)
  fix p h1
  let ?a = "hp_next h"
  assume h1: "p = Some ?a" "grown h h1" "hp_next h1 = ?a + 2"
    "hp_cells h1 = (hp_cells h)(?a \<mapsto> Node_cell \<lparr>nd_type = Some SXT_PAIR, nd_data = Pair_ptr (Some (?a + 1))\<rparr>,
       ?a + 1 \<mapsto> Pair_cell \<lparr>pr_car = None, pr_cdr = None\<rparr>)"
  let ?h2 = "h1\<lparr>hp_cells := (hp_cells h1)(?a + 1 \<mapsto> Pair_cell \<lparr>pr_car = px, pr_cdr = None\<rparr>)\<rparr>"
  let ?h3 = "?h2\<lparr>hp_cells := (hp_cells ?h2)(?a + 1 \<mapsto> Pair_cell \<lparr>pr_car = px, pr_cdr = py\<rparr>)\<rparr>"
  have "grown h ?h2"
    by (rule grown_update [OF h1(2)]) (use h1(3) in simp_all)
  then have g: "grown h ?h3"
    by (rule grown_update) (use h1(3) in simp_all)
  have new: "X \<subseteq> {..<?a}" "Y \<subseteq> {..<?a}"
    using holds_cells [OF assms(2)] holds_cells [OF assms(3)] assms(1) by (force simp: sx_ok_def not_le dest: subsetD)+
  have "holds (hp_cells ?h3) (Some ?a) (Cons x y) ({?a, ?a + 1} \<union> X \<union> Y)"
  proof (rule holds_ConsI [of _ _ "?a + 1" px py])
    show "holds (hp_cells ?h3) px x X" "holds (hp_cells ?h3) py y Y"
      by (rule holds_cong [OF assms(2)] holds_cong [OF assms(3)]; use new h1(4) in auto)+
  qed (use new h1(4) assms(4) in auto)
  moreover have "data_pair p h1 = Some (Some (?a + 1))" "set_car (Some (?a + 1)) px h1 = Some ?h2"
     "data_pair p ?h2 = Some (Some (?a + 1))" "set_cdr (Some (?a + 1)) py ?h2 = Some ?h3"
    using h1(1,4) by (simp_all add: access_defs)
  ultimately show "runs (hp_left h) 2 (\<lambda>p h'. grown h h' \<and> hp_next h' = ?a + 2 \<and>
     holds (hp_cells h') p (Cons x y) ({?a, ?a + 1} \<union> X \<union> Y))
     (data_pair p h1 \<bind> (\<lambda>pair. set_car pair px h1 \<bind> (\<lambda>h. data_pair p h \<bind> (\<lambda>pair. set_cdr pair py h \<bind> sx_return p))))"
    using g h1(1,3) by simp
qed

section \<open>Tokens\<close>

definition text_ok :: "u8 list \<Rightarrow> nat \<Rightarrow> bool" where
  "text_ok s n \<longleftrightarrow> length s \<le> SSIZE_MAX \<and> 0 \<in> set (drop n s)"

lemma text_ok_length: "text_ok s n \<Longrightarrow> n < length s"
  by (cases "n < length s") (simp_all add: text_ok_def)

lemma skip_class_ok:
  assumes "i \<le> n" "n \<le> length s"
  shows "\<exists>j. skip_class P s n i = Some j \<and> i \<le> j \<and> j \<le> n \<and> (\<forall>k. i \<le> k \<longrightarrow> k < j \<longrightarrow> P (s ! k)) \<and> (j < n \<longrightarrow> \<not> P (s ! j))"
  using assms
proof (induction "n - i" arbitrary: i)
  case 0
  then show ?case by (subst skip_class.simps) simp
next
  case (Suc d)
  then have i: "i < n" "octet_at s i = Some (s ! i)"
    by (simp_all add: octet_at_def)
  show ?case
  proof (cases "P (s ! i)")
    case False
    with i show ?thesis by (subst skip_class.simps) auto
  next
    case True
    obtain j where j: "skip_class P s n (i + 1) = Some j" "i + 1 \<le> j" "j \<le> n" "\<And>k. i + 1 \<le> k \<Longrightarrow> k < j \<Longrightarrow> P (s ! k)" "j < n \<longrightarrow> \<not> P (s ! j)"
      using Suc.hyps(1) [of "i + 1"] Suc.hyps(2) Suc.prems(2) i(1) by force
    have "P (s ! k)" if "i \<le> k" "k < j" for k
      using that True j(4) [of k] by (cases "k = i") auto
    with i True j show ?thesis by (subst skip_class.simps) auto
  qed
qed

lemma integer_value_defined:
  assumes "j < length s"
  shows "\<exists>v. integer_value s i base j newi mult = Some v"
  using assms
proof (induction j arbitrary: newi mult)
  case 0
  then show ?case by (subst integer_value.simps) (simp add: octet_at_def Let_def)
next
  case (Suc j)
  then show ?case by (subst integer_value.simps) (simp add: octet_at_def Let_def)
qed

lemma minu64_id: "j \<le> n \<Longrightarrow> minu64 j n = j"
  by (simp add: minu64_def)

fun is_atom :: "sx_tree \<Rightarrow> bool" where
  "is_atom (Symbol s) \<longleftrightarrow> True"
| "is_atom (Integer n) \<longleftrightarrow> True"
| "is_atom Empty_list \<longleftrightarrow> True"
| "is_atom t \<longleftrightarrow> False"

text \<open>What the two functions for words do: no node, or one that is new.\<close>

definition atom_or_none :: "nat \<Rightarrow> nat \<Rightarrow> sx_heap \<Rightarrow> sx_ptr \<times> nat \<Rightarrow> sx_heap \<Rightarrow> bool" where
  "atom_or_none n i h r h' \<longleftrightarrow> i < snd r \<and> snd r \<le> n \<and> (if fst r = None then h' = h
     else \<exists>t. is_atom t \<and> new_tree h h' (fst r) t \<and> hp_next h' \<le> hp_next h + 2)"

lemma new_tree_not_None: "new_tree h h' p t \<Longrightarrow> is_atom t \<Longrightarrow> p \<noteq> None"
  by (cases t) (auto simp: new_tree_def)

lemma atom_or_noneI:
  assumes "\<exists>t. is_atom t \<and> new_tree h h' p t \<and> hp_next h' \<le> hp_next h + 2" "i < j" "j \<le> n"
  shows "atom_or_none n i h (p, j) h'"
proof -
  have "p \<noteq> None"
    using assms(1) by (auto dest: new_tree_not_None)
  then show ?thesis
    using assms by (cases p) (auto simp: atom_or_none_def)
qed

lemma none_outcome: "sx_ok h \<Longrightarrow> i < j \<Longrightarrow> j \<le> n \<Longrightarrow> atom_or_none n i h (None, j) h"
  by (simp add: atom_or_none_def)

lemma parse_symbol_ok:
  assumes "text_ok s n" "i < n" "issymch (s ! i)" "sx_ok h"
  shows "runs (hp_left h) 2 (atom_or_none n i h) (parse_symbol s n i h)"
proof -
  note l = text_ok_length [OF assms(1)]
  obtain j where j: "skip_class issymch s n i = Some j" "i \<le> j" "j \<le> n" "j < n \<longrightarrow> \<not> issymch (s ! j)"
    using skip_class_ok [of i n s issymch] assms(2) l by auto
  have ij: "i < j"
    using j(2-4) assms(2,3) by (cases "i = j") auto
  have "runs (hp_left h) 2 (\<lambda>p h'. \<exists>t. is_atom t \<and> new_tree h h' p t \<and> hp_next h' \<le> hp_next h + 2)
      (sx_make_symboln (drop i s) (sz_sub j i) h)"
  proof (rule runs_mono [OF sx_make_symboln_ok [OF assms(4)]])
    show "0 \<in> set (drop i s)"
      using assms(1,2) set_drop_subset_set_drop [of i n s] by (auto simp: text_ok_def)
    show "\<exists>t. is_atom t \<and> new_tree h h' p t \<and> hp_next h' \<le> hp_next h + 2"
      if "new_tree h h' p (Symbol (take (sz_sub j i) (takeWhile (\<lambda>c. c \<noteq> 0) (drop i s)))) \<and> hp_next h' = hp_next h + 2" for p h'
      using that by (intro exI [of _ "Symbol (take (sz_sub j i) (takeWhile (\<lambda>c. c \<noteq> 0) (drop i s)))"]) simp
  qed (use assms(1) j(2,3) l in \<open>auto simp: text_ok_def\<close>)
  then have "runs (hp_left h) 2 (atom_or_none n i h)
      (sx_then (sx_make_symboln (drop i s) (sz_sub j i) h) (\<lambda>rv h. sx_return (rv, minu64 j n) h))"
    by (rule runs_then) (simp add: minu64_id j(3) atom_or_noneI ij)
  moreover have "octet_at s j = Some (s ! j)"
    using j(3) l by (simp add: octet_at_def)
  ultimately show ?thesis
    using j(1,3) ij none_outcome [OF assms(4)] by (cases "j < n") (simp_all add: parse_symbol_def)
qed

lemma parse_integer_base_ok:
  assumes "text_ok s n" "i < n" "i + offset \<le> n" "offset = 0 \<Longrightarrow> P (s ! i)" "sx_ok h"
  shows "runs (hp_left h) 2 (atom_or_none n i h) (parse_integer_base s n i offset P base h)"
proof -
  note l = text_ok_length [OF assms(1)]
  have o: "sz_add i offset = i + offset"
    using assms(1,3) l by (simp add: text_ok_def sz_add_id SSIZE_MAX_def SIZE_MOD_def)
  obtain j where j: "skip_class P s n (i + offset) = Some j" "i + offset \<le> j" "j \<le> n" "j < n \<longrightarrow> \<not> P (s ! j)"
    using skip_class_ok [of "i + offset" n s P] assms(3) l by auto
  have ij: "i < j"
    using j(2-4) assms(2,4) by (cases "i = j") auto
  have "j - 1 < length s"
    using j(3) l ij by simp
  then obtain v where v: "integer_value s i base (j - 1) 0 1 = Some v"
    using integer_value_defined by blast
  have "runs (hp_left h) 2 (\<lambda>p h'. \<exists>t. is_atom t \<and> new_tree h h' p t \<and> hp_next h' \<le> hp_next h + 2) (sx_make_integer v h)"
    by (rule runs_mono [OF sx_make_integer_ok [OF assms(5)]]) (auto intro!: exI [of _ "Integer v"])
  then have "runs (hp_left h) 2 (atom_or_none n i h) (sx_then (sx_make_integer v h) (\<lambda>rv h. sx_return (rv, minu64 j n) h))"
    by (rule runs_then) (simp add: minu64_id j(3) atom_or_noneI ij)
  moreover have "octet_at s j = Some (s ! j)" "sz_sub j 1 = j - 1"
    using j(3) l ij by (simp_all add: octet_at_def)
  ultimately show ?thesis
    using j(1,3) ij v o none_outcome [OF assms(5)] by (cases "j < n") (simp_all add: parse_integer_base_def Let_def)
qed

definition token_outcome :: "nat \<Rightarrow> nat \<Rightarrow> sx_heap \<Rightarrow> sx_parse_result \<Rightarrow> sx_heap \<Rightarrow> bool" where
  "token_outcome n i h r h' \<longleftrightarrow> (case rs_status r of
     SXS_SUCCESS \<Rightarrow> (rs_node r = None \<and> rs_position r = n \<and> h' = h) \<or>
       (i < rs_position r \<and> rs_position r \<le> n \<and> (\<exists>t. is_atom t \<and> new_tree h h' (rs_node r) t \<and> hp_next h' \<le> hp_next h + 2))
   | SXS_FOUND_LIST \<Rightarrow> i < rs_position r \<and> rs_position r \<le> n \<and> h' = h \<and> rs_node r = None
   | SXS_UNEXPECTED_END \<Rightarrow> False
   | _ \<Rightarrow> h' = h \<and> rs_node r = None)"

lemma token_result_ok:
  assumes "runs (hp_left h) 2 (atom_or_none n j h) r" "i \<le> j" "broken \<in> {SXS_BROKEN_INTEGER, SXS_BROKEN_SYMBOL}"
  shows "runs (hp_left h) 2 (token_outcome n i h) (token_result broken r)"
  unfolding token_result_def
  by (rule runs_then [OF assms(1)]) (use assms(2,3) in \<open>auto simp: atom_or_none_def token_outcome_def SX_PARSE_RESULT_INIT_def split: if_splits\<close>)

lemma looking_at_ok:
  assumes "text_ok s n" "j < n"
  shows "\<exists>w. looking_at s n j = Some w \<and> (case w of
     LOOKING_AT_INT_DEC \<Rightarrow> isdigit (s ! j) | LOOKING_AT_INT_HEX \<Rightarrow> j + 1 < n \<and> isxdigit (s ! (j + 2))
   | LOOKING_AT_SYMBOL \<Rightarrow> issyminitch (s ! j) | _ \<Rightarrow> True)"
proof -
  note l = text_ok_length [OF assms(1)]
  have a: "sz_add j 1 = j + 1" "sz_add j 2 = j + 2"
    using assms l by (simp_all add: text_ok_def sz_add_id SSIZE_MAX_def SIZE_MOD_def)
  have "octet_at s j = Some (s ! j)" "octet_at s (j + 1) = Some (s ! (j + 1))" "j + 1 < n \<Longrightarrow> octet_at s (j + 2) = Some (s ! (j + 2))"
    using assms(2) l by (simp_all add: octet_at_def)
  then show ?thesis
    unfolding looking_at_def a by (auto split: if_splits)
qed

lemma sx_parse_token_ok:
  assumes "text_ok s n" "i \<le> n" "sx_ok h"
  shows "runs (hp_left h) (4 * (n - i)) (token_outcome n i h) (sx_parse_token s n i h)"
proof -
  note l = text_ok_length [OF assms(1)]
  obtain j where j: "skip_ws s n i = Some j" "i \<le> j" "j \<le> n"
    using skip_class_ok [of i n s isspace] assms(2) l by (auto simp: skip_ws_def)
  show ?thesis
  proof (cases "j = n")
    case True
    with j(1) show ?thesis
      by (simp add: sx_parse_token_def Let_def token_outcome_def SX_PARSE_RESULT_INIT_def)
  next
    case False
    then have jn: "j < n" and room: "2 \<le> 4 * (n - i)" "1 \<le> 4 * (n - i)"
      using j by simp_all
    have j1: "sz_add j 1 = j + 1"
      using assms(1) jn l by (simp add: text_ok_def sz_add_id SSIZE_MAX_def SIZE_MOD_def)
    obtain w where w: "looking_at s n j = Some w"
      "case w of LOOKING_AT_INT_DEC \<Rightarrow> isdigit (s ! j) | LOOKING_AT_INT_HEX \<Rightarrow> j + 1 < n \<and> isxdigit (s ! (j + 2))
       | LOOKING_AT_SYMBOL \<Rightarrow> issyminitch (s ! j) | _ \<Rightarrow> True"
      using looking_at_ok [OF assms(1) jn] by blast
    have "runs (hp_left h) (4 * (n - i)) (token_outcome n i h)
       (sx_then (sx_make_empty_list h) (\<lambda>node h. sx_return (SX_PARSE_RESULT_INIT\<lparr>rs_node := node, rs_position := j + 1\<rparr>) h))"
      by (rule runs_then [OF runs_weaken [OF sx_make_empty_list_ok [OF assms(3)] room(2)]])
        (use j(2) jn in \<open>auto simp: token_outcome_def SX_PARSE_RESULT_INIT_def intro!: exI [of _ Empty_list]\<close>)
    moreover have "runs (hp_left h) 2 (token_outcome n i h) (token_result SXS_BROKEN_INTEGER (parse_integer s n j h))"
      if "w = LOOKING_AT_INT_DEC"
      unfolding parse_integer_def
      by (rule token_result_ok [OF parse_integer_base_ok [OF assms(1) jn _ _ assms(3)] j(2)]) (use that w(2) jn in auto)
    moreover have "runs (hp_left h) 2 (token_outcome n i h) (token_result SXS_BROKEN_INTEGER (parse_hinteger s n j h))"
      if "w = LOOKING_AT_INT_HEX"
      unfolding parse_hinteger_def
      by (rule token_result_ok [OF parse_integer_base_ok [OF assms(1) jn _ _ assms(3)] j(2)]) (use that w(2) jn in auto)
    moreover have "runs (hp_left h) 2 (token_outcome n i h) (token_result SXS_BROKEN_SYMBOL (parse_symbol s n j h))"
      if "w = LOOKING_AT_SYMBOL"
      by (rule token_result_ok [OF parse_symbol_ok [OF assms(1) jn _ assms(3)] j(2)]) (use that w(2) in \<open>auto simp: issymch_def\<close>)
    ultimately show ?thesis
      using j jn j1 w(1) room(1) unfolding sx_parse_token_def Let_def
      by (cases w) (auto simp: token_outcome_def SX_PARSE_RESULT_INIT_def intro: runs_weaken)
  qed
qed

section \<open>Expressions and lists\<close>

text \<open>The trees the parser makes: an empty list is only the end of a list, or the whole expression.\<close>

fun proper :: "sx_tree \<Rightarrow> bool" where
  "proper Null \<longleftrightarrow> False"
| "proper (Cons x y) \<longleftrightarrow> proper x \<and> x \<noteq> Empty_list \<and> proper y \<and> \<not> is_atom y \<or> proper x \<and> x \<noteq> Empty_list \<and> y = Empty_list"
| "proper t \<longleftrightarrow> True"

definition is_list_tree :: "sx_tree \<Rightarrow> bool" where
  "is_list_tree t \<longleftrightarrow> t = Empty_list \<or> (\<exists>x y. t = Cons x y)"

lemma proper_Cons: "proper x \<Longrightarrow> x \<noteq> Empty_list \<Longrightarrow> proper y \<Longrightarrow> is_list_tree y \<Longrightarrow> proper (Cons x y)"
  by (auto simp: is_list_tree_def)

lemma atom_proper: "is_atom t \<Longrightarrow> proper t"
  by (cases t) auto

definition expression_outcome :: "nat \<Rightarrow> nat \<Rightarrow> sx_heap \<Rightarrow> sx_parse_result \<Rightarrow> sx_heap \<Rightarrow> bool" where
  "expression_outcome n i h r h' \<longleftrightarrow> rs_status r \<noteq> SXS_FOUND_LIST \<and>
     (\<exists>t. new_tree h h' (rs_node r) t \<and> hp_next h' \<le> hp_next h + 4 * (n - i) \<and>
        (rs_status r = SXS_SUCCESS \<longrightarrow> (t = Null \<and> h' = h \<and> rs_position r = n \<and> i < n) \<or>
           (proper t \<and> i < rs_position r \<and> rs_position r \<le> n \<and> hp_next h' + 2 \<le> hp_next h + 4 * (rs_position r - i))))"

definition list_outcome :: "nat \<Rightarrow> nat \<Rightarrow> sx_heap \<Rightarrow> sx_parse_result \<Rightarrow> sx_heap \<Rightarrow> bool" where
  "list_outcome n i h r h' \<longleftrightarrow> rs_status r \<noteq> SXS_FOUND_LIST \<and>
     (\<exists>t. new_tree h h' (rs_node r) t \<and> hp_next h' \<le> hp_next h + 4 * (n - i) \<and>
        (rs_status r = SXS_SUCCESS \<longrightarrow> proper t \<and> is_list_tree t \<and> i < rs_position r \<and> rs_position r \<le> n \<and>
           hp_next h' \<le> hp_next h + 4 * (rs_position r - i)))"

lemma parse_with_ok:
  assumes "text_ok s n" "i \<le> n" "sx_ok h"
    and pl: "\<And>j. i < j \<Longrightarrow> j \<le> n \<Longrightarrow> runs (hp_left h) (4 * (n - j)) (list_outcome n j h) (pl s n j h)"
  shows "runs (hp_left h) (4 * (n - i)) (expression_outcome n i h) (parse_with pl s n i h)"
  unfolding parse_with_def
proof (rule runs_then [OF sx_parse_token_ok [OF assms(1-3)]])
  fix r h1
  assume r: "token_outcome n i h r h1"
  let ?R = "if rs_status r = SXS_FOUND_LIST then pl s n (rs_position r) h1
     else if i \<ge> n \<and> rs_node r = None then sx_return (r\<lparr>rs_status := SXS_UNEXPECTED_END\<rparr>) h1 else sx_return r h1"
  consider (list) "rs_status r = SXS_FOUND_LIST" "i < rs_position r" "rs_position r \<le> n" "h1 = h"
    | (none) "rs_node r = None" "h1 = h" "rs_status r \<noteq> SXS_FOUND_LIST" "rs_status r = SXS_SUCCESS \<longrightarrow> rs_position r = n"
    | (atom) t where "rs_status r = SXS_SUCCESS" "i < rs_position r" "rs_position r \<le> n" "is_atom t"
       "new_tree h h1 (rs_node r) t" "hp_next h1 \<le> hp_next h + 2"
    using r by (cases "rs_status r") (auto simp: token_outcome_def)
  then show "runs (hp_left h) (4 * (n - i)) (expression_outcome n i h) ?R"
  proof cases
    case list
    have "runs (hp_left h) (4 * (n - i)) (expression_outcome n i h) (pl s n (rs_position r) h)"
    proof (rule runs_mono [OF pl [OF list(2,3)]])
      fix r' h'
      assume "list_outcome n (rs_position r) h r' h'"
      with list(2,3) show "expression_outcome n i h r' h'"
        by (fastforce simp: list_outcome_def expression_outcome_def)
    qed (use list(2) in auto)
    with list show ?thesis by simp
  next
    case none
    with assms(2) new_tree_none [OF assms(3)] show ?thesis
      by (auto simp: expression_outcome_def intro!: exI [of _ Null])
  next
    case atom
    with assms(2) atom_proper [OF atom(4)] show ?thesis
      by (auto simp: expression_outcome_def intro!: exI [of _ t])
  qed
qed

lemma result_is_empty_listp_ok:
  assumes "rs_status r = SXS_SUCCESS \<longrightarrow> (\<exists>F. holds (hp_cells h) (rs_node r) t F)"
  shows "result_is_empty_listp r h = Some (rs_status r = SXS_SUCCESS \<and> t = Empty_list)"
proof (cases "rs_status r = SXS_SUCCESS")
  case True
  with assms show ?thesis
    by (cases t) (auto simp: result_is_empty_listp_def access_defs)
qed (simp add: result_is_empty_listp_def)

lemma interval_tree:
  assumes "grown h h1" "grown h1 h2" "hp_next h3 = hp_next h2 + 2"
  shows "{hp_next h2, hp_next h2 + 1} \<union> {hp_next h..<hp_next h1} \<union> {hp_next h1..<hp_next h2} = {hp_next h..<hp_next h3}"
  using assms by (auto simp: grown_def)

lemma new_tree_kept: "new_tree h h1 p t \<Longrightarrow> grown h1 h2 \<Longrightarrow> holds (hp_cells h2) p t {hp_next h..<hp_next h1}"
  unfolding new_tree_def by (rule holds_cong) (auto simp: grown_def)

lemma sx_parse_list_ok:
  assumes "text_ok s n" "i \<le> n" "sx_ok h"
  shows "runs (hp_left h) (4 * (n - i)) (list_outcome n i h) (sx_parse_list s n i h)"
  using assms(2,3)
proof (induction "n - i" arbitrary: i h rule: less_induct)
  case less
  show ?case
  proof (cases "i \<ge> n")
    case True
    with less.prems new_tree_none [OF less.prems(2)] show ?thesis
      by (subst sx_parse_list.simps) (auto simp: list_outcome_def SX_PARSE_RESULT_INIT_def intro!: exI [of _ Null])
  next
    case False
    let ?k = "\<lambda>carres h. result_is_empty_listp carres h \<bind> (\<lambda>empty. if empty \<or> result_is_error carres then sx_return carres h
        else sx_then (sx_parse_list s n (rs_position carres) h) (\<lambda>cdrres h.
          sx_then (sx_cons (rs_node carres) (rs_node cdrres) h) (\<lambda>cons h.
            sx_return (carres\<lparr>rs_node := cons, rs_position := rs_position cdrres, rs_status := rs_status cdrres\<rparr>) h)))"
    have "runs (hp_left h) (4 * (n - i)) (expression_outcome n i h) (parse_with sx_parse_list s n i h)"
      by (rule parse_with_ok [OF assms(1) less.prems]) (use less False in auto)
    then have "runs (hp_left h) (4 * (n - i)) (list_outcome n i h) (sx_then (parse_with sx_parse_list s n i h) ?k)"
    proof (rule runs_then)
      fix r1 h1
      assume "expression_outcome n i h r1 h1"
      then obtain t1 where r1: "rs_status r1 \<noteq> SXS_FOUND_LIST" "new_tree h h1 (rs_node r1) t1" "hp_next h1 \<le> hp_next h + 4 * (n - i)"
        "rs_status r1 = SXS_SUCCESS \<longrightarrow> (t1 = Null \<and> h1 = h \<and> rs_position r1 = n \<and> i < n) \<or>
           (proper t1 \<and> i < rs_position r1 \<and> rs_position r1 \<le> n \<and> hp_next h1 + 2 \<le> hp_next h + 4 * (rs_position r1 - i))"
        unfolding expression_outcome_def by blast
      have e: "result_is_empty_listp r1 h1 = Some (rs_status r1 = SXS_SUCCESS \<and> t1 = Empty_list)"
        by (rule result_is_empty_listp_ok) (use r1(2) in \<open>auto simp: new_tree_def\<close>)
      show "runs (hp_left h) (4 * (n - i)) (list_outcome n i h) (?k r1 h1)"
      proof (cases "rs_status r1 = SXS_SUCCESS \<and> t1 \<noteq> Empty_list")
        case False
        then have "list_outcome n i h r1 h1"
          unfolding list_outcome_def using r1 by (intro conjI exI [of _ t1]) (auto simp: is_list_tree_def)
        with False e r1(1) show ?thesis
          by (auto simp: result_is_error_def)
      next
        case True
        let ?j = "rs_position r1"
        have p: "i < ?j" "?j \<le> n" "hp_next h1 + 2 \<le> hp_next h + 4 * (?j - i)"
          using r1(4) True by auto
        have g1: "grown h h1" "sx_ok h1"
          using r1(2) by (auto simp: new_tree_def grown_def)
        have "runs (hp_left h1) (4 * (n - ?j)) (list_outcome n ?j h1) (sx_parse_list s n ?j h1)"
          by (rule less.hyps) (use p g1 False in auto)
        then have "runs (hp_left h) (4 * (n - i)) (list_outcome n ?j h1) (sx_parse_list s n ?j h1)"
          by (rule runs_mono) (use g1(1) p in \<open>auto simp: grown_def\<close>)
        then have "runs (hp_left h) (4 * (n - i)) (list_outcome n i h) (sx_then (sx_parse_list s n ?j h1) (\<lambda>cdrres h.
            sx_then (sx_cons (rs_node r1) (rs_node cdrres) h) (\<lambda>cons h.
              sx_return (r1\<lparr>rs_node := cons, rs_position := rs_position cdrres, rs_status := rs_status cdrres\<rparr>) h)))"
        proof (rule runs_then)
          fix r2 h2
          assume "list_outcome n ?j h1 r2 h2"
          then obtain t2 where r2: "rs_status r2 \<noteq> SXS_FOUND_LIST" "new_tree h1 h2 (rs_node r2) t2" "hp_next h2 \<le> hp_next h1 + 4 * (n - ?j)"
            "rs_status r2 = SXS_SUCCESS \<longrightarrow> proper t2 \<and> is_list_tree t2 \<and> ?j < rs_position r2 \<and> rs_position r2 \<le> n \<and>
               hp_next h2 \<le> hp_next h1 + 4 * (rs_position r2 - ?j)"
            unfolding list_outcome_def by blast
          have g2: "grown h1 h2" "sx_ok h2"
            using r2(2) by (auto simp: new_tree_def grown_def)
          have "runs (hp_left h2) 2 (\<lambda>p h'. grown h2 h' \<and> hp_next h' = hp_next h2 + 2 \<and>
             holds (hp_cells h') p (Cons t1 t2) ({hp_next h2, hp_next h2 + 1} \<union> {hp_next h..<hp_next h1} \<union> {hp_next h1..<hp_next h2}))
             (sx_cons (rs_node r1) (rs_node r2) h2)"
            by (rule sx_cons_ok [OF g2(2) new_tree_kept [OF r1(2) g2(1)]]) (use r2(2) in \<open>auto simp: new_tree_def\<close>)
          then have "runs (hp_left h) (4 * (n - i)) (\<lambda>p h'. grown h2 h' \<and> hp_next h' = hp_next h2 + 2 \<and>
             holds (hp_cells h') p (Cons t1 t2) ({hp_next h2, hp_next h2 + 1} \<union> {hp_next h..<hp_next h1} \<union> {hp_next h1..<hp_next h2}))
             (sx_cons (rs_node r1) (rs_node r2) h2)"
            by (rule runs_mono) (use g1(1) g2(1) p r2(3) in \<open>auto simp: grown_def\<close>)
          then show "runs (hp_left h) (4 * (n - i)) (list_outcome n i h) (sx_then (sx_cons (rs_node r1) (rs_node r2) h2) (\<lambda>cons h.
              sx_return (r1\<lparr>rs_node := cons, rs_position := rs_position r2, rs_status := rs_status r2\<rparr>) h))"
          proof (rule runs_then)
            fix c h3
            assume c: "grown h2 h3 \<and> hp_next h3 = hp_next h2 + 2 \<and>
               holds (hp_cells h3) c (Cons t1 t2) ({hp_next h2, hp_next h2 + 1} \<union> {hp_next h..<hp_next h1} \<union> {hp_next h1..<hp_next h2})"
            then have new: "new_tree h h3 c (Cons t1 t2)"
              using interval_tree [OF g1(1) g2(1), of h3] grown_trans [OF grown_trans [OF g1(1) g2(1)]] by (simp add: new_tree_def)
            have "proper (Cons t1 t2)" if "rs_status r2 = SXS_SUCCESS"
              by (rule proper_Cons) (use r1(4) r2(4) True that in auto)
            moreover have "is_list_tree (Cons t1 t2)"
              by (simp add: is_list_tree_def)
            ultimately show "runs (hp_left h) (4 * (n - i)) (list_outcome n i h)
               (sx_return (r1\<lparr>rs_node := c, rs_position := rs_position r2, rs_status := rs_status r2\<rparr>) h3)"
              using new c p r2 by (auto simp: list_outcome_def simp del: proper.simps intro!: exI [of _ "Cons t1 t2"])
          qed
        qed
        with True e show ?thesis
          by (simp add: result_is_error_def)
      qed
    qed
    with False show ?thesis
      by (subst sx_parse_list.simps) simp
  qed
qed

lemma released_new:
  assumes "new_tree h h' p t"
  shows "hp_cells (released {hp_next h..<hp_next h'} h') = hp_cells h" "hp_left (released {hp_next h..<hp_next h'} h') = hp_left h"
proof -
  have "(hp_cells h' |` (- {hp_next h..<hp_next h'})) a = hp_cells h a" for a
    using assms by (cases "a < hp_next h") (auto simp: new_tree_def grown_def sx_ok_def restrict_map_def)
  then show "hp_cells (released {hp_next h..<hp_next h'} h') = hp_cells h"
    by (auto simp: released_def)
  show "hp_left (released {hp_next h..<hp_next h'} h') = hp_left h"
    using assms by (simp add: released_def new_tree_def grown_def)
qed

section \<open>Property: parsing any text\<close>

text \<open>C12. Parsing is safe on every text. Whatever octets the text has, as long as a zero follows it somewhere in memory,
  parsing from any position of it ends, reads only memory that is there and uses the heap as the C library demands. It
  leaves the process only if there is room for fewer than four cells for each octet of the rest of the text. An error
  leaves no node and the heap as it was, so nothing is lost. Success with a node means that the position has moved on
  within the text and the new cells of the heap, all of them, are the expression of the node, which has no null pointer
  in it; success without a node comes from blank text only and allocates nothing.\<close>

theorem sx_parse_safe:
  assumes "text_ok s n" and "i \<le> n" and "sx_ok h"
  shows "runs (hp_left h) (4 * (n - i)) (\<lambda>r h'. rs_status r \<noteq> SXS_FOUND_LIST \<and>
       (if rs_status r \<noteq> SXS_SUCCESS then rs_node r = None \<and> hp_cells h' = hp_cells h \<and> hp_left h' = hp_left h
        else if rs_node r = None then i < n \<and> rs_position r = n \<and> h' = h
        else i < rs_position r \<and> rs_position r \<le> n \<and>
          (\<exists>t. proper t \<and> holds (hp_cells h') (rs_node r) t {hp_next h..<hp_next h'} \<and> hp_next h \<le> hp_next h' \<and>
             (\<forall>a < hp_next h. hp_cells h' a = hp_cells h a) \<and> (\<forall>a \<ge> hp_next h'. hp_cells h' a = None))))
     (sx_parse s n i h)"
  unfolding sx_parse_def sx_parse_rec_def
proof (rule runs_then [OF parse_with_ok [OF assms]])
  show "runs (hp_left h) (4 * (n - j)) (list_outcome n j h) (sx_parse_list s n j h)" if "i < j" "j \<le> n" for j
    by (rule sx_parse_list_ok [OF assms(1) that(2) assms(3)])
next
  fix r h1
  assume "expression_outcome n i h r h1"
  then obtain t where r: "rs_status r \<noteq> SXS_FOUND_LIST" "new_tree h h1 (rs_node r) t"
    "rs_status r = SXS_SUCCESS \<longrightarrow> (t = Null \<and> h1 = h \<and> rs_position r = n \<and> i < n) \<or> (proper t \<and> i < rs_position r \<and> rs_position r \<le> n)"
    unfolding expression_outcome_def by blast
  have d: "sx_destroy (rs_node r) h1 = Some (None, released {hp_next h..<hp_next h1} h1)"
    using r(2) by (auto simp: new_tree_def intro: sx_destroy_ok)
  have n: "rs_node r \<noteq> None" if "proper t"
    using r(2) that by (cases t) (auto simp: new_tree_def)
  let ?Q = "\<lambda>r h'. rs_status r \<noteq> SXS_FOUND_LIST \<and>
       (if rs_status r \<noteq> SXS_SUCCESS then rs_node r = None \<and> hp_cells h' = hp_cells h \<and> hp_left h' = hp_left h
        else if rs_node r = None then i < n \<and> rs_position r = n \<and> h' = h
        else i < rs_position r \<and> rs_position r \<le> n \<and>
          (\<exists>t. proper t \<and> holds (hp_cells h') (rs_node r) t {hp_next h..<hp_next h'} \<and> hp_next h \<le> hp_next h' \<and>
             (\<forall>a < hp_next h. hp_cells h' a = hp_cells h a) \<and> (\<forall>a \<ge> hp_next h'. hp_cells h' a = None)))"
  show "runs (hp_left h) (4 * (n - i)) ?Q (if result_is_error r then sx_destroy (rs_node r) h1 \<bind> (\<lambda>(node, h). sx_return (r\<lparr>rs_node := node\<rparr>) h)
      else sx_return r h1)"
  proof (cases "rs_status r = SXS_SUCCESS")
    case False
    then have "result_is_error r"
      using r(1) by (simp add: result_is_error_def)
    with False d r(1) released_new [OF r(2)] show ?thesis
      by simp
  next
    case True
    have "?Q r h1"
    proof (cases "t = Null")
      case True
      with r(2) have "rs_node r = None"
        by (simp add: new_tree_def)
      with r(1,3) True \<open>rs_status r = SXS_SUCCESS\<close> show ?thesis
        by simp
    next
      case False
      then have t: "proper t" "i < rs_position r" "rs_position r \<le> n"
        using r(3) True by auto
      have "holds (hp_cells h1) (rs_node r) t {hp_next h..<hp_next h1} \<and> hp_next h \<le> hp_next h1 \<and>
          (\<forall>a < hp_next h. hp_cells h1 a = hp_cells h a) \<and> (\<forall>a \<ge> hp_next h1. hp_cells h1 a = None)"
        using r(2) by (simp add: new_tree_def grown_def sx_ok_def)
      with t n r(1) True show ?thesis
        by auto
    qed
    with True show ?thesis
      by (simp add: result_is_error_def)
  qed
qed

definition empty_heap :: "nat \<Rightarrow> sx_heap" where
  "empty_heap k = \<lparr>hp_cells = Map.empty, hp_next = 1, hp_left = k\<rparr>"

text \<open>The text \<open>(a b\<close>, which has no end.\<close>

theorem sx_parse_safe_witness:
  "\<exists>r h'. sx_parse [40, 97, 32, 98, 0] 4 0 (empty_heap 16) = Some (Inr (r, h')) \<and> rs_status r \<noteq> SXS_FOUND_LIST"
proof -
  have "text_ok [40, 97, 32, 98, 0] 4" "sx_ok (empty_heap 16)" "hp_left (empty_heap 16) = 16"
    by (simp_all add: text_ok_def SSIZE_MAX_def sx_ok_def empty_heap_def)
  with sx_parse_safe [of "[40, 97, 32, 98, 0]" 4 0 "empty_heap 16"] show ?thesis
    by (auto dest: runs_result)
qed

lemma char_octets:
  "of_char CHR ''('' = (40 :: u8)" "of_char CHR '')'' = (41 :: u8)" "of_char CHR ''#'' = (35 :: u8)" "of_char CHR ''x'' = (120 :: u8)"
  "of_char CHR ''-'' = (45 :: u8)"
  by (simp_all add: of_char_def)

lemma digits_octets: "digits = [48, 49, 50, 51, 52, 53, 54, 55, 56, 57, 97, 98, 99, 100, 101, 102]"
  by (simp add: digits_def octets_def of_char_def)

lemma in_range:
  assumes "(of_nat a :: u8) \<le> c" "c \<le> of_nat b" "a < 256" "b < 256"
  shows "c \<in> set (map of_nat [a ..< Suc b])"
proof -
  have "a \<le> unat c" "unat c \<le> b"
    using assms by (simp_all add: word_le_nat_alt unat_of_nat)
  then have "unat c \<in> {a ..< Suc b}" "c = of_nat (unat c)"
    by simp_all
  then show ?thesis
    by (simp only: set_map set_upt) (rule image_eqI)
qed

lemma digit_cases: "isdigit c \<Longrightarrow> c \<in> {48, 49, 50, 51, 52, 53, 54, 55, 56, 57}"
  using in_range [of 48 c 57] by (simp add: isdigit_def upt_rec)

lemma space_cases: "isspace c \<Longrightarrow> c \<in> {32, 9, 10, 11, 12, 13}"
  using in_range [of 9 c 13] by (auto simp: isspace_def upt_rec)

lemma delimiter_cases: "nextisdelimiter c \<Longrightarrow> c \<in> {40, 41, 32, 9, 10, 11, 12, 13}"
  using space_cases [of c] by (auto simp: nextisdelimiter_def char_octets)

lemma no_symbol_start: "c \<in> set [40, 41, 35, 45, 32, 9, 10, 11, 12, 13, 48, 49, 50, 51, 52, 53, 54, 55, 56, 57] \<Longrightarrow> \<not> issyminitch c"
proof -
  have "list_all (\<lambda>c. \<not> issyminitch c) [40, 41, 35, 45, 32, 9, 10, 11, 12, 13, 48, 49, 50, 51, 52, 53, 54, 55, 56, 57]"
    by code_simp
  then show "c \<in> set [40, 41, 35, 45, 32, 9, 10, 11, 12, 13, 48, 49, 50, 51, 52, 53, 54, 55, 56, 57] \<Longrightarrow> \<not> issyminitch c"
    unfolding list_all_iff by blast
qed

lemma delimiter_ends:
  assumes "nextisdelimiter c"
  shows "\<not> issymch c" "\<not> isdigit c" "\<not> isxdigit c"
  using delimiter_cases [OF assms] no_symbol_start [of c] by (auto simp: issymch_def isxdigit_def isdigit_def char_octets)

lemma space_is_delimiter: "isspace c \<Longrightarrow> nextisdelimiter c"
  by (simp add: nextisdelimiter_def)

section \<open>Texts of expressions\<close>

text \<open>The value of a digit, and of a string of them, the most significant one first.\<close>

definition digit_value :: "u8 \<Rightarrow> nat" where
  "digit_value c = (if isdigit c then unat c - 48 else unat c - 87)"

definition number :: "nat \<Rightarrow> u8 list \<Rightarrow> nat" where
  "number base ds = foldl (\<lambda>v c. v * base + digit_value c) 0 ds"

definition lower_hex :: "u8 \<Rightarrow> bool" where
  "lower_hex c \<longleftrightarrow> isdigit c \<or> 97 \<le> c \<and> c \<le> 102"

lemma lower_hex_cases: "lower_hex c \<Longrightarrow> c \<in> {48, 49, 50, 51, 52, 53, 54, 55, 56, 57, 97, 98, 99, 100, 101, 102}"
  using in_range [of 97 c 102] digit_cases [of c] by (auto simp: lower_hex_def upt_rec)

lemma digit2int_value: "lower_hex c \<Longrightarrow> digit2int c = of_nat (digit_value c)"
  using lower_hex_cases [of c] by (auto simp: digit2int_def digits_octets digit_value_def isdigit_def)

text \<open>Capital letters are accepted as hexadecimal digits and count as zero.\<close>

lemma capital_digit: "65 \<le> c \<Longrightarrow> c \<le> 70 \<Longrightarrow> isxdigit c \<and> digit2int c = 0"
  using in_range [of 65 c 70] by (auto simp: upt_rec isxdigit_def digit2int_def digits_octets)

definition horner :: "u64 \<Rightarrow> u8 list \<Rightarrow> u64" where
  "horner base ds = foldl (\<lambda>v c. v * base + digit2int c) 0 ds"

lemma horner_snoc: "horner base (ds @ [c]) = horner base ds * base + digit2int c"
  by (simp add: horner_def)

lemma horner_number: "list_all lower_hex ds \<Longrightarrow> horner (of_nat base) ds = of_nat (number base ds)"
proof (induction ds rule: rev_induct)
  case (snoc c ds)
  then show ?case
    by (simp add: horner_snoc digit2int_value number_def)
qed (simp add: horner_def number_def)

lemma horner_prefix: "horner base (35 # 120 # ds) = horner base ds"
  by (simp add: horner_def digit2int_def digits_octets)

lemma integer_value_horner:
  assumes "i + k < length s"
  shows "integer_value s i base (i + k) newi mult = Some (newi + mult * horner base (take (Suc k) (drop i s)))"
  using assms
proof (induction k arbitrary: newi mult)
  case 0
  then have "take 1 (drop i s) = [s ! i]"
    by (simp add: take_Suc_conv_app_nth)
  with 0 show ?case
    using integer_value.simps [of s i base i newi mult] integer_value.simps [of s i base "i - 1"]
    by (cases i) (simp_all add: octet_at_def Let_def horner_def)
next
  case (Suc k)
  have t: "take (Suc (Suc k)) (drop i s) = take (Suc k) (drop i s) @ [s ! (i + Suc k)]"
    using Suc.prems by (simp add: take_Suc_conv_app_nth [of "Suc k"])
  show ?case
    using Suc by (subst integer_value.simps) (simp add: octet_at_def Let_def t horner_snoc algebra_simps)
qed

text \<open>\<open>spells t txt\<close>: the text, which may begin with blanks, is one of the expression. \<open>spells_items xs txt\<close>: the text has
  the expressions of the list one after the other, each of them followed by something that ends a word.\<close>

definition blank :: "u8 list \<Rightarrow> bool" where
  "blank ws \<longleftrightarrow> list_all isspace ws"

inductive spells :: "sx_tree \<Rightarrow> u8 list \<Rightarrow> bool" and spells_items :: "sx_tree list \<Rightarrow> u8 list \<Rightarrow> u8 list \<Rightarrow> bool" where
  symbol: "blank ws \<Longrightarrow> issyminitch c \<Longrightarrow> list_all issymch cs \<Longrightarrow> 0 \<notin> set (c # cs) \<Longrightarrow> spells (Symbol (c # cs)) (ws @ c # cs)"
| decimal: "blank ws \<Longrightarrow> ds \<noteq> [] \<Longrightarrow> list_all isdigit ds \<Longrightarrow> spells (Integer (of_nat (number 10 ds))) (ws @ ds)"
| hexadecimal: "blank ws \<Longrightarrow> ds \<noteq> [] \<Longrightarrow> list_all lower_hex ds \<Longrightarrow> spells (Integer (of_nat (number 16 ds))) (ws @ 35 # 120 # ds)"
| list: "blank ws \<Longrightarrow> blank we \<Longrightarrow> spells_items xs txt (we @ [41]) \<Longrightarrow> spells (list_of xs) (ws @ 40 # txt @ we @ [41])"
| none: "spells_items [] [] rest"
| item: "spells x tx \<Longrightarrow> x \<noteq> Empty_list \<Longrightarrow> spells_items xs txt rest \<Longrightarrow> nextisdelimiter (hd (txt @ rest)) \<Longrightarrow> txt @ rest \<noteq> [] \<Longrightarrow>
    spells_items (x # xs) (tx @ txt) rest"

section \<open>Results of runs that end\<close>

definition gives :: "('a \<Rightarrow> sx_heap \<Rightarrow> bool) \<Rightarrow> 'a sx_run \<Rightarrow> bool" where
  "gives Q r \<longleftrightarrow> (\<forall>x h. r = Some (Inr (x, h)) \<longrightarrow> Q x h)"

lemma gives_return [simp]: "gives Q (sx_return x h) \<longleftrightarrow> Q x h"
  by (simp add: gives_def sx_return_def)

lemma gives_then:
  assumes "gives Q r" "\<And>x h. Q x h \<Longrightarrow> gives R (k x h)"
  shows "gives R (sx_then r k)"
  unfolding gives_def
proof (intro allI impI)
  fix y h'
  assume "sx_then r k = Some (Inr (y, h'))"
  then obtain x h where "r = Some (Inr (x, h))" "k x h = Some (Inr (y, h'))"
    by (cases r) (auto simp: sx_then_def split: sum.splits prod.splits)
  with assms show "R y h'"
    by (auto simp: gives_def)
qed

lemma gives_mono: "gives Q r \<Longrightarrow> (\<And>x h. Q x h \<Longrightarrow> R x h) \<Longrightarrow> gives R r"
  by (auto simp: gives_def)

lemma runs_gives: "runs L N Q r \<Longrightarrow> gives Q r"
  by (auto simp: gives_def runs_def)

lemma runs_and_gives: "runs L N Q r \<Longrightarrow> gives R r \<Longrightarrow> runs L N (\<lambda>x h. Q x h \<and> R x h) r"
  by (auto simp: gives_def runs_def split: option.splits sum.splits)

definition found :: "sx_tree \<Rightarrow> nat \<Rightarrow> sx_heap \<Rightarrow> sx_parse_result \<Rightarrow> sx_heap \<Rightarrow> bool" where
  "found t q h r h' \<longleftrightarrow> rs_status r = SXS_SUCCESS \<and> rs_position r = q \<and> new_tree h h' (rs_node r) t"

lemma skip_class_exact:
  assumes "i \<le> j" "j \<le> n" "n \<le> length s" "\<And>k. i \<le> k \<Longrightarrow> k < j \<Longrightarrow> P (s ! k)" "j < n \<Longrightarrow> \<not> P (s ! j)"
  shows "skip_class P s n i = Some j"
proof -
  obtain j' where j': "skip_class P s n i = Some j'" "i \<le> j'" "j' \<le> n" "\<forall>k. i \<le> k \<longrightarrow> k < j' \<longrightarrow> P (s ! k)" "j' < n \<longrightarrow> \<not> P (s ! j')"
    using skip_class_ok [of i n s P] assms(1-3) by auto
  have "\<not> j' < j" "\<not> j < j'"
    using j'(2-5) assms by auto
  with j'(1) show ?thesis
    by simp
qed

lemma nth_between: "s = pre @ xs @ post \<Longrightarrow> length pre \<le> k \<Longrightarrow> k < length (pre @ xs) \<Longrightarrow> s ! k \<in> set xs"
  by (auto simp: nth_append)

lemma nth_after: "s = pre @ xs @ y # post \<Longrightarrow> s ! length (pre @ xs) = y"
  by (simp add: nth_append)

lemma skip_class_prefix:
  assumes "s = pre @ xs @ post" "length (pre @ xs) \<le> n" "n \<le> length s" "list_all P xs" "length (pre @ xs) < n \<Longrightarrow> \<not> P (s ! length (pre @ xs))"
  shows "skip_class P s n (length pre) = Some (length (pre @ xs))"
  by (rule skip_class_exact) (use assms nth_between [OF assms(1)] in \<open>auto simp: list_all_iff\<close>)

lemma token_gives:
  assumes "gives (\<lambda>(p, j') h'. j' = q \<and> new_tree h h' p t) r" "proper t"
  shows "gives (found t q h) (token_result broken r)"
  unfolding token_result_def
proof (rule gives_then [OF assms(1)])
  fix x h1
  assume "(case x of (p, j') \<Rightarrow> \<lambda>h'. j' = q \<and> new_tree h h' p t) h1"
  then have a: "snd x = q" "new_tree h h1 (fst x) t"
    by (auto split: prod.splits)
  then have "fst x \<noteq> None"
    using assms(2) by (cases t) (auto simp: new_tree_def)
  with a show "gives (found t q h) ((case x of (node, j) \<Rightarrow> \<lambda>h. sx_return
      (SX_PARSE_RESULT_INIT\<lparr>rs_node := node, rs_status := if node = None then broken else SXS_SUCCESS, rs_position := j\<rparr>) h) h1)"
    by (auto simp: found_def SX_PARSE_RESULT_INIT_def split: prod.splits)
qed

lemma skip_blanks:
  assumes "s = pre @ ws @ c # post" "blank ws" "\<not> isspace c" "length (pre @ ws) < n" "n \<le> length s"
  shows "skip_ws s n (length pre) = Some (length (pre @ ws))"
  using skip_class_prefix [OF assms(1), of n isspace] nth_after [OF assms(1)] assms(2-5) by (simp add: skip_ws_def blank_def)

lemma parse_symbol_gives:
  assumes s: "s = pre @ txt @ post" and q: "q = length (pre @ txt)" "q \<le> n" "text_ok s n" and e: "q < n \<Longrightarrow> nextisdelimiter (s ! q)"
    and t: "list_all issymch txt" "0 \<notin> set txt" and h: "sx_ok h"
  shows "gives (\<lambda>(p, j') h'. j' = q \<and> new_tree h h' p (Symbol txt)) (parse_symbol s n (length pre) h)"
proof -
  note l = text_ok_length [OF q(3)]
  have skip: "skip_class issymch s n (length pre) = Some q"
    unfolding q(1) by (rule skip_class_prefix [OF s]) (use q(1,2) l t(1) e delimiter_ends in auto)
  have tk: "take (length txt) (takeWhile (\<lambda>c. c \<noteq> 0) (txt @ post)) = txt"
    using t(2) by (subst takeWhile_append2) auto
  have z: "0 \<in> set (txt @ post)"
    using q s by (auto simp: text_ok_def dest: in_set_dropD)
  have len: "length (txt @ post) \<le> SSIZE_MAX" "length txt < SSIZE_MAX"
    using q l s by (auto simp: text_ok_def)
  have "gives (\<lambda>p h'. new_tree h h' p (Symbol txt)) (sx_make_symboln (drop (length pre) s) (sz_sub q (length pre)) h)"
    by (rule gives_mono [OF runs_gives [OF sx_make_symboln_ok [OF h]]]) (use s q z len tk in auto)
  then have "gives (\<lambda>(p, j') h'. j' = q \<and> new_tree h h' p (Symbol txt))
     (sx_then (sx_make_symboln (drop (length pre) s) (sz_sub q (length pre)) h) (\<lambda>rv h. sx_return (rv, minu64 q n) h))"
    by (rule gives_then) (simp add: minu64_id q(2))
  moreover have "octet_at s q = Some (s ! q)"
    using q(2) l by (simp add: octet_at_def)
  ultimately show ?thesis
    using skip e by (cases "q < n") (simp_all add: parse_symbol_def)
qed

lemma parse_integer_gives:
  assumes s: "s = pre @ mark @ ds @ post" and q: "q = length (pre @ mark @ ds)" "q \<le> n" "text_ok s n"
    and e: "q < n \<Longrightarrow> nextisdelimiter (s ! q)" "\<And>c. nextisdelimiter c \<Longrightarrow> \<not> P c"
    and t: "list_all P ds" "ds \<noteq> []" "horner base (mark @ ds) = v" and h: "sx_ok h" and off: "offset = length mark"
  shows "gives (\<lambda>(p, j') h'. j' = q \<and> new_tree h h' p (Integer v)) (parse_integer_base s n (length pre) offset P base h)"
proof -
  note l = text_ok_length [OF q(3)]
  have o: "sz_add (length pre) offset = length (pre @ mark)"
    using off q l by (simp add: text_ok_def sz_add_id SSIZE_MAX_def SIZE_MOD_def)
  have "skip_class P s n (length (pre @ mark)) = Some (length ((pre @ mark) @ ds))"
    by (rule skip_class_prefix) (use s q l t(1) e in auto)
  then have skip: "skip_class P s n (length (pre @ mark)) = Some q"
    using q(1) by simp
  let ?k = "length (mark @ ds) - 1"
  have ds: "0 < length ds"
    using t(2) by simp
  have k: "q - 1 = length pre + ?k" "Suc ?k = length (mark @ ds)" "length pre + ?k < length s"
    unfolding q(1) s length_append using ds by linarith+
  have v: "integer_value s (length pre) base (q - 1) 0 1 = Some v"
    using integer_value_horner [of "length pre" ?k s base 0 1] k t(3) s by simp
  have "gives (\<lambda>p h'. new_tree h h' p (Integer v)) (sx_make_integer v h)"
    by (rule gives_mono [OF runs_gives [OF sx_make_integer_ok [OF h]]]) simp
  then have "gives (\<lambda>(p, j') h'. j' = q \<and> new_tree h h' p (Integer v)) (sx_then (sx_make_integer v h) (\<lambda>rv h. sx_return (rv, minu64 q n) h))"
    by (rule gives_then) (simp add: minu64_id q(2))
  moreover have "octet_at s q = Some (s ! q)"
    using q(2) l by (simp add: octet_at_def)
  moreover have "sz_sub q 1 = q - 1"
    by (rule sz_sub_id) (unfold q(1) length_append, use ds in linarith)
  ultimately show ?thesis
    using skip e o v by (cases "q < n") (simp_all add: parse_integer_base_def Let_def)
qed

section \<open>Parsing texts of expressions\<close>

lemma looking_at_other:
  assumes "text_ok s n" "j < n" "s ! j \<noteq> 35"
  shows "looking_at s n j = Some (if s ! j = 40 then LOOKING_AT_PAREN_OPEN else if s ! j = 41 then LOOKING_AT_PAREN_CLOSE
     else if isdigit (s ! j) then LOOKING_AT_INT_DEC else if issyminitch (s ! j) then LOOKING_AT_SYMBOL else LOOKING_AT_UNKNOWN)"
  using assms text_ok_length [OF assms(1)] by (simp add: looking_at_def octet_at_def char_octets)

lemma looking_at_hex:
  assumes "text_ok s n" "j + 1 < n" "s ! j = 35" "s ! (j + 1) = 120" "isxdigit (s ! (j + 2))"
  shows "looking_at s n j = Some LOOKING_AT_INT_HEX"
proof -
  note l = text_ok_length [OF assms(1)]
  have "sz_add j 1 = j + 1" "sz_add j 2 = j + 2"
    using assms(1,2) l by (simp_all add: text_ok_def sz_add_id SSIZE_MAX_def SIZE_MOD_def)
  with assms l show ?thesis
    by (simp add: looking_at_def octet_at_def char_octets)
qed

lemma parse_with_token:
  assumes "gives (found t q h) (sx_parse_token s n i h)" "proper t"
  shows "gives (found t q h) (parse_with pl s n i h)"
  unfolding parse_with_def
proof (rule gives_then [OF assms(1)])
  fix r h1
  assume r: "found t q h r h1"
  then have "rs_node r \<noteq> None"
    using assms(2) by (cases t) (auto simp: found_def new_tree_def)
  with r show "gives (found t q h) (if rs_status r = SXS_FOUND_LIST then pl s n (rs_position r) h1
     else if i \<ge> n \<and> rs_node r = None then sx_return (r\<lparr>rs_status := SXS_UNEXPECTED_END\<rparr>) h1 else sx_return r h1)"
    by (simp add: found_def)
qed

lemma sx_then_return [simp]: "sx_then (sx_return x h) k = k x h"
  by (simp add: sx_then_def sx_return_def)

text \<open>A parenthesis that is open hands over to the list; one that is closed is an empty list.\<close>

lemma parse_open:
  assumes "text_ok s n" "s = pre @ ws @ 40 # post" "blank ws" "length (pre @ ws) < n"
  shows "parse_with pl s n (length pre) h = pl s n (length (pre @ ws @ [40])) h"
proof -
  note l = text_ok_length [OF assms(1)]
  have c: "s ! length (pre @ ws) = 40" "\<not> isspace 40"
    using nth_after [OF assms(2)] by (simp_all add: isspace_def)
  have "sz_add (length (pre @ ws)) 1 = length (pre @ ws @ [40])"
    using assms(1,4) l by (simp add: text_ok_def sz_add_id SSIZE_MAX_def SIZE_MOD_def)
  with c skip_blanks [OF assms(2,3) c(2) assms(4)] looking_at_other [OF assms(1,4)] assms(4) l
  show ?thesis
    by (simp add: parse_with_def sx_parse_token_def Let_def SX_PARSE_RESULT_INIT_def)
qed

lemma parse_close:
  assumes "text_ok s n" "s = pre @ ws @ 41 # post" "blank ws" "length (pre @ ws) < n" "sx_ok h"
  shows "gives (found Empty_list (length (pre @ ws @ [41])) h) (parse_with pl s n (length pre) h)"
proof (rule parse_with_token)
  note l = text_ok_length [OF assms(1)]
  have c: "s ! length (pre @ ws) = 41" "\<not> isspace 41"
    using nth_after [OF assms(2)] by (simp_all add: isspace_def)
  have "sz_add (length (pre @ ws)) 1 = length (pre @ ws @ [41])"
    using assms(1,4) l by (simp add: text_ok_def sz_add_id SSIZE_MAX_def SIZE_MOD_def)
  with c skip_blanks [OF assms(2,3) c(2) assms(4)] looking_at_other [OF assms(1,4)] assms(4) l
  have "sx_parse_token s n (length pre) h = sx_then (sx_make_empty_list h) (\<lambda>node h.
       sx_return (SX_PARSE_RESULT_INIT\<lparr>rs_node := node, rs_position := length (pre @ ws @ [41])\<rparr>) h)"
    by (simp add: sx_parse_token_def Let_def)
  moreover have "gives (found Empty_list (length (pre @ ws @ [41])) h) \<dots>"
    by (rule gives_then [OF runs_gives [OF sx_make_empty_list_ok [OF assms(5)]]]) (simp add: found_def SX_PARSE_RESULT_INIT_def)
  ultimately show "gives (found Empty_list (length (pre @ ws @ [41])) h) (sx_parse_token s n (length pre) h)"
    by simp
qed simp

lemma found_ok: "found t q h r h' \<Longrightarrow> sx_ok h'"
  by (simp add: found_def new_tree_def grown_def)

lemma parse_list_end:
  assumes "gives (found Empty_list q h) (parse_with sx_parse_list s n i h)" "i < n"
  shows "gives (found Empty_list q h) (sx_parse_list s n i h)"
proof -
  have "gives (found Empty_list q h) (sx_then (parse_with sx_parse_list s n i h) (\<lambda>carres h. result_is_empty_listp carres h \<bind>
     (\<lambda>empty. if empty \<or> result_is_error carres then sx_return carres h
        else sx_then (sx_parse_list s n (rs_position carres) h) (\<lambda>cdrres h.
          sx_then (sx_cons (rs_node carres) (rs_node cdrres) h) (\<lambda>cons h.
            sx_return (carres\<lparr>rs_node := cons, rs_position := rs_position cdrres, rs_status := rs_status cdrres\<rparr>) h)))))"
  proof (rule gives_then [OF assms(1)])
    fix r h1
    assume r: "found Empty_list q h r h1"
    have "result_is_empty_listp r h1 = Some True"
      using result_is_empty_listp_ok [of r h1 Empty_list] r by (auto simp: found_def new_tree_def)
    with r show "gives (found Empty_list q h) (result_is_empty_listp r h1 \<bind>
       (\<lambda>empty. if empty \<or> result_is_error r then sx_return r h1
        else sx_then (sx_parse_list s n (rs_position r) h1) (\<lambda>cdrres h.
          sx_then (sx_cons (rs_node r) (rs_node cdrres) h) (\<lambda>cons h.
            sx_return (r\<lparr>rs_node := cons, rs_position := rs_position cdrres, rs_status := rs_status cdrres\<rparr>) h))))"
      by simp
  qed
  with assms(2) show ?thesis
    by (subst sx_parse_list.simps) simp
qed

lemma sx_cons_new:
  assumes "new_tree h h1 p1 t1" "new_tree h1 h2 p2 t2"
  shows "gives (\<lambda>p h'. new_tree h h' p (Cons t1 t2)) (sx_cons p1 p2 h2)"
proof (rule gives_mono [OF runs_gives [OF sx_cons_ok [OF _ new_tree_kept [OF assms(1)]]]])
  have g: "grown h h1" "grown h1 h2"
    using assms by (simp_all add: new_tree_def)
  then show "sx_ok h2" "grown h1 h2"
    by (simp_all add: grown_def)
  show "holds (hp_cells h2) p2 t2 {hp_next h1..<hp_next h2}"
    using assms(2) by (simp add: new_tree_def)
  show "{hp_next h..<hp_next h1} \<inter> {hp_next h1..<hp_next h2} = {}"
    by auto
  fix p h'
  assume "grown h2 h' \<and> hp_next h' = hp_next h2 + 2 \<and>
     holds (hp_cells h') p (Cons t1 t2) ({hp_next h2, hp_next h2 + 1} \<union> {hp_next h..<hp_next h1} \<union> {hp_next h1..<hp_next h2})"
  with interval_tree [OF g, of h'] grown_trans [OF grown_trans [OF g]] show "new_tree h h' p (Cons t1 t2)"
    by (simp add: new_tree_def)
qed

lemma parse_list_item:
  assumes "gives (found x j h) (parse_with sx_parse_list s n i h)" "x \<noteq> Empty_list" "i < n"
    and rest: "\<And>h. sx_ok h \<Longrightarrow> gives (found l q h) (sx_parse_list s n j h)"
  shows "gives (found (Cons x l) q h) (sx_parse_list s n i h)"
proof -
  have "gives (found (Cons x l) q h) (sx_then (parse_with sx_parse_list s n i h) (\<lambda>carres h. result_is_empty_listp carres h \<bind>
     (\<lambda>empty. if empty \<or> result_is_error carres then sx_return carres h
        else sx_then (sx_parse_list s n (rs_position carres) h) (\<lambda>cdrres h.
          sx_then (sx_cons (rs_node carres) (rs_node cdrres) h) (\<lambda>cons h.
            sx_return (carres\<lparr>rs_node := cons, rs_position := rs_position cdrres, rs_status := rs_status cdrres\<rparr>) h)))))"
  proof (rule gives_then [OF assms(1)])
    fix r h1
    assume r: "found x j h r h1"
    have e: "result_is_empty_listp r h1 = Some False"
      using result_is_empty_listp_ok [of r h1 x] r assms(2) by (auto simp: found_def new_tree_def)
    have "gives (found (Cons x l) q h) (sx_then (sx_parse_list s n j h1) (\<lambda>cdrres h.
          sx_then (sx_cons (rs_node r) (rs_node cdrres) h) (\<lambda>cons h.
            sx_return (r\<lparr>rs_node := cons, rs_position := rs_position cdrres, rs_status := rs_status cdrres\<rparr>) h)))"
    proof (rule gives_then [OF rest [OF found_ok [OF r]]])
      fix r2 h2
      assume r2: "found l q h1 r2 h2"
      have "gives (\<lambda>p h'. new_tree h h' p (Cons x l)) (sx_cons (rs_node r) (rs_node r2) h2)"
        by (rule sx_cons_new) (use r r2 in \<open>auto simp: found_def\<close>)
      then show "gives (found (Cons x l) q h) (sx_then (sx_cons (rs_node r) (rs_node r2) h2) (\<lambda>cons h.
            sx_return (r\<lparr>rs_node := cons, rs_position := rs_position r2, rs_status := rs_status r2\<rparr>) h))"
        by (rule gives_then) (use r2 in \<open>simp add: found_def\<close>)
    qed
    with e r show "gives (found (Cons x l) q h) (result_is_empty_listp r h1 \<bind>
       (\<lambda>empty. if empty \<or> result_is_error r then sx_return r h1
        else sx_then (sx_parse_list s n (rs_position r) h1) (\<lambda>cdrres h.
          sx_then (sx_cons (rs_node r) (rs_node cdrres) h) (\<lambda>cons h.
            sx_return (r\<lparr>rs_node := cons, rs_position := rs_position cdrres, rs_status := rs_status cdrres\<rparr>) h))))"
      by (simp add: result_is_error_def found_def)
  qed
  with assms(3) show ?thesis
    by (subst sx_parse_list.simps) simp
qed

text \<open>The three kinds of words.\<close>

lemma parse_symbol_text:
  assumes t: "text_ok s n" and s: "s = pre @ (ws @ c # cs) @ post" and q: "length (pre @ ws @ c # cs) \<le> n"
    and e: "length (pre @ ws @ c # cs) < n \<Longrightarrow> nextisdelimiter (s ! length (pre @ ws @ c # cs))"
    and w: "blank ws" "issyminitch c" "list_all issymch cs" "0 \<notin> set (c # cs)" and h: "sx_ok h"
  shows "gives (found (Symbol (c # cs)) (length (pre @ ws @ c # cs)) h) (parse_with pl s n (length pre) h)"
proof (rule parse_with_token)
  note l = text_ok_length [OF t]
  let ?j = "length (pre @ ws)" and ?q = "length (pre @ ws @ c # cs)"
  have s1: "s = pre @ ws @ c # (cs @ post)" and s2: "s = (pre @ ws) @ (c # cs) @ post"
    using s by simp_all
  have c: "s ! ?j = c"
    using nth_after [OF s1] .
  have nc: "\<not> isspace c" "c \<noteq> 35" "c \<noteq> 40" "c \<noteq> 41" "\<not> isdigit c"
    using w(2) no_symbol_start [of c] space_cases [of c] digit_cases [of c] by auto
  have g: "gives (\<lambda>(p, j') h'. j' = ?q \<and> new_tree h h' p (Symbol (c # cs))) (parse_symbol s n ?j h)"
    by (rule parse_symbol_gives [OF s2 _ q t e _ _ h]) (use w in \<open>auto simp: issymch_def\<close>)
  have "sx_parse_token s n (length pre) h = token_result SXS_BROKEN_SYMBOL (parse_symbol s n ?j h)"
    using skip_blanks [OF s1 w(1) nc(1)] looking_at_other [OF t, of ?j] c nc w(2) q l
    by (simp add: sx_parse_token_def Let_def)
  then show "gives (found (Symbol (c # cs)) ?q h) (sx_parse_token s n (length pre) h)"
    using token_gives [OF g] by simp
qed simp

lemma parse_decimal_text:
  assumes t: "text_ok s n" and s: "s = pre @ (ws @ ds) @ post" and q: "length (pre @ ws @ ds) \<le> n"
    and e: "length (pre @ ws @ ds) < n \<Longrightarrow> nextisdelimiter (s ! length (pre @ ws @ ds))"
    and w: "blank ws" "ds \<noteq> []" "list_all isdigit ds" and h: "sx_ok h"
  shows "gives (found (Integer (of_nat (number 10 ds))) (length (pre @ ws @ ds)) h) (parse_with pl s n (length pre) h)"
proof (rule parse_with_token)
  note l = text_ok_length [OF t]
  let ?j = "length (pre @ ws)" and ?q = "length (pre @ ws @ ds)"
  obtain d ds' where ds: "ds = d # ds'"
    using w(2) by (cases ds) auto
  have s1: "s = pre @ ws @ d # (ds' @ post)" and s2: "s = (pre @ ws) @ [] @ ds @ post"
    using s ds by simp_all
  have c: "s ! ?j = d"
    using nth_after [OF s1] .
  have nc: "isdigit d" "\<not> isspace d" "d \<noteq> 35" "d \<noteq> 40" "d \<noteq> 41"
    using w(3) ds space_cases [of d] digit_cases [of d] by auto
  have "list_all lower_hex ds"
    using w(3) by (auto simp: list_all_iff lower_hex_def)
  then have v: "horner 10 ([] @ ds) = of_nat (number 10 ds)"
    using horner_number [of ds 10] by simp
  have g: "gives (\<lambda>(p, j') h'. j' = ?q \<and> new_tree h h' p (Integer (of_nat (number 10 ds)))) (parse_integer s n ?j h)"
    unfolding parse_integer_def
    by (rule parse_integer_gives [OF s2 _ q t e _ w(3,2) v h]) (use delimiter_ends(2) in auto)
  have "sx_parse_token s n (length pre) h = token_result SXS_BROKEN_INTEGER (parse_integer s n ?j h)"
    using skip_blanks [OF s1 w(1) nc(2)] looking_at_other [OF t, of ?j] c nc q l ds
    by (simp add: sx_parse_token_def Let_def)
  then show "gives (found (Integer (of_nat (number 10 ds))) ?q h) (sx_parse_token s n (length pre) h)"
    using token_gives [OF g] by simp
qed simp

lemma parse_hexadecimal_text:
  assumes t: "text_ok s n" and s: "s = pre @ (ws @ 35 # 120 # ds) @ post" and q: "length (pre @ ws @ 35 # 120 # ds) \<le> n"
    and e: "length (pre @ ws @ 35 # 120 # ds) < n \<Longrightarrow> nextisdelimiter (s ! length (pre @ ws @ 35 # 120 # ds))"
    and w: "blank ws" "ds \<noteq> []" "list_all lower_hex ds" and h: "sx_ok h"
  shows "gives (found (Integer (of_nat (number 16 ds))) (length (pre @ ws @ 35 # 120 # ds)) h) (parse_with pl s n (length pre) h)"
proof (rule parse_with_token)
  note l = text_ok_length [OF t]
  let ?j = "length (pre @ ws)" and ?q = "length (pre @ ws @ 35 # 120 # ds)"
  obtain d ds' where ds: "ds = d # ds'"
    using w(2) by (cases ds) auto
  have s1: "s = pre @ ws @ 35 # (120 # ds @ post)" and s2: "s = (pre @ ws) @ [35, 120] @ ds @ post"
    and s3: "s = (pre @ ws) @ [35] @ 120 # (ds @ post)" "s = (pre @ ws) @ [35, 120] @ d # (ds' @ post)"
    using s ds by simp_all
  have c: "s ! ?j = 35" "s ! (?j + 1) = 120" "s ! (?j + 2) = d"
    using nth_after [OF s1] nth_after [OF s3(1)] nth_after [OF s3(2)] by (simp_all only: length_append list.size add_Suc_right add_0_right) (simp_all add: numeral_2_eq_2)
  have x: "list_all isxdigit ds"
    using w(3) by (auto simp: list_all_iff lower_hex_def isxdigit_def)
  have v: "horner 16 ([35, 120] @ ds) = of_nat (number 16 ds)"
    using horner_number [OF w(3), of 16] horner_prefix [of 16 ds] by simp
  have g: "gives (\<lambda>(p, j') h'. j' = ?q \<and> new_tree h h' p (Integer (of_nat (number 16 ds)))) (parse_hinteger s n ?j h)"
    unfolding parse_hinteger_def
    by (rule parse_integer_gives [OF s2 _ _ t _ _ x w(2) v h]) (use q e delimiter_ends(3) in auto)
  have "looking_at s n ?j = Some LOOKING_AT_INT_HEX"
    by (rule looking_at_hex [OF t]) (use c x ds q in auto)
  then have "sx_parse_token s n (length pre) h = token_result SXS_BROKEN_INTEGER (parse_hinteger s n ?j h)"
    using skip_blanks [OF s1 w(1), of n] q l ds by (simp add: sx_parse_token_def Let_def isspace_def)
  then show "gives (found (Integer (of_nat (number 16 ds))) ?q h) (sx_parse_token s n (length pre) h)"
    using token_gives [OF g] by simp
qed simp

lemma parse_spelled:
  assumes t: "text_ok s n"
  shows "spells x txt \<Longrightarrow> (\<And>pre post h. s = pre @ txt @ post \<Longrightarrow> length (pre @ txt) \<le> n \<Longrightarrow>
       (length (pre @ txt) < n \<Longrightarrow> nextisdelimiter (s ! length (pre @ txt))) \<Longrightarrow> sx_ok h \<Longrightarrow>
       gives (found x (length (pre @ txt)) h) (parse_with sx_parse_list s n (length pre) h))"
    and "spells_items xs txt' rest \<Longrightarrow> (\<And>pre post h E q. s = pre @ txt' @ rest @ post \<Longrightarrow> length (pre @ txt' @ rest) \<le> n \<Longrightarrow> sx_ok h \<Longrightarrow>
       (\<And>h. sx_ok h \<Longrightarrow> gives (found E q h) (sx_parse_list s n (length (pre @ txt')) h)) \<Longrightarrow>
       gives (found (list_then xs E) q h) (sx_parse_list s n (length pre) h))"
proof (induction rule: spells_spells_items.inducts)
  case (symbol ws c cs)
  from parse_symbol_text [OF t symbol(5,6,7) symbol(1-4,8)] show ?case .
next
  case (decimal ws ds)
  from parse_decimal_text [OF t decimal(4,5,6) decimal(1-3,7)] show ?case .
next
  case (hexadecimal ws ds)
  from parse_hexadecimal_text [OF t hexadecimal(4,5,6) hexadecimal(1-3,7)] show ?case .
next
  case (list ws we xs items)
  let ?pre = "pre @ ws @ [40]"
  have s: "s = ?pre @ items @ (we @ [41]) @ post" "s = pre @ ws @ 40 # (items @ we @ [41] @ post)"
    using list.prems(1) by simp_all
  have n: "length (?pre @ items @ we @ [41]) \<le> n" "length (pre @ ws) < n"
    using list.prems(2) by simp_all
  have "gives (found Empty_list (length ((?pre @ items) @ we @ [41])) h) (sx_parse_list s n (length (?pre @ items)) h)" if "sx_ok h" for h
    by (rule parse_list_end [OF parse_close [OF t _ list.hyps(2) _ that]]) (use s n in auto)
  then have "gives (found (list_of xs) (length ((?pre @ items) @ we @ [41])) h) (sx_parse_list s n (length ?pre) h)"
    by (intro list.IH [OF s(1) n(1) list.prems(4)])
  then show ?case
    using parse_open [OF t s(2) list.hyps(1) n(2)] by simp
next
  case (none rest)
  then show ?case by simp
next
  case (item x tx xs items rest)
  have s: "s = pre @ tx @ (items @ rest @ post)" "s = (pre @ tx) @ items @ rest @ post"
    using item.prems(1) by simp_all
  have n: "length (pre @ tx) < n" "length ((pre @ tx) @ items @ rest) \<le> n"
    using item.prems(2) item.hyps by (cases "items @ rest"; simp)+
  obtain d ds where ds: "items @ rest = d # ds"
    using item.hyps by (cases "items @ rest") auto
  have "s = pre @ tx @ d # (ds @ post)"
    using s(1) ds by (metis append.assoc append_Cons)
  from nth_after [OF this] have "s ! length (pre @ tx) = hd (items @ rest)"
    unfolding ds by simp
  then have "gives (found x (length (pre @ tx)) h) (parse_with sx_parse_list s n (length pre) h)"
    by (intro item.IH(1) [OF s(1)]) (use n item.hyps item.prems(3) in auto)
  moreover have "gives (found (list_then xs E) q h) (sx_parse_list s n (length (pre @ tx)) h)" if "sx_ok h" for h
    by (rule item.IH(2) [OF s(2) n(2) that]) (use item.prems(4) in auto)
  ultimately show ?case
    unfolding list_then_simps by (intro parse_list_item) (use item.hyps n in auto)
qed

lemma sx_parse_found:
  assumes "gives (found x q h) (parse_with sx_parse_list s n i h)"
  shows "gives (found x q h) (sx_parse s n i h)"
  unfolding sx_parse_def sx_parse_rec_def
  by (rule gives_then [OF assms]) (simp add: found_def result_is_error_def)

lemma sx_parse_runs:
  assumes "text_ok s n" "i \<le> n" "sx_ok h" "gives (found x q h) (sx_parse s n i h)"
  shows "runs (hp_left h) (4 * (n - i)) (found x q h) (sx_parse s n i h)"
proof -
  have "runs (hp_left h) (4 * (n - i)) (expression_outcome n i h) (sx_parse_rec s n i h)"
    unfolding sx_parse_rec_def by (rule parse_with_ok [OF assms(1-3)]) (rule sx_parse_list_ok [OF assms(1) _ assms(3)])
  then have "runs (hp_left h) (4 * (n - i)) (\<lambda>r h'. True) (sx_parse s n i h)"
    unfolding sx_parse_def
  proof (rule runs_then)
    fix r h1
    assume "expression_outcome n i h r h1"
    then obtain t where "holds (hp_cells h1) (rs_node r) t {hp_next h..<hp_next h1}"
      by (auto simp: expression_outcome_def new_tree_def)
    from sx_destroy_ok [OF this] show "runs (hp_left h) (4 * (n - i)) (\<lambda>r h'. True)
       (if result_is_error r then sx_destroy (rs_node r) h1 \<bind> (\<lambda>(node, h). sx_return (r\<lparr>rs_node := node\<rparr>) h) else sx_return r h1)"
      by simp
  qed
  from runs_and_gives [OF this assms(4)] show ?thesis
    by (rule runs_mono) simp_all
qed

section \<open>Properties: what texts mean\<close>

text \<open>C13. Every text of an expression is parsed as that expression. Where a text spells a symbol, an integer in decimal or,
  after \<open>#x\<close>, in lower case hexadecimal digits, or a list of expressions other than the empty list, with any blanks in front and
  between, and ends the whole text or is followed by a delimiter, the parser returns success, the position behind it and
  new cells that are exactly this expression; integers are taken modulo \<open>2 ^ 64\<close>.\<close>

theorem sx_parse_text:
  assumes "spells x txt" and "s = pre @ txt @ post" and "text_ok s n" and "length (pre @ txt) \<le> n"
    and "length (pre @ txt) < n \<Longrightarrow> nextisdelimiter (s ! length (pre @ txt))" and "sx_ok h"
  shows "runs (hp_left h) (4 * (n - length pre)) (found x (length (pre @ txt)) h) (sx_parse s n (length pre) h)"
  by (rule sx_parse_runs [OF assms(3) _ assms(6) sx_parse_found [OF parse_spelled(1) [OF assms(3,1,2,4,5,6)]]]) (use assms(4) in auto)

text \<open>C34. An empty list ends the list it is in. After any expressions of a list, a pair of parentheses with nothing but blanks
  inside is taken for the end of the list around it: the parser reports success, returns the list of the expressions so
  far and the position behind the pair, and does not look at the rest of the list.\<close>

theorem sx_empty_list_ends_list:
  assumes "spells_items xs items (we @ 40 # wi @ [41])" and "blank ws" and "blank we" and "blank wi"
    and "s = pre @ (ws @ 40 # items @ we @ 40 # wi @ [41]) @ post" and "text_ok s n"
    and "length (pre @ ws @ 40 # items @ we @ 40 # wi @ [41]) \<le> n" and "sx_ok h"
  shows "runs (hp_left h) (4 * (n - length pre)) (found (list_of xs) (length (pre @ ws @ 40 # items @ we @ 40 # wi @ [41])) h)
     (sx_parse s n (length pre) h)"
proof (rule sx_parse_runs [OF assms(6) _ assms(8) sx_parse_found])
  let ?pre = "pre @ ws @ [40]" and ?q = "length (pre @ ws @ 40 # items @ we @ 40 # wi @ [41])"
  have s: "s = ?pre @ items @ (we @ 40 # wi @ [41]) @ post" "s = pre @ ws @ 40 # (items @ we @ 40 # wi @ 41 # post)"
    "s = (?pre @ items) @ we @ 40 # (wi @ 41 # post)" "s = (?pre @ items @ we @ [40]) @ wi @ 41 # post"
    using assms(5) by simp_all
  have n: "length (?pre @ items @ we @ 40 # wi @ [41]) \<le> n" "length (pre @ ws) < n" "length ((?pre @ items) @ we) < n"
     "length ((?pre @ items @ we @ [40]) @ wi) < n"
    using assms(7) by simp_all
  have "gives (found Empty_list ?q h) (sx_parse_list s n (length (?pre @ items)) h)" if "sx_ok h" for h
  proof (rule parse_list_end)
    have "gives (found Empty_list ?q h) (sx_parse_list s n (length (?pre @ items @ we @ [40])) h)"
      using parse_list_end [OF parse_close [OF assms(6) s(4) assms(4) n(4) that]] n(4) by simp
    then show "gives (found Empty_list ?q h) (parse_with sx_parse_list s n (length (?pre @ items)) h)"
      using parse_open [OF assms(6) s(3) assms(3) n(3)] by simp
  qed (use n in simp)
  then have "gives (found (list_of xs) ?q h) (sx_parse_list s n (length ?pre) h)"
    by (intro parse_spelled(2) [OF assms(6,1) s(1) n(1) assms(8)])
  then show "gives (found (list_of xs) ?q h) (parse_with sx_parse_list s n (length pre) h)"
    using parse_open [OF assms(6) s(2) assms(2) n(2)] by simp
qed (use assms(7) in simp)

text \<open>The text \<open>(a 12)\<close>.\<close>

lemma char_a: "issyminitch 97"
  by code_simp

lemma example_items: "spells_items [Symbol [97]] [97] (32 # w)"
  using spells_spells_items.item [OF spells_spells_items.symbol [of "[]" 97 "[]"] _ spells_spells_items.none, of "32 # w"] char_a
  by (simp add: blank_def nextisdelimiter_def isspace_def)

theorem sx_parse_text_witness:
  "\<exists>r h'. sx_parse [40, 97, 32, 49, 50, 41, 0] 6 0 (empty_heap 24) = Some (Inr (r, h')) \<and>
     found (list_of [Symbol [97], Integer 12]) 6 (empty_heap 24) r h'"
proof -
  have d: "spells (Integer 12) ([32] @ [49, 50])"
    using spells_spells_items.decimal [of "[32]" "[49, 50]"]
    by (simp add: blank_def isspace_def isdigit_def number_def digit_value_def)
  have "spells_items [Integer 12] (([32] @ [49, 50]) @ []) [41]"
    by (rule spells_spells_items.item [OF d _ spells_spells_items.none]) (simp_all add: nextisdelimiter_def char_octets)
  then have "spells_items [Symbol [97], Integer 12] ([97] @ [32, 49, 50]) [41]"
    using spells_spells_items.item [OF spells_spells_items.symbol [of "[]" 97 "[]"], of "[Integer 12]" "[32, 49, 50]" "[41]"] char_a
    by (simp add: blank_def nextisdelimiter_def isspace_def)
  then have s: "spells (list_of [Symbol [97], Integer 12]) [40, 97, 32, 49, 50, 41]"
    using spells_spells_items.list [of "[]" "[]" "[Symbol [97], Integer 12]" "[97, 32, 49, 50]"] by (simp add: blank_def)
  have "runs (hp_left (empty_heap 24)) (4 * (6 - length ([] :: u8 list))) (found (list_of [Symbol [97], Integer 12]) (length ([] @ [40, 97, 32, 49, 50, 41 :: u8])) (empty_heap 24))
     (sx_parse [40, 97, 32, 49, 50, 41, 0] 6 (length ([] :: u8 list)) (empty_heap 24))"
    by (rule sx_parse_text [OF s, where post = "[0]"]) (simp_all add: text_ok_def SSIZE_MAX_def sx_ok_def empty_heap_def)
  from runs_result [OF this] show ?thesis
    by (simp add: empty_heap_def eval_nat_numeral)
qed

text \<open>The text \<open>(a ())\<close>.\<close>

theorem sx_empty_list_ends_list_witness:
  "\<exists>r h'. sx_parse [40, 97, 32, 40, 41, 41, 0] 6 0 (empty_heap 24) = Some (Inr (r, h')) \<and> found (list_of [Symbol [97]]) 5 (empty_heap 24) r h'"
proof -
  have i: "spells_items [Symbol [97]] [97] ([32] @ 40 # [] @ [41])"
    using example_items by simp
  have "runs (hp_left (empty_heap 24)) (4 * (6 - length ([] :: u8 list)))
     (found (list_of [Symbol [97]]) (length ([] @ [] @ 40 # [97] @ [32] @ 40 # [] @ [41 :: u8])) (empty_heap 24))
     (sx_parse [40, 97, 32, 40, 41, 41, 0] 6 (length ([] :: u8 list)) (empty_heap 24))"
    by (rule sx_empty_list_ends_list [OF i, where ws = "[]" and post = "[41, 0]"])
      (simp_all add: blank_def isspace_def text_ok_def SSIZE_MAX_def sx_ok_def empty_heap_def)
  from runs_result [OF this] show ?thesis
    by (simp add: empty_heap_def eval_nat_numeral)
qed

text \<open>A symbol at the end of a text that no zero follows is copied with reads behind the memory of the text.\<close>

lemma sx_symbol_over_read: "sx_parse [97] 1 0 (empty_heap 4) = None"
proof -
  have "skip_ws [97] 1 0 = Some 0"
    by (simp add: skip_ws_def isspace_def octet_at_def skip_class.simps)
  moreover have "looking_at [97] 1 0 = Some LOOKING_AT_SYMBOL"
    using char_a by (simp add: looking_at_def octet_at_def char_octets isdigit_def sz_add_def SIZE_MOD_def)
  moreover have "strlcpy [0, 0] [97] (Suc (Suc 0)) = None" "sz_add (Suc 0) (Suc 0) = Suc (Suc 0)"
    by (simp_all add: strlcpy_def octet_at_def mem_write_def behind_string.simps sz_add_def SIZE_MOD_def)
  moreover have "skip_class issymch [97] 1 0 = Some 1"
    using char_a by (simp add: skip_class.simps octet_at_def issymch_def)
  ultimately show ?thesis
    using char_a
    by (simp add: sx_parse_def sx_parse_rec_def parse_with_def sx_parse_token_def token_result_def Let_def parse_symbol_def
        sx_make_symboln_def make_node_def empty_heap_def sx_alloc_def access_defs sx_then_def sx_return_def)
qed

end
