(* ===== verification/Zephyr_Text.thy ===== *)
theory Zephyr_Text
  imports Text_Formats S_Expressions
begin

text \<open>
  The text drivers for the Zephyr kernel, which print what a bus driver would transmit: \<^verbatim>\<open>src/z/driver-i2c-text.c\<close>,
  without its debug output, and \<^verbatim>\<open>src/z/driver-spi-text.c\<close>. The kernel's \<open>printk\<close> is the printing function \<open>print\<close>,
  which gets the text that a format and its arguments stand for; the flag that marks a message as a read is the
  parameter \<open>msg_read\<close>. Pointers to sets of buffers are the arrays they point into.
\<close>

section \<open>I2C\<close>

definition escape :: string where "escape = CHR 0x1B # ''[0m''"

record i2c_msg =
  im_buf :: "u8 list"
  im_len :: nat
  im_flags :: u8

definition ufw_i2c_text_init :: "('s \<Rightarrow> string \<Rightarrow> 's) \<Rightarrow> string \<Rightarrow> 's \<Rightarrow> int \<times> 's" where
  "ufw_i2c_text_init print name s = (0, print s (''i2c-text: Initialising '' @ name @ ''...'' @ [CHR 0x0A]))"

definition ufw_i2c_text_configure :: "('s \<Rightarrow> string \<Rightarrow> 's) \<Rightarrow> string \<Rightarrow> u32 \<Rightarrow> 's \<Rightarrow> int \<times> 's" where
  "ufw_i2c_text_configure print name dev_config s = (0, print s (''i2c-text: Configuring '' @ name @ ''...'' @ [CHR 0x0A]))"

fun i2c_octets :: "('s \<Rightarrow> string \<Rightarrow> 's) \<Rightarrow> u8 list \<Rightarrow> nat list \<Rightarrow> 's \<Rightarrow> 's option" where
  "i2c_octets print data [] s = Some s"
| "i2c_octets print data (j # js) s =
     (if j < length data then i2c_octets print data js (print s ('' #x'' @ fmt_x 2 (unat (data ! j)))) else None)"

fun i2c_messages :: "('s \<Rightarrow> string \<Rightarrow> 's) \<Rightarrow> u8 \<Rightarrow> i2c_msg list \<Rightarrow> u16 \<Rightarrow> nat list \<Rightarrow> 's \<Rightarrow> 's option" where
  "i2c_messages print msg_read msgs addr [] s = Some s"
| "i2c_messages print msg_read msgs addr (i # is) s =
     (if i < length msgs
      then let type' = (if im_flags (msgs ! i) AND msg_read \<noteq> 0 then ''read'' else ''write'');
               s = print s (escape @ ''i2c-text: '' @ ''(i2c-'' @ type' @ '' #x'' @ fmt_x 4 (unat addr))
           in do {
             s \<leftarrow> i2c_octets print (im_buf (msgs ! i)) [0 ..< im_len (msgs ! i)] s;
             i2c_messages print msg_read msgs addr is (print s ('')'' @ [CHR 0x0A]))
           }
      else None)"

definition ufw_i2c_text_transfer ::
    "('s \<Rightarrow> string \<Rightarrow> 's) \<Rightarrow> u8 \<Rightarrow> i2c_msg list \<Rightarrow> u8 \<Rightarrow> u16 \<Rightarrow> 's \<Rightarrow> (int \<times> 's) option" where
  "ufw_i2c_text_transfer print msg_read msgs num_msgs addr s = do {
     s \<leftarrow> i2c_messages print msg_read msgs addr [0 ..< unat num_msgs] s;
     Some (0, s)
   }"

text \<open>What a message looks like; the octets of a message to be read are the ones that happen to be in its buffer.\<close>

definition i2c_line :: "u8 \<Rightarrow> u16 \<Rightarrow> i2c_msg \<Rightarrow> string" where
  "i2c_line msg_read addr msg = escape @ ''i2c-text: (i2c-'' @ (if im_flags msg AND msg_read \<noteq> 0 then ''read'' else ''write'') @
     '' #x'' @ fmt_x 4 (unat addr) @ concat (map (\<lambda>x. '' #x'' @ fmt_x 2 (unat x)) (take (im_len msg) (im_buf msg))) @ '')'' @ [CHR 0x0A]"

section \<open>SPI\<close>

record ufw_spi_text_pdata =
  sp_fallback :: u64
  sp_rxring :: sx_ptr

record spi_buf =
  sb_buf :: "u8 list"
  sb_len :: nat

record spi_buf_set =
  sbs_buffers :: "spi_buf list"
  sbs_count :: nat

definition ufw_spi_text_init :: "('s \<Rightarrow> string \<Rightarrow> 's) \<Rightarrow> string \<Rightarrow> 's \<Rightarrow> int \<times> 's" where
  "ufw_spi_text_init print name s = (0, print s (''spi-text: Initialising '' @ name @ ''...'' @ [CHR 0x0A]))"

text \<open>The data is always that of the first buffer of the set; with a driver, it is overwritten with a running number.\<close>

fun spi_octets ::
    "('s \<Rightarrow> string \<Rightarrow> 's) \<Rightarrow> nat list \<Rightarrow> u8 list \<times> ufw_spi_text_pdata option \<times> 's \<Rightarrow> (u8 list \<times> ufw_spi_text_pdata option \<times> 's) option" where
  "spi_octets print [] st = Some st"
| "spi_octets print (k # ks) (data, driver, s) =
     (if k < length data
      then let (data, driver) = (case driver of None \<Rightarrow> (data, None)
             | Some d \<Rightarrow> (data[k := ucast (sp_fallback d AND 255)], Some (d\<lparr>sp_fallback := sp_fallback d + 1\<rparr>)))
           in spi_octets print ks (data, driver, print s (CHR '' '' # fmt_u (unat (data ! k))))
      else None)"

fun spi_buffers ::
    "('s \<Rightarrow> string \<Rightarrow> 's) \<Rightarrow> string \<Rightarrow> nat list \<Rightarrow> spi_buf list \<times> ufw_spi_text_pdata option \<times> 's \<Rightarrow>
       (spi_buf list \<times> ufw_spi_text_pdata option \<times> 's) option" where
  "spi_buffers print symbol [] st = Some st"
| "spi_buffers print symbol (j # js) (bufs, driver, s) =
     (let s = print s (escape @ ''spi-text: '' @ ''('' @ symbol) in
      if 0 < length bufs \<and> j < length bufs
      then do {
        (data, driver, s) \<leftarrow> spi_octets print [0 ..< sb_len (bufs ! j)] (sb_buf (bufs ! 0), driver, s);
        spi_buffers print symbol js (bufs[0 := (bufs ! 0)\<lparr>sb_buf := data\<rparr>], driver, print s ('')'' @ [CHR 0x0A]))
      }
      else None)"

definition ufw_spi_text_io ::
    "('s \<Rightarrow> string \<Rightarrow> 's) \<Rightarrow> ufw_spi_text_pdata option \<Rightarrow> string \<Rightarrow> spi_buf_set \<Rightarrow> 's \<Rightarrow> (spi_buf_set \<times> ufw_spi_text_pdata option \<times> 's) option" where
  "ufw_spi_text_io print driver symbol sbs s = do {
     (bufs, driver, s) \<leftarrow> spi_buffers print symbol [0 ..< sbs_count sbs] (sbs_buffers sbs, driver, s);
     Some (sbs\<lparr>sbs_buffers := bufs\<rparr>, driver, s)
   }"

text \<open>The number of buffers of the first set is taken for the number of sets.\<close>

fun spi_sets ::
    "('s \<Rightarrow> string \<Rightarrow> 's) \<Rightarrow> nat \<Rightarrow> nat \<Rightarrow> nat list \<Rightarrow> spi_buf_set list \<times> spi_buf_set list \<times> ufw_spi_text_pdata \<times> 's \<Rightarrow>
       (spi_buf_set list \<times> spi_buf_set list \<times> ufw_spi_text_pdata \<times> 's) option" where
  "spi_sets print tx rx [] st = Some st"
| "spi_sets print tx rx (i # is) (txs, rxs, data, s) = do {
     (txs, s) \<leftarrow> (if i < tx then
         if i < length txs then do {
           (set', _, s) \<leftarrow> ufw_spi_text_io print None ''spi-tx'' (txs ! i) s;
           Some (txs[i := set'], s) }
         else None
       else Some (txs, s));
     (rxs, data, s) \<leftarrow> (if i < rx then
         if i < length rxs then do {
           (set', d, s) \<leftarrow> ufw_spi_text_io print (Some data) ''spi-rx'' (rxs ! i) s;
           Some (rxs[i := set'], (case d of None \<Rightarrow> data | Some d \<Rightarrow> d), s) }
         else None
       else Some (rxs, data, s));
     spi_sets print tx rx is (txs, rxs, data, s)
   }"

definition ufw_spi_text_transceive ::
    "('s \<Rightarrow> string \<Rightarrow> 's) \<Rightarrow> spi_buf_set list \<Rightarrow> spi_buf_set list \<Rightarrow> ufw_spi_text_pdata \<Rightarrow> 's \<Rightarrow>
       (int \<times> spi_buf_set list \<times> spi_buf_set list \<times> ufw_spi_text_pdata \<times> 's) option" where
  "ufw_spi_text_transceive print tx_bufs rx_bufs data s =
     (if tx_bufs = [] \<or> rx_bufs = [] then None
      else let tx = sbs_count (hd tx_bufs); rx = sbs_count (hd rx_bufs); n = (if tx > rx then tx else rx) in do {
        r \<leftarrow> spi_sets print tx rx [0 ..< n] (tx_bufs, rx_bufs, data, s);
        Some (0, r)
      })"

definition ufw_spi_text_transceive_async :: int where "ufw_spi_text_transceive_async = - ENOTSUP"
definition ufw_spi_text_release :: int where "ufw_spi_text_release = - ENOTSUP"

definition ufw_spi_text_loadrx :: "ufw_spi_text_pdata \<Rightarrow> sx_ptr \<Rightarrow> sx_heap \<Rightarrow> (ufw_spi_text_pdata \<times> sx_heap) option" where
  "ufw_spi_text_loadrx data node h =
     (if sp_rxring data = None then Some (data\<lparr>sp_rxring := node\<rparr>, h)
      else do { (ring, h) \<leftarrow> sx_append (sp_rxring data) node h; Some (data\<lparr>sp_rxring := ring\<rparr>, h) })"

section \<open>What is printed\<close>

context printer
begin

lemma i2c_octets_shown:
  "b + k \<le> length data \<Longrightarrow> \<exists>s'. i2c_octets print data [b ..< b + k] s = Some s' \<and>
     shown s' = shown s @ concat (map (\<lambda>x. '' #x'' @ fmt_x 2 (unat x)) (take k (drop b data)))"
proof (induction k arbitrary: b s)
  case (Suc k)
  have "take (Suc k) (drop b data) = data ! b # take k (drop (Suc b) data)" "[b ..< b + Suc k] = b # [Suc b ..< Suc b + k]"
    using Suc.prems by (simp_all add: Cons_nth_drop_Suc [symmetric] upt_conv_Cons del: upt_Suc)
  with Suc.IH [of "Suc b" "print s ('' #x'' @ fmt_x 2 (unat (data ! b)))"] Suc.prems show ?case
    by (auto simp: appends)
qed simp

lemma i2c_messages_shown:
  "b + k \<le> length msgs \<Longrightarrow> (\<And>m. m \<in> set msgs \<Longrightarrow> im_len m \<le> length (im_buf m)) \<Longrightarrow>
     \<exists>s'. i2c_messages print msg_read msgs addr [b ..< b + k] s = Some s' \<and>
       shown s' = shown s @ concat (map (i2c_line msg_read addr) (take k (drop b msgs)))"
proof (induction k arbitrary: b s)
  case (Suc k)
  have split: "take (Suc k) (drop b msgs) = msgs ! b # take k (drop (Suc b) msgs)" "[b ..< b + Suc k] = b # [Suc b ..< Suc b + k]"
    using Suc.prems(1) by (simp_all add: Cons_nth_drop_Suc [symmetric] upt_conv_Cons del: upt_Suc)
  let ?m = "msgs ! b"
  let ?s = "print s (escape @ ''i2c-text: '' @ ''(i2c-'' @ (if im_flags ?m AND msg_read \<noteq> 0 then ''read'' else ''write'') @ '' #x'' @ fmt_x 4 (unat addr))"
  have "0 + im_len ?m \<le> length (im_buf ?m)"
    using Suc.prems by simp
  from i2c_octets_shown [OF this, of ?s] obtain s1 where s1: "i2c_octets print (im_buf ?m) [0 ..< im_len ?m] ?s = Some s1"
    "shown s1 = shown ?s @ concat (map (\<lambda>x. '' #x'' @ fmt_x 2 (unat x)) (take (im_len ?m) (im_buf ?m)))"
    by auto
  obtain s2 where s2: "i2c_messages print msg_read msgs addr [Suc b ..< Suc b + k] (print s1 ('')'' @ [CHR 0x0A])) = Some s2"
    "shown s2 = shown (print s1 ('')'' @ [CHR 0x0A])) @ concat (map (i2c_line msg_read addr) (take k (drop (Suc b) msgs)))"
    using Suc.IH [of "Suc b" "print s1 ('')'' @ [CHR 0x0A])"] Suc.prems by auto
  have "shown s2 = shown s @ concat (map (i2c_line msg_read addr) (?m # take k (drop (Suc b) msgs)))"
    using s2(2) s1(2) by (simp add: appends i2c_line_def)
  then show ?case
    unfolding split using s1(1) s2(1) Suc.prems(1) by (simp add: Let_def)
qed simp

end

lemma i2c_transfer_shown:
  assumes "\<And>s t. shown (print s t) = shown s @ t" "unat num_msgs \<le> length msgs" "\<And>m. m \<in> set msgs \<Longrightarrow> im_len m \<le> length (im_buf m)"
  shows "\<exists>s'. ufw_i2c_text_transfer print msg_read msgs num_msgs addr s = Some (0, s') \<and>
     shown s' = shown s @ concat (map (i2c_line msg_read addr) (take (unat num_msgs) msgs))"
proof -
  have "printer print shown"
    using assms(1) by unfold_locales
  from printer.i2c_messages_shown [OF this, of 0 "unat num_msgs" msgs msg_read addr s] assms(2,3) show ?thesis
    by (auto simp: ufw_i2c_text_transfer_def)
qed

text \<open>A transfer whose one set of buffers has more than one buffer leaves the array of sets.\<close>

lemma spi_sets_outside:
  "i \<in> set is \<Longrightarrow> length txs \<le> i \<Longrightarrow> i < tx \<Longrightarrow> spi_sets print tx rx is (txs, rxs, data, s) = None"
proof (induction "is" arbitrary: txs rxs data s)
  case (Cons j js)
  show ?case
  proof (cases "i = j")
    case False
    then have "spi_sets print tx rx js (txs', rxs', data', s') = None" if "length txs' = length txs" for txs' rxs' data' s'
      using Cons that by simp
    then show ?thesis
      by (auto simp: Option.bind_eq_None_conv split_beta split: if_splits Option.bind_splits)
  qed (use Cons.prems in auto)
qed simp

lemma spi_more_buffers_undefined:
  assumes "1 < sbs_count tx"
  shows "ufw_spi_text_transceive print [tx] [rx] data s = None"
proof -
  define n where "n = (if sbs_count tx > sbs_count rx then sbs_count tx else sbs_count rx)"
  have "1 \<in> set [0 ..< n]"
    using assms by (simp add: n_def)
  then have "spi_sets print (sbs_count tx) (sbs_count rx) [0 ..< n] ([tx], [rx], data, s) = None"
    using assms by (intro spi_sets_outside) simp_all
  then show ?thesis
    by (simp add: ufw_spi_text_transceive_def n_def Let_def)
qed

text \<open>With one buffer to transmit and one to receive, the transmitted octets are printed, and what is received is a running
  number.\<close>

lemma spi_one_buffer:
  "ufw_spi_text_transceive (@) [\<lparr>sbs_buffers = [\<lparr>sb_buf = [7, 9], sb_len = 2\<rparr>], sbs_count = 1\<rparr>]
     [\<lparr>sbs_buffers = [\<lparr>sb_buf = [0, 0], sb_len = 2\<rparr>], sbs_count = 1\<rparr>] \<lparr>sp_fallback = 255, sp_rxring = None\<rparr> [] =
   Some (0, [\<lparr>sbs_buffers = [\<lparr>sb_buf = [7, 9], sb_len = 2\<rparr>], sbs_count = 1\<rparr>],
     [\<lparr>sbs_buffers = [\<lparr>sb_buf = [255, 0], sb_len = 2\<rparr>], sbs_count = 1\<rparr>], \<lparr>sp_fallback = 257, sp_rxring = None\<rparr>,
     escape @ ''spi-text: (spi-tx 7 9)'' @ [CHR 0x0A] @ escape @ ''spi-text: (spi-rx 255 0)'' @ [CHR 0x0A])"
  by (simp add: ufw_spi_text_transceive_def ufw_spi_text_io_def fmt_u_def number_text_def digits.simps digit_names_def upt_rec)

text \<open>The octets of a second buffer are not looked at: those of the first are printed again.\<close>

lemma spi_second_buffer:
  "ufw_spi_text_io (@) None ''spi-tx'' \<lparr>sbs_buffers = [\<lparr>sb_buf = [7], sb_len = 1\<rparr>, \<lparr>sb_buf = [9], sb_len = 1\<rparr>], sbs_count = 2\<rparr> [] =
   Some (\<lparr>sbs_buffers = [\<lparr>sb_buf = [7], sb_len = 1\<rparr>, \<lparr>sb_buf = [9], sb_len = 1\<rparr>], sbs_count = 2\<rparr>, None,
     escape @ ''spi-text: (spi-tx 7)'' @ [CHR 0x0A] @ escape @ ''spi-text: (spi-tx 7)'' @ [CHR 0x0A])"
  by (simp add: ufw_spi_text_io_def fmt_u_def number_text_def digits.simps digit_names_def upt_rec)

end
