(* ===== verification/Hexdump.thy ===== *)
theory Hexdump
  imports Text_Formats
begin

text \<open>
  The memory dumper of \<^verbatim>\<open>src/hexdump.c\<close>. A call of \<open>cfg->printf\<close> is a function of the driver's state and of the text that
  the format and its arguments stand for; what is printed with \<open>printf\<close> itself is the second component of the state.
  Whether the C library has \<open>isprint\<close> is the parameter \<open>have_isprint\<close>. The lemmas show the layout of a dump, and that
  the dumped memory can be read off it.
\<close>

section \<open>The dumper\<close>

record 's hexdump_cfg =
  hd_printf :: "('s \<Rightarrow> string \<Rightarrow> 's) option"
  per_line_prefix :: "string option"
  octets_per_line :: nat
  octets_per_chunk :: nat

type_synonym 's printed = "'s \<times> string"

definition isprint :: "u8 \<Rightarrow> bool" where
  "isprint x \<longleftrightarrow> 32 \<le> unat x \<and> unat x < 127"

definition octet_char :: "u8 \<Rightarrow> char" where
  "octet_char x = char_of (unat x)"

definition to_driver :: "('s \<Rightarrow> string \<Rightarrow> 's) \<Rightarrow> string \<Rightarrow> 's printed \<Rightarrow> 's printed" where
  "to_driver print s out = (print (fst out) s, snd out)"

definition to_stdout :: "string \<Rightarrow> 's printed \<Rightarrow> 's printed" where
  "to_stdout s out = (fst out, snd out @ s)"

fun ascii_loop :: "('s \<Rightarrow> string \<Rightarrow> 's) \<Rightarrow> u8 list \<Rightarrow> nat list \<Rightarrow> 's printed \<Rightarrow> 's printed option" where
  "ascii_loop print data [] out = Some out"
| "ascii_loop print data (i # is) out =
     (if i < length data
      then ascii_loop print data is (to_driver print [if isprint (data ! i) then octet_char (data ! i) else CHR ''.''] out)
      else None)"

definition hexdump_ascii ::
    "bool \<Rightarrow> ('s \<Rightarrow> string \<Rightarrow> 's) \<Rightarrow> u8 list \<Rightarrow> nat \<Rightarrow> nat \<Rightarrow> 's printed \<Rightarrow> 's printed option" where
  "hexdump_ascii have_isprint print data bol n out =
     (if have_isprint
      then do {
        out \<leftarrow> ascii_loop print data [bol ..< bol + n] (to_driver print ''  |'' out);
        Some (to_driver print [CHR ''|'', CHR 0x0A] out)
      }
      else Some (to_driver print [CHR 0x0A] out))"

definition line_prefix :: "string option \<Rightarrow> 's printed \<Rightarrow> 's printed" where
  "line_prefix prefix out = (case prefix of None \<Rightarrow> out | Some s \<Rightarrow> to_stdout s out)"

text \<open>The body of the loop, in two parts; the offset is printed as a 32 bit number.\<close>

definition begin_line ::
    "bool \<Rightarrow> 's hexdump_cfg \<Rightarrow> ('s \<Rightarrow> string \<Rightarrow> 's) \<Rightarrow> u8 list \<Rightarrow> nat \<Rightarrow> nat \<Rightarrow> nat \<times> 's printed \<Rightarrow> (nat \<times> 's printed) option" where
  "begin_line have_isprint cfg print data doffset i st =
     (if i mod octets_per_line cfg = 0
      then do {
        out \<leftarrow> (if i > 0 then do {
            out \<leftarrow> hexdump_ascii have_isprint print data (fst st) (i - fst st) (snd st);
            Some (line_prefix (per_line_prefix cfg) out)
          } else Some (snd st));
        Some (i, to_driver print (fmt_x 8 (sz_add (i mod 2 ^ 32) doffset mod 2 ^ 32) @ '' '') out)
      }
      else Some st)"

definition put_octet ::
    "'s hexdump_cfg \<Rightarrow> ('s \<Rightarrow> string \<Rightarrow> 's) \<Rightarrow> u8 list \<Rightarrow> nat \<Rightarrow> nat \<Rightarrow> nat \<Rightarrow> 's printed \<Rightarrow> 's printed option" where
  "put_octet cfg print data n i bol out = (
     let out = (if i > bol \<and> (i - bol) mod octets_per_chunk cfg = 0 then to_driver print '' '' out else out) in
     if i \<ge> n then Some (to_driver print ''   '' out)
     else if i < length data then Some (to_driver print (CHR '' '' # fmt_x 2 (unat (data ! i))) out)
     else None)"

definition dump_octet ::
    "bool \<Rightarrow> 's hexdump_cfg \<Rightarrow> ('s \<Rightarrow> string \<Rightarrow> 's) \<Rightarrow> u8 list \<Rightarrow> nat \<Rightarrow> nat \<Rightarrow> nat \<Rightarrow> nat \<times> 's printed \<Rightarrow> (nat \<times> 's printed) option" where
  "dump_octet have_isprint cfg print data n doffset i st = do {
     (bol, out) \<leftarrow> begin_line have_isprint cfg print data doffset i st;
     out \<leftarrow> put_octet cfg print data n i bol out;
     Some (bol, out)
   }"

fun dump_loop ::
    "bool \<Rightarrow> 's hexdump_cfg \<Rightarrow> ('s \<Rightarrow> string \<Rightarrow> 's) \<Rightarrow> u8 list \<Rightarrow> nat \<Rightarrow> nat \<Rightarrow> nat list \<Rightarrow> nat \<times> 's printed \<Rightarrow> (nat \<times> 's printed) option" where
  "dump_loop have_isprint cfg print data n doffset [] st = Some st"
| "dump_loop have_isprint cfg print data n doffset (i # is) st =
     do { st \<leftarrow> dump_octet have_isprint cfg print data n doffset i st; dump_loop have_isprint cfg print data n doffset is st }"

definition hexdump :: "bool \<Rightarrow> 's hexdump_cfg \<Rightarrow> u8 list \<Rightarrow> nat \<Rightarrow> nat \<Rightarrow> 's printed \<Rightarrow> (int \<times> 's printed) option" where
  "hexdump have_isprint cfg mem n doffset out = (case hd_printf cfg of
       None \<Rightarrow> Some (- EINVAL, out)
     | Some print \<Rightarrow>
         if octets_per_line cfg < octets_per_chunk cfg then Some (- EINVAL, out)
         else if octets_per_line cfg = 0 \<or> octets_per_chunk cfg = 0 then Some (- EINVAL, out)
         else let lastn = n mod octets_per_line cfg;
                  pad = (if lastn > 0 then octets_per_line cfg - lastn else 0)
              in do {
                (bol, out) \<leftarrow> dump_loop have_isprint cfg print mem n doffset [0 ..< sz_add n pad]
                  (0, line_prefix (per_line_prefix cfg) out);
                out \<leftarrow> hexdump_ascii have_isprint print mem bol (n - bol) out;
                Some (0, out)
              })"

definition HEXDUMP_DEFAULT_OCTETS_PER_LINE :: nat where "HEXDUMP_DEFAULT_OCTETS_PER_LINE = 16"
definition HEXDUMP_DEFAULT_OCTETS_PER_CHUNK :: nat where "HEXDUMP_DEFAULT_OCTETS_PER_CHUNK = 8"

text \<open>Both standard streams; which one a call writes to is chosen by its driver.\<close>

datatype stream = Stdout | Stderr

record streams =
  st_stdout :: string
  st_stderr :: string

definition hd_vfprintf :: "stream \<Rightarrow> streams \<Rightarrow> string \<Rightarrow> streams" where
  "hd_vfprintf driver s t = (case driver of
     Stdout \<Rightarrow> s\<lparr>st_stdout := st_stdout s @ t\<rparr> | Stderr \<Rightarrow> s\<lparr>st_stderr := st_stderr s @ t\<rparr>)"

definition default_cfg :: "stream \<Rightarrow> streams hexdump_cfg" where
  "default_cfg driver = \<lparr>hd_printf = Some (hd_vfprintf driver), per_line_prefix = None,
     octets_per_line = HEXDUMP_DEFAULT_OCTETS_PER_LINE, octets_per_chunk = HEXDUMP_DEFAULT_OCTETS_PER_CHUNK\<rparr>"

definition hexdump_stdout :: "bool \<Rightarrow> u8 list \<Rightarrow> nat \<Rightarrow> nat \<Rightarrow> streams printed \<Rightarrow> (int \<times> streams printed) option" where
  "hexdump_stdout have_isprint mem n doffset out = hexdump have_isprint (default_cfg Stdout) mem n doffset out"

definition hexdump_stderr :: "bool \<Rightarrow> u8 list \<Rightarrow> nat \<Rightarrow> nat \<Rightarrow> streams printed \<Rightarrow> (int \<times> streams printed) option" where
  "hexdump_stderr have_isprint mem n doffset out = hexdump have_isprint (default_cfg Stderr) mem n doffset out"

section \<open>The layout of a dump\<close>

text \<open>One line: the offset, the cells of the octets, blank where there is none, and the octets as characters.\<close>

definition cell :: "nat \<Rightarrow> u8 list \<Rightarrow> nat \<Rightarrow> string" where
  "cell chunk xs j = (if 0 < j \<and> j mod chunk = 0 then '' '' else []) @
     (if j < length xs then CHR '' '' # fmt_x 2 (unat (xs ! j)) else ''   '')"

definition line_head :: "nat \<Rightarrow> nat \<Rightarrow> nat \<Rightarrow> u8 list \<Rightarrow> string" where
  "line_head line chunk offset xs = fmt_x 8 (offset mod 2 ^ 32) @ '' '' @ concat (map (cell chunk xs) [0 ..< line])"

definition line_tail :: "bool \<Rightarrow> u8 list \<Rightarrow> string" where
  "line_tail have_isprint xs =
     (if have_isprint then ''  |'' @ map (\<lambda>x. if isprint x then octet_char x else CHR ''.'') xs @ [CHR ''|'', CHR 0x0A]
      else [CHR 0x0A])"

definition slice :: "nat \<Rightarrow> u8 list \<Rightarrow> nat \<Rightarrow> u8 list" where
  "slice line xs l = take line (drop (line * l) xs)"

definition line_count :: "nat \<Rightarrow> nat \<Rightarrow> nat" where
  "line_count line n = n div line + (if n mod line = 0 then 0 else 1)"

definition layout :: "bool \<Rightarrow> nat \<Rightarrow> nat \<Rightarrow> nat \<Rightarrow> u8 list \<Rightarrow> string" where
  "layout have_isprint line chunk doffset xs =
     (if xs = [] then line_tail have_isprint []
      else concat (map (\<lambda>l. line_head line chunk (line * l + doffset) (slice line xs l) @ line_tail have_isprint (slice line xs l))
             [0 ..< line_count line (length xs)]))"

context printer
begin

definition prints :: "'s printed \<Rightarrow> string \<Rightarrow> string \<Rightarrow> 's printed \<Rightarrow> bool" where
  "prints out t p out' \<longleftrightarrow> shown (fst out') = shown (fst out) @ t \<and> snd out' = snd out @ p"

lemma prints_driver [intro]: "prints out t [] (to_driver print t out)"
  by (simp add: prints_def to_driver_def appends)

lemma prints_stdout [intro]: "prints out [] t (to_stdout t out)"
  by (simp add: prints_def to_stdout_def)

lemma prints_trans: "prints out t p out' \<Longrightarrow> prints out' t' p' out'' \<Longrightarrow> prints out (t @ t') (p @ p') out''"
  by (simp add: prints_def)

lemma prints_nothing [simp]: "prints out [] [] out"
  by (simp add: prints_def)

lemma ascii_loop_prints:
  "b + k \<le> length data \<Longrightarrow> \<exists>out'. ascii_loop print data [b ..< b + k] out = Some out' \<and>
     prints out (map (\<lambda>x. if isprint x then octet_char x else CHR ''.'') (take k (drop b data))) [] out'"
proof (induction k arbitrary: b out)
  case (Suc k)
  let ?c = "if isprint (data ! b) then octet_char (data ! b) else CHR ''.''"
  from Suc.IH [of "Suc b" "to_driver print [?c] out"] Suc.prems obtain out' where
    r: "ascii_loop print data [Suc b ..< Suc b + k] (to_driver print [?c] out) = Some out'"
      "prints (to_driver print [?c] out) (map (\<lambda>x. if isprint x then octet_char x else CHR ''.'') (take k (drop (Suc b) data))) [] out'"
    by auto
  have "take (Suc k) (drop b data) = data ! b # take k (drop (Suc b) data)"
    using Suc.prems by (simp add: Cons_nth_drop_Suc [symmetric])
  moreover have "[b ..< b + Suc k] = b # [Suc b ..< Suc b + k]"
    by (simp add: upt_rec)
  ultimately show ?case
    using prints_trans [OF prints_driver r(2)] r(1) Suc.prems by simp
qed simp

lemma ascii_prints:
  assumes "bol + k \<le> length data"
  shows "\<exists>out'. hexdump_ascii h print data bol k out = Some out' \<and> prints out (line_tail h (take k (drop bol data))) [] out'"
proof (cases h)
  case True
  obtain out' where r: "ascii_loop print data [bol ..< bol + k] (to_driver print ''  |'' out) = Some out'"
    "prints (to_driver print ''  |'' out) (map (\<lambda>x. if isprint x then octet_char x else CHR ''.'') (take k (drop bol data))) [] out'"
    using ascii_loop_prints [OF assms] by blast
  with True prints_trans [OF prints_trans [OF prints_driver r(2)] prints_driver] show ?thesis
    by (simp add: hexdump_ascii_def line_tail_def)
next
  case False
  then show ?thesis
    by (simp add: hexdump_ascii_def line_tail_def prints_driver)
qed

lemma prefix_prints: "prints out [] (case prefix of None \<Rightarrow> [] | Some s \<Rightarrow> s) (line_prefix prefix out)"
  by (cases prefix) (auto simp: line_prefix_def)

end

lemma dump_loop_append:
  "dump_loop h cfg print data n d (is @ js) st = Option.bind (dump_loop h cfg print data n d is st) (dump_loop h cfg print data n d js)"
  by (induction "is" arbitrary: st) (simp_all split: Option.bind_split)

lemma slice_cell:
  assumes "n \<le> length data" "j < line"
  shows "j < length (slice line (take n data) l) \<longleftrightarrow> line * l + j < n"
    "line * l + j < n \<Longrightarrow> slice line (take n data) l ! j = data ! (line * l + j)"
  using assms by (auto simp: slice_def)

context printer
begin

lemma cell_prints:
  assumes "n \<le> length data" "j < line" "xs = slice line (take n data) l" "chunk = octets_per_chunk cfg"
  shows "\<exists>out'. put_octet cfg print data n (line * l + j) (line * l) out = Some out' \<and> prints out (cell chunk xs j) [] out'"
proof -
  let ?s = "if 0 < j \<and> j mod chunk = 0 then '' '' else []"
  let ?out = "if 0 < j \<and> j mod chunk = 0 then to_driver print '' '' out else out"
  have space: "prints out ?s [] ?out"
    by (simp add: prints_driver)
  show ?thesis
    using prints_trans [OF space prints_driver, of "''   ''"] prints_trans [OF space prints_driver, of "CHR '' '' # fmt_x 2 (unat (data ! (line * l + j)))"]
      slice_cell [OF assms(1,2)] assms
    by (cases "line * l + j < n") (simp_all add: cell_def put_octet_def Let_def)
qed

lemma cells_print:
  assumes "n \<le> length data" "xs = slice line (take n data) l" "line = octets_per_line cfg" "chunk = octets_per_chunk cfg"
  shows "0 < j \<Longrightarrow> j + m \<le> line \<Longrightarrow>
     \<exists>out'. dump_loop h cfg print data n d [line * l + j ..< line * l + j + m] (line * l, out) = Some (line * l, out') \<and>
       prints out (concat (map (cell chunk xs) [j ..< j + m])) [] out'"
proof (induction m arbitrary: j out)
  case (Suc m)
  have "(line * l + j) mod line \<noteq> 0"
    using Suc.prems by simp
  then obtain out1 where one: "dump_octet h cfg print data n d (line * l + j) (line * l, out) = Some (line * l, out1)"
    "prints out (cell chunk xs j) [] out1"
    using cell_prints [OF assms(1) _ assms(2,4), of j out] Suc.prems assms(3) by (auto simp: dump_octet_def begin_line_def)
  obtain out' where rest: "dump_loop h cfg print data n d [line * l + Suc j ..< line * l + Suc j + m] (line * l, out1) = Some (line * l, out')"
    "prints out1 (concat (map (cell chunk xs) [Suc j ..< Suc j + m])) [] out'"
    using Suc.IH [of "Suc j" out1] Suc.prems by auto
  have "[line * l + j ..< line * l + j + Suc m] = (line * l + j) # [line * l + Suc j ..< line * l + Suc j + m]"
    "[j ..< j + Suc m] = j # [Suc j ..< Suc j + m]"
    by (simp_all add: upt_rec)
  with one(1) rest(1) prints_trans [OF one(2) rest(2)] show ?case
    by simp
qed simp

text \<open>The passes of the loop over one line: they end the line before and begin this one.\<close>

lemma line_prints:
  assumes "n \<le> length data" "line = octets_per_line cfg" "chunk = octets_per_chunk cfg" "0 < line" "line * l < n"
    and "0 < l \<Longrightarrow> bol = line * (l - 1)" and "p = (case per_line_prefix cfg of None \<Rightarrow> [] | Some s \<Rightarrow> s)"
  shows "\<exists>out'. dump_loop h cfg print data n d [line * l ..< line * Suc l] (bol, out) = Some (line * l, out') \<and>
     prints out ((if l = 0 then [] else line_tail h (slice line (take n data) (l - 1))) @
       line_head line chunk (line * l + d) (slice line (take n data) l)) (if l = 0 then [] else p) out'"
proof -
  let ?xs = "slice line (take n data) l" and ?t = "if l = 0 then [] else line_tail h (slice line (take n data) (l - 1))"
  have offset: "sz_add (line * l mod 2 ^ 32) d mod 2 ^ 32 = (line * l + d) mod 2 ^ 32"
    by (simp add: sz_add_def SIZE_MOD_def mod_mod_cancel mod_add_left_eq)
  have "\<exists>out1. begin_line h cfg print data d (line * l) (bol, out) =
      Some (line * l, to_driver print (fmt_x 8 ((line * l + d) mod 2 ^ 32) @ '' '') out1) \<and> prints out ?t (if l = 0 then [] else p) out1"
  proof (cases l)
    case (Suc k)
    then have bol: "bol = line * k" "line * l - bol = line"
      using assms(6) by simp_all
    have "take line (drop bol data) = slice line (take n data) k"
      using assms(1,5) bol Suc by (simp add: slice_def drop_take take_take min_def)
    moreover obtain out1 where "hexdump_ascii h print data bol line out = Some out1" "prints out (line_tail h (take line (drop bol data))) [] out1"
      using ascii_prints [of bol line data h out] assms(1,5) bol Suc by auto
    ultimately show ?thesis
      using prints_trans [OF _ prefix_prints] assms(2,4,7) bol Suc offset by (fastforce simp: begin_line_def)
  next
    case 0
    then show ?thesis
      using assms(2) offset by (intro exI [of _ out]) (simp add: begin_line_def)
  qed
  then obtain out1 where before: "begin_line h cfg print data d (line * l) (bol, out) =
      Some (line * l, to_driver print (fmt_x 8 ((line * l + d) mod 2 ^ 32) @ '' '') out1)" "prints out ?t (if l = 0 then [] else p) out1"
    by blast
  let ?o = "to_driver print (fmt_x 8 ((line * l + d) mod 2 ^ 32) @ '' '') out1"
  obtain out2 where first: "dump_octet h cfg print data n d (line * l) (bol, out) = Some (line * l, out2)"
    "prints ?o (cell chunk ?xs 0) [] out2"
    using cell_prints [OF assms(1,4) refl assms(3), of l ?o] before(1) by (auto simp: dump_octet_def)
  obtain out' where rest: "dump_loop h cfg print data n d [line * l + 1 ..< line * l + 1 + (line - 1)] (line * l, out2) = Some (line * l, out')"
    "prints out2 (concat (map (cell chunk ?xs) [1 ..< 1 + (line - 1)])) [] out'"
    using cells_print [OF assms(1) refl assms(2,3), of 1 "line - 1" h d l out2] assms(4) by auto
  have split: "[line * l ..< line * Suc l] = line * l # [line * l + 1 ..< line * l + 1 + (line - 1)]" "[0 ..< line] = 0 # [1 ..< 1 + (line - 1)]"
    using assms(4) upt_conv_Cons [of "line * l" "line * Suc l"] upt_conv_Cons [of 0 line] by (simp_all add: add.commute)
  have run: "dump_loop h cfg print data n d [line * l ..< line * Suc l] (bol, out) = Some (line * l, out')"
    unfolding split(1) dump_loop.simps first(1) by (simp only: Option.bind.simps rest(1))
  have head: "line_head line chunk (line * l + d) ?xs = (fmt_x 8 ((line * l + d) mod 2 ^ 32) @ '' '') @ cell chunk ?xs 0 @
      concat (map (cell chunk ?xs) [1 ..< 1 + (line - 1)])"
    unfolding line_head_def split(2) by simp
  show ?thesis
    using prints_trans [OF before(2) prints_trans [OF prints_driver prints_trans [OF first(2) rest(2)]]]
    by (intro exI [of _ out'] conjI run) (simp only: head append_Nil append_Nil2)
qed

lemma lines_print:
  assumes "n \<le> length data" "line = octets_per_line cfg" "chunk = octets_per_chunk cfg" "0 < line"
    and "p = (case per_line_prefix cfg of None \<Rightarrow> [] | Some s \<Rightarrow> s)" and "xs = take n data"
    and "whole = (\<lambda>l. line_head line chunk (line * l + d) (slice line xs l) @ line_tail h (slice line xs l))"
  shows "line * l < n \<Longrightarrow>
     \<exists>out'. dump_loop h cfg print data n d [0 ..< line * Suc l] (0, out) = Some (line * l, out') \<and>
       prints out (concat (map whole [0 ..< l]) @ line_head line chunk (line * l + d) (slice line xs l)) (concat (replicate l p)) out'"
proof (induction l)
  case 0
  then show ?case
    using line_prints [OF assms(1-4), of 0 0 p h d out] assms(5,6) by simp
next
  case (Suc l)
  have "line * l < n"
    using Suc.prems by simp
  then obtain out1 where before: "dump_loop h cfg print data n d [0 ..< line * Suc l] (0, out) = Some (line * l, out1)"
    "prints out (concat (map whole [0 ..< l]) @ line_head line chunk (line * l + d) (slice line xs l)) (concat (replicate l p)) out1"
    using Suc.IH by blast
  obtain out' where that_line: "dump_loop h cfg print data n d [line * Suc l ..< line * Suc (Suc l)] (line * l, out1) = Some (line * Suc l, out')"
    "prints out1 (line_tail h (slice line xs l) @ line_head line chunk (line * Suc l + d) (slice line xs (Suc l))) p out'"
    using line_prints [OF assms(1-4) Suc.prems _ assms(5), of "line * l" h d out1] assms(6) by auto
  have split: "[0 ..< line * Suc (Suc l)] = [0 ..< line * Suc l] @ [line * Suc l ..< line * Suc (Suc l)]"
    using upt_add_eq_append [of 0 "line * Suc l" line] by (simp add: add.commute add.left_commute)
  have "concat (replicate (Suc l) p) = concat (replicate l p) @ p"
    by (simp add: replicate_append_same [symmetric])
  with before(1) that_line(1) prints_trans [OF before(2) that_line(2)] show ?case
    unfolding split dump_loop_append by (simp add: assms(7))
qed

lemma padded_lines:
  assumes "0 < line" "0 < n" "n + line < SIZE_MOD"
  shows "sz_add n (if n mod line > 0 then line - n mod line else 0) = line * line_count line n \<and>
     0 < line_count line n \<and> line * (line_count line n - 1) < n \<and> n \<le> line * line_count line n"
proof -
  have n: "line * (n div line) + n mod line = n" "n mod line < line"
    using assms(1) by simp_all
  show ?thesis
  proof (cases "n mod line = 0")
    case True
    then have "0 < n div line"
      using n assms(2) by (cases "n div line") auto
    with True n assms show ?thesis
      by (simp add: line_count_def sz_add_def diff_mult_distrib2)
  next
    case False
    have "n + (line - n mod line) = n - n mod line + line"
      using n by simp
    then have "n + (line - n mod line) = line * (n div line + 1)" "n + (line - n mod line) < SIZE_MOD"
      using n False assms by (simp_all add: minus_mod_eq_mult_div)
    moreover have "line * (n div line) < n" "n \<le> line * (n div line + 1)"
      using False less_imp_le [OF dividend_less_times_div [OF assms(1), of n]] n(1)
      by (linarith, simp add: distrib_left)
    ultimately show ?thesis
      using False by (simp add: line_count_def sz_add_def)
  qed
qed

lemma hexdump_prints:
  assumes "hd_printf cfg = Some print" "n \<le> length data" "line = octets_per_line cfg" "chunk = octets_per_chunk cfg"
    and "0 < chunk" "chunk \<le> line" "n + line < SIZE_MOD" and "p = (case per_line_prefix cfg of None \<Rightarrow> [] | Some s \<Rightarrow> s)"
  shows "\<exists>out'. hexdump h cfg data n d out = Some (0, out') \<and>
     prints out (layout h line chunk d (take n data)) (concat (replicate (max 1 (line_count line n)) p)) out'"
proof (cases "n = 0")
  case True
  obtain out' where "hexdump_ascii h print data 0 0 (line_prefix (per_line_prefix cfg) out) = Some out'"
    "prints (line_prefix (per_line_prefix cfg) out) (line_tail h []) [] out'"
    using ascii_prints [of 0 0 data h] by fastforce
  with True assms prints_trans [OF prefix_prints this(2)] show ?thesis
    by (simp add: hexdump_def sz_add_def layout_def line_count_def)
next
  case False
  let ?L = "line_count line n" and ?xs = "take n data" and ?out = "line_prefix (per_line_prefix cfg) out"
  define whole where "whole = (\<lambda>l. line_head line chunk (line * l + d) (slice line ?xs l) @ line_tail h (slice line ?xs l))"
  have "0 < line"
    using assms(5,6) by simp
  note L = padded_lines [OF this False [THEN bot_nat_0.not_eq_extremum [THEN iffD1]] assms(7)]
  then obtain l where l: "?L = Suc l" "line * l < n" "n \<le> line * Suc l"
    by (cases ?L) auto
  obtain out1 where loop: "dump_loop h cfg print data n d [0 ..< line * Suc l] (0, ?out) = Some (line * l, out1)"
    "prints ?out (concat (map whole [0 ..< l]) @ line_head line chunk (line * l + d) (slice line ?xs l)) (concat (replicate l p)) out1"
    using lines_print [OF assms(2,3,4) \<open>0 < line\<close> assms(8) refl whole_def l(2)] by blast
  have "take (n - line * l) (drop (line * l) data) = slice line ?xs l"
    using l(3) assms(2) by (simp add: slice_def drop_take)
  then obtain out' where tail: "hexdump_ascii h print data (line * l) (n - line * l) out1 = Some out'"
    "prints out1 (line_tail h (slice line ?xs l)) [] out'"
    using ascii_prints [of "line * l" "n - line * l" data h out1] l(2) assms(2) by auto
  have lay: "layout h line chunk d ?xs = (concat (map whole [0 ..< l]) @ line_head line chunk (line * l + d) (slice line ?xs l)) @
      line_tail h (slice line ?xs l)"
    using False assms(2) l(1) by (auto simp: layout_def whole_def min_def)
  have pre: "concat (replicate (max 1 ?L) p) = p @ concat (replicate l p)"
    using l(1) by simp
  have pad: "sz_add n (if n mod octets_per_line cfg > 0 then octets_per_line cfg - n mod octets_per_line cfg else 0) = line * Suc l"
    using L l(1) unfolding assms(3) by simp
  have "\<not> octets_per_line cfg < octets_per_chunk cfg" "\<not> (octets_per_line cfg = 0 \<or> octets_per_chunk cfg = 0)"
    using assms(3-6) by auto
  then have run: "hexdump h cfg data n d out = Some (0, out')"
    unfolding hexdump_def assms(1) Let_def option.case pad by (simp only: if_False loop(1) tail(1) Option.bind.simps split)
  show ?thesis
    using run prints_trans [OF prints_trans [OF prefix_prints loop(2)] tail(2)]
    unfolding lay pre unfolding assms(8) by simp
qed

end

section \<open>Reading the memory off a dump\<close>

definition line_width :: "bool \<Rightarrow> nat \<Rightarrow> nat \<Rightarrow> nat" where
  "line_width have_isprint line chunk = 9 + 3 * line + (line - 1) div chunk + (if have_isprint then line + 5 else 1)"

definition octet_column :: "bool \<Rightarrow> nat \<Rightarrow> nat \<Rightarrow> nat \<Rightarrow> nat" where
  "octet_column have_isprint line chunk i =
     i div line * line_width have_isprint line chunk + 10 + 3 * (i mod line) + i mod line div chunk"

lemma fmt_x_lengths: "length (fmt_x 2 (unat (x :: u8))) = 2" "m < 2 ^ 32 \<Longrightarrow> length (fmt_x 8 m) = 8"
proof -
  have "unat x < 256"
    using unsigned_less [of x] by simp
  then show "length (fmt_x 2 (unat x)) = 2" "m < 2 ^ 32 \<Longrightarrow> length (fmt_x 8 m) = 8"
    using length_padded [of 16 2 "unat x"] length_padded [of 16 8 m] by (simp_all add: fmt_x_def)
qed

lemma cells_length:
  assumes "0 < chunk"
  shows "length (concat (map (cell chunk xs) [0 ..< j])) = 3 * j + (j - 1) div chunk"
proof (induction j)
  case (Suc j)
  have "j div chunk = (j - 1) div chunk + (if 0 < j \<and> j mod chunk = 0 then 1 else 0)"
    using assms div_Suc [of "j - 1" chunk] by (cases j) simp_all
  then have "length (cell chunk xs j) + (j - 1) div chunk = 3 + j div chunk"
    by (simp add: cell_def fmt_x_lengths)
  with Suc show ?case
    by simp
qed simp

lemma drop_parts: "length a = n \<Longrightarrow> drop (n + k) (a @ b) = drop k b"
  by auto

lemma cell_column:
  assumes "0 < chunk" "j < length xs" "j < m"
  shows "take 2 (drop (3 * j + j div chunk + 1) (concat (map (cell chunk xs) [0 ..< m]))) = fmt_x 2 (unat (xs ! j))"
proof -
  let ?a = "concat (map (cell chunk xs) [0 ..< j])" and ?b = "concat (map (cell chunk xs) [Suc j ..< m])"
  define s where "s = (if 0 < j \<and> j mod chunk = 0 then '' '' else [])"
  have "j div chunk = (j - 1) div chunk + length s"
    using assms(1) div_Suc [of "j - 1" chunk] by (cases j) (simp_all add: s_def)
  then have col: "3 * j + j div chunk + 1 = (3 * j + (j - 1) div chunk) + (length s + 1)"
    by simp
  have "[0 ..< m] = [0 ..< j] @ j # [Suc j ..< m]"
    using assms(3) upt_add_eq_append [of 0 j "m - j"] upt_conv_Cons [of j m] by simp
  then have cells: "concat (map (cell chunk xs) [0 ..< m]) = ?a @ s @ '' '' @ fmt_x 2 (unat (xs ! j)) @ ?b"
    using assms(2) by (simp add: cell_def s_def)
  show ?thesis
    unfolding col cells drop_parts [OF cells_length [OF assms(1)]] drop_parts [OF refl]
    using fmt_x_lengths(1) [of "xs ! j"] by simp
qed

lemma line_lengths:
  assumes "0 < chunk"
  shows "length (line_head line chunk offset xs) = 9 + 3 * line + (line - 1) div chunk"
    "length (line_tail h xs) = (if h then length xs + 5 else 1)"
  using assms by (simp_all add: line_head_def line_tail_def cells_length fmt_x_lengths)

lemma lines_length:
  assumes "0 < chunk" "line * k \<le> length xs"
  shows "length (concat (map (\<lambda>l. line_head line chunk (line * l + d) (slice line xs l) @ line_tail h (slice line xs l)) [0 ..< k])) =
     k * line_width h line chunk"
  using assms(2)
proof (induction k)
  case (Suc k)
  then have "length (slice line xs k) = line"
    by (simp add: slice_def)
  with Suc assms(1) show ?case
    by (simp add: line_lengths line_width_def)
qed simp

lemma layout_column:
  assumes "0 < chunk" "0 < line" "i < length xs"
  shows "take 2 (drop (octet_column h line chunk i) (layout h line chunk d xs)) = fmt_x 2 (unat (xs ! i))"
proof -
  define whole where "whole = (\<lambda>l. line_head line chunk (line * l + d) (slice line xs l) @ line_tail h (slice line xs l))"
  let ?k = "i div line" and ?j = "i mod line" and ?L = "line_count line (length xs)"
  have i: "line * ?k + ?j = i" "?j < line"
    using assms(2) by simp_all
  have "i < line * ?L"
    using assms(2,3) dividend_less_times_div [OF assms(2), of "length xs"]
    by (cases "length xs mod line = 0") (auto simp: line_count_def distrib_left elim!: dvdE)
  then have k: "?k < ?L"
    using assms(2) by (simp add: less_mult_imp_div_less mult.commute)
  let ?b = "concat (map whole [Suc ?k ..< ?L])"
  have "[0 ..< ?L] = [0 ..< ?k] @ ?k # [Suc ?k ..< ?L]"
    using k upt_add_eq_append [of 0 ?k "?L - ?k"] upt_conv_Cons [of ?k ?L] by simp
  moreover have "xs \<noteq> []"
    using assms(3) by auto
  ultimately have lay: "layout h line chunk d xs = concat (map whole [0 ..< ?k]) @ whole ?k @ ?b"
    by (simp add: layout_def whole_def)
  have "line * ?k \<le> length xs"
    using i assms(3) by linarith
  then have before: "length (concat (map whole [0 ..< ?k])) = ?k * line_width h line chunk"
    unfolding whole_def by (rule lines_length [OF assms(1)])
  let ?c = "concat (map (cell chunk (slice line xs ?k)) [0 ..< line])"
  obtain rest where line: "whole ?k @ ?b = (fmt_x 8 ((line * ?k + d) mod 2 ^ 32) @ '' '') @ ?c @ rest"
    by (simp add: whole_def line_head_def)
  have pos: "octet_column h line chunk i = ?k * line_width h line chunk + (9 + (3 * ?j + ?j div chunk + 1))"
    by (simp add: octet_column_def)
  have "length (fmt_x 8 ((line * ?k + d) mod 2 ^ 32) @ '' '') = 9"
    by (simp add: fmt_x_lengths)
  then have there: "drop (octet_column h line chunk i) (layout h line chunk d xs) = drop (3 * ?j + ?j div chunk + 1) (?c @ rest)"
    unfolding pos lay drop_parts [OF before] line by (rule drop_parts)
  have j: "?j < length (slice line xs ?k)" "slice line xs ?k ! ?j = xs ! i"
  proof -
    have in_slice: "?j < length xs - line * ?k"
      unfolding less_diff_conv add.commute [of ?j] i(1) by (rule assms(3))
    have "drop (line * ?k) xs ! ?j = xs ! (line * ?k + ?j)"
      by (rule nth_drop) (use i assms(3) \<open>line * ?k \<le> length xs\<close> in simp)
    also have "\<dots> = xs ! i"
      unfolding i(1) ..
    finally show "?j < length (slice line xs ?k)" "slice line xs ?k ! ?j = xs ! i"
      using in_slice i(2) by (simp_all add: slice_def)
  qed
  have cells: "take 2 (drop (3 * ?j + ?j div chunk + 1) ?c) = fmt_x 2 (unat (xs ! i))"
    using cell_column [OF assms(1) j(1) i(2)] j(2) by simp
  then have "2 \<le> length (drop (3 * ?j + ?j div chunk + 1) ?c)"
    using fmt_x_lengths(1) [of "xs ! i"] by (metis length_take min.cobounded1)
  then have "take 2 (drop (3 * ?j + ?j div chunk + 1) (?c @ rest)) = take 2 (drop (3 * ?j + ?j div chunk + 1) ?c)"
    by simp
  with there cells show ?thesis
    by simp
qed

interpretation to_stdout_stream: printer "hd_vfprintf Stdout" st_stdout
  by unfold_locales (simp add: hd_vfprintf_def)

interpretation to_stderr_stream: printer "hd_vfprintf Stderr" st_stderr
  by unfold_locales (simp add: hd_vfprintf_def)

lemma default_cfg_fields:
  "hd_printf (default_cfg driver) = Some (hd_vfprintf driver)" "per_line_prefix (default_cfg driver) = None"
  "octets_per_line (default_cfg driver) = 16" "octets_per_chunk (default_cfg driver) = 8"
  by (simp_all add: default_cfg_def HEXDUMP_DEFAULT_OCTETS_PER_LINE_def HEXDUMP_DEFAULT_OCTETS_PER_CHUNK_def)

lemma hexdump_stdout_prints:
  assumes "n \<le> length data" "n + 16 < SIZE_MOD"
  shows "\<exists>s'. hexdump_stdout h data n d (s, out) = Some (0, (s', out)) \<and> st_stdout s' = st_stdout s @ layout h 16 8 d (take n data)"
proof -
  obtain out' where "hexdump h (default_cfg Stdout) data n d (s, out) = Some (0, out')"
    "to_stdout_stream.prints (s, out) (layout h 16 8 d (take n data)) (concat (replicate (max 1 (line_count 16 n)) [])) out'"
    using to_stdout_stream.hexdump_prints [of "default_cfg Stdout" n data 16 8 "[]" h d "(s, out)"] assms default_cfg_fields [of Stdout] by auto
  then show ?thesis
    by (cases out') (simp add: hexdump_stdout_def to_stdout_stream.prints_def)
qed

lemma hexdump_stderr_prints:
  assumes "n \<le> length data" "n + 16 < SIZE_MOD"
  shows "\<exists>s'. hexdump_stderr h data n d (s, out) = Some (0, (s', out)) \<and> st_stderr s' = st_stderr s @ layout h 16 8 d (take n data)"
proof -
  obtain out' where "hexdump h (default_cfg Stderr) data n d (s, out) = Some (0, out')"
    "to_stderr_stream.prints (s, out) (layout h 16 8 d (take n data)) (concat (replicate (max 1 (line_count 16 n)) [])) out'"
    using to_stderr_stream.hexdump_prints [of "default_cfg Stderr" n data 16 8 "[]" h d "(s, out)"] assms default_cfg_fields [of Stderr] by auto
  then show ?thesis
    by (cases out') (simp add: hexdump_stderr_def to_stderr_stream.prints_def)
qed

section \<open>Properties\<close>

text \<open>A configuration without a printing function, with an empty line or chunk, or with chunks longer than lines is
  refused, and nothing is printed.\<close>

lemma hexdump_refuses:
  assumes "hd_printf cfg = None \<or> octets_per_line cfg < octets_per_chunk cfg \<or> octets_per_line cfg = 0 \<or> octets_per_chunk cfg = 0"
  shows "hexdump h cfg data n d out = Some (- EINVAL, out)"
  using assms by (auto simp: hexdump_def split: option.split)

text \<open>C35. What a dump shows. With a printing function that appends the text it is given, dumping \<open>n\<close> octets of memory
  prints exactly the documented layout: a line for every group of octets, with its offset as eight hexadecimal digits,
  two hexadecimal digits for every octet, an extra space between chunks, blanks for the octets that the last line does
  not have, and the printable characters. The two digits in the column of an octet read as this octet, so the memory
  can be read off the dump. The prefix of the lines goes to the standard output, once for every line and before it,
  and not to the function that prints the rest.\<close>

theorem hexdump_shows_memory:
  assumes "\<And>s t. shown (print s t) = shown s @ t" and "hd_printf cfg = Some print" and "n \<le> length data"
    and "0 < octets_per_chunk cfg" and "octets_per_chunk cfg \<le> octets_per_line cfg" and "n + octets_per_line cfg < SIZE_MOD"
    and "p = (case per_line_prefix cfg of None \<Rightarrow> [] | Some s \<Rightarrow> s)"
  shows "\<exists>s' out'. hexdump h cfg data n d (s, out) = Some (0, (s', out')) \<and>
     shown s' = shown s @ layout h (octets_per_line cfg) (octets_per_chunk cfg) d (take n data) \<and>
     out' = out @ concat (replicate (max 1 (line_count (octets_per_line cfg) n)) p) \<and>
     (\<forall>i < n. number_read 16 (take 2 (drop (length (shown s) + octet_column h (octets_per_line cfg) (octets_per_chunk cfg) i) (shown s'))) =
        unat (data ! i))"
proof -
  have printer: "printer print shown"
    using assms(1) by unfold_locales
  obtain s' out' where r: "hexdump h cfg data n d (s, out) = Some (0, (s', out'))"
    "shown s' = shown s @ layout h (octets_per_line cfg) (octets_per_chunk cfg) d (take n data)"
    "out' = out @ concat (replicate (max 1 (line_count (octets_per_line cfg) n)) p)"
    using printer.hexdump_prints [OF printer assms(2,3) refl refl assms(4-7), of h d "(s, out)"]
    by (auto simp: printer.prints_def [OF printer])
  have "number_read 16 (take 2 (drop (length (shown s) + octet_column h (octets_per_line cfg) (octets_per_chunk cfg) i) (shown s'))) =
      unat (data ! i)" if "i < n" for i
  proof -
    have "0 < octets_per_line cfg" "i < length (take n data)"
      using assms(3-5) that by simp_all
    from layout_column [OF assms(4) this, of h d] that show ?thesis
      unfolding r(2) drop_parts [OF refl] by (simp add: fmt_x_def number_read_padded)
  qed
  with r show ?thesis
    by blast
qed

theorem hexdump_shows_memory_witness:
  "\<exists>s' out'. hexdump True \<lparr>hd_printf = Some (\<lambda>s t. s @ t), per_line_prefix = Some ''# '', octets_per_line = 4, octets_per_chunk = 2\<rparr>
       [0x75, 0x66, 0x77, 0xA7, 0x20, 9] 5 16 ([], ''x'') = Some (0, (s', out')) \<and>
     s' = ''00000010  75 66  77 a7  |ufw.|'' @ [CHR 0x0A] @ ''00000014  20            | |'' @ [CHR 0x0A] \<and> out' = ''x# # '' \<and>
     (\<forall>i < 5. number_read 16 (take 2 (drop (octet_column True 4 2 i) s')) = unat ([0x75, 0x66, 0x77, 0xA7, 0x20, 9 :: u8] ! i))"
proof -
  have range: "[0 ..< 4] = [0, 1, 2, 3 :: nat]" "[0 ..< 2] = [0, 1 :: nat]"
    by (simp_all add: upt_rec)
  have hex: "fmt_x 8 16 = ''00000010''" "fmt_x 8 20 = ''00000014''" "fmt_x 2 117 = ''75''" "fmt_x 2 102 = ''66''" "fmt_x 2 119 = ''77''"
    "fmt_x 2 167 = ''a7''" "fmt_x 2 32 = ''20''"
    by (simp_all add: fmt_x_def zero_padded_def number_text_def digits.simps digit_names_def, simp_all add: numeral_eq_Suc)
  have "line_head 4 2 16 [0x75, 0x66, 0x77, 0xA7] = ''00000010  75 66  77 a7''" "line_head 4 2 20 [0x20] = ''00000014  20          ''"
    by (simp_all add: line_head_def cell_def range hex)
  moreover have "line_tail True [0x75, 0x66, 0x77, 0xA7] = ''  |ufw.|'' @ [CHR 0x0A]" "line_tail True [0x20] = ''  | |'' @ [CHR 0x0A]"
    by (simp_all add: line_tail_def isprint_def octet_char_def char_of_def bit_0)
  ultimately have "layout True 4 2 16 (take 5 [0x75, 0x66, 0x77, 0xA7, 0x20, 9]) =
      ''00000010  75 66  77 a7  |ufw.|'' @ [CHR 0x0A] @ ''00000014  20            | |'' @ [CHR 0x0A]"
    "concat (replicate (max 1 (line_count 4 5)) ''# '') = ''# # ''"
    by (simp_all add: layout_def line_count_def slice_def range numeral_2_eq_2)
  then show ?thesis
    using hexdump_shows_memory [where shown = "\<lambda>s. s" and print = "\<lambda>s t. s @ t" and n = 5 and h = True and d = 16 and s = "[]" and out = "''x''"
        and data = "[0x75, 0x66, 0x77, 0xA7, 0x20, 9]" and p = "''# ''"
        and cfg = "\<lparr>hd_printf = Some (\<lambda>s t. s @ t), per_line_prefix = Some ''# '', octets_per_line = 4, octets_per_chunk = 2\<rparr>"]
    by (simp only: hexdump_cfg.select_convs option.case SIZE_MOD_def) simp
qed

end
