(* ===== verification/Convolution_Low_Pass.thy ===== *)
theory Convolution_Low_Pass
  imports Ufw_Prelude "HOL-Library.Signed_Division" "HOL-Library.Multiset"
begin

text \<open>
  Sliding window filters: the macros of \<^verbatim>\<open>ufw/convolution-low-pass.h\<close> with \<open>TYPE\<close> as \<open>int\<close> of 32 bits, the type they are
  used with. A signed sum or quotient outside of the type is undefined behaviour, as is an access outside of the
  window. The filter state carries the memory its window points to.
\<close>

section \<open>The filter\<close>

definition UINT_MOD :: nat where "UINT_MOD = 2 ^ 32"

definition int_value :: "int \<Rightarrow> int option" where
  "int_value x = (if - (2 ^ 31) \<le> x \<and> x < 2 ^ 31 then Some x else None)"

definition int_plus :: "int \<Rightarrow> int \<Rightarrow> int option" where
  "int_plus a b = int_value (a + b)"

definition int_divide :: "int \<Rightarrow> int \<Rightarrow> int option" where
  "int_divide a b = (if b = 0 then None else int_value (a sdiv b))"

record clp =
  lp_win :: "int list"
  lp_len :: nat
  lp_avg :: int
  lp_first :: bool
  lp_cur :: nat

definition clp_init :: "int list \<Rightarrow> nat \<Rightarrow> clp option" where
  "clp_init buffer len = do {
     win \<leftarrow> mem_write buffer 0 (replicate len 0);
     Some \<lparr>lp_win = win, lp_len = len, lp_avg = 0, lp_first = True, lp_cur = 0\<rparr>
   }"

definition clp_avg :: "clp \<Rightarrow> int" where
  "clp_avg w = lp_avg w"

definition clp_has_min_values :: "clp \<Rightarrow> nat \<Rightarrow> bool" where
  "clp_has_min_values w c =
     (if c > lp_len w then False else if lp_first w then lp_cur w \<ge> c else True)"

function window_sum :: "int list \<Rightarrow> nat \<Rightarrow> nat \<Rightarrow> int \<Rightarrow> int option" where
  "window_sum win n i acc =
     (if i < n
      then (if i < length win then do { s \<leftarrow> int_plus acc (win ! i); window_sum win n (i + 1) s } else None)
      else Some acc)"
  by auto
termination
  by (relation "measure (\<lambda>(win, n, i, acc). n - i)") auto

declare window_sum.simps [simp del]

definition clp_update :: "clp \<Rightarrow> int \<Rightarrow> clp option" where
  "clp_update w value = (
     let count = (if lp_first w then (lp_cur w + 1) mod UINT_MOD else lp_len w) in
     if lp_cur w < length (lp_win w) then
       let win = (lp_win w)[lp_cur w := value];
           cur = (lp_cur w + 1) mod UINT_MOD;
           first = (if cur \<ge> lp_len w then False else lp_first w) in
       if lp_len w = 0 then None
       else do {
         sum \<leftarrow> window_sum win count 0 0;
         avg \<leftarrow> int_divide sum (to_int (int (if count = 0 then 1 else count)));
         Some (w\<lparr>lp_win := win, lp_cur := cur mod lp_len w, lp_first := first, lp_avg := avg\<rparr>)
       }
     else None)"

section \<open>The median\<close>

definition clp_compare :: "int \<Rightarrow> int \<Rightarrow> int" where
  "clp_compare lv rv = (if lv < rv then - 1 else if lv = rv then 0 else 1)"

text \<open>\<open>qsort\<close> of the C library: any order it leaves elements in that compare as equal is the same order here.\<close>

fun insert_by :: "(int \<Rightarrow> int \<Rightarrow> int) \<Rightarrow> int \<Rightarrow> int list \<Rightarrow> int list" where
  "insert_by compare x [] = [x]"
| "insert_by compare x (y # ys) = (if compare x y \<le> 0 then x # y # ys else y # insert_by compare x ys)"

definition qsort :: "(int \<Rightarrow> int \<Rightarrow> int) \<Rightarrow> int list \<Rightarrow> int list" where
  "qsort compare xs = foldr (insert_by compare) xs []"

definition clp_median :: "clp \<Rightarrow> int list \<Rightarrow> (int \<times> int list) option" where
  "clp_median w tmp = (
     let in_use = (if lp_first w then lp_cur w else lp_len w) in
     if in_use = 0 then Some (0, tmp)
     else do {
       xs \<leftarrow> mem_read (lp_win w) 0 in_use;
       tmp \<leftarrow> mem_write tmp 0 (qsort clp_compare xs);
       if in_use mod 2 = 1 then Some (tmp ! (in_use div 2), tmp)
       else do {
         s \<leftarrow> int_plus (tmp ! (in_use div 2)) (tmp ! (in_use div 2 - 1));
         m \<leftarrow> int_divide s 2;
         Some (m, tmp)
       }
     })"

fun clp_updates :: "clp \<Rightarrow> int list \<Rightarrow> clp option" where
  "clp_updates w [] = Some w"
| "clp_updates w (v # vs) = do { w \<leftarrow> clp_update w v; clp_updates w vs }"

section \<open>The window\<close>

text \<open>The last \<open>n\<close> elements of a list, and what a window of \<open>n\<close> cells holds of the values it was given.\<close>

definition latest :: "nat \<Rightarrow> 'a list \<Rightarrow> 'a list" where
  "latest n xs = drop (length xs - n) xs"

lemma latest_all: "length xs \<le> n \<Longrightarrow> latest n xs = xs"
  by (simp add: latest_def)

lemma length_latest [simp]: "length (latest n xs) = min n (length xs)"
  by (simp add: latest_def)

lemma latest_snoc: "0 < n \<Longrightarrow> latest n (xs @ [x]) = (if length xs < n then xs @ [x] else tl (latest n xs) @ [x])"
  by (auto simp: latest_def Suc_diff_le drop_Suc tl_drop)

definition window_holds :: "clp \<Rightarrow> nat \<Rightarrow> int list \<Rightarrow> bool" where
  "window_holds w len vs \<longleftrightarrow> lp_len w = len \<and> len \<le> length (lp_win w) \<and>
     (if length vs < len
      then lp_first w \<and> lp_cur w = length vs \<and> take (length vs) (lp_win w) = vs
      else \<not> lp_first w \<and> lp_cur w < len \<and>
        take len (lp_win w) = drop (len - lp_cur w) (latest len vs) @ take (len - lp_cur w) (latest len vs))"

lemma mset_turned: "mset (drop k xs) + mset (take k xs) = mset xs"
  by (metis append_take_drop_id mset_append union_commute)

lemma window_elements:
  assumes "window_holds w len vs"
  shows "mset (take (min len (length vs)) (lp_win w)) = mset (latest len vs)"
  using assms by (auto simp: window_holds_def latest_all min_def mset_turned split: if_splits)

lemma window_sum_exact:
  assumes "n \<le> length win" "\<And>x. x \<in> set (take n win) \<Longrightarrow> \<bar>x\<bar> \<le> B" "int n * B < 2 ^ 31" "i \<le> n" "0 \<le> B"
  shows "acc = sum_list (take i win) \<Longrightarrow> window_sum win n i acc = Some (sum_list (take n win))"
  using assms(4)
proof (induction "n - i" arbitrary: i acc)
  case 0
  then show ?case
    by (simp add: window_sum.simps)
next
  case (Suc m)
  have "\<bar>sum_list (take j win)\<bar> \<le> int j * B" if "j \<le> n" for j
    using that
  proof (induction j)
    case (Suc j)
    then have "win ! j \<in> set (take n win)"
      using assms(1) by (auto simp: in_set_conv_nth intro!: exI [of _ j])
    then have "\<bar>win ! j\<bar> \<le> B"
      by (rule assms(2))
    with Suc assms(1) show ?case
      by (simp add: take_Suc_conv_app_nth distrib_right)
  qed simp
  from this [of "Suc i"] have "\<bar>sum_list (take (Suc i) win)\<bar> \<le> int (Suc i) * B"
    using Suc.hyps(2) by simp
  also have "\<dots> \<le> int n * B"
    using Suc.hyps(2) assms(5) by (intro mult_right_mono) simp_all
  finally have "\<bar>sum_list (take (Suc i) win)\<bar> < 2 ^ 31"
    using assms(3) by simp
  then have "int_plus acc (win ! i) = Some (sum_list (take (Suc i) win))"
    using Suc assms(1) by (simp add: int_plus_def int_value_def take_Suc_conv_app_nth abs_less_iff)
  with Suc.hyps(1) [of "Suc i"] Suc.hyps(2) Suc.prems assms(1) show ?case
    by (subst window_sum.simps) auto
qed

lemma sdiv_small: "0 < (b::int) \<Longrightarrow> \<bar>a sdiv b\<bar> \<le> \<bar>a\<bar>"
proof -
  assume "0 < b"
  then have "\<bar>a\<bar> div b \<le> \<bar>a\<bar>" "0 \<le> \<bar>a\<bar> div b"
    using zdiv_mono2 [of "\<bar>a\<bar>" 1 b] by (simp_all add: pos_imp_zdiv_nonneg_iff)
  with \<open>0 < b\<close> show ?thesis
    by (simp add: signed_divide_int_def abs_mult abs_sgn_eq)
qed

lemma qsort_sorts: "qsort clp_compare xs = sort xs"
proof -
  have "insert_by clp_compare x ys = insort x ys" for x ys
    by (induction ys) (auto simp: clp_compare_def)
  then have "insert_by clp_compare = insort"
    by blast
  then show ?thesis
    by (simp add: qsort_def sort_key_def)
qed

lemma sum_bound: "(\<And>x. x \<in> set xs \<Longrightarrow> \<bar>x\<bar> \<le> B) \<Longrightarrow> \<bar>sum_list xs\<bar> \<le> int (length xs) * (B::int)"
  by (induction xs) (force simp: distrib_right)+

lemma set_latest: "set (latest n xs) \<subseteq> set xs"
  by (simp add: latest_def set_drop_subset)

lemma update_holds:
  assumes "window_holds w len vs" and "0 < len" and "len < 2 ^ 31" and "\<And>x. x \<in> set (vs @ [v]) \<Longrightarrow> \<bar>x\<bar> \<le> B" and "int len * B < 2 ^ 31"
  shows "\<exists>w'. clp_update w v = Some w' \<and> window_holds w' len (vs @ [v]) \<and>
     lp_avg w' = sum_list (latest len (vs @ [v])) sdiv int (min len (Suc (length vs)))"
proof -
  let ?vs = "vs @ [v]" and ?win = "(lp_win w)[lp_cur w := v]" and ?k = "min len (Suc (length vs))"
  let ?cur = "Suc (lp_cur w)"
  have cur: "lp_cur w < len" "lp_len w = len" "len \<le> length (lp_win w)" "?cur mod UINT_MOD = ?cur"
    using assms(1,3) by (auto simp: window_holds_def UINT_MOD_def split: if_splits)
  have count: "(if lp_first w then (lp_cur w + 1) mod UINT_MOD else lp_len w) = ?k"
    using assms(1) cur(4) by (auto simp: window_holds_def split: if_splits)
  define first where "first = (if ?cur \<ge> len then False else lp_first w)"
  define w' where "w' = w\<lparr>lp_win := ?win, lp_cur := ?cur mod len, lp_first := first, lp_avg := sum_list (latest len ?vs) sdiv int ?k\<rparr>"
  have holds: "window_holds w' len ?vs"
  proof (cases "length vs < len")
    case True
    then have w: "lp_first w" "lp_cur w = length vs" "take (length vs) (lp_win w) = vs"
      using assms(1) by (simp_all add: window_holds_def)
    have "take (Suc (length vs)) ?win = ?vs"
      using w cur by (simp add: take_Suc_conv_app_nth take_update_cancel)
    with True w cur show ?thesis
      by (cases "Suc (length vs) = len") (auto simp: w'_def first_def window_holds_def latest_all)
  next
    case False
    then have w: "\<not> lp_first w" "take len (lp_win w) = drop (len - lp_cur w) (latest len vs) @ take (len - lp_cur w) (latest len vs)"
      using assms(1) by (simp_all add: window_holds_def)
    have "length (latest len vs) = len"
      using False by simp
    then obtain y ys where ys: "latest len vs = y # ys" "len = Suc (length ys)"
      using assms(2) by (metis length_0_conv less_irrefl length_Cons neq_Nil_conv)
    obtain k where k: "len - lp_cur w = Suc k" "k + lp_cur w = length ys"
      using cur(1) ys(2) by (metis Suc_diff_Suc add_Suc add_diff_inverse_nat add.commute diff_Suc_Suc less_imp_not_less not_less_eq old.nat.inject)
    have "take len ?win = (drop k ys @ y # take k ys)[lp_cur w := v]"
      using w(2) ys k by (simp add: take_update_swap)
    moreover have "length ys - k = lp_cur w"
      using k(2) by simp
    then have "(drop k ys @ y # take k ys)[lp_cur w := v] = drop k ys @ v # take k ys"
      by (simp add: list_update_append)
    ultimately have new: "take len ?win = drop k ys @ v # take k ys"
      by simp
    have "latest len ?vs = ys @ [v]"
      using False assms(2) ys by (simp add: latest_snoc)
    moreover have "length ys - lp_cur w = k"
      using k(2) by simp
    ultimately show ?thesis
      using new False w cur k ys
      by (cases "k = 0") (simp_all add: w'_def first_def window_holds_def)
  qed
  have elements: "mset (take ?k ?win) = mset (latest len ?vs)"
    using window_elements [OF holds] by (simp add: w'_def)
  have bound: "\<bar>x\<bar> \<le> B" if "x \<in> set (take ?k ?win)" for x
    using that mset_eq_setD [OF elements] set_latest [of len ?vs] assms(4) by blast
  have B: "0 \<le> B"
    using assms(4) [of v] by simp
  have "int ?k * B \<le> int len * B"
    using B by (intro mult_right_mono) simp_all
  then have small: "int ?k * B < 2 ^ 31"
    using assms(5) by simp
  have "window_sum ?win ?k 0 0 = Some (sum_list (take ?k ?win))"
    using window_sum_exact [of ?k ?win B 0 0] bound small B cur(3) by simp
  moreover have "sum_list (take ?k ?win) = sum_list (latest len ?vs)"
    using elements by (metis sum_mset_sum_list)
  moreover have "\<bar>sum_list (take ?k ?win)\<bar> \<le> int ?k * B"
    using sum_bound [of "take ?k ?win" B] bound cur(3) by simp
  then have "\<bar>sum_list (take ?k ?win) sdiv int ?k\<bar> < 2 ^ 31"
    using sdiv_small [of "int ?k" "sum_list (take ?k ?win)"] small assms(2) by linarith
  moreover have "to_int (int ?k) = int ?k"
    using assms(3) by simp
  moreover have nz: "?k \<noteq> 0"
    using assms(2) by simp
  ultimately have "clp_update w v = Some w'"
    using cur count assms(2)
    by (simp add: nz clp_update_def Let_def int_divide_def int_value_def abs_less_iff w'_def first_def cong: if_cong)
  with holds show ?thesis
    by (intro exI [of _ w']) (simp add: w'_def)
qed

lemma updates_hold:
  assumes "window_holds w len vs" and "0 < len" and "len < 2 ^ 31" and "\<And>x. x \<in> set (vs @ us) \<Longrightarrow> \<bar>x\<bar> \<le> B" and "int len * B < 2 ^ 31"
    and "lp_avg w = sum_list (latest len vs) sdiv int (min len (length vs))"
  shows "\<exists>w'. clp_updates w us = Some w' \<and> window_holds w' len (vs @ us) \<and>
     lp_avg w' = sum_list (latest len (vs @ us)) sdiv int (min len (length (vs @ us)))"
  using assms(1,4,6)
proof (induction us arbitrary: w vs)
  case (Cons u us)
  then have "\<bar>x\<bar> \<le> B" if "x \<in> set (vs @ [u])" for x
    using that by auto
  from update_holds [OF Cons.prems(1) assms(2,3) this assms(5)] obtain w' where
    w': "clp_update w u = Some w'" "window_holds w' len (vs @ [u])"
      "lp_avg w' = sum_list (latest len (vs @ [u])) sdiv int (min len (Suc (length vs)))"
    by blast
  with Cons.IH [OF w'(2)] Cons.prems(2) show ?case
    by simp
qed simp

lemma init_holds:
  assumes "len \<le> length buffer" and "0 < len"
  shows "\<exists>w. clp_init buffer len = Some w \<and> window_holds w len [] \<and> lp_avg w = 0"
  using assms by (simp add: clp_init_def mem_write_def window_holds_def)

definition middle :: "int list \<Rightarrow> int" where
  "middle xs = (let s = sort xs; n = length xs in
     if n = 0 then 0 else if odd n then s ! (n div 2) else (s ! (n div 2) + s ! (n div 2 - 1)) sdiv 2)"

lemma median_middle:
  assumes "window_holds w len vs" and "len \<le> length tmp" and "\<And>x. x \<in> set vs \<Longrightarrow> \<bar>x\<bar> \<le> B" and "int len * B < 2 ^ 31"
  shows "clp_median w tmp = Some (middle (latest len vs), sort (latest len vs) @ drop (min len (length vs)) tmp)"
proof (cases "min len (length vs) = 0")
  case True
  then show ?thesis
    using assms(1) by (auto simp: clp_median_def window_holds_def middle_def latest_all split: if_splits)
next
  case False
  let ?k = "min len (length vs)" and ?xs = "latest len vs"
  have k: "(if lp_first w then lp_cur w else lp_len w) = ?k" "?k \<le> length (lp_win w)" "0 < ?k" "?k \<le> length tmp"
    using assms(1,2) False by (auto simp: window_holds_def split: if_splits)
  have srt: "sort (take ?k (lp_win w)) = sort ?xs"
    using window_elements [OF assms(1)] by (intro properties_for_sort) simp_all
  have small: "\<bar>sort ?xs ! i\<bar> \<le> B" if "i < ?k" for i
  proof -
    have "sort ?xs ! i \<in> set (sort ?xs)"
      using that by (intro nth_mem) simp
    then show ?thesis
      using set_latest [of len vs] assms(3) by auto
  qed
  have sum: "int_plus (sort ?xs ! i) (sort ?xs ! j) = Some (sort ?xs ! i + sort ?xs ! j)"
    "int_divide (sort ?xs ! i + sort ?xs ! j) 2 = Some ((sort ?xs ! i + sort ?xs ! j) sdiv 2)" if "i < ?k" "j < ?k" "2 \<le> ?k" for i j
  proof -
    have "2 * B \<le> int len * B"
      using that(3) small [OF that(1)] by (intro mult_right_mono) simp_all
    then have "\<bar>sort ?xs ! i + sort ?xs ! j\<bar> < 2 ^ 31"
      using assms(4) small [OF that(1)] small [OF that(2)] by linarith
    then show "int_plus (sort ?xs ! i) (sort ?xs ! j) = Some (sort ?xs ! i + sort ?xs ! j)"
      "int_divide (sort ?xs ! i + sort ?xs ! j) 2 = Some ((sort ?xs ! i + sort ?xs ! j) sdiv 2)"
      using sdiv_small [of 2 "sort ?xs ! i + sort ?xs ! j"]
      by (simp_all add: int_plus_def int_divide_def int_value_def) linarith+
  qed
  have at: "(sort ?xs @ drop ?k tmp) ! i = sort ?xs ! i" if "i < ?k" for i
    using that by (simp add: nth_append)
  have parts: "?k div 2 < ?k" "?k div 2 - 1 < ?k"
  proof -
    have "n div 2 < n \<and> n div 2 - 1 < n" if "0 < n" for n :: nat
      using that by auto
    from this [OF k(3)] show "?k div 2 < ?k" "?k div 2 - 1 < ?k"
      by blast+
  qed
  have start: "clp_median w tmp = (if odd ?k then Some (sort ?xs ! (?k div 2), sort ?xs @ drop ?k tmp)
      else do {
        s \<leftarrow> int_plus (sort ?xs ! (?k div 2)) (sort ?xs ! (?k div 2 - 1));
        m \<leftarrow> int_divide s 2;
        Some (m, sort ?xs @ drop ?k tmp) })"
    unfolding clp_median_def Let_def k(1)
    using k(2,4) at [OF parts(1)] at [OF parts(2)] by (simp add: False mem_read_def mem_write_def qsort_sorts srt odd_iff_mod_2_eq_one)
  have half: "int_plus (sort ?xs ! (?k div 2)) (sort ?xs ! (?k div 2 - 1)) = Some (sort ?xs ! (?k div 2) + sort ?xs ! (?k div 2 - 1))"
    "int_divide (sort ?xs ! (?k div 2) + sort ?xs ! (?k div 2 - 1)) 2 = Some ((sort ?xs ! (?k div 2) + sort ?xs ! (?k div 2 - 1)) sdiv 2)"
    if "even ?k"
  proof -
    have two: "2 \<le> n" if "even n" "n \<noteq> 0" for n :: nat
      using that by (cases "n = 1") auto
    from sum [OF parts two [OF that False]] show "int_plus (sort ?xs ! (?k div 2)) (sort ?xs ! (?k div 2 - 1)) = Some (sort ?xs ! (?k div 2) + sort ?xs ! (?k div 2 - 1))"
      "int_divide (sort ?xs ! (?k div 2) + sort ?xs ! (?k div 2 - 1)) 2 = Some ((sort ?xs ! (?k div 2) + sort ?xs ! (?k div 2 - 1)) sdiv 2)"
      by blast+
  qed
  show ?thesis
    unfolding start middle_def Let_def length_latest using half by (cases "odd ?k") (simp_all add: False)
qed

text \<open>C36. The sliding window. After any sequence of updates of a fresh filter over a window of \<open>len\<close> cells, when no sum of
  \<open>len\<close> values leaves the type, the average is the sum of the last \<open>len\<close> values (or of all, as long as there are not as
  many) divided by their number, rounded towards zero; the filter says that it has \<open>c\<close> values exactly when \<open>c\<close> of
  them are in the window; and the median is the middle of the sorted values, or the mean of the middle two, with the
  sorted values left in the scratch memory and nothing changed behind them.\<close>

theorem window_average_median:
  assumes "0 < len" and "len \<le> length buffer" and "len < 2 ^ 31" and "\<And>x. x \<in> set vs \<Longrightarrow> \<bar>x\<bar> \<le> B" and "int len * B < 2 ^ 31"
    and "len \<le> length tmp" and "k = min len (length vs)"
  shows "\<exists>w. Option.bind (clp_init buffer len) (\<lambda>w. clp_updates w vs) = Some w \<and>
     clp_avg w = sum_list (latest len vs) sdiv int k \<and> (\<forall>c. clp_has_min_values w c = (c \<le> k)) \<and>
     clp_median w tmp = Some (middle (latest len vs), sort (latest len vs) @ drop k tmp)"
proof -
  obtain w0 where w0: "clp_init buffer len = Some w0" "window_holds w0 len []" "lp_avg w0 = 0"
    using init_holds [OF assms(2,1)] by blast
  have "\<bar>x\<bar> \<le> B" if "x \<in> set ([] @ vs)" for x
    using that assms(4) by simp
  moreover have "lp_avg w0 = sum_list (latest len []) sdiv int (min len (length ([] :: int list)))"
    using w0(3) by (simp add: latest_def)
  ultimately obtain w where w: "clp_updates w0 vs = Some w" "window_holds w len vs"
      "lp_avg w = sum_list (latest len vs) sdiv int k"
    using updates_hold [OF w0(2) assms(1,3), of vs B] assms(5,7) by auto
  have "clp_has_min_values w c = (c \<le> k)" for c
    using w(2) assms(7) by (auto simp: clp_has_min_values_def window_holds_def split: if_splits)
  with w0(1) w(1,3) median_middle [OF w(2) assms(6,4,5)] show ?thesis
    using assms(7) by (simp add: clp_avg_def)
qed

lemma window_average_median_witness:
  "\<exists>w. Option.bind (clp_init [7, 7, 7, 7] 4) (\<lambda>w. clp_updates w [11, 22, 33, 44, 55, 67]) = Some w \<and>
     clp_avg w = 49 \<and> (\<forall>c. clp_has_min_values w c = (c \<le> 4)) \<and> clp_median w [0, 0, 0, 0, 9] = Some (49, [33, 44, 55, 67, 9])"
proof -
  have "latest 4 [11, 22, 33, 44, 55, 67] = [33, 44, 55, 67 :: int]"
    by (simp add: latest_def)
  moreover have "\<bar>x\<bar> \<le> 100" if "x \<in> set [11, 22, 33, 44, 55, 67 :: int]" for x
    using that by auto
  ultimately show ?thesis
    using window_average_median [of 4 "[7, 7, 7, 7]" "[11, 22, 33, 44, 55, 67]" 100 "[0, 0, 0, 0, 9]" 4]
    by (simp add: middle_def sort_key_def signed_divide_int_def del: clp_updates.simps)
qed

end
