(* ===== verification/Spec2Isabelle.thy ===== *)
theory Spec2Isabelle
  imports Byte_Buffer Crc16 Ring_Buffer Zephyr_Endpoints Varint Slip_Filter Length_Prefix Persistent_Storage Register_Transactions Register_Shell
    Versioned_Persistence S_Expression_Parser Zephyr_Text Hexdump Convolution_Low_Pass
begin

text \<open>
  A verification development for the library ufw: a C library for embedded systems of octet buffers, transport of
  octets between endpoints, framing, register tables with a protocol to access them from outside, storage that
  checks itself, and small utilities. The theories model the library function by function; this theory imports all
  of them. File names are relative to the root of the repository; \<^verbatim>\<open>src/\<close> there holds the implementation and
  \<^verbatim>\<open>include/ufw/\<close> the interface.

  \<^bold>\<open>The program and its parts.\<close>

  Nearly everything is built on five layers, which use the ones before them.

  \<^item> Memory: byte buffers and ring buffers keep octets with marks for what is filled and what was read; the typed
  access functions put numbers into octets in a given octet order.
  \<^item> Endpoints: a source or a sink is a driver, which transfers octets one by one or in chunks and may be interrupted
  or fail. The core adapts one kind to the other, retries, and plugs sources into sinks. Drivers exist for buffers, lists
  of buffers, POSIX file descriptors, Zephyr's serial ports, and for blocks that an allocator hands out as octets arrive.
  \<^item> Framing: variable length integers, length prefixes and SLIP make frames of octet sequences on endpoints.
  \<^item> Register tables: registers of typed, validated values at addresses within areas of memory or of callbacks.
  \<^item> The register protocol: requests, responses and meta frames with checksums, framed by a length prefix or by SLIP, that
  read and write the memory of another instance, which may be a register table.

  Beside them stand two kinds of storage that detect damage by a checksum (persistent storage over two callbacks, versioned
  persistence over endpoints that can seek), the CRC, S-expressions, and the functions that print.

  \<^bold>\<open>Which theory models what.\<close>

  \<^item> \<^verbatim>\<open>Ufw_Prelude\<close>: integer types, arithmetic of \<^verbatim>\<open>size_t\<close>, error numbers, reads and writes of memory objects.
  \<^item> \<^verbatim>\<open>Interfaces\<close>: the contracts between components, as locales (see below).
  \<^item> \<^verbatim>\<open>Bit_Macros\<close>: \<^verbatim>\<open>include/ufw/bit-operations.h\<close>.
  \<^item> \<^verbatim>\<open>Byte_Buffer\<close>: \<^verbatim>\<open>src/byte-buffer.c\<close>. The record \<^verbatim>\<open>ByteBuffer\<close> is the structure; \<^verbatim>\<open>bb_step\<close> is one call of the interface
  and \<^verbatim>\<open>bb_run\<close> a list of calls; \<^verbatim>\<open>bb_pending\<close> is the abstract queue.
  \<^item> \<^verbatim>\<open>Ring_Buffer\<close>: \<^verbatim>\<open>include/ufw/ring-buffer.h\<close>, \<^verbatim>\<open>ring-buffer-iter.h\<close>, \<^verbatim>\<open>src/ring-buffer-iter.c\<close>, \<^verbatim>\<open>src/octet-ring.c\<close>. The macros are
  polymorphic definitions; \<^verbatim>\<open>rb_list\<close> is the abstract queue.
  \<^item> \<^verbatim>\<open>Crc16\<close>: \<^verbatim>\<open>src/crc-16-arc.c\<close>.
  \<^item> \<^verbatim>\<open>Binary_Format\<close>: \<^verbatim>\<open>include/ufw/binary-format.h\<close>, every pair of a reading and a storing function, on machines of both octet
  orders.
  \<^item> \<^verbatim>\<open>Endpoint_Core\<close>: \<^verbatim>\<open>include/ufw/endpoints.h\<close> and \<^verbatim>\<open>src/endpoints/core.c\<close>. \<^verbatim>\<open>Endpoint_Drivers\<close>: \<^verbatim>\<open>buffer.c\<close>, \<^verbatim>\<open>trivial.c\<close>,
  \<^verbatim>\<open>instrumentable.c\<close> and \<^verbatim>\<open>continuable-sink.c\<close> of \<^verbatim>\<open>src/endpoints/\<close>, and \<^verbatim>\<open>src/allocator.c\<close>. \<^verbatim>\<open>Posix_Endpoints\<close>: \<^verbatim>\<open>src/endpoints/posix.c\<close>.
  \<^verbatim>\<open>Zephyr_Endpoints\<close>: \<^verbatim>\<open>endpoint-uart-fifo.c\<close>, \<^verbatim>\<open>endpoint-uart-poll.c\<close> and \<^verbatim>\<open>slab-allocator.c\<close> of \<^verbatim>\<open>src/z/\<close>.
  \<^item> \<^verbatim>\<open>Varint\<close>: \<^verbatim>\<open>src/variable-length-integer.c\<close>. \<^verbatim>\<open>Length_Prefix\<close>: \<^verbatim>\<open>src/length-prefix.c\<close>. \<^verbatim>\<open>Slip\<close>: \<^verbatim>\<open>src/rfc1055.c\<close>.
  \<^verbatim>\<open>Slip_Filter\<close>: the program \<^verbatim>\<open>examples/ex-rfc1055-parse-frame.c\<close>.
  \<^item> \<^verbatim>\<open>Persistent_Storage\<close>: \<^verbatim>\<open>src/persistent-storage.c\<close>. \<^verbatim>\<open>Versioned_Persistence\<close>: \<^verbatim>\<open>src/vp/core.c\<close> and \<^verbatim>\<open>src/vp/internal.c\<close>.
  \<^item> \<^verbatim>\<open>Register_Values\<close>, \<^verbatim>\<open>Register_Table\<close>: \<^verbatim>\<open>src/registers/core.c\<close>, values and tables. \<^verbatim>\<open>Register_Blocks\<close>, \<^verbatim>\<open>Register_Laws\<close>,
  \<^verbatim>\<open>Register_Runs\<close>: what the operations do to the cells of the address space, and sequences of them. \<^verbatim>\<open>Register_Init\<close>:
  initialisation. \<^verbatim>\<open>Register_Declare\<close>: the macros of \<^verbatim>\<open>include/ufw/register-table.h\<close> that declare tables.
  \<^verbatim>\<open>Register_Utilities\<close>: \<^verbatim>\<open>src/registers/utilities.c\<close>. \<^verbatim>\<open>Register_Shell\<close>: \<^verbatim>\<open>src/z/shell-addons.c\<close>.
  \<^item> \<^verbatim>\<open>Register_Protocol\<close>: \<^verbatim>\<open>src/register-protocol.c\<close>. \<^verbatim>\<open>Register_Frames\<close>: frames as octets. \<^verbatim>\<open>Register_Transport\<close>: their way through
  the endpoints. \<^verbatim>\<open>Register_Transactions\<close>: requests, processing and responses of two instances.
  \<^item> \<^verbatim>\<open>Compat_Strings\<close>: \<^verbatim>\<open>src/compat/strlcpy.c\<close>, \<^verbatim>\<open>strlcat.c\<close>, \<^verbatim>\<open>strnlen.c\<close>. \<^verbatim>\<open>S_Expressions\<close>, \<^verbatim>\<open>S_Expression_Parser\<close>: \<^verbatim>\<open>src/sx.c\<close>.
  \<^item> \<^verbatim>\<open>Text_Formats\<close>: the conversions of \<^verbatim>\<open>printf\<close> that are used. \<^verbatim>\<open>Hexdump\<close>: \<^verbatim>\<open>src/hexdump.c\<close>. \<^verbatim>\<open>Zephyr_Text\<close>: \<^verbatim>\<open>driver-i2c-text.c\<close> and
  \<^verbatim>\<open>driver-spi-text.c\<close> of \<^verbatim>\<open>src/z/\<close>. \<^verbatim>\<open>Convolution_Low_Pass\<close>: \<^verbatim>\<open>include/ufw/convolution-low-pass.h\<close>.

  \<^bold>\<open>How the model corresponds to the code.\<close>

  Structures are records with the fields of the source, enumerations datatypes or, where the code computes with them, the
  numbers C gives them. A function that changes what it is given a pointer to takes the old value and returns its result
  and the new one. Names are those of the source; only where a name is taken in HOL it has a suffix.

  Octets are \<^verbatim>\<open>8 word\<close>, and numbers of a fixed width are words of that width, on which arithmetic wraps as in C; signed ones are
  words read as two's complement or integers that are narrowed explicitly, and floating point values are their bit patterns.
  \<^verbatim>\<open>size_t\<close> is a natural number, with the reduction modulo \<^verbatim>\<open>SIZE_MOD\<close> written out. Handles, addresses and offsets of
  registers are naturals with the wrap-around at 32 bits written out. \<^verbatim>\<open>int\<close> and \<^verbatim>\<open>ssize_t\<close> results are integers; a driver for octets that reports a chunk result narrows
  it to \<^verbatim>\<open>int\<close>, and a sum of \<^verbatim>\<open>ssize_t\<close> that leaves the type has no value. Error codes are the negative numbers the functions return.

  \<^verbatim>\<open>None\<close> is the value of every call that C leaves without one: an access outside of its memory object, a null pointer that is
  dereferenced, an undefined arithmetic operation, or a loop that never stops. A theorem that says \<^verbatim>\<open>Some\<close> therefore
  states memory safety and termination. Loops are structural recursion where the source counts, and \<^verbatim>\<open>partial_function (option)\<close>
  where it waits for something; no definition has fuel, so that nothing depends on a bound that was chosen for
  the model. Whether such a loop ends is a theorem: the readers and writers of
  \<^verbatim>\<open>Endpoint_Core\<close> have a measure, their patience, of how often they may still be interrupted.

  Code outside of the repository is a parameter: the system calls, the kernel of Zephyr, \<^verbatim>\<open>malloc\<close>, callbacks of the user. What
  they document is a hypothesis of the facts that need it, and the witnesses instantiate it. What is part of the C library
  and has no state is modelled: the predicates for characters, in the C locale, and the conversions of \<^verbatim>\<open>printf\<close>.

  The machine has bytes of eight bits, \<^verbatim>\<open>int\<close> of 32 and \<^verbatim>\<open>long\<close> and \<^verbatim>\<open>size_t\<close> of 64 bits, and the error numbers of Linux. The octet order of the
  machine is the parameter \<^verbatim>\<open>e\<close> wherever the result depends on it.

  \<^bold>\<open>The contracts between the parts.\<close>

  The locales of \<^verbatim>\<open>Interfaces\<close>: \<^verbatim>\<open>block_queue\<close> (a buffer that accepts and gives out octets), \<^verbatim>\<open>bounded_queue\<close>, \<^verbatim>\<open>streaming_sum\<close> (a
  checksum that may be computed piecewise) and \<^verbatim>\<open>datum_codec\<close> (a pair of functions that store and read a datum). Those of
  \<^verbatim>\<open>Endpoint_Core\<close>: \<^verbatim>\<open>reader\<close> and \<^verbatim>\<open>writer\<close>, with chunk and octet drivers as sublocales, and \<^verbatim>\<open>channel\<close>, both together, which holds the facts
  about retrying and plumbing. \<^verbatim>\<open>storage_medium\<close> and \<^verbatim>\<open>checked_storage\<close> are what the two kinds of storage need of their medium,
  \<^verbatim>\<open>area_backend\<close> is what register tables need of the callbacks of an area, \<^verbatim>\<open>printer\<close> is a function that appends text.
  Each is interpreted on the code that provides it: byte and ring buffers, the CRC and the trivial sum, all 48
  pairs of \<^verbatim>\<open>Binary_Format\<close>, the buffer drivers, memory areas, the media of the tests. The facts about file descriptors and serial ports
  are instances for every system call that keeps what is documented of it.

  \<^bold>\<open>What is proved.\<close>

  \<^item> Memory. A byte buffer is a first-in first-out queue, and no list of calls with the documented preconditions
  leaves its memory (\<^verbatim>\<open>byte_buffer_fifo\<close>, \<^verbatim>\<open>byte_buffer_calls_safe\<close>). A ring buffer is a bounded queue in both modes
  (\<^verbatim>\<open>ring_buffer_is_bounded_queue\<close>). Data stored one behind the other are read back (\<^verbatim>\<open>bf_roundtrip\<close>), the CRC is the division it
  stands for (\<^verbatim>\<open>crc16_table_is_bitwise\<close>), strings are copied and appended as far as there is room (\<^verbatim>\<open>strl_builds_prefix\<close>).
  \<^item> Transport. Transfers through drivers of any kind end, keep the order of the octets and count them
  (\<^verbatim>\<open>drain_chunks_to_buffer\<close>, \<^verbatim>\<open>chunk_list_get_chunk\<close>, \<^verbatim>\<open>filedesc_copy\<close>). The last one asks for no more data than \<^verbatim>\<open>ssize_t\<close>
  counts, for system calls that do not fail and that transfer less than \<^verbatim>\<open>2 ^ 31\<close> octets at a time, and for a file with room.
  \<^item> Framing. Numbers, messages and frames come out as they went in (\<^verbatim>\<open>varint_roundtrip\<close>, \<^verbatim>\<open>lenp_frames_in_order\<close> for
  messages that are not empty and have room in the prefix and the receiver, \<^verbatim>\<open>slip_roundtrip\<close>), SLIP recovers after a broken
  frame (\<^verbatim>\<open>slip_recovers\<close>), and so does the program around it (\<^verbatim>\<open>slip_filter_decodes\<close>, for system calls that are not interrupted: an
  interruption behind an escape octet loses it, \<^verbatim>\<open>interruption_loses_escape\<close>).
  \<^item> Storage. What was stored is fetched (\<^verbatim>\<open>persistent_roundtrip\<close>, \<^verbatim>\<open>vp_save_load\<close>), also from a medium that fails now and then
  (\<^verbatim>\<open>persistent_store_sound\<close>); a section is an array of octets (\<^verbatim>\<open>vp_section_is_array\<close>), loading gives exactly the documented verdicts
  (\<^verbatim>\<open>vp_load_exact\<close>, \<^verbatim>\<open>vp_format_then_load\<close>), and damage of two neighbouring octets is found, except for the one pair
  where a checksum ends and what it covers begins (\<^verbatim>\<open>vp_detects_damage\<close>). The computation of a checksum ends if and only if the auxiliary buffer
  is not empty (\<^verbatim>\<open>persistent_calculation_ends\<close>); the properties of stores ask for that, and for offsets whose sum with
  the size does not wrap around, since the range check of the code is passed by sums that do.
  \<^item> Registers. Values survive in memory, in both directions (\<^verbatim>\<open>register_value_roundtrip\<close>); declared tables are well typed
  (\<^verbatim>\<open>register_declared_typed\<close>), initialisation makes them well-formed (\<^verbatim>\<open>register_init_ok\<close>), and every operation keeps all registers at values their validators
  accept (\<^verbatim>\<open>registers_stay_valid\<close>). Single registers and blocks are read back, and nothing else changes (\<^verbatim>\<open>register_set_get\<close>,
  \<^verbatim>\<open>register_block_roundtrip\<close>). Block writes are taken to begin at a register or in a gap: one that begins inside of a register copies an atom too
  many, which is one of the findings.
  \<^item> The protocol. Headers are read as they were written (\<^verbatim>\<open>regp_header_roundtrip\<close>), the parser stays within the block except in one case
  that is characterised (\<^verbatim>\<open>parse_frame_over_read\<close>), requests and their answers arrive (\<^verbatim>\<open>regp_write_delivered\<close>, \<^verbatim>\<open>regp_read_transaction\<close>),
  and which error responses the peer refuses is stated (\<^verbatim>\<open>regp_error_replies\<close>). The words of a payload are sent as they lie in the
  memory of the sender; between machines of different octet order they arrive with their octets exchanged, and
  the theorem says so.
  \<^item> Expressions and output. List operations on the heap (\<^verbatim>\<open>sx_list_operations\<close>), the parser on any text (\<^verbatim>\<open>sx_parse_safe\<close>), on texts that
  spell an expression (\<^verbatim>\<open>sx_parse_text\<close>: lower case hexadecimal digits, numbers modulo \<^verbatim>\<open>2 ^ 64\<close>, no empty list inside of a list) and on one it
  gets wrong (\<^verbatim>\<open>sx_empty_list_ends_list\<close>); the layout of dumps and tables (\<^verbatim>\<open>hexdump_shows_memory\<close>, \<^verbatim>\<open>register_table_print_lists\<close>); the
  filters (\<^verbatim>\<open>window_average_median\<close>).

  A theorem with hypotheses is followed by a witness, which applies it to a concrete case. Where a property has a side
  condition, lemmas such as \<^verbatim>\<open>vp_store_before_section\<close>, \<^verbatim>\<open>fetch_part_wrapped_offset\<close> and \<^verbatim>\<open>interruption_loses_escape\<close> show on a
  concrete input what the code does without it.

  \<^bold>\<open>What is not modelled.\<close>

  \<^item> The trace and debug output of the endpoints and the I2C driver, and assertions, which the default build compiles out.
  \<^item> The variants for bytes of sixteen bits, for compilers with builtins that swap octets, and for machines without \<^verbatim>\<open>uint8_t\<close>.
  \<^item> Sources and sinks that share memory, apart from versioned persistence, where both reach one peripheral; access from several threads.
  \<^item> Attributes, feature tests and constants in headers (\<^verbatim>\<open>compiler.h\<close>, \<^verbatim>\<open>meta.h\<close>, \<^verbatim>\<open>compat.h\<close> and most of \<^verbatim>\<open>compat/\<close>), which have
  no behaviour; the start up code of the Cortex M3, which is outside of the semantics of C.
  \<^item> The support for tests (\<^verbatim>\<open>src/test/\<close>) and the tests themselves, the program \<^verbatim>\<open>ex-regp-parse-frame.c\<close>, which reads a file and prints it,
  the Zephyr application that runs the tests, and the build system, tools and documentation.
  \<^item> \<^verbatim>\<open>CUSTOM_AREA_WO\<close>, which does not compile; the registration of commands and devices with the Zephyr kernel.
\<close>

end
